(* ===== verification/Prelude.thy ===== *)
theory Prelude imports Main "HOL-Library.Monad_Syntax" "HOL-Library.Word" begin

text \<open>
  Shared base of the development: the return codes of \<^verbatim>\<open>inc/upnp.h\<close> and
  \<^verbatim>\<open>http_client.h\<close>, a byte-level store for C objects, the character classes of the
  C locale, and the string routines of the C library that the sources call.

  A C object (an array of \<^verbatim>\<open>char\<close>) is a block of the store \<open>mem\<close>; a pointer is a block
  and an offset.  Reading outside the block is undefined behaviour, and every routine that
  reads memory returns an \<open>option\<close>: \<open>None\<close> stands for such a read.  A theorem that a routine
  returns \<open>Some\<close> is therefore a memory-safety statement.
\<close>

named_theorems scan_simps \<open>closed forms of the scanning routines\<close>

section \<open>Return codes\<close>

abbreviation (input) HTTP_SUCCESS :: int where "HTTP_SUCCESS \<equiv> 1"
abbreviation (input) UPNP_E_SUCCESS :: int where "UPNP_E_SUCCESS \<equiv> 0"
abbreviation (input) UPNP_E_INVALID_HANDLE :: int where "UPNP_E_INVALID_HANDLE \<equiv> - 100"
abbreviation (input) UPNP_E_INVALID_PARAM :: int where "UPNP_E_INVALID_PARAM \<equiv> - 101"
abbreviation (input) UPNP_E_OUTOF_HANDLE :: int where "UPNP_E_OUTOF_HANDLE \<equiv> - 102"
abbreviation (input) UPNP_E_OUTOF_MEMORY :: int where "UPNP_E_OUTOF_MEMORY \<equiv> - 104"
abbreviation (input) UPNP_E_INVALID_URL :: int where "UPNP_E_INVALID_URL \<equiv> - 108"
abbreviation (input) UPNP_E_INVALID_SID :: int where "UPNP_E_INVALID_SID \<equiv> - 109"
abbreviation (input) UPNP_E_INVALID_SERVICE :: int where "UPNP_E_INVALID_SERVICE \<equiv> - 111"
abbreviation (input) UPNP_E_BAD_RESPONSE :: int where "UPNP_E_BAD_RESPONSE \<equiv> - 113"
abbreviation (input) UPNP_E_BAD_REQUEST :: int where "UPNP_E_BAD_REQUEST \<equiv> - 114"
abbreviation (input) UPNP_E_INIT_FAILED :: int where "UPNP_E_INIT_FAILED \<equiv> - 117"
abbreviation (input) UPNP_E_SOCKET_WRITE :: int where "UPNP_E_SOCKET_WRITE \<equiv> - 201"
abbreviation (input) UPNP_E_SOCKET_READ :: int where "UPNP_E_SOCKET_READ \<equiv> - 202"
abbreviation (input) UPNP_E_SOCKET_CONNECT :: int where "UPNP_E_SOCKET_CONNECT \<equiv> - 204"
abbreviation (input) UPNP_E_OUTOF_SOCKET :: int where "UPNP_E_OUTOF_SOCKET \<equiv> - 205"
abbreviation (input) UPNP_E_NOTIFY_UNACCEPTED :: int where "UPNP_E_NOTIFY_UNACCEPTED \<equiv> - 303"
abbreviation (input) UPNP_E_OUTOF_BOUNDS :: int where "UPNP_E_OUTOF_BOUNDS \<equiv> - 506"

section \<open>The store\<close>

type_synonym block = nat
type_synonym ptr = "block \<times> int"
type_synonym mem = "block \<Rightarrow> string"

abbreviation NUL :: char where "NUL \<equiv> CHR 0x00"
abbreviation TAB :: char where "TAB \<equiv> CHR 0x09"
abbreviation LF :: char where "LF \<equiv> CHR 0x0A"
abbreviation CR :: char where "CR \<equiv> CHR 0x0D"
abbreviation SP :: char where "SP \<equiv> CHR '' ''"

text \<open>The bytes from a pointer to the end of its object.\<close>

definition bytes_at :: "mem \<Rightarrow> ptr \<Rightarrow> string" where
  "bytes_at M p = (if snd p < 0 then [] else drop (nat (snd p)) (M (fst p)))"

definition padd :: "ptr \<Rightarrow> int \<Rightarrow> ptr" where
  "padd p n = (fst p, snd p + n)"

definition rd :: "mem \<Rightarrow> ptr \<Rightarrow> char option" where
  "rd M p = (case bytes_at M p of [] \<Rightarrow> None | c # _ \<Rightarrow> Some c)"

text \<open>\<open>n\<close> bytes at a pointer, as \<^verbatim>\<open>memcpy\<close> reads them.\<close>

definition rd_bytes :: "mem \<Rightarrow> ptr \<Rightarrow> int \<Rightarrow> string option" where
  "rd_bytes M p n =
     (if 0 \<le> n \<and> n \<le> int (length (bytes_at M p)) then Some (take (nat n) (bytes_at M p)) else None)"

text \<open>A store with one object, block 0.\<close>

definition one_obj :: "string \<Rightarrow> mem" where
  "one_obj s = (\<lambda>b. if b = 0 then s else [])"

lemma bytes_at_one_obj [simp]: "bytes_at (one_obj s) (0, 0) = s"
  by (simp add: bytes_at_def one_obj_def)

lemma padd_0 [simp]: "padd p 0 = p"
  by (simp add: padd_def)

lemma padd_padd [simp]: "padd (padd p a) b = padd p (a + b)"
  by (simp add: padd_def)

lemma snd_padd [simp]: "snd (padd p n) = snd p + n" and fst_padd [simp]: "fst (padd p n) = fst p"
  by (simp_all add: padd_def)

lemma bytes_at_padd: "0 \<le> snd p \<Longrightarrow> 0 \<le> n \<Longrightarrow> bytes_at M (padd p n) = drop (nat n) (bytes_at M p)"
  by (auto simp: bytes_at_def padd_def nat_add_distrib add.commute)

lemma rd_padd: "0 \<le> snd p \<Longrightarrow> 0 \<le> n \<Longrightarrow>
    rd M (padd p n) = (case drop (nat n) (bytes_at M p) of [] \<Rightarrow> None | c # _ \<Rightarrow> Some c)"
  by (simp add: rd_def bytes_at_padd)

lemma rd_Some: "0 \<le> snd p \<Longrightarrow> 0 \<le> n \<Longrightarrow> n < int (length (bytes_at M p)) \<Longrightarrow>
    rd M (padd p n) = Some (bytes_at M p ! nat n)"
  by (simp add: rd_padd Cons_nth_drop_Suc [symmetric])

section \<open>Characters of the C locale\<close>

text \<open>\<^verbatim>\<open>char\<close> is signed on the target: the value a comparison such as \<open>in[i]>31\<close> sees.\<close>

definition schar :: "char \<Rightarrow> int" where
  "schar c = (let n = int (of_char c) in if n < 128 then n else n - 256)"

definition isdigit :: "char \<Rightarrow> bool" where
  "isdigit c = (let n = (of_char c :: nat) in 48 \<le> n \<and> n \<le> 57)"

definition isalpha :: "char \<Rightarrow> bool" where
  "isalpha c = (let n = (of_char c :: nat) in (65 \<le> n \<and> n \<le> 90) \<or> (97 \<le> n \<and> n \<le> 122))"

definition isalnum :: "char \<Rightarrow> bool" where
  "isalnum c = (isalpha c \<or> isdigit c)"

definition isxdigit :: "char \<Rightarrow> bool" where
  "isxdigit c = (let n = (of_char c :: nat)
     in isdigit c \<or> (65 \<le> n \<and> n \<le> 70) \<or> (97 \<le> n \<and> n \<le> 102))"

definition tolower :: "char \<Rightarrow> nat" where
  "tolower c = (let n = of_char c in if 65 \<le> n \<and> n \<le> 90 then n + 32 else n)"

text \<open>
  \<^verbatim>\<open>strchr(s,c)!=NULL\<close> for a literal \<open>s\<close>: the terminating NUL belongs to the string, so
  the search for NUL succeeds.
\<close>

definition strchr_hit :: "string \<Rightarrow> char \<Rightarrow> bool" where
  "strchr_hit s c = (c \<in> set s \<or> c = NUL)"

lemmas ctype_defs = schar_def isdigit_def isalpha_def isalnum_def isxdigit_def tolower_def
  strchr_hit_def

section \<open>C library routines on bytes\<close>

text \<open>\<^verbatim>\<open>int\<close> to \<^verbatim>\<open>size_t\<close> (64 bit): a negative count becomes huge.\<close>

definition size_t :: "int \<Rightarrow> nat" where
  "size_t n = nat (n mod 2 ^ 64)"

lemma size_t_nonneg: "0 \<le> n \<Longrightarrow> n < 2 ^ 64 \<Longrightarrow> size_t n = nat n"
  by (simp add: size_t_def)

fun strlen :: "string \<Rightarrow> int option" where
  "strlen [] = None"
| "strlen (c # cs) = (if c = NUL then Some 0 else map_option (\<lambda>n. n + 1) (strlen cs))"

text \<open>The value of a C string: the bytes before the first NUL.\<close>

definition cstring :: "string \<Rightarrow> string" where
  "cstring bs = takeWhile (\<lambda>c. c \<noteq> NUL) bs"

fun strncasecmp :: "string \<Rightarrow> string \<Rightarrow> nat \<Rightarrow> int option" where
  "strncasecmp as bs 0 = Some 0"
| "strncasecmp (a # as) (b # bs) (Suc n) =
     (if tolower a \<noteq> tolower b then Some (int (tolower a) - int (tolower b))
      else if a = NUL then Some 0
      else strncasecmp as bs n)"
| "strncasecmp _ _ (Suc n) = None"

fun strncmp :: "string \<Rightarrow> string \<Rightarrow> nat \<Rightarrow> int option" where
  "strncmp as bs 0 = Some 0"
| "strncmp (a # as) (b # bs) (Suc n) =
     (if a \<noteq> b then Some (int (of_char a) - int (of_char b))
      else if a = NUL then Some 0
      else strncmp as bs n)"
| "strncmp _ _ (Suc n) = None"

fun memcmp :: "string \<Rightarrow> string \<Rightarrow> nat \<Rightarrow> int option" where
  "memcmp as bs 0 = Some 0"
| "memcmp (a # as) (b # bs) (Suc n) =
     (if length as < n \<or> length bs < n then None
      else if a \<noteq> b then Some (int (of_char a) - int (of_char b))
      else memcmp as bs n)"
| "memcmp _ _ (Suc n) = None"

lemma take_length_app: "length xs = n \<Longrightarrow> take n (xs @ ys) = xs"
  by simp

lemma of_char_eq_0 [simp]: "(of_char c :: nat) = 0 \<longleftrightarrow> c = NUL"
proof
  assume "(of_char c :: nat) = 0"
  then have "(of_char c :: nat) = of_char NUL" by simp
  then show "c = NUL" by (rule injD [OF inj_of_char])
qed simp

lemma tolower_NUL [simp]: "tolower c = 0 \<longleftrightarrow> c = NUL"
  by (auto simp: tolower_def Let_def split: if_splits)

text \<open>Comparisons that stay inside both objects return, and are 0 on equal prefixes only.\<close>

lemma strncasecmp_eq: "n \<le> length as \<Longrightarrow> n \<le> length bs \<Longrightarrow> NUL \<notin> set (take n as) \<Longrightarrow>
    \<exists>r. strncasecmp as bs n = Some r \<and> (r = 0 \<longleftrightarrow> map tolower (take n as) = map tolower (take n bs))"
  by (induction as bs n rule: strncasecmp.induct) auto

lemma strncmp_eq: "n \<le> length as \<Longrightarrow> n \<le> length bs \<Longrightarrow> NUL \<notin> set (take n as) \<Longrightarrow>
    \<exists>r. strncmp as bs n = Some r \<and> (r = 0 \<longleftrightarrow> take n as = take n bs)"
proof (induction as bs n rule: strncmp.induct)
  case (2 a as b bs n)
  have "a = b" if "(of_char a :: nat) = of_char b" using that by (rule injD [OF inj_of_char])
  with 2 show ?case by auto
qed auto

lemma memcmp_eq: "n \<le> length as \<Longrightarrow> n \<le> length bs \<Longrightarrow>
    \<exists>r. memcmp as bs n = Some r \<and> (r = 0 \<longleftrightarrow> take n as = take n bs)"
proof (induction as bs n rule: memcmp.induct)
  case (2 a as b bs n)
  have "a = b" if "(of_char a :: nat) = of_char b" using that by (rule injD [OF inj_of_char])
  with 2 show ?case by auto
qed auto

section \<open>Data refinement\<close>

text \<open>
  A run of operations on the concrete state (\<open>None\<close> is a fault), and the operations that are
  legal along the run of their specification.
\<close>

fun run_all :: "('m \<Rightarrow> 'o \<Rightarrow> 'm option) \<Rightarrow> 'm \<Rightarrow> 'o list \<Rightarrow> 'm option" where
  "run_all step m [] = Some m"
| "run_all step m (op # ops) = do { m' \<leftarrow> step m op; run_all step m' ops }"

fun legal_all :: "('a \<Rightarrow> 'o \<Rightarrow> 'a) \<Rightarrow> ('a \<Rightarrow> 'o \<Rightarrow> bool) \<Rightarrow> 'a \<Rightarrow> 'o list \<Rightarrow> bool" where
  "legal_all spec legal a [] = True"
| "legal_all spec legal a (op # ops) = (legal a op \<and> legal_all spec legal (spec a op) ops)"

text \<open>
  A component implements its specification when every legal operation succeeds, keeps the
  invariant and commutes with the abstraction.
\<close>

locale data_refinement =
  fixes inv :: "'m \<Rightarrow> bool" and abs :: "'m \<Rightarrow> 'a" and step :: "'m \<Rightarrow> 'o \<Rightarrow> 'm option"
    and spec :: "'a \<Rightarrow> 'o \<Rightarrow> 'a" and legal :: "'a \<Rightarrow> 'o \<Rightarrow> bool"
  assumes step_refines:
    "inv m \<Longrightarrow> legal (abs m) op \<Longrightarrow> \<exists>m'. step m op = Some m' \<and> inv m' \<and> abs m' = spec (abs m) op"
begin

lemma run_refines: "inv m \<Longrightarrow> legal_all spec legal (abs m) ops \<Longrightarrow>
    \<exists>m'. run_all step m ops = Some m' \<and> inv m' \<and> abs m' = foldl spec (abs m) ops"
proof (induction ops arbitrary: m)
  case (Cons op ops)
  obtain m' where m': "step m op = Some m'" "inv m'" "abs m' = spec (abs m) op"
    using step_refines [of m op] Cons.prems by auto
  then show ?case using Cons.IH [of m'] Cons.prems by auto
qed simp

end

end
