(* ===== verification/Http_Scan.thy ===== *)
theory Http_Scan imports Prelude begin

text \<open>
  The scanners of \<^verbatim>\<open>src/genlib/http_client/http_client.c\<close>: tokens, their comparisons,
  the URI character classes, and the loops that measure white space, tokens, lines, header
  values, URI characters and ports.  Each scanner gets the bytes from its \<^verbatim>\<open>in\<close> pointer to
  the end of the object and the bound \<open>max\<close>; \<open>None\<close> is a read past the object.
\<close>

section \<open>Tokens\<close>

text \<open>\<^verbatim>\<open>typedef struct TOKEN { char *buff; int size; } token;\<close> \<open>None\<close> is the NULL pointer.\<close>

record token =
  buff :: "ptr option"
  tsize :: int

definition null_token :: token where
  "null_token = \<lparr>buff = None, tsize = 0\<rparr>"

text \<open>The bytes behind a token's pointer; NULL has none.\<close>

definition tok_bytes :: "mem \<Rightarrow> token \<Rightarrow> string" where
  "tok_bytes M t = (case buff t of None \<Rightarrow> [] | Some p \<Rightarrow> bytes_at M p)"

text \<open>The text a token denotes, and a token that lies inside its object.\<close>

definition tok_text :: "mem \<Rightarrow> token \<Rightarrow> string" where
  "tok_text M t = take (nat (tsize t)) (tok_bytes M t)"

definition tok_ok :: "mem \<Rightarrow> token \<Rightarrow> bool" where
  "tok_ok M t = (0 \<le> tsize t \<and> tsize t \<le> int (length (tok_bytes M t)))"

definition copy_token :: "token \<Rightarrow> ptr \<Rightarrow> ptr \<Rightarrow> token" where
  "copy_token t in_base out_base =
     \<lparr>buff = (case buff t of None \<Rightarrow> None
              | Some p \<Rightarrow> Some (padd out_base (snd p - snd in_base))),
      tsize = tsize t\<rparr>"

definition token_string_casecmp :: "mem \<Rightarrow> token \<Rightarrow> string \<Rightarrow> int option" where
  "token_string_casecmp M in1 in2 =
     (if tsize in1 \<noteq> int (length in2) then Some 1
      else strncasecmp (tok_bytes M in1) (in2 @ [NUL]) (size_t (tsize in1)))"

definition token_string_cmp :: "mem \<Rightarrow> token \<Rightarrow> string \<Rightarrow> int option" where
  "token_string_cmp M in1 in2 =
     (if tsize in1 \<noteq> int (length in2) then Some 1
      else strncmp (tok_bytes M in1) (in2 @ [NUL]) (size_t (tsize in1)))"

definition token_cmp :: "mem \<Rightarrow> token \<Rightarrow> token \<Rightarrow> int option" where
  "token_cmp M in1 in2 =
     (if tsize in1 \<noteq> tsize in2 then Some 1
      else memcmp (tok_bytes M in1) (tok_bytes M in2) (size_t (tsize in1)))"

section \<open>Character classes of RFC 2396\<close>

definition SEPARATORS :: string where
  "SEPARATORS = ''()<>@,;:'' @ [CHR 0x5C, CHR 0x22] @ ''/[]?={} '' @ [TAB]"

definition MARK :: string where
  "MARK = ''-_.!~*'' @ [CHR 0x27] @ ''()''"

definition RESERVED :: string where
  "RESERVED = '';/?:@&=+$,''"

definition is_reserved :: "char \<Rightarrow> bool" where
  "is_reserved c = strchr_hit RESERVED c"

definition is_mark :: "char \<Rightarrow> bool" where
  "is_mark c = strchr_hit MARK c"

definition is_unreserved :: "char \<Rightarrow> bool" where
  "is_unreserved c = (isalnum c \<or> is_mark c)"

definition is_escaped :: "string \<Rightarrow> bool option" where
  "is_escaped bs =
     (case bs of [] \<Rightarrow> None
      | a # r \<Rightarrow> if a \<noteq> CHR ''%'' then Some False
        else (case r of [] \<Rightarrow> None
        | b # s \<Rightarrow> if \<not> isxdigit b then Some False
          else (case s of [] \<Rightarrow> None | c # _ \<Rightarrow> Some (isxdigit c))))"

section \<open>The counting loop\<close>

text \<open>
  \<^verbatim>\<open>while ((counter<max) && P(in[counter])) counter++;\<close> returns the final counter.
\<close>

fun scan :: "(char \<Rightarrow> bool) \<Rightarrow> string \<Rightarrow> int \<Rightarrow> int option" where
  "scan P [] mx = (if mx \<le> 0 then Some 0 else None)"
| "scan P (c # cs) mx =
     (if mx \<le> 0 then Some 0
      else if P c then map_option (\<lambda>n. n + 1) (scan P cs (mx - 1))
      else Some 0)"

definition parse_not_LWS :: "mem \<Rightarrow> ptr \<Rightarrow> int \<Rightarrow> (int \<times> token) option" where
  "parse_not_LWS M inp max_size = do {
     counter \<leftarrow> scan (\<lambda>c. c \<noteq> SP \<and> c \<noteq> TAB) (bytes_at M inp) max_size;
     Some (counter, \<lparr>buff = Some inp, tsize = counter\<rparr>) }"

definition parse_LWS :: "mem \<Rightarrow> ptr \<Rightarrow> int \<Rightarrow> int option" where
  "parse_LWS M inp max_size = scan (\<lambda>c. c = SP \<or> c = TAB) (bytes_at M inp) max_size"

definition is_token_char :: "char \<Rightarrow> bool" where
  "is_token_char c = (schar c > 31 \<and> \<not> strchr_hit SEPARATORS c \<and> c \<noteq> CHR 0x7F)"

definition parse_token :: "mem \<Rightarrow> ptr \<Rightarrow> int \<Rightarrow> (int \<times> token) option" where
  "parse_token M inp max_size = do {
     counter \<leftarrow> scan is_token_char (bytes_at M inp) max_size;
     Some (counter, \<lparr>buff = Some inp, tsize = counter\<rparr>) }"

section \<open>URI characters\<close>

text \<open>The loop condition at \<open>in[i]\<close>, with \<open>mx = max-i\<close> and \<open>0 < mx\<close>.\<close>

definition uric_go :: "char \<Rightarrow> string \<Rightarrow> int \<Rightarrow> bool option" where
  "uric_go c cs mx =
     (if is_unreserved c \<or> is_reserved c then Some True
      else if 2 < mx then is_escaped (c # cs)
      else Some False)"

fun uric_scan :: "string \<Rightarrow> int \<Rightarrow> int option" where
  "uric_scan [] mx = (if mx \<le> 0 then Some 0 else None)"
| "uric_scan (c # cs) mx =
     (if mx \<le> 0 then Some 0
      else do {
        go \<leftarrow> uric_go c cs mx;
        if go then map_option (\<lambda>n. n + 1) (uric_scan cs (mx - 1)) else Some 0 })"

definition parse_uric :: "mem \<Rightarrow> ptr \<Rightarrow> int \<Rightarrow> (int \<times> token) option" where
  "parse_uric M inp mx = do {
     i \<leftarrow> uric_scan (bytes_at M inp) mx;
     Some (i, \<lparr>buff = Some inp, tsize = i\<rparr>) }"

section \<open>Ports\<close>

text \<open>Host to network order of a 16-bit value on the little-endian target.\<close>

definition htons :: "16 word \<Rightarrow> 16 word" where
  "htons w = push_bit 8 w + drop_bit 8 w"

fun port_scan :: "string \<Rightarrow> int \<Rightarrow> 16 word \<Rightarrow> (int \<times> 16 word) option" where
  "port_scan [] mx temp = (if mx \<le> 0 then Some (0, temp) else None)"
| "port_scan (c # cs) mx temp =
     (if mx \<le> 0 then Some (0, temp)
      else if isdigit c
      then map_option (\<lambda>(n, t). (n + 1, t))
             (port_scan cs (mx - 1) (temp * 10 + (word_of_nat (of_char c) - 48)))
      else Some (0, temp))"

definition parse_port :: "int \<Rightarrow> mem \<Rightarrow> ptr \<Rightarrow> (int \<times> 16 word) option" where
  "parse_port mx M port =
     map_option (\<lambda>(n, temp). (n, htons temp)) (port_scan (bytes_at M port) mx 0)"

section \<open>Lines and header values\<close>

text \<open>
  \<^verbatim>\<open>while ((counter+1<max_size) && ((in[counter]!=CR) || (in[counter+1]!=LF))) counter++;\<close>
  over the bytes from \<open>in+counter\<close>, with \<open>r = max_size-counter\<close>.
\<close>

fun crlf_scan :: "string \<Rightarrow> int \<Rightarrow> int option" where
  "crlf_scan [] r = (if r \<le> 1 then Some 0 else None)"
| "crlf_scan (c # cs) r =
     (if r \<le> 1 then Some 0
      else do {
        go \<leftarrow> (if c \<noteq> CR then Some True
               else (case cs of [] \<Rightarrow> None | d # _ \<Rightarrow> Some (d \<noteq> LF)));
        if go then map_option (\<lambda>n. n + 1) (crlf_scan cs (r - 1)) else Some 0 })"

definition parse_http_line :: "mem \<Rightarrow> ptr \<Rightarrow> int \<Rightarrow> int option" where
  "parse_http_line M inp max_size = do {
     counter \<leftarrow> crlf_scan (bytes_at M inp) max_size;
     if counter > max_size - 2 then Some 0 else Some (counter + 2) }"

text \<open>The trimming loop of \<^verbatim>\<open>parse_header_value\<close>, run downwards from \<open>counter\<close>.\<close>

function strip_end :: "mem \<Rightarrow> ptr \<Rightarrow> int \<Rightarrow> int option" where
  "strip_end M inp counter =
     (if 0 \<le> counter
      then do {
        c \<leftarrow> rd M (padd inp counter);
        if c = SP \<or> c = TAB then strip_end M inp (counter - 1) else Some counter }
      else Some counter)"
  by pat_completeness auto
termination
  by (relation "measure (\<lambda>(M, inp, counter). nat (counter + 1))") auto

declare strip_end.simps [simp del]

definition parse_header_value :: "mem \<Rightarrow> ptr \<Rightarrow> int \<Rightarrow> (int \<times> token) option" where
  "parse_header_value M inp max_size = do {
     counter \<leftarrow> parse_http_line M inp max_size;
     if counter = 0 then Some (0, null_token)
     else do {
       counter \<leftarrow> strip_end M inp (counter - 2);
       Some (counter, \<lparr>buff = Some inp, tsize = counter\<rparr>) } }"

section \<open>The scanner interface\<close>

text \<open>
  What every caller of a scanner relies on: it returns when the bound stays inside the object,
  and the count it returns respects both the bound and the object.
\<close>

locale scanner =
  fixes sc :: "string \<Rightarrow> int \<Rightarrow> int option"
  assumes sc_returns: "mx \<le> int (length bs) \<Longrightarrow> \<exists>n. sc bs mx = Some n"
    and sc_bounds: "sc bs mx = Some n \<Longrightarrow> 0 \<le> n \<and> n \<le> max 0 mx \<and> n \<le> int (length bs)"
begin

lemma sc_not_None: "mx \<le> int (length bs) \<Longrightarrow> sc bs mx \<noteq> None"
  using sc_returns by force

lemma sc_nonneg: "sc bs mx = Some n \<Longrightarrow> 0 \<le> n"
  using sc_bounds by blast

lemma sc_rest: "sc bs mx = Some n \<Longrightarrow> 0 \<le> mx \<Longrightarrow> mx \<le> int (length bs) \<Longrightarrow>
    0 \<le> mx - n \<and> mx - n \<le> int (length (drop (nat n) bs))"
  using sc_bounds [of bs mx n] by (auto simp: max_def)

lemma sc_tok_ok: "sc (bytes_at M p) mx = Some n \<Longrightarrow> tok_ok M \<lparr>buff = Some p, tsize = n\<rparr>"
  using sc_bounds [of "bytes_at M p" mx n] by (simp add: tok_ok_def tok_bytes_def)

lemma sc_le_0: "mx \<le> 0 \<Longrightarrow> sc bs mx = Some 0"
  using sc_returns [of mx bs] sc_bounds [of bs mx] by fastforce

end

text \<open>A scanner that stops at the first byte outside a class \<open>P\<close>.\<close>

locale char_scanner = scanner +
  fixes P :: "char \<Rightarrow> bool"
  assumes sc_prefix: "sc bs mx = Some n \<Longrightarrow> c \<in> set (take (nat n) bs) \<Longrightarrow> P c"
    and sc_maximal: "sc bs mx = Some n \<Longrightarrow> n < mx \<Longrightarrow> \<not> P (bs ! nat n)"
begin

text \<open>The count is the length of the longest prefix in the class, within the bound.\<close>

lemma sc_takeWhile:
  assumes "0 \<le> mx" "mx \<le> int (length bs)"
  shows "sc bs mx = Some (int (length (takeWhile P (take (nat mx) bs))))"
proof -
  obtain n where n: "sc bs mx = Some n"
    using assms sc_returns by blast
  have b: "0 \<le> n" "n \<le> mx" using sc_bounds [OF n] assms by auto
  let ?t = "take (nat mx) bs"
  have "takeWhile P ?t = take (nat n) ?t"
  proof (rule takeWhile_eq_take_P_nth)
    show "P (?t ! i)" if "i < nat n" "i < length ?t" for i
    proof -
      have "?t ! i = take (nat n) bs ! i" "i < length (take (nat n) bs)"
        using that b by auto
      then show ?thesis using sc_prefix [OF n] by (metis nth_mem)
    qed
    show "\<not> P (?t ! nat n)" if "nat n < length ?t"
      using that sc_maximal [OF n] b by auto
  qed
  then show ?thesis using n b assms by auto
qed

end

subsection \<open>The scanners implement the interface\<close>

lemma scan_returns: "mx \<le> int (length bs) \<Longrightarrow> \<exists>n. scan P bs mx = Some n"
  by (induction P bs mx rule: scan.induct) auto

lemma scan_bounds: "scan P bs mx = Some n \<Longrightarrow> 0 \<le> n \<and> n \<le> max 0 mx \<and> n \<le> int (length bs)"
  by (induction P bs mx arbitrary: n rule: scan.induct) (fastforce split: if_splits)+

lemma scan_prefix: "scan P bs mx = Some n \<Longrightarrow> c \<in> set (take (nat n) bs) \<Longrightarrow> P c"
proof (induction P bs mx arbitrary: n rule: scan.induct)
  case (2 P d cs mx)
  then show ?case
    using scan_bounds [of P cs "mx - 1"]
    by (auto split: if_splits simp: nat_add_distrib)
qed (auto split: if_splits)

lemma scan_maximal: "scan P bs mx = Some n \<Longrightarrow> n < mx \<Longrightarrow> \<not> P (bs ! nat n)"
proof (induction P bs mx arbitrary: n rule: scan.induct)
  case (2 P d cs mx)
  then show ?case
    using scan_bounds [of P cs "mx - 1"]
    by (auto split: if_splits simp: nat_add_distrib)
qed (auto split: if_splits)

lemma char_scanner_scan: "char_scanner (scan P) P"
  by unfold_locales (use scan_returns scan_bounds scan_prefix scan_maximal in blast)+

interpretation lws: char_scanner "scan (\<lambda>c. c = SP \<or> c = TAB)" "\<lambda>c. c = SP \<or> c = TAB"
  by (rule char_scanner_scan)

interpretation nonlws: char_scanner "scan (\<lambda>c. c \<noteq> SP \<and> c \<noteq> TAB)" "\<lambda>c. c \<noteq> SP \<and> c \<noteq> TAB"
  by (rule char_scanner_scan)

interpretation tokchars: char_scanner "scan is_token_char" is_token_char
  by (rule char_scanner_scan)

lemma port_scan_scan: "map_option fst (port_scan bs mx t) = scan isdigit bs mx"
proof (induction bs mx t rule: port_scan.induct)
  case (2 c cs mx temp)
  let ?r = "port_scan cs (mx - 1) (temp * 10 + (word_of_nat (of_char c) - 48))"
  show ?case
  proof (cases "0 < mx \<and> isdigit c")
    case True
    then have "map_option fst ?r = scan isdigit cs (mx - 1)" using 2 by auto
    from this [symmetric] True show ?thesis by (cases ?r) auto
  qed auto
qed auto

interpretation digits: char_scanner "\<lambda>bs mx. map_option fst (port_scan bs mx t)" isdigit for t
  unfolding port_scan_scan by (rule char_scanner_scan)

lemma is_escaped_Some: "2 < length bs \<Longrightarrow> \<exists>b. is_escaped bs = Some b"
  by (cases bs rule: list.exhaust; cases "tl bs" rule: list.exhaust; cases "tl (tl bs)")
     (auto simp: is_escaped_def split: list.splits)

lemma uric_go_Some: "mx \<le> int (length (c # cs)) \<Longrightarrow> \<exists>b. uric_go c cs mx = Some b"
  using is_escaped_Some [of "c # cs"] by (auto simp: uric_go_def)

lemma uric_scan_returns: "mx \<le> int (length bs) \<Longrightarrow> \<exists>n. uric_scan bs mx = Some n"
proof (induction bs mx rule: uric_scan.induct)
  case (2 c cs mx)
  then obtain b where "uric_go c cs mx = Some b" using uric_go_Some by blast
  with 2 show ?case by (cases b) auto
qed auto

lemma uric_scan_bounds:
  "uric_scan bs mx = Some n \<Longrightarrow> 0 \<le> n \<and> n \<le> max 0 mx \<and> n \<le> int (length bs)"
proof (induction bs mx arbitrary: n rule: uric_scan.induct)
  case (2 c cs mx)
  show ?case
  proof (cases "0 < mx \<and> uric_go c cs mx = Some True")
    case True
    then obtain m where "uric_scan cs (mx - 1) = Some m" "n = m + 1" using "2.prems" by auto
    with True "2.IH" [of True m] show ?thesis by auto
  next
    case False
    then have "n = 0" using "2.prems" by (auto split: if_splits bind_splits)
    then show ?thesis by simp
  qed
qed (auto split: if_splits)

interpretation uric: scanner uric_scan
  by unfold_locales (use uric_scan_returns uric_scan_bounds in blast)+

lemma crlf_scan_returns: "r \<le> int (length bs) \<Longrightarrow> \<exists>n. crlf_scan bs r = Some n"
  by (induction bs r rule: crlf_scan.induct) (auto split: list.splits)

lemma crlf_scan_bounds:
  "crlf_scan bs r = Some n \<Longrightarrow> 0 \<le> n \<and> n \<le> max 0 (r - 1) \<and> n \<le> int (length bs)"
proof (induction bs r arbitrary: n rule: crlf_scan.induct)
  case (2 c cs r)
  then show ?case by (fastforce split: if_splits bind_splits list.splits)
qed (auto split: if_splits)

section \<open>What the scanners compute\<close>

lemma parse_LWS_eq:
  assumes "0 \<le> mx" "mx \<le> int (length (bytes_at M p))"
  shows "parse_LWS M p mx
    = Some (int (length (takeWhile (\<lambda>c. c = SP \<or> c = TAB) (take (nat mx) (bytes_at M p)))))"
  using lws.sc_takeWhile [OF assms] by (simp add: parse_LWS_def)

text \<open>
  \<open>parse_token\<close> with a bound that stays inside the buffer never reads outside it and
  returns the longest prefix of HTTP token characters within the bound.
\<close>

theorem parse_token_longest_prefix:
  assumes "0 \<le> mx" "mx \<le> int (length (bytes_at M p))"
  shows "parse_token M p mx =
    (let n = int (length (takeWhile is_token_char (take (nat mx) (bytes_at M p))))
     in Some (n, \<lparr>buff = Some p, tsize = n\<rparr>))"
  using tokchars.sc_takeWhile [OF assms] by (simp add: parse_token_def Let_def)

subsection \<open>Lines\<close>

definition crlf_at :: "string \<Rightarrow> nat \<Rightarrow> bool" where
  "crlf_at bs k = (k + 1 < length bs \<and> bs ! k = CR \<and> bs ! (k + 1) = LF)"

lemma crlf_at_Suc [simp]: "crlf_at (c # cs) (Suc k) = crlf_at cs k"
  by (simp add: crlf_at_def)

lemma crlf_at_0: "crlf_at (c # cs) 0 = (c = CR \<and> cs \<noteq> [] \<and> hd cs = LF)"
  by (auto simp: crlf_at_def hd_conv_nth)

text \<open>The loop stops at the first CRLF, or one byte before the bound.\<close>

lemma crlf_scan_first:
  "crlf_scan bs r = Some n \<Longrightarrow> r \<le> int (length bs) \<Longrightarrow>
    (\<forall>j < nat n. \<not> crlf_at bs j) \<and> (n < r - 1 \<longrightarrow> crlf_at bs (nat n))"
proof (induction bs r arbitrary: n rule: crlf_scan.induct)
  case (1 r)
  then show ?case by auto
next
  case (2 c cs r)
  show ?case
  proof (cases "1 < r \<and> \<not> crlf_at (c # cs) 0")
    case True
    then obtain m where m: "crlf_scan cs (r - 1) = Some m" "n = m + 1"
      using "2.prems" by (cases cs) (auto simp: crlf_at_0 split: if_splits)
    have "(\<forall>j < nat m. \<not> crlf_at cs j) \<and> (m < r - 1 - 1 \<longrightarrow> crlf_at cs (nat m))"
      using True "2.prems" by (intro "2.IH" [of True]) (auto simp: m(1) crlf_at_0 split: list.splits)
    moreover have "0 \<le> m" using crlf_scan_bounds [OF m(1)] by simp
    ultimately show ?thesis
      using True m(2) by (auto simp: nat_add_distrib less_Suc_eq_0_disj)
  next
    case False
    then have "n = 0" using "2.prems" by (cases cs) (auto simp: crlf_at_0 split: if_splits)
    with False show ?thesis by auto
  qed
qed

lemma crlf_scan_eq:
  assumes "crlf_at bs k" "\<And>j. j < k \<Longrightarrow> \<not> crlf_at bs j" "int k + 2 \<le> r" "r \<le> int (length bs)"
  shows "crlf_scan bs r = Some (int k)"
proof -
  obtain n where n: "crlf_scan bs r = Some n" using assms(4) crlf_scan_returns by blast
  have b: "0 \<le> n" "n \<le> r - 1" using crlf_scan_bounds [OF n] assms(3) by auto
  note f = crlf_scan_first [OF n assms(4)]
  have "\<not> k < nat n" using f assms(1) by blast
  moreover have "\<not> nat n < k" using f assms(2,3) b by auto
  ultimately show ?thesis using n b by auto
qed

text \<open>
  With a bound that stays inside the buffer \<open>parse_http_line\<close> returns the length of the
  first line, CRLF included, and 0 exactly when no CRLF lies within the bound.
\<close>

theorem parse_http_line_first_crlf:
  assumes "mx \<le> int (length (bytes_at M p))"
  shows "\<exists>r. parse_http_line M p mx = Some r \<and>
    (r = 0 \<and> (\<forall>k. int k + 2 \<le> mx \<longrightarrow> \<not> crlf_at (bytes_at M p) k) \<or>
     2 \<le> r \<and> r \<le> mx \<and> crlf_at (bytes_at M p) (nat (r - 2)) \<and>
       (\<forall>j < nat (r - 2). \<not> crlf_at (bytes_at M p) j))"
proof -
  let ?b = "bytes_at M p"
  obtain n where n: "crlf_scan ?b mx = Some n" using assms crlf_scan_returns by blast
  have b: "0 \<le> n" "n \<le> max 0 (mx - 1)" using crlf_scan_bounds [OF n] by auto
  note f = crlf_scan_first [OF n assms]
  show ?thesis
  proof (cases "n < mx - 1")
    case True
    then show ?thesis using f b n by (simp add: parse_http_line_def)
  next
    case False
    then have "\<not> crlf_at ?b k" if "int k + 2 \<le> mx" for k
      using that f b by auto
    then show ?thesis using False b n by (auto simp: parse_http_line_def)
  qed
qed

lemma parse_http_line_returns: "mx \<le> int (length (bytes_at M p)) \<Longrightarrow>
    \<exists>r. parse_http_line M p mx = Some r"
  using crlf_scan_returns by (force simp: parse_http_line_def)

lemma parse_http_line_bounds: "parse_http_line M p mx = Some r \<Longrightarrow>
    0 \<le> r \<and> r \<le> max 0 mx \<and> (r = 0 \<or> 2 \<le> r)"
  using crlf_scan_bounds by (fastforce simp: parse_http_line_def split: bind_splits if_splits)

lemma parse_http_line_crlf:
  assumes "parse_http_line M p mx = Some r" "r \<noteq> 0" "mx \<le> int (length (bytes_at M p))"
  shows "crlf_at (bytes_at M p) (nat (r - 2)) \<and> (\<forall>j < nat (r - 2). \<not> crlf_at (bytes_at M p) j)"
proof -
  obtain n where n: "crlf_scan (bytes_at M p) mx = Some n" "r = n + 2" "n \<le> mx - 2"
    using assms(1,2) by (auto simp: parse_http_line_def split: bind_splits if_splits)
  then show ?thesis using crlf_scan_first [OF n(1) assms(3)] by auto
qed

lemma parse_http_line_eq:
  assumes "crlf_at (bytes_at M p) k" "\<And>j. j < k \<Longrightarrow> \<not> crlf_at (bytes_at M p) j"
    "int k + 2 \<le> mx" "mx \<le> int (length (bytes_at M p))"
  shows "parse_http_line M p mx = Some (int k + 2)"
  using crlf_scan_eq [OF assms] assms(3) by (simp add: parse_http_line_def)

subsection \<open>Header values\<close>

text \<open>
  The trimming loop starts at the CR of the line end, which is neither blank nor tab, so it
  stops before its first step.
\<close>

lemma strip_end_CR: "0 \<le> k \<Longrightarrow> rd M (padd p k) = Some CR \<Longrightarrow> strip_end M p k = Some k"
  by (subst strip_end.simps) simp

lemma parse_header_value_eq:
  assumes "0 \<le> snd p" "mx \<le> int (length (bytes_at M p))"
    and "parse_http_line M p mx = Some r"
  shows "parse_header_value M p mx =
    (if r = 0 then Some (0, null_token) else Some (r - 2, \<lparr>buff = Some p, tsize = r - 2\<rparr>))"
proof (cases "r = 0")
  case False
  have b: "2 \<le> r" using parse_http_line_bounds [OF assms(3)] False by auto
  have "crlf_at (bytes_at M p) (nat (r - 2))"
    using parse_http_line_crlf [OF assms(3) False assms(2)] by blast
  then have "rd M (padd p (r - 2)) = Some CR"
    using assms(1) b by (subst rd_Some) (auto simp: crlf_at_def)
  then show ?thesis
    using False b assms(3) by (simp add: parse_header_value_def strip_end_CR)
qed (use assms(3) in \<open>simp add: parse_header_value_def\<close>)

text \<open>
  \<open>parse_header_value\<close> returns the whole line up to its CRLF: white space at the end of
  a value, which the function's description says is removed, stays in the value.
\<close>

theorem parse_header_value_keeps_trailing_space:
  assumes "0 \<le> snd p" "mx \<le> int (length (bytes_at M p))"
    and "parse_http_line M p mx = Some r"
  shows "parse_header_value M p mx =
    (if r = 0 then Some (0, null_token) else Some (r - 2, \<lparr>buff = Some p, tsize = r - 2\<rparr>))"
  using assms by (rule parse_header_value_eq)

subsection \<open>Ports\<close>

definition dec_val :: "string \<Rightarrow> nat" where
  "dec_val ds = foldl (\<lambda>a c. a * 10 + (of_char c - 48)) 0 ds"

lemma digit_word: "isdigit c \<Longrightarrow>
    (word_of_nat (of_char c) - 48 :: 16 word) = word_of_nat (of_char c - 48)"
  by (simp add: isdigit_def Let_def of_nat_diff)

lemma port_scan_value:
  "port_scan bs mx (word_of_nat a) = Some (n, t) \<Longrightarrow>
    t = word_of_nat (foldl (\<lambda>a c. a * 10 + (of_char c - 48)) a (take (nat n) bs))"
proof (induction bs arbitrary: mx a n)
  case (Cons c cs)
  show ?case
  proof (cases "0 < mx \<and> isdigit c")
    case True
    have w: "word_of_nat a * 10 + (word_of_nat (of_char c) - 48)
        = (word_of_nat (a * 10 + (of_char c - 48)) :: 16 word)"
      using True by (simp add: digit_word)
    from True Cons.prems obtain m
      where m: "port_scan cs (mx - 1) (word_of_nat (a * 10 + (of_char c - 48))) = Some (m, t)"
        "n = m + 1"
      by (auto simp: w)
    have "scan isdigit cs (mx - 1) = Some m"
      using m(1) port_scan_scan [of cs "mx - 1"] by (metis map_option_eq_Some fst_conv)
    then have "0 \<le> m" using scan_bounds by blast
    then show ?thesis using Cons.IH [OF m(1)] m(2) by (simp add: nat_add_distrib)
  next
    case False
    then show ?thesis using Cons.prems by (auto split: if_splits)
  qed
qed (auto split: if_splits)

lemma parse_port_spec:
  assumes "0 \<le> mx" "mx \<le> int (length (bytes_at M p))"
  shows "parse_port mx M p =
    (let ds = takeWhile isdigit (take (nat mx) (bytes_at M p))
     in Some (int (length ds), htons (word_of_nat (dec_val ds))))"
proof -
  let ?ds = "takeWhile isdigit (take (nat mx) (bytes_at M p))"
  obtain t where t: "port_scan (bytes_at M p) mx 0 = Some (int (length ?ds), t)"
    using digits.sc_takeWhile [OF assms, of 0] by auto
  have "take (length ?ds) (take (nat mx) (bytes_at M p)) = ?ds"
    by (metis takeWhile_eq_take)
  moreover have "length ?ds \<le> nat mx"
    using length_takeWhile_le [of isdigit "take (nat mx) (bytes_at M p)"] by simp
  ultimately have "take (length ?ds) (bytes_at M p) = ?ds" by (simp add: min_absorb1)
  then show ?thesis
    using t port_scan_value [of "bytes_at M p" mx 0 "int (length ?ds)" t]
    by (simp add: parse_port_def dec_val_def Let_def)
qed

text \<open>
  \<open>parse_port\<close> consumes the longest digit prefix and yields its decimal value modulo
  65536 in network order: larger port numbers wrap around and are not rejected.
\<close>

theorem parse_port_value:
  assumes "0 \<le> mx" "mx \<le> int (length (bytes_at M p))"
  shows "parse_port mx M p =
    (let ds = takeWhile isdigit (take (nat mx) (bytes_at M p))
     in Some (int (length ds), htons (word_of_nat (dec_val ds))))"
  using assms by (rule parse_port_spec)

section \<open>Witnesses\<close>

lemma parse_token_longest_prefix_witness:
  "parse_token (one_obj ''SID: uuid:1'') (0, 0) 11 = Some (3, \<lparr>buff = Some (0, 0), tsize = 3\<rparr>)"
  using parse_token_longest_prefix [of 11 "one_obj ''SID: uuid:1''" "(0, 0)"]
  by (simp add: is_token_char_def SEPARATORS_def ctype_defs Let_def)

lemma parse_http_line_first_crlf_witness:
  "parse_http_line (one_obj [CHR ''a'', CR, LF, CHR ''b'']) (0, 0) 4 = Some 3"
proof -
  let ?b = "[CHR ''a'', CR, LF, CHR ''b'']"
  obtain r where r: "parse_http_line (one_obj ?b) (0, 0) 4 = Some r"
    and d: "r = 0 \<and> (\<forall>k. int k + 2 \<le> 4 \<longrightarrow> \<not> crlf_at ?b k) \<or>
      2 \<le> r \<and> r \<le> 4 \<and> crlf_at ?b (nat (r - 2)) \<and> (\<forall>j < nat (r - 2). \<not> crlf_at ?b j)"
    using parse_http_line_first_crlf [of 4 "one_obj ?b" "(0, 0)"] by auto
  have "crlf_at ?b 1" "\<not> crlf_at ?b 0" "\<not> crlf_at ?b 2" by (simp_all add: crlf_at_def)
  moreover have "2 \<le> r" "r \<le> 4"
    using d by (auto simp: crlf_at_def dest!: spec [of _ "1 :: nat"])
  then have "r = 2 \<or> r = 3 \<or> r = 4" by arith
  ultimately have "r = 3" using d by auto
  with r show ?thesis by simp
qed

lemma parse_header_value_keeps_trailing_space_witness:
  "parse_header_value (one_obj [CHR ''a'', SP, SP, CR, LF]) (0, 0) 5
     = Some (3, \<lparr>buff = Some (0, 0), tsize = 3\<rparr>)"
proof -
  have l: "parse_http_line (one_obj [CHR ''a'', SP, SP, CR, LF]) (0, 0) 5 = Some 5"
    by (simp add: parse_http_line_def)
  show ?thesis
    using parse_header_value_keeps_trailing_space [OF _ _ l] by simp
qed

lemma word_65616: "(65616 :: 16 word) = 80"
  by simp

lemma parse_port_value_witness:
  "parse_port 5 (one_obj ''65616'') (0, 0) = Some (5, htons 80)"
  using parse_port_value [of 5 "one_obj ''65616''" "(0, 0)"]
  by (simp add: isdigit_def dec_val_def word_65616)

end
