(* ===== verification/Http_Uri.thy ===== *)
theory Http_Uri imports Http_Scan begin

text \<open>
  URI parsing of \<^verbatim>\<open>src/genlib/http_client/http_client.c\<close>: schemes, host and port,
  \<^verbatim>\<open>parse_uri\<close>, and the lists of delivery URLs with their deep copy.  A parsed URI holds
  tokens that point into the text it was parsed from.

  Name resolution (\<^verbatim>\<open>gethostbyname\<close>) and the allocator are not code of the repository:
  they are the fields of an environment record that every caller passes on.
\<close>

section \<open>Data\<close>

datatype pathType = ABS_PATH | REL_PATH | OPAQUE_PART

datatype uriType = ABSOLUTE | RELATIVE

record sockaddr_in =
  sin_family :: int
  sin_port :: "16 word"
  s_addr :: "32 word"
  sin_zero :: string

record hostport_type =
  hp_text :: token
  IPv4address :: sockaddr_in

record uri_type =
  utype :: uriType
  scheme :: token
  path_type :: pathType
  pathquery :: token
  fragment :: token
  hostport :: hostport_type

abbreviation (input) AF_INET :: int where "AF_INET \<equiv> 2"

record hostent =
  h_addrtype :: int
  h_length :: int
  h_addr :: "32 word"

record env =
  gethostbyname :: "string \<Rightarrow> hostent option"
  malloc_ok :: "int \<Rightarrow> bool"

section \<open>Host and port\<close>

definition host_char :: "char \<Rightarrow> bool" where
  "host_char c = (c \<noteq> CHR '':'' \<and> c \<noteq> CHR ''/'' \<and> (isalnum c \<or> c = CHR ''.'' \<or> c = CHR ''-''))"

text \<open>\<^verbatim>\<open>(i<max) && (in[i]==c)\<close>\<close>

definition next_is :: "mem \<Rightarrow> ptr \<Rightarrow> int \<Rightarrow> int \<Rightarrow> char \<Rightarrow> bool option" where
  "next_is M inp i mx c =
     (if i < mx then map_option (\<lambda>d. d = c) (rd M (padd inp i)) else Some False)"

text \<open>The address part: from \<open>malloc\<close> of the host name to the return.\<close>

definition resolve_host ::
  "mem \<Rightarrow> env \<Rightarrow> ptr \<Rightarrow> int \<Rightarrow> int \<Rightarrow> hostport_type \<Rightarrow> (int \<times> hostport_type) option" where
  "resolve_host M e inp host_size hostport_size out =
     (if \<not> malloc_ok e (host_size + 1) then Some (UPNP_E_OUTOF_MEMORY, out)
      else do {
        temp_host_name \<leftarrow> rd_bytes M inp host_size;
        let bad = (UPNP_E_INVALID_URL, out\<lparr>IPv4address :=
              (IPv4address out)\<lparr>s_addr := 0, sin_family := AF_INET\<rparr>\<rparr>) in
        (case gethostbyname e temp_host_name of
          None \<Rightarrow> Some bad
        | Some h \<Rightarrow>
            if h_addrtype h = AF_INET \<and> h_length h = 4
            then Some (hostport_size,
              \<lparr>hp_text = \<lparr>buff = Some inp, tsize = hostport_size\<rparr>,
               IPv4address = (IPv4address out)\<lparr>s_addr := h_addr h, sin_family := AF_INET\<rparr>\<rparr>)
            else Some bad) })"

definition parse_hostport ::
  "mem \<Rightarrow> env \<Rightarrow> ptr \<Rightarrow> int \<Rightarrow> hostport_type \<Rightarrow> (int \<times> hostport_type) option" where
  "parse_hostport M e inp mx out0 = do {
     let out = out0\<lparr>IPv4address :=
        (IPv4address out0)\<lparr>sin_port := htons 80, sin_zero := replicate 8 NUL\<rparr>\<rparr>;
     host_size \<leftarrow> scan host_char (bytes_at M inp) mx;
     colon \<leftarrow> next_is M inp host_size mx (CHR '':'');
     if colon
     then do {
       let begin_port = host_size + 1;
       (n, port) \<leftarrow> parse_port (mx - begin_port) M (padd inp begin_port);
       let out = out\<lparr>IPv4address := (IPv4address out)\<lparr>sin_port := port\<rparr>\<rparr>;
       if n = 0 then Some (UPNP_E_INVALID_URL, out)
       else resolve_host M e inp host_size (n + begin_port) out }
     else resolve_host M e inp host_size host_size out }"

section \<open>Schemes and URIs\<close>

definition scheme_char :: "char \<Rightarrow> bool" where
  "scheme_char c = (isalnum c \<or> c = CHR ''+'' \<or> c = CHR ''-'' \<or> c = CHR ''.'')"

text \<open>
  The loop of \<^verbatim>\<open>parse_scheme\<close> over the bytes from \<open>in+i\<close>; \<open>Some None\<close> is its
  \<^verbatim>\<open>return FALSE\<close>.
\<close>

fun scheme_scan :: "string \<Rightarrow> int \<Rightarrow> int \<Rightarrow> int option option" where
  "scheme_scan [] i mx = (if i < mx then None else Some (Some i))"
| "scheme_scan (c # cs) i mx =
     (if i < mx \<and> c \<noteq> CHR '':''
      then if \<not> scheme_char c then Some None else scheme_scan cs (i + 1) mx
      else Some (Some i))"

definition parse_scheme :: "mem \<Rightarrow> ptr \<Rightarrow> int \<Rightarrow> (int \<times> token) option" where
  "parse_scheme M inp mx =
     (if mx = 0 then Some (0, null_token)
      else do {
        c \<leftarrow> rd M inp;
        if \<not> isalpha c then Some (0, null_token)
        else do {
          r \<leftarrow> scheme_scan (bytes_at M (padd inp 1)) 1 mx;
          (case r of
            None \<Rightarrow> Some (0, null_token)
          | Some i \<Rightarrow>
              if i < mx then Some (i, \<lparr>buff = Some inp, tsize = i\<rparr>)
              else Some (0, null_token)) } })"

text \<open>The path, query and fragment, from \<open>begin_path\<close> on.\<close>

definition parse_path ::
  "mem \<Rightarrow> ptr \<Rightarrow> int \<Rightarrow> int \<Rightarrow> uri_type \<Rightarrow> (int \<times> uri_type) option" where
  "parse_path M inp mx begin_path out = do {
     (n, pq) \<leftarrow> parse_uric M (padd inp begin_path) (mx - begin_path);
     let out = out\<lparr>pathquery := pq\<rparr>;
     slash \<leftarrow> (if tsize pq \<noteq> 0 then map_option (\<lambda>c. c = CHR ''/'') (rd M (padd inp begin_path))
              else Some False);
     let out = (if slash then out\<lparr>path_type := ABS_PATH\<rparr> else out);
     let begin_fragment = n + begin_path;
     hash \<leftarrow> next_is M inp begin_fragment mx (CHR ''#'');
     if hash
     then do {
       (m, fr) \<leftarrow> parse_uric M (padd inp (begin_fragment + 1)) (mx - (begin_fragment + 1));
       Some (HTTP_SUCCESS, out\<lparr>fragment := fr\<rparr>) }
     else Some (HTTP_SUCCESS, out\<lparr>fragment := null_token\<rparr>) }"

definition parse_uri ::
  "mem \<Rightarrow> env \<Rightarrow> ptr \<Rightarrow> int \<Rightarrow> uri_type \<Rightarrow> (int \<times> uri_type) option" where
  "parse_uri M e inp mx out0 = do {
     (n, sch) \<leftarrow> parse_scheme M inp mx;
     let out = (if n \<noteq> 0
        then out0\<lparr>scheme := sch, utype := ABSOLUTE, path_type := OPAQUE_PART\<rparr>
        else out0\<lparr>scheme := sch, utype := RELATIVE, path_type := REL_PATH\<rparr>);
     let begin_hostport = (if n \<noteq> 0 then n + 1 else 0);
     first \<leftarrow> (if begin_hostport + 1 < mx
        then map_option (\<lambda>c. c = CHR ''/'') (rd M (padd inp begin_hostport)) else Some False);
     slashes \<leftarrow> (if first
        then map_option (\<lambda>c. c = CHR ''/'') (rd M (padd inp (begin_hostport + 1))) else Some False);
     if slashes
     then do {
       let begin_hostport = begin_hostport + 2;
       (begin_path, hp) \<leftarrow>
         parse_hostport M e (padd inp begin_hostport) (mx - begin_hostport) (hostport out);
       let out = out\<lparr>hostport := hp\<rparr>;
       if begin_path \<ge> 0 then parse_path M inp mx (begin_path + begin_hostport) out
       else Some (begin_path, out) }
     else parse_path M inp mx begin_hostport
       (out\<lparr>hostport := \<lparr>hp_text = null_token,
          IPv4address = (IPv4address (hostport out))\<lparr>sin_port := 0, s_addr := 0\<rparr>\<rparr>\<rparr>) }"

section \<open>URL lists\<close>

record URL_list =
  lsize :: int
  URLs :: "ptr option"
  parsedURLs :: "uri_type list"

definition copy_sockaddr_in :: "sockaddr_in \<Rightarrow> sockaddr_in" where
  "copy_sockaddr_in a =
     \<lparr>sin_family = sin_family a, sin_port = sin_port a, s_addr = s_addr a,
      sin_zero = replicate 8 NUL\<rparr>"

definition copy_uri :: "ptr \<Rightarrow> ptr \<Rightarrow> uri_type \<Rightarrow> uri_type" where
  "copy_uri from to u =
     \<lparr>utype = utype u,
      scheme = copy_token (scheme u) from to,
      path_type = path_type u,
      pathquery = copy_token (pathquery u) from to,
      fragment = copy_token (fragment u) from to,
      hostport = \<lparr>hp_text = copy_token (hp_text (hostport u)) from to,
                  IPv4address = copy_sockaddr_in (IPv4address (hostport u))\<rparr>\<rparr>"

text \<open>
  \<open>fresh\<close> is the block the allocator hands out for \<^verbatim>\<open>out->URLs\<close>; the loop runs over
  \<open>in->size\<close> entries and reads past the array when there are fewer.
\<close>

abbreviation sizeof_uri_type :: int where "sizeof_uri_type \<equiv> 96"

definition copy_URL_list ::
  "mem \<Rightarrow> env \<Rightarrow> block \<Rightarrow> URL_list \<Rightarrow> (int \<times> URL_list \<times> mem) option" where
  "copy_URL_list M e fresh l = do {
     from \<leftarrow> URLs l;
     n \<leftarrow> strlen (bytes_at M from);
     let len = n + 1;
     if \<not> malloc_ok e len \<or> \<not> malloc_ok e (sizeof_uri_type * lsize l)
     then Some (UPNP_E_OUTOF_MEMORY,
       \<lparr>lsize = 0, URLs = (if malloc_ok e len then Some (fresh, 0) else None), parsedURLs = []\<rparr>,
       M)
     else do {
       bs \<leftarrow> rd_bytes M from len;
       if int (length (parsedURLs l)) < lsize l then None
       else Some (HTTP_SUCCESS,
         \<lparr>lsize = lsize l, URLs = Some (fresh, 0),
          parsedURLs = map (copy_uri from (fresh, 0)) (take (nat (lsize l)) (parsedURLs l))\<rparr>,
         M(fresh := bs)) } }"

text \<open>
  After \<^verbatim>\<open>free\<close> the block is gone: its bytes can no longer be read.  The pointers of the
  list are left as they are.
\<close>

definition free_ptr :: "mem \<Rightarrow> ptr option \<Rightarrow> mem" where
  "free_ptr M p = (case p of None \<Rightarrow> M | Some q \<Rightarrow> M(fst q := []))"

definition free_URL_list :: "mem \<Rightarrow> URL_list \<Rightarrow> mem \<times> URL_list" where
  "free_URL_list M l = (free_ptr M (URLs l), l\<lparr>lsize := 0, parsedURLs := []\<rparr>)"

section \<open>Tokens stay inside the text\<close>

definition tok_within :: "ptr \<Rightarrow> int \<Rightarrow> token \<Rightarrow> bool" where
  "tok_within p n t =
     (case buff t of None \<Rightarrow> tsize t = 0
      | Some q \<Rightarrow> fst q = fst p \<and> snd p \<le> snd q \<and> 0 \<le> tsize t \<and> snd q - snd p + tsize t \<le> n)"

definition uri_within :: "ptr \<Rightarrow> int \<Rightarrow> uri_type \<Rightarrow> bool" where
  "uri_within p n u =
     (tok_within p n (scheme u) \<and> tok_within p n (pathquery u) \<and> tok_within p n (fragment u) \<and>
      tok_within p n (hp_text (hostport u)))"

lemma tok_within_null [simp]: "tok_within p n null_token"
  by (simp add: tok_within_def null_token_def)

lemma tok_within_padd [simp]: "tok_within p n \<lparr>buff = Some (padd p k), tsize = m\<rparr> \<longleftrightarrow>
    0 \<le> k \<and> 0 \<le> m \<and> k + m \<le> n"
  by (auto simp: tok_within_def)

lemma tok_within_self [simp]:
  "tok_within p n \<lparr>buff = Some p, tsize = m\<rparr> \<longleftrightarrow> 0 \<le> m \<and> m \<le> n"
  by (auto simp: tok_within_def)

lemma tok_within_ok: "tok_within p n t \<Longrightarrow> 0 \<le> snd p \<Longrightarrow> n \<le> int (length (bytes_at M p)) \<Longrightarrow>
    tok_ok M t"
  by (auto simp: tok_within_def tok_ok_def tok_bytes_def bytes_at_def split: option.splits)

lemma length_bytes_padd: "0 \<le> snd p \<Longrightarrow> 0 \<le> k \<Longrightarrow> k \<le> int (length (bytes_at M p)) \<Longrightarrow>
    int (length (bytes_at M (padd p k))) = int (length (bytes_at M p)) - k"
  by (simp add: bytes_at_padd)

lemma next_is_Some: "0 \<le> snd p \<Longrightarrow> 0 \<le> i \<Longrightarrow> mx \<le> int (length (bytes_at M p)) \<Longrightarrow>
    next_is M p i mx c = Some (i < mx \<and> bytes_at M p ! nat i = c)"
  by (simp add: next_is_def rd_Some)

lemma rd_at_Some: "0 \<le> snd p \<Longrightarrow> 0 < int (length (bytes_at M p)) \<Longrightarrow> \<exists>c. rd M p = Some c"
  using rd_Some [of p 0 M] by simp

subsection \<open>Host and port\<close>

definition uri_error :: "int \<Rightarrow> bool" where
  "uri_error r = (r = UPNP_E_INVALID_URL \<or> r = UPNP_E_OUTOF_MEMORY)"

lemma resolve_host_within:
  assumes "0 \<le> hs" "hs \<le> int (length (bytes_at M p))" "0 \<le> hps" "hps \<le> mx"
  shows "\<exists>r out'. resolve_host M e p hs hps out = Some (r, out') \<and>
    (uri_error r \<or> r = hps \<and> hp_text out' = \<lparr>buff = Some p, tsize = hps\<rparr>)"
  using assms
  by (auto simp: resolve_host_def rd_bytes_def uri_error_def Let_def split: option.splits)

lemma scan_within: "0 \<le> mx \<Longrightarrow> mx \<le> int (length bs) \<Longrightarrow>
    \<exists>n. scan P bs mx = Some n \<and> 0 \<le> n \<and> n \<le> mx"
  using scan_returns [of mx bs P] scan_bounds [of P bs mx] by fastforce

lemma parse_port_within:
  assumes "0 \<le> mx" "mx \<le> int (length (bytes_at M p))"
  shows "\<exists>n t. parse_port mx M p = Some (n, t) \<and> 0 \<le> n \<and> n \<le> mx"
proof -
  have "length (takeWhile isdigit (take (nat mx) (bytes_at M p))) \<le> nat mx"
    using length_takeWhile_le [of isdigit "take (nat mx) (bytes_at M p)"] by simp
  then show ?thesis
    using assms digits.sc_takeWhile [OF assms, of 0] by (auto simp: parse_port_def)
qed

lemma parse_hostport_within:
  assumes p: "0 \<le> snd p" "0 \<le> mx" "mx \<le> int (length (bytes_at M p))"
  shows "\<exists>r out'. parse_hostport M e p mx out = Some (r, out') \<and>
    (uri_error r \<or> 0 \<le> r \<and> r \<le> mx \<and> hp_text out' = \<lparr>buff = Some p, tsize = r\<rparr>)"
proof -
  obtain hs where hs: "scan host_char (bytes_at M p) mx = Some hs" "0 \<le> hs" "hs \<le> mx"
    using scan_within p by blast
  note nx = next_is_Some [OF p(1) hs(2) p(3), of "CHR '':''"]
  show ?thesis
  proof (cases "hs < mx \<and> bytes_at M p ! nat hs = CHR '':''")
    case True
    obtain n t where n: "parse_port (mx - (hs + 1)) M (padd p (hs + 1)) = Some (n, t)"
      "0 \<le> n" "n \<le> mx - (hs + 1)"
      using parse_port_within [of "mx - (hs + 1)" M "padd p (hs + 1)"] True p hs
      by (auto simp: length_bytes_padd)
    let ?o = "out\<lparr>IPv4address :=
        (IPv4address out)\<lparr>sin_zero := replicate 8 NUL, sin_port := t\<rparr>\<rparr>"
    obtain r h where h: "resolve_host M e p hs (n + (hs + 1)) ?o = Some (r, h)"
      "uri_error r \<or> r = n + (hs + 1) \<and> hp_text h = \<lparr>buff = Some p, tsize = r\<rparr>"
      using resolve_host_within [of hs M p "n + (hs + 1)" mx e ?o] hs n p by auto
    then show ?thesis
      using hs n True by (auto simp: parse_hostport_def nx Let_def uri_error_def)
  next
    case False
    let ?o = "out\<lparr>IPv4address :=
        (IPv4address out)\<lparr>sin_port := htons 80, sin_zero := replicate 8 NUL\<rparr>\<rparr>"
    obtain r h where h: "resolve_host M e p hs hs ?o = Some (r, h)"
      "uri_error r \<or> r = hs \<and> hp_text h = \<lparr>buff = Some p, tsize = r\<rparr>"
      using resolve_host_within [of hs M p hs mx e ?o] hs p by auto
    then show ?thesis using hs False by (auto simp: parse_hostport_def nx Let_def)
  qed
qed

subsection \<open>Scheme and path\<close>

lemma scheme_scan_returns: "mx - i \<le> int (length bs) \<Longrightarrow> \<exists>r. scheme_scan bs i mx = Some r"
  by (induction bs i mx rule: scheme_scan.induct) auto

lemma scheme_scan_bounds: "scheme_scan bs i mx = Some (Some n) \<Longrightarrow> i \<le> n"
  by (induction bs i mx rule: scheme_scan.induct) (auto split: if_splits)

lemma parse_scheme_within:
  assumes "0 \<le> snd p" "0 \<le> mx" "mx \<le> int (length (bytes_at M p))"
  shows "\<exists>n t. parse_scheme M p mx = Some (n, t) \<and> tok_within p mx t \<and> 0 \<le> n \<and> (n = 0 \<or> n < mx)"
proof (cases "mx = 0")
  case False
  then have "0 < int (length (bytes_at M p))" using assms by linarith
  then obtain c where c: "rd M p = Some c" using assms rd_at_Some [of p M] by blast
  obtain r where r: "scheme_scan (bytes_at M (padd p 1)) 1 mx = Some r"
    using scheme_scan_returns [of mx 1 "bytes_at M (padd p 1)"] assms False
    by (auto simp: bytes_at_padd)
  show ?thesis
    using False c r scheme_scan_bounds [of "bytes_at M (padd p 1)" 1 mx]
    by (cases r) (auto simp: parse_scheme_def)
qed (simp add: parse_scheme_def)

lemma parse_uric_within:
  assumes "0 \<le> mx" "mx \<le> int (length (bytes_at M p))"
  shows "\<exists>n. parse_uric M p mx = Some (n, \<lparr>buff = Some p, tsize = n\<rparr>) \<and> 0 \<le> n \<and> n \<le> mx"
  using uric.sc_returns [OF assms(2)] uric.sc_bounds [of "bytes_at M p" mx] assms(1)
  by (fastforce simp: parse_uric_def)

lemma parse_path_within:
  assumes p: "0 \<le> snd p" "mx \<le> int (length (bytes_at M p))" "0 \<le> b" "b \<le> mx"
    and w: "tok_within p mx (scheme out)" "tok_within p mx (hp_text (hostport out))"
  shows "\<exists>out'. parse_path M p mx b out = Some (HTTP_SUCCESS, out') \<and> uri_within p mx out' \<and>
    scheme out' = scheme out \<and> hostport out' = hostport out \<and> utype out' = utype out \<and>
    buff (pathquery out') = Some (padd p b) \<and> b + tsize (pathquery out') \<le> mx"
proof -
  obtain n where n: "parse_uric M (padd p b) (mx - b)
      = Some (n, \<lparr>buff = Some (padd p b), tsize = n\<rparr>)" "0 \<le> n" "n \<le> mx - b"
    using parse_uric_within [of "mx - b" M "padd p b"] p by (auto simp: length_bytes_padd)
  have rb: "rd M (padd p b) = Some (bytes_at M p ! nat b)" if "n \<noteq> 0"
    using that n p by (intro rd_Some) auto
  have nx: "next_is M p (n + b) mx (CHR ''#'')
      = Some (n + b < mx \<and> bytes_at M p ! nat (n + b) = CHR ''#'')"
    using n p by (intro next_is_Some) auto
  show ?thesis
  proof (cases "n + b < mx \<and> bytes_at M p ! nat (n + b) = CHR ''#''")
    case True
    obtain m where m: "parse_uric M (padd p (n + b + 1)) (mx - (n + b + 1))
        = Some (m, \<lparr>buff = Some (padd p (n + b + 1)), tsize = m\<rparr>)" "0 \<le> m" "m \<le> mx - (n + b + 1)"
      using parse_uric_within [of "mx - (n + b + 1)" M "padd p (n + b + 1)"] p n True
      by (auto simp: length_bytes_padd)
    show ?thesis
      using n m p w True rb nx by (cases "n = 0") (auto simp: parse_path_def uri_within_def Let_def)
  next
    case False
    show ?thesis
      using n p w False rb nx by (cases "n = 0") (auto simp: parse_path_def uri_within_def Let_def)
  qed
qed

text \<open>
  The parts of a parsed URI follow each other in its text: the scheme with its colon, the two
  slashes with host and port, the path and query.
\<close>

definition uri_layout :: "mem \<Rightarrow> ptr \<Rightarrow> int \<Rightarrow> uri_type \<Rightarrow> bool" where
  "uri_layout M p mx u =
     (uri_within p mx u \<and>
      (utype u = ABSOLUTE \<longrightarrow> buff (scheme u) = Some p) \<and>
      (0 < tsize (hp_text (hostport u)) \<longrightarrow> buff (hp_text (hostport u)) \<noteq> None) \<and>
      buff (pathquery u) \<noteq> None \<and>
      (if utype u = ABSOLUTE then tsize (scheme u) + 1 else 0) +
      (if 0 < tsize (hp_text (hostport u)) then 2 + tsize (hp_text (hostport u)) else 0) +
      tsize (pathquery u) \<le> mx)"

lemma parse_scheme_tok: "parse_scheme M p mx = Some (n, t) \<Longrightarrow>
    (n \<noteq> 0 \<longrightarrow> t = \<lparr>buff = Some p, tsize = n\<rparr>)"
  by (auto simp: parse_scheme_def null_token_def split: if_splits bind_splits option.splits)

lemma parse_uri_shape:
  assumes p: "0 \<le> snd p" "0 \<le> mx" "mx \<le> int (length (bytes_at M p))"
  shows "\<exists>r u. parse_uri M e p mx out = Some (r, u) \<and>
    (r = HTTP_SUCCESS \<and> uri_layout M p mx u \<or> uri_error r)"
proof -
  obtain n t where n: "parse_scheme M p mx = Some (n, t)" "tok_within p mx t" "0 \<le> n"
    "n = 0 \<or> n < mx"
    using parse_scheme_within [OF p] by blast
  note nt = parse_scheme_tok [OF n(1)]
  define b where "b = (if n \<noteq> 0 then n + 1 else 0)"
  define o1 where "o1 = (if n \<noteq> 0
        then out\<lparr>scheme := t, utype := ABSOLUTE, path_type := OPAQUE_PART\<rparr>
        else out\<lparr>scheme := t, utype := RELATIVE, path_type := REL_PATH\<rparr>)"
  have b: "0 \<le> b" "b \<le> mx" using n(3,4) p by (auto simp: b_def)
  have o1: "scheme o1 = t" "utype o1 = ABSOLUTE \<longrightarrow> t = \<lparr>buff = Some p, tsize = n\<rparr> \<and> b = n + 1"
    using nt by (auto simp: o1_def b_def)
  have r0: "rd M (padd p b) = Some (bytes_at M p ! nat b)"
    and r1: "rd M (padd p (b + 1)) = Some (bytes_at M p ! nat (b + 1))" if "b + 1 < mx"
    using that b p by (auto intro!: rd_Some)
  let ?s = "b + 1 < mx \<and> bytes_at M p ! nat b = CHR ''/'' \<and> bytes_at M p ! nat (b + 1) = CHR ''/''"
  show ?thesis
  proof (cases ?s)
    case True
    obtain r h where h: "parse_hostport M e (padd p (b + 2)) (mx - (b + 2)) (hostport o1) = Some (r, h)"
      "uri_error r \<or> 0 \<le> r \<and> r \<le> mx - (b + 2) \<and> hp_text h = \<lparr>buff = Some (padd p (b + 2)), tsize = r\<rparr>"
      using parse_hostport_within [of "padd p (b + 2)" "mx - (b + 2)" M e "hostport o1"] True p b
      by (auto simp: length_bytes_padd)
    have u: "parse_uri M e p mx out = (if r \<ge> 0 then parse_path M p mx (r + (b + 2)) (o1\<lparr>hostport := h\<rparr>)
        else Some (r, o1\<lparr>hostport := h\<rparr>))"
      using True h(1) n(1) r0 r1 unfolding parse_uri_def
      by (auto simp: b_def [symmetric] o1_def [symmetric] Let_def)
    show ?thesis
    proof (cases "0 \<le> r")
      case r: True
      then have h2: "r \<le> mx - (b + 2)" "hp_text h = \<lparr>buff = Some (padd p (b + 2)), tsize = r\<rparr>"
        using h(2) by (auto simp: uri_error_def)
      obtain v where v: "parse_path M p mx (r + (b + 2)) (o1\<lparr>hostport := h\<rparr>) = Some (HTTP_SUCCESS, v)"
        "uri_within p mx v" "scheme v = t" "hostport v = h" "utype v = utype o1"
        "buff (pathquery v) = Some (padd p (r + (b + 2)))" "r + (b + 2) + tsize (pathquery v) \<le> mx"
        using parse_path_within [OF p(1,3), of "r + (b + 2)" "o1\<lparr>hostport := h\<rparr>"] h2 r b n(2) o1
        by auto
      then have "uri_layout M p mx v" using o1 h2 r b by (auto simp: uri_layout_def)
      then show ?thesis using u r v(1) by auto
    qed (use u h(2) in auto)
  next
    case False
    let ?o2 = "o1\<lparr>hostport := \<lparr>hp_text = null_token,
        IPv4address = (IPv4address (hostport o1))\<lparr>sin_port := 0, s_addr := 0\<rparr>\<rparr>\<rparr>"
    obtain v where v: "parse_path M p mx b ?o2 = Some (HTTP_SUCCESS, v)"
        "uri_within p mx v" "scheme v = t" "hp_text (hostport v) = null_token" "utype v = utype o1"
        "buff (pathquery v) = Some (padd p b)" "b + tsize (pathquery v) \<le> mx"
      using parse_path_within [OF p(1,3), of b ?o2] b n(2) o1 by auto
    then have "uri_layout M p mx v" using o1 b by (auto simp: uri_layout_def null_token_def)
    moreover have "parse_uri M e p mx out = parse_path M p mx b ?o2"
      using False n(1) r0 r1 unfolding parse_uri_def
      by (auto simp: b_def [symmetric] o1_def [symmetric] Let_def)
    ultimately show ?thesis using v(1) by auto
  qed
qed

lemma parse_uri_returns:
  assumes "0 \<le> snd p" "0 \<le> mx" "mx \<le> int (length (bytes_at M p))"
  shows "\<exists>r out'. parse_uri M e p mx out = Some (r, out')"
  using parse_uri_shape [OF assms, of e out] by auto

text \<open>
  \<open>parse_uri\<close> with a bound inside the buffer never reads outside it; it either
  succeeds with every token (scheme, host and port, path, fragment) inside the parsed text, or
  fails with one of the two errors of \<open>parse_hostport\<close>.
\<close>

theorem parse_uri_memory_safe:
  assumes p: "0 \<le> snd p" "0 \<le> mx" "mx \<le> int (length (bytes_at M p))"
  shows "\<exists>r out'. parse_uri M e p mx out = Some (r, out') \<and>
    (r = HTTP_SUCCESS \<and> uri_within p mx out' \<or> uri_error r)"
  using parse_uri_shape [OF p, of e out] by (auto simp: uri_layout_def)

section \<open>Deep copies of URL lists\<close>

text \<open>What a parsed URI says, as text and values, whatever object its tokens point into.\<close>

definition uri_view ::
  "mem \<Rightarrow> uri_type \<Rightarrow> uriType \<times> string \<times> pathType \<times> string \<times> string \<times> string \<times> 16 word \<times> 32 word" where
  "uri_view M u =
     (utype u, tok_text M (scheme u), path_type u, tok_text M (pathquery u),
      tok_text M (fragment u), tok_text M (hp_text (hostport u)),
      sin_port (IPv4address (hostport u)), s_addr (IPv4address (hostport u)))"

lemma copy_token_text:
  assumes w: "tok_within from n t" and f: "0 \<le> snd from" "n + 1 \<le> int (length (bytes_at M from))"
    and d: "M' fresh = take (nat (n + 1)) (bytes_at M from)"
  shows "tok_text M' (copy_token t from (fresh, 0)) = tok_text M t"
proof (cases "buff t")
  case None
  then show ?thesis by (simp add: tok_text_def tok_bytes_def copy_token_def)
next
  case (Some q)
  define k where "k = nat (snd q - snd from)"
  have q: "fst q = fst from" "snd from \<le> snd q" "0 \<le> tsize t" "int k + tsize t \<le> n"
    using w Some by (auto simp: tok_within_def k_def)
  have bq: "bytes_at M q = drop k (bytes_at M from)"
    using q f by (auto simp: bytes_at_def k_def nat_diff_distrib)
  have c: "bytes_at M' (fresh, int k) = drop k (take (nat (n + 1)) (bytes_at M from))"
    by (simp add: bytes_at_def d)
  have "padd (fresh, 0) (snd q - snd from) = (fresh, int k)"
    using q by (simp add: padd_def k_def)
  then show ?thesis
    using Some q f by (simp add: tok_text_def tok_bytes_def copy_token_def bq c drop_take min_def)
qed

lemma copy_uri_view:
  assumes "uri_within from n u" "0 \<le> snd from" "n + 1 \<le> int (length (bytes_at M from))"
    and "M' fresh = take (nat (n + 1)) (bytes_at M from)"
  shows "uri_view M' (copy_uri from (fresh, 0) u) = uri_view M u"
  using assms(1) copy_token_text [where M = M and M' = M', OF _ assms(2-4)]
  by (auto simp: uri_view_def copy_uri_def uri_within_def copy_sockaddr_in_def)

lemma strlen_length: "strlen bs = Some n \<Longrightarrow> 0 \<le> n \<and> n + 1 \<le> int (length bs)"
  by (induction bs arbitrary: n) (fastforce split: if_splits)+

text \<open>
  \<open>copy_URL_list\<close> makes a deep copy: when it succeeds, every URI of the copy reads the
  same as the original did, even after the original's text has been freed.
\<close>

theorem copy_URL_list_deep:
  assumes ok: "copy_URL_list M e fresh l = Some (HTTP_SUCCESS, l', M')"
    and src: "URLs l = Some from" "0 \<le> snd from" "fst from \<noteq> fresh"
    and len: "strlen (bytes_at M from) = Some n"
    and inside: "\<forall>u \<in> set (parsedURLs l). uri_within from n u"
  shows "map (uri_view (free_ptr M' (URLs l))) (parsedURLs l') =
    map (uri_view M) (take (nat (lsize l)) (parsedURLs l))"
proof -
  note n = strlen_length [OF len]
  have r: "parsedURLs l' = map (copy_uri from (fresh, 0)) (take (nat (lsize l)) (parsedURLs l))"
    and m: "M' = M(fresh := take (nat (n + 1)) (bytes_at M from))"
    using ok src len n
    by (auto simp: copy_URL_list_def Let_def rd_bytes_def split: if_splits)
  let ?F = "free_ptr M' (URLs l)"
  have d: "?F fresh = take (nat (n + 1)) (bytes_at M from)"
    using src m by (simp add: free_ptr_def)
  have "uri_view ?F (copy_uri from (fresh, 0) u) = uri_view M u"
    if "u \<in> set (take (nat (lsize l)) (parsedURLs l))" for u
    using that inside n src(2) d by (intro copy_uri_view) (auto dest: in_set_takeD)
  then show ?thesis by (simp add: r)
qed

section \<open>Parsing a well-formed URI\<close>

lemma bytes_padd_app: "0 \<le> snd p \<Longrightarrow> bytes_at M p = xs @ ys \<Longrightarrow> k = int (length xs) \<Longrightarrow>
    bytes_at M (padd p k) = ys"
  by (simp add: bytes_at_padd)

lemma tok_text_app: "bytes_at M q = xs @ ys \<Longrightarrow>
    tok_text M \<lparr>buff = Some q, tsize = int (length xs)\<rparr> = xs"
  by (simp add: tok_text_def tok_bytes_def)

lemma tok_text_app': "bytes_at M q = xs @ ys \<Longrightarrow> n = int (length xs) \<Longrightarrow>
    tok_text M \<lparr>buff = Some q, tsize = n\<rparr> = xs"
  by (simp add: tok_text_app)

lemma scan_app: "\<forall>c \<in> set xs. P c \<Longrightarrow> int (length xs) \<le> mx \<Longrightarrow>
    scan P (xs @ ys) mx = map_option (\<lambda>n. n + int (length xs)) (scan P ys (mx - int (length xs)))"
  by (induction xs arbitrary: mx) (auto simp: option.map_comp o_def option.map_ident algebra_simps)

lemma scan_stop: "ys \<noteq> [] \<Longrightarrow> \<not> P (hd ys) \<Longrightarrow> scan P ys mx = Some 0"
  by (cases ys) auto

lemma scan_end: "mx \<le> 0 \<Longrightarrow> scan P ys mx = Some 0"
  by (cases ys) auto

lemma uric_app: "\<forall>c \<in> set xs. is_unreserved c \<or> is_reserved c \<Longrightarrow> int (length xs) \<le> mx \<Longrightarrow>
    uric_scan (xs @ ys) mx
      = map_option (\<lambda>n. n + int (length xs)) (uric_scan ys (mx - int (length xs)))"
proof (induction xs arbitrary: mx)
  case (Cons x xs)
  then have "uric_go x (xs @ ys) mx = Some True" by (auto simp: uric_go_def)
  with Cons show ?case
    by (auto simp: option.map_comp o_def algebra_simps)
qed (simp add: option.map_ident)

lemma uric_stop: "uric_scan (CHR ''#'' # ys) mx = Some 0"
proof -
  have "\<not> is_unreserved CHR ''#''" "\<not> is_reserved CHR ''#''"
    by (simp_all add: is_unreserved_def is_mark_def is_reserved_def MARK_def RESERVED_def
        ctype_defs Let_def)
  then show ?thesis by (auto simp: uric_go_def is_escaped_def split: if_splits)
qed

lemma uric_end: "mx \<le> 0 \<Longrightarrow> uric_scan ys mx = Some 0"
  by (cases ys) auto

lemma scheme_scan_app: "\<forall>c \<in> set xs. scheme_char c \<Longrightarrow> i + int (length xs) < mx \<Longrightarrow>
    scheme_scan (xs @ CHR '':'' # ys) i mx = Some (Some (i + int (length xs)))"
proof (induction xs arbitrary: i)
  case (Cons x xs)
  then have "x \<noteq> CHR '':''" by (auto simp: scheme_char_def ctype_defs Let_def)
  with Cons show ?case by (auto simp: algebra_simps)
qed auto

lemma takeWhile_stop: "\<forall>c \<in> set xs. P c \<Longrightarrow> ys = [] \<or> \<not> P (hd ys) \<Longrightarrow> takeWhile P (xs @ ys) = xs"
  by (cases ys) (auto simp: takeWhile_append2)

lemma parse_scheme_eq:
  assumes "0 \<le> snd p" "bytes_at M p = s @ CHR '':'' # r" "int (length s) < mx"
    and "s \<noteq> []" "isalpha (hd s)" "\<forall>c \<in> set s. scheme_char c"
  shows "parse_scheme M p mx = Some (int (length s), \<lparr>buff = Some p, tsize = int (length s)\<rparr>)"
proof -
  obtain c t where s: "s = c # t" using assms(4) by (cases s) auto
  have "rd M p = Some c" using assms(2) by (simp add: rd_def s)
  moreover have "bytes_at M (padd p 1) = t @ CHR '':'' # r"
    using assms(1,2) by (intro bytes_padd_app [of _ _ "[c]"]) (auto simp: s)
  ultimately show ?thesis
    using assms(3,5,6) scheme_scan_app [of t 1 mx r]
    by (simp add: parse_scheme_def s)
qed

lemma parse_path_eq:
  assumes p: "0 \<le> snd p" "bytes_at M p = pre @ path @ CHR ''#'' # f @ rest"
    and u: "\<forall>c \<in> set path. is_unreserved c \<or> is_reserved c"
      "\<forall>c \<in> set f. is_unreserved c \<or> is_reserved c"
    and k: "k = int (length pre)" "mx = int (length pre + length path + 1 + length f)"
    and sl: "path = [] \<or> hd path = CHR ''/''"
  shows "parse_path M p mx k out = Some (HTTP_SUCCESS,
    (out\<lparr>pathquery := \<lparr>buff = Some (padd p k), tsize = int (length path)\<rparr>,
         path_type := (if path = [] then path_type out else ABS_PATH),
         fragment := \<lparr>buff = Some (padd p (int (length path) + k + 1)), tsize = int (length f)\<rparr>\<rparr>))"
proof -
  have b1: "bytes_at M (padd p k) = path @ CHR ''#'' # f @ rest"
    using p k by (intro bytes_padd_app) auto
  have b2: "bytes_at M (padd p (int (length path) + k)) = CHR ''#'' # f @ rest"
    using p k by (intro bytes_padd_app [of _ _ "pre @ path"]) auto
  have b3: "bytes_at M (padd p (int (length path) + k + 1)) = f @ rest"
    using p k by (intro bytes_padd_app [of _ _ "pre @ path @ ''#''"]) auto
  have u1: "parse_uric M (padd p k) (mx - k)
      = Some (int (length path), \<lparr>buff = Some (padd p k), tsize = int (length path)\<rparr>)"
    using u(1) unfolding parse_uric_def b1
    by (subst uric_app) (simp_all add: k uric_stop del: uric_scan.simps)
  have u2: "parse_uric M (padd p (int (length path) + k + 1)) (mx - (int (length path) + k + 1))
      = Some (int (length f), \<lparr>buff = Some (padd p (int (length path) + k + 1)), tsize = int (length f)\<rparr>)"
    using u(2) unfolding parse_uric_def b3
    by (subst uric_app) (simp_all add: k uric_end)
  have sh: "rd M (padd p k) = Some (CHR ''/'')" if "path \<noteq> []"
    using that sl by (cases path) (auto simp: rd_def b1)
  have nx: "next_is M p (int (length path) + k) mx (CHR ''#'') = Some True"
    using k(2) by (simp add: next_is_def rd_def b2) (simp add: k(1))
  show ?thesis
    using u1 u2 sh nx by (cases "path = []") (simp_all add: parse_path_def)
qed

lemma parse_port_eq:
  assumes "bytes_at M q = ds @ r" "int (length ds) \<le> mx" "\<forall>c \<in> set ds. isdigit c"
    and "r = [] \<or> \<not> isdigit (hd r)" "mx \<le> int (length ds + length r)"
  shows "parse_port mx M q = Some (int (length ds), htons (word_of_nat (dec_val ds)))"
proof -
  have "take (nat mx) (ds @ r) = ds @ take (nat mx - length ds) r"
    using assms(2) by simp
  moreover have "takeWhile isdigit (ds @ take (nat mx - length ds) r) = ds"
    using assms(3,4) by (intro takeWhile_stop) (cases r; auto simp: hd_take)+
  ultimately show ?thesis
    using parse_port_spec [of mx M q] assms by (simp add: Let_def)
qed

lemma parse_hostport_eq:
  assumes q: "0 \<le> snd q" "bytes_at M q = h @ CHR '':'' # ds @ r"
    and mx: "mx = int (length h + 1 + length ds + length r')" "r = r' @ r''"
    and h: "\<forall>c \<in> set h. host_char c"
    and ds: "ds \<noteq> []" "\<forall>c \<in> set ds. isdigit c" "r = [] \<or> \<not> isdigit (hd r)"
    and e: "malloc_ok e (int (length h) + 1)"
      "gethostbyname e h = Some a" "h_addrtype a = AF_INET" "h_length a = 4"
  shows "parse_hostport M e q mx out = Some (int (length h + 1 + length ds),
    \<lparr>hp_text = \<lparr>buff = Some q, tsize = int (length h + 1 + length ds)\<rparr>,
     IPv4address = (IPv4address out)\<lparr>sin_zero := replicate 8 NUL,
       sin_port := htons (word_of_nat (dec_val ds)), s_addr := h_addr a, sin_family := AF_INET\<rparr>\<rparr>)"
proof -
  have nh: "\<not> host_char CHR '':''" by (simp add: host_char_def)
  have hs: "scan host_char (bytes_at M q) mx = Some (int (length h))"
    unfolding q(2) using h mx by (subst scan_app) (simp_all add: scan_stop nh)
  have b: "bytes_at M (padd q (int (length h))) = CHR '':'' # ds @ r"
    using q by (intro bytes_padd_app) auto
  have b': "bytes_at M (padd q (int (length h) + 1)) = ds @ r"
    using q by (intro bytes_padd_app [of _ _ "h @ '':''"]) auto
  have nx: "next_is M q (int (length h)) mx (CHR '':'') = Some True"
    using mx by (simp add: next_is_def rd_def b)
  have po: "parse_port (mx - (int (length h) + 1)) M (padd q (int (length h) + 1))
      = Some (int (length ds), htons (word_of_nat (dec_val ds)))"
    using mx ds by (intro parse_port_eq [OF b']) auto
  have nm: "rd_bytes M q (int (length h)) = Some h"
    by (simp add: rd_bytes_def q(2))
  show ?thesis
    using ds(1) e by (simp add: parse_hostport_def hs nx po resolve_host_def nm Let_def)
qed

lemma parse_uri_slashes:
  assumes "parse_scheme M p mx = Some (n, t)" "n \<noteq> 0" "n + 1 + 1 < mx"
    and "rd M (padd p (n + 1)) = Some CHR ''/''" "rd M (padd p (n + 1 + 1)) = Some CHR ''/''"
    and "parse_hostport M e (padd p (n + 1 + 2)) (mx - (n + 1 + 2)) (hostport out) = Some (r, h)"
    and "0 \<le> r"
  shows "parse_uri M e p mx out = parse_path M p mx (r + (n + 1 + 2))
    (out\<lparr>scheme := t, utype := ABSOLUTE, path_type := OPAQUE_PART, hostport := h\<rparr>)"
  using assms by (simp add: parse_uri_def Let_def)

text \<open>
  C25. Parsing recovers the parts of an absolute URI: for
  \<open>scheme://host:port/path#fragment\<close> built from legal characters, with a host that resolves,
  \<open>parse_uri\<close> succeeds and its tokens denote exactly those parts, the port in network order
  and the resolved address.
\<close>

theorem parse_uri_recovers_parts:
  assumes p: "0 \<le> snd p"
      "bytes_at M p = s @ ''://'' @ h @ '':'' @ ds @ path @ ''#'' @ f @ rest"
    and mx: "mx = int (length (s @ ''://'' @ h @ '':'' @ ds @ path @ ''#'' @ f))"
    and s: "s \<noteq> []" "isalpha (hd s)" "\<forall>c \<in> set s. scheme_char c"
    and h: "\<forall>c \<in> set h. host_char c" and ds: "ds \<noteq> []" "\<forall>c \<in> set ds. isdigit c"
    and path: "path = [] \<or> hd path = CHR ''/''"
    and u: "\<forall>c \<in> set path. is_unreserved c \<or> is_reserved c"
      "\<forall>c \<in> set f. is_unreserved c \<or> is_reserved c"
    and e: "malloc_ok e (int (length h) + 1)"
      "gethostbyname e h = Some a" "h_addrtype a = AF_INET" "h_length a = 4"
  shows "\<exists>u. parse_uri M e p mx out = Some (HTTP_SUCCESS, u) \<and> uri_view M u =
    (ABSOLUTE, s, if path = [] then OPAQUE_PART else ABS_PATH, path, f, h @ '':'' @ ds,
     htons (word_of_nat (dec_val ds)), h_addr a)"
proof -
  let ?n = "int (length s)"
  let ?hp = "int (length h + 1 + length ds)"
  have b1: "bytes_at M (padd p (?n + 1)) = ''//'' @ h @ '':'' @ ds @ path @ ''#'' @ f @ rest"
    using p by (intro bytes_padd_app [of _ _ "s @ '':''"]) auto
  have b2: "bytes_at M (padd p (?n + 1 + 1)) = ''/'' @ h @ '':'' @ ds @ path @ ''#'' @ f @ rest"
    using p by (intro bytes_padd_app [of _ _ "s @ '':/''"]) auto
  have b3: "bytes_at M (padd p (?n + 1 + 2)) = h @ CHR '':'' # ds @ path @ ''#'' @ f @ rest"
    using p by (intro bytes_padd_app [of _ _ "s @ ''://''"]) auto
  have b4: "bytes_at M (padd p (?hp + (?n + 1 + 2))) = path @ ''#'' @ f @ rest"
    using p by (intro bytes_padd_app [of _ _ "s @ ''://'' @ h @ '':'' @ ds"]) auto
  have b5: "bytes_at M (padd p (int (length path) + (?hp + (?n + 1 + 2)) + 1)) = f @ rest"
    using p by (intro bytes_padd_app [of _ _ "s @ ''://'' @ h @ '':'' @ ds @ path @ ''#''"]) auto
  have sch: "parse_scheme M p mx = Some (?n, \<lparr>buff = Some p, tsize = ?n\<rparr>)"
    using p mx s by (intro parse_scheme_eq) auto
  have nd: "path @ ''#'' @ f @ rest = [] \<or> \<not> isdigit (hd (path @ ''#'' @ f @ rest))"
    using path by (cases path) (auto simp: isdigit_def)
  have hp: "parse_hostport M e (padd p (?n + 1 + 2)) (mx - (?n + 1 + 2)) (hostport out) = Some (?hp,
    \<lparr>hp_text = \<lparr>buff = Some (padd p (?n + 1 + 2)), tsize = ?hp\<rparr>,
     IPv4address = (IPv4address (hostport out))\<lparr>sin_zero := replicate 8 NUL,
       sin_port := htons (word_of_nat (dec_val ds)), s_addr := h_addr a, sin_family := AF_INET\<rparr>\<rparr>)"
    using mx p h ds nd e
    by (intro parse_hostport_eq [OF _ b3, of _ "path @ ''#'' @ f" rest]) auto
  have r: "rd M (padd p (?n + 1)) = Some CHR ''/''" "rd M (padd p (?n + 1 + 1)) = Some CHR ''/''"
    unfolding rd_def b1 b2 by simp_all
  define o1 where "o1 = out\<lparr>scheme := \<lparr>buff = Some p, tsize = ?n\<rparr>, utype := ABSOLUTE,
      path_type := OPAQUE_PART, hostport :=
        \<lparr>hp_text = \<lparr>buff = Some (padd p (?n + 1 + 2)), tsize = ?hp\<rparr>,
         IPv4address = (IPv4address (hostport out))\<lparr>sin_zero := replicate 8 NUL,
           sin_port := htons (word_of_nat (dec_val ds)), s_addr := h_addr a, sin_family := AF_INET\<rparr>\<rparr>\<rparr>"
  have "parse_uri M e p mx out = parse_path M p mx (?hp + (?n + 1 + 2)) o1"
    unfolding o1_def using mx s(1) by (intro parse_uri_slashes [OF sch _ _ r hp]) auto
  also have "\<dots> = Some (HTTP_SUCCESS,
    (o1\<lparr>pathquery := \<lparr>buff = Some (padd p (?hp + (?n + 1 + 2))), tsize = int (length path)\<rparr>,
         path_type := (if path = [] then path_type o1 else ABS_PATH),
         fragment := \<lparr>buff = Some (padd p (int (length path) + (?hp + (?n + 1 + 2)) + 1)),
                      tsize = int (length f)\<rparr>\<rparr>))"
    using p mx u path by (intro parse_path_eq [of _ _ "s @ ''://'' @ h @ '':'' @ ds" _ _ rest]) auto
  finally have q: "parse_uri M e p mx out = \<dots>" .
  have "tok_text M \<lparr>buff = Some p, tsize = ?n\<rparr> = s"
    "tok_text M \<lparr>buff = Some (padd p (?hp + (?n + 1 + 2))), tsize = int (length path)\<rparr> = path"
    "tok_text M \<lparr>buff = Some (padd p (int (length path) + (?hp + (?n + 1 + 2)) + 1)),
       tsize = int (length f)\<rparr> = f"
    by (rule tok_text_app [OF p(2)], rule tok_text_app [OF b4], rule tok_text_app [OF b5])
  moreover have "tok_text M \<lparr>buff = Some (padd p (?n + 1 + 2)), tsize = ?hp\<rparr> = h @ '':'' @ ds"
    using b3 by (intro tok_text_app' [of _ _ _ "path @ ''#'' @ f @ rest"]) auto
  ultimately show ?thesis
    unfolding q by (simp add: uri_view_def o1_def)
qed

section \<open>Witnesses\<close>

text \<open>A resolver that knows every host, an allocator that never fails, and a blank URI.\<close>

definition easy_env :: env where
  "easy_env = \<lparr>gethostbyname = (\<lambda>_. Some \<lparr>h_addrtype = AF_INET, h_length = 4, h_addr = 2130706433\<rparr>),
     malloc_ok = (\<lambda>_. True)\<rparr>"

definition blank_addr :: sockaddr_in where
  "blank_addr = \<lparr>sin_family = 0, sin_port = 0, s_addr = 0, sin_zero = []\<rparr>"

definition blank_uri :: uri_type where
  "blank_uri = \<lparr>utype = RELATIVE, scheme = null_token, path_type = REL_PATH,
     pathquery = null_token, fragment = null_token,
     hostport = \<lparr>hp_text = null_token, IPv4address = blank_addr\<rparr>\<rparr>"

lemma parse_uri_memory_safe_witness:
  "\<exists>r out'. parse_uri (one_obj ''http://h:80/a'') easy_env (0, 0) 13 blank_uri = Some (r, out') \<and>
    (r = HTTP_SUCCESS \<and> uri_within (0, 0) 13 out' \<or> uri_error r)"
  by (rule parse_uri_memory_safe) simp_all

lemma copy_URL_list_deep_witness:
  "\<exists>l' M'. copy_URL_list (one_obj [CHR ''/'', CHR ''a'', NUL]) easy_env 1
      \<lparr>lsize = 1, URLs = Some (0, 0),
       parsedURLs = [blank_uri\<lparr>pathquery := \<lparr>buff = Some (0, 0), tsize = 2\<rparr>\<rparr>]\<rparr>
      = Some (HTTP_SUCCESS, l', M') \<and>
    map (\<lambda>u. tok_text (free_ptr M' (Some (0, 0))) (pathquery u)) (parsedURLs l') = [''/a'']"
proof -
  let ?M = "one_obj [CHR ''/'', CHR ''a'', NUL]"
  let ?u = "blank_uri\<lparr>pathquery := \<lparr>buff = Some (0, 0), tsize = 2\<rparr>\<rparr>"
  let ?l = "\<lparr>lsize = 1, URLs = Some (0, 0), parsedURLs = [?u]\<rparr>"
  obtain l' M' where c: "copy_URL_list ?M easy_env 1 ?l = Some (HTTP_SUCCESS, l', M')"
    by (simp add: copy_URL_list_def easy_env_def rd_bytes_def)
  have "map (uri_view (free_ptr M' (URLs ?l))) (parsedURLs l')
      = map (uri_view ?M) (take (nat (lsize ?l)) (parsedURLs ?l))"
    by (rule copy_URL_list_deep [OF c, of "(0, 0)" 2])
      (simp_all add: uri_within_def blank_uri_def tok_within_def null_token_def)
  then have "map (\<lambda>u. tok_text (free_ptr M' (Some (0, 0))) (pathquery u)) (parsedURLs l')
      = [tok_text ?M (pathquery ?u)]"
    by (auto simp: uri_view_def)
  also have "tok_text ?M (pathquery ?u) = ''/a''"
    by (simp add: tok_text_def tok_bytes_def)
  finally show ?thesis using c by auto
qed

lemma parse_uri_recovers_parts_witness:
  "\<exists>u. parse_uri (one_obj ''http://h:81/a#f'') easy_env (0, 0) 15 blank_uri = Some (HTTP_SUCCESS, u) \<and>
    uri_view (one_obj ''http://h:81/a#f'') u =
    (ABSOLUTE, ''http'', ABS_PATH, ''/a'', ''f'', ''h:81'', htons 81, 2130706433)"
  using parse_uri_recovers_parts [of "(0, 0)" "one_obj ''http://h:81/a#f''" "''http''" "''h''"
      "''81''" "''/a''" "''f''" "[]" 15 easy_env
      "\<lparr>h_addrtype = AF_INET, h_length = 4, h_addr = 2130706433\<rparr>" blank_uri]
  by (simp add: easy_env_def scheme_char_def host_char_def is_unreserved_def is_reserved_def
      RESERVED_def ctype_defs dec_val_def Let_def)

end
