(* ===== verification/Http_Resolve.thy ===== *)
theory Http_Resolve imports Http_Uri begin

text \<open>
  Relative URL resolution of \<^verbatim>\<open>src/genlib/http_client/http_client.c\<close>:
  \<^verbatim>\<open>remove_dots\<close>, which rewrites a path in place, and \<^verbatim>\<open>resolve_rel_url\<close>.
  The in-place loop is refined in two steps: to a loop that reads the original text and
  builds its output separately, and from there to dot removal on the list of path segments.
\<close>

section \<open>The in-place loop\<close>

text \<open>
  \<open>buf\<close> is the buffer, \<open>from\<close> and \<open>to\<close> are \<^verbatim>\<open>copyFrom-in\<close> and \<^verbatim>\<open>copyTo-in\<close>, and
  \<open>segs\<close> holds \<^verbatim>\<open>Segments[lastSegment], ..., Segments[0]\<close> (offsets, last one first).
  The result is the buffer, \<open>from\<close> and \<open>to\<close> at the end of the loop; \<open>Inl\<close> is the error return.
\<close>

definition dot_here :: "string \<Rightarrow> nat \<Rightarrow> bool" where
  "dot_here buf i = (buf ! i = CHR ''.'' \<and> (i = 0 \<or> buf ! (i - 1) = CHR ''/''))"

function dots_loop ::
  "nat \<Rightarrow> string \<Rightarrow> nat \<Rightarrow> nat \<Rightarrow> nat list \<Rightarrow> string + (string \<times> nat \<times> nat)" where
  "dots_loop mx buf from to segs =
     (if from < mx \<and> buf ! from \<noteq> CHR ''?'' \<and> buf ! from \<noteq> CHR ''#''
      then
        if dot_here buf from \<and> (from + 1 = mx \<or> buf ! (from + 1) = CHR ''/'')
        then dots_loop mx buf (from + 2) to segs
        else if dot_here buf from \<and> buf ! (from + 1) = CHR ''.'' \<and>
          (from + 2 = mx \<or> buf ! (from + 2) = CHR ''/'')
        then (case segs of
            _ # t # ts \<Rightarrow> dots_loop mx buf (from + 3) t (t # ts)
          | _ \<Rightarrow> Inl buf)
        else dots_loop mx (buf[to := buf ! from]) (from + 1) (to + 1)
          (if buf ! from = CHR ''/'' then (to + 1) # segs else segs)
      else Inr (buf, from, to))"
  by pat_completeness auto
termination
  by (relation "measure (\<lambda>(mx, buf, from, to, segs). mx - from)") auto

declare dots_loop.simps [simp del]

text \<open>\<^verbatim>\<open>while (copyFrom<max) *copyTo++ = *copyFrom++;\<close>\<close>

function copy_tail :: "nat \<Rightarrow> string \<Rightarrow> nat \<Rightarrow> nat \<Rightarrow> string \<times> nat" where
  "copy_tail mx buf from to =
     (if from < mx then copy_tail mx (buf[to := buf ! from]) (from + 1) (to + 1) else (buf, to))"
  by pat_completeness auto
termination
  by (relation "measure (\<lambda>(mx, buf, from, to). mx - from)") auto

declare copy_tail.simps [simp del]

text \<open>
  \<^verbatim>\<open>remove_dots(in,size)\<close> on the buffer \<open>buf\<close>, which holds more than \<open>size\<close> bytes (the
  terminator at least); a shorter buffer, or \<open>size = 0\<close> (where \<^verbatim>\<open>Segments[0]=NULL\<close> writes
  past a zero-length allocation), is a memory fault.
\<close>

definition remove_dots :: "env \<Rightarrow> string \<Rightarrow> nat \<Rightarrow> (int \<times> string) option" where
  "remove_dots e buf sz =
     (if length buf \<le> sz then None
      else if \<not> malloc_ok e (8 * int sz) then Some (UPNP_E_OUTOF_MEMORY, buf)
      else if sz = 0 then None
      else (case dots_loop sz buf 0 0 [] of
          Inl buf' \<Rightarrow> Some (UPNP_E_INVALID_URL, buf')
        | Inr (buf', from, to) \<Rightarrow>
            (let (buf'', to') = copy_tail sz buf' from to
             in Some (UPNP_E_SUCCESS, buf''[to' := NUL]))))"

section \<open>The loop over the original text\<close>

text \<open>
  \<open>dots_fun\<close> consumes the text and appends to a separate output; \<open>st\<close> says that the next
  character begins a segment.
\<close>

fun dots_fun :: "bool \<Rightarrow> string \<Rightarrow> string \<Rightarrow> nat list \<Rightarrow> string option" where
  "dots_fun st [] out sg = Some out"
| "dots_fun st (c # cs) out sg =
     (if c = CHR ''?'' \<or> c = CHR ''#'' then Some (out @ c # cs)
      else if st \<and> c = CHR ''.'' \<and> (cs = [] \<or> hd cs = CHR ''/'')
      then dots_fun True (tl cs) out sg
      else if st \<and> c = CHR ''.'' \<and> hd cs = CHR ''.'' \<and> (tl cs = [] \<or> hd (tl cs) = CHR ''/'')
      then (case sg of
          _ # t # ts \<Rightarrow> dots_fun True (tl (tl cs)) (take t out) (t # ts)
        | _ \<Rightarrow> None)
      else dots_fun (c = CHR ''/'') cs (out @ [c])
        (if c = CHR ''/'' then (length out + 1) # sg else sg))"

lemma take_Suc_drop_nth: "i < mx \<Longrightarrow> mx \<le> length xs \<Longrightarrow>
    take (mx - i) (drop i xs) = xs ! i # take (mx - Suc i) (drop (Suc i) xs)"
  by (metis Cons_nth_drop_Suc Suc_diff_Suc less_le_trans take_Suc_Cons)

lemma copy_tail_eq:
  assumes "from \<le> mx" "to \<le> from" "mx \<le> length buf"
  shows "copy_tail mx buf from to
    = (take to buf @ take (mx - from) (drop from buf) @ drop (to + (mx - from)) buf, to + (mx - from))"
  using assms
proof (induction mx buf "from" to rule: copy_tail.induct)
  case (1 mx buf "from" to)
  show ?case
  proof (cases "from < mx")
    case True
    let ?b = "buf[to := buf ! from]"
    have "copy_tail mx buf from to = copy_tail mx ?b (from + 1) (to + 1)"
      using True by (simp add: copy_tail.simps [of mx buf])
    also have "\<dots> = (take (to + 1) ?b @ take (mx - (from + 1)) (drop (from + 1) ?b)
        @ drop (to + 1 + (mx - (from + 1))) ?b, to + 1 + (mx - (from + 1)))"
      using 1 True by (intro "1.IH") auto
    also have "take (to + 1) ?b = take to buf @ [buf ! from]"
      using 1 True by (simp add: take_Suc_conv_app_nth)
    also have "drop (from + 1) ?b = drop (from + 1) buf"
      using 1 True by simp
    also have "drop (to + 1 + (mx - (from + 1))) ?b = drop (to + (mx - from)) buf"
      using 1 True by (simp add: Suc_diff_Suc)
    also have "to + 1 + (mx - (from + 1)) = to + (mx - from)"
      using True by simp
    finally show ?thesis
      using True 1 by (simp add: take_Suc_drop_nth)
  next
    case False
    then show ?thesis using 1 by (simp add: copy_tail.simps [of mx buf])
  qed
qed

text \<open>What the loop still has to read, and whether a segment begins there.\<close>

definition rest_of :: "nat \<Rightarrow> string \<Rightarrow> nat \<Rightarrow> string" where
  "rest_of mx buf i = take (mx - i) (drop i buf)"

definition starts :: "string \<Rightarrow> nat \<Rightarrow> bool" where
  "starts buf i = (i = 0 \<or> buf ! (i - 1) = CHR ''/'')"

lemma rest_of_Cons: "i < mx \<Longrightarrow> mx \<le> length buf \<Longrightarrow>
    rest_of mx buf i = buf ! i # rest_of mx buf (i + 1)"
  by (simp add: rest_of_def take_Suc_drop_nth)

lemma rest_of_Nil [simp]: "mx \<le> i \<Longrightarrow> rest_of mx buf i = []"
  by (simp add: rest_of_def)

lemma rest_of_hd: "i < mx \<Longrightarrow> mx \<le> length buf \<Longrightarrow> hd (rest_of mx buf i) = buf ! i"
  by (simp add: rest_of_Cons)

lemma rest_of_eq_Nil: "mx \<le> length buf \<Longrightarrow> rest_of mx buf i = [] \<longleftrightarrow> mx \<le> i"
  by (auto simp: rest_of_def)

lemma rest_of_tl: "i < mx \<Longrightarrow> mx \<le> length buf \<Longrightarrow>
    tl (rest_of mx buf i) = rest_of mx buf (i + 1)"
  by (simp add: rest_of_Cons)

lemma dots_fun_Nil_st: "cs = [] \<Longrightarrow> dots_fun a cs out sg = dots_fun b cs out sg"
  by simp

text \<open>
  First refinement: the loop that overwrites its own input computes what the loop over the
  original text computes, because it never writes ahead of where it reads.
\<close>

lemma dots_loop_refines:
  assumes "to \<le> from" "to \<le> mx" "mx < length buf" "\<forall>x \<in> set segs. x \<le> to"
    and "sorted_wrt (\<lambda>a b. b \<le> a) segs"
  shows "case dots_loop mx buf from to segs of
      Inl b \<Rightarrow> dots_fun (starts buf from) (rest_of mx buf from) (take to buf) segs = None
    | Inr (b, f, t) \<Rightarrow>
        dots_fun (starts buf from) (rest_of mx buf from) (take to buf) segs
          = Some (take t b @ rest_of mx b f) \<and>
        t \<le> f \<and> t \<le> mx \<and> length b = length buf"
  using assms
proof (induction mx buf "from" to segs rule: dots_loop.induct)
  case (1 mx buf "from" to segs)
  let ?P = "\<lambda>from' to' buf' segs'. case dots_loop mx buf' from' to' segs' of
      Inl b \<Rightarrow> dots_fun (starts buf' from') (rest_of mx buf' from') (take to' buf') segs' = None
    | Inr (b, f, t) \<Rightarrow>
        dots_fun (starts buf' from') (rest_of mx buf' from') (take to' buf') segs'
          = Some (take t b @ rest_of mx b f) \<and>
        t \<le> f \<and> t \<le> mx \<and> length b = length buf'"
  let ?go = "from < mx \<and> buf ! from \<noteq> CHR ''?'' \<and> buf ! from \<noteq> CHR ''#''"
  let ?one = "dot_here buf from \<and> (from + 1 = mx \<or> buf ! (from + 1) = CHR ''/'')"
  let ?two = "dot_here buf from \<and> buf ! (from + 1) = CHR ''.'' \<and>
          (from + 2 = mx \<or> buf ! (from + 2) = CHR ''/'')"
  have dh: "dot_here buf from = (starts buf from \<and> buf ! from = CHR ''.'')"
    by (auto simp: dot_here_def starts_def)
  have le: "mx \<le> length buf" using "1.prems" by simp
  show ?case
  proof (cases ?go)
    case False
    then show ?thesis
      using "1.prems" le by (cases "from < mx") (auto simp: dots_loop.simps [of mx buf "from" to segs] rest_of_Cons)
  next
    case go: True
    then have R: "rest_of mx buf from = buf ! from # rest_of mx buf (from + 1)"
      using le by (simp add: rest_of_Cons)
    consider (one) ?one | (two) "\<not> ?one" ?two | (copy) "\<not> ?one" "\<not> ?two" by blast
    then show ?thesis
    proof cases
      case one
      have IH: "?P (from + 2) to buf segs" using go one "1.prems" by (intro "1.IH") auto
      have "dots_fun (starts buf from) (rest_of mx buf from) (take to buf) segs
          = dots_fun True (rest_of mx buf (from + 2)) (take to buf) segs"
        using go one dh le
        by (cases "from + 1 = mx") (auto simp: R rest_of_hd rest_of_tl rest_of_eq_Nil)
      also have "\<dots> = dots_fun (starts buf (from + 2)) (rest_of mx buf (from + 2)) (take to buf) segs"
        using one by (auto simp: starts_def intro: dots_fun_Nil_st)
      finally have F: "dots_fun (starts buf from) (rest_of mx buf from) (take to buf) segs = \<dots>" .
      have L: "dots_loop mx buf from to segs = dots_loop mx buf (from + 2) to segs"
        using go one by (simp add: dots_loop.simps [of mx buf "from" to segs])
      show ?thesis unfolding F L by (rule IH)
    next
      case two
      have ne: "from + 1 < mx" using go two "1.prems" by (cases "from + 1 = mx") auto
      show ?thesis
      proof (cases "\<exists>s t ts. segs = s # t # ts")
        case True
        then obtain s t ts where 3: "segs = s # t # ts" by blast
        have IH: "?P (from + 3) t buf (t # ts)"
          using go two "1.prems" 3 by (intro "1.IH"(2) [OF _ _ _ 3 refl]) auto
        have "dots_fun (starts buf from) (rest_of mx buf from) (take to buf) segs
          = dots_fun True (rest_of mx buf (from + 3)) (take t buf) (t # ts)"
          using go two ne dh le "1.prems" 3
          by (cases "from + 2 = mx")
            (auto simp: R rest_of_hd rest_of_tl rest_of_eq_Nil min_absorb1 numeral_3_eq_3)
        also have "\<dots> = dots_fun (starts buf (from + 3)) (rest_of mx buf (from + 3)) (take t buf) (t # ts)"
          using two by (auto simp: starts_def numeral_3_eq_3 intro: dots_fun_Nil_st)
        finally have F: "dots_fun (starts buf from) (rest_of mx buf from) (take to buf) segs = \<dots>" .
        have L: "dots_loop mx buf from to segs = dots_loop mx buf (from + 3) t (t # ts)"
          using go two 3 by (subst dots_loop.simps) (auto simp: 3)
        show ?thesis unfolding F L by (rule IH)
      next
        case False
        have "dots_loop mx buf from to segs = Inl buf"
          using go two False by (subst dots_loop.simps) (auto split: list.splits)
        moreover have "dots_fun (starts buf from) (rest_of mx buf from) (take to buf) segs = None"
          using go two ne dh le False unfolding R
          by (cases "from + 2 = mx")
            (auto simp: rest_of_hd rest_of_tl rest_of_eq_Nil split: list.splits)
        ultimately show ?thesis by simp
      qed
    next
      case copy
      let ?b = "buf[to := buf ! from]"
      let ?s = "if buf ! from = CHR ''/'' then (to + 1) # segs else segs"
      have IH: "?P (from + 1) (to + 1) ?b ?s"
        using go copy "1.prems" by (intro "1.IH") (auto intro: le_SucI)
      have t: "take (to + 1) ?b = take to buf @ [buf ! from]"
        using "1.prems" go by (simp add: take_Suc_conv_app_nth)
      have r: "rest_of mx ?b (from + 1) = rest_of mx buf (from + 1)"
        using "1.prems" by (simp add: rest_of_def)
      have st: "starts ?b (from + 1) = (buf ! from = CHR ''/'')"
        using "1.prems" go by (auto simp: starts_def nth_list_update)
      have l: "length (take to buf) = to" using "1.prems" by simp
      have "dots_fun (starts buf from) (rest_of mx buf from) (take to buf) segs
          = dots_fun (buf ! from = CHR ''/'') (rest_of mx buf (from + 1)) (take to buf @ [buf ! from]) ?s"
        using go copy dh le "1.prems" unfolding R
        by (cases "from + 1 = mx"; cases "from + 2 = mx")
          (auto simp: rest_of_hd rest_of_tl rest_of_eq_Nil l)
      then have F: "dots_fun (starts buf from) (rest_of mx buf from) (take to buf) segs
          = dots_fun (starts ?b (from + 1)) (rest_of mx ?b (from + 1)) (take (to + 1) ?b) ?s"
        unfolding t r st .
      have L: "dots_loop mx buf from to segs = dots_loop mx ?b (from + 1) (to + 1) ?s"
        using go copy by (subst dots_loop.simps) auto
      show ?thesis unfolding F L using IH unfolding length_list_update .
    qed
  qed
qed

section \<open>Dot removal on segments\<close>

text \<open>Splitting a path at its slashes, and joining the segments again.\<close>

fun join :: "string list \<Rightarrow> string" where
  "join [] = []"
| "join [s] = s"
| "join (s # ss) = s @ CHR ''/'' # join ss"

fun segs_of :: "string \<Rightarrow> string list" where
  "segs_of [] = [[]]"
| "segs_of (c # cs) =
     (if c = CHR ''/'' then [] # segs_of cs
      else (case segs_of cs of [] \<Rightarrow> [[c]] | s # ss \<Rightarrow> (c # s) # ss))"

text \<open>
  The specification: \<open>d\<close> holds the finished segments, last one first.  A \<open>.\<close> segment
  disappears, a \<open>..\<close> removes the last finished segment unless it is the first one, which is an
  error; at the end of the path both leave an empty last segment.  \<open>fin\<close> says that the path
  is not followed by a query or fragment; otherwise the last segment is kept as it is.
\<close>

fun drop_dots :: "bool \<Rightarrow> string list \<Rightarrow> string list \<Rightarrow> string list option" where
  "drop_dots fin d [] = Some (rev d)"
| "drop_dots fin d [s] =
     (if fin \<and> s = ''.'' then Some (rev ([] # d))
      else if fin \<and> s = ''..'' then (case d of _ # t # ts \<Rightarrow> Some (rev ([] # t # ts)) | _ \<Rightarrow> None)
      else Some (rev (s # d)))"
| "drop_dots fin d (s # ss) =
     (if s = ''.'' then drop_dots fin d ss
      else if s = ''..'' then (case d of _ # t # ts \<Rightarrow> drop_dots fin (t # ts) ss | _ \<Rightarrow> None)
      else drop_dots fin (s # d) ss)"

definition path_end :: "char \<Rightarrow> bool" where
  "path_end c = (c = CHR ''?'' \<or> c = CHR ''#'')"

definition clean_seg :: "string \<Rightarrow> bool" where
  "clean_seg s = (\<forall>c \<in> set s. c \<noteq> CHR ''/'' \<and> \<not> path_end c)"

lemma segs_of_not_Nil [simp]: "segs_of p \<noteq> []"
  by (induction p) (auto split: list.splits)

lemma join_Cons: "ss \<noteq> [] \<Longrightarrow> join (s # ss) = s @ CHR ''/'' # join ss"
  by (cases ss) auto

lemma join_segs_of [simp]: "join (segs_of p) = p"
proof (induction p)
  case (Cons c cs)
  obtain s ss where "segs_of cs = s # ss" by (cases "segs_of cs") auto
  with Cons show ?case by (cases ss) auto
qed simp

lemma segs_of_clean: "\<forall>c \<in> set p. \<not> path_end c \<Longrightarrow> \<forall>s \<in> set (segs_of p). clean_seg s"
proof (induction p)
  case (Cons c cs)
  obtain s ss where "segs_of cs = s # ss" by (cases "segs_of cs") auto
  with Cons show ?case by (auto simp: clean_seg_def)
qed (simp add: clean_seg_def)

text \<open>The output and the \<^verbatim>\<open>Segments\<close> stack that belong to the finished segments \<open>d\<close>.\<close>

fun outs :: "string list \<Rightarrow> string" where
  "outs [] = []"
| "outs (s # d) = outs d @ s @ ''/''"

fun marks :: "string list \<Rightarrow> nat list" where
  "marks [] = []"
| "marks (s # d) = length (outs (s # d)) # marks d"

lemma join_rev: "join (rev d @ [s]) = outs d @ s"
proof -
  have "ss \<noteq> [] \<Longrightarrow> join (rev d @ ss) = outs d @ join ss" for ss
    by (induction d arbitrary: ss) (auto simp: join_Cons)
  then show ?thesis by simp
qed

lemma dots_fun_seg: "clean_seg s \<Longrightarrow>
    dots_fun False (s @ CHR ''/'' # r) out sg
      = dots_fun True r (out @ s @ ''/'') ((length out + length s + 1) # sg)"
  by (induction s arbitrary: out) (auto simp: clean_seg_def path_end_def)

lemma dots_fun_last: "clean_seg s \<Longrightarrow> tail = [] \<or> path_end (hd tail) \<Longrightarrow>
    dots_fun False (s @ tail) out sg = Some (out @ s @ tail)"
proof (induction s arbitrary: out)
  case Nil
  then show ?case by (cases tail) (auto simp: path_end_def)
next
  case (Cons c s)
  then show ?case by (auto simp: clean_seg_def path_end_def)
qed

lemma join_rev2: "join (rev d @ [s, t]) = outs d @ s @ CHR ''/'' # t"
  using join_rev [of "s # d" t] by simp

text \<open>One step of the loop that copies a character.\<close>

lemma dots_fun_copy:
  assumes "\<not> path_end c"
    and "\<not> (c = CHR ''.'' \<and> (cs = [] \<or> hd cs = CHR ''/''))"
    and "\<not> (c = CHR ''.'' \<and> hd cs = CHR ''.'' \<and> (tl cs = [] \<or> hd (tl cs) = CHR ''/''))"
  shows "dots_fun True (c # cs) out sg = dots_fun (c = CHR ''/'') cs (out @ [c])
    (if c = CHR ''/'' then (length out + 1) # sg else sg)"
  using assms by (auto simp: path_end_def)

text \<open>A segment that is neither \<open>.\<close> nor \<open>..\<close> is copied whole.\<close>

lemma dots_fun_plain_seg:
  assumes "clean_seg s" "s \<noteq> ''.''" "s \<noteq> ''..''"
  shows "dots_fun True (s @ CHR ''/'' # r) (outs d) (marks d)
    = dots_fun True r (outs (s # d)) (marks (s # d))"
proof (cases s)
  case (Cons c t)
  have n: "\<not> (c = CHR ''.'' \<and> (t @ CHR ''/'' # r = [] \<or> hd (t @ CHR ''/'' # r) = CHR ''/''))"
    using assms(1,2) Cons by (cases t) (auto simp: clean_seg_def)
  have n': "\<not> (c = CHR ''.'' \<and> hd (t @ CHR ''/'' # r) = CHR ''.'' \<and>
      (tl (t @ CHR ''/'' # r) = [] \<or> hd (tl (t @ CHR ''/'' # r)) = CHR ''/''))"
    using assms(1,3) Cons by (cases t; cases "tl t") (auto simp: clean_seg_def)
  have "clean_seg t" using assms(1) Cons by (simp add: clean_seg_def)
  moreover have "c \<noteq> CHR ''/''" "\<not> path_end c"
    using assms(1) Cons by (auto simp: clean_seg_def)
  ultimately show ?thesis
    using dots_fun_copy [OF _ n n'] Cons by (simp add: dots_fun_seg del: dots_fun.simps)
qed simp

lemma dots_fun_plain_last:
  assumes "clean_seg s" "tail = [] \<or> path_end (hd tail)"
    and "tail \<noteq> [] \<or> (s \<noteq> ''.'' \<and> s \<noteq> ''..'')"
  shows "dots_fun True (s @ tail) out sg = Some (out @ s @ tail)"
proof (cases s)
  case Nil
  then show ?thesis using assms(2) by (cases tail) (auto simp: path_end_def)
next
  case (Cons c t)
  have ht: "tail \<noteq> [] \<Longrightarrow> hd tail \<noteq> CHR ''/'' \<and> hd tail \<noteq> CHR ''.''"
    using assms(2) by (auto simp: path_end_def)
  have n: "\<not> (c = CHR ''.'' \<and> (t @ tail = [] \<or> hd (t @ tail) = CHR ''/''))"
    using assms(1,3) Cons ht by (cases t) (auto simp: clean_seg_def)
  have n': "\<not> (c = CHR ''.'' \<and> hd (t @ tail) = CHR ''.'' \<and>
      (tl (t @ tail) = [] \<or> hd (tl (t @ tail)) = CHR ''/''))"
    using assms(1,3) Cons ht n by (cases t; cases "tl t") (auto simp: clean_seg_def)
  have "clean_seg t" using assms(1) Cons by (simp add: clean_seg_def)
  moreover have "c \<noteq> CHR ''/''" "\<not> path_end c"
    using assms(1) Cons by (auto simp: clean_seg_def)
  ultimately show ?thesis
    using dots_fun_copy [OF _ n n'] Cons dots_fun_last [of t tail "out @ [c]" sg] assms(2)
    by (simp del: dots_fun.simps)
qed

text \<open>Second refinement: the loop over the text computes dot removal on segments.\<close>

lemma dots_fun_drop_dots:
  assumes "ss \<noteq> []" "\<forall>s \<in> set ss. clean_seg s" "tail = [] \<or> path_end (hd tail)"
  shows "dots_fun True (join ss @ tail) (outs d) (marks d)
    = map_option (\<lambda>r. join r @ tail) (drop_dots (tail = []) d ss)"
  using assms
proof (induction "tail = []" d ss rule: drop_dots.induct)
  case (2 d s)
  show ?case
  proof (cases "tail = [] \<and> (s = ''.'' \<or> s = ''..'')")
    case True
    then show ?thesis
    proof (cases "s = ''.''")
      case False
      with True show ?thesis by (auto simp: join_rev2 split: list.splits)
    qed (auto simp: join_rev)
  next
    case False
    then show ?thesis
      using 2 dots_fun_plain_last [of s tail] by (auto simp: join_rev)
  qed
next
  case (3 d s s2 ss)
  let ?r = "join (s2 # ss) @ tail"
  have j: "join (s # s2 # ss) @ tail = s @ CHR ''/'' # ?r" by simp
  consider (dot) "s = ''.''" | (dotdot) "s = ''..''" | (plain) "s \<noteq> ''.''" "s \<noteq> ''..''" by blast
  then show ?case
  proof cases
    case dot
    then show ?thesis using "3.hyps"(1) "3.prems" by simp
  next
    case dotdot
    then have d2: "dots_fun True (s @ CHR ''/'' # ?r) (outs d) (marks d) = (case marks d of
        _ # t # ts \<Rightarrow> dots_fun True ?r (take t (outs d)) (t # ts) | _ \<Rightarrow> None)"
      by (simp split: list.split)
    show ?thesis
    proof (cases d rule: remdups_adj.cases)
      case (3 x t ts)
      then show ?thesis using "3.hyps"(2) [of x "t # ts"] "3.prems" dotdot unfolding j d2 by simp
    next
      case 1
      then show ?thesis unfolding j d2 using dotdot by simp
    next
      case (2 x)
      then show ?thesis unfolding j d2 using dotdot by simp
    qed
  next
    case plain
    then have "dots_fun True (join (s # s2 # ss) @ tail) (outs d) (marks d)
        = dots_fun True ?r (outs (s # d)) (marks (s # d))"
      unfolding j using "3.prems" by (intro dots_fun_plain_seg) auto
    then show ?thesis using plain "3.hyps"(3) "3.prems" by (simp del: outs.simps marks.simps)
  qed
qed simp

text \<open>No dot segment survives when the path is not followed by a query or fragment.\<close>

definition no_dots :: "string list \<Rightarrow> bool" where
  "no_dots ss = (''.'' \<notin> set ss \<and> ''..'' \<notin> set ss)"

lemma drop_dots_no_dots:
  "ss \<noteq> [] \<Longrightarrow> no_dots d \<Longrightarrow> drop_dots True d ss = Some r \<Longrightarrow> no_dots r"
proof (induction True d ss rule: drop_dots.induct)
  case (2 d s)
  then show ?case by (auto simp: no_dots_def split: if_splits list.splits)
next
  case (3 d s s2 ss)
  then show ?case
    by (cases d rule: remdups_adj.cases) (auto simp: no_dots_def split: if_splits)
qed simp

lemma drop_dots_id: "no_dots ss \<Longrightarrow> drop_dots fin d ss = Some (rev d @ ss)"
  by (induction fin d ss rule: drop_dots.induct) (auto simp: no_dots_def)

section \<open>What \<open>remove_dots\<close> computes\<close>

lemma path_split: "xs = takeWhile (\<lambda>c. \<not> path_end c) xs @ dropWhile (\<lambda>c. \<not> path_end c) xs"
  by simp

lemma remove_dots_spec:
  assumes len: "sz < length buf" "sz \<noteq> 0" and ok: "malloc_ok e (8 * int sz)"
    and path: "path = takeWhile (\<lambda>c. \<not> path_end c) (take sz buf)"
    and tail: "tail = dropWhile (\<lambda>c. \<not> path_end c) (take sz buf)"
  shows "case drop_dots (tail = []) [] (segs_of path) of
      None \<Rightarrow> \<exists>b. remove_dots e buf sz = Some (UPNP_E_INVALID_URL, b)
    | Some r \<Rightarrow> \<exists>b. remove_dots e buf sz = Some (UPNP_E_SUCCESS, b) \<and> length b = length buf \<and>
        take (length (join r @ tail) + 1) b = join r @ tail @ [NUL] \<and>
        length (join r @ tail) \<le> sz"
proof -
  have "\<forall>c \<in> set path. \<not> path_end c" by (auto simp: path dest: set_takeWhileD)
  then have cl: "\<forall>s \<in> set (segs_of path). clean_seg s" by (rule segs_of_clean)
  have te: "tail = [] \<or> path_end (hd tail)"
    using hd_dropWhile [of "\<lambda>c. \<not> path_end c" "take sz buf"] by (auto simp: tail)
  have pt: "path @ tail = take sz buf" by (simp add: path tail)
  have f: "dots_fun True (take sz buf) [] []
      = map_option (\<lambda>r. join r @ tail) (drop_dots (tail = []) [] (segs_of path))"
    using dots_fun_drop_dots [OF _ cl te, of "[]"] by (simp add: pt)
  have l: "case dots_loop sz buf 0 0 [] of
      Inl b \<Rightarrow> dots_fun True (take sz buf) [] [] = None
    | Inr (b, f, t) \<Rightarrow> dots_fun True (take sz buf) [] [] = Some (take t b @ rest_of sz b f) \<and>
        t \<le> f \<and> t \<le> sz \<and> length b = length buf"
  proof -
    have s0: "starts buf 0 = True" "rest_of sz buf 0 = take sz buf" "take 0 buf = []"
      by (simp_all add: starts_def rest_of_def)
    show ?thesis using dots_loop_refines [of 0 0 sz buf "[]"] len unfolding s0 by simp
  qed
  show ?thesis
  proof (cases "dots_loop sz buf 0 0 []")
    case (Inl b)
    then show ?thesis using l f len ok by (auto simp: remove_dots_def)
  next
    case (Inr z)
    then obtain b g t where z: "dots_loop sz buf 0 0 [] = Inr (b, g, t)" by (cases z) auto
    then have b: "dots_fun True (take sz buf) [] [] = Some (take t b @ rest_of sz b g)"
      "t \<le> g" "t \<le> sz" "length b = length buf" using l by auto
    from b(1) f obtain r where r: "drop_dots (tail = []) [] (segs_of path) = Some r"
      "join r @ tail = take t b @ rest_of sz b g" by auto
    let ?n = "t + (sz - g)"
    have ct: "copy_tail sz b g t = (take t b @ rest_of sz b g @ drop ?n b, ?n)"
    proof (cases "g \<le> sz")
      case True
      then show ?thesis using copy_tail_eq [of g sz t b] b len by (simp add: rest_of_def)
    next
      case False
      then show ?thesis by (simp add: copy_tail.simps [of sz b g t] rest_of_def)
    qed
    have ln: "length (take t b @ rest_of sz b g) = ?n" "?n \<le> sz"
      using b len by (auto simp: rest_of_def)
    let ?b = "(take t b @ rest_of sz b g @ drop ?n b)[?n := NUL]"
    have "remove_dots e buf sz = Some (UPNP_E_SUCCESS, ?b)"
      using len ok z ct by (simp add: remove_dots_def Let_def)
    moreover have "length ?b = length buf" using ln b len by (simp add: rest_of_def)
    moreover have "take (?n + 1) ?b = take t b @ rest_of sz b g @ [NUL]"
      using ln b(4) len by (simp add: list_update_append take_Suc_conv_app_nth)
    ultimately show ?thesis using r ln by (simp del: append_assoc) 
  qed
qed

text \<open>
  What removing \<open>.\<close> and \<open>..\<close> from an absolute path means, on its segments behind the first slash: a \<open>.\<close> is left out, a \<open>..\<close>
  takes the segment before it away, or goes past the root, and when the last segment is one of them the path
  ends in a slash.
\<close>

fun keep_segments :: "string list \<Rightarrow> string list \<Rightarrow> string list option" where
  "keep_segments d [] = Some d"
| "keep_segments d (s # ss) =
     (if s = ''.'' then keep_segments d ss
      else if s = ''..'' then (case d of [] \<Rightarrow> None | _ # t \<Rightarrow> keep_segments t ss)
      else keep_segments (s # d) ss)"

definition is_dots :: "string \<Rightarrow> bool" where
  "is_dots s = (s = ''.'' \<or> s = ''..'')"

definition without_dots :: "string list \<Rightarrow> string list option" where
  "without_dots ss = map_option (\<lambda>d. rev (if is_dots (last ss) then [] # d else d)) (keep_segments [] ss)"

text \<open>The loop computes this when no dot segment is followed by a query or fragment.\<close>

lemma drop_dots_absolute:
  "ss \<noteq> [] \<Longrightarrow> fin \<or> \<not> is_dots (last ss) \<Longrightarrow>
    drop_dots fin (d @ [[]]) ss = map_option (\<lambda>k. [] # rev (if is_dots (last ss) then [] # k else k)) (keep_segments d ss)"
proof (induction ss arbitrary: d)
  case (Cons s ss)
  show ?case
  proof (cases ss)
    case Nil
    then show ?thesis using Cons.prems by (cases d; cases "tl d") (auto simp: is_dots_def)
  next
    case c: (Cons s2 ss2)
    have IH: "drop_dots fin (d @ [[]]) ss = map_option (\<lambda>k. [] # rev (if is_dots (last ss) then [] # k else k)) (keep_segments d ss)" for d
      by (rule Cons.IH) (use Cons.prems c in auto)
    have pop: "(case d @ [[]] of _ # t # ts \<Rightarrow> drop_dots fin (t # ts) ss | _ \<Rightarrow> None) =
        (case d of [] \<Rightarrow> None | _ # t \<Rightarrow> drop_dots fin (t @ [[]]) ss)" for d :: "string list"
      by (cases d; cases "tl d") auto
    have step: "drop_dots fin (d @ [[]]) (s # ss) = (if s = ''.'' then drop_dots fin (d @ [[]]) ss
        else if s = ''..'' then (case d of [] \<Rightarrow> None | _ # t \<Rightarrow> drop_dots fin (t @ [[]]) ss) else drop_dots fin ((s # d) @ [[]]) ss)"
      using pop [of d] unfolding c by simp
    show ?thesis unfolding step keep_segments.simps(2) IH by (simp add: c split: list.split)
  qed
qed simp

lemma keep_segments_plain: "keep_segments d ss = Some r \<Longrightarrow> no_dots d \<Longrightarrow> no_dots r"
  by (induction d ss rule: keep_segments.induct) (auto simp: no_dots_def split: if_splits list.splits)

lemma keep_segments_last: "keep_segments d ss = Some r \<Longrightarrow> ss \<noteq> [] \<Longrightarrow> \<not> is_dots (last ss) \<Longrightarrow> r \<noteq> []"
  by (induction d ss rule: keep_segments.induct) (auto simp: is_dots_def split: if_splits list.splits)

lemma without_dots_plain: "without_dots ss = Some r \<Longrightarrow> ss \<noteq> [] \<Longrightarrow> no_dots r \<and> r \<noteq> []"
  using keep_segments_plain [of "[]" ss] keep_segments_last [of "[]" ss]
  by (auto simp: without_dots_def no_dots_def split: if_split_asm)

text \<open>
  C24. \<open>remove_dots\<close> on an absolute path of \<open>size\<close> bytes removes the dots as its description says.  The path is what stands
  before the first \<open>?\<close> or \<open>#\<close>, and its last segment is not a dot segment when a query or fragment follows (the code
  keeps such a segment).  When a \<open>..\<close> goes past the root the result is \<open>UPNP_E_INVALID_URL\<close>; otherwise the buffer begins
  with the slash and the joined segments that are left, none of them \<open>.\<close> or \<open>..\<close>, the unchanged query and fragment and
  the NUL, no longer than before, and nothing outside the buffer is written.
\<close>

theorem remove_dots_drops_dots:
  assumes len: "sz < length buf" "sz \<noteq> 0" and ok: "malloc_ok e (8 * int sz)"
    and path: "CHR ''/'' # p = takeWhile (\<lambda>c. \<not> path_end c) (take sz buf)"
    and tail: "tail = dropWhile (\<lambda>c. \<not> path_end c) (take sz buf)"
    and plain: "tail = [] \<or> \<not> is_dots (last (segs_of p))"
  shows "case without_dots (segs_of p) of
      None \<Rightarrow> \<exists>b. remove_dots e buf sz = Some (UPNP_E_INVALID_URL, b)
    | Some r \<Rightarrow> no_dots r \<and> (\<exists>b. remove_dots e buf sz = Some (UPNP_E_SUCCESS, b) \<and> length b = length buf \<and>
        take (length (CHR ''/'' # join r @ tail) + 1) b = CHR ''/'' # join r @ tail @ [NUL] \<and>
        length (CHR ''/'' # join r @ tail) \<le> sz)"
proof -
  have first: "drop_dots fin [] ([] # ss) = drop_dots fin [[]] ss" if "ss \<noteq> []" for fin ss
    using that by (cases ss) auto
  have "drop_dots (tail = []) [[]] (segs_of p) = map_option ((#) []) (without_dots (segs_of p))"
    using drop_dots_absolute [of "segs_of p" "tail = []" "[]"] plain by (auto simp: without_dots_def option.map_comp o_def)
  then have d: "drop_dots (tail = []) [] (segs_of (CHR ''/'' # p)) = map_option ((#) []) (without_dots (segs_of p))"
    using first [of "segs_of p"] by simp
  have j: "join ([] # r) = CHR ''/'' # join r" if "without_dots (segs_of p) = Some r" for r
    using without_dots_plain [OF that] by (simp add: join_Cons)
  show ?thesis
    using remove_dots_spec [OF len ok path tail] d j without_dots_plain [of "segs_of p"]
    by (cases "without_dots (segs_of p)") auto
qed

text \<open>
  Two paths on which the description says otherwise: a dot segment before a query stays, and a relative path
  loses no first segment to a \<open>..\<close> but is refused.
\<close>

lemma remove_dots_deviates:
  "remove_dots easy_env (''/a/.?x'' @ [NUL]) 6 = Some (UPNP_E_SUCCESS, ''/a/.?x'' @ [NUL])"
  "\<exists>b. remove_dots easy_env (''a/../b'' @ [NUL]) 6 = Some (UPNP_E_INVALID_URL, b)"
  by (code_simp, simp add: remove_dots_def easy_env_def dots_loop.simps dot_here_def)

section \<open>Resolving a relative URL\<close>

text \<open>The string behind a C string pointer, and the bytes a token denotes (\<^verbatim>\<open>memcpy\<close> reads).\<close>

definition cstr_of :: "mem \<Rightarrow> ptr \<Rightarrow> string option" where
  "cstr_of M p = do { n \<leftarrow> strlen (bytes_at M p); rd_bytes M p n }"

definition tok_read :: "mem \<Rightarrow> token \<Rightarrow> string option" where
  "tok_read M t = do { p \<leftarrow> buff t; rd_bytes M p (tsize t) }"

text \<open>
  Writing the string \<open>s\<close> and a terminator at the start of the output buffer of \<open>cap\<close> bytes;
  an overflow of the buffer is a memory fault.
\<close>

definition put :: "int \<Rightarrow> string \<Rightarrow> string option" where
  "put cap s = (if int (length s) + 1 \<le> cap then Some s else None)"

text \<open>
  The loop that copies the base path up to its query: the characters copied, and those up to
  the last slash (\<^verbatim>\<open>last_slash\<close>).
\<close>

fun base_dir :: "string \<Rightarrow> string \<Rightarrow> string \<Rightarrow> string \<times> string" where
  "base_dir [] copied dir = (copied, dir)"
| "base_dir (c # cs) copied dir =
     (if c = CHR ''?'' then (copied, dir)
      else base_dir cs (copied @ [c]) (if c = CHR ''/'' then copied @ [c] else dir))"

text \<open>
  The branch for a non-empty relative URL over an absolute base; \<open>r\<close> is the text of
  \<open>rel_url\<close>.  \<open>Some None\<close> is the NULL result.
\<close>

definition resolve_against ::
  "mem \<Rightarrow> env \<Rightarrow> int \<Rightarrow> uri_type \<Rightarrow> uri_type \<Rightarrow> string \<Rightarrow> string option option" where
  "resolve_against M e cap base rel r = do {
     sch \<leftarrow> tok_read M (scheme base);
     let out = sch @ '':'';
     if tsize (hp_text (hostport rel)) > 0 then map_option Some (put cap (out @ r))
     else do {
       out \<leftarrow> (if tsize (hp_text (hostport base)) > 0
         then map_option (\<lambda>h. out @ ''//'' @ h) (tok_read M (hp_text (hostport base)))
         else Some out);
       if path_type rel = ABS_PATH then map_option Some (put cap (out @ r))
       else do {
         path \<leftarrow> (if tsize (pathquery base) = 0 then Some ''/'' else tok_read M (pathquery base));
         let (copied, dir) = base_dir path [] [];
         _ \<leftarrow> put (cap + 1) (out @ copied);
         _ \<leftarrow> put cap (out @ dir @ r);
         (rc, buf) \<leftarrow> remove_dots e (dir @ r @ [NUL]) (length (dir @ r));
         if rc = UPNP_E_SUCCESS then Some (Some (out @ cstring buf)) else Some None } } }"

definition resolve_rel_url ::
  "mem \<Rightarrow> env \<Rightarrow> ptr option \<Rightarrow> ptr option \<Rightarrow> uri_type \<Rightarrow> uri_type \<Rightarrow> string option option" where
  "resolve_rel_url M e base_url rel_url base0 rel0 =
     (case rel_url of
       None \<Rightarrow> Some None
     | Some rp \<Rightarrow>
       (case base_url of
         None \<Rightarrow> do { r \<leftarrow> cstr_of M rp;
                     if malloc_ok e (int (length r) + 1) then Some (Some r) else Some None }
       | Some bp \<Rightarrow> do {
           b \<leftarrow> cstr_of M bp;
           r \<leftarrow> cstr_of M rp;
           let cap = int (length b) + int (length r) + 2;
           if \<not> malloc_ok e cap then Some None
           else do {
             (rc, rel) \<leftarrow> parse_uri M e rp (int (length r)) rel0;
             if rc \<noteq> HTTP_SUCCESS then Some None
             else if utype rel = ABSOLUTE then map_option Some (put cap r)
             else do {
               (bc, base) \<leftarrow> parse_uri M e bp (int (length b)) base0;
               if bc = HTTP_SUCCESS \<and> utype base = ABSOLUTE
               then if length r = 0 then map_option Some (put cap b)
                    else resolve_against M e cap base rel r
               else Some None } } }))"

lemma cstr_of_Some: "strlen (bytes_at M p) = Some n \<Longrightarrow>
    \<exists>s. cstr_of M p = Some s \<and> int (length s) = n \<and> n < int (length (bytes_at M p)) \<and> 0 \<le> n"
  using strlen_length [of "bytes_at M p" n] by (auto simp: cstr_of_def rd_bytes_def min_def)

lemma tok_read_within: "tok_within p n t \<Longrightarrow> buff t \<noteq> None \<Longrightarrow> 0 \<le> snd p \<Longrightarrow>
    n \<le> int (length (bytes_at M p)) \<Longrightarrow>
    \<exists>s. tok_read M t = Some s \<and> int (length s) = tsize t \<and> 0 \<le> tsize t"
  by (auto simp: tok_read_def tok_within_def rd_bytes_def bytes_at_def split: option.splits)

lemma base_dir_length:
  "base_dir path copied dir = (c, d) \<Longrightarrow> length dir \<le> length copied \<Longrightarrow>
    length c \<le> length copied + length path \<and> length d \<le> length c"
proof (induction path copied dir rule: base_dir.induct)
  case (2 x cs copied dir)
  then show ?case by (auto split: if_splits)
qed auto

lemma remove_dots_returns: "sz < length buf \<Longrightarrow> sz \<noteq> 0 \<Longrightarrow> \<exists>r b. remove_dots e buf sz = Some (r, b)"
proof (cases "malloc_ok e (8 * int sz)")
  case True
  assume a: "sz < length buf" "sz \<noteq> 0"
  show ?thesis
    using remove_dots_spec [OF a True refl refl] by (auto split: option.splits)
qed (simp add: remove_dots_def)

lemma resolve_against_value:
  assumes "resolve_against M e cap base rel rs = Some res"
    and "tok_read M (scheme base) = Some sch"
    and "\<not> tsize (hp_text (hostport rel)) > 0" "path_type rel \<noteq> ABS_PATH"
    and "(if tsize (hp_text (hostport base)) > 0
         then map_option (\<lambda>h. (sch @ '':'') @ ''//'' @ h) (tok_read M (hp_text (hostport base)))
         else Some (sch @ '':'')) = Some out"
    and "(if tsize (pathquery base) = 0 then Some ''/'' else tok_read M (pathquery base)) = Some path"
    and "base_dir path [] [] = (c, d)"
    and "remove_dots e (d @ rs @ [NUL]) (length (d @ rs)) = Some (rc, b)"
  shows "res = (if rc = UPNP_E_SUCCESS then Some (out @ cstring b) else None)"
  using assms(1) unfolding resolve_against_def
  by (auto simp: assms(2-8) Let_def simp del: append_assoc length_append
      split: bind_splits if_splits)

text \<open>
  The allocation of \<open>strlen(base)+strlen(rel)+2\<close> bytes is large enough on every branch.
\<close>

lemma resolve_against_fits:
  assumes b: "0 \<le> snd bp" "n \<le> int (length (bytes_at M bp))" "uri_layout M bp n base"
    and abs: "utype base = ABSOLUTE" and r: "r \<noteq> []" and cap: "cap = n + int (length r) + 2"
  shows "\<exists>res. resolve_against M e cap base rel r = Some res"
proof -
  note l = b(3) [unfolded uri_layout_def uri_within_def]
  obtain sch where sch: "tok_read M (scheme base) = Some sch" "int (length sch) = tsize (scheme base)"
    using tok_read_within [of bp n "scheme base" M] l abs b by auto
  obtain pq where pq: "tok_read M (pathquery base) = Some pq" "int (length pq) = tsize (pathquery base)"
      "0 \<le> tsize (pathquery base)"
    using tok_read_within [of bp n "pathquery base" M] l b by auto
  define path where "path = (if tsize (pathquery base) = 0 then ''/'' else pq)"
  have pl: "int (length path) \<le> tsize (pathquery base) + 1"
    using pq by (auto simp: path_def)
  obtain c d where cd: "base_dir path [] [] = (c, d)" by (cases "base_dir path [] []")
  have dl: "length c \<le> length path" "length d \<le> length c" using base_dir_length [OF cd] by auto
  obtain rc rb where rd: "remove_dots e (d @ r @ [NUL]) (length (d @ r)) = Some (rc, rb)"
    using remove_dots_returns [of "length (d @ r)" "d @ r @ [NUL]" e] r by auto
  have pathr: "(if tsize (pathquery base) = 0 then Some ''/'' else tok_read M (pathquery base))
      = Some path"
    using pq by (simp add: path_def)
  show ?thesis
  proof (cases "tsize (hp_text (hostport base)) > 0")
    case True
    then obtain h where h: "tok_read M (hp_text (hostport base)) = Some h"
        "int (length h) = tsize (hp_text (hostport base))"
      using tok_read_within [of bp n "hp_text (hostport base)" M] l b by auto
    have "int (length sch) + 1 + (2 + int (length h)) + tsize (pathquery base) \<le> n"
      using l abs sch h True by auto
    then show ?thesis
      using True h sch pathr cd dl pl rd cap pq
      by (simp add: resolve_against_def put_def Let_def)
  next
    case False
    then have "int (length sch) + 1 + tsize (pathquery base) \<le> n"
      using l abs sch by auto
    then show ?thesis
      using False sch pathr cd dl pl rd cap pq
      by (simp add: resolve_against_def put_def Let_def)
  qed
qed

lemma resolve_rel_url_returns:
  assumes b: "strlen (bytes_at M bp) = Some nb" "0 \<le> snd bp"
    and r: "strlen (bytes_at M rp) = Some nr" "0 \<le> snd rp"
  shows "\<exists>res. resolve_rel_url M e (Some bp) (Some rp) base0 rel0 = Some res"
proof -
  obtain bs where bs: "cstr_of M bp = Some bs" "int (length bs) = nb" "nb < int (length (bytes_at M bp))"
    using cstr_of_Some [OF b(1)] by blast
  obtain rs where rs: "cstr_of M rp = Some rs" "int (length rs) = nr" "nr < int (length (bytes_at M rp))"
    using cstr_of_Some [OF r(1)] by blast
  obtain rc rel where rel: "parse_uri M e rp (int (length rs)) rel0 = Some (rc, rel)"
    using parse_uri_returns [OF r(2), of "int (length rs)" M e rel0] rs by auto
  obtain bc base where base: "parse_uri M e bp (int (length bs)) base0 = Some (bc, base)"
      "bc = HTTP_SUCCESS \<longrightarrow> uri_layout M bp (int (length bs)) base"
    using parse_uri_shape [OF b(2), of "int (length bs)" M e base0] bs
    by (fastforce simp: uri_error_def)
  show ?thesis
  proof (cases "bc = HTTP_SUCCESS \<and> utype base = ABSOLUTE \<and> rs \<noteq> []")
    case True
    obtain res where "resolve_against M e (int (length bs) + int (length rs) + 2) base rel rs = Some res"
      using resolve_against_fits [OF b(2) _ _ _ _ refl, of "int (length bs)" M base rs e rel] base(2) True bs
      by auto
    then show ?thesis
      using True bs rs rel base by (simp add: resolve_rel_url_def put_def Let_def)
  next
    case False
    then show ?thesis
      using bs rs rel base by (auto simp: resolve_rel_url_def put_def Let_def)
  qed
qed

text \<open>
  \<open>resolve_rel_url\<close> on two C strings never reads outside them and never writes past the
  buffer it allocates, whatever the resolver and the allocator answer: it returns NULL or a
  string.
\<close>

theorem resolve_rel_url_memory_safe:
  assumes b: "strlen (bytes_at M bp) = Some nb" "0 \<le> snd bp"
    and r: "strlen (bytes_at M rp) = Some nr" "0 \<le> snd rp"
  shows "\<exists>res. resolve_rel_url M e (Some bp) (Some rp) base0 rel0 = Some res"
  using assms by (rule resolve_rel_url_returns)

subsection \<open>The resolved URL\<close>

lemma set_join: "set (join ss) \<subseteq> (\<Union>s \<in> set ss. set s) \<union> {CHR ''/''}"
  by (induction ss rule: join.induct) auto

lemma drop_dots_segs: "drop_dots fin d ss = Some r \<Longrightarrow> set r \<subseteq> set d \<union> set ss \<union> {[]}"
proof (induction fin d ss arbitrary: r rule: drop_dots.induct)
  case (2 fin d s)
  then show ?case by (auto split: if_splits list.splits)
next
  case (3 fin d s s2 ss)
  show ?case
  proof (cases d rule: remdups_adj.cases)
    case (3 x t ts)
    then show ?thesis using "3.IH" "3.prems" by (fastforce split: if_splits)
  qed (use "3.IH" "3.prems" in \<open>fastforce split: if_splits\<close>)+
qed auto

lemma set_segs_of: "s \<in> set (segs_of p) \<Longrightarrow> set s \<subseteq> set p"
proof (induction p arbitrary: s)
  case (Cons c cs)
  then show ?case by (fastforce split: if_splits list.splits)
qed simp

lemma drop_dots_chars:
  "drop_dots fin [] (segs_of p) = Some r \<Longrightarrow> set (join r) \<subseteq> set p \<union> {CHR ''/''}"
  using set_join [of r] drop_dots_segs [of fin "[]" "segs_of p" r] set_segs_of [of _ p] by fastforce

lemma cstring_prefix: "take (length x + 1) b = x @ [NUL] \<Longrightarrow> NUL \<notin> set x \<Longrightarrow> cstring b = x"
proof -
  assume t: "take (length x + 1) b = x @ [NUL]" and n: "NUL \<notin> set x"
  have "b = x @ NUL # drop (length x + 1) b"
    by (metis append_take_drop_id t append.assoc append_Cons append_Nil)
  then have "cstring b = takeWhile (\<lambda>c. c \<noteq> NUL) (x @ NUL # drop (length x + 1) b)"
    by (simp add: cstring_def)
  also have "\<dots> = x" using n by (intro takeWhile_stop) auto
  finally show ?thesis .
qed

text \<open>The directory of a path: what precedes its query, up to and including the last slash.\<close>

definition dir_of :: "string \<Rightarrow> string" where
  "dir_of p = rev (dropWhile (\<lambda>c. c \<noteq> CHR ''/'') (rev (takeWhile (\<lambda>c. c \<noteq> CHR ''?'') p)))"

lemma dir_of_Cons: "c \<noteq> CHR ''?'' \<Longrightarrow> dir_of (c # cs) =
    (if CHR ''/'' \<in> set (takeWhile (\<lambda>c. c \<noteq> CHR ''?'') cs) then c # dir_of cs
     else if c = CHR ''/'' then [c] else [])"
proof -
  assume c: "c \<noteq> CHR ''?''"
  let ?q = "takeWhile (\<lambda>c. c \<noteq> CHR ''?'') cs"
  show ?thesis
  proof (cases "CHR ''/'' \<in> set ?q")
    case True
    then show ?thesis using c by (simp add: dir_of_def dropWhile_append1 [of "CHR ''/''"])
  next
    case False
    then have "\<forall>x \<in> set (rev ?q). x \<noteq> CHR ''/''" by auto
    then show ?thesis
      using c False dropWhile_append2 [of "rev ?q" "\<lambda>c. c \<noteq> CHR ''/''" "[c]"]
      by (simp add: dir_of_def)
  qed
qed

lemma base_dir_dir_of: "snd (base_dir p copied dir) =
    (if CHR ''/'' \<in> set (takeWhile (\<lambda>c. c \<noteq> CHR ''?'') p) then copied @ dir_of p else dir)"
proof (induction p copied dir rule: base_dir.induct)
  case (2 c cs copied dir)
  then show ?case by (cases "c = CHR ''/''") (auto simp: dir_of_Cons)
qed (simp add: dir_of_def)

lemma dir_of_no_slash: "CHR ''/'' \<notin> set (takeWhile (\<lambda>c. c \<noteq> CHR ''?'') p) \<Longrightarrow> dir_of p = []"
  by (auto simp: dir_of_def)

lemma base_dir_eq: "snd (base_dir p [] []) = dir_of p"
  by (simp add: base_dir_dir_of dir_of_no_slash)

lemma set_dir_of: "set (dir_of p) \<subseteq> set p"
  by (auto simp: dir_of_def dest!: set_dropWhileD set_takeWhileD)

lemma tok_read_text: "tok_read M t = Some s \<Longrightarrow> tok_text M t = s"
  by (auto simp: tok_read_def tok_text_def tok_bytes_def rd_bytes_def split: bind_splits if_splits)

lemma strlen_cstring: "strlen bs = Some n \<Longrightarrow> take (nat n) bs = cstring bs"
proof (induction bs arbitrary: n)
  case (Cons c cs)
  show ?case
  proof (cases "c = NUL")
    case False
    then obtain m where m: "strlen cs = Some m" "n = m + 1" using Cons.prems by auto
    then show ?thesis using False Cons.IH [OF m(1)] strlen_length [OF m(1)]
      by (simp add: cstring_def nat_add_distrib)
  qed (use Cons.prems in \<open>simp add: cstring_def\<close>)
qed simp

lemma cstr_of_NUL: "cstr_of M p = Some s \<Longrightarrow> NUL \<notin> set s"
  by (auto simp: cstr_of_def rd_bytes_def strlen_cstring cstring_def
      split: bind_splits if_splits dest: set_takeWhileD)

lemma tok_text_subset: "tok_within p n t \<Longrightarrow> 0 \<le> snd p \<Longrightarrow>
    set (tok_text M t) \<subseteq> set (take (nat n) (bytes_at M p))"
proof (cases "buff t")
  case (Some q)
  assume w: "tok_within p n t" and p: "0 \<le> snd p"
  define k where "k = nat (snd q - snd p)"
  have q: "bytes_at M q = drop k (bytes_at M p)" "k + nat (tsize t) \<le> nat n"
    using w p Some by (auto simp: bytes_at_def k_def tok_within_def nat_diff_distrib nat_add_distrib)
  have "take (nat (tsize t)) (drop k (bytes_at M p)) = drop k (take (k + nat (tsize t)) (bytes_at M p))"
    by (simp add: take_drop add.commute)
  then show ?thesis
    using Some q set_drop_subset set_take_subset_set_take [OF q(2)]
    by (fastforce simp: tok_text_def tok_bytes_def)
qed (simp add: tok_text_def tok_bytes_def)

text \<open>
  Resolving a relative path against an absolute base keeps the scheme and host of the
  base, appends the relative path to the directory of the base's path (\<open>/\<close> when there is none)
  and removes the dot segments; it gives NULL exactly when a \<open>..\<close> climbs past the root.
\<close>

theorem resolve_rel_url_relative_path:
  assumes b: "cstr_of M bp = Some bs" "0 \<le> snd bp" and r: "cstr_of M rp = Some rs" "rs \<noteq> []"
    and mem: "\<forall>n. malloc_ok e n"
    and rel: "parse_uri M e rp (int (length rs)) rel0 = Some (HTTP_SUCCESS, rel)"
      "utype rel = RELATIVE" "path_type rel = REL_PATH" "tsize (hp_text (hostport rel)) = 0"
    and base: "parse_uri M e bp (int (length bs)) base0 = Some (HTTP_SUCCESS, base)"
      "utype base = ABSOLUTE"
    and host: "host = tok_text M (hp_text (hostport base))"
    and p: "p = dir_of (if tok_text M (pathquery base) = [] then ''/'' else tok_text M (pathquery base)) @ rs"
    and tail: "tail = dropWhile (\<lambda>c. \<not> path_end c) p"
  shows "resolve_rel_url M e (Some bp) (Some rp) base0 rel0 = Some (map_option
    (\<lambda>ss. tok_text M (scheme base) @ '':'' @ (if host = [] then [] else ''//'' @ host) @ join ss @ tail)
    (drop_dots (tail = []) [] (segs_of (takeWhile (\<lambda>c. \<not> path_end c) p))))"
proof -
  have br: "int (length bs) \<le> int (length (bytes_at M bp))" "set (take (length bs) (bytes_at M bp)) = set bs"
    using b(1) by (auto simp: cstr_of_def rd_bytes_def split: bind_splits if_splits)
  obtain u where "parse_uri M e bp (int (length bs)) base0 = Some (HTTP_SUCCESS, u)"
      "uri_layout M bp (int (length bs)) u"
    using parse_uri_shape [OF b(2) _ br(1), of e base0] base(1) by (auto simp: uri_error_def)
  then have l: "uri_layout M bp (int (length bs)) base" using base(1) by simp
  note w = l [unfolded uri_layout_def uri_within_def]
  obtain sch where sch: "tok_read M (scheme base) = Some sch"
    using tok_read_within [of bp _ "scheme base" M] w base(2) b br by fastforce
  obtain pq where pq: "tok_read M (pathquery base) = Some pq" "int (length pq) = tsize (pathquery base)"
    using tok_read_within [of bp _ "pathquery base" M] w b br by fastforce
  let ?pq = "if tok_text M (pathquery base) = [] then ''/'' else tok_text M (pathquery base)"
  note tt = tok_read_text [OF sch] tok_read_text [OF pq(1)]
  have path: "(if tsize (pathquery base) = 0 then Some ''/'' else tok_read M (pathquery base)) = Some ?pq"
    using pq tt by auto
  have nul: "NUL \<notin> set p"
    using set_dir_of [of ?pq] tok_text_subset [of bp _ "pathquery base" M] w b r br cstr_of_NUL [OF b(1)]
      cstr_of_NUL [OF r(1)] by (fastforce simp: p split: if_splits)
  have n0: "length p \<noteq> 0" using r(2) by (simp add: p)
  let ?q = "takeWhile (\<lambda>c. \<not> path_end c) p"
  let ?res = "map_option (\<lambda>ss. join ss @ tail) (drop_dots (tail = []) [] (segs_of ?q))"
  have rd: "(case ?res of
      None \<Rightarrow> \<exists>b. remove_dots e (p @ [NUL]) (length p) = Some (UPNP_E_INVALID_URL, b)
    | Some x \<Rightarrow> \<exists>b. remove_dots e (p @ [NUL]) (length p) = Some (UPNP_E_SUCCESS, b) \<and> cstring b = x)"
  proof (cases "drop_dots (tail = []) [] (segs_of ?q)")
    case None
    then show ?thesis
      using remove_dots_spec [of "length p" "p @ [NUL]" e, OF _ n0 _ refl refl] mem
      by (simp add: tail)
  next
    case (Some ss)
    have "set ?q \<subseteq> set p" "set tail \<subseteq> set p"
      by (auto simp: tail dest: set_takeWhileD set_dropWhileD)
    then have "NUL \<notin> set (join ss @ tail)"
      using nul drop_dots_chars [OF Some] by auto
    then show ?thesis
      using remove_dots_spec [of "length p" "p @ [NUL]" e, OF _ n0 _ refl refl] mem Some
        cstring_prefix [of "join ss @ tail"]
      by (fastforce simp: tail)
  qed
  obtain c where bd: "base_dir ?pq [] [] = (c, dir_of ?pq)"
    using base_dir_eq [of ?pq] by (cases "base_dir ?pq [] []") auto
  have pd: "dir_of ?pq @ rs @ [NUL] = p @ [NUL]" "length (dir_of ?pq @ rs) = length p"
    by (simp_all add: p)
  let ?cap = "int (length bs) + int (length rs) + 2"
  obtain res where res: "resolve_against M e ?cap base rel rs = Some res"
    using resolve_against_fits [OF b(2) br(1) l base(2) r(2) refl] by blast
  have hs: "(if tsize (hp_text (hostport base)) > 0
         then map_option (\<lambda>h. (sch @ '':'') @ ''//'' @ h) (tok_read M (hp_text (hostport base)))
         else Some (sch @ '':'')) = Some (sch @ '':'' @ (if host = [] then [] else ''//'' @ host))"
  proof (cases "tsize (hp_text (hostport base)) > 0")
    case True
    then obtain h where h: "tok_read M (hp_text (hostport base)) = Some h"
        "int (length h) = tsize (hp_text (hostport base))"
      using tok_read_within [of bp _ "hp_text (hostport base)" M] w b br by fastforce
    moreover have "h \<noteq> []" using h True by auto
    ultimately show ?thesis using True tok_read_text [OF h(1)] by (simp add: host)
  qed (simp add: host tok_text_def)
  have "res = map_option
    (\<lambda>x. sch @ '':'' @ (if host = [] then [] else ''//'' @ host) @ x) ?res"
  proof (cases ?res)
    case None
    then obtain b where "remove_dots e (p @ [NUL]) (length p) = Some (UPNP_E_INVALID_URL, b)"
      using rd by auto
    then show ?thesis
      using resolve_against_value [OF res sch _ _ hs path bd, of UPNP_E_INVALID_URL b] rel(3,4) None
      by (simp only: pd) simp
  next
    case (Some x)
    then obtain b where "remove_dots e (p @ [NUL]) (length p) = Some (UPNP_E_SUCCESS, b)"
        "cstring b = x" using rd by auto
    then show ?thesis
      using resolve_against_value [OF res sch _ _ hs path bd, of UPNP_E_SUCCESS b] rel(3,4) Some
      by (simp only: pd) simp
  qed
  then show ?thesis
    using res b r rel base mem
    by (simp add: resolve_rel_url_def Let_def tt option.map_comp o_def)
qed

section \<open>Witnesses\<close>

lemma remove_dots_drops_dots_witness:
  "\<exists>b. remove_dots easy_env (''/a/../b?x'' @ [NUL]) 9 = Some (UPNP_E_SUCCESS, b) \<and>
    take (Suc (Suc (Suc (Suc (Suc 0))))) b = ''/b?x'' @ [NUL]"
  using remove_dots_drops_dots [of 9 "''/a/../b?x'' @ [NUL]" easy_env "''a/../b''", OF _ _ _ _ refl]
  by (auto simp: easy_env_def path_end_def is_dots_def without_dots_def)

definition two_urls :: mem where
  "two_urls n = (if n = 0 then ''http://h/d/a'' @ [NUL] else ''../b'' @ [NUL])"

lemma resolve_rel_url_memory_safe_witness:
  "\<exists>res. resolve_rel_url two_urls easy_env (Some (0, 0)) (Some (2, 0))
    blank_uri blank_uri = Some res"
  by (rule resolve_rel_url_memory_safe) (simp_all add: two_urls_def bytes_at_def)

lemma two_urls_parsed:
  "\<exists>u. parse_uri two_urls easy_env (2, 0) 4 blank_uri = Some (HTTP_SUCCESS, u) \<and>
    utype u = RELATIVE \<and> path_type u = REL_PATH \<and> tsize (hp_text (hostport u)) = 0"
  "\<exists>v. parse_uri two_urls easy_env (0, 0) 12 blank_uri = Some (HTTP_SUCCESS, v) \<and>
    utype v = ABSOLUTE \<and> tok_text two_urls (scheme v) = ''http'' \<and>
    tok_text two_urls (hp_text (hostport v)) = ''h'' \<and> tok_text two_urls (pathquery v) = ''/d/a''"
  by (simp_all add: parse_uri_def parse_scheme_def parse_path_def parse_uric_def two_urls_def
      bytes_at_def rd_def padd_def next_is_def parse_hostport_def resolve_host_def rd_bytes_def
      Let_def scheme_char_def host_char_def is_unreserved_def is_reserved_def is_mark_def
      uric_go_def is_escaped_def strchr_hit_def RESERVED_def MARK_def ctype_defs blank_uri_def easy_env_def
      tok_text_def tok_bytes_def null_token_def)

lemma resolve_rel_url_relative_path_witness:
  "resolve_rel_url two_urls easy_env (Some (0, 0)) (Some (2, 0)) blank_uri blank_uri
    = Some (Some ''http://h/b'')"
proof -
  have b: "cstr_of two_urls (0, 0) = Some ''http://h/d/a''" and r: "cstr_of two_urls (2, 0) = Some ''../b''"
    by (simp_all add: cstr_of_def rd_bytes_def bytes_at_def two_urls_def)
  obtain u where u: "parse_uri two_urls easy_env (2, 0) 4 blank_uri = Some (HTTP_SUCCESS, u)"
      "utype u = RELATIVE" "path_type u = REL_PATH" "tsize (hp_text (hostport u)) = 0"
    using two_urls_parsed(1) by blast
  obtain v where v: "parse_uri two_urls easy_env (0, 0) 12 blank_uri = Some (HTTP_SUCCESS, v)"
      "utype v = ABSOLUTE" "tok_text two_urls (scheme v) = ''http''"
      "tok_text two_urls (hp_text (hostport v)) = ''h''" "tok_text two_urls (pathquery v) = ''/d/a''"
    using two_urls_parsed(2) by blast
  show ?thesis
    using resolve_rel_url_relative_path [OF b _ r, of easy_env blank_uri u blank_uri v, OF _ _ _ _ _ _ _ _ _ refl refl refl]
      u v by (simp add: easy_env_def dir_of_def path_end_def)
qed

end
