(* ===== verification/Http_Message.thy ===== *)
theory Http_Message imports Http_Resolve begin

text \<open>
  HTTP messages (\<^verbatim>\<open>genlib/http_client/http_client.c\<close>, lines 645 to 777 and 2331 to
  2477): the status and request lines, the header list and the content token of a response or
  a request.

  The scanners carry a pointer \<^verbatim>\<open>finger\<close> and the number of bytes left; in
  \<^verbatim>\<open>parse_headers\<close> the bytes left are \<^verbatim>\<open>max_len\<close>, which every step decreases by what
  it adds to \<^verbatim>\<open>finger\<close>, so \<^verbatim>\<open>finger<max_finger-1\<close> reads \<open>1 < max_len\<close> here.
\<close>

section \<open>The message types\<close>

record http_header =
  hd_name :: token
  hd_value :: token

record http_status =
  st_version :: token
  status_code :: token
  reason_phrase :: token

record http_request =
  rq_version :: token
  request_uri :: uri_type
  rq_method :: token

record http_message =
  status :: http_status
  request :: http_request
  header_list :: "http_header list"
  content :: token

section \<open>The first line\<close>

definition parse_status_line :: "mem \<Rightarrow> ptr \<Rightarrow> int \<Rightarrow> (int \<times> http_status) option" where
  "parse_status_line M inp max_size = do {
     (n1, ver) \<leftarrow> parse_not_LWS M inp max_size;
     let out = \<lparr>st_version = ver, status_code = null_token, reason_phrase = null_token\<rparr>;
     if n1 = 0 then Some (0, out)
     else do {
       n2 \<leftarrow> parse_LWS M (padd inp n1) (max_size - n1);
       let k = n1 + n2;
       (n3, code) \<leftarrow> parse_not_LWS M (padd inp k) (max_size - k);
       let out = out\<lparr>status_code := code\<rparr>;
       if n3 = 0 then Some (0, out)
       else do {
         n4 \<leftarrow> parse_LWS M (padd inp (k + n3)) (max_size - (k + n3));
         let j = k + n3 + n4;
         n5 \<leftarrow> parse_http_line M (padd inp j) (max_size - j);
         if n5 = 0 then Some (0, out)
         else Some (j + n5,
           out\<lparr>reason_phrase := \<lparr>buff = Some (padd inp j), tsize = n5 - 2\<rparr>\<rparr>) } } }"

definition parse_request_line ::
  "mem \<Rightarrow> env \<Rightarrow> ptr \<Rightarrow> http_request \<Rightarrow> int \<Rightarrow> (int \<times> http_request) option" where
  "parse_request_line M e inp out0 max_size = do {
     (n1, meth) \<leftarrow> parse_token M inp max_size;
     let out = out0\<lparr>rq_version := null_token, rq_method := meth\<rparr>;
     if n1 = 0 then Some (0, out)
     else do {
       n2 \<leftarrow> parse_LWS M (padd inp n1) (max_size - n1);
       let k = n1 + n2;
       (temp, uri) \<leftarrow> parse_uri M e (padd inp k) (max_size - k) (request_uri out);
       let out = out\<lparr>request_uri := uri\<rparr>;
       if temp = 0 then Some (0, out)
       else do {
         (n3, tempToken) \<leftarrow> parse_not_LWS M (padd inp k) (max_size - k);
         n4 \<leftarrow> parse_LWS M (padd inp (k + n3)) (max_size - (k + n3));
         let j = k + n3 + n4;
         n5 \<leftarrow> parse_http_line M (padd inp j) (max_size - j);
         if n5 = 0 then Some (0, out)
         else Some (j + n5,
           out\<lparr>rq_version := \<lparr>buff = Some (padd inp j), tsize = n5 - 2\<rparr>\<rparr>) } } }"

section \<open>Headers\<close>

text \<open>A scanner's count is never below \<open>-1\<close>, whatever its bound: the loop below makes progress.\<close>

lemma strip_end_ge: "strip_end M p k = Some j \<Longrightarrow> - 1 \<le> k \<Longrightarrow> - 1 \<le> j \<and> j \<le> k"
proof (induction M p k rule: strip_end.induct)
  case (1 M p k)
  show ?case
  proof (cases "0 \<le> k")
    case True
    then obtain c where c: "rd M (padd p k) = Some c"
        "(if c = SP \<or> c = TAB then strip_end M p (k - 1) else Some k) = Some j"
      using "1.prems" by (subst (asm) strip_end.simps) (auto split: bind_splits)
    then show ?thesis using True "1.IH" [OF True c(1)] by (auto split: if_splits)
  next
    case False
    then show ?thesis using "1.prems" by (subst (asm) strip_end.simps) auto
  qed
qed

lemma parse_header_value_ge:
  "parse_header_value M p mx = Some (m, v) \<Longrightarrow> - 1 \<le> m \<and> m \<le> max 0 (mx - 2)"
  using strip_end_ge [of M p _ m] parse_http_line_bounds [of M p mx]
  by (fastforce simp: parse_header_value_def split: bind_splits if_splits)

lemma parse_token_bounds: "parse_token M p mx = Some (n, t) \<Longrightarrow>
    0 \<le> n \<and> n \<le> max 0 mx \<and> n \<le> int (length (bytes_at M p)) \<and> t = \<lparr>buff = Some p, tsize = n\<rparr>"
  using tokchars.sc_bounds by (auto simp: parse_token_def split: bind_splits)

lemma parse_not_LWS_bounds: "parse_not_LWS M p mx = Some (n, t) \<Longrightarrow>
    0 \<le> n \<and> n \<le> max 0 mx \<and> n \<le> int (length (bytes_at M p)) \<and> t = \<lparr>buff = Some p, tsize = n\<rparr>"
  using nonlws.sc_bounds by (auto simp: parse_not_LWS_def split: bind_splits)

lemma parse_LWS_bounds: "parse_LWS M p mx = Some n \<Longrightarrow>
    0 \<le> n \<and> n \<le> max 0 mx \<and> n \<le> int (length (bytes_at M p))"
  using lws.sc_bounds by (auto simp: parse_LWS_def)

lemma headers_progress:
  assumes "parse_token M p mx = Some a" "(x, y) = a" "x \<noteq> 0"
    "parse_LWS M p' mx' = Some d" "parse_header_value M q ql = Some b" "(m, v) = b"
    "parse_http_line M r rl = Some l"
  shows "- m - l - d - 1 < x"
proof -
  have "0 \<le> x" using parse_token_bounds [of M p mx x y] assms(1,2) by auto
  moreover have "0 \<le> d" using parse_LWS_bounds assms(4) by blast
  moreover have "- 1 \<le> m" using parse_header_value_ge [of M q ql m v] assms(5,6) by auto
  moreover have "0 \<le> l" using parse_http_line_bounds assms(7) by blast
  ultimately show ?thesis using assms(3) by linarith
qed

text \<open>
  The loop of \<^verbatim>\<open>parse_headers\<close>; \<open>A k\<close> is the answer of its \<open>k\<close>-th \<^verbatim>\<open>malloc\<close>.  \<open>Inl\<close> is an
  error return, after \<^verbatim>\<open>free_http_headers(head)\<close>; \<open>Inr\<close> holds the list, \<^verbatim>\<open>finger\<close> and
  \<^verbatim>\<open>max_len\<close> at the end of the loop.
\<close>

function headers_loop ::
  "(nat \<Rightarrow> bool) \<Rightarrow> mem \<Rightarrow> ptr \<Rightarrow> int \<Rightarrow> http_header list \<Rightarrow>
     (int + http_header list \<times> ptr \<times> int) option" where
  "headers_loop A M finger max_len hs =
     (if 1 < max_len then do {
        c \<leftarrow> rd M finger;
        more \<leftarrow> (if c \<noteq> CR then Some True else map_option (\<lambda>d. d \<noteq> LF) (rd M (padd finger 1)));
        if \<not> more then Some (Inr (hs, finger, max_len))
        else if \<not> A (length hs) then Some (Inl UPNP_E_OUTOF_MEMORY)
        else do {
          (counter, name) \<leftarrow> parse_token M finger max_len;
          if counter = 0 then Some (Inl UPNP_E_BAD_REQUEST)
          else do {
            colon \<leftarrow> rd M (padd finger counter);
            if colon \<noteq> CHR '':'' then Some (Inl UPNP_E_BAD_REQUEST)
            else do {
              n \<leftarrow> parse_LWS M (padd finger (counter + 1)) (max_len - (counter + 1));
              let k = counter + 1 + n;
              (m, v) \<leftarrow> parse_header_value M (padd finger k) (max_len - k);
              let val = (if m = 0 then null_token else v);
              l \<leftarrow> parse_http_line M (padd finger (k + m)) (max_len - (k + m));
              headers_loop A M (padd finger (k + m + l)) (max_len - (k + m + l))
                (hs @ [\<lparr>hd_name = name, hd_value = val\<rparr>]) } } } }
      else Some (Inr (hs, finger, max_len)))"
  by pat_completeness auto
termination
  by (relation "measure (\<lambda>(A, M, finger, max_len, hs). nat max_len)")
    (simp, simp, rule headers_progress, assumption+)

declare headers_loop.simps [simp del]

definition parse_headers ::
  "(nat \<Rightarrow> bool) \<Rightarrow> mem \<Rightarrow> ptr \<Rightarrow> http_message \<Rightarrow> int \<Rightarrow> (int \<times> http_message) option" where
  "parse_headers A M inp out max_len = do {
     r \<leftarrow> headers_loop A M inp max_len [];
     (case r of
       Inl err \<Rightarrow> Some (err, out)
     | Inr (hs, finger, max_len) \<Rightarrow>
         Some (HTTP_SUCCESS, out\<lparr>header_list := hs,
           content := \<lparr>buff = Some (if 1 < max_len then padd finger 2 else finger),
                       tsize = (if 0 < max_len then max_len - 2 else 0)\<rparr>\<rparr>)) }"

definition parse_http_response ::
  "(nat \<Rightarrow> bool) \<Rightarrow> mem \<Rightarrow> ptr \<Rightarrow> http_message \<Rightarrow> int \<Rightarrow> (int \<times> http_message) option" where
  "parse_http_response A M inp out max_len = do {
     (temp, st) \<leftarrow> parse_status_line M inp max_len;
     let out = out\<lparr>status := st\<rparr>;
     if temp = 0 then Some (UPNP_E_BAD_RESPONSE, out)
     else do {
       (r, out) \<leftarrow> parse_headers A M (padd inp temp) out (max_len - temp);
       if r \<noteq> HTTP_SUCCESS then Some (UPNP_E_BAD_REQUEST, out) else Some (HTTP_SUCCESS, out) } }"

definition parse_http_request ::
  "(nat \<Rightarrow> bool) \<Rightarrow> mem \<Rightarrow> env \<Rightarrow> ptr \<Rightarrow> http_message \<Rightarrow> int \<Rightarrow> (int \<times> http_message) option" where
  "parse_http_request A M e inp out max_len = do {
     (temp, rq) \<leftarrow> parse_request_line M e inp (request out) max_len;
     let out = out\<lparr>request := rq\<rparr>;
     if temp = 0 then Some (UPNP_E_BAD_REQUEST, out)
     else do {
       (r, out) \<leftarrow> parse_headers A M (padd inp temp) out (max_len - temp);
       if r \<noteq> HTTP_SUCCESS then Some (UPNP_E_BAD_REQUEST, out) else Some (HTTP_SUCCESS, out) } }"

text \<open>The loop of \<^verbatim>\<open>search_for_header\<close>; \<open>header\<close> is the C string without its NUL.\<close>

fun search_list :: "mem \<Rightarrow> http_header list \<Rightarrow> string \<Rightarrow> token \<Rightarrow> (int \<times> token) option" where
  "search_list M [] header out = Some (0, out)"
| "search_list M (h # hs) header out =
     (if tsize (hd_name h) = int (length header)
      then do {
        d \<leftarrow> strncasecmp (header @ [NUL]) (tok_bytes M (hd_name h)) (size_t (tsize (hd_name h)));
        if d = 0 then Some (HTTP_SUCCESS, hd_value h) else search_list M hs header out }
      else search_list M hs header out)"

definition search_for_header ::
  "mem \<Rightarrow> http_message \<Rightarrow> string \<Rightarrow> token \<Rightarrow> (int \<times> token) option" where
  "search_for_header M inp header out = search_list M (header_list inp) header out"

section \<open>Reading stays inside the message\<close>

text \<open>
  The state of the scan: \<open>mx\<close> bytes are left at \<open>p\<close>, and the byte after them can be read
  (a separator is tested before the bound is).
\<close>

definition left :: "mem \<Rightarrow> ptr \<Rightarrow> int \<Rightarrow> bool" where
  "left M p mx = (0 \<le> snd p \<and> - 1 \<le> mx \<and> mx + 1 \<le> int (length (bytes_at M p)))"

lemma left_padd: "left M p mx \<Longrightarrow> 0 \<le> n \<Longrightarrow> n \<le> mx + 1 \<Longrightarrow> left M (padd p n) (mx - n)"
  by (auto simp: left_def bytes_at_padd)

lemma left_rd: "left M p mx \<Longrightarrow> 0 \<le> n \<Longrightarrow> n \<le> mx \<Longrightarrow> \<exists>c. rd M (padd p n) = Some c"
  using rd_Some [of p n M] by (auto simp: left_def)

lemma left_le: "left M p mx \<Longrightarrow> mx \<le> int (length (bytes_at M p))"
  by (simp add: left_def)

lemma parse_token_left: "left M p mx \<Longrightarrow> \<exists>n. parse_token M p mx = Some (n, \<lparr>buff = Some p, tsize = n\<rparr>) \<and>
    0 \<le> n \<and> n \<le> max 0 mx \<and> n \<le> int (length (bytes_at M p))"
  using tokchars.sc_returns [OF left_le] tokchars.sc_bounds by (fastforce simp: parse_token_def)

lemma parse_not_LWS_left: "left M p mx \<Longrightarrow>
    \<exists>n. parse_not_LWS M p mx = Some (n, \<lparr>buff = Some p, tsize = n\<rparr>) \<and> 0 \<le> n \<and> n \<le> max 0 mx \<and>
      n \<le> int (length (bytes_at M p))"
  using nonlws.sc_returns [OF left_le] nonlws.sc_bounds by (fastforce simp: parse_not_LWS_def)

lemma parse_LWS_left: "left M p mx \<Longrightarrow> \<exists>n. parse_LWS M p mx = Some n \<and> 0 \<le> n \<and> n \<le> max 0 mx"
  using lws.sc_returns [OF left_le] lws.sc_bounds by (fastforce simp: parse_LWS_def)

lemma parse_http_line_left: "left M p mx \<Longrightarrow>
    \<exists>n. parse_http_line M p mx = Some n \<and> 0 \<le> n \<and> n \<le> max 0 mx \<and> (n = 0 \<or> 2 \<le> n)"
  using parse_http_line_returns [OF left_le] parse_http_line_bounds by blast

lemma parse_header_value_left: "left M p mx \<Longrightarrow>
    \<exists>n v. parse_header_value M p mx = Some (n, v) \<and> 0 \<le> n \<and> n \<le> max 0 (mx - 2) \<and>
      (v = null_token \<or> v = \<lparr>buff = Some p, tsize = n\<rparr>)"
  using parse_http_line_left [of M p mx] parse_header_value_eq [of p mx M]
  by (force simp: left_def)

text \<open>A token of the message starting at \<open>p\<close> with \<open>n\<close> bytes.\<close>

lemma tok_within_here: "0 \<le> k \<Longrightarrow> 0 \<le> n \<Longrightarrow> k + n \<le> mx \<Longrightarrow>
    tok_within p mx \<lparr>buff = Some (padd p k), tsize = n\<rparr>"
  by (simp add: tok_within_def)

definition headers_within :: "ptr \<Rightarrow> int \<Rightarrow> http_header list \<Rightarrow> bool" where
  "headers_within p mx hs =
     (\<forall>h \<in> set hs. tok_within p mx (hd_name h) \<and> tok_within p mx (hd_value h))"

text \<open>One header line, and the two ways the loop ends normally.\<close>

lemma headers_loop_line:
  assumes "1 < ml" "rd M f = Some c" "c = CR \<Longrightarrow> rd M (padd f 1) = Some d \<and> d \<noteq> LF" "A (length hs)"
    "parse_token M f ml = Some (n1, nm)" "n1 \<noteq> 0" "rd M (padd f n1) = Some (CHR '':'')"
    "parse_LWS M (padd f (n1 + 1)) (ml - (n1 + 1)) = Some n2" "k = n1 + 1 + n2"
    "parse_header_value M (padd f k) (ml - k) = Some (n3, v)"
    "parse_http_line M (padd f (k + n3)) (ml - (k + n3)) = Some n4"
  shows "headers_loop A M f ml hs = headers_loop A M (padd f (k + n3 + n4)) (ml - (k + n3 + n4))
    (hs @ [\<lparr>hd_name = nm, hd_value = (if n3 = 0 then null_token else v)\<rparr>])"
  by (subst headers_loop.simps) (use assms in \<open>simp add: Let_def\<close>)

lemma headers_loop_end: "ml \<le> 1 \<Longrightarrow> headers_loop A M f ml hs = Some (Inr (hs, f, ml))"
  by (subst headers_loop.simps) simp

lemma headers_loop_blank: "rd M f = Some CR \<Longrightarrow> rd M (padd f 1) = Some LF \<Longrightarrow>
    headers_loop A M f ml hs = Some (Inr (hs, f, ml))"
  by (subst headers_loop.simps) simp

text \<open>The result of the loop entered at offset \<open>k\<close> of a message of \<open>T\<close> bytes at \<open>p\<close>.\<close>

definition loop_ok :: "ptr \<Rightarrow> int \<Rightarrow> int \<Rightarrow> int + http_header list \<times> ptr \<times> int \<Rightarrow> bool" where
  "loop_ok p T k r = (case r of
     Inl err \<Rightarrow> err = UPNP_E_OUTOF_MEMORY \<or> err = UPNP_E_BAD_REQUEST
   | Inr (hs, f, ml) \<Rightarrow> (\<exists>j. f = padd p j \<and> k \<le> j \<and> j + ml = T) \<and> - 1 \<le> ml \<and> headers_within p T hs)"

lemma loop_ok_mono: "loop_ok p T j r \<Longrightarrow> k \<le> j \<Longrightarrow> loop_ok p T k r"
  by (fastforce simp: loop_ok_def split: sum.splits)

lemma headers_loop_safe:
  assumes "0 \<le> snd p" "0 \<le> k" "k + ml = T" "left M (padd p k) ml" "headers_within p T hs"
  shows "\<exists>r. headers_loop A M (padd p k) ml hs = Some r \<and> loop_ok p T k r"
  using assms
proof (induction "nat (ml + 1)" arbitrary: k ml hs rule: less_induct)
  case less
  let ?f = "padd p k"
  note l = less.prems(4)
  have ml: "- 1 \<le> ml" using l by (simp add: left_def)
  have stop: ?case if "headers_loop A M ?f ml hs = Some (Inr (hs, ?f, ml))"
    using that less.prems ml by (auto simp: loop_ok_def)
  have err: ?case if "headers_loop A M ?f ml hs = Some (Inl e)"
    "e = UPNP_E_OUTOF_MEMORY \<or> e = UPNP_E_BAD_REQUEST" for e
    using that by (auto simp: loop_ok_def)
  show ?case
  proof (cases "1 < ml")
    case False
    then show ?thesis using stop headers_loop_end by simp
  next
    case ml1: True
    obtain c where c: "rd M ?f = Some c" using left_rd [OF l, of 0] ml1 by auto
    obtain d where d: "rd M (padd ?f 1) = Some d" using left_rd [OF l, of 1] ml1 by auto
    obtain n1 where n1: "parse_token M ?f ml = Some (n1, \<lparr>buff = Some ?f, tsize = n1\<rparr>)" "0 \<le> n1" "n1 \<le> ml"
      using parse_token_left [OF l] ml1 by auto
    obtain colon where colon: "rd M (padd ?f n1) = Some colon" using left_rd [OF l, of n1] n1 by auto
    have l1: "left M (padd ?f (n1 + 1)) (ml - (n1 + 1))"
      using left_padd [OF l, of "n1 + 1"] n1 by simp
    obtain n2 where n2: "parse_LWS M (padd ?f (n1 + 1)) (ml - (n1 + 1)) = Some n2" "0 \<le> n2"
        "n2 \<le> max 0 (ml - (n1 + 1))"
      using parse_LWS_left [OF l1] by blast
    define j where "j = n1 + 1 + n2"
    have l2: "left M (padd ?f j) (ml - j)"
      using left_padd [OF l, of j] n1 n2 by (simp add: j_def)
    obtain n3 v where n3: "parse_header_value M (padd ?f j) (ml - j) = Some (n3, v)" "0 \<le> n3"
        "n3 \<le> max 0 (ml - j - 2)" "v = null_token \<or> v = \<lparr>buff = Some (padd ?f j), tsize = n3\<rparr>"
      using parse_header_value_left [OF l2] by blast
    have l3: "left M (padd ?f (j + n3)) (ml - (j + n3))"
      using left_padd [OF l, of "j + n3"] n1 n2 n3 by (simp add: j_def)
    obtain n4 where n4: "parse_http_line M (padd ?f (j + n3)) (ml - (j + n3)) = Some n4" "0 \<le> n4"
        "n4 \<le> max 0 (ml - (j + n3))"
      using parse_http_line_left [OF l3] by blast
    define t where "t = j + n3 + n4"
    have t: "n1 + 1 \<le> t" "t \<le> ml + 1" using n1 n2 n3 n4 by (auto simp: t_def j_def)
    show ?thesis
    proof (cases "c = CR \<and> d = LF")
      case True
      then show ?thesis using stop headers_loop_blank c d by simp
    next
      case False
      then have go: "c = CR \<Longrightarrow> rd M (padd ?f 1) = Some d \<and> d \<noteq> LF" using d by auto
      show ?thesis
      proof (cases "A (length hs) \<and> n1 \<noteq> 0 \<and> colon = CHR '':''")
        case True
        let ?h = "\<lparr>hd_name = \<lparr>buff = Some ?f, tsize = n1\<rparr>, hd_value = (if n3 = 0 then null_token else v)\<rparr>"
        have "headers_loop A M ?f ml hs = headers_loop A M (padd ?f t) (ml - t) (hs @ [?h])"
          unfolding t_def using ml1 c go True n1(1) colon n2(1) j_def n3(1) n4(1)
          by (intro headers_loop_line) auto
        moreover have "headers_within p T (hs @ [?h])"
          using less.prems n1 n2 n3 by (auto simp: headers_within_def j_def tok_within_def null_token_def)
        moreover have "left M (padd ?f t) (ml - t)" using left_padd [OF l, of t] t n1 by simp
        ultimately show ?thesis
          using less.hyps [of "ml - t" "k + t" "hs @ [?h]"] less.prems t n1 ml1
            loop_ok_mono [of p T "k + t" _ k] by auto
      next
        case False
        have "headers_loop A M ?f ml hs = Some (Inl (if A (length hs) then UPNP_E_BAD_REQUEST else UPNP_E_OUTOF_MEMORY))"
          using ml1 c go False n1(1) colon
          by (subst headers_loop.simps) (auto simp: d)
        then show ?thesis by (intro err) auto
      qed
    qed
  qed
qed

lemma parse_headers_safe:
  assumes "0 \<le> snd p" "0 \<le> k" "k + ml = T" "left M (padd p k) ml"
  shows "\<exists>r out'. parse_headers A M (padd p k) out ml = Some (r, out') \<and>
    (r = UPNP_E_OUTOF_MEMORY \<or> r = UPNP_E_BAD_REQUEST \<or>
     r = HTTP_SUCCESS \<and> headers_within p T (header_list out') \<and>
       (tok_within p (T + 1) (content out') \<or> tsize (content out') = - 1))"
proof -
  obtain r where r: "headers_loop A M (padd p k) ml [] = Some r" "loop_ok p T k r"
    using headers_loop_safe [OF assms, of "[]" A] by (auto simp: headers_within_def)
  show ?thesis
  proof (cases r)
    case (Inr x)
    then obtain hs f ml' j where x: "r = Inr (hs, f, ml')" "f = padd p j" "k \<le> j" "j + ml' = T"
        "- 1 \<le> ml'" "headers_within p T hs"
      using r(2) by (cases x) (auto simp: loop_ok_def)
    then show ?thesis
      using r(1) assms(2) by (auto simp: parse_headers_def tok_within_def)
  qed (use r in \<open>auto simp: parse_headers_def loop_ok_def\<close>)
qed

lemma parse_status_line_safe:
  assumes l: "left M p mx" "0 \<le> mx"
  shows "\<exists>n st. parse_status_line M p mx = Some (n, st) \<and> 0 \<le> n \<and> n \<le> mx \<and>
    tok_within p mx (st_version st) \<and> tok_within p mx (status_code st) \<and>
    tok_within p mx (reason_phrase st)"
proof -
  obtain n1 where n1: "parse_not_LWS M p mx = Some (n1, \<lparr>buff = Some p, tsize = n1\<rparr>)" "0 \<le> n1" "n1 \<le> mx"
    using parse_not_LWS_left [OF l(1)] l(2) by auto
  obtain n2 where n2: "parse_LWS M (padd p n1) (mx - n1) = Some n2" "0 \<le> n2" "n2 \<le> mx - n1"
    using parse_LWS_left [OF left_padd [OF l(1), of n1]] n1 by auto
  define k where "k = n1 + n2"
  have k: "0 \<le> k" "k \<le> mx" using n1 n2 by (auto simp: k_def)
  obtain n3 where n3: "parse_not_LWS M (padd p k) (mx - k) =
      Some (n3, \<lparr>buff = Some (padd p k), tsize = n3\<rparr>)" "0 \<le> n3" "n3 \<le> mx - k"
    using parse_not_LWS_left [OF left_padd [OF l(1), of k]] k by auto
  obtain n4 where n4: "parse_LWS M (padd p (k + n3)) (mx - (k + n3)) = Some n4" "0 \<le> n4"
      "n4 \<le> mx - (k + n3)"
    using parse_LWS_left [OF left_padd [OF l(1), of "k + n3"]] k n3 by auto
  define j where "j = k + n3 + n4"
  have j: "0 \<le> j" "j \<le> mx" using k n3 n4 by (auto simp: j_def)
  obtain n5 where n5: "parse_http_line M (padd p j) (mx - j) = Some n5" "0 \<le> n5" "n5 \<le> mx - j"
      "n5 = 0 \<or> 2 \<le> n5"
    using parse_http_line_left [OF left_padd [OF l(1), of j]] j by auto
  note d = n1 n2(1) k_def [symmetric] n3 n4(1) j_def [symmetric] n5 j k
  show ?thesis
    by (cases "n1 = 0"; cases "n3 = 0"; cases "n5 = 0")
      (use d l(2) in \<open>auto simp: parse_status_line_def Let_def tok_within_def null_token_def\<close>)
qed

lemma parse_request_line_safe:
  assumes l: "left M p mx" "0 \<le> mx"
  shows "\<exists>n rq. parse_request_line M e p out mx = Some (n, rq) \<and> 0 \<le> n \<and> n \<le> mx \<and>
    tok_within p mx (rq_method rq) \<and> tok_within p mx (rq_version rq)"
proof -
  obtain n1 where n1: "parse_token M p mx = Some (n1, \<lparr>buff = Some p, tsize = n1\<rparr>)" "0 \<le> n1" "n1 \<le> mx"
    using parse_token_left [OF l(1)] l(2) by auto
  obtain n2 where n2: "parse_LWS M (padd p n1) (mx - n1) = Some n2" "0 \<le> n2" "n2 \<le> mx - n1"
    using parse_LWS_left [OF left_padd [OF l(1), of n1]] n1 by auto
  define k where "k = n1 + n2"
  have k: "0 \<le> k" "k \<le> mx" using n1 n2 by (auto simp: k_def)
  have lk: "left M (padd p k) (mx - k)" using left_padd [OF l(1), of k] k by simp
  obtain u uri where u: "parse_uri M e (padd p k) (mx - k) (request_uri out) = Some (u, uri)"
    using parse_uri_returns [of "padd p k" "mx - k" M e "request_uri out"] lk k
    by (auto simp: left_def)
  obtain n3 where n3: "parse_not_LWS M (padd p k) (mx - k) =
      Some (n3, \<lparr>buff = Some (padd p k), tsize = n3\<rparr>)" "0 \<le> n3" "n3 \<le> mx - k"
    using parse_not_LWS_left [OF lk] k by auto
  obtain n4 where n4: "parse_LWS M (padd p (k + n3)) (mx - (k + n3)) = Some n4" "0 \<le> n4"
      "n4 \<le> mx - (k + n3)"
    using parse_LWS_left [OF left_padd [OF l(1), of "k + n3"]] k n3 by auto
  define j where "j = k + n3 + n4"
  have j: "0 \<le> j" "j \<le> mx" using k n3 n4 by (auto simp: j_def)
  obtain n5 where n5: "parse_http_line M (padd p j) (mx - j) = Some n5" "0 \<le> n5" "n5 \<le> mx - j"
      "n5 = 0 \<or> 2 \<le> n5"
    using parse_http_line_left [OF left_padd [OF l(1), of j]] j by auto
  note d = n1 n2(1) k_def [symmetric] u n3 n4(1) j_def [symmetric] n5 j k
  show ?thesis
    by (cases "n1 = 0"; cases "u = 0"; cases "n5 = 0")
      (use d l(2) in \<open>auto simp: parse_request_line_def Let_def tok_within_def null_token_def\<close>)
qed

text \<open>
  C19. \<open>parse_http_response\<close> on \<open>max_len\<close> bytes never reads more than the one byte that follows
  them; it succeeds with every token of the status line and of the headers inside the message,
  and a content token that ends at most one byte past it or has size \<open>-1\<close>, or it reports an error.
\<close>

theorem parse_http_response_safe:
  assumes "0 \<le> snd p" "0 \<le> mx" "mx + 1 \<le> int (length (bytes_at M p))"
  shows "\<exists>r m. parse_http_response A M p out mx = Some (r, m) \<and>
    (r = UPNP_E_BAD_RESPONSE \<or> r = UPNP_E_BAD_REQUEST \<or>
     r = HTTP_SUCCESS \<and> headers_within p mx (header_list m) \<and>
       (\<forall>t \<in> {st_version (status m), status_code (status m), reason_phrase (status m)}.
          tok_within p mx t) \<and>
       (tok_within p (mx + 1) (content m) \<or> tsize (content m) = - 1))"
proof -
  have l: "left M p mx" using assms by (simp add: left_def)
  obtain n st where st: "parse_status_line M p mx = Some (n, st)" "0 \<le> n" "n \<le> mx"
      "tok_within p mx (st_version st)" "tok_within p mx (status_code st)"
      "tok_within p mx (reason_phrase st)"
    using parse_status_line_safe [OF l assms(2)] by blast
  define out' where "out' = out\<lparr>status := st\<rparr>"
  obtain r m where m: "parse_headers A M (padd p n) out' (mx - n) = Some (r, m)"
      "r = UPNP_E_OUTOF_MEMORY \<or> r = UPNP_E_BAD_REQUEST \<or>
       r = HTTP_SUCCESS \<and> headers_within p mx (header_list m) \<and>
       (tok_within p (mx + 1) (content m) \<or> tsize (content m) = - 1)"
    using parse_headers_safe [of p n "mx - n" mx M A out'] left_padd [OF l, of n] assms st by auto
  have "status m = st"
    using m(1) by (auto simp: parse_headers_def out'_def split: bind_splits sum.splits)
  then show ?thesis
    using st m by (cases "n = 0") (auto simp: parse_http_response_def out'_def)
qed

text \<open>
  \<open>parse_http_request\<close> on \<open>max_len\<close> bytes never reads more than the one byte that follows
  them, whatever the resolver answers; it succeeds with the method, the version and every header
  token inside the message, or it reports \<open>UPNP_E_BAD_REQUEST\<close>.
\<close>

theorem parse_http_request_safe:
  assumes "0 \<le> snd p" "0 \<le> mx" "mx + 1 \<le> int (length (bytes_at M p))"
  shows "\<exists>r m. parse_http_request A M e p out mx = Some (r, m) \<and>
    (r = UPNP_E_BAD_REQUEST \<or>
     r = HTTP_SUCCESS \<and> headers_within p mx (header_list m) \<and>
       tok_within p mx (rq_method (request m)) \<and> tok_within p mx (rq_version (request m)) \<and>
       (tok_within p (mx + 1) (content m) \<or> tsize (content m) = - 1))"
proof -
  have l: "left M p mx" using assms by (simp add: left_def)
  obtain n rq where rq: "parse_request_line M e p (request out) mx = Some (n, rq)" "0 \<le> n" "n \<le> mx"
      "tok_within p mx (rq_method rq)" "tok_within p mx (rq_version rq)"
    using parse_request_line_safe [OF l assms(2)] by blast
  define out' where "out' = out\<lparr>request := rq\<rparr>"
  obtain r m where m: "parse_headers A M (padd p n) out' (mx - n) = Some (r, m)"
      "r = UPNP_E_OUTOF_MEMORY \<or> r = UPNP_E_BAD_REQUEST \<or>
       r = HTTP_SUCCESS \<and> headers_within p mx (header_list m) \<and>
       (tok_within p (mx + 1) (content m) \<or> tsize (content m) = - 1)"
    using parse_headers_safe [of p n "mx - n" mx M A out'] left_padd [OF l, of n] assms rq by auto
  have "request m = rq"
    using m(1) by (auto simp: parse_headers_def out'_def split: bind_splits sum.splits)
  then show ?thesis
    using rq m by (cases "n = 0") (auto simp: parse_http_request_def out'_def)
qed

section \<open>Printed messages\<close>

fun print_headers :: "(string \<times> string) list \<Rightarrow> string" where
  "print_headers [] = []"
| "print_headers ((n, v) # hs) = n @ '': '' @ v @ CR # LF # print_headers hs"

definition wf_header :: "string \<times> string \<Rightarrow> bool" where
  "wf_header h = (fst h \<noteq> [] \<and> (\<forall>c \<in> set (fst h). is_token_char c) \<and> CR \<notin> set (snd h) \<and>
     (snd h = [] \<or> hd (snd h) \<noteq> SP \<and> hd (snd h) \<noteq> TAB))"

definition header_text :: "mem \<Rightarrow> http_header \<Rightarrow> string \<times> string" where
  "header_text M h = (tok_text M (hd_name h), tok_text M (hd_value h))"

lemma scan_pre: "\<forall>c \<in> set xs. P c \<Longrightarrow> int (length xs) \<le> mx \<Longrightarrow> ys \<noteq> [] \<Longrightarrow> \<not> P (hd ys) \<Longrightarrow>
    scan P (xs @ ys) mx = Some (int (length xs))"
  using scan_stop [of ys P] by (simp add: scan_app)

lemma parse_token_pre: "bytes_at M p = xs @ c # ys \<Longrightarrow> \<forall>x \<in> set xs. is_token_char x \<Longrightarrow>
    \<not> is_token_char c \<Longrightarrow> int (length xs) \<le> mx \<Longrightarrow>
    parse_token M p mx = Some (int (length xs), \<lparr>buff = Some p, tsize = int (length xs)\<rparr>)"
  by (simp add: parse_token_def scan_pre)

lemma parse_not_LWS_pre: "bytes_at M p = xs @ SP # ys \<Longrightarrow> SP \<notin> set xs \<Longrightarrow> TAB \<notin> set xs \<Longrightarrow>
    int (length xs) \<le> mx \<Longrightarrow>
    parse_not_LWS M p mx = Some (int (length xs), \<lparr>buff = Some p, tsize = int (length xs)\<rparr>)"
proof -
  assume a: "bytes_at M p = xs @ SP # ys" "SP \<notin> set xs" "TAB \<notin> set xs" "int (length xs) \<le> mx"
  then have "scan (\<lambda>c. c \<noteq> SP \<and> c \<noteq> TAB) (xs @ SP # ys) mx = Some (int (length xs))"
    by (intro scan_pre) auto
  with a show ?thesis by (simp add: parse_not_LWS_def)
qed

lemma parse_LWS_one: "bytes_at M p = SP # c # ys \<Longrightarrow> c \<noteq> SP \<Longrightarrow> c \<noteq> TAB \<Longrightarrow> 1 \<le> mx \<Longrightarrow>
    parse_LWS M p mx = Some 1"
  by (simp add: parse_LWS_def)

lemma parse_http_line_pre:
  assumes "bytes_at M p = v @ CR # LF # r" "CR \<notin> set v" "int (length v) + 2 \<le> mx"
    "mx \<le> int (length v + 2 + length r)"
  shows "parse_http_line M p mx = Some (int (length v) + 2)"
proof (rule parse_http_line_eq)
  show "crlf_at (bytes_at M p) (length v)" using assms(1) by (simp add: crlf_at_def nth_append)
  show "\<not> crlf_at (bytes_at M p) j" if "j < length v" for j
  proof -
    have "v ! j \<noteq> CR" using that assms(2) by (metis nth_mem)
    then show ?thesis using that assms(1) by (simp add: crlf_at_def nth_append)
  qed
qed (use assms in auto)

lemma parse_header_value_pre:
  assumes "0 \<le> snd p" "bytes_at M p = v @ CR # LF # r" "CR \<notin> set v" "int (length v) + 2 \<le> mx"
    "mx \<le> int (length v + 2 + length r)"
  shows "parse_header_value M p mx = Some (int (length v), \<lparr>buff = Some p, tsize = int (length v)\<rparr>)"
  using parse_header_value_eq [OF assms(1) _ parse_http_line_pre [OF assms(2-5)]] assms by simp

lemma not_token_chars [simp]: "\<not> is_token_char CR" "\<not> is_token_char CHR '':''" "\<not> is_token_char SP"
  by (simp_all add: is_token_char_def ctype_defs SEPARATORS_def)

text \<open>The loop reads one printed header line.\<close>

lemma headers_loop_one:
  assumes f: "0 \<le> snd f" "bytes_at M f = n @ '': '' @ v @ CR # LF # rest" and wf: "wf_header (n, v)"
    and ml: "int (length n + length v + 4) \<le> ml" "ml \<le> int (length n + length v + 4 + length rest)"
    and A: "A (length hs)"
  shows "\<exists>h. headers_loop A M f ml hs =
      headers_loop A M (padd f (int (length n + length v + 4))) (ml - int (length n + length v + 4))
        (hs @ [h]) \<and> header_text M h = (n, v)"
proof -
  let ?k = "int (length n) + 1 + 1"
  have tc: "\<forall>c \<in> set n. is_token_char c" "n \<noteq> []" and v: "CR \<notin> set v" "v = [] \<or> hd v \<noteq> SP \<and> hd v \<noteq> TAB"
    using wf by (auto simp: wf_header_def)
  obtain c t where n: "n = c # t" using tc(2) by (cases n) auto
  have c: "rd M f = Some c" "c \<noteq> CR" using f tc(1) by (auto simp: rd_def n)
  have b0: "bytes_at M f = n @ CHR '':'' # SP # v @ CR # LF # rest" using f(2) by simp
  have tok: "parse_token M f ml = Some (int (length n), \<lparr>buff = Some f, tsize = int (length n)\<rparr>)"
    by (rule parse_token_pre [OF b0 tc(1)]) (use ml in auto)
  have bn: "bytes_at M (padd f (int (length n))) = CHR '':'' # SP # v @ CR # LF # rest"
    using bytes_padd_app [OF f(1) b0 refl] .
  have b1: "bytes_at M (padd f (int (length n) + 1)) = SP # v @ CR # LF # rest"
    by (rule bytes_padd_app [OF f(1), of _ "n @ '':''"]) (use b0 in auto)
  have b2: "bytes_at M (padd f ?k) = v @ CR # LF # rest"
    by (rule bytes_padd_app [OF f(1), of _ "n @ '': ''"]) (use b0 in auto)
  have lws: "parse_LWS M (padd f (int (length n) + 1)) (ml - (int (length n) + 1)) = Some 1"
    using b1 v(2) ml by (cases v) (auto intro!: parse_LWS_one)
  have val: "parse_header_value M (padd f ?k) (ml - ?k) =
      Some (int (length v), \<lparr>buff = Some (padd f ?k), tsize = int (length v)\<rparr>)"
    by (rule parse_header_value_pre [OF _ b2 v(1)]) (use f ml in auto)
  have b3: "bytes_at M (padd f (?k + int (length v))) = [] @ CR # LF # rest"
    by (rule bytes_padd_app [OF f(1), of _ "n @ '': '' @ v"]) (use b0 in auto)
  have line: "parse_http_line M (padd f (?k + int (length v))) (ml - (?k + int (length v))) = Some 2"
    using parse_http_line_pre [OF b3, of "ml - (?k + int (length v))"] ml by simp
  let ?h = "\<lparr>hd_name = \<lparr>buff = Some f, tsize = int (length n)\<rparr>,
    hd_value = (if int (length v) = 0 then null_token
                else \<lparr>buff = Some (padd f ?k), tsize = int (length v)\<rparr>)\<rparr>"
  have "headers_loop A M f ml hs = headers_loop A M (padd f (?k + int (length v) + 2))
      (ml - (?k + int (length v) + 2)) (hs @ [?h])"
    by (rule headers_loop_line [where c = c and d = CR and ?n1.0 = "int (length n)" and ?n2.0 = 1
          and k = ?k and ?n3.0 = "int (length v)" and ?n4.0 = 2])
      (use ml tc(2) bn c A tok lws val line in \<open>auto simp: rd_def\<close>)
  moreover have "header_text M ?h = (n, v)"
    using tok_text_app [OF b0] tok_text_app [OF b2]
    by (auto simp: header_text_def null_token_def tok_text_def tok_bytes_def)
  moreover have "?k + int (length v) + 2 = int (length n + length v + 4)" by simp
  ultimately show ?thesis by metis
qed

lemma headers_loop_print:
  assumes "0 \<le> snd f" "bytes_at M f = print_headers ps @ rest" "\<forall>h \<in> set ps. wf_header h" "A = (\<lambda>_. True)"
    "ml = int (length (print_headers ps)) + r" "0 \<le> r" "r \<le> int (length rest)"
    "r \<le> 1 \<or> (\<exists>b. rest = CR # LF # b)"
  shows "\<exists>hs'. headers_loop A M f ml hs =
      Some (Inr (hs @ hs', padd f (int (length (print_headers ps))), r)) \<and> map (header_text M) hs' = ps"
  using assms
proof (induction ps arbitrary: f ml hs)
  case Nil
  then show ?case
    by (auto simp: rd_def bytes_at_padd headers_loop_end headers_loop_blank)
next
  case (Cons nv ps)
  obtain n v where nv: "nv = (n, v)" by (cases nv)
  let ?l = "int (length n + length v + 4)"
  have b: "bytes_at M f = n @ '': '' @ v @ CR # LF # print_headers ps @ rest"
    using Cons.prems(2) nv by simp
  obtain h where h: "headers_loop A M f ml hs = headers_loop A M (padd f ?l) (ml - ?l) (hs @ [h])"
      "header_text M h = (n, v)"
    using headers_loop_one [OF Cons.prems(1) b, of ml A hs] Cons.prems nv by auto
  have "bytes_at M (padd f ?l) = print_headers ps @ rest"
    by (rule bytes_padd_app [OF Cons.prems(1), of _ "n @ '': '' @ v @ [CR, LF]"]) (use b in auto)
  then obtain hs' where "headers_loop A M (padd f ?l) (ml - ?l) (hs @ [h]) =
      Some (Inr ((hs @ [h]) @ hs', padd (padd f ?l) (int (length (print_headers ps))), r))"
      "map (header_text M) hs' = ps"
    using Cons.IH [of "padd f ?l" "ml - ?l" "hs @ [h]"] Cons.prems nv by auto
  with h nv show ?case by (intro exI [of _ "h # hs'"]) (simp add: algebra_simps)
qed

section \<open>Round trips of whole messages\<close>

lemma parse_headers_print:
  assumes f: "0 \<le> snd f" "bytes_at M f = print_headers ps @ rest" "\<forall>h \<in> set ps. wf_header h"
    and r: "ml = int (length (print_headers ps)) + r" "0 \<le> r" "r \<le> int (length rest)"
      "r \<le> 1 \<or> (\<exists>b. rest = CR # LF # b)"
  shows "\<exists>hs. map (header_text M) hs = ps \<and> parse_headers (\<lambda>_. True) M f out ml =
    Some (HTTP_SUCCESS, out\<lparr>header_list := hs,
      content := \<lparr>buff = Some (padd f (int (length (print_headers ps)) + (if 1 < r then 2 else 0))),
                  tsize = (if 0 < r then r - 2 else 0)\<rparr>\<rparr>)"
  using headers_loop_print [OF f refl r, of "[]"] by (auto simp: parse_headers_def)

lemma parse_status_line_pre:
  assumes p: "0 \<le> snd p" "bytes_at M p = ver @ SP # code @ SP # reason @ CR # LF # r"
    and v: "ver \<noteq> []" "SP \<notin> set ver" "TAB \<notin> set ver" and c: "code \<noteq> []" "SP \<notin> set code" "TAB \<notin> set code"
    and re: "CR \<notin> set reason" "reason = [] \<or> hd reason \<noteq> SP \<and> hd reason \<noteq> TAB"
    and mx: "int (length ver + length code + length reason + 4) \<le> mx"
      "mx \<le> int (length (bytes_at M p))"
  shows "\<exists>st. parse_status_line M p mx = Some (int (length ver + length code + length reason + 4), st) \<and>
    tok_text M (st_version st) = ver \<and> tok_text M (status_code st) = code \<and>
    tok_text M (reason_phrase st) = reason"
proof -
  let ?v = "int (length ver)" and ?c = "int (length code)"
  have b1: "bytes_at M (padd p ?v) = SP # code @ SP # reason @ CR # LF # r"
    by (rule bytes_padd_app [OF p refl])
  have b2: "bytes_at M (padd p (?v + 1)) = code @ SP # reason @ CR # LF # r"
    by (rule bytes_padd_app [OF p(1), of _ "ver @ [SP]"]) (use p(2) in auto)
  have b3: "bytes_at M (padd p (?v + 1 + ?c)) = SP # reason @ CR # LF # r"
    by (rule bytes_padd_app [OF p(1), of _ "ver @ SP # code"]) (use p(2) in auto)
  have b4: "bytes_at M (padd p (?v + 1 + ?c + 1)) = reason @ CR # LF # r"
    by (rule bytes_padd_app [OF p(1), of _ "ver @ SP # code @ [SP]"]) (use p(2) in auto)
  have s1: "parse_not_LWS M p mx = Some (?v, \<lparr>buff = Some p, tsize = ?v\<rparr>)"
    by (rule parse_not_LWS_pre [OF p(2) v(2,3)]) (use mx in auto)
  have s2: "parse_LWS M (padd p ?v) (mx - ?v) = Some 1"
    using b1 c mx by (cases code) (auto intro!: parse_LWS_one)
  have s3: "parse_not_LWS M (padd p (?v + 1)) (mx - (?v + 1)) =
      Some (?c, \<lparr>buff = Some (padd p (?v + 1)), tsize = ?c\<rparr>)"
    by (rule parse_not_LWS_pre [OF b2 c(2,3)]) (use mx in auto)
  have s4: "parse_LWS M (padd p (?v + 1 + ?c)) (mx - (?v + 1 + ?c)) = Some 1"
    using b3 re(2) mx by (cases reason) (auto intro!: parse_LWS_one)
  have s5: "parse_http_line M (padd p (?v + 1 + ?c + 1)) (mx - (?v + 1 + ?c + 1)) =
      Some (int (length reason) + 2)"
    by (rule parse_http_line_pre [OF b4 re(1)]) (use mx p(2) in auto)
  show ?thesis
    using s1 s2 s3 s4 s5 v(1) c(1) tok_text_app [OF p(2)] tok_text_app [OF b2] tok_text_app [OF b4]
    by (simp add: parse_status_line_def Let_def add.commute add.left_commute)
qed

text \<open>On the printed form of a response: its parts, and where the tokens of its headers and its body are.\<close>

lemma parse_http_response_printed:
  assumes p: "0 \<le> snd p" "bytes_at M p = ver @ SP # code @ SP # reason @ CR # LF #
      print_headers ps @ CR # LF # body @ rest"
    and v: "ver \<noteq> []" "SP \<notin> set ver" "TAB \<notin> set ver" and c: "code \<noteq> []" "SP \<notin> set code" "TAB \<notin> set code"
    and re: "CR \<notin> set reason" "reason = [] \<or> hd reason \<noteq> SP \<and> hd reason \<noteq> TAB"
    and hs: "\<forall>h \<in> set ps. wf_header h"
    and mx: "mx = int (length ver + length code + length reason + 4 + length (print_headers ps) +
      2 + length body)"
  shows "\<exists>m. parse_http_response (\<lambda>_. True) M p out mx = Some (HTTP_SUCCESS, m) \<and>
    tok_text M (st_version (status m)) = ver \<and> tok_text M (status_code (status m)) = code \<and>
    tok_text M (reason_phrase (status m)) = reason \<and> map (header_text M) (header_list m) = ps \<and>
    (rest \<noteq> [] \<longrightarrow> (\<forall>h \<in> set (header_list m). tok_ok M (hd_name h) \<and> tok_ok M (hd_value h))) \<and>
    tok_bytes M (content m) = body @ rest \<and> tsize (content m) = int (length body)"
proof -
  let ?n = "int (length ver + length code + length reason + 4)" and ?h = "int (length (print_headers ps))"
  obtain st where st: "parse_status_line M p mx = Some (?n, st)" "tok_text M (st_version st) = ver"
      "tok_text M (status_code st) = code" "tok_text M (reason_phrase st) = reason"
    using parse_status_line_pre [OF p v c re, of mx] mx p(2) by auto
  have b: "bytes_at M (padd p ?n) = print_headers ps @ CR # LF # body @ rest"
    by (rule bytes_padd_app [OF p(1), of _ "ver @ SP # code @ SP # reason @ [CR, LF]"]) (use p(2) in auto)
  obtain hl where hl: "map (header_text M) hl = ps"
      "parse_headers (\<lambda>_. True) M (padd p ?n) (out\<lparr>status := st\<rparr>) (mx - ?n) = Some (HTTP_SUCCESS,
        out\<lparr>status := st, header_list := hl, content := \<lparr>buff = Some (padd (padd p ?n) (?h + 2)),
          tsize = int (length body)\<rparr>\<rparr>)"
    using parse_headers_print [OF _ b hs, of "mx - ?n" "2 + int (length body)" "out\<lparr>status := st\<rparr>"]
      p(1) mx by auto
  have len: "mx \<le> int (length (bytes_at M p))" using mx p(2) by simp
  have "\<forall>h \<in> set hl. tok_ok M (hd_name h) \<and> tok_ok M (hd_value h)" if "rest \<noteq> []"
  proof -
    have l: "left M (padd p ?n) (mx - ?n)" using p(1) mx b that by (cases rest) (auto simp: left_def)
    have "headers_within p mx hl"
      using parse_headers_safe [of p ?n "mx - ?n" mx M "\<lambda>_. True" "out\<lparr>status := st\<rparr>"] p(1) l hl(2) by auto
    then show ?thesis using tok_within_ok [OF _ p(1) len] by (auto simp: headers_within_def)
  qed
  moreover have "bytes_at M (padd (padd p ?n) (?h + 2)) = body @ rest"
    by (rule bytes_padd_app [where xs = "print_headers ps @ [CR, LF]"]) (use p b in auto)
  ultimately show ?thesis
    using st hl by (simp add: parse_http_response_def tok_bytes_def)
qed

text \<open>
  Values that the description of \<^verbatim>\<open>parse_header_value\<close> leaves as they are: they do not end in a blank or a tab.
  The code keeps such an end as well (\<open>parse_header_value_keeps_trailing_space\<close>), because its loop for it starts at the CR.
\<close>

definition stripped_header :: "string \<times> string \<Rightarrow> bool" where
  "stripped_header h = (wf_header h \<and> (snd h = [] \<or> last (snd h) \<noteq> SP \<and> last (snd h) \<noteq> TAB))"

text \<open>
  C18. Round trip: on the printed form of a response (status line, header lines whose values neither begin nor end
  with white space, empty line, body) \<open>parse_http_response\<close> returns exactly its version, code, reason, headers
  and body.
\<close>

theorem parse_http_response_roundtrip:
  assumes p: "0 \<le> snd p" "bytes_at M p = ver @ SP # code @ SP # reason @ CR # LF #
      print_headers ps @ CR # LF # body @ rest"
    and v: "ver \<noteq> []" "SP \<notin> set ver" "TAB \<notin> set ver" and c: "code \<noteq> []" "SP \<notin> set code" "TAB \<notin> set code"
    and re: "CR \<notin> set reason" "reason = [] \<or> hd reason \<noteq> SP \<and> hd reason \<noteq> TAB"
    and hs: "\<forall>h \<in> set ps. stripped_header h"
    and mx: "mx = int (length ver + length code + length reason + 4 + length (print_headers ps) +
      2 + length body)"
  shows "\<exists>m. parse_http_response (\<lambda>_. True) M p out mx = Some (HTTP_SUCCESS, m) \<and>
    tok_text M (st_version (status m)) = ver \<and> tok_text M (status_code (status m)) = code \<and>
    tok_text M (reason_phrase (status m)) = reason \<and> map (header_text M) (header_list m) = ps \<and>
    tok_text M (content m) = body"
proof -
  have "\<forall>h \<in> set ps. wf_header h" using hs by (auto simp: stripped_header_def)
  then show ?thesis using parse_http_response_printed [OF p v c re _ mx, of out] by (auto simp: tok_text_def)
qed

lemma uric_stop_SP: "uric_scan (SP # ys) mx = Some 0"
proof -
  have "\<not> is_unreserved SP" "\<not> is_reserved SP"
    by (simp_all add: is_unreserved_def is_mark_def is_reserved_def MARK_def RESERVED_def
        ctype_defs Let_def)
  then show ?thesis by (auto simp: uric_go_def is_escaped_def split: if_splits)
qed

text \<open>An absolute path ends the URI at the blank that follows it.\<close>

lemma parse_uri_path:
  assumes p: "0 \<le> snd p" "bytes_at M p = path @ SP # r" "int (length path) < mx"
    and path: "path = CHR ''/'' # t" "t = [] \<or> hd t \<noteq> CHR ''/''"
      "\<forall>c \<in> set path. is_unreserved c \<or> is_reserved c"
  shows "\<exists>u. parse_uri M e p mx out = Some (HTTP_SUCCESS, u) \<and> utype u = RELATIVE \<and>
    path_type u = ABS_PATH \<and> pathquery u = \<lparr>buff = Some p, tsize = int (length path)\<rparr>"
proof -
  have rd0: "rd M p = Some (CHR ''/'')" using p(2) path(1) by (simp add: rd_def)
  have sch: "parse_scheme M p mx = Some (0, null_token)"
    using rd0 p(3) by (simp add: parse_scheme_def ctype_defs)
  have b1: "bytes_at M (padd p 1) = t @ SP # r"
    by (rule bytes_padd_app [OF p(1), of _ "[CHR ''/'']"]) (use p(2) path(1) in auto)
  have rd1: "\<exists>c. rd M (padd p 1) = Some c \<and> c \<noteq> CHR ''/''"
    using b1 path(2) by (cases t) (auto simp: rd_def)
  have b2: "bytes_at M (padd p (int (length path))) = SP # r"
    by (rule bytes_padd_app [OF p(1,2) refl])
  have "uric_scan (bytes_at M p) mx = Some (int (length path))"
    using p path(3) by (simp add: uric_app uric_stop_SP del: uric_scan.simps)
  then show ?thesis
    using rd0 rd1 sch b2 p(3)
    by (auto simp: parse_uri_def parse_path_def parse_uric_def Let_def next_is_def rd_def path(1))
qed

lemma parse_request_line_pre:
  assumes p: "0 \<le> snd p" "bytes_at M p = meth @ SP # path @ SP # ver @ CR # LF # r"
    and m: "meth \<noteq> []" "\<forall>c \<in> set meth. is_token_char c"
    and path: "path = CHR ''/'' # t" "t = [] \<or> hd t \<noteq> CHR ''/''"
      "\<forall>c \<in> set path. is_unreserved c \<or> is_reserved c"
    and ver: "CR \<notin> set ver" "ver = [] \<or> hd ver \<noteq> SP \<and> hd ver \<noteq> TAB"
    and mx: "int (length meth + length path + length ver + 4) \<le> mx" "mx \<le> int (length (bytes_at M p))"
  shows "\<exists>rq. parse_request_line M e p out mx =
      Some (int (length meth + length path + length ver + 4), rq) \<and>
    tok_text M (rq_method rq) = meth \<and> tok_text M (pathquery (request_uri rq)) = path \<and>
    tok_text M (rq_version rq) = ver"
proof -
  let ?v = "int (length meth)" and ?c = "int (length path)"
  have b1: "bytes_at M (padd p ?v) = SP # path @ SP # ver @ CR # LF # r"
    by (rule bytes_padd_app [OF p refl])
  have b2: "bytes_at M (padd p (?v + 1)) = path @ SP # ver @ CR # LF # r"
    by (rule bytes_padd_app [OF p(1), of _ "meth @ [SP]"]) (use p(2) in auto)
  have b3: "bytes_at M (padd p (?v + 1 + ?c)) = SP # ver @ CR # LF # r"
    by (rule bytes_padd_app [OF p(1), of _ "meth @ SP # path"]) (use p(2) in auto)
  have b4: "bytes_at M (padd p (?v + 1 + ?c + 1)) = ver @ CR # LF # r"
    by (rule bytes_padd_app [OF p(1), of _ "meth @ SP # path @ [SP]"]) (use p(2) in auto)
  have s1: "parse_token M p mx = Some (?v, \<lparr>buff = Some p, tsize = ?v\<rparr>)"
    by (rule parse_token_pre [OF p(2) m(2)]) (use mx in auto)
  have s2: "parse_LWS M (padd p ?v) (mx - ?v) = Some 1"
    using b1 mx path(1) by (auto intro!: parse_LWS_one)
  obtain u where u: "parse_uri M e (padd p (?v + 1)) (mx - (?v + 1)) (request_uri out) = Some (HTTP_SUCCESS, u)"
      "pathquery u = \<lparr>buff = Some (padd p (?v + 1)), tsize = ?c\<rparr>"
    using parse_uri_path [OF _ b2 _ path, of "mx - (?v + 1)" e "request_uri out"] p(1) mx by auto
  have "\<not> is_unreserved SP" "\<not> is_reserved SP" "\<not> is_unreserved TAB" "\<not> is_reserved TAB"
    by (simp_all add: is_unreserved_def is_mark_def is_reserved_def MARK_def RESERVED_def
        ctype_defs Let_def)
  then have "SP \<notin> set path" "TAB \<notin> set path" using path(3) by blast+
  then have s3: "parse_not_LWS M (padd p (?v + 1)) (mx - (?v + 1)) =
      Some (?c, \<lparr>buff = Some (padd p (?v + 1)), tsize = ?c\<rparr>)"
    by (rule parse_not_LWS_pre [OF b2]) (use mx in auto)
  have s4: "parse_LWS M (padd p (?v + 1 + ?c)) (mx - (?v + 1 + ?c)) = Some 1"
    using b3 ver(2) mx by (cases ver) (auto intro!: parse_LWS_one)
  have s5: "parse_http_line M (padd p (?v + 1 + ?c + 1)) (mx - (?v + 1 + ?c + 1)) =
      Some (int (length ver) + 2)"
    by (rule parse_http_line_pre [OF b4 ver(1)]) (use mx p(2) in auto)
  show ?thesis
    using s1 s2 s3 s4 s5 u m(1) tok_text_app [OF p(2)] tok_text_app [OF b2] tok_text_app [OF b4]
    by (simp add: parse_request_line_def Let_def add.commute add.left_commute)
qed

text \<open>
  Round trip: on the printed form of a request for an absolute path \<open>parse_http_request\<close>
  returns exactly its method, path, version, headers and body, whatever the resolver answers.
\<close>

theorem parse_http_request_roundtrip:
  assumes p: "0 \<le> snd p" "bytes_at M p = meth @ SP # path @ SP # ver @ CR # LF #
      print_headers ps @ CR # LF # body @ rest"
    and m: "meth \<noteq> []" "\<forall>c \<in> set meth. is_token_char c"
    and path: "path = CHR ''/'' # t" "t = [] \<or> hd t \<noteq> CHR ''/''"
      "\<forall>c \<in> set path. is_unreserved c \<or> is_reserved c"
    and ver: "CR \<notin> set ver" "ver = [] \<or> hd ver \<noteq> SP \<and> hd ver \<noteq> TAB"
    and hs: "\<forall>h \<in> set ps. wf_header h"
    and mx: "mx = int (length meth + length path + length ver + 4 + length (print_headers ps) +
      2 + length body)"
  shows "\<exists>msg. parse_http_request (\<lambda>_. True) M e p out mx = Some (HTTP_SUCCESS, msg) \<and>
    tok_text M (rq_method (request msg)) = meth \<and>
    tok_text M (pathquery (request_uri (request msg))) = path \<and>
    tok_text M (rq_version (request msg)) = ver \<and> map (header_text M) (header_list msg) = ps \<and>
    tok_text M (content msg) = body"
proof -
  let ?n = "int (length meth + length path + length ver + 4)" and ?h = "int (length (print_headers ps))"
  obtain rq where rq: "parse_request_line M e p (request out) mx = Some (?n, rq)"
      "tok_text M (rq_method rq) = meth" "tok_text M (pathquery (request_uri rq)) = path"
      "tok_text M (rq_version rq) = ver"
    using parse_request_line_pre [OF p m path ver, of mx e "request out"] mx p(2) by auto
  have b: "bytes_at M (padd p ?n) = print_headers ps @ CR # LF # body @ rest"
    by (rule bytes_padd_app [OF p(1), of _ "meth @ SP # path @ SP # ver @ [CR, LF]"]) (use p(2) in auto)
  obtain hl where hl: "map (header_text M) hl = ps"
      "parse_headers (\<lambda>_. True) M (padd p ?n) (out\<lparr>request := rq\<rparr>) (mx - ?n) = Some (HTTP_SUCCESS,
        out\<lparr>request := rq, header_list := hl, content := \<lparr>buff = Some (padd (padd p ?n) (?h + 2)),
          tsize = int (length body)\<rparr>\<rparr>)"
    using parse_headers_print [OF _ b hs, of "mx - ?n" "2 + int (length body)" "out\<lparr>request := rq\<rparr>"]
      p(1) mx by auto
  have "bytes_at M (padd (padd p ?n) (?h + 2)) = body @ rest"
    by (rule bytes_padd_app [where xs = "print_headers ps @ [CR, LF]"]) (use p b in auto)
  then show ?thesis
    using rq hl tok_text_app [of M "padd (padd p ?n) (?h + 2)" body rest]
    by (simp add: parse_http_request_def)
qed

section \<open>Edge cases\<close>

text \<open>
  A message that ends with its header lines and one stray byte is accepted, and its content
  token gets the size \<open>-1\<close>.
\<close>

theorem parse_headers_content_minus_one:
  assumes "0 \<le> snd f" "bytes_at M f = print_headers ps @ c # rest" "\<forall>h \<in> set ps. wf_header h"
    and "ml = int (length (print_headers ps)) + 1"
  shows "\<exists>m. parse_headers (\<lambda>_. True) M f out ml = Some (HTTP_SUCCESS, m) \<and>
    map (header_text M) (header_list m) = ps \<and> tsize (content m) = - 1"
  using parse_headers_print [OF assms(1-3), of ml 1 out] assms(4) by force

text \<open>
  The request line is accepted whatever \<open>parse_uri\<close> says of its URI: the result does not
  depend on the resolver, although \<open>parse_uri\<close> fails (with a negative code) when a host does
  not resolve.
\<close>

theorem parse_request_line_ignores_uri_errors:
  assumes "0 \<le> snd p" "0 \<le> mx" "mx + 1 \<le> int (length (bytes_at M p))"
  shows "map_option (\<lambda>(n, rq). (n, rq_method rq, rq_version rq)) (parse_request_line M e1 p out mx) =
    map_option (\<lambda>(n, rq). (n, rq_method rq, rq_version rq)) (parse_request_line M e2 p out mx)"
proof -
  have l: "left M p mx" using assms by (simp add: left_def)
  obtain n1 where n1: "parse_token M p mx = Some (n1, \<lparr>buff = Some p, tsize = n1\<rparr>)" "0 \<le> n1" "n1 \<le> mx"
    using parse_token_left [OF l] assms(2) by auto
  obtain n2 where n2: "parse_LWS M (padd p n1) (mx - n1) = Some n2" "0 \<le> n2" "n2 \<le> mx - n1"
    using parse_LWS_left [OF left_padd [OF l, of n1]] n1 by auto
  have lk: "left M (padd p (n1 + n2)) (mx - (n1 + n2))" using left_padd [OF l, of "n1 + n2"] n1 n2 by simp
  have "\<exists>u uri. parse_uri M e (padd p (n1 + n2)) (mx - (n1 + n2)) (request_uri out) = Some (u, uri) \<and> u \<noteq> 0" for e
    using parse_uri_shape [of "padd p (n1 + n2)" "mx - (n1 + n2)" M e "request_uri out"] lk n1 n2
    by (fastforce simp: left_def uri_error_def)
  then obtain u1 uri1 u2 uri2 where
    "parse_uri M e1 (padd p (n1 + n2)) (mx - (n1 + n2)) (request_uri out) = Some (u1, uri1)" "u1 \<noteq> 0"
    "parse_uri M e2 (padd p (n1 + n2)) (mx - (n1 + n2)) (request_uri out) = Some (u2, uri2)" "u2 \<noteq> 0"
    by metis
  then show ?thesis
    using n1(1) n2(1)
    by (cases "n1 = 0") (auto simp: parse_request_line_def Let_def option.map_comp o_def
      Option.bind_map_option map_option_bind split: bind_splits if_splits)
qed

section \<open>Header lookup\<close>

text \<open>Whether a header has the given name, up to the case of letters.\<close>

definition name_is :: "mem \<Rightarrow> string \<Rightarrow> http_header \<Rightarrow> bool" where
  "name_is M s h = (map tolower (tok_text M (hd_name h)) = map tolower s)"

lemma name_matches:
  assumes "tok_ok M t" "NUL \<notin> set s" "tsize t = int (length s)" "length s < 2 ^ 31"
  shows "\<exists>d. strncasecmp (s @ [NUL]) (tok_bytes M t) (size_t (tsize t)) = Some d \<and>
    (d = 0 \<longleftrightarrow> map tolower (tok_text M t) = map tolower s)"
proof -
  have "size_t (tsize t) = length s" using assms(3,4) by (simp add: size_t_nonneg)
  then show ?thesis
    using strncasecmp_eq [of "length s" "s @ [NUL]" "tok_bytes M t"] assms(1-3)
    by (auto simp: tok_ok_def tok_text_def)
qed

lemma search_list_find:
  assumes "\<forall>h \<in> set hs. tok_ok M (hd_name h)" "NUL \<notin> set s" "length s < 2 ^ 31"
  shows "search_list M hs s out = Some (case find (name_is M s) hs of
      None \<Rightarrow> (0, out) | Some h \<Rightarrow> (HTTP_SUCCESS, hd_value h))"
  using assms
proof (induction hs)
  case (Cons h hs)
  show ?case
  proof (cases "tsize (hd_name h) = int (length s)")
    case True
    then show ?thesis
      using Cons name_matches [of M "hd_name h" s] by (auto simp: name_is_def)
  next
    case False
    have "length (tok_text M (hd_name h)) = nat (tsize (hd_name h))" "0 \<le> tsize (hd_name h)"
      using Cons.prems(1) by (auto simp: tok_ok_def tok_text_def)
    then have "\<not> name_is M s h"
      using False by (auto simp: name_is_def dest: map_eq_imp_length_eq)
    then show ?thesis using False Cons by simp
  qed
qed simp

text \<open>
  \<open>search_for_header\<close> returns the value of the first header whose name matches up to case,
  and leaves its output alone when there is none.
\<close>

theorem search_for_header_first_match:
  assumes "\<forall>h \<in> set (header_list m). tok_ok M (hd_name h)" "NUL \<notin> set s" "length s < 2 ^ 31"
  shows "search_for_header M m s out = Some (case find (name_is M s) (header_list m) of
      None \<Rightarrow> (0, out) | Some h \<Rightarrow> (HTTP_SUCCESS, hd_value h))"
  unfolding search_for_header_def using assms by (rule search_list_find)

section \<open>Witnesses\<close>

definition blank_message :: http_message where
  "blank_message = \<lparr>
     status = \<lparr>st_version = null_token, status_code = null_token, reason_phrase = null_token\<rparr>,
     request = \<lparr>rq_version = null_token, request_uri = blank_uri, rq_method = null_token\<rparr>,
     header_list = [], content = null_token\<rparr>"

lemma wf_header_examples: "wf_header (''A'', ''b'')" "wf_header (''Nt'', [])"
  by (simp_all add: wf_header_def is_token_char_def ctype_defs SEPARATORS_def)

lemma parse_http_response_safe_witness:
  "\<exists>r m. parse_http_response (\<lambda>_. True) (one_obj ''HTTP/1.1 200 OK'') (0, 0) blank_message 14 = Some (r, m)"
  using parse_http_response_safe [of "(0, 0)" 14 "one_obj ''HTTP/1.1 200 OK''" "\<lambda>_. True" blank_message]
  by auto

lemma parse_http_request_safe_witness:
  "\<exists>r m. parse_http_request (\<lambda>_. True) (one_obj ''GET / HTTP/1.0'') easy_env (0, 0) blank_message 13
    = Some (r, m)"
  using parse_http_request_safe [of "(0, 0)" 13 "one_obj ''GET / HTTP/1.0''" "\<lambda>_. True" easy_env blank_message]
  by auto

lemma parse_http_response_roundtrip_witness:
  "\<exists>M m. bytes_at M (0, 0) = ''V 1 O'' @ CR # LF # print_headers [(''A'', ''b''), (''Nt'', [])] @ CR # LF # ''xy'' \<and>
    parse_http_response (\<lambda>_. True) M (0, 0) blank_message 23 = Some (HTTP_SUCCESS, m) \<and>
    map (header_text M) (header_list m) = [(''A'', ''b''), (''Nt'', [])] \<and> tok_text M (content m) = ''xy''"
proof -
  let ?b = "''V 1 O'' @ CR # LF # print_headers [(''A'', ''b''), (''Nt'', [])] @ CR # LF # ''xy''"
  have "\<exists>m. parse_http_response (\<lambda>_. True) (one_obj ?b) (0, 0) blank_message 23 = Some (HTTP_SUCCESS, m) \<and>
    tok_text (one_obj ?b) (st_version (status m)) = ''V'' \<and>
    tok_text (one_obj ?b) (status_code (status m)) = ''1'' \<and>
    tok_text (one_obj ?b) (reason_phrase (status m)) = ''O'' \<and>
    map (header_text (one_obj ?b)) (header_list m) = [(''A'', ''b''), (''Nt'', [])] \<and>
    tok_text (one_obj ?b) (content m) = ''xy''"
    by (rule parse_http_response_roundtrip [where rest = "[]"]) (simp_all add: wf_header_examples stripped_header_def)
  then show ?thesis by (intro exI [of _ "one_obj ?b"]) auto
qed

lemma parse_http_request_roundtrip_witness:
  "\<exists>M m. bytes_at M (0, 0) = ''G /p V'' @ CR # LF # print_headers [(''A'', ''b'')] @ CR # LF # ''xy'' \<and>
    parse_http_request (\<lambda>_. True) M easy_env (0, 0) blank_message 18 = Some (HTTP_SUCCESS, m) \<and>
    tok_text M (pathquery (request_uri (request m))) = ''/p''"
proof -
  let ?b = "''G /p V'' @ CR # LF # print_headers [(''A'', ''b'')] @ CR # LF # ''xy''"
  have "\<exists>m. parse_http_request (\<lambda>_. True) (one_obj ?b) easy_env (0, 0) blank_message 18 = Some (HTTP_SUCCESS, m) \<and>
    tok_text (one_obj ?b) (rq_method (request m)) = ''G'' \<and>
    tok_text (one_obj ?b) (pathquery (request_uri (request m))) = ''/p'' \<and>
    tok_text (one_obj ?b) (rq_version (request m)) = ''V'' \<and>
    map (header_text (one_obj ?b)) (header_list m) = [(''A'', ''b'')] \<and>
    tok_text (one_obj ?b) (content m) = ''xy''"
    by (rule parse_http_request_roundtrip [where rest = "[]" and t = "''p''"])
      (simp_all add: wf_header_examples is_token_char_def ctype_defs SEPARATORS_def is_unreserved_def
        is_reserved_def RESERVED_def)
  then show ?thesis by (intro exI [of _ "one_obj ?b"]) auto
qed

lemma parse_headers_content_minus_one_witness:
  "\<exists>m. parse_headers (\<lambda>_. True) (one_obj (print_headers [(''A'', ''b'')] @ ''x'')) (0, 0) blank_message 7
      = Some (HTTP_SUCCESS, m) \<and> tsize (content m) = - 1"
  using parse_headers_content_minus_one [of "(0, 0)" "one_obj (print_headers [(''A'', ''b'')] @ ''x'')"
      "[(''A'', ''b'')]" "CHR ''x''" "[]" 7 blank_message]
  by (auto simp: wf_header_examples)

lemma parse_request_line_ignores_uri_errors_witness:
  "map_option (\<lambda>(n, rq). (n, rq_method rq, rq_version rq))
      (parse_request_line (one_obj ''GET //h V'') easy_env (0, 0) (request blank_message) 8) =
    map_option (\<lambda>(n, rq). (n, rq_method rq, rq_version rq))
      (parse_request_line (one_obj ''GET //h V'') (easy_env\<lparr>gethostbyname := \<lambda>_. None\<rparr>) (0, 0)
        (request blank_message) 8)"
  by (rule parse_request_line_ignores_uri_errors) simp_all

lemma search_for_header_first_match_witness:
  "search_for_header (one_obj ''SidNt'') (blank_message\<lparr>header_list :=
      [\<lparr>hd_name = \<lparr>buff = Some (0, 0), tsize = 3\<rparr>, hd_value = null_token\<rparr>,
       \<lparr>hd_name = \<lparr>buff = Some (0, 3), tsize = 2\<rparr>, hd_value = \<lparr>buff = Some (0, 0), tsize = 1\<rparr>\<rparr>]\<rparr>)
    ''NT'' null_token = Some (HTTP_SUCCESS, \<lparr>buff = Some (0, 0), tsize = 1\<rparr>)"
  by (subst search_for_header_first_match)
    (simp_all add: tok_ok_def tok_bytes_def bytes_at_def one_obj_def name_is_def tok_text_def ctype_defs)

end
