(* ===== verification/C_Text.thy ===== *)
theory C_Text imports Prelude begin

text \<open>
  Numbers as text: \<^verbatim>\<open>strtol\<close>, \<^verbatim>\<open>atoi\<close> and \<^verbatim>\<open>%d\<close> of the C library, and the search for a
  substring, with the facts the HTTP, GENA and SSDP theories share.
\<close>

section \<open>Reading numbers\<close>

definition isspace :: "char \<Rightarrow> bool" where
  "isspace c = (c = SP \<or> (let n = (of_char c :: nat) in 9 \<le> n \<and> n \<le> 13))"

definition digit_val :: "char \<Rightarrow> int" where
  "digit_val c = (let n = int (of_char c) in
     if 97 \<le> n then n - 87 else if 65 \<le> n then n - 55 else n - 48)"

definition is_base_digit :: "int \<Rightarrow> char \<Rightarrow> bool" where
  "is_base_digit base c = (isxdigit c \<and> digit_val c < base)"

text \<open>
  \<^verbatim>\<open>strtol\<close> with a 64-bit \<^verbatim>\<open>long\<close>; \<open>None\<close> when no digit is found, so that the end pointer is
  the start.
\<close>

definition strtol :: "int \<Rightarrow> string \<Rightarrow> int option" where
  "strtol base s =
     (let s1 = dropWhile isspace s;
          neg = (s1 \<noteq> [] \<and> hd s1 = CHR ''-'');
          s2 = (if s1 \<noteq> [] \<and> (hd s1 = CHR ''-'' \<or> hd s1 = CHR ''+'') then tl s1 else s1);
          s3 = (if base = 16 \<and> 2 < length s2 \<and> hd s2 = CHR ''0'' \<and>
                  (s2 ! 1 = CHR ''x'' \<or> s2 ! 1 = CHR ''X'') \<and> is_base_digit 16 (s2 ! 2)
                then drop 2 s2 else s2);
          ds = takeWhile (is_base_digit base) s3;
          v = foldl (\<lambda>a c. a * base + digit_val c) 0 ds
      in if ds = [] then None
         else Some (max (- (2 ^ 63)) (min (2 ^ 63 - 1) (if neg then - v else v))))"

text \<open>Assigning a \<^verbatim>\<open>long\<close> to an \<^verbatim>\<open>int\<close>.\<close>

definition to_int :: "int \<Rightarrow> int" where
  "to_int n = sint (word_of_int n :: 32 word)"

lemma to_int_id [simp]: "0 \<le> n \<Longrightarrow> n < 2 ^ 31 \<Longrightarrow> to_int n = n"
  unfolding to_int_def by (simp add: sint_sbintrunc' signed_take_bit_int_eq_self)

lemma is_base_digit_dec: "is_base_digit 10 c \<longleftrightarrow> isdigit c"
  by (auto simp: is_base_digit_def digit_val_def isxdigit_def isdigit_def Let_def)

lemma strtol_zero:
  assumes "\<not> isdigit c"
  shows "strtol 10 (''0'' @ c # rest) = Some 0"
proof -
  have "takeWhile (is_base_digit 10) (''0'' @ c # rest) = ''0''"
    using assms by (simp add: is_base_digit_dec isdigit_def)
  moreover have "\<not> isspace (CHR ''0'')" "digit_val (CHR ''0'') = 0"
    by (simp_all add: isspace_def digit_val_def)
  ultimately show ?thesis by (simp add: strtol_def Let_def)
qed

text \<open>\<^verbatim>\<open>atoi\<close>: 0 when there is no number.\<close>

definition atoi :: "string \<Rightarrow> int" where
  "atoi s = (case strtol 10 s of None \<Rightarrow> 0 | Some v \<Rightarrow> to_int v)"

section \<open>Decimal numbers\<close>

function dec_nat :: "nat \<Rightarrow> string" where
  "dec_nat n = (if n < 10 then [char_of (48 + n)] else dec_nat (n div 10) @ [char_of (48 + n mod 10)])"
  by pat_completeness auto
termination by (relation "measure id") auto

declare dec_nat.simps [simp del]

text \<open>What \<^verbatim>\<open>%d\<close> prints.\<close>

definition dec_int :: "int \<Rightarrow> string" where
  "dec_int i = (if i < 0 then ''-'' @ dec_nat (nat (- i)) else dec_nat (nat i))"

lemma length_dec_nat: "0 < k \<Longrightarrow> n < 10 ^ k \<Longrightarrow> length (dec_nat n) \<le> k"
proof (induction n arbitrary: k rule: dec_nat.induct)
  case (1 n)
  show ?case
  proof (cases "n < 10")
    case False
    then obtain k' where k: "k = Suc k'" "0 < k'" using 1 by (cases k; cases "k - 1") auto
    have "length (dec_nat (n div 10)) \<le> k'"
      using 1 False k by (simp add: div_less_iff_less_mult mult.commute)
    then show ?thesis using False k by (subst dec_nat.simps) simp
  qed (use 1 in \<open>simp add: dec_nat.simps\<close>)
qed

lemma length_dec_int: "\<bar>i\<bar> < 10 ^ k \<Longrightarrow> 0 < k \<Longrightarrow> length (dec_int i) \<le> Suc k"
  using length_dec_nat [of k "nat \<bar>i\<bar>"]
  by (auto simp: dec_int_def nat_less_iff intro: le_SucI)

lemma dec_nat_long: "10 ^ k \<le> n \<Longrightarrow> k < length (dec_nat n)"
proof (induction n arbitrary: k rule: dec_nat.induct)
  case (1 n)
  show ?case
  proof (cases "n < 10")
    case True
    have "k = 0"
    proof (cases k)
      case (Suc j)
      have "10 * 1 \<le> 10 * (10::nat) ^ j" by (intro mult_le_mono2) simp
      also have "\<dots> \<le> n" using 1(2) Suc by simp
      finally show ?thesis using True by simp
    qed
    then show ?thesis using True by (simp add: dec_nat.simps)
  next
    case False
    show ?thesis
    proof (cases k)
      case (Suc j)
      then have "10 ^ j \<le> n div 10" using 1(2) by (simp add: less_eq_div_iff_mult_less_eq mult.commute)
      then have "j < length (dec_nat (n div 10))" using 1(1) False by simp
      then show ?thesis using False Suc by (subst dec_nat.simps) simp
    qed (use False in \<open>simp add: dec_nat.simps [of n]\<close>)
  qed
qed

section \<open>Building text\<close>

definition DQ :: char where "DQ = CHR 0x22"

definition CRLF :: string where "CRLF = [CR, LF]"

text \<open>Text written into an array or a block of \<open>sz\<close> bytes, which also holds the final NUL.\<close>

definition block_of :: "nat \<Rightarrow> string \<Rightarrow> string option" where
  "block_of sz s = (if sz < length s + 1 then None else Some s)"

text \<open>Equality up to case, as \<^verbatim>\<open>strcasecmp\<close> decides it.\<close>

definition same_nocase :: "string \<Rightarrow> string \<Rightarrow> bool" where
  "same_nocase s t = (map tolower s = map tolower t)"

section \<open>Substrings\<close>

text \<open>\<^verbatim>\<open>strstr\<close>: the position of the first occurrence.\<close>

fun strstr :: "string \<Rightarrow> string \<Rightarrow> nat option" where
  "strstr [] pat = (if pat = [] then Some 0 else None)"
| "strstr (c # cs) pat =
     (if take (length pat) (c # cs) = pat then Some 0 else map_option Suc (strstr cs pat))"

text \<open>Printing a number and reading it back.\<close>

lemma isdigit_char_of: "n < 10 \<Longrightarrow> isdigit (char_of (48 + n :: nat)) \<and> digit_val (char_of (48 + n :: nat)) = int n"
  by (simp add: isdigit_def digit_val_def)

lemma dec_nat_digits: "\<forall>c\<in>set (dec_nat n). isdigit c"
proof (induction n rule: dec_nat.induct)
  case (1 n)
  then show ?case using isdigit_char_of [of n] isdigit_char_of [of "n mod 10"]
    by (subst dec_nat.simps) auto
qed

lemma dec_nat_value: "foldl (\<lambda>a c. a * 10 + digit_val c) 0 (dec_nat n) = int n"
proof (induction n rule: dec_nat.induct)
  case (1 n)
  moreover have "int (n div 10) * 10 + int (n mod 10) = int n" by presburger
  ultimately show ?case using isdigit_char_of [of n] isdigit_char_of [of "n mod 10"]
    by (subst dec_nat.simps) auto
qed

lemma dec_nat_ne [simp]: "dec_nat n \<noteq> []"
  by (subst dec_nat.simps) simp

lemma isdigit_plain: "isdigit c \<Longrightarrow> \<not> isspace c \<and> c \<noteq> CHR ''-'' \<and> c \<noteq> CHR ''+''"
  by (auto simp: isdigit_def isspace_def Let_def)

lemma strtol_dec_nat:
  assumes "int n < 2 ^ 63" "rest = [] \<or> \<not> isdigit (hd rest)"
  shows "strtol 10 (dec_nat n @ rest) = Some (int n)"
proof -
  obtain c cs where d: "dec_nat n = c # cs" by (cases "dec_nat n") auto
  then have c: "isdigit c" using dec_nat_digits [of n] by simp
  have t: "takeWhile (is_base_digit 10) (dec_nat n @ rest) = dec_nat n"
    using dec_nat_digits [of n] assms(2)
    by (cases rest) (auto simp: is_base_digit_dec takeWhile_append)
  show ?thesis
    using t isdigit_plain [OF c] assms(1) dec_nat_value [of n] d
    by (simp add: strtol_def Let_def)
qed

lemma atoi_dec_nat: "int n < 2 ^ 31 \<Longrightarrow> rest = [] \<or> \<not> isdigit (hd rest) \<Longrightarrow> atoi (dec_nat n @ rest) = int n"
  by (simp add: atoi_def strtol_dec_nat)

end
