(* ===== verification/Http_Transfer.thy ===== *)
theory Http_Transfer imports Http_Resolve C_Text begin

text \<open>
  Exchanging messages over a socket (\<^verbatim>\<open>genlib/http_client/http_client.c\<close>, lines 1435 to
  2230): reads and writes with a time budget, reading a response into a chain of buffers, and the
  three functions that send a request and return the response.

  A socket is what the peer does to it: for reading, a list of segments that arrive after a delay
  (an empty one is the end of the stream) or a reset; for writing, a list of how many bytes the
  kernel takes after which delay.  When a list is used up, the peer stalls.  An outer \<open>None\<close> is a
  memory fault.
\<close>

section \<open>Sockets\<close>

datatype rd_ev = Seg nat string | Reset nat

datatype wr_ev = Takes nat nat | WErr nat

definition SOCKET_BUFFER_SIZE :: int where "SOCKET_BUFFER_SIZE = 5000"

definition RESPONSE_TIMEOUT :: int where "RESPONSE_TIMEOUT = 30"

text \<open>The result is the value returned, the bytes received, the socket and the time left.\<close>

definition read_timeout :: "rd_ev list \<Rightarrow> int \<Rightarrow> int \<Rightarrow> int \<times> string \<times> rd_ev list \<times> int" where
  "read_timeout q count timeout =
     (if timeout \<le> 0 then (- 1, [], q, timeout)
      else (case q of
          [] \<Rightarrow> (- 1, [], [], 0)
        | Reset d # r \<Rightarrow>
            if timeout \<le> int d then (- 1, [], Reset (d - nat timeout) # r, 0)
            else (- 1, [], Reset 0 # r, timeout - int d)
        | Seg d s # r \<Rightarrow>
            if timeout \<le> int d then (- 1, [], Seg (d - nat timeout) s # r, 0)
            else (let got = take (size_t count) s
              in (int (length got), got,
                  (if s = [] then Seg 0 [] # r
                   else if length s \<le> size_t count then r else Seg 0 (drop (size_t count) s) # r),
                  timeout - int d))))"

definition write_timeout :: "wr_ev list \<Rightarrow> string \<Rightarrow> int \<Rightarrow> int \<times> wr_ev list \<times> int" where
  "write_timeout w buf timeout =
     (if timeout \<le> 0 then (- 1, w, timeout)
      else (case w of
          [] \<Rightarrow> (- 1, [], 0)
        | WErr d # r \<Rightarrow> if timeout \<le> int d then (- 1, w, 0) else (- 1, w, timeout - int d)
        | Takes d k # r \<Rightarrow>
            if timeout \<le> int d then (- 1, w, 0)
            else (int (min k (length buf)), r, timeout - int d)))"

text \<open>
  The loop of \<^verbatim>\<open>readLine\<close>; \<open>n = max-1-count\<close>, \<open>acc\<close> is what was read.  The result is whether
  the last read failed, the line, the socket and the time left.
\<close>

fun read_chars :: "nat \<Rightarrow> rd_ev list \<Rightarrow> int \<Rightarrow> string \<Rightarrow> bool \<times> string \<times> rd_ev list \<times> int" where
  "read_chars 0 q t acc = (False, acc, q, t)"
| "read_chars (Suc n) q t acc =
     (case read_timeout q 1 t of (rc, got, q', t') \<Rightarrow>
        if rc = 1
        then (if hd got = LF then (False, acc @ got, q', t') else read_chars n q' t' (acc @ got))
        else (rc < 0, acc, q', t'))"

definition readLine :: "rd_ev list \<Rightarrow> int \<Rightarrow> int \<Rightarrow> int \<times> string \<times> rd_ev list \<times> int" where
  "readLine q mx timeout =
     (case read_chars (nat (mx - 1)) q timeout [] of (failed, line, q', t') \<Rightarrow>
        (if failed then - 1 else int (length line), line, q', t'))"

section \<open>Response headers\<close>

definition ci_prefix :: "string \<Rightarrow> string \<Rightarrow> bool" where
  "ci_prefix pat line = (strncasecmp pat (line @ [NUL]) (length pat) = Some 0)"

definition ends_crlf :: "string \<Rightarrow> bool" where
  "ends_crlf b = (2 \<le> length b \<and> b ! (length b - 1) = LF \<and> b ! (length b - 2) = CR)"

text \<open>
  The three tests on a header line: \<open>-3\<close> is no content so far, \<open>-2\<close> content of unknown length,
  \<open>-1\<close> chunked.
\<close>

definition content_length :: "string \<Rightarrow> int \<Rightarrow> int" where
  "content_length line cl =
     (let cl = (if ci_prefix ''CONTENT'' line \<and> cl = - 3 then - 2 else cl);
          cl = (if ci_prefix ''TRANSFER-ENCODING: CHUNKED'' line then - 1 else cl)
      in if ci_prefix ''CONTENT-LENGTH:'' line \<and> cl \<noteq> - 1
         then (case strtol 10 (drop 15 line) of None \<Rightarrow> 0 | Some v \<Rightarrow> to_int v)
         else cl)"

text \<open>Bytes that can still arrive: what the loops below consume.\<close>

fun avail :: "rd_ev list \<Rightarrow> nat" where
  "avail [] = 0"
| "avail (Seg d s # q) = length s + avail q"
| "avail (Reset d # q) = avail q"

lemma read_timeout_avail: "read_timeout q n t = (rc, got, q', t') \<Longrightarrow>
    avail q = length got + avail q' \<and> rc = (if rc < 0 then - 1 else int (length got)) \<and>
    (rc < 0 \<longrightarrow> got = [] ) \<and> length got \<le> size_t n"
  by (auto simp: read_timeout_def Let_def split: if_splits list.splits rd_ev.splits)

lemma read_chars_avail: "read_chars n q t acc = (f, line, q', t') \<Longrightarrow>
    \<exists>new. line = acc @ new \<and> avail q = length new + avail q' \<and> length new \<le> n"
proof (induction n q t acc arbitrary: f line q' t' rule: read_chars.induct)
  case (2 n q t acc)
  obtain rc got q1 t1 where r: "read_timeout q 1 t = (rc, got, q1, t1)" by (metis prod_cases4)
  note a = read_timeout_avail [OF r]
  have g: "length got \<le> 1" using a by (simp add: size_t_def)
  show ?case
  proof (cases "rc = 1 \<and> hd got \<noteq> LF")
    case True
    then have rest: "read_chars n q1 t1 (acc @ got) = (f, line, q', t')" using "2.prems" r by simp
    then obtain new where "line = (acc @ got) @ new" "avail q1 = length new + avail q'" "length new \<le> n"
      using "2.IH" [OF r [symmetric] refl refl _ _ rest] True by auto
    then show ?thesis using a g by (intro exI [of _ "got @ new"]) auto
  next
    case False
    then have "(line = acc @ got \<or> line = acc \<and> rc \<noteq> 1) \<and> q' = q1" using "2.prems" r by (auto split: if_splits)
    then show ?thesis using a g
    proof (elim conjE disjE)
      assume "line = acc" "rc \<noteq> 1" "q' = q1"
      moreover have "got = []" using a g \<open>rc \<noteq> 1\<close> by (cases got) (auto split: if_splits)
      ultimately show ?thesis using a by auto
    qed auto
  qed
qed auto

lemma readLine_avail: "readLine q mx t = (n, line, q', t') \<Longrightarrow>
    avail q = length line + avail q' \<and> (n = - 1 \<or> n = int (length line)) \<and> length line \<le> nat (mx - 1)"
  using read_chars_avail [of "nat (mx - 1)" q t "[]"]
  by (fastforce simp: readLine_def split: prod.splits if_splits)

text \<open>
  The loop of \<^verbatim>\<open>getHeaders\<close>: \<open>bufs\<close> are the buffers filled so far, the last of them
  \<^verbatim>\<open>prev\<close>.  \<open>Inl\<close> is an error return with the number of heap buffers that were freed; \<open>Inr\<close>
  holds the size, the content length, all buffers, the socket and the time left.  \<open>A k\<close> is the
  answer of the \<open>k\<close>-th \<^verbatim>\<open>malloc\<close> of a buffer.
\<close>

function headers_read ::
  "(nat \<Rightarrow> bool) \<Rightarrow> rd_ev list \<Rightarrow> int \<Rightarrow> string list \<Rightarrow> int \<Rightarrow> int \<Rightarrow>
     int \<times> nat + int \<times> int \<times> string list \<times> rd_ev list \<times> int" where
  "headers_read A q t bufs sz cl =
     (case readLine q SOCKET_BUFFER_SIZE t of (n, line, q', t') \<Rightarrow>
        if n < 0 then Inl (UPNP_E_SOCKET_READ, length bufs)
        else if n = 0 then Inr (sz, if cl = - 3 then 0 else cl, bufs @ [[]], q', t')
        else
          (let cont = ((hd line = SP \<or> hd line = TAB) \<and> bufs \<noteq> []);
               bufs1 = (if cont \<and> ends_crlf (last bufs)
                        then butlast bufs @ [take (length (last bufs) - 2) (last bufs)] else bufs);
               sz1 = (if cont then sz + n - 2 else sz + n);
               new_line = (bufs1 = [] \<or> ends_crlf (last bufs1));
               cl1 = (if new_line then content_length line cl else cl)
           in if new_line \<and> n = 2 \<and> hd line = CR
              then Inr (sz1, if cl1 = - 3 then 0 else cl1, bufs1 @ [line], q', t')
              else if \<not> A (length bufs) then Inl (UPNP_E_OUTOF_MEMORY, length bufs)
              else headers_read A q' t' (bufs1 @ [line]) sz1 cl1))"
  by pat_completeness auto
termination
proof (relation "measure (\<lambda>(A, q, t, bufs, sz, cl). avail q)", goal_cases)
  case (2 A q t bufs sz cl n y line ya q' t')
  then have "readLine q SOCKET_BUFFER_SIZE t = (n, line, q', t')" "0 < n" by auto
  then show ?case using readLine_avail by fastforce
qed simp

declare headers_read.simps [simp del]

definition getHeaders ::
  "(nat \<Rightarrow> bool) \<Rightarrow> rd_ev list \<Rightarrow> int \<Rightarrow> int \<times> nat + int \<times> int \<times> string list \<times> rd_ev list \<times> int" where
  "getHeaders A q timeout = headers_read A q timeout [] 0 (- 3)"

section \<open>Response bodies\<close>

text \<open>
  The size line of the next chunk, after the line end of the previous one; the result is the
  size, the socket and the time left.
\<close>

definition next_chunk :: "rd_ev list \<Rightarrow> int \<Rightarrow> int \<Rightarrow> int \<times> rd_ev list \<times> int" where
  "next_chunk q t chunk_size =
     (let (q, t) = (if chunk_size = 0
                    then (case readLine q SOCKET_BUFFER_SIZE t of (n, line, q', t') \<Rightarrow> (q', t'))
                    else (q, t))
      in (case readLine q SOCKET_BUFFER_SIZE t of (n, line, q', t') \<Rightarrow>
           (if 0 < n then (case strtol 16 line of None \<Rightarrow> 0 | Some v \<Rightarrow> to_int v) else 0, q', t')))"

lemma next_chunk_avail: "next_chunk q t c = (c', q', t') \<Longrightarrow> avail q' \<le> avail q"
  unfolding next_chunk_def Let_def
  by (auto split: if_splits prod.splits dest!: readLine_avail)

text \<open>
  The loop; \<open>Inl\<close> is the out of memory return, after the buffers were freed.  Receiving more than
  a buffer holds is a fault.
\<close>

function body_loop ::
  "(nat \<Rightarrow> bool) \<Rightarrow> int \<Rightarrow> int \<Rightarrow> string list \<Rightarrow> int \<Rightarrow> rd_ev list \<Rightarrow> int \<Rightarrow>
     (int + string list \<times> int) option" where
  "body_loop A cl chunk bufs sz q t =
     (let need = (cl = - 1 \<and> chunk \<le> 0);
          (c, q1, t1) = (if need then next_chunk q t chunk else (chunk, q, t))
      in if need \<and> c = 0 then Some (Inr (bufs, sz))
         else if \<not> A (length bufs - 1) then Some (Inl UPNP_E_OUTOF_MEMORY)
         else
           (let nextToRead =
              (if cl = - 1 then min c SOCKET_BUFFER_SIZE
               else if 0 < cl then min cl SOCKET_BUFFER_SIZE else SOCKET_BUFFER_SIZE)
            in (case read_timeout q1 nextToRead t1 of (rc, got, q2, t2) \<Rightarrow>
              if SOCKET_BUFFER_SIZE < int (length got) then None
              else if 0 < rc then
                (let cl' = (if 0 < cl then cl - rc else cl)
                 in if 0 < cl \<and> cl' = 0 then Some (Inr (bufs @ [got], sz + rc))
                    else body_loop A cl' (if cl' = - 1 then c - rc else c) (bufs @ [got])
                      (sz + rc) q2 t2)
              else Some (Inr (bufs @ [[]], sz)))))"
  by pat_completeness auto
termination
proof (relation "measure (\<lambda>(A, cl, chunk, bufs, sz, q, t). avail q)", goal_cases)
  case (2 A cl chunk bufs sz q t need x c y q1 t1 nextToRead rc yb got yc q2 t2 cl')
  have "avail q1 \<le> avail q"
    using 2(1-4) next_chunk_avail [of q t chunk c q1 t1] by (auto split: if_splits)
  moreover have "avail q2 < avail q1"
    using 2(8-12) read_timeout_avail [of q1 nextToRead t1 rc got q2 t2] by (auto split: if_splits)
  ultimately show ?case by simp
qed simp

declare body_loop.simps [simp del]

text \<open>
  Joining the buffers in a block of \<open>sz+1\<close> bytes, unless the size is an error; \<open>mem_ok\<close> is the answer of the unchecked
  \<^verbatim>\<open>malloc\<close>.
\<close>

definition concat_socket_buffers :: "string list \<Rightarrow> int \<Rightarrow> string option" where
  "concat_socket_buffers bufs cap =
     (let s = concat bufs in if int (length s) \<le> cap then Some s else None)"

definition finish_response :: "bool \<Rightarrow> string list \<Rightarrow> int \<Rightarrow> (int \<times> string option) option" where
  "finish_response mem_ok bufs sz =
     (if sz < 0 then Some (sz, None)
      else if \<not> mem_ok then None
      else do {
        s \<leftarrow> concat_socket_buffers bufs (sz + 1);
        Some (HTTP_SUCCESS, Some (take (nat sz) s)) })"

text \<open>
  On an error of \<^verbatim>\<open>getHeaders\<close> the buffers are freed a second time, a fault when there are any
  on the heap.
\<close>

definition read_http_response ::
  "(nat \<Rightarrow> bool) \<Rightarrow> bool \<Rightarrow> rd_ev list \<Rightarrow> int \<Rightarrow> (int \<times> string option) option" where
  "read_http_response A mem_ok q timeout =
     (case getHeaders A q timeout of
        Inl (err, freed) \<Rightarrow> if 0 < freed then None else Some (err, None)
      | Inr (sz, cl, bufs, q', t') \<Rightarrow>
          if 0 < sz \<and> cl \<noteq> 0
          then (case body_loop A cl (- 1) bufs sz q' t' of
              None \<Rightarrow> None
            | Some (Inl err) \<Rightarrow> Some (err, None)
            | Some (Inr (bufs', sz')) \<Rightarrow> finish_response mem_ok bufs' sz')
          else finish_response mem_ok bufs sz)"

section \<open>Sending\<close>

text \<open>
  The loop of \<^verbatim>\<open>write_bytes\<close>: it returns what the last \<^verbatim>\<open>send\<close> took, and the bytes the peer
  got.
\<close>

function write_loop :: "wr_ev list \<Rightarrow> string \<Rightarrow> int \<Rightarrow> int \<Rightarrow> string \<Rightarrow> int \<times> string" where
  "write_loop w bytes timeout last_written sent =
     (if bytes = [] then (last_written, sent)
      else (case write_timeout w bytes timeout of (k, w', t') \<Rightarrow>
        if k \<le> 0 then (- 1, sent)
        else write_loop w' (drop (nat k) bytes) t' k (sent @ take (nat k) bytes)))"
  by pat_completeness auto
termination
  by (relation "measure (\<lambda>(w, bytes, t, l, s). length bytes)") auto

declare write_loop.simps [simp del]

definition write_bytes :: "wr_ev list \<Rightarrow> string \<Rightarrow> int \<Rightarrow> int \<times> string" where
  "write_bytes w bytes timeout = write_loop w bytes timeout 0 []"

section \<open>What is read from a well-behaved peer\<close>

text \<open>
  A peer that sends its data in non-empty segments, slow enough or not, within the time: \<open>stream\<close>
  is the data, \<open>prompt\<close> the condition.
\<close>

fun stream :: "rd_ev list \<Rightarrow> string" where
  "stream [] = []"
| "stream (Seg d s # q) = s @ stream q"
| "stream (Reset d # q) = []"

fun prompt :: "rd_ev list \<Rightarrow> int \<Rightarrow> bool" where
  "prompt [] t = (0 < t)"
| "prompt (Seg d s # q) t = (s \<noteq> [] \<and> prompt q (t - int d))"
| "prompt (Reset d # q) t = False"

lemma prompt_time: "prompt q t \<Longrightarrow> 0 < t"
  by (induction q t rule: prompt.induct) auto

lemma read_timeout_prompt:
  assumes "prompt q t" "stream q \<noteq> []" "0 < n" "n < 2 ^ 64"
  obtains got q' t' where "read_timeout q n t = (int (length got), got, q', t')" "got \<noteq> []"
    "stream q = got @ stream q'" "prompt q' t'"
proof (cases q)
  case (Cons e r)
  then obtain d s where e: "e = Seg d s" "s \<noteq> []" "prompt r (t - int d)"
    using assms by (cases e) auto
  have t: "int d < t" "0 < t" using prompt_time [OF e(3)] by auto
  have n: "0 < size_t n" using assms(3,4) by (simp add: size_t_def)
  show thesis
  proof (rule that)
    show "read_timeout q n t = (int (length (take (size_t n) s)), take (size_t n) s,
        (if length s \<le> size_t n then r else Seg 0 (drop (size_t n) s) # r), t - int d)"
      using Cons e t by (simp add: read_timeout_def Let_def)
  qed (use Cons e n in \<open>auto\<close>)
qed (use assms in auto)

declare size_t_nonneg [simp]

lemma read_chars_prompt:
  assumes "prompt q t" "stream q = l @ LF # rest" "LF \<notin> set l" "length l < n"
  shows "\<exists>q' t'. read_chars n q t acc = (False, acc @ l @ [LF], q', t') \<and> stream q' = rest \<and> prompt q' t'"
  using assms
proof (induction n arbitrary: q t l acc)
  case (Suc n)
  obtain got q1 t1 where r: "read_timeout q 1 t = (int (length got), got, q1, t1)" "got \<noteq> []"
      "stream q = got @ stream q1" "prompt q1 t1"
    using read_timeout_prompt [of q t 1] Suc.prems by auto
  have "length got \<le> 1" using read_timeout_avail [OF r(1)] by simp
  then obtain c where c: "got = [c]" using r(2) by (cases got) auto
  show ?case
  proof (cases l)
    case Nil
    then show ?thesis using Suc.prems r c by auto
  next
    case (Cons a l')
    then have "c = a" "a \<noteq> LF" "stream q1 = l' @ LF # rest" using Suc.prems r c by auto
    then show ?thesis using Suc.IH [of q1 t1 l' "acc @ [c]"] Suc.prems Cons r c by auto
  qed
qed simp

definition text_line :: "string \<Rightarrow> bool" where
  "text_line l = (\<exists>b. l = b @ [LF] \<and> LF \<notin> set b \<and> int (length l) < SOCKET_BUFFER_SIZE)"

lemma readLine_prompt:
  assumes "prompt q t" "stream q = l @ rest" "text_line l"
  obtains q' t' where "readLine q SOCKET_BUFFER_SIZE t = (int (length l), l, q', t')"
    "stream q' = rest" "prompt q' t'"
proof -
  obtain b where b: "l = b @ [LF]" "LF \<notin> set b" "length b < nat (SOCKET_BUFFER_SIZE - 1)"
    using assms(3) by (auto simp: text_line_def SOCKET_BUFFER_SIZE_def)
  obtain q' t' where "read_chars (nat (SOCKET_BUFFER_SIZE - 1)) q t [] = (False, l, q', t')"
      "stream q' = rest" "prompt q' t'"
    using read_chars_prompt [of q t b rest "nat (SOCKET_BUFFER_SIZE - 1)" "[]"] assms b by auto
  then show thesis using that by (simp add: readLine_def)
qed

text \<open>Header lines: ended by CRLF, not empty, not continued.\<close>

definition header_line :: "string \<Rightarrow> bool" where
  "header_line l = (text_line l \<and> ends_crlf l \<and> l \<noteq> [CR, LF] \<and> hd l \<noteq> SP \<and> hd l \<noteq> TAB)"

text \<open>The content length that the header lines announce.\<close>

definition announced :: "string list \<Rightarrow> int" where
  "announced ls = (let cl = foldl (\<lambda>cl l. content_length l cl) (- 3) ls in if cl = - 3 then 0 else cl)"

lemma content_length_blank [simp]: "content_length [CR, LF] cl = cl"
  unfolding content_length_def ci_prefix_def by (simp add: strncasecmp.simps Let_def ) 

lemma text_line_blank [simp]: "text_line [CR, LF]"
  unfolding text_line_def by (rule exI [of _ "[CR]"]) (simp add: SOCKET_BUFFER_SIZE_def )

lemma headers_read_step:
  assumes "readLine q SOCKET_BUFFER_SIZE t = (int (length l), l, q', t')"
    and "header_line l" "bufs = [] \<or> ends_crlf (last bufs)" "A (length bufs)"
  shows "headers_read A q t bufs sz cl =
    headers_read A q' t' (bufs @ [l]) (sz + int (length l)) (content_length l cl)"
proof -
  have "2 \<le> length l" using assms(2) by (simp add: header_line_def ends_crlf_def)
  moreover have "\<not> (length l = 2 \<and> hd l = CR)"
  proof
    assume a: "length l = 2 \<and> hd l = CR"
    then obtain x y where "l = [x, y]" by (metis One_nat_def length_Suc_conv length_0_conv Suc_1)
    then show False using a assms(2) by (simp add: header_line_def ends_crlf_def)
  qed
  ultimately show ?thesis
    using assms by (subst headers_read.simps) (auto simp: Let_def header_line_def)
qed

lemma headers_read_lines:
  assumes "prompt q t" "stream q = concat ls @ rest" "\<forall>l\<in>set ls. header_line l"
    and "bufs = [] \<or> ends_crlf (last bufs)" "A = (\<lambda>_. True)"
  shows "\<exists>q' t'. headers_read A q t bufs sz cl =
      headers_read A q' t' (bufs @ ls) (sz + int (length (concat ls)))
        (foldl (\<lambda>cl l. content_length l cl) cl ls) \<and> prompt q' t' \<and> stream q' = rest"
  using assms
proof (induction ls arbitrary: q t bufs sz cl)
  case (Cons l ls)
  have l: "header_line l" "text_line l" using Cons.prems by (auto simp: header_line_def)
  obtain q1 t1 where r: "readLine q SOCKET_BUFFER_SIZE t = (int (length l), l, q1, t1)"
      "stream q1 = concat ls @ rest" "prompt q1 t1"
    using readLine_prompt [of q t l "concat ls @ rest"] Cons.prems l by auto
  have "ends_crlf (last (bufs @ [l]))" using l by (simp add: header_line_def)
  then obtain q' t' where "headers_read A q1 t1 (bufs @ [l]) (sz + int (length l)) (content_length l cl)
      = headers_read A q' t' ((bufs @ [l]) @ ls) (sz + int (length l) + int (length (concat ls)))
          (foldl (\<lambda>cl l. content_length l cl) (content_length l cl) ls)" "prompt q' t'" "stream q' = rest"
    using Cons.IH [OF r(3) r(2)] Cons.prems by (metis list.set_intros(2))
  then show ?case
    using headers_read_step [OF r(1) l(1), of bufs A sz cl] Cons.prems by (auto simp: add.assoc)
qed auto

lemma getHeaders_lines:
  assumes "prompt q t" "stream q = concat ls @ [CR, LF] @ rest" "\<forall>l\<in>set ls. header_line l"
  shows "\<exists>q' t'. getHeaders (\<lambda>_. True) q t =
      Inr (int (length (concat ls)) + 2, announced ls, ls @ [[CR, LF]], q', t') \<and>
    prompt q' t' \<and> stream q' = rest"
proof -
  obtain q1 t1 where h: "getHeaders (\<lambda>_. True) q t =
        headers_read (\<lambda>_. True) q1 t1 ls (int (length (concat ls))) (foldl (\<lambda>cl l. content_length l cl) (- 3) ls)"
      "prompt q1 t1" "stream q1 = [CR, LF] @ rest"
    using headers_read_lines [OF assms, where bufs = "[]" and A = "\<lambda>_. True" and sz = 0 and cl = "- 3"]
    by (auto simp: getHeaders_def)
  obtain q2 t2 where r: "readLine q1 SOCKET_BUFFER_SIZE t1 = (2, [CR, LF], q2, t2)"
      "stream q2 = rest" "prompt q2 t2"
    using readLine_prompt [OF h(2) h(3)] by auto
  have "ls = [] \<or> ends_crlf (last ls)" using assms(3) by (cases ls rule: rev_cases) (auto simp: header_line_def)
  then show ?thesis
    using h r by (subst h(1), subst headers_read.simps) (auto simp: Let_def announced_def )
qed

text \<open>One turn of the body loop that receives something.\<close>

lemma body_loop_read:
  assumes "cl = - 1 \<Longrightarrow> 0 < chunk" "read_timeout q nextToRead t = (int (length got), got, q', t')"
    and "nextToRead = (if cl = - 1 then min chunk SOCKET_BUFFER_SIZE
      else if 0 < cl then min cl SOCKET_BUFFER_SIZE else SOCKET_BUFFER_SIZE)"
    and "got \<noteq> []" "A = (\<lambda>_. True)"
  shows "body_loop A cl chunk bufs sz q t =
    (let rc = int (length got); cl' = (if 0 < cl then cl - rc else cl)
     in if 0 < cl \<and> cl' = 0 then Some (Inr (bufs @ [got], sz + rc))
        else body_loop A cl' (if cl' = - 1 then chunk - rc else chunk) (bufs @ [got]) (sz + rc) q' t')"
proof -
  have "0 < nextToRead" "nextToRead \<le> SOCKET_BUFFER_SIZE"
    using assms(1,3) by (auto simp: SOCKET_BUFFER_SIZE_def)
  then have "\<not> SOCKET_BUFFER_SIZE < int (length got)"
    using read_timeout_avail [OF assms(2)] by (simp add: SOCKET_BUFFER_SIZE_def) linarith
  then show ?thesis
    using assms by (subst body_loop.simps) (auto simp: Let_def)
qed

lemma read_part:
  assumes "prompt q t" "stream q = d @ rest" "d \<noteq> []" "n = min (int (length d)) SOCKET_BUFFER_SIZE"
  obtains got d' q' t' where "read_timeout q n t = (int (length got), got, q', t')" "got \<noteq> []"
    "d = got @ d'" "stream q' = d' @ rest" "prompt q' t'"
proof -
  have n: "0 < n" "n < 2 ^ 64" "n \<le> int (length d)"
    using assms(3,4) by (auto simp: SOCKET_BUFFER_SIZE_def)
  obtain got q' t' where r: "read_timeout q n t = (int (length got), got, q', t')" "got \<noteq> []"
      "stream q = got @ stream q'" "prompt q' t'"
    using read_timeout_prompt [of q t n] assms n by auto
  have "length got \<le> length d" using read_timeout_avail [OF r(1)] n by simp linarith
  then obtain us where "d = got @ us" "stream q' = us @ rest"
    using r(3) assms(2) by (auto simp: append_eq_append_conv2)
  then show thesis using that r by blast
qed

lemma body_loop_content:
  assumes "prompt q t" "stream q = body @ rest" "body \<noteq> []" "A = (\<lambda>_. True)"
  shows "\<exists>bs. body_loop A (int (length body)) chunk bufs sz q t =
      Some (Inr (bufs @ bs, sz + int (length body))) \<and> concat bs = body"
  using assms(1-3)
proof (induction body arbitrary: q t bufs sz rule: length_induct)
  case (1 body)
  obtain got d q1 t1 where r: "read_timeout q (min (int (length body)) SOCKET_BUFFER_SIZE) t = (int (length got), got, q1, t1)"
      "got \<noteq> []" "body = got @ d" "stream q1 = d @ rest" "prompt q1 t1"
    using read_part [OF 1(2-4) refl] .
  have pos: "0 < int (length got) + n" if "0 \<le> n" for n using r(2) that by (cases got) simp_all
  have step: "body_loop A (int (length body)) chunk bufs sz q t =
      (if d = [] then Some (Inr (bufs @ [got], sz + int (length got)))
       else body_loop A (int (length d)) chunk (bufs @ [got]) (sz + int (length got)) q1 t1)"
    using r(2,3) by (subst body_loop_read [OF _ r(1)]) (use assms(4) pos in \<open>auto simp: Let_def\<close>)
  show ?case
  proof (cases "d = []")
    case False
    moreover have "length d < length body" using r(2,3) by simp
    ultimately obtain bs where "body_loop A (int (length d)) chunk (bufs @ [got]) (sz + int (length got)) q1 t1
        = Some (Inr ((bufs @ [got]) @ bs, sz + int (length got) + int (length d)))" "concat bs = d"
      using 1(1) r(4,5) by blast
    then show ?thesis using step False r(3) by (intro exI [of _ "got # bs"]) (simp add: add.assoc)
  qed (use step r in \<open>auto intro!: exI [of _ "[got]"]\<close>)
qed

lemma body_loop_chunk_data:
  assumes "prompt q t" "stream q = d @ rest" "d \<noteq> []" "A = (\<lambda>_. True)"
  shows "\<exists>bs q' t'. body_loop A (- 1) (int (length d)) bufs sz q t =
      body_loop A (- 1) 0 (bufs @ bs) (sz + int (length d)) q' t' \<and>
    concat bs = d \<and> stream q' = rest \<and> prompt q' t'"
  using assms(1-3)
proof (induction d arbitrary: q t bufs sz rule: length_induct)
  case (1 d)
  obtain got d' q1 t1 where r: "read_timeout q (min (int (length d)) SOCKET_BUFFER_SIZE) t = (int (length got), got, q1, t1)"
      "got \<noteq> []" "d = got @ d'" "stream q1 = d' @ rest" "prompt q1 t1"
    using read_part [OF 1(2-4) refl] .
  have pos: "0 < int (length got) + n" if "0 \<le> n" for n using r(2) that by (cases got) simp_all
  have step: "body_loop A (- 1) (int (length d)) bufs sz q t =
      body_loop A (- 1) (int (length d')) (bufs @ [got]) (sz + int (length got)) q1 t1"
    using r(2,3) by (subst body_loop_read [OF _ r(1)]) (use assms(4) pos in \<open>auto simp: Let_def\<close>)
  show ?case
  proof (cases "d' = []")
    case False
    moreover have "length d' < length d" using r(2,3) by simp
    ultimately obtain bs q' t' where "body_loop A (- 1) (int (length d')) (bufs @ [got]) (sz + int (length got)) q1 t1
        = body_loop A (- 1) 0 ((bufs @ [got]) @ bs) (sz + int (length got) + int (length d')) q' t'"
        "concat bs = d'" "stream q' = rest" "prompt q' t'"
      using 1(1) r(4,5) by blast
    then show ?thesis using step r(3)
      by (intro exI [of _ "got # bs"] exI [of _ q'] exI [of _ t']) (simp add: add.assoc)
  qed (use step r in \<open>auto intro!: exI [of _ "[got]"] exI [of _ q1] exI [of _ t1]\<close>)
qed

lemma body_loop_next_chunk:
  assumes "chunk \<le> 0" "next_chunk q t chunk = (c, q1, t1)" "A = (\<lambda>_. True)"
  shows "0 < c \<Longrightarrow> body_loop A (- 1) chunk bufs sz q t = body_loop A (- 1) c bufs sz q1 t1"
    and "c = 0 \<Longrightarrow> body_loop A (- 1) chunk bufs sz q t = Some (Inr (bufs, sz))"
proof -
  show "body_loop A (- 1) chunk bufs sz q t = body_loop A (- 1) c bufs sz q1 t1" if "0 < c"
    using assms that by (subst (1 2) body_loop.simps) (simp add: Let_def)
  show "body_loop A (- 1) chunk bufs sz q t = Some (Inr (bufs, sz))" if "c = 0"
    using assms that by (subst body_loop.simps) (simp add: Let_def)
qed

text \<open>The framing of chunked content: size line, data, CRLF.\<close>

definition chunk_ok :: "string \<times> string \<Rightarrow> bool" where
  "chunk_ok c = (text_line (fst c) \<and> snd c \<noteq> [] \<and> length (snd c) < 2 ^ 31 \<and>
     strtol 16 (fst c) = Some (int (length (snd c))))"

definition framed :: "(string \<times> string) list \<Rightarrow> string" where
  "framed cs = concat (map (\<lambda>c. fst c @ snd c @ [CR, LF]) cs)"

lemma next_chunk_prompt:
  assumes "prompt q t" "stream q = (if chunk = 0 then [CR, LF] else []) @ l @ rest" "text_line l"
    and "strtol 16 l = Some n" "0 \<le> n" "n < 2 ^ 31"
  obtains q' t' where "next_chunk q t chunk = (n, q', t')" "stream q' = rest" "prompt q' t'"
proof -
  have l: "0 < length l" using assms(3) by (auto simp: text_line_def)
  show thesis
  proof (cases "chunk = 0")
    case True
    obtain q1 t1 where r1: "readLine q SOCKET_BUFFER_SIZE t = (2, [CR, LF], q1, t1)" "stream q1 = l @ rest" "prompt q1 t1"
      using readLine_prompt [OF assms(1), of "[CR, LF]" "l @ rest"] assms(2) True by auto
    obtain q2 t2 where "readLine q1 SOCKET_BUFFER_SIZE t1 = (int (length l), l, q2, t2)" "stream q2 = rest" "prompt q2 t2"
      using readLine_prompt [OF r1(3,2) assms(3)] .
    then show thesis using that r1 assms True l by (simp add: next_chunk_def)
  next
    case False
    obtain q2 t2 where "readLine q SOCKET_BUFFER_SIZE t = (int (length l), l, q2, t2)" "stream q2 = rest" "prompt q2 t2"
      using readLine_prompt [OF assms(1) _ assms(3)] assms(2) False by auto
    then show thesis using that assms False l by (simp add: next_chunk_def)
  qed
qed

lemma body_loop_chunks:
  assumes "prompt q t" "stream q = (if chunk = 0 then [CR, LF] else []) @ framed cs @ z @ rest" "chunk \<le> 0"
    and "\<forall>c\<in>set cs. chunk_ok c" "text_line z" "strtol 16 z = Some 0" "A = (\<lambda>_. True)"
  shows "\<exists>bs. body_loop A (- 1) chunk bufs sz q t =
      Some (Inr (bufs @ bs, sz + int (length (concat (map snd cs))))) \<and> concat bs = concat (map snd cs)"
  using assms(1-4)
proof (induction cs arbitrary: q t chunk bufs sz)
  case Nil
  then have "stream q = (if chunk = 0 then [CR, LF] else []) @ z @ rest" by (simp add: framed_def)
  then obtain q' t' where "next_chunk q t chunk = (0, q', t')"
    using next_chunk_prompt [OF Nil(1) _ assms(5,6), of chunk rest] by fastforce
  then show ?case using body_loop_next_chunk(2) Nil assms(7) by (auto intro!: exI [of _ "[]"])
next
  case (Cons c cs)
  have c: "text_line (fst c)" "snd c \<noteq> []" "int (length (snd c)) < 2 ^ 31"
      "strtol 16 (fst c) = Some (int (length (snd c)))"
    using Cons.prems by (auto simp: chunk_ok_def)
  obtain q1 t1 where n: "next_chunk q t chunk = (int (length (snd c)), q1, t1)"
      "stream q1 = snd c @ [CR, LF] @ framed cs @ z @ rest" "prompt q1 t1"
    using next_chunk_prompt [OF Cons.prems(1), of chunk "fst c" "snd c @ [CR, LF] @ framed cs @ z @ rest"]
      Cons.prems(2) c by (auto simp: framed_def)
  obtain bs q2 t2 where d: "body_loop A (- 1) (int (length (snd c))) bufs sz q1 t1 =
        body_loop A (- 1) 0 (bufs @ bs) (sz + int (length (snd c))) q2 t2"
      "concat bs = snd c" "stream q2 = [CR, LF] @ framed cs @ z @ rest" "prompt q2 t2"
    using body_loop_chunk_data [OF n(3,2) c(2) assms(7)] by blast
  obtain bs' where "body_loop A (- 1) 0 (bufs @ bs) (sz + int (length (snd c))) q2 t2 =
        Some (Inr ((bufs @ bs) @ bs', sz + int (length (snd c)) + int (length (concat (map snd cs)))))"
      "concat bs' = concat (map snd cs)"
    using Cons.IH [of q2 t2 0 "bufs @ bs"] d Cons.prems by auto
  then show ?case
    using body_loop_next_chunk(1) [OF Cons.prems(3) n(1) assms(7)] c(2) d
    by (intro exI [of _ "bs @ bs'"]) (simp add: add.assoc)
qed

section \<open>Properties of reading\<close>

lemma ends_crlf_last: "\<forall>l\<in>set ls. header_line l \<Longrightarrow> ls = [] \<or> ends_crlf (last ls)"
  by (cases ls rule: rev_cases) (auto simp: header_line_def)

lemma finish_response_exact:
  "concat bufs = s \<Longrightarrow> sz = int (length s) \<Longrightarrow> finish_response True bufs sz = Some (HTTP_SUCCESS, Some s)"
  by (simp add: finish_response_def concat_socket_buffers_def Let_def)

lemma read_http_response_content:
  assumes "prompt q t" "stream q = concat ls @ [CR, LF] @ body @ rest" "\<forall>l\<in>set ls. header_line l"
    and "announced ls = int (length body)"
  shows "read_http_response (\<lambda>_. True) True q t = Some (HTTP_SUCCESS, Some (concat ls @ [CR, LF] @ body))"
proof -
  obtain q' t' where h: "getHeaders (\<lambda>_. True) q t =
        Inr (int (length (concat ls)) + 2, announced ls, ls @ [[CR, LF]], q', t')"
      "prompt q' t'" "stream q' = body @ rest"
    using getHeaders_lines [OF assms(1-3)] by blast
  show ?thesis
  proof (cases "body = []")
    case True
    then show ?thesis using h assms(4) by (simp add: read_http_response_def finish_response_exact)
  next
    case False
    obtain bs where b: "body_loop (\<lambda>_. True) (int (length body)) (- 1) (ls @ [[CR, LF]])
          (int (length (concat ls)) + 2) q' t' =
        Some (Inr ((ls @ [[CR, LF]]) @ bs, int (length (concat ls)) + 2 + int (length body)))" "concat bs = body"
      using body_loop_content [OF h(2,3) False refl] by blast
    have "finish_response True ((ls @ [[CR, LF]]) @ bs) (int (length (concat ls)) + 2 + int (length body)) =
        Some (HTTP_SUCCESS, Some (concat ls @ [CR, LF] @ body))"
      using b(2) by (intro finish_response_exact) simp_all
    then show ?thesis using h assms(4) b(1) False by (simp add: read_http_response_def)
  qed
qed

text \<open>
  With a content length, \<open>read_http_response\<close> returns exactly the header section and as many
  bytes of content as the headers announce, however the peer splits the data and as long as it
  stays within the time; bytes after the content are left alone.
\<close>

theorem read_http_response_exact:
  assumes "prompt q t" "stream q = concat ls @ [CR, LF] @ body @ rest" "\<forall>l\<in>set ls. header_line l"
    and "announced ls = int (length body)"
  shows "read_http_response (\<lambda>_. True) True q t = Some (HTTP_SUCCESS, Some (concat ls @ [CR, LF] @ body))"
  by (rule read_http_response_content [OF assms])

lemma header_line_witness: "header_line (''CONTENT-LENGTH: 3'' @ [CR, LF])" "header_line (''HTTP/1.1 200 OK'' @ [CR, LF])"
  by (simp_all add: header_line_def text_line_def ends_crlf_def SOCKET_BUFFER_SIZE_def exI [of _ "''CONTENT-LENGTH: 3'' @ [CR]"]
    exI [of _ "''HTTP/1.1 200 OK'' @ [CR]"])

lemma announced_witness: "announced [''HTTP/1.1 200 OK'' @ [CR, LF], ''CONTENT-LENGTH: 3'' @ [CR, LF]] = 3"
  by code_simp

theorem read_http_response_exact_witness:
  "read_http_response (\<lambda>_. True) True
     [Seg 1 (''HTTP/1.1 200 OK'' @ [CR]), Seg 2 ([LF] @ ''CONTENT-LENGTH: 3'' @ [CR, LF, CR, LF] @ ''a''),
      Seg 0 ''bcd''] 30 =
   Some (HTTP_SUCCESS, Some (''HTTP/1.1 200 OK'' @ [CR, LF] @ ''CONTENT-LENGTH: 3'' @ [CR, LF, CR, LF] @ ''abc''))"
  using read_http_response_exact [where q = "[Seg 1 (''HTTP/1.1 200 OK'' @ [CR]),
      Seg 2 ([LF] @ ''CONTENT-LENGTH: 3'' @ [CR, LF, CR, LF] @ ''a''), Seg 0 ''bcd'']" and t = 30
      and ls = "[''HTTP/1.1 200 OK'' @ [CR, LF], ''CONTENT-LENGTH: 3'' @ [CR, LF]]" and body = "''abc''" and rest = "''d''"]
    header_line_witness announced_witness by simp

text \<open>
  C26. With chunked transfer encoding, \<open>read_http_response\<close> returns the header section and the
  joined data of the chunks up to the first of size 0: size lines and the CRLF after each chunk
  are removed, however the peer splits the data.  The comment of the function, which says that it only works with a
  content length and returns no content otherwise, is older than this part of the code.
\<close>

theorem read_http_response_dechunks:
  assumes "prompt q t" "stream q = concat ls @ [CR, LF] @ framed cs @ z @ rest" "\<forall>l\<in>set ls. header_line l"
    and "announced ls = - 1" "\<forall>c\<in>set cs. chunk_ok c" "text_line z" "strtol 16 z = Some 0"
  shows "read_http_response (\<lambda>_. True) True q t =
    Some (HTTP_SUCCESS, Some (concat ls @ [CR, LF] @ concat (map snd cs)))"
proof -
  obtain q' t' where h: "getHeaders (\<lambda>_. True) q t =
        Inr (int (length (concat ls)) + 2, announced ls, ls @ [[CR, LF]], q', t')"
      "prompt q' t'" "stream q' = framed cs @ z @ rest"
    using getHeaders_lines [OF assms(1-3)] by blast
  let ?n = "int (length (concat ls)) + 2"
  obtain bs where b: "body_loop (\<lambda>_. True) (- 1) (- 1) (ls @ [[CR, LF]]) ?n q' t' =
      Some (Inr ((ls @ [[CR, LF]]) @ bs, ?n + int (length (concat (map snd cs)))))"
      "concat bs = concat (map snd cs)"
    using body_loop_chunks [OF h(2) _ _ assms(5-7) refl, where chunk = "- 1" and rest = rest
        and bufs = "ls @ [[CR, LF]]" and sz = ?n] h(3) by auto
  have "finish_response True ((ls @ [[CR, LF]]) @ bs) (?n + int (length (concat (map snd cs)))) =
      Some (HTTP_SUCCESS, Some (concat ls @ [CR, LF] @ concat (map snd cs)))"
    using b(2) by (intro finish_response_exact) simp_all
  then show ?thesis using h assms(4) b(1) by (simp add: read_http_response_def)
qed

lemma chunk_ok_witness: "chunk_ok (''3'' @ [CR, LF], ''abc'')" "chunk_ok (''2;x'' @ [CR, LF], ''de'')"
  "text_line (''0'' @ [CR, LF])"
  unfolding chunk_ok_def text_line_def SOCKET_BUFFER_SIZE_def
  by (simp_all add: exI [of _ "''3'' @ [CR]"] exI [of _ "''2;x'' @ [CR]"] exI [of _ "''0'' @ [CR]"], code_simp+)

lemma chunked_header_witness: "header_line (''TRANSFER-ENCODING: CHUNKED'' @ [CR, LF])"
  "announced [''TRANSFER-ENCODING: CHUNKED'' @ [CR, LF]] = - 1" "strtol 16 (''0'' @ [CR, LF]) = Some 0"
  apply (simp add: header_line_def text_line_def ends_crlf_def SOCKET_BUFFER_SIZE_def
    exI [of _ "''TRANSFER-ENCODING: CHUNKED'' @ [CR]"])
  by code_simp+

theorem read_http_response_dechunks_witness:
  "read_http_response (\<lambda>_. True) True
     [Seg 3 (''TRANSFER-ENCODING: CHUNKED'' @ [CR, LF, CR, LF] @ ''3'' @ [CR, LF] @ ''ab''),
      Seg 4 (''c'' @ [CR, LF] @ ''2;x'' @ [CR, LF] @ ''de'' @ [CR, LF] @ ''0'' @ [CR, LF])] 30 =
   Some (HTTP_SUCCESS, Some (''TRANSFER-ENCODING: CHUNKED'' @ [CR, LF, CR, LF] @ ''abcde''))"
  using read_http_response_dechunks [where q = "[Seg 3 (''TRANSFER-ENCODING: CHUNKED'' @ [CR, LF, CR, LF] @ ''3'' @ [CR, LF] @ ''ab''),
      Seg 4 (''c'' @ [CR, LF] @ ''2;x'' @ [CR, LF] @ ''de'' @ [CR, LF] @ ''0'' @ [CR, LF])]" and t = 30
      and ls = "[''TRANSFER-ENCODING: CHUNKED'' @ [CR, LF]]" and z = "''0'' @ [CR, LF]" and rest = "[]"
      and cs = "[(''3'' @ [CR, LF], ''abc''), (''2;x'' @ [CR, LF], ''de'')]"]
    chunk_ok_witness chunked_header_witness by (simp add: framed_def)

section \<open>Faults on errors and on hostile responses\<close>

text \<open>
  When the peer stops sending in the middle of the header section, after at least one header
  line, \<open>read_http_response\<close> frees the header buffers a second time (\<open>getHeaders\<close> has freed them
  already): instead of the documented \<open>UPNP_E_SOCKET_READ\<close> there is a memory fault.
\<close>

theorem read_http_response_double_free:
  assumes "prompt q t" "stream q = concat ls" "\<forall>l\<in>set ls. header_line l" "ls \<noteq> []"
  shows "read_http_response (\<lambda>_. True) mem_ok q t = None"
proof -
  obtain q1 t1 where h: "getHeaders (\<lambda>_. True) q t =
        headers_read (\<lambda>_. True) q1 t1 ls (int (length (concat ls))) (foldl (\<lambda>cl l. content_length l cl) (- 3) ls)"
      "prompt q1 t1" "stream q1 = []"
    using headers_read_lines [of q t ls "[]" "[]" "\<lambda>_. True" 0 "- 3"] assms by (auto simp: getHeaders_def)
  have "q1 = []" using h(2,3) by (cases "(q1, t1)" rule: prompt.cases) auto
  then have "\<exists>t2. readLine q1 SOCKET_BUFFER_SIZE t1 = (- 1, [], [], t2)"
    using prompt_time [OF h(2)]
    by (simp add: readLine_def read_timeout_def SOCKET_BUFFER_SIZE_def numeral_eq_Suc)
  then have "getHeaders (\<lambda>_. True) q t = Inl (UPNP_E_SOCKET_READ, length ls)"
    using h(1) by (subst h(1), subst headers_read.simps) auto
  then show ?thesis using assms(4) by (simp add: read_http_response_def)
qed

theorem read_http_response_double_free_witness:
  "read_http_response (\<lambda>_. True) True [Seg 0 (''HTTP/1.1 200 OK'' @ [CR, LF])] 30 = None"
  using read_http_response_double_free [where q = "[Seg 0 (''HTTP/1.1 200 OK'' @ [CR, LF])]" and t = 30
      and ls = "[''HTTP/1.1 200 OK'' @ [CR, LF]]" and mem_ok = True] header_line_witness by simp

text \<open>A continuation after a line that ends in a bare LF: one byte too many for the block.\<close>

lemma continuation_overflow:
  "read_http_response (\<lambda>_. True) True [Seg 0 (''A'' @ [LF] @ '' B'' @ [CR, LF, CR, LF])] 30 = None"
  by code_simp

lemma strtol_minus_one: "strtol 16 (''-1'' @ [CR, LF]) = Some (- 1)" "to_int (- 1) = - 1"
  by code_simp+

text \<open>
  A chunk of size \<open>-1\<close> makes \<open>read_http_response\<close> receive without a bound into a buffer of
  \<open>SOCKET_BUFFER_SIZE\<close> bytes: any longer segment after the size line overflows it.
\<close>

theorem read_http_response_chunk_overflow:
  assumes "5000 < length d" "length d < 2 ^ 63"
  shows "read_http_response (\<lambda>_. True) mem_ok
    [Seg 0 (''TRANSFER-ENCODING: CHUNKED'' @ [CR, LF, CR, LF] @ ''-1'' @ [CR, LF]), Seg 0 d] 30 = None"
proof -
  let ?ls = "[''TRANSFER-ENCODING: CHUNKED'' @ [CR, LF], [CR, LF]]"
  have h: "getHeaders (\<lambda>_. True)
      [Seg 0 (''TRANSFER-ENCODING: CHUNKED'' @ [CR, LF, CR, LF] @ ''-1'' @ [CR, LF]), Seg 0 d] 30 =
    Inr (30, - 1, ?ls, [Seg 0 (''-1'' @ [CR, LF]), Seg 0 d], 30)"
    by code_simp
  have n: "next_chunk [Seg 0 (''-1'' @ [CR, LF]), Seg 0 d] 30 (- 1) = (- 1, [Seg 0 d], 30)"
    by code_simp
  have "d \<noteq> []" "length d \<le> size_t (- 1)" using assms by (auto simp: size_t_def)
  then have r: "read_timeout [Seg 0 d] (- 1) 30 = (int (length d), d, [], 30)"
    by (simp add: read_timeout_def)
  have "body_loop (\<lambda>_. True) (- 1) (- 1) ?ls 30 [Seg 0 (''-1'' @ [CR, LF]), Seg 0 d] 30 = None"
    using n r assms(1) by (subst body_loop.simps) (simp add: SOCKET_BUFFER_SIZE_def)
  then show ?thesis using h by (simp add: read_http_response_def)
qed

theorem read_http_response_chunk_overflow_witness:
  "read_http_response (\<lambda>_. True) True
    [Seg 0 (''TRANSFER-ENCODING: CHUNKED'' @ [CR, LF, CR, LF] @ ''-1'' @ [CR, LF]),
     Seg 0 (replicate 6000 (CHR ''x''))] 30 = None"
  by (rule read_http_response_chunk_overflow) simp_all

section \<open>Properties of writing\<close>

lemma write_loop_all:
  "write_loop w bytes t l s = (k, out) \<Longrightarrow> \<exists>rest::string. out = s @ take (length bytes - length rest) bytes \<and>
     length rest \<le> length bytes \<and> (k \<noteq> - 1 \<longrightarrow> rest = []) \<and> (bytes \<noteq> [] \<longrightarrow> k \<noteq> - 1 \<longrightarrow> 0 < k \<and> k \<le> int (length bytes)) \<and>
     (bytes = [] \<longrightarrow> k = l)"
proof (induction w bytes t l s rule: write_loop.induct)
  case (1 w bytes t l s)
  show ?case
  proof (cases "bytes = []")
    case True
    then show ?thesis using "1.prems" by (subst (asm) write_loop.simps) auto
  next
    case False
    obtain n w' t' where n: "write_timeout w bytes t = (n, w', t')" by (metis prod_cases3)
    show ?thesis
    proof (cases "n \<le> 0")
      case True
      then show ?thesis using "1.prems" False n by (subst (asm) write_loop.simps) (auto intro: exI [of _ bytes])
    next
      case pos: False
      have len: "n \<le> int (length bytes)" using n by (auto simp: write_timeout_def split: if_splits list.splits wr_ev.splits)
      have "write_loop w' (drop (nat n) bytes) t' n (s @ take (nat n) bytes) = (k, out)"
        using "1.prems" False n pos by (subst (asm) write_loop.simps) simp
      from "1.IH" [OF False n [symmetric] refl pos this] obtain rest :: string where
        r: "out = (s @ take (nat n) bytes) @ take (length bytes - nat n - length rest) (drop (nat n) bytes)"
          "length rest \<le> length bytes - nat n" "k \<noteq> - 1 \<longrightarrow> rest = []"
          "drop (nat n) bytes \<noteq> [] \<longrightarrow> k \<noteq> - 1 \<longrightarrow> 0 < k \<and> k \<le> int (length bytes - nat n)"
          "drop (nat n) bytes = [] \<longrightarrow> k = n" by auto
      have "take (nat n) bytes @ take (length bytes - nat n - length rest) (drop (nat n) bytes) =
          take (length bytes - length rest) bytes"
        using r(2) len pos by (simp add: take_add [symmetric])
      then show ?thesis using r len pos False by (intro exI [of _ rest]) auto
    qed
  qed
qed

lemma write_bytes_sent: "write_bytes w bytes t = (k, sent) \<Longrightarrow> k \<noteq> - 1 \<Longrightarrow> sent = bytes"
  using write_loop_all [of w bytes t 0 "[]" k sent] by (auto simp: write_bytes_def)

lemma write_bytes_prefix: "write_bytes w bytes t = (k, sent) \<Longrightarrow> \<exists>n. sent = take n bytes"
  using write_loop_all [of w bytes t 0 "[]" k sent] by (auto simp: write_bytes_def)

text \<open>A peer that takes the bytes in parts of the given sizes.\<close>

lemma write_loop_parts:
  assumes "\<forall>n\<in>set ns. 0 < n" "sum_list ns = length bytes" "0 < t"
  shows "write_loop (map (Takes 0) ns) bytes t l s =
    (if ns = [] then l else int (last ns), s @ bytes)"
  using assms
proof (induction ns arbitrary: bytes l s)
  case (Cons n ns)
  then have n: "0 < n" "n \<le> length bytes" "bytes \<noteq> []" "sum_list ns = length (drop n bytes)" by auto
  show ?case using Cons n
    by (subst write_loop.simps) (simp add: write_timeout_def min_absorb1)
qed (simp add: write_loop.simps)

text \<open>
  \<open>write_bytes\<close> sends everything when the peer takes it in parts, but what it returns is the
  size of the last part, not the number of bytes sent that its comment promises.
\<close>

theorem write_bytes_returns_last_part:
  assumes "\<forall>n\<in>set ns. 0 < n" "sum_list ns = length bytes" "0 < t" "ns \<noteq> []"
  shows "write_bytes (map (Takes 0) ns) bytes t = (int (last ns), bytes)"
  using assms by (simp add: write_bytes_def write_loop_parts)

theorem write_bytes_returns_last_part_witness:
  "write_bytes [Takes 0 3, Takes 0 2] ''hello'' 30 = (2, ''hello'')"
  using write_bytes_returns_last_part [where ns = "[3, 2]" and bytes = "''hello''" and t = 30] by simp

section \<open>Transfers\<close>

text \<open>
  What the network and the allocator do to one transfer: whether a socket is available, which
  addresses accept a connection, how the peer reads and writes, and which allocations succeed.
\<close>

record net =
  socket_ok :: bool
  connect_ok :: "sockaddr_in \<Rightarrow> bool"
  takes :: "wr_ev list"
  sends :: "rd_ev list"
  message_ok :: "int \<Rightarrow> bool"
  buffer_ok :: "nat \<Rightarrow> bool"
  out_ok :: bool

text \<open>
  From \<^verbatim>\<open>socket\<close> to \<^verbatim>\<open>close\<close>: connect, write the message, read the response.  The result is the
  code, the output and the bytes the peer got.
\<close>

definition exchange :: "net \<Rightarrow> sockaddr_in \<Rightarrow> string \<Rightarrow> (int \<times> string option \<times> string) option" where
  "exchange n addr message =
     (if \<not> socket_ok n then Some (UPNP_E_OUTOF_SOCKET, None, [])
      else if \<not> connect_ok n addr then Some (UPNP_E_SOCKET_CONNECT, None, [])
      else (case write_bytes (takes n) message RESPONSE_TIMEOUT of (k, sent) \<Rightarrow>
        if k = - 1 then Some (UPNP_E_SOCKET_WRITE, None, sent)
        else do {
          (code, out) \<leftarrow> read_http_response (buffer_ok n) (out_ok n) (sends n) RESPONSE_TIMEOUT;
          Some (code, out, sent) }))"

text \<open>The source of a \<^verbatim>\<open>memcpy\<close> of \<open>n\<close> bytes.\<close>

definition memcpy_from :: "string \<Rightarrow> int \<Rightarrow> string option" where
  "memcpy_from s n = (if size_t n \<le> length s then Some (take (size_t n) s) else None)"

text \<open>The two tests that both transfer functions make on the parsed URL.\<close>

definition http_url :: "mem \<Rightarrow> uri_type \<Rightarrow> bool option" where
  "http_url M u = do {
     c \<leftarrow> token_string_casecmp M (scheme u) ''http'';
     Some (c = 0 \<and> tsize (hp_text (hostport u)) \<noteq> 0) }"

definition transferHTTPparsedURL ::
  "mem \<Rightarrow> net \<Rightarrow> string \<Rightarrow> string \<Rightarrow> int \<Rightarrow> uri_type \<Rightarrow> (int \<times> string option \<times> string) option" where
  "transferHTTPparsedURL M n request toSend toSendSize u = do {
     ok \<leftarrow> http_url M u;
     if \<not> ok then Some (UPNP_E_INVALID_URL, None, [])
     else do {
       let (path_bytes, path_size) =
         (if tsize (pathquery u) = 0 then (''/'', 1) else (tok_bytes M (pathquery u), tsize (pathquery u)));
       let request_length = int (length request) + 1 + path_size + 8 + 1 + 2;
       let host_length = 6 + tsize (hp_text (hostport u)) + 2;
       let message_size = request_length + host_length + toSendSize;
       if \<not> message_ok n message_size then Some (UPNP_E_OUTOF_MEMORY, None, [])
       else do {
         path \<leftarrow> memcpy_from path_bytes path_size;
         is_get \<leftarrow> strncasecmp (request @ [NUL]) (''GET'' @ [NUL]) (length request + 1);
         host \<leftarrow> memcpy_from (tok_bytes M (hp_text (hostport u))) (tsize (hp_text (hostport u)));
         body \<leftarrow> memcpy_from toSend toSendSize;
         let message = request @ [SP] @ path @
           (if is_get = 0 then '' HTTP/1.0'' else '' HTTP/1.1'') @ [CR, LF] @ ''HOST: '' @
           host @ [CR, LF] @ body;
         if message_size < int (length message) then None
         else exchange n (IPv4address (hostport u)) message } } }"

definition transferHTTP ::
  "mem \<Rightarrow> env \<Rightarrow> uri_type \<Rightarrow> net \<Rightarrow> string \<Rightarrow> string \<Rightarrow> int \<Rightarrow> ptr \<Rightarrow> (int \<times> string option \<times> string) option" where
  "transferHTTP M e u0 n request toSend toSendSize Url = do {
     len \<leftarrow> strlen (bytes_at M Url);
     (code, u) \<leftarrow> parse_uri M e Url len u0;
     if code = HTTP_SUCCESS then transferHTTPparsedURL M n request toSend toSendSize u
     else Some (code, None, []) }"

definition transferHTTPRaw ::
  "mem \<Rightarrow> env \<Rightarrow> uri_type \<Rightarrow> net \<Rightarrow> string \<Rightarrow> int \<Rightarrow> ptr \<Rightarrow> (int \<times> string option \<times> string) option" where
  "transferHTTPRaw M e u0 n toSend toSendSize Url = do {
     len \<leftarrow> strlen (bytes_at M Url);
     (code, u) \<leftarrow> parse_uri M e Url len u0;
     if code = HTTP_SUCCESS
     then do {
       ok \<leftarrow> http_url M u;
       if \<not> ok then Some (UPNP_E_INVALID_URL, None, [])
       else do {
         message \<leftarrow> memcpy_from toSend toSendSize;
         exchange n (IPv4address (hostport u)) message } }
     else Some (code, None, []) }"

section \<open>Properties of transfers\<close>

definition small_token :: "mem \<Rightarrow> token \<Rightarrow> bool" where
  "small_token M t = (tok_ok M t \<and> tsize t < 2 ^ 31)"

lemma memcpy_from_token: "small_token M t \<Longrightarrow> memcpy_from (tok_bytes M t) (tsize t) = Some (tok_text M t)"
  by (auto simp: small_token_def tok_ok_def memcpy_from_def tok_text_def)

lemma memcpy_from_all: "length s < 2 ^ 31 \<Longrightarrow> memcpy_from s (int (length s)) = Some s"
  by (simp add: memcpy_from_def)

lemma length_tok_text: "small_token M t \<Longrightarrow> int (length (tok_text M t)) = tsize t"
  by (auto simp: small_token_def tok_ok_def tok_text_def)

text \<open>The request that is meant to be sent.\<close>

definition request_message :: "mem \<Rightarrow> string \<Rightarrow> uri_type \<Rightarrow> string \<Rightarrow> string" where
  "request_message M request u rest =
     request @ [SP] @ (if tsize (pathquery u) = 0 then ''/'' else tok_text M (pathquery u)) @
     (if map tolower request = map tolower ''GET'' then '' HTTP/1.0'' else '' HTTP/1.1'') @ [CR, LF] @
     ''HOST: '' @ tok_text M (hp_text (hostport u)) @ [CR, LF] @ rest"

lemma tolower_ends: "tolower NUL = 0" "0 = tolower a \<longleftrightarrow> a = NUL"
  using tolower_NUL [of a] tolower_NUL [of NUL] by auto

lemma strncasecmp_strings: "NUL \<notin> set a \<Longrightarrow> NUL \<notin> set b \<Longrightarrow>
    \<exists>r. strncasecmp (a @ [NUL]) (b @ [NUL]) (length a + 1) = Some r \<and> (r = 0 \<longleftrightarrow> map tolower a = map tolower b)"
proof (induction a arbitrary: b)
  case Nil
  then show ?case by (cases b) (auto simp: tolower_ends)
next
  case (Cons x a)
  then show ?case by (cases b) (auto simp: tolower_ends)
qed

lemma transferHTTPparsedURL_sends:
  assumes "http_url M u = Some True" "small_token M (pathquery u)" "small_token M (hp_text (hostport u))"
    and "NUL \<notin> set request" "length toSend < 2 ^ 31" "message_ok n = (\<lambda>_. True)"
  shows "transferHTTPparsedURL M n request toSend (int (length toSend)) u =
    exchange n (IPv4address (hostport u)) (request_message M request u toSend)"
proof -
  obtain r where r: "strncasecmp (request @ [NUL]) (''GET'' @ [NUL]) (length request + 1) = Some r"
      "r = 0 \<longleftrightarrow> map tolower request = map tolower ''GET''"
    using strncasecmp_strings [of request "''GET''"] assms(4) by auto
  have path: "memcpy_from (fst (if tsize (pathquery u) = 0 then (''/'', 1) else (tok_bytes M (pathquery u), tsize (pathquery u))))
      (snd (if tsize (pathquery u) = 0 then (''/'', 1) else (tok_bytes M (pathquery u), tsize (pathquery u)))) =
      Some (if tsize (pathquery u) = 0 then ''/'' else tok_text M (pathquery u))"
    using memcpy_from_token [OF assms(2)] memcpy_from_all [of "''/''"] by simp
  show ?thesis
    unfolding transferHTTPparsedURL_def request_message_def
    using r(1) path memcpy_from_token [OF assms(3)] memcpy_from_all [OF assms(5)]
      length_tok_text [OF assms(2)] length_tok_text [OF assms(3)] assms(1,6)
    by (auto simp: Let_def r(2) split: if_splits)
qed

lemma exchange_spec:
  assumes "socket_ok n" "connect_ok n addr" "takes n = map (Takes 0) ns" "\<forall>k\<in>set ns. 0 < k"
    and "sum_list ns = length message" "ns \<noteq> []"
  shows "exchange n addr message = map_option (\<lambda>(code, out). (code, out, message))
    (read_http_response (buffer_ok n) (out_ok n) (sends n) RESPONSE_TIMEOUT)"
  using assms
  by (cases "read_http_response (buffer_ok n) (out_ok n) (sends n) RESPONSE_TIMEOUT")
    (auto simp: exchange_def write_bytes_def write_loop_parts RESPONSE_TIMEOUT_def)

text \<open>
  C17. \<open>transferHTTPparsedURL\<close> sends exactly the request line, the host line and the caller's bytes
  (path \<open>/\<close> when the URL has none, HTTP/1.0 for GET so that the server gives a content length,
  1.1 otherwise), in a message of the computed size, and returns the complete response, however
  the peer splits what it takes and what it sends.
\<close>

theorem transferHTTPparsedURL_exchange:
  assumes "http_url M u = Some True" "small_token M (pathquery u)" "small_token M (hp_text (hostport u))"
    and "NUL \<notin> set request" "length toSend < 2 ^ 31" "message_ok n = (\<lambda>_. True)"
    and "socket_ok n" "connect_ok n (IPv4address (hostport u))"
    and "takes n = map (Takes 0) ns" "\<forall>k\<in>set ns. 0 < k"
    and "sum_list ns = length (request_message M request u toSend)"
    and "buffer_ok n = (\<lambda>_. True)" "out_ok n" "prompt (sends n) RESPONSE_TIMEOUT"
    and "stream (sends n) = concat ls @ [CR, LF] @ body @ rest" "\<forall>l\<in>set ls. header_line l"
    and "announced ls = int (length body)"
  shows "transferHTTPparsedURL M n request toSend (int (length toSend)) u =
    Some (HTTP_SUCCESS, Some (concat ls @ [CR, LF] @ body), request_message M request u toSend)"
proof -
  have "ns \<noteq> []" using assms(11) by (auto simp: request_message_def)
  then show ?thesis
    using transferHTTPparsedURL_sends [OF assms(1-6)] exchange_spec [OF assms(7-11)]
      read_http_response_content [OF assms(14-17)] assms(12,13) by simp
qed

definition example_mem :: mem where
  "example_mem b = (if b = 0 then ''http://h:80/x'' @ [NUL] else [])"

definition example_url :: uri_type where
  "example_url = \<lparr>utype = ABSOLUTE, scheme = \<lparr>buff = Some (0, 0), tsize = 4\<rparr>, path_type = ABS_PATH,
     pathquery = \<lparr>buff = Some (0, 11), tsize = 2\<rparr>, fragment = null_token,
     hostport = \<lparr>hp_text = \<lparr>buff = Some (0, 7), tsize = 4\<rparr>,
       IPv4address = \<lparr>sin_family = 2, sin_port = 80, s_addr = 1, sin_zero = []\<rparr>\<rparr>\<rparr>"

definition example_net :: net where
  "example_net = \<lparr>socket_ok = True, connect_ok = (\<lambda>_. True), takes = [Takes 0 20, Takes 0 11],
     sends = [Seg 1 (''HTTP/1.1 200 OK'' @ [CR]), Seg 2 ([LF] @ ''CONTENT-LENGTH: 3'' @ [CR, LF, CR, LF] @ ''abc'')],
     message_ok = (\<lambda>_. True), buffer_ok = (\<lambda>_. True), out_ok = True\<rparr>"

lemma example_url_facts:
  "http_url example_mem example_url = Some True"
  "small_token example_mem (pathquery example_url)" "small_token example_mem (hp_text (hostport example_url))"
  "request_message example_mem ''get'' example_url [CR, LF] =
     ''get /x HTTP/1.0'' @ [CR, LF] @ ''HOST: h:80'' @ [CR, LF, CR, LF]"
  by code_simp+

theorem transferHTTPparsedURL_exchange_witness:
  "transferHTTPparsedURL example_mem example_net ''get'' [CR, LF] 2 example_url =
   Some (HTTP_SUCCESS, Some (''HTTP/1.1 200 OK'' @ [CR, LF] @ ''CONTENT-LENGTH: 3'' @ [CR, LF, CR, LF] @ ''abc''),
     ''get /x HTTP/1.0'' @ [CR, LF] @ ''HOST: h:80'' @ [CR, LF, CR, LF])"
  using transferHTTPparsedURL_exchange [OF example_url_facts(1-3), where request = "''get''" and toSend = "[CR, LF]"
      and n = example_net and ns = "[20, 11]" and ls = "[''HTTP/1.1 200 OK'' @ [CR, LF], ''CONTENT-LENGTH: 3'' @ [CR, LF]]"
      and body = "''abc''" and rest = "[]"]
    example_url_facts(4) header_line_witness announced_witness
  by (simp add: example_net_def RESPONSE_TIMEOUT_def)

end
