(* ===== verification/Membuffer.thy ===== *)
theory Membuffer imports Prelude begin

text \<open>
  Growable byte buffers (\<^verbatim>\<open>genlib/util/membuffer.c\<close>): the heap block with its real size,
  the three counters, and every operation on them.

  \<open>None\<close> stands for a fault: a byte read or written outside a block, a write through NULL, or a
  failed \<^verbatim>\<open>assert\<close>.  The header of the library requires lengths and capacities below
  \<^verbatim>\<open>MAX_INT\<close>, so they are natural numbers here; the sum of an index and a caller's byte count,
  which the requirement does not cover, is taken modulo \<open>2 ^ 64\<close>.
\<close>

section \<open>State\<close>

record memptr =
  mp_buf :: string
  mp_length :: nat

record membuffer =
  mbuf :: "string option"
  mlength :: nat
  capacity :: nat
  size_inc :: nat

text \<open>The allocator: which sizes it grants, and the bytes fresh memory happens to hold.\<close>

record heap_env =
  realloc_ok :: "nat \<Rightarrow> bool"
  junk :: "nat \<Rightarrow> char"

definition realloc :: "heap_env \<Rightarrow> string option \<Rightarrow> nat \<Rightarrow> string option" where
  "realloc E b n =
     (if realloc_ok E n
      then (let old = (case b of None \<Rightarrow> [] | Some s \<Rightarrow> s)
            in Some (take n old @ map (junk E) [length old..<n]))
      else None)"

section \<open>Bytes of a block\<close>

definition blk_write :: "string option \<Rightarrow> nat \<Rightarrow> string \<Rightarrow> string option" where
  "blk_write blk d s =
     (case blk of None \<Rightarrow> None
      | Some b \<Rightarrow> if d + length s \<le> length b then Some (take d b @ s @ drop (d + length s) b) else None)"

definition memmove :: "string option \<Rightarrow> nat \<Rightarrow> nat \<Rightarrow> nat \<Rightarrow> string option" where
  "memmove blk d s n =
     (case blk of None \<Rightarrow> None
      | Some b \<Rightarrow> if s + n \<le> length b then blk_write blk d (take n (drop s b)) else None)"

text \<open>\<open>n\<close> bytes of the caller's buffer.\<close>

definition src_bytes :: "string \<Rightarrow> nat \<Rightarrow> string option" where
  "src_bytes s n = (if n \<le> length s then Some (take n s) else None)"

section \<open>Strings and memory pointers\<close>

definition str_alloc :: "heap_env \<Rightarrow> string \<Rightarrow> nat \<Rightarrow> string option option" where
  "str_alloc E str str_len =
     (if \<not> realloc_ok E (str_len + 1) then Some None
      else do { s \<leftarrow> src_bytes str str_len; Some (Some (s @ [NUL])) })"

definition memptr_cmp :: "memptr \<Rightarrow> string \<Rightarrow> int option" where
  "memptr_cmp m s = do {
     cmp \<leftarrow> strncmp (mp_buf m) s (mp_length m);
     if cmp = 0 then do { n \<leftarrow> strlen s; Some (if int (mp_length m) < n then - 1 else 0) }
     else Some cmp }"

definition memptr_cmp_nocase :: "memptr \<Rightarrow> string \<Rightarrow> int option" where
  "memptr_cmp_nocase m s = do {
     cmp \<leftarrow> strncasecmp (mp_buf m) s (mp_length m);
     if cmp = 0 then do { n \<leftarrow> strlen s; Some (if int (mp_length m) < n then - 1 else 0) }
     else Some cmp }"

section \<open>Buffers\<close>

definition MEMBUF_DEF_SIZE_INC :: nat where
  "MEMBUF_DEF_SIZE_INC = 5"

definition membuffer_initialize :: "membuffer \<Rightarrow> membuffer" where
  "membuffer_initialize m = m\<lparr>mbuf := None, mlength := 0, capacity := 0\<rparr>"

definition membuffer_set_size :: "heap_env \<Rightarrow> membuffer \<Rightarrow> nat \<Rightarrow> (int \<times> membuffer) option" where
  "membuffer_set_size E m new_length =
     (let grow = mlength m \<le> new_length;
          enough = (if grow then new_length \<le> capacity m
                    else capacity m - new_length \<le> size_inc m);
          alloc_len = (if grow then max (size_inc m) (new_length - mlength m) + capacity m
                       else new_length + size_inc m)
      in if enough then Some (0, m)
         else if alloc_len < new_length then None
         else (case realloc E (mbuf m) (alloc_len + 1) of
             Some b \<Rightarrow> Some (0, m\<lparr>mbuf := Some b, capacity := alloc_len\<rparr>)
           | None \<Rightarrow>
               (case realloc E (mbuf m) (new_length + 1) of
                  Some b \<Rightarrow> Some (0, m\<lparr>mbuf := Some b, capacity := new_length\<rparr>)
                | None \<Rightarrow> Some (UPNP_E_OUTOF_MEMORY, m))))"

definition membuffer_init :: "membuffer \<Rightarrow> membuffer" where
  "membuffer_init m = membuffer_initialize (m\<lparr>size_inc := MEMBUF_DEF_SIZE_INC\<rparr>)"

definition membuffer_destroy :: "membuffer \<Rightarrow> membuffer" where
  "membuffer_destroy m = membuffer_init m"

definition membuffer_assign ::
  "heap_env \<Rightarrow> membuffer \<Rightarrow> string option \<Rightarrow> nat \<Rightarrow> (int \<times> membuffer) option" where
  "membuffer_assign E m buf buf_len =
     (case buf of
       None \<Rightarrow> Some (0, membuffer_destroy m)
     | Some src \<Rightarrow> do {
         (return_code, m) \<leftarrow> membuffer_set_size E m buf_len;
         if return_code \<noteq> 0 then Some (return_code, m)
         else do {
           s \<leftarrow> src_bytes src buf_len;
           b \<leftarrow> blk_write (mbuf m) 0 s;
           b \<leftarrow> blk_write (Some b) buf_len [NUL];
           Some (0, m\<lparr>mbuf := Some b, mlength := buf_len\<rparr>) } })"

definition membuffer_assign_str :: "heap_env \<Rightarrow> membuffer \<Rightarrow> string \<Rightarrow> (int \<times> membuffer) option" where
  "membuffer_assign_str E m c_str = do {
     n \<leftarrow> strlen c_str;
     membuffer_assign E m (Some c_str) (nat n) }"

definition membuffer_insert ::
  "heap_env \<Rightarrow> membuffer \<Rightarrow> string option \<Rightarrow> nat \<Rightarrow> int \<Rightarrow> (int \<times> membuffer) option" where
  "membuffer_insert E m buf buf_len index =
     (if index < 0 \<or> int (mlength m) < index then Some (UPNP_E_OUTOF_BOUNDS, m)
      else case buf of
        None \<Rightarrow> Some (0, m)
      | Some src \<Rightarrow>
          if buf_len = 0 then Some (0, m)
          else do {
            (return_code, m) \<leftarrow> membuffer_set_size E m (mlength m + buf_len);
            if return_code \<noteq> 0 then Some (return_code, m)
            else do {
              let i = nat index;
              b \<leftarrow> memmove (mbuf m) (i + buf_len) i (mlength m - i);
              s \<leftarrow> src_bytes src buf_len;
              b \<leftarrow> blk_write (Some b) i s;
              b \<leftarrow> blk_write (Some b) (mlength m + buf_len) [NUL];
              Some (0, m\<lparr>mbuf := Some b, mlength := mlength m + buf_len\<rparr>) } })"

definition membuffer_append ::
  "heap_env \<Rightarrow> membuffer \<Rightarrow> string option \<Rightarrow> nat \<Rightarrow> (int \<times> membuffer) option" where
  "membuffer_append E m buf buf_len = membuffer_insert E m buf buf_len (int (mlength m))"

definition membuffer_append_str :: "heap_env \<Rightarrow> membuffer \<Rightarrow> string \<Rightarrow> (int \<times> membuffer) option" where
  "membuffer_append_str E m c_str = do {
     n \<leftarrow> strlen c_str;
     membuffer_insert E m (Some c_str) (nat n) (int (mlength m)) }"

definition membuffer_delete :: "heap_env \<Rightarrow> membuffer \<Rightarrow> int \<Rightarrow> nat \<Rightarrow> membuffer option" where
  "membuffer_delete E m index num_bytes =
     (if mlength m = 0 then Some m
      else if \<not> (0 \<le> index \<and> index < int (mlength m)) then None
      else
        (let i = nat index; beyond = mlength m < (i + num_bytes) mod 2 ^ 64;
             n = (if beyond then mlength m - i else num_bytes);
             copy_len = (if beyond then 0 else mlength m - (i + num_bytes) mod 2 ^ 64)
         in do {
           b \<leftarrow> memmove (mbuf m) i (i + n) copy_len;
           let new_length = mlength m - n;
           (return_value, m) \<leftarrow> membuffer_set_size E (m\<lparr>mbuf := Some b\<rparr>) new_length;
           if return_value \<noteq> 0 then None
           else do {
             b \<leftarrow> blk_write (mbuf m) new_length [NUL];
             Some (m\<lparr>mbuf := Some b, mlength := new_length\<rparr>) } }))"

definition membuffer_detach :: "membuffer \<Rightarrow> string option \<times> membuffer" where
  "membuffer_detach m = (mbuf m, membuffer_initialize m)"

definition membuffer_attach :: "membuffer \<Rightarrow> string option \<Rightarrow> nat \<Rightarrow> membuffer" where
  "membuffer_attach m new_buf buf_len =
     (membuffer_destroy m)\<lparr>mbuf := new_buf, mlength := buf_len, capacity := buf_len\<rparr>"

section \<open>Invariant and contents\<close>

text \<open>
  A buffer owns no block and is empty, or owns one with room for \<open>capacity\<close> bytes and a NUL; the
  text is terminated.
\<close>

definition wf_membuffer :: "membuffer \<Rightarrow> bool" where
  "wf_membuffer m = (0 < size_inc m \<and>
     (case mbuf m of None \<Rightarrow> mlength m = 0 \<and> capacity m = 0
      | Some b \<Rightarrow> mlength m \<le> capacity m \<and> capacity m < length b \<and> b ! mlength m = NUL))"

definition buf_text :: "membuffer \<Rightarrow> string" where
  "buf_text m = (case mbuf m of None \<Rightarrow> [] | Some b \<Rightarrow> take (mlength m) b)"

lemma buf_text_length [simp]: "wf_membuffer m \<Longrightarrow> length (buf_text m) = mlength m"
  by (auto simp: wf_membuffer_def buf_text_def split: option.splits)

lemma realloc_Some: "realloc E b n = Some r \<Longrightarrow>
    length r = n \<and> take n (case b of None \<Rightarrow> [] | Some s \<Rightarrow> s) = take (length (case b of None \<Rightarrow> [] | Some s \<Rightarrow> s)) r"
  by (auto simp: realloc_def Let_def min_def split: if_splits option.splits)

text \<open>
  \<open>membuffer_set_size\<close> on a well-formed buffer never fails its assertions; it either leaves the
  buffer alone or leaves room for \<open>n\<close> bytes without touching the first \<open>n\<close> ones.
\<close>

lemma set_size_cases:
  assumes "mlength m \<le> capacity m" "0 < size_inc m"
  obtains (oom) "membuffer_set_size E m n = Some (UPNP_E_OUTOF_MEMORY, m)"
      "\<not> realloc_ok E (n + 1)" "capacity m < n \<or> n < mlength m"
  | (same) "membuffer_set_size E m n = Some (0, m)" "n \<le> capacity m"
  | (new) b c where "membuffer_set_size E m n = Some (0, m\<lparr>mbuf := Some b, capacity := c\<rparr>)" "n \<le> c" "c < length b"
      "\<forall>s. mbuf m = Some s \<longrightarrow> (\<forall>k. k \<le> n + 1 \<longrightarrow> k \<le> length s \<longrightarrow> take k b = take k s)"
proof -
  define a where "a = (if mlength m \<le> n then max (size_inc m) (n - mlength m) + capacity m
    else n + size_inc m)"
  define enough where "enough = (if mlength m \<le> n then n \<le> capacity m else capacity m - n \<le> size_inc m)"
  have an: "\<not> enough \<Longrightarrow> n \<le> a" using assms by (auto simp: a_def enough_def)
  have k: "take k r = take k s"
    if "realloc E (Some s) l = Some r" "k \<le> l" "k \<le> length s" for k l r s
    using that by (auto simp: realloc_def min_def split: if_splits)
  show ?thesis
  proof (cases enough)
    case True
    then have "n \<le> capacity m" using assms(1) by (auto simp: enough_def split: if_splits)
    with True show ?thesis
      by (intro same) (auto simp: membuffer_set_size_def Let_def enough_def)
  next
    case False
    have e: "membuffer_set_size E m n = (case realloc E (mbuf m) (a + 1) of
             Some b \<Rightarrow> Some (0, m\<lparr>mbuf := Some b, capacity := a\<rparr>)
           | None \<Rightarrow> (case realloc E (mbuf m) (n + 1) of
                  Some b \<Rightarrow> Some (0, m\<lparr>mbuf := Some b, capacity := n\<rparr>)
                | None \<Rightarrow> Some (UPNP_E_OUTOF_MEMORY, m)))"
      using False an unfolding membuffer_set_size_def Let_def enough_def [symmetric] a_def [symmetric]
      by simp
    show ?thesis
    proof (cases "realloc E (mbuf m) (a + 1)")
      case (Some b)
      then show ?thesis
        using e an [OF False] realloc_Some [OF Some] by (intro new [where b = b and c = a]) (auto intro!: k [where l = "Suc a"])
    next
      case ra: None
      show ?thesis
      proof (cases "realloc E (mbuf m) (n + 1)")
        case (Some b)
        then show ?thesis
          using e ra realloc_Some [OF Some] by (intro new [where b = b and c = n]) (auto intro!: k [where l = "Suc n"])
      next
        case None
        have "capacity m < n \<or> n < mlength m" using False by (auto simp: enough_def split: if_splits)
        with None ra e show ?thesis by (intro oom) (auto simp: realloc_def Let_def split: if_splits)
      qed
    qed
  qed
qed

text \<open>What a successful resize gives the operations that write afterwards.\<close>

lemma set_size_room:
  assumes "wf_membuffer m" "membuffer_set_size E m n = Some (0, m')" "0 < n \<or> mbuf m \<noteq> None"
  shows "\<exists>b'. mbuf m' = Some b' \<and> n \<le> capacity m' \<and> capacity m' < length b' \<and>
    mlength m' = mlength m \<and> size_inc m' = size_inc m \<and>
    take (min n (mlength m)) b' = take n (buf_text m)"
proof -
  have w: "mlength m \<le> capacity m" "0 < size_inc m"
    using assms(1) by (auto simp: wf_membuffer_def split: option.splits)
  show ?thesis
    using w
  proof (cases rule: set_size_cases [of m E n])
    case oom
    then show ?thesis using assms(2) by simp
  next
    case same
    then show ?thesis
      using assms by (auto simp: wf_membuffer_def buf_text_def min_def split: option.splits)
  next
    case (new b c)
    then have m': "m' = m\<lparr>mbuf := Some b, capacity := c\<rparr>" using assms(2) by simp
    show ?thesis
    proof (cases "mbuf m")
      case None
      then show ?thesis
        using new m' assms(1) by (auto simp: wf_membuffer_def buf_text_def)
    next
      case (Some s)
      have "mlength m < length s" using Some assms(1) by (simp add: wf_membuffer_def)
      then have "take (min n (mlength m)) b = take (min n (mlength m)) s"
        using new(4) Some by auto
      then show ?thesis using Some new m' by (simp add: buf_text_def min.commute)
    qed
  qed
qed

lemma blk_write_Some: "d + length s \<le> length b \<Longrightarrow>
    blk_write (Some b) d s = Some (take d b @ s @ drop (d + length s) b)"
  by (simp add: blk_write_def)

lemma memmove_Some: "s + n \<le> length b \<Longrightarrow> d + n \<le> length b \<Longrightarrow>
    memmove (Some b) d s n = Some (take d b @ take n (drop s b) @ drop (d + n) b)"
  by (simp add: memmove_def blk_write_def)

lemma wf_membuffer_Some: "0 < size_inc m \<Longrightarrow> mlength m \<le> capacity m \<Longrightarrow> mbuf m = Some b \<Longrightarrow>
    capacity m < length b \<Longrightarrow> b ! mlength m = NUL \<Longrightarrow> wf_membuffer m"
  by (simp add: wf_membuffer_def)

text \<open>
  Insertion: the bounds test, the empty insertion, running out of memory, and the splice.
\<close>

lemma insert_spec:
  assumes w: "wf_membuffer m" and src: "n \<le> length src" and i: "0 \<le> i" "i \<le> int (mlength m)" and n: "0 < n"
  shows "\<exists>r m'. membuffer_insert E m (Some src) n i = Some (r, m') \<and>
    (r = UPNP_E_OUTOF_MEMORY \<and> m' = m \<and> \<not> realloc_ok E (mlength m + n + 1) \<or>
     r = 0 \<and> wf_membuffer m' \<and>
       buf_text m' = take (nat i) (buf_text m) @ take n src @ drop (nat i) (buf_text m))"
proof -
  have mw: "mlength m \<le> capacity m" "0 < size_inc m"
    using w by (auto simp: wf_membuffer_def split: option.splits)
  obtain r m1 where s: "membuffer_set_size E m (mlength m + n) = Some (r, m1)"
      "r = UPNP_E_OUTOF_MEMORY \<and> m1 = m \<and> \<not> realloc_ok E (mlength m + n + 1) \<or> r = 0"
    using mw by (cases rule: set_size_cases [of m E "mlength m + n"]) auto
  show ?thesis
  proof (cases "r = 0")
    case False
    then show ?thesis using s i n by (simp add: membuffer_insert_def)
  next
    case True
    obtain b where b: "mbuf m1 = Some b" "mlength m + n \<le> capacity m1" "capacity m1 < length b"
        "mlength m1 = mlength m" "size_inc m1 = size_inc m" "take (mlength m) b = buf_text m"
      using set_size_room [OF w, of E "mlength m + n" m1] s(1) True n w by auto
    let ?k = "nat i" and ?t = "buf_text m" and ?l = "mlength m"
    have k: "?k \<le> ?l" "int (mlength m) \<ge> i" using i by auto
    have tk: "take ?k b = take ?k ?t" "take (?l - ?k) (drop ?k b) = drop ?k ?t"
      using b(6) k by (metis min.absorb1 take_take, metis drop_take)
    let ?b1 = "take (?k + n) b @ drop ?k ?t @ drop (?l + n) b"
    let ?b2 = "take ?k ?t @ take n src @ drop ?k ?t @ drop (?l + n) b"
    let ?b3 = "take ?k ?t @ take n src @ drop ?k ?t @ NUL # drop (?l + n + 1) b"
    have w1: "memmove (mbuf m1) (?k + n) ?k (?l - ?k) = Some ?b1"
      using b(1-3) k tk by (simp add: memmove_Some add.commute)
    have w2: "blk_write (Some ?b1) ?k (take n src) = Some ?b2"
      using b(1-3) k src w tk by (simp add: blk_write_Some take_drop)
    have w3: "blk_write (Some ?b2) (?l + n) [NUL] = Some ?b3"
      using b(1-3) k src w by (simp add: blk_write_Some Suc_diff_le)
    let ?m = "m1\<lparr>mbuf := Some ?b3, mlength := ?l + n\<rparr>"
    have "membuffer_insert E m (Some src) n i = Some (0, ?m)"
      using s(1) True i n src b(4) w1 w2 w3
      by (simp add: membuffer_insert_def src_bytes_def Let_def)
    moreover have "wf_membuffer ?m"
      using mw(2) b k w src by (intro wf_membuffer_Some [of _ ?b3]) (auto simp: nth_append)
    moreover have "buf_text ?m = take ?k ?t @ take n src @ drop ?k ?t"
    proof -
      have "buf_text ?m = take (?l + n) ((take ?k ?t @ take n src @ drop ?k ?t) @ NUL # drop (?l + n + 1) b)"
        unfolding buf_text_def [of ?m] by simp
      also have "\<dots> = take ?k ?t @ take n src @ drop ?k ?t"
        by (rule take_length_app) (use k w src in simp)
      finally show ?thesis .
    qed
    ultimately show ?thesis by blast
  qed
qed

lemma delete_spec:
  assumes w: "wf_membuffer m" and i: "0 \<le> i" "i < int (mlength m)" and n: "nat i + n < 2 ^ 64"
    and ok: "realloc_ok E (mlength m - min n (mlength m - nat i) + 1)"
  shows "\<exists>m'. membuffer_delete E m i n = Some m' \<and> wf_membuffer m' \<and>
    buf_text m' = take (nat i) (buf_text m) @ drop (nat i + n) (buf_text m)"
proof -
  let ?k = "nat i" and ?t = "buf_text m" and ?l = "mlength m"
  obtain b where b: "mbuf m = Some b" "?l \<le> capacity m" "capacity m < length b" "0 < size_inc m"
    using w i by (auto simp: wf_membuffer_def split: option.splits)
  have k: "?k < ?l" using i by simp
  define n' where "n' = (if ?l < ?k + n then ?l - ?k else n)"
  define c where "c = (if ?l < ?k + n then 0 else ?l - (?k + n))"
  define l' where "l' = ?l - n'"
  have c: "?k + n' + c = ?l" "l' = ?k + c" "n' \<le> ?l" using k by (auto simp: n'_def c_def l'_def)
  have n'_min: "n' = min n (?l - ?k)" using k by (auto simp: n'_def)
  have tb: "?t = take ?l b" using b by (simp add: buf_text_def)
  define b1 where "b1 = take ?k b @ take c (drop (?k + n') b) @ drop (?k + c) b"
  have w1: "memmove (mbuf m) ?k (?k + n') c = Some b1"
    using b c by (simp add: memmove_Some b1_def)
  have b1: "length b1 = length b" "take l' b1 = take ?k ?t @ drop (?k + n) ?t"
  proof -
    show "length b1 = length b" using b c k by (simp add: b1_def)
    have "take c (drop (?k + n') b) = drop (?k + n') (take ?l b)"
      using c(1) by (simp add: take_drop add.commute)
    also have "\<dots> = drop (?k + n) ?t"
      using k b by (auto simp: n'_def tb)
    finally have x: "take c (drop (?k + n') b) = drop (?k + n) ?t" .
    have "length (take ?k b @ take c (drop (?k + n') b)) = l'" using b c k by simp
    then have "take l' b1 = take ?k b @ take c (drop (?k + n') b)"
      unfolding b1_def append_assoc [symmetric] by (rule take_length_app)
    then show "take l' b1 = take ?k ?t @ drop (?k + n) ?t" using x k by (simp add: tb)
  qed
  let ?m1 = "m\<lparr>mbuf := Some b1\<rparr>"
  obtain m2 b2 where s: "membuffer_set_size E ?m1 l' = Some (0, m2)" "mbuf m2 = Some b2"
      "l' \<le> capacity m2" "capacity m2 < length b2" "size_inc m2 = size_inc m" "take l' b2 = take l' b1"
  proof -
    have mw: "mlength ?m1 \<le> capacity ?m1" "0 < size_inc ?m1" using b by auto
    show thesis
      using mw
    proof (cases rule: set_size_cases [of ?m1 E l'])
      case oom
      then show thesis using ok n'_min by (simp add: l'_def)
    next
      case same
      then show thesis using that [of ?m1 b1] b b1 by simp
    next
      case (new b' c')
      have "l' \<le> length b1" using b b1(1) by (simp add: l'_def)
      then show thesis
        using that [of "?m1\<lparr>mbuf := Some b', capacity := c'\<rparr>" b'] new by simp
    qed
  qed
  let ?b3 = "take l' b2 @ NUL # drop (l' + 1) b2"
  let ?m3 = "m2\<lparr>mbuf := Some ?b3, mlength := l'\<rparr>"
  have w3: "blk_write (mbuf m2) l' [NUL] = Some ?b3"
    using s by (simp add: blk_write_Some)
  have km: "(?k + n) mod 2 ^ 64 = ?k + n" using n by simp
  have "membuffer_delete E m i n = Some ?m3"
    using i k w1 s(1) w3
    unfolding membuffer_delete_def Let_def km n'_def [symmetric] c_def [symmetric] l'_def [symmetric]
    by simp
  moreover have "wf_membuffer ?m3"
    using s(1-5) b by (intro wf_membuffer_Some [of _ ?b3]) (auto simp: nth_append)
  moreover have "buf_text ?m3 = take l' b2"
    unfolding buf_text_def [of ?m3] using s(3,4) by simp
  then have "buf_text ?m3 = take ?k ?t @ drop (?k + n) ?t" using s(6) b1(2) by simp
  ultimately show ?thesis by blast
qed

lemma assign_spec:
  assumes w: "wf_membuffer m" and src: "n \<le> length src" and n: "0 < n \<or> mbuf m \<noteq> None"
  shows "\<exists>r m'. membuffer_assign E m (Some src) n = Some (r, m') \<and>
    (r = UPNP_E_OUTOF_MEMORY \<and> m' = m \<and> \<not> realloc_ok E (n + 1) \<or>
     r = 0 \<and> wf_membuffer m' \<and> buf_text m' = take n src)"
proof -
  have mw: "mlength m \<le> capacity m" "0 < size_inc m"
    using w by (auto simp: wf_membuffer_def split: option.splits)
  obtain r m1 where s: "membuffer_set_size E m n = Some (r, m1)"
      "r = UPNP_E_OUTOF_MEMORY \<and> m1 = m \<and> \<not> realloc_ok E (n + 1) \<or> r = 0"
    using mw by (cases rule: set_size_cases [of m E n]) auto
  show ?thesis
  proof (cases "r = 0")
    case False
    then show ?thesis using s by (simp add: membuffer_assign_def)
  next
    case True
    obtain b where b: "mbuf m1 = Some b" "n \<le> capacity m1" "capacity m1 < length b"
        "size_inc m1 = size_inc m"
      using set_size_room [OF w, of E n m1] s(1) True n by auto
    let ?b = "take n src @ NUL # drop (n + 1) b"
    have "membuffer_assign E m (Some src) n = Some (0, m1\<lparr>mbuf := Some ?b, mlength := n\<rparr>)"
      using s(1) True src b by (simp add: membuffer_assign_def src_bytes_def blk_write_Some Suc_diff_le)
    moreover have "wf_membuffer (m1\<lparr>mbuf := Some ?b, mlength := n\<rparr>)"
      using mw(2) b src by (intro wf_membuffer_Some [of _ ?b]) (auto simp: nth_append)
    ultimately show ?thesis using src by (auto simp: buf_text_def)
  qed
qed

lemma wf_init [simp]: "wf_membuffer (membuffer_init m)" "wf_membuffer (membuffer_destroy m)"
  and text_init [simp]: "buf_text (membuffer_init m) = []" "buf_text (membuffer_destroy m) = []"
  by (simp_all add: membuffer_init_def membuffer_destroy_def membuffer_initialize_def
      MEMBUF_DEF_SIZE_INC_def wf_membuffer_def buf_text_def)

lemma wf_detach: "wf_membuffer m \<Longrightarrow> wf_membuffer (snd (membuffer_detach m))"
  and text_detach: "buf_text (snd (membuffer_detach m)) = []"
  by (simp_all add: membuffer_detach_def membuffer_initialize_def wf_membuffer_def buf_text_def)

lemma wf_attach: "n < length b \<Longrightarrow> b ! n = NUL \<Longrightarrow> wf_membuffer (membuffer_attach m (Some b) n)"
  and text_attach: "buf_text (membuffer_attach m (Some b) n) = take n b"
  by (simp_all add: membuffer_attach_def membuffer_destroy_def membuffer_init_def
      membuffer_initialize_def MEMBUF_DEF_SIZE_INC_def wf_membuffer_def buf_text_def)

section \<open>Refinement of strings\<close>

datatype buf_op =
    Insert "string" "nat" "int"
  | Append "string" "nat"
  | Delete "int" "nat"
  | Assign "string" "nat"
  | AssignNull
  | Detach

definition buf_step :: "heap_env \<Rightarrow> membuffer \<Rightarrow> buf_op \<Rightarrow> membuffer option" where
  "buf_step E m op = (case op of
     Insert s n i \<Rightarrow> map_option snd (membuffer_insert E m (Some s) n i)
   | Append s n \<Rightarrow> map_option snd (membuffer_append E m (Some s) n)
   | Delete i n \<Rightarrow> membuffer_delete E m i n
   | Assign s n \<Rightarrow> map_option snd (membuffer_assign E m (Some s) n)
   | AssignNull \<Rightarrow> map_option snd (membuffer_assign E m None 0)
   | Detach \<Rightarrow> Some (snd (membuffer_detach m)))"

definition text_step :: "string \<Rightarrow> buf_op \<Rightarrow> string" where
  "text_step t op = (case op of
     Insert s n i \<Rightarrow>
       if 0 \<le> i \<and> i \<le> int (length t) then take (nat i) t @ take n s @ drop (nat i) t else t
   | Append s n \<Rightarrow> t @ take n s
   | Delete i n \<Rightarrow> take (nat i) t @ drop (nat i + n) t
   | Assign s n \<Rightarrow> take n s
   | AssignNull \<Rightarrow> []
   | Detach \<Rightarrow> [])"

text \<open>
  What a caller must respect: sources that hold the bytes they announce, deletions that start
  inside the text, and no empty assignment to an empty text.
\<close>

definition buf_legal :: "string \<Rightarrow> buf_op \<Rightarrow> bool" where
  "buf_legal t op = (case op of
     Insert s n i \<Rightarrow> n \<le> length s
   | Append s n \<Rightarrow> n \<le> length s
   | Delete i n \<Rightarrow> t = [] \<or> 0 \<le> i \<and> i < int (length t) \<and> nat i + n < 2 ^ 64
   | Assign s n \<Rightarrow> n \<le> length s \<and> (n = 0 \<longrightarrow> t \<noteq> [])
   | AssignNull \<Rightarrow> True
   | Detach \<Rightarrow> True)"

definition rich_heap :: "heap_env \<Rightarrow> bool" where
  "rich_heap E = (realloc_ok E = (\<lambda>_. True))"

lemma insert_step:
  assumes "rich_heap E" "wf_membuffer m" "n \<le> length s"
  shows "\<exists>m'. map_option snd (membuffer_insert E m (Some s) n i) = Some m' \<and> wf_membuffer m' \<and>
    buf_text m' = text_step (buf_text m) (Insert s n i)"
proof (cases "0 \<le> i \<and> i \<le> int (mlength m) \<and> 0 < n")
  case True
  then show ?thesis
    using insert_spec [of m n s i E] assms by (auto simp: rich_heap_def text_step_def)
next
  case False
  then show ?thesis using assms(2) by (auto simp: membuffer_insert_def text_step_def)
qed

lemma buf_step_refines:
  assumes "rich_heap E" "wf_membuffer m" "buf_legal (buf_text m) op"
  shows "\<exists>m'. buf_step E m op = Some m' \<and> wf_membuffer m' \<and> buf_text m' = text_step (buf_text m) op"
proof (cases op)
  case (Insert s n i)
  then show ?thesis using insert_step [OF assms(1,2), of n s i] assms(3)
    by (simp add: buf_step_def buf_legal_def)
next
  case (Append s n)
  then show ?thesis using insert_step [OF assms(1,2), of n s "int (mlength m)"] assms(2,3)
    by (simp add: buf_step_def buf_legal_def membuffer_append_def text_step_def)
next
  case (Delete i n)
  show ?thesis
  proof (cases "buf_text m = []")
    case True
    then have "mlength m = 0" using assms(2) by (metis buf_text_length list.size(3))
    then show ?thesis
      using True assms(2) Delete by (simp add: buf_step_def membuffer_delete_def text_step_def)
  next
    case False
    then show ?thesis
      using delete_spec [OF assms(2), of i n E] assms Delete
      by (auto simp: rich_heap_def buf_legal_def buf_step_def text_step_def)
  qed
next
  case (Assign s n)
  have "buf_text m \<noteq> [] \<Longrightarrow> mbuf m \<noteq> None" by (auto simp: buf_text_def split: option.split_asm)
  then show ?thesis
    using assign_spec [OF assms(2), of n s E] assms Assign
    by (auto simp: rich_heap_def buf_legal_def buf_step_def text_step_def)
qed (use assms(2) wf_detach text_detach in
    \<open>auto simp: buf_step_def text_step_def membuffer_assign_def\<close>)

interpretation buffers: data_refinement
  "\<lambda>p. rich_heap (fst p) \<and> wf_membuffer (snd p)" "\<lambda>p. buf_text (snd p)"
  "\<lambda>p op. map_option (Pair (fst p)) (buf_step (fst p) (snd p) op)" text_step buf_legal
proof
  fix p :: "heap_env \<times> membuffer" and op
  assume "rich_heap (fst p) \<and> wf_membuffer (snd p)" "buf_legal (buf_text (snd p)) op"
  then show "\<exists>p'. map_option (Pair (fst p)) (buf_step (fst p) (snd p) op) = Some p' \<and>
      (rich_heap (fst p') \<and> wf_membuffer (snd p')) \<and>
      buf_text (snd p') = text_step (buf_text (snd p)) op"
    using buf_step_refines [of "fst p" "snd p" op] by force
qed

lemma run_fixed_heap: "run_all (\<lambda>p op. map_option (Pair (fst p)) (buf_step (fst p) (snd p) op)) (E, m) ops
    = map_option (Pair E) (run_all (buf_step E) m ops)"
  by (induction ops arbitrary: m) (auto simp: option.map_comp o_def bind_map_option map_option_bind)

text \<open>
  C23. Refinement.  While memory is not exhausted, a sequence of operations on a well-formed buffer runs without a
  fault, keeps the buffer well-formed, with the NUL behind its text, and changes its text exactly as the
  operations on strings do, provided that at its turn each operation is legal: the source holds the bytes that are
  taken from it, a deletion from a text starts inside it (the code asserts that), and an empty text is assigned only
  when there is a text to replace (on a fresh buffer that assignment faults, see \<open>membuffer_assign_empty_faults\<close>).
\<close>

theorem membuffer_refines_strings:
  assumes "rich_heap E" "wf_membuffer m" "legal_all text_step buf_legal (buf_text m) ops"
  shows "\<exists>m'. run_all (buf_step E) m ops = Some m' \<and> wf_membuffer m' \<and>
    buf_text m' = foldl text_step (buf_text m) ops"
  using buffers.run_refines [of "(E, m)" ops] assms by (auto simp: run_fixed_heap)

text \<open>
  \<open>membuffer_insert\<close> on every branch: an index outside the text and a NULL or empty source
  change nothing, running out of memory changes nothing, and otherwise the bytes are spliced in.
\<close>

theorem membuffer_insert_splices:
  assumes "wf_membuffer m" "\<forall>s. buf = Some s \<longrightarrow> n \<le> length s"
  shows "\<exists>r m'. membuffer_insert E m buf n i = Some (r, m') \<and> wf_membuffer m' \<and>
    (if i < 0 \<or> int (mlength m) < i then r = UPNP_E_OUTOF_BOUNDS \<and> m' = m
     else case buf of
       None \<Rightarrow> r = 0 \<and> m' = m
     | Some s \<Rightarrow> r = UPNP_E_OUTOF_MEMORY \<and> m' = m \<and> \<not> realloc_ok E (mlength m + n + 1) \<or>
         r = 0 \<and> buf_text m' = take (nat i) (buf_text m) @ take n s @ drop (nat i) (buf_text m))"
proof (cases "i < 0 \<or> int (mlength m) < i \<or> buf = None \<or> n = 0")
  case True
  then show ?thesis
    using assms(1) by (auto simp: membuffer_insert_def split: option.split)
next
  case False
  then obtain s where "buf = Some s" by auto
  with False show ?thesis using insert_spec [OF assms(1), of n s i E] assms by auto
qed

text \<open>
  \<open>membuffer_delete\<close> cuts the bytes out, clipped at the end of the text; the assertion that
  shrinking works holds when the allocator grants the exact size.
\<close>

theorem membuffer_delete_cuts:
  assumes "wf_membuffer m" "0 \<le> i" "i < int (mlength m)" "nat i + n < 2 ^ 64"
    and "realloc_ok E (mlength m - min n (mlength m - nat i) + 1)"
  shows "\<exists>m'. membuffer_delete E m i n = Some m' \<and> wf_membuffer m' \<and>
    buf_text m' = take (nat i) (buf_text m) @ drop (nat i + n) (buf_text m)"
  using assms by (rule delete_spec)

text \<open>
  Assigning an empty, non-NULL source to a fresh buffer writes its terminator through NULL,
  whatever the allocator does.
\<close>

theorem membuffer_assign_empty_faults:
  "membuffer_assign E (membuffer_init m) (Some src) 0 = None"
  by (simp add: membuffer_assign_def membuffer_init_def membuffer_initialize_def
      membuffer_set_size_def src_bytes_def blk_write_def)

section \<open>Comparisons\<close>

lemma strncmp_cstring: "NUL \<notin> set (take n as) \<Longrightarrow> n \<le> length as \<Longrightarrow> NUL \<in> set bs \<Longrightarrow>
    \<exists>r. strncmp as bs n = Some r \<and>
      (r = 0 \<longleftrightarrow> n \<le> length (cstring bs) \<and> take n as = take n (cstring bs))"
proof (induction as bs n rule: strncmp.induct)
  case (2 a as b bs n)
  have "a = b" if "(of_char a :: nat) = of_char b" using that by (rule injD [OF inj_of_char])
  with 2 show ?case by (auto simp: cstring_def)
qed auto

lemma strlen_cstring_length: "NUL \<in> set s \<Longrightarrow> strlen s = Some (int (length (cstring s)))"
  by (induction s) (auto simp: cstring_def)

text \<open>
  \<open>memptr_cmp\<close> of a NUL-free chunk with a C string stays inside both and gives 0 exactly
  when they are equal.
\<close>

theorem memptr_cmp_equality:
  assumes "mp_length m \<le> length (mp_buf m)" "NUL \<notin> set (take (mp_length m) (mp_buf m))" "NUL \<in> set s"
  shows "\<exists>r. memptr_cmp m s = Some r \<and> (r = 0 \<longleftrightarrow> take (mp_length m) (mp_buf m) = cstring s)"
proof -
  let ?n = "mp_length m" and ?a = "mp_buf m"
  obtain r where r: "strncmp ?a s ?n = Some r"
      "r = 0 \<longleftrightarrow> ?n \<le> length (cstring s) \<and> take ?n ?a = take ?n (cstring s)"
    using strncmp_cstring [OF assms(2,1,3)] by blast
  have l: "length (take ?n ?a) = ?n" using assms(1) by simp
  show ?thesis
  proof (cases "r = 0 \<and> ?n = length (cstring s)")
    case True
    then show ?thesis using r strlen_cstring_length [OF assms(3)] by (simp add: memptr_cmp_def)
  next
    case False
    have "take ?n ?a \<noteq> cstring s"
    proof
      assume e: "take ?n ?a = cstring s"
      then have "?n = length (cstring s)" using l by simp
      with e False r(2) show False by simp
    qed
    then show ?thesis
      using False r strlen_cstring_length [OF assms(3)] by (auto simp: memptr_cmp_def)
  qed
qed

section \<open>Witnesses\<close>

definition easy_heap :: heap_env where
  "easy_heap = \<lparr>realloc_ok = (\<lambda>_. True), junk = (\<lambda>_. CHR ''?'')\<rparr>"

definition new_buffer :: membuffer where
  "new_buffer = membuffer_init \<lparr>mbuf = None, mlength = 0, capacity = 0, size_inc = 0\<rparr>"

definition abc_buffer :: membuffer where
  "abc_buffer = \<lparr>mbuf = Some (''abc'' @ [NUL]), mlength = 3, capacity = 3, size_inc = 5\<rparr>"

lemma abc_facts: "wf_membuffer abc_buffer" "buf_text abc_buffer = ''abc''" "mlength abc_buffer = 3"
  by (simp_all add: abc_buffer_def wf_membuffer_def buf_text_def)

lemma membuffer_refines_strings_witness:
  "\<exists>m'. run_all (buf_step easy_heap) new_buffer [Append ''hello'' 5, Insert ''xy'' 2 1, Delete 0 3, Assign [] 0, Assign ''q'' 1]
      = Some m' \<and> buf_text m' = ''q''"
  using membuffer_refines_strings [of easy_heap new_buffer
      "[Append ''hello'' 5, Insert ''xy'' 2 1, Delete 0 3, Assign [] 0, Assign ''q'' 1]"]
  by (auto simp: easy_heap_def rich_heap_def new_buffer_def text_step_def buf_legal_def)

lemma membuffer_insert_splices_witness:
  "\<exists>m'. membuffer_insert easy_heap abc_buffer (Some ''xy'') 2 1 = Some (0, m') \<and> buf_text m' = ''axybc''"
  using membuffer_insert_splices [OF abc_facts(1), of "Some ''xy''" 2 easy_heap 1]
  by (auto simp: abc_facts easy_heap_def)

lemma membuffer_delete_cuts_witness:
  "\<exists>m'. membuffer_delete easy_heap abc_buffer 1 9 = Some m' \<and> buf_text m' = ''a''"
  using membuffer_delete_cuts [OF abc_facts(1), of 1 9 easy_heap]
  by (auto simp: abc_facts easy_heap_def)

lemma memptr_cmp_equality_witness:
  "\<exists>r. memptr_cmp \<lparr>mp_buf = ''GETx'', mp_length = 3\<rparr> (''GET'' @ [NUL]) = Some r \<and> r = 0"
  using memptr_cmp_equality [of "\<lparr>mp_buf = ''GETx'', mp_length = 3\<rparr>" "''GET'' @ [NUL]"]
  by (auto simp: cstring_def)

end
