(* ===== verification/Timer.thy ===== *)
theory Timer imports Prelude "HOL-Library.Multiset" begin

text \<open>
  The timer thread (\<^verbatim>\<open>genlib/timer_thread/timer_thread.c\<close>): a queue of events ordered by
  expiry time, shared by the callers of \<^verbatim>\<open>ScheduleTimerEvent\<close> and
  \<^verbatim>\<open>RemoveTimerEvent\<close>, the thread \<^verbatim>\<open>TimerThread\<close> that hands expired events to
  the thread pool, and \<^verbatim>\<open>StopTimerThread\<close>.

  Each critical section of the mutex is one step.  Callbacks and their arguments are
  addresses; \<^verbatim>\<open>time_t\<close> is an integer; \<^verbatim>\<open>int\<close> identifiers are 32-bit words that wrap.
\<close>

section \<open>State\<close>

record timer_event =
  etime :: int
  callback :: nat
  argument :: nat
  eventId :: "32 word"

record timer_thread_struct =
  newEvent :: bool
  shutdown :: bool
  currentEventId :: "32 word"
  eventQ :: "timer_event list"

section \<open>Operations\<close>

text \<open>\<open>pool_ok\<close> is the answer of \<^verbatim>\<open>tpool_Schedule\<close>.\<close>

definition InitTimerThread :: "bool \<Rightarrow> int \<times> timer_thread_struct" where
  "InitTimerThread pool_ok =
     (if pool_ok then UPNP_E_SUCCESS else UPNP_E_INIT_FAILED,
      \<lparr>newEvent = False, shutdown = False, currentEventId = 0, eventQ = []\<rparr>)"

text \<open>The search for the place of the new event, and its insertion there.\<close>

fun insert_event :: "timer_event \<Rightarrow> timer_event list \<Rightarrow> timer_event list" where
  "insert_event e [] = [e]"
| "insert_event e (f # q) = (if etime f < etime e then f # insert_event e q else e # f # q)"

definition ScheduleTimerEvent ::
  "bool \<Rightarrow> int \<Rightarrow> int \<Rightarrow> nat \<Rightarrow> nat \<Rightarrow> timer_thread_struct \<Rightarrow>
     int \<times> timer_event option \<times> timer_thread_struct" where
  "ScheduleTimerEvent mem_ok current_time TimeOut cb arg timer =
     (if \<not> mem_ok then (UPNP_E_OUTOF_MEMORY, None, timer)
      else if shutdown timer then (UPNP_E_INVALID_PARAM, None, timer)
      else
        (let e = \<lparr>etime = current_time + TimeOut, callback = cb, argument = arg,
                   eventId = currentEventId timer\<rparr>;
             nxt = currentEventId timer + 1
         in (UPNP_E_SUCCESS, Some e,
             timer\<lparr>currentEventId := (if sint nxt < 0 then 0 else nxt),
                   eventQ := insert_event e (eventQ timer), newEvent := True\<rparr>)))"

text \<open>Unlinking the first event with the given identifier.\<close>

fun remove_event :: "32 word \<Rightarrow> timer_event list \<Rightarrow> (timer_event \<times> timer_event list) option" where
  "remove_event i [] = None"
| "remove_event i (e # q) =
     (if eventId e = i then Some (e, q)
      else map_option (\<lambda>(f, r). (f, e # r)) (remove_event i q))"

text \<open>
  The result is \<^verbatim>\<open>found\<close>, the value of \<^verbatim>\<open>*argument\<close> (0 is NULL), the removed event, and
  the timer.
\<close>

definition RemoveTimerEvent ::
  "32 word \<Rightarrow> nat \<Rightarrow> timer_thread_struct \<Rightarrow> bool \<times> nat \<times> timer_event option \<times> timer_thread_struct" where
  "RemoveTimerEvent i arg0 timer =
     (if i = - 1 then (False, arg0, None, timer)
      else (case remove_event i (eventQ timer) of
          None \<Rightarrow> (False, 0, None, timer)
        | Some (e, q) \<Rightarrow> (True, argument e, Some e, timer\<lparr>eventQ := q\<rparr>)))"

section \<open>The thread\<close>

text \<open>
  Where \<^verbatim>\<open>TimerThread\<close> is: about to take the mutex, in the timed wait, in the wait without a
  deadline, or returned.
\<close>

datatype thread_pc = Top | WaitUntil int | WaitForever | Returned

datatype thread_result =
    Blocked
  | Moved timer_thread_struct thread_pc
  | Fired timer_event timer_thread_struct

definition TimerThread_step :: "int \<Rightarrow> timer_thread_struct \<Rightarrow> thread_pc \<Rightarrow> thread_result" where
  "TimerThread_step current_time timer pc = (case pc of
     Top \<Rightarrow>
       if shutdown timer then Moved timer Returned
       else (case eventQ timer of
           [] \<Rightarrow> Moved timer WaitForever
         | e # q \<Rightarrow>
             if etime e = - 1 then Moved timer WaitForever
             else if etime e \<le> current_time then Fired e (timer\<lparr>eventQ := q\<rparr>)
             else Moved timer (WaitUntil (etime e)))
   | WaitUntil t \<Rightarrow>
       if \<not> newEvent timer \<and> current_time < t then Blocked
       else if shutdown timer then Moved timer Returned
       else Moved (timer\<lparr>newEvent := False\<rparr>) Top
   | WaitForever \<Rightarrow>
       if \<not> newEvent timer then Blocked
       else if shutdown timer then Moved timer Returned
       else Moved (timer\<lparr>newEvent := False\<rparr>) Top
   | Returned \<Rightarrow> Blocked)"

section \<open>Stopping\<close>

text \<open>
  The critical sections of \<^verbatim>\<open>StopTimerThread\<close>: setting the flag, taking the next event off
  the queue to run its callback outside the mutex, and the final signal.
\<close>

definition stop_begin :: "timer_thread_struct \<Rightarrow> timer_thread_struct" where
  "stop_begin timer = timer\<lparr>shutdown := True\<rparr>"

definition stop_take :: "timer_thread_struct \<Rightarrow> (timer_event \<times> timer_thread_struct) option" where
  "stop_take timer =
     (case eventQ timer of [] \<Rightarrow> None | e # q \<Rightarrow> Some (e, timer\<lparr>eventQ := q\<rparr>))"

definition stop_end :: "timer_thread_struct \<Rightarrow> timer_thread_struct" where
  "stop_end timer = timer\<lparr>newEvent := True\<rparr>"

section \<open>The system\<close>

datatype stop_pc = NotStopping | Stopping | Stopped

text \<open>
  The timer with its thread, the clock, the progress of \<^verbatim>\<open>StopTimerThread\<close> (\<open>Stopped\<close> is
  after it destroyed the mutex), and a history: the events accepted, handed to the thread pool
  (with the time), run by \<^verbatim>\<open>StopTimerThread\<close>, and removed.
\<close>

record timer_sys =
  tm :: timer_thread_struct
  tpc :: thread_pc
  clock :: int
  stopping :: stop_pc
  accepted :: "timer_event list"
  fired :: "(timer_event \<times> int) list"
  flushed :: "timer_event list"
  removed :: "timer_event list"

definition timer_start :: "int \<Rightarrow> timer_sys" where
  "timer_start t = \<lparr>tm = snd (InitTimerThread True), tpc = Top, clock = t, stopping = NotStopping,
     accepted = [], fired = [], flushed = [], removed = []\<rparr>"

text \<open>
  A caller reads the clock before it takes the mutex, so the expiry time it computes may be
  based on an earlier time \<open>t0\<close>; expiry times are not negative.
\<close>

inductive timer_step :: "timer_sys \<Rightarrow> timer_sys \<Rightarrow> bool" where
  tick: "0 \<le> d \<Longrightarrow> timer_step s (s\<lparr>clock := clock s + d\<rparr>)"
| schedule: "t0 \<le> clock s \<Longrightarrow> 0 \<le> t0 + TimeOut \<Longrightarrow> stopping s \<noteq> Stopped \<Longrightarrow>
    ScheduleTimerEvent mem_ok t0 TimeOut cb arg (tm s) = (r, ev, tm') \<Longrightarrow>
    timer_step s (s\<lparr>tm := tm',
      accepted := (case ev of None \<Rightarrow> accepted s | Some e \<Rightarrow> e # accepted s)\<rparr>)"
| remove: "stopping s \<noteq> Stopped \<Longrightarrow> RemoveTimerEvent i arg0 (tm s) = (found, a, ev, tm') \<Longrightarrow>
    timer_step s (s\<lparr>tm := tm',
      removed := (case ev of None \<Rightarrow> removed s | Some e \<Rightarrow> e # removed s)\<rparr>)"
| thread_move: "TimerThread_step (clock s) (tm s) (tpc s) = Moved tm' pc' \<Longrightarrow>
    timer_step s (s\<lparr>tm := tm', tpc := pc'\<rparr>)"
| thread_fire: "TimerThread_step (clock s) (tm s) (tpc s) = Fired e tm' \<Longrightarrow>
    timer_step s (s\<lparr>tm := tm', tpc := Top, fired := (e, clock s) # fired s\<rparr>)"
| stop_starts: "stopping s = NotStopping \<Longrightarrow>
    timer_step s (s\<lparr>tm := stop_begin (tm s), stopping := Stopping\<rparr>)"
| stop_takes: "stopping s = Stopping \<Longrightarrow> stop_take (tm s) = Some (e, tm') \<Longrightarrow>
    timer_step s (s\<lparr>tm := tm', flushed := e # flushed s\<rparr>)"
| stop_ends: "stopping s = Stopping \<Longrightarrow> stop_take (tm s) = None \<Longrightarrow>
    timer_step s (s\<lparr>tm := stop_end (tm s), stopping := Stopped\<rparr>)"

inductive timer_reachable :: "timer_sys \<Rightarrow> bool" where
  start: "timer_reachable (timer_start t)"
| step: "timer_reachable s \<Longrightarrow> timer_step s s' \<Longrightarrow> timer_reachable s'"

section \<open>The queue\<close>

definition by_time :: "timer_event list \<Rightarrow> bool" where
  "by_time q = sorted_wrt (\<lambda>a b. etime a \<le> etime b) q"

lemma insert_event_eq: "insert_event e q =
    takeWhile (\<lambda>f. etime f < etime e) q @ e # dropWhile (\<lambda>f. etime f < etime e) q"
  by (induction q) auto

lemma set_insert_event [simp]: "set (insert_event e q) = insert e (set q)"
  and mset_insert_event [simp]: "mset (insert_event e q) = add_mset e (mset q)"
  by (induction q) auto

lemma by_time_insert: "by_time q \<Longrightarrow> by_time (insert_event e q)"
  unfolding by_time_def by (induction q) auto

lemma remove_event_Some: "remove_event i q = Some (e, r) \<Longrightarrow>
    eventId e = i \<and> mset q = add_mset e (mset r) \<and> set r \<subseteq> set q \<and> (by_time q \<longrightarrow> by_time r)"
  by (induction q arbitrary: r) (auto simp: by_time_def subset_iff split: if_splits)

lemma remove_event_None: "remove_event i q = None \<longleftrightarrow> (\<forall>e \<in> set q. eventId e \<noteq> i)"
  by (induction q) auto

lemma remove_event_first: "remove_event i q = Some (e, r) \<Longrightarrow>
    \<exists>pre post. q = pre @ e # post \<and> r = pre @ post \<and> eventId e = i \<and> (\<forall>f \<in> set pre. eventId f \<noteq> i)"
proof (induction q arbitrary: r)
  case (Cons f q)
  show ?case
  proof (cases "eventId f = i")
    case True
    then show ?thesis using Cons.prems by (intro exI [of _ "[]"] exI [of _ r]) auto
  next
    case False
    then obtain r' where r': "remove_event i q = Some (e, r')" "r = f # r'"
      using Cons.prems by auto
    obtain pre post where "q = pre @ e # post" "r' = pre @ post" "eventId e = i"
        "\<forall>f \<in> set pre. eventId f \<noteq> i"
      using Cons.IH [OF r'(1)] by blast
    then show ?thesis using False r'(2) by (intro exI [of _ "f # pre"] exI [of _ post]) auto
  qed
qed simp

section \<open>The invariant\<close>

definition queue_inv :: "timer_thread_struct \<Rightarrow> bool" where
  "queue_inv timer = (by_time (eventQ timer) \<and> 0 \<le> sint (currentEventId timer) \<and>
     (\<forall>e \<in> set (eventQ timer). 0 \<le> etime e \<and> 0 \<le> sint (eventId e)))"

text \<open>A thread that waits without a pending signal has nothing to do before its deadline.\<close>

definition wakeup_inv :: "timer_thread_struct \<Rightarrow> thread_pc \<Rightarrow> bool" where
  "wakeup_inv timer pc = (newEvent timer \<or> (case pc of
     WaitUntil t \<Rightarrow> \<forall>e \<in> set (eventQ timer). t \<le> etime e
   | WaitForever \<Rightarrow> eventQ timer = [] | _ \<Rightarrow> True))"

definition history_inv :: "timer_sys \<Rightarrow> bool" where
  "history_inv s = (mset (accepted s) =
     mset (eventQ (tm s)) + mset (map fst (fired s)) + mset (flushed s) + mset (removed s) \<and>
     (\<forall>(e, t) \<in> set (fired s). etime e \<le> t))"

definition stop_inv :: "timer_sys \<Rightarrow> bool" where
  "stop_inv s = (shutdown (tm s) = (stopping s \<noteq> NotStopping) \<and>
     (stopping s = Stopped \<longrightarrow> eventQ (tm s) = [] \<and> newEvent (tm s)) \<and>
     (tpc s = Returned \<longrightarrow> shutdown (tm s)))"

definition timer_inv :: "timer_sys \<Rightarrow> bool" where
  "timer_inv s = (queue_inv (tm s) \<and> wakeup_inv (tm s) (tpc s) \<and> history_inv s \<and> stop_inv s)"

lemmas timer_inv_defs = timer_inv_def queue_inv_def wakeup_inv_def history_inv_def stop_inv_def

lemma timer_inv_schedule:
  assumes "timer_inv s" "0 \<le> t0 + TimeOut" "stopping s \<noteq> Stopped"
    and "ScheduleTimerEvent mem_ok t0 TimeOut cb arg (tm s) = (r, ev, tm')"
  shows "timer_inv (s\<lparr>tm := tm', accepted := (case ev of None \<Rightarrow> accepted s | Some e \<Rightarrow> e # accepted s)\<rparr>)"
proof (cases "mem_ok \<and> \<not> shutdown (tm s)")
  case True
  then show ?thesis
    using assms by (auto simp: ScheduleTimerEvent_def Let_def timer_inv_defs by_time_insert)
next
  case False
  then have "tm' = tm s" "ev = None" using assms(4) by (auto simp: ScheduleTimerEvent_def split: if_splits)
  then show ?thesis using assms(1) by (auto simp: timer_inv_defs)
qed

lemma timer_inv_remove:
  assumes "timer_inv s" "RemoveTimerEvent i arg0 (tm s) = (found, a, ev, tm')"
  shows "timer_inv (s\<lparr>tm := tm', removed := (case ev of None \<Rightarrow> removed s | Some e \<Rightarrow> e # removed s)\<rparr>)"
proof (cases "i = - 1 \<or> remove_event i (eventQ (tm s)) = None")
  case True
  then have "tm' = tm s" "ev = None" using assms(2) by (auto simp: RemoveTimerEvent_def split: if_splits)
  then show ?thesis using assms(1) by (auto simp: timer_inv_defs)
next
  case False
  then obtain e q where e: "remove_event i (eventQ (tm s)) = Some (e, q)" by auto
  then have "tm' = (tm s)\<lparr>eventQ := q\<rparr>" "ev = Some e"
    using assms(2) False by (auto simp: RemoveTimerEvent_def)
  then show ?thesis
    using assms(1) remove_event_Some [OF e]
    by (auto simp: timer_inv_defs split: thread_pc.splits)
qed

lemma timer_inv_move:
  assumes "timer_inv s" "TimerThread_step (clock s) (tm s) (tpc s) = Moved tm' pc'"
  shows "timer_inv (s\<lparr>tm := tm', tpc := pc'\<rparr>)"
proof (cases "tpc s = Top")
  case True
  then show ?thesis
    using assms by (cases "eventQ (tm s)")
      (auto simp: TimerThread_step_def timer_inv_defs by_time_def split: if_splits)
next
  case False
  then show ?thesis
    using assms
    by (auto simp: TimerThread_step_def timer_inv_defs split: if_splits thread_pc.splits)
qed

lemma timer_inv_fire:
  assumes "timer_inv s" "TimerThread_step (clock s) (tm s) (tpc s) = Fired e tm'"
  shows "timer_inv (s\<lparr>tm := tm', tpc := Top, fired := (e, clock s) # fired s\<rparr>)"
proof -
  obtain q where q: "eventQ (tm s) = e # q" "tm' = (tm s)\<lparr>eventQ := q\<rparr>" "etime e \<le> clock s"
      "\<not> shutdown (tm s)"
    using assms(2) by (auto simp: TimerThread_step_def split: if_splits thread_pc.splits list.splits)
  then show ?thesis using assms(1) by (auto simp: timer_inv_defs by_time_def)
qed

lemma timer_inv_take:
  assumes "timer_inv s" "stopping s = Stopping" "stop_take (tm s) = Some (e, tm')"
  shows "timer_inv (s\<lparr>tm := tm', flushed := e # flushed s\<rparr>)"
proof -
  obtain q where q: "eventQ (tm s) = e # q" "tm' = (tm s)\<lparr>eventQ := q\<rparr>"
    using assms(3) by (auto simp: stop_take_def split: list.splits)
  then show ?thesis using assms(1,2) by (auto simp: timer_inv_defs by_time_def split: thread_pc.splits)
qed

lemma timer_step_inv: "timer_step s s' \<Longrightarrow> timer_inv s \<Longrightarrow> timer_inv s'"
proof (induction rule: timer_step.induct)
  case (tick d s)
  then show ?case by (auto simp: timer_inv_defs)
next
  case (stop_starts s)
  then show ?case by (auto simp: timer_inv_defs stop_begin_def split: thread_pc.splits)
next
  case (stop_ends s)
  then show ?case by (auto simp: timer_inv_defs stop_end_def stop_take_def split: list.splits)
qed (rule timer_inv_schedule timer_inv_remove timer_inv_move timer_inv_fire timer_inv_take; assumption)+

lemma timer_start_inv: "timer_inv (timer_start t)"
  by (simp add: timer_inv_defs timer_start_def InitTimerThread_def by_time_def)

lemma timer_reachable_inv: "timer_reachable s \<Longrightarrow> timer_inv s"
  by (induction rule: timer_reachable.induct) (auto intro: timer_start_inv timer_step_inv)

lemmas reachable_facts = timer_reachable_inv [unfolded timer_inv_defs]

section \<open>Properties\<close>

text \<open>
  C21. Every event the timer accepted is, at any time, in exactly one place: still queued, handed
  to the thread pool, run by \<open>StopTimerThread\<close>, or removed by its owner.
\<close>

theorem timer_conserves_events:
  assumes "timer_reachable s"
  shows "mset (accepted s) =
    mset (eventQ (tm s)) + mset (map fst (fired s)) + mset (flushed s) + mset (removed s)"
  using reachable_facts [OF assms] by blast

text \<open>The thread never hands an event to the pool before its expiry time.\<close>

theorem timer_never_early:
  assumes "timer_reachable s" "(e, t) \<in> set (fired s)"
  shows "etime e \<le> t"
  using reachable_facts [OF assms(1)] assms(2) by blast

text \<open>
  C22. No wake-up is lost: whenever an event is due and the timer is not shutting down, the
  thread is not blocked, and within two of its own steps it hands over the head of the queue,
  which is due as well.
\<close>

theorem timer_no_lost_wakeup:
  assumes r: "timer_reachable s" and e: "e \<in> set (eventQ (tm s))" "etime e \<le> clock s"
    and run: "\<not> shutdown (tm s)"
  shows "\<exists>tm1 tm2. (tpc s = Top \<and> tm1 = tm s \<or> TimerThread_step (clock s) (tm s) (tpc s) = Moved tm1 Top) \<and>
    TimerThread_step (clock s) tm1 Top = Fired (hd (eventQ (tm s))) tm2 \<and>
    eventQ tm2 = tl (eventQ (tm s)) \<and> etime (hd (eventQ (tm s))) \<le> clock s"
proof -
  note i = reachable_facts [OF r]
  obtain f q where q: "eventQ (tm s) = f # q" using e(1) by (cases "eventQ (tm s)") auto
  have f: "etime f \<le> etime e" "0 \<le> etime f" using i q e(1) by (auto simp: by_time_def)
  have fire: "TimerThread_step (clock s) ((tm s)\<lparr>newEvent := b\<rparr>) Top =
      Fired f ((tm s)\<lparr>newEvent := b, eventQ := q\<rparr>)" for b
    using q f e(2) run by (simp add: TimerThread_step_def)
  show ?thesis
  proof (cases "tpc s = Top")
    case True
    then show ?thesis using fire [of "newEvent (tm s)"] q f e(2) by simp
  next
    case False
    have "TimerThread_step (clock s) (tm s) (tpc s) = Moved ((tm s)\<lparr>newEvent := False\<rparr>) Top"
      using False i run e q by (force simp: TimerThread_step_def split: thread_pc.splits)
    then show ?thesis using fire [of False] q f e(2) by auto
  qed
qed

text \<open>
  \<open>ScheduleTimerEvent\<close> refuses when out of memory or shutting down; otherwise it puts the
  event behind the ones that expire strictly earlier (so before those with the same time),
  keeps the queue sorted and the identifier counter non-negative, and signals the thread.
\<close>

theorem ScheduleTimerEvent_places:
  assumes "by_time (eventQ timer)" "ScheduleTimerEvent mem_ok t0 TimeOut cb arg timer = (r, ev, timer')"
  shows "if \<not> mem_ok then r = UPNP_E_OUTOF_MEMORY \<and> timer' = timer
    else if shutdown timer then r = UPNP_E_INVALID_PARAM \<and> timer' = timer
    else r = UPNP_E_SUCCESS \<and> newEvent timer' \<and> by_time (eventQ timer') \<and>
      0 \<le> sint (currentEventId timer') \<and>
      (\<exists>e. ev = Some e \<and> etime e = t0 + TimeOut \<and> eventId e = currentEventId timer \<and>
        eventQ timer' = takeWhile (\<lambda>f. etime f < t0 + TimeOut) (eventQ timer) @
          e # dropWhile (\<lambda>f. etime f < t0 + TimeOut) (eventQ timer))"
  using assms by_time_insert [OF assms(1), of "\<lparr>etime = t0 + TimeOut, callback = cb, argument = arg,
    eventId = currentEventId timer\<rparr>"]
  by (auto simp: ScheduleTimerEvent_def insert_event_eq Let_def split: if_splits)

text \<open>
  A pending event can always be cancelled: its identifier is never the reserved \<open>-1\<close>, and
  \<open>RemoveTimerEvent\<close> finds it or an earlier event with the same identifier, returns that
  event's argument, and takes exactly that one out of the queue.
\<close>

theorem RemoveTimerEvent_cancels:
  assumes "timer_reachable s" "e \<in> set (eventQ (tm s))"
  shows "eventId e \<noteq> - 1 \<and> (\<exists>f pre post. eventQ (tm s) = pre @ f # post \<and> eventId f = eventId e \<and>
    (\<forall>g \<in> set pre. eventId g \<noteq> eventId e) \<and>
    RemoveTimerEvent (eventId e) a (tm s) =
      (True, argument f, Some f, (tm s)\<lparr>eventQ := pre @ post\<rparr>))"
proof -
  have ne: "eventId e \<noteq> - 1" using reachable_facts [OF assms(1)] assms(2) by force
  have "remove_event (eventId e) (eventQ (tm s)) \<noteq> None"
    using assms(2) by (auto simp: remove_event_None)
  then obtain f q where f: "remove_event (eventId e) (eventQ (tm s)) = Some (f, q)" by auto
  show ?thesis
    using remove_event_first [OF f] ne f by (auto simp: RemoveTimerEvent_def)
qed

text \<open>
  Once \<open>StopTimerThread\<close> is through, no event is left, the thread can hand over none, and
  new events are refused.
\<close>

theorem timer_stop_complete:
  assumes "timer_reachable s" "stopping s = Stopped"
  shows "eventQ (tm s) = [] \<and> (\<forall>e tm'. TimerThread_step (clock s) (tm s) (tpc s) \<noteq> Fired e tm') \<and>
    ScheduleTimerEvent True t0 TimeOut cb arg (tm s) = (UPNP_E_INVALID_PARAM, None, tm s)"
  using reachable_facts [OF assms(1)] assms(2)
  by (auto simp: TimerThread_step_def ScheduleTimerEvent_def split: thread_pc.splits)

text \<open>
  \<open>StopTimerThread\<close> destroys the mutex without waiting for the thread: a state is reachable
  in which it has returned while the thread is still inside its wait, from which it will wake up
  and use the mutex.
\<close>

theorem StopTimerThread_destroys_mutex_in_use:
  "\<exists>s. timer_reachable s \<and> stopping s = Stopped \<and> tpc s = WaitForever \<and>
    TimerThread_step (clock s) (tm s) (tpc s) = Moved (tm s) Returned"
proof -
  let ?s0 = "timer_start 0"
  let ?s1 = "?s0\<lparr>tpc := WaitForever\<rparr>"
  let ?s2 = "?s1\<lparr>tm := stop_begin (tm ?s1), stopping := Stopping\<rparr>"
  let ?s3 = "?s2\<lparr>tm := stop_end (tm ?s2), stopping := Stopped\<rparr>"
  have d: "tm ?s0 = \<lparr>newEvent = False, shutdown = False, currentEventId = 0, eventQ = []\<rparr>"
    "tpc ?s0 = Top" "stopping ?s0 = NotStopping"
    by (simp_all add: timer_start_def InitTimerThread_def)
  have "timer_step ?s0 (?s0\<lparr>tm := tm ?s0, tpc := WaitForever\<rparr>)"
    by (rule thread_move) (simp add: d TimerThread_step_def)
  then have "timer_reachable ?s1" by (auto intro: timer_reachable.intros)
  moreover have "timer_step ?s1 ?s2" by (rule stop_starts) (simp add: d)
  moreover have "timer_step ?s2 ?s3" by (rule stop_ends) (simp_all add: d stop_take_def stop_begin_def)
  ultimately have "timer_reachable ?s3" by (blast intro: timer_reachable.intros)
  moreover have "TimerThread_step (clock ?s3) (tm ?s3) (tpc ?s3) = Moved (tm ?s3) Returned"
    by (simp add: d stop_begin_def stop_end_def TimerThread_step_def)
  ultimately show ?thesis by (intro exI [of _ ?s3]) simp
qed

section \<open>Witnesses\<close>

text \<open>One event scheduled at time 0 for time 5, with the clock at 7.\<close>

definition one_event :: timer_event where
  "one_event = \<lparr>etime = 5, callback = 1, argument = 2, eventId = 0\<rparr>"

definition one_event_sys :: timer_sys where
  "one_event_sys = (timer_start 0)\<lparr>clock := 7, accepted := [one_event],
     tm := \<lparr>newEvent = True, shutdown = False, currentEventId = 1, eventQ = [one_event]\<rparr>\<rparr>"

definition fired_sys :: timer_sys where
  "fired_sys = one_event_sys\<lparr>fired := [(one_event, 7)],
     tm := \<lparr>newEvent = True, shutdown = False, currentEventId = 1, eventQ = []\<rparr>\<rparr>"

lemma one_event_reachable: "timer_reachable one_event_sys"
proof -
  let ?s1 = "(timer_start 0)\<lparr>clock := clock (timer_start 0) + 7\<rparr>"
  have "timer_step ?s1 (?s1\<lparr>tm := \<lparr>newEvent = True, shutdown = False, currentEventId = 1, eventQ = [one_event]\<rparr>,
      accepted := (case Some one_event of None \<Rightarrow> accepted ?s1 | Some e \<Rightarrow> e # accepted ?s1)\<rparr>)"
    by (rule schedule [of 0 _ 5 True 1 2 UPNP_E_SUCCESS])
      (simp_all add: timer_start_def InitTimerThread_def ScheduleTimerEvent_def one_event_def Let_def)
  moreover have "timer_reachable ?s1"
    by (rule timer_reachable.step [OF timer_reachable.start tick]) simp
  ultimately have "timer_reachable (?s1\<lparr>tm := \<lparr>newEvent = True, shutdown = False, currentEventId = 1,
      eventQ = [one_event]\<rparr>, accepted := (case Some one_event of None \<Rightarrow> accepted ?s1 | Some e \<Rightarrow> e # accepted ?s1)\<rparr>)"
    by (blast intro: timer_reachable.step)
  then show ?thesis by (simp add: one_event_sys_def timer_start_def)
qed

lemma fired_reachable: "timer_reachable fired_sys"
proof -
  have "timer_step one_event_sys (one_event_sys\<lparr>tm := tm fired_sys, tpc := Top,
      fired := (one_event, clock one_event_sys) # fired one_event_sys\<rparr>)"
    by (rule thread_fire)
      (simp add: fired_sys_def one_event_sys_def timer_start_def TimerThread_step_def one_event_def)
  then have "timer_reachable (one_event_sys\<lparr>tm := tm fired_sys, tpc := Top,
      fired := (one_event, clock one_event_sys) # fired one_event_sys\<rparr>)"
    using one_event_reachable by (blast intro: timer_reachable.step)
  then show ?thesis by (simp add: fired_sys_def one_event_sys_def timer_start_def)
qed

definition stopped_sys :: timer_sys where
  "stopped_sys = (timer_start 0)\<lparr>stopping := Stopped,
     tm := \<lparr>newEvent = True, shutdown = True, currentEventId = 0, eventQ = []\<rparr>\<rparr>"

lemma stopped_reachable: "timer_reachable stopped_sys"
proof -
  let ?s0 = "timer_start 0"
  let ?s2 = "?s0\<lparr>tm := stop_begin (tm ?s0), stopping := Stopping\<rparr>"
  let ?s3 = "?s2\<lparr>tm := stop_end (tm ?s2), stopping := Stopped\<rparr>"
  have "timer_step ?s0 ?s2" by (rule stop_starts) (simp add: timer_start_def)
  moreover have "timer_step ?s2 ?s3"
    by (rule stop_ends) (simp_all add: timer_start_def InitTimerThread_def stop_take_def stop_begin_def)
  ultimately have "timer_reachable ?s3" by (blast intro: timer_reachable.intros)
  then show ?thesis
    by (simp add: stopped_sys_def timer_start_def InitTimerThread_def stop_begin_def stop_end_def)
qed

lemma timer_conserves_events_witness:
  "mset (accepted fired_sys) = mset (eventQ (tm fired_sys)) + mset (map fst (fired fired_sys)) +
    mset (flushed fired_sys) + mset (removed fired_sys) \<and> accepted fired_sys = [one_event]"
  using timer_conserves_events [OF fired_reachable] by (simp add: fired_sys_def one_event_sys_def)

lemma timer_never_early_witness: "etime one_event \<le> 7"
  by (rule timer_never_early [OF fired_reachable]) (simp add: fired_sys_def)

lemma timer_no_lost_wakeup_witness:
  "\<exists>tm2. TimerThread_step 7 (tm one_event_sys) Top = Fired one_event tm2"
  using timer_no_lost_wakeup [OF one_event_reachable, of one_event]
  by (auto simp: one_event_sys_def timer_start_def one_event_def TimerThread_step_def)

lemma ScheduleTimerEvent_places_witness:
  "\<exists>r ev timer'. ScheduleTimerEvent True 0 5 9 9 (tm one_event_sys) = (r, ev, timer') \<and>
    length (eventQ timer') = 2 \<and> eventQ timer' ! 1 = one_event"
proof -
  have "by_time (eventQ (tm one_event_sys))" by (simp add: one_event_sys_def by_time_def)
  moreover obtain r ev t where e: "ScheduleTimerEvent True 0 5 9 9 (tm one_event_sys) = (r, ev, t)"
    by (cases "ScheduleTimerEvent True 0 5 9 9 (tm one_event_sys)") auto
  ultimately show ?thesis
    using ScheduleTimerEvent_places [OF _ e] by (auto simp: one_event_sys_def one_event_def)
qed

lemma RemoveTimerEvent_cancels_witness:
  "\<exists>timer'. RemoveTimerEvent 0 99 (tm one_event_sys) = (True, 2, Some one_event, timer')"
  using RemoveTimerEvent_cancels [OF one_event_reachable, of one_event 99]
  by (auto simp: one_event_sys_def one_event_def Cons_eq_append_conv)

lemma timer_stop_complete_witness:
  "eventQ (tm stopped_sys) = [] \<and>
    ScheduleTimerEvent True 1 2 3 4 (tm stopped_sys) = (UPNP_E_INVALID_PARAM, None, tm stopped_sys)"
  using timer_stop_complete [OF stopped_reachable, of 1 2 3 4] by (simp add: stopped_sys_def)

end
