(* ===== verification/Keyed_List.thy ===== *)
theory Keyed_List imports Prelude begin

text \<open>
  The interface of the subscription lists: a linked list searched by an identifier, from which
  the first entry with an identifier can be unlinked.  Both subscription tables implement it;
  the facts about lookups after a removal are proved here once.
\<close>

locale keyed_list =
  fixes key :: "'r \<Rightarrow> string"
    and lookup :: "string \<Rightarrow> 'r list \<Rightarrow> nat option"
    and unlink :: "string \<Rightarrow> 'r list \<Rightarrow> 'r list"
  assumes lookup_None: "lookup k xs = None \<longleftrightarrow> (\<forall>x \<in> set xs. key x \<noteq> k)"
    and lookup_Some: "lookup k xs = Some i \<longleftrightarrow>
      i < length xs \<and> key (xs ! i) = k \<and> (\<forall>j < i. key (xs ! j) \<noteq> k)"
    and unlink_None: "lookup k xs = None \<Longrightarrow> unlink k xs = xs"
    and unlink_Some: "lookup k xs = Some i \<Longrightarrow> unlink k xs = take i xs @ drop (Suc i) xs"
begin

text \<open>The record found under an identifier.\<close>

definition get :: "string \<Rightarrow> 'r list \<Rightarrow> 'r option" where
  "get k xs = map_option ((!) xs) (lookup k xs)"

lemma get_None: "get k xs = None \<longleftrightarrow> k \<notin> key ` set xs"
  by (auto simp: get_def lookup_None)

lemma split_at: "lookup k xs = Some i \<Longrightarrow>
    \<exists>a x b. xs = a @ x # b \<and> unlink k xs = a @ b \<and> key x = k \<and> (\<forall>y \<in> set a. key y \<noteq> k) \<and> length a = i"
  using lookup_Some [of k xs i] unlink_Some [of k xs i]
  by (intro exI [of _ "take i xs"] exI [of _ "xs ! i"] exI [of _ "drop (Suc i) xs"])
    (auto simp: id_take_nth_drop [symmetric] in_set_conv_nth)

lemma find_skip: "\<forall>y \<in> set a. \<not> P y \<Longrightarrow> find P (a @ b) = find P b"
  by (induction a) auto

lemma find_cut: "\<not> P x \<Longrightarrow> find P (a @ x # b) = find P (a @ b)"
  by (induction a) auto

lemma get_find: "get k xs = find (\<lambda>x. key x = k) xs"
proof (cases "lookup k xs")
  case None
  then have "find (\<lambda>x. key x = k) xs = None" using lookup_None [of k xs] by (auto simp: find_None_iff)
  with None show ?thesis by (simp add: get_def)
next
  case (Some i)
  then obtain a x b where "xs = a @ x # b" "key x = k" "\<forall>y \<in> set a. key y \<noteq> k" "length a = i"
    using split_at by blast
  with Some show ?thesis by (auto simp: get_def find_skip)
qed

lemma unlink_set: "set (unlink k xs) \<subseteq> set xs"
proof (cases "lookup k xs")
  case (Some i)
  then show ?thesis using split_at [OF Some] by auto
qed (simp add: unlink_None)

lemma unlink_length: "k \<in> key ` set xs \<Longrightarrow> length xs = Suc (length (unlink k xs))"
proof -
  assume "k \<in> key ` set xs"
  then obtain i where "lookup k xs = Some i" using lookup_None [of k xs] by fastforce
  then show ?thesis using split_at by fastforce
qed

lemma get_unlink_other: "k \<noteq> l \<Longrightarrow> get l (unlink k xs) = get l xs"
proof (cases "lookup k xs")
  case (Some i)
  assume "k \<noteq> l"
  then show ?thesis using split_at [OF Some] by (auto simp: get_find find_cut)
qed (simp add: unlink_None)

lemma distinct_unlink: "distinct (map key xs) \<Longrightarrow>
    distinct (map key (unlink k xs)) \<and> set (unlink k xs) = {x \<in> set xs. key x \<noteq> k}"
proof (cases "lookup k xs")
  case (Some i)
  assume d: "distinct (map key xs)"
  obtain a x b where "xs = a @ x # b" "unlink k xs = a @ b" "key x = k" "\<forall>y \<in> set a. key y \<noteq> k"
    using split_at [OF Some] by blast
  with d show ?thesis by (auto simp: image_iff)
qed (auto simp: unlink_None lookup_None)

lemma get_unlink_same: "distinct (map key xs) \<Longrightarrow> get k (unlink k xs) = None"
  using distinct_unlink [of xs k] by (auto simp: get_None)

end

text \<open>A lookup loop and an unlinking loop that satisfy the interface.\<close>

fun index_of :: "('r \<Rightarrow> bool) \<Rightarrow> 'r list \<Rightarrow> nat option" where
  "index_of P [] = None"
| "index_of P (x # xs) = (if P x then Some 0 else map_option Suc (index_of P xs))"

fun unlink_first :: "('r \<Rightarrow> bool) \<Rightarrow> 'r list \<Rightarrow> 'r list" where
  "unlink_first P [] = []"
| "unlink_first P (x # xs) = (if P x then xs else x # unlink_first P xs)"

lemma index_of_None: "index_of P xs = None \<longleftrightarrow> (\<forall>x \<in> set xs. \<not> P x)"
  by (induction xs) auto

lemma index_of_Some: "index_of P xs = Some i \<longleftrightarrow> i < length xs \<and> P (xs ! i) \<and> (\<forall>j < i. \<not> P (xs ! j))"
proof (induction xs arbitrary: i)
  case (Cons x xs)
  then show ?case by (cases i) (auto simp: less_Suc_eq_0_disj)
qed simp

lemma unlink_first_None: "index_of P xs = None \<Longrightarrow> unlink_first P xs = xs"
  by (induction xs) (auto split: if_splits)

lemma unlink_first_Some: "index_of P xs = Some i \<Longrightarrow> unlink_first P xs = take i xs @ drop (Suc i) xs"
  by (induction xs arbitrary: i) (auto split: if_splits)

lemma keyed_list_loops:
  "keyed_list key (\<lambda>k. index_of (\<lambda>x. key x = k)) (\<lambda>k. unlink_first (\<lambda>x. key x = k))"
  by unfold_locales (auto simp: index_of_None index_of_Some unlink_first_None unlink_first_Some)

end
