(* ===== verification/Client_Table.thy ===== *)
theory Client_Table imports Keyed_List Timer Http_Scan begin

text \<open>
  The control point's subscriptions (\<^verbatim>\<open>genlib/client_table/client_table.c\<close>): a list of
  records, each with the identifier the client sees, the identifier and URL of the device, and
  the timer event that will renew it.  A pointer into the list is a position; the C strings are
  given without their NUL.
\<close>

record client_subscription =
  csid :: string
  ActualSID :: string
  EventURL :: string
  RenewEventId :: "32 word"

definition SID_SIZE :: nat where "SID_SIZE = 41"

text \<open>\<open>A0\<close> and \<open>A1\<close> are the answers of the two allocations.\<close>

definition copy_client_subscription ::
  "bool \<Rightarrow> bool \<Rightarrow> client_subscription \<Rightarrow> client_subscription option" where
  "copy_client_subscription A0 A1 inp =
     (if A0 \<and> A1
      then Some \<lparr>csid = take SID_SIZE (csid inp), ActualSID = ActualSID inp,
                 EventURL = EventURL inp, RenewEventId = - 1\<rparr>
      else None)"

text \<open>Freeing a record cancels its renewal: the effect on the timer.\<close>

definition free_client_subscription :: "client_subscription \<Rightarrow> timer_thread_struct \<Rightarrow> timer_thread_struct" where
  "free_client_subscription sub timer = snd (snd (snd (RemoveTimerEvent (RenewEventId sub) 0 timer)))"

fun freeClientSubList :: "client_subscription list \<Rightarrow> timer_thread_struct \<Rightarrow> timer_thread_struct" where
  "freeClientSubList [] timer = timer"
| "freeClientSubList (c # cs) timer = freeClientSubList cs (free_client_subscription c timer)"

fun RemoveClientSubClientSID ::
  "client_subscription list \<Rightarrow> string \<Rightarrow> timer_thread_struct \<Rightarrow>
     client_subscription list \<times> timer_thread_struct" where
  "RemoveClientSubClientSID [] sid timer = ([], timer)"
| "RemoveClientSubClientSID (c # cs) sid timer =
     (if sid = csid c then (cs, freeClientSubList [c] timer)
      else (let (r, timer') = RemoveClientSubClientSID cs sid timer in (c # r, timer')))"

fun GetClientSubClientSID :: "client_subscription list \<Rightarrow> string \<Rightarrow> nat option" where
  "GetClientSubClientSID [] sid = None"
| "GetClientSubClientSID (c # cs) sid =
     (if csid c = sid then Some 0 else map_option Suc (GetClientSubClientSID cs sid))"

text \<open>
  \<^verbatim>\<open>memcmp\<close> reads \<open>size\<close> bytes of the stored identifier and of the token; the outer option
  is the fault, the inner one NULL.
\<close>

fun GetClientSubActualSID :: "mem \<Rightarrow> client_subscription list \<Rightarrow> token \<Rightarrow> nat option option" where
  "GetClientSubActualSID M [] sid = Some None"
| "GetClientSubActualSID M (c # cs) sid = do {
     d \<leftarrow> memcmp (ActualSID c @ [NUL]) (tok_bytes M sid) (size_t (tsize sid));
     if d = 0 then Some (Some 0)
     else map_option (map_option Suc) (GetClientSubActualSID M cs sid) }"

section \<open>The interface\<close>

lemma get_client_index: "GetClientSubClientSID cs sid = index_of (\<lambda>c. csid c = sid) cs"
  by (induction cs) auto

lemma remove_client_list: "fst (RemoveClientSubClientSID cs sid timer) = unlink_first (\<lambda>c. csid c = sid) cs"
  by (induction cs) (auto split: prod.splits)

definition unlink_client :: "string \<Rightarrow> client_subscription list \<Rightarrow> client_subscription list" where
  "unlink_client sid cs = fst (RemoveClientSubClientSID cs sid
     \<lparr>newEvent = False, shutdown = False, currentEventId = 0, eventQ = []\<rparr>)"

lemma remove_client_fst: "fst (RemoveClientSubClientSID cs sid timer) = unlink_client sid cs"
  by (simp add: unlink_client_def remove_client_list)

interpretation client_subs: keyed_list csid "\<lambda>sid cs. GetClientSubClientSID cs sid" unlink_client
  using keyed_list_loops [of csid]
  by (simp add: get_client_index [abs_def] unlink_client_def [abs_def] remove_client_list [abs_def])

section \<open>Properties\<close>

text \<open>The timer after the removal: only the renewal of the removed record is cancelled.\<close>

lemma remove_client_timer:
  "snd (RemoveClientSubClientSID cs sid timer) =
    (case find (\<lambda>c. csid c = sid) cs of None \<Rightarrow> timer | Some c \<Rightarrow> free_client_subscription c timer)"
  by (induction cs) (auto split: prod.splits)

text \<open>
  \<open>RemoveClientSubClientSID\<close> on a list with distinct identifiers takes out exactly the
  record asked for: it is no longer found, every other lookup gives the same record as before,
  and its renewal event, and no other, is gone from the timer.
\<close>

theorem RemoveClientSubClientSID_exact:
  assumes "distinct (map csid cs)" "RemoveClientSubClientSID cs sid timer = (cs', timer')"
  shows "GetClientSubClientSID cs' sid = None \<and> distinct (map csid cs') \<and>
    (\<forall>k. k \<noteq> sid \<longrightarrow> map_option ((!) cs') (GetClientSubClientSID cs' k)
        = map_option ((!) cs) (GetClientSubClientSID cs k)) \<and>
    timer' = (case find (\<lambda>c. csid c = sid) cs of None \<Rightarrow> timer
      | Some c \<Rightarrow> snd (snd (snd (RemoveTimerEvent (RenewEventId c) 0 timer))))"
proof -
  have cs': "cs' = unlink_client sid cs" using assms(2) remove_client_fst [of cs sid timer] by simp
  have "timer' = snd (RemoveClientSubClientSID cs sid timer)" using assms(2) by simp
  moreover have "GetClientSubClientSID cs' sid = None"
    using client_subs.get_unlink_same [OF assms(1), of sid]
    by (simp add: cs' client_subs.get_def)
  ultimately show ?thesis
    using client_subs.get_unlink_other [of sid _ cs] client_subs.distinct_unlink [OF assms(1), of sid]
    by (auto simp: cs' client_subs.get_def remove_client_timer free_client_subscription_def
        split: option.splits)
qed

text \<open>
  \<open>GetClientSubActualSID\<close> compares as many bytes as the token has, so any prefix of a stored
  identifier, the empty token included, selects the first record it is a prefix of.
\<close>

theorem GetClientSubActualSID_prefix:
  assumes "tok_ok M t" "tsize t < 2 ^ 31" "\<forall>c \<in> set cs. nat (tsize t) \<le> length (ActualSID c)"
  shows "GetClientSubActualSID M cs t =
    Some (index_of (\<lambda>c. take (nat (tsize t)) (ActualSID c) = tok_text M t) cs)"
  using assms(3)
proof (induction cs)
  case (Cons c cs)
  have n: "size_t (tsize t) = nat (tsize t)" "nat (tsize t) \<le> length (tok_bytes M t)"
    using assms(1,2) by (auto simp: tok_ok_def size_t_nonneg)
  obtain d where d: "memcmp (ActualSID c @ [NUL]) (tok_bytes M t) (nat (tsize t)) = Some d"
      "d = 0 \<longleftrightarrow> take (nat (tsize t)) (ActualSID c) = tok_text M t"
    using memcmp_eq [of "nat (tsize t)" "ActualSID c @ [NUL]" "tok_bytes M t"] n Cons.prems
    by (auto simp: tok_text_def)
  then show ?case using Cons n by simp
qed simp

text \<open>
  A token longer than a stored identifier makes \<open>memcmp\<close> read past the end of it.
\<close>

theorem GetClientSubActualSID_overread:
  assumes "tok_ok M t" "length (ActualSID c) + 1 < nat (tsize t)" "tsize t < 2 ^ 31"
  shows "GetClientSubActualSID M (c # cs) t = None"
proof -
  have "memcmp as bs n = None" if "length as < n" for as bs :: string and n
    using that by (cases "(as, bs, n)" rule: memcmp.cases) auto
  then have "memcmp (ActualSID c @ [NUL]) (tok_bytes M t) (size_t (tsize t)) = None"
    using assms by (simp add: size_t_nonneg tok_ok_def)
  then show ?thesis by simp
qed

section \<open>Witnesses\<close>

definition two_clients :: "client_subscription list" where
  "two_clients =
     [\<lparr>csid = ''a'', ActualSID = ''uuid:1'', EventURL = ''/e'', RenewEventId = - 1\<rparr>,
      \<lparr>csid = ''b'', ActualSID = ''uuid:2'', EventURL = ''/f'', RenewEventId = 0\<rparr>]"

lemma RemoveClientSubClientSID_exact_witness:
  "\<exists>cs' timer'. RemoveClientSubClientSID two_clients ''b''
      \<lparr>newEvent = False, shutdown = False, currentEventId = 1, eventQ = [one_event]\<rparr> = (cs', timer') \<and>
    GetClientSubClientSID cs' ''b'' = None \<and> eventQ timer' = []"
proof -
  let ?t = "\<lparr>newEvent = False, shutdown = False, currentEventId = 1, eventQ = [one_event]\<rparr>"
  obtain cs' timer' where r: "RemoveClientSubClientSID two_clients ''b'' ?t = (cs', timer')"
    by (cases "RemoveClientSubClientSID two_clients ''b'' ?t") auto
  have "distinct (map csid two_clients)" by (simp add: two_clients_def)
  from RemoveClientSubClientSID_exact [OF this r] r show ?thesis
    by (auto simp: two_clients_def RemoveTimerEvent_def one_event_def)
qed

lemma GetClientSubActualSID_prefix_witness:
  "GetClientSubActualSID (one_obj ''uuid:2'') two_clients \<lparr>buff = Some (0, 0), tsize = 6\<rparr> = Some (Some 1)"
  by (subst GetClientSubActualSID_prefix)
    (simp_all add: tok_ok_def tok_bytes_def two_clients_def tok_text_def)

lemma GetClientSubActualSID_overread_witness:
  "GetClientSubActualSID (one_obj ''uuid:2345'') two_clients \<lparr>buff = Some (0, 0), tsize = 9\<rparr> = None"
  unfolding two_clients_def
  by (rule GetClientSubActualSID_overread) (simp_all add: tok_ok_def tok_bytes_def)

end
