(* ===== verification/Service_Table.thy ===== *)
theory Service_Table imports Keyed_List Http_Uri Http_Resolve begin

text \<open>
  The device's services and their subscriptions (\<^verbatim>\<open>genlib/service_table/service_table.c\<close>).

  Linked lists are lists, a pointer into one is a position, and C strings are given without
  their NUL.  The URL lists of the subscriptions live in the store, so the operations that copy
  or free them change it.  \<open>None\<close> as an outer result is a fault.
\<close>

section \<open>State\<close>

record subscription =
  ssid :: string
  eventKey :: "32 word"
  ToSendEventKey :: "32 word"
  expireTime :: int
  sub_active :: bool
  DeliveryURLs :: URL_list

record service_info =
  serviceType :: "string option"
  serviceId :: "string option"
  SCPDURL :: "string option"
  controlURL :: "string option"
  eventURL :: "string option"
  UDN :: "string option"
  svc_active :: bool
  TotalSubscriptions :: int
  subscriptionList :: "subscription list"

record service_table =
  URLBase :: "string option"
  serviceList :: "service_info list"

section \<open>Subscriptions\<close>

definition copy_subscription ::
  "mem \<Rightarrow> env \<Rightarrow> block \<Rightarrow> subscription \<Rightarrow> (int \<times> subscription \<times> mem) option" where
  "copy_subscription M e fresh inp = do {
     (return_code, urls, M') \<leftarrow> copy_URL_list M e fresh (DeliveryURLs inp);
     Some (return_code, inp\<lparr>ssid := take 41 (ssid inp), DeliveryURLs := urls\<rparr>, M') }"

definition freeSubscription :: "mem \<Rightarrow> subscription \<Rightarrow> mem" where
  "freeSubscription M sub = fst (free_URL_list M (DeliveryURLs sub))"

fun freeSubscriptionList :: "mem \<Rightarrow> subscription list \<Rightarrow> mem" where
  "freeSubscriptionList M [] = M"
| "freeSubscriptionList M (s # ss) = freeSubscriptionList (freeSubscription M s) ss"

text \<open>The loop that unlinks and frees the first subscription with an identifier.\<close>

fun unlink_sub :: "string \<Rightarrow> subscription list \<Rightarrow> (subscription list \<times> subscription list)" where
  "unlink_sub sid [] = ([], [])"
| "unlink_sub sid (s # ss) =
     (if sid = ssid s then (ss, [s]) else (let (r, f) = unlink_sub sid ss in (s # r, f)))"

definition RemoveSubscriptionSID :: "mem \<Rightarrow> string \<Rightarrow> service_info \<Rightarrow> service_info \<times> mem" where
  "RemoveSubscriptionSID M sid service =
     (let (r, f) = unlink_sub sid (subscriptionList service)
      in (service\<lparr>subscriptionList := r,
                  TotalSubscriptions := TotalSubscriptions service - int (length f)\<rparr>,
          freeSubscriptionList M f))"

fun find_sub :: "string \<Rightarrow> subscription list \<Rightarrow> nat option" where
  "find_sub sid [] = None"
| "find_sub sid (s # ss) = (if ssid s = sid then Some 0 else map_option Suc (find_sub sid ss))"

definition sub_expired :: "int \<Rightarrow> subscription \<Rightarrow> bool" where
  "sub_expired current_time s = (expireTime s \<noteq> 0 \<and> expireTime s < current_time)"

definition GetSubscriptionSID ::
  "int \<Rightarrow> mem \<Rightarrow> string \<Rightarrow> service_info \<Rightarrow> nat option \<times> service_info \<times> mem" where
  "GetSubscriptionSID current_time M sid service =
     (let subs = subscriptionList service in
      case find_sub sid subs of
        None \<Rightarrow> (None, service, M)
      | Some i \<Rightarrow>
          if sub_expired current_time (subs ! i)
          then (None,
                service\<lparr>subscriptionList := take i subs @ drop (Suc i) subs,
                        TotalSubscriptions := TotalSubscriptions service - 1\<rparr>,
                freeSubscriptionList M [subs ! i])
          else (Some i, service, M))"

text \<open>
  The loop of \<^verbatim>\<open>GetNextSubscription\<close> over what follows \<^verbatim>\<open>current\<close>: the subscriptions it
  passes over and keeps, those from the one it finds on, and those it frees.
\<close>

fun next_active ::
  "int \<Rightarrow> subscription list \<Rightarrow> subscription list \<times> subscription list \<times> subscription list" where
  "next_active t [] = ([], [], [])"
| "next_active t (s # ss) =
     (if sub_expired t s then (let (k, r, f) = next_active t ss in (k, r, s # f))
      else if sub_active s then ([], s # ss, [])
      else (let (k, r, f) = next_active t ss in (s # k, r, f)))"

definition next_from ::
  "int \<Rightarrow> mem \<Rightarrow> service_info \<Rightarrow> nat \<Rightarrow> nat option \<times> service_info \<times> mem" where
  "next_from t M service j =
     (let subs = subscriptionList service; (k, r, f) = next_active t (drop j subs)
      in (if r = [] then None else Some (j + length k),
          service\<lparr>subscriptionList := take j subs @ k @ r,
                  TotalSubscriptions := TotalSubscriptions service - int (length f)\<rparr>,
          freeSubscriptionList M f))"

definition GetNextSubscription ::
  "int \<Rightarrow> mem \<Rightarrow> service_info \<Rightarrow> nat option \<Rightarrow> nat option \<times> service_info \<times> mem" where
  "GetNextSubscription current_time M service current =
     (case current of None \<Rightarrow> (None, service, M) | Some i \<Rightarrow> next_from current_time M service (Suc i))"

definition GetFirstSubscription :: "int \<Rightarrow> mem \<Rightarrow> service_info \<Rightarrow> nat option \<times> service_info \<times> mem" where
  "GetFirstSubscription current_time M service = next_from current_time M service 0"

section \<open>Looking up services\<close>

text \<open>\<^verbatim>\<open>strcmp\<close> with a NULL field is a fault.\<close>

fun find_service :: "string \<Rightarrow> string \<Rightarrow> service_info list \<Rightarrow> nat option option" where
  "find_service sid udn [] = Some None"
| "find_service sid udn (s # ss) = do {
     i \<leftarrow> serviceId s;
     hit \<leftarrow> (if sid = i then map_option (\<lambda>u. udn = u) (UDN s) else Some False);
     if hit then Some (Some 0) else map_option (map_option Suc) (find_service sid udn ss) }"

definition FindServiceId :: "service_table option \<Rightarrow> string \<Rightarrow> string \<Rightarrow> nat option option" where
  "FindServiceId table sid udn =
     (case table of None \<Rightarrow> Some None | Some t \<Rightarrow> find_service sid udn (serviceList t))"

text \<open>
  The memory of a URL search: the path is block 0, the URL of the \<open>i\<close>-th service block \<open>i+1\<close>.
\<close>

definition url_mem :: "string \<Rightarrow> string option list \<Rightarrow> mem" where
  "url_mem path urls b = (case b of 0 \<Rightarrow> path @ [NUL]
     | Suc i \<Rightarrow> (if i < length urls then (case urls ! i of None \<Rightarrow> [] | Some s \<Rightarrow> s @ [NUL]) else []))"

text \<open>
  The search loop; \<open>u\<close> is the struct \<^verbatim>\<open>parsed_url\<close>, which keeps what an earlier round left in it.
\<close>

fun find_url :: "mem \<Rightarrow> env \<Rightarrow> uri_type \<Rightarrow> uri_type \<Rightarrow> nat \<Rightarrow> string option list \<Rightarrow> nat option option" where
  "find_url M e parsed_in u i [] = Some None"
| "find_url M e parsed_in u i (None # urls) = find_url M e parsed_in u (Suc i) urls"
| "find_url M e parsed_in u i (Some url # urls) = do {
     (r, u') \<leftarrow> parse_uri M e (Suc i, 0) (int (length url)) u;
     hit \<leftarrow> (if r \<noteq> 0 then map_option (\<lambda>d. d = 0) (token_cmp M (pathquery u') (pathquery parsed_in))
            else Some False);
     if hit then Some (Some i) else find_url M e parsed_in u' (Suc i) urls }"

text \<open>\<open>uin\<close> and \<open>u\<close> are the initial contents of the two structs on the stack.\<close>

definition find_by_url ::
  "(service_info \<Rightarrow> string option) \<Rightarrow> env \<Rightarrow> uri_type \<Rightarrow> uri_type \<Rightarrow> service_table option \<Rightarrow> string \<Rightarrow>
     nat option option" where
  "find_by_url url e uin u table path =
     (case table of None \<Rightarrow> Some None
      | Some t \<Rightarrow> do {
          let urls = map url (serviceList t);
          (r, parsed_in) \<leftarrow> parse_uri (url_mem path urls) e (0, 0) (int (length path)) uin;
          if r \<noteq> 0 then find_url (url_mem path urls) e parsed_in u 0 urls else Some None })"

definition FindServiceEventURLPath ::
  "env \<Rightarrow> uri_type \<Rightarrow> uri_type \<Rightarrow> service_table option \<Rightarrow> string \<Rightarrow> nat option option" where
  "FindServiceEventURLPath = find_by_url eventURL"

definition FindServiceControlURLPath ::
  "env \<Rightarrow> uri_type \<Rightarrow> uri_type \<Rightarrow> service_table option \<Rightarrow> string \<Rightarrow> nat option option" where
  "FindServiceControlURLPath = find_by_url controlURL"

section \<open>The subscription list\<close>

lemma find_sub_index: "find_sub sid ss = index_of (\<lambda>s. ssid s = sid) ss"
  by (induction ss) auto

lemma unlink_sub_list: "fst (unlink_sub sid ss) = unlink_first (\<lambda>s. ssid s = sid) ss"
  by (induction ss) (auto split: prod.splits)

lemma unlink_sub_freed: "snd (unlink_sub sid ss) =
    (case find (\<lambda>s. ssid s = sid) ss of None \<Rightarrow> [] | Some s \<Rightarrow> [s])"
  by (induction ss) (auto split: prod.splits)

interpretation service_subs: keyed_list ssid "\<lambda>sid ss. find_sub sid ss" "\<lambda>sid ss. fst (unlink_sub sid ss)"
  using keyed_list_loops [of ssid]
  by (simp add: find_sub_index [abs_def] unlink_sub_list [abs_def])

text \<open>The counter of a service agrees with its list.\<close>

definition wf_service :: "service_info \<Rightarrow> bool" where
  "wf_service service = (TotalSubscriptions service = int (length (subscriptionList service)))"

lemma freeSubscriptionList_append:
  "freeSubscriptionList M (a @ b) = freeSubscriptionList (freeSubscriptionList M a) b"
  by (induction a arbitrary: M) auto

lemma unlink_sub_lengths: "length ss = length (fst (unlink_sub sid ss)) + length (snd (unlink_sub sid ss))"
  by (induction ss) (auto split: prod.splits)

text \<open>
  \<open>RemoveSubscriptionSID\<close> on a list with distinct identifiers removes exactly the subscription
  asked for: it is no longer found, every other lookup gives the same subscription as before, its
  URL list (and no other) is freed, and the counter follows the list.
\<close>

theorem RemoveSubscriptionSID_exact:
  assumes "distinct (map ssid (subscriptionList sv))" "wf_service sv"
    and "RemoveSubscriptionSID M sid sv = (sv', M')"
  shows "find_sub sid (subscriptionList sv') = None \<and> wf_service sv' \<and>
    distinct (map ssid (subscriptionList sv')) \<and>
    (\<forall>k. k \<noteq> sid \<longrightarrow> map_option ((!) (subscriptionList sv')) (find_sub k (subscriptionList sv'))
      = map_option ((!) (subscriptionList sv)) (find_sub k (subscriptionList sv))) \<and>
    M' = (case find (\<lambda>s. ssid s = sid) (subscriptionList sv) of None \<Rightarrow> M | Some s \<Rightarrow> freeSubscription M s)"
proof -
  let ?u = "unlink_sub sid (subscriptionList sv)"
  have sv': "subscriptionList sv' = fst ?u"
    "TotalSubscriptions sv' = TotalSubscriptions sv - int (length (snd ?u))"
    "M' = freeSubscriptionList M (snd ?u)"
    using assms(3) by (auto simp: RemoveSubscriptionSID_def split: prod.splits)
  have "find_sub sid (fst ?u) = None"
    using service_subs.get_unlink_same [OF assms(1), of sid] by (simp add: service_subs.get_def)
  then show ?thesis
    using service_subs.get_unlink_other [of sid _ "subscriptionList sv"] assms(2) sv'
      service_subs.distinct_unlink [OF assms(1), of sid]
      unlink_sub_lengths [of "subscriptionList sv" sid] unlink_sub_freed [of sid "subscriptionList sv"]
    by (auto simp: service_subs.get_def wf_service_def split: option.splits)
qed

text \<open>
  \<open>GetSubscriptionSID\<close> returns the first subscription with the identifier when it has not
  expired; an expired one is removed, freed and not returned, and nothing else changes.
\<close>

theorem GetSubscriptionSID_checks_expiry:
  assumes "wf_service sv" "GetSubscriptionSID t M sid sv = (res, sv', M')"
  shows "wf_service sv' \<and>
    (case find_sub sid (subscriptionList sv) of
      None \<Rightarrow> res = None \<and> sv' = sv \<and> M' = M
    | Some i \<Rightarrow>
        if sub_expired t (subscriptionList sv ! i)
        then res = None \<and> M' = freeSubscription M (subscriptionList sv ! i) \<and>
          subscriptionList sv' = take i (subscriptionList sv) @ drop (Suc i) (subscriptionList sv)
        else res = Some i \<and> sv' = sv \<and> M' = M)"
proof (cases "find_sub sid (subscriptionList sv)")
  case (Some i)
  then have "i < length (subscriptionList sv)" by (simp add: find_sub_index index_of_Some)
  then show ?thesis
    using assms Some by (auto simp: GetSubscriptionSID_def Let_def wf_service_def)
qed (use assms in \<open>auto simp: GetSubscriptionSID_def Let_def\<close>)

section \<open>Enumerating the subscriptions\<close>

text \<open>
  The way every caller enumerates: \<open>GetFirstSubscription\<close>, then \<open>GetNextSubscription\<close> until
  NULL; \<open>n\<close> bounds the number of rounds.
\<close>

fun walk :: "nat \<Rightarrow> int \<Rightarrow> mem \<Rightarrow> service_info \<Rightarrow> nat option \<Rightarrow> subscription list \<times> service_info \<times> mem" where
  "walk 0 t M sv cur = ([], sv, M)"
| "walk (Suc n) t M sv None = ([], sv, M)"
| "walk (Suc n) t M sv (Some i) =
     (let (nxt, sv', M') = GetNextSubscription t M sv (Some i);
          (vs, sv'', M'') = walk n t M' sv' nxt
      in (subscriptionList sv ! i # vs, sv'', M''))"

definition visit_all :: "int \<Rightarrow> mem \<Rightarrow> service_info \<Rightarrow> subscription list \<times> service_info \<times> mem" where
  "visit_all t M sv = (let (cur, sv', M') = GetFirstSubscription t M sv
     in walk (Suc (length (subscriptionList sv))) t M' sv' cur)"

abbreviation (input) live :: "int \<Rightarrow> subscription \<Rightarrow> bool" where
  "live t s \<equiv> \<not> sub_expired t s"

lemma next_active_spec: "next_active t xs = (k, r, f) \<Longrightarrow>
    filter (live t) xs = k @ filter (live t) r \<and> filter (sub_expired t) xs = f @ filter (sub_expired t) r \<and>
    filter (\<lambda>s. sub_active s \<and> live t s) xs = filter (\<lambda>s. sub_active s \<and> live t s) r \<and>
    (\<forall>s \<in> set k. live t s) \<and>
    (r = [] \<or> sub_active (hd r) \<and> live t (hd r)) \<and> length r \<le> length xs"
  by (induction xs arbitrary: k r f) (auto split: if_splits prod.splits)

lemma walk_rest:
  assumes "subscriptionList sv = pre @ s # rest" "\<forall>x \<in> set (pre @ [s]). live t x" "length rest < n"
  shows "walk n t M sv (Some (length pre)) =
    (s # filter (\<lambda>x. sub_active x \<and> live t x) rest,
     sv\<lparr>subscriptionList := pre @ s # filter (live t) rest,
        TotalSubscriptions := TotalSubscriptions sv - int (length (filter (sub_expired t) rest))\<rparr>,
     freeSubscriptionList M (filter (sub_expired t) rest))"
  using assms
proof (induction n arbitrary: pre s rest sv M)
  case (Suc n)
  obtain k r f where a: "next_active t rest = (k, r, f)" by (metis prod_cases3)
  note sp = next_active_spec [OF a]
  let ?sv = "sv\<lparr>subscriptionList := pre @ s # k @ r,
    TotalSubscriptions := TotalSubscriptions sv - int (length f)\<rparr>"
  have g: "GetNextSubscription t M sv (Some (length pre)) =
      (if r = [] then None else Some (Suc (length pre + length k)), ?sv, freeSubscriptionList M f)"
    using a Suc.prems(1) by (simp add: GetNextSubscription_def next_from_def)
  show ?case
  proof (cases r)
    case Nil
    then show ?thesis using g sp Suc.prems(1) by (cases n) auto
  next
    case (Cons s' rest')
    have sp': "sub_active s'" "live t s'" using sp Cons by auto
    have "walk n t (freeSubscriptionList M f) ?sv (Some (length (pre @ s # k))) =
      (s' # filter (\<lambda>x. sub_active x \<and> live t x) rest',
       ?sv\<lparr>subscriptionList := (pre @ s # k) @ s' # filter (live t) rest',
          TotalSubscriptions := TotalSubscriptions ?sv - int (length (filter (sub_expired t) rest'))\<rparr>,
       freeSubscriptionList (freeSubscriptionList M f) (filter (sub_expired t) rest'))"
      by (rule Suc.IH) (use Suc.prems sp sp' Cons in auto)
    then show ?thesis
      using g sp sp' Cons Suc.prems(1)
      by (simp add: freeSubscriptionList_append nth_append)
  qed
qed simp

text \<open>
  Enumerating a service's subscriptions visits exactly the active ones that have not
  expired, each once and in order, frees exactly the expired ones, and keeps the others and the
  counter right.
\<close>

theorem subscriptions_enumerated:
  shows "visit_all t M sv =
    (filter (\<lambda>s. sub_active s \<and> \<not> sub_expired t s) (subscriptionList sv),
     sv\<lparr>subscriptionList := filter (\<lambda>s. \<not> sub_expired t s) (subscriptionList sv),
        TotalSubscriptions := TotalSubscriptions sv -
          int (length (filter (sub_expired t) (subscriptionList sv)))\<rparr>,
     freeSubscriptionList M (filter (sub_expired t) (subscriptionList sv)))"
proof -
  let ?ss = "subscriptionList sv"
  obtain k r f where a: "next_active t ?ss = (k, r, f)" by (metis prod_cases3)
  note sp = next_active_spec [OF a]
  let ?sv = "sv\<lparr>subscriptionList := k @ r, TotalSubscriptions := TotalSubscriptions sv - int (length f)\<rparr>"
  have g: "GetFirstSubscription t M sv =
      (if r = [] then None else Some (length k), ?sv, freeSubscriptionList M f)"
    using a by (simp add: GetFirstSubscription_def next_from_def)
  show ?thesis
  proof (cases r)
    case Nil
    then show ?thesis using g sp by (auto simp: visit_all_def)
  next
    case (Cons s rest)
    have "walk (Suc (length ?ss)) t (freeSubscriptionList M f) ?sv (Some (length k)) =
      (s # filter (\<lambda>x. sub_active x \<and> live t x) rest,
       ?sv\<lparr>subscriptionList := k @ s # filter (live t) rest,
          TotalSubscriptions := TotalSubscriptions ?sv - int (length (filter (sub_expired t) rest))\<rparr>,
       freeSubscriptionList (freeSubscriptionList M f) (filter (sub_expired t) rest))"
      by (rule walk_rest) (use sp Cons in auto)
    then show ?thesis
      using g sp Cons by (simp add: visit_all_def freeSubscriptionList_append)
  qed
qed

section \<open>Finding services\<close>

text \<open>
  In a table whose services all have an identifier and a UDN, \<open>FindServiceId\<close> returns the
  first service with both.
\<close>

theorem FindServiceId_first:
  assumes "\<forall>s \<in> set (serviceList t). serviceId s \<noteq> None \<and> UDN s \<noteq> None"
  shows "FindServiceId (Some t) sid udn =
    Some (index_of (\<lambda>s. serviceId s = Some sid \<and> UDN s = Some udn) (serviceList t))"
proof -
  have "find_service sid udn ss = Some (index_of (\<lambda>s. serviceId s = Some sid \<and> UDN s = Some udn) ss)"
    if "\<forall>s \<in> set ss. serviceId s \<noteq> None \<and> UDN s \<noteq> None" for ss
    using that by (induction ss) auto
  with assms show ?thesis by (simp add: FindServiceId_def)
qed

text \<open>What \<open>parse_uri\<close> finds does not depend on what the output struct held before.\<close>

lemma parse_hostport_indep:
  assumes "parse_hostport M e p mx a = Some (r, x)"
  shows "\<exists>y. parse_hostport M e p mx b = Some (r, y)"
  using assms
  by (auto simp: parse_hostport_def resolve_host_def Let_def split: bind_splits if_splits option.splits)

lemma parse_path_indep:
  assumes "parse_path M p mx k a = Some (r, x)"
  shows "\<exists>y. parse_path M p mx k b = Some (r, y) \<and> pathquery y = pathquery x"
  using assms by (auto simp: parse_path_def Let_def split: bind_splits if_splits)

lemma parse_uri_indep:
  assumes "parse_uri M e p mx a = Some (HTTP_SUCCESS, x)"
  shows "\<exists>y. parse_uri M e p mx b = Some (HTTP_SUCCESS, y) \<and> pathquery y = pathquery x"
proof -
  obtain n sch where n: "parse_scheme M p mx = Some (n, sch)"
    using assms by (auto simp: parse_uri_def split: bind_splits)
  define out where "out c = (if n \<noteq> 0 then c\<lparr>scheme := sch, utype := ABSOLUTE, path_type := OPAQUE_PART\<rparr>
    else c\<lparr>scheme := sch, utype := RELATIVE, path_type := REL_PATH\<rparr>)" for c :: uri_type
  define k where "k = (if n \<noteq> 0 then n + 1 else 0)"
  have u: "parse_uri M e p mx c = do {
      first \<leftarrow> (if k + 1 < mx then map_option (\<lambda>c. c = CHR ''/'') (rd M (padd p k)) else Some False);
      slashes \<leftarrow> (if first then map_option (\<lambda>c. c = CHR ''/'') (rd M (padd p (k + 1))) else Some False);
      if slashes then do {
        (h, hp) \<leftarrow> parse_hostport M e (padd p (k + 2)) (mx - (k + 2)) (hostport (out c));
        if h \<ge> 0 then parse_path M p mx (h + (k + 2)) (out c\<lparr>hostport := hp\<rparr>)
        else Some (h, out c\<lparr>hostport := hp\<rparr>) }
      else parse_path M p mx k (out c\<lparr>hostport := \<lparr>hp_text = null_token,
          IPv4address = (IPv4address (hostport (out c)))\<lparr>sin_port := 0, s_addr := 0\<rparr>\<rparr>\<rparr>) }" for c
    unfolding parse_uri_def n k_def out_def by (simp only: Option.bind.simps Let_def prod.case)
  obtain f where f: "(if k + 1 < mx then map_option (\<lambda>c. c = CHR ''/'') (rd M (padd p k)) else Some False) = Some f"
    using assms unfolding u by (auto split: bind_splits)
  obtain g where g: "(if f then map_option (\<lambda>c. c = CHR ''/'') (rd M (padd p (k + 1))) else Some False) = Some g"
    using assms unfolding u f by (auto split: bind_splits)
  show ?thesis
  proof (cases g)
    case True
    then obtain h hp where h: "parse_hostport M e (padd p (k + 2)) (mx - (k + 2)) (hostport (out a)) = Some (h, hp)"
        "0 \<le> h" "parse_path M p mx (h + (k + 2)) (out a\<lparr>hostport := hp\<rparr>) = Some (HTTP_SUCCESS, x)"
      using assms unfolding u f by (auto simp: g split: bind_splits if_splits)
    obtain hq where hq: "parse_hostport M e (padd p (k + 2)) (mx - (k + 2)) (hostport (out b)) = Some (h, hq)"
      using parse_hostport_indep [OF h(1)] by blast
    show ?thesis
      using parse_path_indep [OF h(3), of "out b\<lparr>hostport := hq\<rparr>"] True hq h(2) unfolding u f
      by (simp add: g)
  next
    case False
    then show ?thesis
      using assms parse_path_indep [of M p mx k _ HTTP_SUCCESS x] unfolding u f by (simp add: g)
  qed
qed

text \<open>The path and query of the string in a block, as \<open>parse_uri\<close> delimits them.\<close>

definition path_of :: "mem \<Rightarrow> env \<Rightarrow> block \<Rightarrow> string \<Rightarrow> string option" where
  "path_of M e b s = (case parse_uri M e (b, 0) (int (length s)) blank_uri of
     Some (r, u) \<Rightarrow> if r = HTTP_SUCCESS then Some (tok_text M (pathquery u)) else None
   | None \<Rightarrow> None)"

lemma path_of_parse:
  assumes "path_of M e b s = Some q" "M b = s @ [NUL]" "length s < 2 ^ 31"
  shows "\<exists>u'. parse_uri M e (b, 0) (int (length s)) u = Some (HTTP_SUCCESS, u') \<and>
    tok_ok M (pathquery u') \<and> tok_text M (pathquery u') = q \<and> tsize (pathquery u') = int (length q) \<and>
    length q < 2 ^ 31"
proof -
  obtain v where v: "parse_uri M e (b, 0) (int (length s)) blank_uri = Some (HTTP_SUCCESS, v)"
      "tok_text M (pathquery v) = q"
    using assms(1) by (auto simp: path_of_def split: option.splits prod.splits if_splits)
  obtain u' where u': "parse_uri M e (b, 0) (int (length s)) u = Some (HTTP_SUCCESS, u')"
      "pathquery u' = pathquery v"
    using parse_uri_indep [OF v(1)] by blast
  have ba: "bytes_at M (b, 0) = s @ [NUL]" using assms(2) by (simp add: bytes_at_def)
  have w: "tok_within (b, 0) (int (length s)) (pathquery v)"
    using parse_uri_shape [of "(b, 0)" "int (length s)" M e blank_uri] v(1) ba
    by (auto simp: uri_layout_def uri_within_def uri_error_def)
  then have ok: "tok_ok M (pathquery v)" using ba by (auto intro!: tok_within_ok)
  have "int (length q) = tsize (pathquery v)"
    using ok v(2) by (auto simp: tok_text_def tok_ok_def)
  moreover have "tsize (pathquery v) \<le> int (length s)"
    using w by (auto simp: tok_within_def split: option.splits)
  ultimately show ?thesis using u' v(2) ok assms(3) by auto
qed

lemma token_cmp_text:
  assumes "tok_ok M a" "tok_ok M b" "tok_text M a = s" "tok_text M b = t"
    "tsize a = int (length s)" "tsize b = int (length t)" "length s < 2 ^ 31" "length t < 2 ^ 31"
  shows "\<exists>d. token_cmp M a b = Some d \<and> (d = 0 \<longleftrightarrow> s = t)"
proof (cases "length s = length t")
  case True
  then show ?thesis
    using memcmp_eq [of "length s" "tok_bytes M a" "tok_bytes M b"] assms
    by (auto simp: token_cmp_def size_t_nonneg tok_ok_def tok_text_def)
next
  case False
  then show ?thesis using assms(5,6) by (auto simp: token_cmp_def)
qed

text \<open>The path of the \<open>j\<close>-th URL of a search, if there is one.\<close>

definition path_at :: "mem \<Rightarrow> env \<Rightarrow> string option list \<Rightarrow> nat \<Rightarrow> string option" where
  "path_at M e urls j = (case urls ! j of None \<Rightarrow> None | Some s \<Rightarrow> path_of M e (Suc j) s)"

definition urls_parse :: "mem \<Rightarrow> env \<Rightarrow> string option list \<Rightarrow> bool" where
  "urls_parse M e urls = (\<forall>j < length urls. \<forall>s. urls ! j = Some s \<longrightarrow>
     length s < 2 ^ 31 \<and> path_of M e (Suc j) s \<noteq> None)"

lemma find_url_spec:
  assumes M: "M = url_mem p all" and ok: "urls_parse M e all"
    and q: "tok_ok M (pathquery pin)" "tok_text M (pathquery pin) = q"
      "tsize (pathquery pin) = int (length q)" "length q < 2 ^ 31"
    and i: "i \<le> length all" "urls = drop i all"
  shows "\<exists>r. find_url M e pin u i urls = Some r \<and> (case r of
      None \<Rightarrow> \<forall>j. i \<le> j \<longrightarrow> j < length all \<longrightarrow> path_at M e all j \<noteq> Some q
    | Some k \<Rightarrow> i \<le> k \<and> k < length all \<and> path_at M e all k = Some q \<and>
        (\<forall>j. i \<le> j \<longrightarrow> j < k \<longrightarrow> path_at M e all j \<noteq> Some q))"
  using i
proof (induction urls arbitrary: i u)
  case Nil
  then show ?case by auto
next
  case (Cons x urls)
  have il: "i < length all" "all ! i = x" "urls = drop (Suc i) all"
    using Cons.prems by (metis drop_eq_Nil leI list.discI, metis nth_via_drop, metis Cons_nth_drop_Suc
        drop_eq_Nil leI list.discI list.inject)
  have IH: "\<exists>r. find_url M e pin v (Suc i) urls = Some r \<and> (case r of
      None \<Rightarrow> \<forall>j. Suc i \<le> j \<longrightarrow> j < length all \<longrightarrow> path_at M e all j \<noteq> Some q
    | Some k \<Rightarrow> Suc i \<le> k \<and> k < length all \<and> path_at M e all k = Some q \<and>
        (\<forall>j. Suc i \<le> j \<longrightarrow> j < k \<longrightarrow> path_at M e all j \<noteq> Some q))" for v
    using Cons.IH [of "Suc i" v] il by simp
  have go: ?case if "find_url M e pin u i (x # urls) = find_url M e pin v (Suc i) urls"
    "path_at M e all i \<noteq> Some q" for v
  proof -
    obtain r where r: "find_url M e pin v (Suc i) urls = Some r" "case r of
        None \<Rightarrow> \<forall>j. Suc i \<le> j \<longrightarrow> j < length all \<longrightarrow> path_at M e all j \<noteq> Some q
      | Some k \<Rightarrow> Suc i \<le> k \<and> k < length all \<and> path_at M e all k = Some q \<and>
          (\<forall>j. Suc i \<le> j \<longrightarrow> j < k \<longrightarrow> path_at M e all j \<noteq> Some q)"
      using IH [of v] by blast
    have "i \<le> j \<longleftrightarrow> j = i \<or> Suc i \<le> j" for j by auto
    then show ?thesis using r that by (auto split: option.splits)
  qed
  show ?case
  proof (cases x)
    case None
    then show ?thesis using go [of u] il by (simp add: path_at_def)
  next
    case (Some s)
    have s: "length s < 2 ^ 31" "path_of M e (Suc i) s \<noteq> None" "M (Suc i) = s @ [NUL]"
      using ok il Some by (auto simp: urls_parse_def M url_mem_def)
    then obtain t where t: "path_of M e (Suc i) s = Some t" by auto
    obtain u' where u': "parse_uri M e (Suc i, 0) (int (length s)) u = Some (HTTP_SUCCESS, u')"
        "tok_ok M (pathquery u')" "tok_text M (pathquery u') = t"
        "tsize (pathquery u') = int (length t)" "length t < 2 ^ 31"
      using path_of_parse [OF t s(3,1)] by blast
    obtain d where d: "token_cmp M (pathquery u') (pathquery pin) = Some d" "d = 0 \<longleftrightarrow> t = q"
      using token_cmp_text [OF u'(2) q(1) u'(3) q(2) u'(4) q(3) u'(5) q(4)] by blast
    have pa: "path_at M e all i = Some t" using il Some t by (simp add: path_at_def)
    show ?thesis
    proof (cases "t = q")
      case True
      then show ?thesis using Some u' d pa il by auto
    next
      case False
      then show ?thesis using go [of u'] Some u' d pa by auto
    qed
  qed
qed

lemma find_by_url_first:
  assumes urls: "urls = map url (serviceList t)" "M = url_mem path urls"
    and ok: "urls_parse M e urls" "length path < 2 ^ 31" "path_of M e 0 path = Some q"
  shows "\<exists>r. find_by_url url e uin u (Some t) path = Some r \<and> (case r of
      None \<Rightarrow> \<forall>j < length urls. path_at M e urls j \<noteq> Some q
    | Some k \<Rightarrow> k < length urls \<and> path_at M e urls k = Some q \<and>
        (\<forall>j < k. path_at M e urls j \<noteq> Some q))"
proof -
  have "M 0 = path @ [NUL]" by (simp add: urls(2) url_mem_def)
  then obtain pin where pin: "parse_uri M e (0, 0) (int (length path)) uin = Some (HTTP_SUCCESS, pin)"
      "tok_ok M (pathquery pin)" "tok_text M (pathquery pin) = q"
      "tsize (pathquery pin) = int (length q)" "length q < 2 ^ 31"
    using path_of_parse [OF ok(3) _ ok(2)] by blast
  have "find_by_url url e uin u (Some t) path = find_url M e pin u 0 urls"
    using pin(1) by (simp add: find_by_url_def Let_def urls)
  then show ?thesis
    using find_url_spec [OF urls(2) ok(1) pin(2-5), of 0 urls u] by (auto split: option.splits)
qed

text \<open>
  When the URLs parse, \<open>FindServiceEventURLPath\<close> stays inside them and returns the first
  service whose event URL has the same path and query as the request, whatever its scheme and
  host.
\<close>

theorem FindServiceEventURLPath_first:
  assumes "urls = map eventURL (serviceList t)" "M = url_mem path urls"
    and "urls_parse M e urls" "length path < 2 ^ 31" "path_of M e 0 path = Some q"
  shows "\<exists>r. FindServiceEventURLPath e uin u (Some t) path = Some r \<and> (case r of
      None \<Rightarrow> \<forall>j < length urls. path_at M e urls j \<noteq> Some q
    | Some k \<Rightarrow> k < length urls \<and> path_at M e urls k = Some q \<and>
        (\<forall>j < k. path_at M e urls j \<noteq> Some q))"
  unfolding FindServiceEventURLPath_def using assms by (rule find_by_url_first)

section \<open>Witnesses\<close>

definition sub_named :: "string \<Rightarrow> int \<Rightarrow> subscription" where
  "sub_named s t = \<lparr>ssid = s, eventKey = 0, ToSendEventKey = 0, expireTime = t, sub_active = True,
     DeliveryURLs = \<lparr>lsize = 0, URLs = None, parsedURLs = []\<rparr>\<rparr>"

definition two_subs :: service_info where
  "two_subs = \<lparr>serviceType = Some ''t'', serviceId = Some ''i'', SCPDURL = None, controlURL = None,
     eventURL = Some ''http://h/e'', UDN = Some ''u'', svc_active = True, TotalSubscriptions = 2,
     subscriptionList = [sub_named ''a'' 5, sub_named ''b'' 0]\<rparr>"

lemma RemoveSubscriptionSID_exact_witness:
  "\<exists>sv' M'. RemoveSubscriptionSID (one_obj []) ''a'' two_subs = (sv', M') \<and>
    find_sub ''a'' (subscriptionList sv') = None \<and> wf_service sv'"
proof -
  obtain sv' M' where r: "RemoveSubscriptionSID (one_obj []) ''a'' two_subs = (sv', M')"
    by (cases "RemoveSubscriptionSID (one_obj []) ''a'' two_subs") auto
  have "distinct (map ssid (subscriptionList two_subs))" "wf_service two_subs"
    by (simp_all add: two_subs_def sub_named_def wf_service_def)
  from RemoveSubscriptionSID_exact [OF this r] r show ?thesis by auto
qed

lemma GetSubscriptionSID_checks_expiry_witness:
  "\<exists>sv' M'. GetSubscriptionSID 9 (one_obj []) ''a'' two_subs = (None, sv', M') \<and>
    subscriptionList sv' = [sub_named ''b'' 0]"
proof -
  obtain res sv' M' where r: "GetSubscriptionSID 9 (one_obj []) ''a'' two_subs = (res, sv', M')"
    by (cases "GetSubscriptionSID 9 (one_obj []) ''a'' two_subs") auto
  have "wf_service two_subs" by (simp add: two_subs_def wf_service_def)
  from GetSubscriptionSID_checks_expiry [OF this r] r show ?thesis
    by (auto simp: two_subs_def sub_named_def sub_expired_def)
qed

lemma FindServiceId_first_witness:
  "FindServiceId (Some \<lparr>URLBase = None, serviceList = [two_subs]\<rparr>) ''i'' ''u'' = Some (Some 0)"
  by (subst FindServiceId_first) (simp_all add: two_subs_def)

lemma event_paths:
  "path_of (url_mem ''/e'' [Some ''http://h/e'']) easy_env 0 ''/e'' = Some ''/e''"
  "path_of (url_mem ''/e'' [Some ''http://h/e'']) easy_env (Suc 0) ''http://h/e'' = Some ''/e''"
  by (simp_all add: path_of_def parse_uri_def parse_scheme_def parse_path_def parse_uric_def url_mem_def
      bytes_at_def rd_def padd_def next_is_def parse_hostport_def resolve_host_def rd_bytes_def
      Let_def scheme_char_def host_char_def is_unreserved_def is_reserved_def is_mark_def uric_go_def
      is_escaped_def strchr_hit_def RESERVED_def MARK_def ctype_defs blank_uri_def easy_env_def
      tok_text_def tok_bytes_def null_token_def)

lemma FindServiceEventURLPath_first_witness:
  "FindServiceEventURLPath easy_env blank_uri blank_uri
    (Some \<lparr>URLBase = None, serviceList = [two_subs]\<rparr>) ''/e'' = Some (Some 0)"
proof -
  let ?t = "\<lparr>URLBase = None, serviceList = [two_subs]\<rparr>"
  have u: "[Some ''http://h/e''] = map eventURL (serviceList ?t)" by (simp add: two_subs_def)
  have p: "path_at (url_mem ''/e'' [Some ''http://h/e'']) easy_env [Some ''http://h/e''] 0 = Some ''/e''"
    using event_paths(2) by (simp add: path_at_def)
  have "urls_parse (url_mem ''/e'' [Some ''http://h/e'']) easy_env [Some ''http://h/e'']"
    using event_paths(2) by (auto simp: urls_parse_def)
  from FindServiceEventURLPath_first [OF u refl this _ event_paths(1), of blank_uri blank_uri] p
  show ?thesis by (auto split: option.splits)
qed

end
