(* ===== verification/Service_Tree.thy ===== *)
theory Service_Tree imports Service_Table begin

text \<open>
  Building the service table from a device description
  (\<^verbatim>\<open>genlib/service_table/service_table.c\<close>, lines 387 to 655).

  The description is the tree the DOM interface (\<^verbatim>\<open>inc/upnpdom/domCif.h\<close>) shows: elements
  with their attributes (name and value) and their children, text, and other nodes.  The document node
  is the element of the name \<^verbatim>\<open>#document\<close>.  \<^verbatim>\<open>UpnpElement_getElementsByTagName\<close> belongs to
  the C++ DOM and is the parameter \<open>by_tag\<close> of the definitions.
\<close>

datatype dom = Element string "(string \<times> string) list" "dom list" | TextNode string | OtherNode

fun dom_children :: "dom \<Rightarrow> dom list" where
  "dom_children (Element n as cs) = cs"
| "dom_children (TextNode v) = []"
| "dom_children OtherNode = []"

definition getElementValue :: "dom \<Rightarrow> string option" where
  "getElementValue node = (case dom_children node of TextNode v # _ \<Rightarrow> Some v | _ \<Rightarrow> None)"

fun first_element :: "string \<Rightarrow> dom list \<Rightarrow> dom option" where
  "first_element name [] = None"
| "first_element name (Element n as cs # ds) =
     (if n = name then Some (Element n as cs) else first_element name ds)"
| "first_element name (_ # ds) = first_element name ds"

definition getSubElement :: "string \<Rightarrow> dom \<Rightarrow> dom option" where
  "getSubElement name node = first_element name (dom_children node)"

text \<open>The value of a sub-element, NULL when it or its text is missing.\<close>

definition sub_value :: "string \<Rightarrow> dom \<Rightarrow> string option" where
  "sub_value name node = do { n \<leftarrow> getSubElement name node; getElementValue n }"

text \<open>
  \<^verbatim>\<open>resolve_rel_url\<close> on two C strings, the base possibly NULL; \<open>u0\<close> is what the structs on its
  stack hold at first.
\<close>

definition two_strings :: "string \<Rightarrow> string \<Rightarrow> mem" where
  "two_strings s t b = (if b = 0 then s @ [NUL] else if b = 1 then t @ [NUL] else [])"

definition resolve_str :: "env \<Rightarrow> uri_type \<Rightarrow> string option \<Rightarrow> string \<Rightarrow> string option option" where
  "resolve_str e u0 base rel =
     (case base of
       None \<Rightarrow> resolve_rel_url (two_strings [] rel) e None (Some (1, 0)) u0 u0
     | Some b \<Rightarrow> resolve_rel_url (two_strings b rel) e (Some (0, 0)) (Some (1, 0)) u0 u0)"

definition sub_url :: "env \<Rightarrow> uri_type \<Rightarrow> string option \<Rightarrow> string \<Rightarrow> dom \<Rightarrow> string option option" where
  "sub_url e u0 base name node =
     (case sub_value name node of None \<Rightarrow> Some None | Some rel \<Rightarrow> resolve_str e u0 base rel)"

text \<open>
  One round of the loop of \<^verbatim>\<open>getServiceList\<close>: the record it fills and the flag \<^verbatim>\<open>fail\<close>,
  which the branches for a missing control or event URL reset.
\<close>

definition build_service ::
  "env \<Rightarrow> uri_type \<Rightarrow> string option \<Rightarrow> dom \<Rightarrow> dom \<Rightarrow> (bool \<times> service_info) option" where
  "build_service e u0 base udn_node current_service = do {
     let udn = getElementValue udn_node;
     let styp = sub_value ''serviceType'' current_service;
     let sid = sub_value ''serviceId'' current_service;
     scpd \<leftarrow> sub_url e u0 base ''SCPDURL'' current_service;
     let fail = (udn = None \<or> styp = None \<or> sid = None \<or> scpd = None);
     control \<leftarrow> sub_url e u0 base ''controlURL'' current_service;
     let fail = (if control = None then False else fail);
     event \<leftarrow> sub_url e u0 base ''eventSubURL'' current_service;
     let fail = (if event = None then False else fail);
     Some (fail, \<lparr>serviceType = styp, serviceId = sid, SCPDURL = scpd, controlURL = control,
       eventURL = event, UDN = udn, svc_active = True, TotalSubscriptions = 0,
       subscriptionList = []\<rparr>) }"

text \<open>
  The loop; \<open>A k\<close> answers the \<open>k\<close>-th \<^verbatim>\<open>malloc\<close>, and \<open>None\<close> inside is the NULL return after a
  failed one.
\<close>

fun service_loop ::
  "(nat \<Rightarrow> bool) \<Rightarrow> env \<Rightarrow> uri_type \<Rightarrow> string option \<Rightarrow> dom \<Rightarrow> nat \<Rightarrow> dom list \<Rightarrow> service_info list \<Rightarrow>
     service_info list option option" where
  "service_loop A e u0 base udn k [] acc = Some (Some acc)"
| "service_loop A e u0 base udn k (d # ds) acc =
     (if \<not> A k then Some None
      else do {
        (fail, s) \<leftarrow> build_service e u0 base udn d;
        service_loop A e u0 base udn (Suc k) ds (if fail then acc else acc @ [s]) })"

text \<open>
  The result is the list (NULL is the empty one) and what was written to \<^verbatim>\<open>*end\<close>: nothing, or
  whether the pointer is non-NULL, in which case it is the last node of the list.
\<close>

definition getServiceList ::
  "(string \<Rightarrow> dom \<Rightarrow> dom list) \<Rightarrow> (nat \<Rightarrow> bool) \<Rightarrow> env \<Rightarrow> uri_type \<Rightarrow> dom \<Rightarrow> string option \<Rightarrow>
     (service_info list \<times> bool option) option" where
  "getServiceList by_tag A e u0 node base =
     (case (getSubElement ''UDN'' node, getSubElement ''serviceList'' node) of
       (Some udn, Some sl) \<Rightarrow> do {
         r \<leftarrow> service_loop A e u0 base udn 0 (by_tag ''service'' sl) [];
         (case r of
           None \<Rightarrow> Some ([], None)
         | Some l \<Rightarrow> Some (l, Some (l \<noteq> []))) }
     | _ \<Rightarrow> Some ([], None))"

text \<open>
  The loop over the devices: the list so far, whether \<^verbatim>\<open>end\<close> is non-NULL, and whether
  \<^verbatim>\<open>next_end\<close> is.  Following a NULL \<^verbatim>\<open>end\<close> is a fault.
\<close>

fun device_loop ::
  "(string \<Rightarrow> dom \<Rightarrow> dom list) \<Rightarrow> (nat \<Rightarrow> bool) \<Rightarrow> env \<Rightarrow> uri_type \<Rightarrow> string option \<Rightarrow>
     dom list \<Rightarrow> service_info list \<Rightarrow> bool \<Rightarrow> bool \<Rightarrow> service_info list option" where
  "device_loop by_tag A e u0 base [] head endp next_end = Some head"
| "device_loop by_tag A e u0 base (d # ds) head endp next_end =
     (if head \<noteq> []
      then if \<not> endp then None
        else do {
          (l, w) \<leftarrow> getServiceList by_tag A e u0 d base;
          let n = (case w of None \<Rightarrow> next_end | Some b \<Rightarrow> b);
          device_loop by_tag A e u0 base ds (head @ l) n n }
      else do {
        (l, w) \<leftarrow> getServiceList by_tag A e u0 d base;
        device_loop by_tag A e u0 base ds l (case w of None \<Rightarrow> endp | Some b \<Rightarrow> b) next_end })"

definition getAllServiceList ::
  "(string \<Rightarrow> dom \<Rightarrow> dom list) \<Rightarrow> (nat \<Rightarrow> bool) \<Rightarrow> env \<Rightarrow> uri_type \<Rightarrow> dom \<Rightarrow> string option \<Rightarrow>
     service_info list option" where
  "getAllServiceList by_tag A e u0 node base =
     device_loop by_tag A e u0 base (by_tag ''device'' node) [] False False"

definition getServiceTable ::
  "(string \<Rightarrow> dom \<Rightarrow> dom list) \<Rightarrow> (nat \<Rightarrow> bool) \<Rightarrow> env \<Rightarrow> uri_type \<Rightarrow> dom \<Rightarrow> service_table \<Rightarrow>
     string option \<Rightarrow> (int \<times> service_table) option" where
  "getServiceTable by_tag A e u0 node out DefaultURLBase =
     (case getSubElement ''root'' node of
       None \<Rightarrow> Some (0, out)
     | Some root \<Rightarrow> do {
         let base = (case getSubElement ''URLBase'' root of
           Some b \<Rightarrow> getElementValue b
         | None \<Rightarrow> Some (case DefaultURLBase of Some s \<Rightarrow> s | None \<Rightarrow> []));
         l \<leftarrow> getAllServiceList by_tag A e u0 root base;
         let out = out\<lparr>URLBase := base, serviceList := l\<rparr>;
         if l \<noteq> [] then Some (1, out) else Some (0, out) })"

section \<open>No fault while resolving\<close>

lemma strlen_terminated: "\<exists>n. strlen (s @ [NUL]) = Some n"
  by (induction s) auto

lemma resolve_str_returns: "\<exists>r. resolve_str e u0 base rel = Some r"
proof (cases base)
  case None
  obtain n where "strlen (rel @ [NUL]) = Some n" using strlen_terminated by blast
  then have "strlen (bytes_at (two_strings [] rel) (1, 0)) = Some n"
    by (simp add: bytes_at_def two_strings_def)
  then obtain r where "cstr_of (two_strings [] rel) (1, 0) = Some r" using cstr_of_Some by blast
  then show ?thesis using None by (simp add: resolve_str_def resolve_rel_url_def)
next
  case (Some b)
  obtain n m where "strlen (b @ [NUL]) = Some n" "strlen (rel @ [NUL]) = Some m"
    using strlen_terminated by blast
  then have "strlen (bytes_at (two_strings b rel) (0, 0)) = Some n"
      "strlen (bytes_at (two_strings b rel) (1, 0)) = Some m"
    by (simp_all add: bytes_at_def two_strings_def)
  then show ?thesis
    using resolve_rel_url_returns [of "two_strings b rel" "(0, 0)" n "(1, 0)" m e u0 u0] Some
    by (simp add: resolve_str_def)
qed

lemma sub_url_returns: "\<exists>r. sub_url e u0 base name node = Some r"
  using resolve_str_returns by (auto simp: sub_url_def split: option.splits)

definition fresh_service :: "service_info \<Rightarrow> bool" where
  "fresh_service s = (svc_active s \<and> TotalSubscriptions s = 0 \<and> subscriptionList s = [])"

lemma build_service_returns: "\<exists>f s. build_service e u0 base udn d = Some (f, s) \<and>
    fresh_service s"
  using sub_url_returns [of e u0 base "''SCPDURL''" d] sub_url_returns [of e u0 base "''controlURL''" d]
    sub_url_returns [of e u0 base "''eventSubURL''" d]
  by (auto simp: build_service_def Let_def fresh_service_def)

section \<open>What the loops build\<close>

text \<open>The records of the services that do not fail, in document order.\<close>

definition kept_services :: "env \<Rightarrow> uri_type \<Rightarrow> string option \<Rightarrow> dom \<Rightarrow> dom list \<Rightarrow> service_info list" where
  "kept_services e u0 base udn ds =
     map snd (filter (\<lambda>p. \<not> fst p) (map (\<lambda>d. the (build_service e u0 base udn d)) ds))"

lemma service_loop_all:
  "service_loop (\<lambda>_. True) e u0 base udn k ds acc = Some (Some (acc @ kept_services e u0 base udn ds))"
proof (induction ds arbitrary: k acc)
  case (Cons d ds)
  obtain f s where "build_service e u0 base udn d = Some (f, s)"
    using build_service_returns by blast
  then show ?case using Cons.IH by (simp add: kept_services_def)
qed (simp add: kept_services_def)

lemma service_loop_returns: "\<exists>r. service_loop A e u0 base udn k ds acc = Some r \<and>
    (\<forall>l. r = Some l \<longrightarrow> (\<forall>s \<in> set l. s \<in> set acc \<or> fresh_service s))"
proof (induction ds arbitrary: k acc)
  case (Cons d ds)
  obtain f s where s: "build_service e u0 base udn d = Some (f, s)"
      "fresh_service s"
    using build_service_returns by blast
  show ?case
    using Cons.IH [of "Suc k" "if f then acc else acc @ [s]"] s by (auto split: if_splits) metis
qed auto

lemma getServiceList_returns: "\<exists>l w. getServiceList by_tag A e u0 d base = Some (l, w) \<and>
    (\<forall>s \<in> set l. fresh_service s)"
proof (cases "getSubElement ''UDN'' d")
  case (Some udn)
  show ?thesis
  proof (cases "getSubElement ''serviceList'' d")
    case sl: (Some sl)
    show ?thesis
      using service_loop_returns [of A e u0 base udn 0 "by_tag ''service'' sl" "[]"] Some sl
      by (auto simp: getServiceList_def split: option.splits)
  qed (use Some in \<open>simp add: getServiceList_def\<close>)
qed (simp add: getServiceList_def)

text \<open>
  With enough memory \<open>getServiceList\<close> of a device with a UDN and a service list returns the
  records of its valid services in document order, and a non-NULL end exactly when there is one.
\<close>

theorem getServiceList_collects:
  assumes "getSubElement ''UDN'' node = Some udn" "getSubElement ''serviceList'' node = Some sl"
  shows "getServiceList by_tag (\<lambda>_. True) e u0 node base =
    (let l = kept_services e u0 base udn (by_tag ''service'' sl) in Some (l, Some (l \<noteq> [])))"
  using assms by (simp add: getServiceList_def service_loop_all Let_def)

text \<open>The loop over devices that all have a valid service.\<close>

lemma device_loop_concat:
  assumes "\<forall>d \<in> set ds. \<exists>l. getServiceList by_tag A e u0 d base = Some (l, Some True) \<and> l \<noteq> []"
    and "head \<noteq> [] \<Longrightarrow> endp"
  shows "device_loop by_tag A e u0 base ds head endp nxt =
    Some (head @ concat (map (\<lambda>d. fst (the (getServiceList by_tag A e u0 d base))) ds))"
  using assms
proof (induction ds arbitrary: head endp nxt)
  case (Cons d ds)
  then obtain l where "getServiceList by_tag A e u0 d base = Some (l, Some True)" "l \<noteq> []" by auto
  then show ?case using Cons by (cases "head = []") auto
qed simp

text \<open>
  When every device of the description has a valid service, \<open>getAllServiceList\<close> returns the
  services of all devices, device by device, without a fault.
\<close>

theorem getAllServiceList_concatenates:
  assumes "\<forall>d \<in> set (by_tag ''device'' node).
    \<exists>l. getServiceList by_tag A e u0 d base = Some (l, Some True) \<and> l \<noteq> []"
  shows "getAllServiceList by_tag A e u0 node base =
    Some (concat (map (\<lambda>d. fst (the (getServiceList by_tag A e u0 d base))) (by_tag ''device'' node)))"
  using device_loop_concat [OF assms, of "[]" False False] by (simp add: getAllServiceList_def)

text \<open>
  A second device without services makes the loop follow a NULL pointer as soon as there is
  a third device.
\<close>

theorem getAllServiceList_null_end:
  assumes "by_tag ''device'' node = d1 # d2 # d3 # ds"
    and "getServiceList by_tag A e u0 d1 base = Some (l1, Some True)" "l1 \<noteq> []"
    and "getServiceList by_tag A e u0 d2 base = Some ([], w)" "w \<noteq> Some True"
  shows "getAllServiceList by_tag A e u0 node base = None"
  using assms by (cases w) (auto simp: getAllServiceList_def)

lemma device_loop_fresh:
  assumes "device_loop by_tag A e u0 base ds head endp nxt = Some l"
    and "\<forall>s \<in> set head. fresh_service s"
  shows "\<forall>s \<in> set l. fresh_service s"
  using assms
proof (induction ds arbitrary: head endp nxt)
  case (Cons d ds)
  obtain k w where k: "getServiceList by_tag A e u0 d base = Some (k, w)"
      "\<forall>s \<in> set k. fresh_service s"
    using getServiceList_returns by blast
  show ?case
  proof (cases "head = []")
    case True
    then have "device_loop by_tag A e u0 base ds k (case w of None \<Rightarrow> endp | Some b \<Rightarrow> b) nxt = Some l"
      using Cons.prems(1) k(1) by simp
    then show ?thesis by (rule Cons.IH) (rule k(2))
  next
    case False
    define n where "n = (case w of None \<Rightarrow> nxt | Some b \<Rightarrow> b)"
    have "device_loop by_tag A e u0 base ds (head @ k) n n = Some l"
      using Cons.prems(1) k(1) False by (simp add: Let_def n_def split: if_splits)
    then show ?thesis by (rule Cons.IH) (use k(2) Cons.prems(2) in auto)
  qed
qed simp

text \<open>
  Whenever \<open>getServiceTable\<close> returns, it returns 1 exactly when it found a service, and all
  services are active, without subscriptions, and well-formed.
\<close>

theorem getServiceTable_fresh:
  assumes "getServiceTable by_tag A e u0 node out dflt = Some (r, out')" "getSubElement ''root'' node \<noteq> None"
  shows "r = (if serviceList out' \<noteq> [] then 1 else 0) \<and>
    (\<forall>s \<in> set (serviceList out'). svc_active s \<and> subscriptionList s = [] \<and> wf_service s)"
proof -
  obtain root where root: "getSubElement ''root'' node = Some root" using assms(2) by auto
  obtain base l where l: "getAllServiceList by_tag A e u0 root base = Some l" "serviceList out' = l"
      "r = (if l \<noteq> [] then 1 else 0)"
    using assms(1) by (auto simp: getServiceTable_def root Let_def split: bind_splits if_splits)
  have "\<forall>s \<in> set l. fresh_service s"
    using device_loop_fresh l(1) unfolding getAllServiceList_def by fastforce
  then show ?thesis using l by (auto simp: wf_service_def fresh_service_def)
qed

text \<open>
  A missing control URL hides a missing service identifier: the record is kept with a NULL
  identifier, and a lookup by identifier that meets it faults.
\<close>

theorem missing_controlURL_hides_missing_id:
  assumes "sub_value ''controlURL'' d = None" "sub_value ''serviceId'' d = None"
  shows "\<exists>s. build_service e u0 base udn d = Some (False, s) \<and> serviceId s = None \<and>
    FindServiceId (Some \<lparr>URLBase = base, serviceList = s # ss\<rparr>) i u = None"
proof -
  have "sub_url e u0 base ''controlURL'' d = Some None" using assms(1) by (simp add: sub_url_def)
  then show ?thesis
    using sub_url_returns [of e u0 base "''SCPDURL''" d] sub_url_returns [of e u0 base "''eventSubURL''" d]
      assms(2) by (auto simp: build_service_def Let_def FindServiceId_def)
qed

section \<open>Witnesses\<close>

definition leaf :: "string \<Rightarrow> string \<Rightarrow> dom" where
  "leaf n v = Element n [] [TextNode v]"

text \<open>A tag search over the direct children, enough for the flat examples here.\<close>

definition child_tags :: "string \<Rightarrow> dom \<Rightarrow> dom list" where
  "child_tags n d = filter (\<lambda>c. case c of Element m _ _ \<Rightarrow> m = n | _ \<Rightarrow> False) (dom_children d)"

definition poor_service :: dom where
  "poor_service = Element ''service'' [] [leaf ''serviceType'' ''t'']"

definition device_with :: "dom list \<Rightarrow> dom" where
  "device_with ss = Element ''device'' [] [leaf ''UDN'' ''u'', Element ''serviceList'' [] ss]"

definition poor_info :: service_info where
  "poor_info = \<lparr>serviceType = Some ''t'', serviceId = None, SCPDURL = None, controlURL = None,
     eventURL = None, UDN = Some ''u'', svc_active = True, TotalSubscriptions = 0, subscriptionList = []\<rparr>"

lemmas dom_defs = device_with_def getSubElement_def leaf_def poor_service_def child_tags_def
  sub_value_def getElementValue_def

lemma poor_built: "build_service e u0 base (leaf ''UDN'' ''u'') poor_service = Some (False, poor_info)"
  by (simp add: build_service_def sub_url_def dom_defs poor_info_def Let_def)

lemma poor_list: "getServiceList child_tags (\<lambda>_. True) e u0 (device_with [poor_service]) base
    = Some ([poor_info], Some True)"
  using poor_built [of e u0 base] by (simp add: getServiceList_def dom_defs Let_def)

lemma getServiceList_collects_witness:
  "getServiceList child_tags (\<lambda>_. True) easy_env blank_uri (device_with [poor_service]) None
    = Some ([poor_info], Some True)"
  by (subst getServiceList_collects [of _ "leaf ''UDN'' ''u''" "Element ''serviceList'' [] [poor_service]"])
    (use poor_built [of easy_env blank_uri None] in
      \<open>simp_all add: kept_services_def dom_defs Let_def\<close>)

lemma getAllServiceList_concatenates_witness:
  "getAllServiceList child_tags (\<lambda>_. True) easy_env blank_uri
      (Element ''root'' [] [device_with [poor_service], device_with [poor_service]]) None
    = Some [poor_info, poor_info]"
proof -
  have t: "child_tags ''device'' (Element ''root'' [] [device_with [poor_service], device_with [poor_service]])
      = [device_with [poor_service], device_with [poor_service]]"
    by (simp add: child_tags_def device_with_def)
  show ?thesis
    by (subst getAllServiceList_concatenates) (simp_all add: t poor_list)
qed

lemma getAllServiceList_null_end_witness:
  "getAllServiceList child_tags (\<lambda>_. True) easy_env blank_uri
      (Element ''root'' [] [device_with [poor_service], Element ''device'' [] [], Element ''device'' [] []]) None = None"
  by (rule getAllServiceList_null_end [OF _ poor_list, where ?d2.0 = "Element ''device'' [] []"
      and ?d3.0 = "Element ''device'' [] []" and ds = "[]" and w = None])
    (simp_all add: child_tags_def device_with_def getServiceList_def getSubElement_def)

lemma getServiceTable_fresh_witness:
  "\<exists>r out'. getServiceTable child_tags (\<lambda>_. True) easy_env blank_uri
      (Element ''doc'' [] [Element ''root'' [] [device_with [poor_service]]])
      \<lparr>URLBase = None, serviceList = []\<rparr> None = Some (r, out') \<and> r = 1"
proof -
  let ?n = "Element ''doc'' [] [Element ''root'' [] [device_with [poor_service]]]"
  have t: "child_tags ''device'' (Element ''root'' [] [device_with [poor_service]]) = [device_with [poor_service]]"
    by (simp add: child_tags_def device_with_def)
  obtain r out' where o: "getServiceTable child_tags (\<lambda>_. True) easy_env blank_uri ?n
      \<lparr>URLBase = None, serviceList = []\<rparr> None = Some (r, out')" "serviceList out' = [poor_info]"
    using poor_list [of easy_env blank_uri "Some []"] t
    by (auto simp: getServiceTable_def getAllServiceList_def getSubElement_def device_with_def leaf_def Let_def)
  then show ?thesis
    using getServiceTable_fresh [OF o(1)] by (auto simp: getSubElement_def)
qed

lemma missing_controlURL_hides_missing_id_witness:
  "FindServiceId (Some \<lparr>URLBase = None, serviceList = [poor_info]\<rparr>) ''x'' ''u'' = None"
proof -
  have "sub_value ''controlURL'' poor_service = None" "sub_value ''serviceId'' poor_service = None"
    by (simp_all add: dom_defs)
  from missing_controlURL_hides_missing_id [OF this, where e = easy_env and ?u0.0 = blank_uri and base = None
      and udn = "leaf ''UDN'' ''u''" and ss = "[]" and i = "''x''" and u = "''u''"]
  show ?thesis by (simp add: poor_built)
qed

end
