(* ===== verification/Handles.thy ===== *)
theory Handles imports Client_Table Service_Tree begin

text \<open>
  The handle table (\<^verbatim>\<open>api/upnpapi.c\<close>, lines 770 to 1005 and 2268 to 2441): registration of
  clients, lookups, the limits a device sets on its subscriptions, and release.  A pointer to a
  \<^verbatim>\<open>struct Handle_Info\<close> is the handle it is stored under.  Callbacks and cookies are numbers, 0 is NULL;
  a node list is the list of its nodes, the NULL list is the empty one.
\<close>

definition NUM_HANDLE :: int where "NUM_HANDLE = 200"

abbreviation (input) UPNP_INFINITE :: int where "UPNP_INFINITE \<equiv> - 1"
abbreviation (input) UPNP_E_FINISH :: int where "UPNP_E_FINISH \<equiv> - 116"

datatype Upnp_Handle_Type = HND_CLIENT | HND_DEVICE

record Handle_Info =
  HType :: Upnp_Handle_Type
  Callback :: nat
  Cookie :: nat
  DescURL :: string
  MaxAge :: int
  DescDocument :: "dom option"
  DeviceList :: "dom list"
  ServiceList :: "dom list"
  ServiceTable :: service_table
  ClientSubList :: "client_subscription list"
  MaxSubscriptions :: int
  MaxSubscriptionTimeOut :: int
  DescAlias :: string
  aliasInstalled :: bool

type_synonym handle_table = "Handle_Info option list"

section \<open>Operations\<close>

definition InitHandleList :: handle_table where
  "InitHandleList = replicate (nat NUM_HANDLE) None"

text \<open>The loop \<^verbatim>\<open>while (i < NUM_HANDLE) { if (HandleTable[i++] == NULL) break; }\<close>.\<close>

function free_scan :: "handle_table \<Rightarrow> int \<Rightarrow> int" where
  "free_scan T i =
     (if i < NUM_HANDLE then if T ! nat i = None then i + 1 else free_scan T (i + 1) else i)"
  by pat_completeness auto
termination by (relation "measure (\<lambda>(T, i). nat (NUM_HANDLE - i))") auto

declare free_scan.simps [simp del]

definition GetFreeHandle :: "handle_table \<Rightarrow> int" where
  "GetFreeHandle T = (let i = free_scan T 1 in if i = NUM_HANDLE then UPNP_E_OUTOF_HANDLE else i - 1)"

text \<open>The type of a handle, \<open>None\<close> for \<^verbatim>\<open>UPNP_E_INVALID_HANDLE\<close>.\<close>

definition GetHandleInfo :: "handle_table \<Rightarrow> int \<Rightarrow> Upnp_Handle_Type option" where
  "GetHandleInfo T Hnd =
     (if Hnd < 1 \<or> NUM_HANDLE \<le> Hnd then None else map_option HType (T ! nat Hnd))"

definition GetClientHandleInfo :: "handle_table \<Rightarrow> bool \<times> int" where
  "GetClientHandleInfo T =
     (if GetHandleInfo T 1 = Some HND_CLIENT then (True, 1)
      else if GetHandleInfo T 2 = Some HND_CLIENT then (True, 2)
      else (False, - 1))"

definition GetDeviceHandleInfo :: "handle_table \<Rightarrow> bool \<times> int" where
  "GetDeviceHandleInfo T =
     (if GetHandleInfo T 1 = Some HND_DEVICE then (True, 1)
      else if GetHandleInfo T 2 = Some HND_DEVICE then (True, 2)
      else (False, - 1))"

definition FreeHandle :: "handle_table \<Rightarrow> int \<Rightarrow> int \<times> handle_table" where
  "FreeHandle T Hnd =
     (if Hnd < 1 \<or> NUM_HANDLE \<le> Hnd then (UPNP_E_INVALID_HANDLE, T)
      else if T ! nat Hnd = None then (UPNP_E_INVALID_HANDLE, T)
      else (UPNP_E_SUCCESS, T[nat Hnd := None]))"

text \<open>
  \<open>Fun\<close> is the callback (0 is NULL); \<open>i0\<close> is what the fresh record holds, which the fields that are
  not set keep.  The result is the code, the handle written to \<^verbatim>\<open>*Hnd\<close> if any, and the table.
\<close>

definition UpnpRegisterClient ::
  "int \<Rightarrow> bool \<Rightarrow> Handle_Info \<Rightarrow> handle_table \<Rightarrow> nat \<Rightarrow> nat \<Rightarrow> bool \<Rightarrow> int \<times> int option \<times> handle_table" where
  "UpnpRegisterClient UpnpSdkInit mem_ok i0 T Fun cookie Hnd_null =
     (if UpnpSdkInit \<noteq> 1 then (UPNP_E_FINISH, None, T)
      else if Fun = 0 \<or> Hnd_null then (UPNP_E_INVALID_PARAM, None, T)
      else
        (let h = GetFreeHandle T in
         if h = UPNP_E_OUTOF_HANDLE then (UPNP_E_OUTOF_MEMORY, Some h, T)
         else if \<not> mem_ok then (UPNP_E_OUTOF_MEMORY, Some h, T)
         else (UPNP_E_SUCCESS, Some h, T[nat h := Some (i0
           \<lparr>HType := HND_CLIENT, Callback := Fun, Cookie := cookie, MaxAge := 0, ClientSubList := [],
            MaxSubscriptions := UPNP_INFINITE, MaxSubscriptionTimeOut := UPNP_INFINITE\<rparr>)])))"

definition UpnpSetMaxSubscriptions :: "handle_table \<Rightarrow> int \<Rightarrow> int \<Rightarrow> int \<times> handle_table" where
  "UpnpSetMaxSubscriptions T Hnd n =
     (if n \<noteq> UPNP_INFINITE \<and> n < 0 \<or> GetHandleInfo T Hnd \<noteq> Some HND_DEVICE
      then (UPNP_E_INVALID_HANDLE, T)
      else (UPNP_E_SUCCESS, T[nat Hnd := map_option (\<lambda>i. i\<lparr>MaxSubscriptions := n\<rparr>) (T ! nat Hnd)]))"

definition UpnpSetMaxSubscriptionTimeOut :: "handle_table \<Rightarrow> int \<Rightarrow> int \<Rightarrow> int \<times> handle_table" where
  "UpnpSetMaxSubscriptionTimeOut T Hnd n =
     (if n \<noteq> UPNP_INFINITE \<and> n < 0 \<or> GetHandleInfo T Hnd \<noteq> Some HND_DEVICE
      then (UPNP_E_INVALID_HANDLE, T)
      else (UPNP_E_SUCCESS,
        T[nat Hnd := map_option (\<lambda>i. i\<lparr>MaxSubscriptionTimeOut := n\<rparr>) (T ! nat Hnd)]))"

section \<open>Allocation\<close>

definition wf_table :: "handle_table \<Rightarrow> bool" where
  "wf_table T = (int (length T) = NUM_HANDLE)"

lemma free_scan_result: "i \<le> NUM_HANDLE \<Longrightarrow>
    (\<exists>k. i \<le> k \<and> k < NUM_HANDLE \<and> T ! nat k = None \<and> (\<forall>j. i \<le> j \<longrightarrow> j < k \<longrightarrow> T ! nat j \<noteq> None) \<and>
      free_scan T i = k + 1) \<or>
    free_scan T i = NUM_HANDLE \<and> (\<forall>j. i \<le> j \<longrightarrow> j < NUM_HANDLE \<longrightarrow> T ! nat j \<noteq> None)"
proof (induction T i rule: free_scan.induct)
  case (1 T i)
  show ?case
  proof (cases "i < NUM_HANDLE \<and> T ! nat i \<noteq> None")
    case True
    have e: "i \<le> j \<longleftrightarrow> j = i \<or> i + 1 \<le> j" for j by auto
    have u: "free_scan T i = free_scan T (i + 1)" using True by (subst free_scan.simps) auto
    show ?thesis
    proof (cases "free_scan T (i + 1) = NUM_HANDLE \<and>
        (\<forall>j. i + 1 \<le> j \<longrightarrow> j < NUM_HANDLE \<longrightarrow> T ! nat j \<noteq> None)")
      case A: True
      then have "T ! nat j \<noteq> None" if "i \<le> j" "j < NUM_HANDLE" for j
        using that True e [of j] by (cases "j = i") auto
      then show ?thesis using A u by simp
    next
      case False
      then obtain k where k: "i + 1 \<le> k" "k < NUM_HANDLE" "T ! nat k = None"
          "\<forall>j. i + 1 \<le> j \<longrightarrow> j < k \<longrightarrow> T ! nat j \<noteq> None" "free_scan T (i + 1) = k + 1"
        using "1.IH" True by auto
      then have "T ! nat j \<noteq> None" if "i \<le> j" "j < k" for j
        using that True e [of j] by (cases "j = i") auto
      then show ?thesis using k u by (intro disjI1 exI [of _ k]) simp
    qed
  next
    case False
    have "free_scan T i = (if i < NUM_HANDLE then i + 1 else i)"
      using False by (subst free_scan.simps) auto
    then show ?thesis using False "1.prems" by (cases "i < NUM_HANDLE") auto
  qed
qed

lemma GetFreeHandle_spec:
  "(\<exists>k. 1 \<le> k \<and> k < NUM_HANDLE - 1 \<and> T ! nat k = None \<and> (\<forall>j. 1 \<le> j \<longrightarrow> j < k \<longrightarrow> T ! nat j \<noteq> None) \<and>
     GetFreeHandle T = k) \<or>
   (\<forall>j. 1 \<le> j \<longrightarrow> j < NUM_HANDLE - 1 \<longrightarrow> T ! nat j \<noteq> None) \<and> GetFreeHandle T = UPNP_E_OUTOF_HANDLE"
  using free_scan_result [of 1 T] by (auto simp: GetFreeHandle_def Let_def NUM_HANDLE_def)

section \<open>The interface\<close>

text \<open>What callers rely on: a slot store with lookup, allocation of a free slot, and release.\<close>

locale slot_store =
  fixes inv :: "'t \<Rightarrow> bool" and get :: "'t \<Rightarrow> int \<Rightarrow> 'v option"
    and put :: "'t \<Rightarrow> 'v \<Rightarrow> (int \<times> 't) option" and del :: "'t \<Rightarrow> int \<Rightarrow> 't"
  assumes put_inv: "inv t \<Longrightarrow> put t v = Some (h, t') \<Longrightarrow> inv t'"
    and put_free: "inv t \<Longrightarrow> put t v = Some (h, t') \<Longrightarrow> get t h = None"
    and put_get: "inv t \<Longrightarrow> put t v = Some (h, t') \<Longrightarrow> get t' k = (if k = h then Some v else get t k)"
    and del_inv: "inv t \<Longrightarrow> inv (del t h)"
    and del_get: "inv t \<Longrightarrow> get (del t h) k = (if k = h then None else get t k)"
begin

text \<open>Handles that are in use at the same time are different.\<close>

lemma put_put_distinct: "inv t \<Longrightarrow> put t v = Some (h, t1) \<Longrightarrow> put t1 w = Some (k, t2) \<Longrightarrow> h \<noteq> k"
  using put_free put_get put_inv by (metis option.distinct(1))

lemma del_put: "inv t \<Longrightarrow> put t v = Some (h, t1) \<Longrightarrow> get (del t1 h) k = get t k"
  using put_free put_get put_inv del_get by metis

lemma stable_handle: "inv t \<Longrightarrow> get t h = Some v \<Longrightarrow> put t w = Some (k, t1) \<Longrightarrow> get t1 h = Some v \<and> k \<noteq> h"
  using put_get put_free by (metis option.distinct(1))

end

definition handle_get :: "handle_table \<Rightarrow> int \<Rightarrow> Handle_Info option" where
  "handle_get T h = (if h < 1 \<or> NUM_HANDLE \<le> h then None else T ! nat h)"

definition handle_put :: "handle_table \<Rightarrow> Handle_Info \<Rightarrow> (int \<times> handle_table) option" where
  "handle_put T i = (let h = GetFreeHandle T
     in if h = UPNP_E_OUTOF_HANDLE then None else Some (h, T[nat h := Some i]))"

lemma handle_put_Some: "handle_put T i = Some (h, T') \<Longrightarrow>
    1 \<le> h \<and> h < NUM_HANDLE - 1 \<and> T ! nat h = None \<and> T' = T[nat h := Some i] \<and> GetFreeHandle T = h"
  using GetFreeHandle_spec [of T] by (auto simp: handle_put_def Let_def split: if_splits)

interpretation handles: slot_store wf_table handle_get handle_put "\<lambda>T h. snd (FreeHandle T h)"
proof
  fix T :: handle_table and v h T' k
  assume w: "wf_table T"
  show "wf_table T'" if "handle_put T v = Some (h, T')"
    using handle_put_Some [OF that] w by (simp add: wf_table_def)
  show "handle_get T h = None" if "handle_put T v = Some (h, T')"
    using handle_put_Some [OF that] by (simp add: handle_get_def)
  show "handle_get T' k = (if k = h then Some v else handle_get T k)" if "handle_put T v = Some (h, T')"
    using handle_put_Some [OF that] w
    by (auto simp: handle_get_def wf_table_def NUM_HANDLE_def nth_list_update)
  show "wf_table (snd (FreeHandle T h))"
    using w by (simp add: FreeHandle_def wf_table_def)
  show "handle_get (snd (FreeHandle T h)) k = (if k = h then None else handle_get T k)"
    using w by (auto simp: FreeHandle_def handle_get_def wf_table_def NUM_HANDLE_def nth_list_update)
qed

lemma GetHandleInfo_get: "GetHandleInfo T h = map_option HType (handle_get T h)"
  by (simp add: GetHandleInfo_def handle_get_def)

lemma RegisterClient_put:
  assumes "Fun \<noteq> 0"
  shows "\<exists>i. HType i = HND_CLIENT \<and> UpnpRegisterClient 1 True i0 T Fun ck False =
    (case handle_put T i of None \<Rightarrow> (UPNP_E_OUTOF_MEMORY, Some UPNP_E_OUTOF_HANDLE, T)
     | Some (h, T') \<Rightarrow> (UPNP_E_SUCCESS, Some h, T'))"
  using assms
  by (intro exI [of _ "i0\<lparr>HType := HND_CLIENT, Callback := Fun, Cookie := ck, MaxAge := 0,
            ClientSubList := [], MaxSubscriptions := UPNP_INFINITE, MaxSubscriptionTimeOut := UPNP_INFINITE\<rparr>"])
    (simp add: UpnpRegisterClient_def handle_put_def Let_def)

section \<open>Properties\<close>

text \<open>
  A handle \<open>UpnpRegisterClient\<close> returns was free, names a client from then on, leaves every
  other handle alone, and releasing it restores all lookups.
\<close>

theorem UpnpRegisterClient_gives_handle:
  assumes "wf_table T" "Fun \<noteq> 0" "UpnpRegisterClient 1 True i0 T Fun ck False = (UPNP_E_SUCCESS, Some h, T')"
  shows "wf_table T' \<and> handle_get T h = None \<and> GetHandleInfo T' h = Some HND_CLIENT \<and>
    (\<forall>k. k \<noteq> h \<longrightarrow> handle_get T' k = handle_get T k) \<and>
    (\<forall>k. handle_get (snd (FreeHandle T' h)) k = handle_get T k)"
proof -
  obtain i where i: "HType i = HND_CLIENT" "UpnpRegisterClient 1 True i0 T Fun ck False =
    (case handle_put T i of None \<Rightarrow> (UPNP_E_OUTOF_MEMORY, Some UPNP_E_OUTOF_HANDLE, T)
     | Some (h, T') \<Rightarrow> (UPNP_E_SUCCESS, Some h, T'))"
    using RegisterClient_put [OF assms(2)] by blast
  then have p: "handle_put T i = Some (h, T')"
    using assms(3) by (auto split: option.splits)
  show ?thesis
    using handles.put_inv [OF assms(1) p] handles.put_free [OF assms(1) p]
      handles.put_get [OF assms(1) p] handles.del_put [OF assms(1) p] i(1)
    by (simp add: GetHandleInfo_get)
qed

text \<open>
  \<open>GetFreeHandle\<close> returns the smallest free handle from 1 to 198; the last slot of the table,
  199, is never handed out, even when it is the only free one.
\<close>

theorem GetFreeHandle_smallest:
  "GetFreeHandle T =
     (case List.find (\<lambda>j. T ! j = None) [1..<199] of
        None \<Rightarrow> UPNP_E_OUTOF_HANDLE
      | Some j \<Rightarrow> int j)"
proof (cases "List.find (\<lambda>j. T ! j = None) [1..<199]")
  case None
  then have "T ! nat k \<noteq> None" if "1 \<le> k" "k < 199" for k
    using that by (auto simp: find_None_iff)
  then show ?thesis using GetFreeHandle_spec [of T] None by (fastforce simp: NUM_HANDLE_def)
next
  case (Some j)
  then obtain m where m: "j = Suc m" "m < 198" "T ! Suc m = None" "\<And>i. i < m \<Longrightarrow> T ! Suc i \<noteq> None"
    by (auto simp: find_Some_iff nth_upt)
  have j: "T ! j = None" "1 \<le> j" "j < 199" using m by auto
  have least_j: "T ! i \<noteq> None" if "1 \<le> i" "i < j" for i
    using m(4) [of "i - 1"] m(1) that by auto
  show ?thesis
    using GetFreeHandle_spec [of T]
  proof (elim disjE exE conjE)
    fix k assume k: "1 \<le> k" "T ! nat k = None" "GetFreeHandle T = k"
      and least: "\<forall>i. 1 \<le> i \<longrightarrow> i < k \<longrightarrow> T ! nat i \<noteq> None"
    have "\<not> nat k < j" using least_j [of "nat k"] k(1,2) by force
    moreover have "\<not> int j < k" using least [rule_format, of "int j"] j(1,2) by auto
    ultimately show ?thesis using k Some by auto
  next
    assume all: "\<forall>i. 1 \<le> i \<longrightarrow> i < NUM_HANDLE - 1 \<longrightarrow> T ! nat i \<noteq> None"
    have "T ! nat (int j) \<noteq> None"
      by (rule all [rule_format]) (use j(2,3) in \<open>simp_all add: NUM_HANDLE_def\<close>)
    then show ?thesis using j(1) by simp
  qed
qed

text \<open>
  \<open>GetClientHandleInfo\<close> looks at handles 1 and 2 only: a client registered under a later
  handle is not found when these belong to devices.
\<close>

theorem GetClientHandleInfo_misses:
  assumes "GetHandleInfo T 1 \<noteq> Some HND_CLIENT" "GetHandleInfo T 2 \<noteq> Some HND_CLIENT"
    and "GetHandleInfo T h = Some HND_CLIENT"
  shows "GetClientHandleInfo T = (False, - 1) \<and> 3 \<le> h"
proof -
  have "h \<noteq> 1" "h \<noteq> 2" using assms by auto
  moreover have "1 \<le> h" using assms(3) by (auto simp: GetHandleInfo_def split: if_splits)
  ultimately show ?thesis using assms(1,2) by (auto simp: GetClientHandleInfo_def)
qed

text \<open>
  \<open>UpnpSetMaxSubscriptions\<close> rejects negative limits other than \<open>UPNP_INFINITE\<close> and handles
  that are not devices, and otherwise sets the limit of that device and changes nothing else.
\<close>

theorem UpnpSetMaxSubscriptions_sets:
  assumes "wf_table T"
  shows "if n < - 1 \<or> GetHandleInfo T h \<noteq> Some HND_DEVICE
    then UpnpSetMaxSubscriptions T h n = (UPNP_E_INVALID_HANDLE, T)
    else \<exists>T' i. UpnpSetMaxSubscriptions T h n = (UPNP_E_SUCCESS, T') \<and> handle_get T h = Some i \<and>
      (\<forall>k. handle_get T' k = (if k = h then Some (i\<lparr>MaxSubscriptions := n\<rparr>) else handle_get T k))"
proof (cases "n < - 1 \<or> GetHandleInfo T h \<noteq> Some HND_DEVICE")
  case False
  then obtain i where i: "handle_get T h = Some i" by (auto simp: GetHandleInfo_get)
  then have h: "1 \<le> h" "h < NUM_HANDLE" "T ! nat h = Some i"
    by (auto simp: handle_get_def split: if_splits)
  have "handle_get (T[nat h := Some (i\<lparr>MaxSubscriptions := n\<rparr>)]) k =
      (if k = h then Some (i\<lparr>MaxSubscriptions := n\<rparr>) else handle_get T k)" for k
    using h assms by (auto simp: handle_get_def wf_table_def nth_list_update NUM_HANDLE_def)
  moreover have "\<not> (n \<noteq> - 1 \<and> n < 0)" using False by auto
  ultimately show ?thesis using False i h by (auto simp: UpnpSetMaxSubscriptions_def)
qed (auto simp: UpnpSetMaxSubscriptions_def)

section \<open>Witnesses\<close>

definition no_table :: service_table where
  "no_table = \<lparr>URLBase = None, serviceList = []\<rparr>"

definition plain_info :: "Upnp_Handle_Type \<Rightarrow> Handle_Info" where
  "plain_info ht = \<lparr>HType = ht, Callback = 1, Cookie = 0, DescURL = [], MaxAge = 0, DescDocument = None,
     DeviceList = [], ServiceList = [], ServiceTable = no_table, ClientSubList = [], MaxSubscriptions = UPNP_INFINITE,
     MaxSubscriptionTimeOut = UPNP_INFINITE, DescAlias = [], aliasInstalled = False\<rparr>"

lemma wf_InitHandleList: "wf_table InitHandleList"
  by (simp add: wf_table_def InitHandleList_def NUM_HANDLE_def)

lemma GetFreeHandle_Init: "GetFreeHandle InitHandleList = 1"
  by (simp add: GetFreeHandle_def free_scan.simps [of _ 1] InitHandleList_def NUM_HANDLE_def)

lemma UpnpRegisterClient_gives_handle_witness:
  "\<exists>T'. UpnpRegisterClient 1 True (plain_info HND_DEVICE) InitHandleList 7 0 False = (UPNP_E_SUCCESS, Some 1, T') \<and>
    GetHandleInfo T' 1 = Some HND_CLIENT"
proof -
  obtain T' where r: "UpnpRegisterClient 1 True (plain_info HND_DEVICE) InitHandleList 7 0 False = (UPNP_E_SUCCESS, Some 1, T')"
    by (simp add: UpnpRegisterClient_def GetFreeHandle_Init Let_def)
  from UpnpRegisterClient_gives_handle [OF wf_InitHandleList _ r] r show ?thesis by simp
qed

lemma GetClientHandleInfo_misses_witness:
  "GetClientHandleInfo (InitHandleList[1 := Some (plain_info HND_DEVICE), 2 := Some (plain_info HND_DEVICE),
      3 := Some (plain_info HND_CLIENT)]) = (False, - 1)"
  using GetClientHandleInfo_misses [of "InitHandleList[1 := Some (plain_info HND_DEVICE),
      2 := Some (plain_info HND_DEVICE), 3 := Some (plain_info HND_CLIENT)]" 3]
  by (simp add: GetHandleInfo_def NUM_HANDLE_def InitHandleList_def plain_info_def nth_list_update)

lemma UpnpSetMaxSubscriptions_sets_witness:
  "\<exists>T'. UpnpSetMaxSubscriptions (InitHandleList[1 := Some (plain_info HND_DEVICE)]) 1 5
    = (UPNP_E_SUCCESS, T')"
proof -
  have "wf_table (InitHandleList[1 := Some (plain_info HND_DEVICE)])"
    using wf_InitHandleList by (simp add: wf_table_def)
  from UpnpSetMaxSubscriptions_sets [OF this, of 5 1] show ?thesis
    by (auto simp: GetHandleInfo_def NUM_HANDLE_def InitHandleList_def plain_info_def)
qed

end
