(* ===== verification/Gena_Notify.thy ===== *)
theory Gena_Notify imports Handles Http_Message Http_Transfer begin

text \<open>
  Event notification by a device (\<^verbatim>\<open>gena/gena_server.c\<close>, lines 41 to 1128): the property set,
  the NOTIFY request, the jobs in the thread pool with the block of data they share, and the
  functions that start notifications.

  A job is a \<^verbatim>\<open>notify_thread_struct\<close>; the headers, the property set, the two names and the
  reference count it points to are one block, named by a number.  The handle table, the store with
  the delivery URLs, the pool and the blocks are the state.  What the code does while it holds
  \<^verbatim>\<open>HandleLock\<close> is one step.
\<close>

section \<open>The property set\<close>

definition XML_PROPERTYSET_HEADER :: string where
  "XML_PROPERTYSET_HEADER =
     ''<e:propertyset xmlns:e='' @ [DQ] @ ''urn:schemas-upnp-org:event-1-0'' @ [DQ] @ ''>'' @ [LF]"

definition XML_PROPERTYSET_FOOTER :: string where
  "XML_PROPERTYSET_FOOTER = ''</e:propertyset>'' @ [LF, LF]"

text \<open>The two loops: the size that is allocated, and the text that is written.\<close>

fun property_size :: "string list \<Rightarrow> string list \<Rightarrow> nat" where
  "property_size (n # ns) (v # vs) =
     length (''<e:property>'' @ [LF] @ ''</e:property>'' @ [LF]) +
     (2 * length n + length v + length (''<></>'' @ [LF])) + property_size ns vs"
| "property_size _ _ = 0"

fun property_text :: "string list \<Rightarrow> string list \<Rightarrow> string" where
  "property_text (n # ns) (v # vs) =
     ''<e:property>'' @ [LF] @ ''<'' @ n @ ''>'' @ v @ ''</'' @ n @ ''>'' @ [LF] @ ''</e:property>'' @ [LF] @
     property_text ns vs"
| "property_text _ _ = []"

definition GeneratePropertySet ::
  "bool \<Rightarrow> string list \<Rightarrow> string list \<Rightarrow> int \<Rightarrow> (int \<times> string option) option" where
  "GeneratePropertySet mem_ok names values cnt =
     (if int (length names) < cnt \<or> int (length values) < cnt then None
      else
        (let ns = take (nat cnt) names; vs = take (nat cnt) values;
             size = length XML_PROPERTYSET_HEADER + length XML_PROPERTYSET_FOOTER + property_size ns vs;
             buffer = XML_PROPERTYSET_HEADER @ property_text ns vs @ XML_PROPERTYSET_FOOTER
         in if \<not> mem_ok then Some (UPNP_E_OUTOF_MEMORY, None)
            else if size + 1 < length buffer + 1 then None
            else Some (0, Some buffer)))"

lemma property_size_text: "length (property_text ns vs) = property_size ns vs"
  by (induction ns vs rule: property_text.induct) auto

lemma GeneratePropertySet_ok:
  "0 \<le> cnt \<Longrightarrow> cnt \<le> int (length names) \<Longrightarrow> cnt \<le> int (length vals) \<Longrightarrow>
    GeneratePropertySet True names vals cnt = Some (0, Some (XML_PROPERTYSET_HEADER @
      property_text (take (nat cnt) names) (take (nat cnt) vals) @ XML_PROPERTYSET_FOOTER))"
  by (simp add: GeneratePropertySet_def Let_def property_size_text)

section \<open>The NOTIFY request\<close>

abbreviation (input) GENA_SUCCESS :: int where "GENA_SUCCESS \<equiv> 0"
abbreviation (input) XML_SUCCESS :: int where "XML_SUCCESS \<equiv> 0"
abbreviation (input) GENA_E_NOTIFY_UNACCEPTED_REMOVE_SUB :: int where
  "GENA_E_NOTIFY_UNACCEPTED_REMOVE_SUB \<equiv> - 9"

definition MAX_CONTENT_LENGTH :: nat where "MAX_CONTENT_LENGTH = 20"

definition MAX_EVENTS :: nat where "MAX_EVENTS = 20"

definition notify_headers :: "string \<Rightarrow> string option" where
  "notify_headers propertySet =
     (let headers_size = length (''CONTENT-TYPE text/xml'' @ CRLF) + length (''CONTENT-LENGTH: '' @ CRLF) +
            MAX_CONTENT_LENGTH + length (''NT: upnp:event'' @ CRLF) + length (''NTS: upnp:propchange'' @ CRLF) + 1;
          headers = ''CONTENT-TYPE: text/xml'' @ CRLF @ ''CONTENT-LENGTH: '' @
            dec_int (int (length propertySet) + 1) @ CRLF @ ''NT: upnp:event'' @ CRLF @ ''NTS: upnp:propchange'' @ CRLF
      in if headers_size < length headers + 1 then None else Some headers)"

lemma notify_headers_fit: "length propertySet < 10 ^ 18 \<Longrightarrow> notify_headers propertySet =
    Some (''CONTENT-TYPE: text/xml'' @ CRLF @ ''CONTENT-LENGTH: '' @
      dec_int (int (length propertySet) + 1) @ CRLF @ ''NT: upnp:event'' @ CRLF @ ''NTS: upnp:propchange'' @ CRLF)"
  using length_dec_nat [of 19 "length propertySet + 1"]
  by (simp add: nat_add_distrib notify_headers_def Let_def MAX_CONTENT_LENGTH_def CRLF_def dec_int_def)

text \<open>
  The loop over the delivery URLs; \<open>N i\<close> is what the network does to the \<open>i\<close>-th transfer.  The
  result is the code of the last transfer, the response of the successful one, and what each peer
  was sent.
\<close>

fun notify_loop ::
  "mem \<Rightarrow> (nat \<Rightarrow> net) \<Rightarrow> string \<Rightarrow> uri_type list \<Rightarrow> nat \<Rightarrow> nat \<Rightarrow> int \<Rightarrow>
     (int \<times> string option \<times> string list) option" where
  "notify_loop M N msg us i 0 rc = Some (rc, None, [])"
| "notify_loop M N msg us i (Suc n) rc =
     (if i < length us
      then do {
        (code, out, sent) \<leftarrow> transferHTTPparsedURL M (N i) ''NOTIFY'' (msg @ [NUL]) (int (length msg) + 1) (us ! i);
        if code = HTTP_SUCCESS then Some (code, out, [sent])
        else do {
          (rc', out', sents) \<leftarrow> notify_loop M N msg us (Suc i) n code;
          Some (rc', out', sent # sents) } }
      else None)"

text \<open>The meaning of a response: \<open>rb\<close> is the block it was received in, \<open>m0\<close> the fresh message.\<close>

definition notify_response ::
  "(nat \<Rightarrow> bool) \<Rightarrow> mem \<Rightarrow> block \<Rightarrow> http_message \<Rightarrow> string \<Rightarrow> int option" where
  "notify_response A M rb m0 response = do {
     let M' = M(rb := response @ [NUL]);
     len \<leftarrow> strlen (bytes_at M' (rb, 0));
     (rc, m) \<leftarrow> parse_http_response A M' (rb, 0) m0 len;
     if rc = HTTP_SUCCESS
     then do {
       ok \<leftarrow> strncasecmp (tok_bytes M' (status_code (status m))) (''200'' @ [NUL]) 3;
       if ok = 0 then Some GENA_SUCCESS
       else do {
         bad \<leftarrow> strncasecmp (tok_bytes M' (status_code (status m))) (''412'' @ [NUL]) 3;
         Some (if bad = 0 then GENA_E_NOTIFY_UNACCEPTED_REMOVE_SUB else UPNP_E_NOTIFY_UNACCEPTED) } }
     else Some rc }"

definition notify_message :: "string \<Rightarrow> string \<Rightarrow> subscription \<Rightarrow> string" where
  "notify_message headers propertySet sub =
     headers @ ''SID: '' @ ssid sub @ CRLF @ ''SEQ: '' @ dec_int (sint (ToSendEventKey sub)) @ CRLF @ CRLF @
     propertySet"

definition genaNotify ::
  "(nat \<Rightarrow> bool) \<Rightarrow> mem \<Rightarrow> (nat \<Rightarrow> net) \<Rightarrow> bool \<Rightarrow> block \<Rightarrow> http_message \<Rightarrow> string \<Rightarrow> string \<Rightarrow> subscription \<Rightarrow>
     (int \<times> string list) option" where
  "genaNotify A M N mem_ok rb m0 headers propertySet sub =
     (let full_size = length headers + length (''SID: '' @ CRLF) + SID_SIZE +
            length (''SEQ: '' @ CRLF @ CRLF) + MAX_EVENTS + length propertySet + 1;
          full_message = notify_message headers propertySet sub
      in if \<not> mem_ok then Some (UPNP_E_OUTOF_MEMORY, [])
         else if full_size < length full_message + 1 then None
         else do {
           (rc, response, sents) \<leftarrow> notify_loop M N full_message (parsedURLs (DeliveryURLs sub)) 0
              (nat (lsize (DeliveryURLs sub))) UPNP_E_NOTIFY_UNACCEPTED;
           if rc = HTTP_SUCCESS
           then (case response of None \<Rightarrow> None
             | Some r \<Rightarrow> map_option (\<lambda>code. (code, sents)) (notify_response A M rb m0 r))
           else Some (rc, sents) })"

section \<open>Jobs and the data they share\<close>

text \<open>
  \<open>prop_start\<close>: whether \<^verbatim>\<open>propertySet\<close> points to the start of an allocated object, as
  \<^verbatim>\<open>free\<close> needs it.
\<close>

record notify_block =
  nheaders :: string
  nprops :: string
  nservId :: string
  nUDN :: string
  prop_start :: bool

record notify_thread_struct =
  nblock :: nat
  nsid :: string
  neventKey :: "32 word"
  ndevice :: int

record gena =
  handles :: handle_table
  gmem :: mem
  pool :: "notify_thread_struct list"
  shared :: "nat \<Rightarrow> (notify_block \<times> int) option"
  next_block :: nat

definition free_notify_struct :: "notify_thread_struct \<Rightarrow> gena \<Rightarrow> gena option" where
  "free_notify_struct j g = do {
     (b, n) \<leftarrow> shared g (nblock j);
     if n - 1 = 0
     then (if prop_start b then Some (g\<lparr>shared := (shared g)(nblock j := None)\<rparr>) else None)
     else Some (g\<lparr>shared := (shared g)(nblock j := Some (b, n - 1))\<rparr>) }"

definition device_info :: "handle_table \<Rightarrow> int \<Rightarrow> Handle_Info option" where
  "device_info T h = (if GetHandleInfo T h = Some HND_DEVICE then T ! nat h else None)"

definition put_service :: "handle_table \<Rightarrow> int \<Rightarrow> nat \<Rightarrow> service_info \<Rightarrow> handle_table" where
  "put_service T h k sv = T[nat h := map_option (\<lambda>i. i\<lparr>ServiceTable :=
     (ServiceTable i)\<lparr>serviceList := (serviceList (ServiceTable i))[k := sv]\<rparr>\<rparr>) (T ! nat h)]"

text \<open>
  The validation of a job, before and after sending: handle, service, active, subscription.  The
  result is the service and the position of the subscription, or \<open>None\<close> inside.
\<close>

definition job_context ::
  "int \<Rightarrow> notify_block \<Rightarrow> notify_thread_struct \<Rightarrow> gena \<Rightarrow> ((nat \<times> service_info \<times> nat) option \<times> gena) option" where
  "job_context t b j g =
     (case device_info (handles g) (ndevice j) of
        None \<Rightarrow> Some (None, g)
      | Some info \<Rightarrow> do {
          r \<leftarrow> FindServiceId (Some (ServiceTable info)) (nservId b) (nUDN b);
          (case r of
             None \<Rightarrow> Some (None, g)
           | Some k \<Rightarrow>
               (let sv = serviceList (ServiceTable info) ! k
                in if \<not> svc_active sv then Some (None, g)
                   else (case GetSubscriptionSID t (gmem g) (nsid j) sv of (pos, sv', M') \<Rightarrow>
                     Some (map_option (\<lambda>i. (k, sv', i)) pos,
                       g\<lparr>handles := put_service (handles g) (ndevice j) k sv', gmem := M'\<rparr>)))) })"

text \<open>
  \<^verbatim>\<open>genaNotifyThread\<close> up to the transmission: the job is dropped, goes back to the pool, or is
  sent with a copy of the subscription (in block \<open>fresh\<close>).
\<close>

datatype job_fate = Dropped | Requeued | Sending subscription notify_block

definition notify_begin ::
  "env \<Rightarrow> int \<Rightarrow> bool \<Rightarrow> block \<Rightarrow> notify_thread_struct \<Rightarrow> gena \<Rightarrow> (job_fate \<times> gena) option" where
  "notify_begin e t pool_ok fresh j g = do {
     (b, n) \<leftarrow> shared g (nblock j);
     (ctx, g) \<leftarrow> job_context t b j g;
     (case ctx of
        None \<Rightarrow> map_option (Pair Dropped) (free_notify_struct j g)
      | Some (k, sv, i) \<Rightarrow> do {
          let sub = subscriptionList sv ! i;
          (rc, sub_copy, M) \<leftarrow> copy_subscription (gmem g) e fresh sub;
          if rc \<noteq> HTTP_SUCCESS
          then map_option (Pair Dropped) (free_notify_struct j (g\<lparr>gmem := M\<rparr>))
          else if neventKey j \<noteq> ToSendEventKey sub
          then Some (Requeued, g\<lparr>pool := pool g @ (if pool_ok then [j] else []),
                                 gmem := freeSubscription M sub_copy\<rparr>)
          else Some (Sending sub_copy b, g\<lparr>gmem := M\<rparr>) }) }"

definition next_key :: "32 word \<Rightarrow> 32 word" where
  "next_key k = (if sint (k + 1) < 0 then 1 else k + 1)"

text \<open>\<^verbatim>\<open>genaNotifyThread\<close> after the transmission returned \<open>return_code\<close>.\<close>

definition notify_end ::
  "int \<Rightarrow> notify_thread_struct \<Rightarrow> subscription \<Rightarrow> int \<Rightarrow> gena \<Rightarrow> gena option" where
  "notify_end t j sub_copy return_code g = do {
     let g = g\<lparr>gmem := freeSubscription (gmem g) sub_copy\<rparr>;
     (b, n) \<leftarrow> shared g (nblock j);
     (ctx, g) \<leftarrow> job_context t b j g;
     (case ctx of
        None \<Rightarrow> free_notify_struct j g
      | Some (k, sv, i) \<Rightarrow>
          (let sub = subscriptionList sv ! i;
               sv = sv\<lparr>subscriptionList := (subscriptionList sv)
                 [i := sub\<lparr>ToSendEventKey := next_key (ToSendEventKey sub)\<rparr>]\<rparr>;
               (sv, M) = (if return_code = GENA_E_NOTIFY_UNACCEPTED_REMOVE_SUB
                 then RemoveSubscriptionSID (gmem g) (nsid j) sv else (sv, gmem g))
           in free_notify_struct j (g\<lparr>handles := put_service (handles g) (ndevice j) k sv, gmem := M\<rparr>))) }"

section \<open>The initial notification\<close>

text \<open>
  The handle, service and subscription of the initial notification: the error code, or the service
  and the position of the subscription, which is then set active.
\<close>

definition init_begin ::
  "int \<Rightarrow> int \<Rightarrow> string \<Rightarrow> string \<Rightarrow> string \<Rightarrow> gena \<Rightarrow> ((int + nat \<times> service_info \<times> nat) \<times> gena) option" where
  "init_begin t h udn serv sid g =
     (case device_info (handles g) h of
        None \<Rightarrow> Some (Inl UPNP_E_INVALID_HANDLE, g)
      | Some info \<Rightarrow> do {
          r \<leftarrow> FindServiceId (Some (ServiceTable info)) serv udn;
          (case r of
             None \<Rightarrow> Some (Inl UPNP_E_INVALID_SERVICE, g)
           | Some k \<Rightarrow>
               (case GetSubscriptionSID t (gmem g) sid (serviceList (ServiceTable info) ! k) of (pos, sv, M) \<Rightarrow>
                 let g = g\<lparr>handles := put_service (handles g) h k sv, gmem := M\<rparr>
                 in (case pos of
                   None \<Rightarrow> Some (Inl UPNP_E_INVALID_SID, g)
                 | Some i \<Rightarrow>
                     if sub_active (subscriptionList sv ! i) then Some (Inl UPNP_E_INVALID_SID, g)
                     else
                       (let sv = sv\<lparr>subscriptionList := (subscriptionList sv)
                              [i := (subscriptionList sv ! i)\<lparr>sub_active := True\<rparr>]\<rparr>
                        in Some (Inr (k, sv, i), g\<lparr>handles := put_service (handles g) h k sv\<rparr>))))) })"

text \<open>
  From the headers on: \<open>A4\<close> and \<open>A5\<close> answer the allocations of the headers and the job,
  \<open>pool_rc\<close> is what \<^verbatim>\<open>tpool_Schedule\<close> returns, \<open>start\<close> tells whether the property set starts
  an object.
\<close>

definition init_schedule ::
  "bool \<Rightarrow> bool \<Rightarrow> int \<Rightarrow> int \<Rightarrow> string \<Rightarrow> string \<Rightarrow> string \<Rightarrow> nat \<times> service_info \<times> nat \<Rightarrow> string \<Rightarrow> bool \<Rightarrow> gena \<Rightarrow>
     (int \<times> gena) option" where
  "init_schedule A4 A5 pool_rc h udn serv sid ctx propertySet start g =
     (if \<not> A4 then (if start then Some (UPNP_E_OUTOF_MEMORY, g) else None)
      else do {
        headers \<leftarrow> notify_headers propertySet;
        let (k, sv, i) = ctx;
        let sub = subscriptionList sv ! i;
        let sv' = sv\<lparr>subscriptionList := (subscriptionList sv)[i := sub\<lparr>eventKey := eventKey sub + 1\<rparr>]\<rparr>;
        let g' = (if A5 then g\<lparr>handles := put_service (handles g) h k sv'\<rparr> else g);
        let rc = (if \<not> A5 then UPNP_E_OUTOF_MEMORY
                  else if pool_rc = - 1 then UPNP_E_OUTOF_MEMORY else pool_rc);
        if rc = GENA_SUCCESS
        then Some (rc, g'\<lparr>pool := pool g' @ [\<lparr>nblock = next_block g', nsid = sid, neventKey = eventKey sub,
                              ndevice = h\<rparr>],
               shared := (shared g')(next_block g' := Some (\<lparr>nheaders = headers, nprops = propertySet,
                 nservId = serv, nUDN = udn, prop_start = start\<rparr>, 1)),
               next_block := Suc (next_block g')\<rparr>)
        else if start then Some (rc, g') else None })"

text \<open>\<open>A k\<close> is the answer of the \<open>k\<close>-th allocation.\<close>

definition genaInitNotify ::
  "(nat \<Rightarrow> bool) \<Rightarrow> int \<Rightarrow> int \<Rightarrow> int \<Rightarrow> string \<Rightarrow> string \<Rightarrow> string list \<Rightarrow> string list \<Rightarrow> int \<Rightarrow> string \<Rightarrow> gena \<Rightarrow>
     (int \<times> gena) option" where
  "genaInitNotify A pool_rc t h udn serv names vals var_count sid g =
     (if \<not> A 0 \<or> \<not> A 1 \<or> \<not> A 2 then Some (UPNP_E_OUTOF_MEMORY, g)
      else do {
        (r, g) \<leftarrow> init_begin t h udn serv sid g;
        (case r of
           Inl err \<Rightarrow> Some (err, g)
         | Inr ctx \<Rightarrow> do {
             (rc, ps) \<leftarrow> GeneratePropertySet (A 3) names vals var_count;
             (case ps of
                None \<Rightarrow> Some (rc, g)
              | Some propertySet \<Rightarrow>
                  init_schedule (A 4) (A 5) pool_rc h udn serv sid ctx propertySet True g) }) })"

text \<open>
  The property set of a DOM document; \<open>printed\<close> is what the printer \<^verbatim>\<open>UpnpNewPrintDocument\<close>
  returned.  The second part tells whether the pointer is the start of the printed text.
\<close>

definition printed_set :: "string option \<Rightarrow> (string \<times> bool) option" where
  "printed_set printed = do {
     s \<leftarrow> printed;
     i \<leftarrow> strstr s ''<e:propertyset'';
     Some (drop i s, i = 0) }"

definition genaInitNotifyExt ::
  "(nat \<Rightarrow> bool) \<Rightarrow> int \<Rightarrow> int \<Rightarrow> int \<Rightarrow> string \<Rightarrow> string \<Rightarrow> string option \<Rightarrow> string \<Rightarrow> gena \<Rightarrow>
     (int \<times> gena) option" where
  "genaInitNotifyExt A pool_rc t h udn serv printed sid g =
     (if \<not> A 0 \<or> \<not> A 1 \<or> \<not> A 2 then Some (UPNP_E_OUTOF_MEMORY, g)
      else do {
        (r, g) \<leftarrow> init_begin t h udn serv sid g;
        (case r of
           Inl err \<Rightarrow> Some (err, g)
         | Inr ctx \<Rightarrow>
             (case printed_set printed of
                None \<Rightarrow> Some (UPNP_E_INVALID_PARAM, g)
              | Some (propertySet, start) \<Rightarrow>
                  init_schedule (A 4) (A 5) pool_rc h udn serv sid ctx propertySet start g)) })"

section \<open>Notifying all subscribers\<close>

text \<open>
  The loop over the subscriptions from position \<open>cur\<close> on: \<open>A n\<close> and \<open>P n\<close> answer the
  allocation and the scheduling of round \<open>n\<close>.  The result is the return code, the number of
  rounds that raised the reference count, the service, the store and the jobs.
\<close>

fun notify_all_loop ::
  "(nat \<Rightarrow> bool) \<Rightarrow> (nat \<Rightarrow> int) \<Rightarrow> int \<Rightarrow> nat \<Rightarrow> int \<Rightarrow> nat \<Rightarrow> nat \<Rightarrow> int \<Rightarrow> nat option \<Rightarrow> service_info \<Rightarrow> mem \<Rightarrow>
     notify_thread_struct list \<Rightarrow> int \<times> nat \<times> service_info \<times> mem \<times> notify_thread_struct list" where
  "notify_all_loop A P t b h 0 n rc cur sv M js = (rc, n, sv, M, js)"
| "notify_all_loop A P t b h (Suc fuel) n rc None sv M js = (rc, n, sv, M, js)"
| "notify_all_loop A P t b h (Suc fuel) n rc (Some i) sv M js =
     (if \<not> A n then (rc, n, sv, M, js)
      else
        (let finger = subscriptionList sv ! i;
             j = \<lparr>nblock = b, nsid = ssid finger, neventKey = eventKey finger, ndevice = h\<rparr>;
             sv' = sv\<lparr>subscriptionList := (subscriptionList sv)
               [i := finger\<lparr>eventKey := next_key (eventKey finger)\<rparr>]\<rparr>
         in if P n \<noteq> 0
            then (if P n = - 1 then UPNP_E_OUTOF_MEMORY else P n, Suc n, sv', M, js)
            else (case GetNextSubscription t M sv' (Some i) of (nxt, sv'', M') \<Rightarrow>
              notify_all_loop A P t b h fuel (Suc n) 0 nxt sv'' M' (js @ [j]))))"

text \<open>
  What happens under the lock, with the headers and the property set at hand.  Every round moves
  on in the list, so as many rounds as it has elements are enough.
\<close>

definition notify_all ::
  "(nat \<Rightarrow> bool) \<Rightarrow> (nat \<Rightarrow> int) \<Rightarrow> int \<Rightarrow> int \<Rightarrow> notify_block \<Rightarrow> gena \<Rightarrow> (int \<times> gena) option" where
  "notify_all A P t h b g =
     (case device_info (handles g) h of
        None \<Rightarrow> Some (UPNP_E_INVALID_HANDLE, g)
      | Some info \<Rightarrow> do {
          r \<leftarrow> FindServiceId (Some (ServiceTable info)) (nservId b) (nUDN b);
          (case r of
             None \<Rightarrow> Some (UPNP_E_INVALID_SERVICE, g)
           | Some k \<Rightarrow>
               (let sv = serviceList (ServiceTable info) ! k;
                    (cur, sv', M) = GetFirstSubscription t (gmem g) sv;
                    (rc, n, sv'', M', js) = notify_all_loop A P t (next_block g) h
                      (Suc (length (subscriptionList sv))) 0 GENA_SUCCESS cur sv' M [];
                    g' = g\<lparr>handles := put_service (handles g) h k sv'', gmem := M', pool := pool g @ js\<rparr>
                in Some (rc, if n = 0 then g'
                   else g'\<lparr>shared := (shared g)(next_block g := Some (b, int n)),
                           next_block := Suc (next_block g)\<rparr>))) })"

definition genaNotifyAll ::
  "(nat \<Rightarrow> bool) \<Rightarrow> (nat \<Rightarrow> int) \<Rightarrow> int \<Rightarrow> int \<Rightarrow> string \<Rightarrow> string \<Rightarrow> string list \<Rightarrow> string list \<Rightarrow> int \<Rightarrow> gena \<Rightarrow>
     (int \<times> gena) option" where
  "genaNotifyAll A P t h udn serv names vals var_count g =
     (if \<not> A 0 \<or> \<not> A 1 \<or> \<not> A 2 then Some (UPNP_E_OUTOF_MEMORY, g)
      else do {
        (rc, ps) \<leftarrow> GeneratePropertySet (A 3) names vals var_count;
        (case ps of
           None \<Rightarrow> Some (rc, g)
         | Some propertySet \<Rightarrow>
             if \<not> A 4 then Some (UPNP_E_OUTOF_MEMORY, g)
             else do {
               headers \<leftarrow> notify_headers propertySet;
               notify_all (\<lambda>n. A (5 + n)) P t h \<lparr>nheaders = headers, nprops = propertySet,
                 nservId = serv, nUDN = udn, prop_start = True\<rparr> g }) })"

definition genaNotifyAllExt ::
  "(nat \<Rightarrow> bool) \<Rightarrow> (nat \<Rightarrow> int) \<Rightarrow> int \<Rightarrow> int \<Rightarrow> string \<Rightarrow> string \<Rightarrow> string option \<Rightarrow> gena \<Rightarrow>
     (int \<times> gena) option" where
  "genaNotifyAllExt A P t h udn serv printed g =
     (if \<not> A 0 \<or> \<not> A 1 \<or> \<not> A 2 then Some (UPNP_E_OUTOF_MEMORY, g)
      else
        (case printed_set printed of
           None \<Rightarrow> Some (UPNP_E_INVALID_PARAM, g)
         | Some (propertySet, start) \<Rightarrow>
             if \<not> A 4 then Some (UPNP_E_OUTOF_MEMORY, g)
             else do {
               headers \<leftarrow> notify_headers propertySet;
               notify_all (\<lambda>n. A (5 + n)) P t h \<lparr>nheaders = headers, nprops = propertySet,
                 nservId = serv, nUDN = udn, prop_start = start\<rparr> g }))"

text \<open>Removing a device: its services and their subscriptions are freed.\<close>

definition genaUnregisterDevice :: "int \<Rightarrow> gena \<Rightarrow> int \<times> gena" where
  "genaUnregisterDevice h g =
     (case device_info (handles g) h of
        None \<Rightarrow> (UPNP_E_INVALID_HANDLE, g)
      | Some info \<Rightarrow> (UPNP_E_SUCCESS,
          g\<lparr>handles := (handles g)[nat h := Some (info\<lparr>ServiceTable := (ServiceTable info)\<lparr>serviceList := []\<rparr>\<rparr>)],
            gmem := freeSubscriptionList (gmem g) (concat (map subscriptionList (serviceList (ServiceTable info))))\<rparr>))"

section \<open>What notifying does\<close>

text \<open>One event for a subscription: its key is used and the next one is set.\<close>

definition job_for :: "nat \<Rightarrow> int \<Rightarrow> subscription \<Rightarrow> notify_thread_struct" where
  "job_for b h s = \<lparr>nblock = b, nsid = ssid s, neventKey = eventKey s, ndevice = h\<rparr>"

definition count_event :: "subscription \<Rightarrow> subscription" where
  "count_event s = (if sub_active s then s\<lparr>eventKey := next_key (eventKey s)\<rparr> else s)"

definition receives :: "int \<Rightarrow> subscription \<Rightarrow> bool" where
  "receives t s = (sub_active s \<and> \<not> sub_expired t s)"

lemma expired_event [simp]: "sub_expired t (s\<lparr>eventKey := k\<rparr>) = sub_expired t s"
  by (simp add: sub_expired_def)

lemma map_count_inactive: "\<forall>x \<in> set k. \<not> sub_active x \<Longrightarrow> map count_event k = k"
  by (induction k) (auto simp: count_event_def)

lemma next_active_inactive: "next_active t xs = (k, r, f) \<Longrightarrow> \<forall>x \<in> set k. \<not> sub_active x"
  by (induction xs arbitrary: k r f) (auto split: if_splits prod.splits)

text \<open>The loop when nothing fails, from a live subscription \<open>s\<close> on.\<close>

lemma notify_all_loop_rest:
  assumes "subscriptionList sv = pre @ s # rest" "\<forall>x \<in> set (pre @ [s]). \<not> sub_expired t x" "sub_active s"
    and "length rest < fuel" "A = (\<lambda>_. True)" "P = (\<lambda>_. 0)"
  shows "notify_all_loop A P t b h fuel n rc (Some (length pre)) sv M js =
    (0, n + length (filter (receives t) (s # rest)),
     sv\<lparr>subscriptionList := pre @ map count_event (filter (\<lambda>x. \<not> sub_expired t x) (s # rest)),
        TotalSubscriptions := TotalSubscriptions sv - int (length (filter (sub_expired t) rest))\<rparr>,
     freeSubscriptionList M (filter (sub_expired t) rest),
     js @ map (job_for b h) (filter (receives t) (s # rest)))"
  using assms
proof (induction fuel arbitrary: pre s rest sv M n js rc)
  case (Suc fuel)
  obtain k r f where a: "next_active t rest = (k, r, f)" by (metis prod_cases3)
  note sp = next_active_spec [OF a]
  have kin: "\<forall>x \<in> set k. \<not> sub_active x" using next_active_inactive [OF a] .
  then have nk: "filter (receives t) k = []" by (simp add: filter_empty_conv receives_def)
  let ?s = "s\<lparr>eventKey := next_key (eventKey s)\<rparr>"
  let ?sv = "sv\<lparr>subscriptionList := pre @ ?s # k @ r,
    TotalSubscriptions := TotalSubscriptions sv - int (length f)\<rparr>"
  have rec_rest: "filter (receives t) rest = filter (receives t) r"
    using sp by (simp add: receives_def [abs_def])
  have s: "receives t s" "count_event s = ?s" "\<not> sub_expired t s"
    using Suc.prems(2,3) by (auto simp: receives_def count_event_def)
  have g: "GetNextSubscription t M (sv\<lparr>subscriptionList := pre @ ?s # rest\<rparr>) (Some (length pre)) =
      (if r = [] then None else Some (Suc (length pre + length k)), ?sv, freeSubscriptionList M f)"
    using a by (simp add: GetNextSubscription_def next_from_def)
  have step: "notify_all_loop A P t b h (Suc fuel) n rc (Some (length pre)) sv M js =
      notify_all_loop A P t b h fuel (Suc n) 0 (if r = [] then None else Some (Suc (length pre + length k)))
        ?sv (freeSubscriptionList M f) (js @ [job_for b h s])"
    using g Suc.prems(1,5,6) by (simp add: job_for_def)
  show ?case
  proof (cases r)
    case Nil
    then show ?thesis using step sp s rec_rest map_count_inactive [OF kin]
      by (cases fuel) auto
  next
    case (Cons s' rest')
    have sp': "sub_active s'" "\<not> sub_expired t s'" using sp Cons by auto
    have ih: "notify_all_loop A P t b h fuel (Suc n) 0 (Some (length (pre @ ?s # k))) ?sv
        (freeSubscriptionList M f) (js @ [job_for b h s]) =
      (0, Suc n + length (filter (receives t) (s' # rest')),
       ?sv\<lparr>subscriptionList := (pre @ ?s # k) @ map count_event (filter (\<lambda>x. \<not> sub_expired t x) (s' # rest')),
          TotalSubscriptions := TotalSubscriptions ?sv - int (length (filter (sub_expired t) rest'))\<rparr>,
       freeSubscriptionList (freeSubscriptionList M f) (filter (sub_expired t) rest'),
       (js @ [job_for b h s]) @ map (job_for b h) (filter (receives t) (s' # rest')))"
      by (rule Suc.IH) (use Suc.prems sp sp' s Cons in auto)
    have fr: "freeSubscriptionList M (filter (sub_expired t) rest) =
        freeSubscriptionList (freeSubscriptionList M f) (filter (sub_expired t) rest')"
      using sp sp' Cons by (simp add: freeSubscriptionList_append)
    show ?thesis
      using step ih sp sp' s rec_rest Cons fr map_count_inactive [OF kin] by simp
  qed
qed simp

lemma notify_all_loop_first:
  assumes "GetFirstSubscription t M sv = (cur, sv', M')" "A = (\<lambda>_. True)" "P = (\<lambda>_. 0)"
  shows "notify_all_loop A P t b h (Suc (length (subscriptionList sv))) 0 0 cur sv' M' [] =
    (0, length (filter (receives t) (subscriptionList sv)),
     sv\<lparr>subscriptionList := map count_event (filter (\<lambda>x. \<not> sub_expired t x) (subscriptionList sv)),
        TotalSubscriptions := TotalSubscriptions sv - int (length (filter (sub_expired t) (subscriptionList sv)))\<rparr>,
     freeSubscriptionList M (filter (sub_expired t) (subscriptionList sv)),
     map (job_for b h) (filter (receives t) (subscriptionList sv)))"
proof -
  obtain k r f where a: "next_active t (subscriptionList sv) = (k, r, f)" by (metis prod_cases3)
  note sp = next_active_spec [OF a]
  have kin: "\<forall>x \<in> set k. \<not> sub_active x" using next_active_inactive [OF a] .
  have recs: "filter (receives t) (subscriptionList sv) = filter (receives t) r"
    using sp by (simp add: receives_def [abs_def])
  let ?sv = "sv\<lparr>subscriptionList := k @ r, TotalSubscriptions := TotalSubscriptions sv - int (length f)\<rparr>"
  have c: "cur = (if r = [] then None else Some (length k))" "sv' = ?sv" "M' = freeSubscriptionList M f"
    using assms(1) a by (auto simp: GetFirstSubscription_def next_from_def split: if_splits)
  show ?thesis
  proof (cases r)
    case Nil
    then show ?thesis using c sp recs map_count_inactive [OF kin] by simp
  next
    case (Cons s rest)
    have s: "sub_active s" "\<not> sub_expired t s" using sp Cons by auto
    have len: "length rest < Suc (length (subscriptionList sv))" using sp Cons by simp
    have "notify_all_loop A P t b h (Suc (length (subscriptionList sv))) 0 0 (Some (length k)) ?sv
        (freeSubscriptionList M f) [] =
      (0, 0 + length (filter (receives t) (s # rest)),
       ?sv\<lparr>subscriptionList := k @ map count_event (filter (\<lambda>x. \<not> sub_expired t x) (s # rest)),
          TotalSubscriptions := TotalSubscriptions ?sv - int (length (filter (sub_expired t) rest))\<rparr>,
       freeSubscriptionList (freeSubscriptionList M f) (filter (sub_expired t) rest),
       [] @ map (job_for b h) (filter (receives t) (s # rest)))"
      by (rule notify_all_loop_rest) (use sp Cons s len assms(2,3) in auto)
    then show ?thesis
      using c sp s recs Cons map_count_inactive [OF kin] by (simp add: freeSubscriptionList_append)
  qed
qed

text \<open>The service after an event, and the block its jobs share.\<close>

definition event_service :: "int \<Rightarrow> service_info \<Rightarrow> service_info" where
  "event_service t sv = sv\<lparr>subscriptionList := map count_event (filter (\<lambda>x. \<not> sub_expired t x) (subscriptionList sv)),
     TotalSubscriptions := TotalSubscriptions sv - int (length (filter (sub_expired t) (subscriptionList sv)))\<rparr>"

definition event_block :: "string \<Rightarrow> string \<Rightarrow> string \<Rightarrow> notify_block" where
  "event_block serv udn ps = \<lparr>nheaders = ''CONTENT-TYPE: text/xml'' @ CRLF @ ''CONTENT-LENGTH: '' @
      dec_int (int (length ps) + 1) @ CRLF @ ''NT: upnp:event'' @ CRLF @ ''NTS: upnp:propchange'' @ CRLF,
     nprops = ps, nservId = serv, nUDN = udn, prop_start = True\<rparr>"

lemma notify_all_eq:
  assumes "device_info (handles g) h = Some info"
    and "FindServiceId (Some (ServiceTable info)) (nservId b) (nUDN b) = Some (Some k)"
    and "sv = serviceList (ServiceTable info) ! k" "rs = filter (receives t) (subscriptionList sv)"
    and "A = (\<lambda>_. True)" "P = (\<lambda>_. 0)"
  shows "notify_all A P t h b g = Some (0, g
    \<lparr>handles := put_service (handles g) h k (event_service t sv),
     gmem := freeSubscriptionList (gmem g) (filter (sub_expired t) (subscriptionList sv)),
     pool := pool g @ map (job_for (next_block g) h) rs,
     shared := (if rs = [] then shared g else (shared g)(next_block g := Some (b, int (length rs)))),
     next_block := (if rs = [] then next_block g else Suc (next_block g))\<rparr>)"
proof -
  obtain cur sv' M' where f: "GetFirstSubscription t (gmem g) sv = (cur, sv', M')" by (metis prod_cases3)
  show ?thesis
    using notify_all_loop_first [OF f assms(5,6), of "next_block g" h] f assms
    by (cases g) (auto simp: notify_all_def event_service_def Let_def)
qed

text \<open>
  C27. When nothing fails, \<open>genaNotifyAll\<close> schedules exactly one job for every active subscription
  that has not expired, in list order, each with that subscription's next event key, which moves
  on by one (and wraps to 1); expired subscriptions are freed; all jobs share one block that
  holds the headers, the property set and a reference count equal to the number of jobs.
\<close>

theorem genaNotifyAll_schedules:
  assumes "device_info (handles g) h = Some info"
    and "FindServiceId (Some (ServiceTable info)) serv udn = Some (Some k)"
    and "0 \<le> var_count" "var_count \<le> int (length names)" "var_count \<le> int (length vals)"
    and "ps = XML_PROPERTYSET_HEADER @ property_text (take (nat var_count) names) (take (nat var_count) vals) @
      XML_PROPERTYSET_FOOTER" "length ps < 10 ^ 18"
    and "sv = serviceList (ServiceTable info) ! k" "rs = filter (receives t) (subscriptionList sv)"
  shows "genaNotifyAll (\<lambda>_. True) (\<lambda>_. 0) t h udn serv names vals var_count g = Some (GENA_SUCCESS, g
    \<lparr>handles := put_service (handles g) h k (event_service t sv),
     gmem := freeSubscriptionList (gmem g) (filter (sub_expired t) (subscriptionList sv)),
     pool := pool g @ map (job_for (next_block g) h) rs,
     shared := (if rs = [] then shared g
       else (shared g)(next_block g := Some (event_block serv udn ps, int (length rs)))),
     next_block := (if rs = [] then next_block g else Suc (next_block g))\<rparr>)"
proof -
  have b: "nservId (event_block serv udn ps) = serv" "nUDN (event_block serv udn ps) = udn"
    by (simp_all add: event_block_def)
  have "genaNotifyAll (\<lambda>_. True) (\<lambda>_. 0) t h udn serv names vals var_count g =
      notify_all (\<lambda>n. True) (\<lambda>_. 0) t h (event_block serv udn ps) g"
    using GeneratePropertySet_ok [OF assms(3-5)] notify_headers_fit [OF assms(7)]
    by (simp add: genaNotifyAll_def event_block_def assms(6)[symmetric])
  then show ?thesis
    using notify_all_eq [OF assms(1) _ assms(8,9) refl refl, of "event_block serv udn ps"] assms(2) b by simp
qed

section \<open>Properties\<close>

text \<open>
  \<open>GeneratePropertySet\<close> writes one property element per pair between the header and the
  footer, and the text with its NUL fills the allocated block exactly.
\<close>

theorem GeneratePropertySet_fits:
  assumes "0 \<le> cnt" "cnt \<le> int (length names)" "cnt \<le> int (length vals)"
  shows "\<exists>s. GeneratePropertySet True names vals cnt = Some (0, Some s) \<and>
    s = XML_PROPERTYSET_HEADER @ property_text (take (nat cnt) names) (take (nat cnt) vals) @ XML_PROPERTYSET_FOOTER \<and>
    length s = length XML_PROPERTYSET_HEADER + length XML_PROPERTYSET_FOOTER +
      property_size (take (nat cnt) names) (take (nat cnt) vals)"
  using GeneratePropertySet_ok [OF assms] by (simp add: property_size_text)

theorem GeneratePropertySet_fits_witness:
  "\<exists>s. GeneratePropertySet True [''Power''] [''1''] 1 = Some (0, Some s) \<and>
    s = XML_PROPERTYSET_HEADER @ property_text [''Power''] [''1''] @ XML_PROPERTYSET_FOOTER \<and>
    length s = 119"
  using GeneratePropertySet_fits [where cnt = 1 and names = "[''Power'']" and vals = "[''1'']"]
  by (simp add: XML_PROPERTYSET_HEADER_def XML_PROPERTYSET_FOOTER_def)

definition lamp_sub :: "string \<Rightarrow> 32 word \<Rightarrow> bool \<Rightarrow> int \<Rightarrow> subscription" where
  "lamp_sub s k a ex = \<lparr>ssid = s, eventKey = k, ToSendEventKey = 0, expireTime = ex, sub_active = a,
     DeliveryURLs = \<lparr>lsize = 0, URLs = Some (1, 0), parsedURLs = []\<rparr>\<rparr>"

definition lamp_service :: service_info where
  "lamp_service = \<lparr>serviceType = None, serviceId = Some ''S'', SCPDURL = None, controlURL = None, eventURL = Some ''/e'',
     UDN = Some ''U'', svc_active = True, TotalSubscriptions = 4,
     subscriptionList = [lamp_sub ''a'' 3 True 0, lamp_sub ''b'' 0 False 0, lamp_sub ''c'' 5 True 10,
       lamp_sub ''d'' 0x7FFFFFFF True 90]\<rparr>"

definition lamp_info :: Handle_Info where
  "lamp_info = (plain_info HND_DEVICE)\<lparr>MaxAge := 100,
     ServiceTable := \<lparr>URLBase = None, serviceList = [lamp_service]\<rparr>\<rparr>"

definition lamp :: gena where
  "lamp = \<lparr>handles = InitHandleList[1 := Some lamp_info], gmem = (\<lambda>_. [NUL]), pool = [], shared = (\<lambda>_. None), next_block = 7\<rparr>"

lemma lamp_facts: "device_info (handles lamp) 1 = Some lamp_info"
  "FindServiceId (Some (ServiceTable lamp_info)) ''S'' ''U'' = Some (Some 0)"
  "serviceList (ServiceTable lamp_info) ! 0 = lamp_service"
  "filter (receives 50) (subscriptionList lamp_service) = [lamp_sub ''a'' 3 True 0, lamp_sub ''d'' 0x7FFFFFFF True 90]"
  by (simp_all add: device_info_def GetHandleInfo_def lamp_def InitHandleList_def NUM_HANDLE_def lamp_info_def plain_info_def
    FindServiceId_def lamp_service_def receives_def lamp_sub_def sub_expired_def)

theorem genaNotifyAll_schedules_witness:
  "map_option (\<lambda>(rc, g). (rc, pool g, shared g 7))
     (genaNotifyAll (\<lambda>_. True) (\<lambda>_. 0) 50 1 ''U'' ''S'' [''Power''] [''1''] 1 lamp) =
   Some (0, [\<lparr>nblock = 7, nsid = ''a'', neventKey = 3, ndevice = 1\<rparr>,
             \<lparr>nblock = 7, nsid = ''d'', neventKey = 0x7FFFFFFF, ndevice = 1\<rparr>],
         Some (event_block ''S'' ''U'' (XML_PROPERTYSET_HEADER @ property_text [''Power''] [''1''] @ XML_PROPERTYSET_FOOTER), 2))"
  using genaNotifyAll_schedules [OF lamp_facts(1,2), where var_count = 1 and names = "[''Power'']" and vals = "[''1'']"
      and ps = "XML_PROPERTYSET_HEADER @ property_text [''Power''] [''1''] @ XML_PROPERTYSET_FOOTER" and t = 50
      and sv = lamp_service and rs = "[lamp_sub ''a'' 3 True 0, lamp_sub ''d'' 0x7FFFFFFF True 90]"]
    lamp_facts(3,4)
  by (simp add: XML_PROPERTYSET_HEADER_def XML_PROPERTYSET_FOOTER_def job_for_def lamp_sub_def lamp_def)

end
