(* ===== verification/Gena_Requests.thy ===== *)
theory Gena_Requests imports Gena_Notify begin

text \<open>
  Subscription requests to a device (\<^verbatim>\<open>gena/gena_server.c\<close>, lines 63 to 206 and 1130 to 1465,
  and \<^verbatim>\<open>respond\<close> of \<^verbatim>\<open>gena/gena_callback.c\<close>): the list of delivery URLs, the responses, and
  the handlers of SUBSCRIBE, renewal and UNSUBSCRIBE.

  The tokens of a request point into the store of the state.  A handler returns the bytes the peer
  was sent and the new state; \<open>None\<close> is a memory fault.
\<close>

section \<open>What a handler meets\<close>

text \<open>
  The answers of the environment to one request: name service and allocator, clock, socket, the
  further allocations of the handler in order, what the structs on the stack and the fresh
  subscription hold before they are set, the text of the HTTP date and of \<^verbatim>\<open>uname\<close>, the
  generated identifier and the block for the callback URLs.
\<close>

record genv =
  uenv :: env
  now :: int
  sock :: "wr_ev list"
  alloc :: "nat \<Rightarrow> bool"
  uri0 :: uri_type
  uri1 :: uri_type
  sid0 :: string
  urls0 :: URL_list
  http_date :: string
  sysname :: string
  uuid :: string
  urls_block :: block

section \<open>Responses\<close>

definition respond :: "wr_ev list \<Rightarrow> string \<Rightarrow> int \<times> string" where
  "respond w message =
     (case write_bytes w message RESPONSE_TIMEOUT of (return_code, sent) \<Rightarrow>
       (if return_code \<noteq> int (length message) then UPNP_E_SOCKET_WRITE else UPNP_E_SUCCESS, sent))"

definition UNABLE_MEMORY :: string where "UNABLE_MEMORY = ''HTTP/1.1 500 Internal Server Error'' @ CRLF @ CRLF"
definition UNABLE_SERVICE_UNKNOWN :: string where "UNABLE_SERVICE_UNKNOWN = ''HTTP/1.1 404 Not Found'' @ CRLF @ CRLF"
definition BAD_REQUEST :: string where "BAD_REQUEST = ''HTTP/1.1 400 Bad Request'' @ CRLF @ CRLF"
definition BAD_CALLBACK :: string where "BAD_CALLBACK = ''HTTP/1.1 412 Precondition Failed'' @ CRLF @ CRLF"
definition HTTP_OK_CRLF :: string where "HTTP_OK_CRLF = ''HTTP/1.1 200 OK'' @ CRLF @ CRLF"
definition HTTP_OK :: string where "HTTP_OK = ''HTTP/1.1 200 OK'' @ CRLF"

definition MAX_SECONDS :: nat where "MAX_SECONDS = 10"
definition HTTP_DATE_LENGTH :: nat where "HTTP_DATE_LENGTH = 37"
definition DEFAULT_TIMEOUT :: int where "DEFAULT_TIMEOUT = 1801"

abbreviation (input) sizeof_Upnp_SID :: nat where "sizeof_Upnp_SID \<equiv> 44"

definition ok_response :: "string \<Rightarrow> string \<Rightarrow> int \<Rightarrow> string \<Rightarrow> string" where
  "ok_response date server time_out sid =
     HTTP_OK @ date @ server @ ''SID: '' @ sid @ CRLF @
     (if 0 \<le> time_out then ''TIMEOUT: Second-'' @ dec_int time_out @ CRLF @ CRLF
      else ''TIMEOUT: Second-infinite'' @ CRLF @ CRLF)"

definition respondOK :: "genv \<Rightarrow> bool \<Rightarrow> int \<Rightarrow> string \<Rightarrow> (int \<times> string) option" where
  "respondOK e mem_ok time_out sid =
     (let server = ''SERVER: '' @ sysname e @ '' UPnP/1.0 Intel UPnP SDK/1.0'' @ CRLF;
          sz = length HTTP_OK + HTTP_DATE_LENGTH + length server + length (''SID: '' @ CRLF) +
            sizeof_Upnp_SID + length (''TIMEOUT: Second-'' @ CRLF @ CRLF) + MAX_SECONDS + 1;
          temp = ok_response (http_date e) server time_out sid
      in if 128 < length server + 1 then None
         else if \<not> mem_ok then Some (UPNP_E_OUTOF_MEMORY, snd (respond (sock e) UNABLE_MEMORY))
         else if sz < length temp + 1 then None
         else Some (respond (sock e) temp))"

section \<open>The callback URLs\<close>

text \<open>
  Both loops of \<^verbatim>\<open>createURL_list\<close>: \<open>n\<close> bytes from position \<open>i\<close> on remain, \<open>slot\<close> is the struct
  the next URL is parsed into, \<open>nxt\<close> gives the one after a URL was accepted, \<open>cap\<close> is the number
  of structs there are, and \<open>acc\<close> are the accepted URLs.
\<close>

fun url_loop ::
  "mem \<Rightarrow> env \<Rightarrow> ptr \<Rightarrow> int \<Rightarrow> (uri_type \<Rightarrow> uri_type) \<Rightarrow> nat option \<Rightarrow> nat \<Rightarrow> int \<Rightarrow> uri_type \<Rightarrow> uri_type list \<Rightarrow>
     (int + uri_type list) option" where
  "url_loop M e p sz nxt cap 0 i slot acc = Some (Inr acc)"
| "url_loop M e p sz nxt cap (Suc n) i slot acc = do {
     c \<leftarrow> rd M (padd p i);
     if c = CHR ''<'' \<and> i + 1 < sz
     then if (case cap of None \<Rightarrow> False | Some k \<Rightarrow> k \<le> length acc) then None
       else do {
         (rc, u) \<leftarrow> parse_uri M e (padd p (i + 1)) (sz - i + 1) slot;
         if rc = HTTP_SUCCESS \<and> tsize (hp_text (hostport u)) \<noteq> 0
         then url_loop M e p sz nxt cap n (i + 1) (nxt u) (acc @ [u])
         else if rc = UPNP_E_OUTOF_MEMORY then Some (Inl rc)
         else url_loop M e p sz nxt cap n (i + 1) u acc }
     else url_loop M e p sz nxt cap n (i + 1) slot acc }"

text \<open>\<open>A0\<close> and \<open>A1\<close> are the answers of the two allocations, \<open>fresh\<close> the block for the text.\<close>

definition createURL_list ::
  "mem \<Rightarrow> env \<Rightarrow> bool \<Rightarrow> bool \<Rightarrow> block \<Rightarrow> uri_type \<Rightarrow> uri_type \<Rightarrow> token \<Rightarrow> int \<Rightarrow> (int \<times> URL_list \<times> mem) option" where
  "createURL_list M e A0 A1 fresh temp slot0 t size0 = do {
     p \<leftarrow> (if 0 < tsize t then buff t else Some (0, 0));
     r \<leftarrow> url_loop M e p (tsize t) id None (nat (tsize t)) 0 temp [];
     (case r of
        Inl err \<Rightarrow> Some (err, \<lparr>lsize = size0, URLs = None, parsedURLs = []\<rparr>, M)
      | Inr us \<Rightarrow>
          if \<not> A0 \<or> \<not> A1
          then Some (UPNP_E_OUTOF_MEMORY,
            \<lparr>lsize = size0, URLs = (if A0 then Some (fresh, 0) else None), parsedURLs = []\<rparr>, M)
          else do {
            s \<leftarrow> memcpy_from (tok_bytes M t) (tsize t);
            let M' = M(fresh := s @ [NUL]);
            r' \<leftarrow> url_loop M' e (fresh, 0) (tsize t) (\<lambda>_. slot0) (Some (length us)) (nat (tsize t)) 0 slot0 [];
            (case r' of
               Inl err \<Rightarrow> Some (err, \<lparr>lsize = size0, URLs = None, parsedURLs = []\<rparr>, M)
             | Inr us' \<Rightarrow> Some (int (length us'),
                 \<lparr>lsize = int (length us'), URLs = Some (fresh, 0), parsedURLs = us'\<rparr>, M')) }) }"

section \<open>Parts of the handlers\<close>

text \<open>Whether a header is present, and its value.\<close>

definition find_header :: "mem \<Rightarrow> http_message \<Rightarrow> string \<Rightarrow> token option option" where
  "find_header M m name = do {
     (found, t) \<leftarrow> search_for_header M m name null_token;
     Some (if found \<noteq> 0 then Some t else None) }"

text \<open>
  The SID of a request: \<open>None\<close> inside when it is missing or longer than \<^verbatim>\<open>SID_SIZE\<close>.  Only the
  bytes of the header are copied; what follows them in the local buffer is its old contents.
\<close>

definition request_sid :: "genv \<Rightarrow> mem \<Rightarrow> http_message \<Rightarrow> string option option" where
  "request_sid e M m = do {
     h \<leftarrow> find_header M m ''SID'';
     (case h of
        None \<Rightarrow> Some None
      | Some t \<Rightarrow>
          if int SID_SIZE < tsize t then Some None
          else do {
            s \<leftarrow> memcpy_from (tok_bytes M t) (tsize t);
            Some (Some (cstring (take SID_SIZE (s @ drop (length s) (sid0 e))))) }) }"

text \<open>The C string made of the request path.\<close>

definition request_path :: "mem \<Rightarrow> http_message \<Rightarrow> string option" where
  "request_path M m = map_option cstring
     (memcpy_from (tok_bytes M (pathquery (request_uri (request m)))) (tsize (pathquery (request_uri (request m)))))"

text \<open>
  The device and the service with that event URL, when the service is active.  The first part
  tells apart whether there is a device at all.
\<close>

definition request_service ::
  "genv \<Rightarrow> string \<Rightarrow> gena \<Rightarrow> (int \<times> Handle_Info \<times> nat) option option" where
  "request_service e path g =
     (case GetDeviceHandleInfo (handles g) of
        (False, _) \<Rightarrow> Some None
      | (True, h) \<Rightarrow>
          (case device_info (handles g) h of
             None \<Rightarrow> Some None
           | Some info \<Rightarrow> do {
               r \<leftarrow> FindServiceEventURLPath (uenv e) (uri0 e) (uri1 e) (Some (ServiceTable info)) path;
               Some (case r of
                  None \<Rightarrow> None
                | Some k \<Rightarrow> if svc_active (serviceList (ServiceTable info) ! k) then Some (h, info, k) else None) }))"

text \<open>\<^verbatim>\<open>sscanf(s,"Second-%d",..)\<close>\<close>

definition sscanf_second :: "string \<Rightarrow> int option" where
  "sscanf_second s = (if take 7 s = ''Second-'' then map_option to_int (strtol 10 (drop 7 s)) else None)"

text \<open>The duration that is granted: what the request asks for, within the limit of the device.\<close>

definition granted_timeout :: "mem \<Rightarrow> http_message \<Rightarrow> int \<Rightarrow> int option" where
  "granted_timeout M m limit = do {
     h \<leftarrow> find_header M m ''TIMEOUT'';
     time_out \<leftarrow> (case h of
        None \<Rightarrow> Some 1801
      | Some t \<Rightarrow>
          (case sscanf_second (tok_bytes M t) of
             Some n \<Rightarrow> Some n
           | None \<Rightarrow> do {
               d \<leftarrow> strncmp (tok_bytes M t) (''Second-infinite'' @ [NUL]) 15;
               Some (if d = 0 then - 1 else DEFAULT_TIMEOUT) }));
     Some (if limit \<noteq> - 1 \<and> (time_out = - 1 \<or> limit < time_out) then limit else time_out) }"

definition expires :: "int \<Rightarrow> int \<Rightarrow> int" where
  "expires current_time time_out = (if 0 < time_out then current_time + time_out else 0)"

definition answer :: "genv \<Rightarrow> string \<Rightarrow> gena \<Rightarrow> (string \<times> gena) option" where
  "answer e message g = Some (snd (respond (sock e) message), g)"

section \<open>The handlers\<close>

definition genaUnsubscribeRequest :: "genv \<Rightarrow> http_message \<Rightarrow> gena \<Rightarrow> (string \<times> gena) option" where
  "genaUnsubscribeRequest e m g = do {
     callback \<leftarrow> find_header (gmem g) m ''CALLBACK'';
     nt \<leftarrow> (if callback \<noteq> None then Some callback else find_header (gmem g) m ''NT'');
     if nt \<noteq> None then answer e BAD_REQUEST g
     else do {
       sid \<leftarrow> request_sid e (gmem g) m;
       (case sid of
          None \<Rightarrow> answer e BAD_CALLBACK g
        | Some sid \<Rightarrow>
            if \<not> alloc e 0 then answer e UNABLE_MEMORY g
            else do {
              path \<leftarrow> request_path (gmem g) m;
              r \<leftarrow> request_service e path g;
              (case r of
                 None \<Rightarrow> answer e BAD_CALLBACK g
               | Some (h, info, k) \<Rightarrow>
                   (case GetSubscriptionSID (now e) (gmem g) sid (serviceList (ServiceTable info) ! k) of (pos, sv, M) \<Rightarrow>
                     let g = g\<lparr>handles := put_service (handles g) h k sv, gmem := M\<rparr>
                     in if pos = None then answer e BAD_CALLBACK g
                        else (case RemoveSubscriptionSID M sid sv of (sv', M') \<Rightarrow>
                          answer e HTTP_OK_CRLF
                            (g\<lparr>handles := put_service (handles g) h k sv', gmem := M'\<rparr>)))) }) } }"

text \<open>The renewal of the subscription at position \<open>i\<close> of the service.\<close>

definition renew_found ::
  "genv \<Rightarrow> http_message \<Rightarrow> int \<Rightarrow> Handle_Info \<Rightarrow> nat \<Rightarrow> nat \<Rightarrow> service_info \<Rightarrow> mem \<Rightarrow> gena \<Rightarrow> (string \<times> gena) option" where
  "renew_found e m h info k i sv M g =
     (let sub = subscriptionList sv ! i
      in if MaxSubscriptions info \<noteq> - 1 \<and> MaxSubscriptions info < TotalSubscriptions sv
         then (case RemoveSubscriptionSID M (ssid sub) sv of (sv', M') \<Rightarrow>
           answer e UNABLE_MEMORY (g\<lparr>handles := put_service (handles g) h k sv', gmem := M'\<rparr>))
         else do {
           time_out \<leftarrow> granted_timeout M m (MaxSubscriptionTimeOut info);
           let sv = sv\<lparr>subscriptionList := (subscriptionList sv)[i := sub\<lparr>expireTime := expires (now e) time_out\<rparr>]\<rparr>;
           (rc, sent) \<leftarrow> respondOK e (alloc e 1) time_out (ssid sub);
           let (sv, M) = (if rc \<noteq> UPNP_E_SUCCESS then RemoveSubscriptionSID M (ssid sub) sv else (sv, M));
           Some (sent, g\<lparr>handles := put_service (handles g) h k sv, gmem := M\<rparr>) })"

definition genaRenewRequest :: "genv \<Rightarrow> http_message \<Rightarrow> gena \<Rightarrow> (string \<times> gena) option" where
  "genaRenewRequest e m g = do {
     callback \<leftarrow> find_header (gmem g) m ''CALLBACK'';
     nt \<leftarrow> (if callback \<noteq> None then Some callback else find_header (gmem g) m ''NT'');
     if nt \<noteq> None then answer e BAD_REQUEST g
     else do {
       sid \<leftarrow> request_sid e (gmem g) m;
       (case sid of
          None \<Rightarrow> answer e BAD_CALLBACK g
        | Some sid \<Rightarrow>
            if \<not> alloc e 0 then answer e UNABLE_MEMORY g
            else do {
              path \<leftarrow> request_path (gmem g) m;
              r \<leftarrow> request_service e path g;
              (case r of
                 None \<Rightarrow> answer e BAD_CALLBACK g
               | Some (h, info, k) \<Rightarrow>
                   (case GetSubscriptionSID (now e) (gmem g) sid (serviceList (ServiceTable info) ! k) of (pos, sv, M) \<Rightarrow>
                     let g = g\<lparr>handles := put_service (handles g) h k sv, gmem := M\<rparr>
                     in (case pos of
                       None \<Rightarrow> answer e BAD_CALLBACK g
                     | Some i \<Rightarrow> renew_found e m h info k i sv M g))) }) } }"

text \<open>
  The event for the application: service, device and identifier of a new subscription, with the
  callback and its cookie.
\<close>

record subscription_event =
  ev_service :: "string option"
  ev_UDN :: "string option"
  ev_sid :: string
  ev_callback :: nat
  ev_cookie :: nat

text \<open>
  Freeing a subscription whose delivery URLs were never set: \<^verbatim>\<open>free\<close> of what the fresh struct
  held, which only does no harm when that is NULL.
\<close>

definition free_unset :: "URL_list \<Rightarrow> unit option" where
  "free_unset l = (if URLs l = None \<and> parsedURLs l = [] then Some () else None)"

text \<open>\<^verbatim>\<open>strncasecmp(NT.buff, name, NT.size)\<close>\<close>

definition nt_matches :: "mem \<Rightarrow> token \<Rightarrow> string \<Rightarrow> bool option" where
  "nt_matches M t name = map_option (\<lambda>d. d = 0) (strncasecmp (tok_bytes M t) (name @ [NUL]) (size_t (tsize t)))"

text \<open>From the check of the limit on; \<open>sv\<close> is the service \<open>k\<close> of the device \<open>h\<close>.\<close>

definition add_subscription ::
  "genv \<Rightarrow> http_message \<Rightarrow> int \<Rightarrow> Handle_Info \<Rightarrow> nat \<Rightarrow> service_info \<Rightarrow> gena \<Rightarrow>
     (string \<times> subscription_event option \<times> gena) option" where
  "add_subscription e m h info k sv g =
     (if MaxSubscriptions info \<noteq> - 1 \<and> MaxSubscriptions info \<le> TotalSubscriptions sv
      then Some (snd (respond (sock e) UNABLE_MEMORY), None, g)
      else if \<not> alloc e 1 then Some (snd (respond (sock e) UNABLE_MEMORY), None, g)
      else do {
        callback \<leftarrow> find_header (gmem g) m ''CALLBACK'';
        (case callback of
           None \<Rightarrow> do {
             u \<leftarrow> free_unset (urls0 e);
             Some (snd (respond (sock e) BAD_CALLBACK), None, g) }
         | Some t \<Rightarrow> do {
             (rc, urls, M) \<leftarrow> createURL_list (gmem g) (uenv e) (alloc e 2) (alloc e 3) (urls_block e)
               (uri0 e) (uri1 e) t (lsize (urls0 e));
             if rc = 0
             then Some (snd (respond (sock e) BAD_CALLBACK), None, g\<lparr>gmem := fst (free_URL_list M urls)\<rparr>)
             else if rc = UPNP_E_OUTOF_MEMORY
             then Some (snd (respond (sock e) UNABLE_MEMORY), None, g\<lparr>gmem := fst (free_URL_list M urls)\<rparr>)
             else do {
               time_out \<leftarrow> granted_timeout M m (MaxSubscriptionTimeOut info);
               let sub = \<lparr>ssid = ''uuid:'' @ uuid e, eventKey = 0, ToSendEventKey = 0,
                 expireTime = expires (now e) time_out, sub_active = False, DeliveryURLs = urls\<rparr>;
               (rc, sent) \<leftarrow> respondOK e (alloc e 4) time_out (ssid sub);
               if rc \<noteq> UPNP_E_SUCCESS
               then Some (sent, None, g\<lparr>gmem := freeSubscription M sub\<rparr>)
               else
                 (let sv = sv\<lparr>subscriptionList := sub # subscriptionList sv,
                              TotalSubscriptions := TotalSubscriptions sv + 1\<rparr>
                  in Some (sent,
                    Some \<lparr>ev_service = serviceId sv, ev_UDN = UDN sv, ev_sid = ssid sub,
                          ev_callback = Callback info, ev_cookie = Cookie info\<rparr>,
                    g\<lparr>handles := put_service (handles g) h k sv, gmem := M\<rparr>)) } }) })"

definition genaSubscriptionRequest ::
  "genv \<Rightarrow> http_message \<Rightarrow> gena \<Rightarrow> (string \<times> subscription_event option \<times> gena) option" where
  "genaSubscriptionRequest e m g = do {
     nt \<leftarrow> find_header (gmem g) m ''NT'';
     nt_ok \<leftarrow> (case nt of
        None \<Rightarrow> Some False
      | Some t \<Rightarrow> do {
          a \<leftarrow> nt_matches (gmem g) t ''upnp:event'';
          if a then Some True else nt_matches (gmem g) t ''upnp:propchange'' });
     if \<not> nt_ok then Some (snd (respond (sock e) BAD_CALLBACK), None, g)
     else do {
       sid \<leftarrow> find_header (gmem g) m ''SID'';
       if sid \<noteq> None then Some (snd (respond (sock e) BAD_REQUEST), None, g)
       else if \<not> alloc e 0 then Some (snd (respond (sock e) UNABLE_MEMORY), None, g)
       else do {
         path \<leftarrow> request_path (gmem g) m;
         r \<leftarrow> request_service e path g;
         (case r of
            None \<Rightarrow> Some (snd (respond (sock e) UNABLE_SERVICE_UNKNOWN), None, g)
          | Some (h, info, k) \<Rightarrow>
              add_subscription e m h info k (serviceList (ServiceTable info) ! k) g) } } }"

definition genaSubscribeOrRenew ::
  "genv \<Rightarrow> http_message \<Rightarrow> gena \<Rightarrow> (string \<times> subscription_event option \<times> gena) option" where
  "genaSubscribeOrRenew e m g = do {
     nt \<leftarrow> find_header (gmem g) m ''NT'';
     if nt \<noteq> None then genaSubscriptionRequest e m g
     else map_option (\<lambda>(sent, g). (sent, None, g)) (genaRenewRequest e m g) }"

section \<open>Properties of the parts\<close>

lemma respond_parts:
  assumes "\<forall>n\<in>set ns. 0 < n" "sum_list ns = length message" "ns \<noteq> []"
  shows "respond (map (Takes 0) ns) message =
    (if last ns = length message then UPNP_E_SUCCESS else UPNP_E_SOCKET_WRITE, message)"
  using assms by (simp add: respond_def write_bytes_def write_loop_parts RESPONSE_TIMEOUT_def)

lemma respond_success: "respond w message = (UPNP_E_SUCCESS, sent) \<Longrightarrow> sent = message"
  using write_bytes_sent [of w message RESPONSE_TIMEOUT "int (length message)" sent]
  by (auto simp: respond_def split: prod.splits if_splits)

text \<open>
  \<open>respond\<close> reports a socket error whenever the peer takes the response in more than one part,
  although every byte was sent: it compares the length with what \<open>write_bytes\<close> returns, which
  is the size of the last part.  A subscriber so served is told 200 OK and dropped.
\<close>

theorem respond_rejects_parts:
  assumes "\<forall>n\<in>set ns. 0 < n" "sum_list ns = length message" "2 \<le> length ns"
  shows "respond (map (Takes 0) ns) message = (UPNP_E_SOCKET_WRITE, message)"
proof -
  obtain ms k where ns: "ns = ms @ [k]"
    using assms(3) by (cases ns rule: rev_cases) auto
  then have "ms \<noteq> []" using assms(3) by auto
  then have "0 < sum_list ms" using assms(1) ns by (cases ms) auto
  then show ?thesis using respond_parts [of ns message] assms ns by auto
qed

theorem respond_rejects_parts_witness:
  "respond [Takes 0 20, Takes 0 16] BAD_CALLBACK = (UPNP_E_SOCKET_WRITE, BAD_CALLBACK)"
  using respond_rejects_parts [where ns = "[20, 16]" and message = BAD_CALLBACK]
  by (simp add: BAD_CALLBACK_def CRLF_def)

lemma granted_timeout_form: "granted_timeout M m limit = Some n \<Longrightarrow>
    \<exists>t. n = (if limit \<noteq> - 1 \<and> (t = - 1 \<or> limit < t) then limit else t)"
  unfolding granted_timeout_def by (auto simp only: bind_eq_Some_conv option.inject)

lemma granted_timeout_cases:
  "granted_timeout M m limit = Some n \<Longrightarrow> 0 \<le> limit \<Longrightarrow> n \<le> limit \<and> n \<noteq> - 1"
  by (drule granted_timeout_form) (auto split: if_splits)

text \<open>The bytes of a token without \<open><\<close> add no URL.\<close>

lemma url_loop_plain:
  assumes "\<forall>k. i \<le> k \<longrightarrow> k < i + int n \<longrightarrow> (\<exists>c. rd M (padd p k) = Some c \<and> c \<noteq> CHR ''<'')"
  shows "url_loop M e p sz nxt cap n i slot acc = Some (Inr acc)"
  using assms
proof (induction n arbitrary: i slot)
  case (Suc n)
  obtain c where "rd M (padd p i) = Some c" "c \<noteq> CHR ''<''" using Suc.prems by force
  moreover have "url_loop M e p sz nxt cap n (i + 1) slot acc = Some (Inr acc)"
    by (rule Suc.IH) (use Suc.prems in auto)
  ultimately show ?case by simp
qed simp

lemma rd_token: "buff t = Some p \<Longrightarrow> tok_ok M t \<Longrightarrow> 0 \<le> snd p \<Longrightarrow> 0 \<le> k \<Longrightarrow> k < tsize t \<Longrightarrow>
    rd M (padd p k) = Some (tok_text M t ! nat k)"
  by (auto simp: tok_ok_def tok_bytes_def tok_text_def rd_Some nat_less_iff)

text \<open>
  A CALLBACK header with one entry that is not an absolute URL with a host: \<open>createURL_list\<close>
  counts no URL, allocates an array of none, and parses into its first element, past the end of the
  block, instead of reporting that there is no URL.
\<close>

theorem createURL_list_overflows:
  assumes t: "buff t = Some p" "small_token M t" "0 \<le> snd p"
    and tt: "tok_text M t = ''<'' @ w" "CHR ''<'' \<notin> set w" "w \<noteq> []"
    and bad: "parse_uri M e (padd p 1) (tsize t + 1) temp = Some (rc, u)" "rc \<noteq> UPNP_E_OUTOF_MEMORY"
      "\<not> (rc = HTTP_SUCCESS \<and> tsize (hp_text (hostport u)) \<noteq> 0)"
  shows "createURL_list M e True True fresh temp slot0 t sz0 = None"
proof -
  have ok: "tok_ok M t" using t(2) by (simp add: small_token_def)
  have sz: "tsize t = int (length w) + 1" using length_tok_text [OF t(2)] tt(1) by simp
  have w: "rd M (padd p 0) = Some (CHR ''<'')"
    "\<And>k. 1 \<le> k \<Longrightarrow> k < tsize t \<Longrightarrow> rd M (padd p k) = Some (w ! nat (k - 1))"
    using rd_token [OF t(1) ok t(3), of 0] rd_token [OF t(1) ok t(3)] tt(1) sz
    by (auto simp: nth_Cons' nat_diff_distrib)
  have plain: "\<forall>k. 1 \<le> k \<longrightarrow> k < 1 + int (length w) \<longrightarrow> (\<exists>c. rd M (padd p k) = Some c \<and> c \<noteq> CHR ''<'')"
  proof (intro allI impI)
    fix k assume k: "1 \<le> k" "k < 1 + int (length w)"
    then have "w ! nat (k - 1) \<in> set w" by (intro nth_mem) auto
    then have "w ! nat (k - 1) \<noteq> CHR ''<''" using tt(2) by metis
    then show "\<exists>c. rd M (padd p k) = Some c \<and> c \<noteq> CHR ''<''" using w(2) k sz tt(2) by auto
  qed
  have n: "nat (tsize t) = Suc (length w)" using sz by simp
  have lw: "0 < length w" using tt(3) by simp
  have first: "url_loop M e p (tsize t) id None (nat (tsize t)) 0 temp [] = Some (Inr [])"
    using w(1) bad sz lw url_loop_plain [OF plain] n by auto
  have m: "memcpy_from (tok_bytes M t) (tsize t) = Some (''<'' @ w)"
    using memcpy_from_token [OF t(2)] tt(1) by simp
  have r0: "rd (M(fresh := (''<'' @ w) @ [NUL])) (padd (fresh, 0) 0) = Some (CHR ''<'')"
    by (simp add: rd_def bytes_at_def)
  have second: "url_loop (M(fresh := (''<'' @ w) @ [NUL])) e (fresh, 0) (tsize t) (\<lambda>_. slot0) (Some (length []))
      (nat (tsize t)) 0 slot0 [] = None"
    using r0 n sz lw by simp
  have pos: "0 < tsize t" using sz by simp
  show ?thesis
    unfolding createURL_list_def
    using first m second t(1) pos by (simp add: Let_def del: url_loop.simps)
qed

definition relative_callback :: mem where
  "relative_callback b = (if b = 0 then ''<x>'' @ [CR, LF, NUL] else [])"

definition any_env :: env where
  "any_env = \<lparr>gethostbyname = (\<lambda>_. None), malloc_ok = (\<lambda>_. True)\<rparr>"

definition some_uri :: uri_type where
  "some_uri = \<lparr>utype = RELATIVE, scheme = null_token, path_type = REL_PATH, pathquery = null_token,
     fragment = null_token, hostport = \<lparr>hp_text = null_token,
       IPv4address = \<lparr>sin_family = 0, sin_port = 0, s_addr = 0, sin_zero = []\<rparr>\<rparr>\<rparr>"

lemma relative_callback_parse:
  "map_option (\<lambda>(rc, u). (rc, hp_text (hostport u))) (parse_uri relative_callback any_env (0, 1) 4 some_uri) =
   Some (HTTP_SUCCESS, null_token)"
  by code_simp

theorem createURL_list_overflows_witness:
  "createURL_list relative_callback any_env True True 1 some_uri some_uri
     \<lparr>buff = Some (0, 0), tsize = 3\<rparr> 0 = None"
proof -
  obtain u where u: "parse_uri relative_callback any_env (0, 1) 4 some_uri = Some (HTTP_SUCCESS, u)"
      "hp_text (hostport u) = null_token"
    using relative_callback_parse by auto
  show ?thesis
    by (rule createURL_list_overflows [where p = "(0, 0)" and w = "''x>''" and u = u and rc = HTTP_SUCCESS])
      (use u in \<open>simp_all add: small_token_def tok_ok_def tok_bytes_def tok_text_def bytes_at_def
        relative_callback_def padd_def null_token_def\<close>)
qed

section \<open>Accepted subscriptions\<close>

lemma url_loop_error: "url_loop M e p sz nxt cap n i slot acc = Some (Inl err) \<Longrightarrow> err = UPNP_E_OUTOF_MEMORY"
  by (induction n arbitrary: i slot acc)
    (auto simp: bind_eq_Some_conv split: if_split_asm option.split_asm)

lemma createURL_list_count:
  assumes "createURL_list M e A0 A1 fresh temp slot0 t sz0 = Some (rc, urls, M')" "rc \<noteq> UPNP_E_OUTOF_MEMORY"
  shows "rc = int (length (parsedURLs urls)) \<and> lsize urls = rc \<and> URLs urls = Some (fresh, 0)"
proof -
  obtain p r where p: "(if 0 < tsize t then buff t else Some (0, 0)) = Some p"
      "url_loop M e p (tsize t) id None (nat (tsize t)) 0 temp [] = Some r"
    using assms(1) by (auto simp: createURL_list_def bind_eq_Some_conv)
  obtain us where us: "r = Inr us"
    using assms p url_loop_error [of M e p] by (cases r) (auto simp: createURL_list_def)
  obtain s r' where r': "A0" "A1" "memcpy_from (tok_bytes M t) (tsize t) = Some s"
      "url_loop (M(fresh := s @ [NUL])) e (fresh, 0) (tsize t) (\<lambda>_. slot0) (Some (length us))
        (nat (tsize t)) 0 slot0 [] = Some r'"
    using assms p us by (auto simp: createURL_list_def bind_eq_Some_conv Let_def split: if_split_asm)
  obtain us' where "r' = Inr us'"
    using assms p us r' by (cases r') (auto simp: createURL_list_def Let_def dest: url_loop_error)
  then show ?thesis using assms p us r' by (auto simp: createURL_list_def Let_def)
qed

lemma respondOK_success: "respondOK e mem_ok time_out sid = Some (0, sent) \<Longrightarrow>
    sent = ok_response (http_date e) (''SERVER: '' @ sysname e @ '' UPnP/1.0 Intel UPnP SDK/1.0'' @ CRLF) time_out sid"
  unfolding respondOK_def Let_def
  by (auto split: if_splits dest: respond_success)

lemma add_subscription_accepts:
  assumes "add_subscription e m h info k sv g = Some (sent, Some ev, g')"
  shows "\<exists>sub time_out.
    (MaxSubscriptions info = - 1 \<or> TotalSubscriptions sv + 1 \<le> MaxSubscriptions info) \<and>
    ssid sub = ''uuid:'' @ uuid e \<and> eventKey sub = 0 \<and> ToSendEventKey sub = 0 \<and> \<not> sub_active sub \<and>
    parsedURLs (DeliveryURLs sub) \<noteq> [] \<and> lsize (DeliveryURLs sub) = int (length (parsedURLs (DeliveryURLs sub))) \<and>
    (0 \<le> MaxSubscriptionTimeOut info \<longrightarrow> time_out \<le> MaxSubscriptionTimeOut info) \<and>
    expireTime sub = expires (now e) time_out \<and>
    sent = ok_response (http_date e) (''SERVER: '' @ sysname e @ '' UPnP/1.0 Intel UPnP SDK/1.0'' @ CRLF)
      time_out (ssid sub) \<and>
    ev = \<lparr>ev_service = serviceId sv, ev_UDN = UDN sv, ev_sid = ssid sub,
      ev_callback = Callback info, ev_cookie = Cookie info\<rparr> \<and>
    (\<exists>M. g' = g\<lparr>handles := put_service (handles g) h k (sv\<lparr>subscriptionList := sub # subscriptionList sv,
      TotalSubscriptions := TotalSubscriptions sv + 1\<rparr>), gmem := M\<rparr>)"
proof -
  have lim: "MaxSubscriptions info = - 1 \<or> TotalSubscriptions sv + 1 \<le> MaxSubscriptions info"
    using assms by (auto simp: add_subscription_def split: if_splits)
  obtain t where t: "find_header (gmem g) m ''CALLBACK'' = Some (Some t)"
    using assms by (auto simp: add_subscription_def bind_eq_Some_conv split: if_splits option.splits)
  obtain rc urls M where c: "createURL_list (gmem g) (uenv e) (alloc e 2) (alloc e 3) (urls_block e)
      (uri0 e) (uri1 e) t (lsize (urls0 e)) = Some (rc, urls, M)" "rc \<noteq> 0" "rc \<noteq> UPNP_E_OUTOF_MEMORY"
    using assms t by (auto simp: add_subscription_def bind_eq_Some_conv split: if_splits)
  obtain time_out where o: "granted_timeout M m (MaxSubscriptionTimeOut info) = Some time_out"
    using assms t c by (auto simp: add_subscription_def bind_eq_Some_conv split: if_splits)
  define sub where "sub = \<lparr>ssid = ''uuid:'' @ uuid e, eventKey = 0, ToSendEventKey = 0,
    expireTime = expires (now e) time_out, sub_active = False, DeliveryURLs = urls\<rparr>"
  obtain sent' where r: "respondOK e (alloc e 4) time_out (ssid sub) = Some (0, sent')"
    using assms t c o
    by (auto simp: add_subscription_def bind_eq_Some_conv Let_def sub_def split: if_splits)
  have fin: "sent = sent'" "ev = \<lparr>ev_service = serviceId sv, ev_UDN = UDN sv, ev_sid = ssid sub,
      ev_callback = Callback info, ev_cookie = Cookie info\<rparr>"
    "g' = g\<lparr>handles := put_service (handles g) h k (sv\<lparr>subscriptionList := sub # subscriptionList sv,
      TotalSubscriptions := TotalSubscriptions sv + 1\<rparr>), gmem := M\<rparr>"
    using assms t c o r
    by (auto simp: add_subscription_def Let_def sub_def split: if_splits)
  have "0 \<le> MaxSubscriptionTimeOut info \<longrightarrow> time_out \<le> MaxSubscriptionTimeOut info"
    using granted_timeout_cases [OF o] by blast
  then show ?thesis
    using lim createURL_list_count [OF c(1,3)] c(2) respondOK_success [OF r] fin
    by (intro exI [of _ sub] exI [of _ time_out]) (auto simp: sub_def)
qed

lemma request_service_Some: "request_service e path g = Some (Some (h, info, k)) \<Longrightarrow>
    device_info (handles g) h = Some info \<and>
    FindServiceEventURLPath (uenv e) (uri0 e) (uri1 e) (Some (ServiceTable info)) path = Some (Some k) \<and>
    svc_active (serviceList (ServiceTable info) ! k)"
  by (auto simp: request_service_def bind_eq_Some_conv split: prod.splits bool.splits option.splits if_splits)

text \<open>
  A subscription request that leads to an event for the application added exactly one
  subscription to the active service with that event URL: the number of subscriptions stays within
  the limit of the device, the duration within its limit, the identifier is the generated one, the
  keys start at 0, the subscription is inactive and has a delivery URL, and the subscriber got the
  complete 200 response with that identifier and duration.
\<close>

lemma genaSubscriptionRequest_sound:
  assumes "genaSubscriptionRequest e m g = Some (sent, Some ev, g')"
  shows "\<exists>h info k sv sub time_out path M. request_path (gmem g) m = Some path \<and>
    device_info (handles g) h = Some info \<and> sv = serviceList (ServiceTable info) ! k \<and> svc_active sv \<and>
    FindServiceEventURLPath (uenv e) (uri0 e) (uri1 e) (Some (ServiceTable info)) path = Some (Some k) \<and>
    (MaxSubscriptions info = - 1 \<or> TotalSubscriptions sv + 1 \<le> MaxSubscriptions info) \<and>
    ssid sub = ''uuid:'' @ uuid e \<and> eventKey sub = 0 \<and> ToSendEventKey sub = 0 \<and> \<not> sub_active sub \<and>
    parsedURLs (DeliveryURLs sub) \<noteq> [] \<and>
    (0 \<le> MaxSubscriptionTimeOut info \<longrightarrow> time_out \<le> MaxSubscriptionTimeOut info) \<and>
    expireTime sub = expires (now e) time_out \<and>
    sent = ok_response (http_date e) (''SERVER: '' @ sysname e @ '' UPnP/1.0 Intel UPnP SDK/1.0'' @ CRLF)
      time_out (ssid sub) \<and>
    ev_sid ev = ssid sub \<and> ev_service ev = serviceId sv \<and> ev_callback ev = Callback info \<and>
    g' = g\<lparr>handles := put_service (handles g) h k (sv\<lparr>subscriptionList := sub # subscriptionList sv,
      TotalSubscriptions := TotalSubscriptions sv + 1\<rparr>), gmem := M\<rparr>"
proof -
  obtain path h info k where p: "request_path (gmem g) m = Some path"
      "request_service e path g = Some (Some (h, info, k))"
      "add_subscription e m h info k (serviceList (ServiceTable info) ! k) g = Some (sent, Some ev, g')"
    using assms
    by (auto simp: genaSubscriptionRequest_def bind_eq_Some_conv split: if_splits option.splits)
  show ?thesis
    using add_subscription_accepts [OF p(3)] request_service_Some [OF p(2)] p(1) by fastforce
qed

text \<open>
  A valid request: the notification type of events, no identifier, a callback with at least one URL, the event URL of an
  active service of the device that may have one more subscription, and a duration that can be read.  \<open>us\<close> are the
  URLs of the callback and \<open>M\<close> the store they are copied to; the service is the \<open>k\<close>-th of the handle \<open>h\<close>.
\<close>

definition valid_subscription ::
  "genv \<Rightarrow> http_message \<Rightarrow> gena \<Rightarrow> int \<Rightarrow> Handle_Info \<Rightarrow> nat \<Rightarrow> URL_list \<Rightarrow> mem \<Rightarrow> int \<Rightarrow> bool" where
  "valid_subscription e m g h info k us M time_out =
     ((\<exists>nt. find_header (gmem g) m ''NT'' = Some (Some nt) \<and> nt_matches (gmem g) nt ''upnp:event'' = Some True) \<and>
      find_header (gmem g) m ''SID'' = Some None \<and>
      (\<exists>cb n. find_header (gmem g) m ''CALLBACK'' = Some (Some cb) \<and> 0 < n \<and>
        createURL_list (gmem g) (uenv e) True True (urls_block e) (uri0 e) (uri1 e) cb (lsize (urls0 e)) = Some (n, us, M)) \<and>
      GetDeviceHandleInfo (handles g) = (True, h) \<and> device_info (handles g) h = Some info \<and>
      (\<exists>path. request_path (gmem g) m = Some path \<and>
        FindServiceEventURLPath (uenv e) (uri0 e) (uri1 e) (Some (ServiceTable info)) path = Some (Some k)) \<and>
      svc_active (serviceList (ServiceTable info) ! k) \<and>
      (MaxSubscriptions info = - 1 \<or> TotalSubscriptions (serviceList (ServiceTable info) ! k) < MaxSubscriptions info) \<and>
      granted_timeout M m (MaxSubscriptionTimeOut info) = Some time_out)"

text \<open>An answer that fits the block computed for it and that the peer takes at once, with memory for every allocation.\<close>

definition answer_fits :: "genv \<Rightarrow> int \<Rightarrow> string \<Rightarrow> bool" where
  "answer_fits e time_out response =
     (list_all (alloc e) [0..<5] \<and> length (sysname e) \<le> 88 \<and> length (http_date e) \<le> HTTP_DATE_LENGTH \<and> length (uuid e) \<le> 39 \<and>
      (0 \<le> time_out \<longrightarrow> length (dec_int time_out) \<le> MAX_SECONDS) \<and> respond (sock e) response = (UPNP_E_SUCCESS, response))"

lemma respondOK_fits:
  assumes "answer_fits e time_out response" "length sid = length (uuid e) + 5"
    and "response = ok_response (http_date e) (''SERVER: '' @ sysname e @ '' UPnP/1.0 Intel UPnP SDK/1.0'' @ CRLF) time_out sid"
  shows "respondOK e True time_out sid = Some (UPNP_E_SUCCESS, response)"
  using assms
  by (auto simp: respondOK_def answer_fits_def Let_def ok_response_def HTTP_DATE_LENGTH_def MAX_SECONDS_def CRLF_def)

text \<open>
  C28. A valid subscription request is accepted, when memory suffices, the answer fits its block and the peer takes it at
  once.  The subscriber is sent the complete 200 response with the generated identifier and the granted duration, which
  does not exceed the limit of the device; the service has the new subscription at the head of its list, inactive, with
  its keys at 0, the URLs of the callback, and the time it expires; and the application is told the service, the device
  and the identifier.
\<close>

theorem genaSubscriptionRequest_accepts:
  assumes "valid_subscription e m g h info k us M time_out" "answer_fits e time_out response"
    and "response = ok_response (http_date e) (''SERVER: '' @ sysname e @ '' UPnP/1.0 Intel UPnP SDK/1.0'' @ CRLF)
      time_out (''uuid:'' @ uuid e)"
    and "sv = serviceList (ServiceTable info) ! k"
    and "sub = \<lparr>ssid = ''uuid:'' @ uuid e, eventKey = 0, ToSendEventKey = 0, expireTime = expires (now e) time_out,
      sub_active = False, DeliveryURLs = us\<rparr>"
  shows "genaSubscriptionRequest e m g = Some (response,
      Some \<lparr>ev_service = serviceId sv, ev_UDN = UDN sv, ev_sid = ''uuid:'' @ uuid e, ev_callback = Callback info, ev_cookie = Cookie info\<rparr>,
      g\<lparr>handles := put_service (handles g) h k (sv\<lparr>subscriptionList := sub # subscriptionList sv,
        TotalSubscriptions := TotalSubscriptions sv + 1\<rparr>), gmem := M\<rparr>) \<and>
    parsedURLs us \<noteq> [] \<and> (0 \<le> MaxSubscriptionTimeOut info \<longrightarrow> time_out \<le> MaxSubscriptionTimeOut info)"
proof -
  obtain nt cb n path where v: "find_header (gmem g) m ''NT'' = Some (Some nt)" "nt_matches (gmem g) nt ''upnp:event'' = Some True"
      "find_header (gmem g) m ''SID'' = Some None" "find_header (gmem g) m ''CALLBACK'' = Some (Some cb)" "0 < n"
      "createURL_list (gmem g) (uenv e) True True (urls_block e) (uri0 e) (uri1 e) cb (lsize (urls0 e)) = Some (n, us, M)"
      "GetDeviceHandleInfo (handles g) = (True, h)" "device_info (handles g) h = Some info" "request_path (gmem g) m = Some path"
      "FindServiceEventURLPath (uenv e) (uri0 e) (uri1 e) (Some (ServiceTable info)) path = Some (Some k)" "svc_active sv"
      "MaxSubscriptions info = - 1 \<or> TotalSubscriptions sv < MaxSubscriptions info"
      "granted_timeout M m (MaxSubscriptionTimeOut info) = Some time_out"
    using assms(1,4) unfolding valid_subscription_def by blast
  have a: "alloc e 0" "alloc e 1" "alloc e 2" "alloc e 3" "alloc e 4" using assms(2) by (simp_all add: answer_fits_def upt_rec eval_nat_numeral)
  have r: "respondOK e True time_out (''uuid:'' @ uuid e) = Some (UPNP_E_SUCCESS, response)"
    by (rule respondOK_fits [OF assms(2) _ assms(3)]) simp
  have "request_service e path g = Some (Some (h, info, k))"
    using v(7,8,10,11) assms(4) by (simp add: request_service_def)
  moreover have "add_subscription e m h info k sv g = Some (response,
      Some \<lparr>ev_service = serviceId sv, ev_UDN = UDN sv, ev_sid = ''uuid:'' @ uuid e, ev_callback = Callback info, ev_cookie = Cookie info\<rparr>,
      g\<lparr>handles := put_service (handles g) h k (sv\<lparr>subscriptionList := sub # subscriptionList sv,
        TotalSubscriptions := TotalSubscriptions sv + 1\<rparr>), gmem := M\<rparr>)"
    using v(4-6,12,13) a r by (auto simp: add_subscription_def Let_def assms(5))
  ultimately have "genaSubscriptionRequest e m g = Some (response,
      Some \<lparr>ev_service = serviceId sv, ev_UDN = UDN sv, ev_sid = ''uuid:'' @ uuid e, ev_callback = Callback info, ev_cookie = Cookie info\<rparr>,
      g\<lparr>handles := put_service (handles g) h k (sv\<lparr>subscriptionList := sub # subscriptionList sv,
        TotalSubscriptions := TotalSubscriptions sv + 1\<rparr>), gmem := M\<rparr>)"
    using v(1-3,9) a assms(4) by (simp add: genaSubscriptionRequest_def)
  then show ?thesis using granted_timeout_cases [OF v(13)] createURL_list_count [OF v(6)] v(5) by auto
qed

text \<open>A request, a device and an environment for the example.\<close>

definition request_mem :: mem where
  "request_mem b = (if b = 0 then ''NTCALLBACK'' @ ''upnp:event'' @ ''<http://h/>'' @ ''/e'' @ [CR, LF, NUL] else [NUL])"

definition request_token :: "int \<Rightarrow> int \<Rightarrow> token" where
  "request_token i n = \<lparr>buff = Some (0, i), tsize = n\<rparr>"

definition subscribe_message :: http_message where
  "subscribe_message = \<lparr>
     status = \<lparr>st_version = null_token, status_code = null_token, reason_phrase = null_token\<rparr>,
     request = \<lparr>rq_version = null_token, request_uri = some_uri\<lparr>pathquery := request_token 31 2\<rparr>, rq_method = null_token\<rparr>,
     header_list = [\<lparr>hd_name = request_token 0 2, hd_value = request_token 10 10\<rparr>,
       \<lparr>hd_name = request_token 2 8, hd_value = request_token 20 11\<rparr>],
     content = null_token\<rparr>"

definition request_env :: genv where
  "request_env = \<lparr>uenv = \<lparr>gethostbyname = (\<lambda>_. Some \<lparr>h_addrtype = 2, h_length = 4, h_addr = 7\<rparr>), malloc_ok = (\<lambda>_. True)\<rparr>,
     now = 1000, sock = [Takes 0 999], alloc = (\<lambda>_. True), uri0 = some_uri, uri1 = some_uri,
     sid0 = replicate 44 NUL, urls0 = \<lparr>lsize = 0, URLs = None, parsedURLs = []\<rparr>,
     http_date = ''DATE: Mon, 30 Apr 1979 08:49:37 GMT'' @ CRLF, sysname = ''Linux/2.4'',
     uuid = ''1234'', urls_block = 3\<rparr>"

definition request_gena :: gena where
  "request_gena = lamp\<lparr>handles := InitHandleList[1 := Some (lamp_info
     \<lparr>MaxSubscriptions := 5, MaxSubscriptionTimeOut := 300\<rparr>)], gmem := request_mem\<rparr>"

text \<open>The store after the callback is copied, and the URLs found in it.\<close>

definition example_urls :: "(int \<times> URL_list \<times> mem) option" where
  "example_urls = createURL_list request_mem (uenv request_env) True True 3 some_uri some_uri (request_token 20 11) 0"

lemma subscribe_example:
  "map_option fst example_urls = Some 1"
  "find_header request_mem subscribe_message ''NT'' = Some (Some (request_token 10 10))"
  "nt_matches request_mem (request_token 10 10) ''upnp:event'' = Some True"
  "find_header request_mem subscribe_message ''SID'' = Some None"
  "find_header request_mem subscribe_message ''CALLBACK'' = Some (Some (request_token 20 11))"
  "map_option (\<lambda>(n, us, M). granted_timeout M subscribe_message 300) example_urls = Some (Some 300)"
  "request_path request_mem subscribe_message = Some ''/e''"
  by code_simp+

definition example_info :: Handle_Info where
  "example_info = lamp_info\<lparr>MaxSubscriptions := 5, MaxSubscriptionTimeOut := 300\<rparr>"

lemma subscribe_device:
  "GetDeviceHandleInfo (handles request_gena) = (True, 1)" "device_info (handles request_gena) 1 = Some example_info"
  "FindServiceEventURLPath (uenv request_env) (uri0 request_env) (uri1 request_env) (Some (ServiceTable example_info)) ''/e'' = Some (Some 0)"
  "svc_active (serviceList (ServiceTable example_info) ! 0)" "TotalSubscriptions (serviceList (ServiceTable example_info) ! 0) < 5"
  by code_simp+

lemma subscribe_valid:
  obtains us M where "valid_subscription request_env subscribe_message request_gena 1 example_info 0 us M 300"
proof -
  obtain us M where u: "createURL_list request_mem (uenv request_env) True True 3 some_uri some_uri (request_token 20 11) 0 = Some (1, us, M)"
      "granted_timeout M subscribe_message 300 = Some 300"
    using subscribe_example(1,6) by (auto simp: example_urls_def)
  have "valid_subscription request_env subscribe_message request_gena 1 example_info 0 us M 300"
    unfolding valid_subscription_def
    using subscribe_example(2-5,7) subscribe_device u
    by (auto simp: request_gena_def request_env_def example_info_def intro!: exI [of _ 1])
  then show thesis by (rule that)
qed

theorem genaSubscriptionRequest_accepts_witness:
  "\<exists>ev g'. genaSubscriptionRequest request_env subscribe_message request_gena =
     Some (ok_response (http_date request_env) (''SERVER: Linux/2.4 UPnP/1.0 Intel UPnP SDK/1.0'' @ CRLF) 300 ''uuid:1234'', Some ev, g') \<and>
     ev_sid ev = ''uuid:1234''"
proof -
  obtain us M where v: "valid_subscription request_env subscribe_message request_gena 1 example_info 0 us M 300"
    by (rule subscribe_valid)
  let ?r = "ok_response (http_date request_env) (''SERVER: '' @ sysname request_env @ '' UPnP/1.0 Intel UPnP SDK/1.0'' @ CRLF) 300
    (''uuid:'' @ uuid request_env)"
  have a: "answer_fits request_env 300 ?r" by code_simp
  show ?thesis
    using genaSubscriptionRequest_accepts [OF v a refl refl refl] by (simp add: request_env_def)
qed

text \<open>
  A subscriber that asks for \<open>Second-0\<close> gets 0 whatever the limit of the device is, and an
  expiry time of 0 stands for never: the subscription outlives every limit.
\<close>

theorem zero_timeout_never_expires:
  assumes "find_header M m ''TIMEOUT'' = Some (Some t)" "tok_bytes M t = ''Second-0'' @ c # rest"
    and "\<not> isdigit c" "0 \<le> limit"
  shows "granted_timeout M m limit = Some 0 \<and>
    sub_expired later (sub\<lparr>expireTime := expires t0 0\<rparr>) = False"
  using assms strtol_zero [OF assms(3), of rest]
  by (simp add: granted_timeout_def sscanf_second_def sub_expired_def expires_def to_int_id)

definition zero_message :: http_message where
  "zero_message = subscribe_message\<lparr>header_list := [\<lparr>hd_name = \<lparr>buff = Some (0, 0), tsize = 7\<rparr>,
     hd_value = \<lparr>buff = Some (0, 9), tsize = 8\<rparr>\<rparr>]\<rparr>"

definition zero_mem :: mem where
  "zero_mem b = ''TIMEOUT: Second-0'' @ [CR, LF, NUL]"

theorem zero_timeout_never_expires_witness:
  "granted_timeout zero_mem zero_message 300 = Some 0 \<and>
   sub_expired 100000 ((lamp_sub ''a'' 0 False 5)\<lparr>expireTime := expires 1000 0\<rparr>) = False"
proof (rule zero_timeout_never_expires [where c = CR and rest = "[LF, NUL]" and t = "\<lparr>buff = Some (0, 9), tsize = 8\<rparr>"])
  show "find_header zero_mem zero_message ''TIMEOUT'' = Some (Some \<lparr>buff = Some (0, 9), tsize = 8\<rparr>)"
    by code_simp
qed (simp_all add: tok_bytes_def bytes_at_def zero_mem_def isdigit_def)

end
