(* ===== verification/Gena_Client.thy ===== *)
theory Gena_Client imports Gena_Requests begin

text \<open>
  Subscriptions of a control point (\<^verbatim>\<open>gena/gena_client.c\<close>): subscribing, renewing (also by
  timer), unsubscribing, and received events.

  The state is the handle table, the timer thread's queue and the renewal records that its events
  point to.  A function that releases the handle lock around a transfer is given as what it does
  before and after it, and their composition when nobody interferes.  \<open>None\<close> is a memory fault.
\<close>

section \<open>State\<close>

text \<open>An \<^verbatim>\<open>upnp_timeout\<close> with its \<^verbatim>\<open>Upnp_Event_Subscribe\<close>.\<close>

record renew_event =
  re_handle :: int
  re_sid :: string
  re_url :: string
  re_timeout :: int

record client =
  chandles :: handle_table
  ctimer :: timer_thread_struct
  renewals :: "nat \<Rightarrow> renew_event option"
  next_renewal :: nat

definition client_info :: "handle_table \<Rightarrow> int \<Rightarrow> Handle_Info option" where
  "client_info T h = (if GetHandleInfo T h = Some HND_CLIENT then T ! nat h else None)"

definition put_subs :: "handle_table \<Rightarrow> int \<Rightarrow> client_subscription list \<Rightarrow> handle_table" where
  "put_subs T h cs = T[nat h := map_option (\<lambda>i. i\<lparr>ClientSubList := cs\<rparr>) (T ! nat h)]"

abbreviation (input) UPNP_E_SUBSCRIBE_UNACCEPTED :: int where "UPNP_E_SUBSCRIBE_UNACCEPTED \<equiv> - 301"
abbreviation (input) UPNP_E_UNSUBSCRIBE_UNACCEPTED :: int where "UPNP_E_UNSUBSCRIBE_UNACCEPTED \<equiv> - 302"

definition AUTO_RENEW_TIME :: int where "AUTO_RENEW_TIME = 35"

definition NAME_SIZE :: nat where "NAME_SIZE = 100"

definition MAX_PORT_SIZE :: nat where "MAX_PORT_SIZE = 10"

text \<open>The callback address of \<^verbatim>\<open>GenaAutoRenewSubscription\<close>.\<close>

definition auto_renew_callback :: nat where "auto_renew_callback = 1"

text \<open>Cancelling an event frees the record it points to.\<close>

definition cancel_renewal :: "32 word \<Rightarrow> client \<Rightarrow> client" where
  "cancel_renewal i c =
     (case RemoveTimerEvent i 0 (ctimer c) of (found, arg, e, timer) \<Rightarrow>
       c\<lparr>ctimer := timer, renewals := (if found then (renewals c)(arg := None) else renewals c)\<rparr>)"

text \<open>\<^verbatim>\<open>RemoveClientSubClientSID\<close> on the list of a handle.\<close>

definition remove_sub :: "int \<Rightarrow> string \<Rightarrow> client \<Rightarrow> client" where
  "remove_sub h sid c =
     (case client_info (chandles c) h of
        None \<Rightarrow> c
      | Some info \<Rightarrow>
          (case GetClientSubClientSID (ClientSubList info) sid of
             None \<Rightarrow> c
           | Some i \<Rightarrow> cancel_renewal (RenewEventId (ClientSubList info ! i))
               (c\<lparr>chandles := put_subs (chandles c) h
                  (fst (RemoveClientSubClientSID (ClientSubList info) sid (ctimer c)))\<rparr>)))"

section \<open>What a call meets\<close>

text \<open>
  Name service and allocator, the network of the transfer, the allocations in order, the clock,
  the generated identifier, the address of this host, the block of the response and what the
  structs on the stack hold.
\<close>

record cenv =
  cuenv :: env
  cnet :: net
  calloc :: "nat \<Rightarrow> bool"
  cnow :: int
  cuuid :: string
  LOCAL_HOST :: string
  LOCAL_PORT :: int
  cblock :: block
  curi :: uri_type
  cmsg :: http_message

definition url_store :: "string \<Rightarrow> mem" where
  "url_store url b = (if b = 0 then url @ [NUL] else [])"

definition client_transfer ::
  "cenv \<Rightarrow> string \<Rightarrow> string \<Rightarrow> string \<Rightarrow> (int \<times> string option \<times> string) option" where
  "client_transfer e meth headers url =
     transferHTTP (url_store url) (cuenv e) (curi e) (cnet e) meth headers (int (length headers)) (0, 0)"

text \<open>The response as a parsed message, in a store of its own.\<close>

definition response_store :: "cenv \<Rightarrow> string \<Rightarrow> mem" where
  "response_store e response b = (if b = cblock e then response @ [NUL] else [])"

definition client_parse :: "cenv \<Rightarrow> string \<Rightarrow> (int \<times> http_message) option" where
  "client_parse e response = do {
     len \<leftarrow> strlen (response @ [NUL]);
     parse_http_response (\<lambda>n. calloc e (100 + n)) (response_store e response) (cblock e, 0) (cmsg e) len }"

definition status_is_200 :: "mem \<Rightarrow> http_message \<Rightarrow> bool option" where
  "status_is_200 M m =
     map_option (\<lambda>d. d = 0) (strncasecmp (tok_bytes M (status_code (status m))) (''200'' @ [NUL]) 3)"

text \<open>The buffer \<^verbatim>\<open>char timeout[MAX_SECONDS]\<close> and the headers block.\<close>

definition timeout_text :: "int option \<Rightarrow> string option" where
  "timeout_text TimeOut =
     (let s = (case TimeOut of None \<Rightarrow> dec_int DEFAULT_TIMEOUT
                | Some n \<Rightarrow> if 0 \<le> n then dec_int n else ''infinite'')
      in if MAX_SECONDS < length s + 1 then None else Some s)"

section \<open>Renewal by timer\<close>

text \<open>
  \<^verbatim>\<open>ScheduleGenaAutoRenew\<close> for the subscription with identifier \<open>sid\<close>: the code, the event
  identifier to store in it, and the state.
\<close>

definition ScheduleGenaAutoRenew ::
  "(nat \<Rightarrow> bool) \<Rightarrow> int \<Rightarrow> int \<Rightarrow> int \<Rightarrow> string \<Rightarrow> string \<Rightarrow> client \<Rightarrow> int \<times> 32 word option \<times> client" where
  "ScheduleGenaAutoRenew A t client_handle TimeOut sid url c =
     (if TimeOut = UPNP_INFINITE then (GENA_SUCCESS, None, c)
      else if \<not> A 0 \<or> \<not> A 1 then (UPNP_E_OUTOF_MEMORY, None, c)
      else
        (case ScheduleTimerEvent (A 2) t (TimeOut - AUTO_RENEW_TIME) auto_renew_callback (next_renewal c) (ctimer c) of
           (rc, ev, timer) \<Rightarrow>
             (case ev of
                None \<Rightarrow> (rc, None, c\<lparr>ctimer := timer\<rparr>)
              | Some x \<Rightarrow> (GENA_SUCCESS, Some (eventId x),
                  c\<lparr>ctimer := timer,
                    renewals := (renewals c)(next_renewal c := Some \<lparr>re_handle = client_handle, re_sid = sid,
                      re_url = take (NAME_SIZE - 1) url, re_timeout = TimeOut\<rparr>),
                    next_renewal := Suc (next_renewal c)\<rparr>))))"

section \<open>Subscribing\<close>

definition subscribe_headers :: "cenv \<Rightarrow> int option \<Rightarrow> string option" where
  "subscribe_headers e TimeOut = do {
     timeout \<leftarrow> timeout_text TimeOut;
     block_of (length (''CALLBACK: <http:///>'' @ CRLF) + length (LOCAL_HOST e) + 1 + MAX_PORT_SIZE +
         length (''NT: upnp:event'' @ CRLF) + length (''TIMEOUT: Second-'' @ CRLF @ CRLF) + MAX_SECONDS + 1)
       (''CALLBACK: <http://'' @ LOCAL_HOST e @ '':'' @ dec_int (LOCAL_PORT e) @ ''/>'' @ CRLF @
         ''NT: upnp:event'' @ CRLF @ ''TIMEOUT: Second-'' @ timeout @ CRLF @ CRLF) }"

text \<open>
  The headers of a 200 response: the code, the SID of the device and the new duration.  The
  duration is written through \<^verbatim>\<open>TimeOut\<close>, which faults when it is NULL.
\<close>

definition response_duration :: "mem \<Rightarrow> http_message \<Rightarrow> int option \<Rightarrow> int \<Rightarrow> (int \<times> int option) option" where
  "response_duration M m TimeOut rc = do {
     h \<leftarrow> find_header M m ''TIMEOUT'';
     (case h of
        None \<Rightarrow> Some (UPNP_E_BAD_RESPONSE, TimeOut)
      | Some t \<Rightarrow>
          (case sscanf_second (tok_bytes M t) of
             Some n \<Rightarrow> map_option (\<lambda>_. (rc, Some n)) TimeOut
           | None \<Rightarrow> do {
               d \<leftarrow> strncasecmp (tok_bytes M t) (''Second-infinite'' @ [NUL]) 15;
               if d = 0 then map_option (\<lambda>_. (rc, Some (- 1))) TimeOut
               else Some (UPNP_E_BAD_RESPONSE, TimeOut) })) }"

definition response_sid :: "(nat \<Rightarrow> bool) \<Rightarrow> mem \<Rightarrow> http_message \<Rightarrow> (int \<times> string option) option" where
  "response_sid A M m = do {
     h \<leftarrow> find_header M m ''SID'';
     (case h of
        None \<Rightarrow> Some (UPNP_E_BAD_RESPONSE, None)
      | Some t \<Rightarrow>
          if \<not> A 1 then Some (UPNP_E_OUTOF_MEMORY, None)
          else map_option (\<lambda>s. (GENA_SUCCESS, Some (cstring s))) (memcpy_from (tok_bytes M t) (tsize t))) }"

text \<open>The identifier generated for the application.\<close>

definition new_sid :: "cenv \<Rightarrow> string" where
  "new_sid e = ''uuid:'' @ cuuid e"

definition subscribe_begin ::
  "cenv \<Rightarrow> int \<Rightarrow> int option \<Rightarrow> client \<Rightarrow> (int + string) option" where
  "subscribe_begin e h TimeOut c =
     (if client_info (chandles c) h = None then Some (Inl UPNP_E_INVALID_HANDLE)
      else do {
        timeout \<leftarrow> timeout_text TimeOut;
        if \<not> calloc e 0 then Some (Inl UPNP_E_OUTOF_MEMORY)
        else map_option Inr (subscribe_headers e TimeOut) })"

text \<open>
  After the transfer, under both locks.  The result is the code, the identifier and the duration
  for the caller, and the state.  When the renewal cannot be scheduled the new record is freed
  while it is linked at the head of the list, a fault for the next operation on the list.
\<close>

definition subscribe_end ::
  "cenv \<Rightarrow> int \<Rightarrow> string \<Rightarrow> int option \<Rightarrow> int \<times> string option \<Rightarrow> client \<Rightarrow>
     (int \<times> string option \<times> int option \<times> client) option" where
  "subscribe_end e h url TimeOut result c =
     (case result of
        (rc, None) \<Rightarrow> Some (rc, None, TimeOut, c)
      | (rc, Some response) \<Rightarrow>
          if rc \<noteq> HTTP_SUCCESS then Some (rc, None, TimeOut, c)
          else
            (case client_info (chandles c) h of
               None \<Rightarrow> Some (UPNP_E_INVALID_HANDLE, None, TimeOut, c)
             | Some info \<Rightarrow> do {
                 (rc, m) \<leftarrow> client_parse e response;
                 if rc \<noteq> HTTP_SUCCESS then Some (rc, None, TimeOut, c)
                 else do {
                   let M = response_store e response;
                   ok \<leftarrow> status_is_200 M m;
                   if \<not> ok then Some (UPNP_E_SUBSCRIBE_UNACCEPTED, None, TimeOut, c)
                   else do {
                     (rc, actual) \<leftarrow> response_sid (calloc e) M m;
                     let out_sid = map_option (\<lambda>_. new_sid e) actual;
                     (rc, TimeOut) \<leftarrow> response_duration M m TimeOut rc;
                     let rc = (if \<not> calloc e 2 then UPNP_E_OUTOF_MEMORY else rc);
                     (case (rc = GENA_SUCCESS, actual, TimeOut) of
                        (True, Some asid, Some n) \<Rightarrow>
                          if \<not> calloc e 3 then Some (UPNP_E_OUTOF_MEMORY, out_sid, TimeOut, c)
                          else
                            (case ScheduleGenaAutoRenew (\<lambda>k. calloc e (4 + k)) (cnow e) h n (new_sid e) url c of
                               (rc, ev, c) \<Rightarrow>
                                 if rc \<noteq> GENA_SUCCESS then None
                                 else Some (rc, out_sid, TimeOut, c\<lparr>chandles := put_subs (chandles c) h
                                   (\<lparr>csid = new_sid e, ActualSID = asid, EventURL = url,
                                     RenewEventId = (case ev of None \<Rightarrow> - 1 | Some i \<Rightarrow> i)\<rparr> # ClientSubList info)\<rparr>))
                      | _ \<Rightarrow> Some (rc, out_sid, TimeOut, c)) } } }))"

definition genaSubscribe ::
  "cenv \<Rightarrow> int \<Rightarrow> string \<Rightarrow> int option \<Rightarrow> client \<Rightarrow> (int \<times> string option \<times> int option \<times> client) option" where
  "genaSubscribe e h url TimeOut c = do {
     r \<leftarrow> subscribe_begin e h TimeOut c;
     (case r of
        Inl err \<Rightarrow> Some (err, None, TimeOut, c)
      | Inr headers \<Rightarrow> do {
          (rc, response, sent) \<leftarrow> client_transfer e ''SUBSCRIBE'' headers url;
          subscribe_end e h url TimeOut (rc, response) c }) }"

section \<open>Renewing\<close>

definition set_sub :: "handle_table \<Rightarrow> int \<Rightarrow> nat \<Rightarrow> client_subscription \<Rightarrow> handle_table" where
  "set_sub T h i s = (case client_info T h of None \<Rightarrow> T | Some info \<Rightarrow> put_subs T h ((ClientSubList info)[i := s]))"

text \<open>Before the transfer: the error code, or the headers and the URL to send them to.\<close>

definition renew_begin ::
  "cenv \<Rightarrow> int \<Rightarrow> string \<Rightarrow> int option \<Rightarrow> client \<Rightarrow> ((int + string \<times> string) \<times> client) option" where
  "renew_begin e h in_sid TimeOut c =
     (case client_info (chandles c) h of
        None \<Rightarrow> Some (Inl UPNP_E_INVALID_HANDLE, c)
      | Some info \<Rightarrow>
          (case GetClientSubClientSID (ClientSubList info) in_sid of
             None \<Rightarrow> Some (Inl UPNP_E_INVALID_SID, c)
           | Some i \<Rightarrow>
               (let sub = ClientSubList info ! i;
                    c = cancel_renewal (RenewEventId sub) c;
                    c = c\<lparr>chandles := set_sub (chandles c) h i (sub\<lparr>RenewEventId := - 1\<rparr>)\<rparr>
                in (case copy_client_subscription (calloc e 0) (calloc e 1) sub of
                      None \<Rightarrow> Some (Inl UPNP_E_OUTOF_MEMORY, c)
                    | Some sub_copy \<Rightarrow> do {
                        timeout \<leftarrow> timeout_text TimeOut;
                        if \<not> calloc e 2 then Some (Inl UPNP_E_OUTOF_MEMORY, c)
                        else do {
                          headers \<leftarrow> block_of (length (''SID: '' @ CRLF) + length (ActualSID sub_copy) +
                              length (''TIMEOUT: Second-'' @ CRLF @ CRLF) + MAX_SECONDS + 1)
                            (''SID: '' @ ActualSID sub_copy @ CRLF @ ''TIMEOUT: Second-'' @ timeout @ CRLF @ CRLF);
                          Some (Inr (headers, EventURL sub_copy), c) } }))))"

text \<open>
  What the response says (code, SID of the device, duration); storing it in the \<open>i\<close>-th subscription
  with the next renewal, or removing the subscription.
\<close>

definition renew_answer :: "cenv \<Rightarrow> string \<Rightarrow> int option \<Rightarrow> (int \<times> string option \<times> int option) option" where
  "renew_answer e response TimeOut = do {
     (rc, m) \<leftarrow> client_parse e response;
     if rc \<noteq> HTTP_SUCCESS then Some (rc, None, TimeOut)
     else do {
       ok \<leftarrow> status_is_200 (response_store e response) m;
       if \<not> ok then Some (UPNP_E_SUBSCRIBE_UNACCEPTED, None, TimeOut)
       else do {
         (rc, asid) \<leftarrow> response_sid (\<lambda>k. calloc e (3 + k)) (response_store e response) m;
         (rc, TimeOut) \<leftarrow> response_duration (response_store e response) m TimeOut rc;
         Some (rc, asid, TimeOut) } } }"

definition renew_install ::
  "cenv \<Rightarrow> int \<Rightarrow> nat \<Rightarrow> client_subscription \<Rightarrow> int \<times> string option \<times> int option \<Rightarrow> client \<Rightarrow> int \<times> int option \<times> client" where
  "renew_install e h i sub reply c =
     (case reply of (rc, asid, TimeOut) \<Rightarrow>
       let sub = (case asid of None \<Rightarrow> sub | Some a \<Rightarrow> sub\<lparr>ActualSID := a\<rparr>);
           c = c\<lparr>chandles := set_sub (chandles c) h i sub\<rparr>
       in (case (rc = GENA_SUCCESS, TimeOut) of
             (True, Some n) \<Rightarrow>
               (case ScheduleGenaAutoRenew (\<lambda>k. calloc e (5 + k)) (cnow e) h n (csid sub) (EventURL sub) c of
                  (rc, ev, c) \<Rightarrow>
                    if rc \<noteq> GENA_SUCCESS then (rc, Some n, remove_sub h (csid sub) c)
                    else (rc, Some n, (case ev of None \<Rightarrow> c
                      | Some x \<Rightarrow> c\<lparr>chandles := set_sub (chandles c) h i (sub\<lparr>RenewEventId := x\<rparr>)\<rparr>)))
           | _ \<Rightarrow> (rc, TimeOut, remove_sub h (csid sub) c)))"

definition renew_end ::
  "cenv \<Rightarrow> int \<Rightarrow> string \<Rightarrow> int option \<Rightarrow> int \<times> string option \<Rightarrow> client \<Rightarrow> (int \<times> int option \<times> client) option" where
  "renew_end e h in_sid TimeOut result c =
     (case client_info (chandles c) h of
        None \<Rightarrow> Some (UPNP_E_INVALID_HANDLE, TimeOut, c)
      | Some info \<Rightarrow>
          (case result of
             (rc, None) \<Rightarrow> Some (rc, TimeOut, remove_sub h in_sid c)
           | (rc, Some response) \<Rightarrow>
               if rc \<noteq> HTTP_SUCCESS then Some (rc, TimeOut, remove_sub h in_sid c)
               else
                 (case GetClientSubClientSID (ClientSubList info) in_sid of
                    None \<Rightarrow> Some (UPNP_E_INVALID_SID, TimeOut, c)
                  | Some i \<Rightarrow> do {
                      reply \<leftarrow> renew_answer e response TimeOut;
                      Some (renew_install e h i (ClientSubList info ! i) reply c) })))"

definition genaRenewSubscription ::
  "cenv \<Rightarrow> int \<Rightarrow> string \<Rightarrow> int option \<Rightarrow> client \<Rightarrow> (int \<times> int option \<times> client) option" where
  "genaRenewSubscription e h in_sid TimeOut c = do {
     (r, c) \<leftarrow> renew_begin e h in_sid TimeOut c;
     (case r of
        Inl err \<Rightarrow> Some (err, TimeOut, c)
      | Inr (headers, url) \<Rightarrow> do {
          (rc, response, sent) \<leftarrow> client_transfer e ''SUBSCRIBE'' headers url;
          renew_end e h in_sid TimeOut (rc, response) c }) }"

text \<open>
  The timer callback, with the record its event points to: the event for the application, if any
  (its code is the result of the renewal).  The record is freed at the end.
\<close>

definition GenaAutoRenewSubscription ::
  "cenv \<Rightarrow> nat \<Rightarrow> client \<Rightarrow> ((nat \<times> nat \<times> int) option \<times> client) option" where
  "GenaAutoRenewSubscription e arg c = do {
     r \<leftarrow> renewals c arg;
     (rc, n, c) \<leftarrow> genaRenewSubscription e (re_handle r) (re_sid r) (Some (re_timeout r)) c;
     let call = (if rc \<noteq> UPNP_E_SUCCESS \<and> rc \<noteq> UPNP_E_INVALID_SID \<and> rc \<noteq> UPNP_E_INVALID_HANDLE
       then map_option (\<lambda>i. (Callback i, Cookie i, rc)) (client_info (chandles c) (re_handle r)) else None);
     Some (call, c\<lparr>renewals := (renewals c)(arg := None)\<rparr>) }"

section \<open>Unsubscribing\<close>

definition unsubscribe_request :: "string \<Rightarrow> string option" where
  "unsubscribe_request asid =
     block_of (length (''SID: '' @ CRLF @ CRLF) + length asid + 1) (''SID: '' @ asid @ CRLF @ CRLF)"

definition unsubscribe_begin ::
  "cenv \<Rightarrow> int \<Rightarrow> string \<Rightarrow> client \<Rightarrow> ((int + string \<times> string) \<times> client) option" where
  "unsubscribe_begin e h in_sid c =
     (case client_info (chandles c) h of
        None \<Rightarrow> Some (Inl UPNP_E_INVALID_HANDLE, c)
      | Some info \<Rightarrow>
          (case GetClientSubClientSID (ClientSubList info) in_sid of
             None \<Rightarrow> Some (Inl UPNP_E_INVALID_SID, c)
           | Some i \<Rightarrow>
               (let sub_copy = copy_client_subscription (calloc e 0) (calloc e 1) (ClientSubList info ! i);
                    c = remove_sub h in_sid c
                in (case sub_copy of
                      None \<Rightarrow> Some (Inl UPNP_E_OUTOF_MEMORY, c)
                    | Some s \<Rightarrow>
                        if \<not> calloc e 2 then Some (Inl UPNP_E_OUTOF_MEMORY, c)
                        else do {
                          req \<leftarrow> unsubscribe_request (ActualSID s);
                          Some (Inr (req, EventURL s), c) }))))"

definition unsubscribe_end :: "cenv \<Rightarrow> int \<times> string option \<Rightarrow> int option" where
  "unsubscribe_end e result =
     (case result of
        (rc, None) \<Rightarrow> Some rc
      | (rc, Some response) \<Rightarrow>
          if rc \<noteq> HTTP_SUCCESS then Some rc
          else do {
            (rc, m) \<leftarrow> client_parse e response;
            if rc \<noteq> HTTP_SUCCESS then Some rc
            else do {
              ok \<leftarrow> status_is_200 (response_store e response) m;
              Some (if ok then GENA_SUCCESS else UPNP_E_UNSUBSCRIBE_UNACCEPTED) } })"

definition genaUnSubscribe :: "cenv \<Rightarrow> int \<Rightarrow> string \<Rightarrow> client \<Rightarrow> (int \<times> client) option" where
  "genaUnSubscribe e h in_sid c = do {
     (r, c) \<leftarrow> unsubscribe_begin e h in_sid c;
     (case r of
        Inl err \<Rightarrow> Some (err, c)
      | Inr (req, url) \<Rightarrow> do {
          (rc, response, sent) \<leftarrow> client_transfer e ''UNSUBSCRIBE'' req url;
          code \<leftarrow> unsubscribe_end e (rc, response);
          Some (code, c) }) }"

text \<open>
  The loop of \<^verbatim>\<open>genaUnregisterClient\<close>, with the environment of each round; the fuel bounds the
  rounds.  The copy of the identifier is cut to \<^verbatim>\<open>SID_SIZE\<close> bytes, so a longer one is not found
  and the loop runs forever: then the fuel runs out, which is \<open>None\<close>.
\<close>

fun unregister_loop :: "(nat \<Rightarrow> cenv) \<Rightarrow> int \<Rightarrow> nat \<Rightarrow> nat \<Rightarrow> client \<Rightarrow> (int \<times> client) option" where
  "unregister_loop E h 0 k c = None"
| "unregister_loop E h (Suc fuel) k c =
     (case client_info (chandles c) h of
        None \<Rightarrow> Some (UPNP_E_INVALID_HANDLE, c)
      | Some info \<Rightarrow>
          (case ClientSubList info of
             [] \<Rightarrow> Some (UPNP_E_SUCCESS, c)
           | s # ss \<Rightarrow>
               (case copy_client_subscription (calloc (E k) 0) (calloc (E k) 1) s of
                  None \<Rightarrow> Some (1, fold (\<lambda>s. cancel_renewal (RenewEventId s)) (s # ss) c)
                | Some sub_copy \<Rightarrow>
                    (let c = remove_sub h (csid sub_copy) c
                     in if \<not> calloc (E k) 2 then Some (UPNP_E_OUTOF_MEMORY, c)
                        else do {
                          req \<leftarrow> unsubscribe_request (ActualSID sub_copy);
                          (rc, response, sent) \<leftarrow> client_transfer (E k) ''UNSUBSCRIBE'' req (EventURL sub_copy);
                          unregister_loop E h fuel (Suc k) c }))))"

definition genaUnregisterClient :: "nat \<Rightarrow> (nat \<Rightarrow> cenv) \<Rightarrow> int \<Rightarrow> client \<Rightarrow> (int \<times> client) option" where
  "genaUnregisterClient fuel E h c = unregister_loop E h fuel 0 c"

section \<open>Events\<close>

text \<open>\<^verbatim>\<open>sscanf(s,"%d",..)\<close>\<close>

definition sscanf_int :: "string \<Rightarrow> int option" where
  "sscanf_int s = map_option to_int (strtol 10 s)"

record received_event =
  rx_sid :: string
  rx_key :: int
  rx_content :: ptr
  rx_callback :: nat
  rx_cookie :: nat

text \<open>\<open>GetClientHandleInfo\<close> and the lookup by the SID of the device.\<close>

definition event_subscription :: "mem \<Rightarrow> token \<Rightarrow> client \<Rightarrow> (Handle_Info \<times> client_subscription option) option option" where
  "event_subscription M sid c =
     (case GetClientHandleInfo (chandles c) of
        (False, _) \<Rightarrow> Some None
      | (True, h) \<Rightarrow>
          (case client_info (chandles c) h of
             None \<Rightarrow> Some None
           | Some info \<Rightarrow> do {
               i \<leftarrow> GetClientSubActualSID M (ClientSubList info) sid;
               Some (Some (info, map_option ((!) (ClientSubList info)) i)) }))"

text \<open>
  \<open>xml\<close> is the parser \<^verbatim>\<open>UpnpParse_Buffer\<close>: whether it accepts the text at a pointer.  \<open>later\<close> is
  the state when the first event had to wait for a subscription in progress.
\<close>

definition genaNotifyReceived ::
  "mem \<Rightarrow> wr_ev list \<Rightarrow> (ptr \<Rightarrow> bool) \<Rightarrow> http_message \<Rightarrow> client \<Rightarrow> client \<Rightarrow> (string \<times> received_event option) option" where
  "genaNotifyReceived M w xml m c later = do {
     sid \<leftarrow> find_header M m ''SID'';
     (case sid of
        None \<Rightarrow> Some (snd (respond w BAD_CALLBACK), None)
      | Some sid \<Rightarrow> do {
          seq \<leftarrow> find_header M m ''SEQ'';
          (case (case seq of None \<Rightarrow> None | Some t \<Rightarrow> sscanf_int (tok_bytes M t)) of
             None \<Rightarrow> Some (snd (respond w BAD_REQUEST), None)
           | Some key \<Rightarrow> do {
               nt \<leftarrow> find_header M m ''NT'';
               nts \<leftarrow> (if nt = None then Some None else find_header M m ''NTS'');
               (case (nt, nts) of
                  (Some nt, Some nts) \<Rightarrow> do {
                    bad1 \<leftarrow> (if tsize nt = 10
                      then map_option (\<lambda>d. d \<noteq> 0) (strncmp (tok_bytes M nt) (''upnp:event'' @ [NUL]) (size_t (tsize nt)))
                      else Some False);
                    bad2 \<leftarrow> (if \<not> bad1 \<and> tsize nt = 15
                      then map_option (\<lambda>d. d \<noteq> 0) (strncmp (tok_bytes M nts) (''upnp:propchange'' @ [NUL]) (size_t (tsize nts)))
                      else Some False);
                    if bad1 \<or> bad2 then Some (snd (respond w BAD_CALLBACK), None)
                    else
                      (case (tsize (content m) = 0, buff (content m)) of
                         (False, Some p) \<Rightarrow>
                           if \<not> xml p then Some (snd (respond w BAD_REQUEST), None)
                           else do {
                             r \<leftarrow> event_subscription M sid c;
                             r \<leftarrow> (case r of
                                 Some (info, None) \<Rightarrow> if key = 0 then event_subscription M sid later else Some r
                               | _ \<Rightarrow> Some r);
                             (case r of
                                Some (info, Some sub) \<Rightarrow> Some (snd (respond w HTTP_OK_CRLF),
                                  Some \<lparr>rx_sid = csid sub, rx_key = key, rx_content = p,
                                        rx_callback = Callback info, rx_cookie = Cookie info\<rparr>)
                              | _ \<Rightarrow> Some (snd (respond w BAD_CALLBACK), None)) }
                       | _ \<Rightarrow> Some (snd (respond w BAD_REQUEST), None)) }
                | _ \<Rightarrow> Some (snd (respond w BAD_REQUEST), None)) }) }) }"

section \<open>Facts about the parts\<close>

lemma timeout_text_fits:
  "timeout_text (Some n) = (if n < 0 then Some ''infinite'' else if n < 10 ^ 9 then Some (dec_int n) else None)"
proof (cases "n < 0")
  case False
  have "length (dec_nat (nat n)) \<le> 9" if "n < 10 ^ 9"
    using length_dec_nat [of 9 "nat n"] that False by (simp add: nat_less_iff)
  moreover have "9 < length (dec_nat (nat n))" if "\<not> n < 10 ^ 9"
    using dec_nat_long [of 9 "nat n"] that by (simp add: le_nat_iff)
  ultimately show ?thesis using False by (fastforce simp: timeout_text_def dec_int_def MAX_SECONDS_def Let_def)
qed (simp add: timeout_text_def MAX_SECONDS_def)

lemma ScheduleGenaAutoRenew_success:
  assumes "ScheduleGenaAutoRenew A t h n sid url c = (GENA_SUCCESS, ev, c')"
  shows "chandles c' = chandles c \<and>
    (if n = - 1 then ev = None \<and> c' = c
     else \<exists>x. ev = Some (eventId x) \<and> x \<in> set (eventQ (ctimer c')) \<and> etime x = t + n - AUTO_RENEW_TIME \<and>
       callback x = auto_renew_callback \<and>
       renewals c' (argument x) = Some \<lparr>re_handle = h, re_sid = sid, re_url = take (NAME_SIZE - 1) url, re_timeout = n\<rparr>)"
proof (cases "n = - 1")
  case False
  let ?x = "\<lparr>etime = t + (n - AUTO_RENEW_TIME), callback = auto_renew_callback, argument = next_renewal c,
    eventId = currentEventId (ctimer c)\<rparr>"
  have ok: "A 0" "A 1" "A 2" "\<not> shutdown (ctimer c)"
    using assms False
    by (auto simp: ScheduleGenaAutoRenew_def ScheduleTimerEvent_def split: if_split_asm option.split_asm)
  show ?thesis
    using assms False ok
    by (auto simp: ScheduleGenaAutoRenew_def ScheduleTimerEvent_def Let_def intro!: exI [of _ ?x])
qed (use assms in \<open>auto simp: ScheduleGenaAutoRenew_def\<close>)

lemma client_info_put_subs: "client_info T h = Some info \<Longrightarrow> nat h < length T \<Longrightarrow>
    client_info (put_subs T h cs) h = Some (info\<lparr>ClientSubList := cs\<rparr>)"
  by (auto simp: client_info_def GetHandleInfo_def put_subs_def split: if_split_asm)

section \<open>Properties\<close>

text \<open>
  Asking for a duration of a billion seconds or more overflows the 10 bytes for its digits, as
  soon as the handle is valid; every smaller duration fits.
\<close>

theorem genaSubscribe_duration_overflow:
  assumes "client_info (chandles c) h \<noteq> None" "10 ^ 9 \<le> n"
  shows "genaSubscribe e h url (Some n) c = None"
  using assms by (simp add: genaSubscribe_def subscribe_begin_def timeout_text_fits)

lemma response_duration_success: "response_duration M m T rc = Some (0, T') \<Longrightarrow> rc = 0 \<and> (\<exists>n. T' = Some n)"
  unfolding response_duration_def
  by (auto split: Option.bind_split_asm option.split_asm if_split_asm simp: eq_commute [of "Some _" "sscanf_second _"])

lemma subscribe_end_success:
  assumes "subscribe_end e h url TimeOut (rc, response) c = Some (GENA_SUCCESS, Some sid, dur, c')"
  obtains info asid n ev c1 where "client_info (chandles c) h = Some info" "sid = new_sid e" "dur = Some n"
    "ScheduleGenaAutoRenew (\<lambda>k. calloc e (4 + k)) (cnow e) h n (new_sid e) url c = (GENA_SUCCESS, ev, c1)"
    "c' = c1\<lparr>chandles := put_subs (chandles c1) h
       (\<lparr>csid = new_sid e, ActualSID = asid, EventURL = url,
         RenewEventId = (case ev of None \<Rightarrow> - 1 | Some i \<Rightarrow> i)\<rparr> # ClientSubList info)\<rparr>"
proof -
  obtain r where r: "response = Some r" "rc = HTTP_SUCCESS"
    using assms by (auto simp: subscribe_end_def split: option.split_asm if_split_asm)
  obtain info where info: "client_info (chandles c) h = Some info"
    using assms r by (auto simp: subscribe_end_def split: option.split_asm)
  obtain m where m: "client_parse e r = Some (HTTP_SUCCESS, m)"
    using assms r info by (auto simp: subscribe_end_def Let_def split: Option.bind_split_asm if_split_asm)
  have ok: "status_is_200 (response_store e r) m = Some True"
    using assms r info m by (auto simp: subscribe_end_def Let_def split: Option.bind_split_asm if_split_asm)
  obtain rc1 actual where a: "response_sid (calloc e) (response_store e r) m = Some (rc1, actual)"
    using assms r info m ok by (auto simp: subscribe_end_def Let_def split: Option.bind_split_asm)
  obtain rc2 T where d: "response_duration (response_store e r) m TimeOut rc1 = Some (rc2, T)"
    using assms r info m ok a by (auto simp: subscribe_end_def Let_def split: Option.bind_split_asm)
  have act: "actual \<noteq> None"
    using assms r info m ok a d
    by (auto simp: subscribe_end_def Let_def split: option.split_asm if_split_asm bool.split_asm prod.split_asm)
  have rc: "calloc e 2" "rc2 = GENA_SUCCESS"
    using assms r info m ok a d act
    by (auto simp: subscribe_end_def Let_def split: option.split_asm if_split_asm bool.split_asm prod.split_asm)
  obtain n where n: "T = Some n" using response_duration_success d rc by blast
  obtain rc3 ev c1 where s: "ScheduleGenaAutoRenew (\<lambda>k. calloc e (4 + k)) (cnow e) h n (new_sid e) url c = (rc3, ev, c1)"
    by (metis prod_cases3)
  obtain asid where asid: "actual = Some asid" using act by auto
  have "calloc e 3" "rc3 = GENA_SUCCESS"
    using assms r info m ok a d rc n s asid by (auto simp: subscribe_end_def Let_def split: if_split_asm)
  then show thesis
    using that [OF info _ _ _, of n ev c1 asid] assms r info m ok a d rc n s asid
    by (auto simp: subscribe_end_def Let_def)
qed

text \<open>
  A successful response to SUBSCRIBE, whatever happened to the state during the transfer, puts one
  record at the head of the client's list, with the generated identifier, the SID of the device and
  the event URL; when its duration is not infinite, a timer event is queued \<open>AUTO_RENEW_TIME\<close>
  before it ends, whose record names that subscription and whose identifier the subscription keeps
  for cancelling it.
\<close>

theorem genaSubscribe_adds:
  assumes "subscribe_end e h url TimeOut result c = Some (GENA_SUCCESS, Some sid, dur, c')"
  shows "\<exists>info asid i n. client_info (chandles c) h = Some info \<and> sid = new_sid e \<and> dur = Some n \<and>
    chandles c' = put_subs (chandles c) h
      (\<lparr>csid = sid, ActualSID = asid, EventURL = url, RenewEventId = i\<rparr> # ClientSubList info) \<and>
    (if n = - 1 then i = - 1 \<and> ctimer c' = ctimer c
     else \<exists>x. i = eventId x \<and> x \<in> set (eventQ (ctimer c')) \<and> etime x = cnow e + n - AUTO_RENEW_TIME \<and>
       callback x = auto_renew_callback \<and>
       renewals c' (argument x) = Some \<lparr>re_handle = h, re_sid = sid,
         re_url = take (NAME_SIZE - 1) url, re_timeout = n\<rparr>)"
proof -
  obtain rc response where s: "subscribe_end e h url TimeOut (rc, response) c = Some (GENA_SUCCESS, Some sid, dur, c')"
    using assms by (cases result) auto
  obtain info asid n ev c1 where e: "client_info (chandles c) h = Some info" "sid = new_sid e" "dur = Some n"
    "ScheduleGenaAutoRenew (\<lambda>k. calloc e (4 + k)) (cnow e) h n (new_sid e) url c = (GENA_SUCCESS, ev, c1)"
    "c' = c1\<lparr>chandles := put_subs (chandles c1) h
       (\<lparr>csid = new_sid e, ActualSID = asid, EventURL = url,
         RenewEventId = (case ev of None \<Rightarrow> - 1 | Some i \<Rightarrow> i)\<rparr> # ClientSubList info)\<rparr>"
    using subscribe_end_success [OF s] .
  show ?thesis
    using e ScheduleGenaAutoRenew_success [OF e(4)]
    by (intro exI [of _ info] exI [of _ asid] exI [of _ "case ev of None \<Rightarrow> - 1 | Some i \<Rightarrow> i"] exI [of _ n])
      (auto split: if_split_asm)
qed

section \<open>Example\<close>

definition renewal_response :: string where
  "renewal_response = ''V 200 K'' @ CRLF @ ''SID:d'' @ CRLF @ ''TIMEOUT:Second-9'' @ CRLF @ CRLF"

definition client_env :: cenv where
  "client_env = \<lparr>
     cuenv = \<lparr>gethostbyname = (\<lambda>_. Some \<lparr>h_addrtype = 2, h_length = 4, h_addr = 7\<rparr>), malloc_ok = (\<lambda>_. True)\<rparr>,
     cnet = \<lparr>socket_ok = True, connect_ok = (\<lambda>_. True), takes = [Takes 0 9999], sends = [Seg 1 renewal_response],
       message_ok = (\<lambda>_. True), buffer_ok = (\<lambda>_. True), out_ok = True\<rparr>,
     calloc = (\<lambda>_. True), cnow = 1000, cuuid = ''77'', LOCAL_HOST = ''10.0.0.2'', LOCAL_PORT = 8080,
     cblock = 5, curi = some_uri, cmsg = blank_message\<rparr>"

definition client_record :: Handle_Info where
  "client_record = lamp_info\<lparr>HType := HND_CLIENT, Callback := 4, ClientSubList :=
     [\<lparr>csid = ''uuid:1'', ActualSID = ''uuid:old'', EventURL = ''http://h/e'', RenewEventId = 0\<rparr>]\<rparr>"

definition control_point :: client where
  "control_point = \<lparr>chandles = InitHandleList[1 := Some client_record],
     ctimer = \<lparr>newEvent = False, shutdown = False, currentEventId = 1,
       eventQ = [\<lparr>etime = 2000, callback = 1, argument = 0, eventId = 0\<rparr>]\<rparr>,
     renewals = [0 \<mapsto> \<lparr>re_handle = 1, re_sid = ''uuid:1'', re_url = ''http://h/e'', re_timeout = 300\<rparr>],
     next_renewal = 1\<rparr>"

definition renewal_mem :: mem where
  "renewal_mem b = (if b = 5 then renewal_response @ [NUL] else [])"

lemma renewal_parsed:
  obtains m where "client_parse client_env renewal_response = Some (HTTP_SUCCESS, m)"
    "status_is_200 (response_store client_env renewal_response) m = Some True"
    "response_sid (\<lambda>_. True) (response_store client_env renewal_response) m = Some (GENA_SUCCESS, Some ''d'')"
    "response_duration (response_store client_env renewal_response) m (Some 300) GENA_SUCCESS =
       Some (GENA_SUCCESS, Some 9)"
proof -
  have s: "response_store client_env renewal_response = renewal_mem" "cblock client_env = 5"
    "calloc client_env = (\<lambda>_. True)" "cmsg client_env = blank_message"
    by (rule ext) (simp_all add: response_store_def renewal_mem_def client_env_def)
  have "map_option (\<lambda>(rc, m). (rc, status_is_200 renewal_mem m, response_sid (\<lambda>_. True) renewal_mem m,
      response_duration renewal_mem m (Some 300) GENA_SUCCESS))
      (do { len \<leftarrow> strlen (renewal_response @ [NUL]);
        parse_http_response (\<lambda>_. True) renewal_mem (5, 0) blank_message len }) =
    Some (HTTP_SUCCESS, Some True, Some (GENA_SUCCESS, Some ''d''), Some (GENA_SUCCESS, Some 9))"
    by code_simp
  then show thesis using that by (auto simp: client_parse_def s)
qed

lemma client_info_control_point: "client_info (chandles control_point) 1 = Some client_record"
  by code_simp

lemma subscribe_run:
  obtains c' where "subscribe_end client_env 1 ''http://h/e'' (Some 300) (HTTP_SUCCESS, Some renewal_response) control_point =
    Some (GENA_SUCCESS, Some ''uuid:77'', Some 9, c')"
proof -
  have e: "calloc client_env = (\<lambda>_. True)" "cnow client_env = 1000" "new_sid client_env = ''uuid:77''"
    by (simp_all add: client_env_def new_sid_def)
  have t: "shutdown (ctimer control_point) = False" by (simp add: control_point_def)
  show thesis
    by (rule renewal_parsed, rule that)
      (simp add: subscribe_end_def client_info_control_point e t ScheduleGenaAutoRenew_def ScheduleTimerEvent_def Let_def)
qed

theorem genaSubscribe_adds_witness:
  "\<exists>dur c'. subscribe_end client_env 1 ''http://h/e'' (Some 300) (HTTP_SUCCESS, Some renewal_response) control_point =
    Some (GENA_SUCCESS, Some ''uuid:77'', dur, c') \<and> chandles c' \<noteq> chandles control_point"
proof -
  obtain dur c' where s: "subscribe_end client_env 1 ''http://h/e'' (Some 300) (HTTP_SUCCESS, Some renewal_response) control_point =
      Some (GENA_SUCCESS, Some ''uuid:77'', dur, c')"
    using subscribe_run by blast
  obtain info asid i where i: "client_info (chandles control_point) 1 = Some info"
    "chandles c' = put_subs (chandles control_point) 1
      (\<lparr>csid = ''uuid:77'', ActualSID = asid, EventURL = ''http://h/e'', RenewEventId = i\<rparr> # ClientSubList info)"
    using genaSubscribe_adds [OF s] by blast
  have "client_info (chandles c') 1 = Some (client_record\<lparr>ClientSubList :=
      \<lparr>csid = ''uuid:77'', ActualSID = asid, EventURL = ''http://h/e'', RenewEventId = i\<rparr> # ClientSubList client_record\<rparr>)"
    using i client_info_control_point
    by (simp add: client_info_put_subs control_point_def InitHandleList_def NUM_HANDLE_def)
  then have "client_info (chandles c') 1 \<noteq> client_info (chandles control_point) 1"
    using client_info_control_point by (simp add: client_record_def lamp_info_def plain_info_def)
  then show ?thesis using s by auto
qed

theorem genaSubscribe_duration_overflow_witness:
  "genaSubscribe client_env 1 ''http://h/e'' (Some 1000000000) control_point = None"
  by (rule genaSubscribe_duration_overflow) (simp_all add: client_info_control_point)

section \<open>Losing a subscription\<close>

lemma chandles_cancel [simp]: "chandles (cancel_renewal i c) = chandles c"
  by (simp add: cancel_renewal_def split: prod.splits)

lemma client_info_bound: "client_info T h = Some info \<Longrightarrow> length T = nat NUM_HANDLE \<Longrightarrow> nat h < length T"
  by (auto simp: client_info_def GetHandleInfo_def NUM_HANDLE_def split: if_split_asm)

lemma length_put_subs [simp]: "length (put_subs T h cs) = length T"
  by (simp add: put_subs_def)

lemma client_info_put [simp]: "client_info T h = Some info \<Longrightarrow> length T = nat NUM_HANDLE \<Longrightarrow>
    client_info (put_subs T h cs) h = Some (info\<lparr>ClientSubList := cs\<rparr>)"
  using client_info_put_subs client_info_bound by blast

text \<open>\<open>remove_sub\<close> is \<open>unlink_client\<close> on the list.\<close>

lemma remove_sub_info:
  assumes "client_info (chandles c) h = Some info" "length (chandles c) = nat NUM_HANDLE"
  shows "client_info (chandles (remove_sub h sid c)) h = Some (info\<lparr>ClientSubList := unlink_client sid (ClientSubList info)\<rparr>)"
  using assms client_subs.unlink_None [where k = sid and xs = "ClientSubList info"]
  by (auto simp: remove_sub_def remove_client_fst split: option.splits)

lemma not_found_unlinked:
  "distinct (map csid cs) \<Longrightarrow> GetClientSubClientSID (unlink_client sid cs) sid = None"
  using client_subs.get_unlink_same [where xs = cs and k = sid] by (simp add: client_subs.get_def)

lemma set_sub_info:
  assumes "client_info (chandles c) h = Some info" "length (chandles c) = nat NUM_HANDLE"
  shows "client_info (set_sub (chandles c) h i s) h = Some (info\<lparr>ClientSubList := (ClientSubList info)[i := s]\<rparr>)"
  using assms by (simp add: set_sub_def)

lemma map_csid_update: "GetClientSubClientSID cs sid = Some i \<Longrightarrow> csid s = sid \<Longrightarrow> map csid (cs[i := s]) = map csid cs"
  using client_subs.lookup_Some [where k = sid and xs = cs and i = i]
  by (simp add: map_update list_update_same_conv)

lemma Schedule_keeps_handles: "ScheduleGenaAutoRenew A t h n sid url c = (rc, ev, c') \<Longrightarrow> chandles c' = chandles c"
  by (auto simp: ScheduleGenaAutoRenew_def split: prod.splits if_split_asm option.split_asm)

text \<open>The subscription is not in the list of the client any more.\<close>

definition lost :: "client \<Rightarrow> int \<Rightarrow> string \<Rightarrow> bool" where
  "lost c h sid = (case client_info (chandles c) h of None \<Rightarrow> False
     | Some info \<Rightarrow> GetClientSubClientSID (ClientSubList info) sid = None)"

lemma lost_remove:
  assumes "client_info (chandles c) h = Some info" "length (chandles c) = nat NUM_HANDLE" "distinct (map csid (ClientSubList info))"
  shows "lost (remove_sub h sid c) h sid"
  using remove_sub_info [OF assms(1,2), of sid] not_found_unlinked [OF assms(3)] by (simp add: lost_def)

lemma renew_install_failure:
  assumes "renew_install e h k sub reply c = (rc, T, c')" "rc \<noteq> GENA_SUCCESS"
  obtains s c1 where "csid s = csid sub" "chandles c1 = set_sub (chandles c) h k s" "c' = remove_sub h (csid sub) c1"
proof -
  obtain rc1 asid TimeOut where a: "reply = (rc1, asid, TimeOut)" by (cases reply)
  define s where "s = (case asid of None \<Rightarrow> sub | Some a \<Rightarrow> sub\<lparr>ActualSID := a\<rparr>)"
  have sid: "csid s = csid sub" by (auto simp: s_def split: option.split)
  have "\<exists>c1. chandles c1 = set_sub (chandles c) h k s \<and> c' = remove_sub h (csid sub) c1"
    using assms unfolding renew_install_def a prod.case Let_def s_def [symmetric]
    by (auto simp: sid dest!: Schedule_keeps_handles split: option.split_asm if_split_asm prod.split_asm bool.split_asm
        intro: exI [of _ "c\<lparr>chandles := set_sub (chandles c) h k s\<rparr>"])
  then show thesis using that sid by blast
qed

text \<open>
  A renewal that fails, for whatever reason after the request was sent (the transfer, the response,
  an allocation, the timer), leaves the client without the subscription.
\<close>

theorem failed_renewal_unsubscribes:
  assumes r: "renew_end e h in_sid TimeOut result c = Some (rc, T, c')" "rc \<noteq> GENA_SUCCESS"
    and i: "client_info (chandles c) h = Some info" "length (chandles c) = nat NUM_HANDLE" "distinct (map csid (ClientSubList info))"
  shows "lost c' h in_sid"
proof (cases "snd result = None \<or> fst result \<noteq> HTTP_SUCCESS")
  case True
  then have "c' = remove_sub h in_sid c"
    using r(1) i(1) by (cases result) (auto simp: renew_end_def split: option.split_asm)
  then show ?thesis using lost_remove [OF i] by simp
next
  case False
  then obtain response where res: "result = (HTTP_SUCCESS, Some response)" by (cases result) auto
  show ?thesis
  proof (cases "GetClientSubClientSID (ClientSubList info) in_sid")
    case None
    then have "c' = c" using r(1) i(1) res by (auto simp: renew_end_def)
    then show ?thesis using None i(1) by (simp add: lost_def)
  next
    case (Some k)
    have k: "csid (ClientSubList info ! k) = in_sid"
      using client_subs.lookup_Some [where k = in_sid and xs = "ClientSubList info" and i = k] Some by blast
    obtain reply where "renew_install e h k (ClientSubList info ! k) reply c = (rc, T, c')"
      using r(1) i(1) res Some by (auto simp: renew_end_def split: Option.bind_split_asm)
    then obtain s c1 where s: "csid s = in_sid" "chandles c1 = set_sub (chandles c) h k s" "c' = remove_sub h in_sid c1"
      using renew_install_failure [OF _ r(2)] k by metis
    let ?info = "info\<lparr>ClientSubList := (ClientSubList info)[k := s]\<rparr>"
    have "client_info (chandles c1) h = Some ?info" using set_sub_info [OF i(1,2)] s(2) by simp
    moreover have "length (chandles c1) = nat NUM_HANDLE" using i(1,2) s(2) by (simp add: set_sub_def)
    moreover have "distinct (map csid (ClientSubList ?info))" using map_csid_update [OF Some s(1)] i(3) by simp
    ultimately show ?thesis using lost_remove s(3) by blast
  qed
qed

lemma control_point_facts: "length (chandles control_point) = nat NUM_HANDLE"
  "distinct (map csid (ClientSubList client_record))"
  by (simp_all add: control_point_def InitHandleList_def NUM_HANDLE_def client_record_def)

theorem failed_renewal_unsubscribes_witness:
  "lost (remove_sub 1 ''uuid:1'' control_point) 1 ''uuid:1'' \<and> \<not> lost control_point 1 ''uuid:1''"
proof
  have "renew_end client_env 1 ''uuid:1'' None (- 206, None) control_point =
      Some (- 206, None, remove_sub 1 ''uuid:1'' control_point)"
    by (simp add: renew_end_def client_info_control_point)
  from failed_renewal_unsubscribes [OF this _ client_info_control_point control_point_facts]
  show "lost (remove_sub 1 ''uuid:1'' control_point) 1 ''uuid:1''" by simp
  show "\<not> lost control_point 1 ''uuid:1''"
    using client_info_control_point by (simp add: lost_def client_record_def)
qed

lemma unsubscribe_request_fits [simp]: "unsubscribe_request asid = Some (''SID: '' @ asid @ CRLF @ CRLF)"
  by (simp add: unsubscribe_request_def block_of_def CRLF_def)

lemma unsubscribe_local_eq:
  assumes "genaUnSubscribe e h in_sid c = Some (rc, c')"
    and i: "client_info (chandles c) h = Some info" "length (chandles c) = nat NUM_HANDLE" "distinct (map csid (ClientSubList info))"
  shows "lost c' h in_sid \<and> (c' = c \<and> rc = UPNP_E_INVALID_SID \<or> c' = remove_sub h in_sid c)"
proof (cases "GetClientSubClientSID (ClientSubList info) in_sid")
  case None
  then show ?thesis using assms by (simp add: genaUnSubscribe_def unsubscribe_begin_def lost_def)
next
  case (Some k)
  then have "c' = remove_sub h in_sid c"
    using assms(1) i(1)
    by (auto simp: genaUnSubscribe_def unsubscribe_begin_def Let_def split: Option.bind_split_asm option.split_asm if_split_asm)
  then show ?thesis using lost_remove [OF i] by simp
qed

text \<open>
  \<open>genaUnSubscribe\<close> removes the subscription from the client whatever the device answers and
  whatever allocation fails; every other subscription is still found, with its record unchanged.
\<close>

theorem genaUnSubscribe_removes:
  assumes "genaUnSubscribe e h in_sid c = Some (rc, c')"
    and "client_info (chandles c) h = Some info" "length (chandles c) = nat NUM_HANDLE"
    and "distinct (map csid (ClientSubList info))"
  shows "\<exists>cs. client_info (chandles c') h = Some (info\<lparr>ClientSubList := cs\<rparr>) \<and>
    GetClientSubClientSID cs in_sid = None \<and>
    (\<forall>k. k \<noteq> in_sid \<longrightarrow> map_option ((!) cs) (GetClientSubClientSID cs k) =
      map_option ((!) (ClientSubList info)) (GetClientSubClientSID (ClientSubList info) k))"
proof -
  note u = unsubscribe_local_eq [OF assms]
  show ?thesis
  proof (cases "c' = c")
    case True
    then show ?thesis using u assms(2) by (intro exI [of _ "ClientSubList info"]) (auto simp: lost_def)
  next
    case False
    then have "client_info (chandles c') h = Some (info\<lparr>ClientSubList := unlink_client in_sid (ClientSubList info)\<rparr>)"
      using u remove_sub_info [OF assms(2,3)] by auto
    then show ?thesis
      using not_found_unlinked [OF assms(4)] client_subs.get_unlink_other [where k = in_sid and xs = "ClientSubList info"]
      by (intro exI [of _ "unlink_client in_sid (ClientSubList info)"]) (auto simp: client_subs.get_def)
  qed
qed

lemma unsubscribe_run: "calloc e 0 = False \<Longrightarrow>
    genaUnSubscribe e 1 ''uuid:1'' control_point = Some (UPNP_E_OUTOF_MEMORY, remove_sub 1 ''uuid:1'' control_point)"
  by (simp add: genaUnSubscribe_def unsubscribe_begin_def client_info_control_point client_record_def
      copy_client_subscription_def Let_def)

theorem genaUnSubscribe_removes_witness:
  "\<exists>cs. client_info (chandles (remove_sub 1 ''uuid:1'' control_point)) 1 = Some (client_record\<lparr>ClientSubList := cs\<rparr>) \<and>
     GetClientSubClientSID cs ''uuid:1'' = None"
  using genaUnSubscribe_removes [OF unsubscribe_run client_info_control_point control_point_facts, of "client_env\<lparr>calloc := \<lambda>_. False\<rparr>"]
  by auto

section \<open>Unregistering\<close>

text \<open>The transfer for a subscription does not fault in any round.\<close>

definition transfers_return :: "(nat \<Rightarrow> cenv) \<Rightarrow> client_subscription \<Rightarrow> bool" where
  "transfers_return E s = (\<forall>k.
     client_transfer (E k) ''UNSUBSCRIBE'' (''SID: '' @ ActualSID s @ CRLF @ CRLF) (EventURL s) \<noteq> None)"

lemma remove_head:
  assumes "client_info (chandles c) h = Some info" "length (chandles c) = nat NUM_HANDLE" "ClientSubList info = s # ss"
  shows "client_info (chandles (remove_sub h (csid s) c)) h = Some (info\<lparr>ClientSubList := ss\<rparr>)"
proof -
  have "unlink_client (csid s) (s # ss) = ss" by (simp add: unlink_client_def)
  then show ?thesis using remove_sub_info [OF assms(1,2), of "csid s"] assms(3) by simp
qed

lemma length_remove_sub [simp]: "length (chandles (remove_sub h sid c)) = length (chandles c)"
  by (simp add: remove_sub_def split: option.split)

lemma unregister_clears:
  assumes "\<forall>k. calloc (E k) = (\<lambda>_. True)"
  shows "client_info (chandles c) h = Some info \<Longrightarrow> length (chandles c) = nat NUM_HANDLE \<Longrightarrow>
    ClientSubList info = cs \<Longrightarrow> \<forall>s\<in>set cs. length (csid s) \<le> SID_SIZE \<and> transfers_return E s \<Longrightarrow>
    \<exists>c'. unregister_loop E h (Suc (length cs)) k c = Some (UPNP_E_SUCCESS, c') \<and>
      client_info (chandles c') h = Some (info\<lparr>ClientSubList := []\<rparr>)"
proof (induction cs arbitrary: c k info)
  case (Cons s ss)
  let ?c = "remove_sub h (csid s) c"
  have i: "client_info (chandles ?c) h = Some (info\<lparr>ClientSubList := ss\<rparr>)"
    using remove_head [OF Cons.prems(1-3)] .
  obtain c' where c': "unregister_loop E h (Suc (length ss)) (Suc k) ?c = Some (UPNP_E_SUCCESS, c')"
      "client_info (chandles c') h = Some (info\<lparr>ClientSubList := ss\<rparr>\<lparr>ClientSubList := []\<rparr>)"
    using Cons.IH [OF i, of "Suc k"] Cons.prems by auto
  obtain r where "client_transfer (E k) ''UNSUBSCRIBE'' (''SID: '' @ ActualSID s @ CRLF @ CRLF) (EventURL s) = Some r"
    using Cons.prems(4) transfers_return_def [of E s] by (metis list.set_intros(1) not_None_eq)
  then show ?case
    using c' Cons.prems assms by (auto simp: copy_client_subscription_def Let_def split: prod.split)
qed auto

text \<open>
  C29. \<open>genaUnregisterClient\<close> ends after one round per subscription and leaves none, when no memory runs
  out and every identifier fits the copy's \<^verbatim>\<open>SID_SIZE\<close> bytes, whatever the devices answer.
\<close>

theorem genaUnregisterClient_clears:
  assumes "\<forall>k. calloc (E k) = (\<lambda>_. True)"
    and "client_info (chandles c) h = Some info" "length (chandles c) = nat NUM_HANDLE"
    and "\<forall>s\<in>set (ClientSubList info). length (csid s) \<le> SID_SIZE \<and> transfers_return E s"
  shows "\<exists>c'. genaUnregisterClient (Suc (length (ClientSubList info))) E h c = Some (UPNP_E_SUCCESS, c') \<and>
      client_info (chandles c') h = Some (info\<lparr>ClientSubList := []\<rparr>)"
  unfolding genaUnregisterClient_def by (rule unregister_clears [OF assms(1-3) refl assms(4)])

definition unreachable :: net where
  "unreachable = \<lparr>socket_ok = False, connect_ok = (\<lambda>_. True), takes = [], sends = [],
     message_ok = (\<lambda>_. True), buffer_ok = (\<lambda>_. True), out_ok = True\<rparr>"

definition event_url_mem :: mem where
  "event_url_mem b = (if b = 0 then ''http://h/e'' @ [NUL] else [])"

lemma unreachable_transfer:
  "map_option fst (transferHTTP event_url_mem
     \<lparr>gethostbyname = (\<lambda>_. Some \<lparr>h_addrtype = 2, h_length = 4, h_addr = 7\<rparr>), malloc_ok = (\<lambda>_. True)\<rparr>
     some_uri unreachable ''UNSUBSCRIBE'' (''SID: uuid:old'' @ CRLF @ CRLF) 17 (0, 0)) = Some UPNP_E_OUTOF_SOCKET"
  by code_simp

lemma event_url_store: "url_store ''http://h/e'' = event_url_mem"
  by (rule ext) (simp add: url_store_def event_url_mem_def)

theorem genaUnregisterClient_clears_witness:
  "\<exists>c'. genaUnregisterClient 2 (\<lambda>_. client_env\<lparr>cnet := unreachable\<rparr>) 1 control_point = Some (UPNP_E_SUCCESS, c') \<and>
     client_info (chandles c') 1 = Some (client_record\<lparr>ClientSubList := []\<rparr>)"
proof -
  have t: "\<forall>s\<in>set (ClientSubList client_record). length (csid s) \<le> SID_SIZE \<and>
      transfers_return (\<lambda>_. client_env\<lparr>cnet := unreachable\<rparr>) s"
    using unreachable_transfer
    by (auto simp: client_record_def SID_SIZE_def transfers_return_def client_transfer_def event_url_store client_env_def
        CRLF_def)
  show ?thesis
    using genaUnregisterClient_clears [OF _ client_info_control_point control_point_facts(1) t]
    by (simp add: client_env_def client_record_def numeral_2_eq_2)
qed

section \<open>Received events\<close>

text \<open>
  The check of NT and NTS looks at them only when NT is 10 or 15 bytes long: with any other NT
  header an event for a known subscription is delivered, whatever NT and NTS say.
\<close>

theorem genaNotifyReceived_unchecked_NT:
  assumes "find_header M m ''SID'' = Some (Some sid)" "find_header M m ''SEQ'' = Some (Some seq)"
    and "sscanf_int (tok_bytes M seq) = Some key"
    and "find_header M m ''NT'' = Some (Some nt)" "tsize nt \<notin> {10, 15}" "find_header M m ''NTS'' = Some (Some nts)"
    and "tsize (content m) \<noteq> 0" "buff (content m) = Some p" "xml p"
    and "event_subscription M sid c = Some (Some (info, Some sub))"
  shows "genaNotifyReceived M w xml m c later = Some (snd (respond w HTTP_OK_CRLF),
    Some \<lparr>rx_sid = csid sub, rx_key = key, rx_content = p, rx_callback = Callback info, rx_cookie = Cookie info\<rparr>)"
  using assms by (simp add: genaNotifyReceived_def)

definition odd_mem :: mem where
  "odd_mem b = (if b = 0 then ''SIDuuid:oldSEQ3'' @ [CR] @ ''NTxNTSy<a/>'' @ [NUL] else [])"

definition odd_event :: http_message where
  "odd_event = subscribe_message\<lparr>header_list := [
     \<lparr>hd_name = request_token 0 3, hd_value = request_token 3 8\<rparr>,
     \<lparr>hd_name = request_token 11 3, hd_value = request_token 14 1\<rparr>,
     \<lparr>hd_name = request_token 16 2, hd_value = request_token 18 1\<rparr>,
     \<lparr>hd_name = request_token 19 3, hd_value = request_token 22 1\<rparr>],
     content := request_token 23 4\<rparr>"

lemma odd_event_headers:
  "find_header odd_mem odd_event ''SID'' = Some (Some (request_token 3 8))"
  "find_header odd_mem odd_event ''SEQ'' = Some (Some (request_token 14 1))"
  "sscanf_int (tok_bytes odd_mem (request_token 14 1)) = Some 3"
  "find_header odd_mem odd_event ''NT'' = Some (Some (request_token 18 1))"
  "find_header odd_mem odd_event ''NTS'' = Some (Some (request_token 22 1))"
  by code_simp+

lemma odd_event_subscription:
  "event_subscription odd_mem (request_token 3 8) control_point =
     Some (Some (client_record, Some (ClientSubList client_record ! 0)))"
proof -
  have h: "GetClientHandleInfo (chandles control_point) = (True, 1)" by code_simp
  have "GetClientSubActualSID odd_mem
      [\<lparr>csid = ''uuid:1'', ActualSID = ''uuid:old'', EventURL = ''http://h/e'', RenewEventId = 0\<rparr>] (request_token 3 8) = Some (Some 0)"
    by code_simp
  then show ?thesis
    using client_info_control_point by (simp add: event_subscription_def h client_record_def)
qed

theorem genaNotifyReceived_unchecked_NT_witness:
  "map_option (map_option rx_sid \<circ> snd) (genaNotifyReceived odd_mem [Takes 0 99] (\<lambda>_. True) odd_event control_point control_point) =
    Some (Some ''uuid:1'')"
  by (subst genaNotifyReceived_unchecked_NT [OF odd_event_headers(1-4) _ odd_event_headers(5) _ _ _ odd_event_subscription,
        where p = "(0, 23)"])
    (simp_all add: request_token_def odd_event_def client_record_def)

end
