(* ===== verification/Gena_Callback.thy ===== *)
theory Gena_Callback imports Gena_Client begin

text \<open>
  The entry point of the event subsystem (\<^verbatim>\<open>gena/gena_callback.c\<close>): the mini server hands over a
  request as a C string and a socket; the request is parsed and given to the handler of its method.
\<close>

section \<open>Definitions\<close>

definition NOT_IMPLEMENTED :: string where
  "NOT_IMPLEMENTED = ''HTTP/1.1 501 Not Implemented'' @ CRLF @ CRLF"

definition method_is :: "mem \<Rightarrow> http_message \<Rightarrow> string \<Rightarrow> bool option" where
  "method_is M m name =
     map_option (\<lambda>d. d = 0) (strncasecmp (tok_bytes M (rq_method (request m))) (name @ [NUL])
       (size_t (tsize (rq_method (request m)))))"

text \<open>
  What the callback does: the bytes for the peer, the event for the application, how often the
  socket is closed, and the state.
\<close>

datatype callback_event = Subscription_Event subscription_event | Received_Event received_event | No_Event

record callback_result =
  cb_sent :: string
  cb_event :: callback_event
  cb_closes :: nat
  cb_state :: gena

definition callback_result_of :: "string \<times> callback_event \<times> gena \<Rightarrow> callback_result" where
  "callback_result_of r = (case r of (s, ev, g) \<Rightarrow> \<lparr>cb_sent = s, cb_event = ev, cb_closes = 1, cb_state = g\<rparr>)"

text \<open>
  The timer and the renewals of a control point (\<open>c\<close>) are not touched here; its handle table is the
  one of the state.  \<open>later\<close> is the control point after a subscription in progress.
\<close>

definition genaCallback ::
  "genv \<Rightarrow> (ptr \<Rightarrow> bool) \<Rightarrow> http_message \<Rightarrow> client \<Rightarrow> client \<Rightarrow> ptr \<Rightarrow> gena \<Rightarrow> callback_result option" where
  "genaCallback e xml m0 c later document g = do {
     len \<leftarrow> strlen (bytes_at (gmem g) document);
     (rc, m) \<leftarrow> parse_http_request (\<lambda>n. alloc e (100 + n)) (gmem g) (uenv e) document m0 len;
     if rc \<noteq> HTTP_SUCCESS
     then Some \<lparr>cb_sent = snd (respond (sock e) BAD_REQUEST), cb_event = No_Event, cb_closes = 2, cb_state = g\<rparr>
     else do {
       sub \<leftarrow> method_is (gmem g) m ''SUBSCRIBE'';
       unsub \<leftarrow> (if sub then Some False else method_is (gmem g) m ''UNSUBSCRIBE'');
       notify \<leftarrow> (if sub \<or> unsub then Some False else method_is (gmem g) m ''NOTIFY'');
       map_option callback_result_of
         (if sub then map_option (\<lambda>(s, ev, g). (s, case ev of None \<Rightarrow> No_Event | Some x \<Rightarrow> Subscription_Event x, g))
            (genaSubscribeOrRenew e m g)
          else if unsub then map_option (\<lambda>(s, g). (s, No_Event, g)) (genaUnsubscribeRequest e m g)
          else if notify then
            map_option (\<lambda>(s, ev). (s, case ev of None \<Rightarrow> No_Event | Some x \<Rightarrow> Received_Event x, g))
              (genaNotifyReceived (gmem g) (sock e) xml m (c\<lparr>chandles := handles g\<rparr>) later)
          else Some (snd (respond (sock e) NOT_IMPLEMENTED), No_Event, g)) } }"

section \<open>The choice of the handler\<close>

lemma strncasecmp_literal:
  "n \<le> length as \<Longrightarrow> NUL \<notin> set (take n as) \<Longrightarrow> NUL \<notin> set s \<Longrightarrow>
    \<exists>r. strncasecmp as (s @ [NUL]) n = Some r \<and> (r = 0 \<longleftrightarrow> map tolower (take n as) = take n (map tolower s))"
proof (induction s arbitrary: as n)
  case Nil
  then show ?case by (cases n; cases as) (auto simp: tolower_ends)
next
  case (Cons x s)
  then show ?case by (cases n; cases as) (auto simp: tolower_ends)
qed

text \<open>A method that is a prefix of a name up to case.\<close>

definition method_prefix :: "string \<Rightarrow> string \<Rightarrow> bool" where
  "method_prefix t name = (map tolower t = take (length t) (map tolower name))"

lemma method_is_prefix:
  assumes "small_token M (rq_method (request m))" "NUL \<notin> set (tok_text M (rq_method (request m)))" "NUL \<notin> set name"
  shows "method_is M m name = Some (method_prefix (tok_text M (rq_method (request m))) name)"
proof -
  let ?t = "rq_method (request m)"
  have n: "size_t (tsize ?t) = nat (tsize ?t)" "nat (tsize ?t) \<le> length (tok_bytes M ?t)"
    "length (tok_text M ?t) = nat (tsize ?t)" "tok_text M ?t = take (nat (tsize ?t)) (tok_bytes M ?t)"
    using assms(1) by (auto simp: small_token_def tok_ok_def size_t_nonneg tok_text_def)
  then show ?thesis
    using strncasecmp_literal [of "nat (tsize ?t)" "tok_bytes M ?t" name] assms(2,3)
    by (auto simp: method_is_def method_prefix_def)
qed

lemma tolower_letters: "tolower (CHR ''S'') = 115" "tolower (CHR ''U'') = 117" "tolower (CHR ''N'') = 110"
  by (simp_all add: tolower_def Let_def)

lemma method_prefix_Cons: "t \<noteq> [] \<Longrightarrow> method_prefix t (c # name) \<Longrightarrow> tolower (hd t) = tolower c"
  by (cases t) (auto simp: method_prefix_def)

lemma method_prefix_exclusive:
  assumes "t \<noteq> []"
  shows "method_prefix t ''UNSUBSCRIBE'' \<Longrightarrow> \<not> method_prefix t ''SUBSCRIBE''"
    "method_prefix t ''NOTIFY'' \<Longrightarrow> \<not> method_prefix t ''SUBSCRIBE'' \<and> \<not> method_prefix t ''UNSUBSCRIBE''"
  using assms method_prefix_Cons [of t "CHR ''S''" "''UBSCRIBE''"] method_prefix_Cons [of t "CHR ''U''" "''NSUBSCRIBE''"]
    method_prefix_Cons [of t "CHR ''N''" "''OTIFY''"]
  by (auto simp: tolower_letters)

text \<open>
  C30. Every non-empty prefix of a method name, in any case, selects the handler of that name: one letter
  is enough.  A request with another method is answered with 501 and changes nothing.
\<close>

theorem genaCallback_dispatch:
  assumes "strlen (bytes_at (gmem g) document) = Some len"
    and "parse_http_request (\<lambda>n. alloc e (100 + n)) (gmem g) (uenv e) document m0 len = Some (HTTP_SUCCESS, m)"
    and "small_token (gmem g) (rq_method (request m))" "t = tok_text (gmem g) (rq_method (request m))"
    and "NUL \<notin> set t" "t \<noteq> []"
  shows "(method_prefix t ''SUBSCRIBE'' \<longrightarrow> genaCallback e xml m0 c later document g =
      map_option (\<lambda>(s, ev, g). callback_result_of (s, case ev of None \<Rightarrow> No_Event | Some x \<Rightarrow> Subscription_Event x, g))
        (genaSubscribeOrRenew e m g)) \<and>
    (method_prefix t ''UNSUBSCRIBE'' \<longrightarrow> genaCallback e xml m0 c later document g =
      map_option (\<lambda>(s, g). callback_result_of (s, No_Event, g)) (genaUnsubscribeRequest e m g)) \<and>
    (method_prefix t ''NOTIFY'' \<longrightarrow> genaCallback e xml m0 c later document g =
      map_option (\<lambda>(s, ev). callback_result_of (s, case ev of None \<Rightarrow> No_Event | Some x \<Rightarrow> Received_Event x, g))
        (genaNotifyReceived (gmem g) (sock e) xml m (c\<lparr>chandles := handles g\<rparr>) later)) \<and>
    (\<not> method_prefix t ''SUBSCRIBE'' \<longrightarrow> \<not> method_prefix t ''UNSUBSCRIBE'' \<longrightarrow> \<not> method_prefix t ''NOTIFY'' \<longrightarrow>
      genaCallback e xml m0 c later document g =
        Some (callback_result_of (snd (respond (sock e) NOT_IMPLEMENTED), No_Event, g)))"
proof -
  have m: "method_is (gmem g) m name = Some (method_prefix t name)" if "NUL \<notin> set name" for name
    using method_is_prefix [OF assms(3) _ that] assms(4,5) by simp
  note eval = genaCallback_def assms(1,2) m option.map_comp comp_def case_prod_unfold
  show ?thesis
    by (intro conjI impI) (simp_all add: eval method_prefix_exclusive [OF assms(6)])
qed

text \<open>A malformed request is answered with 400 and its socket is closed twice.\<close>

lemma bad_request_closes_twice:
  assumes "strlen (bytes_at (gmem g) document) = Some len" "rc \<noteq> HTTP_SUCCESS"
    and "parse_http_request (\<lambda>n. alloc e (100 + n)) (gmem g) (uenv e) document m0 len = Some (rc, m)"
  shows "map_option cb_closes (genaCallback e xml m0 c later document g) = Some 2"
  using assms by (simp add: genaCallback_def)

section \<open>Witness\<close>

definition one_letter_mem :: mem where
  "one_letter_mem b = ''u /e HTTP/1.0'' @ [CR, LF, CR, LF, NUL]"

definition one_letter_gena :: gena where
  "one_letter_gena = lamp\<lparr>gmem := one_letter_mem\<rparr>"

lemma one_letter_parse:
  "map_option (\<lambda>(rc, m). (rc, rq_method (request m), header_list m))
    (parse_http_request (\<lambda>_. True) one_letter_mem \<lparr>gethostbyname = (\<lambda>_. None), malloc_ok = (\<lambda>_. True)\<rparr> (0, 0) subscribe_message 17) =
   Some (HTTP_SUCCESS, request_token 0 1, [])"
  by code_simp

lemma one_letter_text: "tok_text one_letter_mem (request_token 0 1) = ''u''" "small_token one_letter_mem (request_token 0 1)"
  "strlen (bytes_at one_letter_mem (0, 0)) = Some 17" "method_prefix ''u'' ''UNSUBSCRIBE''"
  by code_simp+

lemma bad_callback_sent: "respond [Takes 0 999] BAD_CALLBACK = (UPNP_E_SUCCESS, BAD_CALLBACK)"
  by code_simp

theorem genaCallback_dispatch_witness:
  "map_option cb_sent (genaCallback (request_env\<lparr>uenv := \<lparr>gethostbyname = (\<lambda>_. None), malloc_ok = (\<lambda>_. True)\<rparr>\<rparr>)
     (\<lambda>_. True) subscribe_message control_point control_point (0, 0) one_letter_gena) = Some BAD_CALLBACK"
proof -
  let ?e = "request_env\<lparr>uenv := \<lparr>gethostbyname = (\<lambda>_. None), malloc_ok = (\<lambda>_. True)\<rparr>\<rparr>"
  have e: "gmem one_letter_gena = one_letter_mem" "alloc ?e = (\<lambda>_. True)"
    "uenv ?e = \<lparr>gethostbyname = (\<lambda>_. None), malloc_ok = (\<lambda>_. True)\<rparr>" "sock ?e = [Takes 0 999]"
    by (simp_all add: one_letter_gena_def request_env_def)
  obtain m where m: "parse_http_request (\<lambda>n. alloc ?e (100 + n)) (gmem one_letter_gena) (uenv ?e) (0, 0) subscribe_message 17 =
      Some (HTTP_SUCCESS, m)" "rq_method (request m) = request_token 0 1" "header_list m = []"
    using one_letter_parse by (auto simp: e)
  have h: "genaUnsubscribeRequest ?e m one_letter_gena = Some (BAD_CALLBACK, one_letter_gena)"
    using m(3) bad_callback_sent
    by (simp add: answer_def genaUnsubscribeRequest_def find_header_def search_for_header_def request_sid_def e)
  have "genaCallback ?e (\<lambda>_. True) subscribe_message control_point control_point (0, 0) one_letter_gena =
      map_option (\<lambda>(s, g). callback_result_of (s, No_Event, g)) (genaUnsubscribeRequest ?e m one_letter_gena)"
    using genaCallback_dispatch [of one_letter_gena "(0, 0)" 17 ?e subscribe_message m "''u''"] m one_letter_text
    by (simp add: e)
  then show ?thesis by (simp add: h callback_result_of_def)
qed

end
