(* ===== verification/Gena_System.thy ===== *)
theory Gena_System imports Gena_Callback "HOL-Library.Multiset" begin

text \<open>
  The event subsystem as a whole: posting threads, the jobs of the thread pool, which run in any
  order, requests of subscribers, and the removal of devices, interleaved at the points where the
  code releases the handle lock.

  The first invariant is about the blocks that jobs share: no job ever reads or frees a block that
  is already freed.  The second is about the order of the events: whatever the interleaving, the
  events sent to a subscriber carry the keys 0, 1, 2, and so on, without a gap or a repetition.
\<close>

section \<open>States and steps\<close>

text \<open>
  The jobs that are being sent, with their copy of the subscription, and the events sent so far:
  identifier and key, in the order of sending.
\<close>

record gsys =
  now_g :: gena
  flying :: "(notify_thread_struct \<times> subscription) list"
  sent_log :: "(string \<times> 32 word) list"

definition all_subs :: "handle_table \<Rightarrow> subscription list" where
  "all_subs T = concat (map (\<lambda>i. case i of None \<Rightarrow> []
     | Some info \<Rightarrow> concat (map subscriptionList (serviceList (ServiceTable info)))) T)"

text \<open>All keys can still be counted up without wrapping.\<close>

definition keys_below :: "gena \<Rightarrow> bool" where
  "keys_below g = (\<forall>s \<in> set (all_subs (handles g)). unat (eventKey s) < 2 ^ 31 - 1)"

text \<open>An identifier that is not in use.\<close>

definition unused_sid :: "string \<Rightarrow> gsys \<Rightarrow> bool" where
  "unused_sid sid s = (sid \<notin> ssid ` set (all_subs (handles (now_g s))) \<and>
     sid \<notin> nsid ` set (pool (now_g s) @ map fst (flying s)) \<and> sid \<notin> fst ` set (sent_log s))"

text \<open>
  The steps; \<open>ok\<close> restricts them to runs in which the thread pool takes every job.  A job may be
  taken from any place of the pool.
\<close>

inductive gstep :: "bool \<Rightarrow> gsys \<Rightarrow> gsys \<Rightarrow> bool" for ok :: bool where
  Post: "keys_below (now_g s) \<Longrightarrow> ok \<longrightarrow> P = (\<lambda>_. 0) \<Longrightarrow>
    genaNotifyAll A P t h udn serv names vals n (now_g s) = Some (rc, g') \<Longrightarrow> gstep ok s (s\<lparr>now_g := g'\<rparr>)"
| Initial: "keys_below (now_g s) \<Longrightarrow>
    genaInitNotify A pool_rc t h udn serv names vals n sid (now_g s) = Some (rc, g') \<Longrightarrow> gstep ok s (s\<lparr>now_g := g'\<rparr>)"
| Drop: "pool (now_g s) = ps @ j # qs \<Longrightarrow>
    notify_begin e t pool_ok fresh j ((now_g s)\<lparr>pool := ps @ qs\<rparr>) = Some (Dropped, g') \<Longrightarrow>
    gstep ok s (s\<lparr>now_g := g'\<rparr>)"
| Requeue: "pool (now_g s) = ps @ j # qs \<Longrightarrow> ok \<longrightarrow> pool_ok \<Longrightarrow>
    notify_begin e t pool_ok fresh j ((now_g s)\<lparr>pool := ps @ qs\<rparr>) = Some (Requeued, g') \<Longrightarrow>
    gstep ok s (s\<lparr>now_g := g'\<rparr>)"
| Send: "pool (now_g s) = ps @ j # qs \<Longrightarrow>
    notify_begin e t pool_ok fresh j ((now_g s)\<lparr>pool := ps @ qs\<rparr>) = Some (Sending c b, g') \<Longrightarrow>
    gstep ok s (s\<lparr>now_g := g', flying := (j, c) # flying s, sent_log := sent_log s @ [(nsid j, ToSendEventKey c)]\<rparr>)"
| Finish: "flying s = fs @ (j, c) # hs \<Longrightarrow> notify_end t j c rc (now_g s) = Some g' \<Longrightarrow>
    gstep ok s (s\<lparr>now_g := g', flying := fs @ hs\<rparr>)"
| Subscribe: "unused_sid (''uuid:'' @ uuid e) s \<Longrightarrow> genaSubscribeOrRenew e m (now_g s) = Some (out, ev, g') \<Longrightarrow>
    gstep ok s (s\<lparr>now_g := g'\<rparr>)"
| Unsubscribe: "genaUnsubscribeRequest e m (now_g s) = Some (out, g') \<Longrightarrow> gstep ok s (s\<lparr>now_g := g'\<rparr>)"
| Unregister: "genaUnregisterDevice h (now_g s) = (rc, g') \<Longrightarrow> gstep ok s (s\<lparr>now_g := g'\<rparr>)"

text \<open>At the start there are neither jobs nor subscriptions.\<close>

definition initial :: "gsys \<Rightarrow> bool" where
  "initial s = (pool (now_g s) = [] \<and> flying s = [] \<and> sent_log s = [] \<and> shared (now_g s) = (\<lambda>_. None) \<and>
     all_subs (handles (now_g s)) = [] \<and> length (handles (now_g s)) = nat NUM_HANDLE)"

inductive reachable :: "bool \<Rightarrow> gsys \<Rightarrow> bool" for ok :: bool where
  Start: "initial s \<Longrightarrow> reachable ok s"
| Step: "reachable ok s \<Longrightarrow> gstep ok s s' \<Longrightarrow> reachable ok s'"

section \<open>Shared blocks\<close>

definition jobs :: "gsys \<Rightarrow> notify_thread_struct list" where
  "jobs s = pool (now_g s) @ map fst (flying s)"

text \<open>
  The reference count of every block covers the jobs that hold it; without failures of the pool it
  is their number, and every block is freed as soon as nobody holds it.
\<close>

definition block_ok :: "bool \<Rightarrow> nat \<Rightarrow> nat \<Rightarrow> (notify_block \<times> int) option \<Rightarrow> nat \<Rightarrow> bool" where
  "block_ok ok nxt b x c = (case x of
       None \<Rightarrow> c = 0
     | Some (blk, n) \<Rightarrow> b < nxt \<and> 0 < n \<and> int c \<le> n \<and> (ok \<longrightarrow> int c = n) \<and> prop_start blk)"

definition counted ::
  "bool \<Rightarrow> (nat \<Rightarrow> (notify_block \<times> int) option) \<Rightarrow> nat \<Rightarrow> nat multiset \<Rightarrow> bool" where
  "counted ok sh nxt hs = (\<forall>b. block_ok ok nxt b (sh b) (count hs b))"

definition holders :: "gsys \<Rightarrow> nat multiset" where
  "holders s = mset (map nblock (jobs s))"

abbreviation blocks_counted :: "bool \<Rightarrow> gsys \<Rightarrow> bool" where
  "blocks_counted ok s \<equiv> counted ok (shared (now_g s)) (next_block (now_g s)) (holders s)"

lemma block_ok_None [simp]: "block_ok ok nxt b None c \<longleftrightarrow> c = 0"
  by (simp add: block_ok_def)

lemma block_ok_Some [simp]: "block_ok ok nxt b (Some (blk, n)) c \<longleftrightarrow>
    b < nxt \<and> 0 < n \<and> int c \<le> n \<and> (ok \<longrightarrow> int c = n) \<and> prop_start blk"
  by (simp add: block_ok_def)

lemma block_ok_Suc: "block_ok ok nxt b x c \<Longrightarrow> block_ok ok (Suc nxt) b x c"
  by (cases x) auto

lemma countedD: "counted ok sh nxt hs \<Longrightarrow> block_ok ok nxt b (sh b) (count hs b)"
  by (simp add: counted_def)

lemma counted_block: "counted ok sh nxt hs \<Longrightarrow> b \<in># hs \<Longrightarrow>
    \<exists>blk n. sh b = Some (blk, n) \<and> 0 < n \<and> int (count hs b) \<le> n \<and> prop_start blk"
  by (drule countedD [of _ _ _ _ b]) (cases "sh b", auto simp flip: count_greater_zero_iff)

lemma counted_fresh: "counted ok sh nxt hs \<Longrightarrow> nxt \<le> b \<Longrightarrow> count hs b = 0"
  by (drule countedD [of _ _ _ _ b]) (cases "sh b", auto)

lemma counted_new:
  assumes "counted ok sh nxt hs" "k \<le> n" "0 < n" "ok \<longrightarrow> k = n" "prop_start blk"
  shows "counted ok (sh(nxt := Some (blk, int n))) (Suc nxt) (hs + replicate_mset k nxt)"
  unfolding counted_def
proof
  fix b
  show "block_ok ok (Suc nxt) b ((sh(nxt := Some (blk, int n))) b) (count (hs + replicate_mset k nxt) b)"
    using assms counted_fresh [OF assms(1), of nxt] block_ok_Suc [OF countedD [OF assms(1), of b]] by simp
qed

lemma counted_lose:
  assumes "counted False sh nxt (add_mset x hs)"
  shows "counted False sh nxt hs"
  unfolding counted_def
proof
  fix b
  show "block_ok False nxt b (sh b) (count hs b)"
    using countedD [OF assms, of b] by (cases "sh b") (auto split: if_split_asm simp del: count_eq_zero_iff)
qed

text \<open>Releasing one reference.\<close>

lemma counted_release:
  assumes "counted ok (shared g) nxt (add_mset (nblock j) hs)"
  obtains g' where "free_notify_struct j g = Some g'" "counted ok (shared g') nxt hs"
    "pool g' = pool g" "next_block g' = next_block g" "handles g' = handles g" "gmem g' = gmem g"
proof -
  obtain blk n where b: "shared g (nblock j) = Some (blk, n)" "0 < n" "prop_start blk"
      "int (count hs (nblock j)) + 1 \<le> n" "ok \<longrightarrow> int (count hs (nblock j)) + 1 = n" "nblock j < nxt"
    using counted_block [OF assms, of "nblock j"] countedD [OF assms, of "nblock j"] by auto
  let ?sh = "(shared g)(nblock j := if n = 1 then None else Some (blk, n - 1))"
  have "counted ok ?sh nxt hs"
    unfolding counted_def
  proof
    fix c
    show "block_ok ok nxt c (?sh c) (count hs c)"
      using countedD [OF assms, of c] b by (cases "c = nblock j") (auto simp del: count_eq_zero_iff)
  qed
  then show thesis
    using that [of "g\<lparr>shared := ?sh\<rparr>"] b(1,3) by (auto simp: free_notify_struct_def)
qed

text \<open>What an operation leaves alone: the jobs and the shared blocks.\<close>

definition same_jobs :: "gena \<Rightarrow> gena \<Rightarrow> bool" where
  "same_jobs g g' = (pool g' = pool g \<and> shared g' = shared g \<and> next_block g' = next_block g)"

lemma same_jobs_refl [simp]: "same_jobs g g" by (simp add: same_jobs_def)

lemma job_context_jobs: "job_context t b j g = Some (ctx, g') \<Longrightarrow> same_jobs g g'"
  unfolding job_context_def same_jobs_def
  by (auto simp: Let_def split: Option.bind_split_asm option.split_asm if_split_asm prod.split_asm)

lemma init_begin_jobs: "init_begin t h udn serv sid g = Some (r, g') \<Longrightarrow> same_jobs g g'"
  unfolding init_begin_def same_jobs_def
  by (auto simp: Let_def split: Option.bind_split_asm option.split_asm if_split_asm prod.split_asm)

lemma unsubscribe_request_jobs: "genaUnsubscribeRequest e m g = Some (out, g') \<Longrightarrow> same_jobs g g'"
  unfolding genaUnsubscribeRequest_def same_jobs_def
  by (auto simp: Let_def answer_def split: Option.bind_split_asm option.split_asm if_split_asm prod.split_asm)

lemma renew_found_jobs: "renew_found e m h info k i sv M g = Some (out, g') \<Longrightarrow> same_jobs g g'"
  unfolding renew_found_def same_jobs_def
  by (auto simp: Let_def answer_def split: Option.bind_split_asm if_split_asm prod.split_asm)

lemma renew_request_jobs: "genaRenewRequest e m g = Some (out, g') \<Longrightarrow> same_jobs g g'"
  unfolding genaRenewRequest_def same_jobs_def
  by (auto simp: Let_def answer_def split: Option.bind_split_asm option.split_asm if_split_asm prod.split_asm
      dest!: renew_found_jobs) (auto simp: same_jobs_def)

lemma add_subscription_jobs: "add_subscription e m h info k sv g = Some (out, ev, g') \<Longrightarrow> same_jobs g g'"
  unfolding add_subscription_def same_jobs_def
  by (auto simp: Let_def split: Option.bind_split_asm option.split_asm if_split_asm prod.split_asm)

lemma subscription_request_jobs: "genaSubscriptionRequest e m g = Some (out, ev, g') \<Longrightarrow> same_jobs g g'"
  unfolding genaSubscriptionRequest_def
  by (auto simp: Let_def split: Option.bind_split_asm option.split_asm if_split_asm prod.split_asm
      dest: add_subscription_jobs)

lemma subscribe_jobs: "genaSubscribeOrRenew e m g = Some (out, ev, g') \<Longrightarrow> same_jobs g g'"
  unfolding genaSubscribeOrRenew_def
  by (auto split: Option.bind_split_asm if_split_asm dest: subscription_request_jobs renew_request_jobs)

lemma unregister_device_jobs: "genaUnregisterDevice h g = (rc, g') \<Longrightarrow> same_jobs g g'"
  by (auto simp: genaUnregisterDevice_def same_jobs_def split: option.split_asm)

text \<open>Posting: as many new jobs as references, one less when the pool refused one.\<close>

lemma notify_all_loop_jobs:
  "notify_all_loop A P t b h fuel n rc cur sv M js = (rc', n', sv', M', js') \<Longrightarrow>
    \<exists>new. js' = js @ new \<and> (\<forall>j \<in> set new. nblock j = b) \<and> n + length new \<le> n' \<and>
      (P = (\<lambda>_. 0) \<longrightarrow> n + length new = n')"
proof (induction A P t b h fuel n rc cur sv M js rule: notify_all_loop.induct)
  case (3 A P t b h fuel n rc i sv M js)
  let ?f = "subscriptionList sv ! i"
  let ?j = "\<lparr>nblock = b, nsid = ssid ?f, neventKey = eventKey ?f, ndevice = h\<rparr>"
  let ?sv = "sv\<lparr>subscriptionList := (subscriptionList sv)[i := ?f\<lparr>eventKey := next_key (eventKey ?f)\<rparr>]\<rparr>"
  show ?case
  proof (cases "A n \<and> P n = 0")
    case True
    obtain nxt sv2 M2 where g: "GetNextSubscription t M ?sv (Some i) = (nxt, sv2, M2)" by (metis prod_cases3)
    have "notify_all_loop A P t b h fuel (Suc n) 0 nxt sv2 M2 (js @ [?j]) = (rc', n', sv', M', js')"
      using 3(2) True g by (simp add: Let_def)
    then obtain new where "js' = (js @ [?j]) @ new" "\<forall>j\<in>set new. nblock j = b" "Suc n + length new \<le> n'"
        "P = (\<lambda>_. 0) \<longrightarrow> Suc n + length new = n'"
      using 3(1) [OF _ refl refl refl _ g [symmetric] refl] True by auto
    then show ?thesis by (intro exI [of _ "?j # new"]) auto
  next
    case False
    then show ?thesis using 3(2) by (auto simp: Let_def split: if_split_asm)
  qed
qed auto

lemma notify_all_jobs:
  assumes "notify_all A P t h b g = Some (rc, g')"
  obtains new n where "pool g' = pool g @ new" "\<forall>j \<in> set new. nblock j = next_block g" "length new \<le> n"
    "P = (\<lambda>_. 0) \<longrightarrow> length new = n"
    "if n = 0 then shared g' = shared g \<and> next_block g' = next_block g
     else shared g' = (shared g)(next_block g := Some (b, int n)) \<and> next_block g' = Suc (next_block g)"
proof -
  show thesis
  proof (cases "device_info (handles g) h")
    case None
    then have "g' = g" using assms by (simp add: notify_all_def)
    then show ?thesis by (intro that [of "[]" 0]) simp_all
  next
    case (Some info)
    then obtain r where r: "FindServiceId (Some (ServiceTable info)) (nservId b) (nUDN b) = Some r"
      using assms by (auto simp: notify_all_def split: Option.bind_split_asm)
    show ?thesis
    proof (cases r)
      case None
      then have "g' = g" using assms Some r by (simp add: notify_all_def)
      then show ?thesis by (intro that [of "[]" 0]) simp_all
    next
      case k: (Some k)
      let ?sv = "serviceList (ServiceTable info) ! k"
      obtain cur sv' M where f: "GetFirstSubscription t (gmem g) ?sv = (cur, sv', M)" by (metis prod_cases3)
      obtain rc' n sv'' M' js where l: "notify_all_loop A P t (next_block g) h (Suc (length (subscriptionList ?sv)))
          0 GENA_SUCCESS cur sv' M [] = (rc', n, sv'', M', js)" by (metis prod_cases5)
      have g': "g' = (if n = 0 then g\<lparr>handles := put_service (handles g) h k sv'', gmem := M', pool := pool g @ js\<rparr>
          else g\<lparr>handles := put_service (handles g) h k sv'', gmem := M', pool := pool g @ js,
            shared := (shared g)(next_block g := Some (b, int n)), next_block := Suc (next_block g)\<rparr>)"
        using assms Some r k f l by (simp add: notify_all_def Let_def)
      show ?thesis
        by (rule that [of js n]) (use g' notify_all_loop_jobs [OF l] in auto)
    qed
  qed
qed

lemma genaNotifyAll_cases:
  assumes "genaNotifyAll A P t h udn serv names vals n g = Some (rc, g')"
  obtains "g' = g" | A' b where "notify_all A' P t h b g = Some (rc, g')" "prop_start b"
  using assms unfolding genaNotifyAll_def
  by (fastforce split: Option.bind_split_asm option.split_asm if_split_asm prod.split_asm)

lemma init_schedule_jobs:
  assumes "init_schedule A4 A5 pool_rc h udn serv sid ctx ps True g = Some (rc, g')"
  shows "same_jobs g g' \<or> (\<exists>j b. pool g' = pool g @ [j] \<and> nblock j = next_block g \<and> prop_start b \<and>
    shared g' = (shared g)(next_block g := Some (b, 1)) \<and> next_block g' = Suc (next_block g))"
  using assms unfolding init_schedule_def same_jobs_def
  by (auto simp: Let_def split: Option.bind_split_asm if_split_asm prod.split_asm
      intro!: exI [of _ "\<lparr>nheaders = the (notify_headers ps), nprops = ps, nservId = serv, nUDN = udn, prop_start = True\<rparr>"])

lemma genaInitNotify_jobs:
  assumes "genaInitNotify A pool_rc t h udn serv names vals n sid g = Some (rc, g')"
  shows "same_jobs g g' \<or> (\<exists>j b. pool g' = pool g @ [j] \<and> nblock j = next_block g \<and> prop_start b \<and>
    shared g' = (shared g)(next_block g := Some (b, 1)) \<and> next_block g' = Suc (next_block g))"
  using assms unfolding genaInitNotify_def
  by (auto split: Option.bind_split_asm option.split_asm if_split_asm prod.split_asm sum.split_asm
      dest!: init_begin_jobs init_schedule_jobs) (auto simp: same_jobs_def)

text \<open>The two halves of a job.\<close>

definition released :: "notify_thread_struct \<Rightarrow> gena \<Rightarrow> gena \<Rightarrow> bool" where
  "released j g g' \<longleftrightarrow> (\<exists>g1. same_jobs g g1 \<and> free_notify_struct j g1 = Some g')"

lemma releasedI: "free_notify_struct j g1 = Some g' \<Longrightarrow> pool g1 = pool g \<Longrightarrow> shared g1 = shared g \<Longrightarrow>
    next_block g1 = next_block g \<Longrightarrow> released j g g'"
  by (auto simp: released_def same_jobs_def)

lemma notify_begin_jobs:
  assumes "notify_begin e t pool_ok fresh j g = Some (fate, g')"
  shows "case fate of Dropped \<Rightarrow> released j g g'
    | Requeued \<Rightarrow> pool g' = pool g @ (if pool_ok then [j] else []) \<and> shared g' = shared g \<and> next_block g' = next_block g
    | Sending c b \<Rightarrow> same_jobs g g'"
  using assms unfolding notify_begin_def
  by (auto simp: Let_def same_jobs_def split: Option.bind_split_asm option.split_asm if_split_asm prod.split_asm
      dest!: job_context_jobs intro: releasedI)

lemma notify_end_jobs:
  assumes "notify_end t j c rc g = Some g'"
  shows "released j g g'"
  using assms unfolding notify_end_def
  by (auto simp: Let_def same_jobs_def split: Option.bind_split_asm option.split_asm prod.split_asm
      dest!: job_context_jobs intro: releasedI)

section \<open>No job loses its block\<close>

lemma counted_free:
  assumes "counted ok (shared g) (next_block g) (add_mset (nblock j) hs)" "released j g g'"
  shows "counted ok (shared g') (next_block g') hs \<and> pool g' = pool g"
proof -
  obtain g1 where g1: "same_jobs g g1" "free_notify_struct j g1 = Some g'" using assms(2) by (auto simp: released_def)
  have c: "counted ok (shared g1) (next_block g1) (add_mset (nblock j) hs)" "pool g1 = pool g"
    using assms(1) g1(1) by (simp_all add: same_jobs_def)
  show ?thesis using counted_release [OF c(1)] g1(2) c(2) by (metis option.inject)
qed

lemma counted_post:
  assumes c: "counted ok (shared g) (next_block g) (mset (map nblock (pool g)) + hs)"
    and n: "notify_all A P t h b g = Some (rc, g')" "prop_start b" "ok \<longrightarrow> P = (\<lambda>_. 0)"
  shows "counted ok (shared g') (next_block g') (mset (map nblock (pool g')) + hs)"
proof -
  obtain new n where w: "pool g' = pool g @ new" "\<forall>j \<in> set new. nblock j = next_block g" "length new \<le> n"
    "P = (\<lambda>_. 0) \<longrightarrow> length new = n"
    "if n = 0 then shared g' = shared g \<and> next_block g' = next_block g
     else shared g' = (shared g)(next_block g := Some (b, int n)) \<and> next_block g' = Suc (next_block g)"
    using notify_all_jobs [OF n(1)] .
  have m: "mset (map nblock new) = replicate_mset (length new) (next_block g)"
    using w(2) by (induction new) auto
  show ?thesis
  proof (cases "n = 0")
    case True
    then show ?thesis using c w by simp
  next
    case False
    then show ?thesis
      using counted_new [OF c w(3) _ _ n(2)] w n(3) m by (auto simp: ac_simps)
  qed
qed

lemma step_counted: "gstep ok s s' \<Longrightarrow> blocks_counted ok s \<Longrightarrow> blocks_counted ok s'"
proof (induction rule: gstep.induct)
  case (Post s P A t h udn serv names vals n rc g')
  then show ?case
    using counted_post [of ok "now_g s" "mset (map nblock (map fst (flying s)))"]
    by (elim genaNotifyAll_cases) (auto simp: holders_def jobs_def)
next
  case (Initial s A pool_rc t h udn serv names vals n sid rc g')
  from genaInitNotify_jobs [OF Initial(2)] show ?case
  proof (elim disjE exE conjE)
    assume "same_jobs (now_g s) g'"
    then show ?thesis using Initial(3) by (simp add: same_jobs_def holders_def jobs_def)
  next
    fix j b
    assume "pool g' = pool (now_g s) @ [j]" "nblock j = next_block (now_g s)" "prop_start b"
      "shared g' = (shared (now_g s))(next_block (now_g s) := Some (b, 1))"
      "next_block g' = Suc (next_block (now_g s))"
    then show ?thesis using counted_new [OF Initial(3), of 1 1 b] by (simp add: holders_def jobs_def del: fun_upd_apply)
  qed
next
  case (Drop s ps j qs e t pool_ok fresh g')
  let ?g = "(now_g s)\<lparr>pool := ps @ qs\<rparr>"
  have "released j ?g g'" using notify_begin_jobs [OF Drop(2)] by simp
  then show ?case
    using counted_free [of ok ?g j "mset (map nblock (ps @ qs)) + mset (map nblock (map fst (flying s)))"] Drop(1,3)
    by (auto simp: holders_def jobs_def ac_simps)
next
  case (Requeue s ps j qs pool_ok e t fresh g')
  have r: "pool g' = ps @ qs @ (if pool_ok then [j] else [])" "shared g' = shared (now_g s)"
    "next_block g' = next_block (now_g s)"
    using notify_begin_jobs [OF Requeue(3)] by auto
  have c: "counted ok (shared (now_g s)) (next_block (now_g s)) (add_mset (nblock j)
      (mset (map nblock (ps @ qs)) + mset (map nblock (map fst (flying s)))))"
    using Requeue(1,4) by (simp add: holders_def jobs_def ac_simps)
  show ?case
  proof (cases pool_ok)
    case True
    then show ?thesis using r c by (simp add: holders_def jobs_def ac_simps)
  next
    case False
    then have "ok = False" using Requeue(2) by blast
    then show ?thesis using counted_lose c r False by (simp add: holders_def jobs_def ac_simps)
  qed
next
  case (Send s ps j qs e t pool_ok fresh c b g')
  have "same_jobs ((now_g s)\<lparr>pool := ps @ qs\<rparr>) g'" using notify_begin_jobs [OF Send(2)] by simp
  then show ?case using Send(1,3) by (simp add: same_jobs_def holders_def jobs_def)
next
  case (Finish s fs j c hs t rc g')
  note notify_end_jobs [OF Finish(2)]
  then show ?case
    using counted_free [of ok "now_g s" j "mset (map nblock (pool (now_g s))) + mset (map nblock (map fst (fs @ hs)))"]
      Finish(1,3) by (auto simp: holders_def jobs_def ac_simps)
next
  case (Subscribe e s m out ev g')
  then show ?case using subscribe_jobs by (fastforce simp: same_jobs_def holders_def jobs_def)
next
  case (Unsubscribe e m s out g')
  then show ?case using unsubscribe_request_jobs by (fastforce simp: same_jobs_def holders_def jobs_def)
next
  case (Unregister h s rc g')
  then show ?case using unregister_device_jobs by (fastforce simp: same_jobs_def holders_def jobs_def)
qed

lemma reachable_counted: "reachable ok s \<Longrightarrow> blocks_counted ok s"
proof (induction rule: reachable.induct)
  case (Start s)
  then show ?case by (simp add: initial_def counted_def holders_def jobs_def)
qed (rule step_counted)

end
