(* ===== verification/Gena_Keys.thy ===== *)
theory Gena_Keys imports Gena_System "HOL-Library.Sublist" begin

text \<open>
  Event keys, for the proof that events are sent in order (\<^verbatim>\<open>Gena_Order\<close>): an abstract view of
  the subscriptions as triples of identifier, next key to post and next key to send; where the
  subscriptions of a service are in the tables; and the invariant, with the changes of one service
  that keep it.
\<close>

section \<open>The abstract view\<close>

type_synonym entry = "string \<times> 32 word \<times> 32 word"

definition entry_of :: "subscription \<Rightarrow> entry" where
  "entry_of s = (ssid s, eventKey s, ToSendEventKey s)"

definition job_key :: "notify_thread_struct \<Rightarrow> string \<times> 32 word" where
  "job_key j = (nsid j, neventKey j)"

definition events :: "string \<Rightarrow> (string \<times> 32 word) list \<Rightarrow> 32 word list" where
  "events i log = map snd (filter (\<lambda>x. fst x = i) log)"

text \<open>The jobs of a subscription among \<open>F\<close>.\<close>

abbreviation jobs_of :: "string \<Rightarrow> notify_thread_struct multiset \<Rightarrow> notify_thread_struct multiset" where
  "jobs_of i F \<equiv> filter_mset (\<lambda>j. nsid j = i) F"

fun entry_ok :: "notify_thread_struct multiset \<Rightarrow> notify_thread_struct multiset \<Rightarrow> (string \<times> 32 word) list \<Rightarrow>
    entry \<Rightarrow> bool" where
  "entry_ok J F log (i, e, n) =
     (events i log = map word_of_nat [0..<unat n + size (jobs_of i F)] \<and>
      unat n + size (jobs_of i F) \<le> unat e \<and> unat e < 2 ^ 31 \<and>
      (\<forall>j \<in># jobs_of i F. neventKey j = n) \<and> (\<forall>j \<in># jobs_of i J. unat (neventKey j) < unat e))"

definition distinct_keys :: "notify_thread_struct multiset \<Rightarrow> bool" where
  "distinct_keys J = (\<forall>k. count (image_mset job_key J) k \<le> 1)"

lemma distinct_keys_subset: "distinct_keys B \<Longrightarrow> A \<subseteq># B \<Longrightarrow> distinct_keys A"
  unfolding distinct_keys_def by (meson image_mset_subseteq_mono le_trans mset_subset_eq_count)

lemma distinct_keys_add: "distinct_keys (add_mset j J) \<longleftrightarrow> job_key j \<notin> job_key ` set_mset J \<and> distinct_keys J"
proof
  assume d: "distinct_keys (add_mset j J)"
  then have "count (image_mset job_key (add_mset j J)) (job_key j) \<le> 1" unfolding distinct_keys_def by blast
  then have "\<not> 0 < count (image_mset job_key J) (job_key j)" by simp
  then have "job_key j \<notin># image_mset job_key J" unfolding count_greater_zero_iff .
  then show "job_key j \<notin> job_key ` set_mset J \<and> distinct_keys J"
    using distinct_keys_subset [OF d, of J] by simp
next
  assume a: "job_key j \<notin> job_key ` set_mset J \<and> distinct_keys J"
  then have "count (image_mset job_key J) (job_key j) = 0" by (simp add: count_eq_zero_iff)
  then show "distinct_keys (add_mset j J)" using a unfolding distinct_keys_def by auto
qed

definition ordered ::
  "entry list \<Rightarrow> notify_thread_struct multiset \<Rightarrow> notify_thread_struct multiset \<Rightarrow> (string \<times> 32 word) list \<Rightarrow> bool" where
  "ordered K J F log = (distinct (map fst K) \<and> distinct_keys J \<and> F \<subseteq># J \<and>
     (\<forall>x \<in> set K. entry_ok J F log x))"

lemma ordered_entry: "ordered K J F log \<Longrightarrow> x \<in> set K \<Longrightarrow> entry_ok J F log x"
  by (simp add: ordered_def)

lemma distinct_subseq: "subseq xs ys \<Longrightarrow> distinct ys \<Longrightarrow> distinct xs"
  by (induction rule: list_emb.induct) (auto dest: list_emb_set)

lemma ordered_subseq: "ordered K J F log \<Longrightarrow> subseq K' K \<Longrightarrow> ordered K' J F log"
  unfolding ordered_def using subseq_map [of K' K fst] distinct_subseq list_emb_set [of "(=)" K' K] by metis

lemma jobs_of_subset: "J' \<subseteq># J \<Longrightarrow> j \<in># jobs_of i J' \<Longrightarrow> j \<in># jobs_of i J"
  by (auto dest: mset_subset_eqD)

text \<open>Jobs that are not being sent may get lost.\<close>

lemma ordered_fewer:
  assumes "ordered K J F log" "J' \<subseteq># J" "F \<subseteq># J'"
  shows "ordered K J' F log"
proof -
  have "entry_ok J' F log x" if "x \<in> set K" for x
    using ordered_entry [OF assms(1) that] jobs_of_subset [OF assms(2)] by (cases x) auto
  moreover have "distinct_keys J'"
    using assms(1,2) distinct_keys_subset unfolding ordered_def by blast
  ultimately show ?thesis using assms(1,3) unfolding ordered_def by blast
qed

text \<open>A key is used up, for a job or for nothing.\<close>

lemma uint_below: "uint (e :: 32 word) < 2147483647 \<longleftrightarrow> unat e < 2147483647"
  by (simp add: nat_less_iff flip: nat_uint_eq)

lemma sint_key: "unat (e :: 32 word) < 2 ^ 31 \<Longrightarrow> sint e = uint e"
proof -
  assume "unat e < 2 ^ 31"
  then have "uint e < 2 ^ 31" by (simp add: nat_less_iff flip: nat_uint_eq)
  moreover have "- (2 ^ 31) \<le> uint e" using uint_ge_0 [of e] by (rule order_trans [rotated]) simp
  ultimately show ?thesis by (simp add: sint_uint signed_take_bit_int_eq_self)
qed

lemma unat_key_Suc: "unat (e :: 32 word) < 2 ^ 31 \<Longrightarrow> unat (e + 1) = Suc (unat e)"
  by (simp add: unat_word_ariths)

lemma unat_next_key: "Suc (unat k) < 2 ^ 31 \<Longrightarrow> unat (next_key k) = Suc (unat k)"
  using unat_key_Suc [of k] sint_key [of "k + 1"] uint_ge_0 [of "k + 1"] by (auto simp: next_key_def simp del: uint_ge_0)

lemma ordered_change:
  assumes o: "ordered (A @ (i, e, n) # B) J F log"
    and other: "\<And>k. k \<noteq> i \<Longrightarrow> jobs_of k J' = jobs_of k J" "\<And>k. k \<noteq> i \<Longrightarrow> jobs_of k F' = jobs_of k F"
      "\<And>k. k \<noteq> i \<Longrightarrow> events k log' = events k log"
    and new: "entry_ok J' F' log' (i, e', n')" "distinct_keys J'" "F' \<subseteq># J'"
  shows "ordered (A @ (i, e', n') # B) J' F' log'"
proof -
  have "entry_ok J' F' log' x" if "x \<in> set (A @ (i, e', n') # B)" for x
  proof (cases "x = (i, e', n')")
    case False
    then have x: "x \<in> set (A @ B)" "fst x \<noteq> i" using that o by (auto simp: ordered_def)
    then have "entry_ok J F log x" using ordered_entry [OF o] by auto
    then show ?thesis using x(2) other by (cases x) simp
  qed (use new in simp)
  then show ?thesis using o new by (auto simp: ordered_def)
qed

lemma ordered_bump:
  assumes "ordered (A @ (i, e, n) # B) J F log" "unat e < 2 ^ 31 - 1"
  shows "ordered (A @ (i, e + 1, n) # B) J F log"
proof (rule ordered_change [OF assms(1)])
  show "entry_ok J F log (i, e + 1, n)"
    using ordered_entry [OF assms(1), of "(i, e, n)"] unat_key_Suc [of e] assms(2) by auto
qed (use assms(1) in \<open>simp_all add: ordered_def\<close>)

lemma ordered_post:
  assumes o: "ordered (A @ (i, e, n) # B) J F log" "unat e < 2 ^ 31 - 1" and j: "job_key j = (i, e)"
  shows "ordered (A @ (i, e + 1, n) # B) (add_mset j J) F log"
proof (rule ordered_change [OF o(1)])
  note ok = ordered_entry [OF o(1), of "(i, e, n)"]
  have "(i, e) \<notin> job_key ` set_mset J"
    using ok by (auto simp: job_key_def)
  then show "distinct_keys (add_mset j J)" using o(1) j by (simp add: ordered_def distinct_keys_add)
  show "entry_ok (add_mset j J) F log (i, e + 1, n)"
    using ordered_entry [OF ordered_bump [OF o], of "(i, e + 1, n)"] ok unat_key_Suc [of e] j
    by (auto simp: job_key_def)
  show "F \<subseteq># add_mset j J" using o(1) by (auto simp: ordered_def intro: subset_mset.order_trans)
qed (use j in \<open>auto simp: job_key_def\<close>)

text \<open>A job is sent: none of the same subscription is on its way.\<close>

lemma ordered_send:
  assumes o: "ordered K J F log" "add_mset j F \<subseteq># J" and x: "(nsid j, e, neventKey j) \<in> set K"
  shows "ordered K J (add_mset j F) (log @ [job_key j])"
proof -
  let ?i = "nsid j" let ?n = "neventKey j"
  obtain A B where K: "K = A @ (?i, e, ?n) # B" using x by (meson split_list)
  note ok = ordered_entry [OF o(1) x]
  have none: "jobs_of ?i F = {#}"
  proof (rule ccontr)
    assume "jobs_of ?i F \<noteq> {#}"
    then obtain f where "f \<in># jobs_of ?i F" by blast
    then have "f \<in># F" "job_key f = job_key j" using ok by (auto simp: job_key_def)
    moreover have "distinct_keys (add_mset j F)"
      using o distinct_keys_subset unfolding ordered_def by blast
    ultimately show False by (metis distinct_keys_add image_eqI)
  qed
  have j: "j \<in># jobs_of ?i J" using o(2) by (auto dest: mset_subset_eqD)
  have "unat ?n < unat e" using ok j by simp
  then have "entry_ok J (add_mset j F) (log @ [job_key j]) (?i, e, ?n)"
    using ok by (auto simp: events_def job_key_def none)
  then show ?thesis
    unfolding K
    by (rule ordered_change [OF o(1) [unfolded K], rotated 3]) (use o in \<open>auto simp: ordered_def events_def job_key_def\<close>)
qed

text \<open>A transmission ends: the subscription's next key is due, if it still exists.\<close>

lemma ordered_finish:
  assumes o: "ordered (A @ (nsid j, e, n) # B) (add_mset j J) (add_mset j F) log"
  shows "ordered (A @ (nsid j, e, next_key n) # B) J F log"
proof (rule ordered_change [OF o])
  note ok = ordered_entry [OF o, of "(nsid j, e, n)"]
  have d: "distinct_keys (add_mset j F)" using o distinct_keys_subset unfolding ordered_def by blast
  have "jobs_of (nsid j) F = {#}"
  proof (rule ccontr)
    assume "jobs_of (nsid j) F \<noteq> {#}"
    then obtain f where "f \<in># jobs_of (nsid j) F" by blast
    then have "f \<in># F" "job_key f = job_key j" using ok by (auto simp: job_key_def)
    then show False using d by (metis distinct_keys_add image_eqI)
  qed
  moreover have "unat (next_key n) = Suc (unat n)" using ok by (intro unat_next_key) auto
  ultimately show "entry_ok J F log (nsid j, e, next_key n)" using ok by auto
qed (use o distinct_keys_add in \<open>auto simp: ordered_def\<close>)

lemma ordered_finish_gone:
  assumes o: "ordered K (add_mset j J) (add_mset j F) log" "nsid j \<notin> fst ` set K"
  shows "ordered K J F log"
proof -
  have "entry_ok J F log x" if "x \<in> set K" for x
    using ordered_entry [OF o(1) that] o(2) that by (cases x) (auto simp: image_iff)
  then show ?thesis using o(1) distinct_keys_add by (auto simp: ordered_def)
qed

lemma ordered_add:
  assumes "ordered (A @ B) J F log" "i \<notin> fst ` set (A @ B)" "i \<notin> nsid ` set_mset J" "i \<notin> fst ` set log"
  shows "ordered (A @ (i, 0, 0) # B) J F log"
proof -
  have "jobs_of i J = {#}" "events i log = []"
    using assms(3,4) by (auto simp: filter_mset_eq_conv multiset_eq_iff events_def filter_empty_conv count_eq_zero_iff)
  moreover have "jobs_of i F = {#}"
    using assms(1) multiset_filter_mono [of F J] calculation(1) unfolding ordered_def by (metis subset_mset.le_zero_eq)
  ultimately have "entry_ok J F log (i, 0, 0)" by auto
  then show ?thesis using assms(1,2) by (auto simp: ordered_def)
qed

section \<open>The subscriptions in the tables\<close>

abbreviation services :: "Handle_Info \<Rightarrow> service_info list" where
  "services info \<equiv> serviceList (ServiceTable info)"

text \<open>The \<open>k\<close>-th service of the device \<open>h\<close>.\<close>

definition service_at :: "handle_table \<Rightarrow> int \<Rightarrow> nat \<Rightarrow> service_info option" where
  "service_at T h k = (case device_info T h of None \<Rightarrow> None
     | Some info \<Rightarrow> if k < length (services info) then Some (services info ! k) else None)"

lemma device_index: "device_info T h = Some info \<Longrightarrow> length T = nat NUM_HANDLE \<Longrightarrow>
    nat h < length T \<and> 1 \<le> h \<and> T ! nat h = Some info \<and> HType info = HND_DEVICE"
  by (auto simp: device_info_def GetHandleInfo_def NUM_HANDLE_def split: if_split_asm option.split_asm)

lemma concat_update: "k < length xs \<Longrightarrow>
    concat (map f (xs[k := x])) = concat (map f (take k xs)) @ f x @ concat (map f (drop (Suc k) xs))"
  by (simp add: upd_conv_take_nth_drop)

lemma concat_nth: "k < length xs \<Longrightarrow>
    concat (map f xs) = concat (map f (take k xs)) @ f (xs ! k) @ concat (map f (drop (Suc k) xs))"
  using concat_update [of k xs f "xs ! k"] by simp

lemma all_subs_put:
  assumes "service_at T h k = Some sv" "length T = nat NUM_HANDLE"
  obtains pre post where "all_subs T = pre @ subscriptionList sv @ post"
    "\<And>sv'. all_subs (put_service T h k sv') = pre @ subscriptionList sv' @ post"
proof -
  obtain info where info: "device_info T h = Some info" "k < length (services info)" "sv = services info ! k"
    using assms(1) by (auto simp: service_at_def split: option.split_asm if_split_asm)
  note h = device_index [OF info(1) assms(2)]
  let ?f = "\<lambda>i. case i of None \<Rightarrow> [] | Some info \<Rightarrow> concat (map subscriptionList (services info))"
  let ?A = "concat (map ?f (take (nat h) T))" and ?B = "concat (map ?f (drop (Suc (nat h)) T))"
  let ?a = "concat (map subscriptionList (take k (services info)))"
  let ?b = "concat (map subscriptionList (drop (Suc k) (services info)))"
  show thesis
  proof (rule that [of "?A @ ?a" "?b @ ?B"])
    show "all_subs T = (?A @ ?a) @ subscriptionList sv @ ?b @ ?B"
      using concat_nth [of "nat h" T ?f] concat_nth [OF info(2), of subscriptionList] h info(3)
      by (simp add: all_subs_def)
    show "all_subs (put_service T h k sv') = (?A @ ?a) @ subscriptionList sv' @ ?b @ ?B" for sv'
      using concat_update [of "nat h" T ?f] concat_update [OF info(2), of subscriptionList sv'] h
      by (simp add: all_subs_def put_service_def)
  qed
qed

lemma length_put_service [simp]: "length (put_service T h k sv) = length T"
  by (simp add: put_service_def)

lemma put_service_twice [simp]: "put_service (put_service T h k a) h k b = put_service T h k b"
proof (cases "nat h < length T")
  case True
  then show ?thesis by (auto simp: put_service_def option.map_comp comp_def intro!: arg_cong2 [where f = "list_update T"]
      option.map_cong)
qed (simp add: put_service_def list_update_beyond not_less)

lemma device_info_put:
  assumes "device_info T h = Some info" "length T = nat NUM_HANDLE"
  shows "device_info (put_service T h k sv) h' =
    (if h' = h then Some (info\<lparr>ServiceTable := (ServiceTable info)\<lparr>serviceList := (services info)[k := sv]\<rparr>\<rparr>)
     else device_info T h')"
proof -
  note h = device_index [OF assms]
  show ?thesis
  proof (cases "h' = h")
    case True
    then show ?thesis using h assms(1) by (auto simp: device_info_def GetHandleInfo_def put_service_def split: if_split_asm)
  next
    case False
    show ?thesis
    proof (cases "1 \<le> h'")
      case True
      then have "nat h \<noteq> nat h'" using h False by auto
      then show ?thesis using False by (auto simp: device_info_def GetHandleInfo_def put_service_def)
    next
      case b: False
      then show ?thesis using False by (simp add: device_info_def GetHandleInfo_def)
    qed
  qed
qed

lemma service_at_put:
  assumes "service_at T h k = Some sv" "length T = nat NUM_HANDLE"
  shows "service_at (put_service T h k sv') h' k' =
    (if h' = h \<and> k' = k then Some sv' else service_at T h' k')"
proof -
  obtain info where info: "device_info T h = Some info" "k < length (services info)" "sv = services info ! k"
    using assms(1) by (auto simp: service_at_def split: option.split_asm if_split_asm)
  show ?thesis
    using device_info_put [OF info(1) assms(2), of k sv' h'] info by (auto simp: service_at_def)
qed

section \<open>Finding the service of a job\<close>

definition same_service :: "service_info \<Rightarrow> service_info \<Rightarrow> bool" where
  "same_service a b = (serviceId b = serviceId a \<and> UDN b = UDN a \<and> svc_active b = svc_active a)"

lemma same_service_refl [simp]: "same_service a a" by (simp add: same_service_def)

lemma find_service_ids: "map (\<lambda>s. (serviceId s, UDN s)) xs = map (\<lambda>s. (serviceId s, UDN s)) ys \<Longrightarrow>
    find_service i u xs = find_service i u ys"
proof (induction xs arbitrary: ys)
  case (Cons x xs)
  then obtain y zs where y: "ys = y # zs" "serviceId y = serviceId x" "UDN y = UDN x"
    "map (\<lambda>s. (serviceId s, UDN s)) xs = map (\<lambda>s. (serviceId s, UDN s)) zs" by (cases ys) auto
  show ?case unfolding y(1) find_service.simps y(2,3) Cons.IH [OF y(4)] ..
qed simp

lemma find_service_bound: "find_service i u xs = Some (Some k) \<Longrightarrow> k < length xs"
  by (induction xs arbitrary: k) (auto split: Option.bind_split_asm if_split_asm option.split_asm)

text \<open>The place of an active service with the identifiers of a job.\<close>

definition home :: "handle_table \<Rightarrow> notify_block \<Rightarrow> notify_thread_struct \<Rightarrow> (nat \<times> service_info) option" where
  "home T b j = (case device_info T (ndevice j) of None \<Rightarrow> None
     | Some info \<Rightarrow> (case find_service (nservId b) (nUDN b) (services info) of
         Some (Some k) \<Rightarrow> if svc_active (services info ! k) then Some (k, services info ! k) else None
       | _ \<Rightarrow> None))"

lemma home_service: "home T b j = Some (k, sv) \<Longrightarrow> service_at T (ndevice j) k = Some sv"
  by (auto simp: home_def service_at_def dest: find_service_bound split: option.split_asm if_split_asm)

lemma home_put:
  assumes "service_at T h k = Some sv" "length T = nat NUM_HANDLE" "same_service sv sv'"
    and "home T b j = Some (k', sv0)"
  shows "home (put_service T h k sv') b j = Some (k', if ndevice j = h \<and> k' = k then sv' else sv0)"
proof -
  obtain info where info: "device_info T h = Some info" "k < length (services info)" "sv = services info ! k"
    using assms(1) by (auto simp: service_at_def split: option.split_asm if_split_asm)
  have ids: "find_service i u ((services info)[k := sv']) = find_service i u (services info)" for i u
    using assms(3) info(2,3) by (intro find_service_ids) (simp add: map_update same_service_def list_update_same_conv)
  show ?thesis
  proof (cases "ndevice j = h")
    case True
    then have "find_service (nservId b) (nUDN b) (services info) = Some (Some k')" "svc_active (services info ! k')"
        "sv0 = services info ! k'"
      using assms(4) info(1) by (auto simp: home_def split: option.split_asm if_split_asm)
    then show ?thesis
      using True assms(3) info find_service_bound [of "nservId b" "nUDN b" "services info" k']
      by (auto simp: home_def device_info_put [OF info(1) assms(2)] ids same_service_def nth_list_update)
  next
    case False
    then show ?thesis using assms(4) by (simp add: home_def device_info_put [OF info(1) assms(2)])
  qed
qed

lemma put_service_id: "service_at T h k = Some sv \<Longrightarrow> length T = nat NUM_HANDLE \<Longrightarrow> put_service T h k sv = T"
proof -
  assume a: "service_at T h k = Some sv" "length T = nat NUM_HANDLE"
  then obtain info where "device_info T h = Some info" "sv = services info ! k"
    by (auto simp: service_at_def split: option.split_asm if_split_asm)
  then show ?thesis using device_index [OF _ a(2), of h info] by (simp add: put_service_def list_update_same_conv)
qed

section \<open>Operations on the list of a service\<close>

text \<open>
  The change of the subscriptions of one service, wherever they are in the tables, together with a
  change of the jobs and of what was sent.
\<close>

type_synonym traffic = "notify_thread_struct multiset \<times> notify_thread_struct multiset \<times> (string \<times> 32 word) list"

definition ordered_in :: "entry list \<Rightarrow> traffic \<Rightarrow> bool" where
  "ordered_in K w = (case w of (J, F, log) \<Rightarrow> ordered K J F log)"

definition keeps_order :: "subscription list \<Rightarrow> subscription list \<Rightarrow> traffic \<Rightarrow> traffic \<Rightarrow> bool" where
  "keeps_order xs ys w w' = (\<forall>A B. ordered_in (A @ map entry_of xs @ B) w \<longrightarrow> ordered_in (A @ map entry_of ys @ B) w')"

lemma keeps_order_refl [simp]: "keeps_order xs xs w w"
  by (simp add: keeps_order_def)

lemma keeps_order_trans: "keeps_order xs ys w w1 \<Longrightarrow> keeps_order ys zs w1 w2 \<Longrightarrow> keeps_order xs zs w w2"
  by (simp add: keeps_order_def)

lemma keeps_order_subseq: "subseq (map entry_of ys) (map entry_of xs) \<Longrightarrow> keeps_order xs ys w w"
  unfolding keeps_order_def ordered_in_def
  by (auto elim!: ordered_subseq intro!: list_emb_append_mono)

lemma keeps_order_same: "map entry_of ys = map entry_of xs \<Longrightarrow> keeps_order xs ys w w"
  by (simp add: keeps_order_def)

lemma entries_update: "i < length xs \<Longrightarrow> map entry_of (xs[i := s]) =
    map entry_of (take i xs) @ entry_of s # map entry_of (drop (Suc i) xs)"
  by (simp add: upd_conv_take_nth_drop)

lemma entries_nth: "i < length xs \<Longrightarrow> map entry_of xs =
    map entry_of (take i xs) @ entry_of (xs ! i) # map entry_of (drop (Suc i) xs)"
  by (metis entries_update list_update_id)

lemma keeps_order_update:
  assumes "i < length xs" "entry_of (xs ! i) = a" "entry_of s = a'"
    and "\<And>A B. ordered_in (A @ a # B) w \<Longrightarrow> ordered_in (A @ a' # B) w'"
  shows "keeps_order xs (xs[i := s]) w w'"
  unfolding keeps_order_def
proof (intro allI impI)
  fix A B
  assume "ordered_in (A @ map entry_of xs @ B) w"
  then have "ordered_in ((A @ map entry_of (take i xs)) @ a # map entry_of (drop (Suc i) xs) @ B) w"
    using entries_nth [OF assms(1)] assms(2) by (metis append.assoc append_Cons)
  from assms(4) [OF this] show "ordered_in (A @ map entry_of (xs[i := s]) @ B) w'"
    using entries_update [OF assms(1), of s] assms(3) by simp
qed

text \<open>Looking up and removing.\<close>

lemma unlink_sub_subseq: "subseq (fst (unlink_sub sid xs)) xs"
  by (induction xs) (auto split: prod.splits)

lemma shrink_entries: "subseq ys xs \<Longrightarrow> subseq (map entry_of ys) (map entry_of xs)"
  by (rule subseq_map)

lemma GetSubscriptionSID_effect:
  assumes "GetSubscriptionSID t M sid sv = (pos, sv', M')"
  shows "same_service sv sv' \<and> (case pos of
      None \<Rightarrow> subscriptionList sv' = fst (unlink_sub sid (subscriptionList sv))
    | Some i \<Rightarrow> sv' = sv \<and> i < length (subscriptionList sv) \<and> ssid (subscriptionList sv ! i) = sid)"
proof (cases "find_sub sid (subscriptionList sv)")
  case None
  then show ?thesis using assms service_subs.unlink_None [of sid "subscriptionList sv"]
    by (auto simp: GetSubscriptionSID_def)
next
  case (Some i)
  have i: "i < length (subscriptionList sv)" "ssid (subscriptionList sv ! i) = sid"
    using service_subs.lookup_Some [of sid "subscriptionList sv" i] Some by auto
  show ?thesis
  proof (cases "sub_expired t (subscriptionList sv ! i)")
    case True
    then show ?thesis using assms service_subs.unlink_Some [OF Some] Some
      by (auto simp: GetSubscriptionSID_def same_service_def Let_def)
  next
    case False
    then have "pos = Some i" "sv' = sv" using assms Some by (auto simp: GetSubscriptionSID_def)
    then show ?thesis using i by simp
  qed
qed

lemma RemoveSubscriptionSID_effect:
  "RemoveSubscriptionSID M sid sv = (sv', M') \<Longrightarrow>
    same_service sv sv' \<and> subscriptionList sv' = fst (unlink_sub sid (subscriptionList sv))"
  by (auto simp: RemoveSubscriptionSID_def same_service_def split: prod.split_asm)

lemma next_active_subseq: "next_active t xs = (k, r, f) \<Longrightarrow> subseq (k @ r) xs \<and> set r \<subseteq> set xs"
  by (induction xs arbitrary: k r f) (auto split: if_split_asm prod.split_asm)

lemma next_from_effect:
  assumes "next_from t M sv j = (nxt, sv', M')" "j \<le> length (subscriptionList sv)"
  shows "same_service sv sv' \<and> subseq (subscriptionList sv') (subscriptionList sv) \<and>
    (\<forall>i. nxt = Some i \<longrightarrow> i < length (subscriptionList sv') \<and>
      set (drop i (subscriptionList sv')) \<subseteq> set (drop j (subscriptionList sv)))"
proof -
  let ?ss = "subscriptionList sv"
  obtain k r f where a: "next_active t (drop j ?ss) = (k, r, f)" by (metis prod_cases3)
  have l: "subscriptionList sv' = take j ?ss @ k @ r" "same_service sv sv'" "nxt = (if r = [] then None else Some (j + length k))"
    using assms(1) a by (auto simp: next_from_def Let_def same_service_def)
  have "subseq (take j ?ss @ (k @ r)) (take j ?ss @ drop j ?ss)"
    by (rule list_emb_append_mono) (use next_active_subseq [OF a] in auto)
  then show ?thesis using l next_active_subseq [OF a] assms(2) by (auto simp: min_def)
qed

text \<open>One round of posting.\<close>

lemma keeps_order_bump:
  assumes "i < length xs" "s = xs ! i" "unat (eventKey s) < 2 ^ 31 - 1" "k = eventKey s + 1"
  shows "keeps_order xs (xs[i := s\<lparr>eventKey := k\<rparr>]) (J, F, log) (J, F, log)"
    and "job_key j = (ssid s, eventKey s) \<Longrightarrow>
      keeps_order xs (xs[i := s\<lparr>eventKey := k\<rparr>]) (J, F, log) (add_mset j J, F, log)"
  using ordered_bump [OF _ assms(3)] ordered_post [OF _ assms(3), where j = j] assms(2,4)
  by (auto intro!: keeps_order_update [OF assms(1) refl refl] simp: entry_of_def ordered_in_def)

lemma next_key_low: "unat (k :: 32 word) < 2 ^ 31 - 1 \<Longrightarrow> next_key k = k + 1"
  using unat_key_Suc [of k] sint_key [of "k + 1"] uint_ge_0 [of "k + 1"]
  by (auto simp: next_key_def simp del: uint_ge_0)

text \<open>What one operation does to a service: it keeps the order, and knows no new subscriptions.\<close>

definition good_change :: "service_info \<Rightarrow> service_info \<Rightarrow> traffic \<Rightarrow> traffic \<Rightarrow> bool" where
  "good_change sv sv' w w' = (same_service sv sv' \<and>
     ssid ` set (subscriptionList sv') \<subseteq> ssid ` set (subscriptionList sv) \<and>
     keeps_order (subscriptionList sv) (subscriptionList sv') w w')"

lemma good_change_refl [simp]: "good_change sv sv w w"
  by (simp add: good_change_def)

lemma good_change_trans: "good_change a b w w1 \<Longrightarrow> good_change b c w1 w2 \<Longrightarrow> good_change a c w w2"
  unfolding good_change_def same_service_def by (metis (no_types, lifting) keeps_order_trans order_trans)

lemma good_change_subseq:
  assumes "same_service sv sv'" "subseq (subscriptionList sv') (subscriptionList sv)"
  shows "good_change sv sv' w w"
proof -
  have "set (subscriptionList sv') \<subseteq> set (subscriptionList sv)" using list_emb_set [OF assms(2)] by blast
  then show ?thesis
    using assms(1) keeps_order_subseq [OF shrink_entries [OF assms(2)]] unfolding good_change_def by blast
qed

lemma good_change_update:
  assumes "keeps_order (subscriptionList sv) ((subscriptionList sv)[i := s]) w w'" "ssid s = ssid (subscriptionList sv ! i)"
    "i < length (subscriptionList sv)"
  shows "good_change sv (sv\<lparr>subscriptionList := (subscriptionList sv)[i := s]\<rparr>) w w'"
proof -
  have "set ((subscriptionList sv)[i := s]) \<subseteq> insert s (set (subscriptionList sv))" by (rule set_update_subset_insert)
  then show ?thesis using assms nth_mem [OF assms(3)] by (fastforce simp: good_change_def same_service_def)
qed

lemma GetSubscriptionSID_good: "GetSubscriptionSID t M sid sv = (pos, sv', M') \<Longrightarrow> good_change sv sv' w w"
  using GetSubscriptionSID_effect [of t M sid sv pos sv' M'] unlink_sub_subseq [of sid "subscriptionList sv"]
  by (cases pos) (auto intro: good_change_subseq)

lemma RemoveSubscriptionSID_good: "RemoveSubscriptionSID M sid sv = (sv', M') \<Longrightarrow> good_change sv sv' w w"
  using RemoveSubscriptionSID_effect [of M sid sv sv' M'] unlink_sub_subseq [of sid "subscriptionList sv"]
  by (auto intro: good_change_subseq)

text \<open>The whole loop of posting.\<close>

definition low_from :: "nat option \<Rightarrow> subscription list \<Rightarrow> bool" where
  "low_from cur xs = (\<forall>i. cur = Some i \<longrightarrow> i < length xs \<and> (\<forall>s \<in> set (drop i xs). unat (eventKey s) < 2 ^ 31 - 1))"

lemma low_from_next:
  assumes "next_from t M sv j = (nxt, sv', M')" "j \<le> length (subscriptionList sv)"
    and "\<forall>s \<in> set (drop j (subscriptionList sv)). unat (eventKey s) < 2 ^ 31 - 1"
  shows "low_from nxt (subscriptionList sv') \<and> good_change sv sv' w w"
  using next_from_effect [OF assms(1,2)] assms(3) by (auto simp: low_from_def intro: good_change_subseq)

lemma notify_all_loop_order:
  "notify_all_loop A P t b h fuel n rc cur sv M js = (rc', n', sv', M', js') \<Longrightarrow> low_from cur (subscriptionList sv) \<Longrightarrow>
    \<exists>new. js' = js @ new \<and> good_change sv sv' (J, F, log) (J + mset new, F, log)"
proof (induction A P t b h fuel n rc cur sv M js arbitrary: J rule: notify_all_loop.induct)
  case (3 A P t b h fuel n rc i sv M js)
  let ?f = "subscriptionList sv ! i"
  let ?j = "\<lparr>nblock = b, nsid = ssid ?f, neventKey = eventKey ?f, ndevice = h\<rparr>"
  let ?sv = "sv\<lparr>subscriptionList := (subscriptionList sv)[i := ?f\<lparr>eventKey := next_key (eventKey ?f)\<rparr>]\<rparr>"
  have i: "i < length (subscriptionList sv)" "unat (eventKey ?f) < 2 ^ 31 - 1"
    "\<forall>s \<in> set (drop (Suc i) (subscriptionList sv)). unat (eventKey s) < 2 ^ 31 - 1"
    using 3(3) by (auto simp: low_from_def Cons_nth_drop_Suc [symmetric])
  note nk = next_key_low [OF i(2)]
  have bump: "good_change sv ?sv (J, F, log) (J, F, log)"
    by (rule good_change_update [OF keeps_order_bump(1) [OF i(1) refl i(2) nk] _ i(1)]) simp
  have post: "good_change sv ?sv (J, F, log) (add_mset ?j J, F, log)"
    by (rule good_change_update [OF keeps_order_bump(2) [OF i(1) refl i(2) nk] _ i(1)]) (simp_all add: job_key_def)
  show ?case
  proof (cases "A n \<and> P n = 0")
    case True
    obtain nxt sv2 M2 where g: "GetNextSubscription t M ?sv (Some i) = (nxt, sv2, M2)" by (metis prod_cases3)
    have low: "low_from nxt (subscriptionList sv2) \<and> good_change ?sv sv2 w w" for w
      by (rule low_from_next [of t M ?sv "Suc i" nxt sv2 M2]) (use g i in \<open>simp_all add: GetNextSubscription_def\<close>)
    have "notify_all_loop A P t b h fuel (Suc n) 0 nxt sv2 M2 (js @ [?j]) = (rc', n', sv', M', js')"
      using 3(2) True g by (simp add: Let_def)
    then obtain new where n: "js' = (js @ [?j]) @ new"
        "good_change sv2 sv' (add_mset ?j J, F, log) (add_mset ?j J + mset new, F, log)"
      using 3(1) [OF _ refl refl refl _ g [symmetric] refl, of "add_mset ?j J"] True low by auto
    have "good_change ?sv sv2 (add_mset ?j J, F, log) (add_mset ?j J, F, log)" using low by blast
    from good_change_trans [OF post good_change_trans [OF this n(2)]]
    show ?thesis using n(1) by (intro exI [of _ "?j # new"]) simp
  next
    case False
    then show ?thesis using 3(2) bump by (auto simp: Let_def split: if_split_asm)
  qed
qed auto

section \<open>The invariant\<close>

text \<open>The subscription of a job that is being sent, when it still exists, is found again.\<close>

definition homes ::
  "handle_table \<Rightarrow> (nat \<Rightarrow> (notify_block \<times> int) option) \<Rightarrow> notify_thread_struct multiset \<Rightarrow> bool" where
  "homes T sh F = (\<forall>j \<in># F. nsid j \<in> ssid ` set (all_subs T) \<longrightarrow>
     (\<exists>b n k sv. sh (nblock j) = Some (b, n) \<and> home T b j = Some (k, sv) \<and> nsid j \<in> ssid ` set (subscriptionList sv)))"

definition good :: "handle_table \<Rightarrow> (nat \<Rightarrow> (notify_block \<times> int) option) \<Rightarrow> traffic \<Rightarrow> bool" where
  "good T sh w = (length T = nat NUM_HANDLE \<and> ordered_in (map entry_of (all_subs T)) w \<and> homes T sh (fst (snd w)))"

lemma homes_mono: "homes T sh F \<Longrightarrow> set_mset F' \<subseteq> set_mset F \<Longrightarrow> homes T sh F'"
  by (auto simp: homes_def)

lemma homes_shared:
  assumes "homes T sh F" "\<And>j. j \<in># F \<Longrightarrow> map_option fst (sh' (nblock j)) = map_option fst (sh (nblock j))"
  shows "homes T sh' F"
  unfolding homes_def
proof (intro ballI impI)
  fix j assume j: "j \<in># F" "nsid j \<in> ssid ` set (all_subs T)"
  then obtain b n k sv where b: "sh (nblock j) = Some (b, n)" "home T b j = Some (k, sv)"
      "nsid j \<in> ssid ` set (subscriptionList sv)" using assms(1) unfolding homes_def by blast
  then obtain n' where "sh' (nblock j) = Some (b, n')" using assms(2) [OF j(1)] by (cases "sh' (nblock j)") auto
  then show "\<exists>b n k sv. sh' (nblock j) = Some (b, n) \<and> home T b j = Some (k, sv) \<and> nsid j \<in> ssid ` set (subscriptionList sv)"
    using b by blast
qed

lemma ordered_in_distinct: "ordered_in (map entry_of ss) w \<Longrightarrow> distinct (map ssid ss)"
  by (cases w) (simp add: ordered_in_def ordered_def comp_def entry_of_def)

lemma homes_put:
  assumes h: "homes T sh F" and s: "service_at T h k = Some sv" "length T = nat NUM_HANDLE" "same_service sv sv'"
    and d: "distinct (map ssid (all_subs T))"
    and n: "ssid ` set (subscriptionList sv') \<subseteq> ssid ` set (subscriptionList sv) \<union> X" "X \<inter> nsid ` set_mset F = {}"
  shows "homes (put_service T h k sv') sh F"
  unfolding homes_def
proof (intro ballI impI)
  fix j assume j: "j \<in># F" "nsid j \<in> ssid ` set (all_subs (put_service T h k sv'))"
  obtain pre post where p: "all_subs T = pre @ subscriptionList sv @ post"
    "all_subs (put_service T h k sv') = pre @ subscriptionList sv' @ post" using all_subs_put [OF s(1,2)] by metis
  have nx: "nsid j \<notin> X" using n(2) j(1) by auto
  then have "nsid j \<in> ssid ` set (all_subs T)" using j(2) p n(1) by auto
  then obtain b m k' sv0 where b: "sh (nblock j) = Some (b, m)" "home T b j = Some (k', sv0)"
      "nsid j \<in> ssid ` set (subscriptionList sv0)" using h j(1) unfolding homes_def by blast
  note home_put [OF s b(2)]
  moreover have "nsid j \<in> ssid ` set (subscriptionList sv')" if "ndevice j = h" "k' = k"
  proof -
    have "sv0 = sv" using home_service [OF b(2)] s(1) that by simp
    then have "nsid j \<notin> ssid ` set (pre @ post)" using b(3) d p(1) by auto
    then show ?thesis using j(2) p(2) by auto
  qed
  ultimately show "\<exists>b n k0 sv. sh (nblock j) = Some (b, n) \<and> home (put_service T h k sv') b j = Some (k0, sv) \<and>
      nsid j \<in> ssid ` set (subscriptionList sv)"
    using b by (intro exI [of _ b] exI [of _ m] exI [of _ k'] exI [of _ "if ndevice j = h \<and> k' = k then sv' else sv0"]) auto
qed

text \<open>An operation on one service keeps the invariant.\<close>

lemma good_put:
  assumes g: "good T sh w" and s: "service_at T h k = Some sv" "same_service sv sv'"
    and o: "keeps_order (subscriptionList sv) (subscriptionList sv') w w'"
    and n: "ssid ` set (subscriptionList sv') \<subseteq> ssid ` set (subscriptionList sv) \<union> X" "X \<inter> nsid ` set_mset (fst (snd w)) = {}"
    and F: "set_mset (fst (snd w')) \<subseteq> set_mset (fst (snd w))"
  shows "good (put_service T h k sv') sh w'"
proof -
  have l: "length T = nat NUM_HANDLE" using g by (simp add: good_def)
  obtain pre post where p: "all_subs T = pre @ subscriptionList sv @ post"
    "all_subs (put_service T h k sv') = pre @ subscriptionList sv' @ post" using all_subs_put [OF s(1) l] by metis
  have "ordered_in (map entry_of (all_subs (put_service T h k sv'))) w'"
    using g o p unfolding good_def keeps_order_def by (metis map_append)
  moreover have "homes (put_service T h k sv') sh (fst (snd w'))"
    using homes_mono [OF homes_put [OF _ s(1) l s(2) _ n] F] g ordered_in_distinct unfolding good_def by blast
  ultimately show ?thesis using l by (simp add: good_def)
qed

lemma good_put_change:
  assumes "good T sh (J, F, log)" "service_at T h k = Some sv" "good_change sv sv' (J, F, log) (J', F', log')"
    and "set_mset F' \<subseteq> set_mset F"
  shows "good (put_service T h k sv') sh (J', F', log')"
  by (rule good_put [OF assms(1,2), where X = "{}"]) (use assms(3,4) in \<open>auto simp: good_change_def\<close>)

lemma good_fewer: "good T sh (J, F, log) \<Longrightarrow> J' \<subseteq># J \<Longrightarrow> F \<subseteq># J' \<Longrightarrow> good T sh (J', F, log)"
  using ordered_fewer by (auto simp: good_def ordered_in_def)

lemma good_shared: "good T sh (J, F, log) \<Longrightarrow>
    (\<And>j. j \<in># F \<Longrightarrow> map_option fst (sh' (nblock j)) = map_option fst (sh (nblock j))) \<Longrightarrow> good T sh' (J, F, log)"
  using homes_shared [of T sh F sh'] by (simp add: good_def)

end
