(* ===== verification/Gena_Order.thy ===== *)
theory Gena_Order imports Gena_Keys begin

text \<open>
  The order of the events: every operation of the event subsystem keeps the invariant of
  \<^verbatim>\<open>Gena_Keys\<close>, so in every reachable state the events that were sent to a subscriber carry the keys
  0, 1, 2, and so on, without a gap or a repetition.
\<close>

section \<open>What the requests do\<close>

text \<open>Nothing, or one change of one service.\<close>

definition served :: "handle_table \<Rightarrow> handle_table \<Rightarrow> bool" where
  "served T T' = (T' = T \<or> (\<exists>h k sv sv'. service_at T h k = Some sv \<and> T' = put_service T h k sv' \<and>
     (\<forall>w. good_change sv sv' w w)))"

lemma served_refl [simp]: "served T T" by (simp add: served_def)

lemma servedI: "service_at T h k = Some sv \<Longrightarrow> (\<And>w. good_change sv sv' w w) \<Longrightarrow> served T (put_service T h k sv')"
  unfolding served_def by blast

lemma good_served: "good T sh (J, F, log) \<Longrightarrow> served T T' \<Longrightarrow> good T' sh (J, F, log)"
  unfolding served_def using good_put_change by blast

lemma find_url_bound: "find_url M e u0 u1 i urls = Some (Some k) \<Longrightarrow> k < i + length urls"
proof (induction urls arbitrary: i u1)
  case (Cons x urls)
  then show ?case
    by (cases x) (auto split: Option.bind_split_asm option.split_asm if_split_asm prod.split_asm dest!: Cons.IH)
qed simp

lemma find_by_url_bound: "FindServiceEventURLPath e u0 u1 (Some T) path = Some (Some k) \<Longrightarrow> k < length (serviceList T)"
  unfolding FindServiceEventURLPath_def find_by_url_def
  by (auto simp: Let_def split: Option.bind_split_asm if_split_asm prod.split_asm dest!: find_url_bound)

lemma request_service_at:
  "request_service e path g = Some (Some (h, info, k)) \<Longrightarrow> service_at (handles g) h k = Some (services info ! k)"
  by (drule request_service_Some) (auto simp: service_at_def dest: find_by_url_bound)

lemma unsubscribe_request_served:
  assumes "genaUnsubscribeRequest e m g = Some (out, g')"
  shows "served (handles g) (handles g')"
proof -
  consider "g' = g" | path h info k where "request_path (gmem g) m = Some path"
      "request_service e path g = Some (Some (h, info, k))"
    using assms unfolding genaUnsubscribeRequest_def
    by (auto simp: Let_def answer_def split: Option.bind_split_asm option.split_asm if_split_asm prod.split_asm)
  then show ?thesis
  proof cases
    case 2
    note s = request_service_at [OF 2(2)]
    have g: "g' = g \<or> (\<exists>sid pos sv M. GetSubscriptionSID (now e) (gmem g) sid (services info ! k) = (pos, sv, M) \<and>
        (handles g' = put_service (handles g) h k sv \<or>
         (\<exists>sv' M'. RemoveSubscriptionSID M sid sv = (sv', M') \<and> handles g' = put_service (handles g) h k sv')))"
      using assms 2 unfolding genaUnsubscribeRequest_def
      by (auto simp: Let_def answer_def split: Option.bind_split_asm option.split_asm if_split_asm prod.split_asm) fast+
    then show ?thesis
      using servedI [OF s] GetSubscriptionSID_good good_change_trans [OF GetSubscriptionSID_good RemoveSubscriptionSID_good]
      by (elim disjE exE conjE) (simp, metis, metis)
  qed simp
qed

lemma renew_time_good:
  "i < length (subscriptionList sv) \<Longrightarrow> good_change sv (sv\<lparr>subscriptionList := (subscriptionList sv)
     [i := (subscriptionList sv ! i)\<lparr>expireTime := t\<rparr>]\<rparr>) w w"
  by (rule good_change_update [OF keeps_order_same]) (simp_all add: map_update entry_of_def list_update_same_conv)

lemma renew_found_served:
  assumes "renew_found e m h info k i sv M g = Some (out, g')" "handles g = put_service T h k sv"
    and s: "service_at T h k = Some sv0" "\<And>w. good_change sv0 sv w w" and i: "i < length (subscriptionList sv)"
  shows "served T (handles g')"
proof -
  let ?sid = "ssid (subscriptionList sv ! i)"
  have g': "(\<exists>sv' M'. RemoveSubscriptionSID M ?sid sv = (sv', M') \<and> handles g' = put_service T h k sv') \<or>
    (\<exists>t sv1. sv1 = sv\<lparr>subscriptionList := (subscriptionList sv)[i := (subscriptionList sv ! i)\<lparr>expireTime := t\<rparr>]\<rparr> \<and>
      (handles g' = put_service T h k sv1 \<or>
       (\<exists>sv' M'. RemoveSubscriptionSID M ?sid sv1 = (sv', M') \<and> handles g' = put_service T h k sv')))"
    using assms(1,2) unfolding renew_found_def
    by (fastforce simp: Let_def answer_def split: Option.bind_split_asm if_split_asm prod.split_asm)
  note two = good_change_trans [OF s(2)]
  show ?thesis
    using g' servedI [OF s(1)] s(2) two [OF RemoveSubscriptionSID_good] two [OF renew_time_good [OF i]]
      two [OF good_change_trans [OF renew_time_good [OF i] RemoveSubscriptionSID_good]]
    by (elim disjE exE conjE) metis+
qed

lemma renew_request_served:
  assumes "genaRenewRequest e m g = Some (out, g')"
  shows "served (handles g) (handles g')"
proof -
  consider "g' = g" | path h info k sid pos sv M where
      "request_service e path g = Some (Some (h, info, k))"
      "GetSubscriptionSID (now e) (gmem g) sid (services info ! k) = (pos, sv, M)"
      "case pos of None \<Rightarrow> handles g' = put_service (handles g) h k sv
        | Some i \<Rightarrow> renew_found e m h info k i sv M (g\<lparr>handles := put_service (handles g) h k sv, gmem := M\<rparr>) = Some (out, g')"
    using assms unfolding genaRenewRequest_def
    by (fastforce simp: Let_def answer_def split: Option.bind_split_asm option.split_asm if_split_asm prod.split_asm)
  then show ?thesis
  proof cases
    case 2
    note s = request_service_at [OF 2(1)] GetSubscriptionSID_good [OF 2(2)]
    show ?thesis
    proof (cases pos)
      case None
      then show ?thesis using 2(3) servedI [OF s] by simp
    next
      case (Some i)
      show ?thesis
        by (rule renew_found_served [OF _ _ s, where i = i]) (use 2(3) Some GetSubscriptionSID_effect [OF 2(2)] in auto)
    qed
  qed simp
qed

lemma add_subscription_effect:
  assumes "add_subscription e m h info k sv g = Some (out, ev, g')"
  shows "handles g' = handles g \<or> (\<exists>s sv'. ssid s = ''uuid:'' @ uuid e \<and> eventKey s = 0 \<and> ToSendEventKey s = 0 \<and>
    same_service sv sv' \<and> subscriptionList sv' = s # subscriptionList sv \<and> handles g' = put_service (handles g) h k sv')"
proof (cases ev)
  case None
  then show ?thesis using assms unfolding add_subscription_def
    by (auto simp: Let_def split: Option.bind_split_asm option.split_asm if_split_asm prod.split_asm)
next
  case (Some x)
  obtain s :: subscription and M where s: "ssid s = ''uuid:'' @ uuid e" "eventKey s = 0" "ToSendEventKey s = 0"
      "g' = g\<lparr>handles := put_service (handles g) h k (sv\<lparr>subscriptionList := s # subscriptionList sv,
        TotalSubscriptions := TotalSubscriptions sv + 1\<rparr>), gmem := M\<rparr>"
    using add_subscription_accepts [OF assms [unfolded Some]] by (elim exE conjE) (rule that)
  show ?thesis
    using s by (intro disjI2 exI [of _ s] exI [of _ "sv\<lparr>subscriptionList := s # subscriptionList sv,
        TotalSubscriptions := TotalSubscriptions sv + 1\<rparr>"]) (simp add: same_service_def)
qed

lemma good_add:
  assumes g: "good T sh (J, F, log)" and s: "service_at T h k = Some sv" "same_service sv sv'"
    "subscriptionList sv' = s # subscriptionList sv" "eventKey s = 0" "ToSendEventKey s = 0"
    and u: "ssid s \<notin> ssid ` set (all_subs T)" "ssid s \<notin> nsid ` set_mset J" "ssid s \<notin> fst ` set log"
  shows "good (put_service T h k sv') sh (J, F, log)"
proof -
  have l: "length T = nat NUM_HANDLE" using g by (simp add: good_def)
  obtain pre post where p: "all_subs T = pre @ subscriptionList sv @ post"
    "all_subs (put_service T h k sv') = pre @ subscriptionList sv' @ post" using all_subs_put [OF s(1) l] by metis
  have o: "ordered (map entry_of pre @ map entry_of (subscriptionList sv @ post)) J F log"
    using g p(1) by (simp add: good_def ordered_in_def)
  have F: "F \<subseteq># J" using o by (simp add: ordered_def)
  have "ordered (map entry_of pre @ (ssid s, 0, 0) # map entry_of (subscriptionList sv @ post)) J F log"
    by (rule ordered_add [OF o _ u(2,3)]) (use u(1) p(1) in \<open>auto simp: entry_of_def image_iff\<close>)
  then have "ordered_in (map entry_of (all_subs (put_service T h k sv'))) (J, F, log)"
    using p(2) s(3-5) by (simp add: ordered_in_def entry_of_def)
  moreover have "homes (put_service T h k sv') sh F"
  proof (rule homes_put [OF _ s(1) l s(2), where X = "{ssid s}"])
    show "homes T sh F" "distinct (map ssid (all_subs T))" using g ordered_in_distinct by (auto simp: good_def)
    show "{ssid s} \<inter> nsid ` set_mset F = {}" using u(2) F by (auto dest: mset_subset_eqD)
  qed (use s(3) in auto)
  ultimately show ?thesis using l by (simp add: good_def)
qed

section \<open>What jobs and posting do\<close>

lemma job_context_effect:
  assumes "job_context t b j g = Some (ctx, g')"
  shows "case ctx of
      None \<Rightarrow> handles g' = handles g \<and> home (handles g) b j = None \<or>
        (\<exists>k sv sv'. home (handles g) b j = Some (k, sv) \<and> handles g' = put_service (handles g) (ndevice j) k sv' \<and>
          same_service sv sv' \<and> subscriptionList sv' = fst (unlink_sub (nsid j) (subscriptionList sv)))
    | Some (k, sv, i) \<Rightarrow> home (handles g) b j = Some (k, sv) \<and>
        handles g' = put_service (handles g) (ndevice j) k sv \<and>
        i < length (subscriptionList sv) \<and> ssid (subscriptionList sv ! i) = nsid j"
proof (cases "home (handles g) b j")
  case None
  then show ?thesis
    using assms unfolding job_context_def home_def FindServiceId_def
    by (auto simp: Let_def split: Option.bind_split_asm option.split_asm if_split_asm prod.split_asm)
next
  case (Some p)
  then obtain info k where h: "device_info (handles g) (ndevice j) = Some info" "p = (k, services info ! k)"
    "find_service (nservId b) (nUDN b) (services info) = Some (Some k)" "svc_active (services info ! k)"
    by (auto simp: home_def split: option.split_asm if_split_asm)
  obtain pos sv' M where get: "GetSubscriptionSID t (gmem g) (nsid j) (services info ! k) = (pos, sv', M)"
    by (metis prod_cases3)
  have c: "ctx = map_option (\<lambda>i. (k, sv', i)) pos" "handles g' = put_service (handles g) (ndevice j) k sv'"
    using assms h get by (auto simp: job_context_def FindServiceId_def Let_def)
  show ?thesis
    using c Some h(2) GetSubscriptionSID_effect [OF get] by (cases pos) auto
qed

text \<open>A job whose subscription is gone, or whose service is.\<close>

lemma good_context_None:
  assumes "job_context t b j g = Some (None, g')" "good (handles g) sh (J, F, log)"
  shows "good (handles g') sh (J, F, log)"
  using job_context_effect [OF assms(1)]
proof (simp, elim disjE exE conjE)
  fix k sv sv'
  assume a: "home (handles g) b j = Some (k, sv)" "handles g' = put_service (handles g) (ndevice j) k sv'"
    "same_service sv sv'" "subscriptionList sv' = fst (unlink_sub (nsid j) (subscriptionList sv))"
  then show ?thesis
    using good_put_change [OF assms(2) home_service [OF a(1)] good_change_subseq [OF a(3)]] unlink_sub_subseq by simp
qed (use assms(2) in simp)

lemma good_context_Some:
  assumes "job_context t b j g = Some (Some (k, sv, i), g')" "length (handles g) = nat NUM_HANDLE"
  shows "handles g' = handles g" "home (handles g) b j = Some (k, sv)" "service_at (handles g) (ndevice j) k = Some sv"
    "i < length (subscriptionList sv)" "ssid (subscriptionList sv ! i) = nsid j"
  using job_context_effect [OF assms(1)] put_service_id [OF home_service assms(2)] home_service by auto

lemma service_subs_in: "service_at T h k = Some sv \<Longrightarrow> length T = nat NUM_HANDLE \<Longrightarrow>
    set (subscriptionList sv) \<subseteq> set (all_subs T)"
  by (rule all_subs_put) auto

text \<open>Posting.\<close>

lemma notify_all_good:
  assumes n: "notify_all A P t h b g = Some (rc, g')" and k: "keys_below g" and g: "good (handles g) sh (J, F, log)"
  shows "\<exists>new. pool g' = pool g @ new \<and> good (handles g') sh (J + mset new, F, log)"
proof (cases "device_info (handles g) h")
  case None
  then have "g' = g" using n by (simp add: notify_all_def)
  then show ?thesis using g by auto
next
  case (Some info)
  then obtain r where r: "FindServiceId (Some (ServiceTable info)) (nservId b) (nUDN b) = Some r"
    using n by (auto simp: notify_all_def split: Option.bind_split_asm)
  show ?thesis
  proof (cases r)
    case None
    then have "g' = g" using n Some r by (simp add: notify_all_def)
    then show ?thesis using g by auto
  next
    case rk: (Some k)
    let ?sv = "services info ! k"
    have s: "service_at (handles g) h k = Some ?sv"
      using r rk Some find_service_bound by (auto simp: FindServiceId_def service_at_def)
    have len: "length (handles g) = nat NUM_HANDLE" using g by (simp add: good_def)
    have low: "\<forall>x\<in>set (subscriptionList ?sv). unat (eventKey x) < 2 ^ 31 - 1"
      using k service_subs_in [OF s len] unfolding keys_below_def by blast
    obtain cur sv' M where f: "GetFirstSubscription t (gmem g) ?sv = (cur, sv', M)" by (metis prod_cases3)
    obtain rc' n' sv'' M' js where l: "notify_all_loop A P t (next_block g) h (Suc (length (subscriptionList ?sv)))
        0 GENA_SUCCESS cur sv' M [] = (rc', n', sv'', M', js)" by (metis prod_cases5)
    have first: "low_from cur (subscriptionList sv') \<and> good_change ?sv sv' w w" for w
      by (rule low_from_next [of t "gmem g" ?sv 0 cur sv' M]) (use f low in \<open>simp_all add: GetFirstSubscription_def\<close>)
    obtain new where new: "js = new" "good_change sv' sv'' (J, F, log) (J + mset new, F, log)"
      using notify_all_loop_order [OF l, of J F log] first by auto
    have g': "pool g' = pool g @ js" "handles g' = put_service (handles g) h k sv''"
      using n Some r rk f l by (auto simp: notify_all_def Let_def split: if_split_asm)
    have "good_change ?sv sv'' (J, F, log) (J + mset new, F, log)" using good_change_trans first new(2) by blast
    from good_put_change [OF g s this] show ?thesis using g' new(1) by auto
  qed
qed

text \<open>The initial event.\<close>

lemma init_begin_effect:
  assumes "init_begin t h udn serv sid g = Some (r, g')"
  shows "served (handles g) (handles g') \<and> (\<forall>k sv i. r = Inr (k, sv, i) \<longrightarrow> length (handles g) = nat NUM_HANDLE \<longrightarrow>
    service_at (handles g') h k = Some sv \<and> i < length (subscriptionList sv) \<and> ssid (subscriptionList sv ! i) = sid \<and>
    (keys_below g \<longrightarrow> unat (eventKey (subscriptionList sv ! i)) < 2 ^ 31 - 1))"
proof (cases "g' = g \<and> (\<exists>err. r = Inl err)")
  case True
  then show ?thesis by auto
next
  case False
  then obtain info k pos sv M where i: "device_info (handles g) h = Some info" "k < length (services info)"
      "GetSubscriptionSID t (gmem g) sid (services info ! k) = (pos, sv, M)"
      "(\<exists>err. r = Inl err) \<and> handles g' = put_service (handles g) h k sv \<or>
       (\<exists>i sv1. pos = Some i \<and> sv1 = sv\<lparr>subscriptionList := (subscriptionList sv)
          [i := (subscriptionList sv ! i)\<lparr>sub_active := True\<rparr>]\<rparr> \<and>
          r = Inr (k, sv1, i) \<and> handles g' = put_service (handles g) h k sv1)"
    using assms unfolding init_begin_def FindServiceId_def
    by (auto simp: Let_def dest!: find_service_bound
        split: Option.bind_split_asm option.split_asm if_split_asm prod.split_asm)
  have s: "service_at (handles g) h k = Some (services info ! k)" using i(1,2) by (simp add: service_at_def)
  note got = GetSubscriptionSID_good [OF i(3)]
  note sp = GetSubscriptionSID_effect [OF i(3)]
  from i(4) show ?thesis
  proof (elim disjE exE conjE)
    fix err assume "r = Inl err" "handles g' = put_service (handles g) h k sv"
    then show ?thesis using servedI [OF s got] by simp
  next
    fix i sv1
    assume a: "pos = Some i" "sv1 = sv\<lparr>subscriptionList := (subscriptionList sv)
        [i := (subscriptionList sv ! i)\<lparr>sub_active := True\<rparr>]\<rparr>"
      "r = Inr (k, sv1, i)" "handles g' = put_service (handles g) h k sv1"
    have il: "i < length (subscriptionList sv)" "ssid (subscriptionList sv ! i) = sid" "sv = services info ! k"
      using sp a(1) by auto
    have "good_change sv sv1 w w" for w
      unfolding a(2) using il(1)
      by (intro good_change_update [OF keeps_order_same]) (simp_all add: map_update entry_of_def list_update_same_conv)
    then have "served (handles g) (handles g')" using servedI [OF s] a(4) il(3) by simp
    moreover have "unat (eventKey (subscriptionList sv ! i)) < 2 ^ 31 - 1"
      if "keys_below g" "length (handles g) = nat NUM_HANDLE"
      using that(1) service_subs_in [OF s that(2)] nth_mem [OF il(1)] il(3) unfolding keys_below_def by blast
    ultimately show ?thesis
      using a(2-4) il service_at_put [OF s] by auto
  qed
qed

lemma init_schedule_good:
  assumes i: "init_schedule A4 A5 pool_rc h udn serv sid (k, sv, i) ps True g = Some (rc, g')"
    and g: "good (handles g) sh (J, F, log)" and s: "service_at (handles g) h k = Some sv"
    and l: "i < length (subscriptionList sv)" "ssid (subscriptionList sv ! i) = sid"
      "unat (eventKey (subscriptionList sv ! i)) < 2 ^ 31 - 1"
  shows "\<exists>new. pool g' = pool g @ new \<and> good (handles g') sh (J + mset new, F, log)"
proof -
  let ?s = "subscriptionList sv ! i"
  let ?sv = "sv\<lparr>subscriptionList := (subscriptionList sv)[i := ?s\<lparr>eventKey := eventKey ?s + 1\<rparr>]\<rparr>"
  let ?j = "\<lparr>nblock = next_block g, nsid = sid, neventKey = eventKey ?s, ndevice = h\<rparr>"
  have bump: "good_change sv ?sv (J, F, log) (J, F, log)" "good_change sv ?sv (J, F, log) (add_mset ?j J, F, log)"
    by (rule good_change_update [OF keeps_order_bump(1) [OF l(1) refl l(3) refl] _ l(1)], simp)
      (rule good_change_update [OF keeps_order_bump(2) [OF l(1) refl l(3) refl] _ l(1)], simp_all add: job_key_def l(2))
  consider "g' = g" | "pool g' = pool g" "handles g' = put_service (handles g) h k ?sv"
    | "pool g' = pool g @ [?j]" "handles g' = put_service (handles g) h k ?sv"
    using i unfolding init_schedule_def
    by (auto simp: Let_def split: Option.bind_split_asm if_split_asm)
  then show ?thesis
  proof cases
    case 1
    then show ?thesis using g by (intro exI [of _ "[]"]) simp
  next
    case 2
    then show ?thesis using good_put_change [OF g s bump(1)] by (intro exI [of _ "[]"]) simp
  next
    case 3
    then show ?thesis using good_put_change [OF g s bump(2)] by (intro exI [of _ "[?j]"]) simp
  qed
qed

lemma genaInitNotify_good:
  assumes i: "genaInitNotify A pool_rc t h udn serv names vals n sid g = Some (rc, g')" and k: "keys_below g"
    and g: "good (handles g) sh (J, F, log)"
  shows "\<exists>new. pool g' = pool g @ new \<and> good (handles g') sh (J + mset new, F, log)"
proof -
  have len: "length (handles g) = nat NUM_HANDLE" using g by (simp add: good_def)
  consider "g' = g" | err where "init_begin t h udn serv sid g = Some (Inl err, g')"
    | ctx where "init_begin t h udn serv sid g = Some (Inr ctx, g')"
    | ctx g1 ps where "init_begin t h udn serv sid g = Some (Inr ctx, g1)"
      "init_schedule (A 4) (A 5) pool_rc h udn serv sid ctx ps True g1 = Some (rc, g')"
    using i unfolding genaInitNotify_def
    by (auto split: Option.bind_split_asm option.split_asm if_split_asm prod.split_asm sum.split_asm)
  then show ?thesis
  proof cases
    case 1
    then show ?thesis using g by (intro exI [of _ "[]"]) simp
  next
    case 2
    then show ?thesis using good_served [OF g] init_begin_effect [OF 2] init_begin_jobs [OF 2]
      by (intro exI [of _ "[]"]) (simp add: same_jobs_def)
  next
    case 3
    then show ?thesis using good_served [OF g] init_begin_effect [OF 3] init_begin_jobs [OF 3]
      by (intro exI [of _ "[]"]) (simp add: same_jobs_def)
  next
    case 4
    obtain k sv i where ctx: "ctx = (k, sv, i)" by (cases ctx)
    have b: "served (handles g) (handles g1)" "service_at (handles g1) h k = Some sv" "i < length (subscriptionList sv)"
      "ssid (subscriptionList sv ! i) = sid" "unat (eventKey (subscriptionList sv ! i)) < 2 ^ 31 - 1"
      using init_begin_effect [OF 4(1)] ctx len assms(2) by auto
    show ?thesis
      using init_schedule_good [OF 4(2) [unfolded ctx] good_served [OF g b(1)] b(2-5)] init_begin_jobs [OF 4(1)]
      by (simp add: same_jobs_def)
  qed
qed

lemma distinct_middle: "distinct (map f (A @ B @ C)) \<Longrightarrow> x \<in> f ` set B \<Longrightarrow> x \<notin> f ` set (A @ C)"
  by auto

lemma unregister_good:
  assumes u: "genaUnregisterDevice h g = (rc, g')" and g: "good (handles g) sh (J, F, log)"
  shows "good (handles g') sh (J, F, log)"
proof (cases "device_info (handles g) h")
  case None
  then show ?thesis using u g by (simp add: genaUnregisterDevice_def)
next
  case (Some info)
  let ?T = "handles g" let ?T' = "handles g'"
  let ?info = "info\<lparr>ServiceTable := (ServiceTable info)\<lparr>serviceList := []\<rparr>\<rparr>"
  have len: "length ?T = nat NUM_HANDLE" using g by (simp add: good_def)
  note h = device_index [OF Some len]
  have T': "?T' = ?T[nat h := Some ?info]" using u Some by (auto simp: genaUnregisterDevice_def)
  let ?f = "\<lambda>i. case i of None \<Rightarrow> [] | Some info \<Rightarrow> concat (map subscriptionList (services info))"
  let ?A = "concat (map ?f (take (nat h) ?T))" and ?B = "concat (map ?f (drop (Suc (nat h)) ?T))"
  have all: "all_subs ?T = ?A @ concat (map subscriptionList (services info)) @ ?B" "all_subs ?T' = ?A @ ?B"
    using concat_nth [of "nat h" ?T ?f] concat_update [of "nat h" ?T ?f "Some ?info"] h T' by (simp_all add: all_subs_def)
  have d: "distinct (map ssid (all_subs ?T))" using g ordered_in_distinct by (auto simp: good_def)
  have dev: "device_info ?T' h' = device_info ?T h'" if "h' \<noteq> h" for h'
    using that h by (cases "1 \<le> h'") (auto simp: T' device_info_def GetHandleInfo_def)
  have "homes ?T' sh F"
    unfolding homes_def
  proof (intro ballI impI)
    fix j assume j: "j \<in># F" "nsid j \<in> ssid ` set (all_subs ?T')"
    then obtain b n k sv where b: "sh (nblock j) = Some (b, n)" "home ?T b j = Some (k, sv)"
        "nsid j \<in> ssid ` set (subscriptionList sv)"
    proof -
      have "nsid j \<in> ssid ` set (all_subs ?T)" using j(2) all by auto
      then show thesis using g j(1) that unfolding good_def homes_def by (metis fst_conv snd_conv)
    qed
    have "ndevice j \<noteq> h"
    proof
      assume "ndevice j = h"
      then have "sv \<in> set (services info)"
        using home_service [OF b(2)] Some by (auto simp: service_at_def split: if_split_asm)
      then have "nsid j \<in> ssid ` set (concat (map subscriptionList (services info)))" using b(3) by auto
      then show False using distinct_middle [OF d [unfolded all(1)]] j(2) all(2) by metis
    qed
    then have "home ?T' b j = home ?T b j" using dev by (simp add: home_def)
    then show "\<exists>b n k sv. sh (nblock j) = Some (b, n) \<and> home ?T' b j = Some (k, sv) \<and> nsid j \<in> ssid ` set (subscriptionList sv)"
      using b by auto
  qed
  moreover have "subseq (map entry_of (all_subs ?T')) (map entry_of (all_subs ?T))"
    unfolding all by (intro subseq_map list_emb_append_mono) auto
  then have "ordered_in (map entry_of (all_subs ?T')) (J, F, log)"
    using g ordered_subseq by (auto simp: good_def ordered_in_def)
  ultimately show ?thesis using len T' by (simp add: good_def)
qed

text \<open>The two halves of a job.\<close>

lemma notify_begin_effect:
  assumes "notify_begin e t pool_ok fresh j g = Some (fate, g')"
  shows "\<exists>b n ctx g1. shared g (nblock j) = Some (b, n) \<and> job_context t b j g = Some (ctx, g1) \<and> handles g' = handles g1 \<and>
    (\<forall>c b'. fate = Sending c b' \<longrightarrow> (\<exists>k sv i. ctx = Some (k, sv, i) \<and> neventKey j = ToSendEventKey (subscriptionList sv ! i) \<and>
       ToSendEventKey c = neventKey j))"
proof -
  have free: "handles g2 = handles g1" if "free_notify_struct j g1 = Some g2" for g1 g2
    using that by (auto simp: free_notify_struct_def split: Option.bind_split_asm if_split_asm prod.split_asm)
  obtain b n ctx g1 where b: "shared g (nblock j) = Some (b, n)" "job_context t b j g = Some (ctx, g1)"
    using assms by (auto simp: notify_begin_def split: Option.bind_split_asm)
  show ?thesis
  proof (cases ctx)
    case None
    then show ?thesis using assms b by (auto simp: notify_begin_def dest: free)
  next
    case (Some p)
    then obtain k sv i where p: "ctx = Some (k, sv, i)" by (cases p) auto
    let ?sub = "subscriptionList sv ! i"
    obtain rc c M where c: "copy_subscription (gmem g1) e fresh ?sub = Some (rc, c, M)"
      using assms b p by (auto simp: notify_begin_def Let_def split: Option.bind_split_asm)
    have k: "ToSendEventKey c = ToSendEventKey ?sub"
      using c by (auto simp: copy_subscription_def split: Option.bind_split_asm prod.split_asm)
    show ?thesis
      using assms b p c k
      by (auto simp: notify_begin_def Let_def dest: free split: if_split_asm)
  qed
qed

lemma begin_good:
  assumes b: "notify_begin e t pool_ok fresh j g = Some (fate, g')" and g: "good (handles g) sh (J, F, log)"
  shows "good (handles g') sh (J, F, log)"
proof -
  obtain b ctx g1 where c: "job_context t b j g = Some (ctx, g1)" "handles g' = handles g1"
    using notify_begin_effect [OF b] by (elim exE conjE) (rule that)
  have len: "length (handles g) = nat NUM_HANDLE" using g by (simp add: good_def)
  show ?thesis
  proof (cases ctx)
    case None
    then show ?thesis using good_context_None [OF _ g] c by metis
  next
    case (Some p)
    then obtain k sv i where "ctx = Some (k, sv, i)" by (cases p) auto
    then show ?thesis using good_context_Some(1) [OF _ len] c g by metis
  qed
qed

lemma send_good:
  assumes b: "notify_begin e t pool_ok fresh j g = Some (Sending c b', g')"
    and g: "good (handles g) (shared g) (J, F, log)" and j: "add_mset j F \<subseteq># J"
  shows "good (handles g') (shared g) (J, add_mset j F, log @ [(nsid j, ToSendEventKey c)])"
proof -
  obtain b n k sv i g1 where sh: "shared g (nblock j) = Some (b, n)"
    and c: "job_context t b j g = Some (Some (k, sv, i), g1)" "handles g' = handles g1"
    and key: "neventKey j = ToSendEventKey (subscriptionList sv ! i)" "ToSendEventKey c = neventKey j"
    using notify_begin_effect [OF b] by (elim exE conjE) (drule spec2, drule mp [OF _ refl], elim exE conjE, rule that, simp_all)
  have len: "length (handles g) = nat NUM_HANDLE" using g by (simp add: good_def)
  note ctx = good_context_Some [OF c(1) len]
  let ?s = "subscriptionList sv ! i"
  have "?s \<in> set (all_subs (handles g))" using service_subs_in [OF ctx(3) len] nth_mem [OF ctx(4)] by blast
  then have "entry_of ?s \<in> set (map entry_of (all_subs (handles g)))" by simp
  then have "(nsid j, eventKey ?s, neventKey j) \<in> set (map entry_of (all_subs (handles g)))"
    using ctx(5) key(1) by (simp add: entry_of_def)
  then have "ordered (map entry_of (all_subs (handles g))) J (add_mset j F) (log @ [job_key j])"
    using ordered_send [OF _ j] g by (simp add: good_def ordered_in_def)
  moreover have "homes (handles g) (shared g) (add_mset j F)"
  proof -
    have "nsid j \<in> ssid ` set (subscriptionList sv)" using ctx(5) nth_mem [OF ctx(4)] by (metis image_eqI)
    then show ?thesis using g sh ctx(2) unfolding homes_def good_def by auto
  qed
  ultimately show ?thesis using len ctx(1) c(2) key(2) by (simp add: good_def ordered_in_def job_key_def)
qed

lemma context_gone:
  assumes c: "job_context t b j g = Some (None, g')" and g: "good (handles g) sh (J, F, log)"
    and sh: "sh (nblock j) = Some (b, n)" and j: "j \<in># F"
  shows "nsid j \<notin> ssid ` set (all_subs (handles g'))"
proof -
  have len: "length (handles g) = nat NUM_HANDLE" using g by (simp add: good_def)
  have d: "distinct (map ssid (all_subs (handles g)))" using g ordered_in_distinct by (auto simp: good_def)
  have h: "nsid j \<in> ssid ` set (all_subs (handles g)) \<Longrightarrow>
      \<exists>k sv. home (handles g) b j = Some (k, sv) \<and> nsid j \<in> ssid ` set (subscriptionList sv)"
  proof -
    assume a: "nsid j \<in> ssid ` set (all_subs (handles g))"
    have "homes (handles g) sh F" using g by (simp add: good_def)
    then obtain b' n' k sv where "sh (nblock j) = Some (b', n')" "home (handles g) b' j = Some (k, sv)"
        "nsid j \<in> ssid ` set (subscriptionList sv)" using a j unfolding homes_def by blast
    then show ?thesis using sh by auto
  qed
  consider "handles g' = handles g" "home (handles g) b j = None" | k and sv sv' :: service_info where
      "home (handles g) b j = Some (k, sv)" "handles g' = put_service (handles g) (ndevice j) k sv'"
      "subscriptionList sv' = fst (unlink_sub (nsid j) (subscriptionList sv))"
    using job_context_effect [OF c] by auto
  then show ?thesis
  proof cases
    case 1
    then show ?thesis using h by auto
  next
    case 2
    obtain pre post where p: "all_subs (handles g) = pre @ subscriptionList sv @ post"
      "all_subs (handles g') = pre @ subscriptionList sv' @ post"
      using all_subs_put [OF home_service [OF 2(1)] len] 2(2) by metis
    have "distinct (map ssid (subscriptionList sv))" using d p(1) by simp
    then have u: "nsid j \<notin> ssid ` set (subscriptionList sv')"
      using service_subs.distinct_unlink [of "subscriptionList sv" "nsid j"] 2(3) by auto
    show ?thesis
    proof
      assume "nsid j \<in> ssid ` set (all_subs (handles g'))"
      then have o: "nsid j \<in> ssid ` set (pre @ post)" using u p(2) by auto
      then have "nsid j \<in> ssid ` set (all_subs (handles g))" using p(1) by auto
      then have "nsid j \<in> ssid ` set (subscriptionList sv)" using h 2(1) by auto
      then show False using distinct_middle [OF d [unfolded p(1)]] o by metis
    qed
  qed
qed

lemma finish_change:
  assumes "i < length (subscriptionList sv)" "s = subscriptionList sv ! i" "ssid s = nsid j"
  shows "good_change sv (sv\<lparr>subscriptionList := (subscriptionList sv)[i := s\<lparr>ToSendEventKey := next_key (ToSendEventKey s)\<rparr>]\<rparr>)
    (add_mset j J, add_mset j F, log) (J, F, log)"
  by (rule good_change_update [OF keeps_order_update [OF assms(1) refl refl]])
    (use assms ordered_finish in \<open>auto simp: entry_of_def ordered_in_def\<close>)

lemma finish_good:
  assumes e: "notify_end t j c rc g = Some g'"
    and g: "good (handles g) (shared g) (add_mset j J, add_mset j F, log)"
  shows "good (handles g') (shared g) (J, F, log)"
proof -
  let ?g = "g\<lparr>gmem := freeSubscription (gmem g) c\<rparr>"
  have free: "handles g2 = handles g1" if "free_notify_struct j g1 = Some g2" for g1 g2
    using that by (auto simp: free_notify_struct_def split: Option.bind_split_asm if_split_asm prod.split_asm)
  obtain b n ctx g1 where c: "shared g (nblock j) = Some (b, n)" "job_context t b j ?g = Some (ctx, g1)"
    using e by (auto simp: notify_end_def Let_def split: Option.bind_split_asm)
  have len: "length (handles g) = nat NUM_HANDLE" using g by (simp add: good_def)
  have g2: "good (handles ?g) (shared g) (add_mset j J, add_mset j F, log)" using g by simp
  show ?thesis
  proof (cases ctx)
    case None
    have "good (handles g1) (shared g) (add_mset j J, add_mset j F, log)"
      using good_context_None [OF c(2) [unfolded None] g2] .
    moreover have "nsid j \<notin> ssid ` set (all_subs (handles g1))"
      by (rule context_gone [OF c(2) [unfolded None] g2 c(1)]) simp
    then have "nsid j \<notin> fst ` set (map entry_of (all_subs (handles g1)))" by (auto simp: entry_of_def)
    ultimately have "good (handles g1) (shared g) (J, F, log)"
      using ordered_finish_gone homes_mono [of "handles g1" "shared g" "add_mset j F" F]
      by (auto simp: good_def ordered_in_def)
    then show ?thesis using e c None by (auto simp: notify_end_def Let_def dest: free)
  next
    case (Some p)
    then obtain k sv i where p: "ctx = Some (k, sv, i)" by (cases p) auto
    note ctx = good_context_Some [OF c(2) [unfolded p]]
    let ?s = "subscriptionList sv ! i"
    let ?sv = "sv\<lparr>subscriptionList := (subscriptionList sv)[i := ?s\<lparr>ToSendEventKey := next_key (ToSendEventKey ?s)\<rparr>]\<rparr>"
    have l: "length (handles ?g) = nat NUM_HANDLE" using len by simp
    have next1: "good_change sv ?sv (add_mset j J, add_mset j F, log) (J, F, log)"
      by (rule finish_change [OF ctx(4) [OF l] refl ctx(5) [OF l]])
    obtain sv' M where rm: "(if rc = GENA_E_NOTIFY_UNACCEPTED_REMOVE_SUB
        then RemoveSubscriptionSID (gmem g1) (nsid j) ?sv else (?sv, gmem g1)) = (sv', M)" by (metis prod.exhaust)
    have r: "sv' = ?sv \<or> RemoveSubscriptionSID (gmem g1) (nsid j) ?sv = (sv', M)"
      using rm by (auto split: if_split_asm)
    have h: "handles g' = put_service (handles g1) (ndevice j) k sv'"
      using e c p rm by (auto simp: notify_end_def Let_def dest!: free)
    have "good_change sv sv' (add_mset j J, add_mset j F, log) (J, F, log)"
      using r next1 good_change_trans [OF next1 RemoveSubscriptionSID_good] by blast
    from good_put_change [OF g2 ctx(3) [OF l] this] show ?thesis using h ctx(1) [OF l] by auto
  qed
qed

section \<open>The headers of a job do not change\<close>

definition stable ::
  "(nat \<Rightarrow> (notify_block \<times> int) option) \<Rightarrow> nat \<Rightarrow> (nat \<Rightarrow> (notify_block \<times> int) option) \<Rightarrow> bool" where
  "stable sh nxt sh' = (\<forall>b < nxt. sh' b \<noteq> None \<longrightarrow> map_option fst (sh' b) = map_option fst (sh b))"

lemma stable_refl [simp]: "stable sh nxt sh" by (simp add: stable_def)

lemma stable_released:
  assumes "released j g g'"
  shows "stable (shared g) nxt (shared g')"
proof -
  obtain g1 where "same_jobs g g1" "free_notify_struct j g1 = Some g'" using assms by (auto simp: released_def)
  then show ?thesis
    by (auto simp: stable_def same_jobs_def free_notify_struct_def split: Option.bind_split_asm if_split_asm prod.split_asm)
qed

lemma stable_new: "stable sh nxt (sh(nxt := x))"
  by (simp add: stable_def)

lemma step_stable:
  "gstep ok s s' \<Longrightarrow> stable (shared (now_g s)) (next_block (now_g s)) (shared (now_g s'))"
proof (induction rule: gstep.induct)
  case (Post s P A t h udn serv names vals n rc g')
  from Post(3) show ?case
  proof (rule genaNotifyAll_cases)
    fix A' b assume n: "notify_all A' P t h b (now_g s) = Some (rc, g')"
    obtain m where "if m = 0 then shared g' = shared (now_g s) \<and> next_block g' = next_block (now_g s)
        else shared g' = (shared (now_g s))(next_block (now_g s) := Some (b, int m)) \<and>
          next_block g' = Suc (next_block (now_g s))"
      using notify_all_jobs [OF n] by metis
    then show ?thesis using stable_new by (cases "m = 0") (auto simp del: fun_upd_apply)
  qed simp
next
  case (Initial s A pool_rc t h udn serv names vals n sid rc g')
  from genaInitNotify_jobs [OF Initial(2)] show ?case
    using stable_new by (auto simp: same_jobs_def simp del: fun_upd_apply)
next
  case (Drop s ps j qs e t pool_ok fresh g')
  then show ?case using notify_begin_jobs [OF Drop(2)] stable_released by fastforce
next
  case (Requeue s ps j qs pool_ok e t fresh g')
  then show ?case using notify_begin_jobs [OF Requeue(3)] by simp
next
  case (Send s ps j qs e t pool_ok fresh c b g')
  then show ?case using notify_begin_jobs [OF Send(2)] by (simp add: same_jobs_def)
next
  case (Finish s fs j c hs t rc g')
  then show ?case using stable_released [OF notify_end_jobs [OF Finish(2)]] by simp
next
  case (Subscribe e s m out ev g')
  then show ?case using subscribe_jobs by (fastforce simp: same_jobs_def)
next
  case (Unsubscribe e m s out g')
  then show ?case using unsubscribe_request_jobs by (fastforce simp: same_jobs_def)
next
  case (Unregister h s rc g')
  then show ?case using unregister_device_jobs by (fastforce simp: same_jobs_def)
qed

section \<open>The theorem\<close>

definition in_order :: "gsys \<Rightarrow> bool" where
  "in_order s = good (handles (now_g s)) (shared (now_g s)) (mset (jobs s), mset (map fst (flying s)), sent_log s)"

lemma good_stable:
  assumes "good T sh (J, F, log)" "stable sh nxt sh'" "counted ok sh nxt hs" "counted ok sh' nxt' hs'"
    and "\<And>j. j \<in># F \<Longrightarrow> nblock j \<in># hs \<and> nblock j \<in># hs'"
  shows "good T sh' (J, F, log)"
proof (rule good_shared [OF assms(1)])
  fix j assume "j \<in># F"
  then have h: "nblock j \<in># hs" "nblock j \<in># hs'" using assms(5) by auto
  have "nblock j < nxt" using counted_fresh [OF assms(3), of "nblock j"] h(1) by (metis count_eq_zero_iff not_le)
  then show "map_option fst (sh' (nblock j)) = map_option fst (sh (nblock j))"
    using counted_block [OF assms(4) h(2)] assms(2) unfolding stable_def by auto
qed

lemma free_pool: "free_notify_struct j g = Some g' \<Longrightarrow> pool g' = pool g"
  by (auto simp: free_notify_struct_def split: Option.bind_split_asm if_split_asm prod.split_asm)

lemma subscribe_good:
  assumes r: "genaSubscribeOrRenew e m g = Some (out, ev, g')" and g: "good (handles g) sh (J, F, log)"
    and u: "''uuid:'' @ uuid e \<notin> ssid ` set (all_subs (handles g))" "''uuid:'' @ uuid e \<notin> nsid ` set_mset J"
      "''uuid:'' @ uuid e \<notin> fst ` set log"
  shows "good (handles g') sh (J, F, log)"
proof -
  consider "genaRenewRequest e m g = Some (out, g')" | "g' = g"
    | path h info k where "request_service e path g = Some (Some (h, info, k))"
        "add_subscription e m h info k (services info ! k) g = Some (out, ev, g')"
    using r unfolding genaSubscribeOrRenew_def genaSubscriptionRequest_def
    by (auto split: Option.bind_split_asm option.split_asm if_split_asm prod.split_asm)
  then show ?thesis
  proof cases
    case 1
    then show ?thesis using good_served [OF g renew_request_served] by blast
  next
    case 2
    then show ?thesis using g by simp
  next
    case 3
    note s = request_service_at [OF 3(1)]
    from add_subscription_effect [OF 3(2)] show ?thesis
    proof (elim disjE exE conjE)
      fix s :: subscription and sv' :: service_info
      assume a: "ssid s = ''uuid:'' @ uuid e" "eventKey s = 0" "ToSendEventKey s = 0"
        "same_service (services info ! k) sv'" "subscriptionList sv' = s # subscriptionList (services info ! k)"
        "handles g' = put_service (handles g) h k sv'"
      show ?thesis
        unfolding a(6) by (rule good_add [OF g s a(4,5,2,3)]) (use u a(1) in simp_all)
    qed (use g in simp)
  qed
qed

lemma step_good:
  "gstep ok s s' \<Longrightarrow> in_order s \<Longrightarrow>
    good (handles (now_g s')) (shared (now_g s)) (mset (jobs s'), mset (map fst (flying s')), sent_log s')"
proof (induction rule: gstep.induct)
  case (Post s P A t h udn serv names vals n rc g')
  from Post(3) show ?case
  proof (rule genaNotifyAll_cases)
    assume "g' = now_g s"
    then show ?thesis using Post(4) by (simp add: in_order_def jobs_def)
  next
    fix A' b assume n: "notify_all A' P t h b (now_g s) = Some (rc, g')"
    show ?thesis
      using notify_all_good [OF n Post(1) Post(4) [unfolded in_order_def]] by (auto simp: jobs_def ac_simps)
  qed
next
  case (Initial s A pool_rc t h udn serv names vals n sid rc g')
  show ?case
    using genaInitNotify_good [OF Initial(2,1) Initial(3) [unfolded in_order_def]] by (auto simp: jobs_def ac_simps)
next
  case (Drop s ps j qs e t pool_ok fresh g')
  have "pool g' = ps @ qs"
    using notify_begin_jobs [OF Drop(2)] free_pool by (auto simp: released_def same_jobs_def)
  then show ?case
    using good_fewer [OF begin_good [OF Drop(2)], where J' = "mset (ps @ qs) + mset (map fst (flying s))"] Drop(1,3)
    by (auto simp: in_order_def jobs_def ac_simps)
next
  case (Requeue s ps j qs pool_ok e t fresh g')
  have "pool g' = ps @ qs @ (if pool_ok then [j] else [])" using notify_begin_jobs [OF Requeue(3)] by simp
  then show ?case
    using good_fewer [OF begin_good [OF Requeue(3)], where J' = "mset (pool g') + mset (map fst (flying s))"] Requeue(1,4)
    by (auto simp: in_order_def jobs_def ac_simps)
next
  case (Send s ps j qs e t pool_ok fresh c b g')
  have "pool g' = ps @ qs" using notify_begin_jobs [OF Send(2)] by (simp add: same_jobs_def)
  then show ?case
    using send_good [OF Send(2), of "mset (jobs s)" "mset (map fst (flying s))" "sent_log s"] Send(1,3)
    by (simp add: in_order_def jobs_def)
next
  case (Finish s fs j c hs t rc g')
  have "pool g' = pool (now_g s)"
    using notify_end_jobs [OF Finish(2)] free_pool by (auto simp: released_def same_jobs_def)
  then show ?case
    using finish_good [OF Finish(2), of "mset (pool (now_g s)) + mset (map fst (fs @ hs))" "mset (map fst (fs @ hs))" "sent_log s"]
      Finish(1,3)
    by (simp add: in_order_def jobs_def)
next
  case (Subscribe e s m out ev g')
  show ?case
    using subscribe_good [OF Subscribe(2) Subscribe(3) [unfolded in_order_def]] Subscribe(1) subscribe_jobs [OF Subscribe(2)]
    by (auto simp: unused_sid_def jobs_def same_jobs_def image_iff)
next
  case (Unsubscribe e m s out g')
  show ?case
    using good_served [OF Unsubscribe(2) [unfolded in_order_def] unsubscribe_request_served [OF Unsubscribe(1)]]
      unsubscribe_request_jobs [OF Unsubscribe(1)]
    by (simp add: jobs_def same_jobs_def)
next
  case (Unregister h s rc g')
  show ?case
    using unregister_good [OF Unregister(1) Unregister(2) [unfolded in_order_def]] unregister_device_jobs [OF Unregister(1)]
    by (simp add: jobs_def same_jobs_def)
qed

lemma flying_step: "gstep ok s s' \<Longrightarrow> fst ` set (flying s') \<subseteq> set (jobs s)"
  by (induction rule: gstep.induct) (auto simp: jobs_def)

lemma step_in_order:
  assumes "gstep ok s s'" "in_order s" "blocks_counted ok s"
  shows "in_order s'"
proof -
  have g: "good (handles (now_g s')) (shared (now_g s)) (mset (jobs s'), mset (map fst (flying s')), sent_log s')"
    using step_good [OF assms(1,2)] .
  have "nblock j \<in># holders s \<and> nblock j \<in># holders s'" if "j \<in># mset (map fst (flying s'))" for j
  proof -
    have "j \<in> fst ` set (flying s')" using that by simp
    then have "j \<in> set (jobs s)" "j \<in> set (jobs s')" using flying_step [OF assms(1)] by (auto simp: jobs_def)
    then show ?thesis by (simp add: holders_def)
  qed
  then show ?thesis
    using good_stable [OF g step_stable [OF assms(1)] assms(3) step_counted [OF assms(1,3)]]
    by (simp add: in_order_def)
qed

lemma reachable_in_order: "reachable ok s \<Longrightarrow> in_order s"
proof (induction rule: reachable.induct)
  case (Start s)
  then show ?case
    by (auto simp: initial_def in_order_def good_def homes_def ordered_in_def ordered_def jobs_def distinct_keys_def)
next
  case (Step s s')
  then show ?case using step_in_order reachable_counted by blast
qed

lemma one_in_flight:
  assumes "ordered K J F log" "(i, e, n) \<in> set K"
  shows "size (jobs_of i F) \<le> 1"
proof -
  have "image_mset job_key (jobs_of i F) = replicate_mset (size (jobs_of i F)) (i, n)"
    using ordered_entry [OF assms] image_mset_const_eq [of "(i, n)" "jobs_of i F"]
      image_mset_cong [of "jobs_of i F" job_key "\<lambda>_. (i, n)"] by (simp add: job_key_def [abs_def])
  moreover have "distinct_keys (jobs_of i F)"
    using assms(1) distinct_keys_subset multiset_filter_subset unfolding ordered_def by blast
  ultimately show ?thesis unfolding distinct_keys_def by (metis count_replicate_mset)
qed

text \<open>
  C1. In every reachable state, for every subscription: the events sent to it so far carry the keys
  0, 1, 2, and so on, without a gap or a repetition, at most one of them is on its way, and the
  others are acknowledged by \<^verbatim>\<open>ToSendEventKey\<close>.
\<close>

theorem events_sent_in_order:
  assumes "reachable ok s" "sub \<in> set (all_subs (handles (now_g s)))"
    and "flight = filter (\<lambda>x. nsid (fst x) = ssid sub) (flying s)"
  shows "map snd (filter (\<lambda>x. fst x = ssid sub) (sent_log s)) = map word_of_nat [0..<unat (ToSendEventKey sub) + length flight] \<and>
    length flight \<le> 1 \<and> unat (ToSendEventKey sub) + length flight \<le> unat (eventKey sub)"
proof -
  let ?F = "mset (map fst (flying s))"
  have o: "ordered (map entry_of (all_subs (handles (now_g s)))) (mset (jobs s)) ?F (sent_log s)"
    using reachable_in_order [OF assms(1)] by (simp add: in_order_def good_def ordered_in_def)
  have e: "(ssid sub, eventKey sub, ToSendEventKey sub) \<in> set (map entry_of (all_subs (handles (now_g s))))"
    using assms(2) by (auto simp: entry_of_def)
  have "size (jobs_of (ssid sub) ?F) = length flight"
    unfolding assms(3) mset_filter [symmetric] size_mset filter_map comp_def length_map ..
  then show ?thesis using ordered_entry [OF o e] one_in_flight [OF o e] by (simp add: events_def)
qed

text \<open>
  C2. In every reachable state of the event subsystem, every job that waits in the pool or is being sent
  has its headers and property set still allocated, with a positive reference count, and giving up
  its reference does not fault.  When the pool takes every job, a block is freed exactly when no
  job holds it.
\<close>

theorem no_job_loses_its_block:
  assumes "reachable ok s"
  shows "(\<forall>j \<in> set (jobs s). \<exists>blk n g'. shared (now_g s) (nblock j) = Some (blk, n) \<and> 0 < n \<and>
      free_notify_struct j (now_g s) = Some g') \<and>
    (ok \<longrightarrow> (\<forall>b. shared (now_g s) b = None \<longleftrightarrow> b \<notin> nblock ` set (jobs s)))"
proof -
  note c = reachable_counted [OF assms]
  have h: "b \<in># holders s \<longleftrightarrow> b \<in> nblock ` set (jobs s)" for b by (auto simp: holders_def)
  have 1: "\<exists>blk n g'. shared (now_g s) (nblock j) = Some (blk, n) \<and> 0 < n \<and> free_notify_struct j (now_g s) = Some g'"
    if "j \<in> set (jobs s)" for j
    using counted_block [OF c, of "nblock j"] h that by (auto simp: free_notify_struct_def)
  have 2: "shared (now_g s) b = None \<longleftrightarrow> b \<notin> nblock ` set (jobs s)" if ok for b
  proof -
    have "b \<in> nblock ` set (jobs s) \<longleftrightarrow> 0 < count (holders s) b" using h [of b] by simp
    moreover have "shared (now_g s) b = None \<longleftrightarrow> \<not> 0 < count (holders s) b"
      using countedD [OF c, of b] that by (cases "shared (now_g s) b") (auto simp del: count_greater_zero_iff)
    ultimately show ?thesis by simp
  qed
  show ?thesis by (intro conjI ballI impI allI 1 2)
qed

section \<open>Witnesses\<close>

text \<open>A subscriber comes, gets its initial event, and that event is on its way.\<close>

definition quiet_info :: Handle_Info where
  "quiet_info = lamp_info\<lparr>MaxSubscriptions := 5, MaxSubscriptionTimeOut := 300,
     ServiceTable := \<lparr>URLBase = None, serviceList = [lamp_service\<lparr>subscriptionList := [], TotalSubscriptions := 0\<rparr>]\<rparr>\<rparr>"

definition quiet :: gena where
  "quiet = lamp\<lparr>handles := InitHandleList[1 := Some quiet_info], gmem := request_mem\<rparr>"

definition first_run :: "(gena \<times> gena \<times> job_fate \<times> gena) option" where
  "first_run = do {
     (out, ev, g1) \<leftarrow> genaSubscribeOrRenew request_env subscribe_message quiet;
     (rc, g2) \<leftarrow> genaInitNotify (\<lambda>_. True) 0 1000 1 ''U'' ''S'' [''P''] [''1''] 1 ''uuid:1234'' g1;
     (fate, g3) \<leftarrow> notify_begin (uenv request_env) 1000 True 9 (hd (pool g2)) (g2\<lparr>pool := tl (pool g2)\<rparr>);
     Some (g1, g2, fate, g3) }"

lemma first_run_facts:
  "map_option (\<lambda>(g1, g2, fate, g3). (pool g2, pool g3, map entry_of (all_subs (handles g1)),
     map entry_of (all_subs (handles g3)), case fate of Sending c b \<Rightarrow> Some (ToSendEventKey c) | _ \<Rightarrow> None)) first_run =
   Some ([\<lparr>nblock = 7, nsid = ''uuid:1234'', neventKey = 0, ndevice = 1\<rparr>], [], [(''uuid:1234'', 0, 0)],
     [(''uuid:1234'', 1, 0)], Some 0)"
  by code_simp

lemma first_run_reachable:
  obtains s sub where "reachable True s" "sub \<in> set (all_subs (handles (now_g s)))" "ssid sub = ''uuid:1234''"
    "map (\<lambda>x. nsid (fst x)) (flying s) = [''uuid:1234'']" "sent_log s = [(''uuid:1234'', 0)]"
proof -
  obtain g1 g2 c b g3 where r: "first_run = Some (g1, g2, Sending c b, g3)"
    "pool g2 = [\<lparr>nblock = 7, nsid = ''uuid:1234'', neventKey = 0, ndevice = 1\<rparr>]" "pool g3 = []"
    "map entry_of (all_subs (handles g1)) = [(''uuid:1234'', 0, 0)]"
    "map entry_of (all_subs (handles g3)) = [(''uuid:1234'', 1, 0)]" "ToSendEventKey c = 0"
    using first_run_facts by (fastforce split: job_fate.splits)
  let ?j = "\<lparr>nblock = 7, nsid = ''uuid:1234'', neventKey = 0, ndevice = 1\<rparr>"
  obtain out ev rc where steps: "genaSubscribeOrRenew request_env subscribe_message quiet = Some (out, ev, g1)"
    "genaInitNotify (\<lambda>_. True) 0 1000 1 ''U'' ''S'' [''P''] [''1''] 1 ''uuid:1234'' g1 = Some (rc, g2)"
    "notify_begin (uenv request_env) 1000 True 9 ?j (g2\<lparr>pool := []\<rparr>) = Some (Sending c b, g3)"
    using r(1,2) by (auto simp: first_run_def split: Option.bind_split_asm prod.split_asm)
  let ?s0 = "\<lparr>now_g = quiet, flying = [], sent_log = []\<rparr>"
  let ?s1 = "?s0\<lparr>now_g := g1\<rparr>" let ?s2 = "?s1\<lparr>now_g := g2\<rparr>"
  let ?s3 = "?s2\<lparr>now_g := g3, flying := (?j, c) # flying ?s2, sent_log := sent_log ?s2 @ [(nsid ?j, ToSendEventKey c)]\<rparr>"
  have q: "all_subs (handles quiet) = []"
    by (simp add: all_subs_def quiet_def quiet_info_def InitHandleList_def NUM_HANDLE_def concat_update)
  have 0: "reachable True ?s0"
    by (rule reachable.Start) (simp add: initial_def q, simp add: quiet_def lamp_def InitHandleList_def)
  have 1: "reachable True ?s1"
    by (rule reachable.Step [OF 0], rule gstep.Subscribe [where e = request_env]) (use steps(1) q in \<open>simp_all add: unused_sid_def quiet_def lamp_def\<close>)
  have "keys_below g1" using r(4) by (auto simp: keys_below_def entry_of_def)
  then have 2: "reachable True ?s2"
    by (intro reachable.Step [OF 1] gstep.Initial [where s = ?s1]) (use steps(2) in simp_all)
  have 3: "reachable True ?s3"
    by (rule reachable.Step [OF 2], rule gstep.Send [where ps = "[]" and qs = "[]"]) (use steps(3) r(2) in simp_all)
  obtain sub where "sub \<in> set (all_subs (handles g3))" "ssid sub = ''uuid:1234''" using r(5) by (auto simp: entry_of_def)
  then show thesis using that [OF 3] r(6) by simp
qed

theorem events_sent_in_order_witness:
  "\<exists>s sub. reachable True s \<and> sub \<in> set (all_subs (handles (now_g s))) \<and> length (flying s) = 1 \<and>
     unat (ToSendEventKey sub) = 0"
proof -
  obtain s sub where s: "reachable True s" "sub \<in> set (all_subs (handles (now_g s)))" "ssid sub = ''uuid:1234''"
    "map (\<lambda>x. nsid (fst x)) (flying s) = [''uuid:1234'']" "sent_log s = [(''uuid:1234'', 0)]" using first_run_reachable .
  obtain x where x: "flying s = [x]" "nsid (fst x) = ''uuid:1234''" using s(4) by auto
  have "map word_of_nat [0..<unat (ToSendEventKey sub) + 1] = [0 :: 32 word]"
    using events_sent_in_order [OF s(1,2) refl] s(3,5) x by simp
  then have "length [0..<unat (ToSendEventKey sub) + 1] = 1" by (metis length_map length_Cons list.size(3) One_nat_def)
  then show ?thesis using s(1,2) x(1) by (intro exI [of _ s] exI [of _ sub]) simp
qed

theorem no_job_loses_its_block_witness:
  "\<exists>s j. reachable True s \<and> j \<in> set (jobs s) \<and> shared (now_g s) (nblock j) \<noteq> None"
proof -
  obtain s sub where s: "reachable True s" "map (\<lambda>x. nsid (fst x)) (flying s) = [''uuid:1234'']"
    using first_run_reachable by metis
  then obtain x where "flying s = [x]" by auto
  then have "fst x \<in> set (jobs s)" by (simp add: jobs_def)
  then show ?thesis using s(1) no_job_loses_its_block [OF s(1)] by blast
qed

end
