(* ===== verification/Ssdp_Parser.thy ===== *)
theory Ssdp_Parser imports C_Text Http_Uri begin

text \<open>
  The parser of discovery packets (\<^verbatim>\<open>ssdp/ssdpparser.c\<close>): the start line, the handlers of the twelve
  headers it knows, and \<^verbatim>\<open>AnalyzeCommand\<close>, which fills an \<open>Event\<close>.

  A \<^verbatim>\<open>char *\<close> argument is the value of the C string it points to.  An array of the event or of the
  stack is the string it holds; writing more than it has room for is undefined behaviour, and so is
  passing a null pointer to a string function: both are \<open>None\<close>.
\<close>

section \<open>Events\<close>

datatype SsdpCmdType =
  SSDP_ERROR | SSDP_OK | SSDP_ALIVE | SSDP_BYEBYE | SSDP_SEARCH | SSDP_NOTIFY | SSDP_TIMEOUT

datatype SsdpSearchType =
  SSDP_SERROR | SSDP_ALL | SSDP_ROOTDEVICE | SSDP_DEVICE | SSDP_DEVICETYPE | SSDP_SERVICE

record Event =
  sCmd :: SsdpCmdType
  sRequestType :: SsdpSearchType
  sErrCode :: int
  sMaxAge :: int
  sMx :: int
  sUDN :: string
  sDeviceType :: string
  sServiceType :: string
  sLocation :: string
  sHostAddr :: string
  sOs :: string
  sExt :: string
  sDate :: string
  sMan :: string
  sDestAddr :: "sockaddr_in option"
  sCookie :: nat

definition LINE_SIZE :: nat where "LINE_SIZE = 180"
definition COMMAND_LEN :: nat where "COMMAND_LEN = 300"
definition NUM_TOKEN :: nat where "NUM_TOKEN = 12"

abbreviation (input) E_HTTP_SYNTEX :: int where "E_HTTP_SYNTEX \<equiv> - 6"
abbreviation (input) NO_ERROR_FOUND :: int where "NO_ERROR_FOUND \<equiv> 0"

definition InitEvent :: "Event \<Rightarrow> Event" where
  "InitEvent Evt = Evt\<lparr>sErrCode := 0, sMaxAge := 0, sMx := - 1, sCmd := SSDP_ERROR,
     sRequestType := SSDP_SERROR, sUDN := [], sDeviceType := [], sServiceType := [], sLocation := [],
     sHostAddr := [], sOs := [], sExt := [], sDate := [], sMan := []\<rparr>"

section \<open>Tokens\<close>

text \<open>The token and where the next search starts; \<open>None\<close> is the null pointer.\<close>

definition StrTok :: "string option \<Rightarrow> string \<Rightarrow> string option \<times> string option" where
  "StrTok Src Del =
     (case Src of
        None \<Rightarrow> (None, None)
      | Some s \<Rightarrow>
          (case strstr s Del of
             Some i \<Rightarrow> (Some (take i s), Some (drop (i + length Del) s))
           | None \<Rightarrow> (Some s, None)))"

text \<open>\<^verbatim>\<open>strstr(Token,pat)!=NULL\<close> on what \<open>StrTok\<close> returned.\<close>

definition has :: "string option \<Rightarrow> string \<Rightarrow> bool option" where
  "has Token pat = map_option (\<lambda>s. strstr s pat \<noteq> None) Token"

section \<open>The start line\<close>

definition CheckHdr :: "string \<Rightarrow> Event \<Rightarrow> (int \<times> Event) option" where
  "CheckHdr Cmd Evt = do {
     Tmp \<leftarrow> block_of COMMAND_LEN Cmd;
     let bad = (- 1, Evt\<lparr>sErrCode := E_HTTP_SYNTEX\<rparr>);
     let (Token, TmpPtr) = StrTok (Some Tmp) [SP];
     search \<leftarrow> has Token ''M-SEARCH'';
     notify \<leftarrow> has Token ''NOTIFY'';
     http \<leftarrow> has Token ''HTTP/1.1'';
     let (Token, TmpPtr) = StrTok TmpPtr [SP];
     if search \<or> notify
     then do {
       star \<leftarrow> has Token ''*'';
       if \<not> star then Some bad
       else do {
         let (Token, TmpPtr) = StrTok TmpPtr [SP];
         version \<leftarrow> has Token ''HTTP/1.1'';
         if \<not> version then Some bad
         else Some (1, Evt\<lparr>sCmd := if search then SSDP_SEARCH else SSDP_NOTIFY\<rparr>) } }
     else if http
     then do {
       code \<leftarrow> has Token ''200'';
       if \<not> code then Some bad
       else do {
         let (Token, TmpPtr) = StrTok TmpPtr [SP];
         ok \<leftarrow> has Token ''OK'';
         if ok then Some (1, Evt\<lparr>sCmd := SSDP_OK\<rparr>) else Some bad } }
     else Some bad }"

section \<open>The header handlers\<close>

text \<open>
  Each gets the text after the colon.  The result is the code of the handler (1, or -1) and the
  event.
\<close>

definition Cache_Control :: "string \<Rightarrow> Event \<Rightarrow> (int \<times> Event) option" where
  "Cache_Control cmd Evt =
     (let (Token, cmd) = StrTok (Some cmd) ''='' in
      (case Token of
         None \<Rightarrow> Some (- 1, Evt\<lparr>sErrCode := E_HTTP_SYNTEX\<rparr>)
       | Some _ \<Rightarrow>
           (let (Token, cmd) = StrTok cmd ''='' in
            (case Token of
               None \<Rightarrow> Some (- 1, Evt)
             | Some v \<Rightarrow> Some (1, Evt\<lparr>sMaxAge := atoi v\<rparr>)))))"

definition Location_Header :: "string \<Rightarrow> Event \<Rightarrow> (int \<times> Event) option" where
  "Location_Header cmd Evt =
     (if 7 < length cmd then do { s \<leftarrow> block_of LINE_SIZE cmd; Some (1, Evt\<lparr>sLocation := s\<rparr>) }
      else Some (- 1, Evt\<lparr>sErrCode := E_HTTP_SYNTEX\<rparr>))"

definition Os :: "string \<Rightarrow> Event \<Rightarrow> (int \<times> Event) option" where
  "Os cmd Evt =
     (if 0 < length cmd then do { s \<leftarrow> block_of LINE_SIZE cmd; Some (1, Evt\<lparr>sOs := s\<rparr>) }
      else Some (- 1, Evt\<lparr>sErrCode := E_HTTP_SYNTEX\<rparr>))"

text \<open>\<^verbatim>\<open>strstr\<close> from the byte after position \<open>i\<close> on.\<close>

definition strstr_after :: "string \<Rightarrow> nat \<Rightarrow> string \<Rightarrow> nat option" where
  "strstr_after s i pat = map_option (\<lambda>k. Suc i + k) (strstr (drop (Suc i) s) pat)"

text \<open>
  The device form \<^verbatim>\<open>uuid:schemas...:device:type:udn\<close> and its three colons.
\<close>

definition schema_name :: "string \<Rightarrow> Event \<Rightarrow> (int \<times> Event) option" where
  "schema_name cmd Evt =
     (case strstr cmd '':device'' of
        None \<Rightarrow> Some (- 1, Evt)
      | Some ptr1 \<Rightarrow>
          (case strstr_after cmd ptr1 '':'' of
             None \<Rightarrow> Some (- 1, Evt)
           | Some ptr2 \<Rightarrow>
               (case strstr_after cmd ptr2 '':'' of
                  None \<Rightarrow> Some (- 1, Evt)
                | Some ptr3 \<Rightarrow> do {
                    udn \<leftarrow> block_of LINE_SIZE (''uuid:'' @ drop (Suc ptr3) cmd);
                    let Evt = Evt\<lparr>sUDN := udn\<rparr>;
                    (case strstr cmd '':'' of
                       None \<Rightarrow> Some (- 1, Evt)
                     | Some ptr1 \<Rightarrow> do {
                         TempBuf \<leftarrow> block_of COMMAND_LEN (take (ptr3 - ptr1) (drop ptr1 cmd));
                         d \<leftarrow> block_of LINE_SIZE (''urn'' @ TempBuf);
                         Some (1, Evt\<lparr>sDeviceType := d\<rparr>) }) })))"

text \<open>
  The UDN of the plain form: up to the first double colon, which must not lie before the
  \<^verbatim>\<open>uuid\<close> (the count of \<^verbatim>\<open>strncpy\<close> would be negative).  \<open>Some None\<close>: there is no such part.
\<close>

definition plain_udn :: "string \<Rightarrow> string option option" where
  "plain_udn cmd =
     (case strstr cmd ''uuid'' of
        None \<Rightarrow> Some None
      | Some TempPtr \<Rightarrow>
          (case strstr cmd ''::'' of
             Some Ptr \<Rightarrow>
               if Ptr < TempPtr then None
               else map_option Some (block_of LINE_SIZE (take (Ptr - TempPtr) (drop TempPtr cmd)))
           | None \<Rightarrow> map_option Some (block_of LINE_SIZE (drop TempPtr cmd))))"

text \<open>The service type or the device type.\<close>

definition typed_name :: "string \<Rightarrow> string \<Rightarrow> string option option" where
  "typed_name cmd kind =
     (if strstr cmd ''urn:'' \<noteq> None \<and> strstr cmd kind \<noteq> None
      then (case strstr cmd ''urn'' of
          None \<Rightarrow> Some None
        | Some TempPtr \<Rightarrow> map_option Some (block_of LINE_SIZE (drop TempPtr cmd)))
      else Some None)"

definition Unique_Service_Name :: "string \<Rightarrow> Event \<Rightarrow> (int \<times> Event) option" where
  "Unique_Service_Name cmd Evt =
     (if strstr cmd ''uuid:schemas'' \<noteq> None then schema_name cmd Evt
      else do {
        udn \<leftarrow> plain_udn cmd;
        serv \<leftarrow> typed_name cmd '':service:'';
        dev \<leftarrow> typed_name cmd '':device:'';
        let Evt = Evt\<lparr>sUDN := (case udn of None \<Rightarrow> sUDN Evt | Some s \<Rightarrow> s),
          sServiceType := (case serv of None \<Rightarrow> sServiceType Evt | Some s \<Rightarrow> s),
          sDeviceType := (case dev of None \<Rightarrow> sDeviceType Evt | Some s \<Rightarrow> s)\<rparr>;
        Some (if udn = None \<and> serv = None \<and> dev = None then - 1 else 1, Evt) })"

definition Request_Tpye :: "string \<Rightarrow> Event \<Rightarrow> (int \<times> Event) option" where
  "Request_Tpye cmd Evt = do {
     (_, Evt) \<leftarrow> Unique_Service_Name cmd Evt;
     let Evt = Evt\<lparr>sErrCode := NO_ERROR_FOUND\<rparr>;
     let within = (\<lambda>pat. strstr cmd pat \<noteq> None);
     if within ''ssdp:all'' then Some (1, Evt\<lparr>sRequestType := SSDP_ALL\<rparr>)
     else if within '':rootdevice'' then Some (1, Evt\<lparr>sRequestType := SSDP_ROOTDEVICE\<rparr>)
     else if within ''uuid:'' then Some (1, Evt\<lparr>sRequestType := SSDP_DEVICE\<rparr>)
     else if within ''urn:'' \<and> within '':device:'' then Some (1, Evt\<lparr>sRequestType := SSDP_DEVICE\<rparr>)
     else if within ''urn:'' \<and> within '':service:'' then Some (1, Evt\<lparr>sRequestType := SSDP_SERVICE\<rparr>)
     else Some (- 1, Evt\<lparr>sErrCode := E_HTTP_SYNTEX\<rparr>) }"

definition Host :: "string \<Rightarrow> Event \<Rightarrow> (int \<times> Event) option" where
  "Host cmd Evt =
     (if 0 < length cmd then do { s \<leftarrow> block_of LINE_SIZE cmd; Some (1, Evt\<lparr>sHostAddr := s\<rparr>) }
      else Some (- 1, Evt\<lparr>sErrCode := E_HTTP_SYNTEX\<rparr>))"

definition Notification_Sub_Type :: "string \<Rightarrow> Event \<Rightarrow> (int \<times> Event) option" where
  "Notification_Sub_Type cmd Evt = do {
     let (Token, cmd) = StrTok (Some cmd) '':'';
     let (Token, cmd) = StrTok cmd '':'';
     t \<leftarrow> Token;
     if same_nocase ''alive'' t then Some (1, Evt\<lparr>sCmd := SSDP_ALIVE\<rparr>)
     else if same_nocase ''byebye'' t then Some (1, Evt\<lparr>sCmd := SSDP_BYEBYE\<rparr>)
     else Some (- 1, Evt\<lparr>sErrCode := E_HTTP_SYNTEX\<rparr>) }"

definition Max_Delay :: "string \<Rightarrow> Event \<Rightarrow> (int \<times> Event) option" where
  "Max_Delay cmd Evt =
     (if 0 < length cmd
      then (let (Token, cmd) = StrTok (Some cmd) '':'' in
        (case Token of
           None \<Rightarrow> Some (- 1, Evt\<lparr>sErrCode := E_HTTP_SYNTEX\<rparr>)
         | Some t \<Rightarrow>
             if t = [] \<or> atoi t \<le> 0 \<or> CHR ''.'' \<in> set t then Some (- 1, Evt\<lparr>sErrCode := E_HTTP_SYNTEX\<rparr>)
             else Some (1, Evt\<lparr>sMx := atoi t\<rparr>)))
      else Some (- 1, Evt\<lparr>sErrCode := E_HTTP_SYNTEX\<rparr>))"

definition Fun_Ext :: "string \<Rightarrow> Event \<Rightarrow> (int \<times> Event) option" where
  "Fun_Ext cmd Evt =
     (if 0 < length cmd then do { s \<leftarrow> block_of LINE_SIZE cmd; Some (1, Evt\<lparr>sExt := s\<rparr>) }
      else Some (1, Evt))"

definition Fun_MAN :: "string \<Rightarrow> Event \<Rightarrow> (int \<times> Event) option" where
  "Fun_MAN cmd Evt =
     (if 0 < length cmd then do { s \<leftarrow> block_of LINE_SIZE cmd; Some (1, Evt\<lparr>sMan := s\<rparr>) }
      else Some (- 1, Evt\<lparr>sErrCode := E_HTTP_SYNTEX\<rparr>))"

definition Fun_Date :: "string \<Rightarrow> Event \<Rightarrow> (int \<times> Event) option" where
  "Fun_Date cmd Evt =
     (if 0 < length cmd then do { s \<leftarrow> block_of LINE_SIZE cmd; Some (1, Evt\<lparr>sDate := s\<rparr>) }
      else Some (- 1, Evt\<lparr>sErrCode := E_HTTP_SYNTEX\<rparr>))"

section \<open>The packet\<close>

type_synonym ParserFun = "string \<Rightarrow> Event \<Rightarrow> (int \<times> Event) option"

definition Token_List :: "string list" where
  "Token_List = [''CACHE-CONTROL'', ''ST'', ''LOCATION'', ''HOST'', ''USN'', ''NT'', ''NTS'', ''EXT'',
     ''SERVER'', ''MAN'', ''MX'', ''DATE'']"

text \<open>The table \<^verbatim>\<open>FunList\<close> after \<^verbatim>\<open>InitParser\<close>.\<close>

definition InitParser :: "ParserFun list" where
  "InitParser = [Cache_Control, Request_Tpye, Location_Header, Host, Unique_Service_Name, Request_Tpye,
     Notification_Sub_Type, Fun_Ext, Os, Fun_MAN, Max_Delay, Fun_Date]"

text \<open>The loop over the tokens: the first key that matches.\<close>

definition find_handler :: "string \<Rightarrow> ParserFun option" where
  "find_handler Token = map_option snd (find (\<lambda>(key, f). same_nocase key Token) (zip Token_List InitParser))"

text \<open>
  The first loop: the lines into \<^verbatim>\<open>char Command_List[NUM_TOKEN][COMMAND_LEN]\<close>.
\<close>

lemma strstr_bound: "strstr s pat = Some i \<Longrightarrow> i + length pat \<le> length s \<and> take (length pat) (drop i s) = pat"
proof (induction s pat arbitrary: i rule: strstr.induct)
  case (2 c cs pat)
  have "length pat \<le> Suc (length cs)" if "take (length pat) (c # cs) = pat"
    using arg_cong [OF that, of length] by simp
  then show ?case using 2 by (auto split: if_splits)
qed (auto split: if_splits)

function command_loop :: "string option \<Rightarrow> string list \<Rightarrow> string list option" where
  "command_loop TmpPtr cs =
     (case StrTok TmpPtr CRLF of
        (None, _) \<Rightarrow> Some cs
      | (Some Token, rest) \<Rightarrow>
          if length cs < NUM_TOKEN then do { l \<leftarrow> block_of COMMAND_LEN Token; command_loop rest (cs @ [l]) }
          else None)"
  by pat_completeness auto
termination
  by (relation "measure (\<lambda>(p, cs). case p of None \<Rightarrow> 0 | Some s \<Rightarrow> Suc (length s))")
    (auto simp: StrTok_def CRLF_def split: option.splits dest!: strstr_bound)

declare command_loop.simps [simp del]

text \<open>
  The second loop.  \<^verbatim>\<open>strchr\<close> returns null for a line without a colon, and the handler then gets
  the address 1.
\<close>

fun header_loop :: "string list \<Rightarrow> int \<Rightarrow> Event \<Rightarrow> (int \<times> Event) option" where
  "header_loop [] RetVal Evt = Some (RetVal, Evt)"
| "header_loop (l # ls) RetVal Evt =
     (case StrTok (Some l) '':'' of (Token, Cmd) \<Rightarrow>
        (case find_handler (the Token) of
           None \<Rightarrow> header_loop ls RetVal Evt
         | Some f \<Rightarrow> do {
             c \<leftarrow> Cmd;
             (RetVal, Evt) \<leftarrow> f c Evt;
             if RetVal < 0 then Some (- 1, Evt) else header_loop ls RetVal Evt }))"

definition AnalyzeCommand :: "bool \<Rightarrow> string option \<Rightarrow> Event \<Rightarrow> (int \<times> Event) option" where
  "AnalyzeCommand mem_ok szCommand Evt =
     (case szCommand of
        None \<Rightarrow> Some (- 1, Evt)
      | Some s \<Rightarrow>
          if s = [] then Some (- 1, Evt)
          else if \<not> mem_ok then None
          else do {
            Command_List \<leftarrow> command_loop (Some s) [];
            (hdr, Evt) \<leftarrow> CheckHdr (hd Command_List) (InitEvent Evt);
            if hdr \<noteq> 0 then header_loop (tl Command_List) 1 Evt else Some (- 1, Evt) })"

section \<open>Searching and splitting\<close>

lemma strstr_first: "c \<notin> set l \<Longrightarrow> strstr (l @ c # ps @ r) (c # ps) = Some (length l)"
  by (induction l) auto

lemma strstr_none: "c \<in> set pat \<Longrightarrow> c \<notin> set s \<Longrightarrow> strstr s pat = None"
proof (induction s)
  case (Cons x xs)
  have "take (length pat) (x # xs) \<noteq> pat" using Cons.prems in_set_takeD by metis
  then show ?case using Cons by simp
qed auto

lemma StrTok_found: "c \<notin> set l \<Longrightarrow> StrTok (Some (l @ c # ps @ r)) (c # ps) = (Some l, Some r)"
  by (simp add: StrTok_def strstr_first)

lemma StrTok_colon: "CHR '':'' \<notin> set k \<Longrightarrow> StrTok (Some (k @ '':'' @ v)) '':'' = (Some k, Some v)"
  using StrTok_found [of "CHR '':''" k "[]" v] by simp

lemma StrTok_missing: "c \<in> set pat \<Longrightarrow> c \<notin> set s \<Longrightarrow> StrTok (Some s) pat = (Some s, None)"
  by (simp add: StrTok_def strstr_none)

lemma block_of_ok: "length s < n \<Longrightarrow> block_of n s = Some s" and
  block_of_Some: "block_of n s = Some t \<longleftrightarrow> t = s \<and> length s < n"
  by (auto simp: block_of_def)

section \<open>The two loops\<close>

definition line_ok :: "string \<Rightarrow> bool" where
  "line_ok l = (CR \<notin> set l \<and> length l < COMMAND_LEN)"

text \<open>Lines that end in CRLF are read back, with the empty rest after the last one.\<close>

lemma command_loop_lines:
  "\<forall>l\<in>set ls. line_ok l \<Longrightarrow> length cs + length ls < NUM_TOKEN \<Longrightarrow>
    command_loop (Some (concat (map (\<lambda>l. l @ CRLF) ls))) cs = Some (cs @ ls @ [[]])"
proof (induction ls arbitrary: cs)
  case Nil
  have n: "command_loop None cs' = Some cs'" for cs'
    by (subst command_loop.simps) (simp add: StrTok_def)
  have "StrTok (Some []) CRLF = (Some [], None)" by (rule StrTok_missing [of CR]) (simp_all add: CRLF_def)
  then show ?case using Nil
    by (subst command_loop.simps) (simp add: block_of_def COMMAND_LEN_def n)
next
  case (Cons l ls)
  have "StrTok (Some (l @ CRLF @ concat (map (\<lambda>l. l @ CRLF) ls))) CRLF = (Some l, Some (concat (map (\<lambda>l. l @ CRLF) ls)))"
    using StrTok_found [of CR l "[LF]"] Cons.prems by (simp add: CRLF_def line_ok_def)
  then show ?case
    using Cons by (subst command_loop.simps) (simp add: block_of_ok line_ok_def)
qed

text \<open>More lines than the array holds.\<close>

lemma command_loop_overflow:
  "\<forall>l\<in>set ls. CR \<notin> set l \<Longrightarrow> length cs \<le> NUM_TOKEN \<Longrightarrow> NUM_TOKEN \<le> length cs + length ls \<Longrightarrow>
    command_loop (Some (concat (map (\<lambda>l. l @ CRLF) ls))) cs = None"
proof (induction ls arbitrary: cs)
  case Nil
  have "StrTok (Some []) CRLF = (Some [], None)" by (rule StrTok_missing [of CR]) (simp_all add: CRLF_def)
  then show ?case using Nil by (subst command_loop.simps) simp
next
  case (Cons l ls)
  have s: "StrTok (Some (l @ CRLF @ concat (map (\<lambda>l. l @ CRLF) ls))) CRLF = (Some l, Some (concat (map (\<lambda>l. l @ CRLF) ls)))"
    using StrTok_found [of CR l "[LF]"] Cons.prems by (simp add: CRLF_def)
  show ?case
  proof (cases "length cs < NUM_TOKEN")
    case True
    then show ?thesis using s Cons.IH [of "cs @ [l]"] Cons.prems
      by (subst command_loop.simps) (auto simp: block_of_def)
  qed (use s in \<open>subst command_loop.simps, simp\<close>)
qed

lemmas handler_simps = find_handler_def Token_List_def InitParser_def same_nocase_def tolower_def

lemma handlers:
  "find_handler ''CACHE-CONTROL'' = Some Cache_Control" "find_handler ''ST'' = Some Request_Tpye"
  "find_handler ''LOCATION'' = Some Location_Header" "find_handler ''HOST'' = Some Host"
  "find_handler ''USN'' = Some Unique_Service_Name" "find_handler ''NT'' = Some Request_Tpye"
  "find_handler ''NTS'' = Some Notification_Sub_Type" "find_handler ''EXT'' = Some Fun_Ext"
  "find_handler ''SERVER'' = Some Os" "find_handler ''MAN'' = Some Fun_MAN"
  "find_handler ''MX'' = Some Max_Delay" "find_handler ''DATE'' = Some Fun_Date"
  "find_handler [] = None"
  by (simp_all add: handler_simps)

lemma header_loop_step:
  "CHR '':'' \<notin> set k \<Longrightarrow> find_handler k = Some f \<Longrightarrow> f v E = Some (1, E') \<Longrightarrow>
    header_loop ((k @ '':'' @ v) # ls) rv E = header_loop ls 1 E'"
  using StrTok_colon [of k v] by simp

lemma header_loop_empty: "header_loop ([] # ls) rv E = header_loop ls rv E"
  using StrTok_missing [of "CHR '':''" "'':''" "[]"] by (simp add: handlers)

lemma header_loop_empties: "header_loop (replicate n []) rv E = Some (rv, E)"
  by (induction n) (simp_all add: header_loop_empty del: header_loop.simps(2))

section \<open>What the handlers read\<close>

lemma handler_fields:
  "v \<noteq> [] \<Longrightarrow> length v < LINE_SIZE \<Longrightarrow> Host v E = Some (1, E\<lparr>sHostAddr := v\<rparr>)"
  "v \<noteq> [] \<Longrightarrow> length v < LINE_SIZE \<Longrightarrow> Os v E = Some (1, E\<lparr>sOs := v\<rparr>)"
  "v \<noteq> [] \<Longrightarrow> length v < LINE_SIZE \<Longrightarrow> Fun_MAN v E = Some (1, E\<lparr>sMan := v\<rparr>)"
  "v \<noteq> [] \<Longrightarrow> length v < LINE_SIZE \<Longrightarrow> Fun_Date v E = Some (1, E\<lparr>sDate := v\<rparr>)"
  "7 < length v \<Longrightarrow> length v < LINE_SIZE \<Longrightarrow> Location_Header v E = Some (1, E\<lparr>sLocation := v\<rparr>)"
  "Fun_Ext [] E = Some (1, E)"
  by (simp_all add: Host_def Os_def Fun_MAN_def Fun_Date_def Location_Header_def Fun_Ext_def block_of_ok)

lemma dec_nat_plain: "\<not> isdigit c \<Longrightarrow> c \<notin> set (dec_nat n)"
  using dec_nat_digits [of n] by auto

lemma Max_Delay_number: "0 < n \<Longrightarrow> int n < 2 ^ 31 \<Longrightarrow> Max_Delay (dec_nat n) E = Some (1, E\<lparr>sMx := int n\<rparr>)"
  using StrTok_missing [of "CHR '':''" "'':''" "dec_nat n"] atoi_dec_nat [of n "[]"]
    dec_nat_plain [of "CHR '':''" n] dec_nat_plain [of "CHR ''.''" n]
  by (simp add: Max_Delay_def isdigit_def)

lemma Cache_Control_number:
  "int n < 2 ^ 31 \<Longrightarrow> Cache_Control ('' max-age='' @ dec_nat n) E = Some (1, E\<lparr>sMaxAge := int n\<rparr>)"
  using StrTok_found [of "CHR ''=''" "'' max-age''" "[]" "dec_nat n"]
    StrTok_missing [of "CHR ''=''" "''=''" "dec_nat n"] dec_nat_plain [of "CHR ''=''" n] atoi_dec_nat [of n "[]"]
  by (simp add: Cache_Control_def isdigit_def)

lemma Notification_texts:
  "Notification_Sub_Type '' ssdp:alive'' E = Some (1, E\<lparr>sCmd := SSDP_ALIVE\<rparr>)"
  "Notification_Sub_Type '' ssdp:byebye'' E = Some (1, E\<lparr>sCmd := SSDP_BYEBYE\<rparr>)"
  by (simp_all add: Notification_Sub_Type_def StrTok_def same_nocase_def tolower_def)

lemma start_lines:
  "CheckHdr ''M-SEARCH * HTTP/1.1'' E = Some (1, E\<lparr>sCmd := SSDP_SEARCH\<rparr>)"
  "CheckHdr ''NOTIFY * HTTP/1.1'' E = Some (1, E\<lparr>sCmd := SSDP_NOTIFY\<rparr>)"
  "CheckHdr ''HTTP/1.1 200 OK'' E = Some (1, E\<lparr>sCmd := SSDP_OK\<rparr>)"
  by (simp_all add: CheckHdr_def StrTok_def has_def block_of_def COMMAND_LEN_def)

text \<open>The names leave the other fields alone.\<close>

definition same_others :: "Event \<Rightarrow> Event \<Rightarrow> bool" where
  "same_others E E' = (sCmd E' = sCmd E \<and> sMaxAge E' = sMaxAge E \<and> sMx E' = sMx E \<and> sLocation E' = sLocation E \<and>
     sHostAddr E' = sHostAddr E \<and> sOs E' = sOs E \<and> sExt E' = sExt E \<and> sDate E' = sDate E \<and> sMan E' = sMan E \<and>
     sDestAddr E' = sDestAddr E \<and> sCookie E' = sCookie E)"

lemma schema_name_others: "schema_name cmd E = Some (r, E') \<Longrightarrow> same_others E E'"
  by (auto simp: schema_name_def bind_eq_Some_conv same_others_def Let_def split: option.split_asm)

lemma Unique_Service_Name_others: "Unique_Service_Name cmd E = Some (r, E') \<Longrightarrow> same_others E E'"
  unfolding Unique_Service_Name_def
  by (auto simp: bind_eq_Some_conv same_others_def Let_def dest: schema_name_others [unfolded same_others_def]
      split: if_split_asm)

lemma same_others_upd: "same_others E (E'\<lparr>sErrCode := a\<rparr>) = same_others E E'"
  "same_others E (E'\<lparr>sRequestType := b\<rparr>) = same_others E E'"
  by (simp_all add: same_others_def)

lemma Request_Tpye_others: "Request_Tpye cmd E = Some (r, E') \<Longrightarrow> same_others E E'"
  by (clarsimp simp: Request_Tpye_def bind_eq_Some_conv Let_def dest!: Unique_Service_Name_others)
    (auto simp: same_others_upd split: if_split_asm)

section \<open>Whole packets\<close>

definition packet :: "string list \<Rightarrow> string" where
  "packet ls = concat (map (\<lambda>l. l @ CRLF) ls)"

lemma packet_Cons [simp]: "packet (l # ls) = l @ CRLF @ packet ls" and packet_Nil [simp]: "packet [] = []"
  by (simp_all add: packet_def)

lemma AnalyzeCommand_packet:
  assumes "\<forall>l\<in>set (h # ls). line_ok l" "length ls < 11"
  shows "AnalyzeCommand True (Some (packet (h # ls))) Evt = do {
    (hdr, Evt) \<leftarrow> CheckHdr h (InitEvent Evt);
    if hdr \<noteq> 0 then header_loop (ls @ [[]]) 1 Evt else Some (- 1, Evt) }"
  using command_loop_lines [of "h # ls" "[]"] assms
  by (cases "CheckHdr h (InitEvent Evt)") (auto simp: AnalyzeCommand_def NUM_TOKEN_def packet_def CRLF_def)

text \<open>Twelve lines fill the array of lines; one more, empty or not, is written past it.\<close>

theorem AnalyzeCommand_overflow:
  assumes "\<forall>l\<in>set ls. CR \<notin> set l" "NUM_TOKEN \<le> length ls"
  shows "AnalyzeCommand True (Some (packet ls)) Evt = None"
proof -
  have "packet ls \<noteq> []" using assms(2) by (cases ls) (auto simp: NUM_TOKEN_def CRLF_def)
  then show ?thesis using command_loop_overflow [of ls "[]"] assms
    by (simp add: AnalyzeCommand_def packet_def)
qed

section \<open>Packets that are safe to parse\<close>

text \<open>
  The value fits the arrays with the prefixes the names get, a notification type has its second
  part, and a UDN does not follow the double colon.
\<close>

definition safe_value :: "string \<Rightarrow> string \<Rightarrow> bool" where
  "safe_value k v = (length v < LINE_SIZE - 5 \<and> (same_nocase ''NTS'' k \<longrightarrow> strstr v '':'' \<noteq> None) \<and>
     (case (strstr v ''uuid'', strstr v ''::'') of (Some a, Some b) \<Rightarrow> a \<le> b | _ \<Rightarrow> True))"

definition safe_line :: "string \<Rightarrow> bool" where
  "safe_line l = (case StrTok (Some l) '':'' of
     (Some k, Some v) \<Rightarrow> find_handler k = None \<or> safe_value k v
   | (Some k, None) \<Rightarrow> find_handler k = None
   | _ \<Rightarrow> False)"

text \<open>Three words, as many as the code asks for.\<close>

definition safe_start :: "string \<Rightarrow> bool" where
  "safe_start h = (length h < COMMAND_LEN \<and> (case StrTok (Some h) '' '' of
     (_, Some r) \<Rightarrow> strstr r '' '' \<noteq> None | _ \<Rightarrow> False))"

lemma StrTok_Some: obtains t r where "StrTok (Some s) d = (Some t, r)"
  by (cases "strstr s d") (auto simp: StrTok_def)

lemma CheckHdr_safe: "safe_start h \<Longrightarrow> \<exists>r E'. CheckHdr h E = Some (r, E') \<and> r \<noteq> 0"
proof -
  assume s: "safe_start h"
  obtain t1 r1 where 1: "StrTok (Some h) '' '' = (Some t1, Some r1)" "strstr r1 '' '' \<noteq> None"
    using s by (rule_tac StrTok_Some [of h "'' ''"]) (auto simp: safe_start_def split: option.split_asm)
  obtain t2 r2 where 2: "StrTok (Some r1) '' '' = (Some t2, Some r2)"
    using 1(2) by (auto simp: StrTok_def)
  obtain t3 r3 where 3: "StrTok (Some r2) '' '' = (Some t3, r3)" by (rule StrTok_Some)
  show ?thesis using s by (simp add: safe_start_def CheckHdr_def block_of_ok 1 2 3 has_def Let_def)
qed

lemma schema_name_safe: "length v < LINE_SIZE - 5 \<Longrightarrow> schema_name v E \<noteq> None"
proof -
  assume v: "length v < LINE_SIZE - 5"
  have b: "block_of LINE_SIZE (''uuid:'' @ drop k v) = Some (''uuid:'' @ drop k v)"
    "block_of COMMAND_LEN (take i (drop j v)) = Some (take i (drop j v))"
    "block_of LINE_SIZE (''urn'' @ take i (drop j v)) = Some (''urn'' @ take i (drop j v))" for i j k
    using v by (auto simp: block_of_def LINE_SIZE_def COMMAND_LEN_def)
  show ?thesis by (auto simp: schema_name_def b [simplified] Let_def split: option.split)
qed

lemma Unique_Service_Name_safe: "safe_value k v \<Longrightarrow> \<exists>r E'. Unique_Service_Name v E = Some (r, E')"
proof -
  assume s: "safe_value k v"
  then have n: "\<exists>r E'. schema_name v E = Some (r, E')"
    using schema_name_safe [of v E] by (auto simp: safe_value_def)
  have t: "typed_name v kind \<noteq> None" for kind
    using s by (auto simp: safe_value_def typed_name_def block_of_def LINE_SIZE_def split: option.split)
  have "plain_udn v \<noteq> None"
    using s by (auto simp: safe_value_def plain_udn_def block_of_def LINE_SIZE_def split: option.splits)
  then show ?thesis using n t [of "'':service:''"] t [of "'':device:''"]
    by (auto simp: Unique_Service_Name_def Let_def)
qed

lemma Request_Tpye_safe: "safe_value k v \<Longrightarrow> Request_Tpye v E \<noteq> None"
  using Unique_Service_Name_safe [of k v E] by (auto simp: Request_Tpye_def Let_def)

lemma Notification_safe: "strstr v '':'' \<noteq> None \<Longrightarrow> Notification_Sub_Type v E \<noteq> None"
  by (auto simp: Notification_Sub_Type_def StrTok_def split: option.splits)

lemma handler_safe: "find_handler k = Some f \<Longrightarrow> safe_value k v \<Longrightarrow> f v E \<noteq> None"
proof -
  assume f: "find_handler k = Some f" and v: "safe_value k v"
  have l: "length v < LINE_SIZE" using v by (simp add: safe_value_def LINE_SIZE_def)
  have simple: "g v E \<noteq> None" if "g \<in> {Cache_Control, Location_Header, Host, Fun_Ext, Os, Fun_MAN, Max_Delay, Fun_Date}" for g
    using that l
    by (auto simp: Cache_Control_def Location_Header_def Host_def Fun_Ext_def Os_def Fun_MAN_def Max_Delay_def
        Fun_Date_def block_of_ok split: option.splits prod.splits)
  have names: "Unique_Service_Name v E \<noteq> None" "Request_Tpye v E \<noteq> None"
    using Unique_Service_Name_safe [OF v, of E] Request_Tpye_safe [OF v] by auto
  have nts: "Notification_Sub_Type v E \<noteq> None" if "same_nocase ''NTS'' k"
    using that v Notification_safe by (simp add: safe_value_def)
  show ?thesis
    using f simple names nts
    by (auto simp: find_handler_def Token_List_def InitParser_def simp del: not_None_eq split: if_split_asm)
qed

lemma header_loop_safe: "\<forall>l\<in>set ls. safe_line l \<Longrightarrow> header_loop ls rv E \<noteq> None"
proof (induction ls arbitrary: rv E)
  case (Cons l ls)
  obtain k rest where s: "StrTok (Some l) '':'' = (Some k, rest)"
    using Cons.prems by (auto simp: safe_line_def split: prod.split_asm option.split_asm)
  show ?case
  proof (cases "find_handler k")
    case None
    then show ?thesis using s Cons by simp
  next
    case (Some f)
    then obtain v where v: "rest = Some v" "safe_value k v"
      using s Cons.prems by (auto simp: safe_line_def split: option.split_asm)
    obtain r E' where "f v E = Some (r, E')" using handler_safe [OF Some v(2), of E] by auto
    then show ?thesis using s Some v(1) Cons by simp
  qed
qed simp

lemma safe_empty: "safe_line []"
  using StrTok_missing [of "CHR '':''" "'':''" "[]"] by (simp add: safe_line_def handlers)

text \<open>
  C20. A packet of at most eleven lines, each shorter than the line array, is parsed without a memory fault when its start line
  has three words and each line with a known header name (\<open>safe_line\<close>) has a colon, a value that fits the arrays with the
  prefix a name gets, for NTS a second colon, and no double colon before a uuid.  Other headers may be anything.
\<close>

theorem AnalyzeCommand_safe:
  assumes "\<forall>l\<in>set (h # ls). line_ok l" "length ls < 11" "safe_start h" "\<forall>l\<in>set ls. safe_line l"
  shows "AnalyzeCommand True (Some (packet (h # ls))) Evt \<noteq> None"
proof -
  obtain r E where "CheckHdr h (InitEvent Evt) = Some (r, E)" "r \<noteq> 0"
    using CheckHdr_safe [OF assms(3)] by blast
  moreover have "header_loop (ls @ [[]]) 1 E \<noteq> None"
    by (rule header_loop_safe) (use assms(4) safe_empty in auto)
  ultimately show ?thesis using AnalyzeCommand_packet [OF assms(1,2), of Evt] by simp
qed

text \<open>
  A start line that is none of the three forms is recorded in the error code and otherwise
  ignored: \<open>AnalyzeCommand\<close> tests \<open>CheckHdr\<close> for a nonzero result, which -1 is.
\<close>

theorem bad_start_line_accepted:
  assumes "line_ok h" "strstr (the (fst (StrTok (Some h) '' ''))) ''M-SEARCH'' = None"
    and "strstr (the (fst (StrTok (Some h) '' ''))) ''NOTIFY'' = None"
    and "strstr (the (fst (StrTok (Some h) '' ''))) ''HTTP/1.1'' = None"
  shows "AnalyzeCommand True (Some (packet [h, []])) Evt =
    Some (1, (InitEvent Evt)\<lparr>sErrCode := E_HTTP_SYNTEX\<rparr>)"
proof -
  obtain t r where t: "StrTok (Some h) '' '' = (Some t, r)" by (rule StrTok_Some)
  then have c: "CheckHdr h (InitEvent Evt) = Some (- 1, (InitEvent Evt)\<lparr>sErrCode := E_HTTP_SYNTEX\<rparr>)"
    using assms by (simp add: CheckHdr_def has_def block_of_ok line_ok_def)
  have "line_ok []" by (simp add: line_ok_def COMMAND_LEN_def)
  then show ?thesis
    using AnalyzeCommand_packet [of h "[[]]" Evt] assms(1) c
    by (simp add: header_loop_empty del: header_loop.simps(2))
qed

text \<open>A start line of one word that names a method makes the parser search the null pointer.\<close>

theorem short_start_line_faults:
  assumes "SP \<notin> set h" "strstr h m \<noteq> None" "m \<in> {''M-SEARCH'', ''NOTIFY'', ''HTTP/1.1''}"
  shows "CheckHdr h Evt = None"
proof -
  have "StrTok (Some h) '' '' = (Some h, None)" using StrTok_missing [of SP "'' ''" h] assms(1) by simp
  then show ?thesis using assms(2,3) by (auto simp: CheckHdr_def has_def StrTok_def Let_def block_of_def)
qed

section \<open>Examples\<close>

definition blank_event :: Event where
  "blank_event = \<lparr>sCmd = SSDP_ERROR, sRequestType = SSDP_SERROR, sErrCode = 0, sMaxAge = 0, sMx = 0, sUDN = [],
     sDeviceType = [], sServiceType = [], sLocation = [], sHostAddr = [], sOs = [], sExt = [], sDate = [], sMan = [],
     sDestAddr = None, sCookie = 0\<rparr>"

theorem AnalyzeCommand_overflow_witness:
  "AnalyzeCommand True (Some (packet (''NOTIFY * HTTP/1.1'' # replicate 11 ''X:1''))) blank_event = None"
  by (rule AnalyzeCommand_overflow) (simp_all add: NUM_TOKEN_def)

lemma some_notify_safe: "safe_start ''NOTIFY * HTTP/1.1''" "safe_line ''NTS: ssdp:alive''" "safe_line ''USN: uuid:1::upnp:rootdevice''"
  by code_simp+

theorem AnalyzeCommand_safe_witness:
  "AnalyzeCommand True (Some (packet [''NOTIFY * HTTP/1.1'', ''NTS: ssdp:alive'', ''USN: uuid:1::upnp:rootdevice'']))
     blank_event \<noteq> None"
  by (rule AnalyzeCommand_safe) (simp_all add: some_notify_safe line_ok_def COMMAND_LEN_def)

theorem bad_start_line_accepted_witness:
  "AnalyzeCommand True (Some (packet [''GET / HTTP/1.1'', []])) blank_event =
     Some (1, (InitEvent blank_event)\<lparr>sErrCode := E_HTTP_SYNTEX\<rparr>)"
  by (rule bad_start_line_accepted) (simp_all add: line_ok_def COMMAND_LEN_def StrTok_def)

end
