(* ===== verification/Http_Date.thy ===== *)
theory Http_Date imports C_Text begin

text \<open>
  \<^verbatim>\<open>currentTmToHttpDate\<close> of \<^verbatim>\<open>genlib/http_client/http_client.c\<close>: the DATE header line.  The broken-down
  time of \<^verbatim>\<open>gmtime\<close> is an argument.
\<close>

record tm =
  tm_mon :: nat
  tm_wday :: nat
  tm_mday :: nat
  tm_year :: nat
  tm_hour :: nat
  tm_min :: nat
  tm_sec :: nat

text \<open>\<^verbatim>\<open>%02d\<close> and \<^verbatim>\<open>%04d\<close>.\<close>

definition padded :: "nat \<Rightarrow> nat \<Rightarrow> string" where
  "padded w n = (let s = dec_nat n in replicate (w - length s) (CHR ''0'') @ s)"

definition months :: "string list" where
  "months = [''Jan'', ''Feb'', ''Mar'', ''Apr'', ''May'', ''Jun'', ''Jul'', ''Aug'', ''Sep'', ''Oct'', ''Nov'', ''Dec'']"

definition days :: "string list" where
  "days = [''Sun'', ''Mon'', ''Tue'', ''Wed'', ''Thu'', ''Fri'', ''Sat'']"

text \<open>A month or a day outside the table leaves a null pointer for \<^verbatim>\<open>strcat\<close>.\<close>

definition currentTmToHttpDate :: "tm \<Rightarrow> string option" where
  "currentTmToHttpDate t =
     (if tm_mon t < length months \<and> tm_wday t < length days
      then Some (''DATE: '' @ days ! tm_wday t @ '', '' @ padded 2 (tm_mday t) @ '' '' @ months ! tm_mon t @
        '' '' @ padded 4 (tm_year t + 1900) @ '' '' @ padded 2 (tm_hour t) @ '':'' @ padded 2 (tm_min t) @
        '':'' @ padded 2 (tm_sec t) @ '' GMT'' @ CRLF)
      else None)"

definition tm_ok :: "tm \<Rightarrow> bool" where
  "tm_ok t = (tm_mon t < 12 \<and> tm_wday t < 7 \<and> tm_mday t < 32 \<and> tm_year t + 1900 < 10000 \<and>
     tm_hour t < 24 \<and> tm_min t < 60 \<and> tm_sec t < 62)"

lemma length_padded: "n < 10 ^ w \<Longrightarrow> 0 < w \<Longrightarrow> length (padded w n) = w"
  using length_dec_nat [of w n] by (simp add: padded_def Let_def)

lemma length_names: "i < 7 \<Longrightarrow> length (days ! i) = 3" "j < 12 \<Longrightarrow> length (months ! j) = 3"
  by (auto simp: days_def months_def less_Suc_eq numeral_eq_Suc)

lemma padded_digits: "c \<in> set (padded w n) \<Longrightarrow> isdigit c"
  using dec_nat_digits [of n] by (auto simp: padded_def Let_def isdigit_def)

lemma CR_date: "CR \<notin> set (padded w n)" "i < 7 \<Longrightarrow> CR \<notin> set (days ! i)" "j < 12 \<Longrightarrow> CR \<notin> set (months ! j)"
  using padded_digits [of CR w n] by (auto simp: isdigit_def days_def months_def less_Suc_eq numeral_eq_Suc)

text \<open>The line has the length \<^verbatim>\<open>HTTP_DATE_LENGTH\<close> the callers reckon with, 37 bytes.\<close>

lemma http_date_line:
  "tm_ok t \<Longrightarrow> \<exists>d. currentTmToHttpDate t = Some (''DATE: '' @ d @ CRLF) \<and> length d = 29 \<and> CR \<notin> set d"
  by (auto simp: currentTmToHttpDate_def tm_ok_def length_padded length_names CR_date CRLF_def
      months_def [THEN arg_cong, of length] days_def [THEN arg_cong, of length])

end
