(* ===== verification/Ssdp_Packets.thy ===== *)
theory Ssdp_Packets imports Ssdp_Parser Http_Date begin

text \<open>
  The packets of the discovery library (\<^verbatim>\<open>ssdp/ssdplib.c\<close>): the search request, and the
  advertisement, shutdown and reply packets with the functions that send them.

  \<^verbatim>\<open>sprintf(TempBuf,"%s:%d",TempBuf,Port)\<close> has its own buffer as an argument; the model takes the
  result every C library gives, the text appended.
\<close>

section \<open>The packets\<close>

definition BUFSIZE :: nat where "BUFSIZE = 2500"
definition SSDP_IP :: string where "SSDP_IP = ''239.255.255.250''"
definition SSDP_PORT :: nat where "SSDP_PORT = 1900"
definition NUM_TRY :: nat where "NUM_TRY = 3"
definition NUM_SSDP_COPY :: nat where "NUM_SSDP_COPY = 2"

text \<open>A line built in \<^verbatim>\<open>char TempBuf[COMMAND_LEN]\<close>.\<close>

definition temp_line :: "string \<Rightarrow> string option" where
  "temp_line s = block_of COMMAND_LEN (s @ CRLF)"

definition CreateClientRequestPacket :: "int \<Rightarrow> string option \<Rightarrow> string option" where
  "CreateClientRequestPacket Mx SearchTarget = do {
     host \<leftarrow> temp_line (''HOST:'' @ SSDP_IP @ '':'' @ dec_nat SSDP_PORT);
     mx \<leftarrow> (if 0 < Mx then temp_line (''MX:'' @ dec_int Mx) else Some []);
     st \<leftarrow> (case SearchTarget of None \<Rightarrow> Some [] | Some t \<Rightarrow> temp_line (''ST:'' @ t));
     block_of BUFSIZE (''M-SEARCH * HTTP/1.1'' @ CRLF @ host @
       ''MAN:'' @ [DQ] @ ''ssdp:discover'' @ [DQ] @ CRLF @ mx @ st @ CRLF) }"

text \<open>What the environment tells: the time and \<^verbatim>\<open>uname\<close>.\<close>

record host_info =
  clock :: tm
  sys_name :: string
  sys_release :: string

definition server_line :: "host_info \<Rightarrow> string option" where
  "server_line e = temp_line (''SERVER: '' @ sys_name e @ ''/'' @ sys_release e @ '' UPnP/1.0 Intel UPnP SDK/1.0'')"

text \<open>
  \<open>Notf\<close> is 0 for a shutdown, 1 for an advertisement, 2 for a reply; with any other value the buffer
  is not initialised.  The array \<^verbatim>\<open>Date\<close> has 40 bytes.
\<close>

definition CreateServiceRequestPacket ::
  "host_info \<Rightarrow> int \<Rightarrow> string \<Rightarrow> string \<Rightarrow> string \<Rightarrow> int \<Rightarrow> string option" where
  "CreateServiceRequestPacket e Notf NtSt Usn Location Duration = do {
     d \<leftarrow> currentTmToHttpDate (clock e);
     Date \<leftarrow> block_of 40 d;
     age \<leftarrow> temp_line (''CACHE-CONTROL: max-age='' @ dec_int Duration);
     loc \<leftarrow> temp_line (''LOCATION: '' @ Location);
     host \<leftarrow> temp_line (''HOST: '' @ SSDP_IP @ '':'' @ dec_nat SSDP_PORT);
     usn \<leftarrow> temp_line (''USN: '' @ Usn);
     body \<leftarrow> (if Notf = 2 then do {
         server \<leftarrow> server_line e;
         st \<leftarrow> temp_line (''ST: '' @ NtSt);
         Some (''HTTP/1.1 200 OK'' @ CRLF @ age @ Date @ ''EXT:'' @ CRLF @ loc @ server @ st) }
       else if Notf = 1 then do {
         nt \<leftarrow> temp_line (''NT: '' @ NtSt);
         server \<leftarrow> server_line e;
         Some (''NOTIFY * HTTP/1.1'' @ CRLF @ host @ age @ loc @ nt @ ''NTS: ssdp:alive'' @ CRLF @ server) }
       else if Notf = 0 then do {
         nt \<leftarrow> temp_line (''NT: '' @ NtSt);
         Some (''NOTIFY * HTTP/1.1'' @ CRLF @ host @ age @ loc @ nt @ ''NTS: ssdp:byebye'' @ CRLF) }
       else None);
     block_of BUFSIZE (body @ usn @ CRLF @ CRLF) }"

section \<open>Sending packets\<close>

text \<open>
  What \<^verbatim>\<open>select\<close> says after a packet was sent: it failed, the socket is ready, or not.  The
  environment answers by the number of packets sent before.
\<close>

datatype select_result = Sel_Error | Sel_Ready | Sel_Not_Ready

record net_env =
  evt_ok :: bool
  udp_ok :: bool
  sel :: "nat \<Rightarrow> select_result"

text \<open>The loop for one packet; \<open>n\<close> counts what was sent.  The result is the copies sent.\<close>

function copy_loop :: "(nat \<Rightarrow> select_result) \<Rightarrow> nat \<Rightarrow> nat \<Rightarrow> nat \<Rightarrow> nat" where
  "copy_loop S n TryIdx NumCopy =
     (if TryIdx < NUM_TRY \<and> NumCopy < NUM_SSDP_COPY
      then (case S n of
          Sel_Error \<Rightarrow> Suc n
        | Sel_Ready \<Rightarrow> copy_loop S (Suc n) TryIdx (Suc NumCopy)
        | Sel_Not_Ready \<Rightarrow> copy_loop S (Suc n) (Suc TryIdx) NumCopy)
      else n)"
  by pat_completeness auto
termination
  by (relation "measure (\<lambda>(S, n, t, c). (NUM_TRY - t) + (NUM_SSDP_COPY - c))") auto

declare copy_loop.simps [simp del]

text \<open>The packets on the wire, in order.\<close>

fun packet_loop :: "(nat \<Rightarrow> select_result) \<Rightarrow> nat \<Rightarrow> string list \<Rightarrow> string list" where
  "packet_loop S n [] = []"
| "packet_loop S n (p # ps) =
     (let n' = copy_loop S n 0 0 in replicate (n' - n) p @ packet_loop S n' ps)"

text \<open>The address the datagrams go to: a group, by dotted address and port, or a peer.\<close>

datatype destination = Group string nat | Peer sockaddr_in

definition multicast :: destination where "multicast = Group SSDP_IP SSDP_PORT"

type_synonym sent = "int \<times> (destination \<times> string) list"

definition NewRequestHandler :: "net_env \<Rightarrow> destination \<Rightarrow> string list \<Rightarrow> sent" where
  "NewRequestHandler e DestAddr RqPacket =
     (if \<not> evt_ok e then (UPNP_E_OUTOF_MEMORY, [])
      else if \<not> udp_ok e then (UPNP_E_OUTOF_SOCKET, [])
      else (UPNP_E_SUCCESS, map (Pair DestAddr) (packet_loop (sel e) 0 RqPacket)))"

text \<open>The names of a device, each in an array of \<open>LINE_SIZE\<close> bytes: NT or ST, and USN.\<close>

definition names :: "string \<Rightarrow> string \<Rightarrow> (string \<times> string) option" where
  "names nt usn = do { a \<leftarrow> block_of LINE_SIZE nt; b \<leftarrow> block_of LINE_SIZE usn; Some (a, b) }"

definition root_names :: "string \<Rightarrow> (string \<times> string) option" where
  "root_names Udn = names ''upnp:rootdevice'' (Udn @ ''::upnp:rootdevice'')"

definition udn_names :: "string \<Rightarrow> (string \<times> string) option" where
  "udn_names Udn = names Udn Udn"

definition type_names :: "string \<Rightarrow> string \<Rightarrow> (string \<times> string) option" where
  "type_names Udn DevType = names DevType (Udn @ ''::'' @ DevType)"

text \<open>The packets for a list of names.\<close>

fun packets ::
  "host_info \<Rightarrow> int \<Rightarrow> (string \<times> string) option list \<Rightarrow> string \<Rightarrow> int \<Rightarrow> string list option" where
  "packets e Notf [] Location Duration = Some []"
| "packets e Notf (nu # nus) Location Duration = do {
     (nt, usn) \<leftarrow> nu;
     p \<leftarrow> CreateServiceRequestPacket e Notf nt usn Location Duration;
     ps \<leftarrow> packets e Notf nus Location Duration;
     Some (p # ps) }"

text \<open>
  The common shape of the functions: the buffers are allocated (\<open>A k\<close> is the answer of the
  \<open>k\<close>-th allocation), filled and sent.
\<close>

definition send_packets ::
  "(nat \<Rightarrow> bool) \<Rightarrow> host_info \<Rightarrow> net_env \<Rightarrow> destination \<Rightarrow> int \<Rightarrow> (string \<times> string) option list \<Rightarrow> string \<Rightarrow> int \<Rightarrow>
     sent option" where
  "send_packets A e n DestAddr Notf nus Location Duration =
     (if \<exists>k<length nus. \<not> A k then Some (UPNP_E_OUTOF_MEMORY, [])
      else map_option (NewRequestHandler n DestAddr) (packets e Notf nus Location Duration))"

definition device_names :: "bool \<Rightarrow> string \<Rightarrow> string \<Rightarrow> (string \<times> string) option list" where
  "device_names RootDev Udn DevType =
     (if RootDev then [root_names Udn, udn_names Udn, type_names Udn DevType]
      else [udn_names Udn, type_names Udn DevType])"

definition DeviceAdvertisement ::
  "(nat \<Rightarrow> bool) \<Rightarrow> host_info \<Rightarrow> net_env \<Rightarrow> string \<Rightarrow> bool \<Rightarrow> string \<Rightarrow> string \<Rightarrow> int \<Rightarrow> sent option" where
  "DeviceAdvertisement A e n DevType RootDev Udn Location Duration =
     send_packets A e n multicast 1 (device_names RootDev Udn DevType) Location Duration"

definition DeviceReply ::
  "(nat \<Rightarrow> bool) \<Rightarrow> host_info \<Rightarrow> net_env \<Rightarrow> sockaddr_in \<Rightarrow> string \<Rightarrow> bool \<Rightarrow> string \<Rightarrow> string \<Rightarrow> int \<Rightarrow> sent option" where
  "DeviceReply A e n DestAddr DevType RootDev Udn Location Duration =
     send_packets A e n (Peer DestAddr) 2 (device_names RootDev Udn DevType) Location Duration"

definition DeviceShutdown ::
  "(nat \<Rightarrow> bool) \<Rightarrow> host_info \<Rightarrow> net_env \<Rightarrow> string \<Rightarrow> bool \<Rightarrow> string \<Rightarrow> string \<Rightarrow> int \<Rightarrow> sent option" where
  "DeviceShutdown A e n DevType RootDev Udn Location Duration =
     send_packets A e n multicast 0 (device_names RootDev Udn DevType) Location Duration"

definition SendReply ::
  "(nat \<Rightarrow> bool) \<Rightarrow> host_info \<Rightarrow> net_env \<Rightarrow> sockaddr_in \<Rightarrow> string \<Rightarrow> bool \<Rightarrow> string \<Rightarrow> string \<Rightarrow> int \<Rightarrow> int \<Rightarrow>
     sent option" where
  "SendReply A e n DestAddr DevType RootDev Udn Location Duration ByType =
     send_packets A e n (Peer DestAddr) 2
       [if RootDev then root_names Udn else if ByType = 0 then udn_names Udn else type_names Udn DevType]
       Location Duration"

definition ServiceAdvertisement ::
  "(nat \<Rightarrow> bool) \<Rightarrow> host_info \<Rightarrow> net_env \<Rightarrow> string \<Rightarrow> string \<Rightarrow> string \<Rightarrow> int \<Rightarrow> sent option" where
  "ServiceAdvertisement A e n Udn ServType Location Duration =
     send_packets A e n multicast 1 [type_names Udn ServType] Location Duration"

definition ServiceReply ::
  "(nat \<Rightarrow> bool) \<Rightarrow> host_info \<Rightarrow> net_env \<Rightarrow> sockaddr_in \<Rightarrow> string \<Rightarrow> string \<Rightarrow> string \<Rightarrow> int \<Rightarrow> sent option" where
  "ServiceReply A e n DestAddr ServType Udn Location Duration =
     send_packets A e n (Peer DestAddr) 2 [type_names Udn ServType] Location Duration"

definition ServiceShutdown ::
  "(nat \<Rightarrow> bool) \<Rightarrow> host_info \<Rightarrow> net_env \<Rightarrow> string \<Rightarrow> string \<Rightarrow> string \<Rightarrow> int \<Rightarrow> sent option" where
  "ServiceShutdown A e n Udn ServType Location Duration =
     send_packets A e n multicast 0 [type_names Udn ServType] Location Duration"

section \<open>The library reads what it writes\<close>

lemma CR_digits: "CR \<notin> set (dec_nat n)"
  by (rule dec_nat_plain) (simp add: isdigit_def)

lemma temp_line_Some: "temp_line s = Some t \<longleftrightarrow> t = s @ CRLF \<and> length s + 2 < COMMAND_LEN"
  by (auto simp: temp_line_def block_of_Some CRLF_def)

lemma line_okI: "CR \<notin> set s \<Longrightarrow> length s + 2 < COMMAND_LEN \<Longrightarrow> line_ok s"
  by (simp add: line_ok_def)

lemma dec_1900: "dec_nat 1900 = ''1900''"
  by code_simp

text \<open>A header line, and what the loop does with it.\<close>

definition hdr :: "string \<Rightarrow> string \<Rightarrow> string" where
  "hdr k v = k @ '':'' @ v"

lemma header_loop_hdr: "CHR '':'' \<notin> set k \<Longrightarrow> header_loop (hdr k v # ls) rv E =
    (case find_handler k of None \<Rightarrow> header_loop ls rv E
     | Some f \<Rightarrow> f v E \<bind> (\<lambda>(r, E'). if r < 0 then Some (- 1, E') else header_loop ls r E'))"
  using StrTok_colon [of k v] by (simp add: hdr_def split: option.split)

definition search_lines :: "nat \<Rightarrow> string \<Rightarrow> string list" where
  "search_lines mx st = [hdr ''HOST'' ''239.255.255.250:1900'', hdr ''MAN'' (DQ # ''ssdp:discover'' @ [DQ]),
     hdr ''MX'' (dec_nat mx), hdr ''ST'' st, []]"

lemma search_packet_lines:
  assumes "CreateClientRequestPacket (int mx) (Some st) = Some p" "0 < mx"
  shows "p = packet (''M-SEARCH * HTTP/1.1'' # search_lines mx st)" "length st < 295"
  using assms
  by (auto simp: CreateClientRequestPacket_def bind_eq_Some_conv temp_line_Some block_of_Some search_lines_def
      SSDP_IP_def SSDP_PORT_def dec_1900 dec_int_def COMMAND_LEN_def hdr_def)

text \<open>The event after the headers before the search target.\<close>

definition search_event :: "nat \<Rightarrow> Event \<Rightarrow> Event" where
  "search_event mx Evt = (InitEvent Evt)\<lparr>sCmd := SSDP_SEARCH, sHostAddr := ''239.255.255.250:1900'',
     sMan := DQ # ''ssdp:discover'' @ [DQ], sMx := int mx\<rparr>"

lemma search_lines_ok:
  assumes "length st < 295" "CR \<notin> set st" "int mx < 2 ^ 31"
  shows "\<forall>l\<in>set (''M-SEARCH * HTTP/1.1'' # search_lines mx st). line_ok l"
proof -
  have "length (dec_nat mx) \<le> 10" using length_dec_nat [of 10 mx] assms(3) by simp
  then show ?thesis using assms(1,2) CR_digits [of mx]
    by (auto simp: search_lines_def line_ok_def COMMAND_LEN_def DQ_def hdr_def)
qed

text \<open>
  A search request printed by \<open>CreateClientRequestPacket\<close> is read back by \<open>AnalyzeCommand\<close> as a search
  with the same delay, the discovery extension, the group address, and the target as \<open>Request_Tpye\<close>
  reads it.
\<close>

theorem search_request_roundtrip:
  assumes "CreateClientRequestPacket (int mx) (Some st) = Some p" "0 < mx" "int mx < 2 ^ 31" "CR \<notin> set st"
    and "Request_Tpye st (search_event mx Evt) = Some (1, Evt')"
  shows "AnalyzeCommand True (Some p) Evt = Some (1, Evt') \<and> sCmd Evt' = SSDP_SEARCH \<and> sMx Evt' = int mx \<and>
    sMan Evt' = DQ # ''ssdp:discover'' @ [DQ] \<and> sHostAddr Evt' = SSDP_IP @ '':'' @ dec_nat SSDP_PORT"
proof -
  note p = search_packet_lines [OF assms(1,2)]
  note fields = handler_fields [unfolded LINE_SIZE_def]
  have "header_loop (search_lines mx st @ [[]]) 1 ((InitEvent Evt)\<lparr>sCmd := SSDP_SEARCH\<rparr>) = Some (1, Evt')"
    using assms(2,3,5)
    by (simp add: search_lines_def header_loop_hdr handlers fields Max_Delay_number search_event_def
        header_loop_empty del: header_loop.simps(2))
  then have "AnalyzeCommand True (Some p) Evt = Some (1, Evt')"
    using AnalyzeCommand_packet [OF search_lines_ok [OF p(2) assms(4,3)], of Evt]
    by (simp add: p(1) search_lines_def start_lines)
  moreover have "same_others (search_event mx Evt) Evt'" by (rule Request_Tpye_others [OF assms(5)])
  ultimately show ?thesis
    by (simp add: same_others_def search_event_def SSDP_IP_def SSDP_PORT_def dec_1900)
qed

section \<open>The names of a device\<close>

text \<open>A UDN of hexadecimal digits and dashes, and a device type.\<close>

definition udn_char :: "char \<Rightarrow> bool" where
  "udn_char c = (isxdigit c \<or> c = CHR ''-'')"

definition plain_Udn :: "string \<Rightarrow> bool" where
  "plain_Udn Udn = (take 5 Udn = ''uuid:'' \<and> drop 5 Udn \<noteq> [] \<and> list_all udn_char (drop 5 Udn))"

definition plain_type :: "string \<Rightarrow> bool" where
  "plain_type t = (take 4 t = ''urn:'' \<and> strstr t '':device:'' \<noteq> None \<and> strstr t ''uuid'' = None \<and>
     strstr t ''ssdp:all'' = None \<and> strstr t '':rootdevice'' = None)"

lemma plain_UdnE:
  assumes "plain_Udn Udn"
  obtains h u where "Udn = ''uuid:'' @ h # u" "udn_char h" "list_all udn_char u"
proof -
  have "Udn = ''uuid:'' @ drop 5 Udn" using assms by (metis append_take_drop_id plain_Udn_def)
  then show ?thesis using assms that by (cases "drop 5 Udn") (auto simp: plain_Udn_def)
qed

lemma plain_typeE:
  assumes "plain_type t"
  obtains d where "t = ''urn:'' @ d"
  using assms by (metis append_take_drop_id plain_type_def)

lemma strstr_skip: "hd pat \<notin> set u \<Longrightarrow> pat \<noteq> [] \<Longrightarrow> strstr (u @ t) pat = map_option ((+) (length u)) (strstr t pat)"
proof (induction u)
  case (Cons x u)
  have "take (length pat) (x # u @ t) \<noteq> pat" using Cons.prems by (cases pat) auto
  then show ?case using Cons by (cases "strstr t pat") auto
qed (simp add: option.map_ident [symmetric] cong: option.map_cong)

lemma strstr_right: "strstr t pat \<noteq> None \<Longrightarrow> strstr (u @ t) pat \<noteq> None"
  by (induction u) auto

lemma strstr_longer: "strstr s pat = None \<Longrightarrow> strstr s (pat @ q) = None"
proof (induction s)
  case (Cons c cs)
  have "take (length pat) (c # cs) = pat" if "take (length (pat @ q)) (c # cs) = pat @ q"
    using arg_cong [OF that, of "take (length pat)"] by (simp add: min_def)
  then show ?case using Cons by (auto split: if_splits)
qed (auto split: if_splits)

lemma udn_char_ne: "udn_char c \<Longrightarrow> c \<noteq> CHR '':'' \<and> c \<noteq> CHR ''u'' \<and> c \<noteq> CHR ''s'' \<and> c \<noteq> CR"
  by (auto simp: udn_char_def isxdigit_def isdigit_def)

lemma udn_chars: "list_all udn_char u \<Longrightarrow> CHR '':'' \<notin> set u \<and> CHR ''u'' \<notin> set u \<and> CHR ''s'' \<notin> set u \<and> CR \<notin> set u"
  using udn_char_ne by (auto simp: list_all_iff)

text \<open>The UDN at the start of a name, after the blank.\<close>

lemma udn_start:
  assumes "plain_Udn Udn"
  shows "strstr (SP # Udn @ t) ''uuid'' = Some 1"
    and "strstr (SP # Udn @ '':'' @ '':'' @ t) ''::'' = Some (1 + length Udn)"
    and "strstr (SP # Udn) ''::'' = None"
    and "strstr t ''uuid'' = None \<Longrightarrow> strstr (SP # Udn @ '':'' @ '':'' @ t) ''uuid:schemas'' = None"
    and "strstr (SP # Udn) ''uuid:schemas'' = None"
    and "strstr (SP # Udn @ '':'' @ '':'' @ t) ''urn'' = map_option ((+) (3 + length Udn)) (strstr t ''urn'')"
    and "strstr (SP # Udn @ '':'' @ '':'' @ t) ''urn:'' = map_option ((+) (3 + length Udn)) (strstr t ''urn:'')"
    and "strstr (SP # Udn) ''urn:'' = None"
proof -
  obtain h u where U: "Udn = ''uuid:'' @ h # u" "udn_char h" "list_all udn_char u"
    using plain_UdnE [OF assms] by metis
  note h = udn_char_ne [OF U(2)] and u = udn_chars [OF U(3)]
  note skip = strstr_skip [of "''::''" u] strstr_skip [of "''uuid:schemas''" u] strstr_skip [of "''urn''" u] strstr_skip [of "''urn:''" u]
  show "strstr (SP # Udn @ t) ''uuid'' = Some 1" by (simp add: U(1))
  show "strstr (SP # Udn @ '':'' @ '':'' @ t) ''::'' = Some (1 + length Udn)"
    using h u skip(1) [of "'':'' @ '':'' @ t"] by (simp add: U(1))
  show "strstr (SP # Udn) ''::'' = None" using h u skip(1) [of "[]"] by (simp add: U(1))
  show "strstr (SP # Udn) ''uuid:schemas'' = None" using h u skip(2) [of "[]"] by (simp add: U(1))
  show "strstr (SP # Udn) ''urn:'' = None" using h u skip(4) [of "[]"] by (simp add: U(1))
  show "strstr (SP # Udn @ '':'' @ '':'' @ t) ''uuid:schemas'' = None" if "strstr t ''uuid'' = None"
    using h u skip(2) [of "'':'' @ '':'' @ t"] strstr_longer [OF that, of "'':schemas''"] by (simp add: U(1))
  show "strstr (SP # Udn @ '':'' @ '':'' @ t) ''urn'' = map_option ((+) (3 + length Udn)) (strstr t ''urn'')"
    using h u skip(3) [of "'':'' @ '':'' @ t"] by (cases "strstr t ''urn''") (simp_all add: U(1))
  show "strstr (SP # Udn @ '':'' @ '':'' @ t) ''urn:'' = map_option ((+) (3 + length Udn)) (strstr t ''urn:'')"
    using h u skip(4) [of "'':'' @ '':'' @ t"] by (cases "strstr t ''urn:''") (simp_all add: U(1))
qed

lemma USN_root:
  assumes "plain_Udn Udn" "length Udn < LINE_SIZE"
  shows "Unique_Service_Name (SP # Udn @ ''::upnp:rootdevice'') E = Some (1, E\<lparr>sUDN := Udn\<rparr>)"
  using udn_start(2,4,7) [OF assms(1), of "''upnp:rootdevice''"] udn_start(1) [OF assms(1), of "''::upnp:rootdevice''"] assms(2)
  by (simp add: Unique_Service_Name_def plain_udn_def typed_name_def block_of_ok)

lemma USN_udn:
  assumes "plain_Udn Udn" "length Udn < LINE_SIZE"
  shows "Unique_Service_Name (SP # Udn) E = Some (1, E\<lparr>sUDN := Udn\<rparr>)"
  using udn_start(3,5,8) [OF assms(1)] udn_start(1) [OF assms(1), of "[]"] assms(2)
  by (simp add: Unique_Service_Name_def plain_udn_def typed_name_def block_of_ok)

text \<open>
  A mark between colons is found in the name exactly when it is found in the type behind the UDN: the hexadecimal
  digits do not spell it.
\<close>

lemma udn_mark:
  assumes "plain_Udn Udn" "p \<in> {'':service:'', '':device:''}" "t = ''urn:'' @ d"
  shows "strstr (SP # Udn @ '':'' @ '':'' @ t) p = None \<longleftrightarrow> strstr t p = None"
proof -
  obtain h u where U: "Udn = ''uuid:'' @ h # u" "udn_char h" "list_all udn_char u"
    using plain_UdnE [OF assms(1)] by metis
  note h = udn_char_ne [OF U(2)] and u = udn_chars [OF U(3)]
  have v: "\<not> udn_char (CHR ''v'')" by (simp add: udn_char_def isxdigit_def isdigit_def)
  have start: "take (length p) ('':'' @ h # u @ '':'' @ '':'' @ t) \<noteq> p"
    using assms(2) h U(3) v by (cases u; cases "tl u") auto
  have "strstr (u @ '':'' @ '':'' @ t) p = map_option ((+) (length u)) (strstr ('':'' @ '':'' @ t) p)"
    using strstr_skip [of p u "'':'' @ '':'' @ t"] u assms(2) by auto
  then show ?thesis using assms(2) start h by (auto simp: U(1) assms(3))
qed

lemma USN_type:
  assumes "plain_Udn Udn" "length Udn < LINE_SIZE" "plain_type t" "length t < LINE_SIZE"
  shows "Unique_Service_Name (SP # Udn @ ''::'' @ t) E =
    Some (1, E\<lparr>sUDN := Udn, sServiceType := (if strstr t '':service:'' = None then sServiceType E else t), sDeviceType := t\<rparr>)"
proof -
  obtain d where d: "t = ''urn:'' @ d" by (rule plain_typeE [OF assms(3)])
  have marks: "strstr (SP # Udn @ '':'' @ '':'' @ t) '':device:'' \<noteq> None"
    "strstr (SP # Udn @ '':'' @ '':'' @ t) '':service:'' = None \<longleftrightarrow> strstr t '':service:'' = None"
    using udn_mark [OF assms(1) _ d, of "'':device:''"] udn_mark [OF assms(1) _ d, of "'':service:''"] assms(3)
    by (simp_all add: plain_type_def del: strstr.simps)
  have u: "strstr t ''urn'' = Some 0" "strstr t ''urn:'' = Some 0" by (simp_all add: d)
  have uuid: "strstr t ''uuid'' = None" using assms(3) by (simp add: plain_type_def)
  note start = udn_start(2,4,6,7) [OF assms(1), of t] udn_start(1) [OF assms(1), of "'':'' @ '':'' @ t"] assms(2,4) u uuid
  show ?thesis
  proof (cases "strstr t '':service:'' = None")
    case True
    then show ?thesis using start marks
      by (auto simp: Unique_Service_Name_def plain_udn_def typed_name_def block_of_ok numeral_3_eq_3 simp del: strstr.simps)
  next
    case False
    then show ?thesis using start marks
      by (auto simp: Unique_Service_Name_def plain_udn_def typed_name_def block_of_ok numeral_3_eq_3 simp del: strstr.simps)
  qed
qed

text \<open>The notification type, or search target, of the three forms.\<close>

lemma Type_root: "Request_Tpye (SP # ''upnp:rootdevice'') E =
    Some (1, E\<lparr>sErrCode := 0, sRequestType := SSDP_ROOTDEVICE\<rparr>)"
  by (simp add: Request_Tpye_def Unique_Service_Name_def plain_udn_def typed_name_def)

lemma Type_udn:
  assumes "plain_Udn Udn" "length Udn < LINE_SIZE"
  shows "Request_Tpye (SP # Udn) E = Some (1, E\<lparr>sErrCode := 0, sRequestType := SSDP_DEVICE, sUDN := Udn\<rparr>)"
proof -
  obtain h u where U: "Udn = ''uuid:'' @ h # u" "udn_char h" "list_all udn_char u"
    using plain_UdnE [OF assms(1)] by metis
  note h = udn_char_ne [OF U(2)] and u = udn_chars [OF U(3)]
  have "strstr (SP # Udn) ''ssdp:all'' = None"
    using h u strstr_skip [of "''ssdp:all''" u "[]"] by (simp add: U(1))
  moreover have "strstr (SP # Udn) ''uuid:'' \<noteq> None" by (simp add: U(1))
  moreover have "strstr (SP # Udn) '':rootdevice'' = None \<or> CHR ''o'' \<in> set (SP # Udn)"
    using strstr_none [of "CHR ''o''" "'':rootdevice''" "SP # Udn"] by auto
  moreover have "CHR ''o'' \<notin> set (SP # Udn)"
    using U by (auto simp: list_all_iff udn_char_def isxdigit_def isdigit_def)
  ultimately show ?thesis
    using USN_udn [OF assms, of E] by (simp add: Request_Tpye_def)
qed

lemma Type_type:
  assumes "plain_type t" "length t < LINE_SIZE"
  shows "Request_Tpye (SP # t) E = Some (1, E\<lparr>sErrCode := 0, sRequestType := SSDP_DEVICE,
    sServiceType := (if strstr t '':service:'' = None then sServiceType E else t), sDeviceType := t\<rparr>)"
proof -
  obtain d where d: "t = ''urn:'' @ d" by (rule plain_typeE [OF assms(1)])
  have skip: "strstr (SP # t) pat = None \<longleftrightarrow> strstr t pat = None" if "pat \<noteq> []" "hd pat \<noteq> SP" for pat
    using that strstr_skip [of pat "[SP]" t] by auto
  have n: "strstr (SP # t) ''uuid'' = None" "strstr (SP # t) ''ssdp:all'' = None" "strstr (SP # t) '':rootdevice'' = None"
    "strstr (SP # t) '':device:'' \<noteq> None" "strstr (SP # t) '':service:'' = None \<longleftrightarrow> strstr t '':service:'' = None"
    using assms(1) skip [of "''uuid''"] skip [of "''ssdp:all''"] skip [of "'':rootdevice''"] skip [of "'':device:''"]
      skip [of "'':service:''"] by (simp_all add: plain_type_def)
  moreover have "strstr (SP # t) ''urn'' = Some 1" "strstr (SP # t) ''urn:'' = Some 1" by (simp_all add: d)
  ultimately show ?thesis
    using strstr_longer [OF n(1), of "'':schemas''"] strstr_longer [OF n(1), of "'':''"] assms(2)
    by (auto simp: Request_Tpye_def Unique_Service_Name_def plain_udn_def typed_name_def block_of_ok)
qed

text \<open>Service types.\<close>

definition plain_service :: "string \<Rightarrow> bool" where
  "plain_service t = (take 4 t = ''urn:'' \<and> strstr t '':service:'' \<noteq> None \<and> strstr t '':device:'' = None \<and>
     strstr t ''uuid'' = None \<and> strstr t ''ssdp:all'' = None \<and> strstr t '':rootdevice'' = None)"

lemma plain_serviceE:
  assumes "plain_service t"
  obtains d where "t = ''urn:'' @ d"
  using assms by (metis append_take_drop_id plain_service_def)

lemma USN_service:
  assumes "plain_Udn Udn" "length Udn < LINE_SIZE" "plain_service t" "length t < LINE_SIZE"
  shows "Unique_Service_Name (SP # Udn @ ''::'' @ t) E = Some (1, E\<lparr>sUDN := Udn, sServiceType := t\<rparr>)"
proof -
  obtain d where d: "t = ''urn:'' @ d" by (rule plain_serviceE [OF assms(3)])
  have marks: "strstr (SP # Udn @ '':'' @ '':'' @ t) '':service:'' \<noteq> None" "strstr (SP # Udn @ '':'' @ '':'' @ t) '':device:'' = None"
    using udn_mark [OF assms(1) _ d, of "'':device:''"] udn_mark [OF assms(1) _ d, of "'':service:''"] assms(3)
    by (simp_all add: plain_service_def del: strstr.simps)
  have u: "strstr t ''urn'' = Some 0" "strstr t ''urn:'' = Some 0" by (simp_all add: d)
  have uuid: "strstr t ''uuid'' = None" using assms(3) by (simp add: plain_service_def)
  show ?thesis
    using udn_start(2,4,6,7) [OF assms(1), of t] udn_start(1) [OF assms(1), of "'':'' @ '':'' @ t"] assms(2,4) u uuid marks
    by (auto simp: Unique_Service_Name_def plain_udn_def typed_name_def block_of_ok)
qed

lemma Type_service:
  assumes "plain_service t" "length t < LINE_SIZE"
  shows "Request_Tpye (SP # t) E = Some (1, E\<lparr>sErrCode := 0, sRequestType := SSDP_SERVICE, sServiceType := t\<rparr>)"
proof -
  obtain d where d: "t = ''urn:'' @ d" by (rule plain_serviceE [OF assms(1)])
  have none: "strstr (SP # t) pat = None" if "strstr t pat = None" "pat \<noteq> []" "hd pat \<noteq> SP" for pat
    using that strstr_skip [of pat "[SP]" t] by auto
  have n: "strstr (SP # t) ''uuid'' = None" "strstr (SP # t) ''ssdp:all'' = None" "strstr (SP # t) '':rootdevice'' = None"
    "strstr (SP # t) '':device:'' = None"
    using assms(1) by (auto intro!: none simp: plain_service_def)
  have "strstr (SP # t) '':service:'' \<noteq> None"
    using strstr_right [of t "'':service:''" "[SP]"] assms(1) by (simp add: plain_service_def)
  moreover have "strstr (SP # t) ''urn'' = Some 1" "strstr (SP # t) ''urn:'' = Some 1" by (simp_all add: d)
  ultimately show ?thesis
    using n strstr_longer [OF n(1), of "'':schemas''"] strstr_longer [OF n(1), of "'':''"] assms(2)
    by (auto simp: Request_Tpye_def Unique_Service_Name_def plain_udn_def typed_name_def block_of_ok)
qed

section \<open>What a control point reads\<close>

text \<open>
  What a packet announces of a device: that it is a root device, its UDN, its type, or the type of one of its
  services; the two header values it is written with, and what the parser makes of them.
\<close>

datatype announced_name = Root_Device | Device_Udn | Device_Type string | Service_Type string

fun type_header :: "string \<Rightarrow> announced_name \<Rightarrow> string" where
  "type_header Udn Root_Device = ''upnp:rootdevice''"
| "type_header Udn Device_Udn = Udn"
| "type_header Udn (Device_Type t) = t"
| "type_header Udn (Service_Type t) = t"

fun usn_header :: "string \<Rightarrow> announced_name \<Rightarrow> string" where
  "usn_header Udn Root_Device = Udn @ ''::upnp:rootdevice''"
| "usn_header Udn Device_Udn = Udn"
| "usn_header Udn (Device_Type t) = Udn @ ''::'' @ t"
| "usn_header Udn (Service_Type t) = Udn @ ''::'' @ t"

fun request_type :: "announced_name \<Rightarrow> SsdpSearchType" where
  "request_type Root_Device = SSDP_ROOTDEVICE"
| "request_type (Service_Type t) = SSDP_SERVICE"
| "request_type _ = SSDP_DEVICE"

text \<open>The device type and the service type an event is left with.  A device type may have a service mark in it.\<close>

fun device_type_read :: "announced_name \<Rightarrow> string" where
  "device_type_read (Device_Type t) = t"
| "device_type_read _ = []"

fun service_type_read :: "announced_name \<Rightarrow> string" where
  "service_type_read (Device_Type t) = (if strstr t '':service:'' = None then [] else t)"
| "service_type_read (Service_Type t) = t"
| "service_type_read _ = []"

definition device_name :: "string \<Rightarrow> announced_name \<Rightarrow> bool" where
  "device_name DevType n = (n \<in> {Root_Device, Device_Udn, Device_Type DevType})"

text \<open>
  Names that the parser accepts behind the blank, as the type and then as the unique name of a device or
  service: they set no error, leave the other fields alone, and fill in the kind, the UDN and the types.
\<close>

definition readable :: "string \<Rightarrow> announced_name \<Rightarrow> bool" where
  "readable Udn n =
     ((\<forall>E. \<exists>E'. Request_Tpye (SP # type_header Udn n) E = Some (1, E') \<and> sErrCode E' = 0 \<and> sRequestType E' = request_type n \<and>
         (sDeviceType E = [] \<and> sServiceType E = [] \<longrightarrow>
           sDeviceType E' = device_type_read n \<and> sServiceType E' = service_type_read n)) \<and>
      (\<forall>E. \<exists>E'. Unique_Service_Name (SP # usn_header Udn n) E = Some (1, E') \<and> sUDN E' = Udn \<and> sErrCode E' = sErrCode E \<and>
         sRequestType E' = sRequestType E \<and>
         (sDeviceType E = device_type_read n \<and> sServiceType E = service_type_read n \<longrightarrow>
           sDeviceType E' = device_type_read n \<and> sServiceType E' = service_type_read n)))"

lemma readable_device:
  assumes "device_name DevType n" "plain_Udn Udn" "length Udn < LINE_SIZE" "plain_type DevType" "length DevType < LINE_SIZE"
  shows "readable Udn n"
  using assms(1) USN_root [OF assms(2,3)] Type_root USN_udn [OF assms(2,3)] Type_udn [OF assms(2,3)]
    USN_type [OF assms(2-5)] Type_type [OF assms(4,5)]
  by (auto simp: device_name_def readable_def)

lemma readable_service:
  assumes "plain_Udn Udn" "length Udn < LINE_SIZE" "plain_service t" "length t < LINE_SIZE"
  shows "readable Udn (Service_Type t)"
  using USN_service [OF assms] Type_service [OF assms(3,4)] by (simp add: readable_def)

text \<open>The headers of the three kinds of packet.\<close>

definition server_text :: "host_info \<Rightarrow> string" where
  "server_text e = sys_name e @ ''/'' @ sys_release e @ '' UPnP/1.0 Intel UPnP SDK/1.0''"

definition service_lines :: "host_info \<Rightarrow> int \<Rightarrow> string \<Rightarrow> string \<Rightarrow> string \<Rightarrow> string \<Rightarrow> nat \<Rightarrow> string list" where
  "service_lines e Notf date nt usn loc dur =
     (if Notf = 2
      then [''HTTP/1.1 200 OK'', hdr ''CACHE-CONTROL'' ('' max-age='' @ dec_nat dur), hdr ''DATE'' (SP # date),
        hdr ''EXT'' [], hdr ''LOCATION'' (SP # loc), hdr ''SERVER'' (SP # server_text e), hdr ''ST'' (SP # nt)]
      else [''NOTIFY * HTTP/1.1'', hdr ''HOST'' '' 239.255.255.250:1900'',
        hdr ''CACHE-CONTROL'' ('' max-age='' @ dec_nat dur), hdr ''LOCATION'' (SP # loc), hdr ''NT'' (SP # nt),
        hdr ''NTS'' (if Notf = 1 then '' ssdp:alive'' else '' ssdp:byebye'')] @
        (if Notf = 1 then [hdr ''SERVER'' (SP # server_text e)] else [])) @
     [hdr ''USN'' (SP # usn), [], []]"

definition no_cr :: "string \<Rightarrow> bool" where "no_cr s = (CR \<notin> set s)"

lemma service_packet_lines:
  assumes "CreateServiceRequestPacket e Notf nt usn loc (int dur) = Some p" "Notf \<in> {0, 1, 2}" "tm_ok (clock e)"
  obtains date where "p = packet (service_lines e Notf date nt usn loc dur)" "length date = 29" "no_cr date"
    "length loc < 288" "length usn < 293" "length nt < 294" "Notf \<noteq> 0 \<Longrightarrow> length (server_text e) < 290"
proof -
  obtain d where d: "currentTmToHttpDate (clock e) = Some (''DATE: '' @ d @ CRLF)" "length d = 29" "CR \<notin> set d"
    using http_date_line [OF assms(3)] by blast
  note simps = CreateServiceRequestPacket_def bind_eq_Some_conv temp_line_Some block_of_Some d(1) SSDP_IP_def
    SSDP_PORT_def dec_1900 dec_int_def COMMAND_LEN_def server_line_def
  have "p = packet (service_lines e Notf d nt usn loc dur)"
    using assms(1,2) by (auto simp: simps service_lines_def hdr_def server_text_def)
  moreover have "length loc < 288" "length usn < 293" "length nt < 294" "Notf \<noteq> 0 \<Longrightarrow> length (server_text e) < 290"
    using assms(1,2) by (auto simp: simps server_text_def split: if_split_asm)
  ultimately show ?thesis using that d(2,3) by (simp add: no_cr_def)
qed

lemma service_lines_ok:
  assumes "int dur < 2 ^ 31" "length date = 29" "no_cr date" "no_cr loc" "no_cr usn" "no_cr nt" "no_cr (server_text e)"
    and "length loc < 288" "length usn < 293" "length nt < 294" "Notf \<noteq> 0 \<Longrightarrow> length (server_text e) < 290"
  shows "\<forall>l\<in>set (service_lines e Notf date nt usn loc dur). line_ok l"
proof -
  have "length (dec_nat dur) \<le> 10" using length_dec_nat [of 10 dur] assms(1) by simp
  then show ?thesis using assms(2-) CR_digits [of dur]
    by (auto simp: service_lines_def line_ok_def COMMAND_LEN_def hdr_def no_cr_def)
qed

text \<open>The event the headers leave: by kind of packet, and before the names are read.\<close>

definition packet_kind :: "int \<Rightarrow> SsdpCmdType" where
  "packet_kind Notf = (if Notf = 2 then SSDP_OK else if Notf = 1 then SSDP_ALIVE else SSDP_BYEBYE)"

lemma same_othersD: "same_others E E' \<Longrightarrow> sCmd E' = sCmd E \<and> sMaxAge E' = sMaxAge E \<and> sLocation E' = sLocation E"
  by (simp add: same_others_def)

lemma readable_packet_roundtrip:
  assumes "CreateServiceRequestPacket e Notf nt usn loc (int dur) = Some p" "Notf \<in> {0, 1, 2}" "tm_ok (clock e)"
    and "readable Udn n" "int dur < 2 ^ 31" "no_cr loc" "no_cr usn" "no_cr nt" "no_cr (server_text e)"
    and "7 \<le> length loc" "length loc + 1 < LINE_SIZE" "length (server_text e) + 1 < LINE_SIZE"
    and "nt = type_header Udn n" "usn = usn_header Udn n"
  shows "\<exists>E. AnalyzeCommand True (Some p) Evt = Some (1, E) \<and> sCmd E = packet_kind Notf \<and>
    sMaxAge E = int dur \<and> sLocation E = SP # loc \<and> sUDN E = Udn \<and> sErrCode E = 0 \<and>
    sRequestType E = request_type n \<and> sDeviceType E = device_type_read n \<and> sServiceType E = service_type_read n"
proof -
  obtain date where p: "p = packet (service_lines e Notf date nt usn loc dur)" "length date = 29" "no_cr date"
    "length loc < 288" "length usn < 293" "length nt < 294" "Notf \<noteq> 0 \<Longrightarrow> length (server_text e) < 290"
    using service_packet_lines [OF assms(1-3)] by metis
  let ?L = "service_lines e Notf date nt usn loc dur"
  have ok: "\<forall>l\<in>set ?L. line_ok l" by (rule service_lines_ok [OF assms(5) p(2,3) assms(6-9) p(4-7)])
  have L: "?L = hd ?L # tl ?L" "length (tl ?L) < 11" by (simp_all add: service_lines_def)
  have packet: "AnalyzeCommand True (Some p) Evt = do {
      (h, ev) \<leftarrow> CheckHdr (hd ?L) (InitEvent Evt);
      if h \<noteq> 0 then header_loop (tl ?L @ [[]]) 1 ev else Some (- 1, ev) }"
    using AnalyzeCommand_packet [of "hd ?L" "tl ?L" Evt] L ok p(1) by simp
  define E where "E = (if Notf = 2
    then (InitEvent Evt)\<lparr>sCmd := SSDP_OK, sMaxAge := int dur, sDate := SP # date, sLocation := SP # loc, sOs := SP # server_text e\<rparr>
    else (InitEvent Evt)\<lparr>sCmd := SSDP_NOTIFY, sHostAddr := '' 239.255.255.250:1900'', sMaxAge := int dur, sLocation := SP # loc\<rparr>)"
  have start: "sDeviceType E = []" "sServiceType E = []" by (simp_all add: E_def InitEvent_def)
  obtain E1 where E1: "Request_Tpye (SP # nt) E = Some (1, E1)" "sErrCode E1 = 0" "sRequestType E1 = request_type n"
    "sDeviceType E1 = device_type_read n" "sServiceType E1 = service_type_read n"
    using assms(4) start unfolding readable_def assms(13) by blast
  have o1: "same_others E E1" by (rule Request_Tpye_others [OF E1(1)])
  define E2 where "E2 = (if Notf = 2 then E1 else if Notf = 1 then E1\<lparr>sCmd := SSDP_ALIVE, sOs := SP # server_text e\<rparr>
    else E1\<lparr>sCmd := SSDP_BYEBYE\<rparr>)"
  have two: "sDeviceType E2 = device_type_read n" "sServiceType E2 = service_type_read n" "sErrCode E2 = 0"
      "sRequestType E2 = request_type n"
    using E1 by (simp_all add: E2_def)
  obtain E3 where E3: "Unique_Service_Name (SP # usn) E2 = Some (1, E3)" "sUDN E3 = Udn" "sErrCode E3 = 0"
      "sRequestType E3 = request_type n" "sDeviceType E3 = device_type_read n" "sServiceType E3 = service_type_read n"
    using assms(4) two unfolding readable_def assms(14) by metis
  have o3: "same_others E2 E3" by (rule Unique_Service_Name_others [OF E3(1)])
  note run = service_lines_def header_loop_hdr handlers handler_fields [unfolded LINE_SIZE_def] Cache_Control_number [simplified]
    Notification_texts start_lines header_loop_empty
  consider "Notf = 2" | "Notf = 1" | "Notf = 0" using assms(2) by auto
  then have "AnalyzeCommand True (Some p) Evt = Some (1, E3)"
  proof cases
    case 1
    then show ?thesis unfolding packet using assms(5,10-12) p(2) E1(1) E3(1)
      by (simp add: run E_def E2_def LINE_SIZE_def del: header_loop.simps(2))
  next
    case 2
    then show ?thesis unfolding packet using assms(5,10-12) E1(1) E3(1)
      by (simp add: run E_def E2_def LINE_SIZE_def del: header_loop.simps(2))
  next
    case 3
    then show ?thesis unfolding packet using assms(5,10-12) E1(1) E3(1)
      by (simp add: run E_def E2_def LINE_SIZE_def del: header_loop.simps(2))
  qed
  moreover have "sCmd E3 = packet_kind Notf \<and> sMaxAge E3 = int dur \<and> sLocation E3 = SP # loc"
    using o1 o3 assms(2) by (auto simp: E_def E2_def packet_kind_def same_others_def)
  ultimately show ?thesis using E3(2-) by auto
qed

section \<open>Announcements\<close>

text \<open>A packet that the library itself reads as this message of this device.\<close>

definition understood :: "int \<Rightarrow> string \<Rightarrow> string \<Rightarrow> nat \<Rightarrow> Event \<Rightarrow> string \<Rightarrow> bool" where
  "understood Notf Udn loc dur Evt p =
     (case AnalyzeCommand True (Some p) Evt of
        Some (r, E) \<Rightarrow> r = 1 \<and> sCmd E = packet_kind Notf \<and> sMaxAge E = int dur \<and> sLocation E = SP # loc \<and> sUDN E = Udn \<and>
          sErrCode E = 0
      | None \<Rightarrow> False)"

text \<open>
  A packet that announces a name of the device: it is the text the library prints for the two header values of
  that name, and it is read as this message, of this kind and with these types.
\<close>

definition announces :: "int \<Rightarrow> string \<Rightarrow> nat \<Rightarrow> Event \<Rightarrow> string \<times> announced_name \<Rightarrow> string \<Rightarrow> bool" where
  "announces Notf loc dur Evt = (\<lambda>(Udn, n) p.
     (\<exists>e. CreateServiceRequestPacket e Notf (type_header Udn n) (usn_header Udn n) loc (int dur) = Some p) \<and>
     understood Notf Udn loc dur Evt p \<and>
     (case AnalyzeCommand True (Some p) Evt of
        Some (r, E) \<Rightarrow> sRequestType E = request_type n \<and> sDeviceType E = device_type_read n \<and> sServiceType E = service_type_read n
      | None \<Rightarrow> False))"

text \<open>Names and addresses that fit the arrays.\<close>

definition host_ok :: "host_info \<Rightarrow> string \<Rightarrow> nat \<Rightarrow> bool" where
  "host_ok e loc dur = (tm_ok (clock e) \<and> no_cr loc \<and> no_cr (server_text e) \<and> 7 \<le> length loc \<and>
     length loc + 1 < LINE_SIZE \<and> length (server_text e) + 1 < LINE_SIZE \<and> int dur < 2 ^ 31)"

definition device_ok :: "host_info \<Rightarrow> string \<Rightarrow> string \<Rightarrow> string \<Rightarrow> nat \<Rightarrow> bool" where
  "device_ok e Udn DevType loc dur =
     (host_ok e loc dur \<and> plain_Udn Udn \<and> plain_type DevType \<and> no_cr DevType \<and>
      length Udn + 17 < LINE_SIZE \<and> length Udn + 2 + length DevType < LINE_SIZE)"

definition service_ok :: "host_info \<Rightarrow> string \<Rightarrow> string \<Rightarrow> string \<Rightarrow> nat \<Rightarrow> bool" where
  "service_ok e Udn ServType loc dur =
     (host_ok e loc dur \<and> plain_Udn Udn \<and> plain_service ServType \<and> no_cr ServType \<and>
      length Udn + 2 + length ServType < LINE_SIZE)"

definition sends_all :: "(nat \<Rightarrow> bool) \<Rightarrow> net_env \<Rightarrow> bool" where
  "sends_all A n = ((\<forall>k<3. A k) \<and> evt_ok n \<and> udp_ok n \<and> sel n = (\<lambda>_. Sel_Ready))"

lemma copy_loop_ready: "copy_loop (\<lambda>_. Sel_Ready) n 0 0 = n + 2"
  by (simp add: copy_loop.simps NUM_TRY_def NUM_SSDP_COPY_def)

lemma packet_loop_ready: "packet_loop (\<lambda>_. Sel_Ready) n ps = concat (map (\<lambda>p. [p, p]) ps)"
  by (induction ps arbitrary: n) (simp_all add: copy_loop_ready numeral_2_eq_2)

lemma no_cr_Udn: "plain_Udn Udn \<Longrightarrow> no_cr Udn"
  by (elim plain_UdnE) (auto simp: no_cr_def dest: udn_char_ne udn_chars)

lemma packet_created:
  assumes "host_ok e loc dur" "length nt < LINE_SIZE" "length usn < LINE_SIZE" "Notf \<in> {0, 1, 2}"
  shows "\<exists>p. CreateServiceRequestPacket e Notf nt usn loc (int dur) = Some p"
proof -
  have "length (dec_nat dur) \<le> 10" using length_dec_nat [of 10 dur] assms(1) by (simp add: host_ok_def)
  moreover obtain d where "currentTmToHttpDate (clock e) = Some (''DATE: '' @ d @ CRLF)" "length d = 29"
    using http_date_line assms(1) by (auto simp: host_ok_def)
  ultimately show ?thesis
    using assms by (auto simp: host_ok_def CreateServiceRequestPacket_def temp_line_def block_of_def server_line_def
        server_text_def SSDP_IP_def SSDP_PORT_def dec_1900 dec_int_def COMMAND_LEN_def LINE_SIZE_def BUFSIZE_def CRLF_def)
qed

lemma device_name_announced:
  assumes "device_ok e Udn DevType loc dur" "device_name DevType n" "Notf \<in> {0, 1, 2}"
  shows "\<exists>p. CreateServiceRequestPacket e Notf (type_header Udn n) (usn_header Udn n) loc (int dur) = Some p \<and>
    announces Notf loc dur Evt (Udn, n) p"
proof -
  have len: "length (type_header Udn n) < LINE_SIZE" "length (usn_header Udn n) < LINE_SIZE"
    and cr: "no_cr (type_header Udn n)" "no_cr (usn_header Udn n)"
    using assms(1,2) no_cr_Udn [of Udn]
    by (auto simp: device_name_def device_ok_def no_cr_def LINE_SIZE_def)
  have r: "readable Udn n"
    by (rule readable_device [OF assms(2)]) (use assms(1) in \<open>simp_all add: device_ok_def\<close>)
  obtain p where p: "CreateServiceRequestPacket e Notf (type_header Udn n) (usn_header Udn n) loc (int dur) = Some p"
    using packet_created [OF _ len assms(3), of e loc dur] assms(1) by (auto simp: device_ok_def)
  have "announces Notf loc dur Evt (Udn, n) p"
    using readable_packet_roundtrip [OF p assms(3) _ r, of Evt] assms(1) cr p
    by (force simp: announces_def understood_def device_ok_def host_ok_def)
  then show ?thesis using p by blast
qed

lemma device_names_fit:
  assumes "device_ok e Udn DevType loc dur"
  shows "root_names Udn = Some (''upnp:rootdevice'', Udn @ ''::upnp:rootdevice'')" "udn_names Udn = Some (Udn, Udn)"
    "type_names Udn DevType = Some (DevType, Udn @ ''::'' @ DevType)"
  using assms by (auto simp: root_names_def udn_names_def type_names_def names_def block_of_def device_ok_def LINE_SIZE_def)

text \<open>What a device announces of itself, in the order of its packets.\<close>

definition names_of :: "bool \<Rightarrow> string \<Rightarrow> announced_name list" where
  "names_of RootDev DevType = (if RootDev then [Root_Device] else []) @ [Device_Udn, Device_Type DevType]"

lemma device_packets:
  assumes "device_ok e Udn DevType loc dur" "Notf \<in> {0, 1, 2}"
  shows "\<exists>ps. packets e Notf (device_names RootDev Udn DevType) loc (int dur) = Some ps \<and>
    list_all2 (\<lambda>n. announces Notf loc dur Evt (Udn, n)) (names_of RootDev DevType) ps"
proof -
  note u = device_name_announced [OF assms(1) _ assms(2), of _ Evt]
  obtain p1 p2 p3 where p:
    "CreateServiceRequestPacket e Notf ''upnp:rootdevice'' (Udn @ ''::upnp:rootdevice'') loc (int dur) = Some p1"
    "announces Notf loc dur Evt (Udn, Root_Device) p1"
    "CreateServiceRequestPacket e Notf Udn Udn loc (int dur) = Some p2" "announces Notf loc dur Evt (Udn, Device_Udn) p2"
    "CreateServiceRequestPacket e Notf DevType (Udn @ ''::'' @ DevType) loc (int dur) = Some p3"
    "announces Notf loc dur Evt (Udn, Device_Type DevType) p3"
    using u [of Root_Device] u [of Device_Udn] u [of "Device_Type DevType"] by (auto simp: device_name_def)
  show ?thesis using p by (simp add: device_names_def device_names_fit [OF assms(1)] names_of_def)
qed

lemma device_sends:
  assumes "device_ok e Udn DevType loc dur" "Notf \<in> {0, 1, 2}" "sends_all A n"
  shows "\<exists>ps. send_packets A e n dest Notf (device_names RootDev Udn DevType) loc (int dur) =
      Some (UPNP_E_SUCCESS, map (Pair dest) (concat (map (\<lambda>p. [p, p]) ps))) \<and>
    list_all2 (\<lambda>n. announces Notf loc dur Evt (Udn, n)) (names_of RootDev DevType) ps"
proof -
  obtain ps where ps: "packets e Notf (device_names RootDev Udn DevType) loc (int dur) = Some ps"
    "list_all2 (\<lambda>n. announces Notf loc dur Evt (Udn, n)) (names_of RootDev DevType) ps"
    using device_packets [OF assms(1,2)] by blast
  moreover have "\<forall>k<length (device_names RootDev Udn DevType). A k"
    using assms(3) by (auto simp: device_names_def sends_all_def)
  ultimately show ?thesis using assms(3)
    by (auto simp: send_packets_def NewRequestHandler_def sends_all_def packet_loop_ready)
qed

lemma announces_understood: "announces Notf loc dur Evt (Udn, n) p \<Longrightarrow> understood Notf Udn loc dur Evt p"
  by (simp add: announces_def)

lemma all_announced_understood:
  assumes "list_all2 (\<lambda>n. announces Notf loc dur Evt (Udn, n)) ns ps"
  shows "length ps = length ns \<and> list_all (understood Notf Udn loc dur Evt) ps"
  using assms by (auto simp: list_all2_conv_all_nth list_all_length announces_def)

lemma name_sends:
  assumes "device_ok e Udn DevType loc dur" "device_name DevType n" "Notf \<in> {0, 1, 2}" "sends_all A net"
  shows "\<exists>p. send_packets A e net dest Notf [Some (type_header Udn n, usn_header Udn n)] loc (int dur) =
      Some (UPNP_E_SUCCESS, [(dest, p), (dest, p)]) \<and> announces Notf loc dur Evt (Udn, n) p"
  using device_name_announced [OF assms(1-3), of Evt] assms(4)
  by (auto simp: send_packets_def NewRequestHandler_def sends_all_def packet_loop_ready)

lemma service_sends:
  assumes "service_ok e Udn ServType loc dur" "Notf \<in> {0, 1, 2}" "sends_all A n"
  shows "\<exists>p. send_packets A e n dest Notf [type_names Udn ServType] loc (int dur) =
      Some (UPNP_E_SUCCESS, [(dest, p), (dest, p)]) \<and> announces Notf loc dur Evt (Udn, Service_Type ServType) p"
proof -
  have ok: "host_ok e loc dur" "length ServType < LINE_SIZE" "length (Udn @ ''::'' @ ServType) < LINE_SIZE"
    "plain_Udn Udn" "plain_service ServType" "no_cr ServType" "no_cr (Udn @ ''::'' @ ServType)" "length Udn < LINE_SIZE"
    using assms(1) no_cr_Udn [of Udn] by (auto simp: service_ok_def no_cr_def)
  obtain p where p: "CreateServiceRequestPacket e Notf ServType (Udn @ ''::'' @ ServType) loc (int dur) = Some p"
    using packet_created [OF ok(1-3) assms(2)] by blast
  have "announces Notf loc dur Evt (Udn, Service_Type ServType) p"
    using readable_packet_roundtrip [OF p assms(2) _ readable_service [OF ok(4,8,5,2)], of Evt] ok p
    by (force simp: announces_def understood_def host_ok_def)
  moreover have "type_names Udn ServType = Some (ServType, Udn @ ''::'' @ ServType)"
    using ok(2,3) by (simp add: type_names_def names_def block_of_def)
  ultimately show ?thesis using p assms(3)
    by (auto simp: send_packets_def NewRequestHandler_def sends_all_def packet_loop_ready)
qed

text \<open>
  C7. A device that is announced, withdrawn or searched for puts its three packets (two for an embedded
  device), each twice, on the group address or the address of the searcher, and the library of a
  control point reads each of them as that message with the UDN, the duration and the location of
  the device (the location with the blank after the colon).
\<close>

theorem device_messages_understood:
  assumes "device_ok e Udn DevType loc dur" "sends_all A n"
  shows "\<exists>as bs cs. DeviceAdvertisement A e n DevType RootDev Udn loc (int dur) =
      Some (UPNP_E_SUCCESS, map (Pair multicast) (concat (map (\<lambda>p. [p, p]) as))) \<and>
    DeviceShutdown A e n DevType RootDev Udn loc (int dur) =
      Some (UPNP_E_SUCCESS, map (Pair multicast) (concat (map (\<lambda>p. [p, p]) bs))) \<and>
    DeviceReply A e n DestAddr DevType RootDev Udn loc (int dur) =
      Some (UPNP_E_SUCCESS, map (Pair (Peer DestAddr)) (concat (map (\<lambda>p. [p, p]) cs))) \<and>
    length as = (if RootDev then 3 else 2) \<and> length bs = length as \<and> length cs = length as \<and>
    list_all (understood 1 Udn loc dur Evt) as \<and> list_all (understood 0 Udn loc dur Evt) bs \<and>
    list_all (understood 2 Udn loc dur Evt) cs"
proof -
  note s = device_sends [OF assms(1) _ assms(2), of _ _ RootDev Evt]
  obtain as bs cs where
    "send_packets A e n multicast 1 (device_names RootDev Udn DevType) loc (int dur) =
      Some (UPNP_E_SUCCESS, map (Pair multicast) (concat (map (\<lambda>p. [p, p]) as)))"
    "length as = length (names_of RootDev DevType)" "list_all (understood 1 Udn loc dur Evt) as"
    "send_packets A e n multicast 0 (device_names RootDev Udn DevType) loc (int dur) =
      Some (UPNP_E_SUCCESS, map (Pair multicast) (concat (map (\<lambda>p. [p, p]) bs)))"
    "length bs = length (names_of RootDev DevType)" "list_all (understood 0 Udn loc dur Evt) bs"
    "send_packets A e n (Peer DestAddr) 2 (device_names RootDev Udn DevType) loc (int dur) =
      Some (UPNP_E_SUCCESS, map (Pair (Peer DestAddr)) (concat (map (\<lambda>p. [p, p]) cs)))"
    "length cs = length (names_of RootDev DevType)" "list_all (understood 2 Udn loc dur Evt) cs"
    using s [of 1 multicast] s [of 0 multicast] s [of 2 "Peer DestAddr"] by (auto dest: all_announced_understood)
  moreover have "length (names_of RootDev DevType) = (if RootDev then 3 else 2)" by (simp add: names_of_def)
  ultimately show ?thesis
    unfolding DeviceAdvertisement_def DeviceShutdown_def DeviceReply_def
    by (intro exI [of _ as] exI [of _ bs] exI [of _ cs]) simp
qed

definition some_host :: host_info where
  "some_host = \<lparr>clock = \<lparr>tm_mon = 5, tm_wday = 5, tm_mday = 15, tm_year = 101, tm_hour = 0, tm_min = 22, tm_sec = 16\<rparr>,
     sys_name = ''Linux'', sys_release = ''2.4''\<rparr>"

definition some_net :: net_env where
  "some_net = \<lparr>evt_ok = True, udp_ok = True, sel = (\<lambda>_. Sel_Ready)\<rparr>"

lemma some_device: "device_ok some_host ''uuid:1234-ab'' ''urn:schemas-upnp-org:device:light:1'' ''http://h/d.xml'' 1800"
  by code_simp

theorem device_messages_understood_witness:
  "\<exists>as. DeviceAdvertisement (\<lambda>_. True) some_host some_net ''urn:schemas-upnp-org:device:light:1'' True ''uuid:1234-ab''
      ''http://h/d.xml'' 1800 = Some (UPNP_E_SUCCESS, map (Pair multicast) (concat (map (\<lambda>p. [p, p]) as))) \<and> length as = 3"
  using device_messages_understood [OF some_device, of "\<lambda>_. True" some_net True]
  by (auto simp: sends_all_def some_net_def)

theorem search_request_roundtrip_witness:
  "\<exists>p E. CreateClientRequestPacket (int 3) (Some ''ssdp:all'') = Some p \<and> AnalyzeCommand True (Some p) blank_event = Some (1, E) \<and>
     sCmd E = SSDP_SEARCH \<and> sMx E = 3"
proof -
  obtain p where p: "CreateClientRequestPacket (int 3) (Some ''ssdp:all'') = Some p"
    by (simp add: CreateClientRequestPacket_def temp_line_def block_of_def SSDP_IP_def SSDP_PORT_def dec_1900 dec_int_def
        dec_nat.simps COMMAND_LEN_def BUFSIZE_def CRLF_def)
  have "Request_Tpye ''ssdp:all'' (search_event 3 blank_event) =
      Some (1, (search_event 3 blank_event)\<lparr>sErrCode := 0, sRequestType := SSDP_ALL\<rparr>)"
    by (simp add: Request_Tpye_def Unique_Service_Name_def plain_udn_def typed_name_def)
  from search_request_roundtrip [OF p _ _ _ this] show ?thesis using p by auto
qed

end
