(* ===== verification/Ssdp_Threads.thy ===== *)
theory Ssdp_Threads imports Ssdp_Packets begin

text \<open>
  The running part of the discovery library (\<^verbatim>\<open>ssdp/ssdplib.c\<close>, lines 64 to 736): the jobs it posts to
  the thread pool, the handler of a received packet, the search with its time limit, and the start and
  stop of the thread that listens on the group.

  A handler returns what it tells the application, in order; \<open>None\<close> is undefined behaviour.
\<close>

section \<open>Jobs\<close>

record ThreadData =
  td_Mx :: int
  td_Cookie :: nat
  td_Data :: "string option"
  td_DestAddr :: sockaddr_in

datatype told = Callback Event | Error_Event int

definition SendErrorEvent :: "int \<Rightarrow> told list" where
  "SendErrorEvent ErrCode = [Error_Event ErrCode]"

abbreviation (input) UPNP_E_NETWORK_ERROR :: int where "UPNP_E_NETWORK_ERROR \<equiv> - 200"

text \<open>
  \<^verbatim>\<open>rand() % MaxLt\<close>; \<open>r\<close> is the value of \<^verbatim>\<open>rand()\<close>.  \<^verbatim>\<open>Max*1000000\<close> is computed as an \<^verbatim>\<open>int\<close>.
\<close>

definition GetRandomNumber :: "int \<Rightarrow> int \<Rightarrow> int option" where
  "GetRandomNumber mx r =
     (if mx * 1000000 < - (2 ^ 31) \<or> 2 ^ 31 \<le> mx * 1000000 \<or> mx = 0 then None
      else Some (to_int (r mod (mx * 1000000 mod 2 ^ 64))))"

definition PutThreadData :: "bool \<Rightarrow> ThreadData \<Rightarrow> string \<Rightarrow> sockaddr_in option \<Rightarrow> int \<Rightarrow> int \<times> told list \<times> ThreadData" where
  "PutThreadData mem_ok ThData Rqst DestAddr Mx =
     (if \<not> mem_ok then (- 1, SendErrorEvent UPNP_E_OUTOF_MEMORY, ThData\<lparr>td_Data := None\<rparr>)
      else (1, [], ThData\<lparr>td_Data := Some Rqst, td_Mx := Mx,
        td_DestAddr := (case DestAddr of
           Some a \<Rightarrow> (td_DestAddr ThData)\<lparr>sin_family := sin_family a, s_addr := s_addr a, sin_port := sin_port a\<rparr>
         | None \<Rightarrow> (td_DestAddr ThData)\<lparr>sin_port := 0\<rparr>)\<rparr>))"

text \<open>
  The handler of a received packet.  \<open>Evt\<close> is what the allocated event holds before; the pointer
  is used before it is tested.
\<close>

definition TransferResEvent :: "(nat \<Rightarrow> bool) \<Rightarrow> int \<Rightarrow> Event \<Rightarrow> ThreadData \<Rightarrow> told list option" where
  "TransferResEvent A r Evt ThData =
     (if \<not> A 0 then None
      else case td_Data ThData of
        None \<Rightarrow> Some []
      | Some d \<Rightarrow> do {
          (rc, Evt) \<leftarrow> AnalyzeCommand (A 1) (Some d) (Evt\<lparr>sErrCode := NO_ERROR_FOUND, sDestAddr := Some (td_DestAddr ThData)\<rparr>);
          if rc \<le> 0 then Some []
          else if sCmd Evt = SSDP_SEARCH \<and> (sMx Evt < 0 \<or> sMan Evt = []) then Some []
          else if sCmd Evt = SSDP_SEARCH \<and> 1 < sMx Evt
          then do { delay \<leftarrow> GetRandomNumber (sMx Evt) r; Some [Callback Evt] }
          else Some [Callback Evt] })"

text \<open>The job, when there is one, is posted; \<open>td0\<close> is what the allocated structure holds.\<close>

definition StartEventHandler :: "(nat \<Rightarrow> bool) \<Rightarrow> ThreadData \<Rightarrow> string \<Rightarrow> sockaddr_in \<Rightarrow> int \<times> told list \<times> ThreadData option" where
  "StartEventHandler A td0 EventBuf DestAddr =
     (if \<not> A 0 then (- 1, SendErrorEvent UPNP_E_OUTOF_MEMORY, None)
      else (case PutThreadData (A 1) td0 EventBuf (Some DestAddr) 0 of (rc, out, ThData) \<Rightarrow> (1, out, Some ThData)))"

text \<open>
  What the listener does with a datagram: \<^verbatim>\<open>recvfrom\<close> fills at most \<open>BUFSIZE\<close> bytes, and the code
  stores a NUL behind them.
\<close>

definition received_text :: "string \<Rightarrow> string option" where
  "received_text bytes = (let got = take BUFSIZE bytes in if length got < BUFSIZE then Some (cstring got) else None)"

definition listener_packet ::
  "(nat \<Rightarrow> bool) \<Rightarrow> ThreadData \<Rightarrow> string \<Rightarrow> sockaddr_in \<Rightarrow> (told list \<times> ThreadData option) option" where
  "listener_packet A td0 bytes ClientAddr =
     (if bytes = [] then Some ([], None)
      else do {
        s \<leftarrow> received_text bytes;
        (case StartEventHandler A td0 s ClientAddr of (rc, out, job) \<Rightarrow> Some (out, job)) })"

section \<open>Searching\<close>

definition SearchByTarget ::
  "(nat \<Rightarrow> bool) \<Rightarrow> ThreadData \<Rightarrow> int \<Rightarrow> string option \<Rightarrow> nat \<Rightarrow> (int \<times> told list \<times> ThreadData option) option" where
  "SearchByTarget A td0 Mx St Cookie =
     (if \<not> A 0 then Some (UPNP_E_OUTOF_MEMORY, [], None)
      else do {
        ReqBuf \<leftarrow> CreateClientRequestPacket Mx St;
        if \<not> A 1 then Some (UPNP_E_OUTOF_MEMORY, [], None)
        else (case PutThreadData (A 2) td0 ReqBuf None Mx of (rc, out, ThData) \<Rightarrow>
          Some (1, out, Some (ThData\<lparr>td_Cookie := Cookie\<rparr>))) })"

text \<open>
  One round of the receiving loop: the time at its start, and what \<^verbatim>\<open>select\<close> and \<^verbatim>\<open>recvfrom\<close>
  give.  \<^verbatim>\<open>select\<close> fails on a negative timeout.
\<close>

datatype arrival = Select_Fails | Nothing_Arrives | Arrives string

record round =
  at_time :: int
  arrival :: arrival

datatype search_end = Timed_Out | Select_Failed | Still_Waiting

fun receive_loop ::
  "int \<Rightarrow> int \<Rightarrow> nat \<Rightarrow> int \<Rightarrow> Event \<Rightarrow> round list \<Rightarrow> (told list \<times> Event \<times> search_end) option" where
  "receive_loop TimeTillRead StartTime Cookie ElapsedTime Evt [] =
     Some ([], Evt, if ElapsedTime < TimeTillRead + 2 then Still_Waiting else Timed_Out)"
| "receive_loop TimeTillRead StartTime Cookie ElapsedTime Evt (r # rs) =
     (if \<not> ElapsedTime < TimeTillRead + 2 then Some ([], Evt, Timed_Out)
      else
        let ElapsedTime = at_time r - StartTime; tv_sec = TimeTillRead + 2 - ElapsedTime in
        if tv_sec < 0 then Some ([], Evt\<lparr>sErrCode := - 7\<rparr>, Select_Failed)
        else case arrival r of
          Select_Fails \<Rightarrow> Some ([], Evt\<lparr>sErrCode := - 7\<rparr>, Select_Failed)
        | Nothing_Arrives \<Rightarrow> receive_loop TimeTillRead StartTime Cookie ElapsedTime Evt rs
        | Arrives bytes \<Rightarrow>
            if bytes = [] then receive_loop TimeTillRead StartTime Cookie ElapsedTime Evt rs
            else do {
              s \<leftarrow> received_text bytes;
              (rc, Evt) \<leftarrow> AnalyzeCommand True (Some s) Evt;
              let Evt = (if 0 \<le> rc then Evt\<lparr>sCookie := Cookie\<rparr> else Evt);
              (out, Evt', e) \<leftarrow> receive_loop TimeTillRead StartTime Cookie ElapsedTime Evt rs;
              Some ((if 0 \<le> rc then [Callback Evt] else []) @ out, Evt', e) })"

text \<open>The sending loop: how many datagrams were sent, and whether \<^verbatim>\<open>select\<close> failed.\<close>

function try_loop :: "(nat \<Rightarrow> select_result) \<Rightarrow> nat \<Rightarrow> nat \<times> bool" where
  "try_loop S TryIdx =
     (if TryIdx < NUM_TRY
      then (case S TryIdx of
          Sel_Error \<Rightarrow> (Suc TryIdx, True)
        | Sel_Ready \<Rightarrow> (Suc TryIdx, False)
        | Sel_Not_Ready \<Rightarrow> try_loop S (Suc TryIdx))
      else (TryIdx, False))"
  by pat_completeness auto
termination by (relation "measure (\<lambda>(S, t). NUM_TRY - t)") auto

declare try_loop.simps [simp del]

definition MAX_TIME_TOREAD :: int where "MAX_TIME_TOREAD = 45"

definition time_till_read :: "int \<Rightarrow> int" where
  "time_till_read Mx = (if Mx \<le> 1 then 2 else if MAX_TIME_TOREAD < Mx then MAX_TIME_TOREAD else Mx)"

text \<open>The address a request goes to: the group when the job has no port.\<close>

definition request_dest :: "ThreadData \<Rightarrow> destination" where
  "request_dest ThData = (if sin_port (td_DestAddr ThData) = 0 then multicast else Peer (td_DestAddr ThData))"

record search_result =
  sr_sent :: "(destination \<times> string) list"
  sr_told :: "told list"
  sr_end :: search_end

definition RequestHandler ::
  "net_env \<Rightarrow> Event \<Rightarrow> int \<Rightarrow> round list \<Rightarrow> ThreadData \<Rightarrow> search_result option" where
  "RequestHandler n Evt StartTime rounds ThData =
     (if \<not> evt_ok n then Some \<lparr>sr_sent = [], sr_told = SendErrorEvent UPNP_E_OUTOF_MEMORY, sr_end = Select_Failed\<rparr>
      else if \<not> udp_ok n then Some \<lparr>sr_sent = [], sr_told = SendErrorEvent UPNP_E_NETWORK_ERROR, sr_end = Select_Failed\<rparr>
      else do {
        Data \<leftarrow> td_Data ThData;
        let (k, failed) = try_loop (sel n) 0;
        let sent = replicate k (request_dest ThData, Data);
        if failed then Some \<lparr>sr_sent = sent, sr_told = SendErrorEvent UPNP_E_NETWORK_ERROR, sr_end = Select_Failed\<rparr>
        else do {
          (out, Evt, e) \<leftarrow> receive_loop (time_till_read (td_Mx ThData)) StartTime (td_Cookie ThData) 0
            (Evt\<lparr>sErrCode := NO_ERROR_FOUND\<rparr>) rounds;
          Some \<lparr>sr_sent = sent,
            sr_told = out @ (if e = Timed_Out then [Callback (Evt\<lparr>sCookie := td_Cookie ThData, sCmd := SSDP_TIMEOUT\<rparr>)] else []),
            sr_end = e\<rparr> } })"

text \<open>
  Sending one datagram to a peer.  After an error the event is freed and the function goes on to
  free it again.
\<close>

definition ServiceRequestHandler :: "net_env \<Rightarrow> sockaddr_in \<Rightarrow> string \<Rightarrow> sent option" where
  "ServiceRequestHandler n DestAddr szStr =
     (if \<not> evt_ok n then Some (- 1, [])
      else if \<not> udp_ok n then None
      else (case try_loop (sel n) 0 of (k, failed) \<Rightarrow>
        if failed then None else Some (1, replicate k (Peer DestAddr, szStr))))"

section \<open>Properties of a search\<close>

text \<open>The parser never reports the time limit.\<close>

lemma CheckHdr_cmd:
  assumes "CheckHdr h E = Some (r, E')" "sCmd E \<noteq> SSDP_TIMEOUT"
  shows "sCmd E' \<noteq> SSDP_TIMEOUT"
proof -
  obtain t1 r1 where 1: "StrTok (Some h) '' '' = (t1, r1)" by fastforce
  obtain t2 r2 where 2: "StrTok r1 '' '' = (t2, r2)" by fastforce
  obtain t3 r3 where 3: "StrTok r2 '' '' = (t3, r3)" by fastforce
  have b: "block_of COMMAND_LEN h = Some h" using assms(1) by (auto simp: CheckHdr_def bind_eq_Some_conv block_of_Some)
  show ?thesis
    using assms
    by (cases "has t1 ''M-SEARCH''"; cases "has t1 ''NOTIFY''"; cases "has t1 ''HTTP/1.1''"; cases "has t2 ''*''";
        cases "has t2 ''200''"; cases "has t3 ''HTTP/1.1''"; cases "has t3 ''OK''")
      (auto simp: CheckHdr_def b 1 2 3 Let_def split: if_split_asm)
qed

lemma handler_cmd:
  assumes "find_handler k = Some f" "f v E = Some (r, E')" "sCmd E \<noteq> SSDP_TIMEOUT"
  shows "sCmd E' \<noteq> SSDP_TIMEOUT"
proof -
  have names: "sCmd E' = sCmd E" if "Request_Tpye v E = Some (r, E') \<or> Unique_Service_Name v E = Some (r, E')"
    using that Request_Tpye_others Unique_Service_Name_others by (auto simp: same_others_def)
  have plain: "sCmd E' = sCmd E" if "g v E = Some (r, E')"
    "g \<in> {Cache_Control, Location_Header, Host, Fun_Ext, Os, Fun_MAN, Max_Delay, Fun_Date}" for g
    using that
    by (auto simp: Cache_Control_def Location_Header_def Host_def Fun_Ext_def Os_def Fun_MAN_def Max_Delay_def
        Fun_Date_def bind_eq_Some_conv split: option.split_asm prod.split_asm if_split_asm)
  have nts: "sCmd E' \<noteq> SSDP_TIMEOUT" if "Notification_Sub_Type v E = Some (r, E')"
    using that assms(3) by (auto simp: Notification_Sub_Type_def bind_eq_Some_conv Let_def split: prod.split_asm if_split_asm)
  have "f \<in> set InitParser"
    using assms(1) by (auto simp: find_handler_def find_Some_iff set_zip Token_List_def InitParser_def nth_Cons'
        split: if_split_asm)
  then show ?thesis using assms(2,3) names plain [of f] nts by (auto simp: InitParser_def)
qed

lemma header_loop_cmd:
  "header_loop ls rv E = Some (r, E') \<Longrightarrow> sCmd E \<noteq> SSDP_TIMEOUT \<Longrightarrow> sCmd E' \<noteq> SSDP_TIMEOUT"
proof (induction ls arbitrary: rv E)
  case (Cons l ls)
  obtain k rest where s: "StrTok (Some l) '':'' = (Some k, rest)" by (rule StrTok_Some)
  show ?case
  proof (cases "find_handler k")
    case (Some f)
    then obtain v r1 E1 where f: "rest = Some v" "f v E = Some (r1, E1)"
      using Cons.prems(1) s by (auto simp: bind_eq_Some_conv)
    have "sCmd E1 \<noteq> SSDP_TIMEOUT" by (rule handler_cmd [OF Some f(2) Cons.prems(2)])
    then show ?thesis using Cons s Some f by (auto split: if_split_asm)
  qed (use Cons s in auto)
qed simp

lemma AnalyzeCommand_cmd:
  "AnalyzeCommand mem_ok c Evt = Some (r, E) \<Longrightarrow> 0 \<le> r \<Longrightarrow> sCmd E \<noteq> SSDP_TIMEOUT"
  by (auto simp: AnalyzeCommand_def bind_eq_Some_conv InitEvent_def split: option.split_asm if_split_asm
      dest!: CheckHdr_cmd dest: header_loop_cmd)

definition answer_to :: "nat \<Rightarrow> told \<Rightarrow> bool" where
  "answer_to Cookie t = (case t of Callback E \<Rightarrow> sCookie E = Cookie \<and> sCmd E \<noteq> SSDP_TIMEOUT | Error_Event _ \<Rightarrow> False)"

lemma receive_loop_answers:
  "receive_loop T st ck el Evt rs = Some (out, Evt', e) \<Longrightarrow> list_all (answer_to ck) out"
proof (induction rs arbitrary: el Evt out)
  case (Cons r rs)
  show ?case
  proof (cases "arrival r")
    case (Arrives bytes)
    then show ?thesis using Cons
      by (auto simp: bind_eq_Some_conv Let_def answer_to_def split: if_split_asm dest: AnalyzeCommand_cmd)
  qed (use Cons in \<open>auto simp: Let_def split: if_split_asm\<close>)
qed (auto split: if_split_asm)

text \<open>
  C31. A search that runs to its time limit tells the application the answers it got, each with the
  cookie of the search, and then, once and last, that the time is over.
\<close>

theorem search_ends_with_timeout:
  assumes "RequestHandler n Evt StartTime rounds ThData = Some r" "sr_end r = Timed_Out"
  shows "list_all (answer_to (td_Cookie ThData)) (butlast (sr_told r)) \<and>
    (case last (sr_told r) of Callback E \<Rightarrow> sCmd E = SSDP_TIMEOUT \<and> sCookie E = td_Cookie ThData | Error_Event _ \<Rightarrow> False)"
  using assms receive_loop_answers
  by (auto simp: RequestHandler_def bind_eq_Some_conv Let_def case_prod_unfold split: if_split_asm)

text \<open>Rounds that neither fail nor reach the limit, followed by one that starts too late.\<close>

lemma receive_loop_late:
  assumes "receive_loop T st ck el Evt rs = Some (out, Evt', Still_Waiting)" "st + T + 2 < at_time r"
  shows "\<exists>Evt''. receive_loop T st ck el Evt (rs @ [r]) = Some (out, Evt'', Select_Failed)"
  using assms(1)
proof (induction rs arbitrary: el Evt out)
  case Nil
  then show ?case using assms(2) by (auto simp: Let_def split: if_split_asm)
next
  case (Cons q rs)
  show ?case
  proof (cases "arrival q")
    case (Arrives bytes)
    then show ?thesis using Cons
      by (fastforce simp: bind_eq_Some_conv Let_def split: if_split_asm)
  qed (use Cons in \<open>auto simp: Let_def split: if_split_asm\<close>)
qed

text \<open>
  When the work on the answers (the callbacks run in the receiving loop) takes the search past its
  limit, the remaining time is negative, \<^verbatim>\<open>select\<close> fails, and the application is never told that
  the search is over.
\<close>

theorem late_search_loses_timeout:
  assumes "evt_ok n" "udp_ok n" "sel n = (\<lambda>_. Sel_Ready)" "td_Data ThData = Some d"
    and "receive_loop (time_till_read (td_Mx ThData)) StartTime (td_Cookie ThData) 0 (Evt\<lparr>sErrCode := 0\<rparr>) rs =
      Some (out, Evt', Still_Waiting)"
    and "StartTime + time_till_read (td_Mx ThData) + 2 < at_time r"
  shows "\<exists>res. RequestHandler n Evt StartTime (rs @ [r]) ThData = Some res \<and> sr_told res = out \<and>
    sr_end res = Select_Failed \<and> list_all (answer_to (td_Cookie ThData)) out"
proof -
  obtain Evt'' where "receive_loop (time_till_read (td_Mx ThData)) StartTime (td_Cookie ThData) 0 (Evt\<lparr>sErrCode := 0\<rparr>) (rs @ [r]) =
      Some (out, Evt'', Select_Failed)"
    using receive_loop_late [OF assms(5,6)] by blast
  moreover have "try_loop (\<lambda>_. Sel_Ready) 0 = (1, False)" by (simp add: try_loop.simps NUM_TRY_def)
  ultimately show ?thesis using assms(1-4) receive_loop_answers [OF assms(5)]
    by (simp add: RequestHandler_def)
qed

text \<open>
  A search packet with a delay of more than 2147 seconds makes the delay overflow in every receiver.
\<close>

theorem long_delay_overflows:
  assumes "A 0" "td_Data ThData = Some d" "AnalyzeCommand (A 1) (Some d)
      (Evt\<lparr>sErrCode := NO_ERROR_FOUND, sDestAddr := Some (td_DestAddr ThData)\<rparr>) = Some (rc, E)"
    and "0 < rc" "sCmd E = SSDP_SEARCH" "sMan E \<noteq> []" "2147 < sMx E"
  shows "TransferResEvent A r Evt ThData = None"
  using assms by (simp add: TransferResEvent_def GetRandomNumber_def)

text \<open>Every datagram that fills the receive buffer is written past its end.\<close>

lemma full_datagram_overflows: "BUFSIZE \<le> length bytes \<Longrightarrow> bytes \<noteq> [] \<Longrightarrow> listener_packet A td0 bytes addr = None"
  by (simp add: listener_packet_def received_text_def Let_def)

section \<open>Examples\<close>

definition search_job :: ThreadData where
  "search_job = \<lparr>td_Mx = 1, td_Cookie = 7, td_Data = Some ''x'',
     td_DestAddr = \<lparr>sin_family = 2, sin_port = 0, s_addr = 0, sin_zero = []\<rparr>\<rparr>"

theorem search_ends_with_timeout_witness:
  "\<exists>r. RequestHandler some_net blank_event 100 [\<lparr>at_time = 104, arrival = Nothing_Arrives\<rparr>] search_job = Some r \<and>
    sr_end r = Timed_Out \<and> (case last (sr_told r) of Callback E \<Rightarrow> sCookie E = 7 | Error_Event _ \<Rightarrow> False)"
proof -
  obtain r where r: "RequestHandler some_net blank_event 100 [\<lparr>at_time = 104, arrival = Nothing_Arrives\<rparr>] search_job = Some r"
      "sr_end r = Timed_Out"
    by (simp add: RequestHandler_def some_net_def search_job_def time_till_read_def try_loop.simps NUM_TRY_def Let_def)
  then show ?thesis using search_ends_with_timeout [OF r] by (auto simp: search_job_def split: told.split_asm)
qed

theorem late_search_loses_timeout_witness:
  "\<exists>res. RequestHandler some_net blank_event 100 ([] @ [\<lparr>at_time = 105, arrival = Nothing_Arrives\<rparr>]) search_job = Some res \<and>
    sr_told res = [] \<and> sr_end res = Select_Failed"
  using late_search_loses_timeout [where n = some_net and ThData = search_job and rs = "[]" and d = "''x''"
      and r = "\<lparr>at_time = 105, arrival = Nothing_Arrives\<rparr>" and StartTime = 100 and Evt = blank_event]
  by (auto simp: some_net_def search_job_def time_till_read_def)

definition slow_search :: string where
  "slow_search = packet [''M-SEARCH * HTTP/1.1'', ''MAN:x'', ''MX:3000'', []]"

lemma slow_search_read:
  "map_option (\<lambda>(rc, E). (rc, sCmd E, sMan E, sMx E)) (AnalyzeCommand True (Some slow_search)
     (blank_event\<lparr>sErrCode := NO_ERROR_FOUND, sDestAddr := Some (td_DestAddr search_job)\<rparr>)) =
   Some (1, SSDP_SEARCH, ''x'', 3000)"
  by code_simp

theorem long_delay_overflows_witness:
  "TransferResEvent (\<lambda>_. True) 5 blank_event (search_job\<lparr>td_Data := Some slow_search\<rparr>) = None"
proof -
  obtain E where "AnalyzeCommand True (Some slow_search)
      (blank_event\<lparr>sErrCode := NO_ERROR_FOUND, sDestAddr := Some (td_DestAddr search_job)\<rparr>) = Some (1, E)"
    "sCmd E = SSDP_SEARCH" "sMan E = ''x''" "sMx E = 3000"
    using slow_search_read by auto
  then show ?thesis
    by (intro long_delay_overflows [where d = slow_search and rc = 1 and E = E]) simp_all
qed

end
