(* ===== verification/Ssdp_Listener.thy ===== *)
theory Ssdp_Listener imports Ssdp_Threads begin

text \<open>
  Start and stop of the discovery listener (\<^verbatim>\<open>ssdp/ssdplib.c\<close>, lines 47 and 246 to 427): the global
  \<^verbatim>\<open>ListenerState\<close> that the thread of the application and the listening thread both read and
  write without a lock.  Each access is a step of one of the two threads.
\<close>

section \<open>The two threads\<close>

datatype Listener = Idle | Stopping | Running

text \<open>
  Where the listening thread is: there is none, it is posted to the pool, in its loop, past the loop
  with the socket open, past the close.  Where the application is: outside the library, in the
  wait of \<^verbatim>\<open>InitSsdpLib\<close>, after the test of \<^verbatim>\<open>DeInitSsdpLib\<close>, in its loop.
\<close>

datatype listener_at = No_Thread | Posted | Listening | Leaving | Closed

datatype api_at = Outside | Init_Waiting | DeInit_Tested | DeInit_Waiting

record ssdp_lib =
  ListenerState :: Listener
  thread :: listener_at
  api :: api_at
  open_sockets :: nat
  leaked :: nat

text \<open>
  \<^verbatim>\<open>InitSsdpLib\<close> up to the wait.  \<open>fault\<close> tells which call fails: \<^verbatim>\<open>socket\<close>, the first \<^verbatim>\<open>fcntl\<close> (after
  which the socket stays open), the first \<^verbatim>\<open>setsockopt\<close>, \<^verbatim>\<open>bind\<close>, \<^verbatim>\<open>tpool_Schedule\<close> (whose result is not
  looked at), or none.  The result is the code returned, or none when the function waits.
\<close>

datatype init_failure = No_Socket | No_Flags | No_Reuse | No_Bind | Not_Scheduled

definition InitSsdpLib :: "init_failure option \<Rightarrow> ssdp_lib \<Rightarrow> int option \<times> ssdp_lib" where
  "InitSsdpLib fault s =
     (if ListenerState s \<noteq> Idle then (Some (- 1), s)
      else
        (let opened = s\<lparr>open_sockets := open_sockets s + 1\<rparr>; lost = opened\<lparr>leaked := leaked s + 1\<rparr> in
         case fault of
           Some No_Socket \<Rightarrow> (Some UPNP_E_OUTOF_SOCKET, s)
         | Some No_Flags \<Rightarrow> (Some UPNP_E_OUTOF_SOCKET, lost)
         | Some No_Reuse \<Rightarrow> (Some UPNP_E_OUTOF_SOCKET, lost)
         | Some No_Bind \<Rightarrow> (Some (- 203), lost)
         | Some Not_Scheduled \<Rightarrow> (None, lost\<lparr>api := Init_Waiting\<rparr>)
         | None \<Rightarrow> (None, opened\<lparr>thread := Posted, api := Init_Waiting\<rparr>)))"

text \<open>\<^verbatim>\<open>DeInitSsdpLib\<close>: the test, the store, and the end of its loop.\<close>

inductive deinit_step :: "ssdp_lib \<Rightarrow> ssdp_lib \<Rightarrow> bool" where
  DeInit_Test: "api s = Outside \<Longrightarrow> ListenerState s \<noteq> Idle \<Longrightarrow> deinit_step s (s\<lparr>api := DeInit_Tested\<rparr>)"
| DeInit_Set: "api s = DeInit_Tested \<Longrightarrow> deinit_step s (s\<lparr>ListenerState := Stopping, api := DeInit_Waiting\<rparr>)"
| DeInit_Return: "api s = DeInit_Waiting \<Longrightarrow> ListenerState s = Idle \<Longrightarrow> deinit_step s (s\<lparr>api := Outside\<rparr>)"

text \<open>\<^verbatim>\<open>ListenMulticastChannel\<close>; packets do not touch this state.\<close>

inductive listen_step :: "ssdp_lib \<Rightarrow> ssdp_lib \<Rightarrow> bool" where
  Thread_Start: "thread s = Posted \<Longrightarrow> listen_step s (s\<lparr>ListenerState := Running, thread := Listening\<rparr>)"
| Thread_Stop: "thread s = Listening \<Longrightarrow> ListenerState s = Stopping \<Longrightarrow> listen_step s (s\<lparr>thread := Leaving\<rparr>)"
| Thread_Fail: "thread s = Listening \<Longrightarrow> listen_step s (s\<lparr>thread := Leaving\<rparr>)"
| Thread_Close: "thread s = Leaving \<Longrightarrow> listen_step s (s\<lparr>open_sockets := open_sockets s - 1, thread := Closed\<rparr>)"
| Thread_Idle: "thread s = Closed \<Longrightarrow> listen_step s (s\<lparr>ListenerState := Idle, thread := No_Thread\<rparr>)"

inductive lstep :: "ssdp_lib \<Rightarrow> ssdp_lib \<Rightarrow> bool" where
  Init: "api s = Outside \<Longrightarrow> InitSsdpLib fault s = (rc, s') \<Longrightarrow> lstep s s'"
| Init_Return: "api s = Init_Waiting \<Longrightarrow> ListenerState s = Running \<Longrightarrow> lstep s (s\<lparr>api := Outside\<rparr>)"
| DeInit: "deinit_step s s' \<Longrightarrow> lstep s s'"
| Thread: "listen_step s s' \<Longrightarrow> lstep s s'"

inductive_cases lstepE: "lstep s s'"
inductive_cases deinit_stepE: "deinit_step s s'"
inductive_cases listen_stepE: "listen_step s s'"

definition lib_start :: ssdp_lib where
  "lib_start = \<lparr>ListenerState = Idle, thread = No_Thread, api = Outside, open_sockets = 0, leaked = 0\<rparr>"

inductive lib_reachable :: "ssdp_lib \<Rightarrow> bool" where
  Start: "lib_reachable lib_start"
| Step: "lib_reachable s \<Longrightarrow> lstep s s' \<Longrightarrow> lib_reachable s'"

section \<open>What holds in every state\<close>

text \<open>
  The sockets are those leaked and the one of the thread; while the application is outside the library,
  an idle state means that there is no thread; a thread is posted only while \<open>InitSsdpLib\<close> waits.
\<close>

definition lib_inv :: "ssdp_lib \<Rightarrow> bool" where
  "lib_inv s =
     (open_sockets s = leaked s + (if thread s \<in> {Posted, Listening, Leaving} then 1 else 0) \<and>
      (thread s = Posted \<longrightarrow> api s = Init_Waiting \<and> ListenerState s = Idle) \<and>
      (api s = Outside \<longrightarrow> (ListenerState s = Idle \<longleftrightarrow> thread s = No_Thread)) \<and>
      (thread s \<in> {Listening, Leaving, Closed} \<longrightarrow> ListenerState s \<noteq> Idle) \<and>
      (thread s = No_Thread \<longrightarrow> ListenerState s \<noteq> Running) \<and>
      (api s = DeInit_Waiting \<longrightarrow> ListenerState s \<noteq> Running) \<and> (api s \<noteq> DeInit_Waiting \<longrightarrow> ListenerState s \<noteq> Stopping))"

lemma deinit_inv: "deinit_step s s' \<Longrightarrow> lib_inv s \<Longrightarrow> lib_inv s'"
  by (erule deinit_step.cases; cases "thread s") (auto simp: lib_inv_def)

lemma listen_inv: "listen_step s s' \<Longrightarrow> lib_inv s \<Longrightarrow> lib_inv s'"
  by (erule listen_step.cases) (auto simp: lib_inv_def)

lemma init_inv: "InitSsdpLib fault s = (rc, s') \<Longrightarrow> api s = Outside \<Longrightarrow> lib_inv s \<Longrightarrow> lib_inv s'"
  by (auto simp: lib_inv_def InitSsdpLib_def Let_def split: if_split_asm option.split_asm init_failure.split_asm)

lemma lib_inv_step: "lstep s s' \<Longrightarrow> lib_inv s \<Longrightarrow> lib_inv s'"
proof (erule lstep.cases)
  show "lib_inv s'" if "s' = s0\<lparr>api := Outside\<rparr>" "api s0 = Init_Waiting" "ListenerState s0 = Running" "s = s0" "lib_inv s" for s0
    using that by (auto simp: lib_inv_def)
qed (auto intro: deinit_inv listen_inv init_inv)

lemma lib_reachable_inv: "lib_reachable s \<Longrightarrow> lib_inv s"
proof (induction rule: lib_reachable.induct)
  case Start
  show ?case by (simp add: lib_inv_def lib_start_def)
qed (rule lib_inv_step)

text \<open>
  C32. Whenever the application is outside the library and the state is idle, and so when \<open>DeInitSsdpLib\<close> has returned,
  the listening thread has ended and its socket is closed; the sockets that are still open are those that starts that
  failed have left behind.
\<close>

theorem idle_library_has_no_listener:
  assumes "lib_reachable s" "api s = Outside" "ListenerState s = Idle"
  shows "thread s = No_Thread \<and> open_sockets s = leaked s"
  using lib_reachable_inv [OF assms(1)] assms(2,3) by (auto simp: lib_inv_def)

section \<open>Two ways to wait for ever\<close>

definition stuck :: "ssdp_lib \<Rightarrow> bool" where
  "stuck s = (thread s = No_Thread \<and> ((api s = Init_Waiting \<and> ListenerState s = Idle) \<or>
     (api s = DeInit_Waiting \<and> ListenerState s = Stopping)))"

lemma stuck_final: "stuck s \<Longrightarrow> \<not> lstep s s'"
  by (auto simp: stuck_def elim!: lstepE deinit_stepE listen_stepE simp: InitSsdpLib_def)

definition started :: ssdp_lib where
  "started = lib_start\<lparr>open_sockets := 1, ListenerState := Running, thread := Listening, api := Init_Waiting\<rparr>"

lemma started_reachable: "lib_reachable started"
proof -
  let ?p = "lib_start\<lparr>open_sockets := 1, thread := Posted, api := Init_Waiting\<rparr>"
  have "lstep lib_start ?p"
    by (rule Init [where fault = None and rc = None]) (simp_all add: InitSsdpLib_def Let_def lib_start_def)
  moreover have "lstep ?p started"
    using Thread [OF Thread_Start, of ?p] by (simp add: started_def lib_start_def)
  ultimately show ?thesis by (blast intro: lib_reachable.intros)
qed

lemma thread_ends:
  assumes "lib_reachable s" "thread s = Listening"
  shows "lib_reachable (s\<lparr>thread := No_Thread, open_sockets := open_sockets s - 1, ListenerState := Idle\<rparr>)"
proof -
  let ?a = "s\<lparr>thread := Leaving\<rparr>"
  let ?b = "?a\<lparr>open_sockets := open_sockets ?a - 1, thread := Closed\<rparr>"
  have "lstep s ?a" by (rule Thread [OF Thread_Fail [OF assms(2)]])
  moreover have "lstep ?a ?b" by (rule Thread [OF Thread_Close]) simp
  moreover have "lstep ?b (?b\<lparr>ListenerState := Idle, thread := No_Thread\<rparr>)" by (rule Thread [OF Thread_Idle]) simp
  moreover have "?b\<lparr>ListenerState := Idle, thread := No_Thread\<rparr> =
      s\<lparr>thread := No_Thread, open_sockets := open_sockets s - 1, ListenerState := Idle\<rparr>"
    by simp
  ultimately show ?thesis using assms(1) by (metis Step)
qed

text \<open>A start that fails, one that succeeds, and a stop: the state while the listener runs, and the one \<open>DeInitSsdpLib\<close> returns from.\<close>

definition running_lib :: ssdp_lib where
  "running_lib = \<lparr>ListenerState = Running, thread = Listening, api = Outside, open_sockets = 2, leaked = 1\<rparr>"

definition stopped_lib :: ssdp_lib where
  "stopped_lib = \<lparr>ListenerState = Idle, thread = No_Thread, api = DeInit_Waiting, open_sockets = 1, leaked = 1\<rparr>"

lemma running_lib_reachable: "lib_reachable running_lib"
proof -
  let ?f = "lib_start\<lparr>open_sockets := 1, leaked := 1\<rparr>"
  let ?p = "?f\<lparr>open_sockets := 2, thread := Posted, api := Init_Waiting\<rparr>"
  let ?l = "?p\<lparr>ListenerState := Running, thread := Listening\<rparr>"
  have "lstep lib_start ?f"
    by (rule Init [where fault = "Some No_Flags" and rc = "Some UPNP_E_OUTOF_SOCKET"]) (simp_all add: InitSsdpLib_def Let_def lib_start_def)
  moreover have "lstep ?f ?p"
    by (rule Init [where fault = None and rc = None]) (simp_all add: InitSsdpLib_def Let_def lib_start_def)
  moreover have "lstep ?p ?l" by (rule Thread [OF Thread_Start]) simp
  moreover have "lstep ?l (?l\<lparr>api := Outside\<rparr>)" by (rule Init_Return) simp_all
  moreover have "?l\<lparr>api := Outside\<rparr> = running_lib" by (simp add: running_lib_def lib_start_def)
  ultimately show ?thesis by (metis Start Step)
qed

lemma stopped_lib_reachable: "lib_reachable stopped_lib"
proof -
  let ?w = "running_lib\<lparr>ListenerState := Stopping, api := DeInit_Waiting\<rparr>"
  have "lstep running_lib (running_lib\<lparr>api := DeInit_Tested\<rparr>)"
    by (rule DeInit [OF DeInit_Test]) (simp_all add: running_lib_def)
  moreover have "lstep (running_lib\<lparr>api := DeInit_Tested\<rparr>) ?w"
    using DeInit [OF DeInit_Set, of "running_lib\<lparr>api := DeInit_Tested\<rparr>"] by simp
  moreover have "lstep ?w (?w\<lparr>thread := Leaving\<rparr>)" by (rule Thread [OF Thread_Stop]) (simp_all add: running_lib_def)
  moreover have "lstep (?w\<lparr>thread := Leaving\<rparr>) (?w\<lparr>open_sockets := 1, thread := Closed\<rparr>)"
    using Thread [OF Thread_Close, of "?w\<lparr>thread := Leaving\<rparr>"] by (simp add: running_lib_def)
  moreover have "lstep (?w\<lparr>open_sockets := 1, thread := Closed\<rparr>) stopped_lib"
    using Thread [OF Thread_Idle, of "?w\<lparr>open_sockets := 1, thread := Closed\<rparr>"] by (simp add: running_lib_def stopped_lib_def)
  ultimately show ?thesis using running_lib_reachable by (metis Step)
qed

theorem idle_library_has_no_listener_witness:
  "\<exists>s. lib_reachable running_lib \<and> thread running_lib = Listening \<and> deinit_step stopped_lib s \<and>
     thread s = No_Thread \<and> open_sockets s = leaked s \<and> leaked s = 1"
proof -
  let ?s = "stopped_lib\<lparr>api := Outside\<rparr>"
  have d: "deinit_step stopped_lib ?s" by (rule DeInit_Return) (simp_all add: stopped_lib_def)
  have "lib_reachable ?s" using stopped_lib_reachable DeInit [OF d] by (rule Step)
  then have "thread ?s = No_Thread \<and> open_sockets ?s = leaked ?s"
    by (rule idle_library_has_no_listener) (simp_all add: stopped_lib_def)
  then show ?thesis using d running_lib_reachable by (intro exI [of _ ?s]) (simp add: running_lib_def stopped_lib_def)
qed

text \<open>
  \<open>InitSsdpLib\<close> looks at the state once a second and waits for \<open>Running\<close>: when the thread has ended
  by then (an error of \<^verbatim>\<open>select\<close>), or was never scheduled, it waits for ever.  \<open>DeInitSsdpLib\<close> sets \<open>Stopping\<close> after it has
  tested the state: when the thread ends in between, nothing sets \<open>Idle\<close> any more.
\<close>

theorem listener_waits_forever:
  "\<exists>s1 s2. lib_reachable s1 \<and> api s1 = Init_Waiting \<and> lib_reachable s2 \<and> api s2 = DeInit_Waiting \<and>
     (\<forall>s'. \<not> lstep s1 s' \<and> \<not> lstep s2 s')"
proof -
  let ?s1 = "started\<lparr>thread := No_Thread, open_sockets := open_sockets started - 1, ListenerState := Idle\<rparr>"
  have 1: "lib_reachable ?s1" by (rule thread_ends [OF started_reachable]) (simp add: started_def)
  let ?run = "started\<lparr>api := Outside\<rparr>" and ?t = "started\<lparr>api := DeInit_Tested\<rparr>"
  have "lstep started ?run" by (rule Init_Return) (simp_all add: started_def)
  moreover have "lstep ?run (?run\<lparr>api := DeInit_Tested\<rparr>)" by (rule DeInit [OF DeInit_Test]) (simp_all add: started_def)
  ultimately have t: "lib_reachable ?t" using started_reachable by (auto intro: lib_reachable.intros)
  let ?e = "?t\<lparr>thread := No_Thread, open_sockets := open_sockets ?t - 1, ListenerState := Idle\<rparr>"
  have e: "lib_reachable ?e" by (rule thread_ends [OF t]) (simp add: started_def)
  let ?s2 = "?e\<lparr>ListenerState := Stopping, api := DeInit_Waiting\<rparr>"
  have "lstep ?e ?s2" by (rule DeInit [OF DeInit_Set]) simp
  then have 2: "lib_reachable ?s2" using e by (rule Step [rotated])
  have "\<not> lstep ?s1 s'" "\<not> lstep ?s2 s'" for s'
    by (rule stuck_final, simp add: stuck_def started_def)+
  moreover have "api ?s1 = Init_Waiting" "api ?s2 = DeInit_Waiting" by (simp_all add: started_def)
  ultimately show ?thesis using 1 2 by blast
qed

end
