(* ===== verification/Dom_Search.thy ===== *)
theory Dom_Search imports Service_Tree begin

text \<open>
  The search by tag name of the DOM (\<^verbatim>\<open>upnpdom/Node.cpp\<close>, lines 381 to 407, and the calls in
  \<^verbatim>\<open>Document.cpp\<close>, \<^verbatim>\<open>Element.cpp\<close> and \<^verbatim>\<open>domCif.cpp\<close>), on the trees of the description.  It is what
  the parameter \<open>by_tag\<close> of the service table stands for.
\<close>

section \<open>The search\<close>

text \<open>The name after the first colon: \<^verbatim>\<open>strchr(name,':')\<close> plus one, or the whole name.\<close>

definition local_name :: "string \<Rightarrow> string" where
  "local_name name = (if CHR '':'' \<in> set name then tl (dropWhile (\<lambda>c. c \<noteq> CHR '':'') name) else name)"

definition tag_matches :: "string \<Rightarrow> string \<Rightarrow> bool" where
  "tag_matches tagname name =
     (let name2 = (if CHR '':'' \<in> set tagname then name else local_name name)
      in tagname = name2 \<or> tagname = ''*'')"

text \<open>The loop over the children of a node, with the call for the children of each.\<close>

fun SearchList :: "string \<Rightarrow> dom list \<Rightarrow> dom list" where
  "SearchList tagname [] = []"
| "SearchList tagname (Element n as cs # ds) =
     (if tag_matches tagname n then [Element n as cs] else []) @ SearchList tagname cs @ SearchList tagname ds"
| "SearchList tagname (_ # ds) = SearchList tagname ds"

definition getElementsByTagName :: "string \<Rightarrow> dom \<Rightarrow> dom list" where
  "getElementsByTagName tagname node = SearchList tagname (dom_children node)"

section \<open>What it finds\<close>

text \<open>All elements below, parents before their children, in document order.\<close>

fun elements :: "dom list \<Rightarrow> dom list" where
  "elements [] = []"
| "elements (Element n as cs # ds) = Element n as cs # elements cs @ elements ds"
| "elements (_ # ds) = elements ds"

definition named :: "string \<Rightarrow> dom \<Rightarrow> bool" where
  "named tagname d = (case d of Element n as cs \<Rightarrow> tag_matches tagname n | _ \<Rightarrow> False)"

lemma SearchList_filter: "SearchList tagname ds = filter (named tagname) (elements ds)"
  by (induction tagname ds rule: SearchList.induct) (simp_all add: named_def)

lemma SearchList_append: "SearchList t (ds @ es) = SearchList t ds @ SearchList t es"
  by (induction t ds rule: SearchList.induct) simp_all

lemma tag_matches_plain:
  "CHR '':'' \<notin> set t \<Longrightarrow> CHR '':'' \<notin> set n \<Longrightarrow> t \<noteq> ''*'' \<Longrightarrow> tag_matches t n \<longleftrightarrow> t = n"
  by (simp add: tag_matches_def local_name_def)

lemma tag_matches_star: "tag_matches ''*'' n"
  by (simp add: tag_matches_def)

text \<open>
  C35. The search returns, in document order, the elements below a node whose name (without its prefix,
  when the tag asked for has none) is the tag, or all of them for a star.
\<close>

theorem getElementsByTagName_document_order:
  "getElementsByTagName tagname node = filter (named tagname) (elements (dom_children node))"
  by (simp add: getElementsByTagName_def SearchList_filter)

end
