(* ===== verification/Api_Download.thy ===== *)
theory Api_Download imports Gena_Client Dom_Search Ssdp_Parser begin

text \<open>
  Downloads and device descriptions (\<^verbatim>\<open>api/upnpapi.c\<close>, lines 385 to 585 and 1682 to 1814): an item by
  URL, an XML document by URL, and the description a device is registered with, which may be a URL, a
  file or a buffer.  The XML parser is the argument \<open>parse\<close>, the writer of the base URL of the web server
  the argument \<open>urlbase\<close>, the file system the argument \<open>files\<close>.
\<close>

section \<open>Downloading\<close>

abbreviation (input) UPNP_E_INVALID_DESC :: int where "UPNP_E_INVALID_DESC \<equiv> - 107"

text \<open>\<^verbatim>\<open>strncpy\<close> into an array, which is padded with NUL and not terminated when the source is longer.\<close>

definition strncpy_to :: "string \<Rightarrow> string \<Rightarrow> nat \<Rightarrow> string option" where
  "strncpy_to dst src n =
     (let s = cstring (take n src) in
      if length dst < n \<or> (length s < n \<and> length src \<le> length s) then None
      else Some (s @ replicate (n - length s) NUL @ drop n dst))"

text \<open>\<^verbatim>\<open>strcpy\<close> of the content into a block of one byte more than its size.\<close>

definition copied_content :: "mem \<Rightarrow> http_message \<Rightarrow> string option" where
  "copied_content M m = do {
     n \<leftarrow> strlen (tok_bytes M (content m));
     if tsize (content m) < n then None else Some (cstring (tok_bytes M (content m))) }"

text \<open>
  The result is the code, the text of \<^verbatim>\<open>*outBuf\<close> when it is set, and the array \<^verbatim>\<open>contentType\<close>; NULL
  arguments are \<open>None\<close> (\<open>has_out\<close> for \<^verbatim>\<open>outBuf\<close>).
\<close>

definition UpnpDownloadUrlItem ::
  "cenv \<Rightarrow> string option \<Rightarrow> bool \<Rightarrow> string option \<Rightarrow> (int \<times> string option \<times> string option) option" where
  "UpnpDownloadUrlItem e url has_out contentType =
     (case (url, contentType) of
        (Some url, Some ct) \<Rightarrow>
          if \<not> has_out then Some (UPNP_E_INVALID_PARAM, None, Some ct)
          else if ct = [] then None
          else do {
            let ct = ct[0 := NUL];
            (rc, response, sent) \<leftarrow> client_transfer e ''GET'' CRLF url;
            (case (rc = HTTP_SUCCESS, response) of
               (True, Some tmpBuf) \<Rightarrow> do {
                 (rc, m) \<leftarrow> client_parse e tmpBuf;
                 let M = response_store e tmpBuf;
                 if rc \<noteq> HTTP_SUCCESS then Some (rc, None, Some ct)
                 else if tsize (content m) = 0 then Some (UPNP_E_INVALID_URL, None, Some ct)
                 else do {
                   ok \<leftarrow> status_is_200 M m;
                   if \<not> ok then Some (UPNP_E_INVALID_URL, None, Some ct)
                   else if \<not> calloc e 0 then Some (UPNP_E_OUTOF_MEMORY, None, Some ct)
                   else do {
                     out \<leftarrow> copied_content M m;
                     h \<leftarrow> find_header M m ''Content-Type'';
                     ct \<leftarrow> (case h of
                        None \<Rightarrow> Some ct
                      | Some t \<Rightarrow> strncpy_to ct (tok_bytes M t)
                          (size_t (if tsize t < int LINE_SIZE - 1 then tsize t else int LINE_SIZE - 1)));
                     Some (UPNP_E_SUCCESS, Some out, Some ct) } } }
             | (True, None) \<Rightarrow> None
             | (False, _) \<Rightarrow> Some (rc, None, Some ct)) }
      | _ \<Rightarrow> Some (UPNP_E_INVALID_PARAM, None, contentType))"

text \<open>The code and the document, when one is stored.\<close>

definition UpnpDownloadXmlDoc ::
  "(string \<Rightarrow> dom option) \<Rightarrow> cenv \<Rightarrow> string option \<Rightarrow> bool \<Rightarrow> (int \<times> dom option) option" where
  "UpnpDownloadXmlDoc parse e url has_doc =
     (if url = None \<or> \<not> has_doc then Some (UPNP_E_INVALID_PARAM, None)
      else do {
        (rc, xmlBuf, contentType) \<leftarrow> UpnpDownloadUrlItem e url True (Some (replicate LINE_SIZE NUL));
        if rc \<noteq> UPNP_E_SUCCESS then Some (rc, None)
        else do {
          ct \<leftarrow> contentType;
          d \<leftarrow> strncasecmp ct (''text/xml'' @ [NUL]) 8;
          if d \<noteq> 0 then Some (UPNP_E_INVALID_DESC, None)
          else do {
            xml \<leftarrow> xmlBuf;
            (case parse xml of None \<Rightarrow> Some (UPNP_E_INVALID_DESC, None) | Some d \<Rightarrow> Some (UPNP_E_SUCCESS, Some d)) } } })"

section \<open>The description of a device\<close>

abbreviation (input) UPNP_E_FILE_NOT_FOUND :: int where "UPNP_E_FILE_NOT_FOUND \<equiv> - 502"
abbreviation (input) UPNP_E_FILE_READ_ERROR :: int where "UPNP_E_FILE_READ_ERROR \<equiv> - 503"
abbreviation (input) UPNP_E_EXT_NOT_XML :: int where "UPNP_E_EXT_NOT_XML \<equiv> - 504"
abbreviation (input) UPNP_E_URL_TOO_BIG :: int where "UPNP_E_URL_TOO_BIG \<equiv> - 118"

text \<open>\<^verbatim>\<open>strrchr\<close>: the text from the last occurrence of a character on.\<close>

definition strrchr :: "string \<Rightarrow> char \<Rightarrow> string option" where
  "strrchr s c = (if c \<in> set s then Some (c # rev (takeWhile (\<lambda>x. x \<noteq> c) (rev s))) else None)"

definition GetNameForAlias :: "string \<Rightarrow> int \<times> string option" where
  "GetNameForAlias name =
     (case strrchr name (CHR ''.'') of
        None \<Rightarrow> (UPNP_E_EXT_NOT_XML, None)
      | Some ext \<Rightarrow>
          if \<not> same_nocase ext ''.xml'' then (UPNP_E_EXT_NOT_XML, None)
          else (UPNP_E_SUCCESS, Some (case strrchr name (CHR ''/'') of None \<Rightarrow> name | Some al \<Rightarrow> al)))"

datatype Upnp_DescType = UPNPREG_URL_DESC | UPNPREG_FILENAME_DESC | UPNPREG_BUF_DESC

text \<open>
  A file: it cannot be opened, or its bytes, and whether \<^verbatim>\<open>fread\<close> gets them all.  \<open>urlbase\<close> answers
  \<^verbatim>\<open>Configure_Urlbase\<close> for a document, the address of the server and the alias asked for: a code, the
  changed document, the alias and the URL of the description.
\<close>

record desc_env =
  UpnpParse_Buffer :: "string \<Rightarrow> dom option"
  files :: "string \<Rightarrow> (string \<times> bool) option"
  file_mem :: bool
  urlbase :: "dom \<Rightarrow> string \<times> int \<Rightarrow> string \<Rightarrow> int \<times> dom \<times> string \<times> string"
  conn :: cenv

text \<open>The document, before the test of its being NULL: a code with no document, or the parser's answer.\<close>

definition load_description :: "desc_env \<Rightarrow> Upnp_DescType \<Rightarrow> string \<Rightarrow> (int + dom option) option" where
  "load_description e descriptionType description =
     (case descriptionType of
        UPNPREG_URL_DESC \<Rightarrow> do {
          (rc, d) \<leftarrow> UpnpDownloadXmlDoc (UpnpParse_Buffer e) (conn e) (Some description) True;
          Some (if rc \<noteq> UPNP_E_SUCCESS then Inl rc else Inr d) }
      | UPNPREG_FILENAME_DESC \<Rightarrow>
          (case files e description of
             None \<Rightarrow> Some (Inl UPNP_E_FILE_NOT_FOUND)
           | Some (bytes, complete) \<Rightarrow>
               if \<not> file_mem e then Some (Inl UPNP_E_OUTOF_MEMORY)
               else if \<not> complete then Some (Inl UPNP_E_FILE_READ_ERROR)
               else Some (Inr (UpnpParse_Buffer e (cstring (bytes @ [NUL])))))
      | UPNPREG_BUF_DESC \<Rightarrow> Some (Inr (UpnpParse_Buffer e description)))"

definition get_server_addr :: "cenv \<Rightarrow> string \<times> int" where
  "get_server_addr e = (LOCAL_HOST e, LOCAL_PORT e)"

text \<open>
  The result is a code, or the document, the URL and the alias (no alias is written without the web
  server's configuration).  The alias is copied without a test of its length.
\<close>

definition GetDescDocumentAndURL ::
  "desc_env \<Rightarrow> Upnp_DescType \<Rightarrow> string option \<Rightarrow> bool \<Rightarrow> (int + dom \<times> string \<times> string option) option" where
  "GetDescDocumentAndURL e descriptionType description config_baseURL =
     (case description of
        None \<Rightarrow> Some (Inl UPNP_E_INVALID_PARAM)
      | Some description \<Rightarrow>
          if descriptionType \<noteq> UPNPREG_URL_DESC \<and> \<not> config_baseURL then Some (Inl UPNP_E_INVALID_PARAM)
          else do {
            r \<leftarrow> load_description e descriptionType description;
            (case r of
               Inl rc \<Rightarrow> Some (Inl rc)
             | Inr None \<Rightarrow> Some (Inl UPNP_E_INVALID_DESC)
             | Inr (Some xmlDoc) \<Rightarrow>
                 if config_baseURL
                 then (case (if descriptionType = UPNPREG_BUF_DESC then (UPNP_E_SUCCESS, Some ''description.xml'')
                             else GetNameForAlias description) of
                         (rc, Some aliasStr) \<Rightarrow>
                           (case urlbase e xmlDoc (get_server_addr (conn e)) aliasStr of
                              (rc, xmlDoc, actualAliasStr, descStr) \<Rightarrow>
                                if rc \<noteq> UPNP_E_SUCCESS then Some (Inl rc)
                                else if LINE_SIZE - 1 < length descStr then Some (Inl UPNP_E_URL_TOO_BIG)
                                else do {
                                  al \<leftarrow> block_of LINE_SIZE actualAliasStr;
                                  Some (Inr (xmlDoc, descStr, Some al)) })
                       | (rc, None) \<Rightarrow> Some (Inl rc))
                 else if LINE_SIZE - 1 < length description then Some (Inl UPNP_E_URL_TOO_BIG)
                 else Some (Inr (xmlDoc, description, None))) })"

section \<open>What a download returns\<close>

lemma strlen_terminated_by: "NUL \<notin> set s \<Longrightarrow> strlen (s @ NUL # t) = Some (int (length s))"
  by (induction s) auto

lemma cstring_terminated_by: "NUL \<notin> set s \<Longrightarrow> cstring (s @ NUL # t) = s"
  by (induction s) (auto simp: cstring_def)

lemma cstring_plain: "NUL \<notin> set s \<Longrightarrow> cstring s = s"
  by (induction s) (auto simp: cstring_def)

lemma find_map: "find P (map f xs) = map_option f (find (\<lambda>x. P (f x)) xs)"
  by (induction xs) auto

lemma find_header_text:
  assumes "map (header_text M) (header_list m) = ps" "\<forall>h \<in> set (header_list m). tok_ok M (hd_name h) \<and> tok_ok M (hd_value h)"
    and "NUL \<notin> set s" "length s < 2 ^ 31" "find (\<lambda>h. same_nocase (fst h) s) ps = Some (n, v)"
  obtains t where "find_header M m s = Some (Some t)" "tok_text M t = v" "tok_ok M t"
proof -
  have "find (\<lambda>h. same_nocase (fst h) s) ps = map_option (header_text M) (find (name_is M s) (header_list m))"
    unfolding assms(1) [symmetric] find_map
    by (rule arg_cong [of _ _ "\<lambda>P. map_option _ (find P _)"]) (rule ext, simp add: name_is_def header_text_def same_nocase_def)
  then obtain h where h: "find (name_is M s) (header_list m) = Some h" "tok_text M (hd_value h) = v"
    using assms(5) by (cases "find (name_is M s) (header_list m)") (auto simp: header_text_def)
  then have "h \<in> set (header_list m)" by (auto simp: find_Some_iff)
  then show thesis
    using that [of "hd_value h"] search_list_find [of "header_list m" M s] assms(2-4) h
    by (simp add: find_header_def search_for_header_def)
qed

lemma tok_text_prefix: "tok_ok M t \<Longrightarrow> tok_text M t = v \<Longrightarrow> \<exists>r. tok_bytes M t = v @ r \<and> tsize t = int (length v)"
  by (auto simp: tok_ok_def tok_text_def intro!: exI [of _ "drop (nat (tsize t)) (tok_bytes M t)"])

text \<open>The parts of a printed 200 response, as a download uses them.\<close>

lemma download_parses:
  assumes "response = ver @ SP # ''200'' @ SP # reason @ CR # LF # print_headers ps @ CR # LF # body" "NUL \<notin> set response"
    and "ver \<noteq> []" "SP \<notin> set ver" "TAB \<notin> set ver" "CR \<notin> set reason" "reason = [] \<or> hd reason \<noteq> SP \<and> hd reason \<noteq> TAB"
    and "\<forall>h \<in> set ps. wf_header h" "calloc e = (\<lambda>_. True)"
  obtains m where "client_parse e response = Some (HTTP_SUCCESS, m)"
    "status_is_200 (response_store e response) m = Some True" "copied_content (response_store e response) m = Some body"
    "tsize (content m) = int (length body)" "map (header_text (response_store e response)) (header_list m) = ps"
    "\<forall>h \<in> set (header_list m). tok_ok (response_store e response) (hd_name h) \<and> tok_ok (response_store e response) (hd_value h)"
proof -
  let ?M = "response_store e response" and ?mx = "int (length response)"
  have b: "bytes_at ?M (cblock e, 0) = ver @ SP # ''200'' @ SP # reason @ CR # LF # print_headers ps @ CR # LF # body @ [NUL]"
    by (simp add: response_store_def bytes_at_def assms(1))
  have mx: "?mx = int (length ver + length ''200'' + length reason + 4 + length (print_headers ps) + 2 + length body)"
    by (simp add: assms(1))
  obtain m where m: "parse_http_response (\<lambda>_. True) ?M (cblock e, 0) (cmsg e) ?mx = Some (HTTP_SUCCESS, m)"
    "tok_text ?M (status_code (status m)) = ''200''" "map (header_text ?M) (header_list m) = ps"
    "\<forall>h \<in> set (header_list m). tok_ok ?M (hd_name h) \<and> tok_ok ?M (hd_value h)"
    "tok_bytes ?M (content m) = body @ [NUL]" "tsize (content m) = int (length body)"
    using parse_http_response_printed [OF _ b assms(3-5) _ _ _ assms(6-8) mx, of "cmsg e"] by auto
  have "client_parse e response = Some (HTTP_SUCCESS, m)"
    using m(1) assms(2,9) by (simp add: client_parse_def strlen_terminated_by)
  moreover obtain r where "tok_bytes ?M (status_code (status m)) = ''200'' @ r"
    using m(2) by (metis append_take_drop_id tok_text_def)
  then have "status_is_200 ?M m = Some True" by (simp add: status_is_200_def numeral_3_eq_3)
  moreover have "copied_content ?M m = Some body"
    using assms(1,2) m(5,6) by (simp add: copied_content_def strlen_terminated_by cstring_terminated_by)
  ultimately show thesis using that m(3,4,6) by blast
qed

text \<open>The content type array after the copy.\<close>

lemma content_type_copied:
  assumes "tok_ok M t" "tok_text M t = v" "NUL \<notin> set v" "length v < LINE_SIZE"
  shows "strncpy_to (replicate LINE_SIZE NUL) (tok_bytes M t)
      (size_t (if tsize t < int LINE_SIZE - 1 then tsize t else int LINE_SIZE - 1)) =
    Some (v @ replicate (LINE_SIZE - length v) NUL)"
proof -
  obtain r where r: "tok_bytes M t = v @ r" "tsize t = int (length v)" using tok_text_prefix [OF assms(1,2)] by blast
  have "size_t (if tsize t < int LINE_SIZE - 1 then tsize t else int LINE_SIZE - 1) = length v"
    using assms(4) by (auto simp: r(2) size_t_def LINE_SIZE_def)
  then show ?thesis using assms(3,4) by (simp add: strncpy_to_def r(1) cstring_plain)
qed

lemma blank_array: "(replicate LINE_SIZE NUL)[0 := NUL] = replicate LINE_SIZE NUL" "0 < LINE_SIZE"
  by (simp_all add: LINE_SIZE_def list_update_same_conv)

text \<open>
  A document that the peer sends with status 200, a header of type \<^verbatim>\<open>text/xml\<close> (the first header of that
  name counts) and a body without NUL is handed to the XML parser as it was sent.
\<close>

theorem UpnpDownloadXmlDoc_downloads:
  assumes "client_transfer e ''GET'' CRLF url = Some (HTTP_SUCCESS, Some response, sent)" "calloc e = (\<lambda>_. True)"
    and "response = ver @ SP # ''200'' @ SP # reason @ CR # LF # print_headers ps @ CR # LF # body" "NUL \<notin> set response"
    and "ver \<noteq> []" "SP \<notin> set ver" "TAB \<notin> set ver" "CR \<notin> set reason" "reason = [] \<or> hd reason \<noteq> SP \<and> hd reason \<noteq> TAB"
    and "\<forall>h \<in> set ps. wf_header h" "find (\<lambda>h. same_nocase (fst h) ''Content-Type'') ps = Some (n, v)"
    and "same_nocase (take 8 v) ''text/xml''" "length v < LINE_SIZE" "body \<noteq> []"
  shows "UpnpDownloadXmlDoc parse e (Some url) True =
    Some (case parse body of None \<Rightarrow> (UPNP_E_INVALID_DESC, None) | Some d \<Rightarrow> (UPNP_E_SUCCESS, Some d))"
proof -
  let ?M = "response_store e response"
  obtain m where m: "client_parse e response = Some (HTTP_SUCCESS, m)" "status_is_200 ?M m = Some True"
    "copied_content ?M m = Some body" "tsize (content m) = int (length body)" "map (header_text ?M) (header_list m) = ps"
    "\<forall>h \<in> set (header_list m). tok_ok ?M (hd_name h) \<and> tok_ok ?M (hd_value h)"
    by (rule download_parses [OF assms(3-10,2)])
  obtain t where t: "find_header ?M m ''Content-Type'' = Some (Some t)" "tok_text ?M t = v" "tok_ok ?M t"
    by (rule find_header_text [OF m(5,6) _ _ assms(11)]) auto
  have "(n, v) \<in> set ps" using assms(11) by (auto simp: find_Some_iff)
  then have "set v \<subseteq> set (print_headers ps)" by (induction ps rule: print_headers.induct) auto
  then have v: "NUL \<notin> set v" using assms(3,4) by auto
  have v8: "NUL \<notin> set (take 8 v)" using v by (meson in_set_takeD)
  have len: "8 \<le> length v" using assms(12) by (auto simp: same_nocase_def dest!: arg_cong [of _ _ length])
  obtain d where d: "strncasecmp (v @ replicate (LINE_SIZE - length v) NUL) (''text/xml'' @ [NUL]) 8 = Some d"
      "d = 0 \<longleftrightarrow> map tolower (take 8 (v @ replicate (LINE_SIZE - length v) NUL)) = map tolower (take 8 (''text/xml'' @ [NUL]))"
    using strncasecmp_eq [of 8 "v @ replicate (LINE_SIZE - length v) NUL" "''text/xml'' @ [NUL]"] len v8 by auto
  have item: "UpnpDownloadUrlItem e (Some url) True (Some (replicate LINE_SIZE NUL)) =
      Some (UPNP_E_SUCCESS, Some body, Some (v @ replicate (LINE_SIZE - length v) NUL))"
    using assms(1,2,14) m(1-4) t(1) content_type_copied [OF t(3,2) v assms(13)]
    by (simp add: UpnpDownloadUrlItem_def blank_array)
  show ?thesis using d len assms(12) by (cases "parse body") (simp_all add: UpnpDownloadXmlDoc_def item same_nocase_def)
qed

text \<open>
  When the response ends one byte after its last header line, the size of the content is -1: the block
  for the copy has no byte, and the terminator is stored behind it.
\<close>

theorem cut_response_overflows:
  assumes "client_transfer e ''GET'' CRLF url = Some (HTTP_SUCCESS, Some response, sent)" "calloc e = (\<lambda>_. True)"
    and "client_parse e response = Some (HTTP_SUCCESS, m)" "status_is_200 (response_store e response) m = Some True"
    and "tsize (content m) < 0"
  shows "UpnpDownloadUrlItem e (Some url) True (Some (replicate LINE_SIZE NUL)) = None"
proof -
  have "copied_content (response_store e response) m = None"
    using strlen_length [of "tok_bytes (response_store e response) (content m)"] assms(5)
    by (cases "strlen (tok_bytes (response_store e response) (content m))") (auto simp: copied_content_def)
  then show ?thesis using assms by (simp add: UpnpDownloadUrlItem_def blank_array)
qed

section \<open>Examples\<close>

text \<open>A peer that is reached and sends a small description, and one that cuts it off.\<close>

definition some_headers :: "(string \<times> string) list" where
  "some_headers = [(''CONTENT-LENGTH'', ''4''), (''CONTENT-TYPE'', ''text/xml'')]"

definition some_response :: string where
  "some_response = ''HTTP/1.1'' @ SP # ''200'' @ SP # ''OK'' @ CR # LF # print_headers some_headers @ CR # LF # ''<a/>''"

definition desc_peer :: cenv where
  "desc_peer = client_env\<lparr>cnet := (cnet client_env)\<lparr>takes := [Takes 0 32], sends := [Seg 1 some_response]\<rparr>\<rparr>"

definition some_url :: string where "some_url = ''http://h/d.xml''"

definition some_mem :: mem where
  "some_mem b = (if b = 0 then ''http://h/d.xml'' @ [NUL] else [])"

definition some_parsed :: uri_type where
  "some_parsed = \<lparr>utype = ABSOLUTE, scheme = \<lparr>buff = Some (0, 0), tsize = 4\<rparr>, path_type = ABS_PATH,
     pathquery = \<lparr>buff = Some (0, 8), tsize = 6\<rparr>, fragment = \<lparr>buff = None, tsize = 0\<rparr>,
     hostport = \<lparr>hp_text = \<lparr>buff = Some (0, 7), tsize = 1\<rparr>,
       IPv4address = \<lparr>sin_family = 2, sin_port = 20480, s_addr = 7, sin_zero = replicate 8 NUL\<rparr>\<rparr>\<rparr>"

lemma some_url_facts:
  "parse_uri some_mem (cuenv client_env) (0, 0) 14 (curi client_env) = Some (HTTP_SUCCESS, some_parsed)"
  "http_url some_mem some_parsed = Some True" "small_token some_mem (pathquery some_parsed)"
  "small_token some_mem (hp_text (hostport some_parsed))" "strlen (bytes_at some_mem (0, 0)) = Some 14"
  "length (request_message some_mem ''GET'' some_parsed CRLF) = 32"
  by code_simp+

lemma some_header_lines: "\<forall>l\<in>set [''HTTP/1.1 200 OK'' @ [CR, LF], ''CONTENT-LENGTH: 4'' @ [CR, LF], ''CONTENT-TYPE: text/xml'' @ [CR, LF]]. header_line l"
  "announced [''HTTP/1.1 200 OK'' @ [CR, LF], ''CONTENT-LENGTH: 4'' @ [CR, LF], ''CONTENT-TYPE: text/xml'' @ [CR, LF]] = 4"
  by (simp_all add: header_line_def text_line_def ends_crlf_def SOCKET_BUFFER_SIZE_def exI [of _ "''CONTENT-LENGTH: 4'' @ [CR]"]
    exI [of _ "''HTTP/1.1 200 OK'' @ [CR]"] exI [of _ "''CONTENT-TYPE: text/xml'' @ [CR]"]) code_simp

lemma some_transfer:
  obtains sent where "client_transfer desc_peer ''GET'' CRLF some_url = Some (HTTP_SUCCESS, Some some_response, sent)"
proof -
  have M: "url_store some_url = some_mem" by (rule ext) (simp add: url_store_def some_mem_def some_url_def)
  have "read_http_response (\<lambda>_. True) True [Seg 1 some_response] RESPONSE_TIMEOUT = Some (HTTP_SUCCESS, Some some_response)"
    using read_http_response_content [where q = "[Seg 1 some_response]" and t = RESPONSE_TIMEOUT
        and ls = "[''HTTP/1.1 200 OK'' @ [CR, LF], ''CONTENT-LENGTH: 4'' @ [CR, LF], ''CONTENT-TYPE: text/xml'' @ [CR, LF]]"
        and body = "''<a/>''" and rest = "[]"] some_header_lines
    by (simp add: some_response_def some_headers_def RESPONSE_TIMEOUT_def)
  then show thesis
    using that transferHTTPparsedURL_sends [OF some_url_facts(2-4), of "''GET''" CRLF "cnet desc_peer"] some_url_facts
      exchange_spec [of "cnet desc_peer" "IPv4address (hostport some_parsed)" "[32]" "request_message some_mem ''GET'' some_parsed CRLF"]
    by (simp add: client_transfer_def transferHTTP_def M desc_peer_def client_env_def CRLF_def)
qed

theorem UpnpDownloadXmlDoc_downloads_witness:
  "UpnpDownloadXmlDoc (\<lambda>t. if t = ''<a/>'' then Some (Element ''a'' [] []) else None) desc_peer (Some some_url) True =
     Some (UPNP_E_SUCCESS, Some (Element ''a'' [] []))"
proof -
  obtain sent where t: "client_transfer desc_peer ''GET'' CRLF some_url = Some (HTTP_SUCCESS, Some some_response, sent)"
    by (rule some_transfer)
  have "\<forall>h \<in> set some_headers. wf_header h" "NUL \<notin> set some_response"
    "find (\<lambda>h. same_nocase (fst h) ''Content-Type'') some_headers = Some (''CONTENT-TYPE'', ''text/xml'')"
    by code_simp+
  then show ?thesis
    using UpnpDownloadXmlDoc_downloads [OF t _ some_response_def, where parse = "\<lambda>t. if t = ''<a/>'' then Some (Element ''a'' [] []) else None"]
    by (simp add: desc_peer_def client_env_def same_nocase_def LINE_SIZE_def)
qed

end
