(* ===== verification/Api_Device.thy ===== *)
theory Api_Device imports Api_Download Ssdp_Threads begin

text \<open>
  The device side of the API (\<^verbatim>\<open>api/upnpapi.c\<close>, lines 218 to 381, 649 to 764, 852 to 903, 1848 to 2150
  and 2693 to 2698): registration of root devices, what is announced, replied and withdrawn for the
  devices and services of a description, the periodic announcement, and the end of a registration.
\<close>

definition DEFAULT_MAXAGE :: int where "DEFAULT_MAXAGE = 1800"
definition AUTO_ADVERTISEMENT_TIME :: int where "AUTO_ADVERTISEMENT_TIME = 30"

section \<open>Registration\<close>

text \<open>
  What a registration meets: the description, name service and allocator of the service table, what
  the fresh handle record holds, and whether it could be allocated.
\<close>

record reg_env =
  rdesc :: desc_env
  rnames :: env
  ruri :: uri_type
  rmalloc :: "nat \<Rightarrow> bool"
  rinfo :: Handle_Info
  rinfo_ok :: bool

text \<open>
  The common end of both functions: the lists of devices and service lists, and the service table,
  whose result is not used.  \<open>Inl\<close> is the error returned after the handle is freed.
\<close>

definition describe_device :: "reg_env \<Rightarrow> dom \<Rightarrow> Handle_Info \<Rightarrow> (int + Handle_Info) option" where
  "describe_device e d i =
     (let devices = getElementsByTagName ''device'' d; services = getElementsByTagName ''serviceList'' d in
      if devices = [] then Some (Inl UPNP_E_INVALID_DESC)
      else if services = [] then Some (Inl UPNP_E_INVALID_DESC)
      else do {
        (found, st) \<leftarrow> getServiceTable getElementsByTagName (rmalloc e) (rnames e) (ruri e) d (ServiceTable i) (Some (DescURL i));
        Some (Inr (i\<lparr>DeviceList := devices, ServiceList := services, ServiceTable := st\<rparr>)) })"

text \<open>The fields that are set before the description is read.\<close>

definition new_device :: "nat \<Rightarrow> nat \<Rightarrow> Handle_Info \<Rightarrow> Handle_Info" where
  "new_device Fun cookie i = i\<lparr>HType := HND_DEVICE, Callback := Fun, Cookie := cookie, MaxAge := DEFAULT_MAXAGE,
     DeviceList := [], ServiceList := [], ClientSubList := [], MaxSubscriptions := UPNP_INFINITE,
     MaxSubscriptionTimeOut := UPNP_INFINITE\<rparr>"

text \<open>
  The handle of the result is what is written to \<^verbatim>\<open>*Hnd\<close>, which may be the error code of
  \<open>GetFreeHandle\<close> or a handle that is free again.
\<close>

definition UpnpRegisterRootDevice ::
  "int \<Rightarrow> reg_env \<Rightarrow> handle_table \<Rightarrow> string option \<Rightarrow> nat \<Rightarrow> nat \<Rightarrow> bool \<Rightarrow> (int \<times> int option \<times> handle_table) option" where
  "UpnpRegisterRootDevice UpnpSdkInit e T DescUrl Fun cookie Hnd_null =
     (if UpnpSdkInit \<noteq> 1 then Some (UPNP_E_FINISH, None, T)
      else (case DescUrl of
          None \<Rightarrow> Some (UPNP_E_INVALID_PARAM, None, T)
        | Some url \<Rightarrow>
            if Hnd_null \<or> Fun = 0 \<or> url = [] then Some (UPNP_E_INVALID_PARAM, None, T)
            else
              (let h = GetFreeHandle T in
               if h = UPNP_E_OUTOF_HANDLE then Some (UPNP_E_OUTOF_MEMORY, Some h, T)
               else if \<not> rinfo_ok e then Some (UPNP_E_OUTOF_MEMORY, Some h, T)
               else do {
                 u \<leftarrow> block_of LINE_SIZE url;
                 let i = new_device Fun cookie (rinfo e)\<lparr>DescURL := u, DescDocument := None\<rparr>;
                 let T' = T[nat h := Some i];
                 (rc, doc) \<leftarrow> UpnpDownloadXmlDoc (UpnpParse_Buffer (rdesc e)) (conn (rdesc e)) (Some u) True;
                 (case (rc = UPNP_E_SUCCESS, doc) of
                    (True, Some d) \<Rightarrow> do {
                      r \<leftarrow> describe_device e d (i\<lparr>DescDocument := Some d\<rparr>);
                      (case r of
                         Inl err \<Rightarrow> Some (err, Some h, snd (FreeHandle T' h))
                       | Inr i \<Rightarrow> Some (UPNP_E_SUCCESS, Some h, T'[nat h := Some i])) }
                  | _ \<Rightarrow> Some (rc, Some h, snd (FreeHandle T' h))) })))"

definition UpnpRegisterRootDevice2 ::
  "int \<Rightarrow> reg_env \<Rightarrow> handle_table \<Rightarrow> Upnp_DescType \<Rightarrow> string option \<Rightarrow> bool \<Rightarrow> nat \<Rightarrow> nat \<Rightarrow> bool \<Rightarrow>
     (int \<times> int option \<times> handle_table) option" where
  "UpnpRegisterRootDevice2 UpnpSdkInit e T descriptionType description config_baseURL Fun cookie Hnd_null =
     (if UpnpSdkInit \<noteq> 1 then Some (UPNP_E_FINISH, None, T)
      else if Hnd_null \<or> Fun = 0 then Some (UPNP_E_INVALID_PARAM, None, T)
      else
        (let h = GetFreeHandle T in
         if h = UPNP_E_OUTOF_HANDLE then Some (UPNP_E_OUTOF_MEMORY, Some h, T)
         else if \<not> rinfo_ok e then Some (UPNP_E_OUTOF_MEMORY, Some h, T)
         else do {
           let T' = T[nat h := Some ((rinfo e)\<lparr>aliasInstalled := False\<rparr>)];
           r \<leftarrow> GetDescDocumentAndURL (rdesc e) descriptionType description config_baseURL;
           (case r of
              Inl err \<Rightarrow> Some (err, Some h, snd (FreeHandle T' h))
            | Inr (d, url, al) \<Rightarrow> do {
                let i = new_device Fun cookie (rinfo e)\<lparr>aliasInstalled := config_baseURL, DescDocument := Some d,
                  DescURL := url, DescAlias := (case al of None \<Rightarrow> DescAlias (rinfo e) | Some a \<Rightarrow> a)\<rparr>;
                r \<leftarrow> describe_device e d i;
                (case r of
                   Inl err \<Rightarrow> Some (err, Some h, snd (FreeHandle T' h))
                 | Inr i \<Rightarrow> Some (UPNP_E_SUCCESS, Some h, T'[nat h := Some i])) }) }))"

section \<open>Announcements\<close>

text \<open>What the calls into the discovery library meet.\<close>

record adv_env =
  adv_alloc :: "nat \<Rightarrow> bool"
  adv_host :: host_info
  adv_net :: net_env

text \<open>
  The text of the first element of a name below a node: \<^verbatim>\<open>getElementsByTagName\<close>, the first item, its
  first child, the value of that.
\<close>

definition first_text :: "string \<Rightarrow> dom \<Rightarrow> string option" where
  "first_text tag node = (case getElementsByTagName tag node of [] \<Rightarrow> None | n # _ \<Rightarrow> getElementValue n)"

text \<open>The packets of a call whose code is not looked at.\<close>

definition sent_by :: "sent option \<Rightarrow> (destination \<times> string) list option" where
  "sent_by r = map_option snd r"

text \<open>
  The target of a search: the kind, the address of the searcher, and the names, each possibly NULL.
\<close>

record search_target =
  SearchType :: SsdpSearchType
  DestAddr :: "sockaddr_in option"
  DeviceType :: "string option"
  DeviceUDN :: "string option"
  ServiceType :: "string option"

definition announce_device ::
  "adv_env \<Rightarrow> int \<Rightarrow> search_target \<Rightarrow> int \<Rightarrow> Handle_Info \<Rightarrow> nat \<Rightarrow> string \<Rightarrow> string \<Rightarrow> (destination \<times> string) list option" where
  "announce_device e AdFlag q Exp SInfo i devType UDNstr =
     (if AdFlag \<noteq> 0
      then if AdFlag = 1
        then sent_by (DeviceAdvertisement (adv_alloc e) (adv_host e) (adv_net e) devType (i = 0) UDNstr (DescURL SInfo) Exp)
        else sent_by (DeviceShutdown (adv_alloc e) (adv_host e) (adv_net e) devType (i = 0) UDNstr (DescURL SInfo) Exp)
      else
        (let reply = (\<lambda>root by_type. do { a \<leftarrow> DestAddr q;
               sent_by (SendReply (adv_alloc e) (adv_host e) (adv_net e) a devType root UDNstr
                 (DescURL SInfo) (MaxAge SInfo) by_type) }) in
         case SearchType q of
           SSDP_ALL \<Rightarrow> do { a \<leftarrow> DestAddr q;
             sent_by (DeviceReply (adv_alloc e) (adv_host e) (adv_net e) a devType (i = 0) UDNstr
               (DescURL SInfo) (MaxAge SInfo)) }
         | SSDP_ROOTDEVICE \<Rightarrow> if i = 0 then reply True 0 else Some []
         | SSDP_DEVICE \<Rightarrow>
             (case DeviceUDN q of
                Some (c # cs) \<Rightarrow> if same_nocase (c # cs) UDNstr then reply False 0 else Some []
              | _ \<Rightarrow> do {
                  t \<leftarrow> DeviceType q;
                  if same_nocase t devType then reply False 1 else Some [] })
         | _ \<Rightarrow> Some []))"

definition announce_service ::
  "adv_env \<Rightarrow> int \<Rightarrow> search_target \<Rightarrow> int \<Rightarrow> Handle_Info \<Rightarrow> string \<Rightarrow> string \<Rightarrow> (destination \<times> string) list option" where
  "announce_service e AdFlag q Exp SInfo UDNstr servType =
     (if AdFlag \<noteq> 0
      then if AdFlag = 1
        then sent_by (ServiceAdvertisement (adv_alloc e) (adv_host e) (adv_net e) UDNstr servType (DescURL SInfo) Exp)
        else sent_by (ServiceShutdown (adv_alloc e) (adv_host e) (adv_net e) UDNstr servType (DescURL SInfo) Exp)
      else
        (let reply = do { a \<leftarrow> DestAddr q;
               sent_by (ServiceReply (adv_alloc e) (adv_host e) (adv_net e) a servType UDNstr
                 (DescURL SInfo) (MaxAge SInfo)) } in
         case SearchType q of
           SSDP_ALL \<Rightarrow> reply
         | SSDP_SERVICE \<Rightarrow>
             (case ServiceType q of
                None \<Rightarrow> Some []
              | Some t \<Rightarrow> if same_nocase t servType then reply else Some [])
         | _ \<Rightarrow> Some []))"

text \<open>
  The inner loop, over the services of a device, and the outer loop, over the devices from the
  \<open>i\<close>-th on; the services of the \<open>i\<close>-th device are those of the \<open>i\<close>-th service list.  The names are
  copied into arrays of 100 bytes.  \<open>E i j\<close> is what the \<open>j\<close>-th call for the \<open>i\<close>-th device meets.
\<close>

fun services_loop ::
  "(nat \<Rightarrow> adv_env) \<Rightarrow> int \<Rightarrow> search_target \<Rightarrow> int \<Rightarrow> Handle_Info \<Rightarrow> string \<Rightarrow> nat \<Rightarrow> dom list \<Rightarrow>
     (destination \<times> string) list option" where
  "services_loop E AdFlag q Exp SInfo UDNstr j [] = Some []"
| "services_loop E AdFlag q Exp SInfo UDNstr j (s # ss) =
     (case first_text ''serviceType'' s of
        None \<Rightarrow> services_loop E AdFlag q Exp SInfo UDNstr (Suc j) ss
      | Some tmpStr \<Rightarrow> do {
          servType \<leftarrow> block_of 100 tmpStr;
          out \<leftarrow> announce_service (E (Suc j)) AdFlag q Exp SInfo UDNstr servType;
          outs \<leftarrow> services_loop E AdFlag q Exp SInfo UDNstr (Suc j) ss;
          Some (out @ outs) })"

definition announce_services ::
  "(nat \<Rightarrow> adv_env) \<Rightarrow> int \<Rightarrow> search_target \<Rightarrow> int \<Rightarrow> Handle_Info \<Rightarrow> string \<Rightarrow> nat \<Rightarrow> (destination \<times> string) list option" where
  "announce_services E AdFlag q Exp SInfo UDNstr i =
     (if i < length (ServiceList SInfo)
      then services_loop E AdFlag q Exp SInfo UDNstr 0 (getElementsByTagName ''service'' (ServiceList SInfo ! i))
      else Some [])"

fun devices_loop ::
  "(nat \<Rightarrow> nat \<Rightarrow> adv_env) \<Rightarrow> int \<Rightarrow> search_target \<Rightarrow> int \<Rightarrow> Handle_Info \<Rightarrow> nat \<Rightarrow> dom list \<Rightarrow>
     (destination \<times> string) list option" where
  "devices_loop E AdFlag q Exp SInfo i [] = Some []"
| "devices_loop E AdFlag q Exp SInfo i (d # ds) =
     (case first_text ''deviceType'' d of
        None \<Rightarrow> devices_loop E AdFlag q Exp SInfo (Suc i) ds
      | Some t \<Rightarrow> do {
          devType \<leftarrow> block_of 100 t;
          (case first_text ''UDN'' d of
             None \<Rightarrow> devices_loop E AdFlag q Exp SInfo (Suc i) ds
           | Some u \<Rightarrow> do {
               UDNstr \<leftarrow> block_of 100 u;
               out \<leftarrow> announce_device (E i 0) AdFlag q Exp SInfo i devType UDNstr;
               servs \<leftarrow> announce_services (E i) AdFlag q Exp SInfo UDNstr i;
               outs \<leftarrow> devices_loop E AdFlag q Exp SInfo (Suc i) ds;
               Some (out @ servs @ outs) }) })"

definition AdvertiseAndReply ::
  "(nat \<Rightarrow> nat \<Rightarrow> adv_env) \<Rightarrow> handle_table \<Rightarrow> int \<Rightarrow> int \<Rightarrow> search_target \<Rightarrow> int \<Rightarrow> sent option" where
  "AdvertiseAndReply E T AdFlag Hnd q Exp =
     (case device_info T Hnd of
        None \<Rightarrow> Some (UPNP_E_INVALID_HANDLE, [])
      | Some SInfo \<Rightarrow> map_option (Pair UPNP_E_SUCCESS) (devices_loop E AdFlag q Exp SInfo 0 (DeviceList SInfo)))"

definition no_target :: search_target where
  "no_target = \<lparr>SearchType = SSDP_SERROR, DestAddr = None, DeviceType = None, DeviceUDN = None, ServiceType = None\<rparr>"

section \<open>The end of a registration\<close>

text \<open>The code and the packets, the alias taken from the web server, and the state.\<close>

definition UpnpUnRegisterRootDevice ::
  "(nat \<Rightarrow> nat \<Rightarrow> adv_env) \<Rightarrow> int \<Rightarrow> gena \<Rightarrow> (sent \<times> string option \<times> gena) option" where
  "UpnpUnRegisterRootDevice E Hnd g =
     (case genaUnregisterDevice Hnd g of (rc, g) \<Rightarrow>
        if rc \<noteq> UPNP_E_SUCCESS then Some ((UPNP_E_INVALID_HANDLE, []), None, g)
        else if GetHandleInfo (handles g) Hnd = None then Some ((UPNP_E_INVALID_HANDLE, []), None, g)
        else do {
          info \<leftarrow> handles g ! nat Hnd;
          r \<leftarrow> AdvertiseAndReply E (handles g) (- 1) Hnd no_target (MaxAge info);
          Some (r, if aliasInstalled info then Some (DescAlias info) else None,
            g\<lparr>handles := snd (FreeHandle (handles g) Hnd)\<rparr>) })"

section \<open>Periodic announcements\<close>

text \<open>
  The handles, the timer, and the records its events point to: handle and expiration time.  The
  callback \<open>AutoAdvertise\<close> has the address 2.
\<close>

record advertiser =
  av_handles :: handle_table
  av_timer :: timer_thread_struct
  av_events :: "nat \<Rightarrow> (int \<times> int) option"
  av_next :: nat

definition auto_advertise_callback :: nat where "auto_advertise_callback = 2"

definition set_max_age :: "int \<Rightarrow> int \<Rightarrow> handle_table \<Rightarrow> handle_table" where
  "set_max_age h n T = T[nat h := map_option (\<lambda>i. i\<lparr>MaxAge := n\<rparr>) (T ! nat h)]"

definition UpnpSendAdvertisement ::
  "(nat \<Rightarrow> nat \<Rightarrow> adv_env) \<Rightarrow> (nat \<Rightarrow> bool) \<Rightarrow> int \<Rightarrow> int \<Rightarrow> int \<Rightarrow> advertiser \<Rightarrow> (sent \<times> advertiser) option" where
  "UpnpSendAdvertisement E A current_time Hnd Exp a =
     (if GetHandleInfo (av_handles a) Hnd \<noteq> Some HND_DEVICE then Some ((UPNP_E_INVALID_HANDLE, []), a)
      else do {
        let Exp = (if Exp < 1 then DEFAULT_MAXAGE else Exp);
        let a = a\<lparr>av_handles := set_max_age Hnd Exp (av_handles a)\<rparr>;
        (rc, out) \<leftarrow> AdvertiseAndReply E (av_handles a) 1 Hnd no_target Exp;
        if rc \<noteq> UPNP_E_SUCCESS then Some ((rc, out), a)
        else if \<not> A 0 \<or> \<not> A 1 then Some ((UPNP_E_OUTOF_MEMORY, out), a)
        else
          (case ScheduleTimerEvent (A 2) current_time (Exp - AUTO_ADVERTISEMENT_TIME) auto_advertise_callback (av_next a)
                  (av_timer a) of
             (rc, ev, timer) \<Rightarrow>
               (case ev of
                  None \<Rightarrow> Some ((rc, out), a\<lparr>av_timer := timer\<rparr>)
                | Some x \<Rightarrow> Some ((rc, out), a\<lparr>av_timer := timer,
                    av_events := (av_events a)(av_next a := Some (Hnd, Exp)), av_next := Suc (av_next a)\<rparr>))) })"

text \<open>The timer callback, with the record of its event, which is freed at the end.\<close>

definition AutoAdvertise ::
  "(nat \<Rightarrow> nat \<Rightarrow> adv_env) \<Rightarrow> (nat \<Rightarrow> bool) \<Rightarrow> int \<Rightarrow> nat \<Rightarrow> advertiser \<Rightarrow> (sent \<times> advertiser) option" where
  "AutoAdvertise E A current_time k a = do {
     (h, Exp) \<leftarrow> av_events a k;
     (r, a) \<leftarrow> UpnpSendAdvertisement E A current_time h Exp a;
     Some (r, a\<lparr>av_events := (av_events a)(k := None)\<rparr>) }"

section \<open>Events\<close>

abbreviation (input) UPNP_E_INVALID_SERVICE :: int where "UPNP_E_INVALID_SERVICE \<equiv> - 111"
abbreviation (input) UPNP_E_INVALID_SID :: int where "UPNP_E_INVALID_SID \<equiv> - 109"

text \<open>
  The checks of the four calls, in the order of the code: \<open>Inl\<close> is the code returned, \<open>Inr\<close> the
  arguments.  NULL pointers are \<open>None\<close>; the two arrays are given together with their length.
\<close>

definition check_service :: "gena \<Rightarrow> int \<Rightarrow> string option \<Rightarrow> string option \<Rightarrow> int + string \<times> string" where
  "check_service g Hnd DevID ServName =
     (if GetHandleInfo (handles g) Hnd \<noteq> Some HND_DEVICE then Inl UPNP_E_INVALID_HANDLE
      else (case (DevID, ServName) of (Some d, Some s) \<Rightarrow> Inr (d, s) | _ \<Rightarrow> Inl UPNP_E_INVALID_SERVICE))"

definition check_variables ::
  "string list option \<Rightarrow> string list option \<Rightarrow> int \<Rightarrow> int + string list \<times> string list" where
  "check_variables VarName NewVal cVariables =
     (case (VarName, NewVal) of
        (Some ns, Some vs) \<Rightarrow> if cVariables < 0 then Inl UPNP_E_INVALID_PARAM else Inr (ns, vs)
      | _ \<Rightarrow> Inl UPNP_E_INVALID_PARAM)"

definition UpnpNotify ::
  "(nat \<Rightarrow> bool) \<Rightarrow> (nat \<Rightarrow> int) \<Rightarrow> int \<Rightarrow> int \<Rightarrow> string option \<Rightarrow> string option \<Rightarrow> string list option \<Rightarrow>
     string list option \<Rightarrow> int \<Rightarrow> gena \<Rightarrow> (int \<times> gena) option" where
  "UpnpNotify A P t Hnd DevID ServName VarName NewVal cVariables g =
     (case check_service g Hnd DevID ServName of
        Inl err \<Rightarrow> Some (err, g)
      | Inr (d, s) \<Rightarrow>
          (case check_variables VarName NewVal cVariables of
             Inl err \<Rightarrow> Some (err, g)
           | Inr (ns, vs) \<Rightarrow> genaNotifyAll A P t Hnd d s ns vs cVariables g))"

definition UpnpNotifyExt ::
  "(nat \<Rightarrow> bool) \<Rightarrow> (nat \<Rightarrow> int) \<Rightarrow> int \<Rightarrow> int \<Rightarrow> string option \<Rightarrow> string option \<Rightarrow> string option \<Rightarrow> gena \<Rightarrow>
     (int \<times> gena) option" where
  "UpnpNotifyExt A P t Hnd DevID ServName printed g =
     (case check_service g Hnd DevID ServName of
        Inl err \<Rightarrow> Some (err, g)
      | Inr (d, s) \<Rightarrow> genaNotifyAllExt A P t Hnd d s printed g)"

definition UpnpAcceptSubscription ::
  "(nat \<Rightarrow> bool) \<Rightarrow> int \<Rightarrow> int \<Rightarrow> int \<Rightarrow> string option \<Rightarrow> string option \<Rightarrow> string list option \<Rightarrow>
     string list option \<Rightarrow> int \<Rightarrow> string option \<Rightarrow> gena \<Rightarrow> (int \<times> gena) option" where
  "UpnpAcceptSubscription A pool_rc t Hnd DevID ServName VarName NewVal cVariables SubsId g =
     (case check_service g Hnd DevID ServName of
        Inl err \<Rightarrow> Some (err, g)
      | Inr (d, s) \<Rightarrow>
          (case SubsId of
             None \<Rightarrow> Some (UPNP_E_INVALID_SID, g)
           | Some sid \<Rightarrow>
               (case check_variables VarName NewVal cVariables of
                  Inl err \<Rightarrow> Some (err, g)
                | Inr (ns, vs) \<Rightarrow> genaInitNotify A pool_rc t Hnd d s ns vs cVariables sid g)))"

text \<open>\<open>PropSet\<close> is the document and its printed form, which may be NULL.\<close>

definition UpnpAcceptSubscriptionExt ::
  "(nat \<Rightarrow> bool) \<Rightarrow> int \<Rightarrow> int \<Rightarrow> int \<Rightarrow> string option \<Rightarrow> string option \<Rightarrow> string option option \<Rightarrow> string option \<Rightarrow>
     gena \<Rightarrow> (int \<times> gena) option" where
  "UpnpAcceptSubscriptionExt A pool_rc t Hnd DevID ServName PropSet SubsId g =
     (case check_service g Hnd DevID ServName of
        Inl err \<Rightarrow> Some (err, g)
      | Inr (d, s) \<Rightarrow>
          (case SubsId of
             None \<Rightarrow> Some (UPNP_E_INVALID_SID, g)
           | Some sid \<Rightarrow>
               (case PropSet of
                  None \<Rightarrow> Some (UPNP_E_INVALID_PARAM, g)
                | Some printed \<Rightarrow> genaInitNotifyExt A pool_rc t Hnd d s printed sid g)))"

section \<open>What is announced\<close>

text \<open>
  The parts of a description: for each device its type, its UDN and the types of its services, with as
  many service lists as devices.
\<close>

type_synonym part = "string \<times> string \<times> string list"

definition described :: "Handle_Info \<Rightarrow> part list \<Rightarrow> bool" where
  "described SInfo ps =
     (map (\<lambda>d. (first_text ''deviceType'' d, first_text ''UDN'' d)) (DeviceList SInfo) =
        map (\<lambda>(t, u, ss). (Some t, Some u)) ps \<and>
      map (\<lambda>l. map (first_text ''serviceType'') (getElementsByTagName ''service'' l)) (ServiceList SInfo) =
        map (\<lambda>(t, u, ss). map Some ss) ps)"

text \<open>Types and names that fit the arrays and that the parser of a control point accepts.\<close>

definition part_ok :: "host_info \<Rightarrow> string \<Rightarrow> nat \<Rightarrow> part \<Rightarrow> bool" where
  "part_ok h loc dur = (\<lambda>(t, u, ss). length t < 100 \<and> length u < 100 \<and> device_ok h u t loc dur \<and>
     list_all (\<lambda>s. length s < 100 \<and> service_ok h u s loc dur) ss)"

text \<open>What a device is announced as, by the call and the target of the search, and which services are.\<close>

definition device_names_wanted :: "int \<Rightarrow> search_target \<Rightarrow> bool \<Rightarrow> string \<Rightarrow> string \<Rightarrow> announced_name list" where
  "device_names_wanted AdFlag q root t u =
     (if AdFlag \<noteq> 0 \<or> SearchType q = SSDP_ALL then names_of root t
      else if SearchType q = SSDP_ROOTDEVICE then (if root then [Root_Device] else [])
      else if SearchType q = SSDP_DEVICE
      then (case DeviceUDN q of
              Some (c # cs) \<Rightarrow> if same_nocase (c # cs) u then [Device_Udn] else []
            | _ \<Rightarrow> if same_nocase (the (DeviceType q)) t then [Device_Type t] else [])
      else [])"

definition service_wanted :: "int \<Rightarrow> search_target \<Rightarrow> string \<Rightarrow> bool" where
  "service_wanted AdFlag q s =
     (AdFlag \<noteq> 0 \<or> SearchType q = SSDP_ALL \<or>
      SearchType q = SSDP_SERVICE \<and> (case ServiceType q of None \<Rightarrow> False | Some t \<Rightarrow> same_nocase t s))"

text \<open>
  The packets that are due, in the order they are sent: for each device its UDN with each name it is announced as,
  then with the type of each service.
\<close>

fun due_packets :: "int \<Rightarrow> search_target \<Rightarrow> bool \<Rightarrow> part list \<Rightarrow> (string \<times> announced_name) list" where
  "due_packets AdFlag q root [] = []"
| "due_packets AdFlag q root ((t, u, ss) # ps) =
     map (Pair u) (device_names_wanted AdFlag q root t u @ map Service_Type (filter (service_wanted AdFlag q) ss)) @
     due_packets AdFlag q False ps"

text \<open>The kind of packet, and where it goes.\<close>

definition call_kind :: "int \<Rightarrow> int" where
  "call_kind AdFlag = (if AdFlag = 0 then 2 else if AdFlag = 1 then 1 else 0)"

definition call_dest :: "int \<Rightarrow> search_target \<Rightarrow> destination" where
  "call_dest AdFlag q = (if AdFlag = 0 then Peer (the (DestAddr q)) else multicast)"

text \<open>A call that names what it needs: an address, and a device type when the UDN is empty.\<close>

definition target_ok :: "int \<Rightarrow> search_target \<Rightarrow> bool" where
  "target_ok AdFlag q = (AdFlag = 0 \<longrightarrow> DestAddr q \<noteq> None \<and> (SearchType q = SSDP_DEVICE \<longrightarrow> DeviceType q \<noteq> None))"

text \<open>Each packet twice.\<close>

definition copies :: "destination \<Rightarrow> string list \<Rightarrow> (destination \<times> string) list" where
  "copies dest ms = map (Pair dest) (concat (map (\<lambda>p. [p, p]) ms))"

lemma copies_simps [simp]: "copies dest [] = []" "copies dest (ms @ ns) = copies dest ms @ copies dest ns"
  "copies dest (m # ms) = (dest, m) # (dest, m) # copies dest ms"
  by (simp_all add: copies_def)

definition env_ok :: "adv_env \<Rightarrow> bool" where
  "env_ok e = sends_all (adv_alloc e) (adv_net e)"

lemma announced_pairs: "list_all2 (announces k loc dur Evt) (map (Pair u) ns) ms = list_all2 (\<lambda>n. announces k loc dur Evt (u, n)) ns ms"
  by (simp add: list_all2_map1)

lemma device_call:
  assumes "part_ok (adv_host e) (DescURL SInfo) dur (t, u, ss)" "env_ok e" "target_ok AdFlag q"
    and "AdFlag \<noteq> 0 \<Longrightarrow> Exp = int dur" "AdFlag = 0 \<Longrightarrow> MaxAge SInfo = int dur" "dest = call_dest AdFlag q"
  shows "\<exists>ms. announce_device e AdFlag q Exp SInfo i t u = Some (copies dest ms) \<and>
    list_all2 (announces (call_kind AdFlag) (DescURL SInfo) dur Evt) (map (Pair u) (device_names_wanted AdFlag q (i = 0) t u)) ms"
proof -
  have d: "device_ok (adv_host e) u t (DescURL SInfo) dur" using assms(1) by (simp add: part_ok_def)
  have s: "sends_all (adv_alloc e) (adv_net e)" using assms(2) by (simp add: env_ok_def)
  note all = device_sends [OF d _ s, of _ _ "i = 0" Evt] and one = name_sends [OF d _ _ s, of _ 2 _ Evt]
  have single: "\<exists>ms. sent_by (SendReply (adv_alloc e) (adv_host e) (adv_net e) a t root u (DescURL SInfo) (int dur) by_type) =
      Some (copies (Peer a) ms) \<and> list_all2 (announces 2 (DescURL SInfo) dur Evt) [(u, n)] ms"
    if "n = (if root then Root_Device else if by_type = 0 then Device_Udn else Device_Type t)" for a root by_type n
  proof -
    have n: "device_name t n"
      "(if root then root_names u else if by_type = 0 then udn_names u else type_names u t) = Some (type_header u n, usn_header u n)"
      using that by (cases root; cases "by_type = 0"; auto simp: device_names_fit [OF d] device_name_def)+
    obtain p where "send_packets (adv_alloc e) (adv_host e) (adv_net e) (Peer a) 2 [Some (type_header u n, usn_header u n)]
          (DescURL SInfo) (int dur) = Some (UPNP_E_SUCCESS, [(Peer a, p), (Peer a, p)])" "announces 2 (DescURL SInfo) dur Evt (u, n) p"
      using one [OF n(1), of "Peer a"] by auto
    then show ?thesis using n(2) by (intro exI [of _ "[p]"]) (simp add: SendReply_def sent_by_def)
  qed
  show ?thesis
  proof (cases "AdFlag = 0")
    case False
    then show ?thesis using all [of 1 multicast] all [of 0 multicast] assms(4)
      by (auto simp: announce_device_def sent_by_def DeviceAdvertisement_def DeviceShutdown_def copies_def call_kind_def
          call_dest_def assms(6) device_names_wanted_def announced_pairs)
  next
    case True
    then obtain a where a: "DestAddr q = Some a" using assms(3) by (auto simp: target_ok_def)
    note defs = announce_device_def device_names_wanted_def call_kind_def call_dest_def assms(6) a assms(5) [OF True]
    show ?thesis
    proof (cases "SearchType q")
      case SSDP_ALL
      then show ?thesis using all [of 2 "Peer a"] True
        by (auto simp: defs DeviceReply_def sent_by_def copies_def announced_pairs)
    next
      case SSDP_ROOTDEVICE
      then show ?thesis using single [of Root_Device True 0 a] True by (auto simp: defs)
    next
      case SSDP_DEVICE
      then show ?thesis using single [of Device_Udn False 0 a] single [of "Device_Type t" False 1 a] True assms(3)
        by (auto simp: defs target_ok_def split: option.split list.split)
    qed (use True in \<open>auto simp: defs\<close>)
  qed
qed

lemma service_call:
  assumes "length s < 100" "service_ok (adv_host e) u s (DescURL SInfo) dur" "env_ok e" "target_ok AdFlag q"
    and "AdFlag \<noteq> 0 \<Longrightarrow> Exp = int dur" "AdFlag = 0 \<Longrightarrow> MaxAge SInfo = int dur" "dest = call_dest AdFlag q"
  shows "\<exists>ms. announce_service e AdFlag q Exp SInfo u s = Some (copies dest ms) \<and>
    list_all2 (announces (call_kind AdFlag) (DescURL SInfo) dur Evt)
      (if service_wanted AdFlag q s then [(u, Service_Type s)] else []) ms"
proof -
  have n: "sends_all (adv_alloc e) (adv_net e)" using assms(3) by (simp add: env_ok_def)
  have one: "\<exists>p. sent_by (send_packets (adv_alloc e) (adv_host e) (adv_net e) d k [type_names u s] (DescURL SInfo) (int dur)) =
      Some (copies d [p]) \<and> announces k (DescURL SInfo) dur Evt (u, Service_Type s) p" if "k \<in> {0, 1, 2}" for d k
    using service_sends [OF assms(2) that n, of d Evt] by (auto simp: sent_by_def)
  show ?thesis
  proof (cases "AdFlag = 0")
    case False
    obtain p where "announce_service e AdFlag q Exp SInfo u s = Some (copies dest [p])"
      "announces (call_kind AdFlag) (DescURL SInfo) dur Evt (u, Service_Type s) p"
      using one [of 1 multicast] one [of 0 multicast] assms(5) False
      by (cases "AdFlag = 1") (auto simp: announce_service_def ServiceAdvertisement_def ServiceShutdown_def call_kind_def
          call_dest_def assms(7))
    then show ?thesis using False by (intro exI [of _ "[p]"]) (simp add: service_wanted_def)
  next
    case True
    then obtain a where a: "DestAddr q = Some a" using assms(4) by (auto simp: target_ok_def)
    obtain p where p: "sent_by (ServiceReply (adv_alloc e) (adv_host e) (adv_net e) a s u (DescURL SInfo) (MaxAge SInfo)) =
        Some (copies dest [p])" "announces 2 (DescURL SInfo) dur Evt (u, Service_Type s) p"
      using one [of 2 "Peer a"] True assms(6) by (auto simp: ServiceReply_def call_dest_def assms(7) a)
    show ?thesis
    proof (cases "service_wanted AdFlag q s")
      case wanted: True
      then show ?thesis using p True a
        by (intro exI [of _ "[p]"])
          (auto simp: announce_service_def service_wanted_def call_kind_def Let_def split: option.splits)
    next
      case False
      then show ?thesis using True
        by (intro exI [of _ "[]"])
          (auto simp: announce_service_def service_wanted_def Let_def split: SsdpSearchType.split option.split)
    qed
  qed
qed

lemma services_call:
  assumes "\<forall>j. env_ok (E j)" "target_ok AdFlag q" "AdFlag \<noteq> 0 \<Longrightarrow> Exp = int dur" "AdFlag = 0 \<Longrightarrow> MaxAge SInfo = int dur"
    and "dest = call_dest AdFlag q"
  shows "map (first_text ''serviceType'') nodes = map Some ss \<Longrightarrow>
    \<forall>j. list_all (\<lambda>s. length s < 100 \<and> service_ok (adv_host (E j)) u s (DescURL SInfo) dur) ss \<Longrightarrow>
    \<exists>ms. services_loop E AdFlag q Exp SInfo u j nodes = Some (copies dest ms) \<and>
      list_all2 (announces (call_kind AdFlag) (DescURL SInfo) dur Evt)
        (map (\<lambda>s. (u, Service_Type s)) (filter (service_wanted AdFlag q) ss)) ms"
proof (induction nodes arbitrary: ss j)
  case (Cons d nodes)
  then obtain s ss' where ss: "ss = s # ss'" "first_text ''serviceType'' d = Some s"
    "map (first_text ''serviceType'') nodes = map Some ss'" by (cases ss) auto
  then obtain ms where ms: "services_loop E AdFlag q Exp SInfo u (Suc j) nodes = Some (copies dest ms)"
    "list_all2 (announces (call_kind AdFlag) (DescURL SInfo) dur Evt)
        (map (\<lambda>s. (u, Service_Type s)) (filter (service_wanted AdFlag q) ss')) ms"
    using Cons.IH [OF ss(3), of "Suc j"] Cons.prems(2) by auto
  obtain m where m: "announce_service (E (Suc j)) AdFlag q Exp SInfo u s = Some (copies dest m)"
    "list_all2 (announces (call_kind AdFlag) (DescURL SInfo) dur Evt)
      (if service_wanted AdFlag q s then [(u, Service_Type s)] else []) m"
    using service_call [of s "E (Suc j)" u SInfo dur AdFlag q Exp dest Evt] assms Cons.prems(2) ss(1) by auto
  have "block_of 100 s = Some s" using Cons.prems(2) ss(1) by (simp add: block_of_def)
  then show ?case
    using ss(2) m ms list_all2_appendI [OF m(2) ms(2)]
    by (cases "service_wanted AdFlag q s"; intro exI [of _ "m @ ms"]; simp add: ss(1))
qed auto

lemma devices_call:
  assumes "\<forall>i j. env_ok (E i j)" "target_ok AdFlag q" "AdFlag \<noteq> 0 \<Longrightarrow> Exp = int dur" "AdFlag = 0 \<Longrightarrow> MaxAge SInfo = int dur"
    and "dest = call_dest AdFlag q"
  shows "map (\<lambda>d. (first_text ''deviceType'' d, first_text ''UDN'' d)) nodes = map (\<lambda>(t, u, ss). (Some t, Some u)) ps \<Longrightarrow>
    map (\<lambda>l. map (first_text ''serviceType'') (getElementsByTagName ''service'' l)) (drop i (ServiceList SInfo)) =
      map (\<lambda>(t, u, ss). map Some ss) ps \<Longrightarrow>
    \<forall>i j. list_all (part_ok (adv_host (E i j)) (DescURL SInfo) dur) ps \<Longrightarrow>
    \<exists>ms. devices_loop E AdFlag q Exp SInfo i nodes = Some (copies dest ms) \<and>
      list_all2 (announces (call_kind AdFlag) (DescURL SInfo) dur Evt) (due_packets AdFlag q (i = 0) ps) ms"
proof (induction nodes arbitrary: ps i)
  case (Cons d nodes)
  then obtain t u ss ps' where ps: "ps = (t, u, ss) # ps'" "first_text ''deviceType'' d = Some t" "first_text ''UDN'' d = Some u"
    "map (\<lambda>d. (first_text ''deviceType'' d, first_text ''UDN'' d)) nodes = map (\<lambda>(t, u, ss). (Some t, Some u)) ps'"
    by (cases ps) auto
  obtain l ls where l: "drop i (ServiceList SInfo) = l # ls" "map (first_text ''serviceType'') (getElementsByTagName ''service'' l) = map Some ss"
    "map (\<lambda>l. map (first_text ''serviceType'') (getElementsByTagName ''service'' l)) ls = map (\<lambda>(t, u, ss). map Some ss) ps'"
    using Cons.prems(2) by (cases "drop i (ServiceList SInfo)") (auto simp: ps(1))
  then have i: "i < length (ServiceList SInfo)" "ServiceList SInfo ! i = l" "drop (Suc i) (ServiceList SInfo) = ls"
    by (metis drop_all linorder_not_less list.distinct(1)) (metis nth_via_drop l(1), metis drop_Suc list.sel(3) tl_drop l(1))
  have part: "part_ok (adv_host (E i j)) (DescURL SInfo) dur (t, u, ss)" for j using Cons.prems(3) by (simp add: ps(1))
  obtain m where m: "announce_device (E i 0) AdFlag q Exp SInfo i t u = Some (copies dest m)"
    "list_all2 (announces (call_kind AdFlag) (DescURL SInfo) dur Evt) (map (Pair u) (device_names_wanted AdFlag q (i = 0) t u)) m"
    using device_call [OF part _ assms(2-5)] assms(1) by blast
  obtain n where n: "announce_services (E i) AdFlag q Exp SInfo u i = Some (copies dest n)"
    "list_all2 (announces (call_kind AdFlag) (DescURL SInfo) dur Evt)
      (map (\<lambda>s. (u, Service_Type s)) (filter (service_wanted AdFlag q) ss)) n"
    using services_call [OF _ assms(2-5) l(2), of "E i" u 0 Evt] assms(1) part i(1,2)
    by (force simp: announce_services_def part_ok_def)
  obtain ms where ms: "devices_loop E AdFlag q Exp SInfo (Suc i) nodes = Some (copies dest ms)"
    "list_all2 (announces (call_kind AdFlag) (DescURL SInfo) dur Evt) (due_packets AdFlag q False ps') ms"
    using Cons.IH [OF ps(4), of "Suc i"] Cons.prems(3) l(3) i(3) by (auto simp: ps(1))
  have "block_of 100 t = Some t" "block_of 100 u = Some u" using part [of 0] by (auto simp: part_ok_def block_of_def)
  then show ?case
    using ps(2,3) m(1) n(1) ms(1) list_all2_appendI [OF m(2) list_all2_appendI [OF n(2) ms(2)]]
    by (intro exI [of _ "m @ n @ ms"]) (simp add: ps(1) comp_def)
qed auto

text \<open>
  C8. For a description whose names fit, \<open>AdvertiseAndReply\<close> sends, in the order of the description, exactly the
  packets that are due.  A call that announces, withdraws or answers a search for everything sends for each device
  its UDN and its type, for the root device before them the name of a root device, and then the type of each of its
  services; the answer to another search has the name of a root device once, or the UDN of the device whose UDN is
  sought, or the type of each device or service of the type sought.  Each packet goes out twice; it is
  the text printed for the two header values of its name, and the parser of the other side reads it as that
  message with the UDN of the device, the kind of the target, the device type or service type, the expiration
  time and the location.
\<close>

theorem AdvertiseAndReply_announces:
  assumes "device_info T Hnd = Some SInfo" "described SInfo ps"
    and "\<forall>i j. env_ok (E i j)" "\<forall>i j. list_all (part_ok (adv_host (E i j)) (DescURL SInfo) dur) ps" "target_ok AdFlag q"
    and "if AdFlag = 0 then MaxAge SInfo = int dur else Exp = int dur"
  shows "\<exists>ms. AdvertiseAndReply E T AdFlag Hnd q Exp = Some (UPNP_E_SUCCESS, copies (call_dest AdFlag q) ms) \<and>
    list_all2 (announces (call_kind AdFlag) (DescURL SInfo) dur Evt) (due_packets AdFlag q True ps) ms"
  using devices_call [OF assms(3,5) _ _ refl, where nodes = "DeviceList SInfo" and ps = ps and i = 0 and Exp = Exp and dur = dur and SInfo = SInfo and Evt = Evt]
    assms(1,2,4,6)
  by (auto simp: AdvertiseAndReply_def described_def)

section \<open>Registrations\<close>

text \<open>A record that \<open>describe_device\<close> has completed.\<close>

definition device_complete :: "Handle_Info \<Rightarrow> bool" where
  "device_complete i =
     (HType i = HND_DEVICE \<longrightarrow> Handle_Info.Callback i \<noteq> 0 \<and> length (DescURL i) < LINE_SIZE \<and>
      (case DescDocument i of
         None \<Rightarrow> False
       | Some d \<Rightarrow> DeviceList i = getElementsByTagName ''device'' d \<and> DeviceList i \<noteq> [] \<and>
           ServiceList i = getElementsByTagName ''serviceList'' d \<and> ServiceList i \<noteq> []))"

lemma describe_device_complete:
  assumes "describe_device e d i = Some (Inr i')" "HType i = HND_DEVICE" "Handle_Info.Callback i \<noteq> 0" "length (DescURL i) < LINE_SIZE"
    "DescDocument i = Some d"
  shows "HType i' = HND_DEVICE \<and> device_complete i'"
  using assms by (auto simp: describe_device_def device_complete_def Let_def split: if_split_asm Option.bind_split_asm)

lemma free_new_handle:
  "T ! nat h = None \<Longrightarrow> 1 \<le> h \<Longrightarrow> h < NUM_HANDLE \<Longrightarrow> wf_table T \<Longrightarrow> snd (FreeHandle (T[nat h := Some i]) h) = T"
  by (auto simp: FreeHandle_def wf_table_def NUM_HANDLE_def list_update_same_conv)

lemma block_of_length: "block_of n s = Some t \<Longrightarrow> t = s \<and> length t < n"
  by (auto simp: block_of_def split: if_split_asm)

text \<open>What both functions guarantee: a free handle gets a complete record, or nothing changes.\<close>

definition registers :: "handle_table \<Rightarrow> int \<times> int option \<times> handle_table \<Rightarrow> bool" where
  "registers T r = (case r of (rc, hnd, T') \<Rightarrow>
     (T' = T \<or> rc = UPNP_E_SUCCESS \<and> (\<exists>h i. hnd = Some h \<and> 1 \<le> h \<and> h < NUM_HANDLE - 1 \<and> T ! nat h = None \<and>
        T' = T[nat h := Some i] \<and> HType i = HND_DEVICE \<and> device_complete i)) \<and>
     (T' = T \<longrightarrow> rc \<noteq> UPNP_E_SUCCESS))"

lemma registers_error: "rc \<noteq> UPNP_E_SUCCESS \<Longrightarrow> registers T (rc, hnd, T)"
  by (simp add: registers_def)

lemma registers_success:
  assumes "1 \<le> h" "h < NUM_HANDLE - 1" "T ! nat h = None" "wf_table T" "HType i = HND_DEVICE" "device_complete i"
  shows "registers T (UPNP_E_SUCCESS, Some h, T[nat h := j, nat h := Some i])"
proof -
  have "(T[nat h := Some i]) ! nat h = Some i" using assms(1,2,4) by (simp add: wf_table_def NUM_HANDLE_def)
  then have "T[nat h := Some i] \<noteq> T" using assms(3) by auto
  then show ?thesis using assms by (auto simp: registers_def)
qed

lemma download_error: "UpnpDownloadXmlDoc p e u b = Some (rc, doc) \<Longrightarrow> doc = None \<Longrightarrow> rc \<noteq> UPNP_E_SUCCESS"
  by (auto simp: UpnpDownloadXmlDoc_def split: if_split_asm Option.bind_split_asm option.split_asm)

lemma load_error: "load_description e k s = Some (Inl rc) \<Longrightarrow> rc \<noteq> UPNP_E_SUCCESS"
  by (auto simp: load_description_def split: Upnp_DescType.split_asm if_split_asm Option.bind_split_asm option.split_asm)

lemma GetNameForAlias_error: "GetNameForAlias s = (rc, None) \<Longrightarrow> rc \<noteq> UPNP_E_SUCCESS"
  by (auto simp: GetNameForAlias_def split: option.split_asm if_split_asm)

lemma GetDescDocumentAndURL_error: "GetDescDocumentAndURL e k s b = Some (Inl rc) \<Longrightarrow> rc \<noteq> UPNP_E_SUCCESS"
  by (auto simp: GetDescDocumentAndURL_def dest: load_error GetNameForAlias_error
      split: option.split_asm if_split_asm Option.bind_split_asm sum.split_asm prod.split_asm)

lemma GetDescDocumentAndURL_fits: "GetDescDocumentAndURL e k s b = Some (Inr (d, url, al)) \<Longrightarrow> length url < LINE_SIZE"
  by (auto simp: GetDescDocumentAndURL_def LINE_SIZE_def
      split: option.split_asm if_split_asm Option.bind_split_asm sum.split_asm prod.split_asm)

lemma describe_device_error: "describe_device e d i = Some (Inl rc) \<Longrightarrow> rc \<noteq> UPNP_E_SUCCESS"
  by (auto simp: describe_device_def Let_def split: if_split_asm Option.bind_split_asm)

lemma UpnpRegisterRootDevice_registers:
  assumes "wf_table T" "UpnpRegisterRootDevice sdk e T url Fun ck null = Some r"
  shows "registers T r"
proof (cases "sdk \<noteq> 1 \<or> url = None \<or> null \<or> Fun = 0 \<or> url = Some [] \<or> GetFreeHandle T = UPNP_E_OUTOF_HANDLE \<or> \<not> rinfo_ok e")
  case True
  then show ?thesis using assms(2)
    by (auto simp: UpnpRegisterRootDevice_def Let_def intro: registers_error split: option.split_asm if_split_asm)
next
  case False
  then obtain u where u: "url = Some u" "u \<noteq> []" by auto
  let ?h = "GetFreeHandle T"
  have h: "1 \<le> ?h" "?h < NUM_HANDLE - 1" "T ! nat ?h = None" using GetFreeHandle_spec [of T] False by auto
  let ?i = "new_device Fun ck (rinfo e)\<lparr>DescURL := u, DescDocument := None\<rparr>"
  have f: "snd (FreeHandle (T[nat ?h := j]) ?h) = T" if "j = Some i" for i j
    using free_new_handle [OF h(3,1) _ assms(1)] h(2) that by simp
  obtain v rc doc where d: "block_of LINE_SIZE u = Some v"
    "UpnpDownloadXmlDoc (UpnpParse_Buffer (rdesc e)) (conn (rdesc e)) (Some v) True = Some (rc, doc)"
    using assms(2) False u by (auto simp: UpnpRegisterRootDevice_def Let_def split: Option.bind_split_asm)
  have v: "v = u" "length u < LINE_SIZE" using block_of_length [OF d(1)] by auto
  note run = assms(2) [unfolded UpnpRegisterRootDevice_def] False u d v(1)
  show ?thesis
  proof (cases "rc = UPNP_E_SUCCESS \<and> doc \<noteq> None")
    case True
    then obtain x where x: "doc = Some x" by auto
    obtain q where q: "describe_device e x (?i\<lparr>DescDocument := Some x\<rparr>) = Some q"
      using run True x by (auto simp: Let_def split: Option.bind_split_asm)
    show ?thesis
    proof (cases q)
      case (Inl err)
      then have "r = (err, Some ?h, T)" using run True x q f by (simp add: Let_def)
      then show ?thesis using registers_error [OF describe_device_error [OF q [unfolded Inl]]] by simp
    next
      case (Inr i)
      then have "r = (UPNP_E_SUCCESS, Some ?h, T[nat ?h := Some ?i, nat ?h := Some i])"
        using run True x q by (simp add: Let_def)
      moreover have "HType i = HND_DEVICE \<and> device_complete i"
        by (rule describe_device_complete [OF q [unfolded Inr]]) (use v False in \<open>simp_all add: new_device_def\<close>)
      ultimately show ?thesis using registers_success [OF h assms(1), of i] by simp
    qed
  next
    case False
    then have "rc \<noteq> UPNP_E_SUCCESS" using download_error [OF d(2)] by auto
    moreover have "r = (rc, Some ?h, T)" using run calculation f by (cases doc) (simp_all add: Let_def)
    ultimately show ?thesis by (simp add: registers_error)
  qed
qed

lemma UpnpRegisterRootDevice2_registers:
  assumes "wf_table T" "UpnpRegisterRootDevice2 sdk e T k s cfg Fun ck null = Some r"
  shows "registers T r"
proof (cases "sdk \<noteq> 1 \<or> null \<or> Fun = 0 \<or> GetFreeHandle T = UPNP_E_OUTOF_HANDLE \<or> \<not> rinfo_ok e")
  case True
  then show ?thesis using assms(2)
    by (auto simp: UpnpRegisterRootDevice2_def Let_def intro: registers_error split: if_split_asm)
next
  case False
  let ?h = "GetFreeHandle T" and ?i0 = "(rinfo e)\<lparr>aliasInstalled := False\<rparr>"
  have h: "1 \<le> ?h" "?h < NUM_HANDLE - 1" "T ! nat ?h = None" using GetFreeHandle_spec [of T] False by auto
  have f: "snd (FreeHandle (T[nat ?h := Some ?i0]) ?h) = T"
    using free_new_handle [OF h(3,1) _ assms(1)] h(2) by simp
  obtain y where y: "GetDescDocumentAndURL (rdesc e) k s cfg = Some y"
    using assms(2) False by (auto simp: UpnpRegisterRootDevice2_def Let_def split: Option.bind_split_asm)
  note run = assms(2) [unfolded UpnpRegisterRootDevice2_def] False y
  show ?thesis
  proof (cases y)
    case (Inl err)
    then have "r = (err, Some ?h, T)" using run f by (simp add: Let_def)
    then show ?thesis using registers_error [OF GetDescDocumentAndURL_error [OF y [unfolded Inl]]] by simp
  next
    case (Inr z)
    obtain x url al where z: "z = (x, url, al)" by (cases z)
    define i where "i = new_device Fun ck (rinfo e)\<lparr>aliasInstalled := cfg, DescDocument := Some x,
      DescURL := url, DescAlias := (case al of None \<Rightarrow> DescAlias (rinfo e) | Some a \<Rightarrow> a)\<rparr>"
    have len: "length url < LINE_SIZE" using GetDescDocumentAndURL_fits y Inr z by blast
    obtain q where q: "describe_device e x i = Some q"
      using run Inr z by (auto simp: Let_def i_def split: Option.bind_split_asm)
    show ?thesis
    proof (cases q)
      case (Inl err)
      then have "r = (err, Some ?h, T)" using run Inr z q f by (simp add: Let_def i_def)
      then show ?thesis using registers_error [OF describe_device_error [OF q [unfolded Inl]]] by simp
    next
      case (Inr j)
      then have "r = (UPNP_E_SUCCESS, Some ?h, T[nat ?h := Some ?i0, nat ?h := Some j])"
        using run \<open>y = Inr z\<close> z q by (simp add: Let_def i_def)
      moreover have "HType j = HND_DEVICE \<and> device_complete j"
        by (rule describe_device_complete [OF q [unfolded Inr]]) (use len False in \<open>simp_all add: new_device_def i_def\<close>)
      ultimately show ?thesis using registers_success [OF h assms(1), of j] by simp
    qed
  qed
qed

text \<open>The record of a new device: what the caller gave, the defaults, the document, its lists, and its service table.\<close>

definition new_record :: "reg_env \<Rightarrow> dom \<Rightarrow> string \<Rightarrow> nat \<Rightarrow> nat \<Rightarrow> Handle_Info \<Rightarrow> bool" where
  "new_record e d url Fun cookie i =
     (HType i = HND_DEVICE \<and> Handle_Info.Callback i = Fun \<and> Cookie i = cookie \<and> MaxAge i = DEFAULT_MAXAGE \<and>
      MaxSubscriptions i = UPNP_INFINITE \<and> MaxSubscriptionTimeOut i = UPNP_INFINITE \<and> ClientSubList i = [] \<and>
      DescDocument i = Some d \<and> DescURL i = url \<and>
      DeviceList i = getElementsByTagName ''device'' d \<and> ServiceList i = getElementsByTagName ''serviceList'' d \<and>
      (\<exists>found. getServiceTable getElementsByTagName (rmalloc e) (rnames e) (ruri e) d (ServiceTable (rinfo e)) (Some url) =
         Some (found, ServiceTable i)))"

text \<open>What a registration needs: a description that can be had, with a device and a service list in it.\<close>

definition description_ok :: "reg_env \<Rightarrow> Upnp_DescType \<Rightarrow> string option \<Rightarrow> bool \<Rightarrow> bool" where
  "description_ok e k s cfg = (case GetDescDocumentAndURL (rdesc e) k s cfg of
     Some (Inr (d, url, al)) \<Rightarrow> getElementsByTagName ''device'' d \<noteq> [] \<and> getElementsByTagName ''serviceList'' d \<noteq> []
   | _ \<Rightarrow> False)"

lemma GetFreeHandle_least:
  assumes "GetFreeHandle T \<noteq> UPNP_E_OUTOF_HANDLE"
  shows "1 \<le> GetFreeHandle T \<and> GetFreeHandle T < NUM_HANDLE - 1 \<and> T ! nat (GetFreeHandle T) = None \<and>
    (\<forall>j. 1 \<le> j \<and> j < GetFreeHandle T \<longrightarrow> handle_get T j \<noteq> None)"
  using GetFreeHandle_spec [of T] assms by (auto simp: handle_get_def NUM_HANDLE_def)

lemma describe_device_record:
  assumes "describe_device e d i = Some q" "DescDocument i = Some d"
  shows "if getElementsByTagName ''device'' d = [] \<or> getElementsByTagName ''serviceList'' d = [] then \<exists>err. q = Inl err
    else \<exists>found st. getServiceTable getElementsByTagName (rmalloc e) (rnames e) (ruri e) d (ServiceTable i) (Some (DescURL i)) =
        Some (found, st) \<and>
      q = Inr (i\<lparr>DeviceList := getElementsByTagName ''device'' d, ServiceList := getElementsByTagName ''serviceList'' d,
        ServiceTable := st\<rparr>)"
  using assms by (auto simp: describe_device_def Let_def split: if_split_asm Option.bind_split_asm)

text \<open>The steps of a registration that gets as far as the description.\<close>

lemma UpnpRegisterRootDevice2_described:
  assumes "wf_table T" "UpnpRegisterRootDevice2 1 e T k s cfg Fun ck False = Some (rc, hnd, T')" "Fun \<noteq> 0"
    and "GetFreeHandle T \<noteq> UPNP_E_OUTOF_HANDLE" "rinfo_ok e"
    and "GetDescDocumentAndURL (rdesc e) k s cfg = Some (Inr (d, url, al))"
  shows "if description_ok e k s cfg
    then rc = UPNP_E_SUCCESS \<and> hnd = Some (GetFreeHandle T) \<and> (\<exists>i. T' = T[nat (GetFreeHandle T) := Some i] \<and>
      new_record e d url Fun ck i \<and> aliasInstalled i = cfg \<and> (\<forall>a. al = Some a \<longrightarrow> DescAlias i = a))
    else rc \<noteq> UPNP_E_SUCCESS \<and> T' = T"
proof -
  let ?h = "GetFreeHandle T"
  define i where "i = new_device Fun ck (rinfo e)\<lparr>aliasInstalled := cfg, DescDocument := Some d,
    DescURL := url, DescAlias := (case al of None \<Rightarrow> DescAlias (rinfo e) | Some a \<Rightarrow> a)\<rparr>"
  have f: "snd (FreeHandle (T[nat ?h := Some j]) ?h) = T" for j
    using free_new_handle [of T ?h j] GetFreeHandle_least [OF assms(4)] assms(1) by simp
  obtain q where q: "describe_device e d i = Some q"
    using assms(2-6) by (auto simp: UpnpRegisterRootDevice2_def Let_def i_def split: Option.bind_split_asm)
  note run = assms(2) [unfolded UpnpRegisterRootDevice2_def]
  have i: "DescDocument i = Some d" "DescURL i = url" "ServiceTable i = ServiceTable (rinfo e)"
    by (simp_all add: i_def new_device_def)
  show ?thesis
  proof (cases q)
    case (Inl err)
    then have "\<not> description_ok e k s cfg"
      using describe_device_record [OF q i(1)] assms(6) by (auto simp: description_ok_def split: if_split_asm)
    moreover have "rc = err" "T' = T" using run assms(3-6) q f Inl by (auto simp: Let_def i_def)
    ultimately show ?thesis using describe_device_error [OF q [unfolded Inl]] by simp
  next
    case (Inr j)
    have rec: "new_record e d url Fun ck j" "aliasInstalled j = cfg" "\<forall>a. al = Some a \<longrightarrow> DescAlias j = a"
      using describe_device_record [OF q i(1)] i Inr by (auto simp: new_record_def i_def new_device_def split: if_split_asm)
    moreover have "description_ok e k s cfg"
      using describe_device_record [OF q i(1)] assms(6) Inr by (auto simp: description_ok_def split: if_split_asm)
    moreover have "rc = UPNP_E_SUCCESS" "hnd = Some ?h" "T' = T[nat ?h := Some j]" using run assms(3-6) q Inr by (auto simp: Let_def i_def)
    ultimately show ?thesis by auto
  qed
qed

lemma UpnpRegisterRootDevice2_undescribed:
  assumes "wf_table T" "UpnpRegisterRootDevice2 1 e T k s cfg Fun ck False = Some (rc, hnd, T')" "Fun \<noteq> 0"
    and "GetFreeHandle T \<noteq> UPNP_E_OUTOF_HANDLE" "rinfo_ok e" "GetDescDocumentAndURL (rdesc e) k s cfg = Some (Inl err)"
  shows "rc \<noteq> UPNP_E_SUCCESS \<and> T' = T \<and> \<not> description_ok e k s cfg"
proof -
  have "snd (FreeHandle (T[nat (GetFreeHandle T) := Some j]) (GetFreeHandle T)) = T" for j
    using free_new_handle [of T "GetFreeHandle T" j] GetFreeHandle_least [OF assms(4)] assms(1) by simp
  then have "rc = err" "T' = T" using assms(2-6) by (auto simp: UpnpRegisterRootDevice2_def Let_def)
  then show ?thesis using GetDescDocumentAndURL_error [OF assms(6)] assms(6) by (simp add: description_ok_def)
qed

text \<open>
  C15. A registration with a description succeeds exactly when the library runs, it was given a callback and a place for
  the handle, a handle is free, the record can be allocated, and the description can be had and has a device and a
  service list.  It then returns the least free handle, which from now on names a device with what the caller gave, the
  default limits, the document, its devices and service lists and the service table read from it; no other handle changes.
  When it fails, the table is as it was.
\<close>

theorem UpnpRegisterRootDevice2_effect:
  assumes "wf_table T" "UpnpRegisterRootDevice2 sdk e T k s cfg Fun ck null = Some (rc, hnd, T')"
  shows "(rc = UPNP_E_SUCCESS \<longleftrightarrow> sdk = 1 \<and> \<not> null \<and> Fun \<noteq> 0 \<and> (\<exists>h. 1 \<le> h \<and> h < NUM_HANDLE - 1 \<and> handle_get T h = None) \<and>
      rinfo_ok e \<and> description_ok e k s cfg) \<and>
    (if rc = UPNP_E_SUCCESS
     then \<exists>h i d url al. hnd = Some h \<and> 1 \<le> h \<and> h < NUM_HANDLE - 1 \<and> handle_get T h = None \<and>
       (\<forall>j. 1 \<le> j \<and> j < h \<longrightarrow> handle_get T j \<noteq> None) \<and>
       GetDescDocumentAndURL (rdesc e) k s cfg = Some (Inr (d, url, al)) \<and> handle_get T' h = Some i \<and>
       new_record e d url Fun ck i \<and> aliasInstalled i = cfg \<and> (\<forall>a. al = Some a \<longrightarrow> DescAlias i = a) \<and>
       (\<forall>j. j \<noteq> h \<longrightarrow> handle_get T' j = handle_get T j)
     else T' = T)"
proof (cases "sdk = 1 \<and> \<not> null \<and> Fun \<noteq> 0 \<and> GetFreeHandle T \<noteq> UPNP_E_OUTOF_HANDLE \<and> rinfo_ok e")
  case False
  have "handle_get T h \<noteq> None" if "GetFreeHandle T = UPNP_E_OUTOF_HANDLE" "1 \<le> h" "h < NUM_HANDLE - 1" for h
    using GetFreeHandle_spec [of T] that by (auto simp: handle_get_def NUM_HANDLE_def)
  then show ?thesis using False assms(2)
    by (auto simp: UpnpRegisterRootDevice2_def Let_def split: if_split_asm)
next
  case True
  let ?h = "GetFreeHandle T"
  have h: "1 \<le> ?h" "?h < NUM_HANDLE - 1" "T ! nat ?h = None" "handle_get T ?h = None" "\<forall>j. 1 \<le> j \<and> j < ?h \<longrightarrow> handle_get T j \<noteq> None"
    using GetFreeHandle_least [of T] True by (auto simp: handle_get_def)
  obtain y where y: "GetDescDocumentAndURL (rdesc e) k s cfg = Some y"
    using assms(2) True by (auto simp: UpnpRegisterRootDevice2_def Let_def split: Option.bind_split_asm)
  show ?thesis
  proof (cases y)
    case (Inl err)
    have "UpnpRegisterRootDevice2 1 e T k s cfg Fun ck False = Some (rc, hnd, T')" using assms(2) True by simp
    then show ?thesis using UpnpRegisterRootDevice2_undescribed [OF assms(1) _ _ _ _ y [unfolded Inl]] True by auto
  next
    case (Inr z)
    obtain d url al where z: "z = (d, url, al)" by (cases z)
    note got = y [unfolded Inr z]
    have run: "UpnpRegisterRootDevice2 1 e T k s cfg Fun ck False = Some (rc, hnd, T')" using assms(2) True by simp
    have r: "if description_ok e k s cfg
      then rc = UPNP_E_SUCCESS \<and> hnd = Some ?h \<and> (\<exists>i. T' = T[nat ?h := Some i] \<and>
        new_record e d url Fun ck i \<and> aliasInstalled i = cfg \<and> (\<forall>a. al = Some a \<longrightarrow> DescAlias i = a))
      else rc \<noteq> UPNP_E_SUCCESS \<and> T' = T"
      by (rule UpnpRegisterRootDevice2_described [OF assms(1) run _ _ _ got]) (use True in auto)
    show ?thesis
    proof (cases "description_ok e k s cfg")
      case ok: True
      then obtain i where i: "rc = UPNP_E_SUCCESS" "hnd = Some ?h" "T' = T[nat ?h := Some i]"
          "new_record e d url Fun ck i" "aliasInstalled i = cfg" "\<forall>a. al = Some a \<longrightarrow> DescAlias i = a"
        using r by auto
      have g: "handle_get T' ?h = Some i" "\<forall>j. j \<noteq> ?h \<longrightarrow> handle_get T' j = handle_get T j"
        using i(3) h(1,2) assms(1) by (auto simp: handle_get_def wf_table_def NUM_HANDLE_def nth_list_update)
      show ?thesis using True ok i h g got by auto
    qed (use r in auto)
  qed
qed

section \<open>The records of the table\<close>

text \<open>The tables that the calls of the API can lead to; the GENA calls change subscriptions only.\<close>

inductive api_reachable :: "handle_table \<Rightarrow> bool" where
  Init_Table: "api_reachable InitHandleList"
| New_Device: "api_reachable T \<Longrightarrow> UpnpRegisterRootDevice sdk e T url Fun ck null = Some (rc, hnd, T') \<Longrightarrow> api_reachable T'"
| New_Device2: "api_reachable T \<Longrightarrow> UpnpRegisterRootDevice2 sdk e T k s cfg Fun ck null = Some (rc, hnd, T') \<Longrightarrow> api_reachable T'"
| New_Client: "api_reachable T \<Longrightarrow> UpnpRegisterClient sdk ok i0 T Fun ck null = (rc, hnd, T') \<Longrightarrow> api_reachable T'"
| Released: "api_reachable T \<Longrightarrow> api_reachable (snd (FreeHandle T h))"
| Limited: "api_reachable T \<Longrightarrow> UpnpSetMaxSubscriptions T h n = (rc, T') \<Longrightarrow> api_reachable T'"
| Time_Limited: "api_reachable T \<Longrightarrow> UpnpSetMaxSubscriptionTimeOut T h n = (rc, T') \<Longrightarrow> api_reachable T'"
| Advertised: "api_reachable (av_handles a) \<Longrightarrow> UpnpSendAdvertisement E A t h n a = Some (r, a') \<Longrightarrow> api_reachable (av_handles a')"
| Subscribed: "api_reachable T \<Longrightarrow>
    api_reachable (T[nat h := map_option (\<lambda>i. i\<lparr>ServiceTable := st, ClientSubList := cs\<rparr>) (T ! nat h)])"

definition entries_ok :: "handle_table \<Rightarrow> bool" where
  "entries_ok T = (\<forall>i. Some i \<in> set T \<longrightarrow> device_complete i)"

lemma entries_put: "entries_ok T \<Longrightarrow> device_complete i \<Longrightarrow> entries_ok (T[n := Some i])"
  using set_update_subset_insert [of T n "Some i"] by (auto simp: entries_ok_def)

lemma entries_clear: "entries_ok T \<Longrightarrow> entries_ok (T[n := None])"
  using set_update_subset_insert [of T n None] by (auto simp: entries_ok_def)

lemma entries_change:
  assumes "entries_ok T" "\<And>i. device_complete i \<Longrightarrow> device_complete (f i)"
  shows "entries_ok (T[n := map_option f (T ! n)])"
proof (cases "n < length T")
  case True
  show ?thesis
  proof (cases "T ! n")
    case None
    then show ?thesis using entries_clear [OF assms(1)] by simp
  next
    case (Some i)
    then have "Some i \<in> set T" using True by (metis nth_mem)
    then have "device_complete (f i)" using assms by (auto simp: entries_ok_def)
    from entries_put [OF assms(1) this, of n] show ?thesis using Some by simp
  qed
qed (use assms(1) in \<open>simp add: list_update_beyond\<close>)

lemma entries_registers: "entries_ok T \<Longrightarrow> registers T (rc, hnd, T') \<Longrightarrow> entries_ok T'"
  by (auto simp: registers_def intro: entries_put)

lemma wf_registers: "wf_table T \<Longrightarrow> registers T (rc, hnd, T') \<Longrightarrow> wf_table T'"
  by (auto simp: registers_def wf_table_def)

lemma client_complete: "HType i = HND_CLIENT \<Longrightarrow> device_complete i"
  by (simp add: device_complete_def)

text \<open>The fields that do not matter.\<close>

lemma device_complete_change:
  "device_complete i \<Longrightarrow> device_complete (i\<lparr>MaxSubscriptions := n\<rparr>)"
  "device_complete i \<Longrightarrow> device_complete (i\<lparr>MaxSubscriptionTimeOut := n\<rparr>)"
  "device_complete i \<Longrightarrow> device_complete (i\<lparr>MaxAge := n\<rparr>)"
  "device_complete i \<Longrightarrow> device_complete (i\<lparr>ServiceTable := st, ClientSubList := cs\<rparr>)"
  by (auto simp: device_complete_def split: option.splits)

lemma UpnpRegisterClient_entries:
  assumes "UpnpRegisterClient sdk ok i0 T Fun ck null = (rc, hnd, T')" "wf_table T \<and> entries_ok T"
  shows "wf_table T' \<and> entries_ok T'"
proof -
  have "T' = T \<or> T' = T[nat (GetFreeHandle T) := Some (i0\<lparr>HType := HND_CLIENT, Handle_Info.Callback := Fun, Cookie := ck,
      MaxAge := 0, ClientSubList := [], MaxSubscriptions := UPNP_INFINITE, MaxSubscriptionTimeOut := UPNP_INFINITE\<rparr>)]"
    using assms(1) by (auto simp: UpnpRegisterClient_def Let_def split: if_split_asm)
  then show ?thesis using assms(2) entries_put client_complete by (elim disjE) (simp_all add: wf_table_def)
qed

lemma UpnpSendAdvertisement_handles: "UpnpSendAdvertisement E A t h n a = Some (r, a') \<Longrightarrow>
    av_handles a' = av_handles a \<or> (\<exists>m. av_handles a' = set_max_age h m (av_handles a))"
  by (auto simp: UpnpSendAdvertisement_def Let_def split: if_split_asm Option.bind_split_asm prod.split_asm option.split_asm)

lemma api_reachable_ok: "api_reachable T \<Longrightarrow> wf_table T \<and> entries_ok T"
proof (induction rule: api_reachable.induct)
  case Init_Table
  then show ?case using wf_InitHandleList by (auto simp: entries_ok_def InitHandleList_def)
next
  case New_Device
  then show ?case using UpnpRegisterRootDevice_registers entries_registers wf_registers by blast
next
  case New_Device2
  then show ?case using UpnpRegisterRootDevice2_registers entries_registers wf_registers by blast
next
  case (New_Client T sdk ok i0 Fun ck null rc hnd T')
  then show ?case using UpnpRegisterClient_entries by blast
next
  case (Released T h)
  then show ?case by (auto simp: FreeHandle_def wf_table_def intro: entries_clear)
next
  case (Limited T h n rc T')
  then show ?case
    by (auto simp: UpnpSetMaxSubscriptions_def wf_table_def intro!: entries_change device_complete_change split: if_split_asm)
next
  case (Time_Limited T h n rc T')
  then show ?case
    by (auto simp: UpnpSetMaxSubscriptionTimeOut_def wf_table_def intro!: entries_change device_complete_change split: if_split_asm)
next
  case (Advertised a E A t h n r a')
  then show ?case using UpnpSendAdvertisement_handles [OF Advertised(2)]
    by (auto simp: set_max_age_def wf_table_def intro!: entries_change device_complete_change)
next
  case (Subscribed T h st cs)
  then show ?case by (auto simp: wf_table_def intro!: entries_change device_complete_change)
qed

text \<open>
  C14. Whatever calls of the API have been made, without a memory fault, the table has its 200 slots, and every handle
  that names a device has a callback, a document, and the lists of devices and service lists of that
  document, neither of them empty.  Its URL fits its array: \<open>UpnpRegisterRootDevice2\<close> tests the length, while
  \<open>UpnpRegisterRootDevice\<close> copies without a test, so that a longer URL is a memory fault and ends the run.
\<close>

theorem handle_table_typed:
  assumes "api_reachable T" "handle_get T h = Some i" "HType i = HND_DEVICE"
  shows "length T = 200 \<and> Handle_Info.Callback i \<noteq> 0 \<and> length (DescURL i) < LINE_SIZE \<and>
    (\<exists>d. DescDocument i = Some d \<and> DeviceList i = getElementsByTagName ''device'' d \<and> DeviceList i \<noteq> [] \<and>
      ServiceList i = getElementsByTagName ''serviceList'' d \<and> ServiceList i \<noteq> [])"
proof -
  have ok: "wf_table T" "entries_ok T" using api_reachable_ok [OF assms(1)] by auto
  have "nat h < length T" "T ! nat h = Some i"
    using assms(2) ok(1) by (auto simp: handle_get_def wf_table_def split: if_split_asm)
  then have "Some i \<in> set T" by (metis nth_mem)
  then have "device_complete i" using ok(2) by (simp add: entries_ok_def)
  then show ?thesis using ok assms(3)
    by (auto simp: device_complete_def wf_table_def NUM_HANDLE_def split: option.split_asm)
qed

section \<open>Withdrawal and repetition\<close>

lemma device_infoD: "device_info T h = Some i \<Longrightarrow> 1 \<le> h \<and> h < NUM_HANDLE \<and> T ! nat h = Some i \<and> HType i = HND_DEVICE"
  by (auto simp: device_info_def GetHandleInfo_def split: if_split_asm)

lemma device_info_entry: "device_info T h = Some i \<Longrightarrow> wf_table T \<Longrightarrow> HType j = HND_DEVICE \<Longrightarrow> device_info (T[nat h := Some j]) h = Some j"
  using device_infoD [of T h i] by (auto simp: device_info_def GetHandleInfo_def wf_table_def NUM_HANDLE_def)

text \<open>
  C16. Unregistering a device announces the end of the device, its embedded devices and its services: the packets
  are those due for a withdrawal, each read as a byebye of the UDN with the name, the device type or the service
  type it withdraws.  Then the handle is free, and no other handle has changed.
\<close>

theorem UpnpUnRegisterRootDevice_withdraws:
  assumes "wf_table (handles g)" "device_info (handles g) Hnd = Some SInfo" "described SInfo ps" "MaxAge SInfo = int dur"
    and "\<forall>i j. env_ok (E i j)" "\<forall>i j. list_all (part_ok (adv_host (E i j)) (DescURL SInfo) dur) ps"
  shows "\<exists>ms al g'. UpnpUnRegisterRootDevice E Hnd g = Some ((UPNP_E_SUCCESS, copies multicast ms), al, g') \<and>
    list_all2 (announces 0 (DescURL SInfo) dur Evt) (due_packets (- 1) no_target True ps) ms \<and>
    handle_get (handles g') Hnd = None \<and> (\<forall>k. k \<noteq> Hnd \<longrightarrow> handle_get (handles g') k = handle_get (handles g) k)"
proof -
  let ?i = "SInfo\<lparr>ServiceTable := (ServiceTable SInfo)\<lparr>serviceList := []\<rparr>\<rparr>"
  let ?T = "(handles g)[nat Hnd := Some ?i]"
  note d = device_infoD [OF assms(2)]
  have i: "device_info ?T Hnd = Some ?i" by (rule device_info_entry [OF assms(2,1)]) (use d in simp)
  have "described ?i ps" using assms(3) by (simp add: described_def)
  then obtain ms where ms: "devices_loop E (- 1) no_target (int dur) ?i 0 (DeviceList SInfo) = Some (copies multicast ms)"
    "list_all2 (announces 0 (DescURL SInfo) dur Evt) (due_packets (- 1) no_target True ps) ms"
    using devices_call [OF assms(5), of "- 1" no_target "int dur" dur ?i multicast "DeviceList SInfo" ps 0 Evt] assms(6)
    by (auto simp: described_def target_ok_def call_dest_def call_kind_def)
  have f: "handle_get (snd (FreeHandle ?T Hnd)) Hnd = None"
    "k \<noteq> Hnd \<Longrightarrow> handle_get (snd (FreeHandle ?T Hnd)) k = handle_get (handles g) k" for k
    using assms(1) d by (auto simp: FreeHandle_def handle_get_def wf_table_def NUM_HANDLE_def nth_list_update)
  have "GetHandleInfo ?T Hnd = Some HND_DEVICE" "?T ! nat Hnd = Some ?i"
    using device_infoD [OF i] by (auto simp: GetHandleInfo_def)
  then have "\<exists>al g'. UpnpUnRegisterRootDevice E Hnd g = Some ((UPNP_E_SUCCESS, copies multicast ms), al, g') \<and>
      handles g' = snd (FreeHandle ?T Hnd)"
    using ms(1) i assms(2,4)
    by (simp add: UpnpUnRegisterRootDevice_def genaUnregisterDevice_def AdvertiseAndReply_def Let_def)
  then show ?thesis using ms(2) f by metis
qed

text \<open>
  An announcement stores the expiration time in the record of the device, announces everything, and
  schedules its own repetition 30 seconds before it expires, with a record that names the device and the
  time.  A time of 30 seconds or less is due at once, and so is each repetition.
\<close>

theorem UpnpSendAdvertisement_repeats:
  assumes "wf_table (av_handles a)" "device_info (av_handles a) Hnd = Some SInfo" "described SInfo ps"
    and "(if Exp < 1 then DEFAULT_MAXAGE else Exp) = int dur" "A = (\<lambda>_. True)" "\<not> shutdown (av_timer a)"
    and "\<forall>i j. env_ok (E i j)" "\<forall>i j. list_all (part_ok (adv_host (E i j)) (DescURL SInfo) dur) ps"
  shows "\<exists>ms ev a'. UpnpSendAdvertisement E A current_time Hnd Exp a = Some ((UPNP_E_SUCCESS, copies multicast ms), a') \<and>
    list_all2 (announces 1 (DescURL SInfo) dur Evt) (due_packets 1 no_target True ps) ms \<and>
    device_info (av_handles a') Hnd = Some (SInfo\<lparr>MaxAge := int dur\<rparr>) \<and>
    eventQ (av_timer a') = insert_event ev (eventQ (av_timer a)) \<and> etime ev = current_time + int dur - 30 \<and>
    Timer.callback ev = auto_advertise_callback \<and> av_events a' (argument ev) = Some (Hnd, int dur) \<and>
    (dur \<le> 30 \<longrightarrow> etime ev \<le> current_time)"
proof -
  let ?i = "SInfo\<lparr>MaxAge := int dur\<rparr>"
  let ?e = "\<lparr>etime = current_time + (int dur - 30), callback = auto_advertise_callback, argument = av_next a,
    eventId = currentEventId (av_timer a)\<rparr>"
  note d = device_infoD [OF assms(2)]
  have T: "set_max_age Hnd (int dur) (av_handles a) = (av_handles a)[nat Hnd := Some ?i]"
    using d by (simp add: set_max_age_def)
  have i: "device_info ((av_handles a)[nat Hnd := Some ?i]) Hnd = Some ?i"
    by (rule device_info_entry [OF assms(2,1)]) (use d in simp)
  have "described ?i ps" using assms(3) by (simp add: described_def)
  then obtain ms where ms: "devices_loop E 1 no_target (int dur) ?i 0 (DeviceList SInfo) = Some (copies multicast ms)"
    "list_all2 (announces 1 (DescURL SInfo) dur Evt) (due_packets 1 no_target True ps) ms"
    using devices_call [OF assms(7), of 1 no_target "int dur" dur ?i multicast "DeviceList SInfo" ps 0 Evt] assms(8)
    by (auto simp: described_def target_ok_def call_dest_def call_kind_def)
  have "GetHandleInfo (av_handles a) Hnd = Some HND_DEVICE" using d by (simp add: GetHandleInfo_def)
  then have "\<exists>a'. UpnpSendAdvertisement E A current_time Hnd Exp a = Some ((UPNP_E_SUCCESS, copies multicast ms), a') \<and>
      av_handles a' = (av_handles a)[nat Hnd := Some ?i] \<and> eventQ (av_timer a') = insert_event ?e (eventQ (av_timer a)) \<and>
      av_events a' (av_next a) = Some (Hnd, int dur)"
    using ms(1) i assms(4-6)
    by (simp add: UpnpSendAdvertisement_def AdvertiseAndReply_def T ScheduleTimerEvent_def Let_def AUTO_ADVERTISEMENT_TIME_def)
  then obtain a' where "UpnpSendAdvertisement E A current_time Hnd Exp a = Some ((UPNP_E_SUCCESS, copies multicast ms), a')"
    "av_handles a' = (av_handles a)[nat Hnd := Some ?i]" "eventQ (av_timer a') = insert_event ?e (eventQ (av_timer a))"
    "av_events a' (av_next a) = Some (Hnd, int dur)" by auto
  then show ?thesis using ms(2) i by (intro exI [of _ ms] exI [of _ ?e] exI [of _ a']) simp
qed

section \<open>Examples\<close>

text \<open>A light with one service, its record, and the handle table that registers it.\<close>

definition text_element :: "string \<Rightarrow> string \<Rightarrow> dom" where
  "text_element n s = Element n [] [TextNode s]"

definition light_services :: dom where
  "light_services = Element ''serviceList'' [] [Element ''service'' [] [text_element ''serviceType'' ''urn:schemas-upnp-org:service:power:1'']]"

definition light_device :: dom where
  "light_device = Element ''device'' [] [text_element ''deviceType'' ''urn:schemas-upnp-org:device:light:1'',
     text_element ''UDN'' ''uuid:1234-ab'', light_services]"

definition light_document :: dom where
  "light_document = Element ''#document'' [] [Element ''root'' [] [light_device]]"

definition light_parts :: "part list" where
  "light_parts = [(''urn:schemas-upnp-org:device:light:1'', ''uuid:1234-ab'', [''urn:schemas-upnp-org:service:power:1''])]"

definition light_info :: Handle_Info where
  "light_info = (plain_info HND_DEVICE)\<lparr>MaxAge := 1800, DescURL := ''http://h/d.xml'', DescDocument := Some light_document,
     DeviceList := [light_device], ServiceList := [light_services]\<rparr>"

definition light_env :: adv_env where
  "light_env = \<lparr>adv_alloc = (\<lambda>_. True), adv_host = some_host, adv_net = some_net\<rparr>"

definition light_table :: handle_table where
  "light_table = InitHandleList[1 := Some light_info]"

text \<open>The four packets that announce the light or withdraw it, or answer a search for everything.\<close>

definition light_packets :: "(string \<times> announced_name) list" where
  "light_packets = map (Pair ''uuid:1234-ab'') [Root_Device, Device_Udn, Device_Type ''urn:schemas-upnp-org:device:light:1'',
     Service_Type ''urn:schemas-upnp-org:service:power:1'']"

lemma light_due: "AdFlag \<noteq> 0 \<or> SearchType q = SSDP_ALL \<Longrightarrow> due_packets AdFlag q True light_parts = light_packets"
  by (auto simp: light_parts_def light_packets_def device_names_wanted_def names_of_def service_wanted_def)

lemma light_described: "described light_info light_parts"
  by code_simp

lemma light_ok: "env_ok light_env" "list_all (part_ok (adv_host light_env) ''http://h/d.xml'' 1800) light_parts"
proof -
  show "env_ok light_env" by (simp add: env_ok_def light_env_def sends_all_def some_net_def)
  show "list_all (part_ok (adv_host light_env) ''http://h/d.xml'' 1800) light_parts" by code_simp
qed

lemma light_table_facts: "wf_table light_table" "device_info light_table 1 = Some light_info" "MaxAge light_info = 1800"
  "DescURL light_info = ''http://h/d.xml''"
  by (simp_all add: wf_table_def light_table_def InitHandleList_def NUM_HANDLE_def device_info_def GetHandleInfo_def
    light_info_def plain_info_def)

theorem AdvertiseAndReply_announces_witness:
  "\<exists>ms. AdvertiseAndReply (\<lambda>_ _. light_env) light_table 1 1 no_target 1800 = Some (UPNP_E_SUCCESS, copies multicast ms) \<and>
    list_all2 (announces 1 ''http://h/d.xml'' 1800 blank_event) light_packets ms"
  using AdvertiseAndReply_announces [OF light_table_facts(2) light_described, of "\<lambda>_ _. light_env" 1800 1 no_target 1800 blank_event]
    light_ok light_table_facts(4)
  by (auto simp: target_ok_def call_dest_def call_kind_def light_due)

text \<open>A registration with a buffer.\<close>

definition light_registration :: reg_env where
  "light_registration = \<lparr>rdesc = \<lparr>UpnpParse_Buffer = (\<lambda>_. Some light_document), files = (\<lambda>_. None), file_mem = True,
       urlbase = (\<lambda>d a s. (0, d, s, ''http://h/d.xml'')), conn = client_env\<rparr>,
     rnames = easy_env, ruri = blank_uri, rmalloc = (\<lambda>_. True), rinfo = plain_info HND_CLIENT, rinfo_ok = True\<rparr>"

lemma light_registered:
  obtains T' where "UpnpRegisterRootDevice2 1 light_registration InitHandleList UPNPREG_BUF_DESC (Some ''<root/>'') True 7 0 False =
      Some (UPNP_E_SUCCESS, Some 1, T')"
proof -
  let ?i = "new_device 7 0 (plain_info HND_CLIENT)\<lparr>aliasInstalled := True, DescDocument := Some light_document,
    DescURL := ''http://h/d.xml'', DescAlias := ''description.xml''\<rparr>"
  have "case describe_device light_registration light_document ?i of Some (Inr i) \<Rightarrow> True | _ \<Rightarrow> False"
    by code_simp
  then obtain i where "describe_device light_registration light_document ?i = Some (Inr i)"
    by (auto split: option.split_asm sum.split_asm)
  then show thesis
    using that by (auto simp: UpnpRegisterRootDevice2_def GetFreeHandle_Init light_registration_def GetDescDocumentAndURL_def
      load_description_def block_of_def LINE_SIZE_def Let_def)
qed

theorem UpnpRegisterRootDevice2_effect_witness:
  "\<exists>T' i. UpnpRegisterRootDevice2 1 light_registration InitHandleList UPNPREG_BUF_DESC (Some ''<root/>'') True 7 0 False =
      Some (UPNP_E_SUCCESS, Some 1, T') \<and> handle_get T' 1 = Some i \<and>
      new_record light_registration light_document ''http://h/d.xml'' 7 0 i \<and> aliasInstalled i"
proof -
  obtain T' where T: "UpnpRegisterRootDevice2 1 light_registration InitHandleList UPNPREG_BUF_DESC (Some ''<root/>'') True 7 0 False =
      Some (UPNP_E_SUCCESS, Some 1, T')" by (rule light_registered)
  have "GetDescDocumentAndURL (rdesc light_registration) UPNPREG_BUF_DESC (Some ''<root/>'') True =
      Some (Inr (light_document, ''http://h/d.xml'', Some ''description.xml''))"
    by (simp add: light_registration_def GetDescDocumentAndURL_def load_description_def block_of_def LINE_SIZE_def Let_def)
  then show ?thesis using UpnpRegisterRootDevice2_effect [OF wf_InitHandleList T] T by auto
qed

theorem handle_table_typed_witness:
  "\<exists>T i. api_reachable T \<and> handle_get T 1 = Some i \<and> HType i = HND_DEVICE \<and> length T = 200 \<and> DeviceList i \<noteq> []"
proof -
  obtain T' where T: "UpnpRegisterRootDevice2 1 light_registration InitHandleList UPNPREG_BUF_DESC (Some ''<root/>'') True 7 0 False =
      Some (UPNP_E_SUCCESS, Some 1, T')" by (rule light_registered)
  have r: "api_reachable T'" by (rule New_Device2 [OF Init_Table T])
  obtain i where i: "T' = InitHandleList[nat 1 := Some i]" "HType i = HND_DEVICE"
    using UpnpRegisterRootDevice2_registers [OF wf_InitHandleList T] by (auto simp: registers_def)
  then have "handle_get T' 1 = Some i" by (simp add: handle_get_def InitHandleList_def NUM_HANDLE_def)
  then show ?thesis using handle_table_typed [OF r _ i(2)] r i(2) by blast
qed

text \<open>The light is withdrawn, and announced by a thread that repeats it.\<close>

theorem UpnpUnRegisterRootDevice_withdraws_witness:
  "\<exists>ms al g'. UpnpUnRegisterRootDevice (\<lambda>_ _. light_env) 1 (lamp\<lparr>handles := light_table\<rparr>) =
      Some ((UPNP_E_SUCCESS, copies multicast ms), al, g') \<and>
    list_all2 (announces 0 ''http://h/d.xml'' 1800 blank_event) light_packets ms \<and> handle_get (handles g') 1 = None"
proof -
  let ?g = "lamp\<lparr>handles := light_table\<rparr>"
  obtain ms al g' where "UpnpUnRegisterRootDevice (\<lambda>_ _. light_env) 1 ?g = Some ((UPNP_E_SUCCESS, copies multicast ms), al, g')"
    "list_all2 (announces 0 (DescURL light_info) 1800 blank_event) (due_packets (- 1) no_target True light_parts) ms"
    "handle_get (handles g') 1 = None"
    using UpnpUnRegisterRootDevice_withdraws [of ?g 1 light_info light_parts 1800 "\<lambda>_ _. light_env" blank_event]
      light_table_facts light_described light_ok by auto
  then show ?thesis by (auto simp: light_due light_table_facts(4))
qed

definition light_advertiser :: advertiser where
  "light_advertiser = \<lparr>av_handles = light_table, av_timer = snd (InitTimerThread True), av_events = (\<lambda>_. None), av_next = 0\<rparr>"

theorem UpnpSendAdvertisement_repeats_witness:
  "\<exists>out a' ev. UpnpSendAdvertisement (\<lambda>_ _. light_env) (\<lambda>_. True) 1000 1 1800 light_advertiser = Some ((UPNP_E_SUCCESS, out), a') \<and>
     length out = 8 \<and> etime ev = 2770 \<and> eventQ (av_timer a') = [ev]"
proof -
  obtain ms ev a' where "UpnpSendAdvertisement (\<lambda>_ _. light_env) (\<lambda>_. True) 1000 1 1800 light_advertiser =
      Some ((UPNP_E_SUCCESS, copies multicast ms), a')"
    "list_all2 (announces 1 (DescURL light_info) 1800 blank_event) (due_packets 1 no_target True light_parts) ms"
    "eventQ (av_timer a') = insert_event ev (eventQ (av_timer light_advertiser))" "etime ev = 1000 + 1800 - 30"
    using UpnpSendAdvertisement_repeats [of light_advertiser 1 light_info light_parts 1800 1800 "\<lambda>_. True" "\<lambda>_ _. light_env" 1000 blank_event]
      light_table_facts light_described light_ok
    by (auto simp: light_advertiser_def InitTimerThread_def)
  moreover have "length ms = 4" using calculation(2)
    by (auto simp: light_due light_packets_def dest!: list_all2_lengthD)
  then have "length (copies multicast ms) = 8"
    by (auto simp: copies_def length_concat comp_def numeral_eq_Suc length_Suc_conv)
  ultimately show ?thesis by (auto simp: light_advertiser_def InitTimerThread_def)
qed

end
