(* ===== verification/Soap.thy ===== *)
theory Soap imports Api_Download begin

text \<open>
  The SOAP module (\<^verbatim>\<open>soap/soap.c\<close>): the text functions both sides share, and the client side, which sends an
  action or a query to a device and reads the answer.

  The XML parser and printer are the two functions of \<open>xml_lib\<close>; documents are the trees of \<open>dom\<close>.  A
  \<^verbatim>\<open>char *\<close> is the value of the C string, an array the string it holds; \<open>None\<close> is undefined behaviour.
\<close>

abbreviation (input) UPNP_E_INVALID_ACTION :: int where "UPNP_E_INVALID_ACTION \<equiv> - 115"

definition HEADER_LENGTH :: nat where "HEADER_LENGTH = 2000"
definition MIN_LEN :: nat where "MIN_LEN = 25"
definition XML_HEADER :: nat where "XML_HEADER = 300"

record xml_lib =
  xparse :: "string \<Rightarrow> dom option"
  xprint :: "dom \<Rightarrow> string option"

section \<open>Text\<close>

text \<open>1 when the first line contains \<^verbatim>\<open>200\<close>; the line is copied to an array of \<^verbatim>\<open>LINE_SIZE\<close> bytes.\<close>

definition GetBufferErrorCode :: "string \<Rightarrow> int option" where
  "GetBufferErrorCode Buffer = do {
     n \<leftarrow> strstr Buffer CRLF;
     if LINE_SIZE \<le> n then None else Some (if strstr (take n Buffer) ''200'' = None then - 1 else 1) }"

text \<open>The loop of \<^verbatim>\<open>strstrcase\<close>; the copy it compares is allocated and not tested.\<close>

fun find_nocase :: "string \<Rightarrow> string \<Rightarrow> nat option" where
  "find_nocase [] Tok = None"
| "find_nocase (c # cs) Tok =
     (if length (c # cs) < length Tok then None
      else if same_nocase (take (length Tok) (c # cs)) Tok then Some 0
      else map_option Suc (find_nocase cs Tok))"

definition strstrcase :: "bool \<Rightarrow> string \<Rightarrow> string \<Rightarrow> nat option option" where
  "strstrcase mem_ok Src Tok =
     (if \<not> mem_ok \<and> Src \<noteq> [] \<and> length Tok \<le> length Src then None else Some (find_nocase Src Tok))"

text \<open>
  The name of an action, from the header \<^verbatim>\<open>SOAPACTION\<close> (everything between the first \<^verbatim>\<open>#\<close> of the text and
  the first character that is not a letter or digit), or from the first tag of a document (from the
  first colon to the first blank).  \<open>Name\<close> is what the array of the caller holds before.
\<close>

definition GetActionName :: "bool \<Rightarrow> string \<Rightarrow> string \<Rightarrow> (int \<times> string) option" where
  "GetActionName mem_ok Header Name = do {
     p \<leftarrow> strstrcase mem_ok Header ''SOAPACTION'';
     (case p of
        Some _ \<Rightarrow>
          (case strstr Header ''#'' of
             None \<Rightarrow> Some (- 1, Name)
           | Some i \<Rightarrow> map_option (Pair 1) (block_of NAME_SIZE (takeWhile isalnum (drop (Suc i) Header))))
      | None \<Rightarrow>
          (case strstr Header ''<'' of
             None \<Rightarrow> Some (1, Name)
           | Some i \<Rightarrow>
               (case strstr (drop i Header) '':'' of
                  None \<Rightarrow> Some (- 1, Name)
                | Some j \<Rightarrow>
                    (let r = drop (i + j + 1) Header in
                     if SP \<in> set r then map_option (Pair 1) (block_of NAME_SIZE (takeWhile (\<lambda>c. c \<noteq> SP) r))
                     else None)))) }"

section \<open>Documents\<close>

definition first_child :: "dom \<Rightarrow> dom option" where
  "first_child d = (case dom_children d of [] \<Rightarrow> None | c # _ \<Rightarrow> Some c)"

text \<open>Name and value of a node; NULL for the other kinds, which the parser does not build.\<close>

definition node_name :: "dom \<Rightarrow> string option" where
  "node_name d = (case d of Element n _ _ \<Rightarrow> Some n | TextNode _ \<Rightarrow> Some ''#text'' | OtherNode \<Rightarrow> None)"

definition node_value :: "dom \<Rightarrow> string option" where
  "node_value d = (case d of TextNode v \<Rightarrow> Some v | _ \<Rightarrow> None)"

text \<open>A node as a document of its own: printed and parsed again.\<close>

definition as_document :: "xml_lib \<Rightarrow> dom \<Rightarrow> dom option" where
  "as_document X d = do { s \<leftarrow> xprint X d; xparse X s }"

definition GetNode :: "xml_lib \<Rightarrow> dom \<Rightarrow> string \<Rightarrow> dom option \<Rightarrow> int \<times> dom option" where
  "GetNode X TempDoc NodeName RespNode =
     (case getElementsByTagName NodeName TempDoc of
        [] \<Rightarrow> (- 1, RespNode)
      | TmpNode # _ \<Rightarrow> (1, as_document X TmpNode))"

text \<open>The node in an envelope: the first child of the first child of the first child of the document.\<close>

definition enveloped :: "dom \<Rightarrow> dom option" where
  "enveloped TempDoc = do { EnvpNode \<leftarrow> first_child TempDoc; BodyNode \<leftarrow> first_child EnvpNode; first_child BodyNode }"

definition GetActionNode :: "xml_lib \<Rightarrow> dom \<Rightarrow> string \<Rightarrow> int \<times> dom option" where
  "GetActionNode X TempDoc NodeName =
     (case enveloped TempDoc of
        None \<Rightarrow> (- 1, None)
      | Some ActNode \<Rightarrow>
          (case node_name ActNode of
             None \<Rightarrow> (- 1, None)
           | Some ActNodeName \<Rightarrow>
               if strstr ActNodeName NodeName = None then (- 1, None) else (1, as_document X ActNode)))"

text \<open>The text below the first element of a name.  An element without children is dereferenced as NULL.\<close>

definition GetNodeValue :: "dom \<Rightarrow> string \<Rightarrow> (int \<times> string option) option" where
  "GetNodeValue XmlDoc NodeName =
     (case getElementsByTagName NodeName XmlDoc of
        [] \<Rightarrow> Some (- 1, None)
      | RespNode # _ \<Rightarrow> do { temp \<leftarrow> first_child RespNode; Some (1, node_value temp) })"

section \<open>Sending an action\<close>

definition SOAP_BEGIN :: string where
  "SOAP_BEGIN = ''<s:Envelope xmlns:s='' @ [DQ] @ ''http://schemas.xmlsoap.org/soap/envelope/'' @ [DQ] @
     '' s:encodingStyle='' @ [DQ] @ ''http://schemas.xmlsoap.org/soap/encoding'' @ [DQ] @ ''><s:Body>''"

definition SOAP_END :: string where "SOAP_END = ''</s:Body></s:Envelope>''"

definition CreateControlRequest :: "nat \<Rightarrow> string \<Rightarrow> string option" where
  "CreateControlRequest room ActBuf = block_of room (SOAP_BEGIN @ ActBuf @ SOAP_END)"

text \<open>A token copied into an array of \<^verbatim>\<open>NAME_SIZE\<close> bytes, with a NUL stored behind it.\<close>

definition name_copy :: "mem \<Rightarrow> token \<Rightarrow> string option" where
  "name_copy M t = do {
     a \<leftarrow> strncpy_to (replicate NAME_SIZE NUL) (tok_bytes M t) (size_t (tsize t));
     if tsize t < int NAME_SIZE then Some (cstring (take (nat (tsize t)) a)) else None }"

definition GetHostHeader :: "cenv \<Rightarrow> string \<Rightarrow> (int \<times> (string \<times> string) option) option" where
  "GetHostHeader e CtrlUrl = do {
     n \<leftarrow> strlen (bytes_at (url_store CtrlUrl) (0, 0));
     (return_code, parsed_url) \<leftarrow> parse_uri (url_store CtrlUrl) (cuenv e) (0, 0) n (curi e);
     if return_code \<noteq> HTTP_SUCCESS then Some (return_code, None)
     else do {
       host \<leftarrow> name_copy (url_store CtrlUrl) (hp_text (hostport parsed_url));
       Path \<leftarrow> name_copy (url_store CtrlUrl) (pathquery parsed_url);
       Some (return_code, Some (host, Path)) } }"

definition action_request :: "string \<Rightarrow> string \<Rightarrow> string \<Rightarrow> string \<Rightarrow> string \<Rightarrow> string" where
  "action_request Path ServiceType ActName host xml =
     ''POST '' @ Path @ '' HTTP/1.0'' @ CRLF @ ''Content-Type: text/xml'' @ CRLF @
     ''SOAPACTION:'' @ [DQ] @ ServiceType @ ''#'' @ ActName @ [DQ] @ CRLF @
     ''Content-Length: '' @ dec_int (int (length xml) + 1) @ CRLF @ ''Host: '' @ host @ CRLF @ CRLF @ xml"

text \<open>What is made of the answer: the code and the document returned.\<close>

definition action_response :: "xml_lib \<Rightarrow> string \<Rightarrow> dom option \<Rightarrow> string \<Rightarrow> (int \<times> dom option) option" where
  "action_response X ActName RespNode RecvBuff =
     (case strstr RecvBuff (CRLF @ CRLF) of
        None \<Rightarrow> Some (UPNP_E_INVALID_ACTION, RespNode)
      | Some i \<Rightarrow>
          (case xparse X (drop (i + 4) RecvBuff) of
             None \<Rightarrow> Some (UPNP_E_INVALID_ACTION, RespNode)
           | Some XmlDoc \<Rightarrow> do {
               retCode \<leftarrow> GetBufferErrorCode RecvBuff;
               if 0 < retCode
               then (case GetActionNode X XmlDoc ActName of (r, RespNode) \<Rightarrow>
                 Some (if r < 0 \<or> RespNode = None then UPNP_E_INVALID_ACTION else UPNP_E_SUCCESS, RespNode))
               else (case GetNode X XmlDoc ''UPnPError'' RespNode of (r, RespNode) \<Rightarrow>
                 if 0 < r
                 then do { (_, NodeVal) \<leftarrow> GetNodeValue XmlDoc ''errorCode''; v \<leftarrow> NodeVal; Some (atoi v, RespNode) }
                 else Some (retCode, RespNode)) }))"

text \<open>The code, the document returned, and the bytes sent.\<close>

definition SoapSendAction ::
  "cenv \<Rightarrow> xml_lib \<Rightarrow> string \<Rightarrow> string \<Rightarrow> dom \<Rightarrow> dom option \<Rightarrow> (int \<times> dom option \<times> string) option" where
  "SoapSendAction e X ActionURL ServiceType ActNode RespNode =
     (case xprint X ActNode of
        None \<Rightarrow> Some (UPNP_E_INVALID_ACTION, RespNode, [])
      | Some ActBuf \<Rightarrow> do {
          (rc, ActName) \<leftarrow> GetActionName (calloc e 0) ActBuf [];
          if rc < 0 \<or> ActName = [] then Some (UPNP_E_INVALID_ACTION, RespNode, [])
          else if \<not> calloc e 1 then Some (UPNP_E_OUTOF_MEMORY, RespNode, [])
          else do {
            xml \<leftarrow> CreateControlRequest (length ActBuf + XML_HEADER) ActBuf;
            if \<not> calloc e 2 then Some (UPNP_E_OUTOF_MEMORY, RespNode, [])
            else do {
              (_, names) \<leftarrow> GetHostHeader e ActionURL;
              (case names of
                 None \<Rightarrow> Some (UPNP_E_INVALID_URL, RespNode, [])
               | Some (host, Path) \<Rightarrow> do {
                   rqst \<leftarrow> block_of (HEADER_LENGTH + length xml + 1) (action_request Path ServiceType ActName host xml);
                   (_, RecvBuff, sent) \<leftarrow> transferHTTPRaw (url_store ActionURL) (cuenv e) (curi e) (cnet e)
                     (rqst @ [NUL]) (int (length rqst) + 1) (0, 0);
                   (case RecvBuff of
                      None \<Rightarrow> Some (UPNP_E_INVALID_URL, None, sent)
                    | Some buf \<Rightarrow>
                        if MIN_LEN < length (cstring buf)
                        then map_option (\<lambda>(rc, RespNode). (rc, RespNode, sent)) (action_response X ActName RespNode (cstring buf))
                        else Some (UPNP_E_INVALID_URL, None, sent)) }) } } })"

section \<open>Querying a variable\<close>

definition QUERY_BEGIN :: string where
  "QUERY_BEGIN = ''<s:Envelope xmlns:s='' @ [DQ] @ ''http://schemas.xmlsoap.org/soap/envelope/'' @ [DQ] @
     '' s:encodingStyle='' @ [DQ] @ ''http://schemas.xmlsoap.org/soap/encoding'' @ [DQ] @
     ''><s:Body> <u:QueryStateVariable xmlns:u='' @ [DQ] @ ''urn:schemas-upnp-org:control-1-0'' @ [DQ] @ ''> <u:varName>''"

definition QUERY_END :: string where
  "QUERY_END = ''</u:varName> </u:QueryStateVariable> </s:Body> </s:Envelope>''"

definition CreateControlQueryMsg :: "string \<Rightarrow> string" where
  "CreateControlQueryMsg VarName = QUERY_BEGIN @ VarName @ QUERY_END"

text \<open>
  The headers and the document, written into a block of \<^verbatim>\<open>HEADER_LENGTH\<close> bytes and the length of the
  name; the digits of the length are then written over the five blanks left for them.
\<close>

definition query_request :: "string \<Rightarrow> string option" where
  "query_request VarName = do {
     let XmlPtr = CreateControlQueryMsg VarName;
     InBuff \<leftarrow> block_of (HEADER_LENGTH + length VarName)
       (''CONTENT-LENGTH:     '' @ CRLF @ ''CONTENT-TYPE:text/xml'' @ CRLF @
        ''SOAPACTION:urn:schemas-upnp-org:control-1-0#QueryStateVariable'' @ CRLF @ CRLF @ XmlPtr);
     LenBuf \<leftarrow> block_of 7 (dec_int (int (length XmlPtr) + 1));
     Some (take 15 InBuff @ LenBuf @ drop (15 + length LenBuf) InBuff) }"

text \<open>The code and the value; the inner option is NULL, the outer one that nothing is stored.\<close>

definition query_response :: "xml_lib \<Rightarrow> string \<Rightarrow> (int \<times> string option option) option" where
  "query_response X RecvBuff =
     (case strstr RecvBuff (CRLF @ CRLF) of
        None \<Rightarrow> Some (UPNP_E_INVALID_DESC, None)
      | Some i \<Rightarrow>
          (case xparse X (drop (i + 4) RecvBuff) of
             None \<Rightarrow> Some (UPNP_E_INVALID_DESC, None)
           | Some XmlDoc \<Rightarrow> do {
               RetVal \<leftarrow> GetBufferErrorCode RecvBuff;
               if 0 < RetVal
               then do { (_, Val) \<leftarrow> GetNodeValue XmlDoc ''return''; Some (UPNP_E_SUCCESS, Some Val) }
               else do {
                 (_, Val) \<leftarrow> GetNodeValue XmlDoc ''errorCode'';
                 v \<leftarrow> Val;
                 (_, Val) \<leftarrow> GetNodeValue XmlDoc ''errorDescription'';
                 Some (atoi v, Some Val) } }))"

definition SoapGetServiceVarStatus ::
  "cenv \<Rightarrow> xml_lib \<Rightarrow> string \<Rightarrow> string \<Rightarrow> (int \<times> string option option \<times> string) option" where
  "SoapGetServiceVarStatus e X ActionURL VarName =
     (if \<not> calloc e 0 then Some (UPNP_E_OUTOF_MEMORY, None, [])
      else do {
        InBuff \<leftarrow> query_request VarName;
        (_, RecvBuff, sent) \<leftarrow> transferHTTP (url_store ActionURL) (cuenv e) (curi e) (cnet e) ''POST''
          (InBuff @ [NUL]) (int (length InBuff) + 1) (0, 0);
        (case RecvBuff of
           None \<Rightarrow> Some (UPNP_E_INVALID_URL, Some None, sent)
         | Some buf \<Rightarrow>
             if MIN_LEN < length (cstring buf)
             then map_option (\<lambda>(rc, v). (rc, v, sent)) (query_response X (cstring buf))
             else Some (UPNP_E_INVALID_URL, Some None, sent)) })"

section \<open>The search without case\<close>

lemma find_nocase_short: "length s < length t \<Longrightarrow> find_nocase s t = None"
  by (cases s) auto

lemma same_nocase_Cons: "same_nocase (c # s) (d # t) \<longleftrightarrow> tolower c = tolower d \<and> same_nocase s t"
  by (simp add: same_nocase_def)

lemma same_nocase_set: "same_nocase s t \<Longrightarrow> tolower ` set s = tolower ` set t"
  unfolding same_nocase_def by (metis list.set_map)

lemma find_nocase_Suc: "find_nocase (c # s) t = (if length t \<le> Suc (length s) \<and> same_nocase (take (length t) (c # s)) t then Some 0
    else map_option Suc (find_nocase s t))"
  by (auto simp: find_nocase_short)

text \<open>
  \<open>strstrcase\<close> finds the first place where the text has the pattern, up to case, and none exactly when
  there is no such place.
\<close>

theorem strstrcase_first:
  assumes "Tok \<noteq> []"
  shows "\<exists>r. strstrcase True Src Tok = Some r \<and>
    (case r of
       None \<Rightarrow> \<forall>i. \<not> same_nocase (take (length Tok) (drop i Src)) Tok
     | Some i \<Rightarrow> same_nocase (take (length Tok) (drop i Src)) Tok \<and> (\<forall>j<i. \<not> same_nocase (take (length Tok) (drop j Src)) Tok))"
proof -
  have len: "same_nocase (take (length Tok) s) Tok \<Longrightarrow> length Tok \<le> length s" for s
    by (auto simp: same_nocase_def dest!: arg_cong [of _ _ length])
  have "case find_nocase Src Tok of
      None \<Rightarrow> \<forall>i. \<not> same_nocase (take (length Tok) (drop i Src)) Tok
    | Some i \<Rightarrow> same_nocase (take (length Tok) (drop i Src)) Tok \<and> (\<forall>j<i. \<not> same_nocase (take (length Tok) (drop j Src)) Tok)"
  proof (induction Src)
    case Nil
    then show ?case using assms by (simp add: same_nocase_def)
  next
    case (Cons c Src)
    show ?case
    proof (cases "same_nocase (take (length Tok) (c # Src)) Tok")
      case True
      then show ?thesis using len [OF True] by (simp add: find_nocase_Suc del: find_nocase.simps)
    next
      case False
      let ?P = "\<lambda>j. same_nocase (take (length Tok) (drop j (c # Src))) Tok"
      have all: "?P j \<Longrightarrow> \<exists>i. j = Suc i \<and> same_nocase (take (length Tok) (drop i Src)) Tok" for j
        using False by (cases j) auto
      have f: "find_nocase (c # Src) Tok = map_option Suc (find_nocase Src Tok)"
        using False by (simp add: find_nocase_Suc del: find_nocase.simps)
      show ?thesis
      proof (cases "find_nocase Src Tok")
        case None
        then show ?thesis using Cons all by (simp add: f del: find_nocase.simps) blast
      next
        case (Some i)
        then show ?thesis using Cons all by (simp add: f del: find_nocase.simps) fastforce
      qed
    qed
  qed
  then show ?thesis by (simp add: strstrcase_def)
qed

text \<open>A part without the pattern, ended by a character the pattern does not have, is skipped.\<close>

lemma find_nocase_skip:
  assumes "find_nocase u t = None" "tolower c \<notin> tolower ` set t" "t \<noteq> []"
  shows "find_nocase (u @ c # r) t = map_option ((+) (Suc (length u))) (find_nocase r t)"
  using assms(1)
proof (induction u)
  case Nil
  have "\<not> same_nocase (take (length t) (c # r)) t"
    using assms(2,3) by (cases t) (auto simp: same_nocase_Cons)
  then show ?case by (cases "find_nocase r t") (simp_all add: find_nocase_Suc del: find_nocase.simps)
next
  case (Cons x u)
  have "\<not> same_nocase (take (length t) (x # u @ c # r)) t"
  proof (cases "length t \<le> Suc (length u)")
    case True
    then have "take (length t) (x # u @ c # r) = take (length t) (x # u)" by (cases "length t") auto
    then show ?thesis using Cons.prems True by (auto simp: find_nocase_Suc simp del: find_nocase.simps split: if_split_asm)
  next
    case False
    then have "c \<in> set (take (length t) (x # u @ c # r))"
      by (auto simp: take_Cons' take_append split: if_split_asm)
    then show ?thesis using same_nocase_set assms(2) by blast
  qed
  moreover have "find_nocase u t = None"
    using Cons.prems by (auto simp: find_nocase_Suc simp del: find_nocase.simps split: if_split_asm)
  ultimately show ?case using Cons.IH
    by (cases "find_nocase r t") (simp_all add: find_nocase_Suc del: find_nocase.simps)
qed

lemma find_nocase_there: "t \<noteq> [] \<Longrightarrow> find_nocase (u @ t @ r) t \<noteq> None"
proof (induction u)
  case Nil
  then show ?case by (cases t) (auto simp: same_nocase_def)
qed (auto simp: find_nocase_Suc simp del: find_nocase.simps)

lemma find_nocase_missing: "d \<in> set t \<Longrightarrow> tolower d \<notin> tolower ` set s \<Longrightarrow> find_nocase s t = None"
proof (induction s)
  case (Cons c s)
  have "\<not> same_nocase (take (length t) (c # s)) t"
  proof
    assume "same_nocase (take (length t) (c # s)) t"
    then have "tolower d \<in> tolower ` set (take (length t) (c # s))" using same_nocase_set Cons.prems(1) by blast
    then show False using Cons.prems(2) by (meson image_mono set_take_subset subsetD)
  qed
  then show ?case using Cons by (simp add: find_nocase_Suc del: find_nocase.simps)
qed simp

section \<open>Requests and answers as text\<close>

lemma strstr_blank_line: "CR \<notin> set l \<Longrightarrow> strstr (l @ CR # LF # r) [CR, LF, CR, LF] =
    (if take 2 r = [CR, LF] then Some (length l) else map_option ((+) (length l + 2)) (strstr r [CR, LF, CR, LF]))"
proof -
  have n: "strstr (LF # r) [CR, LF, CR, LF] = map_option Suc (strstr r [CR, LF, CR, LF])" by simp
  show "CR \<notin> set l \<Longrightarrow> ?thesis"
    by (induction l; cases "strstr r [CR, LF, CR, LF]") (auto simp: n numeral_2_eq_2)
qed

text \<open>Lines without CR, none of them empty, and a body.\<close>

lemma body_found: "\<forall>l\<in>set ls. CR \<notin> set l \<and> l \<noteq> [] \<Longrightarrow> ls \<noteq> [] \<Longrightarrow>
    \<exists>i. strstr (concat (map (\<lambda>l. l @ CRLF) ls) @ CRLF @ body) (CRLF @ CRLF) = Some i \<and>
      drop (i + 4) (concat (map (\<lambda>l. l @ CRLF) ls) @ CRLF @ body) = body"
proof (induction ls)
  case (Cons l ls)
  show ?case
  proof (cases ls)
    case Nil
    then show ?thesis using Cons.prems strstr_blank_line [of l "CR # LF # body"] by (simp add: CRLF_def)
  next
    case (Cons k ks)
    then have "take 2 (concat (map (\<lambda>l. l @ CRLF) ls) @ CRLF @ body) \<noteq> [CR, LF]"
      using Cons.prems by (cases k) auto
    moreover obtain i where i: "strstr (concat (map (\<lambda>l. l @ CRLF) ls) @ CRLF @ body) (CRLF @ CRLF) = Some i"
      "drop (i + 4) (concat (map (\<lambda>l. l @ CRLF) ls) @ CRLF @ body) = body"
      using Cons.IH Cons.prems Cons by auto
    ultimately have "strstr (l @ CR # LF # concat (map (\<lambda>l. l @ CRLF) ls) @ CRLF @ body) (CRLF @ CRLF) = Some (length l + 2 + i)"
      using strstr_blank_line [of l "concat (map (\<lambda>l. l @ CRLF) ls) @ CRLF @ body"] Cons.prems by (simp add: CRLF_def)
    moreover have "drop (length l + 2 + i + 4) (l @ CR # LF # r) = drop (i + 4) r" for r
      by (simp add: numeral_eq_Suc)
    ultimately show ?thesis using i(2) by (simp add: CRLF_def)
  qed
qed simp

lemma action_request_body:
  assumes "CR \<notin> set Path" "CR \<notin> set ServiceType" "CR \<notin> set ActName" "CR \<notin> set host"
  shows "\<exists>i. strstr (action_request Path ServiceType ActName host xml) (CRLF @ CRLF) = Some i \<and>
    drop (i + 4) (action_request Path ServiceType ActName host xml) = xml"
proof -
  have "CR \<notin> set (dec_int (int (length xml) + 1))"
    using dec_nat_digits [of "nat (int (length xml) + 1)"] by (auto simp: dec_int_def isdigit_def)
  then show ?thesis
    using body_found [of "[''POST '' @ Path @ '' HTTP/1.0'', ''Content-Type: text/xml'',
      ''SOAPACTION:'' @ [DQ] @ ServiceType @ ''#'' @ ActName @ [DQ], ''Content-Length: '' @ dec_int (int (length xml) + 1),
      ''Host: '' @ host]" xml] assms
    by (simp add: action_request_def DQ_def)
qed

end
