(* ===== verification/Soap_Server.thy ===== *)
theory Soap_Server imports Soap Ssdp_Packets begin

text \<open>
  The device side of the SOAP module (\<^verbatim>\<open>soap/soap.c\<close>): the answers, and the handler of a request, which
  calls the application.  What the application answers is an argument.
\<close>

section \<open>Answers\<close>

text \<open>
  The header and the document, written to a block of \<open>room\<close> bytes; the date to an array of 40.
\<close>

definition response_text :: "string \<Rightarrow> string \<Rightarrow> host_info \<Rightarrow> string \<Rightarrow> string" where
  "response_text First Date h XmlBuff =
     First @ ''CONTENT-LENGTH:'' @ dec_int (int (length XmlBuff) + 1) @ CRLF @ ''CONTENT-TYPE:text/xml'' @ CRLF @ Date @
     ''EXT:'' @ CRLF @ ''SERVER:'' @ sys_name h @ ''/'' @ sys_release h @ '' UPnP/1.0 Intel UPnP SDK/1.0'' @ CRLF @ CRLF @ XmlBuff"

definition AddResponseHeader :: "host_info \<Rightarrow> nat \<Rightarrow> string \<Rightarrow> string \<Rightarrow> string option" where
  "AddResponseHeader h room First XmlBuff = do {
     date \<leftarrow> currentTmToHttpDate (clock h);
     Date \<leftarrow> block_of 40 date;
     block_of room (response_text First Date h XmlBuff) }"

definition OK_LINE :: string where "OK_LINE = ''HTTP/1.1 200 OK'' @ CRLF"
definition ERROR_LINE :: string where "ERROR_LINE = ''HTTP/1.1 500 Internal Server Error'' @ CRLF"

definition ANSWER_BEGIN :: string where
  "ANSWER_BEGIN = ''<s:Envelope xmlns:s='' @ [DQ] @ ''http://schemas.xmlsoap.org/soap/envelope/'' @ [DQ] @
     '' s:encodingStyle='' @ [DQ] @ ''http://schemas.xmlsoap.org/soap/encoding/'' @ [DQ] @ ''><s:Body>''"

text \<open>
  The three builders.  When the block for the document cannot be allocated they return without writing
  anything, and the caller sends what its own block holds: undefined.
\<close>

definition CreateControlResponse :: "bool \<Rightarrow> host_info \<Rightarrow> nat \<Rightarrow> string \<Rightarrow> string option" where
  "CreateControlResponse mem_ok h room ActBuf =
     (if \<not> mem_ok then None
      else do {
        XmlBuf \<leftarrow> block_of (HEADER_LENGTH + length ActBuf) (ANSWER_BEGIN @ [LF] @ ActBuf @ ''</s:Body> </s:Envelope>'');
        AddResponseHeader h room OK_LINE XmlBuf })"

definition fault_text :: "int \<Rightarrow> string \<Rightarrow> string" where
  "fault_text ErrCode ErrStr =
     ANSWER_BEGIN @ ''<s:Fault><faultcode>s:Client</faultcode><faultstring>UPnPError</faultstring><detail><UPnPError xmlns='' @
     [DQ] @ ''urn:schemas-upnp-org:control-1-0'' @ [DQ] @ ''><errorCode>'' @ dec_int ErrCode @
     ''</errorCode><errorDescription>'' @ ErrStr @ ''</errorDescription></UPnPError></detail></s:Fault></s:Body></s:Envelope>''"

definition CreateControlFailure :: "bool \<Rightarrow> host_info \<Rightarrow> nat \<Rightarrow> int \<Rightarrow> string \<Rightarrow> string option" where
  "CreateControlFailure mem_ok h room ErrCode ErrStr =
     (if \<not> mem_ok then None
      else do {
        XmlBuf \<leftarrow> block_of (HEADER_LENGTH + length ErrStr) (fault_text ErrCode ErrStr);
        AddResponseHeader h room ERROR_LINE XmlBuf })"

definition CreateControlQueryResponse :: "bool \<Rightarrow> host_info \<Rightarrow> nat \<Rightarrow> string \<Rightarrow> string option" where
  "CreateControlQueryResponse mem_ok h room Var =
     (if \<not> mem_ok then None
      else do {
        XmlBuf \<leftarrow> block_of (HEADER_LENGTH + length Var)
          (ANSWER_BEGIN @ ''<u:QueryStateVariableResponse xmlns:u='' @ [DQ] @ ''urn:schemas-upnp-org:control-1-0'' @ [DQ] @
           ''><return>'' @ Var @ ''</return> </u:QueryStateVariableResponse> </s:Body> </s:Envelope>'');
        AddResponseHeader h room OK_LINE XmlBuf })"

section \<open>Reading a request\<close>

text \<open>
  The control URL: what stands between the first \<^verbatim>\<open>POST\<close> and its blank, and the character before the first
  \<^verbatim>\<open>HTTP\<close>, in any case.  The loop compares pointers for inequality and its index is a \<^verbatim>\<open>char\<close>.
\<close>

definition GetCtrlUrl :: "(nat \<Rightarrow> bool) \<Rightarrow> string \<Rightarrow> (int \<times> string) option" where
  "GetCtrlUrl A InBuf = do {
     p \<leftarrow> strstrcase (A 0) InBuf ''POST'';
     (case p of
        None \<Rightarrow> Some (- 1, [])
      | Some s \<Rightarrow> do {
          q \<leftarrow> strstrcase (A 1) InBuf ''HTTP'';
          (case q of
             None \<Rightarrow> Some (- 1, [])
           | Some t \<Rightarrow>
               if t < s + 6 then None
               else (let Url = take (t - (s + 6)) (drop (s + 5) InBuf) in
                 if 127 < length Url then None else Some (1, Url))) }) }"

text \<open>The variable asked for, copied to a block of \<open>room\<close> bytes.\<close>

definition GetVarName :: "dom \<Rightarrow> nat \<Rightarrow> (int \<times> string) option" where
  "GetVarName TempDoc room =
     (case enveloped TempDoc of
        None \<Rightarrow> Some (- 1, [])
      | Some StNode \<Rightarrow>
          (case node_name StNode of
             None \<Rightarrow> Some (- 1, [])
           | Some StNodeName \<Rightarrow>
               if strstr StNodeName ''QueryStateVariable'' = None then Some (- 1, [])
               else (case first_child StNode of
                  None \<Rightarrow> Some (- 1, [])
                | Some VarNameNode \<Rightarrow> do {
                    VarNode \<leftarrow> first_child VarNameNode;
                    Temp \<leftarrow> node_value VarNode;
                    map_option (Pair 1) (block_of room Temp) })))"

text \<open>
  What a request meets: the allocations in order, this host, the parser, name service and allocator of
  the URL parser and its stack, the handles, and what the array for the name holds before.
\<close>

record soap_env =
  salloc :: "nat \<Rightarrow> bool"
  shost :: host_info
  sxml :: xml_lib
  snames :: env
  suri :: uri_type
  shandles :: handle_table
  sname :: string

record service_of_url =
  svc_udn :: string
  svc_id :: string
  svc_fun :: nat
  svc_cookie :: nat

text \<open>The service with this control URL; its names are copied into arrays of \<^verbatim>\<open>NAME_SIZE\<close> bytes.\<close>

definition GetDeviceInfo :: "soap_env \<Rightarrow> string \<Rightarrow> service_of_url option option" where
  "GetDeviceInfo e CtrlUrl =
     (case GetDeviceHandleInfo (shandles e) of
        (False, _) \<Rightarrow> Some None
      | (True, h) \<Rightarrow> do {
          HInfo \<leftarrow> shandles e ! nat h;
          found \<leftarrow> FindServiceControlURLPath (snames e) (suri e) (suri e) (Some (ServiceTable HInfo)) CtrlUrl;
          (case found of
             None \<Rightarrow> Some None
           | Some k \<Rightarrow> do {
               let SInfo = serviceList (ServiceTable HInfo) ! k;
               sid \<leftarrow> serviceId SInfo;
               sid \<leftarrow> block_of NAME_SIZE sid;
               udn \<leftarrow> UDN SInfo;
               udn \<leftarrow> block_of NAME_SIZE udn;
               Some (Some \<lparr>svc_udn = udn, svc_id = sid, svc_fun = Handle_Info.Callback HInfo, svc_cookie = Cookie HInfo\<rparr>) }) })"

section \<open>Answering a request\<close>

datatype control_request =
  Action_Request string (request_doc: "dom option")
| Var_Request string

text \<open>
  The application: for each request on a service, an error code, an error text (which fits its array of
  \<^verbatim>\<open>LINE_SIZE\<close> bytes) and a result.
\<close>

record control_app =
  on_action :: "service_of_url \<Rightarrow> string \<Rightarrow> dom option \<Rightarrow> int \<times> string \<times> dom option"
  on_query :: "service_of_url \<Rightarrow> string \<Rightarrow> int \<times> string \<times> string option"

text \<open>The code, what the application was asked, and what was sent (with the final NUL).\<close>

record soap_result =
  so_code :: int
  so_told :: "(service_of_url \<times> control_request) option"
  so_sent :: "string option"

abbreviation (input) quiet_result :: "int \<Rightarrow> soap_result" where
  "quiet_result rc \<equiv> \<lparr>so_code = rc, so_told = None, so_sent = None\<rparr>"

definition failure ::
  "soap_env \<Rightarrow> nat \<Rightarrow> int \<Rightarrow> string \<Rightarrow> int \<Rightarrow> (service_of_url \<times> control_request) option \<Rightarrow> soap_result option" where
  "failure e room ErrCode ErrStr rc asked = do {
     s \<leftarrow> CreateControlFailure (salloc e 9) (shost e) room ErrCode ErrStr;
     Some \<lparr>so_code = rc, so_told = asked, so_sent = Some (s @ [NUL])\<rparr> }"

text \<open>
  The block for the answer, replaced by a larger one when the answer is long.
\<close>

definition answer_room :: "nat \<Rightarrow> string \<Rightarrow> nat" where
  "answer_room BuffLen s =
     (if \<bar>int BuffLen - int HEADER_LENGTH\<bar> < int (length s) then length s + HEADER_LENGTH else BuffLen)"

definition serve_action :: "soap_env \<Rightarrow> control_app \<Rightarrow> string \<Rightarrow> dom \<Rightarrow> string \<Rightarrow> nat \<Rightarrow> soap_result option" where
  "serve_action e app InData XmlDoc CtrlUrl BuffLen = do {
     (rc, ActName) \<leftarrow> GetActionName (salloc e 4) InData (sname e);
     if rc < 0 then failure e BuffLen UPNP_E_INVALID_ACTION ''Invalid action name!!!!!'' (- 1) None
     else (case GetActionNode (sxml e) XmlDoc ActName of (r, RespNode) \<Rightarrow>
       if r < 0 then failure e BuffLen UPNP_E_INVALID_ACTION ''Invalid control URL!!!!!'' (- 1) None
       else if \<not> salloc e 5 then None
       else do {
         found \<leftarrow> GetDeviceInfo e CtrlUrl;
         (case found of
            None \<Rightarrow> failure e BuffLen UPNP_E_INVALID_ACTION ''Invalid control URL!!!!!'' (- 1) None
          | Some svc \<Rightarrow> do {
              ActionName \<leftarrow> block_of NAME_SIZE ActName;
              let asked = Some (svc, Action_Request ActionName RespNode);
              (case on_action app svc ActionName RespNode of (ErrCode, ErrStr, ActionResult) \<Rightarrow>
                 (case (ErrCode = UPNP_E_SUCCESS, ActionResult) of
                    (True, Some d) \<Rightarrow>
                      (case xprint (sxml e) d of
                         None \<Rightarrow> Some \<lparr>so_code = - 1, so_told = asked, so_sent = None\<rparr>
                       | Some RespStr \<Rightarrow> do {
                           let room = answer_room BuffLen RespStr;
                           s \<leftarrow> (if room = BuffLen \<or> salloc e 6 then CreateControlResponse (salloc e 9) (shost e) room RespStr else None);
                           Some \<lparr>so_code = 1, so_told = asked, so_sent = Some (s @ [NUL])\<rparr> })
                  | _ \<Rightarrow> failure e BuffLen ErrCode (if 1 < length ErrStr then ErrStr else ''Invalid Request!!!!!'') 1 asked)) }) }) }"

text \<open>Every end of a query returns -1, also the good one.\<close>

definition serve_query :: "soap_env \<Rightarrow> control_app \<Rightarrow> dom \<Rightarrow> string \<Rightarrow> nat \<Rightarrow> soap_result option" where
  "serve_query e app XmlDoc CtrlUrl BuffLen = do {
     (rc, InStr) \<leftarrow> GetVarName XmlDoc BuffLen;
     if rc < 0 then failure e BuffLen UPNP_E_INVALID_URL ''Invalid XML!!!!!'' (- 1) None
     else if \<not> salloc e 5 then None
     else do {
       found \<leftarrow> GetDeviceInfo e CtrlUrl;
       (case found of
          None \<Rightarrow> failure e BuffLen UPNP_E_INVALID_URL ''Invalid control URL!!!!!'' (- 1) None
        | Some svc \<Rightarrow> do {
            StateVarName \<leftarrow> block_of NAME_SIZE InStr;
            let asked = Some (svc, Var_Request StateVarName);
            (case on_query app svc StateVarName of (ErrCode, ErrStr, CurrentVal) \<Rightarrow>
               if ErrCode = UPNP_E_SUCCESS
               then (let val = (case CurrentVal of None \<Rightarrow> ''NULL'' | Some v \<Rightarrow> v);
                         room = (if CurrentVal = None then BuffLen else answer_room BuffLen val) in do {
                 s \<leftarrow> (if room = BuffLen \<or> salloc e 6 then CreateControlQueryResponse (salloc e 9) (shost e) room val else None);
                 Some \<lparr>so_code = - 1, so_told = asked, so_sent = Some (s @ [NUL])\<rparr> })
               else failure e BuffLen ErrCode (if 1 < length ErrStr then ErrStr else ''Unknown Error !!!!!!!!!!!'') (- 1) asked) }) } }"

definition ProcessSoapEventPacket :: "soap_env \<Rightarrow> control_app \<Rightarrow> string \<Rightarrow> soap_result option" where
  "ProcessSoapEventPacket e app InData =
     (case strstr InData (CRLF @ CRLF) of
        None \<Rightarrow> Some (quiet_result (- 1))
      | Some i \<Rightarrow>
          (case xparse (sxml e) (drop (i + 4) InData) of
             None \<Rightarrow> Some (quiet_result (- 1))
           | Some XmlDoc \<Rightarrow>
               (let BuffLen = max (length InData + 1) HEADER_LENGTH in
                if \<not> salloc e 0 then Some (quiet_result UPNP_E_OUTOF_MEMORY)
                else do {
                  (rc, CtrlUrl) \<leftarrow> GetCtrlUrl (\<lambda>k. salloc e (1 + k)) InData;
                  if 0 < rc
                  then do {
                    query \<leftarrow> strstrcase (salloc e 3) InData ''QueryStateVariable'';
                    if query = None then serve_action e app InData XmlDoc CtrlUrl BuffLen
                    else serve_query e app XmlDoc CtrlUrl BuffLen }
                  else failure e BuffLen UPNP_E_INVALID_URL ''Invalid control URL !!!!!'' 1 None })))"

section \<open>Answers fit their blocks\<close>

text \<open>A clock in range and the names \<^verbatim>\<open>uname\<close> gives, which are shorter than 65 bytes.\<close>

definition host_fits :: "host_info \<Rightarrow> bool" where
  "host_fits h = (tm_ok (clock h) \<and> CR \<notin> set (sys_name h) \<and> CR \<notin> set (sys_release h) \<and>
     length (sys_name h) < 65 \<and> length (sys_release h) < 65)"

lemma length_content: "length s < 2 ^ 31 \<Longrightarrow> length (dec_int (int (length s) + 1)) \<le> 11"
  using length_dec_int [of "int (length s) + 1" 10] by simp

lemma AddResponseHeader_fits:
  assumes "host_fits h" "length x < 2 ^ 31" "length First + length x + 288 < room"
  shows "\<exists>d. CR \<notin> set d \<and> AddResponseHeader h room First x = Some (response_text First (''DATE: '' @ d @ CRLF) h x)"
proof -
  obtain d where d: "currentTmToHttpDate (clock h) = Some (''DATE: '' @ d @ CRLF)" "length d = 29" "CR \<notin> set d"
    using http_date_line assms(1) by (auto simp: host_fits_def)
  then show ?thesis using assms length_content [OF assms(2)]
    by (intro exI [of _ d]) (simp add: AddResponseHeader_def block_of_def response_text_def CRLF_def host_fits_def)
qed

lemma length_ANSWER_BEGIN: "length ANSWER_BEGIN = 132"
  by (simp add: ANSWER_BEGIN_def)

definition action_answer :: "string \<Rightarrow> string" where
  "action_answer s = ANSWER_BEGIN @ [LF] @ s @ ''</s:Body> </s:Envelope>''"

definition query_answer :: "string \<Rightarrow> string" where
  "query_answer s = ANSWER_BEGIN @ ''<u:QueryStateVariableResponse xmlns:u='' @ [DQ] @ ''urn:schemas-upnp-org:control-1-0'' @ [DQ] @
     ''><return>'' @ s @ ''</return> </u:QueryStateVariableResponse> </s:Body> </s:Envelope>''"

text \<open>
  The three builders write at most what their blocks hold: whatever text the application gives, with
  2000 bytes more than the text the header and the envelope fit, and the answer has a header without an
  empty line inside, so that the document is found again.
\<close>

lemma control_answers_built:
  assumes "host_fits h" "length s < 2 ^ 30" "HEADER_LENGTH + length s \<le> room" "\<bar>ErrCode\<bar> < 10 ^ 10"
  shows "\<exists>d. currentTmToHttpDate (clock h) = Some (''DATE: '' @ d @ CRLF) \<and> CR \<notin> set d \<and>
    CreateControlResponse True h room s = Some (response_text OK_LINE (''DATE: '' @ d @ CRLF) h (action_answer s)) \<and>
    CreateControlQueryResponse True h room s = Some (response_text OK_LINE (''DATE: '' @ d @ CRLF) h (query_answer s)) \<and>
    CreateControlFailure True h room ErrCode s = Some (response_text ERROR_LINE (''DATE: '' @ d @ CRLF) h (fault_text ErrCode s))"
proof -
  have n: "length (dec_int ErrCode) \<le> 11" using length_dec_int [of ErrCode 10] assms(4) by simp
  note defs = CreateControlResponse_def CreateControlQueryResponse_def CreateControlFailure_def action_answer_def query_answer_def
  obtain d where d: "currentTmToHttpDate (clock h) = Some (''DATE: '' @ d @ CRLF)" "CR \<notin> set d"
    using http_date_line assms(1) by (auto simp: host_fits_def)
  have hd: "AddResponseHeader h room First x = Some (response_text First (''DATE: '' @ d @ CRLF) h x)"
    if "length x < 2 ^ 31" "length First + length x + 288 < room" for First x
    using AddResponseHeader_fits [OF assms(1) that] d by (auto simp: AddResponseHeader_def block_of_def split: if_split_asm)
  show ?thesis
    using d assms(2,3) n
    by (intro exI [of _ d] conjI)
      (simp_all add: defs block_of_def hd length_ANSWER_BEGIN HEADER_LENGTH_def OK_LINE_def ERROR_LINE_def CRLF_def fault_text_def)
qed

lemma response_body:
  assumes "host_fits h" "CR \<notin> set d" "CR \<notin> set l" "l \<noteq> []"
  shows "\<exists>i. strstr (response_text (l @ CRLF) (''DATE: '' @ d @ CRLF) h x) (CRLF @ CRLF) = Some i \<and>
    drop (i + 4) (response_text (l @ CRLF) (''DATE: '' @ d @ CRLF) h x) = x"
proof -
  have "CR \<notin> set (dec_int (int (length x) + 1))"
    using dec_nat_digits [of "nat (int (length x) + 1)"] by (auto simp: dec_int_def isdigit_def)
  then show ?thesis
    using body_found [of "[l, ''CONTENT-LENGTH:'' @ dec_int (int (length x) + 1), ''CONTENT-TYPE:text/xml'', ''DATE: '' @ d, ''EXT:'',
      ''SERVER:'' @ sys_name h @ ''/'' @ sys_release h @ '' UPnP/1.0 Intel UPnP SDK/1.0'']" x] assms
    by (simp add: response_text_def host_fits_def)
qed

lemma response_code: "GetBufferErrorCode (response_text OK_LINE D h x) = Some 1"
  "GetBufferErrorCode (response_text ERROR_LINE D h x) = Some (- 1)"
  by (simp_all add: GetBufferErrorCode_def response_text_def OK_LINE_def ERROR_LINE_def CRLF_def LINE_SIZE_def numeral_eq_Suc)

section \<open>What a request is read as\<close>

lemma POST_found:
  assumes "find_nocase Path ''HTTP'' = None" "length Path < 128"
  shows "GetCtrlUrl (\<lambda>_. True) (''POST '' @ Path @ '' HTTP'' @ r) = Some (1, Path)"
proof -
  have "find_nocase (''POST '' @ Path @ '' HTTP'' @ r) ''POST'' = Some 0" by (simp add: same_nocase_def)
  moreover have "find_nocase (''POST'' @ SP # (Path @ SP # (''HTTP'' @ r))) ''HTTP'' = Some (length Path + 6)"
    using assms(1) by (subst find_nocase_skip; (subst find_nocase_skip)?) (simp_all add: tolower_def same_nocase_def)
  ultimately show ?thesis using assms(2) by (simp add: GetCtrlUrl_def strstrcase_def)
qed

lemma action_name_found:
  assumes "CHR ''#'' \<notin> set Path" "CHR ''#'' \<notin> set ServiceType" "list_all isalnum ActName" "length ActName < NAME_SIZE"
  shows "GetActionName True (action_request Path ServiceType ActName host xml) Name = Some (1, ActName)"
proof -
  let ?r = "DQ # CRLF @ ''Content-Length: '' @ dec_int (int (length xml) + 1) @ CRLF @ ''Host: '' @ host @ CRLF @ CRLF @ xml"
  have "\<exists>l. action_request Path ServiceType ActName host xml = l @ CHR ''#'' # ([] @ (ActName @ ?r)) \<and> CHR ''#'' \<notin> set l"
    using assms(1,2)
    by (intro exI [of _ "''POST '' @ Path @ '' HTTP/1.0'' @ CRLF @ ''Content-Type: text/xml'' @ CRLF @ ''SOAPACTION:'' @ [DQ] @ ServiceType"])
      (simp add: action_request_def CRLF_def DQ_def)
  then obtain l where l: "action_request Path ServiceType ActName host xml = l @ CHR ''#'' # ([] @ (ActName @ ?r))" "CHR ''#'' \<notin> set l"
    by blast
  have "strstr (action_request Path ServiceType ActName host xml) ''#'' = Some (length l)"
    unfolding l(1) by (rule strstr_first [OF l(2)])
  moreover have "find_nocase (action_request Path ServiceType ActName host xml) ''SOAPACTION'' \<noteq> None"
    using find_nocase_there [of "''SOAPACTION''" "''POST '' @ Path @ '' HTTP/1.0'' @ CRLF @ ''Content-Type: text/xml'' @ CRLF"]
    by (simp add: action_request_def)
  moreover have "drop (Suc (length l)) (action_request Path ServiceType ActName host xml) = ActName @ ?r"
    unfolding l(1) by simp
  moreover have "takeWhile isalnum (ActName @ ?r) = ActName"
    using assms(3) by (auto simp: takeWhile_append list_all_iff DQ_def isalnum_def isalpha_def isdigit_def)
  ultimately show ?thesis using assms(4) by (auto simp: GetActionName_def strstrcase_def block_of_def)
qed

text \<open>An action with names that survive the trip.\<close>

definition plain_action :: "string \<Rightarrow> string \<Rightarrow> string \<Rightarrow> string \<Rightarrow> bool" where
  "plain_action Path ServiceType ActName host =
     (find_nocase Path ''HTTP'' = None \<and> length Path < NAME_SIZE \<and> CHR ''#'' \<notin> set Path \<and> CR \<notin> set Path \<and>
      CHR ''#'' \<notin> set ServiceType \<and> CR \<notin> set ServiceType \<and> length ServiceType < 1500 \<and>
      list_all isalnum ActName \<and> ActName \<noteq> [] \<and> length ActName < NAME_SIZE \<and> CR \<notin> set host \<and> length host < NAME_SIZE)"

text \<open>A text that the parser reads as an envelope around an element of a name, and the element as a document.\<close>

definition carries :: "xml_lib \<Rightarrow> string \<Rightarrow> string \<Rightarrow> dom option \<Rightarrow> bool" where
  "carries X xml name d =
     (case Option.bind (xparse X xml) enveloped of
        None \<Rightarrow> False
      | Some a \<Rightarrow> (case node_name a of None \<Rightarrow> False | Some n \<Rightarrow> strstr n name \<noteq> None \<and> as_document X a = d))"

lemma carriesE:
  assumes "carries X xml name d"
  obtains doc where "xparse X xml = Some doc" "GetActionNode X doc name = (1, d)"
  using assms by (auto simp: carries_def GetActionNode_def split: option.split_asm Option.bind_split_asm)

lemma request_read:
  assumes "plain_action Path ServiceType ActName host"
  shows "GetCtrlUrl (\<lambda>_. True) (action_request Path ServiceType ActName host xml) = Some (1, Path)"
    and "GetActionName True (action_request Path ServiceType ActName host xml) Name = Some (1, ActName)"
    and "\<exists>i. strstr (action_request Path ServiceType ActName host xml) (CRLF @ CRLF) = Some i \<and>
      drop (i + 4) (action_request Path ServiceType ActName host xml) = xml"
proof -
  have "CR \<notin> set ActName" using assms by (auto simp: plain_action_def list_all_iff isalnum_def isalpha_def isdigit_def)
  then show "\<exists>i. strstr (action_request Path ServiceType ActName host xml) (CRLF @ CRLF) = Some i \<and>
      drop (i + 4) (action_request Path ServiceType ActName host xml) = xml"
    using action_request_body assms by (simp add: plain_action_def)
  show "GetActionName True (action_request Path ServiceType ActName host xml) Name = Some (1, ActName)"
    by (rule action_name_found) (use assms in \<open>simp_all add: plain_action_def\<close>)
  show "GetCtrlUrl (\<lambda>_. True) (action_request Path ServiceType ActName host xml) = Some (1, Path)"
    using POST_found [of Path] assms by (simp add: plain_action_def action_request_def NAME_SIZE_def)
qed

lemma answer_room_fits: "HEADER_LENGTH \<le> BuffLen \<Longrightarrow> HEADER_LENGTH + length s \<le> answer_room BuffLen s"
  by (auto simp: answer_room_def)

text \<open>
  C34. The block the server chooses is large enough: an answer of any length, to an action or a query, and an
  error with a text of the application's array are built in it without going past its end.
\<close>

theorem control_answers_fit:
  assumes "host_fits h" "HEADER_LENGTH \<le> BuffLen" "length s < 2 ^ 30" "length ErrStr < LINE_SIZE" "\<bar>ErrCode\<bar> < 10 ^ 10"
  shows "\<exists>d. currentTmToHttpDate (clock h) = Some (''DATE: '' @ d @ CRLF) \<and> CR \<notin> set d \<and>
    CreateControlResponse True h (answer_room BuffLen s) s = Some (response_text OK_LINE (''DATE: '' @ d @ CRLF) h (action_answer s)) \<and>
    CreateControlQueryResponse True h (answer_room BuffLen s) s = Some (response_text OK_LINE (''DATE: '' @ d @ CRLF) h (query_answer s)) \<and>
    CreateControlFailure True h BuffLen ErrCode ErrStr =
      Some (response_text ERROR_LINE (''DATE: '' @ d @ CRLF) h (fault_text ErrCode ErrStr))"
proof -
  have n: "length (dec_int ErrCode) \<le> 11" using length_dec_int [of ErrCode 10] assms(5) by simp
  obtain d where d: "currentTmToHttpDate (clock h) = Some (''DATE: '' @ d @ CRLF)" "CR \<notin> set d"
    "CreateControlResponse True h (answer_room BuffLen s) s = Some (response_text OK_LINE (''DATE: '' @ d @ CRLF) h (action_answer s))"
    "CreateControlQueryResponse True h (answer_room BuffLen s) s = Some (response_text OK_LINE (''DATE: '' @ d @ CRLF) h (query_answer s))"
    using control_answers_built [OF assms(1,3) answer_room_fits [OF assms(2)], of 0] by auto
  have "length ERROR_LINE + length (fault_text ErrCode ErrStr) + 288 < BuffLen" "length (fault_text ErrCode ErrStr) < 2 ^ 31"
    using n assms(2,4) by (simp_all add: ERROR_LINE_def fault_text_def CRLF_def HEADER_LENGTH_def LINE_SIZE_def length_ANSWER_BEGIN)
  from AddResponseHeader_fits [OF assms(1) this(2,1)] d(1)
  have "AddResponseHeader h BuffLen ERROR_LINE (fault_text ErrCode ErrStr) =
      Some (response_text ERROR_LINE (''DATE: '' @ d @ CRLF) h (fault_text ErrCode ErrStr))"
    by (auto simp: AddResponseHeader_def block_of_def split: if_split_asm)
  moreover have "length (fault_text ErrCode ErrStr) < HEADER_LENGTH + length ErrStr"
    using n by (simp add: fault_text_def HEADER_LENGTH_def length_ANSWER_BEGIN)
  ultimately show ?thesis using d by (simp add: CreateControlFailure_def block_of_def)
qed

text \<open>The answer of the device to an action, and what the other side makes of it.\<close>

lemma action_served:
  assumes "plain_action Path ServiceType ActName host" "carries (sxml e) xml ActName req"
    and "find_nocase (action_request Path ServiceType ActName host xml) ''QueryStateVariable'' = None"
    and "salloc e = (\<lambda>_. True)" "host_fits (shost e)" "GetDeviceInfo e Path = Some (Some svc)"
    and "on_action app svc ActName req = (UPNP_E_SUCCESS, err, Some d)" "xprint (sxml e) d = Some res" "length res < 2 ^ 30"
  shows "\<exists>t. currentTmToHttpDate (clock (shost e)) = Some (''DATE: '' @ t @ CRLF) \<and> CR \<notin> set t \<and> ProcessSoapEventPacket e app (action_request Path ServiceType ActName host xml) =
    Some \<lparr>so_code = 1, so_told = Some (svc, Action_Request ActName req),
      so_sent = Some (response_text OK_LINE (''DATE: '' @ t @ CRLF) (shost e) (action_answer res) @ [NUL])\<rparr>"
proof -
  let ?rq = "action_request Path ServiceType ActName host xml" and ?n = "max (length (action_request Path ServiceType ActName host xml) + 1) HEADER_LENGTH"
  note rd = request_read [OF assms(1), of xml]
  obtain i where i: "strstr ?rq (CRLF @ CRLF) = Some i" "drop (i + 4) ?rq = xml" using rd(3) by blast
  obtain doc where doc: "xparse (sxml e) xml = Some doc" "GetActionNode (sxml e) doc ActName = (1, req)"
    by (rule carriesE [OF assms(2)])
  have room: "HEADER_LENGTH + length res \<le> answer_room ?n res" by (rule answer_room_fits) simp
  obtain t where t: "CR \<notin> set t" "currentTmToHttpDate (clock (shost e)) = Some (''DATE: '' @ t @ CRLF)"
    "CreateControlResponse True (shost e) (answer_room ?n res) res = Some (response_text OK_LINE (''DATE: '' @ t @ CRLF) (shost e) (action_answer res))"
    using control_answers_built [OF assms(5,9) room, of 0] by auto
  have "serve_action e app ?rq doc Path ?n = Some \<lparr>so_code = 1, so_told = Some (svc, Action_Request ActName req),
      so_sent = Some (response_text OK_LINE (''DATE: '' @ t @ CRLF) (shost e) (action_answer res) @ [NUL])\<rparr>"
    using rd(2) [of "sname e"] doc(2) t(3) assms(1,4,6-8) by (simp add: serve_action_def plain_action_def block_of_def Let_def)
  moreover have "ProcessSoapEventPacket e app ?rq = serve_action e app ?rq doc Path ?n"
    using rd(1) i doc(1) assms(3,4) by (simp add: ProcessSoapEventPacket_def Let_def strstrcase_def)
  ultimately show ?thesis using t(1,2) by auto
qed

lemma action_answer_read:
  assumes "carries X (action_answer res) ActName (Some d)" "host_fits h" "CR \<notin> set t"
  shows "action_response X ActName RespNode (response_text OK_LINE (''DATE: '' @ t @ CRLF) h (action_answer res)) =
    Some (UPNP_E_SUCCESS, Some d)"
proof -
  let ?a = "response_text OK_LINE (''DATE: '' @ t @ CRLF) h (action_answer res)"
  obtain i where i: "strstr ?a (CRLF @ CRLF) = Some i" "drop (i + 4) ?a = action_answer res"
    using response_body [OF assms(2,3), of "''HTTP/1.1 200 OK''" "action_answer res"] by (auto simp: OK_LINE_def)
  obtain doc where "xparse X (action_answer res) = Some doc" "GetActionNode X doc ActName = (1, Some d)"
    by (rule carriesE [OF assms(1)])
  then show ?thesis using i response_code(1) by (simp add: action_response_def)
qed

lemma length_action_request:
  assumes "plain_action Path ServiceType ActName host" "length xml < 2 ^ 31"
  shows "length (action_request Path ServiceType ActName host xml) < HEADER_LENGTH + length xml"
  using assms length_content [OF assms(2)]
  by (simp add: plain_action_def action_request_def NAME_SIZE_def HEADER_LENGTH_def CRLF_def)

text \<open>A call of an action, end to end, over any parser and printer.\<close>

lemma action_exchanged:
  fixes Path ServiceType ActName host act
  defines "rq \<equiv> action_request Path ServiceType ActName host (SOAP_BEGIN @ act @ SOAP_END)"
  assumes "xprint X a = Some act" "length act < 2 ^ 30" "GetActionName True act [] = Some (1, ActName)"
    and "GetHostHeader c url = Some (HTTP_SUCCESS, Some (host, Path))" "calloc c = (\<lambda>_. True)"
    and "plain_action Path ServiceType ActName host" "find_nocase rq ''QueryStateVariable'' = None"
    and "carries (sxml e) (SOAP_BEGIN @ act @ SOAP_END) ActName req"
    and "salloc e = (\<lambda>_. True)" "host_fits (shost e)" "GetDeviceInfo e Path = Some (Some svc)"
    and "on_action app svc ActName req = (UPNP_E_SUCCESS, err, Some d)" "xprint (sxml e) d = Some res" "length res < 2 ^ 30"
    and "carries X (action_answer res) ActName (Some result)"
    and transfer: "\<And>r out. ProcessSoapEventPacket e app rq = Some r \<Longrightarrow> so_sent r = Some out \<Longrightarrow>
      transferHTTPRaw (url_store url) (cuenv c) (curi c) (cnet c) (rq @ [NUL]) (int (length rq) + 1) (0, 0) =
        Some (code, Some out, rq @ [NUL]) \<and> cstring out = butlast out"
  shows "(\<exists>out. ProcessSoapEventPacket e app rq =
      Some \<lparr>so_code = 1, so_told = Some (svc, Action_Request ActName req), so_sent = Some out\<rparr>) \<and>
    SoapSendAction c X url ServiceType a RespNode = Some (UPNP_E_SUCCESS, Some result, rq @ [NUL])"
proof -
  obtain t where t: "CR \<notin> set t" "ProcessSoapEventPacket e app rq = Some \<lparr>so_code = 1, so_told = Some (svc, Action_Request ActName req),
      so_sent = Some (response_text OK_LINE (''DATE: '' @ t @ CRLF) (shost e) (action_answer res) @ [NUL])\<rparr>"
    using action_served [OF assms(7,9) _ assms(10-15)] assms(8) by (auto simp: rq_def)
  let ?out = "response_text OK_LINE (''DATE: '' @ t @ CRLF) (shost e) (action_answer res)"
  have tr: "transferHTTPRaw (url_store url) (cuenv c) (curi c) (cnet c) (rq @ [NUL]) (int (length rq) + 1) (0, 0) =
      Some (code, Some (?out @ [NUL]), rq @ [NUL])" "cstring (?out @ [NUL]) = ?out"
    using transfer [OF t(2), of "?out @ [NUL]"] by simp_all
  have len: "length (SOAP_BEGIN @ act @ SOAP_END) < 2 ^ 31" "length SOAP_BEGIN + length SOAP_END + 1 \<le> XML_HEADER"
    using assms(3) by (simp_all add: SOAP_BEGIN_def SOAP_END_def XML_HEADER_def)
  have "CreateControlRequest (length act + XML_HEADER) act = Some (SOAP_BEGIN @ act @ SOAP_END)"
    using len(2) by (simp add: CreateControlRequest_def block_of_def)
  moreover have "block_of (HEADER_LENGTH + length (SOAP_BEGIN @ act @ SOAP_END) + 1) rq = Some rq"
    using length_action_request [OF assms(7) len(1)] by (simp add: block_of_def rq_def)
  moreover have "MIN_LEN < length ?out" by (simp add: MIN_LEN_def response_text_def OK_LINE_def)
  moreover have "ActName \<noteq> []" using assms(7) by (simp add: plain_action_def)
  ultimately have "SoapSendAction c X url ServiceType a RespNode = Some (UPNP_E_SUCCESS, Some result, rq @ [NUL])"
    using tr action_answer_read [OF assms(16,11) t(1), of RespNode] assms(2,4-6)
    by (simp add: SoapSendAction_def rq_def [symmetric])
  then show ?thesis using t(2) by blast
qed

section \<open>Requests that break the device\<close>

text \<open>
  A request for an absolute URL: the first \<^verbatim>\<open>HTTP\<close> is its scheme, the end lies before the start, and the
  copying loop runs on through the stack.
\<close>

theorem absolute_url_overflows:
  assumes "salloc e = (\<lambda>_. True)" "strstr (''POST http://'' @ r) (CRLF @ CRLF) = Some i"
    and "xparse (sxml e) (drop (i + 4) (''POST http://'' @ r)) = Some doc"
  shows "ProcessSoapEventPacket e app (''POST http://'' @ r) = None"
proof -
  have "find_nocase (''POST http://'' @ r) ''POST'' = Some 0" "find_nocase (''POST http://'' @ r) ''HTTP'' = Some 5"
    by (simp_all add: same_nocase_def tolower_def)
  then have "GetCtrlUrl (\<lambda>_. True) (''POST http://'' @ r) = None" by (simp add: GetCtrlUrl_def strstrcase_def)
  then show ?thesis using assms by (simp add: ProcessSoapEventPacket_def Let_def)
qed

text \<open>A query for a variable with a name of 100 characters or more overflows the record for the application.\<close>

theorem long_variable_overflows:
  assumes "salloc e = (\<lambda>_. True)" "enveloped doc = Some (Element n as (Element m bs (TextNode v # vs) # cs))"
    and "strstr n ''QueryStateVariable'' \<noteq> None" "NAME_SIZE \<le> length v" "length v < BuffLen" "GetDeviceInfo e CtrlUrl = Some (Some svc)"
  shows "serve_query e app doc CtrlUrl BuffLen = None"
  using assms by (auto simp: serve_query_def GetVarName_def node_name_def first_child_def node_value_def block_of_def)

section \<open>Examples\<close>

text \<open>
  A switch with one action, on a host with a name and a date.  The parser of these examples takes every
  text for a document; \<open>Soap_Roundtrip\<close> has a call over the parser of the library.
\<close>

definition switch_xml :: xml_lib where
  "switch_xml = \<lparr>xparse = (\<lambda>_. Some OtherNode), xprint = (\<lambda>_. None)\<rparr>"

definition switch_host :: host_info where
  "switch_host = \<lparr>clock = \<lparr>tm_mon = 5, tm_wday = 5, tm_mday = 15, tm_year = 101, tm_hour = 0, tm_min = 22, tm_sec = 16\<rparr>,
     sys_name = ''Linux'', sys_release = ''2.4''\<rparr>"

definition switch_service :: service_info where
  "switch_service = lamp_service\<lparr>controlURL := Some ''http://h/c''\<rparr>"

definition switch :: soap_env where
  "switch = \<lparr>salloc = (\<lambda>_. True), shost = switch_host, sxml = switch_xml, snames = easy_env, suri = blank_uri,
     shandles = InitHandleList[1 := Some ((plain_info HND_DEVICE)\<lparr>ServiceTable := \<lparr>URLBase = None, serviceList = [switch_service]\<rparr>\<rparr>)],
     sname = []\<rparr>"

definition switch_app :: control_app where
  "switch_app = \<lparr>on_action = (\<lambda>svc name req. (0, [], None)), on_query = (\<lambda>svc v. (0, [], None))\<rparr>"

lemma switch_facts:
  "currentTmToHttpDate (clock switch_host) = Some (''DATE: Fri, 15 Jun 2001 00:22:16 GMT'' @ CRLF)"
  "host_fits switch_host"
  by code_simp+

text \<open>The two requests that break a device.\<close>

theorem absolute_url_overflows_witness:
  "ProcessSoapEventPacket switch switch_app
     (''POST http://h/c HTTP/1.0'' @ CRLF @ CRLF) = None"
proof -
  have "strstr (''POST http://'' @ ''h/c HTTP/1.0'' @ CRLF @ CRLF) (CRLF @ CRLF) = Some 24" by code_simp
  from absolute_url_overflows [OF _ this, of switch OtherNode switch_app]
  show ?thesis by (simp add: switch_def switch_xml_def)
qed

theorem control_answers_fit_witness:
  "CreateControlQueryResponse True switch_host 2001 ''1'' =
     Some (response_text OK_LINE (''DATE: Fri, 15 Jun 2001 00:22:16 GMT'' @ CRLF) switch_host (query_answer ''1''))"
proof -
  have "answer_room 2001 ''1'' = 2001" by (simp add: answer_room_def HEADER_LENGTH_def)
  with control_answers_fit [OF switch_facts(2), of 2001 "''1''" "[]" 0] switch_facts(1)
  show ?thesis by (simp add: HEADER_LENGTH_def LINE_SIZE_def)
qed

end
