(* ===== verification/Api_Client.thy ===== *)
theory Api_Client imports Api_Device Soap_Server begin

text \<open>
  The control point side of the API (\<^verbatim>\<open>api/upnpapi.c\<close>, lines 819 to 840, 908 to 941, 1011 to 1277, 1489 to
  1672, 2166 to 2257 and 2484 to 2597): the end of a client, searches, subscriptions and actions, each in a
  waiting and in an asynchronous form, the job that the asynchronous form posts to the thread pool, and
  the handler that gives discovery events to the application.
\<close>

definition DEFAULT_MX :: int where "DEFAULT_MX = 5"

section \<open>What the application is told\<close>

datatype Upnp_EventType =
  UPNP_CONTROL_ACTION_REQUEST | UPNP_CONTROL_ACTION_COMPLETE | UPNP_CONTROL_GET_VAR_REQUEST
| UPNP_CONTROL_GET_VAR_COMPLETE | UPNP_DISCOVERY_ADVERTISEMENT_ALIVE | UPNP_DISCOVERY_ADVERTISEMENT_BYEBYE
| UPNP_DISCOVERY_SEARCH_RESULT | UPNP_DISCOVERY_SEARCH_TIMEOUT | UPNP_EVENT_SUBSCRIPTION_REQUEST
| UPNP_EVENT_RECEIVED | UPNP_EVENT_RENEWAL_COMPLETE | UPNP_EVENT_SUBSCRIBE_COMPLETE
| UPNP_EVENT_UNSUBSCRIBE_COMPLETE | UPNP_EVENT_AUTORENEWAL_FAILED | UPNP_EVENT_SUBSCRIPTION_EXPIRED

record Upnp_Event_Subscribe =
  es_Sid :: string
  es_ErrCode :: int
  es_PublisherUrl :: string
  es_TimeOut :: int

record Upnp_Action_Complete =
  ac_ErrCode :: int
  ac_CtrlUrl :: string
  ac_ActionRequest :: "dom option"
  ac_ActionResult :: "dom option"

record Upnp_State_Var_Complete =
  sv_ErrCode :: int
  sv_CtrlUrl :: string
  sv_StateVarName :: string
  sv_CurrentVal :: "string option"

record Upnp_Discovery =
  di_ErrCode :: int
  di_Expires :: int
  di_DeviceId :: string
  di_DeviceType :: string
  di_ServiceType :: string
  di_ServiceVer :: string
  di_Location :: string
  di_Os :: string
  di_Date :: string
  di_Ext :: string
  di_DestAddr :: "sockaddr_in option"

datatype app_event =
  Subscribe_Event Upnp_Event_Subscribe
| Action_Event Upnp_Action_Complete
| Var_Event Upnp_State_Var_Complete
| Discovery_Event Upnp_Discovery
| Null_Event

record app_call =
  to_fun :: nat
  to_type :: Upnp_EventType
  to_event :: app_event
  to_cookie :: nat

section \<open>Discovery events\<close>

text \<open>
  The callback of the discovery library; the pointer may be NULL.  \<open>param\<close> is the block allocated for the
  application, whose failure is not tested, \<open>E\<close> what the replies to a search meet.  The result is what
  the application is told and the packets sent.
\<close>

definition discovery_of :: "Event \<Rightarrow> Upnp_Discovery \<Rightarrow> Upnp_Discovery option" where
  "discovery_of Evt param = do {
     dt \<leftarrow> block_of LINE_SIZE (sDeviceType Evt);
     id \<leftarrow> block_of LINE_SIZE (sUDN Evt);
     st \<leftarrow> block_of LINE_SIZE (sServiceType Evt);
     loc \<leftarrow> block_of LINE_SIZE (dropWhile (\<lambda>c. c = SP) (sLocation Evt));
     os \<leftarrow> block_of LINE_SIZE (sOs Evt);
     date \<leftarrow> block_of LINE_SIZE (sDate Evt);
     ext \<leftarrow> block_of LINE_SIZE (sExt Evt);
     Some (param\<lparr>di_ErrCode := sErrCode Evt, di_Expires := sMaxAge Evt, di_DeviceType := dt, di_DeviceId := id,
       di_ServiceType := st, di_Location := loc, di_Os := os, di_Date := date, di_Ext := ext, di_DestAddr := sDestAddr Evt\<rparr>) }"

text \<open>The event type and the cookie the application gets: its own one for what it did not ask for.\<close>

definition discovery_kind :: "Event \<Rightarrow> Handle_Info \<Rightarrow> Upnp_EventType \<times> nat" where
  "discovery_kind Evt SInfo =
     (case sCmd Evt of
        SSDP_ALIVE \<Rightarrow> (UPNP_DISCOVERY_ADVERTISEMENT_ALIVE, Cookie SInfo)
      | SSDP_BYEBYE \<Rightarrow> (UPNP_DISCOVERY_ADVERTISEMENT_BYEBYE, Cookie SInfo)
      | _ \<Rightarrow> (UPNP_DISCOVERY_SEARCH_RESULT, sCookie Evt))"

definition target_of :: "Event \<Rightarrow> search_target" where
  "target_of Evt = \<lparr>SearchType = sRequestType Evt, DestAddr = sDestAddr Evt, DeviceType = Some (sDeviceType Evt),
     DeviceUDN = Some (sUDN Evt), ServiceType = Some (sServiceType Evt)\<rparr>"

definition tell_client :: "handle_table \<Rightarrow> Upnp_Discovery option \<Rightarrow> Event \<Rightarrow> app_call list option" where
  "tell_client T param Evt =
     (case GetClientHandleInfo T of
        (False, _) \<Rightarrow> Some []
      | (True, h) \<Rightarrow> do {
          SInfo \<leftarrow> T ! nat h;
          if sCmd Evt = SSDP_TIMEOUT
          then Some [\<lparr>to_fun = Handle_Info.Callback SInfo, to_type = UPNP_DISCOVERY_SEARCH_TIMEOUT, to_event = Null_Event,
            to_cookie = sCookie Evt\<rparr>]
          else do {
            block \<leftarrow> param;
            d \<leftarrow> discovery_of Evt block;
            (case discovery_kind Evt SInfo of (typ, cookie) \<Rightarrow>
              Some [\<lparr>to_fun = Handle_Info.Callback SInfo, to_type = typ, to_event = Discovery_Event d, to_cookie = cookie\<rparr>]) } })"

definition SsdpCallbackEventHandler ::
  "handle_table \<Rightarrow> Upnp_Discovery option \<Rightarrow> (nat \<Rightarrow> nat \<Rightarrow> adv_env) \<Rightarrow> Event option \<Rightarrow>
     (app_call list \<times> (destination \<times> string) list) option" where
  "SsdpCallbackEventHandler T param E e =
     (case e of
        None \<Rightarrow> Some ([], [])
      | Some Evt \<Rightarrow>
          if sErrCode Evt \<noteq> 0 then Some ([], [])
          else if sCmd Evt \<in> {SSDP_OK, SSDP_ALIVE, SSDP_BYEBYE, SSDP_TIMEOUT}
          then map_option (\<lambda>calls. (calls, [])) (tell_client T param Evt)
          else if sCmd Evt = SSDP_SEARCH
          then (case GetDeviceHandleInfo T of
              (False, _) \<Rightarrow> Some ([], [])
            | (True, h) \<Rightarrow> do {
                SInfo \<leftarrow> T ! nat h;
                (rc, out) \<leftarrow> AdvertiseAndReply E T 0 h (target_of Evt) (MaxAge SInfo);
                Some ([], out) })
          else Some ([], []))"

section \<open>Clients and searches\<close>

definition UpnpUnRegisterClient :: "nat \<Rightarrow> (nat \<Rightarrow> cenv) \<Rightarrow> int \<Rightarrow> client \<Rightarrow> (int \<times> client) option" where
  "UpnpUnRegisterClient fuel E Hnd c = do {
     (rc, c) \<leftarrow> genaUnregisterClient fuel E Hnd c;
     if rc \<noteq> UPNP_E_SUCCESS then Some (UPNP_E_INVALID_HANDLE, c)
     else if GetHandleInfo (chandles c) Hnd = None then Some (UPNP_E_INVALID_HANDLE, c)
     else Some (UPNP_E_SUCCESS, c\<lparr>chandles := snd (FreeHandle (chandles c) Hnd)\<rparr>) }"

text \<open>The code, what the library is told to report, and the job; what \<open>SearchByTarget\<close> returns is lost.\<close>

definition UpnpSearchAsync ::
  "(nat \<Rightarrow> bool) \<Rightarrow> ThreadData \<Rightarrow> handle_table \<Rightarrow> int \<Rightarrow> int \<Rightarrow> string option \<Rightarrow> nat \<Rightarrow>
     (int \<times> told list \<times> ThreadData option) option" where
  "UpnpSearchAsync A td0 T Hnd Mx Target cookie =
     (if GetHandleInfo T Hnd \<noteq> Some HND_CLIENT then Some (UPNP_E_INVALID_HANDLE, [], None)
      else (case Target of
          None \<Rightarrow> Some (UPNP_E_INVALID_PARAM, [], None)
        | Some t \<Rightarrow> do {
            (_, out, job) \<leftarrow> SearchByTarget A td0 (if Mx < 1 then DEFAULT_MX else Mx) (Some t) cookie;
            Some (UPNP_E_SUCCESS, out, job) }))"

section \<open>Asynchronous calls\<close>

datatype UpnpFunName =
  SUBSCRIBE | UNSUBSCRIBE | DK_NOTIFY | QUERY | ACTION | STATUS | DEVDESCRIPTION | SERVDESCRIPTION | MINI | RENEW

text \<open>The arrays of names have \<^verbatim>\<open>NAME_SIZE\<close> bytes, an identifier (\<^verbatim>\<open>Upnp_SID\<close>) has 44.\<close>

definition UPNP_SID_SIZE :: nat where "UPNP_SID_SIZE = 44"

record UpnpNonblockParam =
  FunName :: UpnpFunName
  pHandle :: int
  pTimeOut :: int
  pVarName :: string
  pServiceType :: string
  pUrl :: string
  pSubsId :: string
  pCookie :: nat
  pFun :: nat
  pAct :: "dom option"

definition is_client :: "client \<Rightarrow> int \<Rightarrow> bool" where
  "is_client c Hnd = (GetHandleInfo (chandles c) Hnd = Some HND_CLIENT)"

text \<open>
  The five functions: the code and the job posted.  \<open>p\<close> is the block allocated for the job, if any.  The
  names are copied without a test of their length.
\<close>

definition UpnpSubscribeAsync ::
  "UpnpNonblockParam option \<Rightarrow> client \<Rightarrow> int \<Rightarrow> string option \<Rightarrow> int \<Rightarrow> nat \<Rightarrow> nat \<Rightarrow>
     (int \<times> UpnpNonblockParam option) option" where
  "UpnpSubscribeAsync p c Hnd EvtUrl TimeOut Fun cookie =
     (if \<not> is_client c Hnd then Some (UPNP_E_INVALID_HANDLE, None)
      else (case EvtUrl of
          None \<Rightarrow> Some (UPNP_E_INVALID_URL, None)
        | Some url \<Rightarrow>
            if TimeOut \<noteq> UPNP_INFINITE \<and> TimeOut < 1 then Some (UPNP_E_INVALID_PARAM, None)
            else if Fun = 0 then Some (UPNP_E_INVALID_PARAM, None)
            else (case p of
                None \<Rightarrow> Some (UPNP_E_OUTOF_MEMORY, None)
              | Some Param \<Rightarrow> do {
                  u \<leftarrow> block_of NAME_SIZE url;
                  Some (UPNP_E_SUCCESS, Some (Param\<lparr>FunName := SUBSCRIBE, pHandle := Hnd, pUrl := u, pTimeOut := TimeOut,
                    pFun := Fun, pCookie := cookie\<rparr>)) })))"

definition UpnpUnSubscribeAsync ::
  "UpnpNonblockParam option \<Rightarrow> client \<Rightarrow> int \<Rightarrow> string option \<Rightarrow> nat \<Rightarrow> nat \<Rightarrow>
     (int \<times> UpnpNonblockParam option) option" where
  "UpnpUnSubscribeAsync p c Hnd SubsId Fun cookie =
     (if \<not> is_client c Hnd then Some (UPNP_E_INVALID_HANDLE, None)
      else (case SubsId of
          None \<Rightarrow> Some (UPNP_E_INVALID_SID, None)
        | Some sid \<Rightarrow>
            if Fun = 0 then Some (UPNP_E_INVALID_PARAM, None)
            else (case p of
                None \<Rightarrow> Some (UPNP_E_OUTOF_MEMORY, None)
              | Some Param \<Rightarrow> do {
                  s \<leftarrow> block_of UPNP_SID_SIZE sid;
                  Some (UPNP_E_SUCCESS, Some (Param\<lparr>FunName := UNSUBSCRIBE, pHandle := Hnd, pSubsId := s, pFun := Fun,
                    pCookie := cookie\<rparr>)) })))"

definition UpnpRenewSubscriptionAsync ::
  "UpnpNonblockParam option \<Rightarrow> client \<Rightarrow> int \<Rightarrow> int \<Rightarrow> string option \<Rightarrow> nat \<Rightarrow> nat \<Rightarrow>
     (int \<times> UpnpNonblockParam option) option" where
  "UpnpRenewSubscriptionAsync p c Hnd TimeOut SubsId Fun cookie =
     (if \<not> is_client c Hnd then Some (UPNP_E_INVALID_HANDLE, None)
      else if TimeOut \<noteq> UPNP_INFINITE \<and> TimeOut < 1 then Some (UPNP_E_INVALID_PARAM, None)
      else (case SubsId of
          None \<Rightarrow> Some (UPNP_E_INVALID_SID, None)
        | Some sid \<Rightarrow>
            if Fun = 0 then Some (UPNP_E_INVALID_PARAM, None)
            else (case p of
                None \<Rightarrow> Some (UPNP_E_OUTOF_MEMORY, None)
              | Some Param \<Rightarrow> do {
                  s \<leftarrow> block_of UPNP_SID_SIZE sid;
                  Some (UPNP_E_SUCCESS, Some (Param\<lparr>FunName := RENEW, pHandle := Hnd, pSubsId := s, pFun := Fun,
                    pCookie := cookie, pTimeOut := TimeOut\<rparr>)) })))"

definition UpnpSendActionAsync ::
  "xml_lib \<Rightarrow> UpnpNonblockParam option \<Rightarrow> client \<Rightarrow> int \<Rightarrow> string option \<Rightarrow> string option \<Rightarrow> dom option \<Rightarrow> nat \<Rightarrow> nat \<Rightarrow>
     (int \<times> UpnpNonblockParam option) option" where
  "UpnpSendActionAsync X p c Hnd ActionURL ServType Act Fun cookie =
     (if \<not> is_client c Hnd then Some (UPNP_E_INVALID_HANDLE, None)
      else (case ActionURL of
          None \<Rightarrow> Some (UPNP_E_INVALID_URL, None)
        | Some url \<Rightarrow>
            (case (ServType, Act) of
               (Some st, Some a) \<Rightarrow>
                 if Fun = 0 then Some (UPNP_E_INVALID_PARAM, None)
                 else (case xprint X a of
                     None \<Rightarrow> Some (UPNP_E_INVALID_ACTION, None)
                   | Some tmpStr \<Rightarrow>
                       (case p of
                          None \<Rightarrow> Some (UPNP_E_OUTOF_MEMORY, None)
                        | Some Param \<Rightarrow> do {
                            u \<leftarrow> block_of NAME_SIZE url;
                            s \<leftarrow> block_of NAME_SIZE st;
                            Some (UPNP_E_SUCCESS, Some (Param\<lparr>FunName := ACTION, pHandle := Hnd, pUrl := u, pServiceType := s,
                              pAct := xparse X tmpStr, pCookie := cookie, pFun := Fun\<rparr>)) }))
             | _ \<Rightarrow> Some (UPNP_E_INVALID_PARAM, None))))"

definition UpnpGetServiceVarStatusAsync ::
  "UpnpNonblockParam option \<Rightarrow> client \<Rightarrow> int \<Rightarrow> string option \<Rightarrow> string option \<Rightarrow> nat \<Rightarrow> nat \<Rightarrow>
     (int \<times> UpnpNonblockParam option) option" where
  "UpnpGetServiceVarStatusAsync p c Hnd ActionURL VarName Fun cookie =
     (if \<not> is_client c Hnd then Some (UPNP_E_INVALID_HANDLE, None)
      else (case ActionURL of
          None \<Rightarrow> Some (UPNP_E_INVALID_URL, None)
        | Some url \<Rightarrow>
            (case VarName of
               None \<Rightarrow> Some (UPNP_E_INVALID_PARAM, None)
             | Some v \<Rightarrow>
                 if Fun = 0 then Some (UPNP_E_INVALID_PARAM, None)
                 else (case p of
                     None \<Rightarrow> Some (UPNP_E_OUTOF_MEMORY, None)
                   | Some Param \<Rightarrow> do {
                       u \<leftarrow> block_of NAME_SIZE url;
                       n \<leftarrow> block_of NAME_SIZE v;
                       Some (UPNP_E_SUCCESS, Some (Param\<lparr>FunName := STATUS, pHandle := Hnd, pUrl := u, pVarName := n,
                         pFun := Fun, pCookie := cookie\<rparr>)) }))))"

section \<open>Waiting calls\<close>

definition UpnpSubscribe ::
  "cenv \<Rightarrow> int \<Rightarrow> string option \<Rightarrow> int option \<Rightarrow> bool \<Rightarrow> client \<Rightarrow> (int \<times> string option \<times> int option \<times> client) option" where
  "UpnpSubscribe e Hnd EvtUrl TimeOut SubsId_null c =
     (if \<not> is_client c Hnd then Some (UPNP_E_INVALID_HANDLE, None, TimeOut, c)
      else (case EvtUrl of
          None \<Rightarrow> Some (UPNP_E_INVALID_URL, None, TimeOut, c)
        | Some url \<Rightarrow>
            if TimeOut = None \<or> SubsId_null then Some (UPNP_E_INVALID_PARAM, None, TimeOut, c)
            else genaSubscribe e Hnd url TimeOut c))"

definition UpnpUnSubscribe :: "cenv \<Rightarrow> int \<Rightarrow> string option \<Rightarrow> client \<Rightarrow> (int \<times> client) option" where
  "UpnpUnSubscribe e Hnd SubsId c =
     (if \<not> is_client c Hnd then Some (UPNP_E_INVALID_HANDLE, c)
      else (case SubsId of
          None \<Rightarrow> Some (UPNP_E_INVALID_SID, c)
        | Some sid \<Rightarrow> genaUnSubscribe e Hnd sid c))"

definition UpnpRenewSubscription ::
  "cenv \<Rightarrow> int \<Rightarrow> int option \<Rightarrow> string option \<Rightarrow> client \<Rightarrow> (int \<times> int option \<times> client) option" where
  "UpnpRenewSubscription e Hnd TimeOut SubsId c =
     (if \<not> is_client c Hnd then Some (UPNP_E_INVALID_HANDLE, TimeOut, c)
      else if TimeOut = None then Some (UPNP_E_INVALID_PARAM, TimeOut, c)
      else (case SubsId of
          None \<Rightarrow> Some (UPNP_E_INVALID_SID, TimeOut, c)
        | Some sid \<Rightarrow> genaRenewSubscription e Hnd sid TimeOut c))"

text \<open>The action is a document, NULL when it could not be parsed again; \<open>has_resp\<close> tells the pointer for the result.\<close>

definition send_action ::
  "cenv \<Rightarrow> xml_lib \<Rightarrow> string \<Rightarrow> string \<Rightarrow> dom option \<Rightarrow> dom option \<Rightarrow> (int \<times> dom option) option" where
  "send_action e X url st Act Resp =
     (case Act of
        None \<Rightarrow> Some (UPNP_E_INVALID_ACTION, Resp)
      | Some a \<Rightarrow> map_option (\<lambda>(rc, r, _). (rc, r)) (SoapSendAction e X url st a Resp))"

definition UpnpSendAction ::
  "cenv \<Rightarrow> xml_lib \<Rightarrow> client \<Rightarrow> int \<Rightarrow> string option \<Rightarrow> string option \<Rightarrow> dom option \<Rightarrow> bool \<Rightarrow> dom option \<Rightarrow>
     (int \<times> dom option) option" where
  "UpnpSendAction e X c Hnd ActionURL ServType Action has_resp Resp =
     (if \<not> is_client c Hnd then Some (UPNP_E_INVALID_HANDLE, Resp)
      else (case ActionURL of
          None \<Rightarrow> Some (UPNP_E_INVALID_URL, Resp)
        | Some url \<Rightarrow>
            (case (ServType, Action, has_resp) of
               (Some st, Some a, True) \<Rightarrow> send_action e X url st (Some a) Resp
             | _ \<Rightarrow> Some (UPNP_E_INVALID_PARAM, Resp))))"

text \<open>
  The value stored: \<open>None\<close> when nothing is, \<open>Some None\<close> for the indeterminate contents of the
  pointer on the stack, otherwise the string or NULL.
\<close>

definition UpnpGetServiceVarStatus ::
  "cenv \<Rightarrow> xml_lib \<Rightarrow> client \<Rightarrow> int \<Rightarrow> string option \<Rightarrow> string option \<Rightarrow> bool \<Rightarrow> (int \<times> string option option option) option" where
  "UpnpGetServiceVarStatus e X c Hnd ActionURL VarName has_out =
     (if \<not> is_client c Hnd then Some (UPNP_E_INVALID_HANDLE, None)
      else (case ActionURL of
          None \<Rightarrow> Some (UPNP_E_INVALID_URL, None)
        | Some url \<Rightarrow>
            (case (VarName, has_out) of
               (Some v, True) \<Rightarrow> map_option (\<lambda>(rc, val, _). (rc, Some val)) (SoapGetServiceVarStatus e X url v)
             | _ \<Rightarrow> Some (UPNP_E_INVALID_PARAM, None))))"

section \<open>The job of an asynchronous call\<close>

text \<open>
  \<open>Evt\<close> is what the record on the stack holds.  After a query the value is freed: when nothing was stored
  the pointer is indeterminate.
\<close>

definition UpnpThreadDistribution ::
  "cenv \<Rightarrow> xml_lib \<Rightarrow> Upnp_Event_Subscribe \<Rightarrow> UpnpNonblockParam \<Rightarrow> client \<Rightarrow> (app_call option \<times> client) option" where
  "UpnpThreadDistribution e X Evt Param c =
     (let call = (\<lambda>typ ev. Some \<lparr>to_fun = pFun Param, to_type = typ, to_event = ev, to_cookie = pCookie Param\<rparr>) in
      case FunName Param of
        SUBSCRIBE \<Rightarrow> do {
          (rc, sid, t, c) \<leftarrow> genaSubscribe e (pHandle Param) (pUrl Param) (Some (pTimeOut Param)) c;
          u \<leftarrow> block_of NAME_SIZE (pUrl Param);
          Some (call UPNP_EVENT_SUBSCRIBE_COMPLETE (Subscribe_Event (Evt\<lparr>es_ErrCode := rc,
            es_Sid := (case sid of None \<Rightarrow> es_Sid Evt | Some s \<Rightarrow> s), es_PublisherUrl := u,
            es_TimeOut := (case t of None \<Rightarrow> pTimeOut Param | Some n \<Rightarrow> n)\<rparr>)), c) }
      | UNSUBSCRIBE \<Rightarrow> do {
          (rc, c) \<leftarrow> genaUnSubscribe e (pHandle Param) (pSubsId Param) c;
          s \<leftarrow> block_of UPNP_SID_SIZE (pSubsId Param);
          Some (call UPNP_EVENT_UNSUBSCRIBE_COMPLETE (Subscribe_Event (Evt\<lparr>es_ErrCode := rc, es_Sid := s\<rparr>)), c) }
      | RENEW \<Rightarrow> do {
          (rc, t, c) \<leftarrow> genaRenewSubscription e (pHandle Param) (pSubsId Param) (Some (pTimeOut Param)) c;
          s \<leftarrow> block_of UPNP_SID_SIZE (pSubsId Param);
          Some (call UPNP_EVENT_RENEWAL_COMPLETE (Subscribe_Event (Evt\<lparr>es_ErrCode := rc,
            es_TimeOut := (case t of None \<Rightarrow> pTimeOut Param | Some n \<Rightarrow> n), es_Sid := s\<rparr>)), c) }
      | ACTION \<Rightarrow> do {
          (rc, result) \<leftarrow> send_action e X (pUrl Param) (pServiceType Param) (pAct Param) None;
          u \<leftarrow> block_of NAME_SIZE (pUrl Param);
          Some (call UPNP_CONTROL_ACTION_COMPLETE (Action_Event \<lparr>ac_ErrCode = rc, ac_CtrlUrl = u,
            ac_ActionRequest = pAct Param, ac_ActionResult = result\<rparr>), c) }
      | STATUS \<Rightarrow> do {
          (rc, val, _) \<leftarrow> SoapGetServiceVarStatus e X (pUrl Param) (pVarName Param);
          n \<leftarrow> block_of NAME_SIZE (pVarName Param);
          u \<leftarrow> block_of NAME_SIZE (pUrl Param);
          v \<leftarrow> val;
          Some (call UPNP_CONTROL_GET_VAR_COMPLETE (Var_Event \<lparr>sv_ErrCode = rc, sv_CtrlUrl = u,
            sv_StateVarName = n, sv_CurrentVal = v\<rparr>), c) }
      | _ \<Rightarrow> Some (None, c))"

section \<open>Asynchronous and waiting calls agree\<close>

text \<open>
  C33. When an asynchronous call is accepted, the job it posts makes the same change to the subscriptions as
  the waiting call with the same arguments, made when the job runs, and tells the function of the caller,
  with its cookie, the code and the values that the waiting call returns.
\<close>

theorem subscription_calls_agree:
  assumes "is_client c Hnd"
  shows "(UpnpSubscribeAsync p old Hnd url n Fun ck = Some (UPNP_E_SUCCESS, Some P) \<longrightarrow>
      UpnpThreadDistribution e X Evt P c = map_option (\<lambda>(rc, sid, t, c').
        (Some \<lparr>to_fun = Fun, to_type = UPNP_EVENT_SUBSCRIBE_COMPLETE,
           to_event = Subscribe_Event (Evt\<lparr>es_ErrCode := rc, es_Sid := (case sid of None \<Rightarrow> es_Sid Evt | Some s \<Rightarrow> s),
             es_PublisherUrl := the url, es_TimeOut := (case t of None \<Rightarrow> n | Some m \<Rightarrow> m)\<rparr>), to_cookie = ck\<rparr>, c'))
        (UpnpSubscribe e Hnd url (Some n) False c)) \<and>
    (UpnpUnSubscribeAsync p old Hnd sid Fun ck = Some (UPNP_E_SUCCESS, Some P) \<longrightarrow>
      UpnpThreadDistribution e X Evt P c = map_option (\<lambda>(rc, c').
        (Some \<lparr>to_fun = Fun, to_type = UPNP_EVENT_UNSUBSCRIBE_COMPLETE,
           to_event = Subscribe_Event (Evt\<lparr>es_ErrCode := rc, es_Sid := the sid\<rparr>), to_cookie = ck\<rparr>, c'))
        (UpnpUnSubscribe e Hnd sid c)) \<and>
    (UpnpRenewSubscriptionAsync p old Hnd n sid Fun ck = Some (UPNP_E_SUCCESS, Some P) \<longrightarrow>
      UpnpThreadDistribution e X Evt P c = map_option (\<lambda>(rc, t, c').
        (Some \<lparr>to_fun = Fun, to_type = UPNP_EVENT_RENEWAL_COMPLETE,
           to_event = Subscribe_Event (Evt\<lparr>es_ErrCode := rc, es_TimeOut := (case t of None \<Rightarrow> n | Some m \<Rightarrow> m), es_Sid := the sid\<rparr>),
           to_cookie = ck\<rparr>, c'))
        (UpnpRenewSubscription e Hnd (Some n) sid c))"
proof -
  have sub: "UpnpThreadDistribution e X Evt P c = map_option (\<lambda>(rc, sid, t, c').
        (Some \<lparr>to_fun = Fun, to_type = UPNP_EVENT_SUBSCRIBE_COMPLETE,
           to_event = Subscribe_Event (Evt\<lparr>es_ErrCode := rc, es_Sid := (case sid of None \<Rightarrow> es_Sid Evt | Some s \<Rightarrow> s),
             es_PublisherUrl := the url, es_TimeOut := (case t of None \<Rightarrow> n | Some m \<Rightarrow> m)\<rparr>), to_cookie = ck\<rparr>, c'))
        (UpnpSubscribe e Hnd url (Some n) False c)"
    if a: "UpnpSubscribeAsync p old Hnd url n Fun ck = Some (UPNP_E_SUCCESS, Some P)"
  proof -
    obtain u p0 where u: "url = Some u" "length u < NAME_SIZE" "P = p0\<lparr>FunName := SUBSCRIBE, pHandle := Hnd, pUrl := u,
        pTimeOut := n, pFun := Fun, pCookie := ck\<rparr>"
      using a by (auto simp: UpnpSubscribeAsync_def block_of_def split: if_split_asm option.split_asm)
    show ?thesis using assms u
      by (cases "genaSubscribe e Hnd u (Some n) c") (auto simp: UpnpThreadDistribution_def UpnpSubscribe_def block_of_def Let_def split: option.split)
  qed
  have unsub: "UpnpThreadDistribution e X Evt P c = map_option (\<lambda>(rc, c').
        (Some \<lparr>to_fun = Fun, to_type = UPNP_EVENT_UNSUBSCRIBE_COMPLETE,
           to_event = Subscribe_Event (Evt\<lparr>es_ErrCode := rc, es_Sid := the sid\<rparr>), to_cookie = ck\<rparr>, c'))
        (UpnpUnSubscribe e Hnd sid c)"
    if a: "UpnpUnSubscribeAsync p old Hnd sid Fun ck = Some (UPNP_E_SUCCESS, Some P)"
  proof -
    obtain s p0 where u: "sid = Some s" "length s < UPNP_SID_SIZE" "P = p0\<lparr>FunName := UNSUBSCRIBE, pHandle := Hnd,
        pSubsId := s, pFun := Fun, pCookie := ck\<rparr>"
      using a by (auto simp: UpnpUnSubscribeAsync_def block_of_def split: if_split_asm option.split_asm)
    show ?thesis using assms u
      by (cases "genaUnSubscribe e Hnd s c") (auto simp: UpnpThreadDistribution_def UpnpUnSubscribe_def block_of_def Let_def)
  qed
  have renew: "UpnpThreadDistribution e X Evt P c = map_option (\<lambda>(rc, t, c').
        (Some \<lparr>to_fun = Fun, to_type = UPNP_EVENT_RENEWAL_COMPLETE,
           to_event = Subscribe_Event (Evt\<lparr>es_ErrCode := rc, es_TimeOut := (case t of None \<Rightarrow> n | Some m \<Rightarrow> m), es_Sid := the sid\<rparr>),
           to_cookie = ck\<rparr>, c'))
        (UpnpRenewSubscription e Hnd (Some n) sid c)"
    if a: "UpnpRenewSubscriptionAsync p old Hnd n sid Fun ck = Some (UPNP_E_SUCCESS, Some P)"
  proof -
    obtain s p0 where u: "sid = Some s" "length s < UPNP_SID_SIZE" "P = p0\<lparr>FunName := RENEW, pHandle := Hnd,
        pSubsId := s, pFun := Fun, pCookie := ck, pTimeOut := n\<rparr>"
      using a by (auto simp: UpnpRenewSubscriptionAsync_def block_of_def split: if_split_asm option.split_asm)
    show ?thesis using assms u
      by (cases "genaRenewSubscription e Hnd s (Some n) c") (auto simp: UpnpThreadDistribution_def UpnpRenewSubscription_def block_of_def Let_def split: option.split)
  qed
  show ?thesis using sub unsub renew by blast
qed

text \<open>
  A query whose answer is no document, or for which no memory is left, stores no value: the job then frees
  what the pointer on its stack happens to hold.
\<close>

theorem failed_query_frees_garbage:
  assumes "UpnpGetServiceVarStatusAsync p old Hnd url v Fun ck = Some (UPNP_E_SUCCESS, Some P)"
    and "SoapGetServiceVarStatus e X (the url) (the v) = Some (rc, None, sent)"
  shows "UpnpThreadDistribution e X Evt P c = None"
  using assms
  by (auto simp: UpnpGetServiceVarStatusAsync_def UpnpThreadDistribution_def block_of_def Let_def split: if_split_asm option.split_asm)

section \<open>Events that the parser fills\<close>

text \<open>Every text of the event fits the array that the application's record has for it.\<close>

definition event_fits :: "Event \<Rightarrow> bool" where
  "event_fits E = list_all (\<lambda>s. length s < LINE_SIZE)
     [sUDN E, sDeviceType E, sServiceType E, sLocation E, sHostAddr E, sOs E, sExt E, sDate E, sMan E]"

definition parsed_from :: "Event \<Rightarrow> Event \<Rightarrow> bool" where
  "parsed_from E E' = (event_fits E' \<and> sDestAddr E' = sDestAddr E \<and> sCookie E' = sCookie E)"

lemma parsed_from_trans: "parsed_from E E1 \<Longrightarrow> parsed_from E1 E2 \<Longrightarrow> parsed_from E E2"
  by (simp add: parsed_from_def)

lemma name_parts_fit:
  "plain_udn v = Some (Some s) \<Longrightarrow> length s < LINE_SIZE"
  "typed_name v k = Some (Some s) \<Longrightarrow> length s < LINE_SIZE"
  by (auto simp: plain_udn_def typed_name_def block_of_def split: option.split_asm if_split_asm)

lemma schema_name_fits:
  assumes "schema_name v E = Some (r, E')" "event_fits E"
  shows "parsed_from E E'"
proof -
  have "E' = E \<or> (\<exists>u x. block_of LINE_SIZE x = Some u \<and> E' = E\<lparr>sUDN := u\<rparr>) \<or>
      (\<exists>u x d y. block_of LINE_SIZE x = Some u \<and> block_of LINE_SIZE y = Some d \<and> E' = E\<lparr>sUDN := u, sDeviceType := d\<rparr>)"
    using assms(1) by (simp add: schema_name_def bind_eq_Some_conv Let_def split: option.split_asm) blast+
  then show ?thesis using assms(2) block_of_length by (auto simp: parsed_from_def event_fits_def)
qed

lemma names_fit:
  assumes "Unique_Service_Name v E = Some (r, E')" "event_fits E"
  shows "parsed_from E E'"
proof (cases "strstr v ''uuid:schemas'' = None")
  case False
  then have "schema_name v E = Some (r, E')" using assms(1) by (simp add: Unique_Service_Name_def)
  then show ?thesis by (rule schema_name_fits [OF _ assms(2)])
next
  case True
  then obtain udn serv dev where p: "plain_udn v = Some udn" "typed_name v '':service:'' = Some serv" "typed_name v '':device:'' = Some dev"
    and E': "E' = E\<lparr>sUDN := (case udn of None \<Rightarrow> sUDN E | Some s \<Rightarrow> s),
      sServiceType := (case serv of None \<Rightarrow> sServiceType E | Some s \<Rightarrow> s),
      sDeviceType := (case dev of None \<Rightarrow> sDeviceType E | Some s \<Rightarrow> s)\<rparr>"
    using assms(1) by (auto simp: Unique_Service_Name_def bind_eq_Some_conv Let_def)
  then have "case udn of None \<Rightarrow> True | Some s \<Rightarrow> length s < LINE_SIZE" "case serv of None \<Rightarrow> True | Some s \<Rightarrow> length s < LINE_SIZE"
    "case dev of None \<Rightarrow> True | Some s \<Rightarrow> length s < LINE_SIZE"
    using name_parts_fit by (auto split: option.split)
  then show ?thesis using assms(2) E' by (simp add: parsed_from_def event_fits_def split: option.split option.split_asm)
qed

lemma event_fits_upd:
  "event_fits (E\<lparr>sErrCode := i\<rparr>) = event_fits E" "event_fits (E\<lparr>sMaxAge := i\<rparr>) = event_fits E"
  "event_fits (E\<lparr>sMx := i\<rparr>) = event_fits E" "event_fits (E\<lparr>sCmd := k\<rparr>) = event_fits E"
  "event_fits E \<Longrightarrow> length s < LINE_SIZE \<Longrightarrow> event_fits (E\<lparr>sLocation := s\<rparr>)"
  "event_fits E \<Longrightarrow> length s < LINE_SIZE \<Longrightarrow> event_fits (E\<lparr>sHostAddr := s\<rparr>)"
  "event_fits E \<Longrightarrow> length s < LINE_SIZE \<Longrightarrow> event_fits (E\<lparr>sExt := s\<rparr>)"
  "event_fits E \<Longrightarrow> length s < LINE_SIZE \<Longrightarrow> event_fits (E\<lparr>sOs := s\<rparr>)"
  "event_fits E \<Longrightarrow> length s < LINE_SIZE \<Longrightarrow> event_fits (E\<lparr>sMan := s\<rparr>)"
  "event_fits E \<Longrightarrow> length s < LINE_SIZE \<Longrightarrow> event_fits (E\<lparr>sDate := s\<rparr>)"
  by (simp_all add: event_fits_def)

lemma value_handlers_fit:
  assumes "event_fits E"
  shows "Cache_Control v E = Some (r, E') \<Longrightarrow> parsed_from E E'"
    and "Location_Header v E = Some (r, E') \<Longrightarrow> parsed_from E E'"
    and "Host v E = Some (r, E') \<Longrightarrow> parsed_from E E'"
    and "Fun_Ext v E = Some (r, E') \<Longrightarrow> parsed_from E E'"
    and "Os v E = Some (r, E') \<Longrightarrow> parsed_from E E'"
    and "Fun_MAN v E = Some (r, E') \<Longrightarrow> parsed_from E E'"
    and "Max_Delay v E = Some (r, E') \<Longrightarrow> parsed_from E E'"
    and "Fun_Date v E = Some (r, E') \<Longrightarrow> parsed_from E E'"
    and "Notification_Sub_Type v E = Some (r, E') \<Longrightarrow> parsed_from E E'"
  using assms
  by (auto simp: Cache_Control_def Location_Header_def Host_def Fun_Ext_def Os_def Fun_MAN_def Max_Delay_def
      Fun_Date_def Notification_Sub_Type_def bind_eq_Some_conv parsed_from_def event_fits_upd Let_def
      split: option.split_asm prod.split_asm if_split_asm dest!: block_of_length)

lemma parsed_from_upd: "parsed_from E (E'\<lparr>sErrCode := a\<rparr>) = parsed_from E E'"
  "parsed_from E (E'\<lparr>sRequestType := b\<rparr>) = parsed_from E E'"
  by (simp_all add: parsed_from_def event_fits_def)

lemma Request_fits: "Request_Tpye v E = Some (r, E') \<Longrightarrow> event_fits E \<Longrightarrow> parsed_from E E'"
  unfolding Request_Tpye_def
  by (auto simp: bind_eq_Some_conv Let_def parsed_from_upd dest: names_fit split: if_split_asm)

lemma handler_fits:
  assumes "find_handler k = Some f" "f v E = Some (r, E')" "event_fits E"
  shows "parsed_from E E'"
proof -
  have "f \<in> set InitParser"
    using assms(1) by (auto simp: find_handler_def find_Some_iff set_zip Token_List_def InitParser_def nth_Cons'
        split: if_split_asm)
  then show ?thesis using assms(2) names_fit [OF _ assms(3)] Request_fits [OF _ assms(3)] value_handlers_fit [OF assms(3)] by (auto simp: InitParser_def)
qed

lemma header_loop_fits: "header_loop ls rv E = Some (r, E') \<Longrightarrow> event_fits E \<Longrightarrow> parsed_from E E'"
proof (induction ls arbitrary: rv E)
  case (Cons l ls)
  obtain k rest where s: "StrTok (Some l) '':'' = (Some k, rest)" by (rule StrTok_Some)
  show ?case
  proof (cases "find_handler k")
    case (Some f)
    then obtain v r1 E1 where f: "rest = Some v" "f v E = Some (r1, E1)"
      using Cons.prems(1) s by (auto simp: bind_eq_Some_conv)
    have p: "parsed_from E E1" by (rule handler_fits [OF Some f(2) Cons.prems(2)])
    then have "event_fits E1" by (simp add: parsed_from_def)
    then show ?thesis using Cons.IH Cons.prems(1) s Some f p parsed_from_trans [OF p] by (auto split: if_split_asm)
  qed (use Cons s in auto)
qed (simp add: parsed_from_def)

lemma CheckHdr_fits:
  assumes "CheckHdr h E = Some (r, E')" "event_fits E"
  shows "parsed_from E E'"
proof -
  obtain t1 r1 where 1: "StrTok (Some h) [SP] = (t1, r1)" by fastforce
  obtain t2 r2 where 2: "StrTok r1 [SP] = (t2, r2)" by fastforce
  obtain t3 r3 where 3: "StrTok r2 [SP] = (t3, r3)" by fastforce
  have b: "block_of COMMAND_LEN h = Some h" using assms(1) by (auto simp: CheckHdr_def bind_eq_Some_conv block_of_Some)
  have "(\<exists>x. E' = E\<lparr>sErrCode := x\<rparr>) \<or> (\<exists>x. E' = E\<lparr>sCmd := x\<rparr>)"
    using assms(1)
    by (cases "has t1 ''M-SEARCH''"; cases "has t1 ''NOTIFY''"; cases "has t1 ''HTTP/1.1''"; cases "has t2 ''*''";
        cases "has t2 ''200''"; cases "has t3 ''HTTP/1.1''"; cases "has t3 ''OK''")
      (auto simp: CheckHdr_def b 1 2 3 Let_def split: if_split_asm)
  then show ?thesis using assms(2) by (auto simp: parsed_from_def event_fits_def)
qed

lemma AnalyzeCommand_fits:
  assumes "AnalyzeCommand m (Some s) Evt = Some (r, E)" "0 < r"
  shows "parsed_from Evt E"
proof -
  obtain ls hdr E1 where a: "command_loop (Some s) [] = Some ls" "CheckHdr (hd ls) (InitEvent Evt) = Some (hdr, E1)"
    "header_loop (tl ls) 1 E1 = Some (r, E)"
    using assms by (auto simp: AnalyzeCommand_def bind_eq_Some_conv split: if_split_asm)
  have i: "event_fits (InitEvent Evt)" "sDestAddr (InitEvent Evt) = sDestAddr Evt" "sCookie (InitEvent Evt) = sCookie Evt"
    by (simp_all add: event_fits_def InitEvent_def LINE_SIZE_def)
  have p: "parsed_from (InitEvent Evt) E1" by (rule CheckHdr_fits [OF a(2) i(1)])
  then have "parsed_from E1 E" using header_loop_fits [OF a(3)] by (simp add: parsed_from_def)
  then show ?thesis using p i by (simp add: parsed_from_def)
qed

section \<open>Discovery, end to end\<close>

text \<open>
  What a host does with a datagram that reaches its listener: the job of the listener, then the callback for
  each event.  \<open>e0\<close> is what an error event holds beside its code.
\<close>

fun tell_all ::
  "handle_table \<Rightarrow> Upnp_Discovery option \<Rightarrow> (nat \<Rightarrow> nat \<Rightarrow> adv_env) \<Rightarrow> Event \<Rightarrow> told list \<Rightarrow>
     (app_call list \<times> (destination \<times> string) list) option" where
  "tell_all T param E e0 [] = Some ([], [])"
| "tell_all T param E e0 (t # ts) = do {
     (cs, ps) \<leftarrow> SsdpCallbackEventHandler T param E
       (Some (case t of Callback Evt \<Rightarrow> Evt | Error_Event code \<Rightarrow> e0\<lparr>sErrCode := code\<rparr>));
     (cs', ps') \<leftarrow> tell_all T param E e0 ts;
     Some (cs @ cs', ps @ ps') }"

definition datagram_told ::
  "handle_table \<Rightarrow> Upnp_Discovery option \<Rightarrow> (nat \<Rightarrow> nat \<Rightarrow> adv_env) \<Rightarrow> int \<Rightarrow> Event \<Rightarrow> ThreadData \<Rightarrow>
     (app_call list \<times> (destination \<times> string) list) option" where
  "datagram_told T param E r Evt ThData = do {
     out \<leftarrow> TransferResEvent (\<lambda>_. True) r Evt ThData;
     tell_all T param E Evt out }"

text \<open>What the receiving loop of a search does with a packet: the event gets the cookie of the search.\<close>

definition reply_told ::
  "handle_table \<Rightarrow> Upnp_Discovery option \<Rightarrow> (nat \<Rightarrow> nat \<Rightarrow> adv_env) \<Rightarrow> nat \<Rightarrow> Event \<Rightarrow> string \<Rightarrow>
     (app_call list \<times> (destination \<times> string) list) option" where
  "reply_told T param E ck Evt p = do {
     (rc, Evt) \<leftarrow> AnalyzeCommand True (Some p) Evt;
     if 0 \<le> rc then SsdpCallbackEventHandler T param E (Some (Evt\<lparr>sCookie := ck\<rparr>)) else Some ([], []) }"

text \<open>
  A control point whose client is found, and the record it is given for a packet that announces a name of a device:
  the UDN, the device type and the service type of that name, the location, the expiration time, no error.
\<close>

definition has_client :: "handle_table \<Rightarrow> Handle_Info \<Rightarrow> bool" where
  "has_client T ci = (\<exists>h. GetClientHandleInfo T = (True, h) \<and> T ! nat h = Some ci)"

definition reports :: "Handle_Info \<Rightarrow> Upnp_EventType \<Rightarrow> nat \<Rightarrow> string \<Rightarrow> nat \<Rightarrow> string \<times> announced_name \<Rightarrow>
    (app_call list \<times> (destination \<times> string) list) option \<Rightarrow> bool" where
  "reports ci typ ck loc dur = (\<lambda>(udn, n) r. case r of
     Some ([c], []) \<Rightarrow> to_fun c = Handle_Info.Callback ci \<and> to_type c = typ \<and> to_cookie c = ck \<and>
       (case to_event c of Discovery_Event d \<Rightarrow>
          di_DeviceId d = udn \<and> di_DeviceType d = device_type_read n \<and> di_ServiceType d = service_type_read n \<and>
          di_Location d = loc \<and> di_Expires d = int dur \<and> di_ErrCode d = 0
        | _ \<Rightarrow> False)
   | _ \<Rightarrow> False)"

lemma discovery_of_fits:
  assumes "event_fits Evt"
  obtains d where "discovery_of Evt param = Some d" "di_DeviceId d = sUDN Evt" "di_Expires d = sMaxAge Evt"
    "di_DeviceType d = sDeviceType Evt" "di_ServiceType d = sServiceType Evt"
    "di_Location d = dropWhile (\<lambda>c. c = SP) (sLocation Evt)" "di_ErrCode d = sErrCode Evt"
proof -
  have "length (dropWhile (\<lambda>c. c = SP) (sLocation Evt)) < LINE_SIZE"
    using length_dropWhile_le [of "\<lambda>c. c = SP" "sLocation Evt"] assms by (simp add: event_fits_def)
  then show thesis using that assms by (simp add: discovery_of_def block_of_def event_fits_def)
qed

lemma event_reported:
  assumes "has_client T ci" "event_fits Evt" "sCmd Evt = packet_kind k" "sErrCode Evt = 0" "k \<in> {0, 1, 2}"
    and "sMaxAge Evt = int dur" "sLocation Evt = SP # loc" "sUDN Evt = udn" "loc \<noteq> []" "hd loc \<noteq> SP"
    and "sDeviceType Evt = device_type_read n" "sServiceType Evt = service_type_read n"
  shows "reports ci (fst (discovery_kind Evt ci)) (snd (discovery_kind Evt ci)) loc dur (udn, n)
    (SsdpCallbackEventHandler T (Some param) E (Some Evt))"
proof -
  obtain h where h: "GetClientHandleInfo T = (True, h)" "T ! nat h = Some ci" using assms(1) by (auto simp: has_client_def)
  have strip: "dropWhile (\<lambda>c. c = SP) (SP # loc) = loc" using assms(9,10) by (cases loc) auto
  obtain d where d: "discovery_of Evt param = Some d" "di_DeviceId d = udn" "di_Expires d = int dur"
      "di_Location d = loc" "di_ErrCode d = 0" "di_DeviceType d = device_type_read n" "di_ServiceType d = service_type_read n"
    using discovery_of_fits [OF assms(2), of param] assms(4,6-8,11,12) strip by metis
  have k: "sCmd Evt \<in> {SSDP_OK, SSDP_ALIVE, SSDP_BYEBYE}" using assms(3,5) by (auto simp: packet_kind_def)
  obtain kd ck where t: "discovery_kind Evt ci = (kd, ck)" by fastforce
  have "tell_client T (Some param) Evt =
      Some [\<lparr>to_fun = Handle_Info.Callback ci, to_type = kd, to_event = Discovery_Event d, to_cookie = ck\<rparr>]"
    using h d(1) k t by (auto simp: tell_client_def)
  then show ?thesis using d t k assms(4) by (auto simp: SsdpCallbackEventHandler_def reports_def)
qed

lemma announced_event:
  assumes "announces k loc dur Evt (u, n) p"
  obtains E where "AnalyzeCommand True (Some p) Evt = Some (1, E)" "sCmd E = packet_kind k" "sMaxAge E = int dur"
    "sLocation E = SP # loc" "sUDN E = u" "sErrCode E = 0" "parsed_from Evt E"
    "sDeviceType E = device_type_read n" "sServiceType E = service_type_read n"
  using assms AnalyzeCommand_fits [of True p Evt 1] by (auto simp: announces_def understood_def split: option.split_asm)

lemma notification_reported:
  assumes "announces k loc dur (Evt\<lparr>sErrCode := 0, sDestAddr := Some (td_DestAddr td)\<rparr>) un p" "k \<in> {0, 1}"
    and "has_client T ci" "loc \<noteq> []" "hd loc \<noteq> SP"
  shows "reports ci (if k = 1 then UPNP_DISCOVERY_ADVERTISEMENT_ALIVE else UPNP_DISCOVERY_ADVERTISEMENT_BYEBYE) (Cookie ci) loc dur un
    (datagram_told T (Some param) E r Evt (td\<lparr>td_Data := Some p\<rparr>))"
proof -
  obtain u n where un: "un = (u, n)" by fastforce
  obtain ev where ev: "AnalyzeCommand True (Some p) (Evt\<lparr>sErrCode := 0, sDestAddr := Some (td_DestAddr td)\<rparr>) = Some (1, ev)"
    "sCmd ev = packet_kind k" "sMaxAge ev = int dur" "sLocation ev = SP # loc" "sUDN ev = u" "sErrCode ev = 0"
    "parsed_from (Evt\<lparr>sErrCode := 0, sDestAddr := Some (td_DestAddr td)\<rparr>) ev"
    "sDeviceType ev = device_type_read n" "sServiceType ev = service_type_read n"
    by (rule announced_event [OF assms(1) [unfolded un]])
  have fits: "event_fits ev" using ev(7) by (simp add: parsed_from_def)
  have c: "sCmd ev \<noteq> SSDP_SEARCH" "discovery_kind ev ci =
      (if k = 1 then UPNP_DISCOVERY_ADVERTISEMENT_ALIVE else UPNP_DISCOVERY_ADVERTISEMENT_BYEBYE, Cookie ci)"
    using ev(2) assms(2) by (auto simp: packet_kind_def discovery_kind_def)
  have "datagram_told T (Some param) E r Evt (td\<lparr>td_Data := Some p\<rparr>) = SsdpCallbackEventHandler T (Some param) E (Some ev)"
    using ev(1) c(1) by (cases "SsdpCallbackEventHandler T (Some param) E (Some ev)") (auto simp: datagram_told_def TransferResEvent_def)
  then show ?thesis
    using event_reported [OF assms(3) fits ev(2,6) _ ev(3-5) assms(4,5) ev(8,9), of param E] assms(2) c(2) by (auto simp: un)
qed

text \<open>
  C5. What a device announces, or withdraws, reaches the application of every control point that gets the packets:
  for each due packet its client is called once, with the event of the announcement or withdrawal and its own
  cookie, and with the UDN of the device, the device type or the service type that the packet names, the expiration
  time, and the location as the device has it.
\<close>

theorem announcements_reach_application:
  assumes "device_info T Hnd = Some SInfo" "described SInfo ps" "AdFlag \<in> {1, - 1}"
    and "\<forall>i j. env_ok (E i j)" "\<forall>i j. list_all (part_ok (adv_host (E i j)) (DescURL SInfo) dur) ps"
    and "has_client Tc ci" "DescURL SInfo \<noteq> []" "hd (DescURL SInfo) \<noteq> SP"
  shows "\<exists>ms. AdvertiseAndReply E T AdFlag Hnd no_target (int dur) = Some (UPNP_E_SUCCESS, copies multicast ms) \<and>
    list_all2 (\<lambda>u p. reports ci (if AdFlag = 1 then UPNP_DISCOVERY_ADVERTISEMENT_ALIVE else UPNP_DISCOVERY_ADVERTISEMENT_BYEBYE)
        (Cookie ci) (DescURL SInfo) dur u (datagram_told Tc (Some param) E' r Evt (td\<lparr>td_Data := Some p\<rparr>)))
      (due_packets AdFlag no_target True ps) ms"
proof -
  let ?Evt = "Evt\<lparr>sErrCode := 0, sDestAddr := Some (td_DestAddr td)\<rparr>"
  have kinds: "call_kind AdFlag \<in> {0, 1}" "call_kind AdFlag = 1 \<longleftrightarrow> AdFlag = 1" "call_dest AdFlag no_target = multicast"
    "target_ok AdFlag no_target" "AdFlag \<noteq> 0"
    using assms(3) by (auto simp: call_kind_def call_dest_def target_ok_def)
  obtain ms where ms: "AdvertiseAndReply E T AdFlag Hnd no_target (int dur) = Some (UPNP_E_SUCCESS, copies multicast ms)"
    "list_all2 (announces (call_kind AdFlag) (DescURL SInfo) dur ?Evt) (due_packets AdFlag no_target True ps) ms"
    using devices_call [OF assms(4) kinds(4), of "int dur" dur SInfo multicast "DeviceList SInfo" ps 0 ?Evt] assms(1,2,5) kinds(3,5)
    by (auto simp: AdvertiseAndReply_def described_def)
  have "list_all2 (\<lambda>u p. reports ci (if AdFlag = 1 then UPNP_DISCOVERY_ADVERTISEMENT_ALIVE else UPNP_DISCOVERY_ADVERTISEMENT_BYEBYE)
        (Cookie ci) (DescURL SInfo) dur u (datagram_told Tc (Some param) E' r Evt (td\<lparr>td_Data := Some p\<rparr>)))
      (due_packets AdFlag no_target True ps) ms"
    by (rule list_all2_mono [OF ms(2)]) (drule notification_reported [OF _ kinds(1) assms(6-8)], simp add: kinds(2))
  then show ?thesis using ms(1) by blast
qed

lemma reply_reported:
  assumes "announces 2 loc dur Evt un p" "has_client T ci" "loc \<noteq> []" "hd loc \<noteq> SP"
  shows "reports ci UPNP_DISCOVERY_SEARCH_RESULT ck loc dur un (reply_told T (Some param) E ck Evt p)"
proof -
  obtain u n where un: "un = (u, n)" by fastforce
  obtain ev where ev: "AnalyzeCommand True (Some p) Evt = Some (1, ev)" "sCmd ev = packet_kind 2" "sMaxAge ev = int dur"
    "sLocation ev = SP # loc" "sUDN ev = u" "sErrCode ev = 0" "parsed_from Evt ev"
    "sDeviceType ev = device_type_read n" "sServiceType ev = service_type_read n"
    by (rule announced_event [OF assms(1) [unfolded un]])
  let ?e = "ev\<lparr>sCookie := ck\<rparr>"
  have "event_fits ?e" using ev(7) by (simp add: parsed_from_def event_fits_def)
  moreover have "discovery_kind ?e ci = (UPNP_DISCOVERY_SEARCH_RESULT, ck)" using ev(2) by (simp add: packet_kind_def discovery_kind_def)
  ultimately show ?thesis
    using event_reported [where T = T and ci = ci and Evt = ?e and k = 2 and dur = dur and loc = loc and udn = u and n = n and param = param and E = E] assms(2-4) ev by (simp add: reply_told_def un)
qed

text \<open>
  C4. A search, end to end.  The request a control point prints reaches a device, which answers the address the
  request came from with the packets that are due for the target, each twice; for each of them the application
  of the control point is told a search result, with the cookie of the search, the UDN of the device, the
  device type or service type that the packet names, the expiration time and the location.  A search for everything
  has three packets due for the root device, two for an embedded one and one for each service.
\<close>

theorem search_finds_devices:
  assumes "CreateClientRequestPacket (int mx) (Some st) = Some p" "0 < mx" "mx \<le> 2147" "CR \<notin> set st"
    and "Request_Tpye st (search_event mx (Evt\<lparr>sErrCode := 0, sDestAddr := Some (td_DestAddr td)\<rparr>)) = Some (1, Et)" "sErrCode Et = 0"
    and "GetDeviceHandleInfo T = (True, Hnd)" "device_info T Hnd = Some SInfo" "described SInfo ps" "MaxAge SInfo = int dur"
    and "\<forall>i j. env_ok (E i j)" "\<forall>i j. list_all (part_ok (adv_host (E i j)) (DescURL SInfo) dur) ps"
    and "has_client Tc ci" "DescURL SInfo \<noteq> []" "hd (DescURL SInfo) \<noteq> SP"
  shows "\<exists>ms. datagram_told T param E r Evt (td\<lparr>td_Data := Some p\<rparr>) = Some ([], copies (Peer (td_DestAddr td)) ms) \<and>
    list_all2 (\<lambda>u p. reports ci UPNP_DISCOVERY_SEARCH_RESULT ck (DescURL SInfo) dur u (reply_told Tc (Some param') E' ck Evt' p))
      (due_packets 0 (target_of Et) True ps) ms"
proof -
  let ?Evt = "Evt\<lparr>sErrCode := 0, sDestAddr := Some (td_DestAddr td)\<rparr>"
  have a: "AnalyzeCommand True (Some p) ?Evt = Some (1, Et)" "sCmd Et = SSDP_SEARCH" "sMx Et = int mx" "sMan Et \<noteq> []"
    using search_request_roundtrip [OF assms(1,2) _ assms(4,5)] assms(3) by auto
  have d: "sDestAddr Et = Some (td_DestAddr td)" using AnalyzeCommand_fits [OF a(1)] by (simp add: parsed_from_def)
  have "GetRandomNumber (int mx) r \<noteq> None" using assms(2,3) by (simp add: GetRandomNumber_def)
  then have tr: "TransferResEvent (\<lambda>_. True) r Evt (td\<lparr>td_Data := Some p\<rparr>) = Some [Callback Et]"
    using a by (auto simp: TransferResEvent_def)
  have q: "target_ok 0 (target_of Et)" "call_dest 0 (target_of Et) = Peer (td_DestAddr td)" "call_kind 0 = 2"
    using d by (simp_all add: target_ok_def call_dest_def target_of_def call_kind_def)
  obtain ms where ms: "AdvertiseAndReply E T 0 Hnd (target_of Et) (MaxAge SInfo) = Some (UPNP_E_SUCCESS, copies (Peer (td_DestAddr td)) ms)"
    "list_all2 (announces 2 (DescURL SInfo) dur Evt') (due_packets 0 (target_of Et) True ps) ms"
    using devices_call [OF assms(11) q(1), of "MaxAge SInfo" dur SInfo "Peer (td_DestAddr td)" "DeviceList SInfo" ps 0 Evt']
      assms(8-10,12) q(2,3)
    by (auto simp: AdvertiseAndReply_def described_def)
  have "T ! nat Hnd = Some SInfo" using device_infoD [OF assms(8)] by simp
  then have "datagram_told T param E r Evt (td\<lparr>td_Data := Some p\<rparr>) = Some ([], copies (Peer (td_DestAddr td)) ms)"
    using tr a(2) assms(6,7) ms(1) by (simp add: datagram_told_def SsdpCallbackEventHandler_def)
  moreover have "list_all2 (\<lambda>u p. reports ci UPNP_DISCOVERY_SEARCH_RESULT ck (DescURL SInfo) dur u (reply_told Tc (Some param') E' ck Evt' p))
      (due_packets 0 (target_of Et) True ps) ms"
    by (rule list_all2_mono [OF ms(2)]) (erule reply_reported [OF _ assms(13-15)])
  ultimately show ?thesis by blast
qed

section \<open>Examples\<close>

definition some_param :: UpnpNonblockParam where
  "some_param = \<lparr>FunName = MINI, pHandle = 0, pTimeOut = 0, pVarName = [], pServiceType = [], pUrl = [], pSubsId = [],
     pCookie = 0, pFun = 0, pAct = None\<rparr>"

definition some_record :: Upnp_Event_Subscribe where
  "some_record = \<lparr>es_Sid = [], es_ErrCode = 0, es_PublisherUrl = [], es_TimeOut = 0\<rparr>"

lemma control_point_client: "is_client control_point 1"
  by (simp add: is_client_def GetHandleInfo_def control_point_def InitHandleList_def NUM_HANDLE_def client_record_def)

theorem subscription_calls_agree_witness:
  "\<exists>P. UpnpUnSubscribeAsync (Some some_param) control_point 1 (Some ''uuid:1'') 7 8 = Some (UPNP_E_SUCCESS, Some P) \<and>
    UpnpThreadDistribution client_env switch_xml some_record P control_point = map_option (\<lambda>(rc, c').
      (Some \<lparr>to_fun = 7, to_type = UPNP_EVENT_UNSUBSCRIBE_COMPLETE,
         to_event = Subscribe_Event (some_record\<lparr>es_ErrCode := rc, es_Sid := ''uuid:1''\<rparr>), to_cookie = 8\<rparr>, c'))
      (UpnpUnSubscribe client_env 1 (Some ''uuid:1'') control_point)"
proof -
  obtain P where "UpnpUnSubscribeAsync (Some some_param) control_point 1 (Some ''uuid:1'') 7 8 = Some (UPNP_E_SUCCESS, Some P)"
    by (simp add: UpnpUnSubscribeAsync_def control_point_client block_of_def UPNP_SID_SIZE_def)
  then show ?thesis using subscription_calls_agree [OF control_point_client, where sid = "Some ''uuid:1''" and p = "Some some_param"
        and old = control_point and Fun = 7 and ck = 8 and P = P and e = client_env and X = switch_xml and Evt = some_record]
    by auto
qed

theorem failed_query_frees_garbage_witness:
  "\<exists>P. UpnpGetServiceVarStatusAsync (Some some_param) control_point 1 (Some ''http://h/c'') (Some ''Power'') 7 8 =
      Some (UPNP_E_SUCCESS, Some P) \<and>
    UpnpThreadDistribution (client_env\<lparr>calloc := (\<lambda>_. False)\<rparr>) switch_xml some_record P control_point = None"
proof -
  obtain P where P: "UpnpGetServiceVarStatusAsync (Some some_param) control_point 1 (Some ''http://h/c'') (Some ''Power'') 7 8 =
      Some (UPNP_E_SUCCESS, Some P)"
    by (simp add: UpnpGetServiceVarStatusAsync_def control_point_client block_of_def NAME_SIZE_def)
  have "SoapGetServiceVarStatus (client_env\<lparr>calloc := (\<lambda>_. False)\<rparr>) switch_xml (the (Some ''http://h/c'')) (the (Some ''Power'')) =
      Some (UPNP_E_OUTOF_MEMORY, None, [])" by (simp add: SoapGetServiceVarStatus_def)
  from failed_query_frees_garbage [OF P this] P show ?thesis by blast
qed

text \<open>A control point in the network of the light.\<close>

definition listener_table :: handle_table where
  "listener_table = InitHandleList[1 := Some (plain_info HND_CLIENT)]"

definition some_discovery :: Upnp_Discovery where
  "some_discovery = \<lparr>di_ErrCode = 0, di_Expires = 0, di_DeviceId = [], di_DeviceType = [], di_ServiceType = [], di_ServiceVer = [],
     di_Location = [], di_Os = [], di_Date = [], di_Ext = [], di_DestAddr = None\<rparr>"

lemma listener_client: "has_client listener_table (plain_info HND_CLIENT)"
  by (simp add: has_client_def GetClientHandleInfo_def GetHandleInfo_def listener_table_def InitHandleList_def NUM_HANDLE_def plain_info_def)

theorem announcements_reach_application_witness:
  "\<exists>ms. AdvertiseAndReply (\<lambda>_ _. light_env) light_table 1 1 no_target 1800 = Some (UPNP_E_SUCCESS, copies multicast ms) \<and>
    list_all2 (\<lambda>u p. reports (plain_info HND_CLIENT) UPNP_DISCOVERY_ADVERTISEMENT_ALIVE 0 ''http://h/d.xml'' 1800 u
      (datagram_told listener_table (Some some_discovery) (\<lambda>_ _. light_env) 0 blank_event (search_job\<lparr>td_Data := Some p\<rparr>)))
      light_packets ms"
  using announcements_reach_application [OF light_table_facts(2) light_described, of 1 "\<lambda>_ _. light_env" 1800 listener_table "plain_info HND_CLIENT"
      some_discovery "\<lambda>_ _. light_env" 0 blank_event search_job]
    light_ok light_table_facts(4) listener_client
  by (auto simp: plain_info_def light_due)

theorem search_finds_devices_witness:
  "\<exists>p ms. CreateClientRequestPacket 3 (Some ''ssdp:all'') = Some p \<and>
    datagram_told light_table None (\<lambda>_ _. light_env) 7 blank_event (search_job\<lparr>td_Data := Some p\<rparr>) =
      Some ([], copies (Peer (td_DestAddr search_job)) ms) \<and>
    list_all2 (\<lambda>u p. reports (plain_info HND_CLIENT) UPNP_DISCOVERY_SEARCH_RESULT 42 ''http://h/d.xml'' 1800 u
        (reply_told listener_table (Some some_discovery) (\<lambda>_ _. light_env) 42 blank_event p))
      light_packets ms"
proof -
  obtain p where p: "CreateClientRequestPacket (int 3) (Some ''ssdp:all'') = Some p"
    by (simp add: CreateClientRequestPacket_def temp_line_def block_of_def SSDP_IP_def SSDP_PORT_def dec_1900 dec_int_def
        dec_nat.simps COMMAND_LEN_def BUFSIZE_def CRLF_def)
  let ?e = "(search_event 3 (blank_event\<lparr>sErrCode := 0, sDestAddr := Some (td_DestAddr search_job)\<rparr>))\<lparr>sErrCode := 0, sRequestType := SSDP_ALL\<rparr>"
  have r: "Request_Tpye ''ssdp:all'' (search_event 3 (blank_event\<lparr>sErrCode := 0, sDestAddr := Some (td_DestAddr search_job)\<rparr>)) = Some (1, ?e)"
    by (simp add: Request_Tpye_def Unique_Service_Name_def plain_udn_def typed_name_def)
  have d: "GetDeviceHandleInfo light_table = (True, 1)"
    by (simp add: GetDeviceHandleInfo_def GetHandleInfo_def light_table_def InitHandleList_def NUM_HANDLE_def light_info_def plain_info_def)
  have "due_packets 0 (target_of ?e) True light_parts = light_packets" by (rule light_due) (simp add: target_of_def)
  then show ?thesis
    using search_finds_devices [OF p _ _ _ r _ d light_table_facts(2) light_described _ _ _ listener_client,
        of 1800 "\<lambda>_ _. light_env" None 7 42 some_discovery "\<lambda>_ _. light_env" blank_event]
      light_ok light_table_facts(3,4) p
    by auto
qed

end
