(* ===== verification/Xml_Chars.thy ===== *)
theory Xml_Chars imports C_Text begin

unbundle bit_operations_syntax

text \<open>
  Characters of XML documents (\<^verbatim>\<open>upnpdom/Parser.cpp\<close>, lines 46 to 257 and 367 to 490): the tables of name
  characters, UTF-8, and the reading of one character or entity.  A position in the text is the string
  from there on, without the terminating NUL.
\<close>

section \<open>Name characters\<close>

definition n_tbl :: "(int \<times> int) list" where
  "n_tbl = [
   (0x003A, 0x003A), (0x0041, 0x005A), (0x005F, 0x005F), (0x0061, 0x007A), (0x00C0, 0x00D6), 
   (0x00D8, 0x00F6), (0x00F8, 0x00FF), (0x0100, 0x0131), (0x0134, 0x013E), (0x0141, 0x0148), 
   (0x014A, 0x017E), (0x0180, 0x01C3), (0x01CD, 0x01F0), (0x01F4, 0x01F5), (0x01FA, 0x0217), 
   (0x0250, 0x02A8), (0x02BB, 0x02C1), (0x0386, 0x0386), (0x0388, 0x038A), (0x038C, 0x038C), 
   (0x038E, 0x03A1), (0x03A3, 0x03CE), (0x03D0, 0x03D6), (0x03DA, 0x03DA), (0x03DC, 0x03DC), 
   (0x03DE, 0x03DE), (0x03E0, 0x03E0), (0x03E2, 0x03F3), (0x0401, 0x040C), (0x040E, 0x044F), 
   (0x0451, 0x045C), (0x045E, 0x0481), (0x0490, 0x04C4), (0x04C7, 0x04C8), (0x04CB, 0x04CC), 
   (0x04D0, 0x04EB), (0x04EE, 0x04F5), (0x04F8, 0x04F9), (0x0531, 0x0556), (0x0559, 0x0559), 
   (0x0561, 0x0586), (0x05D0, 0x05EA), (0x05F0, 0x05F2), (0x0621, 0x063A), (0x0641, 0x064A), 
   (0x0671, 0x06B7), (0x06BA, 0x06BE), (0x06C0, 0x06CE), (0x06D0, 0x06D3), (0x06D5, 0x06D5), 
   (0x06E5, 0x06E6), (0x0905, 0x0939), (0x093D, 0x093D), (0x0958, 0x0961), (0x0985, 0x098C), 
   (0x098F, 0x0990), (0x0993, 0x09A8), (0x09AA, 0x09B0), (0x09B2, 0x09B2), (0x09B6, 0x09B9), 
   (0x09DC, 0x09DD), (0x09DF, 0x09E1), (0x09F0, 0x09F1), (0x0A05, 0x0A0A), (0x0A0F, 0x0A10), 
   (0x0A13, 0x0A28), (0x0A2A, 0x0A30), (0x0A32, 0x0A33), (0x0A35, 0x0A36), (0x0A38, 0x0A39), 
   (0x0A59, 0x0A5C), (0x0A5E, 0x0A5E), (0x0A72, 0x0A74), (0x0A85, 0x0A8B), (0x0A8D, 0x0A8D), 
   (0x0A8F, 0x0A91), (0x0A93, 0x0AA8), (0x0AAA, 0x0AB0), (0x0AB2, 0x0AB3), (0x0AB5, 0x0AB9), 
   (0x0ABD, 0x0ABD), (0x0AE0, 0x0AE0), (0x0B05, 0x0B0C), (0x0B0F, 0x0B10), (0x0B13, 0x0B28), 
   (0x0B2A, 0x0B30), (0x0B32, 0x0B33), (0x0B36, 0x0B39), (0x0B3D, 0x0B3D), (0x0B5C, 0x0B5D), 
   (0x0B5F, 0x0B61), (0x0B85, 0x0B8A), (0x0B8E, 0x0B90), (0x0B92, 0x0B95), (0x0B99, 0x0B9A), 
   (0x0B9C, 0x0B9C), (0x0B9E, 0x0B9F), (0x0BA3, 0x0BA4), (0x0BA8, 0x0BAA), (0x0BAE, 0x0BB5), 
   (0x0BB7, 0x0BB9), (0x0C05, 0x0C0C), (0x0C0E, 0x0C10), (0x0C12, 0x0C28), (0x0C2A, 0x0C33), 
   (0x0C35, 0x0C39), (0x0C60, 0x0C61), (0x0C85, 0x0C8C), (0x0C8E, 0x0C90), (0x0C92, 0x0CA8), 
   (0x0CAA, 0x0CB3), (0x0CB5, 0x0CB9), (0x0CDE, 0x0CDE), (0x0CE0, 0x0CE1), (0x0D05, 0x0D0C), 
   (0x0D0E, 0x0D10), (0x0D12, 0x0D28), (0x0D2A, 0x0D39), (0x0D60, 0x0D61), (0x0E01, 0x0E2E), 
   (0x0E30, 0x0E30), (0x0E32, 0x0E33), (0x0E40, 0x0E45), (0x0E81, 0x0E82), (0x0E84, 0x0E84), 
   (0x0E87, 0x0E88), (0x0E8A, 0x0E8A), (0x0E8D, 0x0E8D), (0x0E94, 0x0E97), (0x0E99, 0x0E9F), 
   (0x0EA1, 0x0EA3), (0x0EA5, 0x0EA5), (0x0EA7, 0x0EA7), (0x0EAA, 0x0EAB), (0x0EAD, 0x0EAE), 
   (0x0EB0, 0x0EB0), (0x0EB2, 0x0EB3), (0x0EBD, 0x0EBD), (0x0EC0, 0x0EC4), (0x0F40, 0x0F47), 
   (0x0F49, 0x0F69), (0x10A0, 0x10C5), (0x10D0, 0x10F6), (0x1100, 0x1100), (0x1102, 0x1103), 
   (0x1105, 0x1107), (0x1109, 0x1109), (0x110B, 0x110C), (0x110E, 0x1112), (0x113C, 0x113C), 
   (0x113E, 0x113E), (0x1140, 0x1140), (0x114C, 0x114C), (0x114E, 0x114E), (0x1150, 0x1150), 
   (0x1154, 0x1155), (0x1159, 0x1159), (0x115F, 0x1161), (0x1163, 0x1163), (0x1165, 0x1165), 
   (0x1167, 0x1167), (0x1169, 0x1169), (0x116D, 0x116E), (0x1172, 0x1173), (0x1175, 0x1175), 
   (0x119E, 0x119E), (0x11A8, 0x11A8), (0x11AB, 0x11AB), (0x11AE, 0x11AF), (0x11B7, 0x11B8), 
   (0x11BA, 0x11BA), (0x11BC, 0x11C2), (0x11EB, 0x11EB), (0x11F0, 0x11F0), (0x11F9, 0x11F9), 
   (0x1E00, 0x1E9B), (0x1EA0, 0x1EF9), (0x1F00, 0x1F15), (0x1F18, 0x1F1D), (0x1F20, 0x1F45), 
   (0x1F48, 0x1F4D), (0x1F50, 0x1F57), (0x1F59, 0x1F59), (0x1F5B, 0x1F5B), (0x1F5D, 0x1F5D), 
   (0x1F5F, 0x1F7D), (0x1F80, 0x1FB4), (0x1FB6, 0x1FBC), (0x1FBE, 0x1FBE), (0x1FC2, 0x1FC4), 
   (0x1FC6, 0x1FCC), (0x1FD0, 0x1FD3), (0x1FD6, 0x1FDB), (0x1FE0, 0x1FEC), (0x1FF2, 0x1FF4), 
   (0x1FF6, 0x1FFC), (0x2126, 0x2126), (0x212A, 0x212B), (0x212E, 0x212E), (0x2180, 0x2182), 
   (0x3007, 0x3007), (0x3021, 0x3029), (0x3041, 0x3094), (0x30A1, 0x30FA), (0x3105, 0x312C), 
   (0x4E00, 0x9FA5), (0xAC00, 0xD7A3)]"

definition nch_tbl :: "(int \<times> int) list" where
  "nch_tbl = [
   (0x002D, 0x002D), (0x002E, 0x002E), (0x0030, 0x0039), (0x00B7, 0x00B7), (0x02D0, 0x02D0), 
   (0x02D1, 0x02D1), (0x0300, 0x0345), (0x0360, 0x0361), (0x0387, 0x0387), (0x0483, 0x0486), 
   (0x0591, 0x05A1), (0x05A3, 0x05B9), (0x05BB, 0x05BD), (0x05BF, 0x05BF), (0x05C1, 0x05C2), 
   (0x05C4, 0x05C4), (0x0640, 0x0640), (0x064B, 0x0652), (0x0660, 0x0669), (0x0670, 0x0670), 
   (0x06D6, 0x06DC), (0x06DD, 0x06DF), (0x06E0, 0x06E4), (0x06E7, 0x06E8), (0x06EA, 0x06ED), 
   (0x06F0, 0x06F9), (0x0901, 0x0903), (0x093C, 0x093C), (0x093E, 0x094C), (0x094D, 0x094D), 
   (0x0951, 0x0954), (0x0962, 0x0963), (0x0966, 0x096F), (0x0981, 0x0983), (0x09BC, 0x09BC), 
   (0x09BE, 0x09BE), (0x09BF, 0x09BF), (0x09C0, 0x09C4), (0x09C7, 0x09C8), (0x09CB, 0x09CD), 
   (0x09D7, 0x09D7), (0x09E2, 0x09E3), (0x09E6, 0x09EF), (0x0A02, 0x0A02), (0x0A3C, 0x0A3C), 
   (0x0A3E, 0x0A3E), (0x0A3F, 0x0A3F), (0x0A40, 0x0A42), (0x0A47, 0x0A48), (0x0A4B, 0x0A4D), 
   (0x0A66, 0x0A6F), (0x0A70, 0x0A71), (0x0A81, 0x0A83), (0x0ABC, 0x0ABC), (0x0ABE, 0x0AC5), 
   (0x0AC7, 0x0AC9), (0x0ACB, 0x0ACD), (0x0AE6, 0x0AEF), (0x0B01, 0x0B03), (0x0B3C, 0x0B3C), 
   (0x0B3E, 0x0B43), (0x0B47, 0x0B48), (0x0B4B, 0x0B4D), (0x0B56, 0x0B57), (0x0B66, 0x0B6F), 
   (0x0B82, 0x0B83), (0x0BBE, 0x0BC2), (0x0BC6, 0x0BC8), (0x0BCA, 0x0BCD), (0x0BD7, 0x0BD7), 
   (0x0BE7, 0x0BEF), (0x0C01, 0x0C03), (0x0C3E, 0x0C44), (0x0C46, 0x0C48), (0x0C4A, 0x0C4D), 
   (0x0C55, 0x0C56), (0x0C66, 0x0C6F), (0x0C82, 0x0C83), (0x0CBE, 0x0CC4), (0x0CC6, 0x0CC8), 
   (0x0CCA, 0x0CCD), (0x0CD5, 0x0CD6), (0x0CE6, 0x0CEF), (0x0D02, 0x0D03), (0x0D3E, 0x0D43), 
   (0x0D46, 0x0D48), (0x0D4A, 0x0D4D), (0x0D57, 0x0D57), (0x0D66, 0x0D6F), (0x0E31, 0x0E31), 
   (0x0E34, 0x0E3A), (0x0E46, 0x0E46), (0x0E47, 0x0E4E), (0x0E50, 0x0E59), (0x0EB1, 0x0EB1), 
   (0x0EB4, 0x0EB9), (0x0EBB, 0x0EBC), (0x0EC6, 0x0EC6), (0x0EC8, 0x0ECD), (0x0ED0, 0x0ED9), 
   (0x0F18, 0x0F19), (0x0F20, 0x0F29), (0x0F35, 0x0F35), (0x0F37, 0x0F37), (0x0F39, 0x0F39), 
   (0x0F3E, 0x0F3E), (0x0F3F, 0x0F3F), (0x0F71, 0x0F84), (0x0F86, 0x0F8B), (0x0F90, 0x0F95), 
   (0x0F97, 0x0F97), (0x0F99, 0x0FAD), (0x0FB1, 0x0FB7), (0x0FB9, 0x0FB9), (0x20D0, 0x20DC), 
   (0x20E1, 0x20E1), (0x3005, 0x3005), (0x302A, 0x302F), (0x3031, 0x3035), (0x3099, 0x3099), 
   (0x309A, 0x309A), (0x309D, 0x309E), (0x30FC, 0x30FE)]"

text \<open>The binary search, between the indices \<open>t\<close> and \<open>b\<close>.\<close>

function intbl_loop :: "int \<Rightarrow> (int \<times> int) list \<Rightarrow> int \<Rightarrow> int \<Rightarrow> bool" where
  "intbl_loop c tbl t b =
     (if t \<le> b
      then let m = (t + b) div 2 in
        if c < fst (tbl ! nat m) then intbl_loop c tbl t (m - 1)
        else if snd (tbl ! nat m) < c then intbl_loop c tbl (m + 1) b
        else True
      else False)"
  by pat_completeness auto
termination by (relation "measure (\<lambda>(c, tbl, t, b). nat (b + 1 - t))") (auto simp: Let_def)

declare intbl_loop.simps [simp del]

definition intbl :: "int \<Rightarrow> (int \<times> int) list \<Rightarrow> int \<Rightarrow> bool" where
  "intbl c tbl sz = intbl_loop c tbl 0 (sz - 1)"

definition isxmlch :: "int \<Rightarrow> bool" where
  "isxmlch c = (0x20 \<le> c \<and> c \<le> 0xD7FF \<or> c = 0x9 \<or> c = 0xA \<or> c = 0xD \<or> 0xE000 \<le> c \<and> c \<le> 0xFFFD \<or>
     0x10000 \<le> c \<and> c \<le> 0x10FFFF)"

definition N_TBL_SIZE :: int where "N_TBL_SIZE = 207"
definition NCH_TBL_SIZE :: int where "NCH_TBL_SIZE = 123"

definition isnamech :: "int \<Rightarrow> bool \<Rightarrow> bool" where
  "isnamech c scnd_ch = (if intbl c n_tbl N_TBL_SIZE then True else scnd_ch \<and> intbl c nch_tbl NCH_TBL_SIZE)"

section \<open>UTF-8\<close>

definition toutf8 :: "int \<Rightarrow> string option" where
  "toutf8 c =
     (if c < 0 then None
      else if c \<le> 127 then Some [char_of c]
      else if c \<le> 0x07FF then Some [char_of (0xC0 OR drop_bit 6 c), char_of (0x80 OR (c AND 0x3f))]
      else if c \<le> 0xFFFF then Some [char_of (0xE0 OR drop_bit 12 c), char_of (0x80 OR (drop_bit 6 c AND 0x3f)),
        char_of (0x80 OR (c AND 0x3f))]
      else if c \<le> 0x1FFFFF then Some [char_of (0xF0 OR drop_bit 18 c), char_of (0x80 OR (drop_bit 12 c AND 0x3f)),
        char_of (0x80 OR (drop_bit 6 c AND 0x3f)), char_of (0x80 OR (c AND 0x3f))]
      else if c \<le> 0x3FFFFFF then Some [char_of (0xF8 OR drop_bit 24 c), char_of (0x80 OR (drop_bit 18 c AND 0x3f)),
        char_of (0x80 OR (drop_bit 12 c AND 0x3f)), char_of (0x80 OR (drop_bit 6 c AND 0x3f)), char_of (0x80 OR (c AND 0x3f))]
      else Some [char_of (0xFC OR drop_bit 30 c), char_of (0x80 OR (drop_bit 24 c AND 0x3f)),
        char_of (0x80 OR (drop_bit 18 c AND 0x3f)), char_of (0x80 OR (drop_bit 12 c AND 0x3f)),
        char_of (0x80 OR (drop_bit 6 c AND 0x3f)), char_of (0x80 OR (c AND 0x3f))])"

text \<open>The \<open>k\<close>-th byte from here, the NUL behind the text included; nothing further is ever read.\<close>

definition byte :: "string \<Rightarrow> nat \<Rightarrow> int" where
  "byte s k = (if k < length s then of_char (s ! k) else 0)"

definition trails :: "string \<Rightarrow> nat \<Rightarrow> bool" where
  "trails s n = (\<forall>k<n. byte s (Suc k) AND 0xc0 = 0x80)"

definition toint :: "string \<Rightarrow> int \<times> nat" where
  "toint s =
     (let c = byte s 0; low = (\<lambda>k. byte s k AND 0x3f) in
      if c \<le> 127 then (c, 1)
      else if c AND 0xE0 = 0xC0 \<and> trails s 1 then (push_bit 6 (c AND 0x1f) OR low 1, 2)
      else if c AND 0xF0 = 0xE0 \<and> trails s 2 then (push_bit 12 (c AND 0xf) OR push_bit 6 (low 1) OR low 2, 3)
      else if c AND 0xf8 = 0xf0 \<and> trails s 3
        then (push_bit 18 (c AND 0x7) OR push_bit 12 (low 1) OR push_bit 6 (low 2) OR low 3, 4)
      else if c AND 0xfc = 0xf8 \<and> trails s 4
        then (push_bit 24 (c AND 0x3) OR push_bit 18 (low 1) OR push_bit 12 (low 2) OR push_bit 6 (low 3) OR low 4, 5)
      else if c AND 0xfe = 0xfc \<and> trails s 5
        then (push_bit 30 (c AND 0x1) OR push_bit 24 (low 1) OR push_bit 18 (low 2) OR push_bit 12 (low 3) OR
          push_bit 6 (low 4) OR low 5, 6)
      else (- 1, 0))"

section \<open>Characters and entities\<close>

definition char_match :: "char \<Rightarrow> string \<Rightarrow> bool" where
  "char_match cUnknown strMatchSet = (cUnknown \<in> set strMatchSet)"

definition DEC_NUMBERS :: string where "DEC_NUMBERS = ''0123456789''"
definition HEX_NUMBERS :: string where "HEX_NUMBERS = ''0123456789ABCDEFabcdef''"

text \<open>\<^verbatim>\<open>!strncasecmp(src,key,strlen(key))\<close>\<close>

definition begins_nocase :: "string \<Rightarrow> string \<Rightarrow> bool" where
  "begins_nocase src key = same_nocase (take (length key) src) key"

definition hex_value :: "char \<Rightarrow> int" where
  "hex_value c = (let n = of_char c in if n \<le> 57 then n - 48 else if n \<le> 70 then n - 65 + 10 else n - 97 + 10)"

text \<open>
  A character reference, after its opening characters: the number and the length read, -1 for a wrong
  one, undefined when the sum overflows.
\<close>

definition char_ref :: "string \<Rightarrow> int \<Rightarrow> (char \<Rightarrow> int) \<Rightarrow> nat \<Rightarrow> string \<Rightarrow> (int \<times> nat) option" where
  "char_ref digits base val skip src =
     (let ds = takeWhile (\<lambda>c. char_match c digits) (drop skip src);
          sum = foldl (\<lambda>a c. a * base + val c) 0 ds
      in if 2 ^ 31 \<le> sum then None
         else if ds = [] \<or> byte src (skip + length ds) \<noteq> 59 \<or> \<not> isxmlch sum then Some (- 1, 0)
         else Some (sum, skip + length ds + 1))"

definition get_char :: "string \<Rightarrow> (int \<times> nat) option" where
  "get_char src =
     (let b = byte src 0 in
      if b \<noteq> 38 then
        (if 0 < b \<and> b < 128 \<and> isxmlch b then Some (b, 1)
         else (case toint src of (i, len) \<Rightarrow> if \<not> isxmlch i then Some (- 1, 0) else Some (i, len)))
      else if begins_nocase src ''&quot;'' then Some (34, 6)
      else if begins_nocase src ''&lt;'' then Some (60, 4)
      else if begins_nocase src ''&gt;'' then Some (62, 4)
      else if begins_nocase src ''&apos;'' then Some (39, 6)
      else if begins_nocase src ''&amp;'' then Some (38, 5)
      else if begins_nocase src ''&#x'' then char_ref HEX_NUMBERS 16 hex_value 3 src
      else if begins_nocase src ''&#'' then char_ref DEC_NUMBERS 10 (\<lambda>c. of_char c - 48) 2 src
      else Some (- 1, 0))"

section \<open>The search finds what the table holds\<close>

definition ascending :: "(int \<times> int) list \<Rightarrow> bool" where
  "ascending tbl = successively (\<lambda>r s. fst r \<le> snd r \<and> snd r < fst s) tbl"

lemma ascending_nth: "ascending tbl \<Longrightarrow> i < j \<Longrightarrow> j < length tbl \<Longrightarrow> fst (tbl ! i) \<le> snd (tbl ! i) \<and> snd (tbl ! i) < fst (tbl ! j)"
proof -
  assume a: "ascending tbl" "i < j" "j < length tbl"
  have "transp (\<lambda>r s :: int \<times> int. fst r \<le> snd r \<and> snd r < fst s)" by (auto intro!: transpI)
  with a(1) have "sorted_wrt (\<lambda>r s. fst r \<le> snd r \<and> snd r < fst s) tbl"
    by (simp add: ascending_def successively_conv_sorted_wrt)
  with a(2,3) show ?thesis by (simp add: sorted_wrt_iff_nth_less)
qed

lemma intbl_loop_finds:
  "ascending tbl \<Longrightarrow> 0 \<le> t \<Longrightarrow> b < int (length tbl) \<Longrightarrow>
    intbl_loop c tbl t b \<longleftrightarrow> (\<exists>i. t \<le> int i \<and> int i \<le> b \<and> fst (tbl ! i) \<le> c \<and> c \<le> snd (tbl ! i))"
proof (induction c tbl t b rule: intbl_loop.induct)
  case (1 c tbl t b)
  let ?m = "(t + b) div 2" and ?in = "\<lambda>i. fst (tbl ! i) \<le> c \<and> c \<le> snd (tbl ! i)"
  show ?case
  proof (cases "t \<le> b")
    case False
    then show ?thesis by (auto simp: intbl_loop.simps [of c tbl t b])
  next
    case True
    then have m: "t \<le> ?m" "?m \<le> b" "0 \<le> ?m" using 1(4) by auto
    have lo: "fst (tbl ! nat ?m) \<le> snd (tbl ! nat ?m) \<and> snd (tbl ! nat ?m) < fst (tbl ! i)" if "?m < int i" "int i \<le> b" "?in i" for i
      using ascending_nth [OF 1(3), of "nat ?m" i] that m 1(5) by auto
    have hi: "snd (tbl ! i) < fst (tbl ! nat ?m)" if "int i < ?m" for i
      using ascending_nth [OF 1(3), of i "nat ?m"] that m 1(5) by auto
    consider "c < fst (tbl ! nat ?m)" | "\<not> c < fst (tbl ! nat ?m)" "snd (tbl ! nat ?m) < c" | "?in (nat ?m)" by linarith
    then show ?thesis
    proof cases
      case 1
      have "int i \<le> ?m - 1" if "int i \<le> b" "?in i" for i
      proof (rule ccontr)
        assume "\<not> int i \<le> ?m - 1"
        then consider "i = nat ?m" | "?m < int i" by linarith
        then show False using lo [of i] that 1 by cases auto
      qed
      then show ?thesis using "1.IH"(1) [OF True refl 1 "1.prems"(1,2)] True 1 m "1.prems"(3)
        by (subst intbl_loop.simps) (auto simp: Let_def)
    next
      case 2
      have up: "?m + 1 \<le> int i" if "?in i" for i
      proof (rule ccontr)
        assume "\<not> ?m + 1 \<le> int i"
        then consider "i = nat ?m" | "int i < ?m" by linarith
        then show False using hi [of i] that 2 by cases auto
      qed
      have e: "(\<exists>i. t \<le> int i \<and> int i \<le> b \<and> ?in i) \<longleftrightarrow> (\<exists>i. ?m + 1 \<le> int i \<and> int i \<le> b \<and> ?in i)"
        using up m(1) by (meson add_increasing2 order_trans zero_le_one)
      show ?thesis using "1.IH"(2) [OF True refl 2 "1.prems"(1)] True 2 m "1.prems"(2,3)
        unfolding e by (subst intbl_loop.simps) (simp add: Let_def)
    next
      case 3
      then show ?thesis using True m by (subst intbl_loop.simps) (auto simp: Let_def intro!: exI [of _ "nat ?m"])
    qed
  qed
qed

lemma intbl_finds: "ascending tbl \<Longrightarrow> intbl c tbl (int (length tbl)) \<longleftrightarrow> (\<exists>r\<in>set tbl. fst r \<le> c \<and> c \<le> snd r)"
  by (force simp: intbl_def intbl_loop_finds in_set_conv_nth)

lemma tables_ascending: "ascending n_tbl" "ascending nch_tbl" by code_simp+
lemma table_sizes: "N_TBL_SIZE = int (length n_tbl)" "NCH_TBL_SIZE = int (length nch_tbl)" by code_simp+

text \<open>
  C37. A character may stand in a name when one of the ranges of the table has it, or, behind the first
  place, one of the second table: the binary search misses none.
\<close>

theorem isnamech_iff:
  "isnamech c scnd_ch \<longleftrightarrow>
    (\<exists>r\<in>set n_tbl. fst r \<le> c \<and> c \<le> snd r) \<or> scnd_ch \<and> (\<exists>r\<in>set nch_tbl. fst r \<le> c \<and> c \<le> snd r)"
  unfolding isnamech_def table_sizes intbl_finds [OF tables_ascending(1)] intbl_finds [OF tables_ascending(2)] by auto

section \<open>UTF-8 is read back\<close>

lemma low_bits: "x AND 0x3f = x mod 64" "x AND 0x1f = x mod 32" "x AND 0xf = x mod 16" "x AND 0x7 = x mod 8"
  "x AND 0x3 = x mod 4" "x AND 0x1 = x mod 2" for x :: int
  using take_bit_eq_mask [of 6 x] take_bit_eq_mask [of 5 x] take_bit_eq_mask [of 4 x] take_bit_eq_mask [of 3 x]
    take_bit_eq_mask [of 2 x] take_bit_eq_mask [of 1 x]
  by (simp_all add: take_bit_eq_mod mask_eq_exp_minus_1)

lemma heads:
  "\<forall>x\<in>{0..<64::int}. 0x80 OR x = 128 + x \<and> (128 + x) AND 0xc0 = 0x80"
  "\<forall>x\<in>{0..<32::int}. 0xC0 OR x = 192 + x \<and> (192 + x) AND 0xE0 = 0xC0"
  "\<forall>x\<in>{0..<16::int}. 0xE0 OR x = 224 + x \<and> (224 + x) AND 0xE0 \<noteq> 0xC0 \<and> (224 + x) AND 0xF0 = 0xE0"
  "\<forall>x\<in>{0..<8::int}. 0xF0 OR x = 240 + x \<and> (240 + x) AND 0xE0 \<noteq> 0xC0 \<and> (240 + x) AND 0xF0 \<noteq> 0xE0 \<and> (240 + x) AND 0xf8 = 0xf0"
  "\<forall>x\<in>{0..<4::int}. 0xF8 OR x = 248 + x \<and> (248 + x) AND 0xE0 \<noteq> 0xC0 \<and> (248 + x) AND 0xF0 \<noteq> 0xE0 \<and>
     (248 + x) AND 0xf8 \<noteq> 0xf0 \<and> (248 + x) AND 0xfc = 0xf8"
  "\<forall>x\<in>{0..<2::int}. 0xFC OR x = 252 + x \<and> (252 + x) AND 0xE0 \<noteq> 0xC0 \<and> (252 + x) AND 0xF0 \<noteq> 0xE0 \<and>
     (252 + x) AND 0xf8 \<noteq> 0xf0 \<and> (252 + x) AND 0xfc \<noteq> 0xf8 \<and> (252 + x) AND 0xfe = 0xfc"
  by code_simp+

lemma or_low: "0 \<le> b \<Longrightarrow> b < 2 ^ n \<Longrightarrow> push_bit n a OR b = a * 2 ^ n + b" for a b :: int
  using concat_bit_eq [of n b a] by (simp add: concat_bit_def take_bit_int_eq_self push_bit_eq_mult ac_simps)

lemma push_or: "push_bit (n + m) a OR push_bit n b = push_bit n (push_bit m a OR b)" for a b :: int
  by (simp add: push_bit_or ac_simps)

lemma byte_simps [simp]: "byte (a # s) 0 = of_char a" "byte (a # s) (Suc k) = byte s k" "byte [] k = 0"
  by (simp_all add: byte_def)

lemma tail_byte: "0x80 OR (x AND 0x3f) = 128 + x mod 64" for x :: int
  using bspec [OF heads(1), of "x mod 64"] by (simp add: low_bits)

lemma low_mods:
  "(128 + x mod 64) mod 64 = x mod 64" "0 \<le> x \<Longrightarrow> x < 32 \<Longrightarrow> (192 + x) mod 32 = x" "0 \<le> x \<Longrightarrow> x < 16 \<Longrightarrow> (224 + x) mod 16 = x"
  "0 \<le> x \<Longrightarrow> x < 8 \<Longrightarrow> (240 + x) mod 8 = x" "0 \<le> x \<Longrightarrow> x < 4 \<Longrightarrow> (248 + x) mod 4 = x" "0 \<le> x \<Longrightarrow> x < 2 \<Longrightarrow> (252 + x) mod 2 = x"
  for x :: int
proof -
  have m: "0 \<le> x \<Longrightarrow> x < k \<Longrightarrow> (k * j + x) mod k = x" for x k j :: int by simp
  show "(128 + x mod 64) mod 64 = x mod 64" using m [of "x mod 64" 64 2] by simp
  show "0 \<le> x \<Longrightarrow> x < 32 \<Longrightarrow> (192 + x) mod 32 = x" using m [of x 32 6] by simp
  show "0 \<le> x \<Longrightarrow> x < 16 \<Longrightarrow> (224 + x) mod 16 = x" using m [of x 16 14] by simp
  show "0 \<le> x \<Longrightarrow> x < 8 \<Longrightarrow> (240 + x) mod 8 = x" using m [of x 8 30] by simp
  show "0 \<le> x \<Longrightarrow> x < 4 \<Longrightarrow> (248 + x) mod 4 = x" using m [of x 4 62] by simp
  show "0 \<le> x \<Longrightarrow> x < 2 \<Longrightarrow> (252 + x) mod 2 = x" using m [of x 2 126] by simp
qed

lemma tail_bits: "(128 + x mod 64) AND 0xc0 = 0x80" "(128 + x mod 64) AND 0x3f = x mod 64" for x :: int
  using bspec [OF heads(1), of "x mod 64"] by (simp_all add: low_bits low_mods)

lemma head_byte:
  "0 \<le> x \<Longrightarrow> x < 32 \<Longrightarrow> 0xC0 OR x = 192 + x \<and> (192 + x) AND 0xE0 = 0xC0"
  "0 \<le> x \<Longrightarrow> x < 16 \<Longrightarrow> 0xE0 OR x = 224 + x \<and> (224 + x) AND 0xE0 \<noteq> 0xC0 \<and> (224 + x) AND 0xF0 = 0xE0"
  "0 \<le> x \<Longrightarrow> x < 8 \<Longrightarrow> 0xF0 OR x = 240 + x \<and> (240 + x) AND 0xE0 \<noteq> 0xC0 \<and> (240 + x) AND 0xF0 \<noteq> 0xE0 \<and> (240 + x) AND 0xf8 = 0xf0"
  "0 \<le> x \<Longrightarrow> x < 4 \<Longrightarrow> 0xF8 OR x = 248 + x \<and> (248 + x) AND 0xE0 \<noteq> 0xC0 \<and> (248 + x) AND 0xF0 \<noteq> 0xE0 \<and>
     (248 + x) AND 0xf8 \<noteq> 0xf0 \<and> (248 + x) AND 0xfc = 0xf8"
  "0 \<le> x \<Longrightarrow> x < 2 \<Longrightarrow> 0xFC OR x = 252 + x \<and> (252 + x) AND 0xE0 \<noteq> 0xC0 \<and> (252 + x) AND 0xF0 \<noteq> 0xE0 \<and>
     (252 + x) AND 0xf8 \<noteq> 0xf0 \<and> (252 + x) AND 0xfc \<noteq> 0xf8 \<and> (252 + x) AND 0xfe = 0xfc" for x :: int
  by (rule bspec [OF heads(2)], simp) (rule bspec [OF heads(3)], simp, rule bspec [OF heads(4)], simp,
    rule bspec [OF heads(5)], simp, rule bspec [OF heads(6)], simp)

lemma of_char_of: "0 \<le> n \<Longrightarrow> n < 256 \<Longrightarrow> of_char (char_of n) = n" for n :: int
  by simp

lemma all_less_nat: "(\<forall>k<Suc n. P k) \<longleftrightarrow> P 0 \<and> (\<forall>k<n. P (Suc k))" for P :: "nat \<Rightarrow> bool"
  using less_Suc_eq_0_disj by auto

definition tail :: "int \<Rightarrow> char" where "tail x = char_of (128 + x mod 64)"

lemma of_tail [simp]: "of_char (tail x) = 128 + x mod 64" by (simp add: tail_def of_char_of)

lemma toutf8_forms:
  "0 \<le> c \<Longrightarrow> c \<le> 127 \<Longrightarrow> toutf8 c = Some [char_of c]"
  "127 < c \<Longrightarrow> c \<le> 0x7FF \<Longrightarrow> toutf8 c = Some [char_of (192 + c div 64), tail c]"
  "0x7FF < c \<Longrightarrow> c \<le> 0xFFFF \<Longrightarrow> toutf8 c = Some [char_of (224 + c div 4096), tail (c div 64), tail c]"
  "0xFFFF < c \<Longrightarrow> c \<le> 0x1FFFFF \<Longrightarrow> toutf8 c = Some [char_of (240 + c div 262144), tail (c div 4096), tail (c div 64), tail c]"
  "0x1FFFFF < c \<Longrightarrow> c \<le> 0x3FFFFFF \<Longrightarrow> toutf8 c = Some [char_of (248 + c div 16777216), tail (c div 262144),
     tail (c div 4096), tail (c div 64), tail c]"
  "0x3FFFFFF < c \<Longrightarrow> c < 2 ^ 31 \<Longrightarrow> toutf8 c = Some [char_of (252 + c div 1073741824), tail (c div 16777216),
     tail (c div 262144), tail (c div 4096), tail (c div 64), tail c]"
proof -
  note defs = toutf8_def tail_def tail_byte drop_bit_eq_div
  show "toutf8 c = Some [char_of c]" if "0 \<le> c" "c \<le> 127" using that by (simp add: defs)
  show "toutf8 c = Some [char_of (192 + c div 64), tail c]" if "127 < c" "c \<le> 0x7FF"
    using that head_byte(1) [of "c div 64"] by (simp add: defs)
  show "toutf8 c = Some [char_of (224 + c div 4096), tail (c div 64), tail c]" if "0x7FF < c" "c \<le> 0xFFFF"
    using that head_byte(2) [of "c div 4096"] by (simp add: defs)
  show "toutf8 c = Some [char_of (240 + c div 262144), tail (c div 4096), tail (c div 64), tail c]" if "0xFFFF < c" "c \<le> 0x1FFFFF"
    using that head_byte(3) [of "c div 262144"] by (simp add: defs)
  show "toutf8 c = Some [char_of (248 + c div 16777216), tail (c div 262144), tail (c div 4096), tail (c div 64), tail c]"
    if "0x1FFFFF < c" "c \<le> 0x3FFFFFF"
    using that head_byte(4) [of "c div 16777216"] by (simp add: defs)
  show "toutf8 c = Some [char_of (252 + c div 1073741824), tail (c div 16777216), tail (c div 262144), tail (c div 4096),
      tail (c div 64), tail c]" if "0x3FFFFFF < c" "c < 2 ^ 31"
    using that head_byte(5) [of "c div 1073741824"] by (simp add: defs)
qed

lemma byte_numeral [simp]: "byte (a # s) (numeral k) = byte s (pred_numeral k)" "byte (a # s) 1 = byte s 0"
  by (simp_all add: numeral_eq_Suc)

lemma trails_Cons [simp]: "trails s 0" "trails (a # tail x # s) (Suc n) \<longleftrightarrow> trails (tail x # s) n"
proof -
  show "trails s 0" by (simp add: trails_def)
  show "trails (a # tail x # s) (Suc n) \<longleftrightarrow> trails (tail x # s) n"
    by (auto simp: trails_def less_Suc_eq_0_disj tail_bits)
qed

lemma trails_numeral [simp]: "trails (a # tail x # s) (numeral k) \<longleftrightarrow> trails (tail x # s) (pred_numeral k)"
  "trails (a # tail x # s) 1"
  using trails_Cons(2) [of a x s 0] by (simp_all add: numeral_eq_Suc trails_Cons)

lemma low_tail: "0 \<le> a \<Longrightarrow> push_bit 6 a OR (x mod 64) = a * 64 + x mod 64" for a x :: int
  using or_low [of "x mod 64" 6 a] by simp

lemma digits64:
  "c div 64 * 64 + c mod 64 = c" "c div 4096 * 64 + c div 64 mod 64 = c div 64"
  "c div 262144 * 64 + c div 4096 mod 64 = c div 4096" "c div 16777216 * 64 + c div 262144 mod 64 = c div 262144"
  "c div 1073741824 * 64 + c div 16777216 mod 64 = c div 16777216" for c :: int
proof -
  have "c div (64 * k) * 64 + c div k mod 64 = c div k" if "0 < k" for k :: int
    using that zdiv_zmult2_eq [of 64 c k] div_mult_mod_eq [of "c div k" 64] by (simp add: mult.commute)
  from this [of 64] this [of 4096] this [of 262144] this [of 16777216]
  show "c div 4096 * 64 + c div 64 mod 64 = c div 64"
    "c div 262144 * 64 + c div 4096 mod 64 = c div 4096" "c div 16777216 * 64 + c div 262144 mod 64 = c div 262144"
    "c div 1073741824 * 64 + c div 16777216 mod 64 = c div 16777216" by simp_all
qed simp

lemma gather:
  "push_bit 12 a OR push_bit 6 b OR d = push_bit 6 (push_bit 6 a OR b) OR d"
  "push_bit 18 a OR push_bit 12 b OR push_bit 6 d OR e = push_bit 6 (push_bit 6 (push_bit 6 a OR b) OR d) OR e"
  "push_bit 24 a OR push_bit 18 b OR push_bit 12 d OR push_bit 6 e OR f =
     push_bit 6 (push_bit 6 (push_bit 6 (push_bit 6 a OR b) OR d) OR e) OR f"
  "push_bit 30 a OR push_bit 24 b OR push_bit 18 d OR push_bit 12 e OR push_bit 6 f OR g =
     push_bit 6 (push_bit 6 (push_bit 6 (push_bit 6 (push_bit 6 a OR b) OR d) OR e) OR f) OR g" for a b d e f g :: int
  by (simp_all add: push_bit_or or.assoc)

lemma toint_forms:
  "0 \<le> a \<Longrightarrow> a < 32 \<Longrightarrow> toint (char_of (192 + a) # tail x # r) = (a * 64 + x mod 64, 2)"
  "0 \<le> a \<Longrightarrow> a < 16 \<Longrightarrow> toint (char_of (224 + a) # tail y # tail x # r) = ((a * 64 + y mod 64) * 64 + x mod 64, 3)"
  "0 \<le> a \<Longrightarrow> a < 8 \<Longrightarrow> toint (char_of (240 + a) # tail z # tail y # tail x # r) =
     (((a * 64 + z mod 64) * 64 + y mod 64) * 64 + x mod 64, 4)"
  "0 \<le> a \<Longrightarrow> a < 4 \<Longrightarrow> toint (char_of (248 + a) # tail w # tail z # tail y # tail x # r) =
     ((((a * 64 + w mod 64) * 64 + z mod 64) * 64 + y mod 64) * 64 + x mod 64, 5)"
  "0 \<le> a \<Longrightarrow> a < 2 \<Longrightarrow> toint (char_of (252 + a) # tail v # tail w # tail z # tail y # tail x # r) =
     (((((a * 64 + v mod 64) * 64 + w mod 64) * 64 + z mod 64) * 64 + y mod 64) * 64 + x mod 64, 6)"
proof -
  note defs = toint_def Let_def low_bits tail_bits low_mods of_char_of
  show "toint (char_of (192 + a) # tail x # r) = (a * 64 + x mod 64, 2)" if h: "0 \<le> a" "a < 32"
    using h head_byte(1) [OF h] by (simp add: defs low_tail)
  show "toint (char_of (224 + a) # tail y # tail x # r) = ((a * 64 + y mod 64) * 64 + x mod 64, 3)" if h: "0 \<le> a" "a < 16"
    using h head_byte(2) [OF h] by (simp add: defs) (subst gather(1), simp add: low_tail)
  show "toint (char_of (240 + a) # tail z # tail y # tail x # r) =
      (((a * 64 + z mod 64) * 64 + y mod 64) * 64 + x mod 64, 4)" if h: "0 \<le> a" "a < 8"
    using h head_byte(3) [OF h] by (simp add: defs) (subst gather(2), simp add: low_tail)
  show "toint (char_of (248 + a) # tail w # tail z # tail y # tail x # r) =
      ((((a * 64 + w mod 64) * 64 + z mod 64) * 64 + y mod 64) * 64 + x mod 64, 5)" if h: "0 \<le> a" "a < 4"
    using h head_byte(4) [OF h] by (simp add: defs) (subst gather(3), simp add: low_tail)
  show "toint (char_of (252 + a) # tail v # tail w # tail z # tail y # tail x # r) =
      (((((a * 64 + v mod 64) * 64 + w mod 64) * 64 + z mod 64) * 64 + y mod 64) * 64 + x mod 64, 6)" if h: "0 \<le> a" "a < 2"
    using h head_byte(5) [OF h] by (simp add: defs) (subst gather(4), simp add: low_tail)
qed

lemma div_range: "0 \<le> c \<Longrightarrow> c < k * m \<Longrightarrow> 0 < k \<Longrightarrow> 0 \<le> c div k \<and> c div k < m" for c k m :: int
proof -
  assume c: "0 \<le> c" "c < k * m" "0 < k"
  have "c div k * k \<le> c" using div_mult_mod_eq [of c k] pos_mod_sign [OF c(3), of c] by linarith
  then have "m * k \<le> c" if "m \<le> c div k" using mult_right_mono [OF that, of k] c(3) by linarith
  with c show ?thesis by (fastforce simp: pos_imp_zdiv_nonneg_iff mult.commute)
qed

text \<open>
  UTF-8 is read back: what \<open>toutf8\<close> writes for a number of up to 31 bits is read by \<open>toint\<close> as that
  number, with the length written, whatever comes behind it.
\<close>

theorem toint_toutf8:
  assumes "0 \<le> c" "c < 2 ^ 31"
  shows "\<exists>s. toutf8 c = Some s \<and> toint (s @ rest) = (c, length s)"
proof -
  consider "c \<le> 127" | "127 < c" "c \<le> 0x7FF" | "0x7FF < c" "c \<le> 0xFFFF" | "0xFFFF < c" "c \<le> 0x1FFFFF"
    | "0x1FFFFF < c" "c \<le> 0x3FFFFFF" | "0x3FFFFFF < c" by linarith
  then show ?thesis
  proof cases
    case 1
    then show ?thesis using assms by (simp add: toutf8_forms toint_def)
  next
    case 2
    then show ?thesis using div_range [of c 64 32] by (simp add: toutf8_forms toint_forms digits64)
  next
    case 3
    then show ?thesis using div_range [of c 4096 16] by (simp add: toutf8_forms toint_forms digits64)
  next
    case 4
    then show ?thesis using div_range [of c 262144 8] by (simp add: toutf8_forms toint_forms digits64)
  next
    case 5
    then show ?thesis using div_range [of c 16777216 4] by (simp add: toutf8_forms toint_forms digits64)
  next
    case 6
    then show ?thesis using assms div_range [of c 1073741824 2] by (simp add: toutf8_forms toint_forms digits64)
  qed
qed

section \<open>Reading characters\<close>

lemma isxmlch_pos: "isxmlch c \<Longrightarrow> 0 < c \<and> c < 2 ^ 31" by (auto simp: isxmlch_def)

lemma toint_zero: "toint s = (c, 0) \<Longrightarrow> c = - 1"
  unfolding toint_def Let_def prod.inject if_distrib [of "\<lambda>x. x = (c, 0)"] by (simp only: split: if_split_asm) simp_all

lemma char_ref_length: "char_ref digits base val skip src = Some (c, cl) \<Longrightarrow> 0 < c \<Longrightarrow> 0 < cl"
  by (auto simp: char_ref_def Let_def split: if_split_asm)

lemma get_char_length: "get_char src = Some (c, cl) \<Longrightarrow> 0 < c \<Longrightarrow> 0 < cl"
proof (cases "byte src 0 = 38")
  case True
  then show "get_char src = Some (c, cl) \<Longrightarrow> 0 < c \<Longrightarrow> 0 < cl"
    using char_ref_length [of HEX_NUMBERS 16 hex_value 3 src c cl] char_ref_length [of DEC_NUMBERS 10 _ 2 src c cl]
    unfolding get_char_def Let_def by (auto split: if_split_asm)
next
  case False
  moreover obtain i len where t: "toint src = (i, len)" by fastforce
  moreover have "len = 0 \<Longrightarrow> i = - 1" using t toint_zero by blast
  ultimately show "get_char src = Some (c, cl) \<Longrightarrow> 0 < c \<Longrightarrow> 0 < cl"
    unfolding get_char_def Let_def by (cases len) (auto split: if_split_asm)
qed

lemma name_ranges: "isnamech c b \<Longrightarrow> 45 \<le> c \<and> c \<le> 0xD7FF"
proof -
  have "\<forall>r\<in>set n_tbl. 45 \<le> fst r \<and> snd r \<le> 0xD7FF" "\<forall>r\<in>set nch_tbl. 45 \<le> fst r \<and> snd r \<le> 0xD7FF" by code_simp+
  then show "isnamech c b \<Longrightarrow> 45 \<le> c \<and> c \<le> 0xD7FF" unfolding isnamech_iff by force
qed

lemma not_names: "\<not> isnamech 47 b" "\<not> isnamech 60 b" "\<not> isnamech 61 b" "\<not> isnamech 62 b" "\<not> isnamech 63 b"
proof -
  have "\<forall>x\<in>set [47, 60, 61, 62, 63 :: int]. \<forall>r\<in>set (n_tbl @ nch_tbl). \<not> (fst r \<le> x \<and> x \<le> snd r)" by code_simp
  then show "\<not> isnamech 47 b" "\<not> isnamech 60 b" "\<not> isnamech 61 b" "\<not> isnamech 62 b" "\<not> isnamech 63 b" unfolding isnamech_iff by auto
qed

lemma isnamech_xml: "isnamech c b \<Longrightarrow> isxmlch c" using name_ranges [of c b] by (simp add: isxmlch_def)

lemma isnamech_first: "isnamech c False \<Longrightarrow> isnamech c b" by (auto simp: isnamech_iff)

text \<open>The text of a list of characters.\<close>

definition enc :: "int \<Rightarrow> string" where "enc c = the (toutf8 c)"
definition text_of :: "int list \<Rightarrow> string" where "text_of cs = concat (map enc cs)"

lemma text_of_simps [simp]: "text_of [] = []" "text_of (c # cs) = enc c @ text_of cs" "text_of (cs @ ds) = text_of cs @ text_of ds"
  by (simp_all add: text_of_def)

lemma toutf8_enc: "0 \<le> c \<Longrightarrow> c < 2 ^ 31 \<Longrightarrow> toutf8 c = Some (enc c)"
  using toint_toutf8 [of c "[]"] by (auto simp: enc_def)

lemma toint_enc: "0 \<le> c \<Longrightarrow> c < 2 ^ 31 \<Longrightarrow> toint (enc c @ rest) = (c, length (enc c))"
  using toint_toutf8 [of c rest] by (auto simp: enc_def)

lemma enc_ascii: "0 \<le> c \<Longrightarrow> c \<le> 127 \<Longrightarrow> enc c = [char_of c]" by (simp add: enc_def toutf8_forms)

lemma length_enc: "0 \<le> c \<Longrightarrow> c < 2 ^ 31 \<Longrightarrow> 0 < length (enc c)"
  using toint_enc [of c "[]"] toint_zero [of "enc c" c] by (cases "length (enc c)") auto

lemma enc_high: "127 < c \<Longrightarrow> c < 2 ^ 31 \<Longrightarrow> b \<in> set (enc c) \<Longrightarrow> 127 < (of_char b :: int)"
proof -
  assume c: "127 < c" "c < 2 ^ 31" and b: "b \<in> set (enc c)"
  have t: "127 < (of_char (tail x) :: int)" for x by simp
  consider "c \<le> 0x7FF" | "0x7FF < c" "c \<le> 0xFFFF" | "0xFFFF < c" "c \<le> 0x1FFFFF"
    | "0x1FFFFF < c" "c \<le> 0x3FFFFFF" | "0x3FFFFFF < c" by linarith
  then show ?thesis
  proof cases
    case 1
    then show ?thesis using b c t div_range [of c 64 32] by (auto simp: enc_def toutf8_forms of_char_of simp del: of_tail)
  next
    case 2
    then show ?thesis using b c t div_range [of c 4096 16] by (auto simp: enc_def toutf8_forms of_char_of simp del: of_tail)
  next
    case 3
    then show ?thesis using b c t div_range [of c 262144 8] by (auto simp: enc_def toutf8_forms of_char_of simp del: of_tail)
  next
    case 4
    then show ?thesis using b c t div_range [of c 16777216 4] by (auto simp: enc_def toutf8_forms of_char_of simp del: of_tail)
  next
    case 5
    then show ?thesis using b c t div_range [of c 1073741824 2] by (auto simp: enc_def toutf8_forms of_char_of simp del: of_tail)
  qed
qed

lemma byte_enc: "127 < c \<Longrightarrow> c < 2 ^ 31 \<Longrightarrow> 127 < byte (enc c @ rest) 0"
  using length_enc [of c] enc_high [of c "hd (enc c)"] by (cases "enc c") auto

lemma get_char_enc: "isxmlch c \<Longrightarrow> c \<noteq> 38 \<Longrightarrow> get_char (enc c @ rest) = Some (c, length (enc c))"
proof (cases "c \<le> 127")
  case True
  moreover assume "isxmlch c" "c \<noteq> 38"
  ultimately show ?thesis using isxmlch_pos [of c] by (simp add: enc_ascii get_char_def)
next
  case False
  moreover assume "isxmlch c"
  ultimately show ?thesis using byte_enc [of c rest] toint_enc [of c rest] isxmlch_pos [of c] by (simp add: get_char_def Let_def)
qed

lemma get_char_entities:
  "get_char (''&lt;'' @ r) = Some (60, 4)" "get_char (''&gt;'' @ r) = Some (62, 4)" "get_char (''&amp;'' @ r) = Some (38, 5)"
  "get_char (''&apos;'' @ r) = Some (39, 6)"
  by (simp_all add: get_char_def begins_nocase_def same_nocase_def tolower_def)

lemma ascii_text: "\<forall>c\<in>set s. (of_char c :: int) \<le> 127 \<Longrightarrow> text_of (map of_char s) = s"
proof (induction s)
  case (Cons a s)
  have "0 \<le> (of_char a :: int)" by (metis of_nat_0_le_iff of_nat_of_char)
  with Cons show ?case by (simp add: enc_ascii)
qed simp

theorem toint_toutf8_witness:
  "\<exists>s. toutf8 0x20AC = Some s \<and> toint (s @ ''!'') = (0x20AC, length s)"
  by (rule toint_toutf8) simp_all

end
