(* ===== verification/Xml_Tokens.thy ===== *)
theory Xml_Tokens imports Xml_Chars begin

text \<open>
  The tokens of the XML parser (\<^verbatim>\<open>upnpdom/Parser.cpp\<close>, lines 263 to 719).  The parser keeps a copy of the
  text and a position in it; \<open>None\<close> is a read outside the copy, \<open>Some None\<close> the error code of a
  function.  The buffers of the token and of the last element are strings: \<open>Membuffer\<close> shows that the
  buffers implement them, and memory for them is not modelled as failing.
\<close>

section \<open>The state of the parser\<close>

definition WHITESPACE :: string where "WHITESPACE = [LF, TAB, CR, CHR 0x0C, SP]"

record Parser =
  ParseBuff :: string
  CurrPtr :: nat
  TagVal :: bool
  SavePtr :: "nat option"
  inAttrib :: bool
  attrFound :: bool
  atLeastOneAttrFound :: bool
  lastElem :: string
  tokBuf :: string

text \<open>The constructor, whose argument is not empty; \<open>SavePtr\<close> is not set.\<close>

definition new_parser :: "string \<Rightarrow> Parser" where
  "new_parser ParseStr = \<lparr>ParseBuff = ParseStr, CurrPtr = 0, TagVal = False, SavePtr = None, inAttrib = False,
     attrFound = True, atLeastOneAttrFound = False, lastElem = [], tokBuf = []\<rparr>"

text \<open>The text from the current position on; a match of the current character, none at the end.\<close>

definition here :: "Parser \<Rightarrow> string" where "here p = drop (CurrPtr p) (ParseBuff p)"

definition at :: "string \<Rightarrow> string \<Rightarrow> bool" where
  "at t strMatchSet = (case t of [] \<Rightarrow> False | c # _ \<Rightarrow> char_match c strMatchSet)"

definition begins :: "string \<Rightarrow> string \<Rightarrow> bool" where
  "begins t key = (take (length key) t = key)"

section \<open>Copying a token\<close>

function copy_xml_loop :: "string \<Rightarrow> nat \<Rightarrow> string option option" where
  "copy_xml_loop psrc n =
     (if n = 0 then Some (Some [])
      else (case get_char psrc of
          None \<Rightarrow> None
        | Some (c, cl) \<Rightarrow>
            if c \<le> 0 then Some None
            else if n < cl then Some None
            else (case (if cl = 1 then Some [char_of c] else toutf8 c) of
                None \<Rightarrow> Some None
              | Some u \<Rightarrow> map_option (map_option ((@) u)) (copy_xml_loop (drop cl psrc) (n - cl)))))"
  by pat_completeness auto
termination
  by (relation "measure snd") (auto dest: get_char_length)

declare copy_xml_loop.simps [simp del]

definition copy_xml_token :: "string \<Rightarrow> nat \<Rightarrow> string option option" where
  "copy_xml_token src len = (if len = 0 then Some None else copy_xml_loop src len)"

section \<open>Skipping\<close>

text \<open>
  \<^verbatim>\<open>skipUntilString\<close>: behind the key, which is not empty.  Without the key the position is moved
  behind the end of the buffer, and is read next.
\<close>

fun skipUntilString :: "string \<Rightarrow> string \<Rightarrow> string option" where
  "skipUntilString [] strSkipKey = None"
| "skipUntilString (c # cs) strSkipKey =
     (if begins (c # cs) strSkipKey then Some (drop (length strSkipKey) (c # cs)) else skipUntilString cs strSkipKey)"

lemma skipUntilString_length: "skipUntilString t key = Some u \<Longrightarrow> key \<noteq> [] \<Longrightarrow> length u < length t"
  by (induction t key rule: skipUntilString.induct) (auto intro: less_SucI split: if_split_asm)

definition skipString :: "string \<Rightarrow> string" where
  "skipString t = dropWhile (\<lambda>c. char_match c WHITESPACE) t"

definition markup_key :: "string \<Rightarrow> string option" where
  "markup_key t =
     (if begins t ''<!--'' then Some ''-->'' else if begins t ''<?'' then Some ''?>''
      else if begins t ''<!'' then Some ''>'' else None)"

lemma markup_key_ne: "markup_key t = Some key \<Longrightarrow> key \<noteq> []"
  by (auto simp: markup_key_def split: if_split_asm)

text \<open>Comments, processing instructions and declarations, each with the white space behind it.\<close>

function skip_markup :: "string \<Rightarrow> (bool \<times> string) option" where
  "skip_markup t =
     (case markup_key t of
        None \<Rightarrow> Some (False, t)
      | Some key \<Rightarrow>
          (case skipUntilString t key of
             None \<Rightarrow> None
           | Some u \<Rightarrow> map_option (\<lambda>(_, v). (True, v)) (skip_markup (skipString u))))"
  by pat_completeness auto
termination
  by (relation "measure length")
    (auto simp: skipString_def intro!: le_less_trans [OF length_dropWhile_le] dest: skipUntilString_length markup_key_ne)

declare skip_markup.simps [simp del]

text \<open>The length of the text up to the next tag, comments included.\<close>

function content_end :: "string \<Rightarrow> nat option" where
  "content_end t =
     (let u = dropWhile (\<lambda>c. \<not> char_match c ''<'') t in
      if begins u ''<!--''
      then (case skipUntilString u ''-->'' of
          None \<Rightarrow> None
        | Some v \<Rightarrow>
            if v = [] then Some (length t) else map_option ((+) (length t - length v)) (content_end v))
      else Some (length t - length u))"
  by pat_completeness auto
termination
  by (relation "measure length")
    (auto intro: less_le_trans [OF _ length_dropWhile_le] dest!: skipUntilString_length)

declare content_end.simps [simp del]

text \<open>The length of the characters that may continue a name.\<close>

lemma name_progress: "isnamech (fst (toint t)) b \<Longrightarrow> 0 < snd (toint t) \<and> t \<noteq> []"
  using name_ranges [of "fst (toint t)" b] toint_zero [of t "fst (toint t)"]
  by (cases "toint t") (auto simp: toint_def byte_def)

function name_length :: "string \<Rightarrow> nat" where
  "name_length t = (if isnamech (fst (toint t)) True then snd (toint t) + name_length (drop (snd (toint t)) t) else 0)"
  by pat_completeness auto
termination
  by (relation "measure length") (auto dest: name_progress)

declare name_length.simps [simp del]

section \<open>Tokens\<close>

text \<open>Text between tags: it is read from behind the last \<^verbatim>\<open>>\<close> that was saved.\<close>

definition content_token :: "Parser \<Rightarrow> (Parser \<times> nat) option" where
  "content_token p =
     (case SavePtr p of
        None \<Rightarrow> None
      | Some s \<Rightarrow> map_option (Pair (p\<lparr>TagVal := False, CurrPtr := Suc s\<rparr>)) (content_end (drop (Suc s) (ParseBuff p))))"

text \<open>The length of a start of a tag, 0 when there is none, NULL for an error.\<close>

definition start_length :: "string \<Rightarrow> nat option" where
  "start_length t =
     (if at t ''<''
      then (let temp = fst (toint (tl t)) in
        if temp = 47 then Some 2 else if isnamech temp False then Some 1 else None)
      else Some 0)"

text \<open>The length of the token here, 0 when nothing is recognised.\<close>

definition token_length :: "Parser \<Rightarrow> (Parser \<times> nat) option option" where
  "token_length p =
     (let t = here p in
      (case start_length t of
         None \<Rightarrow> Some None
       | Some n \<Rightarrow>
           (let p = (if n = 0 then p else p\<lparr>TagVal := False\<rparr>);
                n = (if at t [DQ] \<and> \<not> TagVal p then 1 else n);
                n = (if at t ''='' \<and> \<not> TagVal p then 1 else n)
            in if at t ''/''
               then if at (tl t) ''>'' then Some (Some (p\<lparr>TagVal := True\<rparr>, 2))
                 else if TagVal p then map_option Some (content_token p)
                 else Some (Some (p, n))
               else if at t ''>'' then Some (Some (p\<lparr>SavePtr := Some (CurrPtr p), TagVal := True\<rparr>, 1))
               else if TagVal p then map_option Some (content_token p)
               else if isnamech (fst (toint t)) False
               then Some (Some (p, snd (toint t) + name_length (drop (snd (toint t)) t)))
               else Some (Some (p, n)))))"

text \<open>A token of \<open>n\<close> bytes is copied and passed.\<close>

definition take_token :: "Parser \<Rightarrow> nat \<Rightarrow> Parser option option" where
  "take_token p n =
     map_option (map_option (\<lambda>s. p\<lparr>tokBuf := s, CurrPtr := CurrPtr p + n\<rparr>)) (copy_xml_token (here p) n)"

definition getNextToken :: "Parser \<Rightarrow> Parser option option" where
  "getNextToken p =
     (let p = p\<lparr>tokBuf := []\<rparr>; t = here p in
      if t = [] then Some (Some p)
      else if inAttrib p \<and> \<not> at t [DQ] then take_token p (length (takeWhile (\<lambda>c. \<not> char_match c [DQ]) t))
      else if at t WHITESPACE then Some (Some (p\<lparr>tokBuf := [SP], CurrPtr := Suc (CurrPtr p)\<rparr>))
      else (case skip_markup t of
          None \<Rightarrow> None
        | Some (skipped, u) \<Rightarrow>
            (let p = (if skipped then p\<lparr>CurrPtr := length (ParseBuff p) - length u, TagVal := False\<rparr> else p) in
             case token_length p of
               None \<Rightarrow> None
             | Some None \<Rightarrow> Some None
             | Some (Some (p, n)) \<Rightarrow>
                 if 0 < n then take_token p n
                 else if here p = [] then Some (Some p)
                 else Some None)))"

text \<open>White space is passed token by token.\<close>

function IgnoreWhiteSpaces :: "Parser \<Rightarrow> Parser" where
  "IgnoreWhiteSpaces p =
     (if at (here p) WHITESPACE then IgnoreWhiteSpaces (p\<lparr>tokBuf := [SP], CurrPtr := Suc (CurrPtr p)\<rparr>) else p)"
  by pat_completeness auto
termination
  by (relation "measure (\<lambda>p. length (here p))") (auto simp: here_def at_def split: list.split_asm dest!: arg_cong [where f = length])

declare IgnoreWhiteSpaces.simps [simp del]

text \<open>The step of that loop is \<open>getNextToken\<close>, outside of attribute values.\<close>

lemma white_space_token:
  "at (here p) WHITESPACE \<Longrightarrow> \<not> inAttrib p \<Longrightarrow> getNextToken p = Some (Some (p\<lparr>tokBuf := [SP], CurrPtr := Suc (CurrPtr p)\<rparr>))"
  by (auto simp: getNextToken_def here_def at_def Let_def split: list.split_asm)

end
