(* ===== verification/Xml_Reader.thy ===== *)
theory Xml_Reader imports Xml_Tokens Dom_Search begin

text \<open>
  Nodes from tokens (\<^verbatim>\<open>upnpdom/Parser.cpp\<close>, \<open>getNextNode\<close>, lines 721 to 936), the tree built of them
  (\<^verbatim>\<open>upnpdom/Document.cpp\<close>, \<open>ReadDocumentFileOrBuffer\<close>, lines 111 to 254) and the entry point
  \<open>UpnpParse_Buffer\<close> (\<^verbatim>\<open>upnpdom/domCif.cpp\<close>, lines 1408 to 1435).  The two loops take fuel: they need
  not end (\<open>parser_loops_forever\<close>).
\<close>

section \<open>Nodes\<close>

datatype NODE_TYPE = INVALID_NODE | ELEMENT_NODE | ATTRIBUTE_NODE | TEXT_NODE | CDATA_SECTION_NODE |
  ENTITY_REFERENCE_NODE | ENTITY_NODE | PROCESSING_INSTRUCTION_NODE | COMMENT_NODE | DOCUMENT_NODE |
  DOCUMENT_TYPE_NODE | DOCUMENT_FRAGMENT_NODE | NOTATION_NODE

text \<open>The four variables of the caller that \<open>getNextNode\<close> sets.\<close>

record node_event =
  NodeType :: NODE_TYPE
  NodeName :: "string option"
  NodeValue :: "string option"
  IsEnd :: bool

text \<open>A round of the loop ends with another round, a node, or an error (a code or an exception).\<close>

datatype turn = Again node_event Parser | Return node_event Parser | Bad

definition tok_then :: "Parser option option \<Rightarrow> (Parser \<Rightarrow> turn option) \<Rightarrow> turn option" where
  "tok_then r f = (case r of None \<Rightarrow> None | Some None \<Rightarrow> Some Bad | Some (Some p) \<Rightarrow> f p)"

definition rewindCurrentPtr :: "Parser \<Rightarrow> nat \<Rightarrow> Parser option" where
  "rewindCurrentPtr p n = (if CurrPtr p < n then None else Some (p\<lparr>CurrPtr := CurrPtr p - n\<rparr>))"

text \<open>The attribute whose name is the current token: its equals sign, quotes and value.\<close>

definition attribute_turn :: "Parser \<Rightarrow> turn option" where
  "attribute_turn p =
     (let name = tokBuf p in
      tok_then (getNextToken (IgnoreWhiteSpaces p)) (\<lambda>p.
      tok_then (getNextToken (IgnoreWhiteSpaces p)) (\<lambda>p.
      tok_then (getNextToken (p\<lparr>inAttrib := True\<rparr>)) (\<lambda>p.
        let p = p\<lparr>inAttrib := False\<rparr>; val = tokBuf p in
        if val = [] then Some Bad
        else tok_then (getNextToken p) (\<lambda>p.
          Some (Return \<lparr>NodeType = ATTRIBUTE_NODE, NodeName = Some name, NodeValue = Some val, IsEnd = False\<rparr>
            (p\<lparr>atLeastOneAttrFound := True\<rparr>)))))))"

definition node_turn :: "node_event \<Rightarrow> Parser \<Rightarrow> turn option" where
  "node_turn v p =
     tok_then (getNextToken (IgnoreWhiteSpaces p)) (\<lambda>p.
       let tok = tokBuf p in
       if tok = ''<''
       then tok_then (getNextToken (IgnoreWhiteSpaces p)) (\<lambda>p.
         if tokBuf p = [] then Some Bad
         else Some (Again \<lparr>NodeType = ELEMENT_NODE, NodeName = Some (tokBuf p), NodeValue = None, IsEnd = False\<rparr>
           (p\<lparr>lastElem := tokBuf p, attrFound := True, atLeastOneAttrFound := False\<rparr>)))
       else if tok = ''>''
       then (let p = p\<lparr>attrFound := False\<rparr> in
         if atLeastOneAttrFound p then Some (Again v (p\<lparr>atLeastOneAttrFound := False\<rparr>)) else Some (Return v p))
       else if tok = ''</''
       then tok_then (getNextToken (IgnoreWhiteSpaces p)) (\<lambda>p.
         if tokBuf p = [] then Some Bad
         else Some (Again \<lparr>NodeType = ELEMENT_NODE, NodeName = Some (tokBuf p), NodeValue = None, IsEnd = True\<rparr> p))
       else if tok = ''/>''
       then if NodeType v = ELEMENT_NODE \<or> NodeType v = ATTRIBUTE_NODE
         then map_option (Return (v\<lparr>IsEnd := False\<rparr>)) (rewindCurrentPtr p (length tok))
         else Some (Return \<lparr>NodeType = ELEMENT_NODE, NodeName = Some (lastElem p), NodeValue = None, IsEnd = True\<rparr>
           (p\<lparr>attrFound := True, atLeastOneAttrFound := False\<rparr>))
       else if tok = [] then Some (Again (v\<lparr>IsEnd := False\<rparr>) p)
       else if \<not> attrFound p
       then Some (Return \<lparr>NodeType = TEXT_NODE, NodeName = Some ''#text'', NodeValue = Some tok, IsEnd = False\<rparr> p)
       else if NodeType v = ELEMENT_NODE then map_option (Return v) (rewindCurrentPtr p (length tok + 1))
       else attribute_turn p)"

datatype step = Reading | Wrong | Node node_event Parser

fun getNextNode :: "nat \<Rightarrow> node_event \<Rightarrow> Parser \<Rightarrow> step option" where
  "getNextNode 0 v p = Some Reading"
| "getNextNode (Suc n) v p =
     (if here p = [] then Some (Node v p)
      else (case node_turn v p of
          None \<Rightarrow> None
        | Some Bad \<Rightarrow> Some Wrong
        | Some (Return v p) \<Rightarrow> Some (Node v p)
        | Some (Again v p) \<Rightarrow> getNextNode n v p))"

section \<open>The tree\<close>

text \<open>
  The nodes from the current one up to the document, each with its name, attributes and children
  so far; the new node of an element is the current one until its end.
\<close>

type_synonym frame = "string \<times> (string \<times> string) list \<times> dom list"

fun add_child :: "dom \<Rightarrow> frame list \<Rightarrow> frame list option" where
  "add_child d [] = None"
| "add_child d ((n, as, cs) # fs) = Some ((n, as, cs @ [d]) # fs)"

fun add_attribute :: "string \<Rightarrow> string \<Rightarrow> frame list \<Rightarrow> frame list option" where
  "add_attribute m v [] = None"
| "add_attribute m v ((n, as, cs) # fs) = Some ((n, as @ [(m, v)], cs) # fs)"

text \<open>The end of the current node: an error when the names differ.\<close>

fun end_node :: "string \<Rightarrow> frame list \<Rightarrow> frame list option option" where
  "end_node m [] = None"
| "end_node m ((n, as, cs) # fs) =
     (if m \<noteq> n then Some None
      else (case fs of [] \<Rightarrow> Some (Some []) | _ \<Rightarrow> map_option Some (add_child (Element n as cs) fs)))"

text \<open>A node put into the tree; NULL names and values do not occur but are dereferenced.\<close>

definition add_node :: "node_event \<Rightarrow> frame list \<Rightarrow> frame list option option" where
  "add_node v fs =
     (if \<not> IsEnd v
      then (case NodeType v of
          ELEMENT_NODE \<Rightarrow> (case (NodeName v, fs) of (Some n, _ # _) \<Rightarrow> Some (Some ((n, [], []) # fs)) | _ \<Rightarrow> None)
        | TEXT_NODE \<Rightarrow> (case NodeValue v of None \<Rightarrow> None | Some t \<Rightarrow> map_option Some (add_child (TextNode t) fs))
        | ATTRIBUTE_NODE \<Rightarrow>
            (case (NodeName v, NodeValue v) of (Some n, Some t) \<Rightarrow> map_option Some (add_attribute n t fs) | _ \<Rightarrow> None)
        | _ \<Rightarrow> Some (Some fs))
      else (case NodeName v of None \<Rightarrow> None | Some m \<Rightarrow> end_node m fs))"

text \<open>The document: nodes that were never ended are in it as well.\<close>

fun close_frames :: "frame list \<Rightarrow> dom option" where
  "close_frames [] = None"
| "close_frames [(n, as, cs)] = Some (Element n as cs)"
| "close_frames ((n, as, cs) # (m, bs, ds) # fs) = close_frames ((m, bs, ds @ [Element n as cs]) # fs)"

datatype document = Unfinished | Failed | Parsed dom

definition no_node :: node_event where
  "no_node = \<lparr>NodeType = INVALID_NODE, NodeName = None, NodeValue = None, IsEnd = False\<rparr>"

text \<open>\<open>N\<close> is the fuel of \<open>getNextNode\<close>, the first number the fuel of the loop.\<close>

fun read_loop :: "nat \<Rightarrow> nat \<Rightarrow> node_event \<Rightarrow> frame list \<Rightarrow> Parser \<Rightarrow> document option" where
  "read_loop N 0 v fs p = Some Unfinished"
| "read_loop N (Suc n) v fs p =
     (case getNextNode N v p of
        None \<Rightarrow> None
      | Some Reading \<Rightarrow> Some Unfinished
      | Some Wrong \<Rightarrow> Some Failed
      | Some (Node v p) \<Rightarrow>
          (case add_node v fs of
             None \<Rightarrow> None
           | Some None \<Rightarrow> Some Failed
           | Some (Some fs) \<Rightarrow>
               if NodeType v = INVALID_NODE then map_option Parsed (close_frames fs)
               else read_loop N n no_node fs p))"

definition document_frame :: frame where "document_frame = (''#document'', [], [])"

text \<open>
  \<open>v0\<close> has the type and the end mark the variables hold before the first node, which the code does not
  set; the names are NULL.
\<close>

definition ReadDocumentFileOrBuffer :: "nat \<Rightarrow> node_event \<Rightarrow> string \<Rightarrow> document option" where
  "ReadDocumentFileOrBuffer n v0 xmlFile =
     (if xmlFile = [] then Some Failed
      else read_loop n n (v0\<lparr>NodeName := None, NodeValue := None\<rparr>) [document_frame] (new_parser xmlFile))"

text \<open>The document, NULL for an empty or wrong text; \<open>Unfinished\<close> is a parser that has not returned.\<close>

definition UpnpParse_Buffer :: "nat \<Rightarrow> node_event \<Rightarrow> string \<Rightarrow> document option" where
  "UpnpParse_Buffer n v0 Buff1 = (if Buff1 = [] then Some Failed else ReadDocumentFileOrBuffer n v0 Buff1)"

end
