(* ===== verification/Xml_Print.thy ===== *)
theory Xml_Print imports Xml_Reader begin

text \<open>
  Printing of documents (\<^verbatim>\<open>upnpdom/domCif.cpp\<close>, lines 1373 to 1405 and 1437 to 1704).  The buffer is a
  string, as \<open>Membuffer\<close> shows; one nothing was put into is NULL when it is detached.
\<close>

section \<open>The printer\<close>

definition escape :: "char \<Rightarrow> string" where
  "escape c = (if c = CHR ''<'' then ''&lt;'' else if c = CHR ''>'' then ''&gt;'' else if c = CHR ''&'' then ''&amp;''
     else if c = CHR 0x27 then ''&apos;'' else [c])"

definition copy_with_escape :: "string \<Rightarrow> string" where "copy_with_escape p = concat (map escape p)"

definition print_attribute :: "string \<times> string \<Rightarrow> string" where
  "print_attribute a = ''  '' @ fst a @ ''='' @ [DQ] @ copy_with_escape (snd a) @ [DQ]"

definition is_text :: "dom \<Rightarrow> bool" where
  "is_text d = (case d of TextNode _ \<Rightarrow> True | _ \<Rightarrow> False)"

fun dump_doc :: "dom \<Rightarrow> string" where
  "dump_doc (TextNode v) = copy_with_escape v"
| "dump_doc OtherNode = []"
| "dump_doc (Element n as cs) =
     (if n = ''#document'' then concat (map dump_doc cs)
      else ''<'' @ n @ concat (map print_attribute as) @
        (case cs of
           [] \<Rightarrow> ''/>'' @ [LF]
         | d # _ \<Rightarrow> (if is_text d then ''>'' else ''>'' @ [LF]) @ concat (map dump_doc cs) @ ''</'' @ n @ ''>'' @ [LF]))"

definition DumpDocument :: "dom \<Rightarrow> string option" where
  "DumpDocument d = (let s = dump_doc d in if s = [] then None else Some s)"

definition UpnpNewPrintDocument :: "dom option \<Rightarrow> string option" where
  "UpnpNewPrintDocument node = (case node of None \<Rightarrow> None | Some d \<Rightarrow> DumpDocument d)"

text \<open>Into the buffer of the caller, of \<open>room\<close> bytes.\<close>

definition UpnpPrintDocument :: "dom \<Rightarrow> nat \<Rightarrow> string option" where
  "UpnpPrintDocument d room = do { s \<leftarrow> DumpDocument d; block_of room s }"

section \<open>Printing without escapes\<close>

definition copyToTarget :: "string option \<Rightarrow> string \<Rightarrow> string option" where
  "copyToTarget target p = Some (case target of None \<Rightarrow> p | Some t \<Rightarrow> t @ p)"

definition raw_attribute :: "string \<times> string \<Rightarrow> string" where
  "raw_attribute a = ''  '' @ fst a @ ''='' @ [DQ] @ snd a @ [DQ]"

text \<open>The loop over the children: the target is replaced by the printed form of each.\<close>

definition dump_children :: "string option \<Rightarrow> dom list \<Rightarrow> string option" where
  "dump_children target cs = foldl (\<lambda>_ d. DumpDocument d) target cs"

definition DumpNonEscapedDocument :: "string option \<Rightarrow> dom \<Rightarrow> string option" where
  "DumpNonEscapedDocument target d =
     (case d of
        TextNode v \<Rightarrow> copyToTarget target v
      | OtherNode \<Rightarrow> target
      | Element n as cs \<Rightarrow>
          if n = ''#document'' then dump_children target cs
          else (let start = copyToTarget target (''<'' @ n @ concat (map raw_attribute as)) in
            (case cs of
               [] \<Rightarrow> copyToTarget start (''/>'' @ [LF])
             | c # _ \<Rightarrow>
                 copyToTarget (dump_children (copyToTarget start (if is_text c then ''>'' else ''>'' @ [LF])) cs)
                   (''</'' @ n @ ''>'' @ [LF]))))"

definition UpnpPrintDocumentDeEscaped :: "dom option \<Rightarrow> string option" where
  "UpnpPrintDocumentDeEscaped node = (case node of None \<Rightarrow> None | Some d \<Rightarrow> DumpNonEscapedDocument None d)"

text \<open>
  What was printed before the last child is lost, the start of the element included.
\<close>

lemma dump_children_last: "dump_children target (cs @ [c]) = DumpDocument c"
  by (simp add: dump_children_def)

theorem deescaped_keeps_last_child:
  assumes "n \<noteq> ''#document''"
  shows "UpnpPrintDocumentDeEscaped (Some (Element n as (cs @ [c]))) = Some (dump_doc c @ ''</'' @ n @ ''>'' @ [LF])"
proof -
  note defs = UpnpPrintDocumentDeEscaped_def DumpNonEscapedDocument_def DumpDocument_def copyToTarget_def Let_def
  show ?thesis
  proof (cases cs)
    case Nil
    then show ?thesis using assms dump_children_last [of _ "[]" c] by (simp add: defs)
  next
    case (Cons a ds)
    then show ?thesis using assms dump_children_last [of _ "a # ds" c] by (simp add: defs)
  qed
qed

section \<open>Escapes are undone\<close>

definition plain_text :: "int list \<Rightarrow> bool" where "plain_text cs = list_all isxmlch cs"

lemma escape_high: "127 < (of_char b :: int) \<Longrightarrow> escape b = [b]"
  by (auto simp: escape_def)

lemma escape_enc: "127 < c \<Longrightarrow> c < 2 ^ 31 \<Longrightarrow> copy_with_escape (enc c) = enc c"
proof -
  assume c: "127 < c" "c < 2 ^ 31"
  have "\<forall>b\<in>set s. escape b = [b] \<Longrightarrow> copy_with_escape s = s" for s
    by (induction s) (simp_all add: copy_with_escape_def)
  then show ?thesis using enc_high [OF c] escape_high by blast
qed

lemma copy_with_escape_simps [simp]: "copy_with_escape [] = []" "copy_with_escape (s @ t) = copy_with_escape s @ copy_with_escape t"
  by (simp_all add: copy_with_escape_def)

lemma special_chars: "char_of (60 :: int) = CHR ''<''" "char_of (62 :: int) = CHR ''>''" "char_of (38 :: int) = CHR ''&''"
  "char_of (39 :: int) = CHR 0x27" by code_simp+

lemma special_iff:
  fixes c :: int
  assumes "0 < c" "c \<le> 127"
  shows "(char_of c = CHR ''<'') = (c = 60)" "(char_of c = CHR ''>'') = (c = 62)" "(char_of c = CHR ''&'') = (c = 38)"
    "(char_of c = CHR 0x27) = (c = 39)"
proof -
  have "of_char (char_of c) = c" using assms by simp
  then have "char_of c = d \<longleftrightarrow> c = of_char d" for d
    using of_char_eq_iff [of "char_of c" d, where 'a = int] by metis
  then show "(char_of c = CHR ''<'') = (c = 60)" "(char_of c = CHR ''>'') = (c = 62)" "(char_of c = CHR ''&'') = (c = 38)"
    "(char_of c = CHR 0x27) = (c = 39)" by simp_all
qed

text \<open>One character, as it is printed, is read as that character.\<close>

lemma get_char_escaped:
  assumes "isxmlch c"
  shows "\<exists>k. get_char (copy_with_escape (enc c) @ r) = Some (c, k) \<and> length (copy_with_escape (enc c)) = k \<and> 0 < k \<and>
    (if k = 1 then Some [char_of c] else toutf8 c) = Some (enc c)"
proof (cases "c \<le> 127")
  case True
  note c = isxmlch_pos [OF assms]
  have e: "enc c = [char_of c]" "toutf8 c = Some [char_of c]" using True c by (simp_all add: enc_ascii toutf8_forms)
  show ?thesis
  proof (cases "c = 60 \<or> c = 62 \<or> c = 38 \<or> c = 39")
    case True
    then show ?thesis
      by (elim disjE; simp add: copy_with_escape_def escape_def get_char_entities [simplified] enc_ascii toutf8_forms special_chars)
  next
    case False
    have "copy_with_escape (enc c) = [char_of c]" using False by (simp add: e copy_with_escape_def escape_def special_iff c \<open>c \<le> 127\<close>)
    then show ?thesis using get_char_enc [OF assms, of r] False e by simp
  qed
next
  case False
  note c = isxmlch_pos [OF assms]
  have "length (enc c) \<noteq> 1"
    using False c toint_enc [of c "[]"] byte_enc [of c "[]"] by (auto simp: toint_def Let_def split: if_split_asm)
  then show ?thesis
    using get_char_enc [OF assms, of r] False c length_enc [of c] by (simp add: escape_enc toutf8_enc)
qed

lemma copy_xml_loop_escaped:
  "plain_text cs \<Longrightarrow> copy_xml_loop (copy_with_escape (text_of cs) @ r) (length (copy_with_escape (text_of cs))) = Some (Some (text_of cs))"
proof (induction cs)
  case Nil
  then show ?case by (simp add: copy_xml_loop.simps)
next
  case (Cons c cs)
  then have x: "isxmlch c" and p: "plain_text cs" by (simp_all add: plain_text_def)
  let ?e = "copy_with_escape (enc c)" and ?t = "copy_with_escape (text_of cs)"
  obtain k where k: "get_char (?e @ ?t @ r) = Some (c, k)" "length ?e = k" "0 < k"
    "(if k = 1 then Some [char_of c] else toutf8 c) = Some (enc c)"
    using get_char_escaped [OF x, of "?t @ r"] by blast
  show ?case using Cons.IH [OF p] k isxmlch_pos [OF x] by (subst copy_xml_loop.simps) simp
qed

text \<open>Characters that are not escaped are copied as they are.\<close>

lemma copy_xml_loop_plain:
  assumes "plain_text cs" "\<forall>c\<in>set cs. c \<notin> {60, 62, 38, 39}"
  shows "copy_xml_loop (text_of cs @ r) (length (text_of cs)) = Some (Some (text_of cs))"
proof -
  have "copy_with_escape (text_of cs) = text_of cs"
    using assms
  proof (induction cs)
    case (Cons c cs)
    have "copy_with_escape (enc c) = enc c"
    proof (cases "c \<le> 127")
      case True
      have c: "0 < c" using Cons.prems(1) isxmlch_pos [of c] by (simp add: plain_text_def)
      then show ?thesis using True Cons.prems(2) by (simp add: enc_ascii copy_with_escape_def escape_def special_iff)
    next
      case False
      then show ?thesis using Cons.prems(1) isxmlch_pos [of c] by (simp add: escape_enc plain_text_def)
    qed
    with Cons show ?case by (simp add: plain_text_def)
  qed simp
  with copy_xml_loop_escaped [OF assms(1), of r] show ?thesis by simp
qed

text \<open>A document of which only the last element and the end of the root are left.\<close>

theorem deescaped_keeps_last_child_witness:
  "UpnpPrintDocumentDeEscaped (Some (Element ''a'' [] [Element ''b'' [] [], Element ''c'' [] []])) =
     Some (''<c/>'' @ [LF] @ ''</a>'' @ [LF])"
  using deescaped_keeps_last_child [of "''a''" "[]" "[Element ''b'' [] []]" "Element ''c'' [] []"] by simp

end
