(* ===== verification/Xml_Laws.thy ===== *)
theory Xml_Laws imports Xml_Print begin

text \<open>
  The tokens and the nodes the parser of \<^verbatim>\<open>Parser.cpp\<close> finds in printed text: one lemma for every kind
  of token and for every round of \<open>getNextNode\<close> (\<open>turn_\<close>).
\<close>

section \<open>Positions\<close>

lemma here_updates [simp]:
  "here (p\<lparr>TagVal := b\<rparr>) = here p" "here (p\<lparr>SavePtr := s\<rparr>) = here p" "here (p\<lparr>inAttrib := b\<rparr>) = here p"
  "here (p\<lparr>attrFound := b\<rparr>) = here p" "here (p\<lparr>atLeastOneAttrFound := b\<rparr>) = here p" "here (p\<lparr>lastElem := t\<rparr>) = here p"
  "here (p\<lparr>tokBuf := t\<rparr>) = here p"
  by (simp_all add: here_def)

lemma here_skip: "here (p\<lparr>CurrPtr := CurrPtr p + n\<rparr>) = drop n (here p)"
  by (simp add: here_def add.commute)

lemma at_simps [simp]: "\<not> at [] S" "at (c # s) S \<longleftrightarrow> c \<in> set S"
  by (simp_all add: at_def char_match_def)

definition ascii :: "string \<Rightarrow> bool" where "ascii S = (\<forall>c\<in>set S. (of_char c :: int) \<le> 127)"

text \<open>The first byte of a character is in a set of ASCII characters only when it is that character.\<close>

lemma at_enc:
  assumes "0 \<le> c" "c < 2 ^ 31" "ascii S"
  shows "at (enc c @ r) S \<longleftrightarrow> c \<in> of_char ` set S"
proof (cases "c \<le> 127")
  case True
  have "char_of c = d \<longleftrightarrow> c = of_char d" for d
    using True assms(1) of_char_eq_iff [of "char_of c" d, where 'a = int] by simp
  then show ?thesis using True assms(1) by (auto simp: enc_ascii)
next
  case False
  then obtain b s where e: "enc c = b # s" using length_enc [of c] assms by (cases "enc c") auto
  then have "127 < (of_char b :: int)" using enc_high [of c b] False assms by simp
  then show ?thesis using e False assms(3) by (force simp: ascii_def)
qed

lemma ascii_sets: "ascii WHITESPACE" "ascii [DQ]" "ascii ''=''" "ascii ''/''" "ascii ''>''" "ascii ''<''"
  by (simp_all add: ascii_def WHITESPACE_def DQ_def)

lemma names_start:
  assumes "isnamech c b"
  shows "\<not> at (enc c @ r) WHITESPACE" "\<not> at (enc c @ r) [DQ]" "\<not> at (enc c @ r) ''=''" "\<not> at (enc c @ r) ''/''"
    "\<not> at (enc c @ r) ''>''" "\<not> at (enc c @ r) ''<''"
proof -
  have c: "0 \<le> c" "c < 2 ^ 31" "45 \<le> c" "c \<noteq> 47" "c \<noteq> 60" "c \<noteq> 61" "c \<noteq> 62"
    using name_ranges [OF assms] not_names [of b] assms by auto
  show "\<not> at (enc c @ r) WHITESPACE" "\<not> at (enc c @ r) [DQ]" "\<not> at (enc c @ r) ''=''" "\<not> at (enc c @ r) ''/''"
    "\<not> at (enc c @ r) ''>''" "\<not> at (enc c @ r) ''<''"
    using c by (auto simp: at_enc [OF c(1,2)] ascii_sets) (auto simp: WHITESPACE_def DQ_def)
qed

text \<open>White space in front of a token is passed.\<close>

definition spaces :: "string \<Rightarrow> bool" where "spaces w = (set w \<subseteq> set WHITESPACE)"

lemma IgnoreWhiteSpaces_passes:
  "here p = w @ t \<Longrightarrow> spaces w \<Longrightarrow> \<not> at t WHITESPACE \<Longrightarrow>
    \<exists>x. IgnoreWhiteSpaces p = p\<lparr>tokBuf := x, CurrPtr := CurrPtr p + length w\<rparr>"
proof (induction w arbitrary: p)
  case Nil
  then show ?case by (intro exI [of _ "tokBuf p"]) (subst IgnoreWhiteSpaces.simps, simp)
next
  case (Cons c w)
  let ?q = "p\<lparr>tokBuf := [SP], CurrPtr := Suc (CurrPtr p)\<rparr>"
  have "here ?q = w @ t" using Cons.prems(1) here_skip [of p 1] by (simp add: here_def)
  then obtain x where "IgnoreWhiteSpaces ?q = ?q\<lparr>tokBuf := x, CurrPtr := CurrPtr ?q + length w\<rparr>"
    using Cons.IH [of ?q] Cons.prems by (auto simp: spaces_def)
  then show ?case using Cons.prems(1,2) by (intro exI [of _ x]) (subst IgnoreWhiteSpaces.simps, simp add: spaces_def)
qed

lemma getNextToken_tokBuf: "getNextToken (p\<lparr>tokBuf := x\<rparr>) = getNextToken p"
  by (simp add: getNextToken_def)

lemma token_after_spaces:
  assumes "here p = w @ t" "spaces w" "\<not> at t WHITESPACE"
  shows "getNextToken (IgnoreWhiteSpaces p) = getNextToken (p\<lparr>CurrPtr := CurrPtr p + length w\<rparr>)"
proof -
  obtain x where "IgnoreWhiteSpaces p = p\<lparr>tokBuf := x, CurrPtr := CurrPtr p + length w\<rparr>"
    using IgnoreWhiteSpaces_passes [OF assms] by blast
  then have "IgnoreWhiteSpaces p = (p\<lparr>CurrPtr := CurrPtr p + length w\<rparr>)\<lparr>tokBuf := x\<rparr>" by simp
  then show ?thesis by (simp only: getNextToken_tokBuf)
qed

section \<open>Tokens\<close>

lemma skip_markup_none: "markup_key t = None \<Longrightarrow> skip_markup t = Some (False, t)"
  by (subst skip_markup.simps) simp

lemma begins_at: "\<not> at t ''<'' \<Longrightarrow> markup_key t = None"
  by (cases t) (auto simp: markup_key_def begins_def)

text \<open>A token whose length is found outside of markup and attribute values.\<close>

lemma token_taken:
  assumes "here p \<noteq> []" "\<not> inAttrib p" "\<not> at (here p) WHITESPACE" "markup_key (here p) = None"
    "token_length (p\<lparr>tokBuf := []\<rparr>) = Some (Some (q, n))" "0 < n" "copy_xml_loop (here q) n = Some (Some s)"
  shows "getNextToken p = Some (Some (q\<lparr>tokBuf := s, CurrPtr := CurrPtr q + n\<rparr>))"
  using assms by (simp add: getNextToken_def Let_def skip_markup_none take_token_def copy_xml_token_def)

lemma copy_ascii:
  "list_all (\<lambda>c. isxmlch (of_char c) \<and> (of_char c :: int) < 128 \<and> c \<noteq> CHR ''&'') s \<Longrightarrow>
    copy_xml_loop (s @ r) (length s) = Some (Some s)"
proof (induction s)
  case Nil
  then show ?case by (simp add: copy_xml_loop.simps)
next
  case (Cons c s)
  have "(of_char c :: int) \<noteq> 38" using Cons.prems of_char_eq_iff [of c "CHR ''&''", where 'a = int] by auto
  then have "get_char ((c # s) @ r) = Some (of_char c, 1)"
    using Cons.prems isxmlch_pos [of "of_char c"] by (simp add: get_char_def)
  then show ?case using Cons isxmlch_pos [of "of_char c"] by (subst copy_xml_loop.simps) simp
qed

text \<open>The tokens of a tag, each with what it does to the parser.\<close>

lemma toint_ascii: "(of_char a :: int) \<le> 127 \<Longrightarrow> toint (a # r) = (of_char a, 1)"
  by (simp add: toint_def)

lemma token_open:
  assumes "here p = CHR ''<'' # enc c @ r" "isnamech c False" "\<not> inAttrib p"
  shows "getNextToken p = Some (Some (p\<lparr>TagVal := False, tokBuf := ''<'', CurrPtr := CurrPtr p + 1\<rparr>))"
proof -
  have c: "0 \<le> c" "c < 2 ^ 31" "45 \<le> c" "c \<noteq> 63" "c \<noteq> 47"
    using name_ranges [OF assms(2)] not_names [of False] assms(2) by auto
  then have "\<not> at (enc c @ r) ''!?''" by (subst at_enc) (auto simp: ascii_def)
  then have m: "markup_key (here p) = None" using assms(1) by (cases "enc c @ r") (auto simp: markup_key_def begins_def)
  have n: "start_length (here p) = Some 1" using assms c by (simp add: start_length_def toint_enc)
  have "copy_xml_loop (here p) 1 = Some (Some ''<'')" using copy_ascii [of "''<''" "enc c @ r"] assms(1) by (simp add: isxmlch_def)
  moreover have "token_length (p\<lparr>tokBuf := []\<rparr>) = Some (Some (p\<lparr>tokBuf := [], TagVal := False\<rparr>, 1))"
    using n not_names(2) [of False] assms(1) by (simp add: token_length_def Let_def DQ_def toint_ascii)
  ultimately show ?thesis
    using token_taken [of p "p\<lparr>tokBuf := [], TagVal := False\<rparr>" 1 "''<''"] assms(1,3) m by (simp add: WHITESPACE_def)
qed

lemma token_fixed:
  assumes "here p = s @ r" "\<not> inAttrib p" "s = ''</'' \<or> s = ''/>'' \<or> s = ''>''  \<or> (s = ''='' \<or> s = [DQ]) \<and> \<not> TagVal p"
  shows "getNextToken p = Some (Some ((if s = ''</'' then p\<lparr>TagVal := False\<rparr> else if s = ''/>'' then p\<lparr>TagVal := True\<rparr>
      else if s = ''>'' then p\<lparr>TagVal := True, SavePtr := Some (CurrPtr p)\<rparr> else p)\<lparr>tokBuf := s, CurrPtr := CurrPtr p + length s\<rparr>))"
    (is "_ = Some (Some (?q\<lparr>tokBuf := s, CurrPtr := _\<rparr>))")
proof -
  have t: "\<not> isnamech (fst (toint (DQ # r))) False" "\<not> isnamech (fst (toint (CHR ''='' # r))) False"
    "fst (toint (CHR ''/'' # r)) = 47" "\<not> isnamech 60 False"
    using not_names [of False] name_ranges [of 34 False] by (auto simp: toint_def DQ_def)
  have m: "markup_key (here p) = None" "here p \<noteq> []" "\<not> at (here p) WHITESPACE"
    using assms(1,3) by (auto simp: markup_key_def begins_def DQ_def WHITESPACE_def)
  have c: "copy_xml_loop (here p) (length s) = Some (Some s)"
    unfolding assms(1) by (rule copy_ascii) (use assms(3) in \<open>auto simp: isxmlch_def DQ_def\<close>)
  have l: "token_length (p\<lparr>tokBuf := []\<rparr>) = Some (Some (?q\<lparr>tokBuf := []\<rparr>, length s))"
    using assms t by (auto simp: token_length_def start_length_def DQ_def toint_def)
  show ?thesis using token_taken [OF m(2) assms(2) m(3,1) l] c assms(3) by (auto simp: DQ_def)
qed

text \<open>Names: a first character and others, written in UTF-8.\<close>

definition name_codes :: "int list \<Rightarrow> bool" where
  "name_codes cs = (case cs of [] \<Rightarrow> False | c # ds \<Rightarrow> isnamech c False \<and> list_all (\<lambda>c. isnamech c True) ds)"

lemma name_length_text:
  "list_all (\<lambda>c. isnamech c True) cs \<Longrightarrow> (of_char x :: int) \<le> 127 \<Longrightarrow> \<not> isnamech (of_char x) True \<Longrightarrow>
    name_length (text_of cs @ x # r) = length (text_of cs)"
proof (induction cs)
  case Nil
  then show ?case by (subst name_length.simps) (simp add: toint_ascii)
next
  case (Cons c cs)
  then have "toint (text_of (c # cs) @ x # r) = (c, length (enc c))"
    using toint_enc [of c "text_of cs @ x # r"] name_ranges [of c True] by simp
  then show ?case using Cons by (subst name_length.simps) simp
qed

lemma token_name:
  assumes "here p = text_of cs @ x # r" "name_codes cs" "(of_char x :: int) \<le> 127" "\<not> isnamech (of_char x) True"
    "\<not> inAttrib p" "\<not> TagVal p"
  shows "getNextToken p = Some (Some (p\<lparr>tokBuf := text_of cs, CurrPtr := CurrPtr p + length (text_of cs)\<rparr>))"
proof -
  obtain c ds where e: "cs = c # ds" and c: "isnamech c False" and ds: "list_all (\<lambda>c. isnamech c True) ds"
    using assms(2) by (cases cs) (auto simp: name_codes_def)
  note n = names_start [OF c, of "text_of ds @ x # r"]
  have r: "0 \<le> c" "c < 2 ^ 31" using name_ranges [OF c] by auto
  have t: "toint (here p) = (c, length (enc c))" using toint_enc [OF r, of "text_of ds @ x # r"] assms(1) e by simp
  have l: "token_length (p\<lparr>tokBuf := []\<rparr>) = Some (Some (p\<lparr>tokBuf := []\<rparr>, length (text_of cs)))"
    using n c assms(1,6) t name_length_text [OF ds assms(3,4), of r]
    by (simp add: token_length_def start_length_def Let_def e)
  have a: "\<forall>c\<in>set cs. isnamech c True" using isnamech_first [OF c] ds by (simp add: e list_all_iff)
  then have x: "plain_text cs" "\<forall>c\<in>set cs. c \<notin> {60, 62, 38, 39}"
    using not_names [of True] name_ranges [of 38 True] name_ranges [of 39 True] by (auto simp: plain_text_def list_all_iff isnamech_xml)
  have "here p \<noteq> []" "0 < length (text_of cs)" using assms(1) length_enc [OF r] by (auto simp: e)
  then show ?thesis
    using token_taken [of p "p\<lparr>tokBuf := []\<rparr>" "length (text_of cs)" "text_of cs"] l copy_xml_loop_plain [OF x, of "x # r"]
      assms(1,5) n begins_at [of "here p"] by (simp add: e)
qed

text \<open>Printed text has no \<^verbatim>\<open><\<close>, no \<^verbatim>\<open>>\<close>, and a quote only for a quote.\<close>

lemma ascii_in_text:
  assumes "plain_text cs" "(of_char b :: int) \<le> 127"
  shows "b \<in> set (text_of cs) \<longleftrightarrow> of_char b \<in> set cs"
  using assms(1)
proof (induction cs)
  case (Cons c cs)
  have "b \<in> set (enc c) \<longleftrightarrow> c = of_char b"
  proof (cases "c \<le> 127")
    case True
    have c: "0 < c" using Cons.prems isxmlch_pos [of c] by (simp add: plain_text_def)
    have "char_of c = b \<longleftrightarrow> c = of_char b" using True c of_char_eq_iff [of "char_of c" b, where 'a = int] by simp
    then show ?thesis using True c by (auto simp: enc_ascii)
  next
    case False
    then show ?thesis using enc_high [of c b] assms(2) Cons.prems isxmlch_pos [of c] by (auto simp: plain_text_def)
  qed
  with Cons show ?case by (auto simp: plain_text_def)
qed simp

lemma escaped_bytes: "CHR ''<'' \<notin> set (copy_with_escape s)" "CHR ''>'' \<notin> set (copy_with_escape s)"
  "DQ \<in> set (copy_with_escape s) \<longleftrightarrow> DQ \<in> set s"
  by (induction s) (auto simp: copy_with_escape_def escape_def DQ_def)

lemma escape_ne: "copy_with_escape s = [] \<longleftrightarrow> s = []"
  by (cases s) (auto simp: copy_with_escape_def escape_def)

lemma takeWhile_until: "x \<notin> set s \<Longrightarrow> takeWhile (\<lambda>c. \<not> char_match c [x]) (s @ x # r) = s"
  "x \<notin> set s \<Longrightarrow> dropWhile (\<lambda>c. \<not> char_match c [x]) (s @ x # r) = x # r"
  by (induction s) (auto simp: char_match_def)

text \<open>The value of an attribute, up to its quote.\<close>

lemma token_value:
  assumes "here p = copy_with_escape (text_of cs) @ DQ # r" "plain_text cs" "cs \<noteq> []" "34 \<notin> set cs" "inAttrib p"
  shows "getNextToken p = Some (Some (p\<lparr>tokBuf := text_of cs, CurrPtr := CurrPtr p + length (copy_with_escape (text_of cs))\<rparr>))"
proof -
  let ?e = "copy_with_escape (text_of cs)"
  have q: "DQ \<notin> set ?e" using ascii_in_text [OF assms(2), of DQ] assms(4) escaped_bytes(3) [of "text_of cs"] by (simp add: DQ_def)
  have "text_of cs \<noteq> []"
    using assms(2,3) length_enc isxmlch_pos by (cases cs) (fastforce simp: plain_text_def)+
  then obtain b s where e: "?e = b # s" using escape_ne by (metis neq_Nil_conv)
  with q have "\<not> at (here p) [DQ]" "here p \<noteq> []" using assms(1) by auto
  then show ?thesis
    using assms(1,5) takeWhile_until(1) [OF q] copy_xml_loop_escaped [OF assms(2), of "DQ # r"] e
    by (simp add: getNextToken_def Let_def take_token_def copy_xml_token_def)
qed

text \<open>Text, from behind the last tag up to the next one.\<close>

lemma content_end_text:
  assumes "CHR ''<'' \<notin> set e" "\<not> begins (CHR ''<'' # r) ''<!--''"
  shows "content_end (e @ CHR ''<'' # r) = Some (length e)"
  using takeWhile_until(2) [OF assms(1), of r] assms(2) by (subst content_end.simps) (simp add: Let_def)

lemma token_text:
  assumes "here p = e @ CHR ''<'' # r" "copy_with_escape (text_of cs) = w @ e" "e \<noteq> []" "\<not> at e WHITESPACE" "plain_text cs"
    "\<not> begins (CHR ''<'' # r) ''<!--''" "\<not> inAttrib p" "TagVal p" "SavePtr p = Some s"
    "drop (Suc s) (ParseBuff p) = w @ e @ CHR ''<'' # r"
  shows "getNextToken p =
    Some (Some (p\<lparr>TagVal := False, tokBuf := text_of cs, CurrPtr := Suc s + length (copy_with_escape (text_of cs))\<rparr>))"
proof -
  obtain b t where e: "e = b # t" using assms(3) by (cases e) auto
  have b: "b \<noteq> CHR ''<''" "b \<noteq> CHR ''>''" "CHR ''<'' \<notin> set (w @ e)" "CHR ''>'' \<notin> set t"
    using escaped_bytes(1,2) [of "text_of cs"] assms(2) e by auto
  have t: "\<not> at (t @ CHR ''<'' # r) ''>''" using b(4) by (cases t) auto
  have c: "content_end (drop (Suc s) (ParseBuff p)) = Some (length (w @ e))"
    using content_end_text [OF b(3) assms(6)] assms(10) by simp
  have l: "token_length (p\<lparr>tokBuf := []\<rparr>) =
      Some (Some (p\<lparr>tokBuf := [], TagVal := False, CurrPtr := Suc s\<rparr>, length (w @ e)))"
    using b t c assms(1,8,9) by (simp add: token_length_def start_length_def Let_def e content_token_def)
  have "here (p\<lparr>tokBuf := [], TagVal := False, CurrPtr := Suc s\<rparr>) = copy_with_escape (text_of cs) @ CHR ''<'' # r"
    using assms(2,10) by (simp add: here_def)
  then have k: "copy_xml_loop (here (p\<lparr>tokBuf := [], TagVal := False, CurrPtr := Suc s\<rparr>)) (length (w @ e)) = Some (Some (text_of cs))"
    using copy_xml_loop_escaped [OF assms(5), of "CHR ''<'' # r"] assms(2) by simp
  have "\<not> at (here p) WHITESPACE" "here p \<noteq> []" "markup_key (here p) = None"
    using assms(1,4) b(1) by (simp_all add: e begins_at)
  then show ?thesis using token_taken [OF _ assms(7) _ _ l _ k] assms(2) e by simp
qed

section \<open>Nodes\<close>

text \<open>\<open>moved p u q\<close>: the parser has passed the text \<open>u\<close>.\<close>

definition moved :: "Parser \<Rightarrow> string \<Rightarrow> Parser \<Rightarrow> bool" where
  "moved p u q = (ParseBuff q = ParseBuff p \<and> CurrPtr q = CurrPtr p + length u)"

lemma moved_here: "moved p u q \<Longrightarrow> here p = u @ t \<Longrightarrow> here q = t"
  by (simp add: moved_def here_def) (metis append_eq_conv_conj drop_drop add.commute)

lemma moved_trans: "moved p u q \<Longrightarrow> moved q v r \<Longrightarrow> moved p (u @ v) r"
  by (simp add: moved_def)

lemma token_moved:
  assumes "here p = w @ t" "spaces w" "\<not> at t WHITESPACE" "q = p\<lparr>CurrPtr := CurrPtr p + length w\<rparr>"
  shows "getNextToken (IgnoreWhiteSpaces p) = getNextToken q" "here q = t" "moved p w q"
proof -
  show m: "moved p w q" using assms(4) by (simp add: moved_def)
  show "here q = t" using moved_here [OF m assms(1)] .
  show "getNextToken (IgnoreWhiteSpaces p) = getNextToken q" using token_after_spaces [OF assms(1-3)] assms(4) by simp
qed

definition breaks :: "char \<Rightarrow> bool" where "breaks x = (x \<in> {CHR ''/'', CHR ''>'', SP, CHR ''=''})"

lemma breaks_name: "breaks x \<Longrightarrow> (of_char x :: int) \<le> 127 \<and> \<not> isnamech (of_char x) True"
  using not_names [of True] name_ranges [of 32 True] by (auto simp: breaks_def)

lemma name_codes_first:
  assumes "name_codes cs"
  obtains c ds where "text_of cs = enc c @ text_of ds" "isnamech c False" "text_of cs \<noteq> []"
proof -
  obtain c ds where e: "cs = c # ds" "isnamech c False" using assms by (cases cs) (auto simp: name_codes_def)
  then have "text_of cs \<noteq> []" using length_enc [of c] name_ranges [of c False] by auto
  with e that show ?thesis by simp
qed

definition element_event :: "string \<Rightarrow> bool \<Rightarrow> node_event" where
  "element_event n b = \<lparr>NodeType = ELEMENT_NODE, NodeName = Some n, NodeValue = None, IsEnd = b\<rparr>"

lemma turn_start:
  assumes "here p = w @ CHR ''<'' # text_of cs @ x # r" "spaces w" "name_codes cs" "breaks x" "\<not> inAttrib p"
  shows "\<exists>q. node_turn v p = Some (Again (element_event (text_of cs) False) q) \<and> moved p (w @ ''<'' @ text_of cs) q \<and>
    \<not> inAttrib q \<and> \<not> TagVal q \<and> attrFound q \<and> \<not> atLeastOneAttrFound q \<and> lastElem q = text_of cs"
proof -
  obtain c ds where c: "text_of cs = enc c @ text_of ds" "isnamech c False" "text_of cs \<noteq> []"
    using name_codes_first [OF assms(3)] .
  let ?p1 = "p\<lparr>CurrPtr := CurrPtr p + length w\<rparr>"
  note m = token_moved [OF assms(1,2) _ refl, simplified]
  let ?p2 = "?p1\<lparr>TagVal := False, tokBuf := ''<'', CurrPtr := CurrPtr ?p1 + 1\<rparr>"
  have t1: "getNextToken (IgnoreWhiteSpaces p) = Some (Some ?p2)"
    using m(1,2) token_open [of ?p1 c "text_of ds @ x # r"] c assms(5) by (simp add: WHITESPACE_def)
  have h2: "here ?p2 = [] @ text_of cs @ x # r" using moved_here [of ?p1 "''<''" ?p2] m(2) by (simp add: moved_def WHITESPACE_def)
  have w2: "\<not> at (text_of cs @ x # r) WHITESPACE" using names_start(1) [OF c(2)] c(1) by simp
  have t2: "getNextToken (IgnoreWhiteSpaces ?p2) = Some (Some (?p2\<lparr>tokBuf := text_of cs, CurrPtr := CurrPtr ?p2 + length (text_of cs)\<rparr>))"
    using token_moved(1) [OF h2 _ w2 refl] token_name [of ?p2 cs x r] h2 assms(3-5) breaks_name [of x] by (simp add: spaces_def)
  show ?thesis
    using t1 t2 c(3) assms(5) by (simp add: node_turn_def tok_then_def Let_def element_event_def moved_def)
qed

lemma turn_end:
  assumes "here p = w @ ''</'' @ text_of cs @ x # r" "spaces w" "name_codes cs" "breaks x" "\<not> inAttrib p"
  shows "\<exists>q. node_turn v p = Some (Again (element_event (text_of cs) True) q) \<and> moved p (w @ ''</'' @ text_of cs) q \<and>
    \<not> inAttrib q \<and> \<not> TagVal q \<and> attrFound q = attrFound p \<and> atLeastOneAttrFound q = atLeastOneAttrFound p"
proof -
  obtain c ds where c: "text_of cs = enc c @ text_of ds" "isnamech c False" "text_of cs \<noteq> []"
    using name_codes_first [OF assms(3)] .
  let ?p1 = "p\<lparr>CurrPtr := CurrPtr p + length w\<rparr>"
  note m = token_moved [OF assms(1,2) _ refl, simplified]
  let ?p2 = "?p1\<lparr>TagVal := False, tokBuf := ''</'', CurrPtr := CurrPtr ?p1 + 2\<rparr>"
  have t1: "getNextToken (IgnoreWhiteSpaces p) = Some (Some ?p2)"
    using m(1,2) token_fixed [of ?p1 "''</''" "text_of cs @ x # r"] assms(5) by (simp add: WHITESPACE_def)
  have h2: "here ?p2 = [] @ text_of cs @ x # r" using moved_here [of ?p1 "''</''" ?p2] m(2) by (simp add: moved_def WHITESPACE_def)
  have w2: "\<not> at (text_of cs @ x # r) WHITESPACE" using names_start(1) [OF c(2)] c(1) by simp
  have t2: "getNextToken (IgnoreWhiteSpaces ?p2) = Some (Some (?p2\<lparr>tokBuf := text_of cs, CurrPtr := CurrPtr ?p2 + length (text_of cs)\<rparr>))"
    using token_moved(1) [OF h2 _ w2 refl] token_name [of ?p2 cs x r] h2 assms(3-5) breaks_name [of x] by (simp add: spaces_def)
  show ?thesis
    using t1 t2 c(3) assms(5) by (simp add: node_turn_def tok_then_def Let_def element_event_def moved_def)
qed

lemma turn_close:
  assumes "here p = CHR ''>'' # r" "\<not> inAttrib p"
  shows "\<exists>q. node_turn v p = Some ((if atLeastOneAttrFound p then Again else Return) v q) \<and> moved p ''>'' q \<and>
    \<not> inAttrib q \<and> TagVal q \<and> SavePtr q = Some (CurrPtr p) \<and> \<not> attrFound q \<and> \<not> atLeastOneAttrFound q"
proof -
  have "getNextToken (IgnoreWhiteSpaces p) = getNextToken p"
    using token_moved(1) [of p "[]" "CHR ''>'' # r", OF _ _ _ refl] assms(1) by (simp add: spaces_def WHITESPACE_def)
  then show ?thesis
    using token_fixed [of p "''>''" r] assms by (simp add: node_turn_def tok_then_def Let_def moved_def)
qed

lemma turn_empty:
  assumes "here p = ''/>'' @ r" "\<not> inAttrib p"
  shows "NodeType v = ELEMENT_NODE \<Longrightarrow> \<exists>q. node_turn v p = Some (Return (v\<lparr>IsEnd := False\<rparr>) q) \<and> moved p [] q \<and>
      \<not> inAttrib q \<and> lastElem q = lastElem p"
    "\<exists>q. node_turn no_node p = Some (Return (element_event (lastElem p) True) q) \<and> moved p ''/>'' q \<and>
      \<not> inAttrib q \<and> \<not> atLeastOneAttrFound q"
proof -
  have "getNextToken (IgnoreWhiteSpaces p) = getNextToken p"
    using token_moved(1) [of p "[]" "''/>'' @ r", OF _ _ _ refl] assms(1) by (simp add: spaces_def WHITESPACE_def)
  then have t: "getNextToken (IgnoreWhiteSpaces p) = Some (Some (p\<lparr>TagVal := True, tokBuf := ''/>'', CurrPtr := CurrPtr p + 2\<rparr>))"
    using token_fixed [of p "''/>''" r] assms by simp
  show "NodeType v = ELEMENT_NODE \<Longrightarrow> \<exists>q. node_turn v p = Some (Return (v\<lparr>IsEnd := False\<rparr>) q) \<and> moved p [] q \<and>
      \<not> inAttrib q \<and> lastElem q = lastElem p"
    "\<exists>q. node_turn no_node p = Some (Return (element_event (lastElem p) True) q) \<and> moved p ''/>'' q \<and>
      \<not> inAttrib q \<and> \<not> atLeastOneAttrFound q"
    using t assms(2) by (simp_all add: node_turn_def tok_then_def Let_def moved_def rewindCurrentPtr_def element_event_def no_node_def)
qed

text \<open>The first attribute: the element is returned, and the attribute is read again.\<close>

lemma turn_attributes:
  assumes h: "here p = w @ x # text_of cs @ y # r" and w: "spaces (w @ [x])" and n: "name_codes cs" "breaks y"
    and p: "\<not> inAttrib p" "\<not> TagVal p" "attrFound p" "NodeType v = ELEMENT_NODE"
    and m: "text_of cs \<notin> {''<'', ''>'', ''</'', ''/>''}"
  shows "\<exists>q. node_turn v p = Some (Return v q) \<and> moved p w q \<and>
    \<not> inAttrib q \<and> \<not> TagVal q \<and> attrFound q \<and> lastElem q = lastElem p"
proof -
  obtain c ds where c: "text_of cs = enc c @ text_of ds" "isnamech c False" "text_of cs \<noteq> []"
    using name_codes_first [OF n(1)] .
  let ?p1 = "p\<lparr>CurrPtr := CurrPtr p + length (w @ [x])\<rparr>"
  have h': "here p = (w @ [x]) @ text_of cs @ y # r" using h by simp
  have b: "\<not> at (text_of cs @ y # r) WHITESPACE" using names_start(1) [OF c(2)] c(1) by simp
  note t = token_moved [OF h' w b refl]
  have "getNextToken (IgnoreWhiteSpaces p) = Some (Some (?p1\<lparr>tokBuf := text_of cs, CurrPtr := CurrPtr ?p1 + length (text_of cs)\<rparr>))"
    using t(1) token_name [of ?p1 cs y r] t(2) n p breaks_name [of y] by simp
  then show ?thesis
    using c(3) p m by (simp add: node_turn_def tok_then_def Let_def moved_def rewindCurrentPtr_def)
qed

lemma name_not_markup: "name_codes cs \<Longrightarrow> text_of cs \<notin> {''<'', ''>'', ''</'', ''/>''}"
proof -
  assume n: "name_codes cs"
  obtain c ds where c: "text_of cs = enc c @ text_of ds" "isnamech c False" using name_codes_first [OF n] .
  show ?thesis using names_start(4-6) [OF c(2), of "text_of ds"] c(1) by auto
qed

lemma tok_then_Some: "tok_then (Some (Some p)) f = f p"
  by (simp add: tok_then_def)

text \<open>An attribute: its name, the equals sign, the quotes and the value.\<close>

lemma turn_attribute:
  assumes h: "here p = w @ text_of cs @ CHR ''='' # DQ # copy_with_escape (text_of vs) @ DQ # r" and w: "spaces w"
    and n: "name_codes cs" and v: "plain_text vs" "vs \<noteq> []" "34 \<notin> set vs"
    and p: "\<not> inAttrib p" "\<not> TagVal p" "attrFound p"
  shows "\<exists>q. node_turn no_node p = Some (Return \<lparr>NodeType = ATTRIBUTE_NODE, NodeName = Some (text_of cs),
        NodeValue = Some (text_of vs), IsEnd = False\<rparr> q) \<and>
      moved p (w @ text_of cs @ CHR ''='' # DQ # copy_with_escape (text_of vs) @ [DQ]) q \<and>
      \<not> inAttrib q \<and> \<not> TagVal q \<and> attrFound q \<and> atLeastOneAttrFound q \<and> lastElem q = lastElem p"
proof -
  obtain c ds where c: "text_of cs = enc c @ text_of ds" "isnamech c False" "text_of cs \<noteq> []"
    using name_codes_first [OF n] .
  let ?e = "copy_with_escape (text_of vs)"
  let ?p1 = "p\<lparr>CurrPtr := CurrPtr p + length w\<rparr>"
  have s: "\<not> at (text_of cs @ CHR ''='' # DQ # ?e @ DQ # r) WHITESPACE" using names_start(1) [OF c(2)] c(1) by simp
  note m1 = token_moved [OF h w s refl]
  let ?p2 = "?p1\<lparr>tokBuf := text_of cs, CurrPtr := CurrPtr ?p1 + length (text_of cs)\<rparr>"
  have t1: "getNextToken (IgnoreWhiteSpaces p) = Some (Some ?p2)"
    using m1(1,2) token_name [of ?p1 cs "CHR ''=''" "DQ # ?e @ DQ # r"] n p breaks_name [of "CHR ''=''"] by (simp add: breaks_def)
  have h2: "here ?p2 = [] @ CHR ''='' # DQ # ?e @ DQ # r" using moved_here [OF _ m1(2), of ?p2] by (simp add: moved_def)
  let ?p3 = "?p2\<lparr>tokBuf := ''='', CurrPtr := CurrPtr ?p2 + 1\<rparr>"
  have "\<not> at (CHR ''='' # DQ # ?e @ DQ # r) WHITESPACE" "\<not> at (DQ # ?e @ DQ # r) WHITESPACE" by (simp_all add: WHITESPACE_def DQ_def)
  note sp = this
  have t2: "getNextToken (IgnoreWhiteSpaces ?p2) = Some (Some ?p3)"
    using token_moved(1) [OF h2 _ sp(1) refl] token_fixed [of ?p2 "''=''" "DQ # ?e @ DQ # r"] h2 p by (simp add: spaces_def DQ_def)
  have h3: "here ?p3 = [] @ DQ # ?e @ DQ # r" using moved_here [of ?p2 "''=''" ?p3] h2 by (simp add: moved_def)
  let ?p4 = "?p3\<lparr>tokBuf := [DQ], CurrPtr := CurrPtr ?p3 + 1\<rparr>"
  have t3: "getNextToken (IgnoreWhiteSpaces ?p3) = Some (Some ?p4)"
    using token_moved(1) [OF h3 _ sp(2) refl] token_fixed [of ?p3 "[DQ]" "?e @ DQ # r"] h3 p by (simp add: spaces_def DQ_def)
  have h4: "here ?p4 = ?e @ DQ # r" using moved_here [of ?p3 "[DQ]" ?p4] h3 by (simp add: moved_def)
  let ?p5 = "?p4\<lparr>inAttrib := True, tokBuf := text_of vs, CurrPtr := CurrPtr ?p4 + length ?e\<rparr>"
  have t4: "getNextToken (?p4\<lparr>inAttrib := True\<rparr>) = Some (Some ?p5)"
    using token_value [of "?p4\<lparr>inAttrib := True\<rparr>" vs r] h4 v by simp
  have h5: "here (?p5\<lparr>inAttrib := False\<rparr>) = DQ # r"
    using moved_here [of ?p4 ?e "?p5\<lparr>inAttrib := False\<rparr>"] h4 by (simp add: moved_def)
  let ?p6 = "?p5\<lparr>inAttrib := False, tokBuf := [DQ], CurrPtr := CurrPtr ?p5 + 1\<rparr>"
  have t5: "getNextToken (?p5\<lparr>inAttrib := False\<rparr>) = Some (Some ?p6)"
    using token_fixed [of "?p5\<lparr>inAttrib := False\<rparr>" "[DQ]" r] h5 p by (simp add: DQ_def del: here_updates)
  have "text_of vs \<noteq> []" using v(1,2) length_enc isxmlch_pos by (cases vs) (fastforce simp: plain_text_def)+
  then have a: "attribute_turn ?p2 = Some (Return \<lparr>NodeType = ATTRIBUTE_NODE, NodeName = Some (text_of cs),
      NodeValue = Some (text_of vs), IsEnd = False\<rparr> (?p6\<lparr>atLeastOneAttrFound := True\<rparr>))"
    by (simp only: attribute_turn_def Let_def t2 t3 t4 t5 tok_then_Some) simp
  have "node_turn no_node p = attribute_turn ?p2"
    unfolding node_turn_def tok_then_def t1 using c(3) p name_not_markup [OF n] by (simp add: Let_def no_node_def)
  with a p show ?thesis by (intro exI [of _ "?p6\<lparr>atLeastOneAttrFound := True\<rparr>"]) (simp add: moved_def)
qed

text \<open>Text that is not blank, and that is not taken for markup when it is read.\<close>

definition content_codes :: "int list \<Rightarrow> bool" where
  "content_codes cs = (plain_text cs \<and> \<not> spaces (text_of cs) \<and> text_of cs \<notin> set [''<'', ''>'', ''</'', ''/>''])"

lemma escape_spaces: "spaces (copy_with_escape s) \<Longrightarrow> spaces s"
  by (induction s) (auto simp: spaces_def copy_with_escape_def escape_def WHITESPACE_def split: if_split_asm)

lemma split_spaces:
  obtains w e where "s = w @ e" "spaces w" "\<not> at e WHITESPACE"
proof -
  have "spaces (takeWhile (\<lambda>c. c \<in> set WHITESPACE) s)" by (auto simp: spaces_def dest: set_takeWhileD)
  moreover have "\<not> at (dropWhile (\<lambda>c. c \<in> set WHITESPACE) s) WHITESPACE"
    by (induction s) auto
  ultimately show ?thesis using that [of "takeWhile (\<lambda>c. c \<in> set WHITESPACE) s" "dropWhile (\<lambda>c. c \<in> set WHITESPACE) s"] by simp
qed

lemma turn_text:
  assumes h: "here p = copy_with_escape (text_of cs) @ CHR ''<'' # r" and c: "content_codes cs"
    and b: "\<not> begins (CHR ''<'' # r) ''<!--''"
    and p: "\<not> inAttrib p" "TagVal p" "SavePtr p = Some s" "CurrPtr p = Suc s" "\<not> attrFound p"
  shows "\<exists>q. node_turn v p = Some (Return \<lparr>NodeType = TEXT_NODE, NodeName = Some ''#text'', NodeValue = Some (text_of cs),
        IsEnd = False\<rparr> q) \<and> moved p (copy_with_escape (text_of cs)) q \<and> \<not> inAttrib q \<and>
      atLeastOneAttrFound q = atLeastOneAttrFound p"
proof -
  have d: "plain_text cs" "\<not> spaces (text_of cs)" "text_of cs \<notin> set [''<'', ''>'', ''</'', ''/>'']"
    using c by (simp_all add: content_codes_def)
  obtain w e where e: "copy_with_escape (text_of cs) = w @ e" "spaces w" "\<not> at e WHITESPACE" using split_spaces .
  have ne: "e \<noteq> []" using escape_spaces [of "text_of cs"] d(2) e(1,2) by auto
  let ?p1 = "p\<lparr>CurrPtr := CurrPtr p + length w\<rparr>"
  have h': "here p = w @ e @ CHR ''<'' # r" using h e(1) by simp
  have s: "\<not> at (e @ CHR ''<'' # r) WHITESPACE" using e(3) ne by (cases e) auto
  note m = token_moved [OF h' e(2) s refl]
  have "drop (Suc s) (ParseBuff ?p1) = w @ e @ CHR ''<'' # r" using h' p(4) by (simp add: here_def)
  then have "getNextToken (IgnoreWhiteSpaces p) =
      Some (Some (?p1\<lparr>TagVal := False, tokBuf := text_of cs, CurrPtr := Suc s + length (copy_with_escape (text_of cs))\<rparr>))"
    using m(1) token_text [OF m(2) e(1) ne e(3) d(1) b, of s] p by simp
  moreover have "text_of cs \<noteq> []" using d(2) by (auto simp: spaces_def)
  ultimately show ?thesis using p d(3) by (simp add: node_turn_def tok_then_def Let_def moved_def)
qed

end
