(* ===== verification/Xml_Roundtrip.thy ===== *)
theory Xml_Roundtrip imports Xml_Laws begin

text \<open>
  Reading what was printed: the parser of \<^verbatim>\<open>Parser.cpp\<close> and \<^verbatim>\<open>Document.cpp\<close> on the output of the printer
  of \<^verbatim>\<open>domCif.cpp\<close>, first the calls of the parser, then elements by induction, then documents.
\<close>

section \<open>Calls of the parser\<close>

text \<open>
  \<open>lead v p q\<close>: the parser at \<open>p\<close> first passes the end of a start tag with attributes, and is then at \<open>q\<close>.
  \<open>yields\<close>: the node the next call returns; three rounds are enough for it.
\<close>

definition lead :: "node_event \<Rightarrow> Parser \<Rightarrow> Parser \<Rightarrow> bool" where
  "lead v p q = (p = q \<or> (\<forall>N. getNextNode (Suc N) v p = getNextNode N v q))"

definition yields :: "node_event \<Rightarrow> Parser \<Rightarrow> node_event \<Rightarrow> Parser \<Rightarrow> bool" where
  "yields v p e q = (\<forall>N\<ge>3. getNextNode N v p = Some (Node e q))"

lemma lead_refl: "lead v p p" by (simp add: lead_def)

lemma lead_close:
  "here p \<noteq> [] \<Longrightarrow> node_turn v p = Some (Again v q) \<Longrightarrow> lead v p q"
  by (simp add: lead_def)

lemma lead_fuel:
  assumes "lead v p q" "\<forall>N\<ge>2. getNextNode N v q = Some (Node e r)"
  shows "yields v p e r"
  unfolding yields_def
proof (intro allI impI)
  fix N :: nat
  assume N: "3 \<le> N"
  then have M: "N = Suc (N - 1)" "2 \<le> N - 1" by simp_all
  from assms(1) consider "p = q" | "getNextNode (Suc (N - 1)) v p = getNextNode (N - 1) v q" unfolding lead_def by blast
  then show "getNextNode N v p = Some (Node e r)"
  proof cases
    case 1
    then show ?thesis using assms(2) N by simp
  next
    case 2
    then show ?thesis using assms(2) M by metis
  qed
qed

lemma yields_return:
  "lead v p q \<Longrightarrow> here q \<noteq> [] \<Longrightarrow> node_turn v q = Some (Return e r) \<Longrightarrow> yields v p e r"
proof (rule lead_fuel, assumption, intro allI impI)
  fix N :: nat
  assume "here q \<noteq> []" "node_turn v q = Some (Return e r)" "2 \<le> N"
  then show "getNextNode N v q = Some (Node e r)" by (cases N) auto
qed

lemma yields_again:
  "lead v p q \<Longrightarrow> here q \<noteq> [] \<Longrightarrow> node_turn v q = Some (Again u q') \<Longrightarrow> here q' \<noteq> [] \<Longrightarrow>
    node_turn u q' = Some (Return e r) \<Longrightarrow> yields v p e r"
proof (rule lead_fuel, assumption, intro allI impI)
  fix N :: nat
  assume a: "here q \<noteq> []" "node_turn v q = Some (Again u q')" "here q' \<noteq> []" "node_turn u q' = Some (Return e r)" "2 \<le> N"
  show "getNextNode N v q = Some (Node e r)"
  proof (cases N)
    case (Suc M)
    then show ?thesis using a by (cases M) simp_all
  qed (use a(5) in simp)
qed

text \<open>\<open>reads v k\<close>: \<open>k\<close> rounds of the loop that builds the tree.\<close>

definition reads :: "node_event \<Rightarrow> nat \<Rightarrow> frame list \<Rightarrow> Parser \<Rightarrow> frame list \<Rightarrow> Parser \<Rightarrow> bool" where
  "reads v k fs p gs q = (\<forall>N\<ge>3. \<forall>m. read_loop N (k + m) v fs p = read_loop N m no_node gs q)"

lemma reads_refl: "reads no_node 0 fs p fs p" by (simp add: reads_def)

lemma reads_step:
  "yields v p e q \<Longrightarrow> add_node e fs = Some (Some gs) \<Longrightarrow> NodeType e \<noteq> INVALID_NODE \<Longrightarrow> reads v 1 fs p gs q"
  by (simp add: reads_def yields_def)

lemma reads_trans: "reads v k fs p gs q \<Longrightarrow> reads no_node l gs q hs r \<Longrightarrow> reads v (k + l) fs p hs r"
  by (simp add: reads_def add.assoc)

section \<open>Documents that are read back\<close>

definition is_name :: "string \<Rightarrow> bool" where "is_name n = (\<exists>cs. n = text_of cs \<and> name_codes cs)"
definition is_value :: "string \<Rightarrow> bool" where
  "is_value v = (\<exists>vs. v = text_of vs \<and> plain_text vs \<and> vs \<noteq> [] \<and> 34 \<notin> set vs)"
definition is_content :: "string \<Rightarrow> bool" where "is_content t = (\<exists>cs. t = text_of cs \<and> content_codes cs)"

fun printable :: "dom \<Rightarrow> bool" where
  "printable (TextNode t) = is_content t"
| "printable OtherNode = False"
| "printable (Element n as cs) =
     (is_name n \<and> (\<forall>a\<in>set as. is_name (fst a) \<and> is_value (snd a)) \<and> (\<forall>d\<in>set cs. printable d) \<and>
      (\<forall>d\<in>set (tl cs). \<not> is_text d))"

fun events :: "dom \<Rightarrow> nat" where
  "events (Element n as cs) = 2 + length as + (\<Sum>d\<leftarrow>cs. events d)"
| "events _ = 1"

text \<open>The start of an element: what comes behind its name decides.\<close>

lemma breaks_SP: "breaks SP" "breaks (CHR ''/'')" "breaks (CHR ''>'')" "breaks (CHR ''='')" by (simp_all add: breaks_def)

text \<open>The tag of an element without attributes and children.\<close>

lemma start_empty:
  assumes "lead v p q" "here q = w @ CHR ''<'' # n @ ''/>'' @ r" "spaces w" "is_name n" "\<not> inAttrib q"
  shows "\<exists>q'. yields v p (element_event n False) q' \<and> here q' = ''/>'' @ r \<and> \<not> inAttrib q' \<and> lastElem q' = n"
proof -
  obtain cs where n: "n = text_of cs" "name_codes cs" using assms(4) by (auto simp: is_name_def)
  obtain q1 where q1: "node_turn v q = Some (Again (element_event n False) q1)" "moved q (w @ ''<'' @ n) q1"
      "\<not> inAttrib q1" "lastElem q1 = n"
    using turn_start [of q w cs "CHR ''/''" "''>'' @ r" v] assms n breaks_SP by auto
  have h1: "here q1 = ''/>'' @ r" using moved_here [OF q1(2)] assms(2) by simp
  then obtain q2 where "node_turn (element_event n False) q1 = Some (Return (element_event n False) q2)" "moved q1 [] q2"
      "\<not> inAttrib q2" "lastElem q2 = lastElem q1"
    using turn_empty(1) [of q1 r "element_event n False"] q1(3) by (auto simp: element_event_def)
  then show ?thesis
    using yields_again [OF assms(1) _ q1(1)] assms(2) h1 q1(4) moved_here [of q1 "[]" q2] by (intro exI [of _ q2]) auto
qed

text \<open>The tag of an element without attributes and with children.\<close>

definition behind_tag :: "Parser \<Rightarrow> bool" where
  "behind_tag p = (\<not> inAttrib p \<and> TagVal p \<and> \<not> attrFound p \<and> \<not> atLeastOneAttrFound p \<and>
     (\<exists>s. SavePtr p = Some s \<and> CurrPtr p = Suc s))"

lemma start_content:
  assumes "lead v p q" "here q = w @ CHR ''<'' # n @ CHR ''>'' # r" "spaces w" "is_name n" "\<not> inAttrib q"
  shows "\<exists>q'. yields v p (element_event n False) q' \<and> here q' = r \<and> behind_tag q'"
proof -
  obtain cs where n: "n = text_of cs" "name_codes cs" using assms(4) by (auto simp: is_name_def)
  obtain q1 where q1: "node_turn v q = Some (Again (element_event n False) q1)" "moved q (w @ ''<'' @ n) q1"
      "\<not> inAttrib q1" "\<not> atLeastOneAttrFound q1"
    using turn_start [of q w cs "CHR ''>''" r v] assms n breaks_SP by auto
  have h1: "here q1 = CHR ''>'' # r" using moved_here [OF q1(2)] assms(2) by simp
  obtain q2 where q2: "node_turn (element_event n False) q1 = Some (Return (element_event n False) q2)" "moved q1 ''>'' q2"
      "\<not> inAttrib q2" "TagVal q2" "SavePtr q2 = Some (CurrPtr q1)" "\<not> attrFound q2" "\<not> atLeastOneAttrFound q2"
    using turn_close [OF h1 q1(3), of "element_event n False"] q1(4) by auto
  have "yields v p (element_event n False) q2" using yields_again [OF assms(1) _ q1(1) _ q2(1)] assms(2) h1 by auto
  moreover have "here q2 = r" using moved_here [OF q2(2)] h1 by simp
  moreover have "behind_tag q2" using q2 by (simp add: behind_tag_def moved_def)
  ultimately show ?thesis by blast
qed

text \<open>The tag of an element with attributes, up to the first of them.\<close>

definition in_tag :: "Parser \<Rightarrow> bool" where "in_tag p = (\<not> inAttrib p \<and> \<not> TagVal p \<and> attrFound p)"

lemma start_attributes:
  assumes "lead v p q" "here q = w @ CHR ''<'' # n @ u @ SP # m @ CHR ''='' # r" "spaces w" "u = [] \<or> u = [SP]" "is_name n"
    "is_name m" "\<not> inAttrib q"
  shows "\<exists>q'. yields v p (element_event n False) q' \<and> here q' = SP # m @ CHR ''='' # r \<and> in_tag q' \<and> lastElem q' = n"
proof -
  obtain cs where n: "n = text_of cs" "name_codes cs" using assms(5) by (auto simp: is_name_def)
  obtain ms where m: "m = text_of ms" "name_codes ms" using assms(6) by (auto simp: is_name_def)
  obtain q1 where q1: "node_turn v q = Some (Again (element_event n False) q1)" "moved q (w @ ''<'' @ n) q1"
      "\<not> inAttrib q1" "\<not> TagVal q1" "attrFound q1" "lastElem q1 = n"
    using turn_start [of q w cs SP "tl (u @ SP # m @ CHR ''='' # r)" v] assms n breaks_SP by auto
  have h1: "here q1 = u @ SP # text_of ms @ CHR ''='' # r" using moved_here [OF q1(2)] assms(2) m(1) by simp
  obtain q2 where q2: "node_turn (element_event n False) q1 = Some (Return (element_event n False) q2)" "moved q1 u q2"
      "\<not> inAttrib q2" "\<not> TagVal q2" "attrFound q2" "lastElem q2 = lastElem q1"
    using turn_attributes [OF h1 _ m(2) breaks_SP(4) q1(3-5), of "element_event n False"] name_not_markup [OF m(2)] assms(4)
    by (auto simp: element_event_def spaces_def WHITESPACE_def)
  have "yields v p (element_event n False) q2" using yields_again [OF assms(1) _ q1(1) _ q2(1)] assms(2) h1 by auto
  moreover have "here q2 = SP # m @ CHR ''='' # r" using moved_here [OF q2(2)] h1 m(1) by simp
  moreover have "in_tag q2" using q2 by (simp add: in_tag_def)
  ultimately show ?thesis using q2(6) q1(6) by auto
qed

text \<open>All attributes of an element.\<close>

definition attribute_body :: "string \<times> string \<Rightarrow> string" where
  "attribute_body a = fst a @ CHR ''='' # DQ # copy_with_escape (snd a) @ [DQ]"

lemma print_attribute_body: "print_attribute a = [SP, SP] @ attribute_body a"
  by (simp add: print_attribute_def attribute_body_def)

lemma attribute_read:
  assumes "is_name (fst a)" "is_value (snd a)" "here p = w @ attribute_body a @ r" "spaces w" "in_tag p"
  shows "\<exists>q. reads no_node 1 ((n, bs, cs) # fs) p ((n, bs @ [a], cs) # fs) q \<and> here q = r \<and> in_tag q \<and>
    atLeastOneAttrFound q \<and> lastElem q = lastElem p"
proof -
  obtain ms where m: "fst a = text_of ms" "name_codes ms" using assms(1) by (auto simp: is_name_def)
  obtain vs where v: "snd a = text_of vs" "plain_text vs" "vs \<noteq> []" "34 \<notin> set vs" using assms(2) by (auto simp: is_value_def)
  have h: "here p = w @ text_of ms @ CHR ''='' # DQ # copy_with_escape (text_of vs) @ DQ # r"
    using assms(3) m(1) v(1) by (simp add: attribute_body_def)
  have p: "\<not> inAttrib p" "\<not> TagVal p" "attrFound p" using assms(5) by (simp_all add: in_tag_def)
  let ?e = "\<lparr>NodeType = ATTRIBUTE_NODE, NodeName = Some (text_of ms), NodeValue = Some (text_of vs), IsEnd = False\<rparr>"
  obtain q where q: "node_turn no_node p = Some (Return ?e q)" "here q = r" "in_tag q" "atLeastOneAttrFound q" "lastElem q = lastElem p"
    using turn_attribute [OF h assms(4) m(2) v(2-4) p] h moved_here by (fastforce simp: in_tag_def)
  have "yields no_node p ?e q" by (rule yields_return [OF lead_refl _ q(1)]) (use h in auto)
  then have "reads no_node 1 ((n, bs, cs) # fs) p ((n, bs @ [a], cs) # fs) q"
    by (rule reads_step) (use m(1) v(1) in \<open>simp_all add: add_node_def prod_eq_iff\<close>)
  with q show ?thesis by blast
qed

lemma attributes_read:
  "\<forall>a\<in>set (a # as). is_name (fst a) \<and> is_value (snd a) \<Longrightarrow> here p = w @ attribute_body a @ concat (map print_attribute as) @ r \<Longrightarrow>
    spaces w \<Longrightarrow> in_tag p \<Longrightarrow>
    \<exists>q. reads no_node (length (a # as)) ((n, bs, cs) # fs) p ((n, bs @ a # as, cs) # fs) q \<and> here q = r \<and> in_tag q \<and>
      atLeastOneAttrFound q \<and> lastElem q = lastElem p"
proof (induction as arbitrary: a p w bs)
  case Nil
  then show ?case using attribute_read [of a p w r n bs cs fs] by simp
next
  case (Cons b as)
  obtain q where q: "reads no_node 1 ((n, bs, cs) # fs) p ((n, bs @ [a], cs) # fs) q" "in_tag q" "lastElem q = lastElem p"
      "here q = concat (map print_attribute (b # as)) @ r"
    using attribute_read [of a p w "concat (map print_attribute (b # as)) @ r" n bs cs fs] Cons.prems by auto
  have "here q = [SP, SP] @ attribute_body b @ concat (map print_attribute as) @ r" "spaces [SP, SP]"
    using q(4) by (simp_all add: print_attribute_body spaces_def WHITESPACE_def)
  then obtain q' where q': "reads no_node (length (b # as)) ((n, bs @ [a], cs) # fs) q ((n, (bs @ [a]) @ b # as, cs) # fs) q'"
      "here q' = r" "in_tag q'" "atLeastOneAttrFound q'" "lastElem q' = lastElem q"
    using Cons.IH [of b q "[SP, SP]" "bs @ [a]"] Cons.prems(1) q(2) by auto
  show ?case using reads_trans [OF q(1) q'(1)] q'(2-5) q(3) by auto
qed

text \<open>The ends of elements, and text.\<close>

lemma end_empty:
  assumes "here p = ''/>'' @ r" "\<not> inAttrib p" "lastElem p = n"
  shows "\<exists>q. reads no_node 1 ((n, as, []) # (m, bs, ds) # fs) p ((m, bs, ds @ [Element n as []]) # fs) q \<and> here q = r \<and>
    \<not> inAttrib q \<and> \<not> atLeastOneAttrFound q"
proof -
  obtain q where q: "node_turn no_node p = Some (Return (element_event n True) q)" "moved p ''/>'' q" "\<not> inAttrib q"
      "\<not> atLeastOneAttrFound q"
    using turn_empty(2) [OF assms(1,2)] assms(3) by auto
  have "yields no_node p (element_event n True) q" by (rule yields_return [OF lead_refl _ q(1)]) (use assms(1) in simp)
  then have "reads no_node 1 ((n, as, []) # (m, bs, ds) # fs) p ((m, bs, ds @ [Element n as []]) # fs) q"
    by (rule reads_step) (simp_all add: add_node_def element_event_def)
  with q moved_here [OF q(2) assms(1)] show ?thesis by blast
qed

lemma end_content:
  assumes "here p = w @ ''</'' @ n @ CHR ''>'' # r" "spaces w" "is_name n" "\<not> inAttrib p" "\<not> atLeastOneAttrFound p"
  shows "\<exists>q. reads no_node 1 ((n, as, cs) # (m, bs, ds) # fs) p ((m, bs, ds @ [Element n as cs]) # fs) q \<and> here q = r \<and>
    \<not> inAttrib q \<and> \<not> atLeastOneAttrFound q"
proof -
  obtain ns where n: "n = text_of ns" "name_codes ns" using assms(3) by (auto simp: is_name_def)
  obtain q1 where q1: "node_turn no_node p = Some (Again (element_event n True) q1)" "moved p (w @ ''</'' @ n) q1"
      "\<not> inAttrib q1" "\<not> atLeastOneAttrFound q1"
    using turn_end [of p w ns "CHR ''>''" r no_node] assms n breaks_SP by auto
  have h1: "here q1 = CHR ''>'' # r" using moved_here [OF q1(2)] assms(1) by simp
  obtain q2 where q2: "node_turn (element_event n True) q1 = Some (Return (element_event n True) q2)" "moved q1 ''>'' q2"
      "\<not> inAttrib q2" "\<not> atLeastOneAttrFound q2"
    using turn_close [OF h1 q1(3), of "element_event n True"] q1(4) by auto
  have "yields no_node p (element_event n True) q2"
    by (rule yields_again [OF lead_refl _ q1(1) _ q2(1)]) (use assms(1) h1 in auto)
  then have "reads no_node 1 ((n, as, cs) # (m, bs, ds) # fs) p ((m, bs, ds @ [Element n as cs]) # fs) q2"
    by (rule reads_step) (simp_all add: add_node_def element_event_def)
  with q2 moved_here [OF q2(2), of r] h1 show ?thesis by auto
qed

lemma text_read:
  assumes "lead no_node p q" "here q = copy_with_escape t @ CHR ''<'' # r" "is_content t" "\<not> begins (CHR ''<'' # r) ''<!--''"
    "behind_tag q"
  shows "\<exists>q'. reads no_node 1 ((n, as, cs) # fs) p ((n, as, cs @ [TextNode t]) # fs) q' \<and> here q' = CHR ''<'' # r \<and>
    \<not> inAttrib q' \<and> \<not> atLeastOneAttrFound q'"
proof -
  obtain ts where t: "t = text_of ts" "content_codes ts" using assms(3) by (auto simp: is_content_def)
  obtain s where s: "SavePtr q = Some s" "CurrPtr q = Suc s" using assms(5) by (auto simp: behind_tag_def)
  let ?e = "\<lparr>NodeType = TEXT_NODE, NodeName = Some ''#text'', NodeValue = Some t, IsEnd = False\<rparr>"
  obtain q' where q': "node_turn no_node q = Some (Return ?e q')" "moved q (copy_with_escape t) q'" "\<not> inAttrib q'"
      "\<not> atLeastOneAttrFound q'"
    using turn_text [of q ts r s no_node] assms(2,4,5) t s by (auto simp: behind_tag_def)
  have "yields no_node p ?e q'" by (rule yields_return [OF assms(1) _ q'(1)]) (use assms(2) in auto)
  then have "reads no_node 1 ((n, as, cs) # fs) p ((n, as, cs @ [TextNode t]) # fs) q'"
    by (rule reads_step) (simp_all add: add_node_def)
  with q' moved_here [OF q'(2) assms(2)] show ?thesis by blast
qed

text \<open>Elements begin with a tag, which no comment does.\<close>

lemma dump_element:
  assumes "printable d" "\<not> is_text d"
  shows "\<exists>r. dump_doc d = CHR ''<'' # r \<and> (\<forall>s. \<not> begins (CHR ''<'' # r @ s) ''<!--'')"
proof (cases d)
  case (Element n as cs)
  then obtain ns where n: "n = text_of ns" "name_codes ns" using assms(1) by (auto simp: is_name_def)
  obtain c ds where c: "text_of ns = enc c @ text_of ds" "isnamech c False" "text_of ns \<noteq> []" using name_codes_first [OF n(2)] .
  have a: "0 \<le> c" "c < 2 ^ 31" "45 \<le> c" using name_ranges [OF c(2)] by auto
  then have b: "\<not> at (text_of ns) ''!#''" using at_enc [of c "''!#''" "text_of ds"] c(1) by (auto simp: ascii_def)
  then obtain x xs where x: "n = x # xs" "x \<noteq> CHR ''!''" "x \<noteq> CHR ''#''" using n(1) c(3) by (cases "text_of ns") auto
  then show ?thesis using Element by (auto simp: begins_def)
qed (use assms in \<open>simp_all add: is_text_def\<close>)

section \<open>Elements and documents\<close>

definition reads_back :: "dom \<Rightarrow> bool" where
  "reads_back d = (\<forall>v p q w r m bs ds fs. lead v p q \<longrightarrow> here q = w @ dump_doc d @ r \<longrightarrow> spaces w \<longrightarrow> \<not> inAttrib q \<longrightarrow>
     (\<exists>p'. reads v (events d) ((m, bs, ds) # fs) p ((m, bs, ds @ [d]) # fs) p' \<and> here p' = LF # r \<and>
       \<not> inAttrib p' \<and> \<not> atLeastOneAttrFound p'))"

lemma reads_backD:
  "reads_back d \<Longrightarrow> lead v p q \<Longrightarrow> here q = w @ dump_doc d @ r \<Longrightarrow> spaces w \<Longrightarrow> \<not> inAttrib q \<Longrightarrow>
    \<exists>p'. reads v (events d) ((m, bs, ds) # fs) p ((m, bs, ds @ [d]) # fs) p' \<and> here p' = LF # r \<and>
      \<not> inAttrib p' \<and> \<not> atLeastOneAttrFound p'"
  unfolding reads_back_def by blast

lemma spaces_LF: "spaces [LF]" "spaces []" by (simp_all add: spaces_def WHITESPACE_def)

lemma elements_read:
  "\<forall>e\<in>set (d # es). reads_back e \<Longrightarrow> lead v p q \<Longrightarrow> here q = w @ concat (map dump_doc (d # es)) @ r \<Longrightarrow> spaces w \<Longrightarrow>
    \<not> inAttrib q \<Longrightarrow>
    \<exists>p'. reads v (\<Sum>e\<leftarrow>d # es. events e) ((m, bs, ds) # fs) p ((m, bs, ds @ d # es) # fs) p' \<and> here p' = LF # r \<and>
      \<not> inAttrib p' \<and> \<not> atLeastOneAttrFound p'"
proof (induction es arbitrary: d v p q w ds)
  case Nil
  then show ?case using reads_backD [of d v p q w r m bs ds fs] by simp
next
  case (Cons e es)
  obtain p1 where p1: "reads v (events d) ((m, bs, ds) # fs) p ((m, bs, ds @ [d]) # fs) p1"
      "here p1 = LF # concat (map dump_doc (e # es)) @ r" "\<not> inAttrib p1"
    using reads_backD [of d v p q w "concat (map dump_doc (e # es)) @ r" m bs ds fs] Cons.prems by auto
  then have "here p1 = [LF] @ concat (map dump_doc (e # es)) @ r" by simp
  then obtain p2 where p2: "reads no_node (\<Sum>e\<leftarrow>e # es. events e) ((m, bs, ds @ [d]) # fs) p1 ((m, bs, (ds @ [d]) @ e # es) # fs) p2"
      "here p2 = LF # r" "\<not> inAttrib p2" "\<not> atLeastOneAttrFound p2"
    using Cons.IH [of e no_node p1 p1 "[LF]" "ds @ [d]"] Cons.prems(1) lead_refl spaces_LF p1(3) by auto
  show ?case using reads_trans [OF p1(1) p2(1)] p2(2-4) by (intro exI [of _ p2]) (simp add: add.assoc)
qed

lemma children_read:
  assumes "\<forall>d\<in>set (c # cs). printable d \<and> (is_text d \<or> reads_back d)" "\<forall>d\<in>set cs. \<not> is_text d"
    "lead no_node p q" "behind_tag q" "here q = (if is_text c then [] else [LF]) @ concat (map dump_doc (c # cs)) @ ''</'' @ r"
  shows "\<exists>p' w. reads no_node (\<Sum>d\<leftarrow>c # cs. events d) ((n, as, []) # fs) p ((n, as, c # cs) # fs) p' \<and>
    here p' = w @ ''</'' @ r \<and> spaces w \<and> \<not> inAttrib p' \<and> \<not> atLeastOneAttrFound p'"
proof (cases "is_text c")
  case False
  have "\<forall>d\<in>set (c # cs). reads_back d" "\<not> inAttrib q" using assms(1,2,4) False by (auto simp: behind_tag_def)
  then obtain p' where "reads no_node (\<Sum>d\<leftarrow>c # cs. events d) ((n, as, []) # fs) p ((n, as, [] @ c # cs) # fs) p'"
      "here p' = LF # ''</'' @ r" "\<not> inAttrib p'" "\<not> atLeastOneAttrFound p'"
    using elements_read [of c cs no_node p q "[LF]" "''</'' @ r" n as "[]" fs] assms(3,5) False spaces_LF by auto
  then show ?thesis using spaces_LF by (intro exI [of _ p'] exI [of _ "[LF]"]) simp
next
  case True
  then obtain t where c: "c = TextNode t" by (cases c) (auto simp: is_text_def)
  let ?t = "concat (map dump_doc cs) @ ''</'' @ r"
  obtain x where x: "?t = CHR ''<'' # x" "\<not> begins (CHR ''<'' # x) ''<!--''"
  proof (cases cs)
    case Nil
    then show ?thesis using that by (auto simp: begins_def)
  next
    case (Cons d ds)
    then obtain y where "dump_doc d = CHR ''<'' # y" "\<forall>s. \<not> begins (CHR ''<'' # y @ s) ''<!--''"
      using dump_element [of d] assms(1,2) by auto
    then show ?thesis using that [of "y @ concat (map dump_doc ds) @ ''</'' @ r"] Cons by simp
  qed
  obtain p1 where p1: "reads no_node 1 ((n, as, []) # fs) p ((n, as, [c]) # fs) p1" "here p1 = ?t" "\<not> inAttrib p1"
      "\<not> atLeastOneAttrFound p1"
    using text_read [OF assms(3) _ _ x(2) assms(4), of t, where n = n and as = as and cs = "[]" and fs = fs] assms(1,5) True c x(1) by auto
  show ?thesis
  proof (cases cs)
    case Nil
    then show ?thesis using p1 c spaces_LF by (intro exI [of _ p1] exI [of _ "[]"]) simp
  next
    case (Cons d ds)
    have h: "here p1 = [] @ concat (map dump_doc (d # ds)) @ ''</'' @ r" using p1(2) Cons by simp
    obtain p2 where p2: "reads no_node (\<Sum>d\<leftarrow>d # ds. events d) ((n, as, [c]) # fs) p1 ((n, as, [c] @ d # ds) # fs) p2"
      "here p2 = LF # ''</'' @ r" "\<not> inAttrib p2" "\<not> atLeastOneAttrFound p2"
      using elements_read [OF _ lead_refl h spaces_LF(2) p1(3), where v = no_node and m = n and bs = as and ds = "[c]" and fs = fs]
        assms(1,2) Cons by fastforce
    show ?thesis using reads_trans [OF p1(1) p2(1)] p2(2-4) Cons c spaces_LF by (intro exI [of _ p2] exI [of _ "[LF]"]) simp
  qed
qed

text \<open>The tag of an element with all its attributes.\<close>

lemma tag_attributes:
  assumes "lead v p q" "here q = w @ CHR ''<'' # n @ concat (map print_attribute as) @ r" "spaces w" "is_name n" "\<not> inAttrib q"
    "as \<noteq> []" "\<forall>a\<in>set as. is_name (fst a) \<and> is_value (snd a)"
  shows "\<exists>p'. reads v (Suc (length as)) (f # fs) p ((n, as, []) # f # fs) p' \<and> here p' = r \<and> in_tag p' \<and>
    atLeastOneAttrFound p' \<and> lastElem p' = n"
proof -
  obtain a bs where as: "as = a # bs" using assms(6) by (cases as) auto
  let ?t = "DQ # copy_with_escape (snd a) @ DQ # concat (map print_attribute bs) @ r"
  have h: "here q = w @ CHR ''<'' # n @ SP # SP # fst a @ CHR ''='' # ?t"
    using assms(2) as by (simp add: print_attribute_def)
  obtain p1 where p1: "yields v p (element_event n False) p1" "here p1 = SP # fst a @ CHR ''='' # ?t" "in_tag p1" "lastElem p1 = n"
    using start_attributes [of v p q w n "[SP]" "fst a" ?t] h assms(1,3-5,7) as by auto
  have r1: "reads v 1 (f # fs) p ((n, [], []) # f # fs) p1"
    by (rule reads_step [OF p1(1)]) (simp_all add: add_node_def element_event_def)
  have "here p1 = [SP] @ attribute_body a @ concat (map print_attribute bs) @ r" "spaces [SP]"
    using p1(2) by (simp_all add: attribute_body_def spaces_def WHITESPACE_def)
  then obtain p2 where p2: "reads no_node (length (a # bs)) ((n, [], []) # f # fs) p1 ((n, [] @ a # bs, []) # f # fs) p2"
      "here p2 = r" "in_tag p2" "atLeastOneAttrFound p2" "lastElem p2 = lastElem p1"
    using attributes_read [of a bs p1 "[SP]" r n "[]" "[]" "f # fs"] assms(7) as p1(3) by auto
  show ?thesis using reads_trans [OF r1 p2(1)] p2(2-5) p1(4) as by (intro exI [of _ p2]) simp
qed

lemma tag_empty:
  assumes "lead v p q" "here q = w @ CHR ''<'' # n @ concat (map print_attribute as) @ ''/>'' @ r" "spaces w" "is_name n" "\<not> inAttrib q"
    "\<forall>a\<in>set as. is_name (fst a) \<and> is_value (snd a)"
  shows "\<exists>p'. reads v (Suc (length as)) (f # fs) p ((n, as, []) # f # fs) p' \<and> here p' = ''/>'' @ r \<and> \<not> inAttrib p' \<and> lastElem p' = n"
proof (cases "as = []")
  case True
  have h: "here q = w @ CHR ''<'' # n @ ''/>'' @ r" using assms(2) True by simp
  obtain p1 where p1: "yields v p (element_event n False) p1" "here p1 = ''/>'' @ r" "\<not> inAttrib p1" "lastElem p1 = n"
    using start_empty [OF assms(1) h assms(3-5)] by auto
  have "reads v 1 (f # fs) p ((n, [], []) # f # fs) p1"
    by (rule reads_step [OF p1(1)]) (simp_all add: add_node_def element_event_def)
  with p1 True show ?thesis by auto
next
  case False
  then show ?thesis using tag_attributes [OF assms(1-5) False assms(6)] by (fastforce simp: in_tag_def)
qed

lemma attributes_closed:
  assumes "here p = CHR ''>'' # r" "in_tag p" "atLeastOneAttrFound p"
  shows "\<exists>q. lead no_node p q \<and> here q = r \<and> behind_tag q"
proof -
  obtain q where q: "node_turn no_node p = Some (Again no_node q)" "moved p ''>'' q" "\<not> inAttrib q" "TagVal q"
      "SavePtr q = Some (CurrPtr p)" "\<not> attrFound q" "\<not> atLeastOneAttrFound q"
    using turn_close [OF assms(1), of no_node] assms(2,3) by (auto simp: in_tag_def)
  have "lead no_node p q" using lead_close [OF _ q(1)] assms(1) by simp
  moreover have "here q = r" using moved_here [OF q(2)] assms(1) by simp
  moreover have "behind_tag q" using q by (simp add: behind_tag_def moved_def)
  ultimately show ?thesis by blast
qed

lemma tag_content:
  assumes "lead v p q" "here q = w @ CHR ''<'' # n @ concat (map print_attribute as) @ CHR ''>'' # r" "spaces w" "is_name n" "\<not> inAttrib q"
    "\<forall>a\<in>set as. is_name (fst a) \<and> is_value (snd a)"
  shows "\<exists>p' q'. reads v (Suc (length as)) (f # fs) p ((n, as, []) # f # fs) p' \<and> lead no_node p' q' \<and> here q' = r \<and> behind_tag q'"
proof (cases "as = []")
  case True
  have h: "here q = w @ CHR ''<'' # n @ CHR ''>'' # r" using assms(2) True by simp
  obtain p1 where p1: "yields v p (element_event n False) p1" "here p1 = r" "behind_tag p1"
    using start_content [OF assms(1) h assms(3-5)] by auto
  have "reads v 1 (f # fs) p ((n, [], []) # f # fs) p1"
    by (rule reads_step [OF p1(1)]) (simp_all add: add_node_def element_event_def)
  with p1 True lead_refl show ?thesis by auto
next
  case False
  obtain p1 where p1: "reads v (Suc (length as)) (f # fs) p ((n, as, []) # f # fs) p1" "here p1 = CHR ''>'' # r" "in_tag p1"
      "atLeastOneAttrFound p1"
    using tag_attributes [OF assms(1-5) False assms(6)] by blast
  then show ?thesis using attributes_closed [OF p1(2-4)] by blast
qed

lemma printable_name: "printable (Element n as cs) \<Longrightarrow> n \<noteq> ''#document''"
proof -
  assume "printable (Element n as cs)"
  then obtain ns where n: "n = text_of ns" "name_codes ns" by (auto simp: is_name_def)
  obtain c ds where c: "text_of ns = enc c @ text_of ds" "isnamech c False" using name_codes_first [OF n(2)] .
  have "0 \<le> c" "c < 2 ^ 31" "45 \<le> c" using name_ranges [OF c(2)] by auto
  then have "\<not> at (text_of ns) ''#''" using at_enc [of c "''#''" "text_of ds"] c(1) by (auto simp: ascii_def)
  then show ?thesis using n(1) by auto
qed

text \<open>An element of the tree, as it is printed, is read as that element.\<close>

lemma element_read_back: "printable d \<Longrightarrow> \<not> is_text d \<Longrightarrow> reads_back d"
proof (induction d)
  case (Element n as cs)
  note nd = printable_name [OF Element.prems(1)]
  have n: "is_name n" and a: "\<forall>a\<in>set as. is_name (fst a) \<and> is_value (snd a)"
    and cs: "\<forall>d\<in>set cs. printable d \<and> (is_text d \<or> reads_back d)" "\<forall>d\<in>set (tl cs). \<not> is_text d"
    using Element by auto
  show ?case
    unfolding reads_back_def
  proof (intro allI impI)
    fix v p q w r m bs ds fs
    assume h: "lead v p q" "here q = w @ dump_doc (Element n as cs) @ r" "spaces w" "\<not> inAttrib q"
    show "\<exists>p'. reads v (events (Element n as cs)) ((m, bs, ds) # fs) p ((m, bs, ds @ [Element n as cs]) # fs) p' \<and>
      here p' = LF # r \<and> \<not> inAttrib p' \<and> \<not> atLeastOneAttrFound p'"
    proof (cases cs)
      case Nil
      have h': "here q = w @ CHR ''<'' # n @ concat (map print_attribute as) @ ''/>'' @ LF # r" using h(2) nd Nil by simp
      obtain p1 where p1: "reads v (Suc (length as)) ((m, bs, ds) # fs) p ((n, as, []) # (m, bs, ds) # fs) p1"
          "here p1 = ''/>'' @ LF # r" "\<not> inAttrib p1" "lastElem p1 = n"
        using tag_empty [OF h(1) h' h(3) n h(4) a] by blast
      obtain p2 where p2: "reads no_node 1 ((n, as, []) # (m, bs, ds) # fs) p1 ((m, bs, ds @ [Element n as []]) # fs) p2"
          "here p2 = LF # r" "\<not> inAttrib p2" "\<not> atLeastOneAttrFound p2"
        using end_empty [OF p1(2-4)] by blast
      show ?thesis using reads_trans [OF p1(1) p2(1)] p2(2-4) Nil by (intro exI [of _ p2]) simp
    next
      case (Cons c es)
      let ?r = "n @ CHR ''>'' # LF # r"
      have h': "here q = w @ CHR ''<'' # n @ concat (map print_attribute as) @ CHR ''>'' #
          ((if is_text c then [] else [LF]) @ concat (map dump_doc (c # es)) @ ''</'' @ ?r)" using h(2) nd Cons by simp
      obtain p1 q1 where p1: "reads v (Suc (length as)) ((m, bs, ds) # fs) p ((n, as, []) # (m, bs, ds) # fs) p1"
          "lead no_node p1 q1" "here q1 = (if is_text c then [] else [LF]) @ concat (map dump_doc (c # es)) @ ''</'' @ ?r" "behind_tag q1"
        using tag_content [OF h(1) h' h(3) n h(4) a] by blast
      obtain p2 u where p2: "reads no_node (\<Sum>d\<leftarrow>c # es. events d) ((n, as, []) # (m, bs, ds) # fs) p1
          ((n, as, c # es) # (m, bs, ds) # fs) p2" "here p2 = u @ ''</'' @ ?r" "spaces u" "\<not> inAttrib p2" "\<not> atLeastOneAttrFound p2"
        using children_read [OF _ _ p1(2,4,3), where n = n and as = as and fs = "(m, bs, ds) # fs"] cs Cons by fastforce
      obtain p3 where p3: "reads no_node 1 ((n, as, c # es) # (m, bs, ds) # fs) p2 ((m, bs, ds @ [Element n as (c # es)]) # fs) p3"
          "here p3 = LF # r" "\<not> inAttrib p3" "\<not> atLeastOneAttrFound p3"
        using end_content [OF p2(2,3) n p2(4,5)] by blast
      show ?thesis using reads_trans [OF p1(1) reads_trans [OF p2(1) p3(1)]] p3(2-4) Cons by (intro exI [of _ p3]) (simp add: ac_simps)
    qed
  qed
qed (simp_all add: is_text_def)

text \<open>The end of the text.\<close>

lemma end_read:
  assumes "here p = w" "spaces w" "\<not> inAttrib p"
  shows "\<exists>q. yields no_node p no_node q"
proof (cases "w = []")
  case True
  have "getNextNode N no_node p = Some (Node no_node p)" if "3 \<le> N" for N
    using that True assms(1) by (cases N) auto
  then show ?thesis unfolding yields_def by blast
next
  case False
  let ?p1 = "p\<lparr>CurrPtr := CurrPtr p + length w\<rparr>"
  have h: "here p = w @ []" "\<not> at [] WHITESPACE" using assms(1) by simp_all
  note m = token_moved [OF h(1) assms(2) h(2) refl]
  have "getNextToken (IgnoreWhiteSpaces p) = Some (Some (?p1\<lparr>tokBuf := []\<rparr>))" using m(1,2) by (simp add: getNextToken_def Let_def)
  then have t: "node_turn no_node p = Some (Again no_node (?p1\<lparr>tokBuf := []\<rparr>))"
    by (simp add: node_turn_def tok_then_def no_node_def)
  have e: "here (?p1\<lparr>tokBuf := []\<rparr>) = []" using m(2) by simp
  have "getNextNode N no_node p = Some (Node no_node (?p1\<lparr>tokBuf := []\<rparr>))" if "3 \<le> N" for N
  proof -
    from that obtain M where M: "N = Suc M" "M \<noteq> 0" by (cases N) auto
    then show ?thesis using t e assms(1) False by (cases M) simp_all
  qed
  then show ?thesis unfolding yields_def by blast
qed

lemma document_read:
  assumes "reads (v0\<lparr>NodeName := None, NodeValue := None\<rparr>) k [document_frame] (new_parser s) [(''#document'', [], ds)] p"
    "here p = w" "spaces w" "\<not> inAttrib p" "k < n" "3 \<le> n" "s \<noteq> []"
  shows "UpnpParse_Buffer n v0 s = Some (Parsed (Element ''#document'' [] ds))"
proof -
  obtain q where q: "yields no_node p no_node q" using end_read [OF assms(2-4)] by blast
  obtain m where m: "n = k + Suc m" using assms(5) by (metis add_Suc_right less_imp_Suc_add)
  have "read_loop n n (v0\<lparr>NodeName := None, NodeValue := None\<rparr>) [document_frame] (new_parser s) =
      read_loop n (Suc m) no_node [(''#document'', [], ds)] p"
    using assms(1,6) m unfolding reads_def by metis
  also have "\<dots> = Some (Parsed (Element ''#document'' [] ds))"
    using q assms(6) by (simp add: yields_def add_node_def no_node_def)
  finally show ?thesis using assms(7) by (simp add: UpnpParse_Buffer_def ReadDocumentFileOrBuffer_def)
qed

text \<open>The loops need no more rounds than the text has characters.\<close>

lemma escape_length: "length s \<le> length (copy_with_escape s)"
  by (induction s) (auto simp: copy_with_escape_def escape_def)

lemma events_bound: "printable d \<Longrightarrow> (if is_text d then events d else events d + 1) \<le> length (dump_doc d)"
proof (induction d)
  case (Element n as cs)
  have a: "length bs \<le> length (concat (map print_attribute bs))" for bs
    by (induction bs) (auto simp: print_attribute_def)
  have c: "\<forall>d\<in>set ds. events d \<le> length (dump_doc d) \<Longrightarrow> (\<Sum>d\<leftarrow>ds. events d) \<le> length (concat (map dump_doc ds))" for ds
    by (induction ds) auto
  have "\<forall>d\<in>set cs. events d \<le> length (dump_doc d)"
  proof
    fix d
    assume "d \<in> set cs"
    with Element show "events d \<le> length (dump_doc d)" by (fastforce split: if_split_asm)
  qed
  from c [OF this] a [of as] show ?case
    using printable_name [OF Element.prems] by (auto simp: is_text_def split: list.split)
next
  case (TextNode t)
  then have "t \<noteq> []" by (auto simp: is_content_def content_codes_def spaces_def)
  then show ?case using escape_length [of t] by (cases t) (auto simp: is_text_def)
qed simp

text \<open>
  C6. A document of printable elements, printed by \<open>dump_doc\<close>, is parsed as the same document, whatever
  the variables of the caller hold before, and in no more rounds than the text is long.
\<close>

theorem printed_document_parsed:
  assumes "ds \<noteq> []" "\<forall>d\<in>set ds. printable d \<and> \<not> is_text d" "length (dump_doc (Element ''#document'' [] ds)) \<le> n"
  shows "UpnpParse_Buffer n v0 (dump_doc (Element ''#document'' [] ds)) = Some (Parsed (Element ''#document'' [] ds))"
proof -
  let ?s = "dump_doc (Element ''#document'' [] ds)" and ?v = "v0\<lparr>NodeName := None, NodeValue := None\<rparr>"
  obtain d es where d: "ds = d # es" using assms(1) by (cases ds) auto
  have s: "?s = concat (map dump_doc ds)" by simp
  obtain x where x: "dump_doc d = CHR ''<'' # x" using dump_element [of d] assms(2) d by auto
  have h: "here (new_parser ?s) = [] @ concat (map dump_doc (d # es)) @ []" by (simp add: here_def new_parser_def d)
  have "\<forall>e\<in>set (d # es). reads_back e" using element_read_back assms(2) d by blast
  from elements_read [OF this lead_refl h spaces_LF(2), where v = ?v and m = "''#document''" and bs = "[]" and ds = "[]" and fs = "[]"]
  obtain p where p: "reads ?v (\<Sum>e\<leftarrow>ds. events e) [document_frame] (new_parser ?s) [(''#document'', [], ds)] p"
      "here p = [LF]" "\<not> inAttrib p"
    by (auto simp: d document_frame_def new_parser_def)
  have b: "events e + 1 \<le> length (dump_doc e)" if "e \<in> set ds" for e
    using events_bound [of e] assms(2) that by (auto split: if_split_asm)
  then have "(\<Sum>e\<leftarrow>es. events e) + length es \<le> length (concat (map dump_doc es))" if "set es \<subseteq> set ds" for es
    using that by (induction es) fastforce+
  from this [of ds] have n: "(\<Sum>e\<leftarrow>ds. events e) < n" using assms(3) s d by simp
  moreover have "2 \<le> events d" using assms(2) d by (cases d) (auto simp: is_text_def)
  ultimately have "3 \<le> n" using d by simp
  then show ?thesis using document_read [OF p(1,2) spaces_LF(1) p(3) n] x d by simp
qed

section \<open>Examples\<close>

text \<open>Names, values and texts of ASCII characters.\<close>

lemma ascii_name: "list_all (\<lambda>c. (of_char c :: int) \<le> 127) s \<and> name_codes (map of_char s) \<Longrightarrow> is_name s"
  unfolding is_name_def using ascii_text [of s] by (metis list_all_iff)

lemma ascii_value:
  "list_all (\<lambda>c. (of_char c :: int) \<le> 127) s \<and> plain_text (map of_char s) \<and> s \<noteq> [] \<and> 34 \<notin> set (map of_char s :: int list) \<Longrightarrow> is_value s"
  unfolding is_value_def using ascii_text [of s] by (metis (no_types) list_all_iff map_is_Nil_conv)

lemma ascii_content:
  "list_all (\<lambda>c. (of_char c :: int) \<le> 127) s \<and> content_codes (map of_char s) \<Longrightarrow> is_content s"
  unfolding is_content_def using ascii_text [of s] by (metis list_all_iff)

text \<open>A document with an attribute, an escaped text and an empty element.\<close>

definition small_tree :: dom where
  "small_tree = Element ''a'' [(''b'', ''1<2'')] [TextNode '' x & y'', Element ''c'' [] []]"

lemma small_tree_printable: "printable small_tree"
proof -
  have n: "is_name ''a''" "is_name ''b''" "is_name ''c''" by (rule ascii_name, code_simp)+
  have v: "is_value ''1<2''" by (rule ascii_value, code_simp)
  have c: "is_content '' x & y''" by (rule ascii_content, code_simp)
  show ?thesis using n v c by (simp add: small_tree_def is_text_def)
qed

theorem printed_document_parsed_witness:
  "dump_doc (Element ''#document'' [] [small_tree]) = ''<a  b='' @ [DQ] @ ''1&lt;2'' @ [DQ] @ ''> x &amp; y<c/>'' @ [LF] @ ''</a>'' @ [LF] \<and>
   UpnpParse_Buffer 40 no_node (dump_doc (Element ''#document'' [] [small_tree])) = Some (Parsed (Element ''#document'' [] [small_tree]))"
proof -
  have d: "dump_doc (Element ''#document'' [] [small_tree]) = ''<a  b='' @ [DQ] @ ''1&lt;2'' @ [DQ] @ ''> x &amp; y<c/>'' @ [LF] @ ''</a>'' @ [LF]"
    by code_simp
  then have "length (dump_doc (Element ''#document'' [] [small_tree])) \<le> 40" by simp
  from printed_document_parsed [OF _ _ this, of no_node] small_tree_printable d show ?thesis
    by (simp add: small_tree_def is_text_def del: dump_doc.simps printable.simps)
qed

end
