(* ===== verification/Xml_Errors.thy ===== *)
theory Xml_Errors imports Xml_Roundtrip begin

text \<open>Texts on which the parser goes wrong.\<close>

section \<open>Fuel\<close>

lemma getNextNode_more: "getNextNode N v p = Some s \<Longrightarrow> s \<noteq> Reading \<Longrightarrow> getNextNode (N + k) v p = Some s"
proof (induction N v p rule: getNextNode.induct)
  case (2 n v p)
  then show ?case by (auto split: option.split_asm turn.split_asm if_split_asm)
qed simp

lemma getNextNode_none: "getNextNode N v p = None \<Longrightarrow> getNextNode (N + k) v p = None"
proof (induction N v p rule: getNextNode.induct)
  case (2 n v p)
  then show ?case by (auto split: option.split_asm turn.split_asm if_split_asm)
qed simp

lemma read_loop_more: "read_loop N n v fs p = r \<Longrightarrow> r \<noteq> Some Unfinished \<Longrightarrow> read_loop (N + k) (n + l) v fs p = r"
proof (induction N n v fs p rule: read_loop.induct)
  case (2 N n v fs p)
  show ?case
  proof (cases "getNextNode N v p")
    case None
    then show ?thesis using 2(2) getNextNode_none [OF None] by simp
  next
    case (Some s)
    then show ?thesis using 2 getNextNode_more [OF Some]
      by (cases s) (auto split: option.split_asm option.split)
  qed
qed auto

text \<open>A result other than \<open>Unfinished\<close> is the result with any more fuel.\<close>

lemma UpnpParse_Buffer_more:
  assumes "UpnpParse_Buffer n v0 s \<noteq> Some Unfinished" "n \<le> m"
  shows "UpnpParse_Buffer m v0 s = UpnpParse_Buffer n v0 s"
  using assms read_loop_more [of n n _ _ _ "UpnpParse_Buffer n v0 s" "m - n" "m - n"]
  by (auto simp: UpnpParse_Buffer_def ReadDocumentFileOrBuffer_def)

section \<open>A text the parser never finishes\<close>

definition endless :: string where "endless = ''<r>T</ />c''"

definition endless_at :: "nat \<Rightarrow> Parser" where
  "endless_at i = \<lparr>ParseBuff = endless, CurrPtr = i, TagVal = (i = 3 \<or> i = 9), SavePtr = (if 2 < i then Some 2 else None),
     inAttrib = False, attrFound = (i = 2), atLeastOneAttrFound = False, lastElem = ''r'',
     tokBuf = (if i = 2 then ''r'' else if i = 3 then ''>'' else if i = 4 then ''T'' else ''/>'')\<rparr>"

definition endless_text :: node_event where
  "endless_text = \<lparr>NodeType = TEXT_NODE, NodeName = Some ''#text'', NodeValue = Some ''T'', IsEnd = False\<rparr>"

lemma endless_turns:
  "node_turn v0 (new_parser endless) = Some (Again (element_event ''r'' False) (endless_at 2))"
  "node_turn (element_event ''r'' False) (endless_at 2) = Some (Return (element_event ''r'' False) (endless_at 3))"
  "node_turn no_node (endless_at 3) = Some (Return endless_text (endless_at 4))"
  "node_turn no_node (endless_at 4) = Some (Again (element_event ''/>'' True) (endless_at 9))"
  "node_turn (element_event ''/>'' True) (endless_at 9) = Some (Return endless_text (endless_at 4))"
  by code_simp+

lemma endless_here: "here (new_parser endless) \<noteq> []" "here (endless_at i) \<noteq> [] \<longleftrightarrow> i < 10"
  by (auto simp: here_def new_parser_def endless_at_def endless_def)

lemma short_call:
  assumes "here p \<noteq> []"
  shows "node_turn v p = Some (Return e r) \<Longrightarrow> getNextNode N v p = Some Reading \<or> getNextNode N v p = Some (Node e r)"
    "node_turn v p = Some (Again u q) \<Longrightarrow> here q \<noteq> [] \<Longrightarrow> node_turn u q = Some (Return e r) \<Longrightarrow>
      getNextNode N v p = Some Reading \<or> getNextNode N v p = Some (Node e r)"
proof -
  have one: "node_turn u q = Some (Return e r) \<Longrightarrow> here q \<noteq> [] \<Longrightarrow> getNextNode N u q = Some Reading \<or> getNextNode N u q = Some (Node e r)"
    for N u q by (cases N) simp_all
  show "node_turn v p = Some (Return e r) \<Longrightarrow> getNextNode N v p = Some Reading \<or> getNextNode N v p = Some (Node e r)"
    using one assms by blast
  show "node_turn v p = Some (Again u q) \<Longrightarrow> here q \<noteq> [] \<Longrightarrow> node_turn u q = Some (Return e r) \<Longrightarrow>
      getNextNode N v p = Some Reading \<or> getNextNode N v p = Some (Node e r)"
    using assms one [of u q] by (cases N) simp_all
qed

lemma endless_calls:
  "getNextNode N v0 (new_parser endless) = Some Reading \<or>
    getNextNode N v0 (new_parser endless) = Some (Node (element_event ''r'' False) (endless_at 3))"
  "getNextNode N no_node (endless_at 3) = Some Reading \<or> getNextNode N no_node (endless_at 3) = Some (Node endless_text (endless_at 4))"
  "getNextNode N no_node (endless_at 4) = Some Reading \<or> getNextNode N no_node (endless_at 4) = Some (Node endless_text (endless_at 4))"
  by (rule short_call(2) [OF endless_here(1) endless_turns(1) _ endless_turns(2)], simp add: endless_here)
    (rule short_call(1) [OF _ endless_turns(3)], simp add: endless_here,
     rule short_call(2) [OF _ endless_turns(4) _ endless_turns(5)], simp_all add: endless_here)

lemma endless_added: "fs \<noteq> [] \<Longrightarrow> \<exists>gs. add_node endless_text fs = Some (Some gs) \<and> gs \<noteq> []"
  by (cases fs) (auto simp: add_node_def endless_text_def)

lemma endless_kind: "NodeType endless_text \<noteq> INVALID_NODE" by (simp add: endless_text_def)

lemma endless_loop: "fs \<noteq> [] \<Longrightarrow> read_loop N n no_node fs (endless_at 4) = Some Unfinished"
proof (induction n arbitrary: fs)
  case (Suc n)
  then show ?case using endless_added [OF Suc.prems] endless_kind endless_calls(3) [of N] by auto
qed simp

lemma endless_start: "fs \<noteq> [] \<Longrightarrow> read_loop N n no_node fs (endless_at 3) = Some Unfinished"
  using endless_added [of fs] endless_kind endless_loop endless_calls(2) [of N] by (cases n) auto

text \<open>
  C36. Whatever time it has, and whatever its node holds at first, the parser does not finish with the text
  \<^verbatim>\<open><r>T</ />c\<close>: the slash before the end tag makes it read the text before it again, and add it to the tree again, without
  end.
\<close>

theorem parser_loops_forever: "UpnpParse_Buffer n v0 endless = Some Unfinished"
proof (cases n)
  case 0
  then show ?thesis by (simp add: UpnpParse_Buffer_def ReadDocumentFileOrBuffer_def endless_def)
next
  case (Suc m)
  have "add_node (element_event ''r'' False) [document_frame] = Some (Some [(''r'', [], []), document_frame])"
    "NodeType (element_event ''r'' False) \<noteq> INVALID_NODE" "endless \<noteq> []"
    by (simp_all add: add_node_def element_event_def endless_def)
  then show ?thesis
    using Suc endless_calls(1) [of n "v0\<lparr>NodeName := None, NodeValue := None\<rparr>"] endless_start [of "[(''r'', [], []), document_frame]" n m]
    by (auto simp: UpnpParse_Buffer_def ReadDocumentFileOrBuffer_def)
qed

section \<open>Texts that are refused or run past the end\<close>

text \<open>An element whose text is a single \<^verbatim>\<open><\<close> is printed as a text the parser refuses: the text is taken for markup.\<close>

lemma less_than_refused:
  "UpnpParse_Buffer 9 no_node (dump_doc (Element ''#document'' [] [Element ''a'' [] [TextNode ''<'']])) = Some Failed"
  by code_simp

text \<open>An empty value of an attribute is printed as a text that is read as something else.\<close>

lemma empty_value_refused:
  "UpnpParse_Buffer 20 no_node (dump_doc (Element ''#document'' [] [Element ''a'' [(''b'', [])] []])) \<noteq>
    Some (Parsed (Element ''#document'' [] [Element ''a'' [(''b'', [])] []]))"
  by code_simp

text \<open>A comment that is not ended is searched past the end of the text.\<close>

lemma comment_runs_past: "UpnpParse_Buffer 9 no_node ''<a><!-- c'' = None"
  by code_simp

text \<open>Elements that are never ended are accepted; text behind an element without content reads an indeterminate pointer.\<close>

lemma unclosed_accepted:
  "UpnpParse_Buffer 9 no_node ''<a><b>'' = Some (Parsed (Element ''#document'' [] [Element ''a'' [] [Element ''b'' [] []]]))"
  by code_simp

lemma saved_pointer_unset: "UpnpParse_Buffer 9 no_node ''<a/>z'' = None"
  by code_simp

end
