(* ===== verification/Soap_Roundtrip.thy ===== *)
theory Soap_Roundtrip imports Soap_Server Xml_Roundtrip begin

text \<open>
  A call of an action over the XML parser and printer of the library: the record \<open>xml_lib\<close> of the SOAP
  module is filled with \<open>UpnpParse_Buffer\<close> and \<open>UpnpNewPrintDocument\<close>, and the envelopes both sides write
  are shown to be read as the documents they hold.
\<close>

section \<open>The documents of an envelope\<close>

text \<open>A text that is not parsed, for which there is no node, is a NULL here; the fuel is the length of the text.\<close>

definition upnp_xml :: "node_event \<Rightarrow> xml_lib" where
  "upnp_xml v0 = \<lparr>xparse = (\<lambda>s. case UpnpParse_Buffer (length s) v0 s of Some (Parsed d) \<Rightarrow> Some d | _ \<Rightarrow> None),
     xprint = (\<lambda>d. UpnpNewPrintDocument (Some d))\<rparr>"

definition envelope_text :: "string \<Rightarrow> string \<Rightarrow> string \<Rightarrow> string \<Rightarrow> string" where
  "envelope_text v w s u = ''<s:Envelope xmlns:s='' @ [DQ] @ ''http://schemas.xmlsoap.org/soap/envelope/'' @ [DQ] @
     '' s:encodingStyle='' @ [DQ] @ v @ [DQ] @ ''><s:Body>'' @ w @ s @ ''</s:Body>'' @ u @ ''</s:Envelope>''"

definition envelope :: "string \<Rightarrow> dom \<Rightarrow> dom" where
  "envelope v d = Element ''#document'' [] [Element ''s:Envelope''
     [(''xmlns:s'', ''http://schemas.xmlsoap.org/soap/envelope/''), (''s:encodingStyle'', v)] [Element ''s:Body'' [] [d]]]"

lemma envelope_names:
  "is_name ''s:Envelope''" "is_name ''s:Body''" "is_name ''xmlns:s''" "is_name ''s:encodingStyle''"
  "is_value ''http://schemas.xmlsoap.org/soap/envelope/''" "is_value ''http://schemas.xmlsoap.org/soap/encoding''"
  "is_value ''http://schemas.xmlsoap.org/soap/encoding/''"
  by (rule ascii_name, code_simp)+ (rule ascii_value, code_simp)+

lemma envelope_parsed:
  assumes v: "is_value v" "copy_with_escape v = v" and d: "printable d" "\<not> is_text d" and w: "spaces w" "spaces u"
    and n: "length (envelope_text v w (dump_doc d) u) \<le> n"
  shows "UpnpParse_Buffer n v0 (envelope_text v w (dump_doc d) u) = Some (Parsed (envelope v d))"
proof -
  let ?s = "envelope_text v w (dump_doc d) u" and ?v = "v0\<lparr>NodeName := None, NodeValue := None\<rparr>"
  let ?a = "(''xmlns:s'', ''http://schemas.xmlsoap.org/soap/envelope/'')" and ?b = "(''s:encodingStyle'', v)"
  let ?body = "w @ dump_doc d @ ''</s:Body>'' @ u @ ''</s:Envelope>''"
  have e: "copy_with_escape ''http://schemas.xmlsoap.org/soap/envelope/'' = ''http://schemas.xmlsoap.org/soap/envelope/''" by code_simp
  have h0: "here (new_parser ?s) = [] @ CHR ''<'' # ''s:Envelope'' @ [] @ SP # ''xmlns:s'' @ CHR ''='' #
      [DQ] @ ''http://schemas.xmlsoap.org/soap/envelope/'' @ [DQ] @ '' s:encodingStyle='' @ [DQ] @ v @ [DQ] @ ''><s:Body>'' @ ?body"
    by (simp add: here_def new_parser_def envelope_text_def)
  obtain p1 where p1: "yields ?v (new_parser ?s) (element_event ''s:Envelope'' False) p1" "in_tag p1"
      "here p1 = SP # ''xmlns:s'' @ CHR ''='' # [DQ] @ ''http://schemas.xmlsoap.org/soap/envelope/'' @ [DQ] @ '' s:encodingStyle='' @
        [DQ] @ v @ [DQ] @ ''><s:Body>'' @ ?body"
    using start_attributes [OF lead_refl h0 spaces_LF(2) disjI1 [OF refl] envelope_names(1,3), of ?v] by (auto simp: new_parser_def)
  have r1: "reads ?v 1 [document_frame] (new_parser ?s) [(''s:Envelope'', [], []), document_frame] p1"
    by (rule reads_step [OF p1(1)]) (simp_all add: add_node_def element_event_def)
  have sp: "spaces [SP]" by (simp add: spaces_def WHITESPACE_def)
  have h1: "here p1 = [SP] @ attribute_body ?a @ [SP] @ attribute_body ?b @ ''><s:Body>'' @ ?body"
    using p1(3) e v(2) by (simp add: attribute_body_def)
  obtain p2 where p2: "reads no_node 1 [(''s:Envelope'', [], []), document_frame] p1 [(''s:Envelope'', [?a], []), document_frame] p2"
      "here p2 = [SP] @ attribute_body ?b @ ''><s:Body>'' @ ?body" "in_tag p2"
    using attribute_read [OF _ _ h1 sp p1(2), where n = "''s:Envelope''" and bs = "[]" and cs = "[]" and fs = "[document_frame]"] envelope_names by auto
  obtain p3 where p3: "reads no_node 1 [(''s:Envelope'', [?a], []), document_frame] p2 [(''s:Envelope'', [?a, ?b], []), document_frame] p3"
      "here p3 = CHR ''>'' # ''<s:Body>'' @ ?body" "in_tag p3" "atLeastOneAttrFound p3"
    using attribute_read [OF _ _ p2(2) sp p2(3), where n = "''s:Envelope''" and bs = "[?a]" and cs = "[]" and fs = "[document_frame]"] envelope_names v(1) by auto
  obtain q3 where q3: "lead no_node p3 q3" "here q3 = [] @ CHR ''<'' # ''s:Body'' @ CHR ''>'' # ?body" "behind_tag q3"
    using attributes_closed [OF p3(2-4)] by auto
  obtain p4 where p4: "yields no_node p3 (element_event ''s:Body'' False) p4" "here p4 = w @ dump_doc d @ ''</s:Body>'' @ u @ ''</s:Envelope>''"
      "behind_tag p4"
    using start_content [OF q3(1,2) spaces_LF(2) envelope_names(2)] q3(3) by (auto simp: behind_tag_def)
  let ?f = "[(''s:Envelope'', [?a, ?b], []), document_frame]"
  have r4: "reads no_node 1 ?f p3 ((''s:Body'', [], []) # ?f) p4"
    by (rule reads_step [OF p4(1)]) (simp_all add: add_node_def element_event_def)
  obtain p5 where p5: "reads no_node (events d) ((''s:Body'', [], []) # ?f) p4 ((''s:Body'', [], [d]) # ?f) p5"
      "here p5 = [LF] @ ''</'' @ ''s:Body'' @ CHR ''>'' # u @ ''</s:Envelope>''" "\<not> inAttrib p5" "\<not> atLeastOneAttrFound p5"
    using reads_backD [OF element_read_back [OF d] lead_refl p4(2) w(1), where m = "''s:Body''" and bs = "[]" and ds = "[]" and fs = ?f] p4(3)
    by (auto simp: behind_tag_def)
  obtain p6 where p6: "reads no_node 1 ((''s:Body'', [], [d]) # ?f) p5 [(''s:Envelope'', [?a, ?b], [Element ''s:Body'' [] [d]]), document_frame] p6"
      "here p6 = u @ ''</'' @ ''s:Envelope'' @ CHR ''>'' # []" "\<not> inAttrib p6" "\<not> atLeastOneAttrFound p6"
    using end_content [OF p5(2) spaces_LF(1) envelope_names(2) p5(3,4), where as = "[]" and cs = "[d]" and m = "''s:Envelope''" and bs = "[?a, ?b]" and ds = "[]" and fs = "[document_frame]"] by auto
  obtain p7 where p7: "reads no_node 1 [(''s:Envelope'', [?a, ?b], [Element ''s:Body'' [] [d]]), document_frame] p6
      [(''#document'', [], [Element ''s:Envelope'' [?a, ?b] [Element ''s:Body'' [] [d]]])] p7"
      "here p7 = []" "\<not> inAttrib p7"
    using end_content [OF p6(2) w(2) envelope_names(1) p6(3,4), where as = "[?a, ?b]" and cs = "[Element ''s:Body'' [] [d]]" and m = "''#document''" and bs = "[]" and ds = "[]" and fs = "[]"]
    by (auto simp: document_frame_def)
  note r = reads_trans [OF r1 reads_trans [OF p2(1) reads_trans [OF p3(1) reads_trans [OF r4 reads_trans [OF p5(1) reads_trans [OF p6(1) p7(1)]]]]]]
  have "events d + 10 < n" "3 \<le> n" "?s \<noteq> []" using n events_bound [OF d(1)] d(2) by (simp_all add: envelope_text_def)
  then show ?thesis using document_read [OF r p7(2) spaces_LF(2) p7(3), of n] by (simp add: envelope_def)
qed

lemma strstr_there: "strstr (u @ t @ r) t \<noteq> None"
proof (induction u)
  case Nil
  have "take (length t) (t @ r) = t" by simp
  then show ?case by (cases "t @ r") (simp_all only: append_Nil strstr.simps, auto)
qed simp

lemma carries_envelope:
  assumes v: "is_value v" "copy_with_escape v = v" and d: "printable (Element (k @ name @ l) as cs)" and w: "spaces w" "spaces u"
  shows "carries (upnp_xml v0) (envelope_text v w (dump_doc (Element (k @ name @ l) as cs)) u) name
    (Some (Element ''#document'' [] [Element (k @ name @ l) as cs]))"
proof -
  let ?d = "Element (k @ name @ l) as cs"
  have n: "\<not> is_text ?d" by (simp add: is_text_def)
  note e = envelope_parsed [OF v d n w order_refl, of v0]
  have "dump_doc (Element ''#document'' [] [?d]) = dump_doc ?d" by simp
  moreover have "dump_doc ?d \<noteq> []" using dump_element [OF d n] by (auto simp del: dump_doc.simps)
  ultimately have "as_document (upnp_xml v0) ?d = Some (Element ''#document'' [] [?d])"
    using printed_document_parsed [of "[?d]" "length (dump_doc ?d)" v0] d n
    by (simp add: as_document_def upnp_xml_def UpnpNewPrintDocument_def DumpDocument_def del: dump_doc.simps)
  then show ?thesis using e strstr_there [of k name l]
    by (simp add: carries_def upnp_xml_def envelope_def enveloped_def first_child_def node_name_def)
qed


lemma printed_action_name:
  assumes "CHR '':'' \<notin> set k" "SP \<notin> set name" "length name < NAME_SIZE"
    "find_nocase (dump_doc (Element (k @ CHR '':'' # name) (a # as) cs)) ''SOAPACTION'' = None"
    "k @ CHR '':'' # name \<noteq> ''#document''"
  shows "GetActionName True (dump_doc (Element (k @ CHR '':'' # name) (a # as) cs)) Name = Some (1, name)"
proof -
  obtain r where r: "dump_doc (Element (k @ CHR '':'' # name) (a # as) cs) = CHR ''<'' # k @ CHR '':'' # name @ SP # r"
    using assms(5) by (simp add: print_attribute_def)
  have f: "strstr (k @ CHR '':'' # name @ SP # r) '':'' = Some (length k)"
    using assms(1) by (induction k) auto
  have t: "takeWhile (\<lambda>c. c \<noteq> SP) (name @ SP # r) = name" using assms(2) by (induction name) auto
  show ?thesis using assms(3,4) f t unfolding r
    by (simp add: GetActionName_def strstrcase_def block_of_def)
qed

section \<open>A call of an action\<close>

lemma upnp_printed:
  assumes "printable d" "\<not> is_text d"
  shows "xprint (upnp_xml v0) d = Some (dump_doc d)"
proof -
  have "dump_doc d \<noteq> []" using dump_element [OF assms] by auto
  then show ?thesis by (simp add: upnp_xml_def UpnpNewPrintDocument_def DumpDocument_def)
qed

lemma envelopes: "SOAP_BEGIN @ s @ SOAP_END = envelope_text ''http://schemas.xmlsoap.org/soap/encoding'' [] s []"
  "action_answer s = envelope_text ''http://schemas.xmlsoap.org/soap/encoding/'' [LF] s [SP]"
  by (simp_all add: SOAP_BEGIN_def SOAP_END_def action_answer_def ANSWER_BEGIN_def envelope_text_def)

lemma carries_request:
  assumes "printable (Element (k @ name @ l) as cs)"
  shows "carries (upnp_xml v0) (SOAP_BEGIN @ dump_doc (Element (k @ name @ l) as cs) @ SOAP_END) name
      (Some (Element ''#document'' [] [Element (k @ name @ l) as cs]))"
    "carries (upnp_xml v0) (action_answer (dump_doc (Element (k @ name @ l) as cs))) name
      (Some (Element ''#document'' [] [Element (k @ name @ l) as cs]))"
  unfolding envelopes
  by (rule carries_envelope [OF envelope_names(6) _ assms]; code_simp)
    (rule carries_envelope [OF envelope_names(7) _ assms]; code_simp)

text \<open>
  C3. A call of an action, end to end.  The control point prints the action, wraps it, and sends it to the host and
  path of the control URL; the device at the other end reads back the path and the name of the action,
  parses the envelope and gives the application the very action as a document, and sends the element its
  application answers with; the control point parses the answer and gets that element as a document and
  the code of success.
\<close>

theorem action_roundtrip:
  fixes Path ServiceType ActName host
  defines "rq act \<equiv> action_request Path ServiceType ActName host (SOAP_BEGIN @ dump_doc act @ SOAP_END)"
  assumes act: "act = Element (k @ CHR '':'' # ActName) (b # bs) cs" "CHR '':'' \<notin> set k" "printable act" "length (dump_doc act) < 2 ^ 30"
    and names: "find_nocase (dump_doc act) ''SOAPACTION'' = None" "find_nocase (rq act) ''QueryStateVariable'' = None"
      "plain_action Path ServiceType ActName host"
    and client: "GetHostHeader c url = Some (HTTP_SUCCESS, Some (host, Path))" "calloc c = (\<lambda>_. True)"
    and device: "salloc e = (\<lambda>_. True)" "host_fits (shost e)" "sxml e = upnp_xml v1" "GetDeviceInfo e Path = Some (Some svc)"
    and app: "on_action app svc ActName (Some (Element ''#document'' [] [act])) = (UPNP_E_SUCCESS, err, Some res)"
      "res = Element (l @ ActName @ m) as ds" "printable res" "length (dump_doc res) < 2 ^ 30"
    and transfer: "\<And>r out. ProcessSoapEventPacket e app (rq act) = Some r \<Longrightarrow> so_sent r = Some out \<Longrightarrow>
      transferHTTPRaw (url_store url) (cuenv c) (curi c) (cnet c) (rq act @ [NUL]) (int (length (rq act)) + 1) (0, 0) =
        Some (code, Some out, rq act @ [NUL]) \<and> cstring out = butlast out"
  shows "(\<exists>out. ProcessSoapEventPacket e app (rq act) = Some \<lparr>so_code = 1,
      so_told = Some (svc, Action_Request ActName (Some (Element ''#document'' [] [act]))), so_sent = Some out\<rparr>) \<and>
    SoapSendAction c (upnp_xml v0) url ServiceType act RespNode =
      Some (UPNP_E_SUCCESS, Some (Element ''#document'' [] [res]), rq act @ [NUL])"
proof -
  have t: "\<not> is_text act" "\<not> is_text res" using act(1) app(2) by (simp_all add: is_text_def)
  have "SP \<notin> set ActName" "length ActName < NAME_SIZE"
    using names(3) by (auto simp: plain_action_def list_all_iff isalnum_def isalpha_def isdigit_def)
  then have n: "GetActionName True (dump_doc act) [] = Some (1, ActName)"
    using printed_action_name [OF act(2) _ _ names(1) [unfolded act(1)], of "[]"] printable_name [OF act(3) [unfolded act(1)]] act(1)
    by (simp del: dump_doc.simps)
  have q: "carries (sxml e) (SOAP_BEGIN @ dump_doc act @ SOAP_END) ActName (Some (Element ''#document'' [] [act]))"
    using carries_request(1) [of "k @ '':''" ActName "[]" "b # bs" cs v1] act(1,3) device(3) by (simp del: dump_doc.simps printable.simps)
  have a: "carries (upnp_xml v0) (action_answer (dump_doc res)) ActName (Some (Element ''#document'' [] [res]))"
    using carries_request(2) [of l ActName m as ds v0] app(2,3) by (simp del: dump_doc.simps printable.simps)
  have p: "xprint (sxml e) res = Some (dump_doc res)" "xprint (upnp_xml v0) act = Some (dump_doc act)"
    using upnp_printed device(3) app(3) act(3) t by simp_all
  show ?thesis
    using action_exchanged [OF p(2) act(4) n client names(3) names(2) [unfolded rq_def] q device(1,2,4) app(1) p(1) app(4) a
      transfer [unfolded rq_def]] unfolding rq_def by simp
qed

section \<open>Examples\<close>

text \<open>A switch that is told to go on, and answers with a comparison that has to be escaped.\<close>

definition on_action_node :: dom where "on_action_node = Element ''u:On'' [(''xmlns:u'', ''urn:s'')] []"

definition on_answer_node :: dom where
  "on_answer_node = Element ''u:OnResponse'' [] [Element ''ret'' [] [TextNode ''1<2'']]"

definition on_text :: string where "on_text = dump_doc on_action_node"
definition answer_text :: string where "answer_text = action_answer (dump_doc on_answer_node)"

definition lit_switch :: soap_env where "lit_switch = switch\<lparr>sxml := upnp_xml no_node\<rparr>"

definition lit_app :: control_app where
  "lit_app = switch_app\<lparr>on_action := (\<lambda>svc name req. (0, [], Some on_answer_node))\<rparr>"

definition switch_request :: string where
  "switch_request = action_request ''/c'' ''urn:s'' ''On'' ''h'' (SOAP_BEGIN @ on_text @ SOAP_END)"

definition switch_named :: service_of_url where
  "switch_named = \<lparr>svc_udn = ''U'', svc_id = ''S'', svc_fun = 1, svc_cookie = 0\<rparr>"

lemma example_printable: "printable on_action_node" "printable on_answer_node"
proof -
  have n: "is_name ''u:On''" "is_name ''xmlns:u''" "is_name ''u:OnResponse''" "is_name ''ret''" by (rule ascii_name, code_simp)+
  have v: "is_value ''urn:s''" by (rule ascii_value, code_simp)
  have c: "is_content ''1<2''" by (rule ascii_content, code_simp)
  show "printable on_action_node" "printable on_answer_node"
    using n v c by (simp_all add: on_action_node_def on_answer_node_def)
qed

lemma example_facts:
  "GetDeviceInfo switch ''/c'' = Some (Some switch_named)"
  "GetHostHeader client_env ''http://h/c'' = Some (HTTP_SUCCESS, Some (''h'', ''/c''))"
  "plain_action ''/c'' ''urn:s'' ''On'' ''h''"
  "find_nocase on_text ''SOAPACTION'' = None"
  by code_simp+

lemma switch_request_plain: "find_nocase switch_request ''QueryStateVariable'' = None"
proof -
  have "tolower (CHR ''Q'') \<notin> tolower ` set switch_request" by code_simp
  then show ?thesis by (rule find_nocase_missing [rotated]) simp
qed

definition switch_lines :: "string list" where
  "switch_lines = [''HTTP/1.1 200 OK'' @ CRLF, ''CONTENT-LENGTH:206'' @ CRLF, ''CONTENT-TYPE:text/xml'' @ CRLF,
     ''DATE: Fri, 15 Jun 2001 00:22:16 GMT'' @ CRLF, ''EXT:'' @ CRLF, ''SERVER:Linux/2.4 UPnP/1.0 Intel UPnP SDK/1.0'' @ CRLF]"

definition switch_answer :: string where "switch_answer = concat switch_lines @ CRLF @ answer_text @ [NUL]"

lemma switch_answer_facts:
  "length answer_text = 205"
  "response_text OK_LINE (''DATE: Fri, 15 Jun 2001 00:22:16 GMT'' @ CRLF) switch_host answer_text @ [NUL] = switch_answer"
  "announced switch_lines = 206"
  "case parse_uri (url_store ''http://h/c'') (cuenv client_env) (0, 0) 10 (curi client_env) of
     Some (rc, u) \<Rightarrow> rc = HTTP_SUCCESS \<and> http_url (url_store ''http://h/c'') u = Some True | None \<Rightarrow> False"
  "NUL \<notin> set (butlast switch_answer)"
  by code_simp+

lemma switch_header_lines: "\<forall>l\<in>set switch_lines. header_line l"
  by (simp add: switch_lines_def header_line_def text_line_def ends_crlf_def SOCKET_BUFFER_SIZE_def CRLF_def)

definition switch_client :: cenv where
  "switch_client = client_env\<lparr>cnet := (cnet client_env)\<lparr>takes := [Takes 0 (length switch_request + 1)], sends := [Seg 1 switch_answer]\<rparr>\<rparr>"

lemma short_text: "length on_text < 30"
  by code_simp

lemma switch_transfer:
  "transferHTTPRaw (url_store ''http://h/c'') (cuenv switch_client) (curi switch_client) (cnet switch_client)
     (switch_request @ [NUL]) (int (length switch_request) + 1) (0, 0) = Some (HTTP_SUCCESS, Some switch_answer, switch_request @ [NUL])"
proof -
  obtain u where u: "parse_uri (url_store ''http://h/c'') (cuenv client_env) (0, 0) 10 (curi client_env) = Some (HTTP_SUCCESS, u)"
    "http_url (url_store ''http://h/c'') u = Some True"
    using switch_answer_facts(4) by (auto split: option.split_asm prod.split_asm)
  have len: "length switch_request + 1 < 2 ^ 31"
    using length_action_request [OF example_facts(3), of "SOAP_BEGIN @ on_text @ SOAP_END"] short_text
    by (simp add: switch_request_def HEADER_LENGTH_def SOAP_BEGIN_def SOAP_END_def)
  have "read_http_response (\<lambda>_. True) True [Seg 1 switch_answer] RESPONSE_TIMEOUT = Some (HTTP_SUCCESS, Some switch_answer)"
    using read_http_response_content [where q = "[Seg 1 switch_answer]" and t = RESPONSE_TIMEOUT and ls = switch_lines
        and body = "answer_text @ [NUL]" and rest = "[]"] switch_header_lines switch_answer_facts(1,3)
    by (simp add: switch_answer_def CRLF_def RESPONSE_TIMEOUT_def)
  moreover have "memcpy_from (switch_request @ [NUL]) (int (length switch_request) + 1) = Some (switch_request @ [NUL])"
    using memcpy_from_all [of "switch_request @ [NUL]"] len by (simp add: add.commute)
  moreover have "strlen (bytes_at (url_store ''http://h/c'') (0, 0)) = Some 10" by code_simp
  ultimately show ?thesis
    using u exchange_spec [of "cnet switch_client" "IPv4address (hostport u)" "[length switch_request + 1]" "switch_request @ [NUL]"]
    by (simp add: transferHTTPRaw_def switch_client_def client_env_def)
qed

theorem action_roundtrip_witness:
  "SoapSendAction switch_client (upnp_xml no_node) ''http://h/c'' ''urn:s'' on_action_node None =
     Some (UPNP_E_SUCCESS, Some (Element ''#document'' [] [on_answer_node]), switch_request @ [NUL])"
proof -
  have sw: "salloc lit_switch = (\<lambda>_. True)" "shost lit_switch = switch_host" "sxml lit_switch = upnp_xml no_node"
    by (simp_all add: lit_switch_def switch_def)
  have same: "shandles lit_switch = shandles switch" "snames lit_switch = snames switch" "suri lit_switch = suri switch"
    by (simp_all add: lit_switch_def)
  have dev: "GetDeviceInfo lit_switch ''/c'' = Some (Some switch_named)"
    using example_facts(1) same by (simp only: GetDeviceInfo_def)
  have node: "on_action_node = Element (''u'' @ CHR '':'' # ''On'') ((''xmlns:u'', ''urn:s'') # []) []"
    "on_answer_node = Element (''u:'' @ ''On'' @ ''Response'') [] [Element ''ret'' [] [TextNode ''1<2'']]"
    by (simp_all add: on_action_node_def on_answer_node_def)
  have app: "on_action lit_app switch_named ''On'' r = (UPNP_E_SUCCESS, [], Some on_answer_node)" for r by (simp add: lit_app_def)
  have c: "GetHostHeader switch_client ''http://h/c'' = Some (HTTP_SUCCESS, Some (''h'', ''/c''))" "calloc switch_client = (\<lambda>_. True)"
    using example_facts(2) by (simp_all add: switch_client_def GetHostHeader_def client_env_def)
  have len: "length (dump_doc on_action_node) < 2 ^ 30" "length (dump_doc on_answer_node) < 2 ^ 30"
    using short_text switch_answer_facts(1) by (simp_all add: on_text_def answer_text_def action_answer_def)
  have req: "carries (sxml lit_switch) (SOAP_BEGIN @ on_text @ SOAP_END) ''On'' (Some (Element ''#document'' [] [on_action_node]))"
    using carries_request(1) [of "''u:''" "''On''" "[]" "[(''xmlns:u'', ''urn:s'')]" "[]" no_node] example_printable(1)
    by (simp add: on_action_node_def on_text_def sw(3) del: dump_doc.simps)
  have tr: "transferHTTPRaw (url_store ''http://h/c'') (cuenv switch_client) (curi switch_client) (cnet switch_client)
      (switch_request @ [NUL]) (int (length switch_request) + 1) (0, 0) = Some (HTTP_SUCCESS, Some out, switch_request @ [NUL]) \<and>
      cstring out = butlast out" if "ProcessSoapEventPacket lit_switch lit_app switch_request = Some r" "so_sent r = Some out" for r out
  proof -
    obtain t where "currentTmToHttpDate (clock (shost lit_switch)) = Some (''DATE: '' @ t @ CRLF)"
      "ProcessSoapEventPacket lit_switch lit_app switch_request = Some \<lparr>so_code = 1,
        so_told = Some (switch_named, Action_Request ''On'' (Some (Element ''#document'' [] [on_action_node]))),
        so_sent = Some (response_text OK_LINE (''DATE: '' @ t @ CRLF) (shost lit_switch) answer_text @ [NUL])\<rparr>"
      using action_served [OF example_facts(3) req _ sw(1) _ dev app _ len(2)] upnp_printed [OF example_printable(2)] sw(2,3)
        switch_facts(2) switch_request_plain
      by (auto simp: switch_request_def answer_text_def on_answer_node_def is_text_def simp del: dump_doc.simps)
    then have o: "out = switch_answer" using that switch_facts(1) switch_answer_facts(2) sw(2) by simp
    have "switch_answer \<noteq> []" "last switch_answer = NUL" by (simp_all add: switch_answer_def)
    then have "switch_answer = butlast switch_answer @ [NUL]" by (metis append_butlast_last_id)
    then have "cstring switch_answer = butlast switch_answer" using cstring_terminated_by [OF switch_answer_facts(5), of "[]"] by simp
    then show ?thesis using switch_transfer o by simp
  qed
  note rq = switch_request_def [unfolded on_text_def, symmetric]
  have plain: "CHR '':'' \<notin> set ''u''" by simp
  have fits: "host_fits (shost lit_switch)" using switch_facts(2) sw(2) by simp
  show ?thesis
    using conjunct2 [OF action_roundtrip [OF node(1) plain example_printable(1) len(1) example_facts(4) [unfolded on_text_def] _
        example_facts(3) c sw(1) _ sw(3) dev app node(2) example_printable(2) len(2), where ?v0.0 = no_node and RespNode = None,
        unfolded rq, OF switch_request_plain fits tr]] by simp
qed

end
