(* ===== verification/Dom_Heap.thy ===== *)
theory Dom_Heap imports Xml_Reader begin

text \<open>
  The nodes of the DOM as objects in memory (\<^verbatim>\<open>upnpdom/NodeAct.cpp\<close>).  A pointer to a node is the number of
  the node, \<open>None\<close> is NULL; a node that was deleted is not in the heap any more.  \<open>Found\<close> is the static
  variable of \<open>findNodeFromRef\<close>.  Memory does not run out; \<open>None\<close> as a result is a wrong pointer
  or a loop that does not end.
\<close>

section \<open>Nodes and the heap\<close>

record NodeAct =
  NA_NodeName :: "string option"
  NA_NodeValue :: "string option"
  NA_NodeType :: NODE_TYPE
  ParentNode :: "nat option"
  FirstChild :: "nat option"
  LastChild :: "nat option"
  OwnerNode :: nat
  NextSibling :: "nat option"
  PrevSibling :: "nat option"
  FirstAttr :: "nat option"
  LastAttr :: "nat option"
  RefCount :: int

record dom_heap =
  acts :: "nat \<Rightarrow> NodeAct option"
  next_id :: nat
  Found :: bool

abbreviation NOT_FOUND_ERR :: int where "NOT_FOUND_ERR \<equiv> 8"

definition set_act :: "nat \<Rightarrow> (NodeAct \<Rightarrow> NodeAct) \<Rightarrow> dom_heap \<Rightarrow> dom_heap option" where
  "set_act a f h = do { n \<leftarrow> acts h a; Some (h\<lparr>acts := (acts h)(a \<mapsto> f n)\<rparr>) }"

text \<open>A write through a pointer that may be NULL is not made.\<close>

definition set_opt :: "nat option \<Rightarrow> (NodeAct \<Rightarrow> NodeAct) \<Rightarrow> dom_heap \<Rightarrow> dom_heap option" where
  "set_opt p f h = (case p of None \<Rightarrow> Some h | Some a \<Rightarrow> set_act a f h)"

definition alloc_act :: "(nat \<Rightarrow> NodeAct) \<Rightarrow> dom_heap \<Rightarrow> nat \<times> dom_heap" where
  "alloc_act f h = (next_id h, h\<lparr>acts := (acts h)(next_id h \<mapsto> f (next_id h)), next_id := Suc (next_id h)\<rparr>)"

text \<open>The constructor.  Names and values are copied.\<close>

definition new_NodeAct :: "NODE_TYPE \<Rightarrow> string option \<Rightarrow> string option \<Rightarrow> dom_heap \<Rightarrow> nat \<times> dom_heap" where
  "new_NodeAct nt name val h = alloc_act (\<lambda>a. \<lparr>NA_NodeName = name, NA_NodeValue = val, NA_NodeType = nt,
     ParentNode = None, FirstChild = None, LastChild = None, OwnerNode = a, NextSibling = None, PrevSibling = None,
     FirstAttr = None, LastAttr = None, RefCount = 0\<rparr>) h"

section \<open>Searching\<close>

text \<open>A list of siblings is walked until the node is met.\<close>

partial_function (option) in_list :: "dom_heap \<Rightarrow> nat option \<Rightarrow> nat \<Rightarrow> bool option" where
  "in_list h p target =
     (case p of
        None \<Rightarrow> Some False
      | Some a \<Rightarrow> if a = target then Some True else do { n \<leftarrow> acts h a; in_list h (NextSibling n) target })"

definition findNode :: "nat \<Rightarrow> nat option \<Rightarrow> dom_heap \<Rightarrow> bool option" where
  "findNode this target h =
     (case target of
        None \<Rightarrow> Some False
      | Some f \<Rightarrow> do {
          n \<leftarrow> acts h this;
          found \<leftarrow> in_list h (FirstChild n) f;
          found_attr \<leftarrow> (if NA_NodeType n = ELEMENT_NODE then in_list h (FirstAttr n) f else Some False);
          Some (found \<or> found_attr) })"

text \<open>
  The children \<open>kid\<close> and after of the node \<open>from\<close>: each one's own children first.  The value is the
  static variable afterwards, which is also what is returned.
\<close>

partial_function (option) ref_loop :: "dom_heap \<Rightarrow> bool \<Rightarrow> nat \<Rightarrow> nat option \<Rightarrow> nat option \<Rightarrow> bool option" where
  "ref_loop h found from kid target =
     (case kid of
        None \<Rightarrow> Some found
      | Some k \<Rightarrow> do {
          n \<leftarrow> acts h k;
          found \<leftarrow> ref_loop h found k (FirstChild n) target;
          here_found \<leftarrow> findNode from target h;
          if here_found then Some True else ref_loop h found from (NextSibling n) target })"

definition findNodeFromRef :: "nat \<Rightarrow> nat option \<Rightarrow> dom_heap \<Rightarrow> (bool \<times> dom_heap) option" where
  "findNodeFromRef from target h = do {
     n \<leftarrow> acts h from;
     found \<leftarrow> ref_loop h (Found h) from (FirstChild n) target;
     Some (found, h\<lparr>Found := found\<rparr>) }"

partial_function (option) owner_loop :: "nat option \<Rightarrow> nat \<Rightarrow> dom_heap \<Rightarrow> dom_heap option" where
  "owner_loop kid newOwner h =
     (case kid of
        None \<Rightarrow> Some h
      | Some k \<Rightarrow> do {
          n \<leftarrow> acts h k;
          h \<leftarrow> owner_loop (FirstChild n) newOwner h;
          h \<leftarrow> set_act k (OwnerNode_update (\<lambda>_. newOwner)) h;
          n \<leftarrow> acts h k;
          owner_loop (NextSibling n) newOwner h })"

definition changeOwnerNode :: "nat \<Rightarrow> nat \<Rightarrow> dom_heap \<Rightarrow> dom_heap option" where
  "changeOwnerNode n newOwner h = do { a \<leftarrow> acts h n; owner_loop (FirstChild a) newOwner h }"

section \<open>Changing the tree\<close>

text \<open>A result \<open>Some code\<close> is an exception that was thrown.\<close>

definition removeChild :: "nat \<Rightarrow> nat option \<Rightarrow> dom_heap \<Rightarrow> (int option \<times> dom_heap) option" where
  "removeChild this oldChild h = do {
     found \<leftarrow> findNode this oldChild h;
     if \<not> found then Some (Some NOT_FOUND_ERR, h)
     else do {
       old \<leftarrow> oldChild;
       n \<leftarrow> acts h old;
       h \<leftarrow> set_opt (PrevSibling n) (NextSibling_update (\<lambda>_. NextSibling n)) h;
       n \<leftarrow> acts h old;
       h \<leftarrow> set_opt (NextSibling n) (PrevSibling_update (\<lambda>_. PrevSibling n)) h;
       n \<leftarrow> acts h old;
       h \<leftarrow> set_act this (\<lambda>t. if FirstChild t = Some old then t\<lparr>FirstChild := NextSibling n\<rparr> else t) h;
       h \<leftarrow> set_act this (\<lambda>t. if LastChild t = Some old then t\<lparr>LastChild := PrevSibling n\<rparr> else t) h;
       h \<leftarrow> set_act old (\<lambda>n. n\<lparr>OwnerNode := old, ParentNode := None, RefCount := 1\<rparr>) h;
       Some (None, h) } }"

text \<open>The end of \<open>appendChild\<close>: behind the last child or the last attribute.\<close>

definition link_last :: "nat \<Rightarrow> nat \<Rightarrow> dom_heap \<Rightarrow> dom_heap option" where
  "link_last this new h = do {
     n \<leftarrow> acts h new;
     t \<leftarrow> acts h this;
     if NA_NodeType n \<noteq> ATTRIBUTE_NODE
     then (case FirstChild t of
         None \<Rightarrow> set_act this (\<lambda>t. t\<lparr>FirstChild := Some new, LastChild := Some new\<rparr>) h
       | Some _ \<Rightarrow> do {
           l \<leftarrow> LastChild t;
           h \<leftarrow> set_act l (NextSibling_update (\<lambda>_. Some new)) h;
           h \<leftarrow> set_act new (PrevSibling_update (\<lambda>_. Some l)) h;
           set_act this (LastChild_update (\<lambda>_. Some new)) h })
     else (case FirstAttr t of
         None \<Rightarrow> set_act this (\<lambda>t. t\<lparr>FirstAttr := Some new, LastAttr := Some new\<rparr>) h
       | Some _ \<Rightarrow> do {
           l \<leftarrow> LastAttr t;
           h \<leftarrow> set_act l (NextSibling_update (\<lambda>_. Some new)) h;
           h \<leftarrow> set_act new (PrevSibling_update (\<lambda>_. Some l)) h;
           set_act this (LastAttr_update (\<lambda>_. Some new)) h }) }"

definition appendChild :: "nat \<Rightarrow> nat option \<Rightarrow> dom_heap \<Rightarrow> (int option \<times> dom_heap) option" where
  "appendChild this newChild h = do {
     t \<leftarrow> acts h this;
     (found, h) \<leftarrow> findNodeFromRef (OwnerNode t) newChild h;
     new \<leftarrow> newChild;
     (exc, h) \<leftarrow> (if found then do { n \<leftarrow> acts h new; p \<leftarrow> ParentNode n; removeChild p newChild h } else Some (None, h));
     if exc \<noteq> None then Some (exc, h)
     else do {
       t \<leftarrow> acts h this;
       h \<leftarrow> set_act new (\<lambda>n. n\<lparr>ParentNode := Some this, OwnerNode := OwnerNode t\<rparr>) h;
       t \<leftarrow> acts h this;
       h \<leftarrow> changeOwnerNode new (OwnerNode t) h;
       h \<leftarrow> set_act new (\<lambda>n. n\<lparr>NextSibling := None, PrevSibling := None, RefCount := RefCount n + 1\<rparr>) h;
       h \<leftarrow> link_last this new h;
       Some (None, h) } }"

definition insertBefore :: "nat \<Rightarrow> nat option \<Rightarrow> nat option \<Rightarrow> dom_heap \<Rightarrow> (int option \<times> dom_heap) option" where
  "insertBefore this newChild refChild h =
     (case refChild of
        None \<Rightarrow> appendChild this newChild h
      | Some ref \<Rightarrow> do {
          found \<leftarrow> findNode this refChild h;
          if \<not> found then Some (Some NOT_FOUND_ERR, h)
          else do {
            found \<leftarrow> findNode this newChild h;
            (exc, h) \<leftarrow> (if found then removeChild this newChild h else Some (None, h));
            if exc \<noteq> None then Some (exc, h)
            else do {
              new \<leftarrow> newChild;
              h \<leftarrow> (if found then set_act new (\<lambda>n. n\<lparr>NextSibling := None, PrevSibling := None\<rparr>) h else Some h);
              h \<leftarrow> set_act new (\<lambda>n. n\<lparr>RefCount := RefCount n + 1, NextSibling := Some ref\<rparr>) h;
              r \<leftarrow> acts h ref;
              h \<leftarrow> set_opt (PrevSibling r) (NextSibling_update (\<lambda>_. Some new)) h;
              h \<leftarrow> set_act new (NextSibling_update (\<lambda>_. Some ref)) h;
              h \<leftarrow> set_act ref (PrevSibling_update (\<lambda>_. Some new)) h;
              n \<leftarrow> acts h new;
              h \<leftarrow> set_act this (\<lambda>t. if PrevSibling n \<noteq> None then t
                else if NA_NodeType n \<noteq> ATTRIBUTE_NODE then t\<lparr>FirstChild := Some new\<rparr> else t\<lparr>FirstAttr := Some new\<rparr>) h;
              h \<leftarrow> set_act new (ParentNode_update (\<lambda>_. Some this)) h;
              t \<leftarrow> acts h this;
              h \<leftarrow> set_act new (OwnerNode_update (\<lambda>_. OwnerNode t)) h;
              Some (None, h) } } })"

definition replaceChild :: "nat \<Rightarrow> nat option \<Rightarrow> nat option \<Rightarrow> dom_heap \<Rightarrow> (int option \<times> dom_heap) option" where
  "replaceChild this newChild oldChild h =
     (if oldChild = None then Some (None, h)
      else do {
        found \<leftarrow> findNode this oldChild h;
        if \<not> found then Some (Some NOT_FOUND_ERR, h)
        else do {
          (exc, h) \<leftarrow> insertBefore this newChild oldChild h;
          if exc \<noteq> None then Some (exc, h) else removeChild this oldChild h } })"

section \<open>Copies\<close>

text \<open>The copying constructor without the loop over the children: attributes are not copied.\<close>

definition copied_act :: "NodeAct \<Rightarrow> NodeAct" where
  "copied_act other = other\<lparr>RefCount := 1, PrevSibling := None, NextSibling := None, ParentNode := None, FirstChild := None,
     LastChild := None, FirstAttr := None, LastAttr := None\<rparr>"

text \<open>The loop: each child is cloned and appended.\<close>

partial_function (option) clone_kids :: "nat \<Rightarrow> nat option \<Rightarrow> dom_heap \<Rightarrow> dom_heap option" where
  "clone_kids new kid h =
     (case kid of
        None \<Rightarrow> Some h
      | Some k \<Rightarrow> do {
          n \<leftarrow> acts h k;
          (c, h) \<leftarrow> Some (alloc_act (\<lambda>_. copied_act n) h);
          h \<leftarrow> clone_kids c (FirstChild n) h;
          (exc, h) \<leftarrow> appendChild new (Some c) h;
          if exc \<noteq> None then None
          else do { n \<leftarrow> acts h k; clone_kids new (NextSibling n) h } })"

definition cloneNode :: "nat \<Rightarrow> bool \<Rightarrow> dom_heap \<Rightarrow> (nat \<times> dom_heap) option" where
  "cloneNode this deep h = do {
     n \<leftarrow> acts h this;
     (c, h) \<leftarrow> Some (alloc_act (\<lambda>_. copied_act n) h);
     h \<leftarrow> (if deep then clone_kids c (FirstChild n) h else Some h);
     Some (c, h) }"

section \<open>Deleting\<close>

definition free_act :: "nat \<Rightarrow> dom_heap \<Rightarrow> dom_heap option" where
  "free_act a h = do { _ \<leftarrow> acts h a; Some (h\<lparr>acts := (acts h)(a := None)\<rparr>) }"

partial_function (option) free_attrs :: "nat option \<Rightarrow> dom_heap \<Rightarrow> dom_heap option" where
  "free_attrs attr h =
     (case attr of
        None \<Rightarrow> Some h
      | Some a \<Rightarrow> do { n \<leftarrow> acts h a; h \<leftarrow> free_act a h; free_attrs (NextSibling n) h })"

text \<open>The first leaf below \<open>na\<close> is taken out and deleted; \<open>this\<close> itself is not.\<close>

partial_function (option) deleteNodeTree :: "nat \<Rightarrow> nat \<Rightarrow> dom_heap \<Rightarrow> dom_heap option" where
  "deleteNodeTree this na h = do {
     n \<leftarrow> acts h na;
     (case FirstChild n of
        Some c \<Rightarrow> deleteNodeTree this c h
      | None \<Rightarrow> do {
          h \<leftarrow> set_opt (ParentNode n) (\<lambda>p. p\<lparr>FirstChild := NextSibling n, LastChild := None\<rparr>) h;
          h \<leftarrow> (if NA_NodeType n = ELEMENT_NODE
            then do { h \<leftarrow> free_attrs (FirstAttr n) h; set_act na (\<lambda>n. n\<lparr>FirstAttr := None, LastAttr := None\<rparr>) h }
            else Some h);
          if na \<noteq> this then free_act na h else Some h }) }"

partial_function (option) deleteNodeAct :: "nat \<Rightarrow> dom_heap \<Rightarrow> dom_heap option" where
  "deleteNodeAct this h = do {
     t \<leftarrow> acts h this;
     if FirstChild t = None then Some h
     else do { h \<leftarrow> deleteNodeTree this this h; deleteNodeAct this h } }"

end
