(* ===== verification/Dom_Tree.thy ===== *)
theory Dom_Tree imports Dom_Heap begin

text \<open>
  What the operations on nodes do to the tree.  \<open>dom_ok h K A\<close>: the heap holds trees in which the node \<open>a\<close>
  has the children \<open>K a\<close> and the attributes \<open>A a\<close>, as doubly linked lists.
\<close>

section \<open>Lists of siblings\<close>

text \<open>From the pointer \<open>p\<close> the nodes \<open>xs\<close> up to the pointer \<open>q\<close>; \<open>l\<close> is the last of them.\<close>

fun seg :: "(nat \<Rightarrow> NodeAct option) \<Rightarrow> nat \<Rightarrow> nat option \<Rightarrow> nat option \<Rightarrow> nat list \<Rightarrow> nat option \<Rightarrow> nat option \<Rightarrow> bool" where
  "seg M par prev p [] q l = (p = q \<and> l = prev)"
| "seg M par prev p (x # xs) q l =
     (p = Some x \<and> (case M x of None \<Rightarrow> False | Some n \<Rightarrow>
       ParentNode n = Some par \<and> PrevSibling n = prev \<and> seg M par (Some x) (NextSibling n) xs q l))"

definition links :: "NodeAct \<Rightarrow> nat option \<times> nat option \<times> nat option" where
  "links n = (ParentNode n, PrevSibling n, NextSibling n)"

lemma seg_cong: "\<forall>x\<in>set xs. map_option links (M' x) = map_option links (M x) \<Longrightarrow> seg M' par prev p xs q l = seg M par prev p xs q l"
  by (induction xs arbitrary: prev p) (auto simp: links_def split: option.splits)

lemma seg_upd: "x \<notin> set xs \<Longrightarrow> seg (M(x := v)) par prev p xs q l = seg M par prev p xs q l"
  by (rule seg_cong) auto

lemma seg_append:
  "seg M par prev p (xs @ ys) q l \<longleftrightarrow> (\<exists>p' l'. seg M par prev p xs p' l' \<and> seg M par l' p' ys q l)"
  by (induction xs arbitrary: prev p) (auto split: option.splits)

lemma seg_ends: "seg M par prev p xs q l \<Longrightarrow> xs \<noteq> [] \<Longrightarrow> p = Some (hd xs) \<and> l = Some (last xs)"
  by (induction xs arbitrary: prev p) (auto split: option.splits)

lemma seg_members: "seg M par prev p xs q l \<Longrightarrow> x \<in> set xs \<Longrightarrow> \<exists>n. M x = Some n \<and> ParentNode n = Some par"
  by (induction xs arbitrary: prev p) (auto split: option.splits)

lemma seg_last: "seg M par prev p (xs @ [x]) q l \<Longrightarrow> \<exists>n. M x = Some n \<and> NextSibling n = q"
  by (auto simp: seg_append split: option.splits)

text \<open>A new successor of the last, a new predecessor of the first.\<close>

lemma seg_end:
  "seg M par prev p (xs @ [x]) q l \<Longrightarrow> x \<notin> set xs \<Longrightarrow> M x = Some n \<Longrightarrow>
    seg (M(x \<mapsto> n\<lparr>NextSibling := q'\<rparr>)) par prev p (xs @ [x]) q' l"
  by (auto simp: seg_append seg_upd)

lemma seg_start:
  "seg M par prev p (x # xs) q l \<Longrightarrow> x \<notin> set xs \<Longrightarrow> M x = Some n \<Longrightarrow>
    seg (M(x \<mapsto> n\<lparr>PrevSibling := prev'\<rparr>)) par prev' p (x # xs) q l"
  by (simp add: seg_upd)

section \<open>The heap as trees\<close>

definition below :: "(nat \<Rightarrow> nat list) \<Rightarrow> (nat \<times> nat) set" where "below K = {(k, a). k \<in> set (K a)}"

definition is_element :: "dom_heap \<Rightarrow> nat \<Rightarrow> bool" where
  "is_element h a = (case acts h a of None \<Rightarrow> False | Some n \<Rightarrow> NA_NodeType n = ELEMENT_NODE)"

definition is_attribute :: "dom_heap \<Rightarrow> nat \<Rightarrow> bool" where
  "is_attribute h a = (case acts h a of None \<Rightarrow> False | Some n \<Rightarrow> NA_NodeType n = ATTRIBUTE_NODE)"

text \<open>The two lists of every node.\<close>

definition lists_ok :: "dom_heap \<Rightarrow> (nat \<Rightarrow> nat list) \<Rightarrow> (nat \<Rightarrow> nat list) \<Rightarrow> bool" where
  "lists_ok h K A = (\<forall>a. case acts h a of
       None \<Rightarrow> K a = [] \<and> A a = []
     | Some n \<Rightarrow> seg (acts h) a None (FirstChild n) (K a) None (LastChild n) \<and>
         seg (acts h) a None (FirstAttr n) (A a) None (LastAttr n))"

text \<open>What holds of the lists themselves: no node twice, none below itself, attributes only as attributes, and only elements among
  the children have any.\<close>

definition shape_ok :: "dom_heap \<Rightarrow> (nat \<Rightarrow> nat list) \<Rightarrow> (nat \<Rightarrow> nat list) \<Rightarrow> bool" where
  "shape_ok h K A =
     ((\<forall>a. distinct (K a) \<and> distinct (A a)) \<and> acyclic (below K) \<and>
      (\<forall>a. \<forall>k\<in>set (K a). \<not> is_attribute h k \<and> (A k \<noteq> [] \<longrightarrow> is_element h k)) \<and> (\<forall>a. \<forall>k\<in>set (A a). is_attribute h k \<and> K k = [] \<and> A k = []) \<and>
      (\<forall>a n p. acts h a = Some n \<longrightarrow> ParentNode n = Some p \<longrightarrow> a \<in> set (K p) \<union> set (A p)) \<and>
      (\<forall>a. acts h a \<noteq> None \<longrightarrow> a < next_id h))"

definition dom_ok :: "dom_heap \<Rightarrow> (nat \<Rightarrow> nat list) \<Rightarrow> (nat \<Rightarrow> nat list) \<Rightarrow> bool" where
  "dom_ok h K A = (lists_ok h K A \<and> shape_ok h K A)"

lemma lists_at:
  "lists_ok h K A \<Longrightarrow> (case acts h a of
       None \<Rightarrow> K a = [] \<and> A a = []
     | Some n \<Rightarrow> seg (acts h) a None (FirstChild n) (K a) None (LastChild n) \<and>
         seg (acts h) a None (FirstAttr n) (A a) None (LastAttr n))"
  unfolding lists_ok_def by blast

lemma kids_seg: "lists_ok h K A \<Longrightarrow> acts h a = Some n \<Longrightarrow> seg (acts h) a None (FirstChild n) (K a) None (LastChild n)"
  using lists_at [of h K A a] by simp

lemma attrs_seg: "lists_ok h K A \<Longrightarrow> acts h a = Some n \<Longrightarrow> seg (acts h) a None (FirstAttr n) (A a) None (LastAttr n)"
  using lists_at [of h K A a] by simp

lemma no_kids: "lists_ok h K A \<Longrightarrow> acts h a = None \<Longrightarrow> K a = [] \<and> A a = []"
  using lists_at [of h K A a] by simp

lemma parent_alive: "lists_ok h K A \<Longrightarrow> k \<in> set (K a) \<union> set (A a) \<Longrightarrow> \<exists>n. acts h a = Some n"
  using no_kids [of h K A a] by (cases "acts h a") auto

lemma kid_parent:
  assumes "lists_ok h K A" "k \<in> set (K a) \<union> set (A a)"
  shows "\<exists>n. acts h k = Some n \<and> ParentNode n = Some a"
proof -
  obtain n where n: "acts h a = Some n" using parent_alive [OF assms] by blast
  from assms(2) show ?thesis
    using seg_members [OF kids_seg [OF assms(1) n]] seg_members [OF attrs_seg [OF assms(1) n]] by blast
qed

lemma dom_lists: "dom_ok h K A \<Longrightarrow> lists_ok h K A" by (simp add: dom_ok_def)

lemma below_wf: "dom_ok h K A \<Longrightarrow> wf (below K)"
proof -
  assume d: "dom_ok h K A"
  note ok = dom_lists [OF d]
  have "below K \<subseteq> {..<next_id h} \<times> {..<next_id h}"
  proof
    fix x
    assume "x \<in> below K"
    then obtain k a where x: "x = (k, a)" "k \<in> set (K a)" by (auto simp: below_def)
    then have "acts h a \<noteq> None" "acts h k \<noteq> None" using parent_alive [OF ok, of k a] kid_parent [OF ok, of k a] by auto
    then show "x \<in> {..<next_id h} \<times> {..<next_id h}" using d x(1) by (auto simp: dom_ok_def shape_ok_def)
  qed
  then have "finite (below K)" by (rule finite_subset) simp
  moreover have "acyclic (below K)" using d by (simp add: dom_ok_def shape_ok_def)
  ultimately show ?thesis by (rule finite_acyclic_wf)
qed

section \<open>Searching\<close>

lemma in_list_members: "seg (acts h) par prev p xs None l \<Longrightarrow> in_list h p f = Some (f \<in> set xs)"
proof (induction xs arbitrary: prev p)
  case Nil
  then show ?case by (simp add: in_list.simps)
next
  case (Cons x xs)
  then obtain n where "p = Some x" "acts h x = Some n" "seg (acts h) par (Some x) (NextSibling n) xs None l"
    by (auto split: option.splits)
  then show ?case using Cons.IH by (subst in_list.simps) auto
qed

lemma findNode_child:
  assumes "lists_ok h K A" "acts h this = Some t" "f \<in> set (K this)"
  shows "findNode this (Some f) h = Some True"
  using in_list_members [OF kids_seg [OF assms(1,2)], of f] in_list_members [OF attrs_seg [OF assms(1,2)], of f] assms(2,3)
  by (simp add: findNode_def)

lemma findNode_none:
  assumes "lists_ok h K A" "acts h this = Some t" "f \<notin> set (K this) \<union> set (A this)"
  shows "findNode this (Some f) h = Some False"
  using in_list_members [OF kids_seg [OF assms(1,2)], of f] in_list_members [OF attrs_seg [OF assms(1,2)], of f] assms(2,3)
  by (simp add: findNode_def)

text \<open>A node without a parent is not found, and the static variable stays as it is.\<close>

lemma ref_loop_root:
  assumes ok: "lists_ok h K A" and wf: "wf (below K)" and f: "\<forall>a. f \<notin> set (K a) \<union> set (A a)"
  shows "seg (acts h) a prev p ks None l \<Longrightarrow> set ks \<subseteq> set (K a) \<Longrightarrow> acts h a \<noteq> None \<Longrightarrow> ref_loop h b a p (Some f) = Some b"
  using wf
proof (induction a arbitrary: prev p ks l b rule: wf_induct_rule)
  case (less a)
  show ?case using less.prems
  proof (induction ks arbitrary: prev p b)
    case Nil
    then show ?case by (simp add: ref_loop.simps)
  next
    case (Cons k ks)
    obtain n where n: "acts h k = Some n" "seg (acts h) a (Some k) (NextSibling n) ks None l"
      using Cons.prems(1) by (auto split: option.splits)
    have "(k, a) \<in> below K" using Cons.prems(2) by (simp add: below_def)
    from less.IH [OF this kids_seg [OF ok n(1)]] n(1) have "ref_loop h b k (FirstChild n) (Some f) = Some b" by simp
    moreover have "findNode a (Some f) h = Some False" using findNode_none [OF ok] Cons.prems(3) f by blast
    moreover have "ref_loop h b a (NextSibling n) (Some f) = Some b" using Cons.IH [OF n(2)] Cons.prems(2,3) by simp
    ultimately show ?case using Cons.prems(1) n(1) by (simp add: ref_loop.simps [of h b a "Some k"])
  qed
qed

lemma findNodeFromRef_root:
  assumes "dom_ok h K A" "\<forall>a. f \<notin> set (K a) \<union> set (A a)" "acts h from \<noteq> None"
  shows "findNodeFromRef from (Some f) h = Some (Found h, h)"
proof -
  obtain n where n: "acts h from = Some n" using assms(3) by auto
  have "ref_loop h (Found h) from (FirstChild n) (Some f) = Some (Found h)"
    using ref_loop_root [OF dom_lists [OF assms(1)] below_wf [OF assms(1)] assms(2) kids_seg [OF dom_lists [OF assms(1)] n]] n by simp
  then show ?thesis using n by (simp add: findNodeFromRef_def)
qed


section \<open>Appending\<close>

definition owned :: "nat set \<Rightarrow> nat \<Rightarrow> dom_heap \<Rightarrow> dom_heap" where
  "owned D ow h = h\<lparr>acts := (\<lambda>a. if a \<in> D then map_option (OwnerNode_update (\<lambda>_. ow)) (acts h a) else acts h a)\<rparr>"

lemma owned_set: "acts h k \<noteq> None \<Longrightarrow> set_act k (OwnerNode_update (\<lambda>_. ow)) (owned D ow h) = Some (owned (insert k D) ow h)"
  by (auto simp: set_act_def owned_def fun_eq_iff)

lemma owned_at: "acts h k = Some n \<Longrightarrow> \<exists>m. acts (owned D ow h) k = Some m \<and> FirstChild m = FirstChild n \<and> NextSibling m = NextSibling n"
  by (auto simp: owned_def)

lemma owner_loop_owned:
  assumes ok: "lists_ok h K A" and wf: "wf (below K)"
  shows "seg (acts h) a prev p ks None l \<Longrightarrow> set ks \<subseteq> set (K a) \<Longrightarrow> \<exists>E. owner_loop p ow (owned D ow h) = Some (owned E ow h)"
  using wf
proof (induction a arbitrary: prev p ks l D rule: wf_induct_rule)
  case (less a)
  show ?case using less.prems
  proof (induction ks arbitrary: prev p D)
    case Nil
    then show ?case by (auto simp: owner_loop.simps)
  next
    case (Cons k ks)
    obtain n where n: "acts h k = Some n" "seg (acts h) a (Some k) (NextSibling n) ks None l"
      using Cons.prems(1) by (auto split: option.splits)
    obtain m where m: "acts (owned D ow h) k = Some m" "FirstChild m = FirstChild n" using owned_at [OF n(1)] by blast
    have "(k, a) \<in> below K" using Cons.prems(2) by (simp add: below_def)
    then obtain E where E: "owner_loop (FirstChild n) ow (owned D ow h) = Some (owned E ow h)"
      using less.IH [OF _ kids_seg [OF ok n(1)], of D] by blast
    obtain m' where m': "acts (owned (insert k E) ow h) k = Some m'" "NextSibling m' = NextSibling n" using owned_at [OF n(1)] by blast
    obtain F where "owner_loop (NextSibling n) ow (owned (insert k E) ow h) = Some (owned F ow h)"
      using Cons.IH [OF n(2)] Cons.prems(2) by auto
    then show ?case using Cons.prems(1) m E m' n(1) by (subst owner_loop.simps) (auto simp: owned_set)
  qed
qed

lemma owned_empty: "owned {} ow h = h" by (simp add: owned_def)

lemma changeOwnerNode_owned:
  assumes "lists_ok h K A" "wf (below K)" "acts h a \<noteq> None"
  shows "\<exists>D. changeOwnerNode a ow h = Some (owned D ow h)"
proof -
  obtain n where n: "acts h a = Some n" using assms(3) by blast
  obtain D where "owner_loop (FirstChild n) ow (owned {} ow h) = Some (owned D ow h)"
    using owner_loop_owned [OF assms(1,2) kids_seg [OF assms(1) n]] by blast
  then show ?thesis using n by (auto simp: changeOwnerNode_def owned_empty)
qed

text \<open>Changes that leave the lists alone.\<close>

definition core :: "NodeAct \<Rightarrow> NODE_TYPE \<times> nat option \<times> nat option \<times> nat option \<times> nat option" where
  "core n = (NA_NodeType n, FirstChild n, LastChild n, FirstAttr n, LastAttr n)"

lemma lists_ok_cong:
  assumes "lists_ok h K A" "\<And>a. map_option core (acts h' a) = map_option core (acts h a)"
    and "\<And>a x. x \<in> set (K a) \<union> set (A a) \<Longrightarrow> map_option links (acts h' x) = map_option links (acts h x)"
  shows "lists_ok h' K A"
  unfolding lists_ok_def
proof
  fix a
  have "seg (acts h') a None p (K a) None l = seg (acts h) a None p (K a) None l"
    "seg (acts h') a None p (A a) None l = seg (acts h) a None p (A a) None l" for p l
    using assms(3) [of _ a] by (auto intro!: seg_cong)
  then show "case acts h' a of None \<Rightarrow> K a = [] \<and> A a = []
     | Some n \<Rightarrow> seg (acts h') a None (FirstChild n) (K a) None (LastChild n) \<and>
         seg (acts h') a None (FirstAttr n) (A a) None (LastAttr n)"
    using lists_at [OF assms(1), of a] assms(2) [of a] by (auto simp: core_def split: option.splits)
qed

text \<open>Changes to the lists of one node.\<close>

lemma lists_ok_at:
  assumes "lists_ok h K A" "\<And>a. a \<noteq> t \<Longrightarrow> map_option core (acts h' a) = map_option core (acts h a) \<and> K' a = K a \<and> A' a = A a"
    and "\<And>a x. a \<noteq> t \<Longrightarrow> x \<in> set (K a) \<union> set (A a) \<Longrightarrow> map_option links (acts h' x) = map_option links (acts h x)"
    and "acts h' t = Some n" "seg (acts h') t None (FirstChild n) (K' t) None (LastChild n)"
      "seg (acts h') t None (FirstAttr n) (A' t) None (LastAttr n)"
  shows "lists_ok h' K' A'"
  unfolding lists_ok_def
proof
  fix a
  show "case acts h' a of None \<Rightarrow> K' a = [] \<and> A' a = []
     | Some n \<Rightarrow> seg (acts h') a None (FirstChild n) (K' a) None (LastChild n) \<and>
         seg (acts h') a None (FirstAttr n) (A' a) None (LastAttr n)"
  proof (cases "a = t")
    case True
    then show ?thesis using assms(4-6) by simp
  next
    case False
    have "seg (acts h') a None p (K a) None l = seg (acts h) a None p (K a) None l"
      "seg (acts h') a None p (A a) None l = seg (acts h) a None p (A a) None l" for p l
      using assms(3) [OF False] by (auto intro!: seg_cong)
    then show ?thesis using lists_at [OF assms(1), of a] assms(2) [OF False] by (auto simp: core_def split: option.splits)
  qed
qed

lemma one_parent: "lists_ok h K A \<Longrightarrow> x \<in> set (K a) \<union> set (A a) \<Longrightarrow> x \<in> set (K b) \<union> set (A b) \<Longrightarrow> a = b"
  using kid_parent [of h K A x a] kid_parent [of h K A x b] by fastforce

definition label :: "NodeAct \<Rightarrow> string option \<times> string option \<times> NODE_TYPE \<times> nat option \<times> nat \<times> int" where
  "label n = (NA_NodeName n, NA_NodeValue n, NA_NodeType n, ParentNode n, OwnerNode n, RefCount n)"

definition same_labels :: "dom_heap \<Rightarrow> dom_heap \<Rightarrow> bool" where
  "same_labels h h' = (next_id h' = next_id h \<and> Found h' = Found h \<and> (\<forall>a. map_option label (acts h' a) = map_option label (acts h a)))"

text \<open>A list with a new last node.\<close>

lemma seg_put_last:
  assumes "seg M this None p (us @ [l]) None q" "distinct (us @ [l])" "this \<notin> set (us @ [l])" "new \<notin> set (us @ [l])" "new \<noteq> this"
    and "M l = Some k" "ParentNode n = Some this" "NextSibling n = None"
  shows "seg (M(l \<mapsto> k\<lparr>NextSibling := Some new\<rparr>, new \<mapsto> n\<lparr>PrevSibling := Some l\<rparr>, this \<mapsto> t)) this None p ((us @ [l]) @ [new]) None (Some new)"
    (is "seg ?M _ _ _ _ _ _")
proof -
  have q: "q = Some l" using seg_ends [OF assms(1)] by simp
  have "seg (M(l \<mapsto> k\<lparr>NextSibling := Some new\<rparr>)) this None p (us @ [l]) (Some new) q"
    by (rule seg_end [OF assms(1) _ assms(6)]) (use assms(2) in simp)
  moreover have "\<forall>x\<in>set (us @ [l]). map_option links (?M x) = map_option links ((M(l \<mapsto> k\<lparr>NextSibling := Some new\<rparr>)) x)"
    using assms(2-5) by auto
  ultimately have "seg ?M this None p (us @ [l]) (Some new) q" using seg_cong by blast
  then show ?thesis
    unfolding seg_append [of _ _ _ _ "us @ [l]"] using assms(5,7,8) q by (intro exI conjI) (assumption, simp)
qed

text \<open>A node that is in no list is put behind the children.\<close>

lemma link_child:
  assumes ok: "lists_ok h K A" and n: "acts h new = Some n" "ParentNode n = Some this" "PrevSibling n = None" "NextSibling n = None"
      "NA_NodeType n \<noteq> ATTRIBUTE_NODE"
    and new: "\<And>a. new \<notin> set (K a) \<union> set (A a)" "new \<noteq> this"
    and t: "acts h this = Some t" "distinct (K this)" "set (K this) \<inter> set (A this) = {}" "this \<notin> set (K this)"
  shows "\<exists>h'. link_last this new h = Some h' \<and> lists_ok h' (K(this := K this @ [new])) A \<and> same_labels h h'"
proof (cases "K this" rule: rev_cases)
  case Nil
  then have f: "FirstChild t = None" using kids_seg [OF ok t(1)] by simp
  let ?t = "t\<lparr>FirstChild := Some new, LastChild := Some new\<rparr>" and ?h = "h\<lparr>acts := (acts h)(this \<mapsto> t\<lparr>FirstChild := Some new, LastChild := Some new\<rparr>)\<rparr>"
  have "lists_ok ?h (K(this := K this @ [new])) A"
  proof (rule lists_ok_at [OF ok, where t = this and n = ?t])
    have "seg (acts ?h) this None (FirstAttr t) (A this) None (LastAttr t) = seg (acts h) this None (FirstAttr t) (A this) None (LastAttr t)"
      by (rule seg_cong) (use t(1) in \<open>auto simp: links_def\<close>)
    then show "seg (acts ?h) this None (FirstAttr ?t) (A this) None (LastAttr ?t)" using attrs_seg [OF ok t(1)] by simp
  qed (use Nil n new(2) t(1) in \<open>auto simp: links_def\<close>)
  then show ?thesis using n(1,5) t(1) f by (simp add: link_last_def set_act_def same_labels_def label_def)
next
  case (snoc us l)
  have seg: "seg (acts h) this None (FirstChild t) (us @ [l]) None (LastChild t)" using kids_seg [OF ok t(1)] snoc by simp
  then have f: "FirstChild t \<noteq> None" "LastChild t = Some l" using seg_ends [OF seg] by simp_all
  obtain k where k: "acts h l = Some k" using seg_last [OF seg] by blast
  have ne: "l \<noteq> new" "l \<noteq> this" "l \<notin> set us" "this \<notin> set us" "new \<notin> set us" using snoc new(1) [of this] t(2,4) by auto
  let ?k = "k\<lparr>NextSibling := Some new\<rparr>" and ?n = "n\<lparr>PrevSibling := Some l\<rparr>" and ?t = "t\<lparr>LastChild := Some new\<rparr>"
  let ?M = "(acts h)(l \<mapsto> ?k, new \<mapsto> ?n, this \<mapsto> ?t)"
  let ?h = "h\<lparr>acts := ?M\<rparr>"
  have others: "map_option links (?M x) = map_option links (acts h x)" if "x \<noteq> l" "x \<noteq> new" for x
    using that t(1) by (simp add: links_def)
  have "lists_ok ?h (K(this := K this @ [new])) A"
  proof (rule lists_ok_at [OF ok, where t = this and n = ?t])
    fix a x
    assume a: "a \<noteq> this" "x \<in> set (K a) \<union> set (A a)"
    have "x \<noteq> l" using one_parent [OF ok, of l a this] a snoc by auto
    moreover have "x \<noteq> new" using new(1) [of a] a(2) by auto
    ultimately have "map_option links (?M x) = map_option links (acts h x)" by (rule others)
    then show "map_option links (acts ?h x) = map_option links (acts h x)" by simp
  next
    have "seg ?M this None (FirstChild t) ((us @ [l]) @ [new]) None (Some new)"
      by (rule seg_put_last [OF seg]) (use t(2,4) snoc ne new k n in auto)
    then show "seg (acts ?h) this None (FirstChild ?t) ((K(this := K this @ [new])) this) None (LastChild ?t)" using snoc by simp
  next
    have "x \<noteq> l \<and> x \<noteq> new" if "x \<in> set (A this)" for x using that snoc t(3) new(1) by auto
    then have "seg ?M this None (FirstAttr t) (A this) None (LastAttr t) = seg (acts h) this None (FirstAttr t) (A this) None (LastAttr t)"
      using others by (intro seg_cong) auto
    then show "seg (acts ?h) this None (FirstAttr ?t) (A this) None (LastAttr ?t)" using attrs_seg [OF ok t(1)] by simp
  qed (use ne k n(1) t(1) in \<open>auto simp: core_def\<close>)
  moreover have "link_last this new h = Some ?h"
    using n t(1) f k ne new(2) by (auto simp: link_last_def set_act_def)
  ultimately show ?thesis using n(1) t(1) k by (auto simp: same_labels_def label_def)
qed

text \<open>A node that is in no list is put behind the attributes.\<close>

lemma link_attribute:
  assumes ok: "lists_ok h K A" and n: "acts h new = Some n" "ParentNode n = Some this" "PrevSibling n = None" "NextSibling n = None"
      "NA_NodeType n = ATTRIBUTE_NODE"
    and new: "\<And>a. new \<notin> set (K a) \<union> set (A a)" "new \<noteq> this"
    and t: "acts h this = Some t" "distinct (A this)" "set (K this) \<inter> set (A this) = {}" "this \<notin> set (A this)"
  shows "\<exists>h'. link_last this new h = Some h' \<and> lists_ok h' K (A(this := A this @ [new])) \<and> same_labels h h'"
proof (cases "A this" rule: rev_cases)
  case Nil
  then have f: "FirstAttr t = None" using attrs_seg [OF ok t(1)] by simp
  let ?t = "t\<lparr>FirstAttr := Some new, LastAttr := Some new\<rparr>" and ?h = "h\<lparr>acts := (acts h)(this \<mapsto> t\<lparr>FirstAttr := Some new, LastAttr := Some new\<rparr>)\<rparr>"
  have "lists_ok ?h K (A(this := A this @ [new]))"
  proof (rule lists_ok_at [OF ok, where t = this and n = ?t])
    have "seg (acts ?h) this None (FirstChild t) (K this) None (LastChild t) = seg (acts h) this None (FirstChild t) (K this) None (LastChild t)"
      by (rule seg_cong) (use t(1) in \<open>auto simp: links_def\<close>)
    then show "seg (acts ?h) this None (FirstChild ?t) (K this) None (LastChild ?t)" using kids_seg [OF ok t(1)] by simp
  qed (use Nil n new(2) t(1) in \<open>auto simp: links_def\<close>)
  then show ?thesis using n(1,5) t(1) f by (simp add: link_last_def set_act_def same_labels_def label_def)
next
  case (snoc us l)
  have seg: "seg (acts h) this None (FirstAttr t) (us @ [l]) None (LastAttr t)" using attrs_seg [OF ok t(1)] snoc by simp
  then have f: "FirstAttr t \<noteq> None" "LastAttr t = Some l" using seg_ends [OF seg] by simp_all
  obtain k where k: "acts h l = Some k" using seg_last [OF seg] by blast
  have ne: "l \<noteq> new" "l \<noteq> this" "l \<notin> set us" "this \<notin> set us" "new \<notin> set us" using snoc new(1) [of this] t(2,4) by auto
  let ?k = "k\<lparr>NextSibling := Some new\<rparr>" and ?n = "n\<lparr>PrevSibling := Some l\<rparr>" and ?t = "t\<lparr>LastAttr := Some new\<rparr>"
  let ?M = "(acts h)(l \<mapsto> ?k, new \<mapsto> ?n, this \<mapsto> ?t)"
  let ?h = "h\<lparr>acts := ?M\<rparr>"
  have others: "map_option links (?M x) = map_option links (acts h x)" if "x \<noteq> l" "x \<noteq> new" for x
    using that t(1) by (simp add: links_def)
  have "lists_ok ?h K (A(this := A this @ [new]))"
  proof (rule lists_ok_at [OF ok, where t = this and n = ?t])
    fix a x
    assume a: "a \<noteq> this" "x \<in> set (K a) \<union> set (A a)"
    have "x \<noteq> l" using one_parent [OF ok, of l a this] a snoc by auto
    moreover have "x \<noteq> new" using new(1) [of a] a(2) by auto
    ultimately have "map_option links (?M x) = map_option links (acts h x)" by (rule others)
    then show "map_option links (acts ?h x) = map_option links (acts h x)" by simp
  next
    have "seg ?M this None (FirstAttr t) ((us @ [l]) @ [new]) None (Some new)"
      by (rule seg_put_last [OF seg]) (use t(2,4) snoc ne new k n in auto)
    then show "seg (acts ?h) this None (FirstAttr ?t) ((A(this := A this @ [new])) this) None (LastAttr ?t)" using snoc by simp
  next
    have "x \<noteq> l \<and> x \<noteq> new" if "x \<in> set (K this)" for x using that snoc t(3) new(1) by auto
    then have "seg ?M this None (FirstChild t) (K this) None (LastChild t) = seg (acts h) this None (FirstChild t) (K this) None (LastChild t)"
      using others by (intro seg_cong) auto
    then show "seg (acts ?h) this None (FirstChild ?t) (K this) None (LastChild ?t)" using kids_seg [OF ok t(1)] by simp
  qed (use ne k n(1) t(1) in \<open>auto simp: core_def\<close>)
  moreover have "link_last this new h = Some ?h"
    using n t(1) f k ne new(2) by (auto simp: link_last_def set_act_def)
  ultimately show ?thesis using n(1) t(1) k by (auto simp: same_labels_def label_def)
qed

definition info :: "NodeAct \<Rightarrow> string option \<times> string option \<times> NODE_TYPE" where
  "info n = (NA_NodeName n, NA_NodeValue n, NA_NodeType n)"

text \<open>What appending keeps: all nodes with their names, values and types, and the counts of the others.\<close>

definition kept :: "nat \<Rightarrow> nat \<Rightarrow> dom_heap \<Rightarrow> dom_heap \<Rightarrow> bool" where
  "kept new ow h h' = (next_id h' = next_id h \<and> Found h' = Found h \<and>
     (\<forall>a. map_option info (acts h' a) = map_option info (acts h a)) \<and>
     (\<forall>a. map_option RefCount (acts h' a) = map_option (\<lambda>n. if a = new then RefCount n + 1 else RefCount n) (acts h a)) \<and>
     map_option OwnerNode (acts h' new) = Some ow \<and>
     (\<forall>a n. acts h' a = Some n \<longrightarrow> OwnerNode n = ow \<or> map_option OwnerNode (acts h a) = Some (OwnerNode n)))"

lemma kept_labels:
  assumes "kept new ow h h3" "same_labels h3 h'"
  shows "kept new ow h h'"
proof -
  have lab: "map_option label (acts h' a) = map_option label (acts h3 a)" for a using assms(2) by (simp add: same_labels_def)
  have eq: "map_option info (acts h' a) = map_option info (acts h3 a)" "map_option RefCount (acts h' a) = map_option RefCount (acts h3 a)"
    "map_option OwnerNode (acts h' a) = map_option OwnerNode (acts h3 a)" for a
    using lab [of a] by (cases "acts h' a"; cases "acts h3 a"; simp add: info_def label_def)+
  have "\<exists>m. acts h3 a = Some m \<and> OwnerNode m = OwnerNode n" if "acts h' a = Some n" for a n
    using eq(3) [of a] that by (cases "acts h3 a") auto
  then have "OwnerNode n = ow \<or> map_option OwnerNode (acts h a) = Some (OwnerNode n)" if "acts h' a = Some n" for a n
    using assms(1) that unfolding kept_def by metis
  then show ?thesis using assms eq by (simp add: kept_def same_labels_def)
qed

text \<open>The node before it is linked: it knows its parent, and its part of the tree its owner.\<close>

lemma adopted:
  assumes ok: "dom_ok h K A" and t: "acts h this = Some t" and n: "acts h new = Some n" "ParentNode n = None" "new \<noteq> this"
  shows "\<exists>D. changeOwnerNode new ow (h\<lparr>acts := (acts h)(new \<mapsto> n\<lparr>ParentNode := Some this, OwnerNode := ow\<rparr>)\<rparr>) =
      Some (owned D ow (h\<lparr>acts := (acts h)(new \<mapsto> n\<lparr>ParentNode := Some this, OwnerNode := ow\<rparr>)\<rparr>))"
proof -
  have new: "new \<notin> set (K a) \<union> set (A a)" for a using kid_parent [OF dom_lists [OF ok], of new a] n by auto
  have "lists_ok (h\<lparr>acts := (acts h)(new \<mapsto> n\<lparr>ParentNode := Some this, OwnerNode := ow\<rparr>)\<rparr>) K A" (is "lists_ok ?h K A")
  proof (rule lists_ok_cong [OF dom_lists [OF ok]])
    show "map_option core (acts ?h a) = map_option core (acts h a)" for a using n(1) by (simp add: core_def)
    show "map_option links (acts ?h x) = map_option links (acts h x)" if "x \<in> set (K a) \<union> set (A a)" for a x
      using that new [of a] by (cases "x = new") auto
  qed
  from changeOwnerNode_owned [OF this below_wf [OF ok]] show ?thesis by simp
qed

lemma label_at: "map_option label x = map_option label y \<Longrightarrow> x = Some a \<Longrightarrow> \<exists>b. y = Some b \<and> ParentNode b = ParentNode a"
  by (cases y) (auto simp: label_def)

text \<open>The conditions on the lists when a node is added to one.\<close>

lemma shape_added:
  assumes sh: "shape_ok h K A" and new: "\<And>a. new \<notin> set (K a) \<union> set (A a)" and apart: "(this, new) \<notin> (below K)\<^sup>*"
    and n: "acts h new = Some n"
    and kind: "\<not> is_attribute h this"
      "NA_NodeType n = ATTRIBUTE_NODE \<Longrightarrow> K new = [] \<and> A new = [] \<and> (is_element h this \<or> (\<forall>a. this \<notin> set (K a)))"
      "A new \<noteq> [] \<Longrightarrow> is_element h new"
    and types: "\<And>a. is_attribute h' a = is_attribute h a" "\<And>a. is_element h' a = is_element h a" and ids: "next_id h' = next_id h"
    and parents: "\<And>a m. acts h' a = Some m \<Longrightarrow>
      \<exists>m'. acts h a = Some m' \<and> ParentNode m = (if a = new then Some this else ParentNode m')"
  shows "shape_ok h' (if NA_NodeType n = ATTRIBUTE_NODE then K else K(this := K this @ [new]))
    (if NA_NodeType n = ATTRIBUTE_NODE then A(this := A this @ [new]) else A)"
proof -
  have att: "is_attribute h new = (NA_NodeType n = ATTRIBUTE_NODE)" using n by (simp add: is_attribute_def)
  have tA: "this \<notin> set (A a)" for a using sh kind(1) by (auto simp: shape_ok_def)
  have "below (K(this := K this @ [new])) = insert (new, this) (below K)" by (auto simp: below_def split: if_splits)
  then have ac: "acyclic (below (K(this := K this @ [new])))" using sh apart by (simp add: shape_ok_def acyclic_insert)
  have old: "acts h a = Some m \<Longrightarrow> ParentNode m = Some p \<Longrightarrow> a \<in> set (K p) \<union> set (A p)" for a m p
    using sh by (simp add: shape_ok_def)
  have par: "a \<in> set ((if NA_NodeType n = ATTRIBUTE_NODE then K else K(this := K this @ [new])) p) \<union>
      set ((if NA_NodeType n = ATTRIBUTE_NODE then A(this := A this @ [new]) else A) p)"
    if am: "acts h' a = Some m" "ParentNode m = Some p" for a m p
  proof -
    obtain m' where m': "acts h a = Some m'" "ParentNode m = (if a = new then Some this else ParentNode m')"
      using parents [OF am(1)] by blast
    show ?thesis
    proof (cases "a = new")
      case False
      then have "a \<in> set (K p) \<union> set (A p)" using old [OF m'(1)] m'(2) am(2) by simp
      then show ?thesis by auto
    qed (use m'(2) am(2) in simp)
  qed
  have lt: "a < next_id h'" if "acts h' a = Some m" for a m using parents [OF that] sh ids by (auto simp: shape_ok_def)
  show ?thesis unfolding shape_ok_def
    by (intro conjI allI impI)
      (use sh new att types kind tA ac par lt in \<open>auto simp: shape_ok_def split: if_splits\<close>)
qed

text \<open>
  Appending a node without a parent, which does not contain the node it is appended to: the node is
  the last child, or attribute, and nothing else changes.
\<close>

lemma append_node:
  assumes ok: "dom_ok h K A" and found: "\<not> Found h" and t: "acts h this = Some t" "acts h (OwnerNode t) \<noteq> None"
    and n: "acts h new = Some n" "ParentNode n = None" and apart: "(this, new) \<notin> (below K)\<^sup>*"
    and kind: "NA_NodeType t \<noteq> ATTRIBUTE_NODE"
      "NA_NodeType n = ATTRIBUTE_NODE \<longrightarrow> K new = [] \<and> A new = [] \<and> (NA_NodeType t = ELEMENT_NODE \<or> ParentNode t = None)"
      "A new \<noteq> [] \<longrightarrow> NA_NodeType n = ELEMENT_NODE"
  shows "\<exists>h'. appendChild this (Some new) h = Some (None, h') \<and> kept new (OwnerNode t) h h' \<and>
    (if NA_NodeType n = ATTRIBUTE_NODE then dom_ok h' K (A(this := A this @ [new])) else dom_ok h' (K(this := K this @ [new])) A)"
proof -
  let ?ow = "OwnerNode t" and ?n = "n\<lparr>ParentNode := Some this, OwnerNode := OwnerNode t\<rparr>"
  let ?h1 = "h\<lparr>acts := (acts h)(new \<mapsto> ?n)\<rparr>"
  note lok = dom_lists [OF ok]
  have ne: "new \<noteq> this" using apart by auto
  have new: "new \<notin> set (K a) \<union> set (A a)" for a using kid_parent [OF lok, of new a] n by auto
  obtain D where D: "changeOwnerNode new ?ow ?h1 = Some (owned D ?ow ?h1)" using adopted [OF ok t(1) n ne] by blast
  let ?h2 = "owned D ?ow ?h1"
  obtain n2 where n2: "acts ?h2 new = Some n2" "n2 = ?n" by (cases "new \<in> D") (auto simp: owned_def)
  let ?n3 = "?n\<lparr>NextSibling := None, PrevSibling := None, RefCount := RefCount n + 1\<rparr>"
  obtain h3 where h3: "h3 = ?h2\<lparr>acts := (acts ?h2)(new \<mapsto> ?n3)\<rparr>" by simp
  have a3: "acts h3 a = (if a = new then Some ?n3 else if a \<in> D then map_option (OwnerNode_update (\<lambda>_. ?ow)) (acts h a) else acts h a)" for a
    unfolding h3 by (simp add: owned_def)
  obtain t3 where t3: "acts h3 this = Some t3" "NA_NodeType t3 = NA_NodeType t"
    using t(1) ne a3 [of this] by (cases "this \<in> D") auto
  have ok3: "lists_ok h3 K A"
  proof (rule lists_ok_cong [OF lok])
    show "map_option core (acts h3 a) = map_option core (acts h a)" for a
      unfolding a3 using n(1) by (cases "acts h a") (auto simp: core_def)
    show "map_option links (acts h3 x) = map_option links (acts h x)" if "x \<in> set (K a) \<union> set (A a)" for a x
      unfolding a3 using that new [of a] by (cases "acts h x") (auto simp: links_def)
  qed
  have sh: "\<forall>a. distinct (K a) \<and> distinct (A a)" "acyclic (below K)" "\<forall>a. \<forall>k\<in>set (K a). \<not> is_attribute h k \<and> (A k \<noteq> [] \<longrightarrow> is_element h k)"
    "\<forall>a. \<forall>k\<in>set (A a). is_attribute h k \<and> K k = [] \<and> A k = []"
    "\<forall>a n p. acts h a = Some n \<longrightarrow> ParentNode n = Some p \<longrightarrow> a \<in> set (K p) \<union> set (A p)" "\<forall>a. acts h a \<noteq> None \<longrightarrow> a < next_id h"
    using ok by (simp_all add: dom_ok_def shape_ok_def)
  have dis: "set (K this) \<inter> set (A this) = {}" using sh(3,4) by blast
  have th: "this \<notin> set (K this)" using sh(2) by (auto simp: acyclic_def below_def)
  have na: "\<not> is_attribute h this" using t(1) kind(1) by (simp add: is_attribute_def)
  then have th': "this \<notin> set (A this)" using sh(4) by blast
  have pre: "acts h3 new = Some ?n3" "ParentNode ?n3 = Some this" "PrevSibling ?n3 = None" "NextSibling ?n3 = None"
    using a3 [of new] by simp_all
  let ?att = "NA_NodeType n = ATTRIBUTE_NODE"
  let ?K = "if ?att then K else K(this := K this @ [new])" and ?A = "if ?att then A(this := A this @ [new]) else A"
  obtain h' where h': "link_last this new h3 = Some h'" "same_labels h3 h'" "lists_ok h' ?K ?A"
  proof (cases ?att)
    case True
    then have "NA_NodeType ?n3 = ATTRIBUTE_NODE" by simp
    from link_attribute [OF ok3 pre this new ne t3(1) _ dis th'] sh(1) True that show ?thesis by auto
  next
    case False
    then have "NA_NodeType ?n3 \<noteq> ATTRIBUTE_NODE" by simp
    from link_child [OF ok3 pre this new ne t3(1) _ dis th] sh(1) False that show ?thesis by auto
  qed
  have lab: "map_option label (acts h' a) = map_option label (acts h3 a)" for a using h'(2) by (simp add: same_labels_def)
  have types: "is_attribute h' a = is_attribute h a" "is_element h' a = is_element h a" for a
    using lab [of a] a3 [of a] n(1)
    by (cases "acts h a"; cases "acts h' a"; auto simp: is_attribute_def is_element_def label_def split: if_splits)+
  have "shape_ok h' ?K ?A"
  proof (rule shape_added [OF _ new apart n(1) na _ _ types])
    show "shape_ok h K A" using ok by (simp add: dom_ok_def)
    show "next_id h' = next_id h" using h'(2) by (simp add: same_labels_def h3 owned_def)
    show "K new = [] \<and> A new = [] \<and> (is_element h this \<or> (\<forall>a. this \<notin> set (K a)))" if ?att
    proof -
      have "this \<notin> set (K a)" if "ParentNode t = None" for a using kid_parent [OF lok, of this a] t(1) that by auto
      then show ?thesis using that kind(2) t(1) by (auto simp: is_element_def)
    qed
    show "is_element h new" if "A new \<noteq> []" using that kind(3) n(1) by (simp add: is_element_def)
    fix a m
    assume m: "acts h' a = Some m"
    obtain b where b: "acts h3 a = Some b" "ParentNode b = ParentNode m" using label_at [OF lab m] by blast
    then show "\<exists>m'. acts h a = Some m' \<and> ParentNode m = (if a = new then Some this else ParentNode m')"
      using a3 [of a] n(1) by (auto split: if_splits)
  qed
  then have dom: "dom_ok h' ?K ?A" using h'(3) by (simp add: dom_ok_def)
  have "appendChild this (Some new) h = Some (None, h')"
    using findNodeFromRef_root [OF ok _ t(2)] found t(1) n(1) ne D n2 h3 h'(1) new
    by (simp add: appendChild_def set_act_def)
  moreover have "kept new ?ow h h3" unfolding kept_def
  proof (intro conjI allI impI)
    show "map_option info (acts h3 a) = map_option info (acts h a)" for a
      using a3 [of a] n(1) by (cases "acts h a") (auto simp: info_def)
    show "map_option RefCount (acts h3 a) = map_option (\<lambda>n. if a = new then RefCount n + 1 else RefCount n) (acts h a)" for a
      using a3 [of a] n(1) by (cases "acts h a") auto
    show "OwnerNode m = ?ow \<or> map_option OwnerNode (acts h a) = Some (OwnerNode m)" if "acts h3 a = Some m" for a m
      using that a3 [of a] by (auto split: if_splits)
    show "map_option OwnerNode (acts h3 new) = Some ?ow" using a3 [of new] by simp
  qed (simp_all add: h3 owned_def)
  then have "kept new ?ow h h'" using h'(2) by (rule kept_labels)
  ultimately show ?thesis using dom by auto
qed

section \<open>New nodes\<close>

lemma new_node:
  assumes ok: "dom_ok h K A" and new: "new_NodeAct nt name val h = (a, h')"
  shows "dom_ok h' K A \<and> acts h a = None \<and> K a = [] \<and> A a = [] \<and> a = next_id h \<and> next_id h' = Suc a \<and> Found h' = Found h \<and>
    acts h' = (acts h)(a \<mapsto> \<lparr>NA_NodeName = name, NA_NodeValue = val, NA_NodeType = nt,
     ParentNode = None, FirstChild = None, LastChild = None, OwnerNode = a, NextSibling = None, PrevSibling = None,
     FirstAttr = None, LastAttr = None, RefCount = 0\<rparr>)"
proof -
  note lok = dom_lists [OF ok]
  have a: "a = next_id h" "next_id h' = Suc a" "Found h' = Found h" and h': "acts h' = (acts h)(a \<mapsto> \<lparr>NA_NodeName = name, NA_NodeValue = val, NA_NodeType = nt,
     ParentNode = None, FirstChild = None, LastChild = None, OwnerNode = a, NextSibling = None, PrevSibling = None,
     FirstAttr = None, LastAttr = None, RefCount = 0\<rparr>)" (is "_ = (acts h)(a \<mapsto> ?n)")
    using new by (auto simp: new_NodeAct_def alloc_act_def)
  have fresh: "acts h a = None" using ok a(1) by (metis dom_ok_def shape_ok_def less_irrefl)
  then have none: "K a = []" "A a = []" using no_kids [OF lok] by blast+
  have alive: "x \<noteq> a" if "x \<in> set (K b) \<union> set (A b)" for x b using kid_parent [OF lok that] fresh by auto
  have "lists_ok h' K A"
  proof (rule lists_ok_at [OF lok, where t = a and n = ?n])
    show "acts h' a = Some ?n" by (simp add: h')
    fix x b
    assume "x \<in> set (K b) \<union> set (A b)"
    then show "map_option links (acts h' x) = map_option links (acts h x)" using alive by (simp add: h')
  qed (simp_all add: h' none)
  moreover have "shape_ok h' K A"
  proof -
    have "is_attribute h' x = is_attribute h x" "is_element h' x = is_element h x" if "x \<noteq> a" for x
      using that by (simp_all add: is_attribute_def is_element_def h')
    moreover have "x < next_id h' " if "acts h' x \<noteq> None" for x
      using that a ok by (auto simp: h' dom_ok_def shape_ok_def less_Suc_eq split: if_splits)
    moreover have "x \<in> set (K p) \<union> set (A p)" if "acts h' x = Some m" "ParentNode m = Some p" for x m p
      using that ok by (auto simp: h' dom_ok_def shape_ok_def split: if_splits)
    ultimately show ?thesis using ok alive unfolding dom_ok_def shape_ok_def by (metis UnCI)
  qed
  ultimately show ?thesis using a h' fresh none by (simp add: dom_ok_def)
qed

text \<open>A heap without nodes.\<close>

definition no_nodes :: dom_heap where "no_nodes = \<lparr>acts = (\<lambda>_. None), next_id = 0, Found = False\<rparr>"

lemma no_nodes_ok: "dom_ok no_nodes (\<lambda>_. []) (\<lambda>_. [])"
  by (simp add: no_nodes_def dom_ok_def lists_ok_def shape_ok_def below_def acyclic_def)

end
