(* ===== verification/Dom_Delete.thy ===== *)
theory Dom_Delete imports Dom_Tree begin

text \<open>
  Deleting a tree of nodes leaf by leaf: it ends, no node is freed twice or read after it is freed, and exactly
  the nodes below the node and their attributes are gone.  While leaves are taken out, \<open>LastChild\<close> and \<open>PrevSibling\<close>
  point to freed nodes; they are not used.  \<open>free_ok\<close> is what is left of \<open>dom_ok\<close>.
\<close>

section \<open>Lists in one direction\<close>

fun chain :: "(nat \<Rightarrow> NodeAct option) \<Rightarrow> nat option \<Rightarrow> nat list \<Rightarrow> bool" where
  "chain M p [] = (p = None)"
| "chain M p (x # xs) = (p = Some x \<and> (case M x of None \<Rightarrow> False | Some n \<Rightarrow> chain M (NextSibling n) xs))"

lemma seg_chain: "seg M par prev p xs None l \<Longrightarrow> chain M p xs"
  by (induction xs arbitrary: prev p) (auto split: option.splits)

lemma chain_cong: "\<forall>x\<in>set xs. map_option NextSibling (M' x) = map_option NextSibling (M x) \<Longrightarrow> chain M' p xs = chain M p xs"
  by (induction xs arbitrary: p) (auto split: option.splits)

definition without :: "nat set \<Rightarrow> dom_heap \<Rightarrow> dom_heap" where
  "without X h = h\<lparr>acts := (\<lambda>a. if a \<in> X then None else acts h a)\<rparr>"

lemma without_simps [simp]:
  "acts (without X h) a = (if a \<in> X then None else acts h a)" "next_id (without X h) = next_id h" "Found (without X h) = Found h"
  by (simp_all add: without_def)

lemma free_attrs_chain: "chain (acts h) p xs \<Longrightarrow> distinct xs \<Longrightarrow> free_attrs p h = Some (without (set xs) h)"
proof (induction xs arbitrary: p h)
  case Nil
  then show ?case by (simp add: free_attrs.simps without_def)
next
  case (Cons x xs)
  then obtain n where n: "p = Some x" "acts h x = Some n" "chain (acts h) (NextSibling n) xs" by (auto split: option.splits)
  let ?h = "h\<lparr>acts := (acts h)(x := None)\<rparr>"
  have "chain (acts ?h) (NextSibling n) xs"
    using n(3) Cons.prems(2) chain_cong [of xs "acts ?h" "acts h" "NextSibling n"] by auto
  from Cons.IH [OF this] Cons.prems(2) have "free_attrs (NextSibling n) ?h = Some (without (set xs) ?h)" by simp
  moreover have "without (set xs) ?h = without (set (x # xs)) h" by (auto simp: without_def fun_eq_iff)
  ultimately show ?case using n(1,2) by (subst free_attrs.simps) (simp add: free_act_def)
qed

section \<open>The heap while leaves are taken out\<close>

definition free_ok :: "dom_heap \<Rightarrow> (nat \<Rightarrow> nat list) \<Rightarrow> (nat \<Rightarrow> nat list) \<Rightarrow> bool" where
  "free_ok h K A =
     ((\<forall>a. case acts h a of
          None \<Rightarrow> K a = [] \<and> A a = []
        | Some n \<Rightarrow> chain (acts h) (FirstChild n) (K a) \<and> chain (acts h) (FirstAttr n) (A a)) \<and>
      (\<forall>a. \<forall>k\<in>set (K a). \<exists>n. acts h k = Some n \<and> ParentNode n = Some a \<and> (A k \<noteq> [] \<longrightarrow> NA_NodeType n = ELEMENT_NODE)) \<and>
      (\<forall>a. distinct (K a) \<and> distinct (A a)) \<and>
      (\<forall>a b. set (A a) \<inter> set (K b) = {} \<and> (a \<noteq> b \<longrightarrow> set (A a) \<inter> set (A b) = {})) \<and>
      (\<forall>a. \<forall>k\<in>set (A a). K k = [] \<and> A k = []) \<and> wf (below K))"

lemma dom_ok_free_ok: "dom_ok h K A \<Longrightarrow> free_ok h K A"
proof -
  assume d: "dom_ok h K A"
  note l = dom_lists [OF d]
  have "case acts h a of None \<Rightarrow> K a = [] \<and> A a = []
      | Some n \<Rightarrow> chain (acts h) (FirstChild n) (K a) \<and> chain (acts h) (FirstAttr n) (A a)" for a
    using lists_at [OF l, of a] by (auto split: option.splits intro: seg_chain)
  moreover have "\<exists>n. acts h k = Some n \<and> ParentNode n = Some a \<and> (A k \<noteq> [] \<longrightarrow> NA_NodeType n = ELEMENT_NODE)" if "k \<in> set (K a)" for k a
  proof -
    have "A k \<noteq> [] \<longrightarrow> is_element h k" using d that by (simp add: dom_ok_def shape_ok_def)
    then show ?thesis using kid_parent [OF l, of k a] that by (auto simp: is_element_def)
  qed
  moreover have "set (A a) \<inter> set (A b) = {}" if "a \<noteq> b" for a b
    using one_parent [OF l, of _ a b] that by blast
  ultimately show ?thesis
    using d below_wf [OF d] unfolding free_ok_def dom_ok_def shape_ok_def by blast
qed

lemma free_kids: "free_ok h K A \<Longrightarrow> acts h a = Some n \<Longrightarrow> chain (acts h) (FirstChild n) (K a) \<and> chain (acts h) (FirstAttr n) (A a)"
  unfolding free_ok_def by (drule conjunct1, drule spec [of _ a]) simp

lemma free_parent: "free_ok h K A \<Longrightarrow> k \<in> set (K a) \<Longrightarrow>
    \<exists>n. acts h k = Some n \<and> ParentNode n = Some a \<and> (A k \<noteq> [] \<longrightarrow> NA_NodeType n = ELEMENT_NODE)"
  unfolding free_ok_def by blast

lemma free_alive: "free_ok h K A \<Longrightarrow> K a \<noteq> [] \<Longrightarrow> \<exists>n. acts h a = Some n"
  unfolding free_ok_def by (drule conjunct1, drule spec [of _ a]) (auto split: option.splits)

lemma free_wf: "free_ok h K A \<Longrightarrow> wf (below K)"
  unfolding free_ok_def by blast

text \<open>One leaf, the first child of its parent.\<close>

definition cut_leaf :: "nat \<Rightarrow> nat \<Rightarrow> nat list \<Rightarrow> nat list \<Rightarrow> dom_heap \<Rightarrow> dom_heap" where
  "cut_leaf p l vs as h = without (insert l (set as))
     (h\<lparr>acts := (\<lambda>a. if a = p then map_option (\<lambda>n. n\<lparr>FirstChild := (case vs of [] \<Rightarrow> None | v # _ \<Rightarrow> Some v), LastChild := None\<rparr>) (acts h a) else acts h a)\<rparr>)"

lemma leaf_cut:
  assumes ok: "free_ok h K A" and p: "K p = l # vs" and l: "K l = []" "l \<noteq> this"
  shows "deleteNodeTree this l h = Some (cut_leaf p l vs (A l) h)"
proof -
  obtain m where m: "acts h p = Some m" using free_alive [OF ok, of p] p by auto
  obtain n where n: "acts h l = Some n" "ParentNode n = Some p" "A l \<noteq> [] \<longrightarrow> NA_NodeType n = ELEMENT_NODE"
    using free_parent [OF ok, of l p] p by auto
  have ne: "l \<noteq> p" using p l by auto
  have at: "p \<notin> set (A l)" "l \<notin> set (A l)" using ok p unfolding free_ok_def by (fastforce, metis disjoint_iff list.set_intros(1))
  have fc: "FirstChild n = None" using free_kids [OF ok n(1)] l(1) by simp
  have ns: "NextSibling n = (case vs of [] \<Rightarrow> None | v # _ \<Rightarrow> Some v)"
    using free_kids [OF ok m] p n(1) by (auto split: list.splits)
  let ?h = "h\<lparr>acts := (acts h)(p \<mapsto> m\<lparr>FirstChild := NextSibling n, LastChild := None\<rparr>)\<rparr>"
  have "chain (acts ?h) (FirstAttr n) (A l) = chain (acts h) (FirstAttr n) (A l)" using at by (intro chain_cong) auto
  then have fa: "free_attrs (FirstAttr n) ?h = Some (without (set (A l)) ?h)"
    using free_attrs_chain free_kids [OF ok n(1)] ok unfolding free_ok_def by metis
  show ?thesis
  proof (cases "NA_NodeType n = ELEMENT_NODE")
    case True
    then show ?thesis using n fc fa m ne at l(2) ns
      by (subst deleteNodeTree.simps) (auto simp: set_opt_def set_act_def free_act_def cut_leaf_def without_def fun_eq_iff)
  next
    case False
    then have "A l = []" using n(3) by blast
    then show ?thesis using False n fc m ne l(2) ns
      by (subst deleteNodeTree.simps) (auto simp: set_opt_def set_act_def free_act_def cut_leaf_def without_def fun_eq_iff)
  qed
qed

lemma cut_at:
  "acts (cut_leaf p l vs as h) a = (if a = l \<or> a \<in> set as then None else if a = p
     then map_option (\<lambda>n. n\<lparr>FirstChild := (case vs of [] \<Rightarrow> None | v # _ \<Rightarrow> Some v), LastChild := None\<rparr>) (acts h a) else acts h a)"
  by (simp add: cut_leaf_def)

lemma cut_ok:
  assumes ok: "free_ok h K A" and p: "K p = l # vs" and l: "K l = []"
  shows "free_ok (cut_leaf p l vs (A l) h) (K(p := vs)) (A(l := []))"
proof -
  let ?h = "cut_leaf p l vs (A l) h" and ?K = "K(p := vs)" and ?A = "A(l := [])"
  have dist: "distinct (K a)" "distinct (A a)" "set (A a) \<inter> set (K b) = {}" "a \<noteq> b \<Longrightarrow> set (A a) \<inter> set (A b) = {}"
    "k \<in> set (A a) \<Longrightarrow> K k = [] \<and> A k = []" for a b k
    using ok unfolding free_ok_def by blast+
  have ne: "l \<noteq> p" using p l by auto
  have gone: "x \<noteq> l \<and> x \<notin> set (A l)" if "x \<in> set (?K a) \<or> x \<in> set (?A a)" for x a
  proof -
    have "x \<noteq> l" if "x \<in> set (K a)" "a \<noteq> p" using free_parent [OF ok, of x a] free_parent [OF ok, of l p] that p by auto
    moreover have "x \<noteq> l" if "x \<in> set vs" using that dist(1) [of p] p by auto
    moreover have "x \<noteq> l" if "x \<in> set (A a)" using that dist(3) [of a p] p by auto
    moreover have "x \<notin> set (A l)" if "x \<in> set (K b)" for b using that dist(3) [of l b] by auto
    moreover have "x \<notin> set (A l)" if "x \<in> set (A a)" "a \<noteq> l" using that dist(4) [of a l] by auto
    moreover have "x \<in> set (K a) \<and> (a = p \<longrightarrow> x \<in> set vs) \<or> x \<in> set (A a) \<and> a \<noteq> l" using that p by (auto split: if_splits)
    ultimately show ?thesis by blast
  qed
  have nexts: "map_option NextSibling (acts ?h x) = map_option NextSibling (acts h x)" if "x \<in> set (?K a) \<or> x \<in> set (?A a)" for x a
    using gone [OF that] by (cases "acts h x") (auto simp: cut_at)
  have "case acts ?h a of None \<Rightarrow> ?K a = [] \<and> ?A a = []
      | Some n \<Rightarrow> chain (acts ?h) (FirstChild n) (?K a) \<and> chain (acts ?h) (FirstAttr n) (?A a)" for a
  proof (cases "a = l \<or> a \<in> set (A l)")
    case True
    have "p \<notin> set (A l)" "a \<noteq> p" using dist(5) [of p l] p True ne by auto
    then show ?thesis using True l dist(5) [of a l] p by (auto simp: cut_at)
  next
    case False
    show ?thesis
    proof (cases "acts h a")
      case None
      then show ?thesis using ok p False unfolding free_ok_def by (auto simp: cut_at dest!: spec [of _ a])
    next
      case (Some n)
      note n = free_kids [OF ok Some]
      have at: "acts ?h a = Some (if a = p then n\<lparr>FirstChild := (case vs of [] \<Rightarrow> None | v # _ \<Rightarrow> Some v), LastChild := None\<rparr> else n)"
        using False Some by (auto simp: cut_at)
      have "chain (acts ?h) q (?K a) = chain (acts h) q (?K a)" "chain (acts ?h) q (?A a) = chain (acts h) q (?A a)" for q
        using nexts [of _ a] by (auto intro!: chain_cong)
      moreover have "chain (acts h) (case vs of [] \<Rightarrow> None | v # _ \<Rightarrow> Some v) vs" if "a = p"
        using n p that by (cases vs) (auto split: option.splits)
      ultimately show ?thesis using n False at by auto
    qed
  qed
  moreover have "\<exists>n. acts ?h k = Some n \<and> ParentNode n = Some a \<and> (?A k \<noteq> [] \<longrightarrow> NA_NodeType n = ELEMENT_NODE)"
    if "k \<in> set (?K a)" for k a
  proof -
    have "k \<in> set (K a)" using that p by (auto split: if_splits)
    then show ?thesis using free_parent [OF ok] gone [of k a] that by (fastforce simp: cut_at)
  qed
  moreover have "wf (below ?K)"
    by (rule wf_subset [OF free_wf [OF ok]]) (use p in \<open>auto simp: below_def split: if_splits\<close>)
  moreover have "distinct (?K a) \<and> distinct (?A a)" for a using dist(1) [of p] dist(1,2) p by auto
  moreover have "set (?A a) \<inter> set (?K b) = {} \<and> (a \<noteq> b \<longrightarrow> set (?A a) \<inter> set (?A b) = {})" for a b
    using dist(3) [of a b] dist(3) [of a p] dist(4) [of a b] p by auto
  moreover have "?K k = [] \<and> ?A k = []" if "k \<in> set (?A a)" for k a using dist(5) [of k a] that p by (auto split: if_splits)
  ultimately show ?thesis unfolding free_ok_def by blast
qed

text \<open>The way down to the first leaf.\<close>

lemma first_leaf:
  assumes ok: "free_ok h K A"
  shows "K na \<noteq> [] \<Longrightarrow> \<exists>p l vs. K p = l # vs \<and> K l = [] \<and> (l, na) \<in> (below K)\<^sup>+ \<and> (p, na) \<in> (below K)\<^sup>* \<and>
    deleteNodeTree this na h = deleteNodeTree this l h"
  using free_wf [OF ok]
proof (induction na rule: wf_induct_rule)
  case (less na)
  obtain n where n: "acts h na = Some n" using free_alive [OF ok less.prems] by blast
  obtain c cs where c: "K na = c # cs" using less.prems by (cases "K na") auto
  then have fc: "FirstChild n = Some c" using free_kids [OF ok n] by simp
  then have down: "deleteNodeTree this na h = deleteNodeTree this c h"
    using n by (subst deleteNodeTree.simps) simp
  have edge: "(c, na) \<in> below K" using c by (simp add: below_def)
  show ?case
  proof (cases "K c = []")
    case True
    then show ?thesis using c edge down by blast
  next
    case False
    from less.IH [OF edge False] obtain p l vs where "K p = l # vs" "K l = []" "(l, c) \<in> (below K)\<^sup>+" "(p, c) \<in> (below K)\<^sup>*"
      "deleteNodeTree this c h = deleteNodeTree this l h" by blast
    then show ?thesis using edge down by (metis trancl.trancl_into_trancl rtrancl.rtrancl_into_rtrancl)
  qed
qed

section \<open>All of the tree\<close>

definition nodes_under :: "(nat \<Rightarrow> nat list) \<Rightarrow> nat \<Rightarrow> nat set" where "nodes_under K a = {x. (x, a) \<in> (below K)\<^sup>+}"

text \<open>The nodes below a node, and their attributes.\<close>

definition tree_of :: "(nat \<Rightarrow> nat list) \<Rightarrow> (nat \<Rightarrow> nat list) \<Rightarrow> nat \<Rightarrow> nat set" where
  "tree_of K A a = nodes_under K a \<union> (\<Union>x\<in>nodes_under K a. set (A x))"

lemma under_none: "K a = [] \<Longrightarrow> nodes_under K a = {}"
  by (auto simp: nodes_under_def below_def dest: tranclD2)

lemma under_alive:
  assumes "free_ok h K A" shows "x \<in> nodes_under K a \<Longrightarrow> acts h x \<noteq> None"
  unfolding nodes_under_def by (auto dest!: tranclD simp: below_def dest: free_parent [OF assms])

lemma under_cut:
  assumes ok: "free_ok h K A" and p: "K p = l # vs" and l: "K l = []" "(l, a) \<in> (below K)\<^sup>+"
  shows "nodes_under K a = insert l (nodes_under (K(p := vs)) a)" and "l \<notin> nodes_under (K(p := vs)) a"
proof -
  let ?r = "below (K(p := vs))"
  have sub: "?r \<subseteq> below K" using p by (auto simp: below_def split: if_splits)
  have "(x, a) \<in> (below K)\<^sup>+ \<Longrightarrow> x \<noteq> l \<longrightarrow> (x, a) \<in> ?r\<^sup>+" for x
  proof (induction rule: converse_trancl_induct)
    case (base y)
    then show ?case using p by (auto simp: below_def)
  next
    case (step y z)
    have "z \<noteq> l" using step(1) l(1) by (auto simp: below_def)
    moreover have "y \<noteq> l \<Longrightarrow> (y, z) \<in> ?r" using step(1) p by (auto simp: below_def)
    ultimately show ?case using step.IH by (blast intro: trancl_into_trancl2)
  qed
  then show "nodes_under K a = insert l (nodes_under (K(p := vs)) a)"
    using trancl_mono [OF _ sub] l(2) by (auto simp: nodes_under_def)
  have "distinct (K p)" using ok unfolding free_ok_def by blast
  then have "(l, z) \<notin> ?r" for z
    using p free_parent [OF ok, of l z] free_parent [OF ok, of l p] by (auto simp: below_def split: if_splits)
  then show "l \<notin> nodes_under (K(p := vs)) a" by (auto simp: nodes_under_def dest: tranclD)
qed

lemma freed_all:
  assumes "free_ok h K A" "finite (nodes_under K this)" "acts h this \<noteq> None"
  shows "deleteNodeAct this h = Some (without (tree_of K A this)
    (h\<lparr>acts := (\<lambda>a. if a = this \<and> K this \<noteq> [] then map_option (\<lambda>n. n\<lparr>FirstChild := None, LastChild := None\<rparr>) (acts h a) else acts h a)\<rparr>))"
  using assms
proof (induction "card (nodes_under K this)" arbitrary: h K A)
  case 0
  then have u: "nodes_under K this = {}" by simp
  have "K this = []"
  proof (rule ccontr)
    assume "K this \<noteq> []"
    then have "(hd (K this), this) \<in> below K" by (simp add: below_def)
    then show False using u by (auto simp: nodes_under_def)
  qed
  moreover obtain n where n: "acts h this = Some n" using 0(4) by blast
  ultimately have "FirstChild n = None" using free_kids [OF 0(2) n] by simp
  then show ?case using u n \<open>K this = []\<close>
    by (subst deleteNodeAct.simps) (simp add: tree_of_def without_def)
next
  case (Suc n)
  note ok = Suc.prems(1)
  let ?upd = "\<lambda>K h. h\<lparr>acts := (\<lambda>a. if a = this \<and> K this \<noteq> [] then map_option (\<lambda>n. n\<lparr>FirstChild := None, LastChild := None\<rparr>) (acts h a) else acts h a)\<rparr>"
  have kids: "K this \<noteq> []" using Suc.hyps(2) under_none [of K this] by auto
  obtain p l vs where plv: "K p = l # vs" "K l = []" "(l, this) \<in> (below K)\<^sup>+" "(p, this) \<in> (below K)\<^sup>*"
    "deleteNodeTree this this h = deleteNodeTree this l h" using first_leaf [OF ok kids] by blast
  have ne: "l \<noteq> this" using plv(3) wf_acyclic [OF free_wf [OF ok]] by (auto simp: acyclic_def)
  have na: "this \<notin> set (A l)" using ok kids unfolding free_ok_def by blast
  let ?h = "cut_leaf p l vs (A l) h" and ?K = "K(p := vs)" and ?A = "A(l := [])"
  note u = under_cut [OF ok plv(1-3)]
  have card: "n = card (nodes_under ?K this)" using Suc.hyps(2) Suc.prems(2) u by simp
  have fin: "finite (nodes_under ?K this)" using Suc.prems(2) u(1) by simp
  have alive: "acts ?h this \<noteq> None" using Suc.prems(3) ne na by (auto simp: cut_at)
  note rest = Suc.hyps(1) [OF card cut_ok [OF ok plv(1,2)] fin alive]
  have tree: "tree_of K A this = insert l (set (A l)) \<union> tree_of ?K ?A this" using u by (auto simp: tree_of_def split: if_splits)
  have leaf: "vs = [] \<and> p = this" if "?K this = []" using that kids by (auto split: if_splits)
  have "acts (without (tree_of ?K ?A this) (?upd ?K ?h)) a = acts (without (tree_of K A this) (?upd K h)) a" for a
  proof (cases "a \<in> tree_of K A this")
    case True
    then show ?thesis unfolding tree by (auto simp: cut_at)
  next
    case False
    have "a \<noteq> p" if "a \<noteq> this" using False plv(4) that by (auto simp: tree_of_def nodes_under_def rtrancl_eq_or_trancl)
    then show ?thesis using False kids leaf unfolding tree by (cases "acts h a") (auto simp: cut_at)
  qed
  then have same: "without (tree_of ?K ?A this) (?upd ?K ?h) = without (tree_of K A this) (?upd K h)"
    by (intro dom_heap.equality ext) (simp_all only:, simp_all add: cut_leaf_def)
  obtain t where t: "acts h this = Some t" "FirstChild t \<noteq> None"
    using Suc.prems(3) kids free_kids [OF ok] by (cases "K this") fastforce+
  have "deleteNodeAct this h = deleteNodeAct this ?h"
    using t plv(5) leaf_cut [OF ok plv(1,2) ne] by (subst deleteNodeAct.simps) auto
  then show ?case using rest same by simp
qed

text \<open>
  \<open>deleteNodeAct\<close> returns, and exactly the nodes below the node and their attributes are freed; the node itself has no
  children any more, and nothing else is written.
\<close>

lemma nodes_freed:
  assumes "dom_ok h K A" "acts h this \<noteq> None"
  shows "deleteNodeAct this h = Some (without (tree_of K A this)
    (h\<lparr>acts := (\<lambda>a. if a = this \<and> K this \<noteq> [] then map_option (\<lambda>n. n\<lparr>FirstChild := None, LastChild := None\<rparr>) (acts h a) else acts h a)\<rparr>))"
proof (rule freed_all [OF dom_ok_free_ok [OF assms(1)] _ assms(2)])
  have "nodes_under K this \<subseteq> {..<next_id h}"
    using under_alive [OF dom_ok_free_ok [OF assms(1)]] assms(1) unfolding dom_ok_def shape_ok_def by auto
  then show "finite (nodes_under K this)" by (rule finite_subset) simp
qed

end
