(* ===== verification/Dom_Change.thy ===== *)
theory Dom_Change imports Dom_Delete begin

text \<open>
  Taking out children, and what goes wrong when nodes are moved, inserted before others or are attributes.
\<close>

section \<open>Taking a child out\<close>

definition joined :: "NodeAct \<Rightarrow> nat \<Rightarrow> NodeAct \<Rightarrow> NodeAct" where
  "joined n x m = m\<lparr>NextSibling := (if PrevSibling n = Some x then NextSibling n else NextSibling m),
     PrevSibling := (if NextSibling n = Some x then PrevSibling n else PrevSibling m)\<rparr>"

lemma seg_joined:
  assumes seg: "seg M par None p (us @ old # vs) None l" and dist: "distinct (us @ old # vs)" and n: "M old = Some n"
    and M': "\<And>x. x \<in> set us \<union> set vs \<Longrightarrow> map_option links (M' x) = map_option (links \<circ> joined n x) (M x)"
  shows "seg M' par None (if p = Some old then NextSibling n else p) (us @ vs) None (if l = Some old then PrevSibling n else l)"
proof -
  obtain q where u: "seg M par None p us (Some old) (PrevSibling n)" and v: "seg M par (Some old) (NextSibling n) vs None l" and q: "q = NextSibling n"
    using seg n by (auto simp: seg_append split: option.splits)
  have us: "seg M' par None (if us = [] then q else p) us q (PrevSibling n)"
  proof (cases us rule: rev_cases)
    case Nil
    then show ?thesis using u by simp
  next
    case (snoc us' a)
    then obtain m where m: "M a = Some m" "PrevSibling n = Some a" using u by (auto simp: seg_append split: option.splits)
    have s: "seg (M(a \<mapsto> m\<lparr>NextSibling := q\<rparr>)) par None p (us' @ [a]) q (PrevSibling n)"
      by (rule seg_end [OF u [unfolded snoc]]) (use dist snoc m in auto)
    have "\<forall>x\<in>set (us' @ [a]). map_option links (M' x) = map_option links ((M(a \<mapsto> m\<lparr>NextSibling := q\<rparr>)) x)"
    proof
      fix x
      assume x: "x \<in> set (us' @ [a])"
      have "NextSibling n \<noteq> Some x" using seg_ends [OF v] x dist snoc by (cases vs) (use v in auto)
      then show "map_option links (M' x) = map_option links ((M(a \<mapsto> m\<lparr>NextSibling := q\<rparr>)) x)"
        using M' [of x] x snoc m q by (cases "M x") (auto simp: joined_def links_def)
    qed
    then have "seg M' par None p (us' @ [a]) q (PrevSibling n)" using s seg_cong by blast
    then show ?thesis using snoc by simp
  qed
  have vs: "seg M' par (PrevSibling n) q vs None (if vs = [] then PrevSibling n else l)"
  proof (cases vs)
    case Nil
    then show ?thesis using v q by simp
  next
    case (Cons b vs')
    then obtain m where m: "M b = Some m" "NextSibling n = Some b" using v by (auto split: option.splits)
    have s: "seg (M(b \<mapsto> m\<lparr>PrevSibling := PrevSibling n\<rparr>)) par (PrevSibling n) (NextSibling n) (b # vs') None l"
      by (rule seg_start [OF v [unfolded Cons]]) (use dist Cons m in auto)
    have "\<forall>x\<in>set (b # vs'). map_option links (M' x) = map_option links ((M(b \<mapsto> m\<lparr>PrevSibling := PrevSibling n\<rparr>)) x)"
    proof
      fix x
      assume x: "x \<in> set (b # vs')"
      have "PrevSibling n \<noteq> Some x" using seg_ends [OF u] x dist Cons by (cases us rule: rev_cases) (use u in auto)
      then show "map_option links (M' x) = map_option links ((M(b \<mapsto> m\<lparr>PrevSibling := PrevSibling n\<rparr>)) x)"
        using M' [of x] x Cons m by (cases "M x") (auto simp: joined_def links_def)
    qed
    then have "seg M' par (PrevSibling n) (NextSibling n) (b # vs') None l" using s seg_cong by blast
    then show ?thesis using Cons q by simp
  qed
  have all: "seg M' par None (if us = [] then q else p) (us @ vs) None (if vs = [] then PrevSibling n else l)"
    using us vs unfolding seg_append by blast
  have "(if us = [] then q else p) = (if p = Some old then NextSibling n else p)"
    using u q seg_ends [OF u] dist by (cases us) auto
  moreover have "(if vs = [] then PrevSibling n else l) = (if l = Some old then PrevSibling n else l)"
    using v seg_ends [OF v] dist by (cases vs rule: rev_cases) auto
  ultimately show ?thesis using all by simp
qed

text \<open>The heap after a child was taken out.\<close>

definition removed :: "nat \<Rightarrow> nat \<Rightarrow> NodeAct \<Rightarrow> dom_heap \<Rightarrow> dom_heap" where
  "removed this old n h = h\<lparr>acts := (\<lambda>x. map_option (\<lambda>m.
     if x = old then m\<lparr>OwnerNode := old, ParentNode := None, RefCount := 1\<rparr>
     else if x = this then m\<lparr>FirstChild := (if FirstChild m = Some old then NextSibling n else FirstChild m),
       LastChild := (if LastChild m = Some old then PrevSibling n else LastChild m)\<rparr>
     else joined n x m) (acts h x))\<rparr>"

lemma heap_eqI: "(\<And>x. f x = g x) \<Longrightarrow> h\<lparr>acts := f\<rparr> = h\<lparr>acts := g\<rparr>"
  by (simp add: ext [of f g])

lemma removeChild_removed:
  assumes "findNode this (Some old) h = Some True" "acts h old = Some n" "acts h this = Some t" "this \<noteq> old"
    and "\<And>x. PrevSibling n = Some x \<Longrightarrow> acts h x \<noteq> None \<and> x \<noteq> old \<and> x \<noteq> this \<and> NextSibling n \<noteq> Some x"
    and "\<And>x. NextSibling n = Some x \<Longrightarrow> acts h x \<noteq> None \<and> x \<noteq> old \<and> x \<noteq> this"
  shows "removeChild this (Some old) h = Some (None, removed this old n h)"
proof (cases "PrevSibling n")
  case None
  show ?thesis
  proof (cases "NextSibling n")
    case (None)
    then show ?thesis using \<open>PrevSibling n = None\<close> assms(1-4)
      by (auto simp: removeChild_def set_opt_def set_act_def removed_def joined_def option.map_ident intro!: heap_eqI split: option.splits)
  next
    case (Some b)
    then show ?thesis using \<open>PrevSibling n = None\<close> assms(1-4) assms(6) [of b]
      by (auto simp: removeChild_def set_opt_def set_act_def removed_def joined_def option.map_ident intro!: heap_eqI split: option.splits)
  qed
next
  case (Some a)
  show ?thesis
  proof (cases "NextSibling n")
    case None
    then show ?thesis using \<open>PrevSibling n = Some a\<close> assms(1-4) assms(5) [of a]
      by (auto simp: removeChild_def set_opt_def set_act_def removed_def joined_def option.map_ident intro!: heap_eqI split: option.splits)
  next
    case (Some b)
    then show ?thesis using \<open>PrevSibling n = Some a\<close> assms(1-4) assms(5) [of a] assms(6) [of b]
      by (auto simp: removeChild_def set_opt_def set_act_def removed_def joined_def option.map_ident intro!: heap_eqI split: option.splits)
  qed
qed

text \<open>The neighbours of a node are in the list of its parent.\<close>

lemma neighbours:
  assumes ok: "lists_ok h K A" and K: "K this = us @ old # vs" and n: "acts h old = Some n"
  shows "PrevSibling n = (if us = [] then None else Some (last us))" "NextSibling n = (case vs of [] \<Rightarrow> None | v # _ \<Rightarrow> Some v)"
proof -
  obtain t where t: "acts h this = Some t" using parent_alive [OF ok, of old this] K by auto
  note seg = kids_seg [OF ok t, unfolded K]
  obtain u where u: "seg (acts h) this None (FirstChild t) us (Some old) (PrevSibling n)" and v: "seg (acts h) this (Some old) (NextSibling n) vs None (LastChild t)"
    using seg n by (auto simp: seg_append split: option.splits)
  show "PrevSibling n = (if us = [] then None else Some (last us))" using u seg_ends [OF u] by auto
  show "NextSibling n = (case vs of [] \<Rightarrow> None | v # _ \<Rightarrow> Some v)" using v by (cases vs) auto
qed

lemma child_removed:
  assumes ok: "dom_ok h K A" and old: "old \<in> set (K this)"
  shows "\<exists>h'. removeChild this (Some old) h = Some (None, h') \<and> dom_ok h' (K(this := remove1 old (K this))) A \<and>
    next_id h' = next_id h \<and> Found h' = Found h \<and> (\<forall>a. map_option info (acts h' a) = map_option info (acts h a))"
proof -
  note lok = dom_lists [OF ok]
  obtain us vs where K: "K this = us @ old # vs" using split_list [OF old] by blast
  obtain t where t: "acts h this = Some t" using parent_alive [OF lok, of old this] old by auto
  obtain n where n: "acts h old = Some n" "ParentNode n = Some this" using kid_parent [OF lok, of old this] old by auto
  have dist: "distinct (us @ old # vs)" using ok K unfolding dom_ok_def shape_ok_def by metis
  have kid: "k \<noteq> this" if "k \<in> set (K this)" for k using that wf_not_refl [OF below_wf [OF ok], of this] by (auto simp: below_def)
  note nb = neighbours [OF lok K n(1)]
  have near: "PrevSibling n = Some x \<Longrightarrow> x \<in> set us" "NextSibling n = Some x \<Longrightarrow> x \<in> set vs" for x
    using nb by (auto split: if_splits list.splits)
  have alive: "acts h x \<noteq> None" if "x \<in> set us \<union> set vs" for x using kid_parent [OF lok, of x this] that K by auto
  let ?h = "removed this old n h"
  have rem: "removeChild this (Some old) h = Some (None, ?h)"
    by (rule removeChild_removed [OF _ n(1) t])
      (use findNode_child [OF lok t old] kid alive near K dist in \<open>auto dest!: near\<close>)
  have at: "acts ?h x = map_option (joined n x) (acts h x)" if "x \<noteq> old" "x \<noteq> this" for x
    using that by (simp add: removed_def)
  have away: "map_option links (acts ?h x) = map_option links (acts h x)" if "x \<notin> set (K this)" for x
  proof -
    have "PrevSibling n \<noteq> Some x" "NextSibling n \<noteq> Some x" "x \<noteq> old" using near [of x] that K by auto
    then show ?thesis by (cases "acts h x") (auto simp: removed_def joined_def links_def)
  qed
  let ?t = "t\<lparr>FirstChild := (if FirstChild t = Some old then NextSibling n else FirstChild t),
       LastChild := (if LastChild t = Some old then PrevSibling n else LastChild t)\<rparr>"
  have "lists_ok ?h (K(this := us @ vs)) A"
  proof (rule lists_ok_at [OF lok, where t = this and n = ?t])
    fix a
    assume "a \<noteq> this"
    then show "map_option core (acts ?h a) = map_option core (acts h a) \<and> (K(this := us @ vs)) a = K a \<and> A a = A a"
      by (cases "acts h a") (auto simp: removed_def joined_def core_def)
  next
    fix a x
    assume "a \<noteq> this" "x \<in> set (K a) \<union> set (A a)"
    then have "x \<notin> set (K this)" using one_parent [OF lok, of x a this] by auto
    then show "map_option links (acts ?h x) = map_option links (acts h x)" by (rule away)
  next
    show "acts ?h this = Some ?t" using t kid old by (auto simp: removed_def)
    have "map_option links (acts ?h x) = map_option (links \<circ> joined n x) (acts h x)" if "x \<in> set us \<union> set vs" for x
    proof -
      have "x \<noteq> old" "x \<noteq> this" using kid [of x] dist K that by auto
      then show ?thesis using at [of x] by (simp add: option.map_comp)
    qed
    from seg_joined [OF kids_seg [OF lok t, unfolded K] dist n(1) this]
    have "seg (acts ?h) this None (FirstChild ?t) (us @ vs) None (LastChild ?t)" by simp
    then show "seg (acts ?h) this None (FirstChild ?t) ((K(this := us @ vs)) this) None (LastChild ?t)" by simp
    have "x \<notin> set (K this)" if "x \<in> set (A this)" for x using ok that unfolding dom_ok_def shape_ok_def by blast
    then have "seg (acts ?h) this None p (A this) None l = seg (acts h) this None p (A this) None l" for p l
      using away by (intro seg_cong) auto
    then show "seg (acts ?h) this None (FirstAttr ?t) (A this) None (LastAttr ?t)" using attrs_seg [OF lok t] by simp
  qed
  moreover have "shape_ok ?h (K(this := us @ vs)) A"
  proof -
    have types: "is_attribute ?h a = is_attribute h a" "is_element ?h a = is_element h a" for a
      by (cases "acts h a"; auto simp: removed_def joined_def is_attribute_def is_element_def)+
    have sh: "shape_ok h K A" using ok by (simp add: dom_ok_def)
    have "below (K(this := us @ vs)) \<subseteq> below K" using K by (auto simp: below_def split: if_splits)
    then have "acyclic (below (K(this := us @ vs)))" using sh acyclic_subset by (auto simp: shape_ok_def)
    moreover have "a \<in> set ((K(this := us @ vs)) p) \<union> set (A p)" if "acts ?h a = Some m" "ParentNode m = Some p" for a m p
    proof -
      have "\<exists>m'. acts h a = Some m' \<and> ParentNode m' = Some p"
        using that by (cases "acts h a") (auto simp: removed_def joined_def split: if_splits)
      then obtain m' where "acts h a = Some m'" "ParentNode m' = Some p" by blast
      then have "a \<in> set (K p) \<union> set (A p)" using sh unfolding shape_ok_def by blast
      moreover have "a \<noteq> old" using that n(1) by (auto simp: removed_def)
      ultimately have "a \<in> set (K p) \<union> set (A p)" "a \<noteq> old" by simp_all
      then show ?thesis using K by auto
    qed
    moreover have "a < next_id ?h" if "acts ?h a \<noteq> None" for a using that sh by (auto simp: removed_def shape_ok_def)
    moreover have "\<not> is_attribute h k \<and> (A k \<noteq> [] \<longrightarrow> is_element h k)" if "k \<in> set us \<union> set vs" for k
    proof -
      have "k \<in> set (K this)" using that K by auto
      then show ?thesis using sh unfolding shape_ok_def by blast
    qed
    ultimately show ?thesis unfolding shape_ok_def types
      using sh dist K by (auto simp: shape_ok_def)
  qed
  moreover have "map_option info (acts ?h a) = map_option info (acts h a)" for a
    by (cases "acts h a") (auto simp: removed_def joined_def info_def)
  moreover have "remove1 old (K this) = us @ vs" using K dist by (simp add: remove1_append)
  moreover have "next_id ?h = next_id h" "Found ?h = Found h" by (simp_all add: removed_def)
  ultimately show ?thesis using rem by (simp add: dom_ok_def)
qed

text \<open>The first and the last attribute are not changed when they are taken out.\<close>

lemma set_act_at: "set_act a f h = Some h' \<Longrightarrow> acts h' b = (if b = a then map_option f (acts h a) else acts h b)"
  by (auto simp: set_act_def split: bind_splits)

lemma set_opt_at: "set_opt p f h = Some h' \<Longrightarrow> acts h' b = (if p = Some b then map_option f (acts h b) else acts h b)"
  by (auto simp: set_opt_def set_act_at split: option.splits)

lemma removeChild_attribute_stays:
  assumes "removeChild this (Some old) h = Some (exc, h')" "acts h this = Some t"
  shows "\<exists>t'. acts h' this = Some t' \<and> FirstAttr t' = FirstAttr t \<and> LastAttr t' = LastAttr t"
  using assms by (auto simp: removeChild_def set_act_at set_opt_at split: bind_splits if_splits)

section \<open>Moving\<close>

text \<open>After a node was moved once, \<open>Found\<close> stays set and a node without a parent cannot be appended any more: the NULL parent is used.\<close>

lemma append_after_move:
  assumes ok: "dom_ok h K A" and found: "Found h" and t: "acts h this = Some t" "acts h (OwnerNode t) \<noteq> None"
    and n: "acts h new = Some n" "ParentNode n = None"
  shows "appendChild this (Some new) h = None"
proof -
  have new: "new \<notin> set (K a) \<union> set (A a)" for a using kid_parent [OF dom_lists [OF ok], of new a] n by auto
  show ?thesis using findNodeFromRef_root [OF ok _ t(2)] found t(1) n new by (simp add: appendChild_def)
qed

section \<open>Inserting\<close>

text \<open>A new node before the child \<open>ref\<close>: the children before \<open>ref\<close> are lost, because the new node never gets a previous sibling.\<close>

lemma chain_behind: "chain M p (us @ x # vs) \<Longrightarrow> M x = Some n \<Longrightarrow> chain M (NextSibling n) vs"
  by (induction us arbitrary: p) (auto split: option.splits)

lemma siblings_dropped:
  assumes ok: "dom_ok h K A" and K: "K this = us @ ref # vs" and n: "acts h new = Some n" "ParentNode n = None" "PrevSibling n = None"
      "NA_NodeType n \<noteq> ATTRIBUTE_NODE" "new \<noteq> this"
  shows "\<exists>h' t'. insertBefore this (Some new) (Some ref) h = Some (None, h') \<and> acts h' this = Some t' \<and>
    chain (acts h') (FirstChild t') (new # ref # vs)"
proof -
  note lok = dom_lists [OF ok]
  obtain t where t: "acts h this = Some t" using parent_alive [OF lok, of ref this] K by auto
  obtain r where r: "acts h ref = Some r" using kid_parent [OF lok, of ref this] K by auto
  have dist: "distinct (us @ ref # vs)" using ok K unfolding dom_ok_def shape_ok_def by metis
  have kid: "k \<noteq> this \<and> k \<noteq> new \<and> acts h k \<noteq> None" if "k \<in> set (K this)" for k
    using that wf_not_refl [OF below_wf [OF ok], of this] kid_parent [OF lok, of k this] n by (auto simp: below_def)
  have found: "findNode this (Some ref) h = Some True" "findNode this (Some new) h = Some False"
    using findNode_child [OF lok t, of ref] findNode_none [OF lok t, of new] K kid_parent [OF lok, of new this] n by auto
  note nb = neighbours [OF lok K r]
  have vs: "chain (acts h) (NextSibling r) vs"
    by (rule chain_behind [OF seg_chain [OF kids_seg [OF lok t, unfolded K]] r])
  have cong: "chain M (NextSibling r) vs" if "\<forall>x\<in>set vs. map_option NextSibling (M x) = map_option NextSibling (acts h x)" for M
    using vs chain_cong [OF that] by simp
  have ne: "ref \<noteq> this" "ref \<noteq> new" "this \<notin> set vs" "new \<notin> set vs" "ref \<notin> set vs" using kid K dist by auto
  show ?thesis
  proof (cases "us = []")
    case True
    then have "PrevSibling r = None" using nb by simp
    then show ?thesis using found n t r ne
      by (auto simp: insertBefore_def set_opt_def set_act_def intro!: cong)
  next
    case False
    then have p: "PrevSibling r = Some (last us)" using nb by simp
    have a: "last us \<noteq> this" "last us \<noteq> new" "last us \<noteq> ref" "last us \<notin> set vs" "acts h (last us) \<noteq> None"
      using kid [of "last us"] last_in_set [OF False] K dist by auto
    show ?thesis using found n t r ne p a
      by (auto simp: insertBefore_def set_opt_def set_act_def intro!: cong)
  qed
qed

end
