(* ===== verification/Dom_Node.thy ===== *)
theory Dom_Node imports Dom_Change begin

text \<open>
  The objects through which nodes are used (\<^verbatim>\<open>upnpdom/Node.cpp\<close>, \<^verbatim>\<open>Element.cpp\<close>, \<^verbatim>\<open>Attr.cpp\<close>, \<^verbatim>\<open>Document.cpp\<close>,
  \<^verbatim>\<open>NodeList.cpp\<close>, \<^verbatim>\<open>NamedNodeMap.cpp\<close>).  Each refers to a node and counts as a reference to it; \<open>ownerNode\<close> is the object it was
  copied from, \<open>ownerSub\<close> the same for the classes below \<open>Node\<close> (\<open>ownerElement\<close>, \<open>ownerAttr\<close>, \<open>ownerDocument\<close>).  A result
  \<open>Inl code\<close> is an exception.  The cells of a \<open>NodeList\<close> are freed with the object that made them.
\<close>

section \<open>Objects\<close>

record Node =
  nact :: "nat option"
  ownerNode :: nat
  ownerSub :: nat

record NodeList =
  list_head :: "nat list"
  ownerNodeList :: nat

record NamedNodeMap =
  ofWho :: nat
  ownerNamedNodeMap :: nat

record dom_state =
  heap :: dom_heap
  objs :: "nat \<Rightarrow> Node option"
  lists :: "nat \<Rightarrow> NodeList option"
  maps :: "nat \<Rightarrow> NamedNodeMap option"
  next_obj :: nat

type_synonym 'a dom_op = "dom_state \<Rightarrow> ('a \<times> dom_state) option"

abbreviation NO_SUCH_NODE :: int where "NO_SUCH_NODE \<equiv> 100"

definition new_obj :: "nat option \<Rightarrow> dom_state \<Rightarrow> nat \<times> dom_state" where
  "new_obj a s = (next_obj s, s\<lparr>objs := (objs s)(next_obj s \<mapsto> \<lparr>nact = a, ownerNode = next_obj s, ownerSub = next_obj s\<rparr>),
     next_obj := Suc (next_obj s)\<rparr>)"

definition set_obj :: "nat \<Rightarrow> (Node \<Rightarrow> Node) \<Rightarrow> dom_state \<Rightarrow> dom_state option" where
  "set_obj o' f s = do { n \<leftarrow> objs s o'; Some (s\<lparr>objs := (objs s)(o' \<mapsto> f n)\<rparr>) }"

definition on_heap :: "(dom_heap \<Rightarrow> dom_heap option) \<Rightarrow> dom_state \<Rightarrow> dom_state option" where
  "on_heap f s = do { h \<leftarrow> f (heap s); Some (s\<lparr>heap := h\<rparr>) }"

definition count_ref :: "nat option \<Rightarrow> dom_state \<Rightarrow> dom_state option" where
  "count_ref p s = on_heap (set_opt p (\<lambda>n. n\<lparr>RefCount := RefCount n + 1\<rparr>)) s"

text \<open>The node an object refers to.\<close>

definition node_of :: "nat \<Rightarrow> dom_state \<Rightarrow> (nat \<times> NodeAct) option" where
  "node_of o' s = do { n \<leftarrow> objs s o'; a \<leftarrow> nact n; m \<leftarrow> acts (heap s) a; Some (a, m) }"

text \<open>The destructor: the last reference deletes the node and what is below it.\<close>

definition release :: "nat \<Rightarrow> dom_heap \<Rightarrow> dom_heap option" where
  "release a h = do {
     h \<leftarrow> set_act a (\<lambda>n. n\<lparr>RefCount := RefCount n - 1\<rparr>) h;
     n \<leftarrow> acts h a;
     if RefCount n = 0 then do { h \<leftarrow> deleteNodeAct a h; free_act a h } else Some h }"

definition delete_obj :: "nat \<Rightarrow> dom_state \<Rightarrow> dom_state option" where
  "delete_obj o' s = do {
     n \<leftarrow> objs s o';
     s \<leftarrow> (case nact n of None \<Rightarrow> Some s | Some a \<Rightarrow> on_heap (release a) s);
     Some (s\<lparr>objs := (objs s)(o' := None)\<rparr>) }"

definition Node_assign :: "nat \<Rightarrow> nat \<Rightarrow> dom_state \<Rightarrow> dom_state option" where
  "Node_assign this other s = do {
     n \<leftarrow> objs s this;
     m \<leftarrow> objs s other;
     s \<leftarrow> (if nact n \<noteq> nact m then do { s \<leftarrow> set_obj this (nact_update (\<lambda>_. nact m)) s; count_ref (nact m) s } else Some s);
     set_obj this (ownerNode_update (\<lambda>_. ownerNode m)) s }"

text \<open>Assignment of elements, attributes and documents: without a test for NULL, and only the owner of the class is copied.\<close>

definition sub_assign :: "nat \<Rightarrow> nat \<Rightarrow> dom_state \<Rightarrow> dom_state option" where
  "sub_assign this other s = do {
     n \<leftarrow> objs s this;
     m \<leftarrow> objs s other;
     s \<leftarrow> (if nact n \<noteq> nact m
       then do { s \<leftarrow> set_obj this (nact_update (\<lambda>_. nact m)) s; a \<leftarrow> nact m; count_ref (Some a) s } else Some s);
     set_obj this (ownerSub_update (\<lambda>_. ownerSub m)) s }"

definition deleteNode :: "nat \<Rightarrow> dom_state \<Rightarrow> dom_state option" where
  "deleteNode this s = do { n \<leftarrow> objs s this; s \<leftarrow> delete_obj (ownerNode n) s; set_obj this (nact_update (\<lambda>_. None)) s }"

definition deleteAttr :: "nat \<Rightarrow> dom_state \<Rightarrow> dom_state option" where
  "deleteAttr this s = do { n \<leftarrow> objs s this; s \<leftarrow> delete_obj (ownerSub n) s; set_obj this (nact_update (\<lambda>_. None)) s }"

definition deleteElement :: "nat \<Rightarrow> dom_state \<Rightarrow> dom_state option" where
  "deleteElement this s = do { n \<leftarrow> objs s this; delete_obj (ownerSub n) s }"

definition deleteDocument :: "nat \<Rightarrow> dom_state \<Rightarrow> dom_state option" where
  "deleteDocument this s = do { n \<leftarrow> objs s this; s \<leftarrow> delete_obj (ownerSub n) s; set_obj this (nact_update (\<lambda>_. None)) s }"

definition deleteDocumentTree :: "nat \<Rightarrow> dom_state \<Rightarrow> dom_state option" where
  "deleteDocumentTree this s = do {
     n \<leftarrow> objs s this;
     ow \<leftarrow> objs s (ownerSub n);
     (case nact ow of
        None \<Rightarrow> Some s
      | Some a \<Rightarrow> do {
          s \<leftarrow> on_heap (\<lambda>h. do { h \<leftarrow> deleteNodeAct a h; free_act a h }) s;
          set_obj (ownerSub n) (nact_update (\<lambda>_. None)) s }) }"

section \<open>Reading a node\<close>

definition getNodeName :: "nat \<Rightarrow> dom_state \<Rightarrow> (int + string option) option" where
  "getNodeName this s = do {
     n \<leftarrow> objs s this;
     (case nact n of None \<Rightarrow> Some (Inl NO_SUCH_NODE) | Some a \<Rightarrow> do { m \<leftarrow> acts (heap s) a; Some (Inr (NA_NodeName m)) }) }"

definition getNodeValue :: "nat \<Rightarrow> dom_state \<Rightarrow> (int + string option) option" where
  "getNodeValue this s = do {
     n \<leftarrow> objs s this;
     (case nact n of None \<Rightarrow> Some (Inl NO_SUCH_NODE) | Some a \<Rightarrow> do { m \<leftarrow> acts (heap s) a; Some (Inr (NA_NodeValue m)) }) }"

definition setNodeValue :: "nat \<Rightarrow> string option \<Rightarrow> (int + unit) dom_op" where
  "setNodeValue this v s = do {
     n \<leftarrow> objs s this;
     (case nact n of
        None \<Rightarrow> Some (Inl NO_SUCH_NODE, s)
      | Some a \<Rightarrow> do { text \<leftarrow> v; s \<leftarrow> on_heap (set_act a (NA_NodeValue_update (\<lambda>_. Some text))) s; Some (Inr (), s) }) }"

definition getNodeType :: "nat \<Rightarrow> dom_state \<Rightarrow> (int + NODE_TYPE) option" where
  "getNodeType this s = do {
     n \<leftarrow> objs s this;
     (case nact n of None \<Rightarrow> Some (Inl NO_SUCH_NODE) | Some a \<Rightarrow> do { m \<leftarrow> acts (heap s) a; Some (Inr (NA_NodeType m)) }) }"

definition hasChildNodes :: "nat \<Rightarrow> dom_state \<Rightarrow> bool option" where
  "hasChildNodes this s = do { (_, m) \<leftarrow> node_of this s; Some (FirstChild m \<noteq> None) }"

definition isNull :: "nat \<Rightarrow> dom_state \<Rightarrow> bool option" where
  "isNull this s = do { n \<leftarrow> objs s this; Some (nact n = None) }"

text \<open>A new object for a neighbour of the node, which counts the reference.\<close>

definition linked :: "(NodeAct \<Rightarrow> nat option) \<Rightarrow> nat \<Rightarrow> nat dom_op" where
  "linked f this s = do {
     (_, m) \<leftarrow> node_of this s;
     (r, s) \<leftarrow> Some (new_obj (f m) s);
     s \<leftarrow> count_ref (f m) s;
     Some (r, s) }"

definition getParentNode :: "nat \<Rightarrow> nat dom_op" where "getParentNode = linked ParentNode"
definition getFirstChild :: "nat \<Rightarrow> nat dom_op" where "getFirstChild = linked FirstChild"
definition getLastChild :: "nat \<Rightarrow> nat dom_op" where "getLastChild = linked LastChild"
definition getPreviousSibling :: "nat \<Rightarrow> nat dom_op" where "getPreviousSibling = linked PrevSibling"
definition getNextSibling :: "nat \<Rightarrow> nat dom_op" where "getNextSibling = linked NextSibling"
definition getOwnerDocument :: "nat \<Rightarrow> nat dom_op" where "getOwnerDocument = linked (\<lambda>m. Some (OwnerNode m))"

section \<open>Making and moving nodes\<close>

text \<open>An object and its node, with one reference.\<close>

definition create :: "NODE_TYPE \<Rightarrow> string option \<Rightarrow> string option \<Rightarrow> nat dom_op" where
  "create nt name val s = do {
     (a, h) \<leftarrow> Some (new_NodeAct nt name val (heap s));
     (r, s) \<leftarrow> Some (new_obj (Some a) (s\<lparr>heap := h\<rparr>));
     s \<leftarrow> count_ref (Some a) s;
     Some (r, s) }"

definition createDocument :: "nat dom_op" where "createDocument = create DOCUMENT_NODE (Some ''#document'') None"
definition createElement :: "string option \<Rightarrow> nat dom_op" where "createElement name = create ELEMENT_NODE name None"
definition createTextNode :: "string option \<Rightarrow> nat dom_op" where "createTextNode data = create TEXT_NODE (Some ''#text'') data"
definition createAttribute :: "string option \<Rightarrow> string option \<Rightarrow> nat dom_op" where
  "createAttribute name val = create ATTRIBUTE_NODE name val"

text \<open>The result of an operation on the node: a new object for \<open>p\<close>, which does not count.\<close>

definition with_result :: "(dom_heap \<Rightarrow> (int option \<times> dom_heap) option) \<Rightarrow> nat option \<Rightarrow> (int + nat) dom_op" where
  "with_result f p s = do {
     (r, s) \<leftarrow> Some (new_obj None s);
     (exc, h) \<leftarrow> f (heap s);
     s \<leftarrow> Some (s\<lparr>heap := h\<rparr>);
     (case exc of Some e \<Rightarrow> Some (Inl e, s) | None \<Rightarrow> do { s \<leftarrow> set_obj r (nact_update (\<lambda>_. p)) s; Some (Inr r, s) }) }"

definition Node_insertBefore :: "nat \<Rightarrow> nat \<Rightarrow> nat \<Rightarrow> (int + nat) dom_op" where
  "Node_insertBefore this newChild refChild s = do {
     (a, _) \<leftarrow> node_of this s; n \<leftarrow> objs s newChild; r \<leftarrow> objs s refChild;
     with_result (insertBefore a (nact n) (nact r)) (nact n) s }"

definition Node_replaceChild :: "nat \<Rightarrow> nat \<Rightarrow> nat \<Rightarrow> (int + nat) dom_op" where
  "Node_replaceChild this newChild oldChild s = do {
     (a, _) \<leftarrow> node_of this s; n \<leftarrow> objs s newChild; old \<leftarrow> objs s oldChild;
     (res, s) \<leftarrow> with_result (replaceChild a (nact n) (nact old)) (nact old) s;
     (case res of Inl e \<Rightarrow> Some (Inl e, s) | Inr r \<Rightarrow> do { s \<leftarrow> set_obj newChild (nact_update (\<lambda>_. nact old)) s; Some (Inr r, s) }) }"

definition Node_removeChild :: "nat \<Rightarrow> nat \<Rightarrow> (int + nat) dom_op" where
  "Node_removeChild this oldChild s = do {
     (a, _) \<leftarrow> node_of this s; old \<leftarrow> objs s oldChild; with_result (removeChild a (nact old)) (nact old) s }"

definition Node_appendChild :: "nat \<Rightarrow> nat \<Rightarrow> (int + nat) dom_op" where
  "Node_appendChild this newChild s = do {
     (a, _) \<leftarrow> node_of this s; n \<leftarrow> objs s newChild; with_result (appendChild a (nact n)) (nact n) s }"

definition Node_cloneNode :: "nat \<Rightarrow> bool \<Rightarrow> nat dom_op" where
  "Node_cloneNode this deep s = do {
     (a, _) \<leftarrow> node_of this s;
     (c, h) \<leftarrow> cloneNode a deep (heap s);
     Some (new_obj (Some c) (s\<lparr>heap := h\<rparr>)) }"

section \<open>Lists and attributes\<close>

partial_function (option) siblings :: "dom_heap \<Rightarrow> nat option \<Rightarrow> nat list option" where
  "siblings h p =
     (case p of None \<Rightarrow> Some [] | Some a \<Rightarrow> do { n \<leftarrow> acts h a; rest \<leftarrow> siblings h (NextSibling n); Some (a # rest) })"

definition getChildNodes :: "nat \<Rightarrow> nat dom_op" where
  "getChildNodes this s = do {
     (_, m) \<leftarrow> node_of this s;
     kids \<leftarrow> siblings (heap s) (FirstChild m);
     Some (next_obj s, s\<lparr>lists := (lists s)(next_obj s \<mapsto> \<lparr>list_head = kids, ownerNodeList = next_obj s\<rparr>), next_obj := Suc (next_obj s)\<rparr>) }"

definition NodeList_getLength :: "nat \<Rightarrow> dom_state \<Rightarrow> int option" where
  "NodeList_getLength l s = do { m \<leftarrow> lists s l; Some (int (length (list_head m))) }"

text \<open>The last index is computed in \<open>unsigned long\<close>: of an empty list it is the largest number.\<close>

definition last_index :: "nat \<Rightarrow> nat" where
  "last_index n = (if n = 0 then 2 ^ 64 - 1 else n - 1)"

definition NodeList_item :: "nat \<Rightarrow> nat \<Rightarrow> nat dom_op" where
  "NodeList_item l index s = do {
     m \<leftarrow> lists s l;
     if index > last_index (length (list_head m)) then Some (new_obj None s)
     else if index < length (list_head m)
     then do { (r, s) \<leftarrow> Some (new_obj (Some (list_head m ! index)) s); s \<leftarrow> count_ref (Some (list_head m ! index)) s; Some (r, s) }
     else None }"

definition delete_list :: "nat \<Rightarrow> dom_state \<Rightarrow> dom_state option" where
  "delete_list l s = do { _ \<leftarrow> lists s l; Some (s\<lparr>lists := (lists s)(l := None)\<rparr>) }"

definition deleteNodeList :: "nat \<Rightarrow> dom_state \<Rightarrow> dom_state option" where
  "deleteNodeList l s = do {
     m \<leftarrow> lists s l;
     s \<leftarrow> delete_list (ownerNodeList m) s;
     m \<leftarrow> lists s l;
     Some (s\<lparr>lists := (lists s)(l \<mapsto> m\<lparr>list_head := []\<rparr>)\<rparr>) }"

definition getAttributes :: "nat \<Rightarrow> nat dom_op" where
  "getAttributes this s =
     Some (next_obj s, s\<lparr>maps := (maps s)(next_obj s \<mapsto> \<lparr>ofWho = this, ownerNamedNodeMap = next_obj s\<rparr>), next_obj := Suc (next_obj s)\<rparr>)"

text \<open>The attributes of the node a map is of.\<close>

definition map_attrs :: "nat \<Rightarrow> dom_state \<Rightarrow> nat list option" where
  "map_attrs nm s = do { m \<leftarrow> maps s nm; (_, n) \<leftarrow> node_of (ofWho m) s; siblings (heap s) (FirstAttr n) }"

definition NamedNodeMap_getLength :: "nat \<Rightarrow> dom_state \<Rightarrow> nat option" where
  "NamedNodeMap_getLength nm s = do { as \<leftarrow> map_attrs nm s; Some (length as) }"

partial_function (option) item_number :: "dom_heap \<Rightarrow> string \<Rightarrow> nat option \<Rightarrow> nat \<Rightarrow> int option" where
  "item_number h name p i =
     (case p of
        None \<Rightarrow> Some (-1)
      | Some a \<Rightarrow> do {
          n \<leftarrow> acts h a;
          this_name \<leftarrow> NA_NodeName n;
          if name = this_name then Some (int i) else item_number h name (NextSibling n) (Suc i) })"

definition getItemNumber :: "nat \<Rightarrow> string \<Rightarrow> dom_state \<Rightarrow> int option" where
  "getItemNumber nm name s = do { m \<leftarrow> maps s nm; (_, n) \<leftarrow> node_of (ofWho m) s; item_number (heap s) name (FirstAttr n) 0 }"

definition NamedNodeMap_item :: "nat \<Rightarrow> nat \<Rightarrow> nat dom_op" where
  "NamedNodeMap_item nm index s = do {
     as \<leftarrow> map_attrs nm s;
     if index > last_index (length as) then Some (new_obj None s)
     else if index < length as then do { (r, s) \<leftarrow> Some (new_obj (Some (as ! index)) s); s \<leftarrow> count_ref (Some (as ! index)) s; Some (r, s) }
     else None }"

definition getNamedItem :: "nat \<Rightarrow> string \<Rightarrow> nat dom_op" where
  "getNamedItem nm name s = do {
     i \<leftarrow> getItemNumber nm name s;
     if i = -1 then Some (new_obj None s) else NamedNodeMap_item nm (nat i) s }"

definition delete_map :: "nat \<Rightarrow> dom_state \<Rightarrow> dom_state option" where
  "delete_map nm s = do { _ \<leftarrow> maps s nm; Some (s\<lparr>maps := (maps s)(nm := None)\<rparr>) }"

definition deleteNamedNodeMap :: "nat \<Rightarrow> dom_state \<Rightarrow> dom_state option" where
  "deleteNamedNodeMap nm s = do { m \<leftarrow> maps s nm; delete_map (ownerNamedNodeMap m) s }"

text \<open>
  \<open>setAttribute\<close>: a new attribute, or a new value for the one of that name.  \<open>n\<close> and \<open>nm\<close> are
  local objects, copies of what the calls returned.
\<close>

definition add_new_attribute :: "nat \<Rightarrow> string \<Rightarrow> string option \<Rightarrow> (int + unit) dom_op" where
  "add_new_attribute this name val s = do {
     (attr, s) \<leftarrow> createAttribute (Some name) val s;
     (a, _) \<leftarrow> node_of this s;
     at \<leftarrow> objs s attr;
     (exc, h) \<leftarrow> appendChild a (nact at) (heap s);
     s \<leftarrow> Some (s\<lparr>heap := h\<rparr>);
     (case exc of Some e \<Rightarrow> Some (Inl e, s) | None \<Rightarrow> do { s \<leftarrow> delete_obj attr s; Some (Inr (), s) }) }"

definition setAttribute :: "nat \<Rightarrow> string \<Rightarrow> string option \<Rightarrow> (int + unit) dom_op" where
  "setAttribute this name val s = do {
     (n, s) \<leftarrow> Some (new_obj None s);
     (nm, s) \<leftarrow> getAttributes this s;
     (r, s) \<leftarrow> getNamedItem nm name s;
     s \<leftarrow> Node_assign n r s;
     found \<leftarrow> objs s n;
     (res, s) \<leftarrow> (case nact found of
         None \<Rightarrow> add_new_attribute this name val s
       | Some a \<Rightarrow> do { v \<leftarrow> val; s \<leftarrow> on_heap (set_act a (NA_NodeValue_update (\<lambda>_. Some v))) s; Some (Inr (), s) });
     (case res of
        Inl e \<Rightarrow> do { s \<leftarrow> delete_obj n s; Some (Inl e, s) }
      | Inr _ \<Rightarrow> do {
          s \<leftarrow> deleteNode n s;
          s \<leftarrow> deleteNamedNodeMap nm s;
          s \<leftarrow> delete_obj n s;
          Some (Inr (), s) }) }"

definition setAttributeNode :: "nat \<Rightarrow> nat \<Rightarrow> (int + nat) dom_op" where
  "setAttributeNode this newAttr s = do {
     at \<leftarrow> objs s newAttr;
     b \<leftarrow> nact at;
     s \<leftarrow> count_ref (Some b) s;
     (a, _) \<leftarrow> node_of this s;
     (exc, h) \<leftarrow> appendChild a (nact at) (heap s);
     Some ((case exc of None \<Rightarrow> Inr newAttr | Some e \<Rightarrow> Inl e), s\<lparr>heap := h\<rparr>) }"

definition Attr_getName :: "nat \<Rightarrow> dom_state \<Rightarrow> string option" where
  "Attr_getName this s = do { (_, m) \<leftarrow> node_of this s; NA_NodeName m }"

definition Attr_getValue :: "nat \<Rightarrow> dom_state \<Rightarrow> string option" where
  "Attr_getValue this s = do { (_, m) \<leftarrow> node_of this s; NA_NodeValue m }"

end
