(* ===== verification/Dom_Api.thy ===== *)
theory Dom_Api imports Dom_Node begin

text \<open>
  The C interface of the DOM (\<^verbatim>\<open>upnpdom/domCif.cpp\<close>).  A handle is an object; every call makes one, assigns to it what
  the method of the class returns, and gives NULL when it refers to no node.  The classes derive from \<open>Node\<close>, so most
  functions on documents and elements are those on nodes under another name.
\<close>

section \<open>Handles\<close>

definition UpnpNode_free :: "nat option \<Rightarrow> dom_state \<Rightarrow> dom_state option" where
  "UpnpNode_free p s = (case p of None \<Rightarrow> Some s | Some rmv \<Rightarrow> do { s \<leftarrow> deleteNode rmv s; delete_obj rmv s })"

definition UpnpElement_free :: "nat option \<Rightarrow> dom_state \<Rightarrow> dom_state option" where
  "UpnpElement_free p s = (case p of None \<Rightarrow> Some s | Some rmv \<Rightarrow> do { s \<leftarrow> deleteElement rmv s; delete_obj rmv s })"

definition UpnpDocument_free :: "nat option \<Rightarrow> dom_state \<Rightarrow> dom_state option" where
  "UpnpDocument_free p s =
     (case p of None \<Rightarrow> Some s | Some rmv \<Rightarrow> do { s \<leftarrow> deleteDocumentTree rmv s; s \<leftarrow> deleteDocument rmv s; delete_obj rmv s })"

definition UpnpDocumentTree_free :: "nat option \<Rightarrow> dom_state \<Rightarrow> dom_state option" where
  "UpnpDocumentTree_free p s = (case p of None \<Rightarrow> Some s | Some rmv \<Rightarrow> do { s \<leftarrow> deleteDocumentTree rmv s; delete_obj rmv s })"

definition UpnpNodeList_free :: "nat option \<Rightarrow> dom_state \<Rightarrow> dom_state option" where
  "UpnpNodeList_free p s = (case p of None \<Rightarrow> Some s | Some rmv \<Rightarrow> do { s \<leftarrow> deleteNodeList rmv s; delete_list rmv s })"

definition UpnpNamedNodeMap_free :: "nat option \<Rightarrow> dom_state \<Rightarrow> dom_state option" where
  "UpnpNamedNodeMap_free p s = (case p of None \<Rightarrow> Some s | Some rmv \<Rightarrow> do { s \<leftarrow> deleteNamedNodeMap rmv s; delete_map rmv s })"

text \<open>
  The shape of the functions: a new handle, the method, the assignment unless it throws; the second value is \<open>*err\<close>.
\<close>

definition give :: "(nat \<Rightarrow> nat \<Rightarrow> dom_state \<Rightarrow> dom_state option) \<Rightarrow> (nat option \<Rightarrow> dom_state \<Rightarrow> dom_state option) \<Rightarrow>
    (int + nat) dom_op \<Rightarrow> (nat option \<times> int) dom_op" where
  "give assign free f s = do {
     (ret, s) \<leftarrow> Some (new_obj None s);
     (res, s) \<leftarrow> f s;
     (err, s) \<leftarrow> (case res of Inl e \<Rightarrow> Some (e, s) | Inr r \<Rightarrow> do { s \<leftarrow> assign ret r s; Some (0, s) });
     null \<leftarrow> isNull ret s;
     if null then do { s \<leftarrow> free (Some ret) s; Some ((None, err), s) } else Some ((Some ret, err), s) }"

text \<open>A method that throws nothing.\<close>

definition no_throw :: "nat dom_op \<Rightarrow> (int + nat) dom_op" where
  "no_throw f s = do { (r, s) \<leftarrow> f s; Some (Inr r, s) }"

definition give_value :: "(nat \<Rightarrow> nat \<Rightarrow> dom_state \<Rightarrow> dom_state option) \<Rightarrow> (nat option \<Rightarrow> dom_state \<Rightarrow> dom_state option) \<Rightarrow>
    nat dom_op \<Rightarrow> nat option dom_op" where
  "give_value assign free f s = do { ((r, _), s) \<leftarrow> give assign free (no_throw f) s; Some (r, s) }"

definition give_list :: "nat dom_op \<Rightarrow> nat option dom_op" where
  "give_list f s = do {
     (l, s) \<leftarrow> f s;
     m \<leftarrow> lists s l;
     (ret, s) \<leftarrow> Some (next_obj s, s\<lparr>lists := (lists s)(next_obj s \<mapsto> m), next_obj := Suc (next_obj s)\<rparr>);
     n \<leftarrow> NodeList_getLength ret s;
     if n = 0 then do { s \<leftarrow> UpnpNodeList_free (Some ret) s; Some (None, s) } else Some (Some ret, s) }"

definition give_map :: "nat dom_op \<Rightarrow> nat option dom_op" where
  "give_map f s = do {
     (nm, s) \<leftarrow> f s;
     m \<leftarrow> maps s nm;
     (ret, s) \<leftarrow> Some (next_obj s, s\<lparr>maps := (maps s)(next_obj s \<mapsto> m), next_obj := Suc (next_obj s)\<rparr>);
     n \<leftarrow> NamedNodeMap_getLength ret s;
     if n = 0 then do { s \<leftarrow> UpnpNamedNodeMap_free (Some ret) s; Some (None, s) } else Some (Some ret, s) }"

text \<open>An attribute that is not returned is only deleted.\<close>

definition delete_handle :: "nat option \<Rightarrow> dom_state \<Rightarrow> dom_state option" where
  "delete_handle p s = (case p of None \<Rightarrow> Some s | Some ret \<Rightarrow> delete_obj ret s)"

definition caught :: "(int + 'a) dom_op \<Rightarrow> int dom_op" where
  "caught f s = do { (res, s) \<leftarrow> f s; Some ((case res of Inl e \<Rightarrow> e | Inr _ \<Rightarrow> 0), s) }"

section \<open>Nodes\<close>

definition UpnpNode_insertBefore :: "nat \<Rightarrow> nat \<Rightarrow> nat \<Rightarrow> (nat option \<times> int) dom_op" where
  "UpnpNode_insertBefore this newChild refChild = give Node_assign UpnpNode_free (Node_insertBefore this newChild refChild)"

definition UpnpNode_replaceChild :: "nat \<Rightarrow> nat \<Rightarrow> nat \<Rightarrow> (nat option \<times> int) dom_op" where
  "UpnpNode_replaceChild this newChild oldChild = give Node_assign UpnpNode_free (Node_replaceChild this newChild oldChild)"

definition UpnpNode_removeChild :: "nat \<Rightarrow> nat \<Rightarrow> (nat option \<times> int) dom_op" where
  "UpnpNode_removeChild this oldChild = give Node_assign UpnpNode_free (Node_removeChild this oldChild)"

definition UpnpNode_appendChild :: "nat \<Rightarrow> nat \<Rightarrow> (nat option \<times> int) dom_op" where
  "UpnpNode_appendChild this newChild = give Node_assign UpnpNode_free (Node_appendChild this newChild)"

definition UpnpNode_hasChildNodes :: "nat \<Rightarrow> dom_state \<Rightarrow> bool option" where
  "UpnpNode_hasChildNodes this = hasChildNodes this"

definition UpnpNode_cloneNode :: "nat \<Rightarrow> int \<Rightarrow> nat option dom_op" where
  "UpnpNode_cloneNode this deep = give_value Node_assign UpnpNode_free (Node_cloneNode this (deep > 0))"

definition UpnpNode_getNodeName :: "nat \<Rightarrow> dom_state \<Rightarrow> (int + string option) option" where
  "UpnpNode_getNodeName this = getNodeName this"

definition UpnpNode_getNodeValue :: "nat \<Rightarrow> dom_state \<Rightarrow> (string option \<times> int) option" where
  "UpnpNode_getNodeValue this s = do { v \<leftarrow> getNodeValue this s; Some (case v of Inl e \<Rightarrow> (None, e) | Inr t \<Rightarrow> (t, 0)) }"

definition UpnpNode_setNodeValue :: "nat \<Rightarrow> string option \<Rightarrow> int dom_op" where
  "UpnpNode_setNodeValue this v = caught (setNodeValue this v)"

definition UpnpNode_getNodeType :: "nat \<Rightarrow> dom_state \<Rightarrow> (int + NODE_TYPE) option" where
  "UpnpNode_getNodeType this = getNodeType this"

definition UpnpNode_getParentNode :: "nat \<Rightarrow> nat option dom_op" where
  "UpnpNode_getParentNode this = give_value Node_assign UpnpNode_free (getParentNode this)"

definition UpnpNode_getFirstChild :: "nat \<Rightarrow> nat option dom_op" where
  "UpnpNode_getFirstChild this = give_value Node_assign UpnpNode_free (getFirstChild this)"

definition UpnpNode_getLastChild :: "nat \<Rightarrow> nat option dom_op" where
  "UpnpNode_getLastChild this = give_value Node_assign UpnpNode_free (getLastChild this)"

definition UpnpNode_getPreviousSibling :: "nat \<Rightarrow> nat option dom_op" where
  "UpnpNode_getPreviousSibling this = give_value Node_assign UpnpNode_free (getPreviousSibling this)"

definition UpnpNode_getNextSibling :: "nat \<Rightarrow> nat option dom_op" where
  "UpnpNode_getNextSibling this = give_value Node_assign UpnpNode_free (getNextSibling this)"

definition UpnpNode_getChildNodes :: "nat \<Rightarrow> nat option dom_op" where
  "UpnpNode_getChildNodes this = give_list (getChildNodes this)"

definition UpnpNode_getAttributes :: "nat \<Rightarrow> nat option dom_op" where
  "UpnpNode_getAttributes this = give_map (getAttributes this)"

definition UpnpNode_getOwnerDocument :: "nat \<Rightarrow> nat option dom_op" where
  "UpnpNode_getOwnerDocument this = give_value sub_assign UpnpDocument_free (getOwnerDocument this)"

section \<open>Documents\<close>

definition UpnpDocument_insertBefore :: "nat \<Rightarrow> nat \<Rightarrow> nat \<Rightarrow> (nat option \<times> int) dom_op" where
  "UpnpDocument_insertBefore this newChild refChild = give Node_assign UpnpNode_free (Node_insertBefore this newChild refChild)"

definition UpnpDocument_replaceChild :: "nat \<Rightarrow> nat \<Rightarrow> nat \<Rightarrow> (nat option \<times> int) dom_op" where
  "UpnpDocument_replaceChild this newChild oldChild = give Node_assign UpnpNode_free (Node_replaceChild this newChild oldChild)"

definition UpnpDocument_removeChild :: "nat \<Rightarrow> nat \<Rightarrow> (nat option \<times> int) dom_op" where
  "UpnpDocument_removeChild this oldChild = give Node_assign UpnpNode_free (Node_removeChild this oldChild)"

definition UpnpDocument_appendChild :: "nat \<Rightarrow> nat \<Rightarrow> (nat option \<times> int) dom_op" where
  "UpnpDocument_appendChild this newChild = give Node_assign UpnpNode_free (Node_appendChild this newChild)"

definition UpnpDocument_hasChildNodes :: "nat \<Rightarrow> dom_state \<Rightarrow> bool option" where
  "UpnpDocument_hasChildNodes this = hasChildNodes this"

definition UpnpDocument_cloneNode :: "nat \<Rightarrow> int \<Rightarrow> nat option dom_op" where
  "UpnpDocument_cloneNode this deep = give_value Node_assign UpnpNode_free (Node_cloneNode this (deep > 0))"

definition UpnpDocument_getNodeName :: "nat \<Rightarrow> dom_state \<Rightarrow> (int + string option) option" where
  "UpnpDocument_getNodeName this = getNodeName this"

definition UpnpDocument_getNodeValue :: "nat \<Rightarrow> dom_state \<Rightarrow> (string option \<times> int) option" where
  "UpnpDocument_getNodeValue this s = do { v \<leftarrow> getNodeValue this s; Some (case v of Inl e \<Rightarrow> (None, e) | Inr t \<Rightarrow> (t, 0)) }"

definition UpnpDocument_setNodeValue :: "nat \<Rightarrow> string option \<Rightarrow> int dom_op" where
  "UpnpDocument_setNodeValue this v = caught (setNodeValue this v)"

definition UpnpDocument_getNodeType :: "nat \<Rightarrow> dom_state \<Rightarrow> (int + NODE_TYPE) option" where
  "UpnpDocument_getNodeType this = getNodeType this"

definition UpnpDocument_getParentNode :: "nat \<Rightarrow> nat option dom_op" where
  "UpnpDocument_getParentNode this = give_value Node_assign UpnpNode_free (getParentNode this)"

definition UpnpDocument_getFirstChild :: "nat \<Rightarrow> nat option dom_op" where
  "UpnpDocument_getFirstChild this = give_value Node_assign UpnpNode_free (getFirstChild this)"

definition UpnpDocument_getLastChild :: "nat \<Rightarrow> nat option dom_op" where
  "UpnpDocument_getLastChild this = give_value Node_assign UpnpNode_free (getLastChild this)"

definition UpnpDocument_getPreviousSibling :: "nat \<Rightarrow> nat option dom_op" where
  "UpnpDocument_getPreviousSibling this = give_value Node_assign UpnpNode_free (getPreviousSibling this)"

definition UpnpDocument_getNextSibling :: "nat \<Rightarrow> nat option dom_op" where
  "UpnpDocument_getNextSibling this = give_value Node_assign UpnpNode_free (getNextSibling this)"

definition UpnpDocument_getChildNodes :: "nat \<Rightarrow> nat option dom_op" where
  "UpnpDocument_getChildNodes this = give_list (getChildNodes this)"

definition UpnpDocument_getAttributes :: "nat \<Rightarrow> nat option dom_op" where
  "UpnpDocument_getAttributes this = give_map (getAttributes this)"

definition UpnpDocument_getOwnerDocument :: "nat \<Rightarrow> nat option dom_op" where
  "UpnpDocument_getOwnerDocument this = give_value sub_assign UpnpDocument_free (getOwnerDocument this)"

definition UpnpDocument_createDocument :: "nat option dom_op" where
  "UpnpDocument_createDocument = give_value sub_assign UpnpDocument_free createDocument"

definition UpnpDocument_createElement :: "string option \<Rightarrow> (nat option \<times> int) dom_op" where
  "UpnpDocument_createElement tagName = give sub_assign UpnpElement_free (no_throw (createElement tagName))"

definition UpnpDocument_createTextNode :: "string option \<Rightarrow> nat option dom_op" where
  "UpnpDocument_createTextNode data = give_value Node_assign UpnpNode_free (createTextNode data)"

definition UpnpDocument_createAttribute :: "string option \<Rightarrow> (nat option \<times> int) dom_op" where
  "UpnpDocument_createAttribute name = give sub_assign delete_handle (no_throw (createAttribute name (Some [])))"

section \<open>Elements\<close>

definition UpnpElement_insertBefore :: "nat \<Rightarrow> nat \<Rightarrow> nat \<Rightarrow> (nat option \<times> int) dom_op" where
  "UpnpElement_insertBefore this newChild refChild = give Node_assign UpnpNode_free (Node_insertBefore this newChild refChild)"

definition UpnpElement_replaceChild :: "nat \<Rightarrow> nat \<Rightarrow> nat \<Rightarrow> (nat option \<times> int) dom_op" where
  "UpnpElement_replaceChild this newChild oldChild = give Node_assign UpnpNode_free (Node_replaceChild this newChild oldChild)"

definition UpnpElement_removeChild :: "nat \<Rightarrow> nat \<Rightarrow> (nat option \<times> int) dom_op" where
  "UpnpElement_removeChild this oldChild = give Node_assign UpnpNode_free (Node_removeChild this oldChild)"

definition UpnpElement_appendChild :: "nat \<Rightarrow> nat \<Rightarrow> (nat option \<times> int) dom_op" where
  "UpnpElement_appendChild this newChild = give Node_assign UpnpNode_free (Node_appendChild this newChild)"

definition UpnpElement_hasChildNodes :: "nat \<Rightarrow> dom_state \<Rightarrow> bool option" where
  "UpnpElement_hasChildNodes this = hasChildNodes this"

definition UpnpElement_cloneNode :: "nat \<Rightarrow> int \<Rightarrow> nat option dom_op" where
  "UpnpElement_cloneNode this deep = give_value Node_assign UpnpNode_free (Node_cloneNode this (deep > 0))"

definition UpnpElement_getNodeName :: "nat \<Rightarrow> dom_state \<Rightarrow> (int + string option) option" where
  "UpnpElement_getNodeName this = getNodeName this"

definition UpnpElement_getNodeValue :: "nat \<Rightarrow> dom_state \<Rightarrow> (string option \<times> int) option" where
  "UpnpElement_getNodeValue this s = do { v \<leftarrow> getNodeValue this s; Some (case v of Inl e \<Rightarrow> (None, e) | Inr t \<Rightarrow> (t, 0)) }"

definition UpnpElement_setNodeValue :: "nat \<Rightarrow> string option \<Rightarrow> int dom_op" where
  "UpnpElement_setNodeValue this v = caught (setNodeValue this v)"

definition UpnpElement_getNodeType :: "nat \<Rightarrow> dom_state \<Rightarrow> (int + NODE_TYPE) option" where
  "UpnpElement_getNodeType this = getNodeType this"

definition UpnpElement_getParentNode :: "nat \<Rightarrow> nat option dom_op" where
  "UpnpElement_getParentNode this = give_value Node_assign UpnpNode_free (getParentNode this)"

definition UpnpElement_getFirstChild :: "nat \<Rightarrow> nat option dom_op" where
  "UpnpElement_getFirstChild this = give_value Node_assign UpnpNode_free (getFirstChild this)"

definition UpnpElement_getLastChild :: "nat \<Rightarrow> nat option dom_op" where
  "UpnpElement_getLastChild this = give_value Node_assign UpnpNode_free (getLastChild this)"

definition UpnpElement_getPreviousSibling :: "nat \<Rightarrow> nat option dom_op" where
  "UpnpElement_getPreviousSibling this = give_value Node_assign UpnpNode_free (getPreviousSibling this)"

definition UpnpElement_getNextSibling :: "nat \<Rightarrow> nat option dom_op" where
  "UpnpElement_getNextSibling this = give_value Node_assign UpnpNode_free (getNextSibling this)"

definition UpnpElement_getChildNodes :: "nat \<Rightarrow> nat option dom_op" where
  "UpnpElement_getChildNodes this = give_list (getChildNodes this)"

definition UpnpElement_getAttributes :: "nat \<Rightarrow> nat option dom_op" where
  "UpnpElement_getAttributes this = give_map (getAttributes this)"

definition UpnpElement_getOwnerDocument :: "nat \<Rightarrow> nat option dom_op" where
  "UpnpElement_getOwnerDocument this = give_value sub_assign UpnpDocument_free (getOwnerDocument this)"

definition UpnpElement_setAttribute :: "nat \<Rightarrow> string \<Rightarrow> string option \<Rightarrow> int dom_op" where
  "UpnpElement_setAttribute this name val = caught (setAttribute this name val)"

definition UpnpElement_setAttributeNode :: "nat \<Rightarrow> nat \<Rightarrow> (nat option \<times> int) dom_op" where
  "UpnpElement_setAttributeNode this newAttr = give sub_assign delete_handle (setAttributeNode this newAttr)"

section \<open>Lists and maps of attributes\<close>

definition UpnpNodeList_item :: "nat \<Rightarrow> nat \<Rightarrow> nat option dom_op" where
  "UpnpNodeList_item l index = give_value Node_assign UpnpNode_free (NodeList_item l index)"

definition UpnpNodeList_getLength :: "nat \<Rightarrow> dom_state \<Rightarrow> int option" where
  "UpnpNodeList_getLength l = NodeList_getLength l"

definition UpnpNamedNodeMap_getNamedItem :: "nat \<Rightarrow> string \<Rightarrow> nat option dom_op" where
  "UpnpNamedNodeMap_getNamedItem nm name = give_value Node_assign UpnpNode_free (getNamedItem nm name)"

definition UpnpNamedNodeMap_item :: "nat \<Rightarrow> nat \<Rightarrow> nat option dom_op" where
  "UpnpNamedNodeMap_item nm index = give_value Node_assign UpnpNode_free (NamedNodeMap_item nm index)"

definition UpnpNamedNodeMap_getLength :: "nat \<Rightarrow> dom_state \<Rightarrow> nat option" where
  "UpnpNamedNodeMap_getLength nm = NamedNodeMap_getLength nm"

end
