(* ===== verification/Dom_Handles.thy ===== *)
theory Dom_Handles imports Dom_Api begin

text \<open>
  What the C interface of the DOM does to handles, counts of references and memory.
\<close>

section \<open>Handles\<close>

definition objs_ok :: "dom_state \<Rightarrow> bool" where
  "objs_ok s = (\<forall>x. objs s x \<noteq> None \<longrightarrow> x < next_obj s)"

lemma objs_fresh: "objs_ok s \<Longrightarrow> objs s x = Some n \<Longrightarrow> x < next_obj s"
  by (auto simp: objs_ok_def)

lemma no_obj: "objs_ok s \<Longrightarrow> next_obj s \<le> x \<Longrightarrow> objs s x = None"
  by (meson leD not_Some_eq objs_fresh)

text \<open>One more reference.\<close>

definition referred :: "nat \<Rightarrow> int \<Rightarrow> dom_heap \<Rightarrow> dom_heap" where
  "referred b d h = h\<lparr>acts := (acts h)(b := map_option (\<lambda>n. n\<lparr>RefCount := RefCount n + d\<rparr>) (acts h b))\<rparr>"

lemma count_ref_referred: "acts (heap s) b \<noteq> None \<Longrightarrow> count_ref (Some b) s = Some (s\<lparr>heap := referred b 1 (heap s)\<rparr>)"
  by (auto simp: count_ref_def on_heap_def set_opt_def set_act_def referred_def)

lemma release_referred:
  "acts h b = Some k \<Longrightarrow> RefCount k \<noteq> 1 \<Longrightarrow> release b h = Some (referred b (-1) h)"
  by (auto simp: release_def set_act_def referred_def)

lemma referred_referred: "referred b d (referred b e h) = referred b (d + e) h"
  by (cases "acts h b") (auto simp: referred_def ac_simps)

lemma referred_at: "acts (referred b d h) b = map_option (\<lambda>n. n\<lparr>RefCount := RefCount n + d\<rparr>) (acts h b)"
  "x \<noteq> b \<Longrightarrow> acts (referred b d h) x = acts h x"
  by (simp_all add: referred_def)

text \<open>A handle for a neighbour that is fetched and freed again leaves the reference of the handle itself.\<close>

lemma fetch_and_free:
  assumes s: "objs_ok s" and th: "objs s this = Some n" "nact n = Some a" "acts (heap s) a = Some m"
    and b: "f m = Some b" "acts (heap s) b = Some k" "0 \<le> RefCount k"
  shows "\<exists>h s1 s2. give_value Node_assign UpnpNode_free (linked f this) s = Some (Some h, s1) \<and>
    UpnpNode_free (Some h) s1 = Some s2 \<and> heap s2 = referred b 1 (heap s) \<and> objs s2 = objs s"
proof -
  have "this < next_obj s" using objs_fresh [OF s th(1)] .
  then show ?thesis using th b no_obj [OF s]
    by (auto simp: give_value_def give_def no_throw_def linked_def node_of_def new_obj_def count_ref_referred Node_assign_def set_obj_def
      isNull_def UpnpNode_free_def deleteNode_def delete_obj_def on_heap_def referred_at release_referred referred_referred fun_eq_iff)
qed

lemma UpnpNode_getFirstChild_leaks:
  assumes "objs_ok s" "objs s this = Some n" "nact n = Some a" "acts (heap s) a = Some m"
    and "FirstChild m = Some b" "acts (heap s) b = Some k" "0 \<le> RefCount k"
  shows "\<exists>h s1 s2. UpnpNode_getFirstChild this s = Some (Some h, s1) \<and> UpnpNode_free (Some h) s1 = Some s2 \<and>
    heap s2 = referred b 1 (heap s) \<and> objs s2 = objs s"
  unfolding UpnpNode_getFirstChild_def getFirstChild_def by (rule fetch_and_free) (fact assms)+

text \<open>A handle that refers to nothing is its own owner: freeing it frees it twice.\<close>

lemma free_own_handle: "objs s h = Some n \<Longrightarrow> ownerNode n = h \<Longrightarrow> UpnpNode_free (Some h) s = None"
  by (auto simp: UpnpNode_free_def deleteNode_def delete_obj_def on_heap_def set_obj_def split: bind_splits option.splits)

lemma give_thrown:
  assumes "f (snd (new_obj None s)) = Some (Inl e, s1)" "objs s1 (next_obj s) = objs (snd (new_obj None s)) (next_obj s)"
  shows "give Node_assign UpnpNode_free f s = None"
  using assms by (simp add: give_def new_obj_def isNull_def free_own_handle)

lemma with_result_thrown:
  assumes "f (heap s) = Some (Some e, heap s)"
  shows "with_result f p s = Some (Inl e, snd (new_obj None s))"
  using assms by (simp add: with_result_def new_obj_def)

lemma not_found_double_free:
  assumes s: "objs_ok s" and th: "objs s this = Some t" "nact t = Some a" "acts (heap s) a = Some m"
    and n: "objs s newChild = Some n" and r: "objs s child = Some r" "nact r = Some c" "findNode a (Some c) (heap s) = Some False"
  shows "UpnpNode_insertBefore this newChild child s = None \<and> UpnpNode_replaceChild this newChild child s = None \<and>
    UpnpNode_removeChild this child s = None"
proof -
  have lt: "this < next_obj s" "newChild < next_obj s" "child < next_obj s" using objs_fresh [OF s] th n r by blast+
  let ?s = "snd (new_obj None s)"
  have s1: "node_of this ?s = Some (a, m)" "objs ?s newChild = Some n" "objs ?s child = Some r" "heap ?s = heap s"
    using lt th n r by (auto simp: node_of_def new_obj_def)
  have keep: "objs (snd (new_obj None ?s)) (next_obj s) = objs ?s (next_obj s)" by (simp add: new_obj_def)
  let ?thrown = "\<lambda>f. \<forall>p. with_result f p ?s = Some (Inl NOT_FOUND_ERR, snd (new_obj None ?s))"
  have "?thrown (insertBefore a (nact n) (nact r))" "?thrown (replaceChild a (nact n) (nact r))" "?thrown (removeChild a (nact r))"
    by (intro allI with_result_thrown; use r s1 in \<open>simp add: insertBefore_def replaceChild_def removeChild_def\<close>)+
  then have "Node_insertBefore this newChild child ?s = Some (Inl NOT_FOUND_ERR, snd (new_obj None ?s))"
    "Node_replaceChild this newChild child ?s = Some (Inl NOT_FOUND_ERR, snd (new_obj None ?s))"
    "Node_removeChild this child ?s = Some (Inl NOT_FOUND_ERR, snd (new_obj None ?s))"
    using s1 by (simp_all add: Node_insertBefore_def Node_replaceChild_def Node_removeChild_def)
  then show ?thesis unfolding UpnpNode_insertBefore_def UpnpNode_replaceChild_def UpnpNode_removeChild_def
    using give_thrown [OF _ keep] by blast
qed

section \<open>Documents\<close>

text \<open>Freeing only the tree uses the freed root: the handle is not the object whose pointer was cleared.\<close>

lemma UpnpDocumentTree_free_uses_freed:
  assumes "objs s d = Some n" "nact n = Some a" "ownerSub n \<noteq> d" "objs s (ownerSub n) = Some ow" "nact ow = Some a"
  shows "UpnpDocumentTree_free (Some d) s = None"
  using assms
  by (auto simp: UpnpDocumentTree_free_def deleteDocumentTree_def on_heap_def free_act_def set_obj_def delete_obj_def release_def set_act_def
    split: bind_splits)

text \<open>The tree and its root.\<close>

lemma root_freed:
  assumes ok: "dom_ok h K A" and a: "acts h a \<noteq> None"
  shows "do { h \<leftarrow> deleteNodeAct a h; free_act a h } = Some (without (insert a (tree_of K A a)) h)"
proof -
  have "a \<notin> nodes_under K a" using wf_acyclic [OF below_wf [OF ok]] by (auto simp: nodes_under_def acyclic_def)
  moreover have "a \<notin> set (A x)" if "x \<in> nodes_under K a" for x
    using that under_none [of K a] ok unfolding dom_ok_def shape_ok_def by blast
  ultimately have "a \<notin> tree_of K A a" by (auto simp: tree_of_def)
  then show ?thesis using nodes_freed [OF ok a] a by (auto simp: free_act_def without_def intro!: heap_eqI)
qed

text \<open>Freeing a document frees the root, the nodes below it and their attributes, both handles and nothing else.\<close>

lemma document_freed:
  assumes ok: "dom_ok (heap s) K A" and d: "objs s d = Some n" "nact n = Some a" "ownerSub n \<noteq> d"
    and ow: "objs s (ownerSub n) = Some ow" "nact ow = Some a" and a: "acts (heap s) a \<noteq> None"
  shows "UpnpDocument_free (Some d) s =
    Some (s\<lparr>heap := without (insert a (tree_of K A a)) (heap s), objs := (objs s)(d := None, ownerSub n := None)\<rparr>)"
  using d ow root_freed [OF ok a]
  by (auto simp: UpnpDocument_free_def deleteDocumentTree_def deleteDocument_def on_heap_def set_obj_def delete_obj_def fun_upd_twist)

section \<open>New nodes\<close>

text \<open>The last reference.\<close>

lemma release_last:
  "acts h a = Some n \<Longrightarrow> RefCount n = 1 \<Longrightarrow> FirstChild n = None \<Longrightarrow> release a h = Some (h\<lparr>acts := (acts h)(a := None)\<rparr>)"
  by (auto simp: release_def set_act_def deleteNodeAct.simps free_act_def)

lemma new_at:
  "new_NodeAct nt name val h = (a, h') \<Longrightarrow> a = next_id h \<and> acts h' = (acts h)(a \<mapsto> \<lparr>NA_NodeName = name, NA_NodeValue = val, NA_NodeType = nt,
     ParentNode = None, FirstChild = None, LastChild = None, OwnerNode = a, NextSibling = None, PrevSibling = None,
     FirstAttr = None, LastAttr = None, RefCount = 0\<rparr>) \<and> next_id h' = Suc a \<and> Found h' = Found h"
  by (auto simp: new_NodeAct_def alloc_act_def)

text \<open>
  An element that is made and freed is gone; a text node that is made and freed stays in memory with one reference, because
  \<open>deleteNode\<close> clears the pointer before the second object is deleted.
\<close>

lemma created_element_freed:
  assumes s: "objs_ok s" and new: "acts (heap s) (next_id (heap s)) = None"
  shows "\<exists>e s1 s2. UpnpDocument_createElement name s = Some ((Some e, 0), s1) \<and> UpnpElement_free (Some e) s1 = Some s2 \<and>
    acts (heap s2) = acts (heap s) \<and> objs s2 = objs s"
proof -
  obtain a h where h: "new_NodeAct ELEMENT_NODE name None (heap s) = (a, h)" by fastforce
  show ?thesis using h new_at [OF h] new no_obj [OF s]
    by (auto simp: UpnpDocument_createElement_def give_def no_throw_def createElement_def create_def new_obj_def count_ref_referred sub_assign_def set_obj_def
      isNull_def UpnpElement_free_def deleteElement_def delete_obj_def on_heap_def referred_at release_referred release_last referred_referred fun_eq_iff)
qed

lemma created_text_leaks:
  assumes s: "objs_ok s" and h: "new_NodeAct TEXT_NODE (Some ''#text'') val (heap s) = (a, h)"
  shows "\<exists>e s1 s2. UpnpDocument_createTextNode val s = Some (Some e, s1) \<and> UpnpNode_free (Some e) s1 = Some s2 \<and>
    heap s2 = referred a 1 h \<and> objs s2 = objs s"
  using h new_at [OF h] no_obj [OF s]
  by (auto simp: UpnpDocument_createTextNode_def give_value_def give_def no_throw_def createTextNode_def create_def new_obj_def count_ref_referred Node_assign_def set_obj_def
      isNull_def UpnpNode_free_def deleteNode_def delete_obj_def on_heap_def referred_at release_referred release_last referred_referred fun_eq_iff)

end
