(* ===== verification/Dom_Reader.thy ===== *)
theory Dom_Reader imports Dom_Handles begin

text \<open>
  The parser building nodes (\<^verbatim>\<open>Document::ReadDocumentFileOrBuffer\<close>): the calls of \<open>appendChild\<close> on the node
  \<open>CurrentNodePtr\<close> and the local objects \<open>ele\<close> and \<open>attr\<close> of each round.  It refines the reader of
  \<^verbatim>\<open>Xml_Reader\<close>, whose frames are the nodes from the current one up to the document.
\<close>

section \<open>The loop\<close>

text \<open>Whether \<open>appendChild\<close> threw.\<close>

definition append_to :: "nat option \<Rightarrow> nat \<Rightarrow> bool dom_op" where
  "append_to cur x s = do {
     c \<leftarrow> cur;
     n \<leftarrow> objs s x;
     (exc, h) \<leftarrow> appendChild c (nact n) (heap s);
     Some (exc \<noteq> None, s\<lparr>heap := h\<rparr>) }"

text \<open>A new element or attribute through the local object \<open>x\<close>.\<close>

definition build_with :: "nat \<Rightarrow> nat dom_op \<Rightarrow> nat option \<Rightarrow> bool dom_op" where
  "build_with x mk cur s = do {
     (e, s) \<leftarrow> mk s;
     s \<leftarrow> sub_assign x e s;
     (thrown, s) \<leftarrow> append_to cur x s;
     if thrown then Some (True, s)
     else do { xo \<leftarrow> objs s x; s \<leftarrow> delete_obj (ownerSub xo) s; Some (False, s) } }"

text \<open>The new \<open>CurrentNodePtr\<close>, or an exception.\<close>

definition node_case :: "nat \<Rightarrow> nat \<Rightarrow> node_event \<Rightarrow> nat option \<Rightarrow> nat option option dom_op" where
  "node_case ele attr v cur s =
     (if \<not> IsEnd v
      then (case NodeType v of
          ELEMENT_NODE \<Rightarrow> do {
            (thrown, s) \<leftarrow> build_with ele (createElement (NodeName v)) cur s;
            if thrown then Some (None, s)
            else do { c \<leftarrow> cur; n \<leftarrow> acts (heap s) c; Some (Some (LastChild n), s) } }
        | TEXT_NODE \<Rightarrow> do {
            (b, s) \<leftarrow> create TEXT_NODE (NodeName v) (NodeValue v) s;
            (thrown, s) \<leftarrow> append_to cur b s;
            if thrown then Some (None, s) else do { s \<leftarrow> delete_obj b s; Some (Some cur, s) } }
        | ATTRIBUTE_NODE \<Rightarrow> do {
            (thrown, s) \<leftarrow> build_with attr (createAttribute (NodeName v) (NodeValue v)) cur s;
            Some (if thrown then None else Some cur, s) }
        | _ \<Rightarrow> Some (Some cur, s))
      else do {
        c \<leftarrow> cur;
        n \<leftarrow> acts (heap s) c;
        m \<leftarrow> NodeName v;
        this_name \<leftarrow> NA_NodeName n;
        Some (if m = this_name then Some (ParentNode n) else None, s) })"

text \<open>
  One round.  The two local objects are destroyed at its end; after an exception that is after the tree was deleted, which
  makes no difference because they refer to no node of the tree then.
\<close>

definition build_node :: "node_event \<Rightarrow> nat option \<Rightarrow> nat option option dom_op" where
  "build_node v cur s = do {
     (ele, s) \<leftarrow> Some (new_obj None s);
     (attr, s) \<leftarrow> Some (new_obj None s);
     (res, s) \<leftarrow> node_case ele attr v cur s;
     s \<leftarrow> delete_obj attr s;
     s \<leftarrow> delete_obj ele s;
     Some (res, s) }"

datatype built = Building | Refused dom_state | Built nat dom_state

text \<open>After an error the tree and the document are deleted.\<close>

definition refuse :: "nat \<Rightarrow> dom_state \<Rightarrow> built option" where
  "refuse root s = do { s \<leftarrow> deleteDocumentTree root s; s \<leftarrow> delete_obj root s; Some (Refused s) }"

fun build_loop :: "nat \<Rightarrow> nat \<Rightarrow> node_event \<Rightarrow> nat \<Rightarrow> nat option \<Rightarrow> Parser \<Rightarrow> dom_state \<Rightarrow> built option" where
  "build_loop N 0 v root cur p s = Some Building"
| "build_loop N (Suc n) v root cur p s =
     (case getNextNode N v p of
        None \<Rightarrow> None
      | Some Reading \<Rightarrow> Some Building
      | Some Wrong \<Rightarrow> refuse root s
      | Some (Xml_Reader.Node v p) \<Rightarrow>
          (case build_node v cur s of
             None \<Rightarrow> None
           | Some (None, s) \<Rightarrow> refuse root s
           | Some (Some cur, s) \<Rightarrow>
               if NodeType v = INVALID_NODE then Some (Built root s) else build_loop N n no_node root cur p s))"

definition read_document :: "nat \<Rightarrow> node_event \<Rightarrow> string \<Rightarrow> dom_state \<Rightarrow> built option" where
  "read_document n v0 xmlFile s =
     (if xmlFile = [] then Some (Refused s)
      else do {
        (root, s) \<leftarrow> createDocument s;
        ro \<leftarrow> objs s root;
        build_loop n n (v0\<lparr>NodeName := None, NodeValue := None\<rparr>) root (nact ro) (new_parser xmlFile) s })"

text \<open>\<open>UpnpParse_Buffer\<close>: the handle of the document, \<open>None\<close> while the parser has not returned.  After an error the new handle leaks.\<close>

definition parse_buffer :: "nat \<Rightarrow> node_event \<Rightarrow> string \<Rightarrow> nat option option dom_op" where
  "parse_buffer n v0 Buff1 s =
     (if Buff1 = [] then Some (Some None, s)
      else do {
        (ret, s) \<leftarrow> Some (new_obj None s);
        b \<leftarrow> read_document n v0 Buff1 s;
        (case b of
           Building \<Rightarrow> Some (None, s)
         | Refused s \<Rightarrow> Some (Some None, s)
         | Built root s \<Rightarrow> do { s \<leftarrow> sub_assign ret root s; Some (Some (Some ret), s) }) })"

section \<open>Trees of nodes\<close>

definition attr_is :: "dom_heap \<Rightarrow> string \<times> string \<Rightarrow> nat \<Rightarrow> bool" where
  "attr_is h mv b = (\<exists>n. acts h b = Some n \<and> NA_NodeName n = Some (fst mv) \<and> NA_NodeValue n = Some (snd mv))"

text \<open>The node \<open>a\<close> is the root of the tree \<open>d\<close>, in which no node of \<open>X\<close> is.\<close>

inductive holds :: "dom_heap \<Rightarrow> (nat \<Rightarrow> nat list) \<Rightarrow> (nat \<Rightarrow> nat list) \<Rightarrow> nat set \<Rightarrow> dom \<Rightarrow> nat \<Rightarrow> bool"
  for h K A X where
  holds_text: "holds h K A X (TextNode t) a"
    if "acts h a = Some n" "NA_NodeType n = TEXT_NODE" "NA_NodeValue n = Some t" "K a = []" "a \<notin> X"
| holds_element: "holds h K A X (Element m as ds) a"
    if "acts h a = Some n" "NA_NodeType n = ELEMENT_NODE \<or> NA_NodeType n = DOCUMENT_NODE" "NA_NodeName n = Some m" "a \<notin> X"
      "list_all2 (attr_is h) as (A a)" "list_all2 (holds h K A X) ds (K a)"

lemma holds_more: "holds h K A X d a \<Longrightarrow> Y \<subseteq> X \<Longrightarrow> holds h K A Y d a"
proof (induction rule: holds.induct)
  case (holds_text a n t)
  then show ?case by (auto intro: holds.holds_text)
next
  case (holds_element a n m as ds)
  then show ?case by (auto intro!: holds.holds_element elim: list.rel_mono_strong)
qed

lemma holds_new: "holds h K A X d a \<Longrightarrow> acts h b = None \<Longrightarrow> holds h K A (insert b X) d a"
proof (induction rule: holds.induct)
  case (holds_text a n t)
  then show ?case by (auto intro: holds.holds_text)
next
  case (holds_element a n m as ds)
  then show ?case by (auto intro!: holds.holds_element elim: list.rel_mono_strong)
qed

text \<open>Changes that keep names, values and types, and the lists of the nodes outside \<open>X\<close>.\<close>

definition same_info :: "dom_heap \<Rightarrow> dom_heap \<Rightarrow> bool" where
  "same_info h h' = (\<forall>a. acts h a \<noteq> None \<longrightarrow> map_option info (acts h' a) = map_option info (acts h a))"

lemma same_info_at: "same_info h h' \<Longrightarrow> acts h a = Some n \<Longrightarrow>
    \<exists>n'. acts h' a = Some n' \<and> NA_NodeName n' = NA_NodeName n \<and> NA_NodeValue n' = NA_NodeValue n \<and> NA_NodeType n' = NA_NodeType n"
  unfolding same_info_def info_def by (drule spec [of _ a]) auto

lemma attr_is_kept: "attr_is h mv b \<Longrightarrow> same_info h h' \<Longrightarrow> attr_is h' mv b"
  unfolding attr_is_def by (metis same_info_at)

lemma holds_kept:
  "holds h K A X d a \<Longrightarrow> same_info h h' \<Longrightarrow> \<forall>x. x \<notin> X \<longrightarrow> acts h x \<noteq> None \<longrightarrow> K' x = K x \<and> A' x = A x \<Longrightarrow> holds h' K' A' X d a"
proof (induction rule: holds.induct)
  case (holds_text a n t)
  then obtain n' where "acts h' a = Some n'" "NA_NodeValue n' = NA_NodeValue n" "NA_NodeType n' = NA_NodeType n"
    using same_info_at by blast
  then show ?case using holds_text by (auto intro: holds.holds_text)
next
  case (holds_element a n m as ds)
  then obtain n' where n': "acts h' a = Some n'" "NA_NodeName n' = NA_NodeName n" "NA_NodeType n' = NA_NodeType n"
    using same_info_at by blast
  have "list_all2 (attr_is h') as (A' a)" using holds_element attr_is_kept by (auto elim: list.rel_mono_strong)
  moreover have "list_all2 (holds h' K' A' X) ds (K' a)" using holds_element by (auto elim: list.rel_mono_strong)
  ultimately show ?case using n' holds_element by (auto intro!: holds.holds_element)
qed

section \<open>References do not change the tree\<close>

lemma referred_info: "map_option info (acts (referred b d h) a) = map_option info (acts h a)"
  by (cases "acts h b") (auto simp: referred_def info_def)

lemma referred_ok: "dom_ok h K A \<Longrightarrow> dom_ok (referred b d h) K A"
proof -
  assume ok: "dom_ok h K A"
  have old: "\<exists>m. acts h a = Some m \<and> ParentNode m = ParentNode n \<and> NA_NodeType m = NA_NodeType n"
    if "acts (referred b d h) a = Some n" for a n using that by (auto simp: referred_def split: if_splits)
  have "lists_ok (referred b d h) K A"
    by (rule lists_ok_cong [OF dom_lists [OF ok]]; cases "acts h b") (auto simp: referred_def core_def links_def)
  moreover have "is_attribute (referred b d h) a = is_attribute h a" "is_element (referred b d h) a = is_element h a" for a
    by (cases "acts h b"; auto simp: referred_def is_attribute_def is_element_def)+
  moreover have "next_id (referred b d h) = next_id h" by (simp add: referred_def)
  moreover have "a \<in> set (K p) \<union> set (A p)" if a: "acts (referred b d h) a = Some n" "ParentNode n = Some p" for a n p
    using old [OF a(1)] a(2) ok unfolding dom_ok_def shape_ok_def by metis
  moreover have "a < next_id h" if a: "acts (referred b d h) a = Some n" for a n
    using old [OF a] ok by (auto simp: dom_ok_def shape_ok_def)
  ultimately show ?thesis using ok by (auto simp: dom_ok_def shape_ok_def)
qed

section \<open>The frames are the nodes up to the document\<close>

text \<open>
  \<open>path\<close> has the nodes from the current one up to the document; the children of each are those of its frame and
  the node before it on the path.
\<close>

fun framed :: "dom_heap \<Rightarrow> (nat \<Rightarrow> nat list) \<Rightarrow> (nat \<Rightarrow> nat list) \<Rightarrow> nat set \<Rightarrow> nat \<Rightarrow> nat list \<Rightarrow> frame list \<Rightarrow> nat list \<Rightarrow> bool" where
  "framed h K A X root bl [] [] = True"
| "framed h K A X root bl ((m, as, ds) # fs) (c # path) =
     ((\<exists>n. acts h c = Some n \<and> NA_NodeName n = Some m \<and> OwnerNode n = root \<and>
         NA_NodeType n = (if path = [] then DOCUMENT_NODE else ELEMENT_NODE) \<and>
         ParentNode n = (case path of [] \<Rightarrow> None | p # _ \<Rightarrow> Some p)) \<and>
      list_all2 (attr_is h) as (A c) \<and>
      (\<exists>ks. K c = ks @ bl \<and> list_all2 (holds h K A X) ds ks) \<and>
      framed h K A X root [c] fs path)"
| "framed h K A X root bl _ _ = False"

lemma framed_more: "framed h K A X root bl fs path \<Longrightarrow> Y \<subseteq> X \<Longrightarrow> framed h K A Y root bl fs path"
proof (induction h K A X root bl fs path rule: framed.induct)
  case (2 h K A X root bl m as ds fs c path)
  then show ?case by (auto 0 4 intro: holds_more elim!: list.rel_mono_strong)
qed auto

text \<open>A change of the lists of \<open>c\<close> alone, for a path on which \<open>c\<close> is not.\<close>

lemma framed_kept:
  assumes "framed h K A X root bl fs path" "same_info h h'"
    and "\<forall>x. x \<notin> X \<longrightarrow> acts h x \<noteq> None \<longrightarrow> K' x = K x \<and> A' x = A x" "\<forall>x\<in>set path. K' x = K x \<and> A' x = A x"
    and "\<And>x n. x \<in> set path \<Longrightarrow> acts h x = Some n \<Longrightarrow> \<exists>n'. acts h' x = Some n' \<and> OwnerNode n' = OwnerNode n \<and> ParentNode n' = ParentNode n"
  shows "framed h' K' A' X root bl fs path"
  using assms
proof (induction h K A X root bl fs path rule: framed.induct)
  case (2 h K A X root bl m as ds fs c path)
  obtain n where n: "acts h c = Some n" "NA_NodeName n = Some m" "OwnerNode n = root"
    "NA_NodeType n = (if path = [] then DOCUMENT_NODE else ELEMENT_NODE)" "ParentNode n = (case path of [] \<Rightarrow> None | p # _ \<Rightarrow> Some p)"
    using 2(2) by auto
  obtain n1 where n1: "acts h' c = Some n1" "NA_NodeName n1 = NA_NodeName n" "NA_NodeType n1 = NA_NodeType n"
    using same_info_at [OF 2(3) n(1)] by blast
  have n2: "OwnerNode n1 = OwnerNode n" "ParentNode n1 = ParentNode n" using 2(6) [OF _ n(1)] n1(1) by auto
  have "list_all2 (attr_is h') as (A' c)" using 2(2,3,5) attr_is_kept by (auto elim: list.rel_mono_strong)
  moreover have "\<exists>ks. K' c = ks @ bl \<and> list_all2 (holds h' K' A' X) ds ks"
  proof -
    obtain ks where "K c = ks @ bl" "list_all2 (holds h K A X) ds ks" using 2(2) by auto
    then show ?thesis using 2(5) holds_kept [OF _ 2(3,4)] by (auto elim: list.rel_mono_strong)
  qed
  moreover have "framed h' K' A' X root [c] fs path" using 2(1) [OF _ 2(3,4)] 2(2,5,6) by simp
  ultimately show ?case using n n1 n2 by simp
qed auto

text \<open>The end of an element: its tree is a child of the next frame.\<close>

lemma framed_end:
  assumes "framed h K A X root [] ((m, as, ds) # f # fs) (c # path)" "c \<notin> Y" "Y \<subseteq> X"
  shows "\<exists>fs'. add_child (Element m as ds) (f # fs) = Some fs' \<and> framed h K A Y root [] fs' path"
proof -
  obtain m' as' ds' where f: "f = (m', as', ds')" by (cases f) auto
  obtain c' path' where p: "path = c' # path'" using assms(1) f by (cases path) auto
  have more: "list_all2 (holds h K A Y) xs ys" if "list_all2 (holds h K A X) xs ys" for xs ys
    using that holds_more [OF _ assms(3)] by (auto elim: list.rel_mono_strong)
  have el: "holds h K A Y (Element m as ds) c"
    using assms more f p by (auto intro!: holds_element)
  have "framed h K A X root [c] (f # fs) path" using assms(1) f p by simp
  then have up: "framed h K A Y root [c] (f # fs) path" using assms(3) by (rule framed_more)
  then obtain ks where "K c' = ks @ [c]" "list_all2 (holds h K A Y) ds' ks" using f p by auto
  then have "list_all2 (holds h K A Y) (ds' @ [Element m as ds]) (K c')" using el by (simp add: list_all2_appendI)
  then show ?thesis using up f p by simp
qed

section \<open>One more node\<close>

lemma parent_iff:
  assumes "dom_ok h K A" "acts h x = Some n"
  shows "ParentNode n = Some p \<longleftrightarrow> x \<in> set (K p) \<union> set (A p)"
proof
  show "x \<in> set (K p) \<union> set (A p)" if "ParentNode n = Some p"
  proof -
    have "\<forall>a n p. acts h a = Some n \<longrightarrow> ParentNode n = Some p \<longrightarrow> a \<in> set (K p) \<union> set (A p)"
      using assms(1) by (simp add: dom_ok_def shape_ok_def)
    then show ?thesis using assms(2) that by blast
  qed
  show "ParentNode n = Some p" if "x \<in> set (K p) \<union> set (A p)"
    using kid_parent [OF dom_lists [OF assms(1)] that] assms(2) by simp
qed

lemma parents_same:
  assumes "dom_ok h K A" "dom_ok h' K' A'" "\<And>p. x \<in> set (K' p) \<union> set (A' p) \<longleftrightarrow> x \<in> set (K p) \<union> set (A p)"
    and "acts h x = Some n" "acts h' x = Some n'"
  shows "ParentNode n' = ParentNode n"
proof -
  have "ParentNode n' = Some p \<longleftrightarrow> ParentNode n = Some p" for p
    using parent_iff [OF assms(1,4), of p] parent_iff [OF assms(2,5), of p] assms(3) [of p] by blast
  then show ?thesis by (metis not_Some_eq)
qed

lemma framed_new: "framed h K A X root bl fs path \<Longrightarrow> acts h b = None \<Longrightarrow> framed h K A (insert b X) root bl fs path"
proof (induction h K A X root bl fs path rule: framed.induct)
  case (2 h K A X root bl m as ds fs c path)
  then obtain ks where ks: "K c = ks @ bl" "list_all2 (holds h K A X) ds ks" by auto
  have "list_all2 (holds h K A (insert b X)) ds ks"
    using ks(2) by (rule list.rel_mono_strong) (rule holds_new [OF _ 2(3)])
  moreover have "framed h K A (insert b X) root [c] fs path" using 2(1) 2(2,3) by simp
  ultimately show ?case using 2(2) ks(1) unfolding framed.simps by blast
qed auto

lemma fresh_node:
  assumes ok: "dom_ok h K A" and fr: "framed h K A X root bl fs path" and new: "new_NodeAct nt name val h = (b, h1)"
  shows "dom_ok (referred b d h1) K A \<and> framed (referred b d h1) K A (insert b X) root bl fs path \<and> Found (referred b d h1) = Found h \<and>
    acts h b = None \<and> K b = [] \<and> A b = [] \<and>
    (\<exists>n. acts (referred b d h1) b = Some n \<and> NA_NodeName n = name \<and> NA_NodeValue n = val \<and> NA_NodeType n = nt \<and> ParentNode n = None \<and> RefCount n = d) \<and>
    (\<forall>x. x \<noteq> b \<longrightarrow> acts (referred b d h1) x = acts h x)"
proof -
  note nn = new_node [OF ok new]
  have other: "acts (referred b d h1) x = acts h x" if "x \<noteq> b" for x using nn that by (simp add: referred_at)
  have si: "same_info h (referred b d h1)" using nn other unfolding same_info_def by metis
  have "framed (referred b d h1) K A (insert b X) root bl fs path"
  proof (rule framed_kept [OF framed_new [OF fr] si])
    show "\<exists>n'. acts (referred b d h1) x = Some n' \<and> OwnerNode n' = OwnerNode n \<and> ParentNode n' = ParentNode n"
      if "acts h x = Some n" for x n
    proof -
      have "x \<noteq> b" using nn that by auto
      then show ?thesis using other that by simp
    qed
  qed (use nn in auto)
  then show ?thesis using nn referred_ok [of h1 K A b d] other by (auto simp: referred_def)
qed

lemma framed_owner: "framed h K A X root bl fs path \<Longrightarrow> x \<in> set path \<Longrightarrow> acts h x = Some m \<Longrightarrow> OwnerNode m = root"
  by (induction h K A X root bl fs path rule: framed.induct) auto

text \<open>Appending it to the current node.\<close>

lemma grown:
  assumes ok: "dom_ok h K A" and found: "\<not> Found h" and fr: "framed h K A X root [] (f # fs) (c # path)"
    and path: "distinct (c # path)" "set (c # path) \<subseteq> X" and alive: "acts h root \<noteq> None"
    and n: "acts h b = Some n" "ParentNode n = None" "K b = []" "A b = []" "b \<notin> set (c # path)"
    and K': "K' = (if NA_NodeType n = ATTRIBUTE_NODE then K else K(c := K c @ [b]))"
    and A': "A' = (if NA_NodeType n = ATTRIBUTE_NODE then A(c := A c @ [b]) else A)"
  shows "\<exists>h'. appendChild c (Some b) h = Some (None, h') \<and> dom_ok h' K' A' \<and> same_info h h' \<and> \<not> Found h' \<and>
    framed h' K' A' X root [c] fs path \<and> acts h' root \<noteq> None \<and>
    (\<exists>n'. acts h' b = Some n' \<and> OwnerNode n' = root \<and> (NA_NodeType n \<noteq> ATTRIBUTE_NODE \<longrightarrow> ParentNode n' = Some c) \<and> RefCount n' = RefCount n + 1) \<and>
    (\<forall>t. acts h c = Some t \<longrightarrow> (\<exists>t'. acts h' c = Some t' \<and> OwnerNode t' = OwnerNode t \<and> ParentNode t' = ParentNode t))"
proof -
  note lok = dom_lists [OF ok]
  obtain t where t: "acts h c = Some t" "OwnerNode t = root" "NA_NodeType t = (if path = [] then DOCUMENT_NODE else ELEMENT_NODE)"
    "ParentNode t = (case path of [] \<Rightarrow> None | p # _ \<Rightarrow> Some p)" using fr by (cases f) auto
  have apart: "(c, b) \<notin> (below K)\<^sup>*"
    using n(3,5) by (auto simp: rtrancl_eq_or_trancl below_def dest: tranclD2)
  obtain h' where h': "appendChild c (Some b) h = Some (None, h')" "kept b root h h'" "dom_ok h' K' A'"
    using append_node [OF ok found t(1) _ n(1,2) apart] t alive n(3,4) K' A' by (auto split: list.splits if_splits)
  have si: "same_info h h'" using h'(2) by (simp add: kept_def same_info_def)
  have owner: "OwnerNode x' = root \<or> map_option OwnerNode (acts h x) = Some (OwnerNode x')" if "acts h' x = Some x'" for x x'
    using h'(2) that by (simp add: kept_def)
  have nodes: "\<exists>x'. acts h' x = Some x' \<and> OwnerNode x' = OwnerNode m \<and> ParentNode x' = ParentNode m"
    if xm: "acts h x = Some m" "x \<noteq> b" "OwnerNode m = root" for x m
  proof -
    obtain x' where x': "acts h' x = Some x'" using same_info_at [OF si xm(1)] by blast
    have "ParentNode x' = ParentNode m"
      by (rule parents_same [OF ok h'(3) _ xm(1) x']) (use xm(2) K' A' in auto)
    then show ?thesis using x' owner [OF x'] xm(1,3) by auto
  qed
  have framed_c: "framed h K A X root [c] fs path" using fr by (cases f) auto
  have "framed h' K' A' X root [c] fs path"
  proof (rule framed_kept [OF framed_c si])
    show "\<forall>x. x \<notin> X \<longrightarrow> acts h x \<noteq> None \<longrightarrow> K' x = K x \<and> A' x = A x" using path(2) K' A' by auto
    show "\<forall>x\<in>set path. K' x = K x \<and> A' x = A x" using path(1) K' A' by auto
    show "\<exists>n'. acts h' x = Some n' \<and> OwnerNode n' = OwnerNode m \<and> ParentNode n' = ParentNode m"
      if "x \<in> set path" "acts h x = Some m" for x m using nodes [OF that(2)] framed_owner [OF framed_c that] n(5) that(1) by auto
  qed
  moreover obtain n' where n': "acts h' b = Some n'" using same_info_at [OF si n(1)] by blast
  moreover have "ParentNode n' = Some c" if "NA_NodeType n \<noteq> ATTRIBUTE_NODE"
    using parent_iff [OF h'(3) n', of c] that K' by simp
  moreover have "OwnerNode n' = root" "RefCount n' = RefCount n + 1"
    using h'(2) n' n(1) unfolding kept_def by (auto dest!: spec [of _ b])
  moreover have "acts h' root \<noteq> None" using same_info_at [OF si] alive by blast
  ultimately show ?thesis using h' si nodes [OF t(1)] t n(5) found by (auto simp: kept_def)
qed

text \<open>The frame of the current node in the new heap.\<close>

lemma framed_top:
  assumes fr: "framed h K A X root [] ((m, as, ds) # fs) (c # path)" and si: "same_info h h'"
    and agree: "\<forall>x. x \<notin> X \<longrightarrow> acts h x \<noteq> None \<longrightarrow> K' x = K x \<and> A' x = A x"
    and top: "\<forall>t. acts h c = Some t \<longrightarrow> (\<exists>t'. acts h' c = Some t' \<and> OwnerNode t' = OwnerNode t \<and> ParentNode t' = ParentNode t)"
  shows "(\<exists>n. acts h' c = Some n \<and> NA_NodeName n = Some m \<and> OwnerNode n = root \<and>
         NA_NodeType n = (if path = [] then DOCUMENT_NODE else ELEMENT_NODE) \<and>
         ParentNode n = (case path of [] \<Rightarrow> None | p # _ \<Rightarrow> Some p)) \<and>
      list_all2 (attr_is h') as (A c) \<and> list_all2 (holds h' K' A' X) ds (K c)"
proof -
  obtain t where t: "acts h c = Some t" "NA_NodeName t = Some m" "OwnerNode t = root"
    "NA_NodeType t = (if path = [] then DOCUMENT_NODE else ELEMENT_NODE)" "ParentNode t = (case path of [] \<Rightarrow> None | p # _ \<Rightarrow> Some p)"
    using fr by auto
  obtain t' where t': "acts h' c = Some t'" "OwnerNode t' = OwnerNode t" "ParentNode t' = ParentNode t" using top t(1) by blast
  have "NA_NodeName t' = NA_NodeName t" "NA_NodeType t' = NA_NodeType t" using same_info_at [OF si t(1)] t'(1) by auto
  moreover have "list_all2 (attr_is h') as (A c)" using fr attr_is_kept [OF _ si] by (auto elim: list.rel_mono_strong)
  moreover have "list_all2 (holds h' K' A' X) ds (K c)"
  proof -
    have "list_all2 (holds h K A X) ds (K c)" using fr by simp
    then show ?thesis by (rule list.rel_mono_strong) (rule holds_kept [OF _ si agree])
  qed
  ultimately show ?thesis using t t' by auto
qed

lemma grow:
  assumes ok: "dom_ok h K A" and found: "\<not> Found h" and fr: "framed h K A (insert b X) root [] ((m, as, ds) # fs) (c # path)"
    and path: "distinct (c # path)" "X = set (c # path)" and alive: "acts h root \<noteq> None"
    and n: "acts h b = Some n" "ParentNode n = None" "K b = []" "A b = []" "b \<notin> X"
  shows "\<exists>h' K' A'. appendChild c (Some b) h = Some (None, h') \<and> dom_ok h' K' A' \<and> \<not> Found h' \<and> acts h' root \<noteq> None \<and>
    (\<exists>n'. acts h' b = Some n' \<and> RefCount n' = RefCount n + 1) \<and>
    (NA_NodeType n = ATTRIBUTE_NODE \<longrightarrow> NA_NodeName n = Some nm \<longrightarrow> NA_NodeValue n = Some v \<longrightarrow>
       framed h' K' A' X root [] ((m, as @ [(nm, v)], ds) # fs) (c # path)) \<and>
    (NA_NodeType n = TEXT_NODE \<longrightarrow> NA_NodeValue n = Some v \<longrightarrow>
       framed h' K' A' X root [] ((m, as, ds @ [TextNode v]) # fs) (c # path)) \<and>
    (NA_NodeType n = ELEMENT_NODE \<longrightarrow> NA_NodeName n = Some nm \<longrightarrow>
       framed h' K' A' (insert b X) root [] ((nm, [], []) # (m, as, ds) # fs) (b # c # path) \<and>
       (\<exists>t'. acts h' c = Some t' \<and> LastChild t' = Some b))"
proof -
  let ?K = "if NA_NodeType n = ATTRIBUTE_NODE then K else K(c := K c @ [b])" and ?A = "if NA_NodeType n = ATTRIBUTE_NODE then A(c := A c @ [b]) else A"
  have sub: "set (c # path) \<subseteq> insert b X" "b \<notin> set (c # path)" using path n(5) by auto
  obtain h' n' where h': "appendChild c (Some b) h = Some (None, h')" "dom_ok h' ?K ?A" "same_info h h'" "\<not> Found h'"
      "framed h' ?K ?A (insert b X) root [c] fs path" "acts h' root \<noteq> None"
    and n': "acts h' b = Some n'" "OwnerNode n' = root" "NA_NodeType n \<noteq> ATTRIBUTE_NODE \<longrightarrow> ParentNode n' = Some c" "RefCount n' = RefCount n + 1"
    and top: "\<forall>t. acts h c = Some t \<longrightarrow> (\<exists>t'. acts h' c = Some t' \<and> OwnerNode t' = OwnerNode t \<and> ParentNode t' = ParentNode t)"
    using grown [OF ok found fr path(1) sub(1) alive n(1-4) sub(2) refl refl] by blast
  have info: "NA_NodeName n' = NA_NodeName n" "NA_NodeValue n' = NA_NodeValue n" "NA_NodeType n' = NA_NodeType n"
    using same_info_at [OF h'(3) n(1)] n'(1) by auto
  have agree: "\<forall>x. x \<notin> insert b X \<longrightarrow> acts h x \<noteq> None \<longrightarrow> ?K x = K x \<and> ?A x = A x" using path(2) by auto
  note top = framed_top [OF fr h'(3) agree top]
  have lt: "list_all2 (holds h' ?K ?A (insert b X)) ds (K c)" using top by blast
  then have small: "list_all2 (holds h' ?K ?A X) ds (K c)"
    by (rule list.rel_mono_strong) (rule holds_more [OF _ subset_insertI])
  have rest: "framed h' ?K ?A X root [c] fs path" by (rule framed_more [OF h'(5) subset_insertI])
  have cb: "c \<noteq> b" using sub(2) by auto
  have "framed h' ?K ?A X root [] ((m, as @ [(nm, v)], ds) # fs) (c # path)"
    if a: "NA_NodeType n = ATTRIBUTE_NODE" "NA_NodeName n = Some nm" "NA_NodeValue n = Some v"
  proof -
    have "list_all2 (attr_is h') (as @ [(nm, v)]) (A c @ [b])"
      using top n'(1) info a by (auto simp: attr_is_def intro!: list_all2_appendI)
    then show ?thesis using top small rest a by simp
  qed
  moreover have "framed h' ?K ?A X root [] ((m, as, ds @ [TextNode v]) # fs) (c # path)"
    if a: "NA_NodeType n = TEXT_NODE" "NA_NodeValue n = Some v"
  proof -
    have "holds h' ?K ?A X (TextNode v) b" using n'(1) info a n(3,5) cb by (auto intro: holds_text)
    then have "list_all2 (holds h' ?K ?A X) (ds @ [TextNode v]) (?K c)" using small a by (auto intro: list_all2_appendI)
    then show ?thesis using top rest a by simp
  qed
  moreover have "framed h' ?K ?A (insert b X) root [] ((nm, [], []) # (m, as, ds) # fs) (b # c # path)"
    "\<exists>t'. acts h' c = Some t' \<and> LastChild t' = Some b" if a: "NA_NodeType n = ELEMENT_NODE" "NA_NodeName n = Some nm"
  proof -
    show "framed h' ?K ?A (insert b X) root [] ((nm, [], []) # (m, as, ds) # fs) (b # c # path)"
      using top lt n' info a n(3,4) cb h'(5) by simp
    obtain t' where t': "acts h' c = Some t'" using top by blast
    have "?K c = K c @ [b]" using a by simp
    then have "LastChild t' = Some b" using seg_ends [OF kids_seg [OF dom_lists [OF h'(2)] t']] by simp
    then show "\<exists>t'. acts h' c = Some t' \<and> LastChild t' = Some b" using t' by blast
  qed
  ultimately show ?thesis using h' n' by blast
qed

section \<open>One round\<close>

lemma build_with_appends:
  assumes s: "objs_ok s" and x: "objs s x = Some xo" "nact xo = None" and new: "new_NodeAct nt name val (heap s) = (b, h1)"
    and app: "appendChild c (Some b) (referred b 2 h1) = Some (None, h')" and count: "acts h' b = Some n'" "RefCount n' = 3"
  shows "build_with x (create nt name val) (Some c) s = Some (False, s\<lparr>heap := referred b (-1) h',
    objs := (objs s)(x \<mapsto> xo\<lparr>nact := Some b, ownerSub := next_obj s\<rparr>), next_obj := Suc (next_obj s)\<rparr>)"
proof -
  have lt: "x < next_obj s" using objs_fresh [OF s x(1)] .
  have a: "acts h1 b \<noteq> None" using new by (auto simp: new_NodeAct_def alloc_act_def)
  show ?thesis using lt x new app count a no_obj [OF s]
    by (auto simp: build_with_def create_def new_obj_def count_ref_referred sub_assign_def set_obj_def append_to_def delete_obj_def on_heap_def
      referred_at release_referred referred_referred fun_eq_iff)
qed

text \<open>The state between the rounds.\<close>

definition building :: "dom_state \<Rightarrow> nat \<Rightarrow> nat option \<Rightarrow> frame list \<Rightarrow> bool" where
  "building s root cur fs = (objs_ok s \<and> (\<exists>K A path. dom_ok (heap s) K A \<and> \<not> Found (heap s) \<and> acts (heap s) root \<noteq> None \<and>
     framed (heap s) K A (set path) root [] fs path \<and> distinct path \<and>
     cur = (case path of [] \<Rightarrow> None | c # _ \<Rightarrow> Some c) \<and> (path \<noteq> [] \<longrightarrow> last path = root)))"

text \<open>What a round leaves of the other objects.\<close>

definition same_objs :: "dom_state \<Rightarrow> dom_state \<Rightarrow> bool" where
  "same_objs s s' = (next_obj s \<le> next_obj s' \<and> objs s' = objs s)"

lemma same_objs_ok: "objs_ok s \<Longrightarrow> same_objs s s' \<Longrightarrow> objs_ok s'"
  unfolding objs_ok_def same_objs_def by (metis less_le_trans)

text \<open>The two local objects.\<close>

definition with_locals :: "dom_state \<Rightarrow> dom_state" where "with_locals s = snd (new_obj None (snd (new_obj None s)))"

lemma with_locals_simps:
  "heap (with_locals s) = heap s" "next_obj (with_locals s) = Suc (Suc (next_obj s))"
  "objs (with_locals s) = (objs s)(next_obj s \<mapsto> \<lparr>nact = None, ownerNode = next_obj s, ownerSub = next_obj s\<rparr>,
     Suc (next_obj s) \<mapsto> \<lparr>nact = None, ownerNode = Suc (next_obj s), ownerSub = Suc (next_obj s)\<rparr>)"
  by (simp_all add: with_locals_def new_obj_def)

lemma with_locals_ok: "objs_ok s \<Longrightarrow> objs_ok (with_locals s)"
  by (auto simp: objs_ok_def with_locals_simps less_Suc_eq)

lemma build_node_locals:
  "build_node v cur s = do {
     (res, s1) \<leftarrow> node_case (next_obj s) (Suc (next_obj s)) v cur (with_locals s);
     s1 \<leftarrow> delete_obj (Suc (next_obj s)) s1;
     s1 \<leftarrow> delete_obj (next_obj s) s1;
     Some (res, s1) }"
  by (simp add: build_node_def with_locals_def new_obj_def)

text \<open>A round that makes no node.\<close>

lemma build_node_plain:
  assumes "objs_ok s" "node_case (next_obj s) (Suc (next_obj s)) v cur (with_locals s) = Some (res, with_locals s)"
  shows "\<exists>s'. build_node v cur s = Some (res, s') \<and> heap s' = heap s \<and> same_objs s s'"
proof -
  have "\<exists>s'. build_node v cur s = Some (res, s') \<and> heap s' = heap s \<and> objs s' = objs s \<and> next_obj s' = Suc (Suc (next_obj s))"
    unfolding build_node_locals using assms(2) no_obj [OF assms(1)]
    by (auto simp: delete_obj_def with_locals_simps fun_eq_iff)
  then show ?thesis by (auto simp: same_objs_def)
qed

text \<open>A round that makes an element or an attribute through the local object \<open>x\<close>.\<close>

lemma build_node_local:
  assumes s: "objs_ok s" and x: "x = next_obj s \<or> x = Suc (next_obj s)"
    and case1: "node_case (next_obj s) (Suc (next_obj s)) v (Some c) (with_locals s) =
      do { (thrown, s) \<leftarrow> build_with x (create nt name val) (Some c) (with_locals s); if thrown then g s else f s }"
    and f: "\<And>s. heap s = referred b (-1) h' \<Longrightarrow> f s = Some (res, s)"
    and new: "new_NodeAct nt name val (heap s) = (b, h1)"
    and app: "appendChild c (Some b) (referred b 2 h1) = Some (None, h')" and count: "acts h' b = Some n'" "RefCount n' = 3"
  shows "\<exists>s'. build_node v (Some c) s = Some (res, s') \<and> heap s' = referred b (-2) h' \<and> same_objs s s'"
proof -
  let ?xo = "\<lparr>nact = None, ownerNode = x, ownerSub = x\<rparr>"
  have xo: "objs (with_locals s) x = Some ?xo" using x by (auto simp: with_locals_simps)
  have new': "new_NodeAct nt name val (heap (with_locals s)) = (b, h1)" using new by (simp add: with_locals_simps)
  note b = build_with_appends [OF with_locals_ok [OF s] xo _ new' app count]
  have "\<exists>s'. build_node v (Some c) s = Some (res, s') \<and> heap s' = referred b (-2) h' \<and> objs s' = objs s \<and> next_obj s' = Suc (Suc (Suc (next_obj s)))"
    unfolding build_node_locals case1 using b x no_obj [OF s] f count
    by (auto simp: delete_obj_def with_locals_simps on_heap_def referred_at release_referred referred_referred fun_eq_iff)
  then show ?thesis by (auto simp: same_objs_def)
qed

text \<open>A round that makes a text.\<close>

lemma build_node_text:
  assumes s: "objs_ok s" and v: "\<not> IsEnd v" "NodeType v = TEXT_NODE"
    and new: "new_NodeAct TEXT_NODE (NodeName v) (NodeValue v) (heap s) = (b, h1)"
    and app: "appendChild c (Some b) (referred b 1 h1) = Some (None, h')" and count: "acts h' b = Some n'" "RefCount n' = 2"
  shows "\<exists>s'. build_node v (Some c) s = Some (Some (Some c), s') \<and> heap s' = referred b (-1) h' \<and> same_objs s s'"
proof -
  have a: "acts h1 b \<noteq> None" using new by (auto simp: new_NodeAct_def alloc_act_def)
  have "\<exists>s'. build_node v (Some c) s = Some (Some (Some c), s') \<and> heap s' = referred b (-1) h' \<and> objs s' = objs s \<and> next_obj s' = Suc (Suc (Suc (next_obj s)))"
    unfolding build_node_locals using v new app count a no_obj [OF s]
    by (auto simp: node_case_def create_def new_obj_def count_ref_referred append_to_def delete_obj_def on_heap_def with_locals_simps
      referred_at release_referred fun_eq_iff)
  then show ?thesis by (auto simp: same_objs_def)
qed

text \<open>The reference of a local object is gone; the tree is what it was.\<close>

lemma framed_referred:
  assumes "framed h K A X root bl fs path"
  shows "framed (referred b d h) K A X root bl fs path"
proof (rule framed_kept [OF assms])
  show "same_info h (referred b d h)" by (simp add: same_info_def referred_info)
  show "\<exists>n'. acts (referred b d h) x = Some n' \<and> OwnerNode n' = OwnerNode n \<and> ParentNode n' = ParentNode n"
    if "acts h x = Some n" for x n using that by (auto simp: referred_def)
qed simp_all

lemma buildingI:
  assumes "objs_ok s'" "heap s' = referred b d h" "dom_ok h K A" "\<not> Found h" "acts h root \<noteq> None" "framed h K A (set path) root [] fs path"
    and "distinct path" "cur = (case path of [] \<Rightarrow> None | c # _ \<Rightarrow> Some c)" "path \<noteq> [] \<longrightarrow> last path = root"
  shows "building s' root cur fs"
proof -
  have "\<not> Found (heap s')" "acts (heap s') root \<noteq> None" using assms(2,4,5) by (auto simp: referred_def)
  moreover have "dom_ok (heap s') K A" "framed (heap s') K A (set path) root [] fs path"
    using assms(2) referred_ok [OF assms(3)] framed_referred [OF assms(6)] by simp_all
  ultimately show ?thesis unfolding building_def using assms(1,7-9) by blast
qed

lemma framed_alive: "framed h K A X root bl fs path \<Longrightarrow> x \<in> set path \<Longrightarrow> \<exists>n. acts h x = Some n"
  by (induction h K A X root bl fs path rule: framed.induct) auto

text \<open>A new node in the tree: the heap after the round, and the frames.\<close>

lemma new_child:
  assumes bd: "building s root (Some c) ((m, as, ds) # fs)" and new: "new_NodeAct nt name val (heap s) = (b, h1)"
  shows "\<exists>h' n'. appendChild c (Some b) (referred b d h1) = Some (None, h') \<and> acts h' b = Some n' \<and> RefCount n' = d + 1 \<and>
    (nt = ELEMENT_NODE \<longrightarrow> name = Some nm \<longrightarrow> (\<exists>t'. acts h' c = Some t' \<and> LastChild t' = Some b)) \<and>
    (\<forall>s' e. objs_ok s' \<longrightarrow> heap s' = referred b e h' \<longrightarrow>
      (nt = ATTRIBUTE_NODE \<longrightarrow> name = Some nm \<longrightarrow> val = Some v \<longrightarrow> building s' root (Some c) ((m, as @ [(nm, v)], ds) # fs)) \<and>
      (nt = TEXT_NODE \<longrightarrow> val = Some v \<longrightarrow> building s' root (Some c) ((m, as, ds @ [TextNode v]) # fs)) \<and>
      (nt = ELEMENT_NODE \<longrightarrow> name = Some nm \<longrightarrow> building s' root (Some b) ((nm, [], []) # (m, as, ds) # fs)))"
proof -
  obtain K A p where p: "dom_ok (heap s) K A" "\<not> Found (heap s)" "acts (heap s) root \<noteq> None" "framed (heap s) K A (set p) root [] ((m, as, ds) # fs) p"
    "distinct p" "Some c = (case p of [] \<Rightarrow> None | c # _ \<Rightarrow> Some c)" "p \<noteq> [] \<longrightarrow> last p = root"
    using bd unfolding building_def by blast
  obtain path where path: "p = c # path" using p(6) by (cases p) auto
  have st: "dom_ok (heap s) K A" "\<not> Found (heap s)" "acts (heap s) root \<noteq> None" "framed (heap s) K A (set (c # path)) root [] ((m, as, ds) # fs) (c # path)"
    "distinct (c # path)" "last (c # path) = root"
    using p unfolding path by simp_all
  note fr = fresh_node [OF st(1,4) new, of d]
  have alive: "\<exists>n. acts (heap s) x = Some n" if "x \<in> set (c # path)" for x using framed_alive [OF st(4) that] .
  then have nb: "b \<notin> set (c # path)" using fr by (metis option.distinct(1))
  obtain n where n: "acts (referred b d h1) b = Some n" "NA_NodeName n = name" "NA_NodeValue n = val" "NA_NodeType n = nt" "ParentNode n = None" "RefCount n = d"
    using fr by blast
  have root: "acts (referred b d h1) root \<noteq> None" using fr st(3) by metis
  obtain h' K' A' n' where g: "appendChild c (Some b) (referred b d h1) = Some (None, h')" "dom_ok h' K' A'" "\<not> Found h'" "acts h' root \<noteq> None"
      "acts h' b = Some n'" "RefCount n' = RefCount n + 1"
    and fa: "NA_NodeType n = ATTRIBUTE_NODE \<longrightarrow> NA_NodeName n = Some nm \<longrightarrow> NA_NodeValue n = Some v \<longrightarrow>
       framed h' K' A' (set (c # path)) root [] ((m, as @ [(nm, v)], ds) # fs) (c # path)"
    and ft: "NA_NodeType n = TEXT_NODE \<longrightarrow> NA_NodeValue n = Some v \<longrightarrow>
       framed h' K' A' (set (c # path)) root [] ((m, as, ds @ [TextNode v]) # fs) (c # path)"
    and fe: "NA_NodeType n = ELEMENT_NODE \<longrightarrow> NA_NodeName n = Some nm \<longrightarrow>
       framed h' K' A' (insert b (set (c # path))) root [] ((nm, [], []) # (m, as, ds) # fs) (b # c # path) \<and>
       (\<exists>t'. acts h' c = Some t' \<and> LastChild t' = Some b)"
    using grow [OF _ _ _ st(5) refl root n(1,5), of K A m as ds fs nm v] fr st(2) nb by blast
  have "building s' root (Some c) ((m, as @ [(nm, v)], ds) # fs)"
    if "objs_ok s'" "heap s' = referred b e h'" "nt = ATTRIBUTE_NODE" "name = Some nm" "val = Some v" for s' e
    by (rule buildingI [OF that(1,2) g(2-4), of "c # path"]) (use fa n that st(5,6) in auto)
  moreover have "building s' root (Some c) ((m, as, ds @ [TextNode v]) # fs)"
    if "objs_ok s'" "heap s' = referred b e h'" "nt = TEXT_NODE" "val = Some v" for s' e
    by (rule buildingI [OF that(1,2) g(2-4), of "c # path"]) (use ft n that st(5,6) in auto)
  moreover have "building s' root (Some b) ((nm, [], []) # (m, as, ds) # fs)"
    if "objs_ok s'" "heap s' = referred b e h'" "nt = ELEMENT_NODE" "name = Some nm" for s' e
    by (rule buildingI [OF that(1,2) g(2-4), of "b # c # path"]) (use fe n that nb st(5,6) in auto)
  moreover have "\<exists>t'. acts h' c = Some t' \<and> LastChild t' = Some b" if "nt = ELEMENT_NODE" "name = Some nm" using fe n that by blast
  ultimately show ?thesis using g n(6) by blast
qed

section \<open>The reader with frames is refined\<close>

lemma building_cons:
  assumes "building s root cur (f # fs)"
  shows "\<exists>c. cur = Some c"
proof -
  obtain K A p where "framed (heap s) K A (set p) root [] (f # fs) p" "cur = (case p of [] \<Rightarrow> None | c # _ \<Rightarrow> Some c)"
    using assms unfolding building_def by blast
  then show ?thesis by (cases p; cases f) auto
qed

lemma building_same: "building s root cur fs \<Longrightarrow> objs_ok s' \<Longrightarrow> heap s' = heap s \<Longrightarrow> building s' root cur fs"
  by (simp add: building_def)

text \<open>The end of an element.\<close>

lemma building_end:
  assumes bd: "building s root (Some c) ((m, as, ds) # fs)"
  shows "\<exists>n. acts (heap s) c = Some n \<and> NA_NodeName n = Some m \<and>
    (fs = [] \<longrightarrow> building s root (ParentNode n) []) \<and>
    (fs \<noteq> [] \<longrightarrow> (\<exists>fs'. add_child (Element m as ds) fs = Some fs' \<and> building s root (ParentNode n) fs'))"
proof -
  obtain K A p where p: "objs_ok s" "dom_ok (heap s) K A" "\<not> Found (heap s)" "acts (heap s) root \<noteq> None" "framed (heap s) K A (set p) root [] ((m, as, ds) # fs) p"
    "distinct p" "Some c = (case p of [] \<Rightarrow> None | c # _ \<Rightarrow> Some c)" "p \<noteq> [] \<longrightarrow> last p = root"
    using bd unfolding building_def by blast
  obtain path where path: "p = c # path" using p(7) by (cases p) auto
  obtain n where n: "acts (heap s) c = Some n" "NA_NodeName n = Some m" "ParentNode n = (case path of [] \<Rightarrow> None | p # _ \<Rightarrow> Some p)"
    using p(5) path by auto
  have "building s root (ParentNode n) []" if "fs = []"
  proof -
    have "path = []" using p(5) path that by (cases path) auto
    then have "framed (heap s) K A (set []) root [] [] []" "ParentNode n = None" using n(3) by simp_all
    then show ?thesis unfolding building_def using p(1-4) by (metis distinct.simps(1) list.case(1))
  qed
  moreover have "\<exists>fs'. add_child (Element m as ds) fs = Some fs' \<and> building s root (ParentNode n) fs'" if ne: "fs \<noteq> []"
  proof -
    obtain f fs1 where f: "fs = f # fs1" using ne by (cases fs) auto
    have "c \<notin> set path" "set path \<subseteq> set p" using p(6) path by auto
    from framed_end [OF p(5) [unfolded path f] this(1)] this(2)
    obtain fs' where fs': "add_child (Element m as ds) (f # fs1) = Some fs'" "framed (heap s) K A (set path) root [] fs' path"
      unfolding path by blast
    have "path \<noteq> []" using p(5) path f by (cases path) auto
    then have "last path = root" "distinct path" using p(6,8) path by auto
    then have "building s root (ParentNode n) fs'" unfolding building_def using p(1-4) fs'(2) n(3) by blast
    then show ?thesis using fs'(1) f by blast
  qed
  ultimately show ?thesis using n by blast
qed

lemma build_node_frames:
  assumes bd: "building s root cur fs" and add: "add_node v fs = Some r"
  shows "\<exists>res s'. build_node v cur s = Some (res, s') \<and> same_objs s s' \<and>
    (case r of None \<Rightarrow> res = None \<and> building s' root cur fs | Some fs' \<Rightarrow> \<exists>cur'. res = Some cur' \<and> building s' root cur' fs')"
proof -
  have s: "objs_ok s" using bd by (simp add: building_def)
  have plain: ?thesis if nc: "node_case (next_obj s) (Suc (next_obj s)) v cur (with_locals s) = Some (res, with_locals s)"
      and rr: "case r of None \<Rightarrow> res = None \<and> building s root cur fs | Some fs' \<Rightarrow> \<exists>cur'. res = Some cur' \<and> building s root cur' fs'" for res
  proof -
    obtain s' where s': "build_node v cur s = Some (res, s')" "heap s' = heap s" "same_objs s s'" using build_node_plain [OF s nc] by blast
    have "building s' root c f \<longleftrightarrow> building s root c f" for c f
      using building_same [of s root c f s'] building_same [of s' root c f s] s' s same_objs_ok [OF s s'(3)] by metis
    then show ?thesis using s' rr by (cases r) auto
  qed
  show ?thesis
  proof (cases "IsEnd v")
    case True
    then obtain mm where mm: "NodeName v = Some mm" "end_node mm fs = Some r" using add by (auto simp: add_node_def split: option.splits)
    obtain m as ds fs1 where fs: "fs = (m, as, ds) # fs1" using mm(2) by (cases "(mm, fs)" rule: end_node.cases) auto
    obtain c where c: "cur = Some c" using building_cons bd fs by blast
    obtain n where n: "acts (heap s) c = Some n" "NA_NodeName n = Some m" "fs1 = [] \<longrightarrow> building s root (ParentNode n) []"
      "fs1 \<noteq> [] \<longrightarrow> (\<exists>fs'. add_child (Element m as ds) fs1 = Some fs' \<and> building s root (ParentNode n) fs')"
      using building_end [OF bd [unfolded fs c]] by blast
    show ?thesis
    proof (rule plain)
      show "node_case (next_obj s) (Suc (next_obj s)) v cur (with_locals s) = Some (if mm = m then Some (ParentNode n) else None, with_locals s)"
        using True mm(1) c n(1,2) by (simp add: node_case_def with_locals_simps)
      show "case r of None \<Rightarrow> (if mm = m then Some (ParentNode n) else None) = None \<and> building s root cur fs
        | Some fs' \<Rightarrow> \<exists>cur'. (if mm = m then Some (ParentNode n) else None) = Some cur' \<and> building s root cur' fs'"
        using mm(2) n(3,4) bd fs by (auto split: if_splits list.splits)
    qed
  next
    case False
    note v = False
    let ?e = "next_obj s" and ?a = "Suc (next_obj s)"
    show ?thesis
    proof (cases "NodeType v = ELEMENT_NODE \<or> NodeType v = TEXT_NODE \<or> NodeType v = ATTRIBUTE_NODE")
      case False
      then have r: "r = Some fs" using add v by (auto simp: add_node_def split: NODE_TYPE.splits)
      show ?thesis
        by (rule plain [of "Some cur"]) (use False v r bd in \<open>auto simp: node_case_def split: NODE_TYPE.splits\<close>)
    next
      case True
      then obtain m as ds fs1 where fs: "fs = (m, as, ds) # fs1"
        using add v by (cases fs) (auto simp: add_node_def split: option.splits)
      obtain c where c: "cur = Some c" using building_cons bd fs by blast
      consider (elem) nm where "NodeType v = ELEMENT_NODE" "NodeName v = Some nm" "r = Some ((nm, [], []) # fs)"
        | (textual) t where "NodeType v = TEXT_NODE" "NodeValue v = Some t" "r = Some ((m, as, ds @ [TextNode t]) # fs1)"
        | (attrib) nm t where "NodeType v = ATTRIBUTE_NODE" "NodeName v = Some nm" "NodeValue v = Some t" "r = Some ((m, as @ [(nm, t)], ds) # fs1)"
        using add v True fs by (auto simp: add_node_def split: option.splits)
      then show ?thesis
      proof cases
        case elem
        obtain b h1 where new: "new_NodeAct ELEMENT_NODE (Some nm) None (heap s) = (b, h1)" by fastforce
        obtain h' n' where h': "appendChild c (Some b) (referred b 2 h1) = Some (None, h')" "acts h' b = Some n'" "RefCount n' = 3"
          and last: "\<exists>t'. acts h' c = Some t' \<and> LastChild t' = Some b"
          and bd': "\<And>s' e. objs_ok s' \<Longrightarrow> heap s' = referred b e h' \<Longrightarrow> building s' root (Some b) ((nm, [], []) # fs)"
          using new_child [OF bd [unfolded fs c] new, of 2 nm "[]"] fs by auto
        have f: "do { n \<leftarrow> acts (heap u) c; Some (Some (LastChild n), u) } = Some (Some (Some b), u)" if "heap u = referred b (-1) h'" for u
          using last that by (auto simp: referred_def)
        have nc: "node_case ?e ?a v (Some c) (with_locals s) = do { (thrown, s) \<leftarrow> build_with ?e (create ELEMENT_NODE (Some nm) None) (Some c) (with_locals s);
            if thrown then Some (None, s) else do { n \<leftarrow> acts (heap s) c; Some (Some (LastChild n), s) } }"
          using v elem by (simp add: node_case_def createElement_def, intro arg_cong2 [of _ _ _ _ Option.bind] ext) auto
        obtain s' where s': "build_node v (Some c) s = Some (Some (Some b), s')" "heap s' = referred b (-2) h'" "same_objs s s'"
          using build_node_local [OF s _ nc f new h'] by blast
        show ?thesis using s' bd' [OF same_objs_ok [OF s s'(3)] s'(2)] elem(3) c by auto
      next
        case textual
        obtain b h1 where new: "new_NodeAct TEXT_NODE (NodeName v) (Some t) (heap s) = (b, h1)" by fastforce
        obtain h' n' where h': "appendChild c (Some b) (referred b 1 h1) = Some (None, h')" "acts h' b = Some n'" "RefCount n' = 2"
          and bd': "\<And>s' e. objs_ok s' \<Longrightarrow> heap s' = referred b e h' \<Longrightarrow> building s' root (Some c) ((m, as, ds @ [TextNode t]) # fs1)"
          using new_child [OF bd [unfolded fs c] new, of 1 "[]" t] by auto
        obtain s' where s': "build_node v (Some c) s = Some (Some (Some c), s')" "heap s' = referred b (-1) h'" "same_objs s s'"
          using build_node_text [OF s v textual(1) _ h'] new textual(2) by auto
        show ?thesis using s' bd' [OF same_objs_ok [OF s s'(3)] s'(2)] textual(3) c by auto
      next
        case attrib
        obtain b h1 where new: "new_NodeAct ATTRIBUTE_NODE (Some nm) (Some t) (heap s) = (b, h1)" by fastforce
        obtain h' n' where h': "appendChild c (Some b) (referred b 2 h1) = Some (None, h')" "acts h' b = Some n'" "RefCount n' = 3"
          and bd': "\<And>s' e. objs_ok s' \<Longrightarrow> heap s' = referred b e h' \<Longrightarrow> building s' root (Some c) ((m, as @ [(nm, t)], ds) # fs1)"
          using new_child [OF bd [unfolded fs c] new, of 2 nm t] by auto
        have nc: "node_case ?e ?a v (Some c) (with_locals s) = do { (thrown, s) \<leftarrow> build_with ?a (create ATTRIBUTE_NODE (Some nm) (Some t)) (Some c) (with_locals s);
            if thrown then Some (None, s) else Some (Some (Some c), s) }"
          using v attrib by (simp add: node_case_def createAttribute_def, intro arg_cong2 [of _ _ _ _ Option.bind] ext) auto
        obtain s' where s': "build_node v (Some c) s = Some (Some (Some c), s')" "heap s' = referred b (-2) h'" "same_objs s s'"
          using build_node_local [OF s _ nc _ new h'] by blast
        show ?thesis using s' bd' [OF same_objs_ok [OF s s'(3)] s'(2)] attrib(4) c by auto
      qed
    qed
  qed
qed

text \<open>The frames that are left at the end.\<close>

lemma framed_close:
  "framed h K A {} root [] fs path \<Longrightarrow> close_frames fs = Some d \<Longrightarrow> path \<noteq> [] \<and> holds h K A {} d (last path)"
proof (induction fs arbitrary: path rule: close_frames.induct)
  case 1
  then show ?case by simp
next
  case (2 n as cs)
  then obtain c where "path = [c]" by (cases path; cases "tl path") auto
  then show ?case using 2 by (auto intro!: holds_element)
next
  case (3 n as cs m bs ds fs)
  then obtain c path1 where path: "path = c # path1" by (cases path) auto
  from framed_end [OF 3(2) [unfolded path], of "{}"]
  have "framed h K A {} root [] ((m, bs, ds @ [Element n as cs]) # fs) path1" by simp
  then have "path1 \<noteq> [] \<and> holds h K A {} d (last path1)" using 3(1,3) by simp
  then show ?case using path by simp
qed

section \<open>The whole document\<close>

lemma refuse_building:
  assumes bd: "building s root cur fs" and r: "objs s r = Some \<lparr>nact = Some root, ownerNode = r, ownerSub = r\<rparr>"
  shows "\<exists>s'. refuse r s = Some (Refused s')"
proof -
  obtain K A where ok: "dom_ok (heap s) K A" "acts (heap s) root \<noteq> None" using bd unfolding building_def by blast
  then obtain h where "do { h \<leftarrow> deleteNodeAct root (heap s); free_act root h } = Some h" using root_freed by blast
  then show ?thesis using r
    by (auto simp: refuse_def deleteDocumentTree_def on_heap_def set_obj_def delete_obj_def)
qed

lemma build_loop_frames:
  assumes "building s root cur fs" "objs s r = Some \<lparr>nact = Some root, ownerNode = r, ownerSub = r\<rparr>" "read_loop N n v fs p = Some res"
  shows "case res of
      Unfinished \<Rightarrow> build_loop N n v r cur p s = Some Building
    | Failed \<Rightarrow> \<exists>s'. build_loop N n v r cur p s = Some (Refused s')
    | Parsed d \<Rightarrow> \<exists>s' K A. build_loop N n v r cur p s = Some (Built r s') \<and> same_objs s s' \<and> objs_ok s' \<and>
        dom_ok (heap s') K A \<and> holds (heap s') K A {} d root \<and> \<not> Found (heap s')"
  using assms
proof (induction n arbitrary: s cur fs v p)
  case 0
  then show ?case by simp
next
  case (Suc n)
  show ?case
  proof (cases "getNextNode N v p")
    case None
    then show ?thesis using Suc.prems(3) by simp
  next
    case (Some st)
    show ?thesis
    proof (cases st)
      case Reading
      then show ?thesis using Some Suc.prems(3) by simp
    next
      case Wrong
      then show ?thesis using Some Suc.prems(3) refuse_building [OF Suc.prems(1,2)] by simp
    next
      case (Node v1 p1)
      then obtain r1 where r1: "add_node v1 fs = Some r1" using Some Suc.prems(3) by (auto split: option.splits)
      obtain res1 s1 where b: "build_node v1 cur s = Some (res1, s1)" "same_objs s s1"
        "case r1 of None \<Rightarrow> res1 = None \<and> building s1 root cur fs | Some fs' \<Rightarrow> \<exists>cur'. res1 = Some cur' \<and> building s1 root cur' fs'"
        using build_node_frames [OF Suc.prems(1) r1] by blast
      have root: "objs s1 r = Some \<lparr>nact = Some root, ownerNode = r, ownerSub = r\<rparr>" using b(2) Suc.prems(2) by (simp add: same_objs_def)
      show ?thesis
      proof (cases r1)
        case None
        then show ?thesis using b Node Some Suc.prems(3) r1 refuse_building [OF _ root] by auto
      next
        case (Some fs1)
        then obtain cur1 where cur1: "res1 = Some cur1" "building s1 root cur1 fs1" using b(3) by auto
        show ?thesis
        proof (cases "NodeType v1 = INVALID_NODE")
          case True
          then obtain d where d: "close_frames fs1 = Some d" "res = Parsed d"
            using Suc.prems(3) Node r1 Some \<open>getNextNode N v p = Some st\<close> by auto
          obtain K A path where k: "objs_ok s1" "dom_ok (heap s1) K A" "\<not> Found (heap s1)" "framed (heap s1) K A (set path) root [] fs1 path"
            "path \<noteq> [] \<longrightarrow> last path = root" using cur1(2) unfolding building_def by blast
          have "holds (heap s1) K A {} d root" using framed_close [OF framed_more [OF k(4)] d(1)] k(5) by auto
          moreover have "build_loop N (Suc n) v r cur p s = Some (Built r s1)"
            using True Node b(1) cur1(1) \<open>getNextNode N v p = Some st\<close> by simp
          ultimately show ?thesis using d(2) k(1-3) b(2) by auto
        next
          case False
          have step: "build_loop N (Suc n) v r cur p s = build_loop N n no_node r cur1 p1 s1"
            using False Node b(1) cur1(1) \<open>getNextNode N v p = Some st\<close> by simp
          have "read_loop N n no_node fs1 p1 = Some res"
            using False Suc.prems(3) Node r1 Some \<open>getNextNode N v p = Some st\<close> by simp
          from Suc.IH [OF cur1(2) root this] show ?thesis unfolding step
            using b(2) by (auto simp: same_objs_def split: document.splits) blast
        qed
      qed
    qed
  qed
qed

text \<open>The document node and its frame.\<close>

lemma building_start:
  assumes s: "objs_ok s" and ok: "dom_ok (heap s) K A" "\<not> Found (heap s)"
  shows "\<exists>r a s1. createDocument s = Some (r, s1) \<and> building s1 a (Some a) [document_frame] \<and> r = next_obj s \<and>
    objs s1 = (objs s)(r \<mapsto> \<lparr>nact = Some a, ownerNode = r, ownerSub = r\<rparr>)"
proof -
  obtain a h1 where new: "new_NodeAct DOCUMENT_NODE (Some ''#document'') None (heap s) = (a, h1)" by fastforce
  note nn = new_node [OF ok(1) new]
  let ?r = "next_obj s" and ?h = "referred a 1 h1"
  let ?s = "s\<lparr>heap := ?h, objs := (objs s)(?r \<mapsto> \<lparr>nact = Some a, ownerNode = ?r, ownerSub = ?r\<rparr>), next_obj := Suc ?r\<rparr>"
  have "createDocument s = Some (?r, ?s)" using new nn
    by (auto simp: createDocument_def create_def new_obj_def count_ref_referred)
  moreover have "building ?s a (Some a) [document_frame]"
  proof (rule buildingI [where path = "[a]"])
    show "objs_ok ?s" using s by (auto simp: objs_ok_def less_Suc_eq)
    show "heap ?s = referred a 1 h1" by simp
    show "dom_ok h1 K A" using nn by blast
    show "framed h1 K A (set [a]) a [] [document_frame] [a]" using nn by (auto simp: document_frame_def)
  qed (use nn ok(2) in auto)
  ultimately show ?thesis by auto
qed

text \<open>A new handle that is not used.\<close>

lemma new_obj_ok: "objs_ok s \<Longrightarrow> objs_ok (snd (new_obj None s))"
  by (auto simp: objs_ok_def new_obj_def less_Suc_eq)

lemma parse_builds:
  assumes s: "objs_ok s" and ok: "dom_ok (heap s) K A" "\<not> Found (heap s)" and parse: "UpnpParse_Buffer n v0 Buff1 = Some res"
  shows "case res of
      Unfinished \<Rightarrow> \<exists>s'. parse_buffer n v0 Buff1 s = Some (None, s')
    | Failed \<Rightarrow> \<exists>s'. parse_buffer n v0 Buff1 s = Some (Some None, s')
    | Parsed d \<Rightarrow> \<exists>d' s' K' A' ob ow a. parse_buffer n v0 Buff1 s = Some (Some (Some d'), s') \<and> objs s' d' = Some ob \<and> nact ob = Some a \<and>
        ownerSub ob \<noteq> d' \<and> objs s' (ownerSub ob) = Some ow \<and> nact ow = Some a \<and> acts (heap s') a \<noteq> None \<and>
        dom_ok (heap s') K' A' \<and> holds (heap s') K' A' {} d a \<and> \<not> Found (heap s')"
proof (cases "Buff1 = []")
  case True
  then show ?thesis using parse by (simp add: UpnpParse_Buffer_def parse_buffer_def)
next
  case False
  let ?s0 = "snd (new_obj None s)" and ?v = "v0\<lparr>NodeName := None, NodeValue := None\<rparr>"
  have s0: "dom_ok (heap ?s0) K A" "\<not> Found (heap ?s0)" using ok by (simp_all add: new_obj_def)
  obtain r a s1 where r: "createDocument ?s0 = Some (r, s1)" "building s1 a (Some a) [document_frame]" "r = next_obj ?s0"
    "objs s1 = (objs ?s0)(r \<mapsto> \<lparr>nact = Some a, ownerNode = r, ownerSub = r\<rparr>)"
    using building_start [OF new_obj_ok [OF s] s0] by blast
  have loop: "read_loop n n ?v [document_frame] (new_parser Buff1) = Some res"
    using parse False by (simp add: UpnpParse_Buffer_def ReadDocumentFileOrBuffer_def)
  have pb: "parse_buffer n v0 Buff1 s = do { b \<leftarrow> build_loop n n ?v r (Some a) (new_parser Buff1) s1;
      (case b of
           Building \<Rightarrow> Some (None, ?s0)
         | Refused s \<Rightarrow> Some (Some None, s)
         | Built root u \<Rightarrow> do { u \<leftarrow> sub_assign (next_obj s) root u; Some (Some (Some (next_obj s)), u) }) }"
    using False r(1,4) unfolding parse_buffer_def read_document_def new_obj_def snd_conv by simp
  have "objs s1 r = Some \<lparr>nact = Some a, ownerNode = r, ownerSub = r\<rparr>" using r(4) by simp
  note res = build_loop_frames [OF r(2) this loop]
  show ?thesis
  proof (cases res)
    case (Parsed d)
    then obtain s2 K' A' where s2: "build_loop n n ?v r (Some a) (new_parser Buff1) s1 = Some (Built r s2)" "same_objs s1 s2"
      "dom_ok (heap s2) K' A'" "holds (heap s2) K' A' {} d a" "\<not> Found (heap s2)" using res by auto
    let ?h = "next_obj s"
    have ne: "?h \<noteq> r" using r(3) by (simp add: new_obj_def)
    have h: "objs s2 ?h = Some \<lparr>nact = None, ownerNode = ?h, ownerSub = ?h\<rparr>" "objs s2 r = Some \<lparr>nact = Some a, ownerNode = r, ownerSub = r\<rparr>"
      using s2(2) r(4) ne by (simp_all add: same_objs_def new_obj_def)
    have alive: "acts (heap s2) a \<noteq> None" using s2(4) by (cases rule: holds.cases) auto
    let ?s = "s2\<lparr>heap := referred a 1 (heap s2), objs := (objs s2)(?h \<mapsto> \<lparr>nact = Some a, ownerNode = ?h, ownerSub = r\<rparr>)\<rparr>"
    have "sub_assign ?h r s2 = Some ?s" using h ne alive by (auto simp: sub_assign_def set_obj_def count_ref_referred)
    then have "parse_buffer n v0 Buff1 s = Some (Some (Some ?h), ?s)" using pb s2(1) by simp
    moreover have "dom_ok (heap ?s) K' A'" using referred_ok [OF s2(3)] by simp
    moreover have "holds (heap ?s) K' A' {} d a"
      using holds_kept [OF s2(4), of "referred a 1 (heap s2)" K' A'] by (simp add: same_info_def referred_info)
    moreover have "acts (heap ?s) a \<noteq> None" "\<not> Found (heap ?s)" using alive s2(5) by (auto simp: referred_def)
    ultimately show ?thesis using Parsed h ne by fastforce
  qed (use res pb in auto)
qed

end
