(* ===== verification/Dom_Properties.thy ===== *)
theory Dom_Properties imports Dom_Reader Xml_Errors begin

text \<open>
  The properties of the DOM nodes and of their C interface, each with a concrete heap it is applied to.
\<close>

section \<open>An example\<close>

text \<open>A document with two children, and one element that is not in it.\<close>

definition example_node :: "NODE_TYPE \<Rightarrow> string \<Rightarrow> nat \<Rightarrow> NodeAct" where
  "example_node nt name ow = \<lparr>NA_NodeName = Some name, NA_NodeValue = None, NA_NodeType = nt, ParentNode = None, FirstChild = None,
     LastChild = None, OwnerNode = ow, NextSibling = None, PrevSibling = None, FirstAttr = None, LastAttr = None, RefCount = 1\<rparr>"

definition example :: "bool \<Rightarrow> dom_heap" where
  "example found = \<lparr>acts =
     [0 \<mapsto> (example_node DOCUMENT_NODE ''#document'' 0)\<lparr>FirstChild := Some 1, LastChild := Some 2\<rparr>,
      1 \<mapsto> (example_node ELEMENT_NODE ''a'' 0)\<lparr>ParentNode := Some 0, NextSibling := Some 2\<rparr>,
      2 \<mapsto> (example_node ELEMENT_NODE ''b'' 0)\<lparr>ParentNode := Some 0, PrevSibling := Some 1\<rparr>,
      3 \<mapsto> example_node ELEMENT_NODE ''c'' 3], next_id = 4, Found = found\<rparr>"

definition example_kids :: "nat \<Rightarrow> nat list" where
  "example_kids a = (if a = 0 then [1, 2] else [])"

lemma example_below: "below example_kids = {(1, 0), (2, 0)}"
  by (auto simp: below_def example_kids_def)

lemma example_above: "(x, y) \<in> (below example_kids)\<^sup>+ \<Longrightarrow> y = 0 \<and> x \<in> {1, 2}"
  unfolding example_below by (induction rule: trancl_induct) auto

lemma example_ok: "dom_ok (example found) example_kids (\<lambda>_. [])"
proof -
  have "acyclic (below example_kids)" using example_above by (fastforce simp: acyclic_def)
  then show ?thesis
    by (auto simp: dom_ok_def lists_ok_def shape_ok_def example_def example_node_def example_kids_def is_attribute_def split: if_splits)
qed

lemma example_apart: "(1, 3) \<notin> (below example_kids)\<^sup>*"
  using example_above by (fastforce simp: rtrancl_eq_or_trancl)

lemma example_nodes:
  "\<exists>t. acts (example f) 1 = Some t \<and> OwnerNode t = 0 \<and> NA_NodeType t = ELEMENT_NODE"
  "\<exists>t. acts (example f) 3 = Some t \<and> ParentNode t = None \<and> PrevSibling t = None \<and> NA_NodeType t = ELEMENT_NODE"
  "acts (example f) 0 \<noteq> None" "acts (example f) 2 \<noteq> None" "Found (example f) = f"
  by (simp_all add: example_def example_node_def)

definition example_state :: dom_state where
  "example_state = \<lparr>heap = example False, objs = [0 \<mapsto> \<lparr>nact = Some 0, ownerNode = 0, ownerSub = 1\<rparr>,
     1 \<mapsto> \<lparr>nact = Some 0, ownerNode = 1, ownerSub = 1\<rparr>, 2 \<mapsto> \<lparr>nact = Some 1, ownerNode = 2, ownerSub = 2\<rparr>,
     3 \<mapsto> \<lparr>nact = Some 2, ownerNode = 3, ownerSub = 3\<rparr>], lists = (\<lambda>_. None), maps = (\<lambda>_. None), next_obj = 4\<rparr>"

section \<open>The tree\<close>

text \<open>
  C10. Appending a node, as long as no node has been moved yet: \<open>Found\<close>, which is static and never reset, is not set
  (\<open>appendChild_after_move\<close> is what happens then).  The node it is appended to is no attribute and has an owner; the new node has no
  parent and does not contain the node it is appended to; an attribute has nothing below it and goes to an element or to a node
  without a parent; and only an element brings attributes of its own.  Then the node is the last child, or attribute,
  names, values and types stay, only the count of the owner grows, and the lists of siblings stay consistent.
\<close>

theorem appendChild_appends:
  assumes "dom_ok h K A" "\<not> Found h" "acts h this = Some t" "acts h (OwnerNode t) \<noteq> None"
    and "acts h new = Some n" "ParentNode n = None" "(this, new) \<notin> (below K)\<^sup>*"
    and "NA_NodeType t \<noteq> ATTRIBUTE_NODE"
      "NA_NodeType n = ATTRIBUTE_NODE \<longrightarrow> K new = [] \<and> A new = [] \<and> (NA_NodeType t = ELEMENT_NODE \<or> ParentNode t = None)"
      "A new \<noteq> [] \<longrightarrow> NA_NodeType n = ELEMENT_NODE"
  shows "\<exists>h'. appendChild this (Some new) h = Some (None, h') \<and> kept new (OwnerNode t) h h' \<and>
    (if NA_NodeType n = ATTRIBUTE_NODE then dom_ok h' K (A(this := A this @ [new])) else dom_ok h' (K(this := K this @ [new])) A)"
  by (rule append_node) (fact assms)+

theorem appendChild_appends_witness:
  "\<exists>h'. appendChild 1 (Some 3) (example False) = Some (None, h') \<and> kept 3 0 (example False) h' \<and>
    dom_ok h' (example_kids(1 := [3])) (\<lambda>_. [])"
proof -
  obtain t n where tn: "acts (example False) 1 = Some t" "OwnerNode t = 0" "NA_NodeType t = ELEMENT_NODE"
    "acts (example False) 3 = Some n" "ParentNode n = None" "NA_NodeType n = ELEMENT_NODE"
    using example_nodes(1,2) [of False] by blast
  show ?thesis using appendChild_appends [OF example_ok _ tn(1) _ tn(4,5) example_apart] tn example_nodes(3,5) [of False]
    by (simp add: example_kids_def)
qed

text \<open>C13. Taking out a child: it is in no list any more, its neighbours are joined, and everything else stays.\<close>

theorem removeChild_removes:
  assumes "dom_ok h K A" "old \<in> set (K this)"
  shows "\<exists>h'. removeChild this (Some old) h = Some (None, h') \<and> dom_ok h' (K(this := remove1 old (K this))) A \<and>
    next_id h' = next_id h \<and> Found h' = Found h \<and> (\<forall>a. map_option info (acts h' a) = map_option info (acts h a))"
  by (rule child_removed) (fact assms)+

theorem removeChild_removes_witness:
  "\<exists>h'. removeChild 0 (Some 1) (example False) = Some (None, h') \<and> dom_ok h' (example_kids(0 := [2])) (\<lambda>_. [])"
  using removeChild_removes [OF example_ok, of 1 0 False] by (auto simp: example_kids_def)

text \<open>
  C38. A new node inserted before the child \<open>ref\<close>: the children before \<open>ref\<close> are lost from the list, because the new node
  never gets a previous sibling.
\<close>

theorem insertBefore_drops:
  assumes "dom_ok h K A" "K this = us @ ref # vs" "acts h new = Some n" "ParentNode n = None" "PrevSibling n = None"
      "NA_NodeType n \<noteq> ATTRIBUTE_NODE" "new \<noteq> this"
  shows "\<exists>h' t'. insertBefore this (Some new) (Some ref) h = Some (None, h') \<and> acts h' this = Some t' \<and>
    chain (acts h') (FirstChild t') (new # ref # vs)"
  by (rule siblings_dropped) (fact assms)+

theorem insertBefore_drops_witness:
  "\<exists>h' t'. insertBefore 0 (Some 3) (Some 2) (example False) = Some (None, h') \<and> acts h' 0 = Some t' \<and>
    chain (acts h') (FirstChild t') [3, 2]"
proof -
  obtain n where n: "acts (example False) 3 = Some n" "ParentNode n = None" "PrevSibling n = None" "NA_NodeType n = ELEMENT_NODE"
    using example_nodes(2) [of False] by blast
  show ?thesis using insertBefore_drops [OF example_ok _ n(1-3), of 0 "[1]" 2 "[]"] n(4) by (simp add: example_kids_def)
qed

text \<open>C39. After a node was moved once, \<open>Found\<close> stays set and no node without a parent can be appended any more: the NULL parent is used.\<close>

theorem appendChild_after_move:
  assumes "dom_ok h K A" "Found h" "acts h this = Some t" "acts h (OwnerNode t) \<noteq> None"
    and "acts h new = Some n" "ParentNode n = None"
  shows "appendChild this (Some new) h = None"
  by (rule append_after_move) (fact assms)+

theorem appendChild_after_move_witness: "appendChild 1 (Some 3) (example True) = None"
  using appendChild_after_move [OF example_ok] example_nodes [of True] by metis

text \<open>
  C11. \<open>deleteNodeAct\<close> returns, and exactly the nodes below the node and their attributes are freed, each once; the node itself has no
  children any more, and nothing else is written.
\<close>

theorem deleteNodeAct_frees:
  assumes "dom_ok h K A" "acts h this \<noteq> None"
  shows "deleteNodeAct this h = Some (without (tree_of K A this)
    (h\<lparr>acts := (\<lambda>a. if a = this \<and> K this \<noteq> [] then map_option (\<lambda>n. n\<lparr>FirstChild := None, LastChild := None\<rparr>) (acts h a) else acts h a)\<rparr>))"
  by (rule nodes_freed) (fact assms)+

theorem deleteNodeAct_frees_witness:
  "\<exists>h'. deleteNodeAct 0 (example False) = Some h' \<and> acts h' 1 = None \<and> acts h' 3 \<noteq> None"
proof -
  have "(1, 0) \<in> below example_kids" by (simp add: example_below)
  moreover have "3 \<notin> nodes_under example_kids 0" using example_above [of 3 0] by (auto simp: nodes_under_def)
  ultimately show ?thesis using deleteNodeAct_frees [OF example_ok, of False 0]
      example_nodes(2,3) [of False] by (auto simp: tree_of_def nodes_under_def)
qed

section \<open>Handles\<close>

text \<open>
  C12. \<open>UpnpDocument_free\<close> frees the root of the document, the nodes below it, their attributes and both objects of the handle, each once,
  and nothing else.
\<close>

theorem UpnpDocument_free_frees:
  assumes "dom_ok (heap s) K A" "objs s d = Some n" "nact n = Some a" "ownerSub n \<noteq> d"
    and "objs s (ownerSub n) = Some ow" "nact ow = Some a" "acts (heap s) a \<noteq> None"
  shows "UpnpDocument_free (Some d) s =
    Some (s\<lparr>heap := without (insert a (tree_of K A a)) (heap s), objs := (objs s)(d := None, ownerSub n := None)\<rparr>)"
  by (rule document_freed) (fact assms)+

theorem UpnpDocument_free_frees_witness:
  "\<exists>s. UpnpDocument_free (Some 0) example_state = Some s \<and> objs s 0 = None \<and> objs s 1 = None \<and> acts (heap s) 0 = None"
proof -
  have "dom_ok (heap example_state) example_kids (\<lambda>_. [])" using example_ok by (simp add: example_state_def)
  from UpnpDocument_free_frees [OF this, of 0] show ?thesis by (simp add: example_state_def example_def)
qed

text \<open>
  C40. When the node given as a child is not one, the C functions free the handle they made twice: an object that refers to
  nothing is its own owner.
\<close>

theorem wrong_child_frees_twice:
  assumes "objs_ok s" "objs s this = Some t" "nact t = Some a" "acts (heap s) a = Some m"
    and "objs s newChild = Some n" "objs s child = Some r" "nact r = Some c" "findNode a (Some c) (heap s) = Some False"
  shows "UpnpNode_insertBefore this newChild child s = None \<and> UpnpNode_replaceChild this newChild child s = None \<and>
    UpnpNode_removeChild this child s = None"
  by (rule not_found_double_free) (fact assms)+

theorem wrong_child_frees_twice_witness: "UpnpNode_removeChild 2 3 example_state = None"
proof -
  have "findNode 1 (Some 2) (example False) = Some False"
    by (rule findNode_none [OF dom_lists [OF example_ok]]) (simp_all add: example_def example_kids_def)
  then show ?thesis using wrong_child_frees_twice [of example_state 2 _ 1 _ 2 _ 3 _ 2]
    by (simp add: example_state_def objs_ok_def example_def)
qed

section \<open>The parser\<close>

text \<open>
  C9. As long as no node has been moved by \<open>appendChild\<close> (\<open>Found\<close>, which is static and never reset, is not set; see
  \<open>appendChild_after_move\<close>) and the nodes in memory are consistent, the parser that builds nodes refines the one that builds frames.  It is
  unfinished or refuses exactly when that one does, and for a document it returns a handle whose node is the root of
  that document, in a consistent tree; freeing the handle uses no freed memory.
\<close>

theorem parse_buffer_refines:
  assumes "objs_ok s" "dom_ok (heap s) K A" "\<not> Found (heap s)" "UpnpParse_Buffer n v0 Buff1 = Some res"
  shows "case res of
      Unfinished \<Rightarrow> \<exists>s'. parse_buffer n v0 Buff1 s = Some (None, s')
    | Failed \<Rightarrow> \<exists>s'. parse_buffer n v0 Buff1 s = Some (Some None, s')
    | Parsed d \<Rightarrow> \<exists>p s' K' A' ob a. parse_buffer n v0 Buff1 s = Some (Some (Some p), s') \<and> objs s' p = Some ob \<and> nact ob = Some a \<and>
        dom_ok (heap s') K' A' \<and> holds (heap s') K' A' {} d a \<and> UpnpDocument_free (Some p) s' \<noteq> None"
proof (cases res)
  case (Parsed d)
  then obtain p s' K' A' ob ow a where p: "parse_buffer n v0 Buff1 s = Some (Some (Some p), s')" "objs s' p = Some ob" "nact ob = Some a"
      "ownerSub ob \<noteq> p" "objs s' (ownerSub ob) = Some ow" "nact ow = Some a" "acts (heap s') a \<noteq> None"
      "dom_ok (heap s') K' A'" "holds (heap s') K' A' {} d a"
    using parse_builds [OF assms] by auto
  have "UpnpDocument_free (Some p) s' \<noteq> None" using document_freed [OF p(8) p(2-7)] by simp
  then show ?thesis using p Parsed by auto
qed (use parse_builds [OF assms] in auto)

theorem parse_buffer_refines_witness:
  "\<exists>p s' K A ob a. parse_buffer 9 no_node ''<a><b>'' (example_state\<lparr>heap := no_nodes\<rparr>) = Some (Some (Some p), s') \<and> objs s' p = Some ob \<and>
    nact ob = Some a \<and> holds (heap s') K A {} (Element ''#document'' [] [Element ''a'' [] [Element ''b'' [] []]]) a"
proof -
  have s: "objs_ok (example_state\<lparr>heap := no_nodes\<rparr>)" by (simp add: objs_ok_def example_state_def)
  have h: "dom_ok (heap (example_state\<lparr>heap := no_nodes\<rparr>)) (\<lambda>_. []) (\<lambda>_. [])" "\<not> Found (heap (example_state\<lparr>heap := no_nodes\<rparr>))"
    using no_nodes_ok by (simp_all add: no_nodes_def)
  from parse_buffer_refines [OF s h unclosed_accepted] show ?thesis by auto blast
qed

end
