(* ===== verification/Spec2Isabelle.thy ===== *)
theory Spec2Isabelle imports Http_Message Http_Transfer Membuffer Timer Handles Gena_Order Ssdp_Listener Api_Client Xml_Errors Soap_Roundtrip Dom_Properties begin

text \<open>
  Verification of the UPnP SDK: a library with which devices announce themselves (SSDP), are described
  (XML over HTTP), are controlled (SOAP) and send events (GENA), and with which control points find and
  use them.  All paths below are relative to \<^verbatim>\<open>src/src\<close>.

  \<^bold>\<open>Conventions.\<close>  A definition has the name of the C function or structure it models.  A result of
  \<open>None\<close> at the outermost level is undefined behaviour of the program: a read or write outside a block, a
  NULL or freed pointer used.  So a theorem of the form \<open>f x = Some y\<close> states memory safety and the result
  together.  C integers are \<open>int\<close> with the wrap-around written out where the code can reach it;
  strings are lists of characters without the terminating NUL unless the text says otherwise, and
  \<open>block_of n s\<close> is \<^verbatim>\<open>strcpy\<close> into an array of \<open>n\<close> bytes.  What the library takes from outside is an argument:
  the outcomes of \<^verbatim>\<open>malloc\<close>, the sockets (\<open>cenv\<close>, \<open>net_env\<close>), the clock and \<^verbatim>\<open>uname\<close> (\<open>host_info\<close>), the
  resolver, the thread pool, and the application's callbacks.  The theories on SOAP take
  the XML parser and printer as a record \<open>xml_lib\<close>, which \<open>Soap_Roundtrip\<close> fills with the modelled ones.

  \<^bold>\<open>Shared theories.\<close>  \<open>Prelude\<close> has the lemmas on lists and options, \<open>C_Text\<close> the string functions of C,
  \<open>Keyed_List\<close> the locale of lists searched by a key, interpreted on the subscription lists of
  devices (\<open>Service_Table\<close>) and control points (\<open>Client_Table\<close>).

  \<^bold>\<open>HTTP client\<close> (\<^verbatim>\<open>genlib/http_client/http_client.c\<close>).  \<open>Http_Scan\<close>: tokens and scanners on a byte store.
  \<open>Http_Uri\<close>: hosts, ports, URIs, lists of URLs.  \<open>Http_Resolve\<close>: relative URLs; the in-place removal of dots is
  refined by an algorithm on path segments, which on absolute paths is the one its description gives; where the code
  deviates from that is in \<open>remove_dots_deviates\<close>.  \<open>Http_Message\<close>: status and request lines, headers; parsing
  inverts printing for header values without white space at their ends, and reads go at most one byte past the message.  \<open>Http_Transfer\<close>: a whole exchange over a socket that
  delivers its bytes in any segments, with lengths, chunks and their errors.

  \<^bold>\<open>Utilities\<close>.  \<open>Membuffer\<close> (\<^verbatim>\<open>genlib/util/membuffer.c\<close>): a growing buffer that refines strings, while memory
  suffices and its callers respect \<open>buf_legal\<close>.  \<open>Timer\<close>
  (\<^verbatim>\<open>genlib/timer_thread\<close>): the timer thread as an inductive step relation over the thread and its clients, with
  no event lost, no event early, and every due event handed over within two steps of the thread.

  \<^bold>\<open>Eventing\<close> (\<^verbatim>\<open>gena\<close>, \<^verbatim>\<open>genlib/service_table\<close>, \<^verbatim>\<open>genlib/client_table\<close>).  \<open>Service_Tree\<close> and \<open>Service_Table\<close> build and
  search the table of services and their subscriptions; \<open>Client_Table\<close> the one of a control point.  \<open>Gena_Requests\<close> serves
  SUBSCRIBE and UNSUBSCRIBE (\<open>valid_subscription\<close> says which requests are accepted), \<open>Gena_Notify\<close> schedules and sends events, \<open>Gena_Keys\<close>, \<open>Gena_System\<close> and \<open>Gena_Order\<close>
  interleave all of this as steps of a system in which events are proved to leave in order and no job to use freed
  memory.  \<open>Gena_Client\<close> has the subscriptions of a control point, \<open>Gena_Callback\<close> the dispatch of requests.

  \<^bold>\<open>Discovery\<close> (\<^verbatim>\<open>ssdp\<close>).  \<open>Http_Date\<close>, \<open>Ssdp_Parser\<close> and \<open>Ssdp_Packets\<close> print and parse the packets; parsing inverts printing for
  every message of a device and of a search: \<open>announces\<close> pins the two names a packet is printed with and what the parser makes of
  them (kind, UDN, device type or service type).  \<open>Ssdp_Threads\<close> has the search thread with its rounds of \<^verbatim>\<open>select\<close> and
  the jobs of received packets, \<open>Ssdp_Listener\<close> the life of the listening thread as interleaved steps,
  with the sockets that failed starts leave open.

  \<^bold>\<open>Control\<close> (\<^verbatim>\<open>soap/soap.c\<close>).  \<open>Soap\<close> has the requests of a control point and the text searches, \<open>Soap_Server\<close> the answers of a
  device.  An action is followed from the caller to the callback of the device and back.

  \<^bold>\<open>XML\<close> (\<^verbatim>\<open>upnpdom/Parser.cpp\<close>, \<^verbatim>\<open>Document.cpp\<close>, \<^verbatim>\<open>domCif.cpp\<close>).  \<open>Xml_Chars\<close> has the tables of characters and UTF-8, \<open>Xml_Tokens\<close> the tokens, \<open>Xml_Reader\<close>
  the nodes and the tree built of them, \<open>Xml_Print\<close> the printer.  \<open>Xml_Laws\<close> and \<open>Xml_Roundtrip\<close> show that parsing inverts printing;
  \<open>Soap_Roundtrip\<close> uses that for the whole way of an action.  \<open>Xml_Errors\<close> has the texts on which the parser goes wrong.

  \<^bold>\<open>DOM\<close> (\<^verbatim>\<open>upnpdom\<close>).  \<open>Dom_Heap\<close> has the nodes as objects in memory (\<^verbatim>\<open>NodeAct.cpp\<close>), \<open>Dom_Node\<close> the objects that refer to them and count
  as references, \<open>Dom_Api\<close> the C interface.  \<open>Dom_Tree\<close> states when a heap holds trees (\<open>dom_ok\<close>: each node with its lists of
  children and attributes) and that appending keeps it, as long as the static variable \<open>Found\<close>
  is not set, which it is for good once a node was moved; \<open>Dom_Change\<close> is about taking out, moving and inserting, \<open>Dom_Delete\<close> about deleting
  trees, \<open>Dom_Handles\<close> about handles and their counts.  \<open>Dom_Reader\<close> has the parser as it makes these nodes and shows that it refines
  \<open>Xml_Reader\<close>, whose frames are the nodes from the current one up to the document.  \<open>Dom_Properties\<close> collects the properties.  The tree the
  other theories read is the datatype \<open>dom\<close>, an element with its name, attributes and children.

  \<^bold>\<open>The API\<close> (\<^verbatim>\<open>api/upnpapi.c\<close>).  \<open>Handles\<close>: the handle table, an interpretation of the locale \<open>slot_store\<close>.
  \<open>Dom_Search\<close> (\<^verbatim>\<open>upnpdom/Node.cpp\<close>): the search of elements by name.  \<open>Api_Download\<close>: downloads and the choice of the
  description.  \<open>Api_Device\<close>: root devices, their announcements, periodic advertisements, events; \<open>due_packets\<close> lists
  what a call has to send for a description, UDN and name of each packet in order, \<open>new_record\<close> is the record of a new
  device, and the inductive set \<open>api_reachable\<close> gives the invariant of the handle table.  \<open>Api_Client\<close>: control points, their
  asynchronous calls, and the callback that turns packets into calls of the application; here the parts of the
  library are composed, from the packet a device sends to the event the other application sees.

  \<^bold>\<open>Fuel.\<close>  Loops are structural or have a measure.  \<open>notify_all_loop\<close> (one round per subscription) and
  \<open>unregister_loop\<close> (one round per subscription of the client) take fuel: the length of the list plus one, which the theorems on
  them show to be enough.  The parser may run for ever, so \<open>getNextNode\<close> and
  \<open>read_loop\<close> take fuel, one unit per turn and per node; the length of the text is enough for a printed document, and more
  fuel never changes a result.  Loops over the lists of nodes are partial functions, with \<open>None\<close> for a list that does not end.

  \<^bold>\<open>Not modelled.\<close>  The start and the end of the library (\<^verbatim>\<open>UpnpInit\<close>, \<^verbatim>\<open>UpnpFinish\<close>), which start and stop threads; \<^verbatim>\<open>urlconfig\<close>, a parameter of
  the model; \<^verbatim>\<open>upnptools.c\<close>, builders of documents; the internal web server (\<^verbatim>\<open>net/http\<close>, \<^verbatim>\<open>miniserver\<close>) and its C++ utilities, of
  which only the handlers it calls are modelled; the thread pool, whose jobs are steps of the model; debug output; the sample
  programs.  Of the C interface of the DOM the reading of files and the handles made by a search are left out.
\<close>

end
